(* ===== verification/Prelude.thy ===== *)
theory Prelude
  imports Main "HOL-Library.AList" "HOL-Library.Multiset" "HOL-Library.Char_ord"
begin

text \<open>
  The shared base of the development: the fallible-result combinators that stand for
  Rust's \<^verbatim>\<open>?\<close> operator and \<^verbatim>\<open>collect::<Result<Vec<_>, _>>()\<close>, byte-string helpers that
  stand for the \<^verbatim>\<open>str\<close> methods the sources call, and the generic lemmas about them.
  A fallible Rust function returns \<open>'e + 'a\<close>: \<open>Inl\<close> is \<^verbatim>\<open>Err\<close>, \<open>Inr\<close> is \<^verbatim>\<open>Ok\<close>.
\<close>

named_theorems result_simps \<open>rewrite rules for the result combinators\<close>

section \<open>Results\<close>

fun rbind :: "'e + 'a \<Rightarrow> ('a \<Rightarrow> 'e + 'b) \<Rightarrow> 'e + 'b" where
  "rbind (Inl e) f = Inl e"
| "rbind (Inr x) f = f x"

definition ensure :: "bool \<Rightarrow> 'e \<Rightarrow> 'e + unit" where
  "ensure b e = (if b then Inr () else Inl e)"

definition or_error :: "'e \<Rightarrow> 'a option \<Rightarrow> 'e + 'a" where
  "or_error e x = (case x of None \<Rightarrow> Inl e | Some y \<Rightarrow> Inr y)"

definition map_err :: "('e \<Rightarrow> 'f) \<Rightarrow> 'e + 'a \<Rightarrow> 'f + 'a" where
  "map_err g r = (case r of Inl e \<Rightarrow> Inl (g e) | Inr x \<Rightarrow> Inr x)"

definition is_ok :: "'e + 'a \<Rightarrow> bool" where
  "is_ok r = (case r of Inl _ \<Rightarrow> False | Inr _ \<Rightarrow> True)"

fun try_map :: "('a \<Rightarrow> 'e + 'b) \<Rightarrow> 'a list \<Rightarrow> 'e + 'b list" where
  "try_map f [] = Inr []"
| "try_map f (x # xs) = rbind (f x) (\<lambda>y. rbind (try_map f xs) (\<lambda>ys. Inr (y # ys)))"

fun try_each :: "('a \<Rightarrow> 'e + unit) \<Rightarrow> 'a list \<Rightarrow> 'e + unit" where
  "try_each f [] = Inr ()"
| "try_each f (x # xs) = rbind (f x) (\<lambda>_. try_each f xs)"

fun try_option :: "('a \<Rightarrow> 'e + 'b) \<Rightarrow> 'a option \<Rightarrow> 'e + 'b option" where
  "try_option f None = Inr None"
| "try_option f (Some x) = rbind (f x) (\<lambda>y. Inr (Some y))"

lemma rbind_Inr_iff [simp, result_simps]:
  "rbind r f = Inr y \<longleftrightarrow> (\<exists>x. r = Inr x \<and> f x = Inr y)"
  by (cases r) auto

lemma rbind_Inl_iff [result_simps]:
  "rbind r f = Inl e \<longleftrightarrow> r = Inl e \<or> (\<exists>x. r = Inr x \<and> f x = Inl e)"
  by (cases r) auto

lemma rbind_split:
  "P (rbind r f) \<longleftrightarrow> (\<forall>e. r = Inl e \<longrightarrow> P (Inl e)) \<and> (\<forall>x. r = Inr x \<longrightarrow> P (f x))"
  by (cases r) auto

lemma rbind_assoc: "rbind (rbind r f) g = rbind r (\<lambda>x. rbind (f x) g)"
  by (cases r) auto

lemma ensure_Inr_iff [simp, result_simps]: "ensure b e = Inr u \<longleftrightarrow> b"
  by (auto simp: ensure_def)

lemma ensure_Inl_iff [simp, result_simps]: "ensure b e = Inl e' \<longleftrightarrow> \<not> b \<and> e' = e"
  by (auto simp: ensure_def)

lemma or_error_Inr_iff [simp, result_simps]: "or_error e x = Inr y \<longleftrightarrow> x = Some y"
  by (auto simp: or_error_def split: option.splits)

lemma or_error_Inl_iff [result_simps]: "or_error e x = Inl e' \<longleftrightarrow> x = None \<and> e' = e"
  by (auto simp: or_error_def split: option.splits)

lemma map_err_Inr_iff [simp, result_simps]: "map_err g r = Inr x \<longleftrightarrow> r = Inr x"
  by (auto simp: map_err_def split: sum.splits)

lemma map_err_Inl_iff [result_simps]: "map_err g r = Inl e \<longleftrightarrow> (\<exists>e'. r = Inl e' \<and> e = g e')"
  by (auto simp: map_err_def split: sum.splits)

lemma is_ok_iff [result_simps]: "is_ok r \<longleftrightarrow> (\<exists>x. r = Inr x)"
  by (auto simp: is_ok_def split: sum.splits)

lemma try_map_Inr_iff [result_simps]:
  "try_map f xs = Inr ys \<longleftrightarrow> list_all2 (\<lambda>x y. f x = Inr y) xs ys"
proof (induction xs arbitrary: ys)
  case Nil
  then show ?case by auto
next
  case (Cons x xs)
  then show ?case by (auto simp: list_all2_Cons1)
qed

lemma try_map_length: "try_map f xs = Inr ys \<Longrightarrow> length ys = length xs"
  by (simp add: try_map_Inr_iff list_all2_lengthD)

lemma try_map_ok: "(\<And>x. x \<in> set xs \<Longrightarrow> f x = Inr (g x)) \<Longrightarrow> try_map f xs = Inr (map g xs)"
  by (induction xs) auto

lemma try_each_Inr_iff [result_simps]:
  "try_each f xs = Inr u \<longleftrightarrow> (\<forall>x \<in> set xs. f x = Inr ())"
  by (induction xs) auto

lemma try_option_Inr_iff [result_simps]:
  "try_option f x = Inr y \<longleftrightarrow>
    (x = None \<and> y = None) \<or> (\<exists>a b. x = Some a \<and> y = Some b \<and> f a = Inr b)"
  by (cases x) auto

section \<open>Byte strings\<close>

text \<open>A Rust \<^verbatim>\<open>str\<close> is its UTF-8 bytes, one \<open>char\<close> per byte, so \<open>length\<close> is \<^verbatim>\<open>str::len\<close>.\<close>

definition strip_prefix :: "string \<Rightarrow> string \<Rightarrow> string option" where
  "strip_prefix p s = (if take (length p) s = p then Some (drop (length p) s) else None)"

definition starts_with :: "string \<Rightarrow> string \<Rightarrow> bool" where
  "starts_with p s = (take (length p) s = p)"

definition ends_with :: "string \<Rightarrow> string \<Rightarrow> bool" where
  "ends_with p s = (length p \<le> length s \<and> drop (length s - length p) s = p)"

fun split_on :: "char \<Rightarrow> string \<Rightarrow> string list" where
  "split_on c [] = [[]]"
| "split_on c (x # xs) =
     (if x = c then [] # split_on c xs
      else (case split_on c xs of [] \<Rightarrow> [[x]] | w # ws \<Rightarrow> (x # w) # ws))"

fun split_once :: "char \<Rightarrow> string \<Rightarrow> (string \<times> string) option" where
  "split_once c [] = None"
| "split_once c (x # xs) =
     (if x = c then Some ([], xs)
      else (case split_once c xs of None \<Rightarrow> None | Some (a, b) \<Rightarrow> Some (x # a, b)))"

definition ascii_digit :: "char \<Rightarrow> bool" where
  "ascii_digit c = (CHR ''0'' \<le> c \<and> c \<le> CHR ''9'')"

definition ascii_lower :: "char \<Rightarrow> bool" where
  "ascii_lower c = (CHR ''a'' \<le> c \<and> c \<le> CHR ''z'')"

definition ascii_upper :: "char \<Rightarrow> bool" where
  "ascii_upper c = (CHR ''A'' \<le> c \<and> c \<le> CHR ''Z'')"

definition ascii_hexdigit :: "char \<Rightarrow> bool" where
  "ascii_hexdigit c =
     (ascii_digit c \<or> (CHR ''a'' \<le> c \<and> c \<le> CHR ''f'') \<or> (CHR ''A'' \<le> c \<and> c \<le> CHR ''F''))"

definition ascii_space :: "char \<Rightarrow> bool" where
  "ascii_space c = (of_char c \<in> {9, 10, 11, 12, 13, 32 :: nat})"

text \<open>\<^verbatim>\<open>str::trim\<close>, on the ASCII part of Unicode white space.\<close>

definition trim :: "string \<Rightarrow> string" where
  "trim s = rev (dropWhile ascii_space (rev (dropWhile ascii_space s)))"

text \<open>\<^verbatim>\<open>str::split_whitespace\<close> and \<^verbatim>\<open>eq_ignore_ascii_case\<close>.\<close>

fun words :: "string \<Rightarrow> string list" where
  "words [] = [[]]"
| "words (x # xs) =
     (if ascii_space x then [] # words xs
      else (case words xs of [] \<Rightarrow> [[x]] | w # ws \<Rightarrow> (x # w) # ws))"

definition split_whitespace :: "string \<Rightarrow> string list" where
  "split_whitespace s = filter (\<lambda>w. w \<noteq> []) (words s)"

definition ascii_lowercase :: "char \<Rightarrow> char" where
  "ascii_lowercase c = (if ascii_upper c then char_of (of_char c + (32 :: nat)) else c)"

definition eq_ignore_ascii_case :: "string \<Rightarrow> string \<Rightarrow> bool" where
  "eq_ignore_ascii_case a b = (map ascii_lowercase a = map ascii_lowercase b)"

text \<open>The decimal text of an unsigned integer.\<close>

fun show_nat :: "nat \<Rightarrow> string" where
  "show_nat n =
     (if n < 10 then [char_of (48 + n)] else show_nat (n div 10) @ [char_of (48 + n mod 10)])"

declare show_nat.simps [simp del]

text \<open>
  The \<^verbatim>\<open>FromStr\<close> of an unsigned integer whose largest value is \<open>bound\<close>: an optional plus sign,
  then at least one digit and nothing else, and no overflow.
\<close>

definition digits_value :: "string \<Rightarrow> nat" where
  "digits_value ds = foldl (\<lambda>a c. a * 10 + (of_char c - 48)) 0 ds"

definition parse_unsigned :: "nat \<Rightarrow> string \<Rightarrow> nat option" where
  "parse_unsigned bound s =
     (let ds = (case s of [] \<Rightarrow> [] | c # r \<Rightarrow> if c = CHR ''+'' then r else s)
      in if ds = [] \<or> \<not> list_all ascii_digit ds \<or> bound < digits_value ds then None
         else Some (digits_value ds))"

lemma parse_unsigned_le: "parse_unsigned bound s = Some v \<Longrightarrow> v \<le> bound"
  by (auto simp: parse_unsigned_def Let_def split: if_splits)

lemma digits_value_append: "digits_value (s @ [c]) = digits_value s * 10 + (of_char c - 48)"
  by (simp add: digits_value_def)

lemma digits_value_show: "digits_value (show_nat n) = n"
proof (induction n rule: show_nat.induct)
  case (1 n)
  show ?case
  proof (cases "n < 10")
    case True
    then show ?thesis by (simp add: show_nat.simps [of n] digits_value_def)
  next
    case False
    have "n mod 10 < 208" using mod_less_divisor [of 10 n] by linarith
    then show ?thesis
      using 1 False by (simp add: show_nat.simps [of n] digits_value_append)
  qed
qed

lemma show_nat_inj: "show_nat a = show_nat b \<longleftrightarrow> a = b"
  by (metis digits_value_show)

lemma show_nat_digits: "c \<in> set (show_nat n) \<Longrightarrow> ascii_digit c"
proof (induction n rule: show_nat.induct)
  case (1 n)
  have digit: "ascii_digit (char_of (48 + m))" if "m < 10" for m :: nat
  proof -
    from that have "m \<in> {0, 1, 2, 3, 4, 5, 6, 7, 8, 9}" by auto
    then show ?thesis by (auto simp: ascii_digit_def less_eq_char_def)
  qed
  have "n mod 10 < 10" by simp
  from digit [OF this] digit [of n] 1 show ?case
    by (cases "n < 10") (auto simp: show_nat.simps [of n])
qed

lemma parse_unsigned_show:
  assumes "n \<le> bound"
  shows "parse_unsigned bound (show_nat n) = Some n"
proof -
  have "show_nat n \<noteq> []" by (simp add: show_nat.simps [of n])
  then obtain c r where cr: "show_nat n = c # r" by (cases "show_nat n") auto
  have "c \<noteq> CHR ''+''" using show_nat_digits [of c n] cr by (auto simp: ascii_digit_def less_eq_char_def)
  moreover have "list_all ascii_digit (show_nat n)" using show_nat_digits by (auto simp: list_all_iff)
  ultimately show ?thesis
    using assms digits_value_show [of n] cr by (simp add: parse_unsigned_def Let_def)
qed

lemma strip_prefix_Some_iff: "strip_prefix p s = Some r \<longleftrightarrow> s = p @ r"
  by (auto simp: strip_prefix_def) (metis append_take_drop_id)

lemma starts_with_iff: "starts_with p s \<longleftrightarrow> (\<exists>r. s = p @ r)"
  by (auto simp: starts_with_def) (metis append_take_drop_id)

lemma ends_with_iff: "ends_with p s \<longleftrightarrow> (\<exists>r. s = r @ p)"
  by (auto simp: ends_with_def) (metis append_take_drop_id)

lemma split_on_not_Nil [simp]: "split_on c s \<noteq> []"
  by (cases s) (auto split: list.splits)

lemma split_on_hd: "hd (split_on c s) = takeWhile (\<lambda>x. x \<noteq> c) s"
  by (induction s) (auto split: list.splits)

lemma split_on_plain: "c \<notin> set s \<Longrightarrow> split_on c s = [s]"
  by (induction s) auto

lemma trim_no_space:
  assumes "\<forall>c \<in> set s. \<not> ascii_space c"
  shows "trim s = s"
proof -
  have *: "dropWhile ascii_space t = t" if "\<forall>c \<in> set t. \<not> ascii_space c" for t
    using that by (cases t) auto
  show ?thesis using assms * [of s] * [of "rev s"] by (simp add: trim_def)
qed

lemma split_once_Some_iff:
  "split_once c s = Some (a, b) \<longleftrightarrow> s = a @ c # b \<and> c \<notin> set a"
proof (induction s arbitrary: a)
  case Nil
  then show ?case by simp
next
  case (Cons x s)
  show ?case
  proof (cases a)
    case Nil
    then show ?thesis by (auto split: option.split)
  next
    case (Cons y ys)
    then show ?thesis
      using Cons.IH [of ys] by (auto split: option.split)
  qed
qed

lemma split_once_None_iff: "split_once c s = None \<longleftrightarrow> c \<notin> set s"
  by (induction s) (auto split: option.splits)

section \<open>Lists without repetition\<close>

text \<open>A loop that inserts into a \<^verbatim>\<open>BTreeSet\<close> and refuses the first element already in it.\<close>

fun no_repeat :: "'e \<Rightarrow> 'a list \<Rightarrow> 'a list \<Rightarrow> 'e + unit" where
  "no_repeat e seen [] = Inr ()"
| "no_repeat e seen (x # xs) =
     (if x \<in> set seen then Inl e else no_repeat e (x # seen) xs)"

lemma no_repeat_Inr_iff [simp]:
  "no_repeat e seen xs = Inr u \<longleftrightarrow> distinct xs \<and> set xs \<inter> set seen = {}"
  by (induction xs arbitrary: seen) auto

section \<open>Association lists\<close>

lemma length_delete_less: "map_of m k = Some v \<Longrightarrow> length (AList.delete k m) < length m"
proof (induction m)
  case Nil
  then show ?case by simp
next
  case (Cons p m)
  have le: "length (AList.delete k m) \<le> length m"
    by (simp add: AList.delete_eq)
  show ?case
    using Cons le by (cases p) (auto simp: less_Suc_eq_le split: if_splits)
qed

lemma mset_delete_distinct:
  "distinct (map fst m) \<Longrightarrow> map_of m k = Some v \<Longrightarrow>
     mset m = add_mset (k, v) (mset (AList.delete k m))"
proof (induction m)
  case Nil
  then show ?case by simp
next
  case (Cons p m)
  obtain k' v' where p: "p = (k', v')" by (cases p)
  show ?case
  proof (cases "k' = k")
    case True
    with Cons.prems p have "k \<notin> fst ` set m" by auto
    then have "AList.delete k m = m" by (simp add: AList.delete_idem)
    with True Cons.prems p show ?thesis by simp
  next
    case False
    with Cons p show ?thesis by simp
  qed
qed

end
