(* ===== verification/Rahi_Types.thy ===== *)
theory Rahi_Types
  imports Prelude "HOL-Library.Word" "HOL-Library.List_Lexorder" "HOL-Library.Char_ord"
begin

text \<open>
  \<^verbatim>\<open>crates/rahi-types\<close>: the one error type of the workspace and its exit codes, the revision
  and fence counters, and the principal. A message is the owned \<^verbatim>\<open>String\<close> of the source; the
  model abbreviates each message to a tag that names the refusing branch, because the crate
  states that the variant, not the message, is the contract.
\<close>

section \<open>The error\<close>

datatype error =
    Validation string
  | NotFound string
  | Conflict string
  | Integrity string
  | Denied string
  | Unauthorized string
  | Stale string
  | Io string
  | Config string
  | Upstream string

definition EXIT_FAILURE :: int where "EXIT_FAILURE = 1"
definition EXIT_STALE :: int where "EXIT_STALE = 2"
definition EXIT_INFRA :: int where "EXIT_INFRA = 3"

fun exit_code :: "error \<Rightarrow> int" where
  "exit_code (Validation _) = EXIT_FAILURE"
| "exit_code (NotFound _) = EXIT_FAILURE"
| "exit_code (Conflict _) = EXIT_FAILURE"
| "exit_code (Integrity _) = EXIT_FAILURE"
| "exit_code (Denied _) = EXIT_FAILURE"
| "exit_code (Unauthorized _) = EXIT_FAILURE"
| "exit_code (Stale _) = EXIT_STALE"
| "exit_code (Io _) = EXIT_INFRA"
| "exit_code (Config _) = EXIT_INFRA"
| "exit_code (Upstream _) = EXIT_INFRA"

fun error_kind :: "error \<Rightarrow> string" where
  "error_kind (Validation _) = ''validation''"
| "error_kind (NotFound _) = ''not_found''"
| "error_kind (Conflict _) = ''conflict''"
| "error_kind (Integrity _) = ''integrity''"
| "error_kind (Denied _) = ''denied''"
| "error_kind (Unauthorized _) = ''unauthorized''"
| "error_kind (Stale _) = ''stale''"
| "error_kind (Io _) = ''io''"
| "error_kind (Config _) = ''config''"
| "error_kind (Upstream _) = ''upstream''"

fun message :: "error \<Rightarrow> string" where
  "message (Validation m) = m"
| "message (NotFound m) = m"
| "message (Conflict m) = m"
| "message (Integrity m) = m"
| "message (Denied m) = m"
| "message (Unauthorized m) = m"
| "message (Stale m) = m"
| "message (Io m) = m"
| "message (Config m) = m"
| "message (Upstream m) = m"

definition error_display :: "error \<Rightarrow> string" where
  "error_display e = error_kind e @ '': '' @ message e"

text \<open>The label alone decides the exit code, so a log line and a process status never disagree.\<close>

lemma error_kind_exit_code: "error_kind e = error_kind e' \<Longrightarrow> exit_code e = exit_code e'"
  by (cases e; cases e') simp_all

lemma error_kind_message_inj:
  "error_kind e = error_kind e' \<Longrightarrow> message e = message e' \<Longrightarrow> e = e'"
  by (cases e; cases e') simp_all

lemma exit_code_nonzero [simp]: "exit_code e \<noteq> 0"
  by (cases e) (simp_all add: EXIT_FAILURE_def EXIT_STALE_def EXIT_INFRA_def)

section \<open>Revisions\<close>

type_synonym u64 = "64 word"

datatype revision = Revision (revision_get: u64)

instantiation revision :: linorder
begin
definition less_eq_revision :: "revision \<Rightarrow> revision \<Rightarrow> bool" where
  "less_eq_revision a b = (revision_get a \<le> revision_get b)"
definition less_revision :: "revision \<Rightarrow> revision \<Rightarrow> bool" where
  "less_revision a b = (revision_get a < revision_get b)"
instance
  by standard
    (auto simp: less_eq_revision_def less_revision_def revision.expand)
end

definition ZERO :: revision where
  "ZERO = Revision 0"

text \<open>\<^verbatim>\<open>u64::saturating_add(1)\<close>.\<close>

definition revision_next :: "revision \<Rightarrow> revision" where
  "revision_next r =
     (if revision_get r = - 1 then Revision (- 1) else Revision (revision_get r + 1))"

lemma word_less_succ: "(x :: u64) \<noteq> - 1 \<Longrightarrow> x < x + 1"
  by (metis inc_less_eq_triv_imp linorder_less_linear word_le_less_eq)

lemma revision_next_strict: "revision_get r \<noteq> - 1 \<Longrightarrow> r < revision_next r"
  by (simp add: revision_next_def less_revision_def word_less_succ)

lemma revision_next_ge: "r \<le> revision_next r"
  using revision_next_strict [of r]
  by (cases "revision_get r = - 1")
    (auto simp: revision_next_def less_eq_revision_def less_revision_def)

section \<open>The principal\<close>

record principal =
  p_sub :: string
  p_email :: "string option"
  p_email_verified :: bool
  p_roles :: "string set"
  p_issued_at :: u64

definition verified_email :: "principal \<Rightarrow> string option" where
  "verified_email p = (if p_email_verified p then p_email p else None)"

definition email_unverified :: "principal \<Rightarrow> string option" where
  "email_unverified p = p_email p"

definition has_role :: "principal \<Rightarrow> string \<Rightarrow> bool" where
  "has_role p role = (role \<in> p_roles p)"

lemma verified_email_le: "verified_email p = Some m \<Longrightarrow> email_unverified p = Some m \<and> p_email_verified p"
  by (auto simp: verified_email_def email_unverified_def split: if_splits)

end
