(* ===== verification/Ledger_Data.thy ===== *)
theory Ledger_Data
  imports Rahi_Types
begin

text \<open>
  The data of \<^verbatim>\<open>crates/rahi-ledger\<close>: hashes, decisions, signed records, segments, epochs and
  transitions (\<^verbatim>\<open>record.rs\<close>, \<^verbatim>\<open>segment.rs\<close>, \<^verbatim>\<open>epoch.rs\<close>, \<^verbatim>\<open>transition.rs\<close>), and the record
  \<open>env\<close> of the third-party functions the crate calls (\<^verbatim>\<open>serde_json\<close>, \<^verbatim>\<open>canonical_keysort_json\<close>,
  \<^verbatim>\<open>attest_ledger_core\<close>, \<^verbatim>\<open>ed25519_dalek\<close>, \<^verbatim>\<open>base64\<close>), which every definition that needs one
  takes as its argument \<open>E\<close>. The type variable \<open>'b\<close> is the serialized text of those libraries.
\<close>

section \<open>JSON values\<close>

datatype json =
    JNull
  | JBool bool
  | JNum int
  | JStr string
  | JArr "json list"
  | JObj "(string \<times> json) list"

definition json_option :: "string option \<Rightarrow> json" where
  "json_option s = (case s of None \<Rightarrow> JNull | Some x \<Rightarrow> JStr x)"

definition object_remove :: "string \<Rightarrow> (string \<times> json) list \<Rightarrow> (string \<times> json) list" where
  "object_remove k kvs = filter (\<lambda>kv. fst kv \<noteq> k) kvs"

section \<open>Hashes\<close>

definition HASH_PREFIX :: string where "HASH_PREFIX = ''sha256:''"
definition HASH_HEX_LEN :: nat where "HASH_HEX_LEN = 64"

datatype hash = Hash (as_str: string)

definition hash_parse :: "string \<Rightarrow> error + hash" where
  "hash_parse value =
     rbind (or_error (Validation ''hash lacks prefix'') (strip_prefix HASH_PREFIX value)) (\<lambda>body.
     if length body \<noteq> HASH_HEX_LEN \<or> \<not> list_all ascii_hexdigit body
     then Inl (Validation ''hash body'')
     else if list_ex ascii_upper body then Inl (Validation ''hash uppercase'')
     else Inr (Hash value))"

definition unchained :: hash where
  "unchained = Hash (HASH_PREFIX @ replicate HASH_HEX_LEN CHR ''0'')"

text \<open>The shape every digest of the chain has: what \<^verbatim>\<open>Hash::parse\<close> admits.\<close>

definition digest_shape :: "string \<Rightarrow> bool" where
  "digest_shape s \<longleftrightarrow> hash_parse s = Inr (Hash s)"

definition hash_ok :: "hash \<Rightarrow> bool" where
  "hash_ok h \<longleftrightarrow> digest_shape (as_str h)"

lemma hash_parse_Inr_iff: "hash_parse s = Inr h \<longleftrightarrow> h = Hash s \<and> digest_shape s"
  unfolding digest_shape_def hash_parse_def by (auto split: if_splits)

lemma hash_parse_as_str: "hash_parse s = Inr h \<Longrightarrow> as_str h = s"
  by (simp add: hash_parse_Inr_iff)

lemma hash_parse_ok [simp]: "digest_shape s \<Longrightarrow> hash_parse s = Inr (Hash s)"
  by (simp add: digest_shape_def)

lemma hash_parse_of_ok [simp]: "hash_ok h \<Longrightarrow> hash_parse (as_str h) = Inr h"
  by (simp add: hash_ok_def digest_shape_def)

lemma hash_parse_gives_ok: "hash_parse s = Inr h \<Longrightarrow> hash_ok h"
  by (simp add: hash_parse_Inr_iff hash_ok_def)

lemma hash_parse_error: "hash_parse s = Inl e \<Longrightarrow> \<exists>m. e = Validation m"
  by (auto simp: hash_parse_def result_simps split: if_splits)

lemma digest_shape_length: "digest_shape s \<Longrightarrow> length s = 71"
  by (auto simp: digest_shape_def hash_parse_def strip_prefix_Some_iff HASH_PREFIX_def
      HASH_HEX_LEN_def split: if_splits)

lemma unchained_ok: "hash_ok unchained"
  by (simp add: hash_ok_def digest_shape_def unchained_def hash_parse_def strip_prefix_def
      HASH_PREFIX_def list_all_iff list_ex_iff ascii_hexdigit_def ascii_digit_def ascii_upper_def
      or_error_def less_eq_char_def)

section \<open>Decisions\<close>

text \<open>The \<^verbatim>\<open>#[serde(transparent)]\<close> newtypes over \<^verbatim>\<open>String\<close>.\<close>

type_synonym decision_id = string
type_synonym decision_kind = string
type_synonym capability_id = string
type_synonym sub = string

definition GENESIS :: decision_kind where "GENESIS = ''ledger.genesis''"

datatype outcome = Allow | Deny | Degrade

fun outcome_str :: "outcome \<Rightarrow> string" where
  "outcome_str Allow = ''allow''"
| "outcome_str Deny = ''deny''"
| "outcome_str Degrade = ''degrade''"

record decision =
  d_id :: decision_id
  d_prev_hash :: hash
  d_kind :: decision_kind
  d_actor :: sub
  d_capability :: "capability_id option"
  d_outcome :: outcome
  d_reason :: string
  d_payload :: json
  d_at :: revision

definition decision_new ::
  "decision_id \<Rightarrow> decision_kind \<Rightarrow> sub \<Rightarrow> outcome \<Rightarrow> string \<Rightarrow> decision" where
  "decision_new i k a out why =
     \<lparr>d_id = i, d_prev_hash = unchained, d_kind = k, d_actor = a, d_capability = None,
      d_outcome = out, d_reason = why, d_payload = JNull, d_at = ZERO\<rparr>"

definition with_capability :: "capability_id \<Rightarrow> decision \<Rightarrow> decision" where
  "with_capability c d = d\<lparr>d_capability := Some c\<rparr>"

definition decision_at :: "revision \<Rightarrow> decision \<Rightarrow> decision" where
  "decision_at r d = d\<lparr>d_at := r\<rparr>"

text \<open>What \<^verbatim>\<open>serde_json::to_value\<close> makes of a decision: one object, keys in the order of its map.\<close>

definition decision_to_value :: "decision \<Rightarrow> json" where
  "decision_to_value d = JObj
     [(''actor'', JStr (d_actor d)),
      (''at'', JNum (uint (revision_get (d_at d)))),
      (''capability'', json_option (d_capability d)),
      (''id'', JStr (d_id d)),
      (''kind'', JStr (d_kind d)),
      (''outcome'', JStr (outcome_str (d_outcome d))),
      (''payload'', d_payload d),
      (''prev_hash'', JStr (as_str (d_prev_hash d))),
      (''reason'', JStr (d_reason d))]"

definition revision_stamp :: "revision \<Rightarrow> string" where
  "revision_stamp r = ''revision:'' @ show_nat (unat (revision_get r))"

section \<open>Records\<close>

record ledger_record =
  lr_id :: string
  lr_timestamp :: string
  lr_previous_record_hash :: string
  lr_record_hash :: string
  lr_payload :: json

record signed_record =
  sr_record :: ledger_record
  sr_signature :: string
  sr_public_key :: string

section \<open>Epochs and transitions\<close>

record reference =
  ref_kind :: string
  ref_digest :: string
  ref_id :: "string option"

record references =
  refs_build :: "reference option"
  refs_deployment :: "reference option"
  refs_authority :: "reference option"

record artifact =
  art_binary :: "string option"
  art_platform :: "string option"
  art_image :: "string option"
  art_rahi_version :: string
  art_build_revision :: "string option"

datatype epoch_cause = CauseDeploy | CauseRestore

record restore_ref =
  rr_archive :: string
  rr_sha256 :: string

record deployment_epoch =
  ep_epoch :: u64
  ep_previous :: hash
  ep_cause :: epoch_cause
  ep_manifest :: hash
  ep_transition :: "hash option"
  ep_schema_version :: nat
  ep_artifact :: artifact
  ep_refs :: references
  ep_restore :: "restore_ref option"
  ep_wall_time :: u64

record deployed =
  dp_manifest :: hash
  dp_binary :: "string option"
  dp_platform :: "string option"
  dp_image :: "string option"

record epoch_tail =
  et_number :: u64
  et_hash :: hash
  et_fingerprint :: "string option"
  et_last_restore :: "restore_ref option"
  et_deployed :: "deployed option"

record binary_versions =
  bv_rahi :: string
  bv_contract :: string

record manifest_transition =
  mt_from :: hash
  mt_to :: hash
  mt_model :: string
  mt_schema_version :: nat
  mt_binary :: binary_versions
  mt_actor :: sub

section \<open>Segments\<close>

record segment_header =
  sh_first_id :: decision_id
  sh_last_id :: decision_id
  sh_count :: nat
  sh_segment_hash :: hash
  sh_prev_segment_hash :: hash
  sh_last_hash :: hash
  sh_current_manifest :: "hash option"
  sh_current_epoch :: "epoch_tail option"

record segment =
  sg_header :: segment_header
  sg_records :: "signed_record list"

section \<open>The third-party functions\<close>

record 'b env =
  canonicalize_value :: "json \<Rightarrow> json"
  canonical_text :: "json \<Rightarrow> 'b"
  sha256_hex :: "'b \<Rightarrow> string"
  compute_record_hash :: "ledger_record \<Rightarrow> string"
  core_verify_chain :: "ledger_record list \<Rightarrow> string + unit"
  decision_of_value :: "json \<Rightarrow> string + decision"
  transition_to_value :: "manifest_transition \<Rightarrow> json"
  transition_of_value :: "json \<Rightarrow> string + manifest_transition"
  epoch_to_value :: "deployment_epoch \<Rightarrow> json"
  epoch_of_value :: "json \<Rightarrow> string + deployment_epoch"
  refs_to_value :: "references \<Rightarrow> json"
  record_text :: "signed_record \<Rightarrow> 'b"
  record_of_text :: "'b \<Rightarrow> string + signed_record"
  records_text :: "signed_record list \<Rightarrow> 'b"
  segment_text :: "segment \<Rightarrow> 'b"
  segment_of_text :: "'b \<Rightarrow> string + segment"
  tail_text :: "epoch_tail \<Rightarrow> 'b"
  tail_of_text :: "'b \<Rightarrow> string + epoch_tail"
  text_len :: "'b \<Rightarrow> nat"
  b64_encode :: "string \<Rightarrow> string"
  b64_decode :: "string \<Rightarrow> string + string"
  ed_public :: "string \<Rightarrow> string"
  ed_point :: "string \<Rightarrow> bool"
  ed_sign :: "string \<Rightarrow> string \<Rightarrow> string"
  ed_verify :: "string \<Rightarrow> string \<Rightarrow> string \<Rightarrow> bool"

section \<open>What the crate relies on of them\<close>

text \<open>Every digest is \<^verbatim>\<open>sha256:\<close> and sixty-four lowercase hex digits.\<close>

definition digests_ok :: "'b env \<Rightarrow> bool" where
  "digests_ok E \<longleftrightarrow> (\<forall>t. digest_shape (sha256_hex E t)) \<and> (\<forall>r. digest_shape (compute_record_hash E r))"

text \<open>
  A record's hash is taken over the record with \<^verbatim>\<open>record_hash\<close> removed, and the published
  verifier accepts exactly the lists in which every hash recomputes and every record binds its
  predecessor.
\<close>

definition record_hash_law :: "'b env \<Rightarrow> bool" where
  "record_hash_law E \<longleftrightarrow>
     (\<forall>r h. compute_record_hash E (r\<lparr>lr_record_hash := h\<rparr>) = compute_record_hash E r)"

definition verifier_law :: "'b env \<Rightarrow> bool" where
  "verifier_law E \<longleftrightarrow> (\<forall>rs. core_verify_chain E rs = Inr () \<longleftrightarrow>
     (\<forall>r \<in> set rs. lr_record_hash r = compute_record_hash E r) \<and>
     (\<forall>i. Suc i < length rs \<longrightarrow>
        lr_previous_record_hash (rs ! Suc i) = lr_record_hash (rs ! i)))"

text \<open>Reading back what was serialized gives the value: serde's derived implementations.\<close>

definition decision_codec :: "'b env \<Rightarrow> bool" where
  "decision_codec E \<longleftrightarrow> (\<forall>d. canonicalize_value E (d_payload d) = d_payload d \<longrightarrow>
     decision_of_value E (decision_to_value d) = Inr d)"

definition canonical_law :: "'b env \<Rightarrow> bool" where
  "canonical_law E \<longleftrightarrow>
     (\<forall>v. canonicalize_value E (canonicalize_value E v) = canonicalize_value E v) \<and>
     canonicalize_value E JNull = JNull"

definition record_codec :: "'b env \<Rightarrow> bool" where
  "record_codec E \<longleftrightarrow> (\<forall>r. record_of_text E (record_text E r) = Inr r)"

definition segment_codec :: "'b env \<Rightarrow> bool" where
  "segment_codec E \<longleftrightarrow> (\<forall>s. segment_of_text E (segment_text E s) = Inr s)"

definition tail_codec :: "'b env \<Rightarrow> bool" where
  "tail_codec E \<longleftrightarrow> (\<forall>t. tail_of_text E (tail_text E t) = Inr t)"

text \<open>Base64 has no white space, inverts, and a signature made with a seed verifies under its key.\<close>

definition signature_law :: "'b env \<Rightarrow> bool" where
  "signature_law E \<longleftrightarrow>
     (\<forall>s. b64_decode E (b64_encode E s) = Inr s) \<and>
     (\<forall>s. \<forall>c \<in> set (b64_encode E s). \<not> ascii_space c) \<and>
     (\<forall>k m. length (ed_sign E k m) = 64 \<and> ed_verify E (ed_public E k) m (ed_sign E k m))"

definition env_ok :: "'b env \<Rightarrow> bool" where
  "env_ok E \<longleftrightarrow> digests_ok E \<and> record_hash_law E \<and> verifier_law E \<and> decision_codec E \<and>
     canonical_law E \<and> record_codec E \<and> segment_codec E \<and> tail_codec E \<and> signature_law E"

lemma env_okD:
  assumes "env_ok E"
  shows "digests_ok E" "record_hash_law E" "verifier_law E" "decision_codec E"
    "canonical_law E" "record_codec E" "segment_codec E" "tail_codec E" "signature_law E"
  using assms by (simp_all add: env_ok_def)

end
