(* ===== verification/Ledger_Record.thy ===== *)
theory Ledger_Record
  imports Ledger_Data
begin

text \<open>
  Signing and building records: \<^verbatim>\<open>signer.rs\<close>, the operations of \<^verbatim>\<open>record.rs\<close>, and the identity
  digest of \<^verbatim>\<open>identity.rs\<close>. A \<open>signer\<close> is its 32-byte seed, a \<open>verifier\<close> its 32-byte public key.
\<close>

section \<open>The cell's key\<close>

type_synonym signer = string
type_synonym ledger_verifier = string

definition SEED_LEN :: nat where "SEED_LEN = 32"
definition SIGNATURE_LEN :: nat where "SIGNATURE_LEN = 64"

definition decode_seed :: "'b env \<Rightarrow> string \<Rightarrow> string + string" where
  "decode_seed E text =
     rbind (map_err (\<lambda>e. ''base64: '' @ e) (b64_decode E text)) (\<lambda>v.
     if length v = SEED_LEN then Inr v else Inl ''seed length'')"

text \<open>\<open>file\<close> is what reading the key file answered.\<close>

definition signer_load :: "'b env \<Rightarrow> string + string \<Rightarrow> error + signer" where
  "signer_load E file =
     rbind (map_err (\<lambda>e. Io (''ledger key: '' @ e)) file) (\<lambda>text.
     map_err (\<lambda>e. Config (''ledger key: '' @ e)) (decode_seed E (trim text)))"

definition signer_public_key :: "'b env \<Rightarrow> signer \<Rightarrow> string" where
  "signer_public_key E k = b64_encode E (ed_public E k)"

definition signer_verifier :: "'b env \<Rightarrow> signer \<Rightarrow> ledger_verifier" where
  "signer_verifier E k = ed_public E k"

definition signer_sign :: "'b env \<Rightarrow> signer \<Rightarrow> string \<Rightarrow> string" where
  "signer_sign E k bytes = b64_encode E (ed_sign E k bytes)"

definition from_public_key :: "'b env \<Rightarrow> string \<Rightarrow> error + ledger_verifier" where
  "from_public_key E public_key =
     rbind (map_err (\<lambda>e. Config (''ledger public key base64: '' @ e)) (b64_decode E (trim public_key)))
       (\<lambda>v. if length v \<noteq> SEED_LEN then Inl (Config ''ledger public key length'')
            else if \<not> ed_point E v then Inl (Config ''ledger public key is not a point'')
            else Inr v)"

definition verifier_public_key :: "'b env \<Rightarrow> ledger_verifier \<Rightarrow> string" where
  "verifier_public_key E v = b64_encode E v"

definition verifier_verify :: "'b env \<Rightarrow> ledger_verifier \<Rightarrow> string \<Rightarrow> string \<Rightarrow> error + unit" where
  "verifier_verify E v bytes signature =
     rbind (map_err (\<lambda>e. Integrity (''signature base64: '' @ e)) (b64_decode E (trim signature)))
       (\<lambda>raw. if length raw \<noteq> SIGNATURE_LEN then Inl (Integrity ''signature length'')
              else ensure (ed_verify E v bytes raw) (Integrity ''signature does not verify''))"

lemma sign_verifies:
  assumes "signature_law E"
  shows "verifier_verify E (signer_verifier E k) m (signer_sign E k m) = Inr ()"
proof -
  have "trim (b64_encode E (ed_sign E k m)) = b64_encode E (ed_sign E k m)"
    using assms by (auto intro: trim_no_space simp: signature_law_def)
  then show ?thesis
    using assms
    by (simp add: verifier_verify_def signer_verifier_def signer_sign_def signature_law_def
        SIGNATURE_LEN_def map_err_def)
qed

lemma verifier_verify_error: "verifier_verify E v m s = Inl e \<Longrightarrow> \<exists>t. e = Integrity t"
  by (auto simp: verifier_verify_def result_simps split: if_splits)

lemma public_keys_agree [simp]:
  "verifier_public_key E (signer_verifier E k) = signer_public_key E k"
  by (simp add: verifier_public_key_def signer_verifier_def signer_public_key_def)

section \<open>Signed records\<close>

definition with_payload :: "'b env \<Rightarrow> json \<Rightarrow> decision \<Rightarrow> decision" where
  "with_payload E v d = d\<lparr>d_payload := canonicalize_value E v\<rparr>"

text \<open>The envelope of a decision, before its hash is known.\<close>

definition envelope_of :: "decision \<Rightarrow> ledger_record" where
  "envelope_of d =
     \<lparr>lr_id = d_id d, lr_timestamp = revision_stamp (d_at d),
      lr_previous_record_hash = as_str (d_prev_hash d), lr_record_hash = [],
      lr_payload = decision_to_value d\<rparr>"

definition signed_build :: "'b env \<Rightarrow> decision \<Rightarrow> signer \<Rightarrow> signed_record" where
  "signed_build E d k =
     (let blank = envelope_of d;
          rec = blank\<lparr>lr_record_hash := compute_record_hash E blank\<rparr>
      in \<lparr>sr_record = rec, sr_signature = signer_sign E k (lr_record_hash rec),
          sr_public_key = signer_public_key E k\<rparr>)"

definition sr_hash :: "signed_record \<Rightarrow> error + hash" where
  "sr_hash r = hash_parse (lr_record_hash (sr_record r))"

definition sr_prev_hash :: "signed_record \<Rightarrow> error + hash" where
  "sr_prev_hash r = hash_parse (lr_previous_record_hash (sr_record r))"

definition sr_decision :: "'b env \<Rightarrow> signed_record \<Rightarrow> error + decision" where
  "sr_decision E r =
     map_err (\<lambda>m. Integrity (''record does not carry a decision: '' @ m))
       (decision_of_value E (lr_payload (sr_record r)))"

definition to_canonical_bytes :: "'b env \<Rightarrow> signed_record \<Rightarrow> 'b" where
  "to_canonical_bytes E r = record_text E r"

definition from_bytes :: "'b env \<Rightarrow> 'b \<Rightarrow> error + signed_record" where
  "from_bytes E b =
     map_err (\<lambda>m. Integrity (''stored record does not parse: '' @ m)) (record_of_text E b)"

section \<open>The identity digest\<close>

definition identity_value :: "decision \<Rightarrow> error + json" where
  "identity_value d =
     (case decision_to_value d of
        JObj kvs \<Rightarrow> Inr (JObj (object_remove ''prev_hash'' kvs))
      | _ \<Rightarrow> Inl (Integrity ''a decision does not serialize to a JSON object''))"

definition identity_bytes :: "'b env \<Rightarrow> decision \<Rightarrow> error + 'b" where
  "identity_bytes E d = rbind (identity_value d) (\<lambda>v. Inr (canonical_text E v))"

definition identity_digest :: "'b env \<Rightarrow> decision \<Rightarrow> error + hash" where
  "identity_digest E d = rbind (identity_bytes E d) (\<lambda>b. hash_parse (sha256_hex E b))"

text \<open>One record's three identity facts, as every accounting statement takes them.\<close>

record accounted =
  ac_id :: decision_id
  ac_record_hash :: hash
  ac_identity_digest :: hash

definition accounted_of :: "'b env \<Rightarrow> signed_record \<Rightarrow> error + accounted" where
  "accounted_of E r =
     rbind (sr_hash r) (\<lambda>h.
     rbind (sr_decision E r) (\<lambda>d.
     rbind (identity_digest E d) (\<lambda>dg.
     Inr \<lparr>ac_id = lr_id (sr_record r), ac_record_hash = h, ac_identity_digest = dg\<rparr>)))"

section \<open>Lemmas\<close>

lemma identity_value_eq:
  "identity_value d = Inr (JObj
     [(''actor'', JStr (d_actor d)),
      (''at'', JNum (uint (revision_get (d_at d)))),
      (''capability'', json_option (d_capability d)),
      (''id'', JStr (d_id d)),
      (''kind'', JStr (d_kind d)),
      (''outcome'', JStr (outcome_str (d_outcome d))),
      (''payload'', d_payload d),
      (''reason'', JStr (d_reason d))])"
  by (simp add: identity_value_def decision_to_value_def object_remove_def)

lemma json_option_inj [simp]: "json_option a = json_option b \<longleftrightarrow> a = b"
  by (cases a; cases b) (auto simp: json_option_def)

lemma outcome_str_inj [simp]: "outcome_str a = outcome_str b \<longleftrightarrow> a = b"
  by (cases a; cases b) auto

lemma uint_revision_inj [simp]: "uint (revision_get a) = uint (revision_get b) \<longleftrightarrow> a = b"
  by (auto intro: revision.expand simp: word_uint_eq_iff)

lemma decision_to_value_inj: "decision_to_value a = decision_to_value b \<longleftrightarrow> a = b"
  by (auto simp: decision_to_value_def intro!: decision.equality hash.expand)

text \<open>
  A retry re-chains onto a new head, so the digest must not see the parent, and it must see
  everything else or two different decisions could pass for one.
\<close>

lemma identity_digest_rechain [simp]:
  "identity_digest E (d\<lparr>d_prev_hash := h\<rparr>) = identity_digest E d"
  by (simp add: identity_digest_def identity_bytes_def identity_value_eq)

lemma identity_value_covers:
  "identity_value a = identity_value b \<longleftrightarrow>
     a\<lparr>d_prev_hash := unchained\<rparr> = b\<lparr>d_prev_hash := unchained\<rparr>"
proof -
  have "a\<lparr>d_prev_hash := unchained\<rparr> = b\<lparr>d_prev_hash := unchained\<rparr> \<longleftrightarrow>
      d_id a = d_id b \<and> d_kind a = d_kind b \<and> d_actor a = d_actor b \<and>
      d_capability a = d_capability b \<and> d_outcome a = d_outcome b \<and>
      d_reason a = d_reason b \<and> d_payload a = d_payload b \<and> d_at a = d_at b"
    by (cases a; cases b) auto
  then show ?thesis
    by (auto simp: identity_value_eq)
qed

lemma identity_digest_ok: "digests_ok E \<Longrightarrow> \<exists>h. identity_digest E d = Inr h"
  by (simp add: identity_digest_def identity_bytes_def identity_value_eq digests_ok_def)

lemma signed_build_hash:
  assumes "digests_ok E" "record_hash_law E"
  shows "sr_hash (signed_build E d k) = Inr (Hash (compute_record_hash E (envelope_of d)))"
    and "lr_record_hash (sr_record (signed_build E d k)) =
         compute_record_hash E (sr_record (signed_build E d k))"
  using assms
  by (simp_all add: signed_build_def sr_hash_def Let_def digests_ok_def record_hash_law_def)

lemma signed_build_fields [simp]:
  "lr_id (sr_record (signed_build E d k)) = d_id d"
  "lr_previous_record_hash (sr_record (signed_build E d k)) = as_str (d_prev_hash d)"
  "lr_payload (sr_record (signed_build E d k)) = decision_to_value d"
  "sr_public_key (signed_build E d k) = signer_public_key E k"
  by (simp_all add: signed_build_def envelope_of_def Let_def)

lemma signed_build_prev [simp]:
  "hash_ok (d_prev_hash d) \<Longrightarrow> sr_prev_hash (signed_build E d k) = Inr (d_prev_hash d)"
  by (simp add: sr_prev_hash_def)

lemma signed_build_decision:
  assumes "decision_codec E" "canonicalize_value E (d_payload d) = d_payload d"
  shows "sr_decision E (signed_build E d k) = Inr d"
  using assms by (simp add: sr_decision_def decision_codec_def map_err_def)

lemma signed_build_signature:
  assumes "signature_law E"
  shows "verifier_verify E (signer_verifier E k)
     (lr_record_hash (sr_record (signed_build E d k))) (sr_signature (signed_build E d k)) = Inr ()"
  using sign_verifies [OF assms] by (simp add: signed_build_def Let_def)

lemma accounted_of_build:
  assumes "env_ok E" "canonicalize_value E (d_payload d) = d_payload d"
    and dg: "identity_digest E d = Inr dg"
  shows "accounted_of E (signed_build E d k) =
     Inr \<lparr>ac_id = d_id d, ac_record_hash = Hash (compute_record_hash E (envelope_of d)),
          ac_identity_digest = dg\<rparr>"
  using assms signed_build_hash(1) [of E d k] signed_build_decision [of E d k]
  by (simp add: accounted_of_def env_ok_def)

lemma accounted_of_id: "accounted_of E r = Inr a \<Longrightarrow> ac_id a = lr_id (sr_record r)"
  by (auto simp: accounted_of_def)

lemma accounted_of_hash: "accounted_of E r = Inr a \<Longrightarrow> sr_hash r = Inr (ac_record_hash a)"
  by (auto simp: accounted_of_def)

end
