(* ===== verification/Hash_List.thy ===== *)
theory Hash_List
  imports Ledger_Data
begin

text \<open>
  Hash-linked lists. The decision chain and the list of sealed segments are the same shape: an
  unordered set of nodes, each naming its parent's hash, put into order by walking from a root.
  \<open>order_by\<close> is the loop both \<^verbatim>\<open>order_chain\<close> (\<^verbatim>\<open>verify.rs\<close>) and \<^verbatim>\<open>order_segments\<close>
  (\<^verbatim>\<open>segment.rs\<close>) write out, over a map from parent to node; \<open>linked\<close> is what it promises; and
  the locale \<open>parent_order\<close> states that promise as an interface, with what its clients (head
  reads, verification, sealing) derive from it.
\<close>

section \<open>The specification\<close>

fun linked ::
  "('a \<Rightarrow> error + hash) \<Rightarrow> ('a \<Rightarrow> error + hash) \<Rightarrow> hash \<Rightarrow> 'a list \<Rightarrow> bool" where
  "linked par own root [] = True"
| "linked par own root (x # xs) =
     (par x = Inr root \<and> (case own x of Inl _ \<Rightarrow> False | Inr h \<Rightarrow> linked par own h xs))"

fun chain_end :: "('a \<Rightarrow> error + hash) \<Rightarrow> hash \<Rightarrow> 'a list \<Rightarrow> hash" where
  "chain_end own root [] = root"
| "chain_end own root (x # xs) =
     (case own x of Inl _ \<Rightarrow> root | Inr h \<Rightarrow> chain_end own h xs)"

lemma linked_Cons_iff:
  "linked par own root (x # xs) \<longleftrightarrow>
     par x = Inr root \<and> (\<exists>h. own x = Inr h \<and> linked par own h xs)"
  by (auto split: sum.splits)

lemma linked_append_iff:
  "linked par own root (xs @ ys) \<longleftrightarrow>
     linked par own root xs \<and> linked par own (chain_end own root xs) ys"
  by (induction xs arbitrary: root) (auto split: sum.splits)

lemma chain_end_append:
  "linked par own root xs \<Longrightarrow> chain_end own root (xs @ ys) = chain_end own (chain_end own root xs) ys"
  by (induction xs arbitrary: root) (auto split: sum.splits)

lemma linked_par_ok: "linked par own root xs \<Longrightarrow> x \<in> set xs \<Longrightarrow> \<exists>p. par x = Inr p"
  by (induction xs arbitrary: root) (auto simp: linked_Cons_iff simp del: linked.simps(2))

lemma linked_own_ok: "linked par own root xs \<Longrightarrow> x \<in> set xs \<Longrightarrow> \<exists>h. own x = Inr h"
  by (induction xs arbitrary: root) (auto simp: linked_Cons_iff simp del: linked.simps(2))

lemma chain_end_last:
  "linked par own root xs \<Longrightarrow> xs \<noteq> [] \<Longrightarrow> own (last xs) = Inr (chain_end own root xs)"
  by (induction xs arbitrary: root) (auto split: sum.splits if_splits)

text \<open>The parent of every node but the first is the hash of the node before it.\<close>

lemma linked_parents:
  "linked par own root xs \<Longrightarrow>
     map par xs @ [Inr (chain_end own root xs)] = Inr root # map own xs"
  by (induction xs arbitrary: root) (auto split: sum.splits)

section \<open>The loop\<close>

fun index_by_parent ::
  "string \<Rightarrow> ('a \<Rightarrow> error + hash) \<Rightarrow> (hash \<times> 'a) list \<Rightarrow> 'a list \<Rightarrow> error + (hash \<times> 'a) list" where
  "index_by_parent what par m [] = Inr m"
| "index_by_parent what par m (r # rs) =
     rbind (par r) (\<lambda>p.
     if map_of m p \<noteq> None then Inl (Integrity (what @ '' forked''))
     else index_by_parent what par ((p, r) # m) rs)"

function walk ::
  "('a \<Rightarrow> error + hash) \<Rightarrow> (hash \<times> 'a) list \<Rightarrow> hash \<Rightarrow> error + ('a list \<times> (hash \<times> 'a) list)" where
  "walk own m cursor =
     (case map_of m cursor of
        None \<Rightarrow> Inr ([], m)
      | Some r \<Rightarrow>
          rbind (own r) (\<lambda>next.
          rbind (walk own (AList.delete cursor m) next) (\<lambda>(ordered, rest).
          Inr (r # ordered, rest))))"
  by pat_completeness auto
termination
  by (relation "measure (\<lambda>(own, m, cursor). length m)") (auto simp: length_delete_less)

declare walk.simps [simp del]

definition order_by ::
  "string \<Rightarrow> ('a \<Rightarrow> error + hash) \<Rightarrow> ('a \<Rightarrow> error + hash) \<Rightarrow> hash \<Rightarrow> 'a list \<Rightarrow> error + 'a list" where
  "order_by what par own root nodes =
     rbind (index_by_parent what par [] nodes) (\<lambda>by_parent.
     rbind (walk own by_parent root) (\<lambda>(ordered, rest).
     if rest = [] then Inr ordered
     else Inl (Integrity (what @ '' links to a parent which is not in it''))))"

section \<open>Soundness and completeness of the loop\<close>

definition keyed :: "('a \<Rightarrow> error + hash) \<Rightarrow> (hash \<times> 'a) list \<Rightarrow> bool" where
  "keyed par m \<longleftrightarrow> distinct (map fst m) \<and> (\<forall>(p, r) \<in> set m. par r = Inr p)"

lemma keyed_Nil [simp]: "keyed par []"
  by (simp add: keyed_def)

lemma keyed_delete: "keyed par m \<Longrightarrow> keyed par (AList.delete k m)"
  by (auto simp: keyed_def AList.delete_eq intro: distinct_map_filter)

lemma keyed_map_of: "keyed par m \<Longrightarrow> r \<in> set (map snd m) \<Longrightarrow> par r = Inr p \<Longrightarrow> map_of m p = Some r"
  by (auto simp: keyed_def)

lemma keyed_delete_mset:
  assumes "keyed par m" and "map_of m k = Some v"
  shows "mset (map snd m) = add_mset v (mset (map snd (AList.delete k m)))"
proof -
  have "mset m = add_mset (k, v) (mset (AList.delete k m))"
    using assms by (intro mset_delete_distinct) (auto simp: keyed_def)
  then have "image_mset snd (mset m) = add_mset v (image_mset snd (mset (AList.delete k m)))"
    by simp
  then show ?thesis by simp
qed

lemma index_sound:
  "index_by_parent what par m rs = Inr m' \<Longrightarrow> keyed par m \<Longrightarrow>
     keyed par m' \<and> mset (map snd m') = mset (map snd m) + mset rs"
proof (induction rs arbitrary: m)
  case Nil
  then show ?case by simp
next
  case (Cons r rs)
  then obtain p where p: "par r = Inr p" "map_of m p = None"
    and rest: "index_by_parent what par ((p, r) # m) rs = Inr m'"
    by (auto split: if_splits)
  from p Cons.prems(2) have "keyed par ((p, r) # m)"
    by (auto simp: keyed_def map_of_eq_None_iff)
  from Cons.IH [OF rest this] show ?case by simp
qed

lemma index_complete:
  "\<forall>r \<in> set rs. is_ok (par r) \<Longrightarrow> distinct (map par rs) \<Longrightarrow>
     \<forall>r \<in> set rs. \<forall>p. par r = Inr p \<longrightarrow> map_of m p = None \<Longrightarrow>
     \<exists>m'. index_by_parent what par m rs = Inr m'"
proof (induction rs arbitrary: m)
  case Nil
  then show ?case by simp
next
  case (Cons r rs)
  then obtain p where p: "par r = Inr p" by (auto simp: is_ok_iff)
  have "\<exists>m'. index_by_parent what par ((p, r) # m) rs = Inr m'"
  proof (rule Cons.IH)
    show "\<forall>s \<in> set rs. \<forall>q. par s = Inr q \<longrightarrow> map_of ((p, r) # m) q = None"
      using Cons.prems p by (force simp: image_iff)
  qed (use Cons.prems in auto)
  with p Cons.prems show ?case by auto
qed

lemma index_distinct:
  "index_by_parent what par m rs = Inr m' \<Longrightarrow>
     distinct (map par rs) \<and> (\<forall>r \<in> set rs. \<forall>p. par r = Inr p \<longrightarrow> map_of m p = None)"
proof (induction rs arbitrary: m)
  case Nil
  then show ?case by simp
next
  case (Cons r rs)
  then obtain p where p: "par r = Inr p" "map_of m p = None"
    and rest: "index_by_parent what par ((p, r) # m) rs = Inr m'"
    by (auto split: if_splits)
  from Cons.IH [OF rest] p show ?case
    by (auto split: if_splits) (metis image_iff)
qed

lemma walk_sound:
  "walk own m root = Inr (xs, rest) \<Longrightarrow> keyed par m \<Longrightarrow>
     linked par own root xs \<and> mset (map snd m) = mset xs + mset (map snd rest)"
proof (induction own m root arbitrary: xs rest rule: walk.induct)
  case (1 own m cursor)
  show ?case
  proof (cases "map_of m cursor")
    case None
    with "1.prems" show ?thesis by (auto simp: walk.simps [of own m cursor])
  next
    case (Some r)
    with "1.prems" obtain h ys where h: "own r = Inr h" and xs: "xs = r # ys"
      and w: "walk own (AList.delete cursor m) h = Inr (ys, rest)"
      by (auto simp: walk.simps [of own m cursor])
    have r: "par r = Inr cursor"
      using "1.prems"(2) map_of_SomeD [OF Some] by (auto simp: keyed_def)
    have "linked par own h ys \<and>
        mset (map snd (AList.delete cursor m)) = mset ys + mset (map snd rest)"
      using "1.IH" [OF Some w] keyed_delete [OF "1.prems"(2)] by blast
    with r h xs keyed_delete_mset [OF "1.prems"(2) Some] show ?thesis by simp
  qed
qed

lemma walk_complete:
  "linked par own root xs \<Longrightarrow> keyed par m \<Longrightarrow> mset (map snd m) = mset xs \<Longrightarrow>
     walk own m root = Inr (xs, [])"
proof (induction xs arbitrary: m root)
  case Nil
  then show ?case by (simp add: walk.simps [of own "[]" root])
next
  case (Cons x xs)
  then obtain h where x: "par x = Inr root" "own x = Inr h" and l: "linked par own h xs"
    by (auto simp: linked_Cons_iff simp del: linked.simps)
  have "x \<in> set (map snd m)"
    using Cons.prems(3) by (metis list.set_intros(1) mset_eq_setD)
  then have look: "map_of m root = Some x"
    using keyed_map_of [of par m x root] x Cons.prems(2) by blast
  have "walk own (AList.delete root m) h = Inr (xs, [])"
    using Cons.IH [OF l keyed_delete [OF Cons.prems(2)]]
      keyed_delete_mset [OF Cons.prems(2) look] Cons.prems(3) by simp
  with look x show ?case by (simp add: walk.simps [of own m root])
qed

theorem order_by_iff:
  "order_by what par own root nodes = Inr xs \<longleftrightarrow>
     mset xs = mset nodes \<and> linked par own root xs \<and> distinct (map par nodes)"
proof
  assume "order_by what par own root nodes = Inr xs"
  then obtain m where m: "index_by_parent what par [] nodes = Inr m"
    and w: "walk own m root = Inr (xs, [])"
    by (auto simp: order_by_def split: if_splits)
  from index_sound [OF m] have k: "keyed par m" "mset (map snd m) = mset nodes"
    by simp_all
  from walk_sound [OF w k(1)] k(2) index_distinct [OF m]
  show "mset xs = mset nodes \<and> linked par own root xs \<and> distinct (map par nodes)"
    by simp
next
  assume a: "mset xs = mset nodes \<and> linked par own root xs \<and> distinct (map par nodes)"
  then have "\<forall>r \<in> set nodes. is_ok (par r)"
    using linked_par_ok [of par own root xs] by (metis is_ok_iff mset_eq_setD)
  with a obtain m where m: "index_by_parent what par [] nodes = Inr m"
    using index_complete [of nodes par "[]" what] by auto
  from index_sound [OF m] have "keyed par m" "mset (map snd m) = mset nodes"
    by simp_all
  with a have "walk own m root = Inr (xs, [])"
    by (intro walk_complete) auto
  with m show "order_by what par own root nodes = Inr xs"
    by (simp add: order_by_def)
qed

lemma index_error:
  "index_by_parent what par m rs = Inl e \<Longrightarrow>
     e = Integrity (what @ '' forked'') \<or> (\<exists>r \<in> set rs. par r = Inl e)"
  by (induction rs arbitrary: m) (auto simp: result_simps split: if_splits)

lemma walk_error: "walk own m root = Inl e \<Longrightarrow> \<exists>r \<in> set (map snd m). own r = Inl e"
proof (induction own m root rule: walk.induct)
  case (1 own m cursor)
  then obtain r where r: "map_of m cursor = Some r"
    by (auto simp: walk.simps [of own m cursor] split: option.splits)
  then have mem: "r \<in> set (map snd m)" by (force dest: map_of_SomeD)
  show ?case
  proof (cases "own r")
    case (Inl e')
    with "1.prems" r mem show ?thesis by (auto simp: walk.simps [of own m cursor])
  next
    case (Inr h)
    with "1.prems" r have "walk own (AList.delete cursor m) h = Inl e"
      by (auto simp: walk.simps [of own m cursor] result_simps)
    with "1.IH" [OF r, of h] obtain s where s: "s \<in> set (map snd (AList.delete cursor m))" "own s = Inl e"
      by blast
    moreover have "set (AList.delete cursor m) \<subseteq> set m"
      by (auto simp: AList.delete_eq)
    ultimately show ?thesis by auto
  qed
qed

section \<open>The interface\<close>

locale parent_order =
  fixes order :: "hash \<Rightarrow> 'a list \<Rightarrow> error + 'a list"
    and par :: "'a \<Rightarrow> error + hash"
    and own :: "'a \<Rightarrow> error + hash"
  assumes order_iff: "order root nodes = Inr xs \<longleftrightarrow>
     mset xs = mset nodes \<and> linked par own root xs \<and> distinct (map par nodes)"
begin

lemma order_read_order: "order root nodes = Inr xs \<Longrightarrow> mset nodes' = mset nodes \<Longrightarrow> order root nodes' = Inr xs"
  by (simp add: order_iff) (metis mset_eq_imp_distinct_iff mset_map)

lemma order_of_ordered: "order root nodes = Inr xs \<Longrightarrow> order root xs = Inr xs"
  by (rule order_read_order) (simp_all add: order_iff)

lemma order_unique:
  assumes "order root nodes = Inr xs" "linked par own root ys" "mset ys = mset nodes"
  shows "ys = xs"
proof -
  have "order root nodes = Inr ys" using assms by (simp add: order_iff)
  with assms(1) show ?thesis by simp
qed

lemma order_empty [simp]: "order root [] = Inr []"
  by (simp add: order_iff)

lemma order_set: "order root nodes = Inr xs \<Longrightarrow> set xs = set nodes"
  by (auto simp: order_iff dest: mset_eq_setD)

lemma order_parent_chain:
  assumes "order root nodes = Inr xs"
  shows "map par xs @ [Inr (chain_end own root xs)] = Inr root # map own xs"
  using assms by (intro linked_parents) (simp add: order_iff)

end

end
