(* ===== verification/Ledger_Verify.thy ===== *)
theory Ledger_Verify
  imports Ledger_Record Hash_List
begin

text \<open>
  \<^verbatim>\<open>verify.rs\<close> and the pure half of \<^verbatim>\<open>segment.rs\<close>: ordering the chain and the list of sealed
  segments, verifying a chain, sealing a run of records into a segment and verifying one. Both
  orders are interpretations of \<open>parent_order\<close>.
\<close>

section \<open>Ordering the chain\<close>

definition order_chain :: "hash \<Rightarrow> signed_record list \<Rightarrow> error + signed_record list" where
  "order_chain genesis_parent records =
     order_by ''the chain'' sr_prev_hash sr_hash genesis_parent records"

definition order_segments :: "hash \<Rightarrow> segment_header list \<Rightarrow> error + segment_header list" where
  "order_segments genesis_parent headers =
     order_by ''the archive'' (\<lambda>h. Inr (sh_prev_segment_hash h)) (\<lambda>h. Inr (sh_segment_hash h))
       genesis_parent headers"

interpretation chain_order: parent_order order_chain sr_prev_hash sr_hash
  by unfold_locales (simp add: order_chain_def order_by_iff)

interpretation segment_order: parent_order order_segments
  "\<lambda>h. Inr (sh_prev_segment_hash h)" "\<lambda>h. Inr (sh_segment_hash h)"
  by unfold_locales (simp add: order_segments_def order_by_iff)

section \<open>Verifying the chain\<close>

definition verify_record :: "'b env \<Rightarrow> ledger_verifier \<Rightarrow> signed_record \<Rightarrow> error + unit" where
  "verify_record E v r =
     (if sr_public_key r \<noteq> verifier_public_key E v
      then Inl (Integrity ''signed by a key this cell does not hold'')
      else
        rbind (map_err (\<lambda>e. Integrity (message e))
                 (verifier_verify E v (lr_record_hash (sr_record r)) (sr_signature r))) (\<lambda>_.
        rbind (sr_decision E r) (\<lambda>d.
        if d_id d \<noteq> lr_id (sr_record r)
        then Inl (Integrity ''the envelope and its payload disagree'')
        else if as_str (d_prev_hash d) \<noteq> lr_previous_record_hash (sr_record r)
        then Inl (Integrity ''the decision and the envelope link different parents'')
        else Inr ())))"

definition verify_chain :: "'b env \<Rightarrow> hash \<Rightarrow> signed_record list \<Rightarrow> ledger_verifier \<Rightarrow> error + unit" where
  "verify_chain E genesis_parent records v =
     (case records of
        [] \<Rightarrow> Inl (Integrity ''the chain is empty'')
      | first # _ \<Rightarrow>
          if lr_previous_record_hash (sr_record first) \<noteq> as_str genesis_parent
          then Inl (Integrity ''the genesis record links another root'')
          else
            rbind (map_err (\<lambda>e. Integrity (''chain does not verify: '' @ e))
                     (core_verify_chain E (map sr_record records))) (\<lambda>_.
            try_each (verify_record E v) records))"

section \<open>Segments\<close>

definition SEGMENT_PREFIX :: string where "SEGMENT_PREFIX = ''ledger/segments/''"
definition U32_MAX :: nat where "U32_MAX = 2 ^ 32 - 1"

definition header_key :: "segment_header \<Rightarrow> string" where
  "header_key h = SEGMENT_PREFIX @ sh_first_id h @ ''-'' @ sh_last_id h @ ''.json''"

definition segment_key :: "segment \<Rightarrow> string" where
  "segment_key s = header_key (sg_header s)"

definition segment_hash :: "'b env \<Rightarrow> signed_record list \<Rightarrow> error + hash" where
  "segment_hash E records = hash_parse (sha256_hex E (records_text E records))"

definition segment_seal ::
  "'b env \<Rightarrow> hash \<Rightarrow> signed_record list \<Rightarrow> hash option \<Rightarrow> error + segment" where
  "segment_seal E prev_segment_hash records current_manifest =
     (case records of
        [] \<Rightarrow> Inl (Validation ''a segment seals at least one record'')
      | first # _ \<Rightarrow>
          (let l = last records in
           if length records > U32_MAX then Inl (Validation ''records do not fit a segment'')
           else
             rbind (segment_hash E records) (\<lambda>sh.
             rbind (sr_hash l) (\<lambda>lh.
             Inr \<lparr>sg_header =
                    \<lparr>sh_first_id = lr_id (sr_record first), sh_last_id = lr_id (sr_record l),
                     sh_count = length records, sh_segment_hash = sh,
                     sh_prev_segment_hash = prev_segment_hash, sh_last_hash = lh,
                     sh_current_manifest = current_manifest, sh_current_epoch = None\<rparr>,
                  sg_records = records\<rparr>))))"

definition with_current_epoch :: "epoch_tail \<Rightarrow> segment \<Rightarrow> segment" where
  "with_current_epoch t s =
     s\<lparr>sg_header := (sg_header s)\<lparr>sh_current_epoch := Some t\<rparr>\<rparr>"

definition segment_to_bytes :: "'b env \<Rightarrow> segment \<Rightarrow> 'b" where
  "segment_to_bytes E s = segment_text E s"

definition segment_from_bytes :: "'b env \<Rightarrow> 'b \<Rightarrow> error + segment" where
  "segment_from_bytes E b =
     map_err (\<lambda>e. Integrity (''archived segment does not parse: '' @ e)) (segment_of_text E b)"

definition segment_verify :: "'b env \<Rightarrow> segment \<Rightarrow> error + unit" where
  "segment_verify E s =
     rbind (segment_hash E (sg_records s)) (\<lambda>recomputed.
     if recomputed \<noteq> sh_segment_hash (sg_header s)
     then Inl (Integrity ''the body was rewritten after it was sealed'')
     else if min (length (sg_records s)) U32_MAX \<noteq> sh_count (sg_header s)
     then Inl (Integrity ''the record count disagrees'')
     else if sg_records s = [] then Inl (Integrity ''archived segment holds no records'')
     else
       rbind (sr_hash (last (sg_records s))) (\<lambda>lh.
       ensure (lh = sh_last_hash (sg_header s)) (Integrity ''the terminal hash disagrees'')))"

definition verify_segment ::
  "'b env \<Rightarrow> hash \<Rightarrow> segment \<Rightarrow> ledger_verifier \<Rightarrow> error + unit" where
  "verify_segment E parent s v =
     rbind (segment_verify E s) (\<lambda>_.
     map_err (\<lambda>e. Integrity (message e)) (verify_chain E parent (sg_records s) v))"

section \<open>What verification establishes\<close>

text \<open>A record that passes on its own: its key, its signature, and a payload its envelope repeats.\<close>

definition record_good :: "'b env \<Rightarrow> ledger_verifier \<Rightarrow> signed_record \<Rightarrow> bool" where
  "record_good E v r \<longleftrightarrow>
     sr_public_key r = verifier_public_key E v \<and>
     verifier_verify E v (lr_record_hash (sr_record r)) (sr_signature r) = Inr () \<and>
     (\<exists>d. sr_decision E r = Inr d \<and> d_id d = lr_id (sr_record r) \<and>
          as_str (d_prev_hash d) = lr_previous_record_hash (sr_record r))"

definition self_hashed :: "'b env \<Rightarrow> signed_record \<Rightarrow> bool" where
  "self_hashed E r \<longleftrightarrow> lr_record_hash (sr_record r) = compute_record_hash E (sr_record r)"

lemma verify_record_iff [result_simps]:
  "verify_record E v r = Inr u \<longleftrightarrow> record_good E v r"
  by (auto simp: verify_record_def record_good_def)

lemma verify_record_error: "verify_record E v r = Inl e \<Longrightarrow> \<exists>m. e = Integrity m"
  by (auto simp: verify_record_def sr_decision_def result_simps split: if_splits)

lemma self_hashed_hash:
  assumes "digests_ok E" "self_hashed E r"
  shows "sr_hash r = Inr (Hash (lr_record_hash (sr_record r)))"
  using assms by (simp add: sr_hash_def self_hashed_def digests_ok_def)

text \<open>The published verifier's adjacent-link rule is \<open>linked\<close> from the first parent on.\<close>

lemma links_linked:
  assumes "digests_ok E" "\<forall>r \<in> set rs. self_hashed E r"
    "\<forall>i. Suc i < length rs \<longrightarrow>
       lr_previous_record_hash (sr_record (rs ! Suc i)) = lr_record_hash (sr_record (rs ! i))"
    "rs \<noteq> [] \<longrightarrow> lr_previous_record_hash (sr_record (hd rs)) = as_str p" "hash_ok p"
  shows "linked sr_prev_hash sr_hash p rs"
  using assms(2-5)
proof (induction rs arbitrary: p)
  case Nil
  then show ?case by simp
next
  case (Cons r rs)
  let ?h = "Hash (lr_record_hash (sr_record r))"
  have own: "sr_hash r = Inr ?h"
    using self_hashed_hash [OF assms(1)] Cons.prems(1) by simp
  have par: "sr_prev_hash r = Inr p"
    using Cons.prems(3,4) by (simp add: sr_prev_hash_def)
  have "linked sr_prev_hash sr_hash ?h rs"
  proof (rule Cons.IH)
    show "\<forall>i. Suc i < length rs \<longrightarrow>
       lr_previous_record_hash (sr_record (rs ! Suc i)) = lr_record_hash (sr_record (rs ! i))"
      using Cons.prems(2) by auto
    show "rs \<noteq> [] \<longrightarrow> lr_previous_record_hash (sr_record (hd rs)) = as_str ?h"
      using Cons.prems(2) [rule_format, of 0] by (cases rs) auto
    show "hash_ok ?h" using own by (auto simp: sr_hash_def dest: hash_parse_gives_ok)
  qed (use Cons.prems in auto)
  with own par show ?case by simp
qed

lemma linked_links:
  assumes "linked sr_prev_hash sr_hash p rs" "Suc i < length rs"
  shows "lr_previous_record_hash (sr_record (rs ! Suc i)) = lr_record_hash (sr_record (rs ! i))"
  using assms
proof (induction rs arbitrary: p i)
  case Nil
  then show ?case by simp
next
  case (Cons r rs)
  then obtain h where h: "sr_hash r = Inr h" "linked sr_prev_hash sr_hash h rs"
    by (auto simp: linked_Cons_iff simp del: linked.simps)
  show ?case
  proof (cases i)
    case 0
    with Cons.prems(2) obtain s ss where rs: "rs = s # ss" by (cases rs) auto
    with h have "sr_prev_hash s = Inr h" by simp
    with h(1) rs 0 show ?thesis
      by (auto simp: sr_prev_hash_def sr_hash_def dest!: hash_parse_as_str)
  next
    case (Suc j)
    with Cons.IH [OF h(2), of j] Cons.prems(2) show ?thesis by simp
  qed
qed

theorem verify_chain_iff:
  assumes "digests_ok E" "verifier_law E" "hash_ok root"
  shows "verify_chain E root rs v = Inr u \<longleftrightarrow>
     rs \<noteq> [] \<and> linked sr_prev_hash sr_hash root rs \<and>
     (\<forall>r \<in> set rs. self_hashed E r \<and> record_good E v r)"
proof (cases rs)
  case Nil
  then show ?thesis by (simp add: verify_chain_def)
next
  case (Cons f fs)
  have core: "core_verify_chain E (map sr_record rs) = Inr () \<longleftrightarrow>
      (\<forall>r \<in> set rs. self_hashed E r) \<and>
      (\<forall>i. Suc i < length rs \<longrightarrow>
         lr_previous_record_hash (sr_record (rs ! Suc i)) = lr_record_hash (sr_record (rs ! i)))"
    using assms(2) by (auto simp: verifier_law_def self_hashed_def)
  have "verify_chain E root rs v = Inr u \<longleftrightarrow>
      lr_previous_record_hash (sr_record f) = as_str root \<and>
      core_verify_chain E (map sr_record rs) = Inr () \<and> (\<forall>r \<in> set rs. record_good E v r)"
    using Cons by (auto simp: verify_chain_def result_simps)
  also have "\<dots> \<longleftrightarrow> linked sr_prev_hash sr_hash root rs \<and>
     (\<forall>r \<in> set rs. self_hashed E r \<and> record_good E v r)"
  proof
    assume "lr_previous_record_hash (sr_record f) = as_str root \<and>
      core_verify_chain E (map sr_record rs) = Inr () \<and> (\<forall>r \<in> set rs. record_good E v r)"
    then show "linked sr_prev_hash sr_hash root rs \<and>
      (\<forall>r \<in> set rs. self_hashed E r \<and> record_good E v r)"
      using links_linked [OF assms(1), of rs root] assms(3) core Cons by auto
  next
    assume a: "linked sr_prev_hash sr_hash root rs \<and>
      (\<forall>r \<in> set rs. self_hashed E r \<and> record_good E v r)"
    then have "sr_prev_hash f = Inr root" using Cons by simp
    then have "lr_previous_record_hash (sr_record f) = as_str root"
      by (auto simp: sr_prev_hash_def dest: hash_parse_as_str)
    with a core linked_links [of root rs]
    show "lr_previous_record_hash (sr_record f) = as_str root \<and>
      core_verify_chain E (map sr_record rs) = Inr () \<and> (\<forall>r \<in> set rs. record_good E v r)"
      by auto
  qed
  finally show ?thesis using Cons by simp
qed

lemma verify_chain_error: "verify_chain E root rs v = Inl e \<Longrightarrow> \<exists>m. e = Integrity m"
proof -
  have "\<exists>m. e = Integrity m" if "try_each (verify_record E v) qs = Inl e" for qs
    using that by (induction qs) (auto simp: result_simps dest: verify_record_error)
  then show "verify_chain E root rs v = Inl e \<Longrightarrow> ?thesis"
    by (auto simp: verify_chain_def result_simps split: list.splits if_splits
        dest: verify_record_error)
qed

text \<open>A verified chain needs no ordering: \<open>order_chain\<close> gives it back as it is.\<close>

lemma linked_distinct_prev:
  assumes "linked sr_prev_hash sr_hash root rs" "distinct (map sr_prev_hash rs)"
  shows "order_chain root rs = Inr rs"
  using assms by (simp add: chain_order.order_iff)

section \<open>Lemmas on segments\<close>

lemma segment_hash_ok: "digests_ok E \<Longrightarrow> segment_hash E rs = Inr (Hash (sha256_hex E (records_text E rs)))"
  by (simp add: segment_hash_def digests_ok_def)

lemma segment_seal_Inr_iff:
  "segment_seal E p rs m = Inr s \<longleftrightarrow>
     rs \<noteq> [] \<and> length rs \<le> U32_MAX \<and>
     (\<exists>sh lh. segment_hash E rs = Inr sh \<and> sr_hash (last rs) = Inr lh \<and>
        s = \<lparr>sg_header =
               \<lparr>sh_first_id = lr_id (sr_record (hd rs)), sh_last_id = lr_id (sr_record (last rs)),
                sh_count = length rs, sh_segment_hash = sh, sh_prev_segment_hash = p,
                sh_last_hash = lh, sh_current_manifest = m, sh_current_epoch = None\<rparr>,
             sg_records = rs\<rparr>)"
  by (auto simp: segment_seal_def Let_def split: list.splits)

lemma segment_verify_Inr_iff:
  "segment_verify E s = Inr u \<longleftrightarrow>
     segment_hash E (sg_records s) = Inr (sh_segment_hash (sg_header s)) \<and>
     min (length (sg_records s)) U32_MAX = sh_count (sg_header s) \<and> sg_records s \<noteq> [] \<and>
     sr_hash (last (sg_records s)) = Inr (sh_last_hash (sg_header s))"
  by (auto simp: segment_verify_def)

lemma seal_verifies: "segment_seal E p rs m = Inr s \<Longrightarrow> segment_verify E s = Inr ()"
  by (auto simp: segment_seal_Inr_iff segment_verify_Inr_iff)

lemma with_current_epoch_verify [simp]:
  "segment_verify E (with_current_epoch t s) = segment_verify E s"
  by (simp add: segment_verify_def with_current_epoch_def cong: if_cong)

lemma with_current_epoch_records [simp]: "sg_records (with_current_epoch t s) = sg_records s"
  by (simp add: with_current_epoch_def)

lemma segment_roundtrip:
  "segment_codec E \<Longrightarrow> segment_from_bytes E (segment_to_bytes E s) = Inr s"
  by (simp add: segment_from_bytes_def segment_to_bytes_def segment_codec_def map_err_def)

lemma verify_segment_iff:
  assumes "digests_ok E" "verifier_law E" "hash_ok parent"
  shows "verify_segment E parent s v = Inr u \<longleftrightarrow>
     segment_verify E s = Inr () \<and> linked sr_prev_hash sr_hash parent (sg_records s) \<and>
     (\<forall>r \<in> set (sg_records s). self_hashed E r \<and> record_good E v r)"
  using verify_chain_iff [OF assms, of "sg_records s" v]
  by (auto simp: verify_segment_def segment_verify_Inr_iff)

lemma verify_segment_end:
  assumes "digests_ok E" "verifier_law E" "hash_ok parent" "verify_segment E parent s v = Inr u"
  shows "chain_end sr_hash parent (sg_records s) = sh_last_hash (sg_header s)"
proof -
  have l: "linked sr_prev_hash sr_hash parent (sg_records s)" "segment_verify E s = Inr ()"
    using assms verify_segment_iff by blast+
  then have "sg_records s \<noteq> []" "sr_hash (last (sg_records s)) = Inr (sh_last_hash (sg_header s))"
    by (simp_all add: segment_verify_Inr_iff)
  with chain_end_last [OF l(1)] show ?thesis by simp
qed

end
