(* ===== verification/Ledger_Archive.thy ===== *)
theory Ledger_Archive
  imports Ledger_Verify
begin

text \<open>
  \<^verbatim>\<open>archive.rs\<close>: the write-once object store of sealed segment bodies, and \<^verbatim>\<open>fetch_segment\<close> of
  \<^verbatim>\<open>segment.rs\<close>. The filesystem archive is modelled by the objects under its root, an association
  list from the path a key resolves to (its components) to the body; the fault of a call that
  could not reach its medium is the argument \<open>fault\<close>. The locale \<open>write_once\<close> is the contract the
  trait states.
\<close>

section \<open>Keys\<close>

text \<open>
  \<^verbatim>\<open>Path::components\<close> on a relative or absolute Unix path: a leading slash is a root, empty parts
  and inner \<^verbatim>\<open>.\<close> parts disappear, a leading \<^verbatim>\<open>.\<close> is kept.
\<close>

datatype path_component = RootDir | CurDir | ParentDir | Normal string

definition component_of :: "string \<Rightarrow> path_component" where
  "component_of part = (if part = ''..'' then ParentDir else Normal part)"

definition components :: "string \<Rightarrow> path_component list" where
  "components key =
     (let parts = split_on CHR ''/'' key;
          rest = map component_of (filter (\<lambda>p. p \<noteq> [] \<and> p \<noteq> ''.'') parts)
      in if starts_with ''/'' key then RootDir # rest
         else if hd parts = ''.'' then CurDir # rest
         else rest)"

fun normal_part :: "path_component \<Rightarrow> string option" where
  "normal_part (Normal p) = Some p"
| "normal_part _ = None"

definition path_of :: "string \<Rightarrow> error + string list" where
  "path_of key =
     (if key = [] \<or> ends_with ''/'' key then Inl (Validation ''a key names one object'')
      else try_map (\<lambda>c. or_error (Validation ''the key leaves the archive root'') (normal_part c))
             (components key))"

section \<open>The three verbs\<close>

type_synonym 'b objects = "(string list \<times> 'b) list"

text \<open>
  \<^verbatim>\<open>File::create_new\<close> creates the empty file first: a \<open>fault\<close> that strikes after it, while the
  bytes are written, leaves the object behind holding \<open>partial\<close>.
\<close>

datatype 'b put_fault = BeforeCreate | WhileWriting 'b

definition archive_put ::
  "'b put_fault option \<Rightarrow> string \<Rightarrow> 'b \<Rightarrow> 'b objects \<Rightarrow> (error + unit) \<times> 'b objects" where
  "archive_put fault key bytes A =
     (case path_of key of
        Inl e \<Rightarrow> (Inl e, A)
      | Inr path \<Rightarrow>
          if fault = Some BeforeCreate then (Inl (Io ''archive put''), A)
          else if map_of A path \<noteq> None
          then (Inl (Conflict ''archive key already holds an object''), A)
          else
            (case fault of
               Some (WhileWriting partial) \<Rightarrow> (Inl (Io ''archive put''), (path, partial) # A)
             | _ \<Rightarrow> (Inr (), (path, bytes) # A)))"

definition archive_get :: "bool \<Rightarrow> string \<Rightarrow> 'b objects \<Rightarrow> error + 'b" where
  "archive_get fault key A =
     rbind (path_of key) (\<lambda>path.
     if fault then Inl (Io ''archive get'')
     else or_error (NotFound ''archive key holds no object'') (map_of A path))"

fun join_path :: "string list \<Rightarrow> string" where
  "join_path [] = []"
| "join_path [p] = p"
| "join_path (p # ps) = p @ ''/'' @ join_path ps"

definition archive_list :: "string \<Rightarrow> 'b objects \<Rightarrow> string list" where
  "archive_list prefix A =
     sort (filter (starts_with prefix) (map (\<lambda>(p, _). join_path p) A))"

definition fetch_segment ::
  "'b env \<Rightarrow> (string \<Rightarrow> error + 'b) \<Rightarrow> segment_header \<Rightarrow> error + segment" where
  "fetch_segment E get header =
     rbind (get (header_key header)) (\<lambda>bytes.
     rbind (map_err (\<lambda>e. Integrity (''archived segment: '' @ message e)) (segment_from_bytes E bytes))
       (\<lambda>s.
        if sg_header s \<noteq> header
        then Inl (Integrity ''the body carries a header the store does not agree with'')
        else Inr s))"

section \<open>The contract\<close>

locale write_once =
  fixes put :: "string \<Rightarrow> 'b \<Rightarrow> 's \<Rightarrow> (error + unit) \<times> 's"
    and get :: "string \<Rightarrow> 's \<Rightarrow> error + 'b"
  assumes put_get: "put k b s = (Inr (), s') \<Longrightarrow> get k s' = Inr b"
    and put_occupied: "get k s = Inr c \<Longrightarrow> \<exists>m. put k b s = (Inl (Conflict m), s)"
    and put_keeps: "get k s = Inr c \<Longrightarrow> put j b s = (r, s') \<Longrightarrow> get k s' = Inr c"
begin

fun put_all :: "(string \<times> 'b) list \<Rightarrow> 's \<Rightarrow> 's" where
  "put_all [] s = s"
| "put_all ((k, b) # ws) s = put_all ws (snd (put k b s))"

text \<open>Once written, an object is what it was for ever, whatever is written after it.\<close>

lemma immutable: "get k s = Inr c \<Longrightarrow> get k (put_all ws s) = Inr c"
proof (induction ws arbitrary: s)
  case Nil
  then show ?case by simp
next
  case (Cons w ws)
  obtain j b where w: "w = (j, b)" by (cases w)
  obtain r s' where p: "put j b s = (r, s')" by (cases "put j b s")
  from put_keeps [OF Cons.prems p] Cons.IH [of s'] w p show ?case by simp
qed

lemma written_stays: "put k b s = (Inr (), s') \<Longrightarrow> get k (put_all ws s') = Inr b"
  using put_get immutable by blast

text \<open>A second write of the same key is refused, for ever: no retry of it can succeed.\<close>

lemma second_put_refused:
  assumes "put k b s = (Inr (), s')"
  shows "\<exists>m. fst (put k c (put_all ws s')) = Inl (Conflict m)"
  using put_occupied [OF written_stays [OF assms, of ws], of c] by auto

end

interpretation fs_archive: write_once
  "archive_put None" "archive_get False"
proof unfold_locales
  fix k :: string and b c :: 'b and s s' :: "'b objects" and j r
  show "archive_put None k b s = (Inr (), s') \<Longrightarrow> archive_get False k s' = Inr b"
    by (auto simp: archive_put_def archive_get_def or_error_def split: sum.splits if_splits)
  show "archive_get False k s = Inr c \<Longrightarrow> \<exists>m. archive_put None k b s = (Inl (Conflict m), s)"
    by (auto simp: archive_put_def archive_get_def split: sum.splits)
  show "archive_get False k s = Inr c \<Longrightarrow> archive_put None j b s = (r, s') \<Longrightarrow>
      archive_get False k s' = Inr c"
    by (auto simp: archive_put_def archive_get_def split: sum.splits if_splits)
qed

text \<open>No outcome of a write, faulty ones included, changes an object already there.\<close>

lemma archive_put_extends:
  "archive_put fault k b A = (r, A') \<Longrightarrow> map_of A p = Some c \<Longrightarrow> map_of A' p = Some c"
  by (auto simp: archive_put_def split: sum.splits if_splits option.splits put_fault.splits)

lemma archive_put_ok: "archive_put fault k b A = (Inr (), A') \<Longrightarrow> archive_get False k A' = Inr b"
  by (auto simp: archive_put_def archive_get_def or_error_def
      split: sum.splits if_splits option.splits put_fault.splits)

lemma archive_put_same_path:
  assumes "path_of k = path_of j" "archive_get False k A = Inr c"
  shows "\<exists>m. archive_put None j b A = (Inl (Conflict m), A)"
  using assms by (auto simp: archive_put_def archive_get_def)

section \<open>Fetching\<close>

lemma fetch_segment_Inr_iff:
  "fetch_segment E get h = Inr s \<longleftrightarrow>
     (\<exists>b. get (header_key h) = Inr b \<and> segment_of_text E b = Inr s \<and> sg_header s = h)"
  by (auto simp: fetch_segment_def segment_from_bytes_def)

lemma fetch_segment_error:
  "fetch_segment E get h = Inl e \<Longrightarrow> get (header_key h) = Inl e \<or> (\<exists>m. e = Integrity m)"
  by (auto simp: fetch_segment_def result_simps split: if_splits)

lemma fetch_after_put:
  assumes "segment_codec E" "archive_put fault (segment_key s) (segment_to_bytes E s) A = (Inr (), A')"
  shows "fetch_segment E (\<lambda>k. archive_get False k A') (sg_header s) = Inr s"
  using assms archive_put_ok [OF assms(2)]
  by (simp add: fetch_segment_Inr_iff segment_key_def segment_to_bytes_def segment_codec_def)

end
