(* ===== verification/Ledger_Db.thy ===== *)
theory Ledger_Db
  imports Ledger_Archive
begin

text \<open>
  The tables of the ledger and the SQL the crate sends to them. \<open>db\<close> holds the five relations
  of \<^verbatim>\<open>chain.rs\<close>, \<^verbatim>\<open>segment.rs\<close> and \<^verbatim>\<open>identity.rs\<close> as row lists; \<open>statement\<close> has one constructor per
  statement text the crate executes; \<open>exec\<close> gives each its SQLite meaning, \<open>None\<close> where a primary
  key or unique index refuses it; \<open>txn\<close> runs a batch all or nothing. Hashes are text here, as in
  the columns: a row may hold anything.
\<close>

section \<open>The tables\<close>

record 'b decision_row =
  dr_id :: string
  dr_prev_hash :: string
  dr_hash :: string
  dr_record :: 'b

record 'b segment_row =
  sw_segment_hash :: string
  sw_prev_segment_hash :: string
  sw_last_hash :: string
  sw_first_id :: string
  sw_last_id :: string
  sw_count :: nat
  sw_current_manifest :: "string option"
  sw_current_epoch :: "'b option"

record identity_row =
  ir_id :: string
  ir_identity_digest :: string
  ir_record_hash :: string
  ir_segment_hash :: "string option"

record collision_row =
  cr_id :: string
  cr_record_hash :: string
  cr_segment_hash :: "string option"
  cr_identity_digest :: string

record coverage_row =
  vr_segment_hash :: string
  vr_stamped :: int

record 'b db =
  kernel_decisions :: "'b decision_row list"
  kernel_segments :: "'b segment_row list"
  kernel_identity :: "identity_row list"
  kernel_collisions :: "collision_row list"
  kernel_coverage :: "coverage_row list"

definition empty_db :: "'b db" where
  "empty_db = \<lparr>kernel_decisions = [], kernel_segments = [], kernel_identity = [],
     kernel_collisions = [], kernel_coverage = []\<rparr>"

text \<open>What the primary keys and the unique parent indexes keep true of the tables.\<close>

definition db_ok :: "'b db \<Rightarrow> bool" where
  "db_ok d \<longleftrightarrow>
     distinct (map dr_id (kernel_decisions d)) \<and>
     distinct (map dr_prev_hash (kernel_decisions d)) \<and>
     distinct (map sw_segment_hash (kernel_segments d)) \<and>
     distinct (map sw_prev_segment_hash (kernel_segments d)) \<and>
     distinct (map ir_id (kernel_identity d)) \<and>
     distinct (map (\<lambda>c. (cr_id c, cr_record_hash c)) (kernel_collisions d)) \<and>
     distinct (map vr_segment_hash (kernel_coverage d))"

section \<open>The statements\<close>

datatype 'b statement =
    InsertDecision "'b decision_row"
  | InsertIdentity string string string
  | BackfillIdentity string string string
  | StampIdentity string string string
  | UpsertIdentity string string string string
  | InsertCollision string string string string
  | RecomputeCoverage string
  | InsertSegment "'b segment_row"
  | DeleteDecisions "string list"

definition accounted_in :: "string \<Rightarrow> string \<Rightarrow> string \<Rightarrow> 'b db \<Rightarrow> bool" where
  "accounted_in i rh seg d \<longleftrightarrow>
     (\<exists>r \<in> set (kernel_identity d).
        ir_id r = i \<and> ir_record_hash r = rh \<and> ir_segment_hash r = Some seg)"

definition stamp_row :: "string \<Rightarrow> string \<Rightarrow> string \<Rightarrow> identity_row \<Rightarrow> identity_row" where
  "stamp_row seg i rh r =
     (if ir_id r = i \<and> ir_record_hash r = rh \<and> ir_segment_hash r = None
      then r\<lparr>ir_segment_hash := Some seg\<rparr> else r)"

definition stampable :: "string \<Rightarrow> string \<Rightarrow> 'b db \<Rightarrow> bool" where
  "stampable i rh d \<longleftrightarrow>
     (\<exists>r \<in> set (kernel_identity d).
        ir_id r = i \<and> ir_record_hash r = rh \<and> ir_segment_hash r = None)"

definition stamp_identity :: "string \<Rightarrow> string \<Rightarrow> string \<Rightarrow> 'b db \<Rightarrow> 'b db \<times> nat" where
  "stamp_identity seg i rh d =
     (d\<lparr>kernel_identity := map (stamp_row seg i rh) (kernel_identity d)\<rparr>,
      if stampable i rh d then 1 else 0)"

definition coverage_count :: "string \<Rightarrow> 'b db \<Rightarrow> int" where
  "coverage_count seg d =
     int (length (filter (\<lambda>r. ir_segment_hash r = Some seg) (kernel_identity d))) +
     int (length (filter (\<lambda>c. cr_segment_hash c = Some seg) (kernel_collisions d)))"

fun exec :: "'b statement \<Rightarrow> 'b db \<Rightarrow> ('b db \<times> nat) option" where
  "exec (InsertDecision r) d =
     (if dr_id r \<in> set (map dr_id (kernel_decisions d)) \<or>
         dr_prev_hash r \<in> set (map dr_prev_hash (kernel_decisions d))
      then None
      else Some (d\<lparr>kernel_decisions := kernel_decisions d @ [r]\<rparr>, 1))"
| "exec (InsertIdentity i dg rh) d =
     (if i \<in> set (map ir_id (kernel_identity d)) then None
      else Some (d\<lparr>kernel_identity := kernel_identity d @
        [\<lparr>ir_id = i, ir_identity_digest = dg, ir_record_hash = rh, ir_segment_hash = None\<rparr>]\<rparr>, 1))"
| "exec (BackfillIdentity i dg rh) d =
     (if i \<in> set (map ir_id (kernel_identity d)) then Some (d, 0)
      else Some (d\<lparr>kernel_identity := kernel_identity d @
        [\<lparr>ir_id = i, ir_identity_digest = dg, ir_record_hash = rh, ir_segment_hash = None\<rparr>]\<rparr>, 1))"
| "exec (StampIdentity seg i rh) d = Some (stamp_identity seg i rh d)"
| "exec (UpsertIdentity i dg rh seg) d =
     (if i \<in> set (map ir_id (kernel_identity d)) then Some (stamp_identity seg i rh d)
      else Some (d\<lparr>kernel_identity := kernel_identity d @
        [\<lparr>ir_id = i, ir_identity_digest = dg, ir_record_hash = rh, ir_segment_hash = Some seg\<rparr>]\<rparr>, 1))"
| "exec (InsertCollision i rh seg dg) d =
     (if accounted_in i rh seg d \<or>
         (i, rh) \<in> set (map (\<lambda>c. (cr_id c, cr_record_hash c)) (kernel_collisions d))
      then Some (d, 0)
      else Some (d\<lparr>kernel_collisions := kernel_collisions d @
        [\<lparr>cr_id = i, cr_record_hash = rh, cr_segment_hash = Some seg, cr_identity_digest = dg\<rparr>]\<rparr>, 1))"
| "exec (RecomputeCoverage seg) d =
     Some (d\<lparr>kernel_coverage :=
        filter (\<lambda>v. vr_segment_hash v \<noteq> seg) (kernel_coverage d) @
        [\<lparr>vr_segment_hash = seg, vr_stamped = coverage_count seg d\<rparr>]\<rparr>, 1)"
| "exec (InsertSegment s) d =
     (if sw_segment_hash s \<in> set (map sw_segment_hash (kernel_segments d)) \<or>
         sw_prev_segment_hash s \<in> set (map sw_prev_segment_hash (kernel_segments d))
      then None
      else Some (d\<lparr>kernel_segments := kernel_segments d @ [s]\<rparr>, 1))"
| "exec (DeleteDecisions ids) d =
     Some (d\<lparr>kernel_decisions := filter (\<lambda>r. dr_id r \<notin> set ids) (kernel_decisions d)\<rparr>,
       length (filter (\<lambda>r. dr_id r \<in> set ids) (kernel_decisions d)))"

fun txn :: "'b statement list \<Rightarrow> 'b db \<Rightarrow> ('b db \<times> nat list) option" where
  "txn [] d = Some (d, [])"
| "txn (s # ss) d =
     (case exec s d of
        None \<Rightarrow> None
      | Some (d', n) \<Rightarrow>
          (case txn ss d' of None \<Rightarrow> None | Some (d'', ns) \<Rightarrow> Some (d'', n # ns)))"

section \<open>Every transaction keeps the constraints\<close>

lemma map_stamp_id [simp]: "map ir_id (map (stamp_row seg i rh) rs) = map ir_id rs"
  by (simp add: stamp_row_def)

lemma exec_db_ok: "exec s d = Some (d', n) \<Longrightarrow> db_ok d \<Longrightarrow> db_ok d'"
  by (cases s)
    (auto simp: db_ok_def stamp_identity_def distinct_map_filter image_iff
      simp del: map_map split: if_splits)

lemma txn_db_ok: "txn ss d = Some (d', ns) \<Longrightarrow> db_ok d \<Longrightarrow> db_ok d'"
  by (induction ss d arbitrary: d' ns rule: txn.induct)
    (auto split: option.splits prod.splits dest: exec_db_ok)

lemma txn_append:
  "txn (ss @ ts) d =
     (case txn ss d of None \<Rightarrow> None
      | Some (d', ns) \<Rightarrow> (case txn ts d' of None \<Rightarrow> None | Some (d'', ms) \<Rightarrow> Some (d'', ns @ ms)))"
  by (induction ss d rule: txn.induct) (auto split: option.splits prod.splits)

lemma txn_length: "txn ss d = Some (d', ns) \<Longrightarrow> length ns = length ss"
  by (induction ss d arbitrary: d' ns rule: txn.induct) (auto split: option.splits prod.splits)

section \<open>What no transaction undoes\<close>

text \<open>
  An identity row keeps its id, digest and record hash for ever, and gains a segment at most once;
  collision and segment rows are never removed or changed.
\<close>

definition id_row_le :: "identity_row \<Rightarrow> identity_row \<Rightarrow> bool" where
  "id_row_le r r' \<longleftrightarrow>
     ir_id r' = ir_id r \<and> ir_identity_digest r' = ir_identity_digest r \<and>
     ir_record_hash r' = ir_record_hash r \<and>
     (ir_segment_hash r = None \<or> ir_segment_hash r' = ir_segment_hash r)"

definition evolves :: "'b db \<Rightarrow> 'b db \<Rightarrow> bool" where
  "evolves d d' \<longleftrightarrow>
     (\<forall>r \<in> set (kernel_identity d). \<exists>r' \<in> set (kernel_identity d'). id_row_le r r') \<and>
     set (kernel_collisions d) \<subseteq> set (kernel_collisions d') \<and>
     set (kernel_segments d) \<subseteq> set (kernel_segments d')"

lemma id_row_le_refl [simp]: "id_row_le r r"
  by (simp add: id_row_le_def)

lemma id_row_le_trans: "id_row_le a b \<Longrightarrow> id_row_le b c \<Longrightarrow> id_row_le a c"
  by (auto simp: id_row_le_def)

lemma evolves_refl [simp]: "evolves d d"
  by (auto simp: evolves_def intro: id_row_le_refl)

lemma evolves_trans: "evolves a b \<Longrightarrow> evolves b c \<Longrightarrow> evolves a c"
  unfolding evolves_def by (meson id_row_le_trans subset_trans)

lemma stamp_row_le [simp]: "id_row_le r (stamp_row seg i rh r)"
  by (simp add: id_row_le_def stamp_row_def)

lemma stamped_row_exists:
  "r \<in> set rs \<Longrightarrow> \<exists>x \<in> set rs. id_row_le r (stamp_row seg i rh x)"
  using stamp_row_le by blast

lemma exec_evolves: "exec s d = Some (d', n) \<Longrightarrow> evolves d d'"
  by (cases s)
    (auto simp: evolves_def stamp_identity_def split: if_splits
      intro: id_row_le_refl stamped_row_exists)

lemma txn_evolves: "txn ss d = Some (d', ns) \<Longrightarrow> evolves d d'"
proof (induction ss d arbitrary: d' ns rule: txn.induct)
  case (1 d)
  then show ?case by simp
next
  case (2 s ss d)
  from "2.prems" obtain e m es where e: "exec s d = Some (e, m)" "txn ss e = Some (d', es)"
    by (auto split: option.splits prod.splits)
  from "2.IH" [OF e(1) refl e(2)] exec_evolves [OF e(1)] show ?case by (rule evolves_trans [rotated])
qed

text \<open>Under the constraints the row of an id is the one \<open>find\<close> gives, and it is carried along.\<close>

definition identity_of :: "string \<Rightarrow> 'b db \<Rightarrow> identity_row option" where
  "identity_of i d = find (\<lambda>r. ir_id r = i) (kernel_identity d)"

lemma identity_of_SomeD: "identity_of i d = Some r \<Longrightarrow> r \<in> set (kernel_identity d) \<and> ir_id r = i"
  by (auto simp: identity_of_def find_Some_iff)

lemma identity_of_None_iff: "identity_of i d = None \<longleftrightarrow> i \<notin> set (map ir_id (kernel_identity d))"
  by (auto simp: identity_of_def find_None_iff)

lemma identity_of_unique:
  assumes "db_ok d" "r \<in> set (kernel_identity d)"
  shows "identity_of (ir_id r) d = Some r"
proof -
  obtain r' where r': "identity_of (ir_id r) d = Some r'"
    using assms(2) identity_of_None_iff [of "ir_id r" d] by (cases "identity_of (ir_id r) d") auto
  from identity_of_SomeD [OF r'] assms have "r' = r"
    by (auto simp: db_ok_def distinct_map dest: inj_onD)
  with r' show ?thesis by simp
qed

lemma evolves_identity:
  assumes "evolves d d'" "db_ok d'" "identity_of i d = Some r"
  shows "\<exists>r'. identity_of i d' = Some r' \<and> id_row_le r r'"
proof -
  from identity_of_SomeD [OF assms(3)] assms(1)
  obtain r' where r': "r' \<in> set (kernel_identity d')" "id_row_le r r'" "ir_id r = i"
    by (auto simp: evolves_def)
  then have "ir_id r' = i" by (simp add: id_row_le_def)
  with identity_of_unique [OF assms(2) r'(1)] r'(2) show ?thesis by auto
qed

section \<open>The reads\<close>

definition head_query :: "'b db \<Rightarrow> string list" where
  "head_query d =
     filter (\<lambda>h. h \<notin> set (map dr_prev_hash (kernel_decisions d))) (map dr_hash (kernel_decisions d))"

definition record_root_query :: "'b db \<Rightarrow> string list" where
  "record_root_query d =
     filter (\<lambda>p. p \<notin> set (map dr_hash (kernel_decisions d))) (map dr_prev_hash (kernel_decisions d))"

definition segment_root_query :: "'b db \<Rightarrow> string list" where
  "segment_root_query d =
     filter (\<lambda>p. p \<notin> set (map sw_segment_hash (kernel_segments d)))
       (map sw_prev_segment_hash (kernel_segments d))"

definition count_query :: "'b db \<Rightarrow> int list" where
  "count_query d = [int (length (kernel_decisions d))]"

definition segment_count_query :: "'b db \<Rightarrow> int list" where
  "segment_count_query d = [int (length (kernel_segments d))]"

definition duplicate_parent_query :: "'b db \<Rightarrow> string list" where
  "duplicate_parent_query d =
     take 1 (filter (\<lambda>p. length (filter (\<lambda>r. dr_prev_hash r = p) (kernel_decisions d)) > 1)
               (remdups (map dr_prev_hash (kernel_decisions d))))"

definition hash_of_query :: "string \<Rightarrow> 'b db \<Rightarrow> string list" where
  "hash_of_query i d = map dr_hash (filter (\<lambda>r. dr_id r = i) (kernel_decisions d))"

definition genesis_identity_query :: "string \<Rightarrow> 'b db \<Rightarrow> string list" where
  "genesis_identity_query i d = map ir_record_hash (filter (\<lambda>r. ir_id r = i) (kernel_identity d))"

definition stamped_query :: "string \<Rightarrow> 'b db \<Rightarrow> int list" where
  "stamped_query seg d =
     map vr_stamped (filter (\<lambda>v. vr_segment_hash v = seg) (kernel_coverage d))"

definition totals_query :: "'b db \<Rightarrow> (int \<times> int) list" where
  "totals_query d = [(int (length (kernel_identity d)), int (length (kernel_collisions d)))]"

text \<open>
  The reads that carry their own witness: the branches without a \<^verbatim>\<open>FROM\<close> come first. A row of a
  kind the statement does not ask for is \<open>OtherKind\<close>.
\<close>

datatype 'b snapshot_row =
    ResidentWitness int
  | SealedWitness int
  | ResidentRow 'b
  | SealedRow "'b segment_row"
  | OtherKind int

definition chain_snapshot_query :: "'b db \<Rightarrow> 'b snapshot_row list" where
  "chain_snapshot_query d =
     [ResidentWitness (int (length (kernel_decisions d))),
      SealedWitness (int (length (kernel_segments d)))] @
     map (\<lambda>r. ResidentRow (dr_record r)) (kernel_decisions d) @
     map SealedRow (kernel_segments d)"

datatype 'r census_row = Witness int | Carried 'r

definition segments_census_query :: "'b db \<Rightarrow> 'b segment_row census_row list" where
  "segments_census_query d =
     Witness (int (length (kernel_segments d))) # map Carried (kernel_segments d)"

definition unclaimed_segments :: "'b segment_row list \<Rightarrow> (string \<times> string) list" where
  "unclaimed_segments ss =
     map (\<lambda>s. (sw_segment_hash s, sw_last_hash s))
       (filter (\<lambda>s. sw_segment_hash s \<notin> set (map sw_prev_segment_hash ss)) ss)"

definition segment_root_census_query :: "'b db \<Rightarrow> (string \<times> string) census_row list" where
  "segment_root_census_query d =
     Witness (int (length (kernel_segments d))) # map Carried (unclaimed_segments (kernel_segments d))"

definition row_accounted :: "'b decision_row \<Rightarrow> 'b db \<Rightarrow> bool" where
  "row_accounted r d \<longleftrightarrow>
     (\<exists>i \<in> set (kernel_identity d). ir_id i = dr_id r \<and> ir_record_hash i = dr_hash r) \<or>
     (\<exists>c \<in> set (kernel_collisions d). cr_id c = dr_id r \<and> cr_record_hash c = dr_hash r)"

definition stamped_or_minus_one :: "string \<Rightarrow> 'b db \<Rightarrow> int" where
  "stamped_or_minus_one seg d = (case stamped_query seg d of [] \<Rightarrow> -1 | n # _ \<Rightarrow> n)"

datatype coverage_answer =
    CoverageResidentWitness int
  | CoverageSealedWitness int
  | CoverageResidentRow string int
  | CoverageSealedRow string int int
  | CoverageOther int

definition coverage_census_query :: "'b db \<Rightarrow> coverage_answer list" where
  "coverage_census_query d =
     [CoverageResidentWitness (int (length (kernel_decisions d))),
      CoverageSealedWitness (int (length (kernel_segments d)))] @
     map (\<lambda>r. CoverageResidentRow (dr_id r) (if row_accounted r d then 1 else 0)) (kernel_decisions d) @
     map (\<lambda>s. CoverageSealedRow (sw_segment_hash s) (int (sw_count s))
            (stamped_or_minus_one (sw_segment_hash s) d)) (kernel_segments d)"

definition backfill_census_query :: "'b db \<Rightarrow> 'b census_row list" where
  "backfill_census_query d =
     Witness (int (length (kernel_decisions d))) #
     map (\<lambda>r. Carried (dr_record r)) (filter (\<lambda>r. \<not> row_accounted r d) (kernel_decisions d))"

datatype id_row =
    IdWitness
  | IdIdentity identity_row
  | IdCollision collision_row
  | IdOther int

definition identity_of_id_query :: "string \<Rightarrow> 'b db \<Rightarrow> id_row list" where
  "identity_of_id_query i d =
     IdWitness #
     map IdIdentity (filter (\<lambda>r. ir_id r = i) (kernel_identity d)) @
     map IdCollision (filter (\<lambda>c. cr_id c = i) (kernel_collisions d))"

end
