(* ===== verification/Operations.thy ===== *)
theory Operations
  imports Rahi_Types
begin

text \<open>
  Operations of an asynchronous handle: a function from a state to a result and the next state,
  where \<open>Inl\<close> is the \<^verbatim>\<open>Err\<close> the call answers. \<open>fate\<close> is what becomes of one request to the
  replicated store. The locale \<open>guarantee\<close> carries any reflexive transitive relation on states
  through the operations built from others.
\<close>

datatype fate = Acked | AckLost error | NotSent error

type_synonym ('s, 'a) op = "'s \<Rightarrow> (error + 'a) \<times> 's"

definition ret :: "'a \<Rightarrow> ('s, 'a) op" where
  "ret x = (\<lambda>s. (Inr x, s))"

definition fail :: "error \<Rightarrow> ('s, 'a) op" where
  "fail e = (\<lambda>s. (Inl e, s))"

definition lift :: "error + 'a \<Rightarrow> ('s, 'a) op" where
  "lift r = (\<lambda>s. (r, s))"

definition on_result :: "('s, 'a) op \<Rightarrow> (error + 'a \<Rightarrow> ('s, 'c) op) \<Rightarrow> ('s, 'c) op" where
  "on_result m f = (\<lambda>s. case m s of (r, t) \<Rightarrow> f r t)"

definition obind :: "('s, 'a) op \<Rightarrow> ('a \<Rightarrow> ('s, 'c) op) \<Rightarrow> ('s, 'c) op" where
  "obind m f = on_result m (\<lambda>r. case r of Inl e \<Rightarrow> fail e | Inr x \<Rightarrow> f x)"

lemma obind_Inr_iff:
  "obind m f s = (Inr y, t) \<longleftrightarrow> (\<exists>x u. m s = (Inr x, u) \<and> f x u = (Inr y, t))"
  by (auto simp: obind_def on_result_def fail_def split: prod.splits sum.splits)

lemma obind_Inl_iff:
  "obind m f s = (Inl e, t) \<longleftrightarrow> m s = (Inl e, t) \<or> (\<exists>x u. m s = (Inr x, u) \<and> f x u = (Inl e, t))"
  by (auto simp: obind_def on_result_def fail_def split: prod.splits sum.splits)

lemma obind_Inr [simp]: "m s = (Inr x, u) \<Longrightarrow> obind m f s = f x u"
  by (simp add: obind_def on_result_def)

lemma obind_Inl [simp]: "m s = (Inl e, u) \<Longrightarrow> obind m f s = (Inl e, u)"
  by (simp add: obind_def on_result_def fail_def)

lemma on_result_iff: "on_result m f s = z \<longleftrightarrow> (\<exists>r u. m s = (r, u) \<and> f r u = z)"
  by (simp add: on_result_def split: prod.splits)

lemma on_result_eq: "m s = (r, u) \<Longrightarrow> on_result m f s = f r u"
  by (simp add: on_result_def)

lemma op_simps [simp]:
  "ret x s = (Inr x, s)" "fail e s = (Inl e, s)" "lift r s = (r, s)"
  by (simp_all add: ret_def fail_def lift_def)

section \<open>A spread\<close>

text \<open>FNV-1a over bytes, by which the retry waits spread; the ledger and the work queue each salt it.\<close>

definition le_bytes :: "nat \<Rightarrow> nat list" where
  "le_bytes n = map (\<lambda>i. n div 256 ^ i mod 256) [0, 1, 2, 3]"

fun fnv_fold :: "nat list \<Rightarrow> u64 \<Rightarrow> u64" where
  "fnv_fold [] h = h"
| "fnv_fold (b # bs) h = fnv_fold bs (xor h (of_nat b) * 0x100000001b3)"

section \<open>Answers that lose rows\<close>

text \<open>\<^verbatim>\<open>hiqlite\<close> reports a read that failed while stepping as a shorter answer.\<close>

definition answer :: "nat option \<Rightarrow> 'r list \<Rightarrow> 'r list" where
  "answer k rows = (case k of None \<Rightarrow> rows | Some n \<Rightarrow> take n rows)"

lemma set_answer: "set (answer k rows) \<subseteq> set rows"
  by (auto simp: answer_def dest: in_set_takeD split: option.splits)

lemma answer_None [simp]: "answer None rows = rows"
  by (simp add: answer_def)

lemma answer_eq_take: "\<exists>n. answer k rows = take n rows"
  by (cases k) (auto simp: answer_def intro: exI [of _ "length rows"])

section \<open>Guarantees\<close>

locale guarantee =
  fixes R :: "'s \<Rightarrow> 's \<Rightarrow> bool"
  assumes R_refl: "R s s"
    and R_trans: "R s t \<Longrightarrow> R t u \<Longrightarrow> R s u"
begin

definition keeps :: "('s, 'a) op \<Rightarrow> bool" where
  "keeps m \<longleftrightarrow> (\<forall>s r t. m s = (r, t) \<longrightarrow> R s t)"

lemma keepsI: "(\<And>s r t. m s = (r, t) \<Longrightarrow> R s t) \<Longrightarrow> keeps m"
  by (simp add: keeps_def)

lemma keepsD: "keeps m \<Longrightarrow> m s = (r, t) \<Longrightarrow> R s t"
  by (auto simp: keeps_def)

lemma keeps_pure: "keeps (ret x)" "keeps (fail e)" "keeps (lift r)"
  by (auto simp: keeps_def R_refl)

lemma keeps_on_result: "keeps m \<Longrightarrow> (\<And>r. keeps (f r)) \<Longrightarrow> keeps (on_result m f)"
  unfolding keeps_def on_result_def by (metis (mono_tags, lifting) R_trans case_prod_conv surj_pair)

lemma keeps_bind: "keeps m \<Longrightarrow> (\<And>x. keeps (f x)) \<Longrightarrow> keeps (obind m f)"
  unfolding obind_def by (rule keeps_on_result) (auto split: sum.split intro: keeps_pure)

end

end
