(* ===== verification/Ledger_Cell.thy ===== *)
theory Ledger_Cell
  imports Ledger_Db Operations
begin

text \<open>
  One handle's view of the store and the archive, under interference. \<open>cell\<close> is the shared state
  (tables, archived objects) with this node's cached coverage verdict and a clock that counts its
  store and archive calls; \<open>world\<close> says, for each call, what every other node and task committed
  before it reached the leader, whether it was answered, and whether its answer lost rows
  (\<^verbatim>\<open>hiqlite\<close> reports a read that failed while stepping as a shorter answer). An operation is a
  function from a cell to a result and a cell. The locale \<open>guarantee\<close> carries any reflexive
  transitive relation on cells through the operations built from these calls.
\<close>

section \<open>State\<close>

record cached_coverage =
  cv_complete :: bool
  cv_evidence :: string
  cv_uncovered :: "hash list"

record 'b cell =
  c_db :: "'b db"
  c_objects :: "'b objects"
  c_verdict :: cached_coverage
  c_clock :: nat

record 'b world =
  w_db :: "nat \<Rightarrow> 'b db \<Rightarrow> 'b db"
  w_objects :: "nat \<Rightarrow> 'b objects \<Rightarrow> 'b objects"
  w_fate :: "nat \<Rightarrow> fate"
  w_keep :: "nat \<Rightarrow> nat option"
  w_put_fault :: "nat \<Rightarrow> 'b put_fault option"
  w_get_fault :: "nat \<Rightarrow> bool"

text \<open>Nobody else writes, every call is answered whole.\<close>

definition quiet :: "'b world" where
  "quiet = \<lparr>w_db = (\<lambda>_ d. d), w_objects = (\<lambda>_ a. a), w_fate = (\<lambda>_. Acked), w_keep = (\<lambda>_. None),
     w_put_fault = (\<lambda>_. None), w_get_fault = (\<lambda>_. False)\<rparr>"

section \<open>Operations\<close>

definition read_verdict :: "('b cell, cached_coverage) op" where
  "read_verdict = (\<lambda>s. (Inr (c_verdict s), s))"

definition write_verdict :: "cached_coverage \<Rightarrow> ('b cell, unit) op" where
  "write_verdict v = (\<lambda>s. (Inr (), s\<lparr>c_verdict := v\<rparr>))"

definition tick :: "'b world \<Rightarrow> 'b cell \<Rightarrow> 'b cell" where
  "tick W s =
     s\<lparr>c_db := w_db W (c_clock s) (c_db s), c_objects := w_objects W (c_clock s) (c_objects s),
       c_clock := Suc (c_clock s)\<rparr>"

definition query_consistent :: "'b world \<Rightarrow> ('b db \<Rightarrow> 'r list) \<Rightarrow> ('b cell, 'r list) op" where
  "query_consistent W q = (\<lambda>s.
     (case w_fate W (c_clock s) of
        Acked \<Rightarrow> Inr (answer (w_keep W (c_clock s)) (q (c_db (tick W s))))
      | AckLost e \<Rightarrow> Inl e
      | NotSent e \<Rightarrow> Inl e,
      tick W s))"

definition store_txn :: "'b world \<Rightarrow> 'b statement list \<Rightarrow> ('b cell, nat list) op" where
  "store_txn W stmts = (\<lambda>s.
     if stmts = [] then (Inl (Validation ''txn needs at least one statement''), s)
     else
       (case w_fate W (c_clock s) of
          NotSent e \<Rightarrow> (Inl e, tick W s)
        | Acked \<Rightarrow>
            (case txn stmts (c_db (tick W s)) of
               None \<Rightarrow> (Inl (Validation ''transaction error''), tick W s)
             | Some (d, ns) \<Rightarrow> (Inr ns, (tick W s)\<lparr>c_db := d\<rparr>))
        | AckLost e \<Rightarrow>
            (case txn stmts (c_db (tick W s)) of
               None \<Rightarrow> (Inl e, tick W s)
             | Some (d, ns) \<Rightarrow> (Inl e, (tick W s)\<lparr>c_db := d\<rparr>))))"

definition put_object :: "'b world \<Rightarrow> string \<Rightarrow> 'b \<Rightarrow> ('b cell, unit) op" where
  "put_object W key bytes = (\<lambda>s.
     (case archive_put (w_put_fault W (c_clock s)) key bytes (c_objects (tick W s)) of
        (r, A) \<Rightarrow> (r, (tick W s)\<lparr>c_objects := A\<rparr>)))"

definition get_object :: "'b world \<Rightarrow> string \<Rightarrow> ('b cell, 'b) op" where
  "get_object W key = (\<lambda>s.
     (archive_get (w_get_fault W (c_clock s)) key (c_objects (tick W s)), tick W s))"

lemma verdict_simps [simp]:
  "read_verdict s = (Inr (c_verdict s), s)" "write_verdict v s = (Inr (), s\<lparr>c_verdict := v\<rparr>)"
  by (simp_all add: read_verdict_def write_verdict_def)

lemma tick_simps [simp]:
  "c_db (tick W s) = w_db W (c_clock s) (c_db s)"
  "c_objects (tick W s) = w_objects W (c_clock s) (c_objects s)"
  "c_verdict (tick W s) = c_verdict s" "c_clock (tick W s) = Suc (c_clock s)"
  by (simp_all add: tick_def)

lemma query_Inr_iff:
  "query_consistent W q s = (Inr rows, t) \<longleftrightarrow>
     w_fate W (c_clock s) = Acked \<and> t = tick W s \<and>
     rows = answer (w_keep W (c_clock s)) (q (c_db t))"
  by (auto simp: query_consistent_def split: fate.splits)

lemma query_state: "query_consistent W q s = (r, t) \<Longrightarrow> t = tick W s"
  by (auto simp: query_consistent_def)

lemma store_txn_Inr_iff:
  "store_txn W stmts s = (Inr ns, t) \<longleftrightarrow>
     stmts \<noteq> [] \<and> w_fate W (c_clock s) = Acked \<and>
     (\<exists>d. txn stmts (c_db (tick W s)) = Some (d, ns) \<and> t = (tick W s)\<lparr>c_db := d\<rparr>)"
  by (auto simp: store_txn_def split: fate.splits option.splits prod.splits)

section \<open>A quiet store\<close>

lemma quiet_simps [simp]:
  "w_db quiet n d = d" "w_objects quiet n a = a" "w_fate quiet n = Acked" "w_keep quiet n = None"
  "w_put_fault quiet n = None" "w_get_fault quiet n = False"
  by (simp_all add: quiet_def)

lemma quiet_tick: "tick quiet s = s\<lparr>c_clock := Suc (c_clock s)\<rparr>"
  by (simp add: tick_def)

lemma quiet_query: "query_consistent quiet q s = (Inr (q (c_db s)), s\<lparr>c_clock := Suc (c_clock s)\<rparr>)"
  by (simp add: query_consistent_def quiet_tick)

section \<open>Guarantees\<close>

text \<open>What everybody may do to the shared state.\<close>

definition objects_le :: "'b objects \<Rightarrow> 'b objects \<Rightarrow> bool" where
  "objects_le A B \<longleftrightarrow> (\<forall>p \<in> set (map fst A). map_of B p = map_of A p)"

definition cell_le :: "'b cell \<Rightarrow> 'b cell \<Rightarrow> bool" where
  "cell_le s t \<longleftrightarrow>
     (db_ok (c_db s) \<longrightarrow> db_ok (c_db t)) \<and> evolves (c_db s) (c_db t) \<and>
     objects_le (c_objects s) (c_objects t)"

definition world_ok :: "'b world \<Rightarrow> bool" where
  "world_ok W \<longleftrightarrow>
     (\<forall>n d. evolves d (w_db W n d) \<and> (db_ok d \<longrightarrow> db_ok (w_db W n d))) \<and>
     (\<forall>n A. objects_le A (w_objects W n A))"

lemma objects_le_refl [simp]: "objects_le A A"
  by (simp add: objects_le_def)

lemma objects_le_map_of: "objects_le A B \<Longrightarrow> map_of A p = Some x \<Longrightarrow> map_of B p = Some x"
  unfolding objects_le_def by (metis domI dom_map_of_conv_image_fst set_map)

lemma objects_leI: "(\<And>p x. map_of A p = Some x \<Longrightarrow> map_of B p = Some x) \<Longrightarrow> objects_le A B"
proof -
  assume a: "\<And>p x. map_of A p = Some x \<Longrightarrow> map_of B p = Some x"
  have "map_of B p = map_of A p" if "p \<in> set (map fst A)" for p
    using that a [of p] by (cases "map_of A p") (auto simp: map_of_eq_None_iff)
  then show ?thesis by (simp add: objects_le_def)
qed

lemma objects_le_trans: "objects_le A B \<Longrightarrow> objects_le B C \<Longrightarrow> objects_le A C"
  by (rule objects_leI) (meson objects_le_map_of)

lemma archive_put_le: "archive_put fault k b A = (r, A') \<Longrightarrow> objects_le A A'"
  by (rule objects_leI) (rule archive_put_extends)

interpretation evolution: guarantee cell_le
  by unfold_locales (auto simp: cell_le_def intro: evolves_trans objects_le_trans)

lemma quiet_ok: "world_ok quiet"
  by (simp add: world_ok_def)

lemma cell_le_tick: "world_ok W \<Longrightarrow> cell_le s (tick W s)"
  by (auto simp: world_ok_def cell_le_def)

lemma evolution_query: "world_ok W \<Longrightarrow> evolution.keeps (query_consistent W q)"
  by (auto intro!: evolution.keepsI cell_le_tick dest: query_state)

lemma evolution_read: "evolution.keeps read_verdict"
  by (auto intro!: evolution.keepsI simp: cell_le_def)

lemma evolution_write: "evolution.keeps (write_verdict v)"
  by (auto intro!: evolution.keepsI simp: cell_le_def)

lemma evolution_get: "world_ok W \<Longrightarrow> evolution.keeps (get_object W k)"
  by (auto intro!: evolution.keepsI cell_le_tick simp: get_object_def)

lemma evolution_put:
  assumes "world_ok W"
  shows "evolution.keeps (put_object W k b)"
proof (rule evolution.keepsI)
  fix s :: "'a cell" and r t
  assume "put_object W k b s = (r, t)"
  then obtain A where A: "archive_put (w_put_fault W (c_clock s)) k b (c_objects (tick W s)) = (r, A)"
      and t: "t = (tick W s)\<lparr>c_objects := A\<rparr>"
    by (auto simp: put_object_def split: prod.splits)
  have "cell_le (tick W s) t"
    using archive_put_le [OF A] t by (simp add: cell_le_def)
  with cell_le_tick [OF assms] show "cell_le s t" by (rule evolution.R_trans)
qed

lemma evolution_txn:
  assumes "world_ok W"
  shows "evolution.keeps (store_txn W stmts)"
proof (rule evolution.keepsI)
  fix s :: "'a cell" and r t
  assume a: "store_txn W stmts s = (r, t)"
  consider "t = s" | "t = tick W s"
    | d ns where "txn stmts (c_db (tick W s)) = Some (d, ns)" "t = (tick W s)\<lparr>c_db := d\<rparr>"
    using a by (auto simp: store_txn_def split: if_splits fate.splits option.splits prod.splits)
  then show "cell_le s t"
  proof cases
    case 1
    then show ?thesis by (simp add: evolution.R_refl)
  next
    case 2
    then show ?thesis using cell_le_tick [OF assms] by simp
  next
    case 3
    from 3(1) have "evolves (c_db (tick W s)) d" "db_ok (c_db (tick W s)) \<longrightarrow> db_ok d"
      using txn_evolves txn_db_ok by blast+
    then have "cell_le (tick W s) t"
      using 3(2) by (simp add: cell_le_def)
    with cell_le_tick [OF assms] show ?thesis by (rule evolution.R_trans)
  qed
qed

lemmas evolution_ops =
  evolution.keeps_pure evolution.keeps_bind evolution.keeps_on_result
  evolution_query evolution_read evolution_write evolution_get evolution_put evolution_txn

end
