(* ===== verification/Ledger_Chain.thy ===== *)
theory Ledger_Chain
  imports Ledger_Cell
begin

text \<open>
  The reads of \<^verbatim>\<open>chain.rs\<close> and \<^verbatim>\<open>seal.rs\<close>: the head, the resident root, the one-statement chain
  snapshot with its censuses, and verification of the chain at both depths. Each handler that
  judges an answer is a pure function of the rows it was given, whatever they are; the operation
  around it sends the query. The test seams and read counters of the handle are left out.
\<close>

section \<open>The handle\<close>

record ledger =
  l_signer :: signer
  l_genesis_parent :: hash
  l_opened_resident :: bool
  l_opened_sealed :: bool
  l_repair :: bool

definition l_verifier :: "'b env \<Rightarrow> ledger \<Rightarrow> ledger_verifier" where
  "l_verifier E L = signer_verifier E (l_signer L)"

record chain_snap =
  cs_segments :: "segment_header list"
  cs_root :: hash
  cs_records :: "signed_record list"

section \<open>Censuses and roots\<close>

definition check_census :: "string \<Rightarrow> int option \<Rightarrow> nat \<Rightarrow> error + unit" where
  "check_census what witnessed carried =
     (case witnessed of
        None \<Rightarrow> Inl (Integrity (what @ '': the read did not answer''))
      | Some expected \<Rightarrow>
          if expected < 0 then Inl (Integrity (what @ '': negative count''))
          else if int carried = expected then Inr ()
          else Inl (Integrity (what @ '': the answer does not account for itself'')))"

definition one_root :: "string list \<Rightarrow> string \<Rightarrow> error + hash option" where
  "one_root roots what =
     (case roots of
        [] \<Rightarrow> Inr None
      | [first] \<Rightarrow> rbind (hash_parse first) (\<lambda>h. Inr (Some h))
      | _ \<Rightarrow> Inl (Integrity (''the '' @ what @ '' has two roots'')))"

definition root_of_segment_heads :: "(string \<times> string) list \<Rightarrow> int \<Rightarrow> hash \<Rightarrow> error + hash" where
  "root_of_segment_heads heads segment_count genesis_parent =
     (case heads of
        [] \<Rightarrow>
          if segment_count = 0 then Inr genesis_parent
          else Inl (Integrity ''the archive has segments but no last one'')
      | [(_, last_hash)] \<Rightarrow> hash_parse last_hash
      | _ \<Rightarrow> Inl (Integrity ''the archive forked''))"

definition into_header :: "'b env \<Rightarrow> 'b segment_row \<Rightarrow> error + segment_header" where
  "into_header E row =
     rbind (hash_parse (sw_segment_hash row)) (\<lambda>sh.
     rbind (hash_parse (sw_prev_segment_hash row)) (\<lambda>ph.
     rbind (hash_parse (sw_last_hash row)) (\<lambda>lh.
     rbind (try_option hash_parse
              (case sw_current_manifest row of Some [] \<Rightarrow> None | m \<Rightarrow> m)) (\<lambda>cm.
     rbind (try_option
              (\<lambda>t. map_err (\<lambda>e. Integrity (''current_epoch: '' @ e)) (tail_of_text E t))
              (case sw_current_epoch row of
                 None \<Rightarrow> None
               | Some t \<Rightarrow> if text_len E t = 0 then None else Some t)) (\<lambda>ce.
     Inr \<lparr>sh_first_id = sw_first_id row, sh_last_id = sw_last_id row, sh_count = sw_count row,
          sh_segment_hash = sh, sh_prev_segment_hash = ph, sh_last_hash = lh,
          sh_current_manifest = cm, sh_current_epoch = ce\<rparr>)))))"

text \<open>One pass over a witnessed answer: its last witness and the rows it carried.\<close>

fun sort_census :: "'r census_row list \<Rightarrow> int option \<times> 'r list" where
  "sort_census [] = (None, [])"
| "sort_census (Witness n # rows) =
     (case sort_census rows of (w, rs) \<Rightarrow> (if w = None then Some n else w, rs))"
| "sort_census (Carried r # rows) = (case sort_census rows of (w, rs) \<Rightarrow> (w, r # rs))"

section \<open>Counting and the head\<close>

definition read_count :: "int list \<Rightarrow> error + nat" where
  "read_count rows =
     (let n = (case rows of [] \<Rightarrow> 0 | n # _ \<Rightarrow> n)
      in if n < 0 then Inl (Integrity ''negative row count'') else Inr (nat n))"

definition ledger_count :: "'b world \<Rightarrow> ('b cell, nat) op" where
  "ledger_count W = obind (query_consistent W count_query) (\<lambda>rows. lift (read_count rows))"

definition ledger_segment_count :: "'b world \<Rightarrow> ('b cell, nat) op" where
  "ledger_segment_count W = obind (query_consistent W segment_count_query) (\<lambda>rows. lift (read_count rows))"

definition root_of_rows :: "ledger \<Rightarrow> (string \<times> string) census_row list \<Rightarrow> error + hash" where
  "root_of_rows L rows =
     (case sort_census rows of
        (None, _) \<Rightarrow> Inl (Integrity ''the read of kernel_segments did not answer'')
      | (Some n, heads) \<Rightarrow> root_of_segment_heads heads n (l_genesis_parent L))"

definition resident_root :: "'b world \<Rightarrow> ledger \<Rightarrow> ('b cell, hash) op" where
  "resident_root W L =
     obind (query_consistent W segment_root_census_query) (\<lambda>rows. lift (root_of_rows L rows))"

definition ledger_head :: "'b world \<Rightarrow> ledger \<Rightarrow> ('b cell, hash) op" where
  "ledger_head W L =
     obind (query_consistent W head_query) (\<lambda>rows.
       case rows of
         [] \<Rightarrow>
           obind (ledger_count W) (\<lambda>n.
             if n = 0 then resident_root W L
             else fail (Integrity ''the chain has records but no head''))
       | [h] \<Rightarrow> lift (hash_parse h)
       | _ \<Rightarrow> fail (Integrity ''the chain forked''))"

definition segments_of_rows :: "'b env \<Rightarrow> ledger \<Rightarrow> 'b segment_row census_row list \<Rightarrow> error + segment_header list" where
  "segments_of_rows E L rows =
     (case sort_census rows of (witnessed, carried) \<Rightarrow>
        rbind (check_census ''kernel_segments'' witnessed (length carried)) (\<lambda>_.
        rbind (try_map (into_header E) carried) (\<lambda>headers.
        order_segments (l_genesis_parent L) headers)))"

definition ledger_segments :: "'b env \<Rightarrow> 'b world \<Rightarrow> ledger \<Rightarrow> ('b cell, segment_header list) op" where
  "ledger_segments E W L =
     obind (query_consistent W segments_census_query) (\<lambda>rows. lift (segments_of_rows E L rows))"

section \<open>The chain snapshot\<close>

fun sort_snapshot ::
  "'b snapshot_row list \<Rightarrow> error + (int option \<times> int option \<times> 'b list \<times> 'b segment_row list)" where
  "sort_snapshot [] = Inr (None, None, [], [])"
| "sort_snapshot (row # rows) =
     (case row of
        OtherKind _ \<Rightarrow> Inl (Integrity ''the chain read carried a row of another kind'')
      | ResidentWitness n \<Rightarrow>
          rbind (sort_snapshot rows) (\<lambda>(rw, sw, recs, segs).
            Inr (if rw = None then Some n else rw, sw, recs, segs))
      | SealedWitness n \<Rightarrow>
          rbind (sort_snapshot rows) (\<lambda>(rw, sw, recs, segs).
            Inr (rw, if sw = None then Some n else sw, recs, segs))
      | ResidentRow b \<Rightarrow>
          rbind (sort_snapshot rows) (\<lambda>(rw, sw, recs, segs). Inr (rw, sw, b # recs, segs))
      | SealedRow s \<Rightarrow>
          rbind (sort_snapshot rows) (\<lambda>(rw, sw, recs, segs). Inr (rw, sw, recs, s # segs)))"

definition header_heads :: "segment_header list \<Rightarrow> (string \<times> string) list" where
  "header_heads headers =
     map (\<lambda>h. (as_str (sh_segment_hash h), as_str (sh_last_hash h)))
       (filter (\<lambda>h. sh_segment_hash h \<notin> set (map sh_prev_segment_hash headers)) headers)"

definition snapshot_of_rows :: "'b env \<Rightarrow> ledger \<Rightarrow> 'b snapshot_row list \<Rightarrow> error + chain_snap" where
  "snapshot_of_rows E L rows =
     rbind (sort_snapshot rows) (\<lambda>(rw, sw, carried_records, carried_segments).
     rbind (check_census ''kernel_decisions'' rw (length carried_records)) (\<lambda>_.
     rbind (check_census ''kernel_segments'' sw (length carried_segments)) (\<lambda>_.
     rbind (try_map (into_header E) carried_segments) (\<lambda>headers.
     if headers = [] \<and> l_opened_sealed L
     then Inl (Integrity ''the segment headers read back empty'')
     else
     rbind (try_map (from_bytes E) carried_records) (\<lambda>records.
     if records = [] \<and> l_opened_resident L
     then Inl (Integrity ''the resident chain reads back empty'')
     else
     rbind (root_of_segment_heads (header_heads headers) (case sw of None \<Rightarrow> 0 | Some n \<Rightarrow> n)
              (l_genesis_parent L)) (\<lambda>root.
     rbind (order_segments (l_genesis_parent L) headers) (\<lambda>segs.
     rbind (order_chain root records) (\<lambda>recs.
     Inr \<lparr>cs_segments = segs, cs_root = root, cs_records = recs\<rparr>))))))))"

definition chain_snapshot :: "'b env \<Rightarrow> 'b world \<Rightarrow> ledger \<Rightarrow> ('b cell, chain_snap) op" where
  "chain_snapshot E W L =
     obind (query_consistent W chain_snapshot_query) (\<lambda>rows. lift (snapshot_of_rows E L rows))"

definition ledger_records :: "'b env \<Rightarrow> 'b world \<Rightarrow> ledger \<Rightarrow> ('b cell, signed_record list) op" where
  "ledger_records E W L = obind (chain_snapshot E W L) (\<lambda>s. ret (cs_records s))"

definition export_jsonl :: "'b env \<Rightarrow> 'b world \<Rightarrow> ledger \<Rightarrow> ('b cell, 'b list) op" where
  "export_jsonl E W L = obind (ledger_records E W L) (\<lambda>rs. ret (map (to_canonical_bytes E) rs))"

section \<open>Verification\<close>

datatype depth = Resident_Depth | Full_Depth

fun verify_segment_bodies ::
  "'b env \<Rightarrow> 'b world \<Rightarrow> ledger \<Rightarrow> hash \<Rightarrow> segment_header list \<Rightarrow> ('b cell, unit) op" where
  "verify_segment_bodies E W L parent [] = ret ()"
| "verify_segment_bodies E W L parent (header # headers) =
     obind (get_object W (header_key header)) (\<lambda>bytes.
     obind (lift (map_err (\<lambda>e. Integrity (message e)) (segment_from_bytes E bytes))) (\<lambda>seg.
       if sg_header seg \<noteq> header
       then fail (Integrity ''the body carries a header the store does not agree with'')
       else
         obind (lift (verify_segment E parent seg (l_verifier E L))) (\<lambda>_.
         verify_segment_bodies E W L (sh_last_hash header) headers)))"

definition verify_chain_witnessed ::
  "'b env \<Rightarrow> 'b world \<Rightarrow> ledger \<Rightarrow> depth \<Rightarrow> ('b cell, bool \<times> bool) op" where
  "verify_chain_witnessed E W L depth =
     obind (chain_snapshot E W L) (\<lambda>snap.
     obind (lift (verify_chain E (cs_root snap) (cs_records snap) (l_verifier E L))) (\<lambda>_.
     obind (case depth of
              Resident_Depth \<Rightarrow> ret ()
            | Full_Depth \<Rightarrow>
                verify_segment_bodies E W L (l_genesis_parent L) (cs_segments snap)) (\<lambda>_.
     ret (cs_records snap \<noteq> [], cs_segments snap \<noteq> []))))"

section \<open>The stored root and genesis\<close>

definition stored_genesis_parent :: "'b world \<Rightarrow> ('b cell, hash option) op" where
  "stored_genesis_parent W =
     obind (query_consistent W segment_root_query) (\<lambda>segs.
     obind (lift (one_root segs ''archive'')) (\<lambda>root.
       case root of
         Some r \<Rightarrow> ret (Some r)
       | None \<Rightarrow>
           obind (query_consistent W record_root_query) (\<lambda>recs.
           lift (one_root recs ''chain''))))"

definition refuse_a_second_genesis :: "'b world \<Rightarrow> ('b cell, unit) op" where
  "refuse_a_second_genesis W =
     obind (ledger_count W) (\<lambda>resident.
     obind (ledger_segment_count W) (\<lambda>sealed.
       if resident = 0 \<and> sealed = 0 then ret ()
       else fail (Integrity ''the chain has records but no root'')))"

definition LEDGER_SCHEMA_VERSION :: string where "LEDGER_SCHEMA_VERSION = ''1.0.0''"

definition genesis_id :: "ledger \<Rightarrow> decision_id" where
  "genesis_id L = ''genesis:'' @ as_str (l_genesis_parent L)"

definition genesis_decision :: "'b env \<Rightarrow> ledger \<Rightarrow> decision" where
  "genesis_decision E L =
     with_payload E
       (JObj [(''schema_version'', JStr LEDGER_SCHEMA_VERSION),
              (''genesis_parent'', JStr (as_str (l_genesis_parent L)))])
       (decision_new (genesis_id L) GENESIS ''system'' Allow
          ''the chain opens against the booted manifest'')"

definition hash_of :: "'b world \<Rightarrow> decision_id \<Rightarrow> ('b cell, hash option) op" where
  "hash_of W i =
     obind (query_consistent W (hash_of_query i)) (\<lambda>rows.
       case rows of [] \<Rightarrow> ret None | h # _ \<Rightarrow> obind (lift (hash_parse h)) (\<lambda>x. ret (Some x)))"

text \<open>
  Telling damage from a store failure when the unique parent index will not build: \<open>err\<close> is what
  creating it answered.
\<close>

definition index_failure :: "'b world \<Rightarrow> error \<Rightarrow> ('b cell, error) op" where
  "index_failure W err =
     on_result (query_consistent W duplicate_parent_query) (\<lambda>r.
       case r of
         Inr (p # _) \<Rightarrow> ret (Integrity ''the unique parent index will not build'')
       | Inr [] \<Rightarrow> ret err
       | Inl probe \<Rightarrow> ret probe)"

definition row_of_record :: "'b env \<Rightarrow> signed_record \<Rightarrow> 'b decision_row" where
  "row_of_record E r =
     \<lparr>dr_id = lr_id (sr_record r), dr_prev_hash = lr_previous_record_hash (sr_record r),
      dr_hash = lr_record_hash (sr_record r), dr_record = to_canonical_bytes E r\<rparr>"

definition insert_statement :: "'b env \<Rightarrow> signed_record \<Rightarrow> 'b statement" where
  "insert_statement E r = InsertDecision (row_of_record E r)"

end
