(* ===== verification/Chain_Facts.thy ===== *)
theory Chain_Facts
  imports Ledger_Chain
begin

text \<open>
  What the chain reads establish. A census-bearing read is never answered from a shortened answer;
  the snapshot's root is the terminal hash of the last segment; and verification at full depth
  leaves one verified list of records from the genesis parent to the head, archived bodies first.
\<close>

section \<open>Censuses\<close>

lemma check_census_iff [result_simps, simp]:
  "check_census what w c = Inr u \<longleftrightarrow> w = Some (int c)"
  by (auto simp: check_census_def split: option.splits if_splits)

lemma check_census_error: "check_census what w c = Inl e \<Longrightarrow> \<exists>m. e = Integrity m"
  by (auto simp: check_census_def split: option.splits if_splits)

lemma sort_census_rows [simp]: "sort_census (map Carried rs) = (None, rs)"
  by (induction rs) auto

lemma sort_census_query: "sort_census (Witness n # map Carried rs) = (Some n, rs)"
  by simp

text \<open>A shortened answer either lost the witness or carries a prefix of the rows.\<close>

lemma sort_census_answer:
  "sort_census (answer k (Witness n # map Carried rs)) = (None, []) \<or>
     (\<exists>j. sort_census (answer k (Witness n # map Carried rs)) = (Some n, take j rs))"
proof (cases k)
  case None
  then show ?thesis by (auto intro: exI [of _ "length rs"])
next
  case (Some m)
  then show ?thesis by (cases m) (auto simp: answer_def take_map)
qed

lemma take_all_length: "int (length (take j rs)) = int (length rs) \<Longrightarrow> take j rs = rs"
  by simp

lemma sort_resident_sealed [simp]:
  "sort_snapshot (map ResidentRow rs @ map SealedRow ss) = Inr (None, None, rs, ss)"
proof -
  have "sort_snapshot (map SealedRow ss) = Inr (None, None, [], ss)"
    by (induction ss) auto
  then show ?thesis by (induction rs) auto
qed

lemma chain_snapshot_query_eq:
  "chain_snapshot_query d =
     ResidentWitness (int (length (kernel_decisions d))) #
     SealedWitness (int (length (kernel_segments d))) #
     map ResidentRow (map dr_record (kernel_decisions d)) @ map SealedRow (kernel_segments d)"
  by (simp add: chain_snapshot_query_def)

lemma sort_snapshot_query:
  "sort_snapshot (chain_snapshot_query d) =
     Inr (Some (int (length (kernel_decisions d))), Some (int (length (kernel_segments d))),
       map dr_record (kernel_decisions d), kernel_segments d)"
  by (simp add: chain_snapshot_query_eq del: map_map)

theorem snapshot_short_answer:
  assumes "snapshot_of_rows E L (answer k (chain_snapshot_query d)) = Inr s"
  shows "snapshot_of_rows E L (chain_snapshot_query d) = Inr s"
proof (cases k)
  case None
  with assms show ?thesis by simp
next
  case (Some n)
  consider "n = 0" | "n = 1" | j where "n = Suc (Suc j)"
    by (metis One_nat_def not0_implies_Suc)
  then show ?thesis
  proof cases
    case 1
    with Some assms show ?thesis by (auto simp: answer_def snapshot_of_rows_def check_census_def)
  next
    case 2
    with Some assms show ?thesis
      by (auto simp: answer_def snapshot_of_rows_def chain_snapshot_query_eq check_census_def)
  next
    case 3
    let ?rs = "map dr_record (kernel_decisions d)" and ?ss = "kernel_segments d"
    have ans: "answer k (chain_snapshot_query d) =
        ResidentWitness (int (length ?rs)) # SealedWitness (int (length ?ss)) #
        map ResidentRow (take j ?rs) @ map SealedRow (take (j - length ?rs) ?ss)"
      using Some 3 by (simp add: answer_def chain_snapshot_query_eq take_map del: map_map)
    have "sort_snapshot (answer k (chain_snapshot_query d)) =
        Inr (Some (int (length ?rs)), Some (int (length ?ss)),
          take j ?rs, take (j - length ?rs) ?ss)"
      unfolding ans by (simp del: map_map)
    moreover from this assms have "take j ?rs = ?rs" "take (j - length ?rs) ?ss = ?ss"
      by (auto simp: snapshot_of_rows_def simp del: take_map map_map intro!: take_all_length)
    ultimately have "sort_snapshot (answer k (chain_snapshot_query d)) =
        sort_snapshot (chain_snapshot_query d)"
      by (simp add: sort_snapshot_query)
    with assms show ?thesis by (simp add: snapshot_of_rows_def)
  qed
qed

section \<open>The root\<close>

lemma into_header_hash_ok:
  "into_header E row = Inr h \<Longrightarrow>
     hash_ok (sh_segment_hash h) \<and> hash_ok (sh_prev_segment_hash h) \<and> hash_ok (sh_last_hash h)"
  by (auto simp: into_header_def dest: hash_parse_gives_ok)

lemma linked_head_unclaimed:
  assumes "linked (\<lambda>h. Inr (sh_prev_segment_hash h)) (\<lambda>h. Inr (sh_segment_hash h)) p segs"
    "h \<in> set segs" "sh_segment_hash h \<notin> set (map sh_prev_segment_hash segs)"
  shows "h = last segs"
  using assms
proof (induction segs arbitrary: p)
  case Nil
  then show ?case by simp
next
  case (Cons x xs)
  show ?case
  proof (cases xs)
    case Nil
    with Cons.prems show ?thesis by simp
  next
    case (Cons y ys)
    with Cons.prems(1) have "sh_prev_segment_hash y = sh_segment_hash x" by simp
    with Cons Cons.prems(2,3) have "h \<in> set xs" by auto
    with Cons.IH [of "sh_segment_hash x"] Cons.prems Cons show ?thesis by simp
  qed
qed

text \<open>The resident chain is rooted at the last segment's terminal hash, or at the genesis parent.\<close>

definition root_after :: "hash \<Rightarrow> segment_header list \<Rightarrow> hash" where
  "root_after genesis_parent segs =
     (if segs = [] then genesis_parent else sh_last_hash (last segs))"

lemma root_is_last:
  assumes root: "root_of_segment_heads (header_heads headers) (int (length headers)) gp = Inr r"
    and ord: "order_segments gp headers = Inr segs"
    and ok: "\<forall>h \<in> set headers. hash_ok (sh_last_hash h)"
  shows "r = root_after gp segs"
proof -
  have l: "linked (\<lambda>h. Inr (sh_prev_segment_hash h)) (\<lambda>h. Inr (sh_segment_hash h)) gp segs"
    and m: "mset segs = mset headers"
    using ord by (simp_all add: segment_order.order_iff)
  then have s: "set segs = set headers" by (metis mset_eq_setD)
  show ?thesis
  proof (cases "header_heads headers")
    case Nil
    with root have "headers = []" "r = gp"
      by (auto simp: root_of_segment_heads_def split: if_splits)
    with m show ?thesis by (simp add: root_after_def)
  next
    case (Cons q qs)
    with root have "qs = []" "hash_parse (snd q) = Inr r"
      by (auto simp: root_of_segment_heads_def split: list.splits prod.splits)
    moreover
    from Cons have "q \<in> set (header_heads headers)" by simp
    then obtain h where h: "h \<in> set headers"
        "sh_segment_hash h \<notin> set (map sh_prev_segment_hash headers)"
        "q = (as_str (sh_segment_hash h), as_str (sh_last_hash h))"
      by (auto simp: header_heads_def)
    ultimately have "r = sh_last_hash h" using ok by auto
    moreover have "h = last segs"
      using linked_head_unclaimed [OF l, of h] h s by auto
    ultimately show ?thesis using h(1) s by (auto simp: root_after_def)
  qed
qed

section \<open>The snapshot\<close>

definition snapshot_facts ::
  "'b env \<Rightarrow> ledger \<Rightarrow> 'b db \<Rightarrow> chain_snap \<Rightarrow> bool" where
  "snapshot_facts E L d snap \<longleftrightarrow>
     (\<exists>headers rs.
        try_map (into_header E) (kernel_segments d) = Inr headers \<and>
        try_map (from_bytes E) (map dr_record (kernel_decisions d)) = Inr rs \<and>
        order_segments (l_genesis_parent L) headers = Inr (cs_segments snap) \<and>
        order_chain (cs_root snap) rs = Inr (cs_records snap)) \<and>
     cs_root snap = root_after (l_genesis_parent L) (cs_segments snap) \<and>
     (\<forall>h \<in> set (cs_segments snap). hash_ok (sh_last_hash h)) \<and>
     (l_opened_sealed L \<longrightarrow> cs_segments snap \<noteq> []) \<and>
     (l_opened_resident L \<longrightarrow> cs_records snap \<noteq> [])"

lemma order_segments_Nil_iff: "order_segments p hs = Inr [] \<longleftrightarrow> hs = []"
  using segment_order.order_set [of p hs "[]"] by auto

lemma order_chain_Nil_iff: "order_chain p hs = Inr [] \<longleftrightarrow> hs = []"
  using chain_order.order_set [of p hs "[]"] by auto

theorem snapshot_sound:
  assumes "snapshot_of_rows E L (answer k (chain_snapshot_query d)) = Inr snap"
  shows "snapshot_facts E L d snap"
proof -
  from snapshot_short_answer [OF assms] obtain headers rs where
    hs: "try_map (into_header E) (kernel_segments d) = Inr headers"
    and rs: "try_map (from_bytes E) (map dr_record (kernel_decisions d)) = Inr rs"
    and op: "\<not> (headers = [] \<and> l_opened_sealed L)" "\<not> (rs = [] \<and> l_opened_resident L)"
    and rt: "root_of_segment_heads (header_heads headers) (int (length (kernel_segments d)))
               (l_genesis_parent L) = Inr (cs_root snap)"
    and os: "order_segments (l_genesis_parent L) headers = Inr (cs_segments snap)"
    and oc: "order_chain (cs_root snap) rs = Inr (cs_records snap)"
    by (auto simp: snapshot_of_rows_def sort_snapshot_query split: if_splits)
  have ok: "\<forall>h \<in> set headers. hash_ok (sh_last_hash h)"
    using hs by (force simp: try_map_Inr_iff list_all2_conv_all_nth in_set_conv_nth
        dest: into_header_hash_ok)
  have len: "length headers = length (kernel_segments d)"
    using try_map_length [OF hs] .
  have root: "cs_root snap = root_after (l_genesis_parent L) (cs_segments snap)"
    using root_is_last [OF rt [folded len] os ok] .
  have set: "set (cs_segments snap) = set headers"
    using segment_order.order_set [OF os] .
  have ne: "l_opened_sealed L \<longrightarrow> cs_segments snap \<noteq> []" "l_opened_resident L \<longrightarrow> cs_records snap \<noteq> []"
    using op os oc order_segments_Nil_iff order_chain_Nil_iff by metis+
  show ?thesis
    unfolding snapshot_facts_def using hs rs os oc root ok set ne by blast
qed

lemma chain_snapshot_Inr:
  assumes "chain_snapshot E W L s = (Inr snap, t)"
  shows "t = tick W s \<and> snapshot_facts E L (c_db t) snap"
  using assms by (auto simp: chain_snapshot_def obind_Inr_iff query_Inr_iff intro: snapshot_sound)

lemma snapshot_linked:
  assumes "snapshot_facts E L d snap"
  shows "linked sr_prev_hash sr_hash (cs_root snap) (cs_records snap)"
    and "linked (\<lambda>h. Inr (sh_prev_segment_hash h)) (\<lambda>h. Inr (sh_segment_hash h))
           (l_genesis_parent L) (cs_segments snap)"
  using assms by (auto simp: snapshot_facts_def chain_order.order_iff segment_order.order_iff)

section \<open>The archived bodies\<close>

definition history :: "segment list \<Rightarrow> signed_record list" where
  "history bodies = concat (map sg_records bodies)"

definition body_in :: "'b env \<Rightarrow> 'b objects \<Rightarrow> segment \<Rightarrow> bool" where
  "body_in E A s \<longleftrightarrow>
     fetch_segment E (\<lambda>k. archive_get False k A) (sg_header s) = Inr s"

lemma objects_le_get:
  "objects_le A B \<Longrightarrow> archive_get f k A = Inr b \<Longrightarrow> archive_get False k B = Inr b"
  by (auto simp: archive_get_def dest: objects_le_map_of split: if_splits)

lemma body_in_le: "body_in E A s \<Longrightarrow> objects_le A B \<Longrightarrow> body_in E B s"
  by (auto simp: body_in_def fetch_segment_Inr_iff intro: objects_le_get)

lemma bodies_keep: "world_ok W \<Longrightarrow> evolution.keeps (verify_segment_bodies E W L p hs)"
  by (induction E W L p hs rule: verify_segment_bodies.induct)
    (auto intro!: evolution_ops split: if_split)

lemma verify_bodies_sound:
  assumes "env_ok E" "world_ok W"
  shows "verify_segment_bodies E W L parent headers s = (Inr (), t) \<Longrightarrow> hash_ok parent \<Longrightarrow>
     \<forall>h \<in> set headers. hash_ok (sh_last_hash h) \<Longrightarrow>
     \<exists>bodies. map sg_header bodies = headers \<and>
       (\<forall>b \<in> set bodies. body_in E (c_objects t) b) \<and>
       linked sr_prev_hash sr_hash parent (history bodies) \<and>
       chain_end sr_hash parent (history bodies) = root_after parent headers \<and>
       (\<forall>r \<in> set (history bodies). self_hashed E r \<and> record_good E (l_verifier E L) r)"
proof (induction headers arbitrary: parent s)
  case Nil
  then show ?case by (auto simp: history_def root_after_def)
next
  case (Cons h hs)
  note dg = env_okD(1) [OF assms(1)] env_okD(3) [OF assms(1)]
  from Cons.prems(1) obtain b seg u where
    g: "archive_get (w_get_fault W (c_clock s)) (header_key h) (c_objects (tick W s)) = Inr b"
    and seg: "segment_from_bytes E b = Inr seg" "sg_header seg = h"
    and v: "verify_segment E parent seg (l_verifier E L) = Inr ()"
    and u: "u = tick W s" and rest: "verify_segment_bodies E W L (sh_last_hash h) hs u = (Inr (), t)"
    by (auto simp: obind_Inr_iff get_object_def split: if_splits)
  have le: "objects_le (c_objects u) (c_objects t)"
    using evolution.keepsD [OF bodies_keep [OF assms(2)] rest] by (simp add: cell_le_def)
  have "archive_get False (header_key h) (c_objects t) = Inr b"
    using objects_le_get [OF le g [folded u]] .
  then have here: "body_in E (c_objects t) seg"
    using seg by (auto simp: body_in_def fetch_segment_Inr_iff segment_from_bytes_def)
  obtain bodies where bs: "map sg_header bodies = hs" "\<forall>b \<in> set bodies. body_in E (c_objects t) b"
      "linked sr_prev_hash sr_hash (sh_last_hash h) (history bodies)"
      "chain_end sr_hash (sh_last_hash h) (history bodies) = root_after (sh_last_hash h) hs"
      "\<forall>r \<in> set (history bodies). self_hashed E r \<and> record_good E (l_verifier E L) r"
    using Cons.IH [OF rest] Cons.prems(3) by auto
  have sv: "linked sr_prev_hash sr_hash parent (sg_records seg)"
      "\<forall>r \<in> set (sg_records seg). self_hashed E r \<and> record_good E (l_verifier E L) r"
    using v verify_segment_iff [OF dg Cons.prems(2)] by blast+
  have end_h: "chain_end sr_hash parent (sg_records seg) = sh_last_hash h"
    using verify_segment_end [OF dg Cons.prems(2) v] seg(2) by simp
  have hist: "history (seg # bodies) = sg_records seg @ history bodies"
    by (simp add: history_def)
  have r: "root_after (sh_last_hash h) hs = root_after parent (h # hs)"
    by (simp add: root_after_def)
  show ?case
  proof (intro exI [of _ "seg # bodies"] conjI)
    show "linked sr_prev_hash sr_hash parent (history (seg # bodies))"
      using sv(1) bs(3) end_h by (simp add: hist linked_append_iff)
    show "chain_end sr_hash parent (history (seg # bodies)) = root_after parent (h # hs)"
      using sv(1) bs(4) end_h r by (simp add: hist chain_end_append)
  qed (use bs seg here sv in \<open>auto simp: hist\<close>)
qed

section \<open>Verification\<close>

lemma verify_witnessed_Inr_iff:
  "verify_chain_witnessed E W L depth s = (Inr (res, sld), t) \<longleftrightarrow>
     (\<exists>snap u. chain_snapshot E W L s = (Inr snap, u) \<and>
        verify_chain E (cs_root snap) (cs_records snap) (l_verifier E L) = Inr () \<and>
        (case depth of Resident_Depth \<Rightarrow> t = u
         | Full_Depth \<Rightarrow>
             verify_segment_bodies E W L (l_genesis_parent L) (cs_segments snap) u = (Inr (), t)) \<and>
        res = (cs_records snap \<noteq> []) \<and> sld = (cs_segments snap \<noteq> []))"
  by (cases depth) (auto simp: verify_chain_witnessed_def obind_Inr_iff)

lemma root_after_ok:
  "hash_ok p \<Longrightarrow> \<forall>h \<in> set hs. hash_ok (sh_last_hash h) \<Longrightarrow> hash_ok (root_after p hs)"
  by (simp add: root_after_def)

lemma snapshot_root_ok:
  "snapshot_facts E L d snap \<Longrightarrow> hash_ok (l_genesis_parent L) \<Longrightarrow> hash_ok (cs_root snap)"
  by (simp add: snapshot_facts_def root_after_ok)

lemma full_verification_history:
  assumes env: "env_ok E" and W: "world_ok W" and gp: "hash_ok (l_genesis_parent L)"
    and v: "verify_chain_witnessed E W L Full_Depth s = (Inr (res, sld), t)"
  shows "\<exists>bodies rs.
     snapshot_facts E L (c_db (tick W s)) \<lparr>cs_segments = map sg_header bodies,
       cs_root = root_after (l_genesis_parent L) (map sg_header bodies), cs_records = rs\<rparr> \<and>
     (\<forall>b \<in> set bodies. body_in E (c_objects t) b) \<and>
     linked sr_prev_hash sr_hash (l_genesis_parent L) (history bodies @ rs) \<and>
     (\<forall>r \<in> set (history bodies @ rs). self_hashed E r \<and> record_good E (l_verifier E L) r) \<and>
     rs \<noteq> []"
proof -
  note dg = env_okD(1) [OF env] env_okD(3) [OF env]
  from v obtain snap u where snap: "chain_snapshot E W L s = (Inr snap, u)"
    and vc: "verify_chain E (cs_root snap) (cs_records snap) (l_verifier E L) = Inr ()"
    and vb: "verify_segment_bodies E W L (l_genesis_parent L) (cs_segments snap) u = (Inr (), t)"
    by (auto simp: verify_witnessed_Inr_iff)
  from chain_snapshot_Inr [OF snap] have sf: "snapshot_facts E L (c_db (tick W s)) snap" by auto
  then have lh: "\<forall>h \<in> set (cs_segments snap). hash_ok (sh_last_hash h)"
    and root: "cs_root snap = root_after (l_genesis_parent L) (cs_segments snap)"
    by (auto simp: snapshot_facts_def)
  obtain bodies where bs: "map sg_header bodies = cs_segments snap"
      "\<forall>b \<in> set bodies. body_in E (c_objects t) b"
      "linked sr_prev_hash sr_hash (l_genesis_parent L) (history bodies)"
      "chain_end sr_hash (l_genesis_parent L) (history bodies) = cs_root snap"
      "\<forall>r \<in> set (history bodies). self_hashed E r \<and> record_good E (l_verifier E L) r"
    using verify_bodies_sound [OF env W vb gp lh] root by auto
  have rv: "cs_records snap \<noteq> []" "linked sr_prev_hash sr_hash (cs_root snap) (cs_records snap)"
      "\<forall>r \<in> set (cs_records snap). self_hashed E r \<and> record_good E (l_verifier E L) r"
    using vc verify_chain_iff [OF dg snapshot_root_ok [OF sf gp]] by blast+
  have eq: "snap = \<lparr>cs_segments = map sg_header bodies,
      cs_root = root_after (l_genesis_parent L) (map sg_header bodies), cs_records = cs_records snap\<rparr>"
    using bs(1) root by simp
  show ?thesis
    using bs rv sf eq
    by (intro exI [of _ bodies] exI [of _ "cs_records snap"]) (auto simp: linked_append_iff)
qed

end
