(* ===== verification/Ledger_Identity.thy ===== *)
theory Ledger_Identity
  imports Chain_Facts
begin

text \<open>
  \<^verbatim>\<open>identity.rs\<close>: the lifetime identity of a decision id. The accounting statements a seal and a
  reindex run, the coverage verdict and its cache, the backfill, the presence of an id, recovery of
  one decision, and the reindex walk. The rendering of a report is left out.
\<close>

section \<open>Data\<close>

record decision_copy =
  dc_record_hash :: hash
  dc_segment_hash :: "hash option"
  dc_identity_digest :: hash

datatype presence =
    Resident hash
  | Sealed hash hash
  | Absent
  | Unproven "hash option"
  | Ambiguous "decision_copy list"

record coverage =
  cg_uncovered :: "hash list"
  cg_unstamped_resident :: nat

definition coverage_is_complete :: "coverage \<Rightarrow> bool" where
  "coverage_is_complete c \<longleftrightarrow> cg_uncovered c = [] \<and> cg_unstamped_resident c = 0"

definition coverage_why :: "coverage \<Rightarrow> string" where
  "coverage_why c =
     show_nat (length (cg_uncovered c)) @ '' sealed segment(s) and '' @
     show_nat (cg_unstamped_resident c) @ '' resident record(s) are not accounted for''"

datatype reindex_cause = CauseNotFound | CauseIo | CauseIntegrity

fun severity :: "reindex_cause \<Rightarrow> nat" where
  "severity CauseNotFound = 1"
| "severity CauseIo = 2"
| "severity CauseIntegrity = 3"

fun cause_of :: "error \<Rightarrow> reindex_cause" where
  "cause_of (NotFound _) = CauseNotFound"
| "cause_of (Integrity _) = CauseIntegrity"
| "cause_of _ = CauseIo"

record segment_reindex =
  si_segment_hash :: hash
  si_covered :: bool
  si_cause :: "reindex_cause option"
  si_detail :: string
  si_rows_written :: nat
  si_collisions :: nat

record reindex_report =
  rp_segments :: "segment_reindex list"
  rp_walked :: nat
  rp_rows_written :: nat
  rp_collisions :: nat

definition empty_report :: reindex_report where
  "empty_report = \<lparr>rp_segments = [], rp_walked = 0, rp_rows_written = 0, rp_collisions = 0\<rparr>"

definition all_covered :: "reindex_report \<Rightarrow> bool" where
  "all_covered r = list_all si_covered (rp_segments r)"

text \<open>\<^verbatim>\<open>Iterator::max_by_key\<close>: the last of the greatest.\<close>

fun worst_cause :: "reindex_cause list \<Rightarrow> reindex_cause option" where
  "worst_cause [] = None"
| "worst_cause (c # cs) =
     (case worst_cause cs of
        None \<Rightarrow> Some c
      | Some d \<Rightarrow> if severity c > severity d then Some c else Some d)"

definition report_outcome :: "reindex_report \<Rightarrow> error + unit" where
  "report_outcome r =
     (case worst_cause (List.map_filter si_cause (rp_segments r)) of
        Some CauseNotFound \<Rightarrow> Inl (NotFound ''reindex left segments uncovered'')
      | Some CauseIo \<Rightarrow> Inl (Io ''reindex left segments uncovered'')
      | Some CauseIntegrity \<Rightarrow> Inl (Integrity ''reindex left segments uncovered'')
      | None \<Rightarrow>
          if rp_collisions r > 0 then Inl (Conflict ''reindex recorded copies'') else Inr ())"

definition default_verdict :: cached_coverage where
  "default_verdict =
     \<lparr>cv_complete = False, cv_evidence = ''coverage has not been established on this handle'',
      cv_uncovered = []\<rparr>"

definition cached_of :: "coverage \<Rightarrow> cached_coverage" where
  "cached_of c =
     \<lparr>cv_complete = coverage_is_complete c,
      cv_evidence = (if coverage_is_complete c then [] else coverage_why c),
      cv_uncovered = cg_uncovered c\<rparr>"

section \<open>The verdict a node carries\<close>

definition adopt_verdict :: "coverage \<Rightarrow> ('b cell, unit) op" where
  "adopt_verdict c = write_verdict (cached_of c)"

definition degrade_verdict :: "coverage \<Rightarrow> ('b cell, unit) op" where
  "degrade_verdict c = (if coverage_is_complete c then ret () else write_verdict (cached_of c))"

record accounting_outcome =
  ao_created :: "decision_id list"
  ao_stamped :: nat
  ao_collisions :: nat

definition note_unstamped_writer :: "accounting_outcome \<Rightarrow> ('b cell, unit) op" where
  "note_unstamped_writer out =
     (if ao_created out = [] then ret ()
      else obind read_verdict (\<lambda>held.
        write_verdict (held\<lparr>cv_complete := False,
          cv_evidence := ''sealing had to create '' @ show_nat (length (ao_created out)) @
            '' identity row(s)''\<rparr>)))"

section \<open>The accounting\<close>

definition identity_insert :: "accounted \<Rightarrow> 'b statement" where
  "identity_insert a =
     InsertIdentity (ac_id a) (as_str (ac_identity_digest a)) (as_str (ac_record_hash a))"

definition identity_backfill :: "accounted \<Rightarrow> 'b statement" where
  "identity_backfill a =
     BackfillIdentity (ac_id a) (as_str (ac_identity_digest a)) (as_str (ac_record_hash a))"

definition STATEMENTS_PER_RECORD :: nat where "STATEMENTS_PER_RECORD = 3"

definition accounting_of :: "string \<Rightarrow> accounted \<Rightarrow> 'b statement list" where
  "accounting_of seg a =
     [StampIdentity seg (ac_id a) (as_str (ac_record_hash a)),
      UpsertIdentity (ac_id a) (as_str (ac_identity_digest a)) (as_str (ac_record_hash a)) seg,
      InsertCollision (ac_id a) (as_str (ac_record_hash a)) seg (as_str (ac_identity_digest a))]"

definition accounting_statements :: "accounted list \<Rightarrow> hash \<Rightarrow> 'b statement list" where
  "accounting_statements rows seg =
     concat (map (accounting_of (as_str seg)) rows) @ [RecomputeCoverage (as_str seg)]"

definition affected_one :: "nat list \<Rightarrow> nat \<Rightarrow> bool" where
  "affected_one results i \<longleftrightarrow> i < length results \<and> results ! i = 1"

fun accounting_read :: "nat list \<Rightarrow> accounted list \<Rightarrow> nat \<Rightarrow> accounting_outcome" where
  "accounting_read results [] offset = \<lparr>ao_created = [], ao_stamped = 0, ao_collisions = 0\<rparr>"
| "accounting_read results (a # rows) offset =
     (let out = accounting_read results rows (offset + STATEMENTS_PER_RECORD)
      in \<lparr>ao_created =
            (if affected_one results (offset + 1) then [ac_id a] else []) @ ao_created out,
          ao_stamped = (if affected_one results offset then 1 else 0) + ao_stamped out,
          ao_collisions =
            (if affected_one results (offset + 2) then 1 else 0) + ao_collisions out\<rparr>)"

definition accounted_fully :: "string \<Rightarrow> int \<Rightarrow> nat \<Rightarrow> error + unit" where
  "accounted_fully what stamped n =
     ensure (stamped = int n) (Integrity (what @ '': the segment is not fully accounted for''))"

definition stamped_of :: "'b world \<Rightarrow> hash \<Rightarrow> ('b cell, int) op" where
  "stamped_of W seg =
     obind (query_consistent W (stamped_query (as_str seg))) (\<lambda>rows.
       ret (case rows of [] \<Rightarrow> - 1 | n # _ \<Rightarrow> n))"

section \<open>Backfill and coverage\<close>

definition backfill_statements :: "'b env \<Rightarrow> 'b census_row list \<Rightarrow> error + 'b statement list" where
  "backfill_statements E rows =
     (case sort_census rows of (witnessed, carried) \<Rightarrow>
        (case witnessed of
           None \<Rightarrow> Inl (Integrity ''the backfill read carried no witness row'')
         | Some n \<Rightarrow>
             if n < 0 then Inl (Integrity ''kernel_decisions witnessed a negative count'')
             else if int (length carried) > n
             then Inl (Integrity ''the backfill read does not account for itself'')
             else
               rbind (try_map (from_bytes E) carried) (\<lambda>rs.
               rbind (try_map (accounted_of E) rs) (\<lambda>accs.
               Inr (map identity_backfill accs)))))"

definition backfill_identity :: "'b env \<Rightarrow> 'b world \<Rightarrow> ('b cell, nat) op" where
  "backfill_identity E W =
     obind (query_consistent W backfill_census_query) (\<lambda>rows.
     obind (lift (backfill_statements E rows)) (\<lambda>stmts.
       if stmts = [] then ret 0
       else obind (store_txn W stmts) (\<lambda>_. ret (length stmts))))"

fun sort_coverage ::
  "coverage_answer list \<Rightarrow>
     error + (int option \<times> int option \<times> (string \<times> int) list \<times> (string \<times> int \<times> int) list)" where
  "sort_coverage [] = Inr (None, None, [], [])"
| "sort_coverage (row # rows) =
     (case row of
        CoverageOther _ \<Rightarrow> Inl (Integrity ''the coverage read carried a row of another kind'')
      | CoverageResidentWitness n \<Rightarrow>
          rbind (sort_coverage rows) (\<lambda>(rw, sw, rs, ss).
            Inr (if rw = None then Some n else rw, sw, rs, ss))
      | CoverageSealedWitness n \<Rightarrow>
          rbind (sort_coverage rows) (\<lambda>(rw, sw, rs, ss).
            Inr (rw, if sw = None then Some n else sw, rs, ss))
      | CoverageResidentRow i a \<Rightarrow>
          rbind (sort_coverage rows) (\<lambda>(rw, sw, rs, ss). Inr (rw, sw, (i, a) # rs, ss))
      | CoverageSealedRow h n st \<Rightarrow>
          rbind (sort_coverage rows) (\<lambda>(rw, sw, rs, ss). Inr (rw, sw, rs, (h, n, st) # ss)))"

definition coverage_of_rows :: "ledger \<Rightarrow> coverage_answer list \<Rightarrow> error + coverage" where
  "coverage_of_rows L rows =
     rbind (sort_coverage rows) (\<lambda>(rw, sw, residents, segs).
     rbind (check_census ''kernel_decisions'' rw (length residents)) (\<lambda>_.
     rbind (check_census ''kernel_segments'' sw (length segs)) (\<lambda>_.
     if segs = [] \<and> l_opened_sealed L
     then Inl (Integrity ''the segment headers read back empty'')
     else if residents = [] \<and> l_opened_resident L
     then Inl (Integrity ''the resident chain reads back empty'')
     else
       rbind (try_map (\<lambda>(h, _, _). hash_parse h) (filter (\<lambda>(_, n, st). st \<noteq> n) segs)) (\<lambda>uncovered.
       Inr \<lparr>cg_uncovered = uncovered,
            cg_unstamped_resident = length (filter (\<lambda>(_, a). a = 0) residents)\<rparr>))))"

definition ledger_coverage :: "'b world \<Rightarrow> ledger \<Rightarrow> ('b cell, coverage) op" where
  "ledger_coverage W L =
     obind (query_consistent W coverage_census_query) (\<lambda>rows.
     obind (lift (coverage_of_rows L rows)) (\<lambda>c.
     obind (degrade_verdict c) (\<lambda>_. ret c)))"

definition recheck_coverage :: "'b world \<Rightarrow> ledger \<Rightarrow> ('b cell, coverage) op" where
  "recheck_coverage W L =
     obind (ledger_coverage W L) (\<lambda>c. obind (adopt_verdict c) (\<lambda>_. ret c))"

definition identity_totals :: "'b world \<Rightarrow> ('b cell, nat \<times> nat) op" where
  "identity_totals W =
     obind (query_consistent W totals_query) (\<lambda>rows.
       case rows of
         [] \<Rightarrow> fail (Integrity ''the identity totals read answered no rows'')
       | (a, b) # _ \<Rightarrow> ret (nat a, nat b))"

section \<open>One id\<close>

definition copy_of :: "string \<Rightarrow> string \<Rightarrow> string option \<Rightarrow> error + decision_copy" where
  "copy_of digest rh seg =
     rbind (hash_parse rh) (\<lambda>h.
     rbind (case seg of
              None \<Rightarrow> Inr None
            | Some s \<Rightarrow> if s = [] then Inr None else rbind (hash_parse s) (\<lambda>x. Inr (Some x))) (\<lambda>sg.
     rbind (hash_parse digest) (\<lambda>dg.
     Inr \<lparr>dc_record_hash = h, dc_segment_hash = sg, dc_identity_digest = dg\<rparr>)))"

definition copy_of_identity :: "identity_row \<Rightarrow> error + decision_copy" where
  "copy_of_identity r = copy_of (ir_identity_digest r) (ir_record_hash r) (ir_segment_hash r)"

definition copy_of_collision :: "collision_row \<Rightarrow> error + decision_copy" where
  "copy_of_collision c = copy_of (cr_identity_digest c) (cr_record_hash c) (cr_segment_hash c)"

fun sort_id_rows ::
  "id_row list \<Rightarrow> bool \<times> decision_copy option \<times> decision_copy list \<Rightarrow>
     error + (bool \<times> decision_copy option \<times> decision_copy list)" where
  "sort_id_rows [] acc = Inr acc"
| "sort_id_rows (row # rows) (answered, identity, collisions) =
     (case row of
        IdWitness \<Rightarrow> sort_id_rows rows (True, identity, collisions)
      | IdIdentity r \<Rightarrow>
          rbind (copy_of_identity r) (\<lambda>c. sort_id_rows rows (answered, Some c, collisions))
      | IdCollision r \<Rightarrow>
          rbind (copy_of_collision r) (\<lambda>c. sort_id_rows rows (answered, identity, collisions @ [c]))
      | IdOther _ \<Rightarrow> Inl (Integrity ''the identity read carried a row of another kind''))"

definition identity_of_rows :: "id_row list \<Rightarrow> error + (decision_copy option \<times> decision_copy list)" where
  "identity_of_rows rows =
     rbind (sort_id_rows rows (False, None, [])) (\<lambda>(answered, identity, collisions).
     if answered then Inr (identity, collisions)
     else Inl (Integrity ''the identity read did not answer''))"

definition identity_rows_of ::
  "'b world \<Rightarrow> decision_id \<Rightarrow> ('b cell, decision_copy option \<times> decision_copy list) op" where
  "identity_rows_of W i =
     obind (query_consistent W (identity_of_id_query i)) (\<lambda>rows. lift (identity_of_rows rows))"

definition uncovered_hint :: "cached_coverage \<Rightarrow> hash option" where
  "uncovered_hint v = (case cv_uncovered v of [only] \<Rightarrow> Some only | _ \<Rightarrow> None)"

definition ledger_lookup :: "'b world \<Rightarrow> decision_id \<Rightarrow> ('b cell, presence) op" where
  "ledger_lookup W i =
     obind (identity_rows_of W i) (\<lambda>(identity, collisions).
       if collisions \<noteq> [] then
         ret (Ambiguous ((case identity of None \<Rightarrow> [] | Some r \<Rightarrow> [r]) @ collisions))
       else
         (case identity of
            None \<Rightarrow>
              obind read_verdict (\<lambda>v.
                if cv_complete v then ret Absent else ret (Unproven (uncovered_hint v)))
          | Some r \<Rightarrow>
              (case dc_segment_hash r of
                 Some seg \<Rightarrow> ret (Sealed (dc_record_hash r) seg)
               | None \<Rightarrow> ret (Resident (dc_record_hash r)))))"

section \<open>Recovery\<close>

text \<open>The loop \<^verbatim>\<open>for record in records { if &record.hash()? == record_hash { return Ok(record) } }\<close>.\<close>

fun find_record :: "hash \<Rightarrow> signed_record list \<Rightarrow> error + signed_record option" where
  "find_record h [] = Inr None"
| "find_record h (r # rs) =
     rbind (sr_hash r) (\<lambda>rh. if rh = h then Inr (Some r) else find_record h rs)"

definition position_of :: "hash \<Rightarrow> segment_header list \<Rightarrow> nat option" where
  "position_of seg headers =
     find (\<lambda>i. sh_segment_hash (headers ! i) = seg) [0..<length headers]"

definition fetch_op :: "'b env \<Rightarrow> 'b world \<Rightarrow> segment_header \<Rightarrow> ('b cell, segment) op" where
  "fetch_op E W header =
     on_result (get_object W (header_key header)) (\<lambda>r. lift (fetch_segment E (\<lambda>_. r) header))"

definition recover_sealed ::
  "'b env \<Rightarrow> 'b world \<Rightarrow> ledger \<Rightarrow> hash \<Rightarrow> hash \<Rightarrow> ('b cell, signed_record) op" where
  "recover_sealed E W L rh seg =
     obind (ledger_segments E W L) (\<lambda>headers.
       case position_of seg headers of
         None \<Rightarrow> fail (Integrity ''the store holds no header for the segment the row names'')
       | Some at \<Rightarrow>
           obind (fetch_op E W (headers ! at)) (\<lambda>body.
           obind (lift (verify_segment E
                          (if at = 0 then l_genesis_parent L else sh_last_hash (headers ! (at - 1)))
                          body (l_verifier E L))) (\<lambda>_.
           obind (lift (find_record rh (sg_records body))) (\<lambda>found.
             case found of
               Some r \<Rightarrow> ret r
             | None \<Rightarrow> fail (Integrity ''archived segment does not hold the record'')))))"

definition recover_resident ::
  "'b env \<Rightarrow> 'b world \<Rightarrow> ledger \<Rightarrow> decision_id \<Rightarrow> hash \<Rightarrow> ('b cell, signed_record) op" where
  "recover_resident E W L i rh =
     obind (chain_snapshot E W L) (\<lambda>snap.
     obind (lift (verify_chain E (cs_root snap) (cs_records snap) (l_verifier E L))) (\<lambda>_.
     obind (lift (find_record rh (cs_records snap))) (\<lambda>found.
       case found of
         Some r \<Rightarrow> ret r
       | None \<Rightarrow>
           obind (ledger_lookup W i) (\<lambda>p.
             case p of
               Sealed again seg \<Rightarrow>
                 if again = rh then recover_sealed E W L rh seg
                 else fail (Integrity ''the row names a record which is not in the resident chain'')
             | Ambiguous copies \<Rightarrow> fail (Conflict ''decision names recorded copies'')
             | _ \<Rightarrow> fail (Integrity ''the row names a record which is not in the resident chain'')))))"

definition recover :: "'b env \<Rightarrow> 'b world \<Rightarrow> ledger \<Rightarrow> decision_id \<Rightarrow> ('b cell, signed_record) op" where
  "recover E W L i =
     obind (ledger_lookup W i) (\<lambda>p.
       case p of
         Absent \<Rightarrow> fail (NotFound ''decision is not in the chain'')
       | Unproven _ \<Rightarrow> fail (Stale ''decision cannot be looked up'')
       | Ambiguous _ \<Rightarrow> fail (Conflict ''decision names recorded copies'')
       | Resident rh \<Rightarrow> recover_resident E W L i rh
       | Sealed rh seg \<Rightarrow> recover_sealed E W L rh seg)"

section \<open>Reindex\<close>

definition uncovered_report :: "segment_header \<Rightarrow> reindex_cause \<Rightarrow> string \<Rightarrow> segment_reindex" where
  "uncovered_report header cause detail =
     \<lparr>si_segment_hash = sh_segment_hash header, si_covered = False, si_cause = Some cause,
      si_detail = detail, si_rows_written = 0, si_collisions = 0\<rparr>"

definition reindex_segment ::
  "'b env \<Rightarrow> 'b world \<Rightarrow> ledger \<Rightarrow> segment_header \<Rightarrow> hash \<Rightarrow> ('b cell, segment_reindex) op" where
  "reindex_segment E W L header parent =
     on_result (fetch_op E W header) (\<lambda>fetched.
       case fetched of
         Inl err \<Rightarrow> ret (uncovered_report header (cause_of err) (message err))
       | Inr body \<Rightarrow>
           (case verify_segment E parent body (l_verifier E L) of
              Inl err \<Rightarrow> ret (uncovered_report header CauseIntegrity (message err))
            | Inr _ \<Rightarrow>
                obind (lift (try_map (accounted_of E) (sg_records body))) (\<lambda>rows.
                obind (store_txn W (accounting_statements rows (sh_segment_hash header))) (\<lambda>results.
                let out = accounting_read results rows 0 in
                obind (note_unstamped_writer out) (\<lambda>_.
                obind (stamped_of W (sh_segment_hash header)) (\<lambda>stamped.
                let covered = (stamped = int (sh_count header)) in
                ret \<lparr>si_segment_hash = sh_segment_hash header, si_covered = covered,
                     si_cause = (if covered then None else Some CauseIntegrity),
                     si_detail = (if covered then [] else ''the segment is not accounted for''),
                     si_rows_written = ao_stamped out + length (ao_created out),
                     si_collisions = ao_collisions out\<rparr>))))))"

definition segment_parents :: "hash \<Rightarrow> segment_header list \<Rightarrow> (hash \<times> hash) list" where
  "segment_parents gp headers =
     rev (zip (map sh_segment_hash headers) (gp # map sh_last_hash headers))"

definition add_outcome :: "segment_reindex \<Rightarrow> reindex_report \<Rightarrow> reindex_report" where
  "add_outcome out r =
     \<lparr>rp_segments = rp_segments r @ [out], rp_walked = rp_walked r + 1,
      rp_rows_written = rp_rows_written r + si_rows_written out,
      rp_collisions = rp_collisions r + si_collisions out\<rparr>"

fun reindex_walk ::
  "'b env \<Rightarrow> 'b world \<Rightarrow> ledger \<Rightarrow> hash list \<Rightarrow> (hash \<times> hash) list \<Rightarrow> segment_header list \<Rightarrow>
     reindex_report \<Rightarrow> ('b cell, reindex_report) op" where
  "reindex_walk E W L uncovered parents [] report = ret report"
| "reindex_walk E W L uncovered parents (header # headers) report =
     (if sh_segment_hash header \<notin> set uncovered
      then reindex_walk E W L uncovered parents headers report
      else
        obind (reindex_segment E W L header
                 (case map_of parents (sh_segment_hash header) of
                    None \<Rightarrow> l_genesis_parent L | Some p \<Rightarrow> p)) (\<lambda>out.
        reindex_walk E W L uncovered parents headers (add_outcome out report)))"

definition reindex :: "'b env \<Rightarrow> 'b world \<Rightarrow> ledger \<Rightarrow> ('b cell, reindex_report) op" where
  "reindex E W L =
     obind (ledger_coverage W L) (\<lambda>c.
     obind (ledger_segments E W L) (\<lambda>headers.
     reindex_walk E W L (cg_uncovered c) (segment_parents (l_genesis_parent L) headers)
       (rev headers) empty_report))"

end
