(* ===== verification/Identity_Facts.thy ===== *)
theory Identity_Facts
  imports Ledger_Identity
begin

text \<open>
  What the accounting, the coverage verdict and recovery establish: the accounting settles every
  record it is given, is idempotent, and its counter is the number of rows it counts; the verdict
  only improves through the leader; a record \<open>recover\<close> returns is the verified record the identity
  row names.
\<close>

section \<open>The accounting settles a record\<close>

definition settled :: "string \<Rightarrow> accounted \<Rightarrow> 'b db \<Rightarrow> bool" where
  "settled seg a d \<longleftrightarrow>
     ac_id a \<in> set (map ir_id (kernel_identity d)) \<and>
     \<not> stampable (ac_id a) (as_str (ac_record_hash a)) d \<and>
     (accounted_in (ac_id a) (as_str (ac_record_hash a)) seg d \<or>
      (ac_id a, as_str (ac_record_hash a)) \<in>
        set (map (\<lambda>c. (cr_id c, cr_record_hash c)) (kernel_collisions d)))"

lemma stamp_row_other: "\<not> stampable i rh d \<Longrightarrow> map (stamp_row seg i rh) (kernel_identity d) = kernel_identity d"
proof (rule map_idI)
  fix r
  assume "\<not> stampable i rh d" "r \<in> set (kernel_identity d)"
  then have "\<not> (ir_id r = i \<and> ir_record_hash r = rh \<and> ir_segment_hash r = None)"
    unfolding stampable_def by blast
  then show "stamp_row seg i rh r = r" unfolding stamp_row_def by (rule if_not_P)
qed

lemma stamp_row_fields [simp]:
  "ir_id (stamp_row seg i rh r) = ir_id r" "ir_record_hash (stamp_row seg i rh r) = ir_record_hash r"
  by (simp_all add: stamp_row_def)

lemma stamp_row_None:
  "ir_segment_hash (stamp_row seg i rh r) = None \<Longrightarrow>
     ir_segment_hash r = None \<and> \<not> (ir_id r = i \<and> ir_record_hash r = rh)"
  by (cases "ir_id r = i \<and> ir_record_hash r = rh \<and> ir_segment_hash r = None")
    (auto simp: stamp_row_def)

lemma stampable_stamped: "\<not> stampable i rh (fst (stamp_identity seg i rh d))"
proof
  assume "stampable i rh (fst (stamp_identity seg i rh d))"
  then obtain r where "ir_id r = i" "ir_record_hash r = rh"
      "ir_segment_hash (stamp_row seg i rh r) = None"
    by (auto simp: stampable_def stamp_identity_def)
  then show False using stamp_row_None by blast
qed

lemma stampable_stamp_mono:
  "\<not> stampable j rj d \<Longrightarrow> \<not> stampable j rj (fst (stamp_identity seg i rh d))"
  by (force simp: stampable_def stamp_identity_def dest: stamp_row_None)

lemma accounted_in_stamp_mono:
  assumes "accounted_in j rj sj d"
  shows "accounted_in j rj sj (fst (stamp_identity seg i rh d))"
proof -
  from assms obtain r where r: "r \<in> set (kernel_identity d)" "ir_id r = j"
      "ir_record_hash r = rj" "ir_segment_hash r = Some sj"
    by (auto simp: accounted_in_def)
  have "stamp_row seg i rh r = r" using r by (simp add: stamp_row_def)
  with r show ?thesis
    by (auto simp: accounted_in_def stamp_identity_def intro!: bexI [of _ r] image_eqI [of _ _ r])
qed

lemma accounted_in_stamped:
  "stampable i rh d \<Longrightarrow> accounted_in i rh seg (fst (stamp_identity seg i rh d))"
proof -
  assume "stampable i rh d"
  then obtain r where r: "r \<in> set (kernel_identity d)" "ir_id r = i" "ir_record_hash r = rh"
      "ir_segment_hash r = None"
    by (auto simp: stampable_def)
  have "stamp_row seg i rh r \<in> set (kernel_identity (fst (stamp_identity seg i rh d)))"
    using r(1) by (simp add: stamp_identity_def)
  moreover have "ir_id (stamp_row seg i rh r) = i" "ir_record_hash (stamp_row seg i rh r) = rh"
      "ir_segment_hash (stamp_row seg i rh r) = Some seg"
    using r by (simp_all add: stamp_row_def)
  ultimately show ?thesis unfolding accounted_in_def by blast
qed

lemma ids_stamp [simp]:
  "map ir_id (kernel_identity (fst (stamp_identity seg i rh d))) = map ir_id (kernel_identity d)"
  "kernel_collisions (fst (stamp_identity seg i rh d)) = kernel_collisions d"
  by (simp_all add: stamp_identity_def stamp_row_def)

lemma stamp_unstampable: "\<not> stampable i rh d \<Longrightarrow> stamp_identity seg i rh d = (d, 0)"
  by (simp add: stamp_identity_def stamp_row_other)

text \<open>One record's three statements never fail, settle it, and leave settled records settled.\<close>

definition account_one :: "string \<Rightarrow> accounted \<Rightarrow> 'b db \<Rightarrow> 'b db" where
  "account_one seg a d = fst (the (txn (accounting_of seg a) d))"

lemma exec_accounting_total:
  "\<exists>d1 n1. exec (StampIdentity seg i rh) d = Some (d1, n1)"
  "\<exists>d1 n1. exec (UpsertIdentity i dg rh seg) d = Some (d1, n1)"
  "\<exists>d1 n1. exec (InsertCollision i rh seg dg) d = Some (d1, n1)"
  "\<exists>d1 n1. exec (RecomputeCoverage seg) d = Some (d1, n1)"
  by (auto simp: stamp_identity_def)

lemma accounting_of_total: "\<exists>d' ns. txn (accounting_of seg a) d = Some (d', ns)"
proof -
  obtain d1 n1 where 1: "exec (StampIdentity seg (ac_id a) (as_str (ac_record_hash a))) d = Some (d1, n1)"
    using exec_accounting_total(1) by blast
  obtain d2 n2 where 2: "exec (UpsertIdentity (ac_id a) (as_str (ac_identity_digest a))
      (as_str (ac_record_hash a)) seg) d1 = Some (d2, n2)"
    using exec_accounting_total(2) by blast
  obtain d3 n3 where 3: "exec (InsertCollision (ac_id a) (as_str (ac_record_hash a)) seg
      (as_str (ac_identity_digest a))) d2 = Some (d3, n3)"
    using exec_accounting_total(3) by blast
  show ?thesis
    unfolding accounting_of_def by (simp del: exec.simps add: 1 2 3)
qed

lemma settled_step:
  assumes "exec s d = Some (d', n)" "settled seg b d"
    "s = StampIdentity seg i rh \<or> s = UpsertIdentity i dg rh seg \<or> s = InsertCollision i rh seg dg"
  shows "settled seg b d'"
proof -
  have stamp: "settled seg b (fst (stamp_identity seg i rh d))"
    using assms(2) accounted_in_stamp_mono stampable_stamp_mono
    unfolding settled_def by (metis ids_stamp)
  have ins: "settled seg b (d\<lparr>kernel_identity := kernel_identity d @
        [\<lparr>ir_id = i, ir_identity_digest = dg, ir_record_hash = rh, ir_segment_hash = Some seg\<rparr>]\<rparr>)"
    using assms(2) by (auto simp: settled_def stampable_def accounted_in_def)
  have col: "settled seg b (d\<lparr>kernel_collisions := kernel_collisions d @ [c]\<rparr>)" for c
    using assms(2) by (auto simp: settled_def stampable_def accounted_in_def)
  show ?thesis
    using assms(1,3) stamp ins col assms(2) by (auto split: if_splits)
qed

lemma settled_accounting_of:
  assumes "txn (accounting_of seg a) d = Some (d', ns)" "settled seg b d"
  shows "settled seg b d'"
proof -
  from assms(1) obtain d1 n1 d2 n2 n3 where
    "exec (StampIdentity seg (ac_id a) (as_str (ac_record_hash a))) d = Some (d1, n1)"
    "exec (UpsertIdentity (ac_id a) (as_str (ac_identity_digest a)) (as_str (ac_record_hash a)) seg) d1
       = Some (d2, n2)"
    "exec (InsertCollision (ac_id a) (as_str (ac_record_hash a)) seg (as_str (ac_identity_digest a))) d2
       = Some (d', n3)"
    by (auto simp: accounting_of_def simp del: exec.simps split: option.splits prod.splits)
  with settled_step assms(2) show ?thesis by metis
qed

lemma accounting_of_settles:
  assumes "txn (accounting_of seg a) d = Some (d', ns)"
  shows "settled seg a d'"
proof -
  let ?i = "ac_id a" and ?rh = "as_str (ac_record_hash a)" and ?dg = "as_str (ac_identity_digest a)"
  define d1 where "d1 = fst (stamp_identity seg ?i ?rh d)"
  have ns1: "\<not> stampable ?i ?rh d1" by (simp add: d1_def stampable_stamped)
  define d2 where "d2 = (if ?i \<in> set (map ir_id (kernel_identity d1)) then d1
      else d1\<lparr>kernel_identity := kernel_identity d1 @
        [\<lparr>ir_id = ?i, ir_identity_digest = ?dg, ir_record_hash = ?rh, ir_segment_hash = Some seg\<rparr>]\<rparr>)"
  obtain n2 where up: "exec (UpsertIdentity ?i ?dg ?rh seg) d1 = Some (d2, n2)"
    using ns1 by (cases "?i \<in> set (map ir_id (kernel_identity d1))")
      (simp_all add: d2_def stamp_unstampable)
  have in2: "?i \<in> set (map ir_id (kernel_identity d2))" by (auto simp: d2_def)
  have ns2: "\<not> stampable ?i ?rh d2" using ns1 by (auto simp: d2_def stampable_def)
  obtain n1 where st: "exec (StampIdentity seg ?i ?rh) d = Some (d1, n1)"
    by (simp add: d1_def stamp_identity_def)
  obtain n3 where co: "exec (InsertCollision ?i ?rh seg ?dg) d2 = Some (d', n3)"
    using assms st up
    by (auto simp: accounting_of_def simp del: exec.simps split: option.splits prod.splits)
  show ?thesis
    using co in2 ns2 by (auto simp: settled_def stampable_def accounted_in_def split: if_splits)
qed

lemma settled_noop:
  assumes "settled seg a d"
  shows "\<exists>ns. txn (accounting_of seg a) d = Some (d, ns)"
  using assms
  by (auto simp: accounting_of_def settled_def stamp_unstampable)

section \<open>A whole segment\<close>

lemma accounting_list:
  "txn (concat (map (accounting_of seg) rows)) d = Some (d', ns) \<Longrightarrow>
     (\<forall>a \<in> set rows. settled seg a d') \<and> (\<forall>b. settled seg b d \<longrightarrow> settled seg b d')"
proof (induction rows arbitrary: d ns)
  case Nil
  then show ?case by simp
next
  case (Cons a rows)
  from Cons.prems obtain d1 n1 n2 where
    1: "txn (accounting_of seg a) d = Some (d1, n1)"
    and 2: "txn (concat (map (accounting_of seg) rows)) d1 = Some (d', n2)"
    by (auto simp: txn_append split: option.splits prod.splits)
  from Cons.IH [OF 2] accounting_of_settles [OF 1] settled_accounting_of [OF 1] show ?case by auto
qed

lemma accounting_list_noop:
  "\<forall>a \<in> set rows. settled seg a d \<Longrightarrow> \<exists>ns. txn (concat (map (accounting_of seg) rows)) d = Some (d, ns)"
proof (induction rows)
  case Nil
  then show ?case by simp
next
  case (Cons a rows)
  with settled_noop [of seg a d] show ?case by (auto simp: txn_append)
qed

lemma accounting_list_total: "\<exists>d' ns. txn (concat (map (accounting_of seg) rows)) d = Some (d', ns)"
proof (induction rows arbitrary: d)
  case Nil
  then show ?case by simp
next
  case (Cons a rows)
  obtain d1 n1 where 1: "txn (accounting_of seg a) d = Some (d1, n1)" using accounting_of_total by blast
  with Cons.IH [of d1] show ?case by (auto simp: txn_append)
qed

lemma accounting_statements_eq:
  "txn (accounting_statements rows seg) d = Some (d', ns) \<longleftrightarrow>
     (\<exists>d1 ms. txn (concat (map (accounting_of (as_str seg)) rows)) d = Some (d1, ms) \<and>
        d' = d1\<lparr>kernel_coverage :=
          filter (\<lambda>v. vr_segment_hash v \<noteq> as_str seg) (kernel_coverage d1) @
          [\<lparr>vr_segment_hash = as_str seg, vr_stamped = coverage_count (as_str seg) d1\<rparr>]\<rparr> \<and>
        ns = ms @ [1])"
  by (auto simp: accounting_statements_def txn_append split: option.splits prod.splits)

lemma accounting_total: "\<exists>d' ns. txn (accounting_statements rows seg) d = Some (d', ns)"
  using accounting_list_total [of "as_str seg" rows d] by (auto simp: accounting_statements_eq)

lemma coverage_count_coverage [simp]: "coverage_count seg (d\<lparr>kernel_coverage := v\<rparr>) = coverage_count seg d"
  by (simp add: coverage_count_def)

lemma settled_coverage [simp]: "settled seg a (d\<lparr>kernel_coverage := v\<rparr>) \<longleftrightarrow> settled seg a d"
  by (simp add: settled_def stampable_def accounted_in_def)

lemma accounting_settles:
  assumes "txn (accounting_statements rows seg) d = Some (d', ns)" "a \<in> set rows"
  shows "settled (as_str seg) a d'"
  using assms accounting_list [of "as_str seg" rows d] by (auto simp: accounting_statements_eq)

lemma accounting_counter:
  assumes "txn (accounting_statements rows seg) d = Some (d', ns)"
  shows "stamped_query (as_str seg) d' = [coverage_count (as_str seg) d']"
  using assms by (auto simp: accounting_statements_eq stamped_query_def)

lemma accounting_idempotent:
  assumes "txn (accounting_statements rows seg) d = Some (d', ns)"
  shows "\<exists>ms. txn (accounting_statements rows seg) d' = Some (d', ms)"
proof -
  have "\<forall>a \<in> set rows. settled (as_str seg) a d'"
    using accounting_settles [OF assms] by blast
  from accounting_list_noop [OF this]
  obtain ms where ms: "txn (concat (map (accounting_of (as_str seg)) rows)) d' = Some (d', ms)"
    by blast
  have "d' = d'\<lparr>kernel_coverage := filter (\<lambda>v. vr_segment_hash v \<noteq> as_str seg) (kernel_coverage d') @
      [\<lparr>vr_segment_hash = as_str seg, vr_stamped = coverage_count (as_str seg) d'\<rparr>]\<rparr>"
    using assms by (auto simp: accounting_statements_eq filter_True)
  with ms show ?thesis by (auto simp: accounting_statements_eq)
qed

section \<open>Coverage\<close>

lemma worst_cause_None_iff: "worst_cause cs = None \<longleftrightarrow> cs = []"
  by (cases cs) (auto split: option.splits)

lemma map_filter_None_iff: "List.map_filter f xs = [] \<longleftrightarrow> (\<forall>x \<in> set xs. f x = None)"
  by (induction xs) (auto simp: List.map_filter_simps split: option.splits)

lemma report_outcome_Inr_iff:
  "report_outcome r = Inr u \<longleftrightarrow> (\<forall>s \<in> set (rp_segments r). si_cause s = None) \<and> rp_collisions r = 0"
proof (cases "worst_cause (List.map_filter si_cause (rp_segments r))")
  case None
  then have "\<forall>s \<in> set (rp_segments r). si_cause s = None"
    using map_filter_None_iff worst_cause_None_iff by metis
  with None show ?thesis by (simp add: report_outcome_def)
next
  case (Some c)
  then have "\<not> (\<forall>s \<in> set (rp_segments r). si_cause s = None)"
    by (metis map_filter_None_iff option.distinct(1) worst_cause_None_iff)
  with Some show ?thesis by (auto simp: report_outcome_def split: reindex_cause.splits)
qed

lemma worst_cause_max:
  "worst_cause cs = Some c \<Longrightarrow> c \<in> set cs \<and> (\<forall>d \<in> set cs. severity d \<le> severity c)"
proof (induction cs arbitrary: c)
  case Nil
  then show ?case by simp
next
  case (Cons a cs)
  show ?case
  proof (cases "worst_cause cs")
    case None
    with Cons.prems show ?thesis by (simp add: worst_cause_None_iff)
  next
    case (Some d)
    with Cons.IH [OF Some] Cons.prems show ?thesis by (force split: if_splits)
  qed
qed

lemma sort_coverage_query:
  "sort_coverage (coverage_census_query d) =
     Inr (Some (int (length (kernel_decisions d))), Some (int (length (kernel_segments d))),
       map (\<lambda>r. (dr_id r, if row_accounted r d then 1 else 0)) (kernel_decisions d),
       map (\<lambda>s. (sw_segment_hash s, int (sw_count s), stamped_or_minus_one (sw_segment_hash s) d))
         (kernel_segments d))"
proof -
  have s: "sort_coverage (map (\<lambda>s. CoverageSealedRow (sw_segment_hash s) (int (sw_count s))
              (stamped_or_minus_one (sw_segment_hash s) d)) ss) =
      Inr (None, None, [], map (\<lambda>s. (sw_segment_hash s, int (sw_count s),
              stamped_or_minus_one (sw_segment_hash s) d)) ss)" for ss
    by (induction ss) auto
  have *: "sort_coverage (map (\<lambda>r. CoverageResidentRow (dr_id r) (if row_accounted r d then 1 else 0)) rs @
        map (\<lambda>s. CoverageSealedRow (sw_segment_hash s) (int (sw_count s))
              (stamped_or_minus_one (sw_segment_hash s) d)) ss) =
      Inr (None, None, map (\<lambda>r. (dr_id r, if row_accounted r d then 1 else 0)) rs,
        map (\<lambda>s. (sw_segment_hash s, int (sw_count s),
              stamped_or_minus_one (sw_segment_hash s) d)) ss)" for rs ss
    by (induction rs) (auto simp: s)
  show ?thesis
    unfolding coverage_census_query_def append_Cons append_Nil sort_coverage.simps coverage_answer.case
    unfolding * by simp
qed

text \<open>The whole store accounts for every record it holds, resident and sealed.\<close>

definition fully_covered :: "'b db \<Rightarrow> bool" where
  "fully_covered d \<longleftrightarrow>
     (\<forall>r \<in> set (kernel_decisions d). row_accounted r d) \<and>
     (\<forall>s \<in> set (kernel_segments d). stamped_or_minus_one (sw_segment_hash s) d = int (sw_count s))"

lemma coverage_complete_iff:
  assumes "coverage_of_rows L (coverage_census_query d) = Inr c"
  shows "coverage_is_complete c \<longleftrightarrow> fully_covered d"
proof -
  let ?segs = "map (\<lambda>s. (sw_segment_hash s, int (sw_count s),
      stamped_or_minus_one (sw_segment_hash s) d)) (kernel_segments d)"
  from assms obtain uncovered where
    u: "try_map (\<lambda>(h, _, _). hash_parse h) (filter (\<lambda>(_, n, st). st \<noteq> n) ?segs) = Inr uncovered"
    and c: "c = \<lparr>cg_uncovered = uncovered,
        cg_unstamped_resident = length (filter (\<lambda>(_, a). a = 0)
          (map (\<lambda>r. (dr_id r, if row_accounted r d then 1 else (0 :: int))) (kernel_decisions d)))\<rparr>"
    by (auto simp: coverage_of_rows_def sort_coverage_query split: if_splits)
  have "uncovered = [] \<longleftrightarrow> filter (\<lambda>(_, n, st). st \<noteq> n) ?segs = []"
    using try_map_length [OF u] unfolding length_0_conv [symmetric] by (rule arg_cong)
  also have "\<dots> \<longleftrightarrow> (\<forall>s \<in> set (kernel_segments d). stamped_or_minus_one (sw_segment_hash s) d = int (sw_count s))"
    by (auto simp: filter_empty_conv)
  finally have 1: "uncovered = [] \<longleftrightarrow>
    (\<forall>s \<in> set (kernel_segments d). stamped_or_minus_one (sw_segment_hash s) d = int (sw_count s))" .
  have 2: "filter (\<lambda>(_, a). a = 0)
      (map (\<lambda>r. (dr_id r, if row_accounted r d then 1 else (0 :: int))) (kernel_decisions d)) = [] \<longleftrightarrow>
      (\<forall>r \<in> set (kernel_decisions d). row_accounted r d)"
    by (auto simp: filter_empty_conv)
  have "coverage_is_complete c \<longleftrightarrow> uncovered = [] \<and> filter (\<lambda>(_, a). a = 0)
      (map (\<lambda>r. (dr_id r, if row_accounted r d then 1 else (0 :: int))) (kernel_decisions d)) = []"
    unfolding coverage_is_complete_def c coverage.simps length_0_conv by (rule refl)
  then show ?thesis unfolding 1 2 fully_covered_def by blast
qed

end
