(* ===== verification/Ledger_Append.thy ===== *)
theory Ledger_Append
  imports Identity_Facts
begin

text \<open>
  \<^verbatim>\<open>append.rs\<close>: the compare-and-swap loop. The head is read, the record is built on it, and one
  transaction inserts the record and its identity row; a failed insert is classified by what the
  chain holds. Durations are counted in microseconds. \<open>sealed_in\<close> and the reported knowledge of the
  commit are those of \<^verbatim>\<open>Landing\<close>. The test seam of the loop is left out: dropping an acknowledgement
  is the fate \<open>AckLost\<close> of the world.
\<close>

definition APPEND_ATTEMPTS :: nat where "APPEND_ATTEMPTS = 12"
definition APPEND_BACKOFF_BASE :: nat where "APPEND_BACKOFF_BASE = 5000"
definition APPEND_BACKOFF_CAP :: nat where "APPEND_BACKOFF_CAP = 250000"

datatype gate = Backstopped | Ungated

datatype attempt = Landed hash | Retry

record landing =
  la_hash :: hash
  la_appended_now :: bool
  la_sealed_in :: "hash option"

section \<open>The wait\<close>

definition fnv1a :: "string \<Rightarrow> nat \<Rightarrow> u64" where
  "fnv1a txt salt = fnv_fold (map of_char txt @ le_bytes salt) 0xcbf29ce484222325"

definition backoff_window :: "nat \<Rightarrow> nat" where
  "backoff_window n = min (APPEND_BACKOFF_BASE * 2 ^ min (n - 1) 16) APPEND_BACKOFF_CAP"

definition backoff :: "decision_id \<Rightarrow> nat \<Rightarrow> nat" where
  "backoff i n =
     (let half = backoff_window n div 2;
          spread = max half 1
      in half + unat (fnv1a i n) mod spread)"

section \<open>The gates\<close>

definition ambiguous :: "decision_id \<Rightarrow> error" where
  "ambiguous i = Conflict (''decision '' @ i @ '' names several recorded copies'')"

definition reused :: "decision_id \<Rightarrow> error" where
  "reused i = Conflict (''decision '' @ i @ '' is already in the chain under other content'')"

definition backstop :: "'b world \<Rightarrow> decision_id \<Rightarrow> hash \<Rightarrow> ('b cell, hash option) op" where
  "backstop W i digest =
     obind read_verdict (\<lambda>v.
       if cv_complete v then ret None
       else
         obind (identity_rows_of W i) (\<lambda>(identity, collisions).
           if collisions \<noteq> [] then fail (ambiguous i)
           else
             (case identity of
                None \<Rightarrow> fail (Conflict (''decision '' @ i @ '' cannot be proven free''))
              | Some row \<Rightarrow>
                  if dc_identity_digest row \<noteq> digest then fail (reused i)
                  else ret (Some (dc_record_hash row)))))"

definition classify ::
  "'b world \<Rightarrow> ledger \<Rightarrow> decision_id \<Rightarrow> hash \<Rightarrow> hash \<Rightarrow> error \<Rightarrow> ('b cell, attempt) op" where
  "classify W L i digest parent err =
     obind (identity_rows_of W i) (\<lambda>(identity, collisions).
       if collisions \<noteq> [] then fail (ambiguous i)
       else
         (case identity of
            Some row \<Rightarrow>
              if dc_identity_digest row = digest then ret (Landed (dc_record_hash row))
              else fail (reused i)
          | None \<Rightarrow>
              obind (ledger_head W L) (\<lambda>h. if h = parent then fail err else ret Retry)))"

section \<open>The loop\<close>

definition append_statements :: "'b env \<Rightarrow> signed_record \<Rightarrow> accounted \<Rightarrow> 'b statement list" where
  "append_statements E rec acc = [insert_statement E rec, identity_insert acc]"

text \<open>One pass from the head read to the outcome: \<open>Some\<close> is a return of the function.\<close>

definition append_attempt ::
  "'b env \<Rightarrow> 'b world \<Rightarrow> ledger \<Rightarrow> decision \<Rightarrow> hash \<Rightarrow> ('b cell, (hash \<times> bool) option) op" where
  "append_attempt E W L d digest =
     obind (ledger_head W L) (\<lambda>parent.
     let rec = signed_build E (d\<lparr>d_prev_hash := parent\<rparr>) (l_signer L) in
     obind (lift (sr_hash rec)) (\<lambda>h.
     obind (lift (accounted_of E rec)) (\<lambda>acc.
     on_result (store_txn W (append_statements E rec acc)) (\<lambda>sent.
       case sent of
         Inr results \<Rightarrow>
           if affected_one results 0 \<and> affected_one results 1 then ret (Some (h, True))
           else fail (Integrity ''the append committed without inserting a row'')
       | Inl err \<Rightarrow>
           obind (classify W L (d_id d) digest parent err) (\<lambda>a.
             case a of Landed stored \<Rightarrow> ret (Some (stored, False)) | Retry \<Rightarrow> ret None)))))"

text \<open>\<open>left\<close> attempts remain of the twelve; the first is the one with all of them left.\<close>

fun append_from ::
  "'b env \<Rightarrow> 'b world \<Rightarrow> ledger \<Rightarrow> gate \<Rightarrow> decision \<Rightarrow> hash \<Rightarrow> nat \<Rightarrow> ('b cell, hash \<times> bool) op" where
  "append_from E W L g d digest 0 =
     fail (Integrity (''decision '' @ d_id d @ '' lost the compare-and-swap on the chain head''))"
| "append_from E W L g d digest (Suc left) =
     obind (if Suc left < APPEND_ATTEMPTS \<and> g = Backstopped
            then backstop W (d_id d) digest else ret None) (\<lambda>landed.
       case landed of
         Some h \<Rightarrow> ret (h, False)
       | None \<Rightarrow>
           obind (append_attempt E W L d digest) (\<lambda>outcome.
             case outcome of
               Some r \<Rightarrow> ret r
             | None \<Rightarrow> append_from E W L g d digest left))"

definition append_loop ::
  "'b env \<Rightarrow> 'b world \<Rightarrow> ledger \<Rightarrow> decision \<Rightarrow> hash \<Rightarrow> gate \<Rightarrow> ('b cell, hash \<times> bool) op" where
  "append_loop E W L d digest g = append_from E W L g d digest APPEND_ATTEMPTS"

definition append_reported ::
  "'b env \<Rightarrow> 'b world \<Rightarrow> ledger \<Rightarrow> decision \<Rightarrow> ('b cell, hash \<times> bool) op" where
  "append_reported E W L d =
     (if d_id d = [] then fail (Validation ''a decision needs an id'')
      else if l_repair L then fail (Conflict ''a ledger opened for repair never appends'')
      else
        obind (lift (identity_digest E d)) (\<lambda>digest.
        obind (backstop W (d_id d) digest) (\<lambda>landed.
          case landed of
            Some h \<Rightarrow> ret (h, False)
          | None \<Rightarrow> append_loop E W L d digest Backstopped)))"

definition append_genesis :: "'b env \<Rightarrow> 'b world \<Rightarrow> ledger \<Rightarrow> decision \<Rightarrow> ('b cell, hash) op" where
  "append_genesis E W L d =
     obind (lift (identity_digest E d)) (\<lambda>digest.
     obind (append_loop E W L d digest Ungated) (\<lambda>(h, _). ret h))"

definition ledger_append :: "'b env \<Rightarrow> 'b world \<Rightarrow> ledger \<Rightarrow> decision \<Rightarrow> ('b cell, hash) op" where
  "ledger_append E W L d = obind (append_reported E W L d) (\<lambda>(h, _). ret h)"

definition append_once :: "'b env \<Rightarrow> 'b world \<Rightarrow> ledger \<Rightarrow> decision \<Rightarrow> ('b cell, landing) op" where
  "append_once E W L d =
     obind (append_reported E W L d) (\<lambda>(h, now).
       if now then ret \<lparr>la_hash = h, la_appended_now = now, la_sealed_in = None\<rparr>
       else
         obind (ledger_lookup W (d_id d)) (\<lambda>p.
           ret \<lparr>la_hash = h, la_appended_now = now,
                la_sealed_in = (case p of Sealed _ seg \<Rightarrow> Some seg | _ \<Rightarrow> None)\<rparr>))"

end
