(* ===== verification/Append_Facts.thy ===== *)
theory Append_Facts
  imports Ledger_Append
begin

text \<open>
  What an append promises under interference: after any successful return the decision is durably
  present under the returned hash, whatever was lost on the way; \<open>appended_now\<close> is claimed only by
  the invocation that committed it; the loop ends within a fixed number of store calls; and in a
  quiet store a fresh decision extends the chain at its head.
\<close>

section \<open>Every operation lets the shared state only evolve\<close>

lemma keeps_count: "world_ok W \<Longrightarrow> evolution.keeps (ledger_count W)"
  by (auto simp: ledger_count_def intro!: evolution_ops)

lemma keeps_root: "world_ok W \<Longrightarrow> evolution.keeps (resident_root W L)"
  by (auto simp: resident_root_def intro!: evolution_ops)

lemma keeps_head: "world_ok W \<Longrightarrow> evolution.keeps (ledger_head W L)"
  by (auto simp: ledger_head_def intro!: evolution_ops keeps_count keeps_root split: list.split)

lemma keeps_identity_rows: "world_ok W \<Longrightarrow> evolution.keeps (identity_rows_of W i)"
  by (auto simp: identity_rows_of_def intro!: evolution_ops)

lemma keeps_lookup: "world_ok W \<Longrightarrow> evolution.keeps (ledger_lookup W i)"
  unfolding ledger_lookup_def
  by (auto intro!: evolution_ops keeps_identity_rows split: prod.split option.split if_split)

lemma keeps_backstop: "world_ok W \<Longrightarrow> evolution.keeps (backstop W i dg)"
  unfolding backstop_def
  by (auto intro!: evolution_ops keeps_identity_rows split: prod.split option.split if_split)

lemma keeps_classify: "world_ok W \<Longrightarrow> evolution.keeps (classify W L i dg p e)"
  unfolding classify_def
  by (auto intro!: evolution_ops keeps_identity_rows keeps_head split: prod.split option.split if_split)

lemma keeps_attempt: "world_ok W \<Longrightarrow> evolution.keeps (append_attempt E W L d dg)"
  unfolding append_attempt_def Let_def
  by (auto intro!: evolution_ops keeps_head keeps_classify split: sum.split attempt.split if_split)

lemma keeps_append_from: "world_ok W \<Longrightarrow> evolution.keeps (append_from E W L g d dg n)"
  by (induction n)
    (auto intro!: evolution_ops keeps_backstop keeps_attempt split: option.split if_split)

lemma keeps_append: "world_ok W \<Longrightarrow> evolution.keeps (append_reported E W L d)"
  unfolding append_reported_def append_loop_def
  by (auto intro!: evolution_ops keeps_backstop keeps_append_from split: option.split if_split)

section \<open>Presence\<close>

definition present :: "decision_id \<Rightarrow> hash \<Rightarrow> hash \<Rightarrow> 'b db \<Rightarrow> bool" where
  "present i h dg d \<longleftrightarrow>
     (\<exists>r. identity_of i d = Some r \<and> ir_record_hash r = as_str h \<and>
          ir_identity_digest r = as_str dg)"

lemma present_evolves: "present i h dg d \<Longrightarrow> evolves d d' \<Longrightarrow> db_ok d' \<Longrightarrow> present i h dg d'"
proof -
  assume p: "present i h dg d" and e: "evolves d d'" "db_ok d'"
  from p obtain r where r: "identity_of i d = Some r" "ir_record_hash r = as_str h"
      "ir_identity_digest r = as_str dg"
    by (auto simp: present_def)
  from evolves_identity [OF e r(1)] r(2,3) show ?thesis
    by (auto simp: present_def id_row_le_def)
qed

lemma copy_of_texts:
  "copy_of dg rh seg = Inr c \<Longrightarrow> as_str (dc_record_hash c) = rh \<and> as_str (dc_identity_digest c) = dg"
  by (auto simp: copy_of_def dest: hash_parse_as_str)

lemma sort_id_identity:
  "sort_id_rows rows (b, ident, cols) = Inr (b', Some c, cols') \<Longrightarrow>
     ident = Some c \<or> (\<exists>r. IdIdentity r \<in> set rows \<and> copy_of_identity r = Inr c)"
proof (induction rows arbitrary: b ident cols)
  case Nil
  then show ?case by simp
next
  case (Cons row rows)
  show ?case
  proof (cases row)
    case IdWitness
    with Cons show ?thesis by fastforce
  next
    case (IdIdentity r)
    with Cons.prems obtain c' where "copy_of_identity r = Inr c'"
        "sort_id_rows rows (b, Some c', cols) = Inr (b', Some c, cols')"
      by auto
    with Cons.IH [of b "Some c'" cols] IdIdentity show ?thesis by auto
  next
    case (IdCollision r)
    with Cons.prems obtain c' where "sort_id_rows rows (b, ident, cols @ [c']) = Inr (b', Some c, cols')"
      by auto
    with Cons.IH show ?thesis by fastforce
  next
    case (IdOther k)
    with Cons.prems show ?thesis by simp
  qed
qed

lemma identity_rows_sound:
  assumes "identity_rows_of W i s = (Inr (Some c, cols), t)" "db_ok (c_db t)"
  shows "present i (dc_record_hash c) (dc_identity_digest c) (c_db t)"
proof -
  from assms(1) have "identity_of_rows (answer (w_keep W (c_clock s)) (identity_of_id_query i (c_db t)))
      = Inr (Some c, cols)"
    by (auto simp: identity_rows_of_def obind_Inr_iff query_Inr_iff)
  then obtain b where "sort_id_rows (answer (w_keep W (c_clock s)) (identity_of_id_query i (c_db t)))
      (False, None, []) = Inr (b, Some c, cols)"
    by (auto simp: identity_of_rows_def split: if_splits)
  from sort_id_identity [OF this] obtain r where
    "IdIdentity r \<in> set (identity_of_id_query i (c_db t))" "copy_of_identity r = Inr c"
    using set_answer by fastforce
  then have r: "r \<in> set (kernel_identity (c_db t))" "ir_id r = i"
      "as_str (dc_record_hash c) = ir_record_hash r" "as_str (dc_identity_digest c) = ir_identity_digest r"
    by (auto simp: identity_of_id_query_def copy_of_identity_def dest: copy_of_texts)
  with identity_of_unique [OF assms(2) r(1)] show ?thesis by (auto simp: present_def)
qed

lemma backstop_present:
  assumes "backstop W i dg s = (Inr (Some h), t)" "db_ok (c_db t)"
  shows "present i h dg (c_db t)"
  using assms
  by (auto simp: backstop_def obind_Inr_iff split: if_splits prod.splits option.splits
      dest: identity_rows_sound)

lemma classify_present:
  assumes "classify W L i dg p e s = (Inr (Landed h), t)" "db_ok (c_db t)"
  shows "present i h dg (c_db t)"
  using assms
  by (auto simp: classify_def obind_Inr_iff split: if_splits prod.splits option.splits
      dest: identity_rows_sound)

section \<open>The transaction of an append\<close>

lemma append_txn_iff:
  "txn (append_statements E rec acc) d = Some (d', ns) \<longleftrightarrow>
     lr_id (sr_record rec) \<notin> set (map dr_id (kernel_decisions d)) \<and>
     lr_previous_record_hash (sr_record rec) \<notin> set (map dr_prev_hash (kernel_decisions d)) \<and>
     ac_id acc \<notin> set (map ir_id (kernel_identity d)) \<and>
     d' = d\<lparr>kernel_decisions := kernel_decisions d @ [row_of_record E rec],
            kernel_identity := kernel_identity d @
              [\<lparr>ir_id = ac_id acc, ir_identity_digest = as_str (ac_identity_digest acc),
                ir_record_hash = as_str (ac_record_hash acc), ir_segment_hash = None\<rparr>]\<rparr> \<and>
     ns = [1, 1]"
  by (auto simp: append_statements_def insert_statement_def identity_insert_def row_of_record_def)

lemma append_txn_present:
  assumes "txn (append_statements E rec acc) d = Some (d', ns)" "db_ok d"
  shows "present (ac_id acc) (ac_record_hash acc) (ac_identity_digest acc) d'"
proof -
  have "db_ok d'" using assms txn_db_ok by blast
  with assms(1) show ?thesis
    using identity_of_unique [of d'] by (force simp: append_txn_iff present_def)
qed

definition decision_ok :: "'b env \<Rightarrow> decision \<Rightarrow> bool" where
  "decision_ok E d \<longleftrightarrow> canonicalize_value E (d_payload d) = d_payload d"

text \<open>What one committed attempt leaves behind.\<close>

definition committed :: "'b env \<Rightarrow> ledger \<Rightarrow> decision \<Rightarrow> hash \<Rightarrow> 'b db \<Rightarrow> 'b db \<Rightarrow> bool" where
  "committed E L d h before d' \<longleftrightarrow>
     identity_of (d_id d) before = None \<and>
     (\<exists>parent. let rec = signed_build E (d\<lparr>d_prev_hash := parent\<rparr>) (l_signer L) in
        sr_hash rec = Inr h \<and> row_of_record E rec \<in> set (kernel_decisions d'))"

lemma accounted_digest:
  assumes "env_ok E" "decision_ok E d" "identity_digest E d = Inr dg"
    and "accounted_of E (signed_build E (d\<lparr>d_prev_hash := p\<rparr>) k) = Inr acc"
  shows "ac_id acc = d_id d \<and> ac_identity_digest acc = dg"
  using accounted_of_build [of E "d\<lparr>d_prev_hash := p\<rparr>" dg k] assms
  by (auto simp: decision_ok_def)

lemma attempt_result:
  assumes env: "env_ok E" "world_ok W" "decision_ok E d" "identity_digest E d = Inr dg"
    and db: "db_ok (c_db s)"
    and run: "append_attempt E W L d dg s = (Inr (Some (h, b)), t)"
  shows "present (d_id d) h dg (c_db t) \<and> (b \<longrightarrow> committed E L d h (c_db s) (c_db t))"
proof -
  from run obtain parent u hb acc v sent where
    head: "ledger_head W L s = (Inr parent, u)"
    and hb: "sr_hash (signed_build E (d\<lparr>d_prev_hash := parent\<rparr>) (l_signer L)) = Inr hb"
    and acc: "accounted_of E (signed_build E (d\<lparr>d_prev_hash := parent\<rparr>) (l_signer L)) = Inr acc"
    and sent: "store_txn W (append_statements E
        (signed_build E (d\<lparr>d_prev_hash := parent\<rparr>) (l_signer L)) acc) u = (sent, v)"
    and rest: "(case sent of
         Inr results \<Rightarrow>
           if affected_one results 0 \<and> affected_one results 1 then ret (Some (hb, True))
           else fail (Integrity ''the append committed without inserting a row'')
       | Inl err \<Rightarrow>
           obind (classify W L (d_id d) dg parent err) (\<lambda>a.
             case a of Landed stored \<Rightarrow> ret (Some (stored, False)) | Retry \<Rightarrow> ret None)) v
         = (Inr (Some (h, b)), t)"
    unfolding append_attempt_def Let_def obind_Inr_iff on_result_iff op_simps verdict_simps by auto
  let ?rec = "signed_build E (d\<lparr>d_prev_hash := parent\<rparr>) (l_signer L)"
  have a: "ac_id acc = d_id d" "ac_identity_digest acc = dg" "ac_record_hash acc = hb"
    using accounted_digest [OF env(1,3,4) acc] accounted_of_hash [OF acc] hb by auto
  have le: "cell_le s u" "cell_le s v" "cell_le s t"
    using evolution.keepsD [OF keeps_head [OF env(2)] head]
      evolution.keepsD [OF evolution_txn [OF env(2)] sent]
      evolution.keepsD [OF keeps_attempt [OF env(2)] run] evolution.R_trans by blast+
  show ?thesis
  proof (cases sent)
    case (Inl err)
    with rest obtain a w where "classify W L (d_id d) dg parent err v = (Inr a, w)"
        "(case a of Landed stored \<Rightarrow> ret (Some (stored, False)) | Retry \<Rightarrow> ret None) w = (Inr (Some (h, b)), t)"
      by (auto simp: obind_Inr_iff)
    then have b: "\<not> b" and c: "classify W L (d_id d) dg parent err v = (Inr (Landed h), t)"
      by (cases a; simp)+
    from classify_present [OF c] le(3) db b show ?thesis by (auto simp: cell_le_def)
  next
    case (Inr ns)
    with rest have hb': "h = hb" "b" "t = v" by (auto split: if_splits)
    from Inr sent obtain d' where tx: "txn (append_statements E ?rec acc) (c_db (tick W u)) = Some (d', ns)"
      and v: "v = (tick W u)\<lparr>c_db := d'\<rparr>"
      by (auto simp: store_txn_Inr_iff)
    have le': "cell_le s (tick W u)"
      using le(1) cell_le_tick [OF env(2)] evolution.R_trans by blast
    then have ok: "db_ok (c_db (tick W u))" using db by (simp add: cell_le_def)
    have none: "identity_of (d_id d) (c_db s) = None"
    proof (rule ccontr)
      assume "identity_of (d_id d) (c_db s) \<noteq> None"
      then obtain r where "identity_of (d_id d) (c_db s) = Some r" by auto
      with le' ok evolves_identity have "identity_of (d_id d) (c_db (tick W u)) \<noteq> None"
        unfolding cell_le_def by blast
      with tx a(1) show False by (auto simp: append_txn_iff identity_of_None_iff)
    qed
    have "row_of_record E ?rec \<in> set (kernel_decisions d')"
      using tx by (auto simp: append_txn_iff)
    with none hb hb' v have "committed E L d h (c_db s) (c_db t)"
      by (auto simp: committed_def Let_def)
    moreover have "present (d_id d) h dg (c_db t)"
      using append_txn_present [OF tx ok] a hb' v by simp
    ultimately show ?thesis by simp
  qed
qed

lemma committed_weaken:
  "committed E L d h u t \<Longrightarrow> cell_le s c \<Longrightarrow> c_db c = u \<Longrightarrow> db_ok (c_db s) \<Longrightarrow>
     committed E L d h (c_db s) t"
  unfolding committed_def cell_le_def using evolves_identity by (metis option.exhaust option.distinct(1))

lemma append_from_result:
  assumes env: "env_ok E" "world_ok W" "decision_ok E d" "identity_digest E d = Inr dg"
  shows "append_from E W L g d dg n s = (Inr (h, b), t) \<Longrightarrow> db_ok (c_db s) \<Longrightarrow>
     present (d_id d) h dg (c_db t) \<and> (b \<longrightarrow> committed E L d h (c_db s) (c_db t))"
proof (induction n arbitrary: s)
  case 0
  then show ?case by simp
next
  case (Suc n)
  let ?gate = "if Suc n < APPEND_ATTEMPTS \<and> g = Backstopped
     then backstop W (d_id d) dg else ret None"
  have kg: "evolution.keeps ?gate" using keeps_backstop [OF env(2)] evolution_ops(1) by auto
  from Suc.prems(1) obtain landed u where g: "?gate s = (Inr landed, u)"
    and rest: "(case landed of
         Some h \<Rightarrow> ret (h, False)
       | None \<Rightarrow>
           obind (append_attempt E W L d dg) (\<lambda>outcome.
             case outcome of
               Some r \<Rightarrow> ret r
             | None \<Rightarrow> append_from E W L g d dg n)) u = (Inr (h, b), t)"
    unfolding append_from.simps obind_Inr_iff by blast
  have su: "cell_le s u" using evolution.keepsD [OF kg g] .
  then have uok: "db_ok (c_db u)" using Suc.prems(2) by (simp add: cell_le_def)
  show ?case
  proof (cases landed)
    case (Some h')
    with rest have "t = u" "h = h'" "\<not> b" by auto
    moreover from g Some have "backstop W (d_id d) dg s = (Inr (Some h'), u)"
      by (auto split: if_splits)
    ultimately show ?thesis using backstop_present uok by blast
  next
    case None
    with rest obtain outcome v where at: "append_attempt E W L d dg u = (Inr outcome, v)"
      and fin: "(case outcome of Some r \<Rightarrow> ret r | None \<Rightarrow> append_from E W L g d dg n) v = (Inr (h, b), t)"
      by (auto simp: obind_Inr_iff)
    have uv: "cell_le u v" using evolution.keepsD [OF keeps_attempt [OF env(2)] at] .
    show ?thesis
    proof (cases outcome)
      case None
      with fin have "append_from E W L g d dg n v = (Inr (h, b), t)" by simp
      from Suc.IH [OF this] uv uok have
        "present (d_id d) h dg (c_db t) \<and> (b \<longrightarrow> committed E L d h (c_db v) (c_db t))"
        by (simp add: cell_le_def)
      then show ?thesis
        using committed_weaken [OF _ evolution.R_trans [OF su uv] refl Suc.prems(2)] by blast
    next
      case (Some r)
      with fin have "r = (h, b)" "v = t" by auto
      with attempt_result [OF env uok, of L h b t] at Some have
        "present (d_id d) h dg (c_db t) \<and> (b \<longrightarrow> committed E L d h (c_db u) (c_db t))" by simp
      then show ?thesis using committed_weaken [OF _ su refl Suc.prems(2)] by blast
    qed
  qed
qed

lemma append_reported_result:
  assumes env: "env_ok E" "world_ok W" "decision_ok E d" "db_ok (c_db s)"
    and run: "append_reported E W L d s = (Inr (h, b), t)"
  shows "\<exists>dg. identity_digest E d = Inr dg \<and> present (d_id d) h dg (c_db t) \<and>
     (b \<longrightarrow> committed E L d h (c_db s) (c_db t))"
proof -
  from run obtain dg landed u where dg: "identity_digest E d = Inr dg"
    and bs: "backstop W (d_id d) dg s = (Inr landed, u)"
    and rest: "(case landed of Some h \<Rightarrow> ret (h, False)
        | None \<Rightarrow> append_loop E W L d dg Backstopped) u = (Inr (h, b), t)"
    by (auto simp: append_reported_def obind_Inr_iff split: if_splits)
  have su: "cell_le s u" using evolution.keepsD [OF keeps_backstop [OF env(2)] bs] .
  then have uok: "db_ok (c_db u)" using env(4) by (simp add: cell_le_def)
  show ?thesis
  proof (cases landed)
    case (Some h')
    with rest have "t = u" "h = h'" "\<not> b" by auto
    with backstop_present bs Some uok dg show ?thesis by blast
  next
    case None
    with rest have "append_from E W L Backstopped d dg APPEND_ATTEMPTS u = (Inr (h, b), t)"
      by (simp add: append_loop_def)
    from append_from_result [OF env(1-3) dg this uok] dg show ?thesis
      using committed_weaken [OF _ su refl env(4)] by blast
  qed
qed

text \<open>
  How long an append may take: the waits between its attempts and the number of calls it makes to
  the store, both bounded whatever the store answers and whatever others commit.
\<close>

section \<open>Calls\<close>

definition within :: "nat \<Rightarrow> ('b cell, 'a) op \<Rightarrow> bool" where
  "within n m \<longleftrightarrow> (\<forall>s. c_clock (snd (m s)) \<le> c_clock s + n)"

lemma within_mono: "within n m \<Longrightarrow> n \<le> k \<Longrightarrow> within k m"
  unfolding within_def by (meson add_le_mono le_refl order_trans)

lemma within_pure: "within n (ret x)" "within n (fail e)" "within n (lift r)" "within n read_verdict"
  by (simp_all add: within_def)

lemma within_query: "within 1 (query_consistent W q)"
  by (simp add: within_def query_consistent_def)

lemma within_txn: "within 1 (store_txn W ss)"
  by (auto simp: within_def store_txn_def split: fate.split option.split prod.split)

lemma within_on_result:
  assumes "within a m" "\<And>r. within b (f r)" "a + b \<le> n"
  shows "within n (on_result m f)"
  unfolding within_def
proof
  fix s
  obtain r t where m: "m s = (r, t)" by (cases "m s")
  have "c_clock t \<le> c_clock s + a" using assms(1) m by (metis snd_conv within_def)
  moreover have "c_clock (snd (f r t)) \<le> c_clock t + b" using assms(2) by (simp add: within_def)
  moreover have "on_result m f s = f r t" using m by (simp add: on_result_def)
  ultimately show "c_clock (snd (on_result m f s)) \<le> c_clock s + n" using assms(3) by simp
qed

lemma within_bind:
  "within a m \<Longrightarrow> (\<And>x. within b (f x)) \<Longrightarrow> a + b \<le> n \<Longrightarrow> within n (obind m f)"
  unfolding obind_def
  by (rule within_on_result) (auto split: sum.split intro: within_pure)

lemma within_count: "within 1 (ledger_count W)"
  unfolding ledger_count_def by (rule within_bind [OF within_query within_pure(3) [of 0]]) simp

lemma within_root: "within 1 (resident_root W L)"
  unfolding resident_root_def by (rule within_bind [OF within_query within_pure(3) [of 0]]) simp

lemma within_identity: "within 1 (identity_rows_of W i)"
  unfolding identity_rows_of_def by (rule within_bind [OF within_query within_pure(3) [of 0]]) simp

lemma within_head: "within 3 (ledger_head W L)"
  unfolding ledger_head_def
  by (rule within_bind [OF within_query, where b = 2])
    (auto intro!: within_pure within_bind [OF within_count] within_root split: list.split)

lemma within_backstop: "within 1 (backstop W i dg)"
  unfolding backstop_def
  by (rule within_bind [OF within_pure(4) [of 0], where b = 1])
    (auto intro!: within_pure within_bind [OF within_identity, where b = 0] split: option.split)

lemma within_classify: "within 4 (classify W L i dg p e)"
  unfolding classify_def
  by (rule within_bind [OF within_identity, where b = 3])
    (auto intro!: within_pure within_bind [OF within_head, where b = 0] split: option.split)

lemma within_attempt: "within 8 (append_attempt E W L d dg)"
  unfolding append_attempt_def Let_def
  by (rule within_bind [OF within_head, where b = 5] within_bind [OF within_pure(3) [of 0], where b = 5]
      within_on_result [OF within_txn, where b = 4] | simp split: sum.split)+
    (auto intro!: within_pure within_bind [OF within_classify, where b = 0] split: attempt.split)

lemma within_append_from: "within (9 * n) (append_from E W L g d dg n)"
proof (induction n)
  case 0
  then show ?case unfolding append_from.simps by (rule within_pure)
next
  case (Suc n)
  have gate: "within 1 (if Suc n < APPEND_ATTEMPTS \<and> g = Backstopped
      then backstop W (d_id d) dg else ret None)"
    using within_backstop within_pure(1) by auto
  show ?case
    unfolding append_from.simps
    by (rule within_bind [OF gate, where b = "8 + 9 * n"])
      (auto intro!: within_pure Suc within_bind [OF within_attempt, where b = "9 * n"]
        split: option.split)
qed

lemma within_append: "within 109 (append_reported E W L d)"
proof -
  have l: "within 108 (append_loop E W L d dg Backstopped)" for dg
    using within_append_from [where n = APPEND_ATTEMPTS] by (simp add: append_loop_def APPEND_ATTEMPTS_def)
  show ?thesis
    unfolding append_reported_def
    by (auto intro!: within_pure l within_bind [OF within_pure(3) [of 0], where b = 109]
        within_bind [OF within_backstop, where b = 108] split: option.split)
qed

section \<open>Waits\<close>

lemma backoff_window_bounds: "5000 \<le> backoff_window n \<and> backoff_window n \<le> 250000"
  by (auto simp: backoff_window_def APPEND_BACKOFF_BASE_def APPEND_BACKOFF_CAP_def)

lemma backoff_bounds: "backoff_window n div 2 \<le> backoff i n \<and> backoff i n < backoff_window n"
proof -
  let ?half = "backoff_window n div 2"
  have h: "0 < ?half" using backoff_window_bounds [of n] by linarith
  have "unat (fnv1a i n) mod ?half < ?half" using h by simp
  moreover have "2 * ?half \<le> backoff_window n" by linarith
  moreover have "backoff i n = ?half + unat (fnv1a i n) mod ?half"
    using max_absorb1 [of 1 ?half] h by (simp only: backoff_def Let_def One_nat_def Suc_leI)
  ultimately show ?thesis by linarith
qed

lemma backoff_total: "sum_list (map (backoff i) [1..<APPEND_ATTEMPTS]) < 2000000"
proof -
  have "sum_list (map (backoff i) [1..<APPEND_ATTEMPTS]) \<le>
      sum_list (map backoff_window [1..<APPEND_ATTEMPTS])"
    by (intro sum_list_mono) (simp add: less_imp_le backoff_bounds)
  also have "\<dots> < 2000000"
    by (simp add: APPEND_ATTEMPTS_def upt_rec backoff_window_def APPEND_BACKOFF_BASE_def
        APPEND_BACKOFF_CAP_def)
  finally show ?thesis .
qed

end
