(* ===== verification/Ledger_Epoch.thy ===== *)
theory Ledger_Epoch
  imports Append_Facts
begin

text \<open>
  \<^verbatim>\<open>transition.rs\<close> and \<^verbatim>\<open>epoch.rs\<close>: the manifest transitions and deployment epochs the chain
  carries, what is current at a point of it, and the size bound on a transition. Parsing the
  deployment references takes the JSON parser's answers as arguments.
\<close>

section \<open>Transitions\<close>

definition TRANSITION_KIND :: decision_kind where "TRANSITION_KIND = ''manifest.transition''"
definition ID_HASH_LEN :: nat where "ID_HASH_LEN = 16"

definition abbreviate :: "hash \<Rightarrow> string" where
  "abbreviate h = drop (length (as_str h) - ID_HASH_LEN) (as_str h)"

definition transition_of_decision :: "'b env \<Rightarrow> decision \<Rightarrow> error + manifest_transition option" where
  "transition_of_decision E d =
     (if d_kind d \<noteq> TRANSITION_KIND then Inr None
      else rbind (map_err (\<lambda>e. Integrity (''transition payload: '' @ e))
                   (transition_of_value E (d_payload d))) (\<lambda>t. Inr (Some t)))"

definition transition_of :: "'b env \<Rightarrow> signed_record \<Rightarrow> error + manifest_transition option" where
  "transition_of E r = rbind (sr_decision E r) (transition_of_decision E)"

definition transition_decision :: "'b env \<Rightarrow> manifest_transition \<Rightarrow> hash \<Rightarrow> decision" where
  "transition_decision E t at_head =
     with_payload E (transition_to_value E t)
       (decision_new (''manifest:'' @ abbreviate at_head @ '':'' @ abbreviate (mt_to t)) TRANSITION_KIND
          (mt_actor t) Allow
          (''the cell adopts manifest '' @ as_str (mt_to t) @ '' in place of '' @ as_str (mt_from t)))"

text \<open>The loop over \<^verbatim>\<open>records.iter().rev()\<close> that returns the first transition it meets.\<close>

fun first_transition :: "'b env \<Rightarrow> signed_record list \<Rightarrow> error + manifest_transition option" where
  "first_transition E [] = Inr None"
| "first_transition E (r # rs) =
     rbind (transition_of E r) (\<lambda>t.
       case t of Some x \<Rightarrow> Inr (Some x) | None \<Rightarrow> first_transition E rs)"

definition manifest_at_tail :: "'b env \<Rightarrow> signed_record list \<Rightarrow> hash \<Rightarrow> error + hash" where
  "manifest_at_tail E recs before =
     rbind (first_transition E (rev recs)) (\<lambda>t.
       case t of Some x \<Rightarrow> Inr (mt_to x) | None \<Rightarrow> Inr before)"

definition manifest_of_snapshot :: "'b env \<Rightarrow> ledger \<Rightarrow> chain_snap \<Rightarrow> error + hash" where
  "manifest_of_snapshot E L snap =
     rbind (first_transition E (rev (cs_records snap))) (\<lambda>t.
       case t of
         Some x \<Rightarrow> Inr (mt_to x)
       | None \<Rightarrow>
           (if cs_segments snap = [] then Inr (l_genesis_parent L)
            else (case sh_current_manifest (last (cs_segments snap)) of
                    Some m \<Rightarrow> Inr m | None \<Rightarrow> Inr (l_genesis_parent L))))"

definition current_manifest :: "'b env \<Rightarrow> 'b world \<Rightarrow> ledger \<Rightarrow> ('b cell, hash) op" where
  "current_manifest E W L =
     obind (chain_snapshot E W L) (\<lambda>snap. lift (manifest_of_snapshot E L snap))"

definition current_manifest_model :: "'b env \<Rightarrow> 'b world \<Rightarrow> ledger \<Rightarrow> ('b cell, string option) op" where
  "current_manifest_model E W L =
     obind (chain_snapshot E W L) (\<lambda>snap.
     obind (lift (first_transition E (rev (cs_records snap)))) (\<lambda>t.
     ret (map_option mt_model t)))"

definition measure_transition :: "'b env \<Rightarrow> ledger \<Rightarrow> manifest_transition \<Rightarrow> nat" where
  "measure_transition E L t =
     (let d = (transition_decision E t unchained)
                \<lparr>d_prev_hash := unchained, d_at := Revision (- 1)\<rparr>
      in text_len E (to_canonical_bytes E (signed_build E d (l_signer L))))"

definition check_fits :: "nat \<Rightarrow> u64 \<Rightarrow> error + unit" where
  "check_fits measured max_record_bytes =
     (if min measured (2 ^ 64 - 1) \<le> unat max_record_bytes then Inr ()
      else Inl (Validation ''the transition does not fit ledger.max_record_bytes''))"

definition append_transition ::
  "'b env \<Rightarrow> 'b world \<Rightarrow> ledger \<Rightarrow> manifest_transition \<Rightarrow> u64 \<Rightarrow> ('b cell, hash) op" where
  "append_transition E W L t max_record_bytes =
     obind (lift (check_fits (measure_transition E L t) max_record_bytes)) (\<lambda>_.
     obind (ledger_head W L) (\<lambda>h.
     ledger_append E W L (transition_decision E t h)))"

section \<open>Epochs\<close>

definition EPOCH_KIND :: decision_kind where "EPOCH_KIND = ''deployment.epoch''"
definition EPOCH_REF_TYPE :: string where "EPOCH_REF_TYPE = ''rahi.epoch-ref/v0''"
definition MAX_REFERENCE_BYTES :: nat where "MAX_REFERENCE_BYTES = 4096"

definition REFERENCE_MEMBERS :: "string list" where
  "REFERENCE_MEMBERS = [''build'', ''deployment'', ''authority'']"

definition is_sha256 :: "string \<Rightarrow> bool" where
  "is_sha256 txt =
     (case strip_prefix ''sha256:'' txt of
        None \<Rightarrow> False
      | Some hex \<Rightarrow>
          length hex = 64 \<and>
          list_all (\<lambda>b. ascii_digit b \<or> (CHR ''a'' \<le> b \<and> b \<le> CHR ''f'')) hex)"

definition named_references :: "references \<Rightarrow> (string \<times> reference) list" where
  "named_references r =
     List.map_filter (\<lambda>(n, x). map_option (Pair n) x)
       [(''build'', refs_build r), (''deployment'', refs_deployment r),
        (''authority'', refs_authority r)]"

text \<open>
  \<open>object\<close> is the text read as one JSON object with the serialized size of each member's value,
  \<open>typed\<close> the text read as references.
\<close>

definition references_parse ::
  "string + (string \<times> nat) list \<Rightarrow> string + references \<Rightarrow> error + references" where
  "references_parse object typed =
     rbind (map_err (\<lambda>e. Config (''refs: not one JSON object: '' @ e)) object) (\<lambda>members.
     rbind (try_each (\<lambda>(member, size).
              if member \<notin> set REFERENCE_MEMBERS then Inl (Config ''refs: unknown member'')
              else if size > MAX_REFERENCE_BYTES then Inl (Config ''refs: member over the bound'')
              else Inr ()) members) (\<lambda>_.
     rbind (map_err (\<lambda>e. Config (''refs: not typed references: '' @ e)) typed) (\<lambda>refs.
     rbind (try_each (\<lambda>(member, r).
              if trim (ref_kind r) = [] then Inl (Config ''refs: empty type'')
              else if \<not> is_sha256 (ref_digest r) then Inl (Config ''refs: digest'')
              else Inr ()) (named_references refs)) (\<lambda>_.
     Inr refs))))"

definition epoch_of_decision :: "'b env \<Rightarrow> decision \<Rightarrow> error + deployment_epoch option" where
  "epoch_of_decision E d =
     (if d_kind d \<noteq> EPOCH_KIND then Inr None
      else rbind (map_err (\<lambda>e. Integrity (''epoch payload: '' @ e)) (epoch_of_value E (d_payload d)))
             (\<lambda>e. Inr (Some e)))"

definition epoch_of :: "'b env \<Rightarrow> signed_record \<Rightarrow> error + deployment_epoch option" where
  "epoch_of E r = rbind (sr_decision E r) (epoch_of_decision E)"

fun cause_str :: "epoch_cause \<Rightarrow> string" where
  "cause_str CauseDeploy = ''deploy''"
| "cause_str CauseRestore = ''restore''"

definition epoch_decision :: "'b env \<Rightarrow> deployment_epoch \<Rightarrow> sub \<Rightarrow> decision" where
  "epoch_decision E e actor =
     with_payload E (epoch_to_value E e)
       (decision_new (''epoch:'' @ show_nat (unat (ep_epoch e))) EPOCH_KIND actor Allow
          (''the cell serves epoch '' @ show_nat (unat (ep_epoch e)) @ '' ('' @ cause_str (ep_cause e) @
           '') under manifest '' @ as_str (ep_manifest e)))"

definition fingerprint ::
  "'b env \<Rightarrow> hash \<Rightarrow> string option \<Rightarrow> string option \<Rightarrow> references \<Rightarrow> string" where
  "fingerprint E manifest binary img refs =
     sha256_hex E (canonical_text E (JObj
       [(''binary'', json_option binary), (''image'', json_option img),
        (''manifest'', JStr (as_str manifest)), (''refs'', refs_to_value E refs)]))"

definition epoch_fingerprint :: "'b env \<Rightarrow> deployment_epoch \<Rightarrow> string" where
  "epoch_fingerprint E e =
     fingerprint E (ep_manifest e) (art_binary (ep_artifact e)) (art_image (ep_artifact e)) (ep_refs e)"

definition tail_genesis :: "hash \<Rightarrow> epoch_tail" where
  "tail_genesis genesis_record =
     \<lparr>et_number = 0, et_hash = genesis_record, et_fingerprint = None, et_last_restore = None,
      et_deployed = None\<rparr>"

definition tail_of_epoch :: "'b env \<Rightarrow> deployment_epoch \<Rightarrow> hash \<Rightarrow> epoch_tail \<Rightarrow> epoch_tail" where
  "tail_of_epoch E e h before =
     \<lparr>et_number = ep_epoch e, et_hash = h, et_fingerprint = Some (epoch_fingerprint E e),
      et_last_restore = (case ep_restore e of Some r \<Rightarrow> Some r | None \<Rightarrow> et_last_restore before),
      et_deployed = Some
        \<lparr>dp_manifest = ep_manifest e, dp_binary = art_binary (ep_artifact e),
         dp_platform = art_platform (ep_artifact e), dp_image = art_image (ep_artifact e)\<rparr>\<rparr>"

fun tail_after :: "'b env \<Rightarrow> signed_record list \<Rightarrow> epoch_tail \<Rightarrow> error + epoch_tail" where
  "tail_after E [] before = Inr before"
| "tail_after E (r # rs) before =
     rbind (epoch_of E r) (\<lambda>e.
       case e of
         None \<Rightarrow> tail_after E rs before
       | Some x \<Rightarrow> rbind (sr_hash r) (\<lambda>h. tail_after E rs (tail_of_epoch E x h before)))"

definition tail_reference :: "epoch_tail \<Rightarrow> hash \<Rightarrow> json" where
  "tail_reference t chain =
     JObj [(''chain'', JStr (as_str chain)), (''epoch'', JStr (as_str (et_hash t))),
           (''number'', JNum (uint (et_number t))), (''type'', JStr EPOCH_REF_TYPE)]"

definition genesis_record_hash :: "'b world \<Rightarrow> ledger \<Rightarrow> ('b cell, hash) op" where
  "genesis_record_hash W L =
     obind (hash_of W (genesis_id L)) (\<lambda>resident.
       case resident of
         Some h \<Rightarrow> ret h
       | None \<Rightarrow>
           obind (query_consistent W (genesis_identity_query (genesis_id L))) (\<lambda>rows.
             case rows of
               h # _ \<Rightarrow> lift (hash_parse h)
             | [] \<Rightarrow> fail (Integrity ''the genesis record is not in the lifetime identity index'')))"

text \<open>\<^verbatim>\<open>iter().rev().find_map(|h| h.current_epoch.clone())\<close>\<close>

definition newest_epoch :: "segment_header list \<Rightarrow> epoch_tail option" where
  "newest_epoch headers =
     (case List.map_filter sh_current_epoch (rev headers) of [] \<Rightarrow> None | t # _ \<Rightarrow> Some t)"

definition epoch_before :: "'b world \<Rightarrow> ledger \<Rightarrow> segment_header list \<Rightarrow> ('b cell, epoch_tail) op" where
  "epoch_before W L headers =
     (case newest_epoch headers of
        Some t \<Rightarrow> ret t
      | None \<Rightarrow> obind (genesis_record_hash W L) (\<lambda>h. ret (tail_genesis h)))"

definition epoch_at_tail ::
  "'b env \<Rightarrow> 'b world \<Rightarrow> ledger \<Rightarrow> segment_header list \<Rightarrow> signed_record list \<Rightarrow> ('b cell, epoch_tail) op" where
  "epoch_at_tail E W L sealed recs =
     obind (epoch_before W L sealed) (\<lambda>before. lift (tail_after E recs before))"

definition current_epoch :: "'b env \<Rightarrow> 'b world \<Rightarrow> ledger \<Rightarrow> ('b cell, epoch_tail) op" where
  "current_epoch E W L =
     obind (chain_snapshot E W L) (\<lambda>snap.
     obind (epoch_before W L (cs_segments snap)) (\<lambda>before.
     lift (tail_after E (cs_records snap) before)))"

definition append_epoch ::
  "'b env \<Rightarrow> 'b world \<Rightarrow> ledger \<Rightarrow> deployment_epoch \<Rightarrow> sub \<Rightarrow> ('b cell, hash) op" where
  "append_epoch E W L e actor = ledger_append E W L (epoch_decision E e actor)"

section \<open>Lemmas\<close>

text \<open>What a run leaves current depends on the run before it only through what that left current.\<close>

lemma first_transition_append:
  "first_transition E (xs @ ys) =
     rbind (first_transition E xs) (\<lambda>t. case t of Some x \<Rightarrow> Inr (Some x) | None \<Rightarrow> first_transition E ys)"
proof (induction xs)
  case Nil
  then show ?case by simp
next
  case (Cons x xs)
  then show ?case by (cases "transition_of E x") (auto split: option.splits)
qed

lemma manifest_at_tail_append:
  assumes "first_transition E (rev xs) = Inr t"
  shows "manifest_at_tail E (xs @ ys) before =
     rbind (manifest_at_tail E xs before) (\<lambda>m. manifest_at_tail E ys m)"
  using assms
  by (cases "first_transition E (rev ys)")
    (auto simp: manifest_at_tail_def first_transition_append split: option.splits)

lemma tail_after_append:
  "tail_after E (xs @ ys) before = rbind (tail_after E xs before) (\<lambda>t. tail_after E ys t)"
proof (induction xs arbitrary: before)
  case Nil
  then show ?case by simp
next
  case (Cons x xs)
  then show ?case
    by (cases "epoch_of E x"; cases "sr_hash x") (auto split: option.splits)
qed

lemma current_manifest_eq:
  "manifest_of_snapshot E L snap =
     manifest_at_tail E (cs_records snap)
       (if cs_segments snap = [] then l_genesis_parent L
        else (case sh_current_manifest (last (cs_segments snap)) of
                Some m \<Rightarrow> m | None \<Rightarrow> l_genesis_parent L))"
  by (auto simp: manifest_of_snapshot_def manifest_at_tail_def split: option.splits
      intro!: arg_cong2 [where f = rbind])

text \<open>
  What the Rust types make of every value: a \<^verbatim>\<open>Hash\<close> is well formed and a schema version is a
  \<^verbatim>\<open>u32\<close>. On those, serde reads back what it wrote.
\<close>

definition transition_ok :: "manifest_transition \<Rightarrow> bool" where
  "transition_ok t \<longleftrightarrow> hash_ok (mt_from t) \<and> hash_ok (mt_to t) \<and> mt_schema_version t \<le> U32_MAX"

definition epoch_ok :: "deployment_epoch \<Rightarrow> bool" where
  "epoch_ok e \<longleftrightarrow> hash_ok (ep_previous e) \<and> hash_ok (ep_manifest e) \<and>
     (case ep_transition e of None \<Rightarrow> True | Some h \<Rightarrow> hash_ok h) \<and> ep_schema_version e \<le> U32_MAX"

definition transition_codec :: "'b env \<Rightarrow> bool" where
  "transition_codec E \<longleftrightarrow> (\<forall>t. transition_ok t \<longrightarrow>
     transition_of_value E (canonicalize_value E (transition_to_value E t)) = Inr t)"

definition epoch_codec :: "'b env \<Rightarrow> bool" where
  "epoch_codec E \<longleftrightarrow> (\<forall>e. epoch_ok e \<longrightarrow>
     epoch_of_value E (canonicalize_value E (epoch_to_value E e)) = Inr e)"

lemma transition_roundtrip:
  "transition_codec E \<Longrightarrow> transition_ok t \<Longrightarrow> transition_of_decision E (transition_decision E t h) = Inr (Some t)"
  by (simp add: transition_of_decision_def transition_decision_def transition_codec_def
      with_payload_def decision_new_def map_err_def)

lemma epoch_roundtrip:
  "epoch_codec E \<Longrightarrow> epoch_ok e \<Longrightarrow> epoch_of_decision E (epoch_decision E e a) = Inr (Some e)"
  by (simp add: epoch_of_decision_def epoch_decision_def epoch_codec_def
      with_payload_def decision_new_def map_err_def)

lemma is_sha256_digest: "is_sha256 s \<Longrightarrow> digest_shape s"
proof -
  assume "is_sha256 s"
  then obtain hex where hex: "s = ''sha256:'' @ hex" "length hex = 64"
      "\<forall>b \<in> set hex. ascii_digit b \<or> (CHR ''a'' \<le> b \<and> b \<le> CHR ''f'')"
    by (auto simp: is_sha256_def list_all_iff strip_prefix_Some_iff split: option.splits)
  have "ascii_hexdigit b" "\<not> ascii_upper b" if "b \<in> set hex" for b
    using hex(3) that
    by (auto simp: ascii_hexdigit_def ascii_digit_def ascii_upper_def less_eq_char_def)
  then have "list_all ascii_hexdigit hex" "\<not> list_ex ascii_upper hex"
    by (auto simp: list_all_iff list_ex_iff)
  then show ?thesis
    using hex by (simp add: digest_shape_def hash_parse_def HASH_PREFIX_def HASH_HEX_LEN_def
        strip_prefix_def or_error_def)
qed

lemma references_parse_sound:
  assumes "references_parse object typed = Inr refs" "(m, r) \<in> set (named_references refs)"
  shows "digest_shape (ref_digest r) \<and> trim (ref_kind r) \<noteq> []"
  using assms
  by (auto simp: references_parse_def try_each_Inr_iff dest!: bspec [of _ _ "(m, r)"]
      intro: is_sha256_digest split: if_splits)

lemma append_transition_too_big:
  assumes "measure_transition E L t > unat m" "unat m < 2 ^ 64 - 1"
  shows "\<exists>e. append_transition E W L t m s = (Inl (Validation e), s)"
  using assms by (auto simp: append_transition_def check_fits_def min_def)

end
