(* ===== verification/Chain_History.thy ===== *)
theory Chain_History
  imports Ledger_Seal
begin

text \<open>
  The abstract ledger: one list of records from the genesis record to the head, wherever they are
  stored. \<open>chain_history\<close> relates a store and an archive to that list; an append extends it by one
  record and a seal leaves it as it is, while moving its oldest resident run into the archive.
\<close>

section \<open>The concrete chain\<close>

definition chain_is ::
  "'b env \<Rightarrow> hash \<Rightarrow> 'b db \<Rightarrow> segment_header list \<Rightarrow> signed_record list \<Rightarrow> bool" where
  "chain_is E gp d segs recs \<longleftrightarrow>
     (\<exists>hs rs. kernel_segments d = map (segment_row_of E) hs \<and>
        kernel_decisions d = map (row_of_record E) rs \<and>
        order_segments gp hs = Inr segs \<and>
        order_chain (root_after gp segs) rs = Inr recs) \<and>
     (\<forall>h \<in> set segs. header_ok h) \<and> hash_ok gp \<and>
     (segs \<noteq> [] \<longrightarrow> sh_segment_hash (last segs) \<notin> set (map sh_prev_segment_hash segs)) \<and>
     (recs \<noteq> [] \<longrightarrow> Inr (chain_end sr_hash (root_after gp segs) recs) \<notin> set (map sr_prev_hash recs))"

definition codecs_ok :: "'b env \<Rightarrow> bool" where
  "codecs_ok E \<longleftrightarrow> env_ok E \<and> texts_nonempty E"

lemma rows_parse:
  "record_codec E \<Longrightarrow> try_map (from_bytes E) (map dr_record (map (row_of_record E) rs)) = Inr rs"
  by (induction rs)
    (auto simp: row_of_record_def from_bytes_def to_canonical_bytes_def record_codec_def map_err_def)

lemma headers_parse:
  "codecs_ok E \<Longrightarrow> \<forall>h \<in> set hs. header_ok h \<Longrightarrow>
     try_map (into_header E) (map (segment_row_of E) hs) = Inr hs"
  by (induction hs) (auto simp: codecs_ok_def header_row_roundtrip env_okD(8))

lemma filter_single:
  assumes "distinct xs" "x \<in> set xs" "P x" "\<forall>y \<in> set xs. P y \<longrightarrow> y = x"
  shows "filter P xs = [x]"
proof -
  have s: "set (filter P xs) = {x}" unfolding set_filter using assms(2-4) by blast
  have d: "distinct (filter P xs)" using assms(1) by simp
  from s obtain y ys where y: "filter P xs = y # ys" by (cases "filter P xs") auto
  with s have "y = x" "set ys \<subseteq> {x}" by auto
  with d y have "ys = []" by (cases ys) auto
  with y \<open>y = x\<close> show ?thesis by simp
qed

lemma distinct_of_map: "distinct (map f xs) \<Longrightarrow> distinct xs"
  by (simp add: distinct_map)

lemma header_heads_last:
  assumes "order_segments gp hs = Inr segs" "segs \<noteq> []"
    "sh_segment_hash (last segs) \<notin> set (map sh_prev_segment_hash segs)"
  shows "header_heads hs =
     [(as_str (sh_segment_hash (last segs)), as_str (sh_last_hash (last segs)))]"
proof -
  have l: "linked (\<lambda>h. Inr (sh_prev_segment_hash h)) (\<lambda>h. Inr (sh_segment_hash h)) gp segs"
    and d: "distinct (map (\<lambda>h. Inr (sh_prev_segment_hash h) :: error + hash) hs)"
    using assms(1) by (simp_all add: segment_order.order_iff)
  have s: "set hs = set segs" using segment_order.order_set [OF assms(1)] by simp
  have "filter (\<lambda>h. sh_segment_hash h \<notin> set (map sh_prev_segment_hash hs)) hs = [last segs]"
  proof (rule filter_single)
    show "distinct hs" using distinct_of_map [OF d] .
    show "last segs \<in> set hs" using assms(2) s by simp
    show "sh_segment_hash (last segs) \<notin> set (map sh_prev_segment_hash hs)"
      using assms(3) s by simp
    show "\<forall>y \<in> set hs. sh_segment_hash y \<notin> set (map sh_prev_segment_hash hs) \<longrightarrow> y = last segs"
      using linked_head_unclaimed [OF l] s by simp
  qed
  then show ?thesis by (simp add: header_heads_def)
qed

lemma chain_is_root:
  assumes "order_segments gp hs = Inr segs" "\<forall>h \<in> set segs. header_ok h"
    "segs \<noteq> [] \<longrightarrow> sh_segment_hash (last segs) \<notin> set (map sh_prev_segment_hash segs)"
  shows "root_of_segment_heads (header_heads hs) (int (length hs)) gp = Inr (root_after gp segs)"
proof (cases "segs = []")
  case True
  with assms(1) have "hs = []" by (simp add: order_segments_Nil_iff)
  with True show ?thesis
    by (simp add: root_of_segment_heads_def header_heads_def root_after_def)
next
  case False
  with assms(2) have "header_ok (last segs)" by simp
  with header_heads_last [OF assms(1) False] assms(3) False show ?thesis
    by (simp add: root_of_segment_heads_def root_after_def header_ok_def)
qed

text \<open>The one-statement read answers exactly that chain.\<close>

lemma chain_is_snapshot:
  assumes "codecs_ok E" "chain_is E (l_genesis_parent L) d segs recs"
    "l_opened_sealed L \<longrightarrow> segs \<noteq> []" "l_opened_resident L \<longrightarrow> recs \<noteq> []"
  shows "snapshot_of_rows E L (chain_snapshot_query d) =
     Inr \<lparr>cs_segments = segs, cs_root = root_after (l_genesis_parent L) segs, cs_records = recs\<rparr>"
proof -
  let ?gp = "l_genesis_parent L"
  from assms(2) obtain hs rs where
    hs: "kernel_segments d = map (segment_row_of E) hs" "order_segments ?gp hs = Inr segs"
    and rs: "kernel_decisions d = map (row_of_record E) rs"
      "order_chain (root_after ?gp segs) rs = Inr recs"
    and ok: "\<forall>h \<in> set segs. header_ok h"
    by (auto simp: chain_is_def)
  have root: "root_of_segment_heads (header_heads hs) (int (length hs)) ?gp = Inr (root_after ?gp segs)"
    using chain_is_root [OF hs(2) ok] assms(2) by (simp add: chain_is_def)
  have set: "set hs = set segs" using segment_order.order_set [OF hs(2)] by simp
  have ph: "try_map (into_header E) (kernel_segments d) = Inr hs"
    using headers_parse [OF assms(1), of hs] ok set hs(1) by simp
  have pr: "try_map (from_bytes E) (map dr_record (kernel_decisions d)) = Inr rs"
    using rows_parse [of E rs] assms(1) rs(1) by (simp add: codecs_ok_def env_ok_def)
  have ne: "\<not> (hs = [] \<and> l_opened_sealed L)" "\<not> (rs = [] \<and> l_opened_resident L)"
    using assms(3,4) hs(2) rs(2) order_segments_Nil_iff [of ?gp hs] order_chain_Nil_iff
    by auto
  show ?thesis
    using ph pr ne hs rs root
    by (auto simp: snapshot_of_rows_def sort_snapshot_query)
qed

text \<open>
  The two transactions that move the chain, against the abstract history: an append extends it by
  one record, a seal leaves it unchanged. The abstraction is \<open>chain_history\<close>.
\<close>

section \<open>The history of a store and its archive\<close>

definition chain_parts ::
  "'b env \<Rightarrow> hash \<Rightarrow> 'b db \<Rightarrow> 'b objects \<Rightarrow> segment list \<Rightarrow> signed_record list \<Rightarrow> bool" where
  "chain_parts E gp d A bodies recs \<longleftrightarrow>
     chain_is E gp d (map sg_header bodies) recs \<and>
     (\<forall>b \<in> set bodies. body_in E A b \<and> segment_verify E b = Inr ()) \<and>
     linked sr_prev_hash sr_hash gp (history bodies) \<and>
     chain_end sr_hash gp (history bodies) = root_after gp (map sg_header bodies)"

definition chain_history ::
  "'b env \<Rightarrow> hash \<Rightarrow> 'b db \<Rightarrow> 'b objects \<Rightarrow> signed_record list \<Rightarrow> bool" where
  "chain_history E gp d A H \<longleftrightarrow>
     (\<exists>bodies recs. chain_parts E gp d A bodies recs \<and> H = history bodies @ recs)"

lemma history_snoc: "history (bs @ [b]) = history bs @ sg_records b"
  by (simp add: history_def)

lemma chain_is_linked:
  "chain_is E gp d segs recs \<Longrightarrow> linked sr_prev_hash sr_hash (root_after gp segs) recs"
  by (auto simp: chain_is_def chain_order.order_iff)

lemma chain_history_linked:
  "chain_history E gp d A H \<Longrightarrow> linked sr_prev_hash sr_hash gp H"
  by (auto simp: chain_history_def chain_parts_def linked_append_iff dest: chain_is_linked)

section \<open>The head\<close>

lemma linked_tail_unclaimed:
  assumes "linked sr_prev_hash sr_hash p recs" "r \<in> set recs" "sr_hash r = Inr h"
    "Inr h \<notin> set (map sr_prev_hash recs)"
  shows "r = last recs"
  using assms
proof (induction recs arbitrary: p)
  case Nil
  then show ?case by simp
next
  case (Cons x xs)
  show ?case
  proof (cases xs)
    case Nil
    with Cons.prems show ?thesis by simp
  next
    case (Cons y ys)
    from Cons.prems(1) obtain k where k: "sr_hash x = Inr k" "linked sr_prev_hash sr_hash k xs"
      by (auto simp: linked_Cons_iff simp del: linked.simps)
    with Cons have "sr_prev_hash y = Inr k" by simp
    with k(1) Cons Cons.prems(2-4) have "r \<in> set xs" by auto
    with Cons.IH [OF k(2)] Cons.prems Cons show ?thesis by simp
  qed
qed

lemma sr_hash_text: "sr_hash r = Inr h \<Longrightarrow> lr_record_hash (sr_record r) = as_str h"
  by (auto simp: sr_hash_def dest: hash_parse_as_str)

lemma sr_prev_text: "sr_prev_hash r = Inr h \<Longrightarrow> lr_previous_record_hash (sr_record r) = as_str h"
  by (auto simp: sr_prev_hash_def dest: hash_parse_as_str)

lemma order_chain_facts:
  assumes "order_chain p rs = Inr recs"
  shows "set rs = set recs" "distinct rs" "mset rs = mset recs"
    "linked sr_prev_hash sr_hash p recs" "distinct (map sr_prev_hash rs)"
  using assms chain_order.order_set [OF assms] distinct_of_map
  by (auto simp: chain_order.order_iff)

lemma head_query_last:
  assumes o: "order_chain p rs = Inr recs" and ne: "recs \<noteq> []"
    and acyclic: "Inr (chain_end sr_hash p recs) \<notin> set (map sr_prev_hash recs)"
    and d: "kernel_decisions d = map (row_of_record E) rs"
  shows "head_query d = [as_str (chain_end sr_hash p recs)]"
proof -
  note f = order_chain_facts [OF o]
  let ?e = "chain_end sr_hash p recs"
  let ?unclaimed = "\<lambda>r. lr_record_hash (sr_record r) \<notin>
      set (map (\<lambda>r. lr_previous_record_hash (sr_record r)) rs)"
  have last: "sr_hash (last recs) = Inr ?e"
    using chain_end_last [OF f(4) ne] .
  have key: "lr_record_hash (sr_record r) \<notin> set (map (\<lambda>r. lr_previous_record_hash (sr_record r)) rs)
      \<longleftrightarrow> Inr h \<notin> set (map sr_prev_hash recs)" if "r \<in> set recs" "sr_hash r = Inr h" for r h
  proof -
    have "lr_previous_record_hash (sr_record q) = as_str h \<longleftrightarrow> sr_prev_hash q = Inr h"
      if q: "q \<in> set recs" for q
    proof -
      obtain k where k: "sr_prev_hash q = Inr k" using linked_par_ok [OF f(4) q] by auto
      then show ?thesis using sr_prev_text [OF k] by (auto intro: hash.expand)
    qed
    then have "as_str h \<in> set (map (\<lambda>r. lr_previous_record_hash (sr_record r)) recs) \<longleftrightarrow>
        Inr h \<in> set (map sr_prev_hash recs)"
      unfolding set_map image_iff by metis
    then show ?thesis unfolding sr_hash_text [OF that(2)] set_map f(1) by blast
  qed
  have "filter ?unclaimed rs = [last recs]"
  proof (rule filter_single)
    show "distinct rs" using f(2) .
    show "last recs \<in> set rs" using ne f(1) by simp
    show "?unclaimed (last recs)" using key [OF last_in_set [OF ne] last] acyclic by simp
    show "\<forall>y \<in> set rs. ?unclaimed y \<longrightarrow> y = last recs"
    proof (intro ballI impI)
      fix y assume y: "y \<in> set rs" "?unclaimed y"
      then obtain h where h: "sr_hash y = Inr h" using linked_own_ok [OF f(4)] f(1) by blast
      with key [of y h] y f(1) have "Inr h \<notin> set (map sr_prev_hash recs)" by simp
      with linked_tail_unclaimed [OF f(4) _ h] y(1) f(1) show "y = last recs" by simp
    qed
  qed
  then have "map (\<lambda>r. lr_record_hash (sr_record r)) (filter ?unclaimed rs) =
      [lr_record_hash (sr_record (last recs))]"
    by simp
  then show ?thesis
    using sr_hash_text [OF last]
    by (simp add: head_query_def d row_of_record_def o_def filter_map)
qed

lemma as_str_image: "as_str h \<in> as_str ` S \<longleftrightarrow> h \<in> S"
  by (metis hash.expand image_iff)

lemma unclaimed_rows: "unclaimed_segments (map (segment_row_of E) hs) = header_heads hs"
proof -
  have "set (map sw_prev_segment_hash (map (segment_row_of E) hs)) =
      as_str ` set (map sh_prev_segment_hash hs)"
    by (auto simp: segment_row_of_def)
  then have "filter (\<lambda>s. sw_segment_hash s \<notin> set (map sw_prev_segment_hash (map (segment_row_of E) hs)))
      (map (segment_row_of E) hs) =
      map (segment_row_of E) (filter (\<lambda>h. sh_segment_hash h \<notin> set (map sh_prev_segment_hash hs)) hs)"
    by (simp only: filter_map o_def) (simp add: segment_row_of_def as_str_image del: set_map)
  then show ?thesis
    unfolding unclaimed_segments_def header_heads_def by (simp only:) (simp add: segment_row_of_def)
qed

lemma hash_ok_parent: "sr_prev_hash r = Inr h \<Longrightarrow> hash_ok h"
  by (auto simp: sr_prev_hash_def dest: hash_parse_gives_ok)

lemma hash_ok_own: "sr_hash r = Inr h \<Longrightarrow> hash_ok h"
  by (auto simp: sr_hash_def dest: hash_parse_gives_ok)

lemma root_ok: "chain_is E gp d segs recs \<Longrightarrow> hash_ok (root_after gp segs)"
  by (auto simp: chain_is_def root_after_def header_ok_def)

lemma chain_end_ok:
  assumes "chain_is E gp d segs recs"
  shows "hash_ok (chain_end sr_hash (root_after gp segs) recs)"
proof (cases "recs = []")
  case True
  with root_ok [OF assms] show ?thesis by simp
next
  case False
  with chain_end_last [OF chain_is_linked [OF assms]] hash_ok_own show ?thesis by blast
qed

text \<open>In a store that answers, the head is the end of the chain.\<close>

lemma head_quiet:
  assumes "chain_is E (l_genesis_parent L) (c_db s) segs recs"
  shows "\<exists>n. ledger_head quiet L s =
     (Inr (chain_end sr_hash (root_after (l_genesis_parent L) segs) recs), s\<lparr>c_clock := n\<rparr>)"
proof -
  let ?gp = "l_genesis_parent L"
  from assms obtain hs rs where
    hs: "kernel_segments (c_db s) = map (segment_row_of E) hs" "order_segments ?gp hs = Inr segs"
    and rs: "kernel_decisions (c_db s) = map (row_of_record E) rs"
      "order_chain (root_after ?gp segs) rs = Inr recs"
    and ok: "\<forall>h \<in> set segs. header_ok h"
    and ac: "segs \<noteq> [] \<longrightarrow> sh_segment_hash (last segs) \<notin> set (map sh_prev_segment_hash segs)"
      "recs \<noteq> [] \<longrightarrow> Inr (chain_end sr_hash (root_after ?gp segs) recs) \<notin> set (map sr_prev_hash recs)"
    by (auto simp: chain_is_def)
  show ?thesis
  proof (cases "recs = []")
    case False
    with ac(2) head_query_last [OF rs(2) False _ rs(1)]
    have "head_query (c_db s) = [as_str (chain_end sr_hash (root_after ?gp segs) recs)]" by simp
    then show ?thesis
      using chain_end_ok [OF assms]
      by (auto simp: ledger_head_def quiet_query)
  next
    case True
    with rs order_chain_Nil_iff have "rs = []" by blast
    with rs(1) have nil: "kernel_decisions (c_db s) = []" by simp
    have "root_of_rows L (segment_root_census_query (c_db s)) = Inr (root_after ?gp segs)"
      using chain_is_root [OF hs(2) ok ac(1)]
      by (simp add: root_of_rows_def segment_root_census_query_def hs(1) unclaimed_rows)
    then show ?thesis
      using nil True
      by (auto simp: ledger_head_def quiet_query head_query_def ledger_count_def count_query_def
          read_count_def resident_root_def)
  qed
qed

section \<open>An append\<close>

lemma append_chain:
  assumes c: "chain_is E gp d segs recs"
    and par: "sr_prev_hash r = Inr (chain_end sr_hash (root_after gp segs) recs)"
    and own: "sr_hash r = Inr h"
    and fresh: "Inr h \<notin> set (map sr_prev_hash (recs @ [r]))"
    and d': "kernel_decisions d' = kernel_decisions d @ [row_of_record E r]"
      "kernel_segments d' = kernel_segments d"
  shows "chain_is E gp d' segs (recs @ [r])"
proof -
  from c obtain hs rs where
    hs: "kernel_segments d = map (segment_row_of E) hs" "order_segments gp hs = Inr segs"
    and rs: "kernel_decisions d = map (row_of_record E) rs" "order_chain (root_after gp segs) rs = Inr recs"
    by (auto simp: chain_is_def)
  note f = order_chain_facts [OF rs(2)]
  let ?e = "chain_end sr_hash (root_after gp segs) recs"
  have notin: "Inr ?e \<notin> set (map sr_prev_hash rs)"
  proof (cases "recs = []")
    case True
    with rs(2) order_chain_Nil_iff show ?thesis by auto
  next
    case False
    with c f(1) show ?thesis by (auto simp: chain_is_def)
  qed
  have "order_chain (root_after gp segs) (rs @ [r]) = Inr (recs @ [r])"
    using f par own notin by (simp add: chain_order.order_iff linked_append_iff)
  moreover have "chain_end sr_hash (root_after gp segs) (recs @ [r]) = h"
    using own chain_end_append [OF f(4), of "[r]"] by simp
  moreover have "kernel_decisions d' = map (row_of_record E) (rs @ [r])"
    using d'(1) rs(1) by simp
  ultimately show ?thesis
    using c hs d'(2) fresh unfolding chain_is_def by metis
qed

lemma append_history:
  assumes c: "chain_history E gp d A H" and own: "sr_hash r = Inr h"
    and par: "sr_prev_hash r = Inr (chain_end sr_hash gp H)"
    and fresh: "Inr h \<notin> set (map sr_prev_hash (H @ [r]))"
    and d': "kernel_decisions d' = kernel_decisions d @ [row_of_record E r]"
      "kernel_segments d' = kernel_segments d"
  shows "chain_history E gp d' A (H @ [r])"
proof -
  from c obtain bodies recs where
    b: "chain_is E gp d (map sg_header bodies) recs"
      "\<forall>b \<in> set bodies. body_in E A b \<and> segment_verify E b = Inr ()"
      "chain_end sr_hash gp (history bodies) = root_after gp (map sg_header bodies)"
      "linked sr_prev_hash sr_hash gp (history bodies)" "H = history bodies @ recs"
    by (auto simp: chain_history_def chain_parts_def)
  have e: "chain_end sr_hash gp H =
      chain_end sr_hash (root_after gp (map sg_header bodies)) recs"
    using b(3,5) chain_end_append [OF b(4), of recs] by simp
  have "chain_is E gp d' (map sg_header bodies) (recs @ [r])"
    using append_chain [OF b(1) par [unfolded e] own _ d'] fresh b(5) by simp
  with b show ?thesis
    unfolding chain_history_def chain_parts_def
    by (intro exI [of _ bodies] exI [of _ "recs @ [r]"]) simp
qed

section \<open>A seal\<close>

lemma exec_accounting_frame:
  assumes "exec s d = Some (d', n)"
    "s = StampIdentity seg i rh \<or> s = UpsertIdentity i dg rh seg \<or> s = InsertCollision i rh seg dg"
  shows "kernel_decisions d' = kernel_decisions d \<and> kernel_segments d' = kernel_segments d"
  using assms by (auto simp: stamp_identity_def split: if_splits)

lemma accounting_of_frame:
  assumes "txn (accounting_of seg a) d = Some (d', ns)"
  shows "kernel_decisions d' = kernel_decisions d \<and> kernel_segments d' = kernel_segments d"
proof -
  from assms obtain d1 n1 d2 n2 n3 where
    "exec (StampIdentity seg (ac_id a) (as_str (ac_record_hash a))) d = Some (d1, n1)"
    "exec (UpsertIdentity (ac_id a) (as_str (ac_identity_digest a)) (as_str (ac_record_hash a)) seg) d1
       = Some (d2, n2)"
    "exec (InsertCollision (ac_id a) (as_str (ac_record_hash a)) seg (as_str (ac_identity_digest a))) d2
       = Some (d', n3)"
    by (auto simp: accounting_of_def simp del: exec.simps split: option.splits prod.splits)
  with exec_accounting_frame show ?thesis by metis
qed

lemma accounting_frame:
  assumes "txn (accounting_statements accs seg) d = Some (d', ns)"
  shows "kernel_decisions d' = kernel_decisions d \<and> kernel_segments d' = kernel_segments d"
proof -
  have *: "txn (concat (map (accounting_of sg) as)) d = Some (d1, ms) \<Longrightarrow>
      kernel_decisions d1 = kernel_decisions d \<and> kernel_segments d1 = kernel_segments d"
    for sg as d d1 ms
  proof (induction as arbitrary: d ms)
    case Nil
    then show ?case by simp
  next
    case (Cons a as)
    then obtain e n n' where "txn (accounting_of sg a) d = Some (e, n)"
        "txn (concat (map (accounting_of sg) as)) e = Some (d1, n')"
      by (auto simp: txn_append split: option.splits prod.splits)
    with Cons.IH [of e n'] accounting_of_frame [of sg a d e n] show ?case by simp
  qed
  from assms obtain d1 ms where
    "txn (concat (map (accounting_of (as_str seg)) accs)) d = Some (d1, ms)"
    "kernel_decisions d' = kernel_decisions d1" "kernel_segments d' = kernel_segments d1"
    by (auto simp: accounting_statements_eq)
  with * show ?thesis by simp
qed

lemma seal_txn_split:
  assumes "txn (seal_statements E s accs) d = Some (d', ns)"
  shows "\<exists>d1 ms. d1 = d\<lparr>kernel_segments := kernel_segments d @ [segment_row_of E (sg_header s)],
      kernel_decisions := filter (\<lambda>r. dr_id r \<notin> set (map (\<lambda>r. lr_id (sr_record r)) (sg_records s)))
        (kernel_decisions d)\<rparr> \<and>
     as_str (sh_segment_hash (sg_header s)) \<notin> set (map sw_segment_hash (kernel_segments d)) \<and>
     as_str (sh_prev_segment_hash (sg_header s)) \<notin> set (map sw_prev_segment_hash (kernel_segments d)) \<and>
     txn (accounting_statements accs (sh_segment_hash (sg_header s))) d1 = Some (d', ms)"
  using assms
  by (auto simp: seal_statements_def insert_segment_def delete_records_def segment_row_of_def
      split: if_splits option.splits prod.splits)

lemma seal_txn_tables:
  assumes "txn (seal_statements E s accs) d = Some (d', ns)"
  shows "kernel_segments d' = kernel_segments d @ [segment_row_of E (sg_header s)] \<and>
     kernel_decisions d' = filter (\<lambda>r. dr_id r \<notin> set (map (\<lambda>r. lr_id (sr_record r)) (sg_records s)))
       (kernel_decisions d) \<and>
     as_str (sh_prev_segment_hash (sg_header s)) \<notin> set (map sw_prev_segment_hash (kernel_segments d))"
  using seal_txn_split [OF assms] accounting_frame by fastforce

lemma filter_take_drop:
  assumes "distinct (map f xs)"
  shows "filter (\<lambda>x. f x \<notin> f ` set (take n xs)) xs = drop n xs"
proof -
  have d: "distinct (map f (take n xs) @ map f (drop n xs))"
    using assms by (metis append_take_drop_id map_append)
  then have "filter (\<lambda>x. f x \<notin> f ` set (take n xs)) (drop n xs) = drop n xs"
    by (intro filter_True) auto
  moreover have "filter (\<lambda>x. f x \<notin> f ` set (take n xs)) (take n xs) = []"
    by (simp add: filter_empty_conv)
  ultimately show ?thesis
    by (metis append_Nil append_take_drop_id filter_append)
qed

lemma mset_filter_eq: "mset xs = mset ys \<Longrightarrow> mset (filter P xs) = mset (filter P ys)"
  by (simp add: mset_filter)

lemma seal_chain:
  assumes c: "chain_is E gp d segs recs" and db: "db_ok d"
    and n: "n < length recs" "sg_records s = take n recs" "sg_records s \<noteq> []"
    and h: "header_ok (sg_header s)"
      "sh_prev_segment_hash (sg_header s) = (if segs = [] then gp else sh_segment_hash (last segs))"
      "sr_hash (last (take n recs)) = Inr (sh_last_hash (sg_header s))"
    and fresh: "sh_segment_hash (sg_header s) \<notin>
      set (map sh_prev_segment_hash (segs @ [sg_header s]))"
    and t: "txn (seal_statements E s accs) d = Some (d', ns)"
  shows "chain_is E gp d' (segs @ [sg_header s]) (drop n recs)"
proof -
  let ?h = "sg_header s" and ?id = "\<lambda>r. lr_id (sr_record r)"
  from c obtain hs rs where
    hs: "kernel_segments d = map (segment_row_of E) hs" "order_segments gp hs = Inr segs"
    and rs: "kernel_decisions d = map (row_of_record E) rs" "order_chain (root_after gp segs) rs = Inr recs"
    by (auto simp: chain_is_def)
  note f = order_chain_facts [OF rs(2)] and tt = seal_txn_tables [OF t]
  have seg': "kernel_segments d' = map (segment_row_of E) (hs @ [?h])"
    using tt hs(1) by simp
  have dec': "kernel_decisions d' = map (row_of_record E) (filter (\<lambda>r. ?id r \<notin> ?id ` set (take n recs)) rs)"
    using tt rs(1) n(2) by (simp add: row_of_record_def filter_map o_def)
  have lseg: "linked (\<lambda>h. Inr (sh_prev_segment_hash h)) (\<lambda>h. Inr (sh_segment_hash h)) gp segs"
    using hs(2) by (simp add: segment_order.order_iff)
  have send: "chain_end (\<lambda>h. Inr (sh_segment_hash h)) gp segs = sh_prev_segment_hash ?h"
  proof (cases "segs = []")
    case False
    from chain_end_last [OF lseg False] h(2) False show ?thesis by simp
  qed (use h(2) in simp)
  have "sh_prev_segment_hash ?h \<notin> set (map sh_prev_segment_hash hs)"
    using tt hs(1) by (auto simp: segment_row_of_def)
  then have os: "order_segments gp (hs @ [?h]) = Inr (segs @ [?h])"
    using hs(2) send by (auto simp: segment_order.order_iff linked_append_iff)
  have lt: "linked sr_prev_hash sr_hash (root_after gp segs) (take n recs @ drop n recs)"
    using f(4) by simp
  have tne: "take n recs \<noteq> []" using n(2,3) by simp
  have tl: "linked sr_prev_hash sr_hash (root_after gp segs) (take n recs)"
      "linked sr_prev_hash sr_hash (chain_end sr_hash (root_after gp segs) (take n recs)) (drop n recs)"
    using lt unfolding linked_append_iff by simp_all
  have tend: "chain_end sr_hash (root_after gp segs) (take n recs) = sh_last_hash ?h"
    using chain_end_last [OF tl(1) tne] h(3) by simp
  have "distinct (map ?id rs)" using db rs(1) by (simp add: db_ok_def row_of_record_def o_def)
  then have "distinct (map ?id recs)"
    using mset_eq_imp_distinct_iff [of "map ?id rs" "map ?id recs"] f(3) by simp
  then have dr: "filter (\<lambda>r. ?id r \<notin> ?id ` set (take n recs)) recs = drop n recs"
    by (rule filter_take_drop)
  have fd: "mset (filter (\<lambda>r. ?id r \<notin> ?id ` set (take n recs)) rs) = mset (drop n recs)"
    unfolding mset_filter_eq [OF f(3)] dr ..
  have oc: "order_chain (root_after gp (segs @ [?h])) (filter (\<lambda>r. ?id r \<notin> ?id ` set (take n recs)) rs)
      = Inr (drop n recs)"
    using fd tl(2) tend f(5) by (simp add: chain_order.order_iff root_after_def distinct_map_filter)
  have ce: "chain_end sr_hash (root_after gp segs) recs =
      chain_end sr_hash (root_after gp (segs @ [?h])) (drop n recs)"
    using chain_end_append [OF tl(1), of "drop n recs"] tend by (simp add: root_after_def)
  have ac: "Inr (chain_end sr_hash (root_after gp (segs @ [?h])) (drop n recs)) \<notin>
      set (map sr_prev_hash (drop n recs))"
    using c n(1) ce set_drop_subset [of n recs] by (auto simp: chain_is_def)
  show ?thesis
    unfolding chain_is_def
  proof (intro conjI exI)
    show "kernel_segments d' = map (segment_row_of E) (hs @ [?h])" by (rule seg')
    show "order_segments gp (hs @ [?h]) = Inr (segs @ [?h])" by (rule os)
  qed (use dec' oc c h(1) fresh ac in \<open>auto simp: chain_is_def\<close>)
qed

text \<open>The seal of a segment built from the oldest run, with its body durable, moves it and loses nothing.\<close>

lemma seal_parts:
  assumes c: "chain_parts E gp d A bodies recs" and db: "db_ok d"
    and A: "objects_le A A'" "body_in E A' s" and ver: "segment_verify E s = Inr ()"
    and n: "n < length recs" "sg_records s = take n recs"
    and h: "header_ok (sg_header s)" "sh_prev_segment_hash (sg_header s) =
        (if bodies = [] then gp else sh_segment_hash (sg_header (last bodies)))"
    and fresh: "sh_segment_hash (sg_header s) \<notin>
      set (map sh_prev_segment_hash (map sg_header (bodies @ [s])))"
    and t: "txn (seal_statements E s accs) d = Some (d', ns)"
  shows "chain_parts E gp d' A' (bodies @ [s]) (drop n recs) \<and>
     history (bodies @ [s]) @ drop n recs = history bodies @ recs"
proof -
  let ?segs = "map sg_header bodies"
  from c have ci: "chain_is E gp d ?segs recs"
    and bi: "\<forall>b \<in> set bodies. body_in E A b \<and> segment_verify E b = Inr ()"
    and lk: "linked sr_prev_hash sr_hash gp (history bodies)"
      "chain_end sr_hash gp (history bodies) = root_after gp ?segs"
    by (auto simp: chain_parts_def)
  have ne: "sg_records s \<noteq> []" and lh: "sr_hash (last (take n recs)) = Inr (sh_last_hash (sg_header s))"
    using ver n(2) by (simp_all add: segment_verify_Inr_iff)
  have prev: "sh_prev_segment_hash (sg_header s) = (if ?segs = [] then gp else sh_segment_hash (last ?segs))"
    using h(2) by (cases "bodies = []") (simp_all add: last_map)
  have ci': "chain_is E gp d' (map sg_header (bodies @ [s])) (drop n recs)"
    using seal_chain [OF ci db n ne h(1) prev lh _ t] fresh
    unfolding map_append list.map by blast
  have "linked sr_prev_hash sr_hash (root_after gp ?segs) (take n recs @ drop n recs)"
    using chain_is_linked [OF ci] by simp
  then have tl: "linked sr_prev_hash sr_hash (root_after gp ?segs) (take n recs)"
    unfolding linked_append_iff by simp
  then have te: "chain_end sr_hash (root_after gp ?segs) (take n recs) = sh_last_hash (sg_header s)"
    using chain_end_last ne n(2) lh by fastforce
  have "linked sr_prev_hash sr_hash gp (history (bodies @ [s]))"
    "chain_end sr_hash gp (history (bodies @ [s])) = root_after gp (map sg_header (bodies @ [s]))"
    using lk tl te n(2) by (simp_all add: history_snoc linked_append_iff chain_end_append root_after_def)
  moreover have "\<forall>b \<in> set (bodies @ [s]). body_in E A' b \<and> segment_verify E b = Inr ()"
    using bi A(2) ver body_in_le [OF _ A(1)] by auto
  ultimately show ?thesis
    using ci' n(2) by (simp add: chain_parts_def history_snoc)
qed

end
