(* ===== verification/Seal_Runs.thy ===== *)
theory Seal_Runs
  imports Chain_History
begin

text \<open>
  The operations against a store that answers: verification accepts exactly the chains it should, an
  append lands its decision at the head, and a seal moves the oldest run without changing the
  history. The guarantee locale is interpreted a second time, on leaving the store as it is.
\<close>

definition same_store :: "'b cell \<Rightarrow> 'b cell \<Rightarrow> bool" where
  "same_store s t \<longleftrightarrow> c_db t = c_db s \<and> c_objects t = c_objects s"

interpretation frozen: guarantee same_store
  by unfold_locales (auto simp: same_store_def)

lemma frozen_query: "frozen.keeps (query_consistent quiet q)"
  by (auto intro!: frozen.keepsI simp: quiet_query same_store_def)

lemma frozen_get: "frozen.keeps (get_object quiet k)"
  by (auto intro!: frozen.keepsI simp: get_object_def quiet_tick same_store_def)

lemma frozen_read: "frozen.keeps read_verdict"
  by (auto intro!: frozen.keepsI simp: same_store_def)

lemma frozen_write: "frozen.keeps (write_verdict v)"
  by (auto intro!: frozen.keepsI simp: same_store_def)

lemmas frozen_ops =
  frozen.keeps_pure frozen.keeps_bind frozen.keeps_on_result frozen_query frozen_get frozen_read
  frozen_write

lemma frozen_hash_of: "frozen.keeps (hash_of quiet i)"
  unfolding hash_of_def by (auto intro!: frozen_ops split: list.split)

lemma frozen_genesis: "frozen.keeps (genesis_record_hash quiet L)"
  unfolding genesis_record_hash_def
  by (auto intro!: frozen_ops frozen_hash_of split: list.split option.split)

lemma frozen_epoch: "frozen.keeps (epoch_at_tail E quiet L sealed recs)"
  unfolding epoch_at_tail_def epoch_before_def
  by (auto intro!: frozen_ops frozen_genesis split: option.split)

lemma frozen_seal_segment: "frozen.keeps (seal_segment E quiet L sealed recs)"
  unfolding seal_segment_def Let_def by (auto intro!: frozen_ops frozen_epoch)

lemma frozen_stamped: "frozen.keeps (stamped_of quiet h)"
  unfolding stamped_of_def by (auto intro!: frozen_ops)

lemma frozen_note: "frozen.keeps (note_unstamped_writer out)"
  unfolding note_unstamped_writer_def by (auto intro!: frozen_ops)

lemma quiet_txn:
  "stmts \<noteq> [] \<Longrightarrow> txn stmts (c_db s) = Some (d, ns) \<Longrightarrow>
     store_txn quiet stmts s = (Inr ns, s\<lparr>c_clock := Suc (c_clock s), c_db := d\<rparr>)"
  by (simp add: store_txn_def quiet_tick)

section \<open>Reading the chain\<close>

definition opened_by :: "ledger \<Rightarrow> segment list \<Rightarrow> signed_record list \<Rightarrow> bool" where
  "opened_by L bodies recs \<longleftrightarrow>
     (l_opened_sealed L \<longrightarrow> bodies \<noteq> []) \<and> (l_opened_resident L \<longrightarrow> recs \<noteq> [])"

lemma snapshot_quiet:
  assumes "codecs_ok E" "chain_parts E (l_genesis_parent L) (c_db s) A bodies recs"
    "opened_by L bodies recs"
  shows "chain_snapshot E quiet L s =
     (Inr \<lparr>cs_segments = map sg_header bodies,
           cs_root = root_after (l_genesis_parent L) (map sg_header bodies), cs_records = recs\<rparr>,
      s\<lparr>c_clock := Suc (c_clock s)\<rparr>)"
  using chain_is_snapshot [of E L "c_db s" "map sg_header bodies" recs] assms
  by (simp add: chain_snapshot_def quiet_query chain_parts_def opened_by_def)

lemma records_quiet:
  assumes "codecs_ok E" "chain_parts E (l_genesis_parent L) (c_db s) A bodies recs"
    "opened_by L bodies recs"
  shows "ledger_records E quiet L s = (Inr recs, s\<lparr>c_clock := Suc (c_clock s)\<rparr>)"
  using snapshot_quiet [OF assms] by (simp add: ledger_records_def)

lemma segments_quiet:
  assumes "codecs_ok E" "chain_is E (l_genesis_parent L) (c_db s) segs recs"
  shows "ledger_segments E quiet L s = (Inr segs, s\<lparr>c_clock := Suc (c_clock s)\<rparr>)"
proof -
  from assms(2) obtain hs where hs: "kernel_segments (c_db s) = map (segment_row_of E) hs"
      "order_segments (l_genesis_parent L) hs = Inr segs" "\<forall>h \<in> set segs. header_ok h"
    by (auto simp: chain_is_def)
  have "try_map (into_header E) (kernel_segments (c_db s)) = Inr hs"
    using headers_parse [OF assms(1), of hs] hs segment_order.order_set [OF hs(2)] by simp
  then have "segments_of_rows E L (segments_census_query (c_db s)) = Inr segs"
    using hs(1,2) by (simp add: segments_of_rows_def segments_census_query_def del: map_map)
  then show ?thesis by (simp add: ledger_segments_def quiet_query)
qed

lemma count_quiet:
  assumes "chain_parts E gp (c_db s) A bodies recs"
  shows "ledger_count quiet s = (Inr (length recs), s\<lparr>c_clock := Suc (c_clock s)\<rparr>)"
proof -
  from assms obtain rs where rs: "kernel_decisions (c_db s) = map (row_of_record E) rs"
      "order_chain (root_after gp (map sg_header bodies)) rs = Inr recs"
    by (auto simp: chain_parts_def chain_is_def)
  have "length (kernel_decisions (c_db s)) = length recs"
    using mset_eq_length [OF order_chain_facts(3) [OF rs(2)]] rs(1) by simp
  then show ?thesis
    by (simp add: ledger_count_def quiet_query obind_def on_result_def count_query_def read_count_def)
qed

lemma chain_parts_le:
  assumes "chain_parts E gp d A bodies recs" "objects_le A B"
  shows "chain_parts E gp d B bodies recs"
  using assms body_in_le [of E A _ B] by (auto simp: chain_parts_def)

section \<open>Verification is complete\<close>

definition good_records :: "'b env \<Rightarrow> ledger \<Rightarrow> signed_record list \<Rightarrow> bool" where
  "good_records E L rs \<longleftrightarrow> (\<forall>r \<in> set rs. self_hashed E r \<and> record_good E (l_verifier E L) r)"

lemma verify_bodies_complete:
  assumes env: "env_ok E"
  shows "\<forall>b \<in> set bodies. body_in E (c_objects s) b \<and> segment_verify E b = Inr () \<Longrightarrow>
     linked sr_prev_hash sr_hash parent (history bodies) \<Longrightarrow> hash_ok parent \<Longrightarrow>
     good_records E L (history bodies) \<Longrightarrow>
     \<exists>n. verify_segment_bodies E quiet L parent (map sg_header bodies) s = (Inr (), s\<lparr>c_clock := n\<rparr>)"
proof (induction bodies arbitrary: parent s)
  case Nil
  then show ?case by (auto intro: exI [of _ "c_clock s"])
next
  case (Cons b bs)
  have hist: "history (b # bs) = sg_records b @ history bs" by (simp add: history_def)
  have l: "linked sr_prev_hash sr_hash parent (sg_records b)"
      "linked sr_prev_hash sr_hash (chain_end sr_hash parent (sg_records b)) (history bs)"
    using Cons.prems(2) unfolding hist linked_append_iff by simp_all
  have sv: "segment_verify E b = Inr ()" using Cons.prems(1) by simp
  have g: "good_records E L (sg_records b)" "good_records E L (history bs)"
    using Cons.prems(4) by (auto simp: hist good_records_def)
  have v: "verify_segment E parent b (l_verifier E L) = Inr ()"
    using verify_segment_iff [OF env_okD(1,3) [OF env] Cons.prems(3)] sv l(1) g(1)
    by (simp add: good_records_def)
  have e: "chain_end sr_hash parent (sg_records b) = sh_last_hash (sg_header b)"
    using verify_segment_end [OF env_okD(1,3) [OF env] Cons.prems(3) v] .
  have ok: "hash_ok (sh_last_hash (sg_header b))"
    using sv hash_ok_own by (auto simp: segment_verify_Inr_iff)
  obtain bytes where get: "archive_get False (header_key (sg_header b)) (c_objects s) = Inr bytes"
      "segment_of_text E bytes = Inr b"
    using Cons.prems(1) by (auto simp: body_in_def fetch_segment_Inr_iff)
  let ?s = "s\<lparr>c_clock := Suc (c_clock s)\<rparr>"
  obtain n where "verify_segment_bodies E quiet L (sh_last_hash (sg_header b)) (map sg_header bs) ?s
      = (Inr (), ?s\<lparr>c_clock := n\<rparr>)"
    using Cons.IH [of ?s] Cons.prems(1) l(2) e ok g(2) by auto
  then show ?case
    using get v by (auto simp: get_object_def quiet_tick segment_from_bytes_def map_err_def obind_def
        on_result_def)
qed

theorem verification_complete:
  assumes env: "codecs_ok E"
    and c: "chain_parts E (l_genesis_parent L) (c_db s) (c_objects s) bodies recs"
    and op: "opened_by L bodies recs" and ne: "recs \<noteq> []"
    and g: "good_records E L (history bodies @ recs)"
  shows "\<exists>n. verify_chain_witnessed E quiet L Full_Depth s =
     (Inr (True, bodies \<noteq> []), s\<lparr>c_clock := n\<rparr>)"
proof -
  let ?gp = "l_genesis_parent L" and ?s = "s\<lparr>c_clock := Suc (c_clock s)\<rparr>"
  have eo: "env_ok E" using env by (simp add: codecs_ok_def)
  from c have ci: "chain_is E ?gp (c_db s) (map sg_header bodies) recs"
    and b: "\<forall>b \<in> set bodies. body_in E (c_objects s) b \<and> segment_verify E b = Inr ()"
    and l: "linked sr_prev_hash sr_hash ?gp (history bodies)"
    by (auto simp: chain_parts_def)
  have gp: "hash_ok ?gp" using ci by (simp add: chain_is_def)
  have g2: "good_records E L (history bodies)" "good_records E L recs"
    using g by (auto simp: good_records_def)
  have vc: "verify_chain E (root_after ?gp (map sg_header bodies)) recs (l_verifier E L) = Inr ()"
    using verify_chain_iff [OF env_okD(1,3) [OF eo] root_ok [OF ci]] ne chain_is_linked [OF ci] g2(2)
    by (simp add: good_records_def)
  obtain n where vb: "verify_segment_bodies E quiet L ?gp (map sg_header bodies) ?s
      = (Inr (), ?s\<lparr>c_clock := n\<rparr>)"
    using verify_bodies_complete [OF eo, of bodies ?s ?gp L] b l gp g2(1) by auto
  show ?thesis
    using snapshot_quiet [OF env c op] vc vb ne
    by (auto simp: verify_chain_witnessed_def obind_def on_result_def)
qed

section \<open>An append lands at the head\<close>

definition unused :: "decision_id \<Rightarrow> 'b db \<Rightarrow> bool" where
  "unused i d \<longleftrightarrow> i \<notin> set (map dr_id (kernel_decisions d)) \<and> i \<notin> set (map ir_id (kernel_identity d))"

definition record_at :: "'b env \<Rightarrow> ledger \<Rightarrow> decision \<Rightarrow> hash \<Rightarrow> signed_record" where
  "record_at E L d parent = signed_build E (d\<lparr>d_prev_hash := parent\<rparr>) (l_signer L)"

definition record_hash_at :: "'b env \<Rightarrow> decision \<Rightarrow> hash \<Rightarrow> hash" where
  "record_hash_at E d parent = Hash (compute_record_hash E (envelope_of (d\<lparr>d_prev_hash := parent\<rparr>)))"

text \<open>A record the cell builds passes every check of a verification under the cell's key.\<close>

lemma record_at_good:
  assumes env: "env_ok E" and d: "decision_ok E d"
  shows "self_hashed E (record_at E L d parent) \<and> record_good E (l_verifier E L) (record_at E L d parent)"
proof -
  let ?d = "d\<lparr>d_prev_hash := parent\<rparr>"
  have "canonicalize_value E (d_payload ?d) = d_payload ?d" using d by (simp add: decision_ok_def)
  from signed_build_decision [OF env_okD(4) [OF env] this, of "l_signer L"]
    signed_build_signature [OF env_okD(9) [OF env], of "l_signer L" ?d]
    signed_build_hash(2) [OF env_okD(1,2) [OF env], of ?d "l_signer L"]
  show ?thesis by (simp add: self_hashed_def record_good_def record_at_def l_verifier_def)
qed

lemma parents_of_rows:
  assumes "order_chain p rs = Inr recs" "Inr e \<notin> set (map sr_prev_hash recs)"
    "kernel_decisions d = map (row_of_record E) rs"
  shows "as_str e \<notin> set (map dr_prev_hash (kernel_decisions d))"
proof
  assume "as_str e \<in> set (map dr_prev_hash (kernel_decisions d))"
  then obtain r where r: "r \<in> set recs" "lr_previous_record_hash (sr_record r) = as_str e"
    using assms(3) order_chain_facts(1) [OF assms(1)] by (auto simp: row_of_record_def)
  obtain k where "sr_prev_hash r = Inr k"
    using linked_par_ok [OF order_chain_facts(4) [OF assms(1)] r(1)] by auto
  with sr_prev_text [OF this] r have "sr_prev_hash r = Inr e" by (auto intro: hash.expand)
  with r(1) assms(2) show False by force
qed

lemma append_loop_first:
  assumes "append_attempt E W L d dg s = (Inr (Some r), t)"
  shows "append_loop E W L d dg g s = (Inr r, t)"
proof -
  have n: "APPEND_ATTEMPTS = Suc 11" by (simp add: APPEND_ATTEMPTS_def)
  show ?thesis
    unfolding append_loop_def n append_from.simps
    using assms by (simp add: n obind_def on_result_def)
qed

theorem append_at_head:
  assumes env: "codecs_ok E" and d: "decision_ok E d" "d_id d \<noteq> []" and rep: "\<not> l_repair L"
    and c: "chain_history E (l_genesis_parent L) (c_db s) (c_objects s) H"
    and v: "cv_complete (c_verdict s)" and un: "unused (d_id d) (c_db s)"
    and parent: "parent = chain_end sr_hash (l_genesis_parent L) H"
    and fresh: "Inr (record_hash_at E d parent) \<notin> set (map sr_prev_hash (H @ [record_at E L d parent]))"
  shows "\<exists>t. append_reported E quiet L d s = (Inr (record_hash_at E d parent, True), t) \<and>
     chain_history E (l_genesis_parent L) (c_db t) (c_objects t) (H @ [record_at E L d parent])"
proof -
  let ?gp = "l_genesis_parent L" and ?r = "record_at E L d parent" and ?h = "record_hash_at E d parent"
  have eo: "env_ok E" using env by (simp add: codecs_ok_def)
  from c obtain bodies recs where
    p: "chain_parts E ?gp (c_db s) (c_objects s) bodies recs" and H: "H = history bodies @ recs"
    by (auto simp: chain_history_def)
  let ?segs = "map sg_header bodies"
  from p have ci: "chain_is E ?gp (c_db s) ?segs recs"
    and l: "linked sr_prev_hash sr_hash ?gp (history bodies)"
      "chain_end sr_hash ?gp (history bodies) = root_after ?gp ?segs"
    by (auto simp: chain_parts_def)
  have pe: "parent = chain_end sr_hash (root_after ?gp ?segs) recs"
    using parent H chain_end_append [OF l(1), of recs] l(2) by simp
  obtain n where head: "ledger_head quiet L s = (Inr parent, s\<lparr>c_clock := n\<rparr>)"
    using head_quiet [OF ci] pe by auto
  have pok: "hash_ok parent" using chain_end_ok [OF ci] pe by simp
  have rh: "sr_hash ?r = Inr ?h"
    using signed_build_hash(1) [OF env_okD(1,2) [OF eo]] by (simp add: record_at_def record_hash_at_def)
  have rp: "sr_prev_hash ?r = Inr parent" using pok by (simp add: record_at_def)
  obtain dg where dg: "identity_digest E d = Inr dg"
    using identity_digest_ok [OF env_okD(1) [OF eo]] by auto
  obtain acc where acc: "accounted_of E ?r = Inr acc" "ac_id acc = d_id d"
    using accounted_of_build [OF eo, of "d\<lparr>d_prev_hash := parent\<rparr>" dg "l_signer L"] dg d(1)
    by (auto simp: record_at_def decision_ok_def)
  from ci obtain rs where rs: "kernel_decisions (c_db s) = map (row_of_record E) rs"
      "order_chain (root_after ?gp ?segs) rs = Inr recs"
    by (auto simp: chain_is_def)
  have "Inr parent \<notin> set (map sr_prev_hash recs)"
    using ci pe by (cases "recs = []") (auto simp: chain_is_def)
  then have np: "as_str parent \<notin> set (map dr_prev_hash (kernel_decisions (c_db s)))"
    using parents_of_rows [OF rs(2) _ rs(1)] by blast
  have rf: "lr_id (sr_record ?r) = d_id d" "lr_previous_record_hash (sr_record ?r) = as_str parent"
    by (simp_all add: record_at_def)
  define d' where "d' = (c_db s)\<lparr>kernel_decisions := kernel_decisions (c_db s) @ [row_of_record E ?r],
      kernel_identity := kernel_identity (c_db s) @
        [\<lparr>ir_id = ac_id acc, ir_identity_digest = as_str (ac_identity_digest acc),
          ir_record_hash = as_str (ac_record_hash acc), ir_segment_hash = None\<rparr>]\<rparr>"
  have tx: "txn (append_statements E ?r acc) (c_db (s\<lparr>c_clock := n\<rparr>)) = Some (d', [1, 1])"
    using un np acc(2) rf by (simp add: append_txn_iff d'_def unused_def)
  have sent: "store_txn quiet (append_statements E ?r acc) (s\<lparr>c_clock := n\<rparr>) =
      (Inr [1, 1], s\<lparr>c_clock := Suc n, c_db := d'\<rparr>)"
    using quiet_txn [OF _ tx] by (simp add: append_statements_def)
  have at: "append_attempt E quiet L d dg s = (Inr (Some (?h, True)), s\<lparr>c_clock := Suc n, c_db := d'\<rparr>)"
    using head rh acc(1) sent unfolding record_at_def
    by (simp add: append_attempt_def Let_def on_result_def affected_one_def)
  have bs: "backstop quiet (d_id d) dg s = (Inr None, s)"
    using v by (simp add: backstop_def obind_def on_result_def)
  have "append_reported E quiet L d s = (Inr (?h, True), s\<lparr>c_clock := Suc n, c_db := d'\<rparr>)"
    using d(2) rep dg bs append_loop_first [OF at, of Backstopped]
    by (simp add: append_reported_def obind_def on_result_def)
  moreover have "chain_history E ?gp d' (c_objects s) (H @ [?r])"
    using append_history [OF c rh _ fresh] rp parent by (simp add: d'_def)
  ultimately show ?thesis by auto
qed

text \<open>
  A seal against a store that answers: it never empties the hot table, it leaves the history and the
  current manifest as they were, and a body that is already in the archive stops it for good.
\<close>

definition transition_hashes :: "'b env \<Rightarrow> bool" where
  "transition_hashes E \<longleftrightarrow> (\<forall>v t. transition_of_value E v = Inr t \<longrightarrow> hash_ok (mt_to t))"

lemma first_transition_ok:
  assumes "transition_hashes E"
  shows "first_transition E rs = Inr (Some t) \<Longrightarrow> hash_ok (mt_to t)"
  using assms
  by (induction rs)
    (auto simp: transition_of_def transition_of_decision_def transition_hashes_def
      split: option.splits if_splits)

lemma manifest_at_tail_ok:
  "transition_hashes E \<Longrightarrow> hash_ok before \<Longrightarrow> manifest_at_tail E rs before = Inr m \<Longrightarrow> hash_ok m"
  by (auto simp: manifest_at_tail_def dest: first_transition_ok split: option.splits)

text \<open>What a seal names as current before its run.\<close>

definition manifest_before :: "hash \<Rightarrow> segment_header list \<Rightarrow> hash" where
  "manifest_before gp segs =
     (if segs = [] then gp
      else (case sh_current_manifest (last segs) of Some m \<Rightarrow> m | None \<Rightarrow> gp))"

definition previous_segment :: "hash \<Rightarrow> segment_header list \<Rightarrow> hash" where
  "previous_segment gp segs = (if segs = [] then gp else sh_segment_hash (last segs))"

lemma seal_segment_Inr:
  assumes "seal_segment E W L segs run s = (Inr seg, t)"
  shows "\<exists>m epoch s0. manifest_at_tail E run (manifest_before (l_genesis_parent L) segs) = Inr m \<and>
     segment_seal E (previous_segment (l_genesis_parent L) segs) run (Some m) = Inr s0 \<and>
     seg = with_current_epoch epoch s0"
  using assms
  by (auto simp: seal_segment_def Let_def obind_Inr_iff manifest_before_def previous_segment_def)

lemma sealed_segment_shape:
  assumes env: "env_ok E" "transition_hashes E"
    and s: "seal_segment E W L segs run s = (Inr seg, t)"
    and ok: "hash_ok (l_genesis_parent L)" "\<forall>h \<in> set segs. header_ok h"
  shows "sg_records seg = run \<and> segment_verify E seg = Inr () \<and> header_ok (sg_header seg) \<and>
     sh_prev_segment_hash (sg_header seg) = previous_segment (l_genesis_parent L) segs \<and>
     (\<exists>m. sh_current_manifest (sg_header seg) = Some m \<and>
        manifest_at_tail E run (manifest_before (l_genesis_parent L) segs) = Inr m)"
proof -
  from seal_segment_Inr [OF s] obtain m epoch s0 where
    m: "manifest_at_tail E run (manifest_before (l_genesis_parent L) segs) = Inr m"
    and s0: "segment_seal E (previous_segment (l_genesis_parent L) segs) run (Some m) = Inr s0"
    and seg: "seg = with_current_epoch epoch s0"
    by blast
  have "hash_ok (manifest_before (l_genesis_parent L) segs)"
    using ok by (auto simp: manifest_before_def header_ok_def split: option.splits)
  with manifest_at_tail_ok [OF env(2)] m have mok: "hash_ok m" by blast
  have pok: "hash_ok (previous_segment (l_genesis_parent L) segs)"
    using ok by (auto simp: previous_segment_def header_ok_def)
  have v: "segment_verify E seg = Inr ()"
    using seal_verifies [OF s0] seg by simp
  have "header_ok (sg_header s0)"
    using s0 mok pok segment_hash_ok [OF env_okD(1) [OF env(1)]] env_okD(1) [OF env(1)]
    by (auto simp: segment_seal_Inr_iff header_ok_def digests_ok_def hash_ok_def
        dest: hash_ok_own [unfolded hash_ok_def])
  then show ?thesis
    using v seg m s0
    by (auto simp: segment_seal_Inr_iff with_current_epoch_def header_ok_def)
qed

section \<open>What a seal commits\<close>

lemma seal_commit_quiet:
  assumes "seal_commit E quiet L seg s = (Inr (Some h), t)"
  shows "h = sg_header seg \<and> c_objects t = c_objects s \<and>
     (\<exists>accs ns. try_map (accounted_of E) (sg_records seg) = Inr accs \<and>
        txn (seal_statements E seg accs) (c_db s) = Some (c_db t, ns)) \<and>
     stamped_query (as_str (sh_segment_hash h)) (c_db t) = [int (sh_count h)]"
proof -
  from assms obtain accs ns u v w stamped where
    acc: "try_map (accounted_of E) (sg_records seg) = Inr accs"
    and tx: "store_txn quiet (seal_statements E seg accs) s = (Inr ns, u)"
    and nt: "note_unstamped_writer (accounting_read ns accs 2) u = (Inr (), v)"
    and st: "stamped_of quiet (sh_segment_hash (sg_header seg)) v = (Inr stamped, w)"
    and full: "accounted_fully (segment_key seg) stamped (sh_count (sg_header seg)) = Inr ()"
    and fin: "h = sg_header seg" "t = w"
    by (auto simp: seal_commit_def obind_Inr_iff split: if_splits)
  from tx obtain d where d: "txn (seal_statements E seg accs) (c_db s) = Some (d, ns)"
      "c_db u = d" "c_objects u = c_objects s"
    by (auto simp: store_txn_Inr_iff quiet_tick)
  have "same_store u v" using frozen.keepsD [OF frozen_note nt] .
  moreover have "same_store v w" using frozen.keepsD [OF frozen_stamped st] .
  ultimately have w: "c_db w = d" "c_db v = d" "c_objects w = c_objects s"
    using d by (simp_all add: same_store_def)
  have ne: "stamped_query (as_str (sh_segment_hash (sg_header seg))) d = [int (sh_count (sg_header seg))]"
  proof -
    from d(1) obtain d2 ms where "txn (accounting_statements accs (sh_segment_hash (sg_header seg))) d2
        = Some (d, ms)"
      using seal_txn_split by blast
    from accounting_counter [OF this] obtain n where
      n: "stamped_query (as_str (sh_segment_hash (sg_header seg))) d = [n]" by blast
    moreover have "stamped = n"
      using st w(2) n by (auto simp: stamped_of_def obind_def on_result_def quiet_query)
    ultimately show ?thesis using full by (simp add: accounted_fully_def)
  qed
  show ?thesis using acc d(1) fin w ne by auto
qed

text \<open>A seal that has something to do, after its reads.\<close>

lemma seal_too_short:
  assumes c: "chain_parts E (l_genesis_parent L) (c_db s) (c_objects s) bodies recs"
    and env: "codecs_ok E" and op: "opened_by L bodies recs"
    and n: "length recs \<le> sp_hot_window P \<or> length recs \<le> sp_segment_size P"
  shows "fst (seal_if_needed E quiet L P s) = Inr None"
proof -
  let ?s1 = "s\<lparr>c_clock := Suc (c_clock s)\<rparr>"
  have 1: "ledger_count quiet s = (Inr (length recs), ?s1)"
    using count_quiet [OF c] .
  have 2: "ledger_records E quiet L ?s1 = (Inr recs, s\<lparr>c_clock := Suc (Suc (c_clock s))\<rparr>)"
    using records_quiet [OF env, of L ?s1 "c_objects s" bodies recs] c op by simp
  show ?thesis
    using n by (auto simp: seal_if_needed_def obind_Inr [where m = "ledger_count quiet", OF 1]
        obind_Inr [where m = "ledger_records E quiet L", OF 2])
qed

lemma seal_unfold:
  assumes env: "codecs_ok E" and c: "chain_parts E (l_genesis_parent L) (c_db s) (c_objects s) bodies recs"
    and op: "opened_by L bodies recs"
    and n: "sp_hot_window P < length recs" "sp_segment_size P < length recs"
  shows "seal_if_needed E quiet L P s =
     obind (seal_segment E quiet L (map sg_header bodies) (take (sp_segment_size P) recs)) (\<lambda>seg.
       obind (put_object quiet (segment_key seg) (segment_to_bytes E seg)) (\<lambda>_.
       seal_commit E quiet L seg)) (s\<lparr>c_clock := Suc (Suc (Suc (c_clock s)))\<rparr>)"
proof -
  let ?segs = "map sg_header bodies" and ?run = "take (sp_segment_size P) recs"
  let ?s1 = "s\<lparr>c_clock := Suc (c_clock s)\<rparr>"
  let ?s2 = "s\<lparr>c_clock := Suc (Suc (c_clock s))\<rparr>"
  have ci: "chain_is E (l_genesis_parent L) (c_db s) ?segs recs" using c by (simp add: chain_parts_def)
  have 1: "ledger_count quiet s = (Inr (length recs), ?s1)" using count_quiet [OF c] .
  have 2: "ledger_records E quiet L ?s1 = (Inr recs, ?s2)"
    using records_quiet [OF env, of L ?s1 "c_objects s" bodies recs] c op by simp
  have 3: "ledger_segments E quiet L ?s2 = (Inr ?segs, s\<lparr>c_clock := Suc (Suc (Suc (c_clock s)))\<rparr>)"
    using segments_quiet [OF env, of L ?s2] ci by simp
  show ?thesis
    using n by (simp add: seal_if_needed_def obind_Inr [where m = "ledger_count quiet", OF 1]
        obind_Inr [where m = "ledger_records E quiet L", OF 2]
        obind_Inr [where m = "ledger_segments E quiet L", OF 3])
qed

text \<open>The result of a seal that returns a header, from the state it started in.\<close>

lemma seal_result:
  assumes env: "codecs_ok E" and c: "chain_parts E (l_genesis_parent L) (c_db s) (c_objects s) bodies recs"
    and op: "opened_by L bodies recs"
    and run: "seal_if_needed E quiet L P s = (Inr (Some h), t)"
  shows "\<exists>seg v accs ns. sp_segment_size P < length recs \<and> sp_hot_window P < length recs \<and>
     seal_segment E quiet L (map sg_header bodies) (take (sp_segment_size P) recs)
       (s\<lparr>c_clock := Suc (Suc (Suc (c_clock s)))\<rparr>) = (Inr seg, v) \<and>
     c_db v = c_db s \<and> h = sg_header seg \<and>
     archive_put None (segment_key seg) (segment_to_bytes E seg) (c_objects s) = (Inr (), c_objects t) \<and>
     txn (seal_statements E seg accs) (c_db s) = Some (c_db t, ns) \<and>
     stamped_query (as_str (sh_segment_hash h)) (c_db t) = [int (sh_count h)]"
proof -
  let ?segs = "map sg_header bodies" and ?run = "take (sp_segment_size P) recs"
  have len: "sp_hot_window P < length recs" "sp_segment_size P < length recs"
    using seal_too_short [OF c env op, of P] run by (metis fst_conv leI old.sum.inject(2) option.distinct(1))+
  have "obind (seal_segment E quiet L ?segs ?run) (\<lambda>seg.
      obind (put_object quiet (segment_key seg) (segment_to_bytes E seg)) (\<lambda>_.
      seal_commit E quiet L seg)) (s\<lparr>c_clock := Suc (Suc (Suc (c_clock s)))\<rparr>) = (Inr (Some h), t)"
    using run seal_unfold [OF env c op len] by simp
  then obtain seg v w where
    ss: "seal_segment E quiet L ?segs ?run (s\<lparr>c_clock := Suc (Suc (Suc (c_clock s)))\<rparr>) = (Inr seg, v)"
    and pt: "put_object quiet (segment_key seg) (segment_to_bytes E seg) v = (Inr (), w)"
    and cm: "seal_commit E quiet L seg w = (Inr (Some h), t)"
    by (auto simp: obind_Inr_iff)
  have sv: "c_db v = c_db s" "c_objects v = c_objects s"
    using frozen.keepsD [OF frozen_seal_segment ss] by (simp_all add: same_store_def)
  have pw: "archive_put None (segment_key seg) (segment_to_bytes E seg) (c_objects s) = (Inr (), c_objects w)"
      "c_db w = c_db s"
    using pt sv by (auto simp: put_object_def quiet_tick split: prod.splits)
  from seal_commit_quiet [OF cm] pw len ss sv show ?thesis by auto
qed

theorem seal_keeps_history:
  assumes env: "codecs_ok E" "transition_hashes E"
    and c: "chain_parts E (l_genesis_parent L) (c_db s) (c_objects s) bodies recs"
    and op: "opened_by L bodies recs" and db: "db_ok (c_db s)"
    and run: "seal_if_needed E quiet L P s = (Inr (Some h), t)"
    and fresh: "sh_segment_hash h \<notin> set (map sh_prev_segment_hash (map sg_header bodies @ [h]))"
  shows "\<exists>seg. sg_header seg = h \<and>
     chain_parts E (l_genesis_parent L) (c_db t) (c_objects t) (bodies @ [seg])
       (drop (sp_segment_size P) recs) \<and>
     history (bodies @ [seg]) @ drop (sp_segment_size P) recs = history bodies @ recs \<and>
     drop (sp_segment_size P) recs \<noteq> []"
proof -
  let ?gp = "l_genesis_parent L" and ?n = "sp_segment_size P"
  from seal_result [OF env(1) c op run] obtain seg v accs ns where
    n: "?n < length recs"
    and ss: "seal_segment E quiet L (map sg_header bodies) (take ?n recs)
      (s\<lparr>c_clock := Suc (Suc (Suc (c_clock s)))\<rparr>) = (Inr seg, v)"
    and h: "h = sg_header seg"
    and put: "archive_put None (segment_key seg) (segment_to_bytes E seg) (c_objects s) = (Inr (), c_objects t)"
    and tx: "txn (seal_statements E seg accs) (c_db s) = Some (c_db t, ns)"
    by blast
  have eo: "env_ok E" using env(1) by (simp add: codecs_ok_def)
  have ci: "chain_is E ?gp (c_db s) (map sg_header bodies) recs" using c by (simp add: chain_parts_def)
  have ok: "hash_ok ?gp" "\<forall>h \<in> set (map sg_header bodies). header_ok h"
    using ci by (auto simp: chain_is_def)
  note sh = sealed_segment_shape [OF eo env(2) ss ok]
  have prev: "sh_prev_segment_hash (sg_header seg) =
      (if bodies = [] then ?gp else sh_segment_hash (sg_header (last bodies)))"
    using sh by (simp add: previous_segment_def last_map)
  have "body_in E (c_objects t) seg"
    using fetch_after_put [OF env_okD(7) [OF eo] put] by (simp add: body_in_def)
  from seal_parts [OF c db archive_put_le [OF put] this _ n _ _ prev _ tx] sh fresh h n
  show ?thesis by (intro exI [of _ seg]) simp
qed

text \<open>The current manifest is answered alike before and after.\<close>

lemma seal_keeps_manifest_aux:
  assumes "first_transition E (rev xs) = Inr t0"
    "manifest_at_tail E xs before = Inr m"
  shows "manifest_at_tail E (xs @ ys) before = manifest_at_tail E ys m"
  using manifest_at_tail_append [OF assms(1)] assms(2) by simp

theorem seal_keeps_manifest:
  assumes env: "codecs_ok E" "transition_hashes E"
    and c: "chain_parts E (l_genesis_parent L) (c_db s) (c_objects s) bodies recs"
    and op: "opened_by L bodies recs" and db: "db_ok (c_db s)"
    and run: "seal_if_needed E quiet L P s = (Inr (Some h), t)"
    and fresh: "sh_segment_hash h \<notin> set (map sh_prev_segment_hash (map sg_header bodies @ [h]))"
  shows "fst (current_manifest E quiet L t) = fst (current_manifest E quiet L s)"
proof -
  let ?gp = "l_genesis_parent L" and ?n = "sp_segment_size P"
  from seal_keeps_history [OF assms] obtain seg where
    sg: "sg_header seg = h"
    and c': "chain_parts E ?gp (c_db t) (c_objects t) (bodies @ [seg]) (drop ?n recs)"
    and ne: "drop ?n recs \<noteq> []"
    by blast
  from seal_result [OF env(1) c op run] obtain seg' v where
    ss: "seal_segment E quiet L (map sg_header bodies) (take ?n recs)
      (s\<lparr>c_clock := Suc (Suc (Suc (c_clock s)))\<rparr>) = (Inr seg', v)"
    and h': "h = sg_header seg'"
    by blast
  have ci: "chain_is E ?gp (c_db s) (map sg_header bodies) recs" using c by (simp add: chain_parts_def)
  have eo: "env_ok E" using env(1) by (simp add: codecs_ok_def)
  have ok: "hash_ok ?gp" "\<forall>h \<in> set (map sg_header bodies). header_ok h"
    using ci by (auto simp: chain_is_def)
  from sealed_segment_shape [OF eo env(2) ss ok] h' obtain m where
    m: "sh_current_manifest h = Some m"
      "manifest_at_tail E (take ?n recs) (manifest_before ?gp (map sg_header bodies)) = Inr m"
    by blast
  have op': "opened_by L (bodies @ [seg]) (drop ?n recs)"
    using ne by (simp add: opened_by_def)
  have before: "fst (current_manifest E quiet L s) =
      manifest_at_tail E recs (manifest_before ?gp (map sg_header bodies))"
    using snapshot_quiet [OF env(1) c op]
    by (simp add: current_manifest_def obind_def on_result_def current_manifest_eq manifest_before_def)
  have after: "fst (current_manifest E quiet L t) = manifest_at_tail E (drop ?n recs) m"
    using snapshot_quiet [OF env(1) c' op'] sg m(1)
    by (simp add: current_manifest_def obind_def on_result_def current_manifest_eq)
  obtain t0 where "first_transition E (rev (take ?n recs)) = Inr t0"
    using m(2) by (auto simp: manifest_at_tail_def)
  from seal_keeps_manifest_aux [OF this m(2), of "drop ?n recs"] before after show ?thesis
    by simp
qed

section \<open>A body that is already there\<close>

definition blind :: "('b cell, 'a) op \<Rightarrow> bool" where
  "blind m \<longleftrightarrow> (\<forall>s s'. c_db s' = c_db s \<longrightarrow>
     fst (m s') = fst (m s) \<and> c_db (snd (m s')) = c_db (snd (m s)))"

lemma blindD:
  "blind m \<Longrightarrow> c_db s' = c_db s \<Longrightarrow> fst (m s') = fst (m s)"
  "blind m \<Longrightarrow> c_db s' = c_db s \<Longrightarrow> c_db (snd (m s')) = c_db (snd (m s))"
  unfolding blind_def by blast+

lemma blind_pure: "blind (ret x)" "blind (fail e)" "blind (lift r)"
  by (auto simp: blind_def)

lemma blind_query: "blind (query_consistent quiet q)"
  by (auto simp: blind_def quiet_query)

lemma blind_bind:
  assumes "blind m" "\<And>x. blind (f x)"
  shows "blind (obind m f)"
  unfolding blind_def
proof (intro allI impI)
  fix s s' :: "'a cell"
  assume e: "c_db s' = c_db s"
  obtain r t where m: "m s = (r, t)" by (cases "m s")
  obtain r' t' where m': "m s' = (r', t')" by (cases "m s'")
  have r: "r' = r" "c_db t' = c_db t" using blindD [OF assms(1) e] m m' by simp_all
  show "fst (obind m f s') = fst (obind m f s) \<and> c_db (snd (obind m f s')) = c_db (snd (obind m f s))"
  proof (cases r)
    case (Inl x)
    with m m' r show ?thesis by simp
  next
    case (Inr x)
    then have "obind m f s' = f x t'" "obind m f s = f x t" using m m' r(1) by simp_all
    with blindD [OF assms(2) r(2), of x] show ?thesis by simp
  qed
qed

lemmas blind_ops = blind_pure blind_query blind_bind

lemma blind_seal_segment: "blind (seal_segment E quiet L segs run)"
  unfolding seal_segment_def Let_def epoch_at_tail_def epoch_before_def genesis_record_hash_def
    hash_of_def
  by (auto intro!: blind_ops split: option.split list.split)

text \<open>
  A body that reached the archive while its transaction did not reach the store: every later seal
  of the same run is refused, and the tables stay as they are.
\<close>

lemma put_twice:
  assumes "archive_put None k b A = (Inr (), A')"
  shows "\<exists>m. archive_put None k b A' = (Inl (Conflict m), A')"
  using fs_archive.put_occupied [OF archive_put_ok [OF assms]] .

theorem seal_blocked:
  assumes env: "codecs_ok E" and c: "chain_parts E (l_genesis_parent L) (c_db s) (c_objects s) bodies recs"
    and op: "opened_by L bodies recs"
    and run: "seal_if_needed E quiet L P s = (Inr (Some h), t)"
  shows "\<exists>m t'. seal_if_needed E quiet L P (s\<lparr>c_objects := c_objects t\<rparr>) = (Inl (Conflict m), t') \<and>
     c_db t' = c_db s \<and> c_objects t' = c_objects t"
proof -
  let ?s = "s\<lparr>c_objects := c_objects t\<rparr>" and ?n = "sp_segment_size P"
  let ?segs = "map sg_header bodies" and ?run = "take ?n recs"
  let ?at = "\<lambda>s. s\<lparr>c_clock := Suc (Suc (Suc (c_clock s)))\<rparr>"
  from seal_result [OF env c op run] obtain seg v where
    n: "?n < length recs" "sp_hot_window P < length recs"
    and ss: "seal_segment E quiet L ?segs ?run (?at s) = (Inr seg, v)"
    and put: "archive_put None (segment_key seg) (segment_to_bytes E seg) (c_objects s) = (Inr (), c_objects t)"
    by blast
  have ci: "chain_is E (l_genesis_parent L) (c_db s) ?segs recs" using c by (simp add: chain_parts_def)
  have "fst (seal_segment E quiet L ?segs ?run (?at ?s)) = Inr seg"
    using blindD(1) [OF blind_seal_segment, of "?at ?s" "?at s" E L ?segs ?run] ss by simp
  then obtain w where w: "seal_segment E quiet L ?segs ?run (?at ?s) = (Inr seg, w)"
    by (cases "seal_segment E quiet L ?segs ?run (?at ?s)") auto
  have sw: "c_db w = c_db s" "c_objects w = c_objects t"
    using frozen.keepsD [OF frozen_seal_segment w] by (simp_all add: same_store_def)
  obtain m where m: "archive_put None (segment_key seg) (segment_to_bytes E seg) (c_objects t) =
      (Inl (Conflict m), c_objects t)"
    using put_twice [OF put] by blast
  have c5: "put_object quiet (segment_key seg) (segment_to_bytes E seg) w =
      (Inl (Conflict m), w\<lparr>c_clock := Suc (c_clock w)\<rparr>)"
    using m sw by (simp add: put_object_def quiet_tick)
  have c': "chain_parts E (l_genesis_parent L) (c_db ?s) (c_objects ?s) bodies recs"
    using chain_parts_le [OF c archive_put_le [OF put]] by simp
  show ?thesis
    using seal_unfold [OF env c' op n(2) n(1)] w c5 sw by (auto simp: obind_def on_result_def fail_def)
qed

end
