(* ===== verification/Ledger_Lifetime.thy ===== *)
theory Ledger_Lifetime
  imports Seal_Runs
begin

text \<open>
  The store over the life of a chain: every interleaving of the transactions the crate commits, as a
  step relation. The state carries two histories that no table holds, what was ever appended and
  what was ever sealed; the invariant ties the identity tables to them, so that one id names one
  decision for the life of the chain and coverage is complete in every reachable store.
\<close>

record 'b lifetime =
  lt_db :: "'b db"
  lt_appended :: "(string \<times> string) list"
  lt_sealed :: "(string \<times> string \<times> string) list"

definition acc_key :: "accounted \<Rightarrow> string \<times> string" where
  "acc_key a = (ac_id a, as_str (ac_record_hash a))"

definition seal_of :: "segment \<Rightarrow> accounted \<Rightarrow> string \<times> string \<times> string" where
  "seal_of s a = (ac_id a, as_str (ac_record_hash a), as_str (sh_segment_hash (sg_header s)))"

text \<open>
  The transactions a chain commits. A seal takes records that are resident: \<open>seal_segment\<close> reads them from
  the hot table, and that they are still there when the transaction runs is an assumption of the step,
  since its statements do not look.
\<close>

inductive lifetime_step :: "'b env \<Rightarrow> 'b lifetime \<Rightarrow> 'b lifetime \<Rightarrow> bool" for E where
  step_append:
    "accounted_of E rec = Inr acc \<Longrightarrow> txn (append_statements E rec acc) d = Some (d', ns) \<Longrightarrow>
     lifetime_step E \<lparr>lt_db = d, lt_appended = ap, lt_sealed = sl\<rparr>
       \<lparr>lt_db = d', lt_appended = ap @ [acc_key acc], lt_sealed = sl\<rparr>"
| step_seal:
    "\<forall>r \<in> set (sg_records s). row_of_record E r \<in> set (kernel_decisions d) \<Longrightarrow>
     segment_verify E s = Inr () \<Longrightarrow> length (sg_records s) \<le> U32_MAX \<Longrightarrow>
     distinct (map (\<lambda>r. lr_id (sr_record r)) (sg_records s)) \<Longrightarrow>
     try_map (accounted_of E) (sg_records s) = Inr accs \<Longrightarrow>
     txn (seal_statements E s accs) d = Some (d', ns) \<Longrightarrow>
     lifetime_step E \<lparr>lt_db = d, lt_appended = ap, lt_sealed = sl\<rparr>
       \<lparr>lt_db = d', lt_appended = ap, lt_sealed = sl @ map (seal_of s) accs\<rparr>"
| step_reindex:
    "\<forall>a \<in> set accs. seal_of s a \<in> set sl \<Longrightarrow> as_str (sh_segment_hash (sg_header s)) = as_str seg \<Longrightarrow>
     as_str seg \<in> set (map sw_segment_hash (kernel_segments d)) \<Longrightarrow>
     txn (accounting_statements accs seg) d = Some (d', ns) \<Longrightarrow>
     lifetime_step E \<lparr>lt_db = d, lt_appended = ap, lt_sealed = sl\<rparr>
       \<lparr>lt_db = d', lt_appended = ap, lt_sealed = sl\<rparr>"
| step_backfill:
    "\<forall>a \<in> set accs. \<exists>r. row_of_record E r \<in> set (kernel_decisions d) \<and> accounted_of E r = Inr a \<Longrightarrow>
     txn (map identity_backfill accs) d = Some (d', ns) \<Longrightarrow>
     lifetime_step E \<lparr>lt_db = d, lt_appended = ap, lt_sealed = sl\<rparr>
       \<lparr>lt_db = d', lt_appended = ap, lt_sealed = sl\<rparr>"

inductive lifetime_reachable :: "'b env \<Rightarrow> 'b lifetime \<Rightarrow> bool" for E where
  fresh: "lifetime_reachable E \<lparr>lt_db = empty_db, lt_appended = [], lt_sealed = []\<rparr>"
| more: "lifetime_reachable E g \<Longrightarrow> lifetime_step E g g' \<Longrightarrow> lifetime_reachable E g'"

inductive_cases lifetime_stepE: "lifetime_step E g g'"

section \<open>The invariant\<close>

definition id_key :: "identity_row \<Rightarrow> string \<times> string" where
  "id_key r = (ir_id r, ir_record_hash r)"

text \<open>Every identity row parses, and is stamped with a segment exactly when that segment sealed it.\<close>

definition row_exact :: "(string \<times> string \<times> string) list \<Rightarrow> identity_row \<Rightarrow> bool" where
  "row_exact sl r \<longleftrightarrow> digest_shape (ir_record_hash r) \<and> digest_shape (ir_identity_digest r) \<and>
     (\<forall>seg. ir_segment_hash r = Some seg \<longrightarrow>
        digest_shape seg \<and> (ir_id r, ir_record_hash r, seg) \<in> set sl)"

definition tables_inv :: "'b db \<Rightarrow> (string \<times> string) list \<Rightarrow> (string \<times> string \<times> string) list \<Rightarrow> bool" where
  "tables_inv d ap sl \<longleftrightarrow>
     db_ok d \<and> distinct (map fst ap) \<and>
     id_key ` set (kernel_identity d) = set ap \<and>
     (\<forall>row \<in> set (kernel_decisions d). \<exists>r \<in> set (kernel_identity d).
        id_key r = (dr_id row, dr_hash row) \<and> ir_segment_hash r = None) \<and>
     kernel_collisions d = [] \<and> (\<forall>r \<in> set (kernel_identity d). row_exact sl r) \<and>
     (\<forall>(i, rh, seg) \<in> set sl. \<exists>r \<in> set (kernel_identity d).
        id_key r = (i, rh) \<and> ir_segment_hash r = Some seg) \<and>
     (\<forall>r \<in> set (kernel_identity d). \<forall>seg. ir_segment_hash r = Some seg \<longrightarrow>
        seg \<in> set (map sw_segment_hash (kernel_segments d))) \<and>
     (\<forall>s \<in> set (kernel_segments d).
        stamped_query (sw_segment_hash s) d = [int (sw_count s)] \<and>
        coverage_count (sw_segment_hash s) d = int (sw_count s))"

definition lifetime_inv :: "'b lifetime \<Rightarrow> bool" where
  "lifetime_inv g \<longleftrightarrow> tables_inv (lt_db g) (lt_appended g) (lt_sealed g)"

lemma fresh_inv: "tables_inv empty_db [] []"
  by (simp add: tables_inv_def empty_db_def db_ok_def)

text \<open>The three accounting statements, on a record whose row is there and not in another segment.\<close>

lemma account_known:
  assumes "r \<in> set (kernel_identity d)" "id_key r = acc_key a" "db_ok d"
    "ir_segment_hash r = None \<or> ir_segment_hash r = Some seg"
  shows "\<exists>ns. txn (accounting_of seg a) d =
     Some (d\<lparr>kernel_identity := map (stamp_row seg (ac_id a) (as_str (ac_record_hash a)))
       (kernel_identity d)\<rparr>, ns)"
proof -
  let ?i = "ac_id a" and ?rh = "as_str (ac_record_hash a)"
  let ?d = "d\<lparr>kernel_identity := map (stamp_row seg ?i ?rh) (kernel_identity d)\<rparr>"
  have k: "ir_id r = ?i" "ir_record_hash r = ?rh" using assms(2) by (simp_all add: id_key_def acc_key_def)
  have st: "fst (stamp_identity seg ?i ?rh d) = ?d" by (simp add: stamp_identity_def)
  have ins: "?i \<in> set (map ir_id (kernel_identity ?d))"
    using assms(1) k(1) by (force simp: stamp_row_def)
  have ns: "\<not> stampable ?i ?rh ?d" using stampable_stamped [of ?i ?rh seg d] st by simp
  have ac: "accounted_in ?i ?rh seg ?d"
  proof (cases "ir_segment_hash r")
    case None
    with k assms(1) have "stampable ?i ?rh d" by (auto simp: stampable_def)
    from accounted_in_stamped [OF this, of seg] st show ?thesis by simp
  next
    case (Some x)
    with assms(4) k assms(1) have "accounted_in ?i ?rh seg d" by (auto simp: accounted_in_def)
    from accounted_in_stamp_mono [OF this, of seg ?i ?rh] st show ?thesis by simp
  qed
  have 1: "exec (StampIdentity seg ?i ?rh) d = Some (?d, if stampable ?i ?rh d then 1 else 0)"
    by (simp add: stamp_identity_def)
  have 2: "exec (UpsertIdentity ?i (as_str (ac_identity_digest a)) ?rh seg) ?d = Some (?d, 0)"
    using ins stamp_unstampable [OF ns, of seg] by (simp only: exec.simps if_True)
  have 3: "exec (InsertCollision ?i ?rh seg (as_str (ac_identity_digest a))) ?d = Some (?d, 0)"
    using ac by (simp only: exec.simps) simp
  show ?thesis unfolding accounting_of_def by (simp del: exec.simps add: 1 2 3)
qed

definition stamp_all :: "string \<Rightarrow> accounted list \<Rightarrow> identity_row \<Rightarrow> identity_row" where
  "stamp_all seg accs r =
     (if id_key r \<in> acc_key ` set accs \<and> ir_segment_hash r = None
      then r\<lparr>ir_segment_hash := Some seg\<rparr> else r)"

lemma stamp_all_Cons:
  "stamp_all seg accs (stamp_row seg (ac_id a) (as_str (ac_record_hash a)) r) = stamp_all seg (a # accs) r"
  by (auto simp: stamp_all_def stamp_row_def id_key_def acc_key_def)

lemma stamp_all_fields [simp]: "ir_id (stamp_all seg accs r) = ir_id r"
  "ir_record_hash (stamp_all seg accs r) = ir_record_hash r" "id_key (stamp_all seg accs r) = id_key r"
  by (simp_all add: stamp_all_def id_key_def)

lemma map_identity_id: "db_ok (d\<lparr>kernel_identity := map f (kernel_identity d)\<rparr>)"
  if "db_ok d" "\<And>r. ir_id (f r) = ir_id r"
  using that by (simp add: db_ok_def o_def)

lemma account_known_list:
  "\<forall>a \<in> set accs. \<exists>r \<in> set (kernel_identity d). id_key r = acc_key a \<and>
       (ir_segment_hash r = None \<or> ir_segment_hash r = Some seg) \<Longrightarrow> db_ok d \<Longrightarrow>
     \<exists>ns. txn (concat (map (accounting_of seg) accs)) d =
       Some (d\<lparr>kernel_identity := map (stamp_all seg accs) (kernel_identity d)\<rparr>, ns)"
proof (induction accs arbitrary: d)
  case Nil
  have "map (stamp_all seg []) (kernel_identity d) = kernel_identity d"
    by (rule map_idI) (simp add: stamp_all_def)
  then show ?case by simp
next
  case (Cons a accs)
  let ?f = "stamp_row seg (ac_id a) (as_str (ac_record_hash a))"
  let ?d = "d\<lparr>kernel_identity := map ?f (kernel_identity d)\<rparr>"
  obtain r where r: "r \<in> set (kernel_identity d)" "id_key r = acc_key a"
      "ir_segment_hash r = None \<or> ir_segment_hash r = Some seg"
    using Cons.prems(1) by auto
  obtain ns where 1: "txn (accounting_of seg a) d = Some (?d, ns)"
    using account_known [OF r(1,2) Cons.prems(2) r(3)] by blast
  have ok: "db_ok ?d" using map_identity_id [OF Cons.prems(2)] by simp
  have "\<forall>b \<in> set accs. \<exists>r \<in> set (kernel_identity ?d). id_key r = acc_key b \<and>
       (ir_segment_hash r = None \<or> ir_segment_hash r = Some seg)"
  proof
    fix b assume "b \<in> set accs"
    then obtain q where q: "q \<in> set (kernel_identity d)" "id_key q = acc_key b"
        "ir_segment_hash q = None \<or> ir_segment_hash q = Some seg"
      using Cons.prems(1) by auto
    show "\<exists>r \<in> set (kernel_identity ?d). id_key r = acc_key b \<and>
       (ir_segment_hash r = None \<or> ir_segment_hash r = Some seg)"
      using q by (intro bexI [of _ "?f q"]) (auto simp: id_key_def stamp_row_def)
  qed
  from Cons.IH [OF this ok] obtain ms where
    2: "txn (concat (map (accounting_of seg) accs)) ?d =
      Some (?d\<lparr>kernel_identity := map (stamp_all seg accs) (kernel_identity ?d)\<rparr>, ms)"
    by blast
  have "map (stamp_all seg accs) (kernel_identity ?d) = map (stamp_all seg (a # accs)) (kernel_identity d)"
    by (simp add: stamp_all_Cons)
  with 1 2 show ?case by (simp add: txn_append)
qed

text \<open>The tables after the accounting of known records.\<close>

lemma accounting_known:
  assumes "\<forall>a \<in> set accs. \<exists>r \<in> set (kernel_identity d). id_key r = acc_key a \<and>
       (ir_segment_hash r = None \<or> ir_segment_hash r = Some (as_str seg))" "db_ok d"
    and t: "txn (accounting_statements accs seg) d = Some (d', ns)"
  shows "kernel_identity d' = map (stamp_all (as_str seg) accs) (kernel_identity d) \<and>
     kernel_collisions d' = kernel_collisions d \<and>
     kernel_decisions d' = kernel_decisions d \<and> kernel_segments d' = kernel_segments d \<and>
     stamped_query (as_str seg) d' = [coverage_count (as_str seg) d'] \<and>
     (\<forall>x. x \<noteq> as_str seg \<longrightarrow> stamped_query x d' = stamped_query x d)"
proof -
  from account_known_list [OF assms(1,2)] obtain ms where
    a: "txn (concat (map (accounting_of (as_str seg)) accs)) d =
      Some (d\<lparr>kernel_identity := map (stamp_all (as_str seg) accs) (kernel_identity d)\<rparr>, ms)"
    by blast
  from t a have d': "d' = (d\<lparr>kernel_identity := map (stamp_all (as_str seg) accs) (kernel_identity d)\<rparr>)
      \<lparr>kernel_coverage := filter (\<lambda>v. vr_segment_hash v \<noteq> as_str seg) (kernel_coverage d) @
        [\<lparr>vr_segment_hash = as_str seg, vr_stamped = coverage_count (as_str seg)
          (d\<lparr>kernel_identity := map (stamp_all (as_str seg) accs) (kernel_identity d)\<rparr>)\<rparr>]\<rparr>"
    by (auto simp: accounting_statements_eq)
  have "stamped_query x d' = stamped_query x d" if "x \<noteq> as_str seg" for x
  proof -
    have "filter (\<lambda>v. vr_segment_hash v = x)
        (filter (\<lambda>v. vr_segment_hash v \<noteq> as_str seg) (kernel_coverage d)) =
        filter (\<lambda>v. vr_segment_hash v = x) (kernel_coverage d)"
      unfolding filter_filter using that by (intro filter_cong) auto
    then show ?thesis using that by (simp add: d' stamped_query_def del: filter_filter)
  qed
  then show ?thesis using accounting_counter [OF t] d' by simp
qed

section \<open>Every step keeps the invariant\<close>

lemma acc_key_record:
  "accounted_of E r = Inr a \<Longrightarrow> acc_key a = (lr_id (sr_record r), lr_record_hash (sr_record r))"
  using accounted_of_id accounted_of_hash sr_hash_text by (force simp: acc_key_def)

lemma accounted_texts:
  "accounted_of E r = Inr a \<Longrightarrow> hash_ok (ac_record_hash a) \<and> hash_ok (ac_identity_digest a)"
  by (auto simp: accounted_of_def sr_hash_def identity_digest_def dest: hash_parse_gives_ok)

lemma tables_ids: "tables_inv d ap sl \<Longrightarrow> ir_id ` set (kernel_identity d) = fst ` set ap"
proof -
  assume "tables_inv d ap sl"
  then have "fst ` id_key ` set (kernel_identity d) = fst ` set ap" by (simp add: tables_inv_def)
  then show ?thesis by (simp add: image_image id_key_def)
qed

lemma coverage_count_no_collisions:
  "kernel_collisions d = [] \<Longrightarrow>
     coverage_count seg d = int (length (filter (\<lambda>r. ir_segment_hash r = Some seg) (kernel_identity d)))"
  by (simp add: coverage_count_def)

lemma keeps_append_step:
  assumes inv: "tables_inv d ap sl" and a: "accounted_of E rec = Inr acc"
    and t: "txn (append_statements E rec acc) d = Some (d', ns)"
  shows "tables_inv d' (ap @ [acc_key acc]) sl"
proof -
  let ?new = "\<lparr>ir_id = ac_id acc, ir_identity_digest = as_str (ac_identity_digest acc),
      ir_record_hash = as_str (ac_record_hash acc), ir_segment_hash = None\<rparr>"
  from t have un: "ac_id acc \<notin> set (map ir_id (kernel_identity d))"
    and d': "d' = d\<lparr>kernel_decisions := kernel_decisions d @ [row_of_record E rec],
        kernel_identity := kernel_identity d @ [?new]\<rparr>"
    by (auto simp: append_txn_iff)
  have ok: "db_ok d'" using t inv txn_db_ok by (auto simp: tables_inv_def)
  have k: "acc_key acc = (dr_id (row_of_record E rec), dr_hash (row_of_record E rec))"
    using acc_key_record [OF a] by (simp add: row_of_record_def)
  have nk: "id_key ?new = acc_key acc" by (simp add: id_key_def acc_key_def)
  have re: "row_exact sl ?new"
    using accounted_texts [OF a] by (simp add: row_exact_def hash_ok_def)
  have "ac_id acc \<notin> fst ` set ap" using un tables_ids [OF inv] by simp
  then have di: "distinct (map fst (ap @ [acc_key acc]))"
    using inv by (simp add: tables_inv_def acc_key_def)
  have cc: "coverage_count x d' = coverage_count x d" for x by (simp add: d' coverage_count_def)
  have sq: "stamped_query x d' = stamped_query x d" for x by (simp add: d' stamped_query_def)
  show ?thesis
    unfolding tables_inv_def
  proof (intro conjI)
    show "id_key ` set (kernel_identity d') = set (ap @ [acc_key acc])"
      using inv nk by (simp add: d' tables_inv_def)
    show "\<forall>row \<in> set (kernel_decisions d'). \<exists>r \<in> set (kernel_identity d').
        id_key r = (dr_id row, dr_hash row) \<and> ir_segment_hash r = None"
    proof
      fix row assume "row \<in> set (kernel_decisions d')"
      then consider "row = row_of_record E rec" | "row \<in> set (kernel_decisions d)" by (auto simp: d')
      then show "\<exists>r \<in> set (kernel_identity d').
        id_key r = (dr_id row, dr_hash row) \<and> ir_segment_hash r = None"
      proof cases
        case 1
        then show ?thesis using nk k by (intro bexI [of _ ?new]) (simp_all add: d')
      next
        case 2
        then obtain r where "r \<in> set (kernel_identity d)" "id_key r = (dr_id row, dr_hash row)"
            "ir_segment_hash r = None"
          using inv unfolding tables_inv_def by blast
        then show ?thesis by (auto simp: d')
      qed
    qed
    show "\<forall>(i, rh, seg) \<in> set sl. \<exists>r \<in> set (kernel_identity d').
        id_key r = (i, rh) \<and> ir_segment_hash r = Some seg"
      using inv by (fastforce simp: d' tables_inv_def)
  qed (use ok di inv cc sq re in \<open>auto simp: d' tables_inv_def\<close>)
qed

lemma keeps_backfill_step:
  assumes inv: "tables_inv d ap sl"
    and a: "\<forall>a \<in> set accs. \<exists>r. row_of_record E r \<in> set (kernel_decisions d) \<and> accounted_of E r = Inr a"
    and t: "txn (map identity_backfill accs) d = Some (d', ns)"
  shows "d' = d"
proof -
  have "ac_id a \<in> set (map ir_id (kernel_identity d))" if "a \<in> set accs" for a
  proof -
    obtain r where r: "row_of_record E r \<in> set (kernel_decisions d)" "accounted_of E r = Inr a"
      using a \<open>a \<in> set accs\<close> by blast
    obtain q where "q \<in> set (kernel_identity d)"
        "id_key q = (dr_id (row_of_record E r), dr_hash (row_of_record E r))"
      using inv r(1) unfolding tables_inv_def by blast
    with acc_key_record [OF r(2)] have "q \<in> set (kernel_identity d)" "ir_id q = ac_id a"
      by (auto simp: id_key_def acc_key_def row_of_record_def)
    then show ?thesis by force
  qed
  then have "\<exists>ms. txn (map identity_backfill accs) d = Some (d, ms)"
    by (induction accs) (auto simp: identity_backfill_def)
  with t show ?thesis by auto
qed

lemma identity_unique_key:
  assumes "db_ok d" "r \<in> set (kernel_identity d)" "q \<in> set (kernel_identity d)" "id_key r = id_key q"
  shows "r = q"
  using assms by (auto simp: db_ok_def distinct_map id_key_def dest: inj_onD)

lemma keeps_reindex_step:
  assumes inv: "tables_inv d ap sl"
    and a: "\<forall>a \<in> set accs. (ac_id a, as_str (ac_record_hash a), as_str seg) \<in> set sl"
    and s: "as_str seg \<in> set (map sw_segment_hash (kernel_segments d))"
    and t: "txn (accounting_statements accs seg) d = Some (d', ns)"
  shows "tables_inv d' ap sl"
proof -
  have ok: "db_ok d" using inv by (simp add: tables_inv_def)
  have known: "\<exists>r \<in> set (kernel_identity d). id_key r = acc_key a \<and> ir_segment_hash r = Some (as_str seg)"
    if "a \<in> set accs" for a
    using a inv that unfolding tables_inv_def acc_key_def by fastforce
  have m: "map (stamp_all (as_str seg) accs) (kernel_identity d) = kernel_identity d"
  proof (rule map_idI)
    fix r assume r: "r \<in> set (kernel_identity d)"
    show "stamp_all (as_str seg) accs r = r"
    proof (cases "id_key r \<in> acc_key ` set accs")
      case True
      then obtain a q where "a \<in> set accs" "id_key r = acc_key a" "q \<in> set (kernel_identity d)"
          "id_key q = acc_key a" "ir_segment_hash q = Some (as_str seg)"
        using known by fastforce
      with identity_unique_key [OF ok r] have "ir_segment_hash r \<noteq> None" by auto
      then show ?thesis by (simp add: stamp_all_def)
    qed (simp add: stamp_all_def)
  qed
  have kn: "\<forall>a \<in> set accs. \<exists>r \<in> set (kernel_identity d). id_key r = acc_key a \<and>
       (ir_segment_hash r = None \<or> ir_segment_hash r = Some (as_str seg))"
    using known by blast
  note e = accounting_known [OF kn ok t, unfolded m]
  have cc: "coverage_count x d' = coverage_count x d" for x
    using e by (simp add: coverage_count_def)
  have "stamped_query (as_str seg) d = [coverage_count (as_str seg) d]"
    using inv s by (auto simp: tables_inv_def)
  with e cc have sq: "stamped_query x d' = stamped_query x d" for x by metis
  have ok': "db_ok d'" using t ok txn_db_ok by blast
  show ?thesis
    using inv e cc sq ok' by (simp add: tables_inv_def)
qed

text \<open>How many rows a seal stamps: one per record of its run.\<close>

lemma stamped_rows_count:
  assumes ok: "distinct (map ir_id ids)" and d: "distinct (map ac_id accs)"
    and known: "\<forall>a \<in> set accs. \<exists>r \<in> set ids. id_key r = acc_key a \<and> ir_segment_hash r = None"
    and none: "\<forall>r \<in> set ids. ir_segment_hash r \<noteq> Some seg"
  shows "length (filter (\<lambda>r. ir_segment_hash r = Some seg) (map (stamp_all seg accs) ids)) = length accs"
proof -
  let ?P = "\<lambda>r. id_key r \<in> acc_key ` set accs \<and> ir_segment_hash r = None"
  have f: "filter (\<lambda>r. ir_segment_hash (stamp_all seg accs r) = Some seg) ids = filter ?P ids"
    using none by (intro filter_cong) (auto simp: stamp_all_def)
  have "ir_id ` set (filter ?P ids) = ac_id ` set accs"
  proof (intro equalityI subsetI)
    fix i assume "i \<in> ir_id ` set (filter ?P ids)"
    then show "i \<in> ac_id ` set accs" by (auto simp: id_key_def acc_key_def)
  next
    fix i assume "i \<in> ac_id ` set accs"
    then obtain a r where "a \<in> set accs" "i = ac_id a" "r \<in> set ids" "id_key r = acc_key a"
        "ir_segment_hash r = None"
      using known by blast
    then have "r \<in> set (filter ?P ids)" "ir_id r = i" by (auto simp: id_key_def acc_key_def)
    then show "i \<in> ir_id ` set (filter ?P ids)" by blast
  qed
  moreover have "distinct (map ir_id (filter ?P ids))" using ok by (rule distinct_map_filter)
  ultimately have "length (filter ?P ids) = length accs"
    using d distinct_card [of "map ir_id (filter ?P ids)"] distinct_card [of "map ac_id accs"] by simp
  with f show ?thesis by (simp add: filter_map o_def)
qed

lemma accounted_list:
  assumes "try_map (accounted_of E) rs = Inr accs"
  shows "map acc_key accs = map (\<lambda>r. (lr_id (sr_record r), lr_record_hash (sr_record r))) rs"
  using assms
proof (induction rs arbitrary: accs)
  case Nil
  then show ?case by simp
next
  case (Cons r rs)
  then show ?case by (auto simp: acc_key_record)
qed

lemma segment_verify_hash: "segment_verify E s = Inr u \<Longrightarrow> hash_ok (sh_segment_hash (sg_header s))"
  by (auto simp: segment_verify_Inr_iff segment_hash_def dest: hash_parse_gives_ok)

lemma keeps_seal_step:
  assumes inv: "tables_inv d ap sl"
    and res: "\<forall>r \<in> set (sg_records s). row_of_record E r \<in> set (kernel_decisions d)"
    and ver: "segment_verify E s = Inr ()" "length (sg_records s) \<le> U32_MAX"
    and di: "distinct (map (\<lambda>r. lr_id (sr_record r)) (sg_records s))"
    and acc: "try_map (accounted_of E) (sg_records s) = Inr accs"
    and t: "txn (seal_statements E s accs) d = Some (d', ns)"
  shows "tables_inv d' ap (sl @ map (seal_of s) accs)"
proof -
  let ?seg = "as_str (sh_segment_hash (sg_header s))"
  let ?ids = "map (\<lambda>r. lr_id (sr_record r)) (sg_records s)"
  from seal_txn_split [OF t] obtain d1 ms where
    d1: "d1 = d\<lparr>kernel_segments := kernel_segments d @ [segment_row_of E (sg_header s)],
      kernel_decisions := filter (\<lambda>r. dr_id r \<notin> set ?ids) (kernel_decisions d)\<rparr>"
    and new: "?seg \<notin> set (map sw_segment_hash (kernel_segments d))"
      "as_str (sh_prev_segment_hash (sg_header s)) \<notin> set (map sw_prev_segment_hash (kernel_segments d))"
    and t1: "txn (accounting_statements accs (sh_segment_hash (sg_header s))) d1 = Some (d', ms)"
    by blast
  have ok: "db_ok d" using inv by (simp add: tables_inv_def)
  then have ok1: "db_ok d1" using new by (simp add: d1 db_ok_def segment_row_of_def distinct_map_filter)
  have ok': "db_ok d'" using t ok txn_db_ok by blast
  note keys = accounted_list [OF acc]
  have known: "\<exists>r \<in> set (kernel_identity d). id_key r = acc_key a \<and> ir_segment_hash r = None"
    if "a \<in> set accs" for a
  proof -
    have "acc_key a \<in> set (map (\<lambda>r. (lr_id (sr_record r), lr_record_hash (sr_record r))) (sg_records s))"
      using that unfolding keys [symmetric] by simp
    then obtain r where "r \<in> set (sg_records s)"
        "acc_key a = (dr_id (row_of_record E r), dr_hash (row_of_record E r))"
      by (auto simp: row_of_record_def)
    with res inv show ?thesis unfolding tables_inv_def by metis
  qed
  have kn: "\<forall>a \<in> set accs. \<exists>r \<in> set (kernel_identity d1). id_key r = acc_key a \<and>
       (ir_segment_hash r = None \<or> ir_segment_hash r = Some ?seg)"
    using known by (auto simp: d1)
  note e = accounting_known [OF kn ok1 t1]
  have id': "kernel_identity d' = map (stamp_all ?seg accs) (kernel_identity d)" using e by (simp add: d1)
  have idr: "set ?ids = ac_id ` set accs"
    using arg_cong [OF keys, of "\<lambda>xs. fst ` set xs"] by (auto simp: image_image acc_key_def)
  have dacc: "distinct (map ac_id accs)"
    using arg_cong [OF keys, of "map fst"] di by (simp add: o_def acc_key_def)
  have cols: "kernel_collisions d' = []" using e inv by (simp add: d1 tables_inv_def)
  have none: "\<forall>r \<in> set (kernel_identity d). ir_segment_hash r \<noteq> Some ?seg"
    using inv new(1) unfolding tables_inv_def by blast
  have cnew: "coverage_count ?seg d' = int (length accs)"
    using stamped_rows_count [of "kernel_identity d" accs ?seg] ok dacc known none
    by (simp add: coverage_count_no_collisions [OF cols] id' db_ok_def)
  have count: "sh_count (sg_header s) = length accs"
    using ver arg_cong [OF keys, of length] by (simp add: segment_verify_Inr_iff)
  have cold: "coverage_count x d' = coverage_count x d" if "x \<noteq> ?seg" for x
  proof -
    have "filter (\<lambda>r. ir_segment_hash (stamp_all ?seg accs r) = Some x) (kernel_identity d) =
        filter (\<lambda>r. ir_segment_hash r = Some x) (kernel_identity d)"
      using that by (intro filter_cong) (auto simp: stamp_all_def)
    moreover have "kernel_collisions d = []" using inv by (simp add: tables_inv_def)
    ultimately show ?thesis
      by (simp add: coverage_count_no_collisions [OF cols] coverage_count_no_collisions id' filter_map o_def)
  qed
  have sq: "stamped_query x d' = stamped_query x d" if "x \<noteq> ?seg" for x
    using e that by (simp add: d1 stamped_query_def)
  have seg': "kernel_segments d' = kernel_segments d @ [segment_row_of E (sg_header s)]"
    and dec': "kernel_decisions d' = filter (\<lambda>r. dr_id r \<notin> set ?ids) (kernel_decisions d)"
    using e by (simp_all add: d1)
  show ?thesis
    unfolding tables_inv_def
  proof (intro conjI)
    show "db_ok d'" by (rule ok')
    show "distinct (map fst ap)" using inv by (simp add: tables_inv_def)
    show "id_key ` set (kernel_identity d') = set ap"
      using inv by (simp add: id' image_image tables_inv_def)
    show "\<forall>row \<in> set (kernel_decisions d'). \<exists>r \<in> set (kernel_identity d').
        id_key r = (dr_id row, dr_hash row) \<and> ir_segment_hash r = None"
    proof
      fix row assume "row \<in> set (kernel_decisions d')"
      then have row: "row \<in> set (kernel_decisions d)" "dr_id row \<notin> ac_id ` set accs"
        unfolding dec' idr [symmetric] by auto
      then obtain r where r: "r \<in> set (kernel_identity d)" "id_key r = (dr_id row, dr_hash row)"
          "ir_segment_hash r = None"
        using inv unfolding tables_inv_def by blast
      have "id_key r \<notin> acc_key ` set accs" using row(2) r(2) by (auto simp: acc_key_def)
      then have "stamp_all ?seg accs r = r" by (simp add: stamp_all_def)
      with r show "\<exists>r \<in> set (kernel_identity d').
        id_key r = (dr_id row, dr_hash row) \<and> ir_segment_hash r = None"
        by (metis id' image_eqI list.set_map)
    qed
    show "kernel_collisions d' = []" by (rule cols)
    show "\<forall>r \<in> set (kernel_identity d'). row_exact (sl @ map (seal_of s) accs) r"
    proof
      fix q assume "q \<in> set (kernel_identity d')"
      then obtain r where r: "r \<in> set (kernel_identity d)" "q = stamp_all ?seg accs r"
        by (auto simp: id')
      from r(1) inv have re: "row_exact sl r" by (simp add: tables_inv_def)
      show "row_exact (sl @ map (seal_of s) accs) q"
      proof (cases "id_key r \<in> acc_key ` set accs \<and> ir_segment_hash r = None")
        case True
        then obtain a where "a \<in> set accs" "id_key r = acc_key a" by auto
        then have "(ir_id r, ir_record_hash r, ?seg) \<in> set (map (seal_of s) accs)"
          by (force simp: id_key_def acc_key_def seal_of_def)
        with True r re segment_verify_hash [OF ver(1)] show ?thesis
          by (auto simp: row_exact_def stamp_all_def hash_ok_def)
      next
        case False
        then have "q = r" using r(2) by (auto simp: stamp_all_def)
        with re show ?thesis by (auto simp: row_exact_def)
      qed
    qed
    show "\<forall>(i, rh, seg) \<in> set (sl @ map (seal_of s) accs). \<exists>r \<in> set (kernel_identity d').
        id_key r = (i, rh) \<and> ir_segment_hash r = Some seg"
    proof (clarify)
      fix i rh seg assume "(i, rh, seg) \<in> set (sl @ map (seal_of s) accs)"
      then consider "(i, rh, seg) \<in> set sl" | a where "a \<in> set accs" "(i, rh) = acc_key a" "seg = ?seg"
        by (auto simp: seal_of_def acc_key_def)
      then show "\<exists>r \<in> set (kernel_identity d'). id_key r = (i, rh) \<and> ir_segment_hash r = Some seg"
      proof cases
        case 1
        then obtain r where r: "r \<in> set (kernel_identity d)" "id_key r = (i, rh)"
            "ir_segment_hash r = Some seg"
          using inv unfolding tables_inv_def by blast
        then have "stamp_all ?seg accs r = r" by (simp add: stamp_all_def)
        with r show ?thesis by (metis id' image_eqI list.set_map)
      next
        case 2
        then obtain r where r: "r \<in> set (kernel_identity d)" "id_key r = acc_key a"
            "ir_segment_hash r = None"
          using known by blast
        with 2 have "stamp_all ?seg accs r = r\<lparr>ir_segment_hash := Some ?seg\<rparr>"
          by (auto simp: stamp_all_def)
        moreover have "stamp_all ?seg accs r \<in> set (kernel_identity d')" using r(1) by (simp add: id')
        ultimately show ?thesis using r 2
          by (intro bexI [of _ "stamp_all ?seg accs r"]) (simp_all add: id_key_def)
      qed
    qed
    show "\<forall>r \<in> set (kernel_identity d'). \<forall>seg. ir_segment_hash r = Some seg \<longrightarrow>
        seg \<in> set (map sw_segment_hash (kernel_segments d'))"
      using inv unfolding id' seg' tables_inv_def
      by (auto simp: stamp_all_def segment_row_of_def split: if_splits)
    show "\<forall>x \<in> set (kernel_segments d'). stamped_query (sw_segment_hash x) d' = [int (sw_count x)] \<and>
        coverage_count (sw_segment_hash x) d' = int (sw_count x)"
    proof
      fix x assume "x \<in> set (kernel_segments d')"
      then consider "x \<in> set (kernel_segments d)" | "x = segment_row_of E (sg_header s)"
        by (auto simp: seg')
      then show "stamped_query (sw_segment_hash x) d' = [int (sw_count x)] \<and>
        coverage_count (sw_segment_hash x) d' = int (sw_count x)"
      proof cases
        case 1
        then have "sw_segment_hash x \<noteq> ?seg" using new(1) by force
        with 1 inv sq cold show ?thesis by (simp add: tables_inv_def)
      next
        case 2
        then show ?thesis using e cnew count by (simp add: segment_row_of_def)
      qed
    qed
  qed
qed

theorem lifetime_step_inv:
  assumes "lifetime_step E g g'" "lifetime_inv g"
  shows "lifetime_inv g'"
  using assms
proof cases
  case (step_append rec acc d d' ns ap sl)
  with assms(2) keeps_append_step show ?thesis by (auto simp: lifetime_inv_def)
next
  case (step_seal s d accs d' ns ap sl)
  with assms(2) keeps_seal_step show ?thesis by (auto simp: lifetime_inv_def)
next
  case (step_reindex accs s sl seg d d' ns ap)
  have "\<forall>a \<in> set accs. (ac_id a, as_str (ac_record_hash a), as_str seg) \<in> set sl"
    using step_reindex(3,4) by (simp add: seal_of_def)
  with step_reindex assms(2) keeps_reindex_step show ?thesis by (fastforce simp: lifetime_inv_def)
next
  case (step_backfill accs d d' ns ap sl)
  have "d' = d"
    using keeps_backfill_step [OF _ step_backfill(3,4)] assms(2) step_backfill(1)
    by (auto simp: lifetime_inv_def)
  with step_backfill assms(2) show ?thesis by (simp add: lifetime_inv_def)
qed

theorem lifetime_reachable_inv: "lifetime_reachable E g \<Longrightarrow> lifetime_inv g"
  by (induction rule: lifetime_reachable.induct)
    (auto simp: lifetime_inv_def fresh_inv intro: lifetime_step_inv [unfolded lifetime_inv_def])

section \<open>What it gives\<close>

lemma inv_covered:
  assumes "tables_inv d ap sl"
  shows "fully_covered d"
proof -
  have "row_accounted r d" if "r \<in> set (kernel_decisions d)" for r
  proof -
    obtain q where "q \<in> set (kernel_identity d)" "id_key q = (dr_id r, dr_hash r)"
      using assms \<open>r \<in> set (kernel_decisions d)\<close> unfolding tables_inv_def by blast
    then show ?thesis unfolding row_accounted_def id_key_def by auto
  qed
  moreover have "stamped_or_minus_one (sw_segment_hash s) d = int (sw_count s)"
    if "s \<in> set (kernel_segments d)" for s
    using assms that by (auto simp: tables_inv_def stamped_or_minus_one_def)
  ultimately show ?thesis by (simp add: fully_covered_def)
qed

end
