(* ===== verification/Lookup_Facts.thy ===== *)
theory Lookup_Facts
  imports Ledger_Lifetime Append_Facts
begin

text \<open>
  What a recovered record is, and what the refusals of the repair walk and of the boot gate mean:
  recovery hands out only verified records under the hash the identity row names, whatever seals
  commit meanwhile.
\<close>

section \<open>Recovery\<close>

lemma keeps_snapshot: "world_ok W \<Longrightarrow> evolution.keeps (chain_snapshot E W L)"
  by (auto simp: chain_snapshot_def intro!: evolution_ops)

lemma keeps_segments: "world_ok W \<Longrightarrow> evolution.keeps (ledger_segments E W L)"
  by (auto simp: ledger_segments_def intro!: evolution_ops)

lemma keeps_fetch: "world_ok W \<Longrightarrow> evolution.keeps (fetch_op E W h)"
  by (auto simp: fetch_op_def intro!: evolution_ops)

lemma keeps_recover_sealed: "world_ok W \<Longrightarrow> evolution.keeps (recover_sealed E W L rh seg)"
  unfolding recover_sealed_def
  by (auto intro!: evolution_ops keeps_segments keeps_fetch split: option.split)

lemma keeps_recover_resident: "world_ok W \<Longrightarrow> evolution.keeps (recover_resident E W L i rh)"
  unfolding recover_resident_def
  by (auto intro!: evolution_ops keeps_snapshot keeps_lookup keeps_recover_sealed
      split: option.split presence.split if_split)

lemma find_record_Some: "find_record h rs = Inr (Some r) \<Longrightarrow> r \<in> set rs \<and> sr_hash r = Inr h"
  by (induction rs) (auto split: if_splits)

definition proven :: "'b env \<Rightarrow> ledger \<Rightarrow> hash \<Rightarrow> signed_record \<Rightarrow> bool" where
  "proven E L h r \<longleftrightarrow> sr_hash r = Inr h \<and> self_hashed E r \<and> record_good E (l_verifier E L) r"

lemma segments_headers_ok:
  assumes "ledger_segments E W L s = (Inr headers, t)" "h \<in> set headers"
  shows "hash_ok (sh_last_hash h)"
proof -
  from assms(1) obtain k hs carried w where
    "sort_census (answer k (segments_census_query (c_db t))) = (w, carried)"
    and hs: "try_map (into_header E) carried = Inr hs"
    and o: "order_segments (l_genesis_parent L) hs = Inr headers"
    by (auto simp: ledger_segments_def obind_Inr_iff query_Inr_iff segments_of_rows_def
        split: prod.splits)
  from assms(2) segment_order.order_set [OF o] have "h \<in> set hs" by simp
  with hs show ?thesis
    by (force simp: try_map_Inr_iff list_all2_conv_all_nth in_set_conv_nth dest: into_header_hash_ok)
qed

lemma position_of_less: "position_of seg headers = Some at \<Longrightarrow> at < length headers"
  by (auto simp: position_of_def find_Some_iff)

lemma recover_sealed_proven:
  assumes env: "env_ok E" and gp: "hash_ok (l_genesis_parent L)"
    and run: "recover_sealed E W L rh seg s = (Inr r, t)"
  shows "proven E L rh r"
proof -
  from run obtain headers u at body v where
    hd: "ledger_segments E W L s = (Inr headers, u)" and at: "position_of seg headers = Some at"
    and vs: "verify_segment E (if at = 0 then l_genesis_parent L else sh_last_hash (headers ! (at - 1)))
        body (l_verifier E L) = Inr ()"
    and fr: "find_record rh (sg_records body) = Inr (Some r)"
    by (auto simp: recover_sealed_def obind_Inr_iff split: option.splits)
  have "headers ! (at - 1) \<in> set headers" using position_of_less [OF at] by simp
  with segments_headers_ok [OF hd] gp
  have "hash_ok (if at = 0 then l_genesis_parent L else sh_last_hash (headers ! (at - 1)))" by simp
  from verify_segment_iff [OF env_okD(1,3) [OF env] this] vs
  have "\<forall>r \<in> set (sg_records body). self_hashed E r \<and> record_good E (l_verifier E L) r" by blast
  with find_record_Some [OF fr] show ?thesis by (simp add: proven_def)
qed

lemma recover_resident_proven:
  assumes env: "env_ok E" and gp: "hash_ok (l_genesis_parent L)"
    and run: "recover_resident E W L i rh s = (Inr r, t)"
  shows "proven E L rh r"
proof -
  from run obtain snap u found where
    sn: "chain_snapshot E W L s = (Inr snap, u)"
    and vc: "verify_chain E (cs_root snap) (cs_records snap) (l_verifier E L) = Inr ()"
    and fr: "find_record rh (cs_records snap) = Inr found"
    and rest: "(case found of Some r \<Rightarrow> ret r
       | None \<Rightarrow> obind (ledger_lookup W i) (\<lambda>p.
             case p of
               Sealed again seg \<Rightarrow>
                 if again = rh then recover_sealed E W L rh seg
                 else fail (Integrity ''the row names a record which is not in the resident chain'')
             | Ambiguous copies \<Rightarrow> fail (Conflict ''decision names recorded copies'')
             | _ \<Rightarrow> fail (Integrity ''the row names a record which is not in the resident chain''))) u
       = (Inr r, t)"
    unfolding recover_resident_def obind_Inr_iff op_simps verdict_simps by auto
  show ?thesis
  proof (cases found)
    case (Some q)
    with rest have "q = r" by simp
    from chain_snapshot_Inr [OF sn] have "hash_ok (cs_root snap)"
      using snapshot_root_ok gp by blast
    from verify_chain_iff [OF env_okD(1,3) [OF env] this] vc
    have "\<forall>r \<in> set (cs_records snap). self_hashed E r \<and> record_good E (l_verifier E L) r" by blast
    with find_record_Some fr Some \<open>q = r\<close> show ?thesis by (auto simp: proven_def)
  next
    case None
    with rest obtain p v where
      "(case p of
               Sealed again seg \<Rightarrow>
                 if again = rh then recover_sealed E W L rh seg
                 else fail (Integrity ''the row names a record which is not in the resident chain'')
             | Ambiguous copies \<Rightarrow> fail (Conflict ''decision names recorded copies'')
             | _ \<Rightarrow> fail (Integrity ''the row names a record which is not in the resident chain'')) v
         = (Inr r, t)"
      by (auto simp: obind_Inr_iff)
    then obtain seg where "recover_sealed E W L rh seg v = (Inr r, t)"
      by (cases p) (auto split: if_splits)
    then show ?thesis by (rule recover_sealed_proven [OF env gp])
  qed
qed

lemma lookup_present:
  assumes "ledger_lookup W i s = (Inr p, t)" "db_ok (c_db t)"
    "p = Resident rh \<or> p = Sealed rh seg"
  shows "\<exists>dg. present i rh dg (c_db t)"
proof -
  from assms(1) obtain ident cols u where ir: "identity_rows_of W i s = (Inr (ident, cols), u)"
    and rest: "(if cols \<noteq> [] then
         ret (Ambiguous ((case ident of None \<Rightarrow> [] | Some r \<Rightarrow> [r]) @ cols))
       else
         (case ident of
            None \<Rightarrow>
              obind read_verdict (\<lambda>v.
                if cv_complete v then ret Absent else ret (Unproven (uncovered_hint v)))
          | Some r \<Rightarrow>
              (case dc_segment_hash r of
                 Some seg \<Rightarrow> ret (Sealed (dc_record_hash r) seg)
               | None \<Rightarrow> ret (Resident (dc_record_hash r))))) u = (Inr p, t)"
    by (auto simp: ledger_lookup_def obind_Inr_iff)
  show ?thesis
  proof (cases ident)
    case None
    with rest assms(3) show ?thesis by (auto simp: obind_Inr_iff split: if_splits)
  next
    case (Some c)
    with rest assms(3) have "u = t" "dc_record_hash c = rh"
      by (auto split: if_splits option.splits)
    with identity_rows_sound [of W i s c cols t] ir Some assms(2) show ?thesis by auto
  qed
qed

theorem recover_sound:
  assumes env: "env_ok E" "world_ok W" and gp: "hash_ok (l_genesis_parent L)"
    and db: "db_ok (c_db s)" and run: "recover E W L i s = (Inr r, t)"
  shows "\<exists>h dg. proven E L h r \<and> present i h dg (c_db t)"
proof -
  from run obtain p u where lk: "ledger_lookup W i s = (Inr p, u)"
    and rest: "(case p of
         Absent \<Rightarrow> fail (NotFound ''decision is not in the chain'')
       | Unproven _ \<Rightarrow> fail (Stale ''decision cannot be looked up'')
       | Ambiguous _ \<Rightarrow> fail (Conflict ''decision names recorded copies'')
       | Resident rh \<Rightarrow> recover_resident E W L i rh
       | Sealed rh seg \<Rightarrow> recover_sealed E W L rh seg) u = (Inr r, t)"
    by (auto simp: recover_def obind_Inr_iff)
  have su: "cell_le s u" using evolution.keepsD [OF keeps_lookup [OF env(2)] lk] .
  then have uok: "db_ok (c_db u)" using db by (simp add: cell_le_def)
  obtain rh where pr: "proven E L rh r" and p: "p = Resident rh \<or> (\<exists>seg. p = Sealed rh seg)"
    and ut: "cell_le u t"
  proof (cases p)
    case (Resident rh)
    with rest have "recover_resident E W L i rh u = (Inr r, t)" by simp
    with that Resident recover_resident_proven [OF env(1) gp]
      evolution.keepsD [OF keeps_recover_resident [OF env(2)]] show ?thesis by blast
  next
    case (Sealed rh seg)
    with rest have "recover_sealed E W L rh seg u = (Inr r, t)" by simp
    with that Sealed recover_sealed_proven [OF env(1) gp]
      evolution.keepsD [OF keeps_recover_sealed [OF env(2)]] show ?thesis by blast
  qed (use rest in auto)
  from p lookup_present [OF lk uok] obtain dg where "present i rh dg (c_db u)" by blast
  then have "present i rh dg (c_db t)"
    using present_evolves ut uok unfolding cell_le_def by blast
  with pr show ?thesis by blast
qed

section \<open>The gate\<close>

text \<open>What the last steps of an open leave: the verdict adopted is the one computed from the store.\<close>

lemma open_gate:
  assumes "open_inner E W index k gp False s = (Inr L, t)"
  shows "cv_complete (c_verdict t)"
  using assms
  by (auto simp: open_inner_def Let_def obind_Inr_iff recheck_coverage_def adopt_verdict_def
      cached_of_def split: if_splits)

lemma complete_means_covered:
  assumes "ledger_coverage quiet L s = (Inr c, t)" "coverage_is_complete c"
  shows "fully_covered (c_db s)"
proof -
  from assms(1) have "coverage_of_rows L (coverage_census_query (c_db s)) = Inr c"
    by (auto simp: ledger_coverage_def obind_Inr_iff quiet_query)
  with coverage_complete_iff assms(2) show ?thesis by blast
qed

text \<open>
  The lookup is exact: over any store the chain's life can reach, a lookup answers where the decision
  is, or that the id was never used. Also, opening a ledger that answers leaves every record covered.
\<close>

section \<open>Lookup\<close>

definition expected_presence :: "'b lifetime \<Rightarrow> decision_id \<Rightarrow> presence" where
  "expected_presence g i =
     (case map_of (lt_appended g) i of
        None \<Rightarrow> Absent
      | Some h \<Rightarrow>
          (case map_of (lt_sealed g) i of
             None \<Rightarrow> Resident (Hash h)
           | Some (rh, seg) \<Rightarrow> Sealed (Hash h) (Hash seg)))"

lemma distinct_filter_one:
  assumes "distinct (map f xs)" "r \<in> set xs"
  shows "filter (\<lambda>x. f x = f r) xs = [r]"
  using assms by (intro filter_single) (auto simp: distinct_map dest: inj_onD)

lemma digest_nonempty: "digest_shape s \<Longrightarrow> s \<noteq> []"
  using digest_shape_length by fastforce

lemma copy_of_row:
  assumes "row_exact sl r"
  shows "copy_of_identity r = Inr \<lparr>dc_record_hash = Hash (ir_record_hash r),
     dc_segment_hash = map_option Hash (ir_segment_hash r),
     dc_identity_digest = Hash (ir_identity_digest r)\<rparr>"
  using assms digest_nonempty
  by (cases "ir_segment_hash r") (auto simp: copy_of_identity_def copy_of_def row_exact_def)

lemma lookup_of_row:
  assumes inv: "tables_inv (c_db s) ap sl" and r: "r \<in> set (kernel_identity (c_db s))"
  shows "fst (ledger_lookup quiet (ir_id r) s) = Inr (case ir_segment_hash r of
     None \<Rightarrow> Resident (Hash (ir_record_hash r)) | Some seg \<Rightarrow> Sealed (Hash (ir_record_hash r)) (Hash seg))"
proof -
  from inv have db: "distinct (map ir_id (kernel_identity (c_db s)))" "kernel_collisions (c_db s) = []"
    and re: "row_exact sl r"
    using r by (auto simp: tables_inv_def db_ok_def)
  have "identity_of_id_query (ir_id r) (c_db s) = [IdWitness, IdIdentity r]"
    using distinct_filter_one [OF db(1) r] db(2) by (simp add: identity_of_id_query_def)
  then show ?thesis
    using copy_of_row [OF re]
    by (cases "ir_segment_hash r")
      (simp_all add: ledger_lookup_def identity_rows_of_def quiet_query obind_def on_result_def
        identity_of_rows_def)
qed

lemma lookup_of_none:
  assumes "tables_inv (c_db s) ap sl" "i \<notin> ir_id ` set (kernel_identity (c_db s))"
    "cv_complete (c_verdict s)"
  shows "fst (ledger_lookup quiet i s) = Inr Absent"
proof -
  have "filter (\<lambda>r. ir_id r = i) (kernel_identity (c_db s)) = []"
    using assms(2) by (auto simp: filter_empty_conv)
  then have "identity_of_id_query i (c_db s) = [IdWitness]"
    using assms(1) by (simp add: identity_of_id_query_def tables_inv_def)
  then show ?thesis
    using assms(3)
    by (simp add: ledger_lookup_def identity_rows_of_def quiet_query obind_def on_result_def
        identity_of_rows_def)
qed

theorem lookup_exact:
  assumes g: "lifetime_reachable E g" and s: "c_db s = lt_db g" "cv_complete (c_verdict s)"
  shows "fst (ledger_lookup quiet i s) = Inr (expected_presence g i)"
proof -
  let ?ap = "lt_appended g" and ?sl = "lt_sealed g"
  have inv: "tables_inv (c_db s) ?ap ?sl"
    using lifetime_reachable_inv [OF g] s(1) by (simp add: lifetime_inv_def)
  show ?thesis
  proof (cases "map_of ?ap i")
    case None
    then have "i \<notin> ir_id ` set (kernel_identity (c_db s))"
      using tables_ids [OF inv] by (simp add: map_of_eq_None_iff)
    with lookup_of_none [OF inv _ s(2)] None show ?thesis by (simp add: expected_presence_def)
  next
    case (Some h)
    then have "(i, h) \<in> id_key ` set (kernel_identity (c_db s))"
      using inv map_of_SomeD by (fastforce simp: tables_inv_def)
    then obtain r where r: "r \<in> set (kernel_identity (c_db s))" "ir_id r = i" "ir_record_hash r = h"
      by (auto simp: id_key_def)
    have exact: "ir_segment_hash r = map_option snd (map_of ?sl i)"
    proof (cases "map_of ?sl i")
      case None
      have "row_exact ?sl r" using inv r(1) by (simp add: tables_inv_def)
      with None r(2) show ?thesis
        by (cases "ir_segment_hash r") (force simp: row_exact_def map_of_eq_None_iff)+
    next
      case (Some p)
      obtain rh seg where p: "p = (rh, seg)" by (cases p)
      have "(i, rh, seg) \<in> set ?sl" using map_of_SomeD [OF Some] p by simp
      then obtain q where q: "q \<in> set (kernel_identity (c_db s))" "id_key q = (i, rh)"
          "ir_segment_hash q = Some seg"
        using inv unfolding tables_inv_def by blast
      have "q = r"
        using inv q(1,2) r(1,2) by (auto simp: tables_inv_def db_ok_def distinct_map id_key_def dest: inj_onD)
      with q(3) Some p show ?thesis by simp
    qed
    show ?thesis
      using lookup_of_row [OF inv r(1)] r Some exact
      by (cases "map_of ?sl i") (auto simp: expected_presence_def)
  qed
qed

section \<open>Opening\<close>

lemma recheck_covered:
  assumes "recheck_coverage quiet L s = (Inr c, t)" "coverage_is_complete c"
  shows "fully_covered (c_db t) \<and> cv_complete (c_verdict t)"
proof -
  from assms(1) obtain u where u: "ledger_coverage quiet L s = (Inr c, u)" "t = u\<lparr>c_verdict := cached_of c\<rparr>"
    by (auto simp: recheck_coverage_def obind_Inr_iff adopt_verdict_def)
  have "fully_covered (c_db s)" using complete_means_covered [OF u(1) assms(2)] .
  moreover have "c_db u = c_db s"
    using u(1) by (auto simp: ledger_coverage_def obind_Inr_iff quiet_query degrade_verdict_def
        split: if_splits)
  ultimately show ?thesis using u(2) assms(2) by (simp add: cached_of_def)
qed

theorem open_covered:
  assumes "ledger_open E quiet index k gp s = (Inr L, t)"
  shows "fully_covered (c_db t) \<and> cv_complete (c_verdict t)"
proof -
  from assms obtain L' v c where "recheck_coverage quiet L' v = (Inr c, t)" "coverage_is_complete c"
    by (auto simp: ledger_open_def open_inner_def Let_def obind_Inr_iff split: if_splits)
  then show ?thesis by (rule recheck_covered)
qed

section \<open>Reuse\<close>

theorem reused_id_refused:
  assumes env: "env_ok E" "world_ok W" "decision_ok E d" "db_ok (c_db s)"
    and held: "identity_of (d_id d) (c_db s) = Some r"
    and other: "identity_digest E d \<noteq> Inr (Hash (ir_identity_digest r))"
  shows "fst (append_reported E W L d s) \<noteq> Inr (h, b)"
proof
  assume "fst (append_reported E W L d s) = Inr (h, b)"
  then obtain t where t: "append_reported E W L d s = (Inr (h, b), t)" by (metis prod.collapse)
  from append_reported_result [OF env t] obtain dg where
    dg: "identity_digest E d = Inr dg" "present (d_id d) h dg (c_db t)" by blast
  have le: "cell_le s t" using evolution.keepsD [OF keeps_append [OF env(2)] t] .
  then obtain r' where "identity_of (d_id d) (c_db t) = Some r'" "id_row_le r r'"
    using evolves_identity [OF _ _ held] env(4) unfolding cell_le_def by blast
  with dg other show False by (cases dg) (auto simp: present_def id_row_le_def)
qed

end
