(* ===== verification/Example_Env.thy ===== *)
theory Example_Env
  imports Lookup_Facts
begin

text \<open>
  One concrete instance of the third-party functions, on which every law of \<open>env_ok\<close> holds, with a
  cell, a ledger and a decision to apply the theorems to. Texts are tagged values, digests are the
  hexadecimal digits of a name, and a signature is its key and message cut to length.
\<close>

section \<open>The functions\<close>

datatype blob =
    BJson json
  | BRecord signed_record
  | BRecords "signed_record list"
  | BSegment segment
  | BTail epoch_tail

definition hex_digit :: "nat \<Rightarrow> char" where
  "hex_digit n = (if n < 10 then char_of (48 + n) else char_of (87 + n))"

definition hex_value :: "char \<Rightarrow> nat" where
  "hex_value c = (let n = of_char c in if n < 58 then n - 48 else n - 87)"

fun hex_encode :: "string \<Rightarrow> string" where
  "hex_encode [] = []"
| "hex_encode (c # cs) = hex_digit (of_char c div 16) # hex_digit (of_char c mod 16) # hex_encode cs"

fun hex_decode :: "string \<Rightarrow> string + string" where
  "hex_decode [] = Inr []"
| "hex_decode [c] = Inl ''odd length''"
| "hex_decode (a # b # cs) =
     rbind (hex_decode cs) (\<lambda>r. Inr (char_of (16 * hex_value a + hex_value b) # r))"

definition example_digest :: "string \<Rightarrow> string" where
  "example_digest s = HASH_PREFIX @ take 64 (hex_encode s @ replicate 64 CHR ''0'')"

fun blob_name :: "blob \<Rightarrow> string" where
  "blob_name (BJson (JObj kvs)) = (case map_of kvs ''id'' of Some (JStr s) \<Rightarrow> CHR ''j'' # s | _ \<Rightarrow> ''j'')"
| "blob_name (BJson _) = ''j''"
| "blob_name (BRecord r) = CHR ''r'' # lr_id (sr_record r)"
| "blob_name (BRecords rs) = CHR ''s'' # concat (map (\<lambda>r. lr_id (sr_record r)) rs)"
| "blob_name (BSegment s) = CHR ''g'' # sh_first_id (sg_header s)"
| "blob_name (BTail t) = ''t''"

fun example_links :: "ledger_record list \<Rightarrow> bool" where
  "example_links [] = True"
| "example_links [r] = True"
| "example_links (r # q # rs) =
     (lr_previous_record_hash q = lr_record_hash r \<and> example_links (q # rs))"

definition example_record_hash :: "ledger_record \<Rightarrow> string" where
  "example_record_hash r = example_digest (lr_id r)"

definition text_of :: "json option \<Rightarrow> string" where
  "text_of v = (case v of Some (JStr s) \<Rightarrow> s | _ \<Rightarrow> [])"

definition num_of :: "json option \<Rightarrow> int" where
  "num_of v = (case v of Some (JNum n) \<Rightarrow> n | _ \<Rightarrow> 0)"

definition outcome_of_str :: "string \<Rightarrow> outcome" where
  "outcome_of_str s = (if s = ''allow'' then Allow else if s = ''deny'' then Deny else Degrade)"

definition example_decision_of :: "json \<Rightarrow> string + decision" where
  "example_decision_of v =
     (case v of
        JObj kvs \<Rightarrow>
          Inr \<lparr>d_id = text_of (map_of kvs ''id''), d_prev_hash = Hash (text_of (map_of kvs ''prev_hash'')),
               d_kind = text_of (map_of kvs ''kind''), d_actor = text_of (map_of kvs ''actor''),
               d_capability =
                 (case map_of kvs ''capability'' of Some (JStr s) \<Rightarrow> Some s | _ \<Rightarrow> None),
               d_outcome = outcome_of_str (text_of (map_of kvs ''outcome'')),
               d_reason = text_of (map_of kvs ''reason''),
               d_payload = (case map_of kvs ''payload'' of Some p \<Rightarrow> p | None \<Rightarrow> JNull),
               d_at = Revision (word_of_int (num_of (map_of kvs ''at'')))\<rparr>
      | _ \<Rightarrow> Inl ''not an object'')"

definition example_transition_to :: "manifest_transition \<Rightarrow> json" where
  "example_transition_to t = JObj
     [(''actor'', JStr (mt_actor t)), (''contract'', JStr (bv_contract (mt_binary t))),
      (''from'', JStr (as_str (mt_from t))), (''model'', JStr (mt_model t)),
      (''rahi'', JStr (bv_rahi (mt_binary t))), (''schema_version'', JNum (int (mt_schema_version t))),
      (''to'', JStr (as_str (mt_to t)))]"

definition example_transition_of :: "json \<Rightarrow> string + manifest_transition" where
  "example_transition_of v =
     (case v of
        JObj kvs \<Rightarrow>
          map_err message
            (rbind (hash_parse (text_of (map_of kvs ''from''))) (\<lambda>from.
             rbind (hash_parse (text_of (map_of kvs ''to''))) (\<lambda>to.
             Inr \<lparr>mt_from = from, mt_to = to,
               mt_model = text_of (map_of kvs ''model''),
               mt_schema_version = nat (num_of (map_of kvs ''schema_version'')),
               mt_binary = \<lparr>bv_rahi = text_of (map_of kvs ''rahi''),
                            bv_contract = text_of (map_of kvs ''contract'')\<rparr>,
               mt_actor = text_of (map_of kvs ''actor'')\<rparr>)))
      | _ \<Rightarrow> Inl ''not an object'')"

definition example_sign :: "string \<Rightarrow> string \<Rightarrow> string" where
  "example_sign k m = take 64 (k @ m @ replicate 64 CHR ''-'')"

definition example_env :: "blob env" where
  "example_env =
     \<lparr>canonicalize_value = (\<lambda>v. v),
      canonical_text = BJson,
      sha256_hex = (\<lambda>b. example_digest (blob_name b)),
      compute_record_hash = example_record_hash,
      core_verify_chain = (\<lambda>rs.
        if (\<forall>r \<in> set rs. lr_record_hash r = example_record_hash r) \<and> example_links rs
        then Inr () else Inl ''broken''),
      decision_of_value = example_decision_of,
      transition_to_value = example_transition_to,
      transition_of_value = example_transition_of,
      epoch_to_value = (\<lambda>_. JNull),
      epoch_of_value = (\<lambda>_. Inl ''no epochs''),
      refs_to_value = (\<lambda>_. JNull),
      record_text = BRecord,
      record_of_text = (\<lambda>b. case b of BRecord r \<Rightarrow> Inr r | _ \<Rightarrow> Inl ''not a record''),
      records_text = BRecords,
      segment_text = BSegment,
      segment_of_text = (\<lambda>b. case b of BSegment s \<Rightarrow> Inr s | _ \<Rightarrow> Inl ''not a segment''),
      tail_text = BTail,
      tail_of_text = (\<lambda>b. case b of BTail t \<Rightarrow> Inr t | _ \<Rightarrow> Inl ''not a tail''),
      text_len = (\<lambda>_. 100),
      b64_encode = hex_encode,
      b64_decode = hex_decode,
      ed_public = (\<lambda>k. k),
      ed_point = (\<lambda>_. True),
      ed_sign = example_sign,
      ed_verify = (\<lambda>pk m s. s = example_sign pk m)\<rparr>"

section \<open>The laws hold\<close>

definition hex_digit_good :: "nat \<Rightarrow> bool" where
  "hex_digit_good n \<longleftrightarrow>
     hex_value (hex_digit n) = n \<and> ascii_hexdigit (hex_digit n) \<and> \<not> ascii_upper (hex_digit n) \<and>
     \<not> ascii_space (hex_digit n)"

lemma hex_digits_good: "list_all hex_digit_good [0..<16]"
  by code_simp

lemma hex_digit_good: "n < 16 \<Longrightarrow> hex_digit_good n"
  using hex_digits_good by (simp add: list_all_iff)

lemma char_nibbles: "of_char c div 16 < (16 :: nat)" "of_char c mod 16 < (16 :: nat)"
proof -
  have "of_char c = (of_char c mod 256 :: nat)"
    using of_char_of [of "of_char c :: nat"] by simp
  then have "of_char c < (256 :: nat)" by (metis mod_less_divisor zero_less_numeral)
  then show "of_char c div 16 < (16 :: nat)" by (simp add: less_mult_imp_div_less)
qed simp

lemma hex_encode_good:
  "\<forall>c \<in> set (hex_encode s). ascii_hexdigit c \<and> \<not> ascii_upper c \<and> \<not> ascii_space c"
proof (induction s)
  case Nil
  show ?case by simp
next
  case (Cons c s)
  have "hex_digit_good (of_char c div 16)" "hex_digit_good (of_char c mod 16)"
    using hex_digit_good char_nibbles by blast+
  with Cons show ?case unfolding hex_digit_good_def hex_encode.simps list.set by blast
qed

lemma hex_roundtrip: "hex_decode (hex_encode s) = Inr s"
proof (induction s)
  case Nil
  show ?case by simp
next
  case (Cons c s)
  have "hex_value (hex_digit (of_char c div 16)) = of_char c div 16"
    "hex_value (hex_digit (of_char c mod 16)) = of_char c mod 16"
    using hex_digit_good [OF char_nibbles(1) [of c]] hex_digit_good [OF char_nibbles(2) [of c]]
    unfolding hex_digit_good_def by blast+
  then have "char_of (16 * hex_value (hex_digit (of_char c div 16)) +
      hex_value (hex_digit (of_char c mod 16))) = c"
    by simp
  with Cons show ?case by simp
qed

lemma zero_good: "ascii_hexdigit CHR ''0'' \<and> \<not> ascii_upper CHR ''0''"
  by code_simp

lemma example_digest_shape: "digest_shape (example_digest s)"
proof -
  let ?b = "take 64 (hex_encode s @ replicate 64 CHR ''0'')"
  have l: "length ?b = 64" by simp
  have "\<forall>c \<in> set ?b. ascii_hexdigit c \<and> \<not> ascii_upper c"
    using hex_encode_good [of s] zero_good by (auto dest!: in_set_takeD)
  moreover have "strip_prefix HASH_PREFIX (example_digest s) = Some ?b"
    by (simp add: strip_prefix_Some_iff example_digest_def)
  ultimately show ?thesis
    using l by (auto simp: digest_shape_def hash_parse_def HASH_HEX_LEN_def list_all_iff list_ex_iff)
qed

lemma example_links_iff:
  "example_links rs \<longleftrightarrow> (\<forall>i. Suc i < length rs \<longrightarrow>
     lr_previous_record_hash (rs ! Suc i) = lr_record_hash (rs ! i))"
  by (induction rs rule: example_links.induct) (auto simp: nth_Cons' less_Suc_eq_0_disj)

lemma outcome_roundtrip: "outcome_of_str (outcome_str d) = d"
  by (cases d) (simp_all add: outcome_of_str_def)

lemma example_decision_roundtrip: "example_decision_of (decision_to_value d) = Inr d"
  by (simp add: example_decision_of_def decision_to_value_def text_of_def num_of_def
      json_option_def outcome_roundtrip split: option.splits)

lemma example_env_ok: "env_ok example_env"
  unfolding env_ok_def
proof (intro conjI)
  show "digests_ok example_env"
    by (simp add: digests_ok_def example_env_def example_record_hash_def example_digest_shape)
  show "record_hash_law example_env"
    by (simp add: record_hash_law_def example_env_def example_record_hash_def)
  show "verifier_law example_env"
    by (simp add: verifier_law_def example_env_def example_links_iff)
  show "decision_codec example_env"
    by (simp add: decision_codec_def example_env_def example_decision_roundtrip)
  show "canonical_law example_env"
    by (simp add: canonical_law_def example_env_def)
  show "record_codec example_env" "segment_codec example_env" "tail_codec example_env"
    by (simp_all add: record_codec_def segment_codec_def tail_codec_def example_env_def)
  show "signature_law example_env"
    using hex_encode_good by (auto simp: signature_law_def example_env_def hex_roundtrip example_sign_def)
qed

lemma example_codecs: "codecs_ok example_env"
proof -
  have "texts_nonempty example_env" by (simp add: texts_nonempty_def example_env_def)
  with example_env_ok show ?thesis by (simp add: codecs_ok_def)
qed

lemma example_transition_codec: "transition_codec example_env"
  by (auto simp: transition_codec_def transition_ok_def example_env_def example_transition_of_def
      example_transition_to_def text_of_def num_of_def)

lemma example_transition_hashes: "transition_hashes example_env"
  by (auto simp: transition_hashes_def example_env_def example_transition_of_def
      intro: hash_parse_gives_ok split: json.splits)

end
