(* ===== verification/Example_Cell.thy ===== *)
theory Example_Cell
  imports Example_Env
begin

text \<open>
  A ledger over the example functions: a fresh cell, and a cell that holds the genesis record and
  one decision, whose oldest record a small policy seals.
\<close>

section \<open>The handle and its records\<close>

definition ex_ledger :: ledger where
  "ex_ledger = \<lparr>l_signer = ''k'', l_genesis_parent = Hash (example_digest ''m''),
     l_opened_resident = True, l_opened_sealed = False, l_repair = False\<rparr>"

definition ex_decision :: "string \<Rightarrow> decision" where
  "ex_decision i = decision_new i ''note'' ''ann'' Allow ''why''"

definition ex_hash :: "string \<Rightarrow> hash" where
  "ex_hash i = Hash (example_digest i)"

definition ex_genesis :: signed_record where
  "ex_genesis = record_at example_env ex_ledger (genesis_decision example_env ex_ledger) (ex_hash ''m'')"

definition ex_first :: signed_record where
  "ex_first = record_at example_env ex_ledger (ex_decision ''a'') (ex_hash (genesis_id ex_ledger))"

definition ex_identity :: "string \<Rightarrow> identity_row" where
  "ex_identity i = \<lparr>ir_id = i, ir_identity_digest = example_digest (CHR ''j'' # i),
     ir_record_hash = example_digest i, ir_segment_hash = None\<rparr>"

definition ex_db :: "blob db" where
  "ex_db = \<lparr>kernel_decisions = map (row_of_record example_env) [ex_genesis, ex_first],
     kernel_segments = [],
     kernel_identity = [ex_identity (genesis_id ex_ledger), ex_identity ''a''],
     kernel_collisions = [], kernel_coverage = []\<rparr>"

definition ex_covered :: cached_coverage where
  "ex_covered = \<lparr>cv_complete = True, cv_evidence = [], cv_uncovered = []\<rparr>"

definition ex_fresh :: "blob cell" where
  "ex_fresh = \<lparr>c_db = empty_db, c_objects = [], c_verdict = ex_covered, c_clock = 0\<rparr>"

definition ex_cell :: "blob cell" where
  "ex_cell = \<lparr>c_db = ex_db, c_objects = [], c_verdict = ex_covered, c_clock = 0\<rparr>"

definition ex_policy :: seal_policy where
  "ex_policy = \<lparr>sp_hot_window = 1, sp_segment_size = 1\<rparr>"

section \<open>Reading them\<close>

lemma ex_hash_ok [simp]: "hash_ok (ex_hash i)"
  by (simp add: ex_hash_def hash_ok_def example_digest_shape)

lemma ex_ledger_simps [simp]:
  "l_genesis_parent ex_ledger = ex_hash ''m''" "l_signer ex_ledger = ''k''"
  "l_opened_resident ex_ledger" "\<not> l_opened_sealed ex_ledger" "\<not> l_repair ex_ledger"
  by (simp_all add: ex_ledger_def ex_hash_def)

lemma ex_digests_distinct:
  "distinct (map example_digest [''m'', genesis_id ex_ledger, ''a'', ''s'' @ genesis_id ex_ledger])"
  by code_simp

lemma ex_hashes_distinct [simp]:
  "ex_hash ''m'' \<noteq> ex_hash (genesis_id ex_ledger)" "ex_hash ''m'' \<noteq> ex_hash ''a''"
  "ex_hash (genesis_id ex_ledger) \<noteq> ex_hash ''a''"
  "ex_hash ''a'' \<noteq> ex_hash (genesis_id ex_ledger)"
  "ex_hash ''a'' \<noteq> ex_hash ''m''" "ex_hash (genesis_id ex_ledger) \<noteq> ex_hash ''m''"
  "ex_hash (CHR ''s'' # genesis_id ex_ledger) \<noteq> ex_hash ''m''"
  using ex_digests_distinct by (auto simp: ex_hash_def)

lemma ex_payloads [simp]: "decision_ok example_env (genesis_decision example_env ex_ledger)"
  "decision_ok example_env (ex_decision i)"
  by (simp_all add: decision_ok_def example_env_def)

lemma ex_record_hash: "sr_hash (record_at example_env L d p) = Inr (ex_hash (d_id d))"
  using signed_build_hash(1) [OF env_okD(1,2) [OF example_env_ok]]
  by (simp add: record_at_def ex_hash_def example_env_def example_record_hash_def envelope_of_def)

lemma ex_record_prev: "hash_ok p \<Longrightarrow> sr_prev_hash (record_at E L d p) = Inr p"
  by (simp add: record_at_def)

lemma ex_ids [simp]:
  "d_id (genesis_decision example_env ex_ledger) = genesis_id ex_ledger" "d_id (ex_decision i) = i"
  by (simp_all add: genesis_decision_def with_payload_def decision_new_def ex_decision_def)

lemma ex_links [simp]:
  "sr_hash ex_genesis = Inr (ex_hash (genesis_id ex_ledger))" "sr_hash ex_first = Inr (ex_hash ''a'')"
  "sr_prev_hash ex_genesis = Inr (ex_hash ''m'')"
  "sr_prev_hash ex_first = Inr (ex_hash (genesis_id ex_ledger))"
  by (simp_all add: ex_genesis_def ex_first_def ex_record_hash ex_record_prev)

lemma ex_chain: "chain_parts example_env (ex_hash ''m'') ex_db [] [] [ex_genesis, ex_first]"
proof -
  have "order_chain (ex_hash ''m'') [ex_genesis, ex_first] = Inr [ex_genesis, ex_first]"
    by (simp add: chain_order.order_iff)
  then have "chain_is example_env (ex_hash ''m'') ex_db [] [ex_genesis, ex_first]"
    unfolding chain_is_def
    by (auto intro!: exI [of _ "[ex_genesis, ex_first]"] simp: ex_db_def root_after_def)
  then show ?thesis by (simp add: chain_parts_def history_def root_after_def)
qed

lemma fresh_chain: "chain_history example_env (ex_hash p) empty_db [] []"
proof -
  have "chain_is example_env (ex_hash p) empty_db [] []"
    by (simp add: chain_is_def empty_db_def)
  then show ?thesis
    unfolding chain_history_def chain_parts_def
    by (intro exI [of _ "[]"] exI [of _ "[] :: signed_record list"]) (simp add: history_def root_after_def)
qed

section \<open>A seal of it\<close>

definition ex_segment :: segment where
  "ex_segment =
     \<lparr>sg_header = \<lparr>sh_first_id = genesis_id ex_ledger, sh_last_id = genesis_id ex_ledger, sh_count = 1,
        sh_segment_hash = ex_hash (''s'' @ genesis_id ex_ledger), sh_prev_segment_hash = ex_hash ''m'',
        sh_last_hash = ex_hash (genesis_id ex_ledger), sh_current_manifest = Some (ex_hash ''m''),
        sh_current_epoch = Some (tail_genesis (ex_hash (genesis_id ex_ledger)))\<rparr>,
      sg_records = [ex_genesis]\<rparr>"

lemma ex_envelope [simp]: "lr_id (sr_record ex_genesis) = genesis_id ex_ledger"
  "lr_id (sr_record ex_first) = ''a''"
  by (simp_all add: ex_genesis_def ex_first_def record_at_def)

lemma ex_decisions:
  "sr_decision example_env ex_genesis =
     Inr ((genesis_decision example_env ex_ledger)\<lparr>d_prev_hash := ex_hash ''m''\<rparr>)"
  "sr_decision example_env ex_first =
     Inr ((ex_decision ''a'')\<lparr>d_prev_hash := ex_hash (genesis_id ex_ledger)\<rparr>)"
  using signed_build_decision [OF env_okD(4) [OF example_env_ok]] ex_payloads
  by (simp_all add: ex_genesis_def ex_first_def record_at_def decision_ok_def)

lemma ex_accounted: "accounted_of example_env ex_genesis =
     Inr \<lparr>ac_id = genesis_id ex_ledger, ac_record_hash = ex_hash (genesis_id ex_ledger),
       ac_identity_digest = ex_hash (CHR ''j'' # genesis_id ex_ledger)\<rparr>"
proof -
  have "identity_digest example_env (genesis_decision example_env ex_ledger) =
      Inr (ex_hash (CHR ''j'' # genesis_id ex_ledger))"
    by (simp add: identity_digest_def identity_bytes_def identity_value_eq example_env_def
        example_digest_shape ex_hash_def) (simp add: genesis_decision_def with_payload_def decision_new_def)
  then show ?thesis by (simp add: accounted_of_def ex_decisions)
qed

lemma ex_kinds: "d_kind (genesis_decision example_env ex_ledger) = ''ledger.genesis''"
  by (simp add: genesis_decision_def with_payload_def decision_new_def GENESIS_def)

lemma ex_record_hashes: "lr_record_hash (sr_record ex_genesis) = example_digest (genesis_id ex_ledger)"
  "lr_record_hash (sr_record ex_first) = example_digest ''a''"
  using ex_links(1,2) by (simp_all add: sr_hash_def hash_parse_Inr_iff ex_hash_def)

lemma ex_records_digest: "sha256_hex example_env (records_text example_env [ex_genesis]) =
    example_digest (''s'' @ genesis_id ex_ledger)"
  by (simp add: example_env_def)

lemma ex_seal_segment: "c_db s = ex_db \<Longrightarrow>
  seal_segment example_env quiet ex_ledger [] [ex_genesis] s = (Inr ex_segment, s\<lparr>c_clock := Suc (c_clock s)\<rparr>)"
proof -
  assume s: "c_db s = ex_db"
  have g: "hash_of quiet (genesis_id ex_ledger) s =
      (Inr (Some (ex_hash (genesis_id ex_ledger))), s\<lparr>c_clock := Suc (c_clock s)\<rparr>)"
    by (simp add: hash_of_def quiet_query obind_def on_result_def s ex_db_def hash_of_query_def
        row_of_record_def ex_record_hashes
        example_digest_shape) (simp add: ex_hash_def)
  have m: "manifest_at_tail example_env [ex_genesis] (ex_hash ''m'') = Inr (ex_hash ''m'')"
    by (simp add: manifest_at_tail_def transition_of_def transition_of_decision_def ex_decisions ex_kinds
        TRANSITION_KIND_def)
  have t: "epoch_of example_env ex_genesis = Inr None"
    by (simp add: epoch_of_def epoch_of_decision_def ex_decisions ex_kinds EPOCH_KIND_def)
  have sg: "segment_seal example_env (ex_hash ''m'') [ex_genesis] (Some (ex_hash ''m'')) =
     Inr (ex_segment\<lparr>sg_header := (sg_header ex_segment)\<lparr>sh_current_epoch := None\<rparr>\<rparr>)"
    by (simp add: segment_seal_def U32_MAX_def segment_hash_def ex_records_digest example_digest_shape
        ex_segment_def ex_hash_def [symmetric])
  show ?thesis
    by (simp add: seal_segment_def m epoch_at_tail_def epoch_before_def newest_epoch_def
       genesis_record_hash_def obind_def on_result_def g t sg with_current_epoch_def List.map_filter_def)
      (simp add: ex_segment_def)
qed

lemma ex_path: "path_of (segment_key ex_segment) =
    Inr [''ledger'', ''segments'', genesis_id ex_ledger @ ''-'' @ genesis_id ex_ledger @ ''.json'']"
proof -
  have "segment_key ex_segment =
      ''ledger/segments/'' @ genesis_id ex_ledger @ ''-'' @ genesis_id ex_ledger @ ''.json''"
    by (simp add: segment_key_def header_key_def SEGMENT_PREFIX_def ex_segment_def)
  moreover have "path_of (''ledger/segments/'' @ genesis_id ex_ledger @ ''-'' @ genesis_id ex_ledger @ ''.json'') =
    Inr [''ledger'', ''segments'', genesis_id ex_ledger @ ''-'' @ genesis_id ex_ledger @ ''.json'']"
    by code_simp
  ultimately show ?thesis by simp
qed

definition ex_sealed_db :: "blob db" where
  "ex_sealed_db = \<lparr>kernel_decisions = [row_of_record example_env ex_first],
     kernel_segments = [segment_row_of example_env (sg_header ex_segment)],
     kernel_identity = [(ex_identity (genesis_id ex_ledger))
        \<lparr>ir_segment_hash := Some (example_digest (''s'' @ genesis_id ex_ledger))\<rparr>, ex_identity ''a''],
     kernel_collisions = [],
     kernel_coverage = [\<lparr>vr_segment_hash = example_digest (''s'' @ genesis_id ex_ledger), vr_stamped = 1\<rparr>]\<rparr>"

lemma ex_names: "genesis_id ex_ledger \<noteq> ''a''"
  by (simp add: genesis_id_def)

lemma ex_txn: "txn (seal_statements example_env ex_segment
   [\<lparr>ac_id = genesis_id ex_ledger, ac_record_hash = ex_hash (genesis_id ex_ledger),
       ac_identity_digest = ex_hash (CHR ''j'' # genesis_id ex_ledger)\<rparr>]) ex_db =
   Some (ex_sealed_db, [1, 1, 1, 0, 0, 1])"
  using ex_names
  by (simp add: seal_statements_def insert_segment_def delete_records_def accounting_statements_def
     accounting_of_def ex_db_def ex_sealed_db_def ex_segment_def ex_identity_def ex_hash_def
     row_of_record_def stamp_identity_def stampable_def stamp_row_def accounted_in_def coverage_count_def
     segment_row_of_def)

lemma ex_seal: "\<exists>t. seal_if_needed example_env quiet ex_ledger ex_policy ex_cell =
   (Inr (Some (sg_header ex_segment)), t) \<and> c_db t = ex_sealed_db"
proof -
  have u: "seal_if_needed example_env quiet ex_ledger ex_policy ex_cell =
     obind (seal_segment example_env quiet ex_ledger [] [ex_genesis]) (\<lambda>seg.
       obind (put_object quiet (segment_key seg) (segment_to_bytes example_env seg)) (\<lambda>_.
       seal_commit example_env quiet ex_ledger seg)) (ex_cell\<lparr>c_clock := 3\<rparr>)"
    using seal_unfold [of example_env ex_ledger ex_cell "[]" "[ex_genesis, ex_first]" ex_policy] 
      ex_chain example_codecs
    by (simp add: opened_by_def ex_policy_def ex_cell_def eval_nat_numeral)
  have s: "seal_segment example_env quiet ex_ledger [] [ex_genesis] (ex_cell\<lparr>c_clock := 3\<rparr>) =
     (Inr ex_segment, ex_cell\<lparr>c_clock := 4\<rparr>)"
    using ex_seal_segment [of "ex_cell\<lparr>c_clock := 3\<rparr>"] by (simp add: ex_cell_def)
  define m where "m = ex_cell\<lparr>c_clock := 5, c_objects := [([''ledger'', ''segments'',
     genesis_id ex_ledger @ ''-'' @ genesis_id ex_ledger @ ''.json''], BSegment ex_segment)]\<rparr>"
  have p: "put_object quiet (segment_key ex_segment) (segment_to_bytes example_env ex_segment)
      (ex_cell\<lparr>c_clock := 4\<rparr>) = (Inr (), m)"
    by (simp add: put_object_def archive_put_def ex_path quiet_tick ex_cell_def segment_to_bytes_def
        example_env_def m_def)
  let ?accs = "[\<lparr>ac_id = genesis_id ex_ledger, ac_record_hash = ex_hash (genesis_id ex_ledger),
     ac_identity_digest = ex_hash (CHR ''j'' # genesis_id ex_ledger)\<rparr>]"
  have a: "try_map (accounted_of example_env) (sg_records ex_segment) = Inr ?accs"
    by (simp add: ex_segment_def ex_accounted)
  have tx: "store_txn quiet (seal_statements example_env ex_segment ?accs) m =
      (Inr [1, 1, 1, 0, 0, 1], m\<lparr>c_clock := 6, c_db := ex_sealed_db\<rparr>)"
    using quiet_txn [of "seal_statements example_env ex_segment ?accs" m] ex_txn
    by (simp add: m_def ex_cell_def seal_statements_def)
  have cnt: "sh_count (sg_header ex_segment) = 1"
      "as_str (sh_segment_hash (sg_header ex_segment)) = example_digest (''s'' @ genesis_id ex_ledger)"
    by (simp_all add: ex_segment_def ex_hash_def)
  have st: "stamped_query (example_digest (''s'' @ genesis_id ex_ledger)) ex_sealed_db = [1]"
    by (simp add: stamped_query_def ex_sealed_db_def)
  have x: "\<exists>n. seal_commit example_env quiet ex_ledger ex_segment m =
      (Inr (Some (sg_header ex_segment)), m\<lparr>c_db := ex_sealed_db, c_clock := n\<rparr>)"
    unfolding seal_commit_def obind_def on_result_def a
    by (simp add: tx [simplified] cnt affected_one_def fail_def
        note_unstamped_writer_def stamped_of_def quiet_query accounted_fully_def ensure_def
        st [simplified] obind_def on_result_def) blast
  show ?thesis
    using x by (auto simp: u obind_Inr [where m = "seal_segment example_env quiet ex_ledger [] [ex_genesis]", OF s]
        obind_Inr [where m = "put_object quiet (segment_key ex_segment) (segment_to_bytes example_env ex_segment)", OF p])
qed

section \<open>What runs on them\<close>

lemma ex_fields [simp]:
  "c_db ex_fresh = empty_db" "c_objects ex_fresh = []" "cv_complete (c_verdict ex_fresh)"
  "c_clock ex_fresh = 0"
  "c_db ex_cell = ex_db" "c_objects ex_cell = []" "cv_complete (c_verdict ex_cell)" "c_clock ex_cell = 0"
  by (simp_all add: ex_fresh_def ex_cell_def ex_covered_def)

lemma ex_good: "good_records example_env ex_ledger [ex_genesis, ex_first]"
  using record_at_good [OF example_env_ok]
  by (simp add: good_records_def ex_genesis_def ex_first_def)

lemma ex_opened [simp]: "opened_by ex_ledger [] [ex_genesis, ex_first]"
  by (simp add: opened_by_def)

lemma ex_prev_texts: "lr_previous_record_hash (sr_record ex_genesis) = example_digest ''m''"
  "lr_previous_record_hash (sr_record ex_first) = example_digest (genesis_id ex_ledger)"
  by (simp_all add: ex_genesis_def ex_first_def record_at_def ex_hash_def)

lemma ex_db_ok: "db_ok ex_db"
  using ex_digests_distinct ex_names
  by (simp add: db_ok_def ex_db_def row_of_record_def ex_identity_def ex_prev_texts)

lemma ex_fresh_ok: "db_ok empty_db"
  by (simp add: db_ok_def empty_db_def)

lemma ex_hash_at: "record_hash_at example_env (ex_decision ''a'') p = ex_hash ''a''"
  using ex_record_hash [of ex_ledger "ex_decision ''a''" p]
    signed_build_hash(1) [OF env_okD(1,2) [OF example_env_ok]]
  by (simp add: record_at_def record_hash_at_def)

lemma ex_unused: "unused i empty_db"
  by (simp add: unused_def empty_db_def)

lemma ex_new_parent: "Inr (ex_hash ''a'') \<notin>
    set (map sr_prev_hash ([] @ [record_at example_env ex_ledger (ex_decision ''a'') (ex_hash ''m'')]))"
  by (simp add: ex_record_prev)

lemma ex_append: "\<exists>t. append_reported example_env quiet ex_ledger (ex_decision ''a'') ex_fresh =
    (Inr (ex_hash ''a'', True), t)"
proof -
  have c: "chain_history example_env (l_genesis_parent ex_ledger) (c_db ex_fresh) (c_objects ex_fresh) []"
    using fresh_chain [of "''m''"] by simp
  have "d_id (ex_decision ''a'') \<noteq> []" "unused (d_id (ex_decision ''a'')) (c_db ex_fresh)"
    using ex_unused by simp_all
  from append_at_head [OF example_codecs ex_payloads(2) this(1) _ c _ this(2), of "ex_hash ''m''"]
    ex_new_parent show ?thesis
    by (simp only: ex_hash_at) auto
qed

lemma ex_seal_state:
  assumes "seal_if_needed example_env quiet ex_ledger ex_policy ex_cell = (r, t)"
  shows "r = Inr (Some (sg_header ex_segment)) \<and> c_db t = ex_sealed_db"
  using ex_seal assms by auto

lemma ex_segment_new: "sh_segment_hash (sg_header ex_segment) \<notin>
     set (map sh_prev_segment_hash (map sg_header [] @ [sg_header ex_segment]))"
  by (simp add: ex_segment_def)

section \<open>Its life\<close>

definition ex_life :: "blob lifetime" where
  "ex_life = \<lparr>lt_db = ex_sealed_db,
     lt_appended = [(genesis_id ex_ledger, example_digest (genesis_id ex_ledger)), (''a'', example_digest ''a'')],
     lt_sealed = [(genesis_id ex_ledger, example_digest (genesis_id ex_ledger),
        example_digest (''s'' @ genesis_id ex_ledger))]\<rparr>"

lemma ex_accounted_first: "accounted_of example_env ex_first =
     Inr \<lparr>ac_id = ''a'', ac_record_hash = ex_hash ''a'', ac_identity_digest = ex_hash ''ja''\<rparr>"
proof -
  have "identity_digest example_env (ex_decision ''a'') = Inr (ex_hash ''ja'')"
    by (simp add: identity_digest_def identity_bytes_def identity_value_eq example_env_def
        example_digest_shape ex_hash_def)
  then show ?thesis by (simp add: accounted_of_def ex_decisions)
qed

lemma ex_reachable: "lifetime_reachable example_env ex_life"
proof -
  let ?g = "\<lparr>ac_id = genesis_id ex_ledger, ac_record_hash = ex_hash (genesis_id ex_ledger),
       ac_identity_digest = ex_hash (CHR ''j'' # genesis_id ex_ledger)\<rparr>"
  let ?f = "\<lparr>ac_id = ''a'', ac_record_hash = ex_hash ''a'', ac_identity_digest = ex_hash ''ja''\<rparr>"
  define d1 where "d1 = (empty_db :: blob db)\<lparr>kernel_decisions := [row_of_record example_env ex_genesis],
      kernel_identity := [ex_identity (genesis_id ex_ledger)]\<rparr>"
  have 1: "txn (append_statements example_env ex_genesis ?g) empty_db = Some (d1, [1, 1])"
    by (simp add: append_txn_iff d1_def empty_db_def ex_identity_def ex_hash_def)
  have 2: "txn (append_statements example_env ex_first ?f) d1 = Some (ex_db, [1, 1])"
    using ex_names ex_digests_distinct
    by (auto simp: append_txn_iff d1_def empty_db_def ex_identity_def ex_hash_def ex_db_def
        row_of_record_def ex_prev_texts)
  have s: "segment_verify example_env ex_segment = Inr ()"
    by (simp add: segment_verify_Inr_iff ex_segment_def segment_hash_def ex_records_digest
        example_digest_shape U32_MAX_def) (simp add: ex_hash_def)
  have "lifetime_reachable example_env \<lparr>lt_db = d1, lt_appended = [acc_key ?g], lt_sealed = []\<rparr>"
    using lifetime_reachable.more [OF lifetime_reachable.fresh step_append [OF ex_accounted 1]] by simp
  from lifetime_reachable.more [OF this step_append [OF ex_accounted_first 2]]
  have 3: "lifetime_reachable example_env
      \<lparr>lt_db = ex_db, lt_appended = [acc_key ?g, acc_key ?f], lt_sealed = []\<rparr>" by simp
  have "lifetime_step example_env \<lparr>lt_db = ex_db, lt_appended = [acc_key ?g, acc_key ?f], lt_sealed = []\<rparr>
      \<lparr>lt_db = ex_sealed_db, lt_appended = [acc_key ?g, acc_key ?f], lt_sealed = [] @ map (seal_of ex_segment) [?g]\<rparr>"
    by (rule step_seal [OF _ s _ _ _ ex_txn])
      (simp_all add: ex_segment_def ex_db_def U32_MAX_def ex_accounted)
  from lifetime_reachable.more [OF 3 this] show ?thesis
    by (simp add: ex_life_def acc_key_def seal_of_def ex_hash_def) (simp add: ex_segment_def ex_hash_def)
qed

section \<open>A lost acknowledgement\<close>

text \<open>The store of \<open>ex_fresh\<close> behind a network that drops the answer to the fourth call.\<close>

definition ex_lossy :: "blob world" where
  "ex_lossy = quiet\<lparr>w_fate := (\<lambda>n. if n = 3 then AckLost (Upstream ''lost'') else Acked)\<rparr>"

lemma ex_lossy_simps [simp]:
  "w_db ex_lossy n d = d" "w_objects ex_lossy n a = a" "w_keep ex_lossy n = None"
  "w_fate ex_lossy n = (if n = 3 then AckLost (Upstream ''lost'') else Acked)"
  by (simp_all add: ex_lossy_def)

lemma ex_lossy_ok: "world_ok ex_lossy"
  by (simp add: world_ok_def)

lemma ex_lossy_tick: "tick ex_lossy s = s\<lparr>c_clock := Suc (c_clock s)\<rparr>"
  by (simp add: tick_def)

lemma ex_lossy_query: "c_clock s \<noteq> 3 \<Longrightarrow>
    query_consistent ex_lossy q s = (Inr (q (c_db s)), s\<lparr>c_clock := Suc (c_clock s)\<rparr>)"
  by (simp add: query_consistent_def ex_lossy_tick)

lemma ex_lossy_head: "ledger_head ex_lossy ex_ledger ex_fresh = (Inr (ex_hash ''m''), ex_fresh\<lparr>c_clock := 3\<rparr>)"
  by (simp add: ledger_head_def obind_def on_result_def ex_lossy_query head_query_def empty_db_def
      ledger_count_def count_query_def read_count_def resident_root_def segment_root_census_query_def
      root_of_rows_def root_of_segment_heads_def unclaimed_segments_def eval_nat_numeral)

lemma ex_built: "signed_build example_env (ex_decision ''a''\<lparr>d_prev_hash := ex_hash ''m''\<rparr>) ''k'' = 
  record_at example_env ex_ledger (ex_decision ''a'') (ex_hash ''m'')"
  by (simp add: record_at_def)

lemma ex_identity_digest: "identity_digest example_env (ex_decision ''a'') = Inr (ex_hash ''ja'')"
  by (simp add: identity_digest_def identity_bytes_def identity_value_eq example_env_def
      example_digest_shape ex_hash_def)

lemma ex_built_accounted: "accounted_of example_env (record_at example_env ex_ledger (ex_decision ''a'') (ex_hash ''m'')) =
     Inr \<lparr>ac_id = ''a'', ac_record_hash = ex_hash ''a'', ac_identity_digest = ex_hash ''ja''\<rparr>"
proof -
  have "sr_decision example_env (record_at example_env ex_ledger (ex_decision ''a'') (ex_hash ''m'')) =
      Inr ((ex_decision ''a'')\<lparr>d_prev_hash := ex_hash ''m''\<rparr>)"
    using signed_build_decision [OF env_okD(4) [OF example_env_ok]] ex_payloads(2)
    by (simp add: record_at_def decision_ok_def)
  then show ?thesis
    by (simp add: accounted_of_def ex_record_hash ex_identity_digest) (simp add: record_at_def)
qed

definition ex_row :: identity_row where
  "ex_row = \<lparr>ir_id = ''a'', ir_identity_digest = example_digest ''ja'',
     ir_record_hash = example_digest ''a'', ir_segment_hash = None\<rparr>"

lemma ex_lossy_txn: "\<exists>u. store_txn ex_lossy (append_statements example_env
    (record_at example_env ex_ledger (ex_decision ''a'') (ex_hash ''m''))
    \<lparr>ac_id = ''a'', ac_record_hash = ex_hash ''a'', ac_identity_digest = ex_hash ''ja''\<rparr>)
    (ex_fresh\<lparr>c_clock := 3\<rparr>) = (Inl (Upstream ''lost''), u) \<and> c_clock u = 4 \<and>
    kernel_identity (c_db u) = [ex_row] \<and> kernel_collisions (c_db u) = []"
proof -
  let ?ss = "append_statements example_env
    (record_at example_env ex_ledger (ex_decision ''a'') (ex_hash ''m''))
    \<lparr>ac_id = ''a'', ac_record_hash = ex_hash ''a'', ac_identity_digest = ex_hash ''ja''\<rparr>"
  obtain d ns where d: "txn ?ss empty_db = Some (d, ns)" "kernel_identity d = [ex_row]"
      "kernel_collisions d = []"
    using append_txn_iff [of example_env "record_at example_env ex_ledger (ex_decision ''a'') (ex_hash ''m'')"]
    by (simp add: empty_db_def ex_row_def ex_hash_def)
  moreover have "?ss \<noteq> []" by (simp add: append_statements_def)
  ultimately show ?thesis by (simp add: store_txn_def ex_lossy_tick)
qed

lemma ex_lossy_classify:
  assumes "c_clock u = 4" "kernel_identity (c_db u) = [ex_row]" "kernel_collisions (c_db u) = []"
  shows "\<exists>v. classify ex_lossy ex_ledger ''a'' (ex_hash ''ja'') p e u = (Inr (Landed (ex_hash ''a'')), v)"
  using assms
  by (simp add: classify_def identity_rows_of_def obind_def on_result_def ex_lossy_query
      identity_of_id_query_def ex_row_def identity_of_rows_def copy_of_identity_def copy_of_def
      example_digest_shape) (simp add: ex_hash_def)

lemma ex_lossy_append: "\<exists>t. append_reported example_env ex_lossy ex_ledger (ex_decision ''a'') ex_fresh =
    (Inr (ex_hash ''a'', False), t)"
proof -
  obtain u where u: "store_txn ex_lossy (append_statements example_env
    (record_at example_env ex_ledger (ex_decision ''a'') (ex_hash ''m''))
    \<lparr>ac_id = ''a'', ac_record_hash = ex_hash ''a'', ac_identity_digest = ex_hash ''ja''\<rparr>)
    (ex_fresh\<lparr>c_clock := 3\<rparr>) = (Inl (Upstream ''lost''), u)" "c_clock u = 4"
    "kernel_identity (c_db u) = [ex_row]" "kernel_collisions (c_db u) = []"
    using ex_lossy_txn by blast
  obtain v where v: "classify ex_lossy ex_ledger ''a'' (ex_hash ''ja'') (ex_hash ''m'') (Upstream ''lost'') u =
      (Inr (Landed (ex_hash ''a'')), v)"
    using ex_lossy_classify [OF u(2-4)] by blast
  have at: "append_attempt example_env ex_lossy ex_ledger (ex_decision ''a'') (ex_hash ''ja'') ex_fresh =
      (Inr (Some (ex_hash ''a'', False)), v)"
    by (simp add: append_attempt_def Let_def obind_def on_result_def ex_lossy_head ex_built
        ex_record_hash ex_built_accounted u(1) v)
  have bs: "backstop ex_lossy ''a'' dg ex_fresh = (Inr None, ex_fresh)" for dg
    by (simp add: backstop_def obind_def on_result_def)
  show ?thesis
    using append_loop_first [OF at, of Backstopped]
    by (simp add: append_reported_def obind_def on_result_def ex_identity_digest bs)
qed

text \<open>
  Runs of the reading operations on the example cell: a snapshot, a lookup and a recovery, the coverage
  read, and an open of the ledger over the store that holds the chain already.
\<close>

lemma ex_snapshot: "chain_snapshot example_env quiet ex_ledger (ex_cell\<lparr>c_clock := n\<rparr>) =
   (Inr \<lparr>cs_segments = [], cs_root = ex_hash ''m'', cs_records = [ex_genesis, ex_first]\<rparr>,
    ex_cell\<lparr>c_clock := Suc n\<rparr>)"
proof -
  have "chain_parts example_env (l_genesis_parent ex_ledger) (c_db (ex_cell\<lparr>c_clock := n\<rparr>)) [] []
      [ex_genesis, ex_first]" using ex_chain by simp
  from snapshot_quiet [OF example_codecs this ex_opened] show ?thesis by (simp add: root_after_def)
qed

lemma ex_verifies: "verify_chain example_env (ex_hash ''m'') [ex_genesis, ex_first]
    (l_verifier example_env ex_ledger) = Inr ()"
  using verify_chain_iff [OF env_okD(1,3) [OF example_env_ok] ex_hash_ok [of "''m''"],
      of "[ex_genesis, ex_first]" "l_verifier example_env ex_ledger" "()"] ex_good
  by (simp add: good_records_def)

lemma ex_lookup: "ledger_lookup quiet ''a'' ex_cell = (Inr (Resident (ex_hash ''a'')), ex_cell\<lparr>c_clock := 1\<rparr>)"
  using ex_names
  by (simp add: ledger_lookup_def identity_rows_of_def obind_def on_result_def quiet_query
      identity_of_id_query_def ex_db_def ex_identity_def identity_of_rows_def copy_of_identity_def
      copy_of_def example_digest_shape) (simp add: ex_hash_def)

lemma ex_recover: "recover example_env quiet ex_ledger ''a'' ex_cell = (Inr ex_first, ex_cell\<lparr>c_clock := 2\<rparr>)"
  using ex_snapshot [of 1]
  by (simp add: recover_def recover_resident_def obind_def on_result_def ex_lookup ex_verifies eval_nat_numeral)

lemma ex_accounted_rows: "row_accounted (row_of_record example_env ex_genesis) ex_db"
  "row_accounted (row_of_record example_env ex_first) ex_db"
  by (simp_all add: row_accounted_def ex_db_def ex_identity_def row_of_record_def ex_record_hashes)

lemma ex_coverage: "coverage_of_rows L (coverage_census_query ex_db) =
    (if l_opened_sealed L then Inl (Integrity ''the segment headers read back empty'')
     else Inr \<lparr>cg_uncovered = [], cg_unstamped_resident = 0\<rparr>)"
proof -
  have q: "coverage_census_query ex_db = [CoverageResidentWitness 2, CoverageSealedWitness 0,
     CoverageResidentRow (genesis_id ex_ledger) 1, CoverageResidentRow ''a'' 1]"
    using ex_accounted_rows by (simp add: coverage_census_query_def)
      (simp add: ex_db_def row_of_record_def)
  show ?thesis by (simp add: q coverage_of_rows_def check_census_def)
qed

lemma ex_with_epoch: "with_current_epoch (tail_genesis (ex_hash (genesis_id ex_ledger)))
    (ex_segment\<lparr>sg_header := (sg_header ex_segment)\<lparr>sh_current_epoch := None\<rparr>\<rparr>) = ex_segment"
  by (simp add: with_current_epoch_def ex_segment_def)

lemma ex_sealed: "segment_seal example_env (ex_hash ''m'') [ex_genesis] (Some (ex_hash ''m'')) =
   Inr (ex_segment\<lparr>sg_header := (sg_header ex_segment)\<lparr>sh_current_epoch := None\<rparr>\<rparr>)"
  by (simp add: segment_seal_def U32_MAX_def segment_hash_def ex_records_digest example_digest_shape
      ex_segment_def) (simp add: ex_hash_def)

lemma ex_genesis_parent: "stored_genesis_parent quiet s = (Inr (Some (ex_hash ''m'')), s\<lparr>c_clock := Suc (Suc (c_clock s))\<rparr>)"
  if "c_db s = ex_db"
proof -
  have r: "record_root_query ex_db = [example_digest ''m'']"
    using ex_digests_distinct
    by (auto simp: record_root_query_def ex_db_def row_of_record_def ex_prev_texts ex_record_hashes)
  have "segment_root_query ex_db = []" by (simp add: segment_root_query_def ex_db_def)
  then show ?thesis
    by (simp add: stored_genesis_parent_def obind_def on_result_def quiet_query that one_root_def r
        example_digest_shape) (simp add: ex_hash_def)
qed

lemma ex_backfill: "c_db s = ex_db \<Longrightarrow> backfill_identity example_env quiet s = (Inr 0, s\<lparr>c_clock := Suc (c_clock s)\<rparr>)"
proof -
  assume s: "c_db s = ex_db"
  have "backfill_census_query ex_db = [Witness 2]"
    using ex_accounted_rows by (simp add: backfill_census_query_def) (simp add: ex_db_def)
  then show ?thesis
    by (simp add: backfill_identity_def obind_def on_result_def quiet_query s backfill_statements_def)
qed

lemma ex_open: "\<exists>L t. ledger_open example_env quiet (Inr ()) ''k'' (ex_hash ''x'') ex_cell = (Inr L, t) \<and>
   l_genesis_parent L = ex_hash ''m''"
proof -
  have vc: "\<exists>n. verify_chain_witnessed example_env quiet L Resident_Depth s = (Inr (True, False), s\<lparr>c_clock := n\<rparr>)"
    if "c_db s = ex_db" "l_genesis_parent L = ex_hash ''m''" "l_signer L = ''k''" "\<not> l_opened_sealed L" for L s
  proof -
    have "chain_is example_env (l_genesis_parent L) (c_db s) [] [ex_genesis, ex_first]"
      using ex_chain that by (simp add: chain_parts_def)
    from chain_is_snapshot [OF example_codecs this] that(4) have
      "chain_snapshot example_env quiet L s = (Inr \<lparr>cs_segments = [], cs_root = ex_hash ''m'',
          cs_records = [ex_genesis, ex_first]\<rparr>, s\<lparr>c_clock := Suc (c_clock s)\<rparr>)"
      using that by (simp add: chain_snapshot_def obind_def on_result_def quiet_query root_after_def)
    moreover have "l_verifier example_env L = l_verifier example_env ex_ledger"
      using that by (simp add: l_verifier_def)
    ultimately show ?thesis
      by (auto simp: verify_chain_witnessed_def obind_def on_result_def ex_verifies)
  qed
  let ?s0 = "ex_cell\<lparr>c_verdict := default_verdict\<rparr>"
  let ?L = "\<lparr>l_signer = ''k'', l_genesis_parent = ex_hash ''m'', l_opened_resident = False,
      l_opened_sealed = False, l_repair = False\<rparr>"
  let ?s1 = "?s0\<lparr>c_clock := Suc (Suc (c_clock ?s0))\<rparr>"
  have g: "stored_genesis_parent quiet ?s0 = (Inr (Some (ex_hash ''m'')), ?s1)"
    by (rule ex_genesis_parent) simp
  obtain n where v: "verify_chain_witnessed example_env quiet ?L Resident_Depth ?s1 =
      (Inr (True, False), ?s1\<lparr>c_clock := n\<rparr>)"
    using vc [of ?s1 ?L] by auto
  have b: "backfill_identity example_env quiet (?s1\<lparr>c_clock := n\<rparr>) =
      (Inr 0, ?s1\<lparr>c_clock := Suc n\<rparr>)"
    using ex_backfill [of "?s1\<lparr>c_clock := n\<rparr>"] by simp
  have "\<exists>t. recheck_coverage quiet (?L\<lparr>l_opened_resident := True\<rparr>) (?s1\<lparr>c_clock := Suc n\<rparr>) =
      (Inr \<lparr>cg_uncovered = [], cg_unstamped_resident = 0\<rparr>, t)"
    by (simp add: recheck_coverage_def ledger_coverage_def obind_def on_result_def quiet_query
        ex_coverage degrade_verdict_def adopt_verdict_def coverage_is_complete_def)
  then obtain t where c: "recheck_coverage quiet (?L\<lparr>l_opened_resident := True\<rparr>) (?s1\<lparr>c_clock := Suc n\<rparr>) =
      (Inr \<lparr>cg_uncovered = [], cg_unstamped_resident = 0\<rparr>, t)" by blast
  have "ledger_open example_env quiet (Inr ()) ''k'' (ex_hash ''x'') ex_cell =
      (Inr (?L\<lparr>l_opened_resident := True\<rparr>), t)"
    using g v b c
    by (simp add: ledger_open_def open_inner_def Let_def obind_def on_result_def create_schema_def
        coverage_is_complete_def)
  then show ?thesis by auto
qed

end
