(* ===== verification/Ledger_Theorems.thy ===== *)
theory Ledger_Theorems
  imports Example_Cell
begin

text \<open>
  The properties of the ledger, each with an application to the cell of \<^verbatim>\<open>Example_Cell\<close> where it has
  hypotheses.
\<close>

section \<open>One id, one decision\<close>

text \<open>
  C1: over the life of a chain, whatever appends, seals, reindexes and backfills commit and in
  whatever order, a seal taking records that are still resident, no id is appended twice, the identity
  index is exactly the list of appended ids with their record hashes, and no collision is ever recorded.
\<close>

theorem one_decision_per_id:
  assumes "lifetime_reachable E g"
  shows "distinct (map fst (lt_appended g)) \<and>
     id_key ` set (kernel_identity (lt_db g)) = set (lt_appended g) \<and>
     kernel_collisions (lt_db g) = []"
  using lifetime_reachable_inv [OF assms] by (simp add: lifetime_inv_def tables_inv_def)

theorem one_decision_per_id_witness:
  "lifetime_reachable example_env ex_life \<and>
   id_key ` set (kernel_identity (lt_db ex_life)) = set (lt_appended ex_life)"
  using ex_reachable one_decision_per_id [OF ex_reachable] by blast

text \<open>
  C2: over any store the life of the chain can reach, with a complete verdict, a lookup answers
  \<open>Sealed\<close> with the record hash and the sealing segment for an id that was sealed, \<open>Resident\<close> with the
  record hash for an id that was appended and not sealed, and \<open>Absent\<close> exactly for an id never used.
\<close>

theorem lookup_answers_exactly:
  assumes "lifetime_reachable E g" "c_db s = lt_db g" "cv_complete (c_verdict s)"
  shows "fst (ledger_lookup quiet i s) = Inr (expected_presence g i)"
  by (rule lookup_exact [OF assms])

definition ex_sealed_cell :: "blob cell" where
  "ex_sealed_cell = ex_cell\<lparr>c_db := ex_sealed_db\<rparr>"

theorem lookup_answers_exactly_witness:
  "fst (ledger_lookup quiet (genesis_id ex_ledger) ex_sealed_cell) =
     Inr (Sealed (ex_hash (genesis_id ex_ledger)) (ex_hash (''s'' @ genesis_id ex_ledger))) \<and>
   fst (ledger_lookup quiet ''a'' ex_sealed_cell) = Inr (Resident (ex_hash ''a'')) \<and>
   fst (ledger_lookup quiet ''never'' ex_sealed_cell) = Inr Absent"
proof -
  have g: "c_db ex_sealed_cell = lt_db ex_life" "cv_complete (c_verdict ex_sealed_cell)"
    by (simp_all add: ex_sealed_cell_def ex_life_def)
  have ids: "genesis_id ex_ledger \<noteq> ''never''" by (simp add: genesis_id_def)
  show ?thesis
    using lookup_answers_exactly [OF ex_reachable g] ex_names ids
    by (simp add: expected_presence_def ex_life_def ex_hash_def)
qed

section \<open>Appending\<close>

text \<open>
  C3: whatever the other writers commit, whichever answers are lost or cut short, an append that
  returns a hash leaves its decision in the identity index under that hash and its own digest; and it
  says it appended now only if the id was unused when it started and the record is a row it built and
  inserted itself.
\<close>

theorem append_is_durable:
  assumes "env_ok E" "world_ok W" "decision_ok E d" "db_ok (c_db s)"
    and "append_reported E W L d s = (Inr (h, now), t)"
  shows "\<exists>dg. identity_digest E d = Inr dg \<and> present (d_id d) h dg (c_db t) \<and>
     (now \<longrightarrow> committed E L d h (c_db s) (c_db t))"
  by (rule append_reported_result [OF assms])

theorem append_is_durable_witness:
  "\<exists>t dg. append_reported example_env ex_lossy ex_ledger (ex_decision ''a'') ex_fresh =
     (Inr (ex_hash ''a'', False), t) \<and> present ''a'' (ex_hash ''a'') dg (c_db t)"
proof -
  obtain t where t: "append_reported example_env ex_lossy ex_ledger (ex_decision ''a'') ex_fresh =
     (Inr (ex_hash ''a'', False), t)" using ex_lossy_append by blast
  have "db_ok (c_db ex_fresh)" using ex_fresh_ok by simp
  from append_is_durable [OF example_env_ok ex_lossy_ok ex_payloads(2) this t] t show ?thesis by auto
qed

text \<open>
  An id the index holds under another content is never appended again: whatever the world does,
  the append does not return a hash.
\<close>

theorem reused_id_never_lands:
  assumes "env_ok E" "world_ok W" "decision_ok E d" "db_ok (c_db s)"
    and "identity_of (d_id d) (c_db s) = Some r"
    and "identity_digest E d \<noteq> Inr (Hash (ir_identity_digest r))"
  shows "fst (append_reported E W L d s) \<noteq> Inr (h, now)"
  by (rule reused_id_refused [OF assms])

theorem reused_id_never_lands_witness:
  "\<forall>h now. fst (append_reported example_env ex_lossy ex_ledger (ex_decision ''a'')
     (ex_fresh\<lparr>c_db := empty_db\<lparr>kernel_identity :=
        [ex_identity ''a''\<lparr>ir_identity_digest := example_digest ''z''\<rparr>]\<rparr>\<rparr>)) \<noteq> Inr (h, now)"
proof -
  let ?s = "ex_fresh\<lparr>c_db := empty_db\<lparr>kernel_identity := [ex_identity ''a''\<lparr>ir_identity_digest := example_digest ''z''\<rparr>]\<rparr>\<rparr>"
  have db: "db_ok (c_db ?s)" by (simp add: db_ok_def empty_db_def)
  have held: "identity_of (d_id (ex_decision ''a'')) (c_db ?s) =
      Some (ex_identity ''a''\<lparr>ir_identity_digest := example_digest ''z''\<rparr>)"
    by (simp add: identity_of_def ex_identity_def)
  have "example_digest ''ja'' \<noteq> example_digest ''z''" by code_simp
  then have "identity_digest example_env (ex_decision ''a'') \<noteq>
      Inr (Hash (ir_identity_digest (ex_identity ''a''\<lparr>ir_identity_digest := example_digest ''z''\<rparr>)))"
    by (simp add: ex_identity_digest ex_hash_def)
  from reused_id_never_lands [OF example_env_ok ex_lossy_ok ex_payloads(2) db held this] show ?thesis by blast
qed

text \<open>
  C4: against a store that answers, with a complete verdict, an unused id is appended in the first
  attempt, at the head: the history of the chain, sealed and resident, is extended by exactly the
  record built on its last hash, and that record passes every check of a verification. The last
  hypothesis is that the new hash is not already a parent, which a collision-free digest gives.
\<close>

theorem append_extends_the_chain:
  assumes "codecs_ok E" "decision_ok E d" "d_id d \<noteq> []" "\<not> l_repair L"
    and "chain_history E (l_genesis_parent L) (c_db s) (c_objects s) H"
    and "cv_complete (c_verdict s)" "unused (d_id d) (c_db s)"
    and "parent = chain_end sr_hash (l_genesis_parent L) H"
    and "Inr (record_hash_at E d parent) \<notin> set (map sr_prev_hash (H @ [record_at E L d parent]))"
  shows "\<exists>t. append_reported E quiet L d s = (Inr (record_hash_at E d parent, True), t) \<and>
     chain_history E (l_genesis_parent L) (c_db t) (c_objects t) (H @ [record_at E L d parent]) \<and>
     good_records E L [record_at E L d parent]"
proof -
  have "good_records E L [record_at E L d parent]"
    using record_at_good [of E d L parent] assms(1,2) by (simp add: good_records_def codecs_ok_def)
  with append_at_head [OF assms] show ?thesis by blast
qed

theorem append_extends_the_chain_witness:
  "\<exists>t. append_reported example_env quiet ex_ledger (ex_decision ''a'') ex_fresh =
       (Inr (ex_hash ''a'', True), t) \<and>
     chain_history example_env (ex_hash ''m'') (c_db t) (c_objects t)
       [record_at example_env ex_ledger (ex_decision ''a'') (ex_hash ''m'')]"
proof -
  have c: "chain_history example_env (l_genesis_parent ex_ledger) (c_db ex_fresh) (c_objects ex_fresh) []"
    using fresh_chain [of "''m''"] by simp
  have u: "d_id (ex_decision ''a'') \<noteq> []" "unused (d_id (ex_decision ''a'')) (c_db ex_fresh)"
    using ex_unused by simp_all
  show ?thesis
    using append_extends_the_chain [OF example_codecs ex_payloads(2) u(1) _ c _ u(2), of "ex_hash ''m''"]
      ex_new_parent
    by (simp only: ex_hash_at) auto
qed

text \<open>
  C5: an append makes at most 109 calls to the store and then returns, whatever the store answers and
  whatever others commit: the compare-and-swap loop cannot spin.
\<close>

theorem append_call_bound:
  "c_clock (snd (append_reported E W L d s)) \<le> c_clock s + 109"
  using within_append [of E W L d] unfolding within_def by blast

text \<open>
  The wait before each further attempt lies in the upper half of its window, the window never
  exceeds a quarter of a second, and all the waits of one append together stay below two seconds.
\<close>

theorem append_waits_bounded:
  "backoff_window n div 2 \<le> backoff i n \<and> backoff i n < backoff_window n \<and>
   backoff_window n \<le> APPEND_BACKOFF_CAP \<and>
   sum_list (map (backoff i) [1..<APPEND_ATTEMPTS]) < 2000000"
  using backoff_bounds [of n i] backoff_total [of i] by (simp add: backoff_window_def)

section \<open>Sealing\<close>

text \<open>
  C6: a seal that returns a header has moved exactly the oldest run of its segment size into the
  archive: the history of the chain is unchanged, its new last body is in the archive under the new
  header, and the hot table keeps at least the head record. The last hypothesis is that the new
  segment hash is not already a parent, which a collision-free digest gives.
\<close>

theorem seal_preserves_history:
  assumes "codecs_ok E" "transition_hashes E"
    and "chain_parts E (l_genesis_parent L) (c_db s) (c_objects s) bodies recs"
    and "opened_by L bodies recs" "db_ok (c_db s)"
    and "seal_if_needed E quiet L P s = (Inr (Some h), t)"
    and "sh_segment_hash h \<notin> set (map sh_prev_segment_hash (map sg_header bodies @ [h]))"
  shows "\<exists>seg. sg_header seg = h \<and>
     chain_parts E (l_genesis_parent L) (c_db t) (c_objects t) (bodies @ [seg])
       (drop (sp_segment_size P) recs) \<and>
     history (bodies @ [seg]) @ drop (sp_segment_size P) recs = history bodies @ recs \<and>
     drop (sp_segment_size P) recs \<noteq> []"
  by (rule seal_keeps_history [OF assms])

theorem seal_preserves_history_witness:
  "\<exists>t seg. seal_if_needed example_env quiet ex_ledger ex_policy ex_cell =
       (Inr (Some (sg_header ex_segment)), t) \<and> sg_header seg = sg_header ex_segment \<and>
     chain_parts example_env (ex_hash ''m'') (c_db t) (c_objects t) [seg] [ex_first] \<and>
     sg_records seg = [ex_genesis]"
proof -
  obtain t where t: "seal_if_needed example_env quiet ex_ledger ex_policy ex_cell =
      (Inr (Some (sg_header ex_segment)), t)" using ex_seal by blast
  have c: "chain_parts example_env (l_genesis_parent ex_ledger) (c_db ex_cell) (c_objects ex_cell) []
      [ex_genesis, ex_first]" and db: "db_ok (c_db ex_cell)"
    using ex_chain ex_db_ok by simp_all
  from seal_preserves_history [OF example_codecs example_transition_hashes c ex_opened db t ex_segment_new] t
  show ?thesis by (auto simp: ex_policy_def history_def)
qed

text \<open>
  A seal does not move the manifest the chain answers as current, whatever run it lifts: what the
  archive remembers for the sealed transitions agrees with what the resident tail says.
\<close>

theorem seal_preserves_manifest:
  assumes "codecs_ok E" "transition_hashes E"
    and "chain_parts E (l_genesis_parent L) (c_db s) (c_objects s) bodies recs"
    and "opened_by L bodies recs" "db_ok (c_db s)"
    and "seal_if_needed E quiet L P s = (Inr (Some h), t)"
    and "sh_segment_hash h \<notin> set (map sh_prev_segment_hash (map sg_header bodies @ [h]))"
  shows "fst (current_manifest E quiet L t) = fst (current_manifest E quiet L s)"
  by (rule seal_keeps_manifest [OF assms])

theorem seal_preserves_manifest_witness:
  "\<exists>t. seal_if_needed example_env quiet ex_ledger ex_policy ex_cell =
       (Inr (Some (sg_header ex_segment)), t) \<and>
     fst (current_manifest example_env quiet ex_ledger t) =
       fst (current_manifest example_env quiet ex_ledger ex_cell)"
proof -
  obtain t where t: "seal_if_needed example_env quiet ex_ledger ex_policy ex_cell =
      (Inr (Some (sg_header ex_segment)), t)" using ex_seal by blast
  have c: "chain_parts example_env (l_genesis_parent ex_ledger) (c_db ex_cell) (c_objects ex_cell) []
      [ex_genesis, ex_first]" and db: "db_ok (c_db ex_cell)"
    using ex_chain ex_db_ok by simp_all
  from seal_preserves_manifest [OF example_codecs example_transition_hashes c ex_opened db t ex_segment_new] t
  show ?thesis by blast
qed

text \<open>
  C7: when the body of a segment reached the archive and its transaction did not reach the store,
  the next seal of the same chain is refused with \<open>Conflict\<close> and changes neither the tables nor the
  archive, so it leaves the obstacle in place.
\<close>

theorem seal_blocked_by_orphan_body:
  assumes "codecs_ok E"
    and "chain_parts E (l_genesis_parent L) (c_db s) (c_objects s) bodies recs"
    and "opened_by L bodies recs"
    and "seal_if_needed E quiet L P s = (Inr (Some h), t)"
  shows "\<exists>m t'. seal_if_needed E quiet L P (s\<lparr>c_objects := c_objects t\<rparr>) = (Inl (Conflict m), t') \<and>
     c_db t' = c_db s \<and> c_objects t' = c_objects t"
  by (rule seal_blocked [OF assms])

theorem seal_blocked_by_orphan_body_witness:
  "\<exists>A m t'. seal_if_needed example_env quiet ex_ledger ex_policy (ex_cell\<lparr>c_objects := A\<rparr>) =
     (Inl (Conflict m), t') \<and> c_db t' = ex_db \<and> c_objects t' = A"
proof -
  obtain t where t: "seal_if_needed example_env quiet ex_ledger ex_policy ex_cell =
      (Inr (Some (sg_header ex_segment)), t)" using ex_seal by blast
  have c: "chain_parts example_env (l_genesis_parent ex_ledger) (c_db ex_cell) (c_objects ex_cell) []
      [ex_genesis, ex_first]" using ex_chain by simp
  from seal_blocked_by_orphan_body [OF example_codecs c ex_opened t] show ?thesis
    by (intro exI [of _ "c_objects t"]) simp
qed

section \<open>Reading and verifying the chain\<close>

text \<open>
  C8:   Ordering the rows of the chain gives the list of records in which each binds the one before it,
  from the genesis parent on, uses every row exactly once, and exists exactly when no two rows bind
  one parent: a gap, a fork or a cycle is an error, and the answer does not depend on the row order.
\<close>

theorem order_chain_exact:
  "order_chain genesis_parent rows = Inr recs \<longleftrightarrow>
     mset recs = mset rows \<and> linked sr_prev_hash sr_hash genesis_parent recs \<and>
     distinct (map sr_prev_hash rows)"
  by (rule chain_order.order_iff)

text \<open>
  A snapshot read whose answer was cut short is never accepted as a shorter chain: an accepted
  answer is the whole of the tables, ordered, with the root the archive leaves.
\<close>

theorem snapshot_accounts_for_itself:
  assumes "snapshot_of_rows E L (answer k (chain_snapshot_query d)) = Inr snap"
  shows "snapshot_of_rows E L (chain_snapshot_query d) = Inr snap \<and> snapshot_facts E L d snap"
  using snapshot_short_answer [OF assms] snapshot_sound [OF assms] by blast

theorem snapshot_accounts_for_itself_witness:
  "snapshot_facts example_env ex_ledger ex_db
     \<lparr>cs_segments = [], cs_root = ex_hash ''m'', cs_records = [ex_genesis, ex_first]\<rparr>"
proof -
  have c: "chain_is example_env (l_genesis_parent ex_ledger) ex_db [] [ex_genesis, ex_first]"
    using ex_chain by (simp add: chain_parts_def)
  have "snapshot_of_rows example_env ex_ledger (answer None (chain_snapshot_query ex_db)) =
      Inr \<lparr>cs_segments = [], cs_root = ex_hash ''m'', cs_records = [ex_genesis, ex_first]\<rparr>"
    using chain_is_snapshot [OF example_codecs c] by (simp add: root_after_def)
  from snapshot_accounts_for_itself [OF this] show ?thesis by blast
qed

text \<open>
  C9: \<open>verify_chain\<close> accepts exactly the non-empty lists that start at the genesis parent, in which
  every record binds its predecessor, hashes to what it says, is signed by the cell's key and carries
  the decision its envelope names.
\<close>

theorem verify_chain_exact:
  assumes "digests_ok E" "verifier_law E" "hash_ok root"
  shows "verify_chain E root rs v = Inr u \<longleftrightarrow>
     rs \<noteq> [] \<and> linked sr_prev_hash sr_hash root rs \<and>
     (\<forall>r \<in> set rs. self_hashed E r \<and> record_good E v r)"
  by (rule verify_chain_iff [OF assms])

theorem verify_chain_exact_witness:
  "verify_chain example_env (ex_hash ''m'') [ex_genesis, ex_first] (l_verifier example_env ex_ledger) = Inr () \<and>
   verify_chain example_env (ex_hash ''m'') [ex_first] (l_verifier example_env ex_ledger) \<noteq> Inr ()"
  using verify_chain_exact [OF env_okD(1,3) [OF example_env_ok] ex_hash_ok [of "''m''"],
      of "[ex_genesis, ex_first]" "l_verifier example_env ex_ledger" "()"]
    verify_chain_exact [OF env_okD(1,3) [OF example_env_ok] ex_hash_ok [of "''m''"],
      of "[ex_first]" "l_verifier example_env ex_ledger" "()"] ex_good
  by (simp add: good_records_def)

text \<open>
  C10: a full verification that succeeds, under any interference and any loss of answers, has found
  every sealed body in the archive and proved one unbroken chain from the genesis parent through the
  sealed records to the resident ones, each self-consistent and signed by the cell's key.
\<close>

theorem full_verification_is_sound:
  assumes "env_ok E" "world_ok W" "hash_ok (l_genesis_parent L)"
    and "verify_chain_witnessed E W L Full_Depth s = (Inr (resident, sealed), t)"
  shows "\<exists>bodies rs.
     snapshot_facts E L (c_db (tick W s)) \<lparr>cs_segments = map sg_header bodies,
       cs_root = root_after (l_genesis_parent L) (map sg_header bodies), cs_records = rs\<rparr> \<and>
     (\<forall>b \<in> set bodies. body_in E (c_objects t) b) \<and>
     linked sr_prev_hash sr_hash (l_genesis_parent L) (history bodies @ rs) \<and>
     (\<forall>r \<in> set (history bodies @ rs). self_hashed E r \<and> record_good E (l_verifier E L) r) \<and>
     rs \<noteq> []"
  by (rule full_verification_history [OF assms])

theorem full_verification_is_sound_witness:
  "\<exists>bodies rs. linked sr_prev_hash sr_hash (ex_hash ''m'') (history bodies @ rs) \<and> rs \<noteq> [] \<and>
     snapshot_facts example_env ex_ledger ex_db \<lparr>cs_segments = map sg_header bodies,
       cs_root = root_after (ex_hash ''m'') (map sg_header bodies), cs_records = rs\<rparr>"
proof -
  have c: "chain_parts example_env (l_genesis_parent ex_ledger) (c_db ex_cell) (c_objects ex_cell) []
      [ex_genesis, ex_first]" using ex_chain by simp
  have "good_records example_env ex_ledger (history [] @ [ex_genesis, ex_first])"
    using ex_good by (simp add: history_def)
  from verification_complete [OF example_codecs c ex_opened _ this] obtain n where
    v: "verify_chain_witnessed example_env quiet ex_ledger Full_Depth ex_cell =
      (Inr (True, False), ex_cell\<lparr>c_clock := n\<rparr>)" by auto
  have "hash_ok (l_genesis_parent ex_ledger)" by simp
  from full_verification_is_sound [OF example_env_ok quiet_ok this v] show ?thesis
    by (auto simp: quiet_tick)
qed

text \<open>
  Conversely, over a store that answers, a full verification accepts every chain whose records
  are good: it never refuses what the cell wrote.
\<close>

theorem full_verification_is_complete:
  assumes "codecs_ok E"
    and "chain_parts E (l_genesis_parent L) (c_db s) (c_objects s) bodies recs"
    and "opened_by L bodies recs" "recs \<noteq> []"
    and "good_records E L (history bodies @ recs)"
  shows "\<exists>n. verify_chain_witnessed E quiet L Full_Depth s =
     (Inr (True, bodies \<noteq> []), s\<lparr>c_clock := n\<rparr>)"
  by (rule verification_complete [OF assms])

theorem full_verification_is_complete_witness:
  "\<exists>n. verify_chain_witnessed example_env quiet ex_ledger Full_Depth ex_cell =
     (Inr (True, False), ex_cell\<lparr>c_clock := n\<rparr>)"
proof -
  have c: "chain_parts example_env (l_genesis_parent ex_ledger) (c_db ex_cell) (c_objects ex_cell) []
      [ex_genesis, ex_first]" using ex_chain by simp
  have "good_records example_env ex_ledger (history [] @ [ex_genesis, ex_first])"
    using ex_good by (simp add: history_def)
  from full_verification_is_complete [OF example_codecs c ex_opened _ this] show ?thesis by simp
qed

section \<open>Identity, coverage and recovery\<close>

text \<open>
  A record \<open>recover\<close> returns, under any interference, hashes to what it says, is signed by the
  cell's key, and has the record hash the identity index holds for the id it was asked for.
\<close>

theorem recovery_is_proven:
  assumes "env_ok E" "world_ok W" "hash_ok (l_genesis_parent L)" "db_ok (c_db s)"
    and "recover E W L i s = (Inr r, t)"
  shows "\<exists>h dg. proven E L h r \<and> present i h dg (c_db t)"
  by (rule recover_sound [OF assms])

theorem recovery_is_proven_witness:
  "\<exists>t dg. recover example_env quiet ex_ledger ''a'' ex_cell = (Inr ex_first, t) \<and>
     proven example_env ex_ledger (ex_hash ''a'') ex_first \<and> present ''a'' (ex_hash ''a'') dg (c_db t)"
proof -
  obtain t where t: "recover example_env quiet ex_ledger ''a'' ex_cell = (Inr ex_first, t)"
    using ex_recover by blast
  have gp: "hash_ok (l_genesis_parent ex_ledger)" "db_ok (c_db ex_cell)" using ex_db_ok by simp_all
  from recovery_is_proven [OF example_env_ok quiet_ok gp t] obtain h dg where
    h: "proven example_env ex_ledger h ex_first" "present ''a'' h dg (c_db t)" by blast
  then have "h = ex_hash ''a''" by (simp add: proven_def)
  with h t show ?thesis by blast
qed

text \<open>
  The coverage verdict is exact: the coverage read says complete if and only if every resident
  row is accounted for under its own hash and the counter of every sealed segment is its row count.
\<close>

theorem coverage_verdict_exact:
  assumes "coverage_of_rows L (coverage_census_query d) = Inr c"
  shows "coverage_is_complete c \<longleftrightarrow> fully_covered d"
  by (rule coverage_complete_iff [OF assms])

theorem coverage_verdict_exact_witness:
  "\<exists>c. coverage_of_rows ex_ledger (coverage_census_query ex_db) = Inr c \<and>
     (coverage_is_complete c \<longleftrightarrow> fully_covered ex_db)"
proof -
  obtain c where "coverage_of_rows ex_ledger (coverage_census_query ex_db) = Inr c"
    by (simp add: ex_coverage)
  with coverage_verdict_exact [OF this] show ?thesis by blast
qed

text \<open>
  Coverage never lapses by itself: every store the life of the chain can reach is fully covered,
  so only a writer outside the four transactions can make the coverage verdict incomplete.
\<close>

theorem life_stays_covered:
  assumes "lifetime_reachable E g"
  shows "fully_covered (lt_db g)"
  using lifetime_reachable_inv [OF assms] inv_covered by (auto simp: lifetime_inv_def)

theorem life_stays_covered_witness:
  "kernel_segments (lt_db ex_life) \<noteq> [] \<and> fully_covered (lt_db ex_life)"
  using life_stays_covered [OF ex_reachable] by (simp add: ex_life_def ex_sealed_db_def)

text \<open>
  A ledger opened for service over a store that answers has a fully covered store and carries a
  complete verdict: every later append and lookup of that handle rests on it.
\<close>

theorem open_is_covered:
  assumes "ledger_open E quiet index k gp s = (Inr L, t)"
  shows "fully_covered (c_db t) \<and> cv_complete (c_verdict t)"
  by (rule open_covered [OF assms])

theorem open_is_covered_witness:
  "\<exists>L t. ledger_open example_env quiet (Inr ()) ''k'' (ex_hash ''x'') ex_cell = (Inr L, t) \<and>
     l_genesis_parent L = ex_hash ''m'' \<and> fully_covered (c_db t) \<and> cv_complete (c_verdict t)"
proof -
  obtain L t where "ledger_open example_env quiet (Inr ()) ''k'' (ex_hash ''x'') ex_cell = (Inr L, t)"
      "l_genesis_parent L = ex_hash ''m''" using ex_open by blast
  with open_is_covered [OF this(1)] show ?thesis by blast
qed

text \<open>
  Accounting a segment's records, on any tables whatever, commits, settles every record in one
  segment (stamped, or filed as a collision), sets the segment's counter to exactly the rows that name
  it, and is idempotent: running it again changes nothing.
\<close>

theorem accounting_is_idempotent_and_exact:
  "\<exists>d' ns ms. txn (accounting_statements rows seg) d = Some (d', ns) \<and>
     txn (accounting_statements rows seg) d' = Some (d', ms) \<and>
     (\<forall>a. a \<in> set rows \<longrightarrow> settled (as_str seg) a d') \<and>
     stamped_query (as_str seg) d' = [coverage_count (as_str seg) d']"
proof -
  obtain d' ns where t: "txn (accounting_statements rows seg) d = Some (d', ns)"
    using accounting_total by blast
  from accounting_idempotent [OF t] accounting_settles [OF t] accounting_counter [OF t] t
  show ?thesis by blast
qed

theorem accounting_is_idempotent_and_exact_witness:
  "\<exists>d' ns ms. txn (accounting_statements [\<lparr>ac_id = ''a'', ac_record_hash = ex_hash ''a'',
       ac_identity_digest = ex_hash ''ja''\<rparr>] (ex_hash ''s'')) ex_db = Some (d', ns) \<and>
     txn (accounting_statements [\<lparr>ac_id = ''a'', ac_record_hash = ex_hash ''a'',
       ac_identity_digest = ex_hash ''ja''\<rparr>] (ex_hash ''s'')) d' = Some (d', ms)"
  using accounting_is_idempotent_and_exact [of "[\<lparr>ac_id = ''a'', ac_record_hash = ex_hash ''a'',
       ac_identity_digest = ex_hash ''ja''\<rparr>]" "ex_hash ''s''" ex_db] by blast

text \<open>
  The identity digest covers a decision exactly up to its place in the chain: two decisions have
  the same digested value if and only if they agree in every field but the previous hash.
\<close>

theorem identity_covers_all_but_place:
  "identity_value a = identity_value b \<longleftrightarrow>
     a\<lparr>d_prev_hash := unchained\<rparr> = b\<lparr>d_prev_hash := unchained\<rparr>"
  by (rule identity_value_covers)

text \<open>
  Every committed transaction keeps the primary keys and unique indexes, keeps every segment and
  collision row, and keeps every identity row with its digest and record hash, stamping it with a
  segment at most once.
\<close>

theorem transactions_only_extend:
  assumes "txn ss d = Some (d', ns)" "db_ok d"
  shows "db_ok d' \<and> evolves d d'"
  using txn_db_ok [OF assms] txn_evolves [OF assms(1)] by blast

theorem transactions_only_extend_witness:
  "txn [StampIdentity ''s'' ''a'' (example_digest ''a''), RecomputeCoverage ''s''] ex_db \<noteq> None \<and>
   (\<exists>d'. db_ok d' \<and> evolves ex_db d' \<and> stamped_query ''s'' d' = [1])"
proof -
  obtain d' ns where t: "txn [StampIdentity ''s'' ''a'' (example_digest ''a''), RecomputeCoverage ''s''] ex_db =
      Some (d', ns)" "stamped_query ''s'' d' = [1]"
    using ex_names by (simp add: stamp_identity_def ex_db_def ex_identity_def stamp_row_def
        coverage_count_def stamped_query_def)
  from transactions_only_extend [OF t(1) ex_db_ok] t show ?thesis by auto
qed

section \<open>The archive\<close>

text \<open>
  An archived object is immutable: once a key holds an object, whatever sequence of writes
  follows, reading the key gives that object, and writing it again is refused with \<open>Conflict\<close>.
\<close>

theorem archived_object_is_immutable:
  assumes "archive_put None k b A = (Inr (), A')"
  shows "archive_get False k (fs_archive.put_all ws A') = Inr b \<and>
     (\<exists>m. fst (archive_put None k c (fs_archive.put_all ws A')) = Inl (Conflict m))"
  using fs_archive.written_stays [OF assms] fs_archive.second_put_refused [OF assms] by blast

theorem archived_object_is_immutable_witness:
  "archive_get False ''a/b'' (fs_archive.put_all [(''a/b'', 2), (''c'', 3)] [([''a'', ''b''], 1 :: nat)]) = Inr 1"
proof -
  have "archive_put None ''a/b'' (1 :: nat) [] = (Inr (), [([''a'', ''b''], 1)])" by code_simp
  from archived_object_is_immutable [OF this] show ?thesis by blast
qed

text \<open>
  A sealed segment verifies, and after its body was put under its key, fetching its header from
  the archive gives the segment back.
\<close>

theorem sealed_segment_comes_back:
  assumes "segment_codec E" "segment_seal E prev recs m = Inr s0"
    and "archive_put fault (segment_key (with_current_epoch e s0))
           (segment_to_bytes E (with_current_epoch e s0)) A = (Inr (), A')"
  shows "segment_verify E (with_current_epoch e s0) = Inr () \<and>
     fetch_segment E (\<lambda>k. archive_get False k A') (sg_header (with_current_epoch e s0)) =
       Inr (with_current_epoch e s0)"
  using seal_verifies [OF assms(2)] fetch_after_put [OF assms(1,3)] by simp

theorem sealed_segment_comes_back_witness:
  "\<exists>A'. fetch_segment example_env (\<lambda>k. archive_get False k A') (sg_header ex_segment) = Inr ex_segment"
proof -
  obtain A' where "archive_put None (segment_key ex_segment) (segment_to_bytes example_env ex_segment) [] = (Inr (), A')"
    by (simp add: archive_put_def ex_path)
  then have "archive_put None (segment_key (with_current_epoch (tail_genesis (ex_hash (genesis_id ex_ledger)))
        (ex_segment\<lparr>sg_header := (sg_header ex_segment)\<lparr>sh_current_epoch := None\<rparr>\<rparr>)))
      (segment_to_bytes example_env (with_current_epoch (tail_genesis (ex_hash (genesis_id ex_ledger)))
        (ex_segment\<lparr>sg_header := (sg_header ex_segment)\<lparr>sh_current_epoch := None\<rparr>\<rparr>))) [] = (Inr (), A')"
    by (simp add: ex_with_epoch)
  from sealed_segment_comes_back [OF env_okD(7) [OF example_env_ok] ex_sealed this] show ?thesis
    by (auto simp: ex_with_epoch)
qed

section \<open>Transitions and references\<close>

text \<open>
  A manifest transition read back from the decision that records it is the transition that was
  recorded.
\<close>

theorem transition_comes_back:
  assumes "transition_codec E" "transition_ok t"
  shows "transition_of_decision E (transition_decision E t h) = Inr (Some t)"
  by (rule transition_roundtrip [OF assms])

theorem transition_comes_back_witness:
  "transition_of_decision example_env (transition_decision example_env
     \<lparr>mt_from = ex_hash ''m'', mt_to = ex_hash ''n'', mt_model = ''v2'', mt_schema_version = 7,
      mt_binary = \<lparr>bv_rahi = ''1.0.0'', bv_contract = ''3''\<rparr>, mt_actor = ''ann''\<rparr> (ex_hash ''h'')) =
   Inr (Some \<lparr>mt_from = ex_hash ''m'', mt_to = ex_hash ''n'', mt_model = ''v2'', mt_schema_version = 7,
      mt_binary = \<lparr>bv_rahi = ''1.0.0'', bv_contract = ''3''\<rparr>, mt_actor = ''ann''\<rparr>)"
  by (rule transition_comes_back [OF example_transition_codec]) (simp add: transition_ok_def U32_MAX_def)

text \<open>
  Accepted references carry digests of the chain's own shape and a kind that is not blank; in
  particular an operator cannot smuggle an unchecked digest into an epoch record.
\<close>

theorem references_are_checked:
  assumes "references_parse object typed = Inr refs" "(m, r) \<in> set (named_references refs)"
  shows "digest_shape (ref_digest r) \<and> trim (ref_kind r) \<noteq> []"
  by (rule references_parse_sound [OF assms])

definition ex_reference :: reference where
  "ex_reference = \<lparr>ref_kind = ''slsa'', ref_digest = ''sha256:'' @ replicate 64 CHR ''7'', ref_id = None\<rparr>"

theorem references_are_checked_witness:
  "digest_shape (''sha256:'' @ replicate 64 CHR ''7'') \<and> trim ''slsa'' \<noteq> []"
proof -
  have "references_parse (Inr [(''build'', 80)])
      (Inr \<lparr>refs_build = Some ex_reference, refs_deployment = None, refs_authority = None\<rparr>) =
      Inr \<lparr>refs_build = Some ex_reference, refs_deployment = None, refs_authority = None\<rparr>"
    by code_simp
  moreover have "(''build'', ex_reference) \<in> set (named_references
      \<lparr>refs_build = Some ex_reference, refs_deployment = None, refs_authority = None\<rparr>)"
    by (simp add: named_references_def List.map_filter_def)
  ultimately show ?thesis
    using references_are_checked [of "Inr [(''build'', 80)]" _ _ "''build''" ex_reference]
    by (fastforce simp: ex_reference_def)
qed

text \<open>
  A repair report is a success exactly when no walked segment has a cause and no collision was
  filed; the cause a failed report exits with is one of the most severe.
\<close>

theorem repair_report_exact:
  "(report_outcome rp = Inr () \<longleftrightarrow>
     (\<forall>s. s \<in> set (rp_segments rp) \<longrightarrow> si_cause s = None) \<and> rp_collisions rp = 0) \<and>
   (worst_cause cs = Some c \<longrightarrow> c \<in> set cs \<and> (\<forall>x \<in> set cs. severity x \<le> severity c))"
  using report_outcome_Inr_iff [of rp "()"] worst_cause_max [of cs c] by blast

theorem repair_report_exact_witness:
  "worst_cause [CauseNotFound, CauseIntegrity, CauseIo] = Some CauseIntegrity \<and>
   severity CauseIo \<le> severity CauseIntegrity"
proof -
  have w: "worst_cause [CauseNotFound, CauseIntegrity, CauseIo] = Some CauseIntegrity" by simp
  from repair_report_exact [of empty_report "[CauseNotFound, CauseIntegrity, CauseIo]" CauseIntegrity] w
  show ?thesis by simp
qed

end
