(* ===== verification/Kernel_Capability.thy ===== *)
theory Kernel_Capability
  imports Ledger_Record
begin

text \<open>
  \<^verbatim>\<open>crates/rahi-kernel/src/capability.rs\<close>: the closed vocabulary of capability kinds, the
  declared names and what they match, the constraints that narrow a capability, and when a
  capability covers a request. Names are the validated newtypes of the source; \<open>rn_ok\<close> and
  \<open>sn_ok\<close> state what their parsers guarantee.
\<close>

definition MAX_NAME_LEN :: nat where "MAX_NAME_LEN = 128"

section \<open>The vocabulary\<close>

datatype resource_family =
    FamTable | FamKv | FamCounter | FamSecret | FamEgress | FamFree

fun family_str :: "resource_family \<Rightarrow> string" where
  "family_str FamTable = ''tables''"
| "family_str FamKv = ''kv''"
| "family_str FamCounter = ''counters''"
| "family_str FamSecret = ''secrets''"
| "family_str FamEgress = ''egress''"
| "family_str FamFree = ''none''"

datatype capability_kind =
    DbRead | DbWrite | DbTxn | DbMigrate
  | KvGet | KvPut | KvDelete
  | CounterGet | CounterAdd
  | LockAcquire | NotifyPublish | NotifyListen
  | SecretRead | HttpEgress

definition KIND_ALL :: "capability_kind list" where
  "KIND_ALL =
     [DbRead, DbWrite, DbTxn, DbMigrate, KvGet, KvPut, KvDelete, CounterGet, CounterAdd,
      LockAcquire, NotifyPublish, NotifyListen, SecretRead, HttpEgress]"

fun kind_str :: "capability_kind \<Rightarrow> string" where
  "kind_str DbRead = ''db.read''"
| "kind_str DbWrite = ''db.write''"
| "kind_str DbTxn = ''db.txn''"
| "kind_str DbMigrate = ''db.migrate''"
| "kind_str KvGet = ''kv.get''"
| "kind_str KvPut = ''kv.put''"
| "kind_str KvDelete = ''kv.delete''"
| "kind_str CounterGet = ''counter.get''"
| "kind_str CounterAdd = ''counter.add''"
| "kind_str LockAcquire = ''lock.acquire''"
| "kind_str NotifyPublish = ''notify.publish''"
| "kind_str NotifyListen = ''notify.listen''"
| "kind_str SecretRead = ''secret.read''"
| "kind_str HttpEgress = ''http.egress''"

definition kind_parse :: "string \<Rightarrow> error + capability_kind" where
  "kind_parse s =
     or_error (Validation ''not a capability kind'') (find (\<lambda>c. kind_str c = s) KIND_ALL)"

fun kind_family :: "capability_kind \<Rightarrow> resource_family" where
  "kind_family DbRead = FamTable"
| "kind_family DbWrite = FamTable"
| "kind_family DbTxn = FamTable"
| "kind_family DbMigrate = FamTable"
| "kind_family KvGet = FamKv"
| "kind_family KvPut = FamKv"
| "kind_family KvDelete = FamKv"
| "kind_family CounterGet = FamCounter"
| "kind_family CounterAdd = FamCounter"
| "kind_family SecretRead = FamSecret"
| "kind_family HttpEgress = FamEgress"
| "kind_family LockAcquire = FamFree"
| "kind_family NotifyPublish = FamFree"
| "kind_family NotifyListen = FamFree"

lemma KIND_ALL_complete: "k \<in> set KIND_ALL"
  by (cases k) (simp_all add: KIND_ALL_def)

lemma kind_str_inj: "kind_str k = kind_str k' \<longleftrightarrow> k = k'"
  by (cases k; cases k') simp_all

lemma kind_parse_str [simp]: "kind_parse (kind_str k) = Inr k"
  by (cases k) (simp_all add: kind_parse_def KIND_ALL_def or_error_def)

lemma kind_parse_Inr_iff: "kind_parse s = Inr k \<longleftrightarrow> s = kind_str k"
proof
  assume "kind_parse s = Inr k"
  then show "s = kind_str k" by (auto simp: kind_parse_def find_Some_iff)
qed simp

lemma kind_parse_Inl: "kind_parse s = Inl e \<Longrightarrow> e = Validation ''not a capability kind''"
  by (simp add: kind_parse_def or_error_Inl_iff)

section \<open>Resource names\<close>

datatype resource_name = ResourceName (rn_str: string)

definition rn_char :: "char \<Rightarrow> bool" where
  "rn_char b = (ascii_lower b \<or> ascii_digit b \<or> b \<in> set ''_.:-*'')"

definition resource_name_parse :: "string \<Rightarrow> error + resource_name" where
  "resource_name_parse name =
     (if name = [] then Inl (Validation ''a resource name is not empty'')
      else if MAX_NAME_LEN < length name then Inl (Validation ''the resource name is too long'')
      else if list_ex ascii_upper name then Inl (Validation ''the resource name is not lowercase'')
      else if \<not> list_all rn_char name then Inl (Validation ''the resource name holds another byte'')
      else Inr (ResourceName name))"

definition matches_host :: "resource_name \<Rightarrow> string \<Rightarrow> bool" where
  "matches_host n host =
     (case strip_prefix ''*'' (rn_str n) of
        Some suffix \<Rightarrow> starts_with ''.'' suffix \<and> ends_with suffix host
      | None \<Rightarrow> rn_str n = host)"

definition rn_ok :: "resource_name \<Rightarrow> bool" where
  "rn_ok n \<longleftrightarrow> rn_str n \<noteq> [] \<and> length (rn_str n) \<le> MAX_NAME_LEN \<and> list_all rn_char (rn_str n)"

lemma rn_char_not_upper: "rn_char b \<Longrightarrow> \<not> ascii_upper b"
  by (auto simp: rn_char_def ascii_lower_def ascii_digit_def ascii_upper_def less_eq_char_def)

lemma resource_name_parse_Inr_iff:
  "resource_name_parse s = Inr n \<longleftrightarrow> rn_str n = s \<and> rn_ok n"
  by (cases n)
    (auto simp: resource_name_parse_def rn_ok_def list_ex_iff list_all_iff dest: rn_char_not_upper)

lemma resource_name_reparse: "rn_ok n \<Longrightarrow> resource_name_parse (rn_str n) = Inr n"
  by (simp add: resource_name_parse_Inr_iff)

text \<open>What a pattern matches: itself, or every host that ends in its dotted suffix.\<close>

lemma matches_host_wildcard:
  "matches_host (ResourceName (''*.'' @ d)) h \<longleftrightarrow> (\<exists>l. h = l @ ''.'' @ d)"
  by (auto simp: matches_host_def strip_prefix_def starts_with_def ends_with_iff)

lemma matches_host_exact:
  "\<not> starts_with ''*'' s \<Longrightarrow> matches_host (ResourceName s) h \<longleftrightarrow> h = s"
  by (auto simp: matches_host_def strip_prefix_def starts_with_def)

lemma matches_host_cases:
  assumes "matches_host n h"
  obtains (exact) "rn_str n = h" | (wild) d l where "rn_str n = ''*.'' @ d" "h = l @ ''.'' @ d"
proof (cases "strip_prefix ''*'' (rn_str n)")
  case None
  with assms show ?thesis by (intro exact) (simp add: matches_host_def)
next
  case (Some suffix)
  then have n: "rn_str n = ''*'' @ suffix" by (simp only: strip_prefix_Some_iff)
  from assms Some obtain d l where "suffix = ''.'' @ d" "h = l @ suffix"
    by (auto simp: matches_host_def starts_with_iff ends_with_iff)
  with n show ?thesis by (intro wild [of d l]) simp_all
qed

text \<open>The bare domain is never covered by its wildcard.\<close>

lemma matches_host_not_apex: "\<not> matches_host (ResourceName (''*.'' @ d)) d"
proof
  assume "matches_host (ResourceName (''*.'' @ d)) d"
  then obtain l where "d = l @ ''.'' @ d" unfolding matches_host_wildcard by blast
  then have "length d = length (l @ ''.'' @ d)" by (rule arg_cong)
  then show False by simp
qed

section \<open>Service names\<close>

datatype service_name = ServiceName (sn_str: string)

definition sn_char :: "char \<Rightarrow> bool" where
  "sn_char b = (ascii_lower b \<or> ascii_digit b \<or> b = CHR ''_'' \<or> b = CHR ''-'')"

definition service_name_parse :: "string \<Rightarrow> error + service_name" where
  "service_name_parse name =
     (case name of
        [] \<Rightarrow> Inl (Validation ''a service name is not empty'')
      | first # _ \<Rightarrow>
          if MAX_NAME_LEN < length name then Inl (Validation ''the service name is too long'')
          else if \<not> ascii_lower first then Inl (Validation ''a service name starts with a letter'')
          else if \<not> list_all sn_char name then Inl (Validation ''the service name holds another byte'')
          else Inr (ServiceName name))"

definition sn_ok :: "service_name \<Rightarrow> bool" where
  "sn_ok n \<longleftrightarrow> sn_str n \<noteq> [] \<and> ascii_lower (hd (sn_str n)) \<and>
     length (sn_str n) \<le> MAX_NAME_LEN \<and> list_all sn_char (sn_str n)"

lemma service_name_parse_Inr_iff:
  "service_name_parse s = Inr n \<longleftrightarrow> sn_str n = s \<and> sn_ok n"
  by (cases n; cases s) (auto simp: service_name_parse_def sn_ok_def)

lemma service_name_reparse: "sn_ok n \<Longrightarrow> service_name_parse (sn_str n) = Inr n"
  by (simp add: service_name_parse_Inr_iff)

section \<open>Constraints and capabilities\<close>

record constraints =
  key_prefix :: "string option"
  ct_table :: "resource_name option"
  ct_host :: "resource_name option"

definition no_constraints :: constraints where
  "no_constraints = \<lparr>key_prefix = None, ct_table = None, ct_host = None\<rparr>"

definition constraint_check ::
  "string \<Rightarrow> string \<Rightarrow> 'a option \<Rightarrow> ('a \<Rightarrow> string \<Rightarrow> bool) \<Rightarrow> string option \<Rightarrow> string + unit" where
  "constraint_check outside silent declared ok given =
     (case declared of
        None \<Rightarrow> Inr ()
      | Some want \<Rightarrow>
          (case given of
             None \<Rightarrow> Inl silent
           | Some got \<Rightarrow> if ok want got then Inr () else Inl outside))"

definition admits ::
  "constraints \<Rightarrow> string option \<Rightarrow> string option \<Rightarrow> string option \<Rightarrow> string + unit" where
  "admits c key table host =
     rbind (constraint_check ''key is outside key_prefix'' ''the request carries no key''
              (key_prefix c) starts_with key) (\<lambda>_.
     rbind (constraint_check ''table is not the granted table'' ''the request carries no table''
              (ct_table c) (\<lambda>want t. t = rn_str want) table) (\<lambda>_.
     constraint_check ''host is outside host pattern'' ''the request carries no host''
              (ct_host c) matches_host host))"

definition constraints_is_empty :: "constraints \<Rightarrow> bool" where
  "constraints_is_empty c = (key_prefix c = None \<and> ct_table c = None \<and> ct_host c = None)"

record capability =
  cap_id :: capability_id
  cap_kind :: capability_kind
  cap_resource :: resource_name
  cap_constraints :: constraints

definition covers :: "capability \<Rightarrow> capability_kind \<Rightarrow> string \<Rightarrow> bool" where
  "covers c k resource =
     (if cap_kind c \<noteq> k then False
      else if kind_family k = FamEgress then matches_host (cap_resource c) resource
      else rn_str (cap_resource c) = resource)"

text \<open>A declared predicate is met only by a value that is given.\<close>

definition meets :: "'a option \<Rightarrow> ('a \<Rightarrow> string \<Rightarrow> bool) \<Rightarrow> string option \<Rightarrow> bool" where
  "meets declared ok given \<longleftrightarrow> (\<forall>want. declared = Some want \<longrightarrow> (\<exists>got. given = Some got \<and> ok want got))"

lemma constraint_check_ok: "constraint_check a b d ok g = Inr u \<longleftrightarrow> meets d ok g"
  by (auto simp: constraint_check_def meets_def split: option.splits)

lemma admits_iff:
  "admits c key table host = Inr u \<longleftrightarrow>
     meets (key_prefix c) starts_with key \<and>
     meets (ct_table c) (\<lambda>want t. t = rn_str want) table \<and>
     meets (ct_host c) matches_host host"
  by (auto simp: admits_def constraint_check_ok)

lemma admits_empty: "constraints_is_empty c \<Longrightarrow> admits c key table host = Inr ()"
  by (simp add: admits_iff constraints_is_empty_def meets_def)

lemma admits_silent:
  "\<not> constraints_is_empty c \<Longrightarrow> admits c None None None \<noteq> Inr ()"
  by (auto simp: admits_iff constraints_is_empty_def meets_def)

lemma covers_kind: "covers c k r \<Longrightarrow> cap_kind c = k"
  by (simp add: covers_def split: if_splits)

lemma covers_free: "kind_family k \<noteq> FamEgress \<Longrightarrow> covers c k r \<longleftrightarrow> cap_kind c = k \<and> rn_str (cap_resource c) = r"
  by (auto simp: covers_def)

end
