(* ===== verification/Kernel_Manifest.thy ===== *)
theory Kernel_Manifest
  imports Kernel_Capability Ledger_Chain
begin

text \<open>
  \<^verbatim>\<open>crates/rahi-kernel/src/manifest.rs\<close>: the declared ceiling of a cell, every rule
  \<^verbatim>\<open>Manifest::validate\<close> checks in the order it checks them, and how grants resolve. A
  \<^verbatim>\<open>BTreeMap\<close> is the list of its entries in key order and a \<^verbatim>\<open>BTreeSet\<close> filled by a loop is the
  list of what was inserted. \<open>manifest_ok\<close> is the abstract rule book; validation accepts exactly
  the manifests that follow it.
\<close>

section \<open>The model\<close>

definition MANIFEST_SCHEMA_VERSION :: string where "MANIFEST_SCHEMA_VERSION = ''1.0.0''"
definition DEFAULT_ACCESS_TOKEN_LIFETIME_SECS :: u64 where
  "DEFAULT_ACCESS_TOKEN_LIFETIME_SECS = 600"
definition DEFAULT_NATIVE_REFRESH_LIFETIME_SECS :: u64 where
  "DEFAULT_NATIVE_REFRESH_LIFETIME_SECS = 86400"
definition MAX_ACCESS_TOKEN_LIFETIME_SECS :: u64 where "MAX_ACCESS_TOKEN_LIFETIME_SECS = 86400"
definition NATIVE_REFRESH_GRANULARITY_SECS :: u64 where "NATIVE_REFRESH_GRANULARITY_SECS = 3600"

record app =
  app_name :: resource_name
  app_org :: resource_name

record resources =
  rs_tables :: "resource_name list"
  rs_kv :: "resource_name list"
  rs_counters :: "resource_name list"
  rs_secrets :: "resource_name list"
  rs_egress :: "resource_name list"

fun resources_family :: "resources \<Rightarrow> resource_family \<Rightarrow> resource_name list option" where
  "resources_family r FamTable = Some (rs_tables r)"
| "resources_family r FamKv = Some (rs_kv r)"
| "resources_family r FamCounter = Some (rs_counters r)"
| "resources_family r FamSecret = Some (rs_secrets r)"
| "resources_family r FamEgress = Some (rs_egress r)"
| "resources_family r FamFree = None"

record service =
  sv_capabilities :: "capability_id list"

record gate_policy =
  gp_checks :: "string list"

record ledger_policy =
  lp_schema_version :: string
  lp_max_record_bytes :: u64

record observability =
  ob_metrics_path :: string
  ob_otel :: bool

datatype native_flow = DeviceCode | AuthorizationCode | RefreshToken

fun flow_grant :: "native_flow \<Rightarrow> string" where
  "flow_grant DeviceCode = ''urn:ietf:params:oauth:grant-type:device_code''"
| "flow_grant AuthorizationCode = ''authorization_code''"
| "flow_grant RefreshToken = ''refresh_token''"

fun flow_is_login :: "native_flow \<Rightarrow> bool" where
  "flow_is_login DeviceCode = True"
| "flow_is_login AuthorizationCode = True"
| "flow_is_login RefreshToken = False"

record native_client =
  nc_id :: string
  nc_flows :: "native_flow list"
  nc_scopes :: "string list"
  nc_redirect_uris :: "string list"

definition has_flow :: "native_client \<Rightarrow> native_flow \<Rightarrow> bool" where
  "has_flow c f = (f \<in> set (nc_flows c))"

definition client_grants :: "native_client \<Rightarrow> string list" where
  "client_grants c = map flow_grant (nc_flows c)"

record auth =
  au_operator_role :: string
  au_access_token_lifetime_secs :: "u64 option"
  au_native_refresh_lifetime_secs :: "u64 option"
  au_logout_revokes_bearer :: bool
  au_native_clients :: "native_client list"

record contract =
  co_version :: string

record manifest =
  m_schema_version :: "string option"
  m_app :: app
  m_resources :: resources
  m_capabilities :: "capability list"
  m_services :: "(service_name \<times> service) list"
  m_gate :: gate_policy
  m_ledger :: ledger_policy
  m_observability :: observability
  m_auth :: auth
  m_contract :: contract

section \<open>The text rules\<close>

abbreviation u64_top :: nat where "u64_top \<equiv> 18446744073709551615"
abbreviation u16_top :: nat where "u16_top \<equiv> 65535"

definition major_of :: "string \<Rightarrow> nat option" where
  "major_of version =
     (case split_on (CHR ''.'') version of
        [major, minor, patch] \<Rightarrow>
          if parse_unsigned u64_top minor = None \<or> parse_unsigned u64_top patch = None then None
          else parse_unsigned u64_top major
      | _ \<Rightarrow> None)"

definition ascii_alphanumeric :: "char \<Rightarrow> bool" where
  "ascii_alphanumeric c = (ascii_lower c \<or> ascii_upper c \<or> ascii_digit c)"

definition is_client_id :: "string \<Rightarrow> bool" where
  "is_client_id i =
     (2 \<le> length i \<and> length i \<le> 256 \<and>
      list_all (\<lambda>c. ascii_alphanumeric c \<or> c \<in> set ''._-'') i)"

definition is_scope :: "string \<Rightarrow> bool" where
  "is_scope s =
     (2 \<le> length s \<and> length s \<le> 64 \<and>
      list_all (\<lambda>c. ascii_lower c \<or> ascii_digit c \<or> c \<in> set ''-_/:*'') s)"

definition is_port :: "string \<Rightarrow> bool" where
  "is_port port =
     (case strip_prefix '':'' port of
        None \<Rightarrow> False
      | Some digits \<Rightarrow> digits \<noteq> [] \<and> parse_unsigned u16_top digits \<noteq> None)"

definition authority_host :: "string \<Rightarrow> string option" where
  "authority_host authority =
     (case strip_prefix ''['' authority of
        Some after \<Rightarrow>
          (case split_once (CHR '']'') after of
             Some (host, port) \<Rightarrow> if port \<noteq> [] \<and> \<not> is_port port then None else Some host
           | None \<Rightarrow> None)
      | None \<Rightarrow>
          (case split_once (CHR '':'') authority of
             Some (host, port) \<Rightarrow> if \<not> is_port ('':'' @ port) then None else Some host
           | None \<Rightarrow> Some authority))"

definition authority_of :: "string \<Rightarrow> string" where
  "authority_of rest = takeWhile (\<lambda>c. c \<notin> set ''/?#'') rest"

definition is_loopback_uri :: "string \<Rightarrow> bool" where
  "is_loopback_uri uri =
     (case strip_prefix ''http://'' uri of
        None \<Rightarrow> False
      | Some rest \<Rightarrow>
          (case authority_host (authority_of rest) of
             None \<Rightarrow> False
           | Some host \<Rightarrow> host = ''127.0.0.1'' \<or> host = ''::1''))"

section \<open>Validation\<close>

definition validate_schema_version :: "manifest \<Rightarrow> error + unit" where
  "validate_schema_version m =
     rbind (or_error (Validation ''the manifest names no schema_version'') (m_schema_version m)) (\<lambda>named.
     rbind (or_error (Validation ''schema_version is not MAJOR.MINOR.PATCH'') (major_of named)) (\<lambda>major.
     ensure (major = (case major_of MANIFEST_SCHEMA_VERSION of None \<Rightarrow> 0 | Some n \<Rightarrow> n))
       (Validation ''a different schema major'')))"

definition validate_resources :: "manifest \<Rightarrow> error + unit" where
  "validate_resources m =
     try_each (\<lambda>family.
       (case resources_family (m_resources m) family of
          None \<Rightarrow> Inr ()
        | Some names \<Rightarrow> no_repeat (Validation ''a resource is declared twice'') [] names))
       [FamTable, FamKv, FamCounter, FamSecret, FamEgress]"

fun capabilities_loop :: "resources \<Rightarrow> capability_id list \<Rightarrow> capability list \<Rightarrow> error + unit" where
  "capabilities_loop r seen [] = Inr ()"
| "capabilities_loop r seen (c # cs) =
     (if cap_id c = [] then Inl (Validation ''a capability needs an id'')
      else if cap_id c \<in> set seen then Inl (Validation ''a capability is declared twice'')
      else if (case resources_family r (kind_family (cap_kind c)) of
                 None \<Rightarrow> False
               | Some declared \<Rightarrow> cap_resource c \<notin> set declared)
      then Inl (Validation ''a capability names an undeclared resource'')
      else if (case ct_table (cap_constraints c) of
                 None \<Rightarrow> False
               | Some t \<Rightarrow> t \<notin> set (rs_tables r))
      then Inl (Validation ''a capability constrains to an undeclared table'')
      else capabilities_loop r (cap_id c # seen) cs)"

definition validate_capabilities :: "manifest \<Rightarrow> error + unit" where
  "validate_capabilities m = capabilities_loop (m_resources m) [] (m_capabilities m)"

fun grants_loop :: "capability_id list \<Rightarrow> capability_id list \<Rightarrow> capability_id list \<Rightarrow> error + unit" where
  "grants_loop catalog seen [] = Inr ()"
| "grants_loop catalog seen (i # is) =
     (if i \<notin> set catalog then Inl (Validation ''a grant names an undeclared capability'')
      else if i \<in> set seen then Inl (Validation ''a service is granted a capability twice'')
      else grants_loop catalog (i # seen) is)"

definition validate_services :: "manifest \<Rightarrow> error + unit" where
  "validate_services m =
     try_each (\<lambda>(service, grants).
       grants_loop (map cap_id (m_capabilities m)) [] (sv_capabilities grants)) (m_services m)"

definition GRANT_CHECK_ID :: string where "GRANT_CHECK_ID = ''grants''"
definition OPTIONAL_CHECKS :: "string list" where "OPTIONAL_CHECKS = [''secrets'']"

fun checks_loop :: "string list \<Rightarrow> string list \<Rightarrow> error + unit" where
  "checks_loop seen [] = Inr ()"
| "checks_loop seen (i # is) =
     (if i = GRANT_CHECK_ID then Inl (Validation ''gate.checks names grants'')
      else if i \<notin> set OPTIONAL_CHECKS then Inl (Validation ''not a gate check'')
      else if i \<in> set seen then Inl (Validation ''gate.checks names a check twice'')
      else checks_loop (i # seen) is)"

definition validate_gate :: "manifest \<Rightarrow> error + unit" where
  "validate_gate m = checks_loop [] (gp_checks (m_gate m))"

definition version_major :: "string \<Rightarrow> string" where
  "version_major v = hd (split_on (CHR ''.'') v)"

definition validate_policy :: "manifest \<Rightarrow> error + unit" where
  "validate_policy m =
     (if version_major (lp_schema_version (m_ledger m)) \<noteq> version_major LEDGER_SCHEMA_VERSION
      then Inl (Validation ''ledger.schema_version is a different major'')
      else if lp_max_record_bytes (m_ledger m) = 0
      then Inl (Validation ''ledger.max_record_bytes is greater than zero'')
      else if \<not> starts_with ''/'' (ob_metrics_path (m_observability m))
      then Inl (Validation ''observability.metrics_path is an absolute path'')
      else if au_operator_role (m_auth m) = []
      then Inl (Validation ''auth.operator_role names a role'')
      else if co_version (m_contract m) = []
      then Inl (Validation ''contract.version is the version of the app'')
      else Inr ())"

definition access_token_lifetime_secs :: "manifest \<Rightarrow> u64" where
  "access_token_lifetime_secs m =
     (case au_access_token_lifetime_secs (m_auth m) of
        Some secs \<Rightarrow> secs
      | None \<Rightarrow> DEFAULT_ACCESS_TOKEN_LIFETIME_SECS)"

definition native_refresh_lifetime_secs :: "manifest \<Rightarrow> u64" where
  "native_refresh_lifetime_secs m =
     (case au_native_refresh_lifetime_secs (m_auth m) of
        Some secs \<Rightarrow> secs
      | None \<Rightarrow> DEFAULT_NATIVE_REFRESH_LIFETIME_SECS)"

definition validate_redirects :: "native_client \<Rightarrow> error + unit" where
  "validate_redirects c =
     (if has_flow c AuthorizationCode then
        if nc_redirect_uris c = [] then Inl (Validation ''authorization_code names no redirect_uris'')
        else try_each (\<lambda>uri. ensure (is_loopback_uri uri) (Validation ''not a loopback address''))
               (nc_redirect_uris c)
      else ensure (nc_redirect_uris c = []) (Validation ''redirect_uris without authorization_code''))"

fun clients_loop :: "string list \<Rightarrow> native_client list \<Rightarrow> error + unit" where
  "clients_loop seen [] = Inr ()"
| "clients_loop seen (c # cs) =
     (if \<not> is_client_id (nc_id c) then Inl (Validation ''not a client id'')
      else if nc_id c \<in> set seen then Inl (Validation ''a native client is declared twice'')
      else if \<not> list_ex flow_is_login (nc_flows c) then Inl (Validation ''no flow logs a person in'')
      else
        rbind (no_repeat (Validation ''a flow is named twice'') [] (nc_flows c)) (\<lambda>_.
        rbind (try_each (\<lambda>s. ensure (is_scope s) (Validation ''not a scope'')) (nc_scopes c)) (\<lambda>_.
        rbind (validate_redirects c) (\<lambda>_. clients_loop (nc_id c # seen) cs))))"

definition validate_auth :: "manifest \<Rightarrow> error + unit" where
  "validate_auth m =
     (let lifetime = access_token_lifetime_secs m;
          refresh = native_refresh_lifetime_secs m
      in if \<not> (10 \<le> lifetime \<and> lifetime \<le> MAX_ACCESS_TOKEN_LIFETIME_SECS)
         then Inl (Validation ''auth.access_token_lifetime_secs is out of range'')
         else if refresh < NATIVE_REFRESH_GRANULARITY_SECS
           \<or> refresh mod NATIVE_REFRESH_GRANULARITY_SECS \<noteq> 0
         then Inl (Validation ''auth.native_refresh_lifetime_secs is not in whole hours'')
         else clients_loop [] (au_native_clients (m_auth m)))"

definition validate :: "manifest \<Rightarrow> error + unit" where
  "validate m =
     rbind (validate_schema_version m) (\<lambda>_.
     rbind (validate_resources m) (\<lambda>_.
     rbind (validate_capabilities m) (\<lambda>_.
     rbind (validate_services m) (\<lambda>_.
     rbind (validate_gate m) (\<lambda>_.
     rbind (validate_policy m) (\<lambda>_. validate_auth m))))))"

definition validate_native_scopes :: "manifest \<Rightarrow> string set \<Rightarrow> error + unit" where
  "validate_native_scopes m declared =
     try_each (\<lambda>c.
       try_each (\<lambda>s. ensure (s \<in> declared) (Validation ''a scope no bearer route requires'')) (nc_scopes c))
       (au_native_clients (m_auth m))"

section \<open>Grants\<close>

definition catalog_of :: "manifest \<Rightarrow> capability_id \<Rightarrow> capability option" where
  "catalog_of m = map_of (rev (map (\<lambda>c. (cap_id c, c)) (m_capabilities m)))"

definition resolve :: "manifest \<Rightarrow> service \<Rightarrow> capability list" where
  "resolve m grants = List.map_filter (catalog_of m) (sv_capabilities grants)"

definition grants_of :: "manifest \<Rightarrow> (string \<times> capability list) list" where
  "grants_of m = map (\<lambda>(service, grants). (sn_str service, resolve m grants)) (m_services m)"

definition granted :: "manifest \<Rightarrow> service_name \<Rightarrow> capability list option" where
  "granted m service = map_option (resolve m) (map_of (m_services m) service)"

definition manifest_covers :: "manifest \<Rightarrow> service_name \<Rightarrow> capability_kind \<Rightarrow> string \<Rightarrow> bool" where
  "manifest_covers m service k resource =
     (case granted m service of
        None \<Rightarrow> False
      | Some caps \<Rightarrow> list_ex (\<lambda>c. covers c k resource) caps)"

end
