(* ===== verification/Manifest_Facts.thy ===== *)
theory Manifest_Facts
  imports Kernel_Manifest
begin

text \<open>
  The rule book of a manifest, and that \<open>validate\<close> accepts exactly the manifests that follow it;
  the exact set of loopback redirects; and how the grants of a validated manifest resolve.
\<close>

section \<open>The rule book\<close>

definition client_ok :: "native_client \<Rightarrow> bool" where
  "client_ok c \<longleftrightarrow>
     is_client_id (nc_id c) \<and> (\<exists>f \<in> set (nc_flows c). flow_is_login f) \<and> distinct (nc_flows c) \<and>
     (\<forall>s \<in> set (nc_scopes c). is_scope s) \<and>
     (if AuthorizationCode \<in> set (nc_flows c)
      then nc_redirect_uris c \<noteq> [] \<and> (\<forall>u \<in> set (nc_redirect_uris c). is_loopback_uri u)
      else nc_redirect_uris c = [])"

definition capability_ok :: "resources \<Rightarrow> capability \<Rightarrow> bool" where
  "capability_ok r c \<longleftrightarrow>
     cap_id c \<noteq> [] \<and>
     (\<forall>names. resources_family r (kind_family (cap_kind c)) = Some names \<longrightarrow> cap_resource c \<in> set names) \<and>
     (\<forall>t. ct_table (cap_constraints c) = Some t \<longrightarrow> t \<in> set (rs_tables r))"

definition auth_ok :: "manifest \<Rightarrow> bool" where
  "auth_ok m \<longleftrightarrow>
     10 \<le> access_token_lifetime_secs m \<and> access_token_lifetime_secs m \<le> 86400 \<and>
     3600 \<le> native_refresh_lifetime_secs m \<and> native_refresh_lifetime_secs m mod 3600 = 0 \<and>
     distinct (map nc_id (au_native_clients (m_auth m))) \<and>
     (\<forall>c \<in> set (au_native_clients (m_auth m)). client_ok c)"

definition policy_ok :: "manifest \<Rightarrow> bool" where
  "policy_ok m \<longleftrightarrow>
     version_major (lp_schema_version (m_ledger m)) = ''1'' \<and> lp_max_record_bytes (m_ledger m) \<noteq> 0 \<and>
     (\<exists>p. ob_metrics_path (m_observability m) = ''/'' @ p) \<and>
     au_operator_role (m_auth m) \<noteq> [] \<and> co_version (m_contract m) \<noteq> []"

definition manifest_ok :: "manifest \<Rightarrow> bool" where
  "manifest_ok m \<longleftrightarrow>
     (\<exists>v. m_schema_version m = Some v \<and> major_of v = Some 1) \<and>
     (\<forall>f names. resources_family (m_resources m) f = Some names \<longrightarrow> distinct names) \<and>
     distinct (map cap_id (m_capabilities m)) \<and>
     (\<forall>c \<in> set (m_capabilities m). capability_ok (m_resources m) c) \<and>
     (\<forall>(s, g) \<in> set (m_services m).
        distinct (sv_capabilities g) \<and> set (sv_capabilities g) \<subseteq> cap_id ` set (m_capabilities m)) \<and>
     distinct (gp_checks (m_gate m)) \<and> set (gp_checks (m_gate m)) \<subseteq> {''secrets''} \<and>
     policy_ok m \<and> auth_ok m"

section \<open>Validation is exact\<close>

lemma schema_major: "major_of MANIFEST_SCHEMA_VERSION = Some 1"
  by (simp add: MANIFEST_SCHEMA_VERSION_def major_of_def parse_unsigned_def digits_value_def
      ascii_digit_def less_eq_char_def Let_def)

lemma validate_schema_version_iff:
  "validate_schema_version m = Inr () \<longleftrightarrow> (\<exists>v. m_schema_version m = Some v \<and> major_of v = Some 1)"
  by (auto simp: validate_schema_version_def schema_major)

lemma resources_families:
  "(\<forall>f names. resources_family r f = Some names \<longrightarrow> P names) \<longleftrightarrow>
     P (rs_tables r) \<and> P (rs_kv r) \<and> P (rs_counters r) \<and> P (rs_secrets r) \<and> P (rs_egress r)"
proof
  assume *: "\<forall>f names. resources_family r f = Some names \<longrightarrow> P names"
  show "P (rs_tables r) \<and> P (rs_kv r) \<and> P (rs_counters r) \<and> P (rs_secrets r) \<and> P (rs_egress r)"
    using * [rule_format, of FamTable] * [rule_format, of FamKv] * [rule_format, of FamCounter]
      * [rule_format, of FamSecret] * [rule_format, of FamEgress] by simp
next
  assume "P (rs_tables r) \<and> P (rs_kv r) \<and> P (rs_counters r) \<and> P (rs_secrets r) \<and> P (rs_egress r)"
  moreover have "resources_family r f = Some names \<Longrightarrow>
      names \<in> {rs_tables r, rs_kv r, rs_counters r, rs_secrets r, rs_egress r}" for f names
    by (cases f) auto
  ultimately show "\<forall>f names. resources_family r f = Some names \<longrightarrow> P names" by blast
qed

lemma validate_resources_iff:
  "validate_resources m = Inr () \<longleftrightarrow>
     (\<forall>f names. resources_family (m_resources m) f = Some names \<longrightarrow> distinct names)"
  unfolding resources_families by (simp add: validate_resources_def)

lemma capabilities_loop_iff:
  "capabilities_loop r seen cs = Inr () \<longleftrightarrow>
     distinct (map cap_id cs) \<and> cap_id ` set cs \<inter> set seen = {} \<and> (\<forall>c \<in> set cs. capability_ok r c)"
  by (induction cs arbitrary: seen) (auto simp: capability_ok_def split: option.splits if_splits)

lemma grants_loop_iff:
  "grants_loop catalog seen is = Inr () \<longleftrightarrow>
     distinct is \<and> set is \<inter> set seen = {} \<and> set is \<subseteq> set catalog"
  by (induction "is" arbitrary: seen) auto

lemma validate_services_iff:
  "validate_services m = Inr () \<longleftrightarrow>
     (\<forall>(s, g) \<in> set (m_services m).
        distinct (sv_capabilities g) \<and> set (sv_capabilities g) \<subseteq> cap_id ` set (m_capabilities m))"
  by (simp add: validate_services_def try_each_Inr_iff grants_loop_iff case_prod_unfold)

lemma checks_loop_iff:
  "checks_loop seen is = Inr () \<longleftrightarrow>
     distinct is \<and> set is \<inter> set seen = {} \<and> set is \<subseteq> {''secrets''}"
  by (induction "is" arbitrary: seen) (auto simp: GRANT_CHECK_ID_def OPTIONAL_CHECKS_def)

lemma validate_policy_iff: "validate_policy m = Inr () \<longleftrightarrow> policy_ok m"
proof -
  have "version_major LEDGER_SCHEMA_VERSION = ''1''"
    by (simp add: version_major_def LEDGER_SCHEMA_VERSION_def)
  then show ?thesis
    by (auto simp: validate_policy_def policy_ok_def starts_with_iff)
qed

lemma validate_redirects_iff:
  "validate_redirects c = Inr () \<longleftrightarrow>
     (if AuthorizationCode \<in> set (nc_flows c)
      then nc_redirect_uris c \<noteq> [] \<and> (\<forall>u \<in> set (nc_redirect_uris c). is_loopback_uri u)
      else nc_redirect_uris c = [])"
  by (simp add: validate_redirects_def has_flow_def try_each_Inr_iff)

lemma clients_loop_iff:
  "clients_loop seen cs = Inr () \<longleftrightarrow>
     distinct (map nc_id cs) \<and> nc_id ` set cs \<inter> set seen = {} \<and> (\<forall>c \<in> set cs. client_ok c)"
proof (induction cs arbitrary: seen)
  case Nil
  then show ?case by simp
next
  case (Cons c cs)
  have "clients_loop seen (c # cs) = Inr () \<longleftrightarrow>
      client_ok c \<and> nc_id c \<notin> set seen \<and> clients_loop (nc_id c # seen) cs = Inr ()"
    by (auto simp: client_ok_def list_ex_iff try_each_Inr_iff validate_redirects_iff)
  then show ?case unfolding Cons.IH by auto
qed

lemma validate_auth_iff: "validate_auth m = Inr () \<longleftrightarrow> auth_ok m"
  by (auto simp: validate_auth_def auth_ok_def Let_def clients_loop_iff
      MAX_ACCESS_TOKEN_LIFETIME_SECS_def NATIVE_REFRESH_GRANULARITY_SECS_def not_less)

lemma validate_iff: "validate m = Inr () \<longleftrightarrow> manifest_ok m"
  by (simp add: validate_def validate_schema_version_iff validate_resources_iff
      validate_capabilities_def capabilities_loop_iff validate_services_iff validate_gate_def
      checks_loop_iff validate_policy_iff validate_auth_iff manifest_ok_def del: resources_family.simps)

lemma validate_native_scopes_iff:
  "validate_native_scopes m declared = Inr () \<longleftrightarrow>
     (\<forall>c \<in> set (au_native_clients (m_auth m)). set (nc_scopes c) \<subseteq> declared)"
  by (auto simp: validate_native_scopes_def try_each_Inr_iff)

text \<open>Every refusal of a manifest is a validation error, so the deploy step exits with 1.\<close>

lemma no_repeat_Inl: "no_repeat e seen xs = Inl e' \<Longrightarrow> e' = e"
  by (induction xs arbitrary: seen) (auto split: if_splits)

lemma capabilities_loop_Inl: "capabilities_loop r seen cs = Inl e \<Longrightarrow> \<exists>t. e = Validation t"
  by (induction cs arbitrary: seen) (auto split: option.splits if_splits)

lemma grants_loop_Inl: "grants_loop cat seen is = Inl e \<Longrightarrow> \<exists>t. e = Validation t"
  by (induction "is" arbitrary: seen) (auto split: if_splits)

lemma checks_loop_Inl: "checks_loop seen is = Inl e \<Longrightarrow> \<exists>t. e = Validation t"
  by (induction "is" arbitrary: seen) (auto split: if_splits)

lemma try_each_Inl: "try_each f xs = Inl e \<Longrightarrow> \<exists>x \<in> set xs. f x = Inl e"
  by (induction xs) (auto simp: rbind_Inl_iff)

lemma validate_redirects_Inl: "validate_redirects c = Inl e \<Longrightarrow> \<exists>t. e = Validation t"
  by (auto simp: validate_redirects_def split: if_splits dest!: try_each_Inl)

lemma clients_loop_Inl: "clients_loop seen cs = Inl e \<Longrightarrow> \<exists>t. e = Validation t"
  by (induction cs arbitrary: seen)
    (auto simp: rbind_Inl_iff split: if_splits dest: no_repeat_Inl validate_redirects_Inl dest!: try_each_Inl)

lemma validate_Inl:
  assumes "validate m = Inl e"
  shows "\<exists>t. e = Validation t"
proof -
  have schema: "validate_schema_version m = Inl e \<Longrightarrow> \<exists>t. e = Validation t"
    by (auto simp: validate_schema_version_def rbind_Inl_iff or_error_Inl_iff)
  have res: "validate_resources m = Inl e \<Longrightarrow> \<exists>t. e = Validation t"
    unfolding validate_resources_def
    by (drule try_each_Inl) (auto split: option.splits dest!: no_repeat_Inl)
  have svc: "validate_services m = Inl e \<Longrightarrow> \<exists>t. e = Validation t"
    unfolding validate_services_def
    by (drule try_each_Inl) (auto dest: grants_loop_Inl)
  have pol: "validate_policy m = Inl e \<Longrightarrow> \<exists>t. e = Validation t"
    by (auto simp: validate_policy_def split: if_splits)
  have au: "validate_auth m = Inl e \<Longrightarrow> \<exists>t. e = Validation t"
    by (auto simp: validate_auth_def Let_def split: if_splits dest: clients_loop_Inl)
  from assms show ?thesis
    by (auto simp: validate_def rbind_Inl_iff validate_capabilities_def validate_gate_def
        dest: schema res svc pol au capabilities_loop_Inl checks_loop_Inl)
qed

section \<open>Loopback redirects\<close>

definition port_suffix :: "string \<Rightarrow> bool" where
  "port_suffix p \<longleftrightarrow>
     p = [] \<or> (\<exists>ds. p = '':'' @ ds \<and> ds \<noteq> [] \<and> parse_unsigned u16_top ds \<noteq> None)"

definition uri_tail :: "string \<Rightarrow> bool" where
  "uri_tail t \<longleftrightarrow> t = [] \<or> hd t \<in> set ''/?#''"

lemma is_port_iff: "is_port p \<longleftrightarrow> (\<exists>ds. p = '':'' @ ds \<and> ds \<noteq> [] \<and> parse_unsigned u16_top ds \<noteq> None)"
proof (cases "strip_prefix '':'' p")
  case None
  then have "\<nexists>ds. p = '':'' @ ds" using strip_prefix_Some_iff [of "'':''" p] by (metis option.distinct(1))
  with None show ?thesis by (simp add: is_port_def)
next
  case (Some ds)
  then have "p = '':'' @ ds" by (simp only: strip_prefix_Some_iff)
  with Some show ?thesis by (simp add: is_port_def)
qed

lemma parse_unsigned_chars:
  "parse_unsigned b s = Some v \<Longrightarrow> c \<in> set s \<Longrightarrow> ascii_digit c \<or> c = CHR ''+''"
  by (cases s) (auto simp: parse_unsigned_def Let_def list_all_iff split: if_splits)

lemma digit_not_delimiter: "ascii_digit c \<Longrightarrow> c \<notin> set ''/?#''"
  by (auto simp: ascii_digit_def less_eq_char_def)

lemma port_suffix_chars:
  assumes "port_suffix p" "c \<in> set p"
  shows "c \<notin> set ''/?#''"
proof -
  from assms consider "c = CHR '':''" | ds where "parse_unsigned u16_top ds \<noteq> None" "c \<in> set ds"
    unfolding port_suffix_def by fastforce
  then show ?thesis
  proof cases
    case 1
    then show ?thesis by simp
  next
    case 2
    then have "ascii_digit c \<or> c = CHR ''+''" by (auto dest: parse_unsigned_chars)
    then show ?thesis using digit_not_delimiter by auto
  qed
qed

text \<open>An authority and what follows it.\<close>

lemma authority_split: "rest = authority_of rest @ t \<Longrightarrow> uri_tail t"
proof -
  assume *: "rest = authority_of rest @ t"
  then have "t = dropWhile (\<lambda>c. c \<notin> set ''/?#'') rest"
    unfolding authority_of_def by (metis same_append_eq takeWhile_dropWhile_id)
  then show ?thesis
    using hd_dropWhile [of "\<lambda>c. c \<notin> set ''/?#''" rest] by (auto simp: uri_tail_def)
qed

lemma authority_of_append:
  assumes "\<forall>c \<in> set a. c \<notin> set ''/?#''" "uri_tail t"
  shows "authority_of (a @ t) = a"
proof -
  have "takeWhile (\<lambda>c. c \<notin> set ''/?#'') (a @ t) = a @ takeWhile (\<lambda>c. c \<notin> set ''/?#'') t"
    using assms(1) by (intro takeWhile_append2) blast
  moreover have "takeWhile (\<lambda>c. c \<notin> set ''/?#'') t = []"
    using assms(2) by (cases t) (auto simp: uri_tail_def)
  ultimately show ?thesis by (simp only: authority_of_def append_Nil2)
qed

definition loopback_authority :: "string \<Rightarrow> bool" where
  "loopback_authority a \<longleftrightarrow>
     (\<exists>h p. a = h @ p \<and> h \<in> {''127.0.0.1'', ''[127.0.0.1]'', ''[::1]''} \<and> port_suffix p)"

lemma authority_host_bracket:
  "authority_host (''['' @ after) =
     (case split_once (CHR '']'') after of
        Some (host, port) \<Rightarrow> if port \<noteq> [] \<and> \<not> is_port port then None else Some host
      | None \<Rightarrow> None)"
  by (simp add: authority_host_def strip_prefix_def)

lemma authority_host_plain:
  "strip_prefix ''['' a = None \<Longrightarrow> authority_host a =
     (case split_once (CHR '':'') a of
        Some (host, port) \<Rightarrow> if \<not> is_port ('':'' @ port) then None else Some host
      | None \<Rightarrow> Some a)"
  by (simp add: authority_host_def)

lemma authority_host_loopback:
  assumes "authority_host a = Some h" "h = ''127.0.0.1'' \<or> h = ''::1''"
  shows "loopback_authority a"
proof (cases "strip_prefix ''['' a")
  case (Some after)
  then have a: "a = ''['' @ after" by (simp only: strip_prefix_Some_iff)
  with assms(1) obtain port where after: "split_once (CHR '']'') after = Some (h, port)"
    and port: "port = [] \<or> is_port port"
    unfolding a authority_host_bracket by (auto split: option.splits if_splits)
  then have "a = (''['' @ h @ '']'') @ port"
    using a by (simp add: split_once_Some_iff)
  moreover have "port_suffix port" using port by (auto simp: port_suffix_def is_port_iff)
  moreover have "''['' @ h @ '']'' \<in> {''127.0.0.1'', ''[127.0.0.1]'', ''[::1]''}"
    using assms(2) by auto
  ultimately show ?thesis unfolding loopback_authority_def by blast
next
  case None
  note plain = authority_host_plain [OF None]
  show ?thesis
  proof (cases "split_once (CHR '':'') a")
    case None
    with assms(1) plain have "a = h" by simp
    moreover from None have "CHR '':'' \<notin> set a" by (simp add: split_once_None_iff)
    ultimately have "a = ''127.0.0.1''" using assms(2) by auto
    then show ?thesis by (auto simp: loopback_authority_def port_suffix_def)
  next
    case (Some hp)
    then obtain host port where hp: "split_once (CHR '':'') a = Some (host, port)"
      by (cases hp) simp
    with assms(1) plain have host: "host = h" and port: "is_port ('':'' @ port)"
      by (auto split: if_splits)
    from hp have a: "a = host @ '':'' @ port" and "CHR '':'' \<notin> set host"
      by (simp_all add: split_once_Some_iff)
    with host assms(2) have "host = ''127.0.0.1''" by auto
    moreover have "port_suffix ('':'' @ port)" using port unfolding port_suffix_def is_port_iff by blast
    ultimately show ?thesis unfolding loopback_authority_def a by blast
  qed
qed

lemma loopback_authority_host:
  assumes "loopback_authority a"
  shows "\<exists>h. authority_host a = Some h \<and> (h = ''127.0.0.1'' \<or> h = ''::1'')"
proof -
  from assms obtain h p where a: "a = h @ p" and p: "port_suffix p"
    and h: "h = ''127.0.0.1'' \<or> h = ''[127.0.0.1]'' \<or> h = ''[::1]''"
    by (auto simp: loopback_authority_def)
  have p_port: "p = [] \<or> is_port p" using p by (auto simp: port_suffix_def is_port_iff)
  have bracket: "authority_host (''['' @ x @ '']'' @ p) = Some x" if "CHR '']'' \<notin> set x" for x
  proof -
    have "split_once (CHR '']'') (x @ '']'' @ p) = Some (x, p)"
      using that by (simp add: split_once_Some_iff)
    then show ?thesis unfolding authority_host_bracket using p_port by auto
  qed
  from h show ?thesis
  proof (elim disjE)
    assume h: "h = ''127.0.0.1''"
    have none: "strip_prefix ''['' a = None" by (simp add: a h strip_prefix_def)
    show ?thesis
    proof (cases "p = []")
      case True
      have "split_once (CHR '':'') a = None" by (simp add: a h True)
      then have "authority_host a = Some a" by (simp add: authority_host_plain [OF none])
      then show ?thesis by (simp add: a h True)
    next
      case False
      with p obtain ds where ds: "p = '':'' @ ds" by (auto simp: port_suffix_def)
      then have "split_once (CHR '':'') a = Some (''127.0.0.1'', ds)"
        by (simp add: split_once_Some_iff a h)
      with p_port ds show ?thesis by (simp add: authority_host_plain [OF none])
    qed
  next
    assume "h = ''[127.0.0.1]''"
    then show ?thesis using bracket [of "''127.0.0.1''"] by (simp add: a)
  next
    assume "h = ''[::1]''"
    then show ?thesis using bracket [of "''::1''"] by (simp add: a)
  qed
qed

lemma loopback_authority_chars: "loopback_authority a \<Longrightarrow> \<forall>c \<in> set a. c \<notin> set ''/?#''"
  unfolding loopback_authority_def using port_suffix_chars by fastforce

lemma is_loopback_uri_iff:
  "is_loopback_uri u \<longleftrightarrow>
     (\<exists>a t. u = ''http://'' @ a @ t \<and> loopback_authority a \<and> uri_tail t)"
proof
  assume *: "is_loopback_uri u"
  then obtain rest h where rest: "strip_prefix ''http://'' u = Some rest"
    and h: "authority_host (authority_of rest) = Some h" "h = ''127.0.0.1'' \<or> h = ''::1''"
    by (auto simp: is_loopback_uri_def split: option.splits)
  obtain t where t: "rest = authority_of rest @ t"
    unfolding authority_of_def by (metis takeWhile_dropWhile_id)
  from rest have "u = ''http://'' @ rest" by (simp only: strip_prefix_Some_iff)
  with t have "u = ''http://'' @ authority_of rest @ t" by (simp only:)
  with authority_host_loopback [OF h] authority_split [OF t]
  show "\<exists>a t. u = ''http://'' @ a @ t \<and> loopback_authority a \<and> uri_tail t" by blast
next
  assume "\<exists>a t. u = ''http://'' @ a @ t \<and> loopback_authority a \<and> uri_tail t"
  then obtain a t where u: "u = ''http://'' @ a @ t" and a: "loopback_authority a" and t: "uri_tail t"
    by blast
  have auth: "authority_of (a @ t) = a"
    by (rule authority_of_append [OF loopback_authority_chars [OF a] t])
  have pre: "strip_prefix ''http://'' u = Some (a @ t)"
    using u by (simp only: strip_prefix_Some_iff)
  from loopback_authority_host [OF a] obtain h
    where "authority_host a = Some h" "h = ''127.0.0.1'' \<or> h = ''::1''" by blast
  then show "is_loopback_uri u" by (simp only: is_loopback_uri_def pre auth option.case)
qed

lemma loopback_uri_parts:
  "is_loopback_uri u \<longleftrightarrow>
     (\<exists>h p t. u = ''http://'' @ h @ p @ t \<and> h \<in> {''127.0.0.1'', ''[127.0.0.1]'', ''[::1]''} \<and>
        port_suffix p \<and> uri_tail t)" (is "_ \<longleftrightarrow> ?parts")
proof
  assume "is_loopback_uri u"
  then obtain a t where u: "u = ''http://'' @ a @ t" and a: "loopback_authority a" and t: "uri_tail t"
    unfolding is_loopback_uri_iff by blast
  from a obtain h p where hp: "a = h @ p" "h \<in> {''127.0.0.1'', ''[127.0.0.1]'', ''[::1]''}" "port_suffix p"
    unfolding loopback_authority_def by blast
  have "u = ''http://'' @ h @ p @ t" unfolding u hp(1) by (simp only: append_assoc)
  with hp(2,3) t show ?parts by blast
next
  assume ?parts
  then obtain h p t where u: "u = ''http://'' @ h @ p @ t" and
    hp: "h \<in> {''127.0.0.1'', ''[127.0.0.1]'', ''[::1]''}" "port_suffix p" and t: "uri_tail t" by blast
  have "loopback_authority (h @ p)" unfolding loopback_authority_def using hp by blast
  moreover have "u = ''http://'' @ (h @ p) @ t" unfolding u by (simp only: append_assoc)
  ultimately show "is_loopback_uri u" unfolding is_loopback_uri_iff using t by blast
qed

section \<open>The grants of a validated manifest\<close>

lemma catalog_of_Some_iff:
  assumes "distinct (map cap_id (m_capabilities m))"
  shows "catalog_of m i = Some c \<longleftrightarrow> c \<in> set (m_capabilities m) \<and> cap_id c = i"
proof -
  let ?l = "rev (map (\<lambda>c. (cap_id c, c)) (m_capabilities m))"
  have "map fst ?l = rev (map cap_id (m_capabilities m))" by (simp add: rev_map)
  then have "distinct (map fst ?l)" using assms by simp
  then have "map_of ?l i = Some c \<longleftrightarrow> (i, c) \<in> set ?l" by (rule map_of_eq_Some_iff)
  then show ?thesis by (auto simp: catalog_of_def)
qed

lemma set_resolve: "c \<in> set (resolve m g) \<longleftrightarrow> (\<exists>i \<in> set (sv_capabilities g). catalog_of m i = Some c)"
  by (auto simp: resolve_def List.map_filter_def image_iff)

lemma resolve_complete:
  assumes "manifest_ok m" "(s, g) \<in> set (m_services m)"
  shows "map cap_id (resolve m g) = sv_capabilities g"
proof -
  have dist: "distinct (map cap_id (m_capabilities m))" using assms(1) by (simp add: manifest_ok_def)
  have sub: "set (sv_capabilities g) \<subseteq> cap_id ` set (m_capabilities m)"
    using assms by (auto simp: manifest_ok_def)
  have *: "map cap_id (List.map_filter (catalog_of m) is) = is"
    if "set is \<subseteq> cap_id ` set (m_capabilities m)" for "is"
    using that
  proof (induction "is")
    case Nil
    then show ?case by (simp add: List.map_filter_def)
  next
    case (Cons i "is")
    then obtain c where "c \<in> set (m_capabilities m)" "cap_id c = i" by auto
    then have "catalog_of m i = Some c" by (simp add: catalog_of_Some_iff [OF dist])
    with Cons \<open>cap_id c = i\<close> show ?case by (simp add: List.map_filter_def)
  qed
  from * [OF sub] show ?thesis by (simp add: resolve_def)
qed

lemma granted_declared:
  assumes "manifest_ok m" "granted m s = Some caps" "c \<in> set caps"
  shows "c \<in> set (m_capabilities m) \<and> capability_ok (m_resources m) c"
proof -
  have dist: "distinct (map cap_id (m_capabilities m))" using assms(1) by (simp add: manifest_ok_def)
  from assms(2,3) obtain i where "catalog_of m i = Some c"
    by (auto simp: granted_def set_resolve)
  then have "c \<in> set (m_capabilities m)" by (simp add: catalog_of_Some_iff [OF dist])
  with assms(1) show ?thesis by (simp add: manifest_ok_def)
qed

text \<open>What a grant reaches was declared: its own name, or a host under a declared pattern.\<close>

lemma covers_declared:
  assumes "capability_ok r c" "covers c k resource" "resources_family r (kind_family k) = Some names"
  shows "\<exists>n \<in> set names. if kind_family k = FamEgress then matches_host n resource else rn_str n = resource"
proof -
  from assms(2) have k: "cap_kind c = k" by (rule covers_kind)
  with assms(1,3) have "cap_resource c \<in> set names" by (simp add: capability_ok_def)
  moreover from assms(2) k
  have "if kind_family k = FamEgress then matches_host (cap_resource c) resource
        else rn_str (cap_resource c) = resource"
    by (simp add: covers_def split: if_splits)
  ultimately show ?thesis by blast
qed

lemma manifest_covers_iff:
  "manifest_covers m s k resource \<longleftrightarrow>
     (\<exists>caps c. granted m s = Some caps \<and> c \<in> set caps \<and> covers c k resource)"
  by (auto simp: manifest_covers_def list_ex_iff split: option.splits)

end
