(* ===== verification/Kernel_Gate.thy ===== *)
theory Kernel_Gate
  imports Manifest_Facts
begin

text \<open>
  \<^verbatim>\<open>crates/rahi-kernel/src/adjudicate.rs\<close> and the half of \<^verbatim>\<open>manifest.rs\<close> that needs the gate: the
  request and its context, the capability check, the gate a manifest describes, and the manifest
  hash. The gate itself (\<^verbatim>\<open>action-gate-core\<close>, \<^verbatim>\<open>action-gate-types\<close>), TOML, JSON and SHA-256 are
  third-party: they are the fields of \<open>gate_api\<close>, and \<open>gate_laws\<close> states what the crate relies on.
  A verdict allows when its outcome is \<open>GateAllow\<close>, which is \<^verbatim>\<open>Decision::is_allow\<close>.
\<close>

section \<open>The third-party gate\<close>

datatype gate_outcome = GateAllow | GateDeny | GateDegrade

record verdict =
  vd_outcome :: gate_outcome
  vd_reason :: string
  vd_check_ids :: "string list"
  vd_blocking :: bool

record 'c check =
  ck_id :: string
  ck_evaluate :: "'c \<Rightarrow> verdict option"
  ck_fingerprint :: string

record 'c gate_api =
  ctx_new :: "string \<Rightarrow> 'c"
  ctx_with_attr :: "'c \<Rightarrow> string \<Rightarrow> string \<Rightarrow> 'c"
  ctx_with_summary :: "'c \<Rightarrow> string \<Rightarrow> 'c"
  ctx_attr_str :: "'c \<Rightarrow> string \<Rightarrow> string option"
  ctx_action :: "'c \<Rightarrow> string"
  gate_deny :: "string \<Rightarrow> string list \<Rightarrow> verdict"
  gate_evaluate :: "'c check list \<Rightarrow> 'c \<Rightarrow> verdict"
  gate_config_hash :: "'c check list \<Rightarrow> string"
  secrets_check :: "'c check"
  toml_manifest :: "string \<Rightarrow> string + manifest"
  json_manifest :: "string \<Rightarrow> string + manifest"
  canonical_string :: "json \<Rightarrow> string"
  sha256_text :: "string \<Rightarrow> string"

definition context_laws :: "'c gate_api \<Rightarrow> bool" where
  "context_laws K \<longleftrightarrow>
     (\<forall>a k. ctx_attr_str K (ctx_new K a) k = None) \<and>
     (\<forall>a. ctx_action K (ctx_new K a) = a) \<and>
     (\<forall>c k v k'. ctx_attr_str K (ctx_with_attr K c k v) k' =
        (if k' = k then Some v else ctx_attr_str K c k')) \<and>
     (\<forall>c k v. ctx_action K (ctx_with_attr K c k v) = ctx_action K c) \<and>
     (\<forall>c s k. ctx_attr_str K (ctx_with_summary K c s) k = ctx_attr_str K c k) \<and>
     (\<forall>c s. ctx_action K (ctx_with_summary K c s) = ctx_action K c)"

text \<open>
  The open gate: checks that all abstain admit, and answers that all deny deny. The reference
  secrets check only denies or abstains.
\<close>

definition gate_laws :: "'c gate_api \<Rightarrow> bool" where
  "gate_laws K \<longleftrightarrow>
     context_laws K \<and>
     (\<forall>why ids. vd_outcome (gate_deny K why ids) = GateDeny) \<and>
     (\<forall>cs c. (\<forall>k \<in> set cs. ck_evaluate k c = None) \<longrightarrow> vd_outcome (gate_evaluate K cs c) = GateAllow) \<and>
     (\<forall>cs c. (\<exists>k \<in> set cs. ck_evaluate k c \<noteq> None) \<longrightarrow>
        (\<forall>k \<in> set cs. \<forall>v. ck_evaluate k c = Some v \<longrightarrow> vd_outcome v = GateDeny) \<longrightarrow>
        vd_outcome (gate_evaluate K cs c) = GateDeny) \<and>
     (\<forall>c v. ck_evaluate (secrets_check K) c = Some v \<longrightarrow> vd_outcome v = GateDeny)"

section \<open>The request\<close>

definition ATTR_SERVICE :: string where "ATTR_SERVICE = ''service''"
definition ATTR_RESOURCE :: string where "ATTR_RESOURCE = ''resource''"
definition ATTR_KEY :: string where "ATTR_KEY = ''key''"
definition ATTR_TABLE :: string where "ATTR_TABLE = ''table''"
definition ATTR_HOST :: string where "ATTR_HOST = ''host''"
definition ATTR_ACTOR :: string where "ATTR_ACTOR = ''actor''"

lemmas attr_defs = ATTR_SERVICE_def ATTR_RESOURCE_def ATTR_KEY_def ATTR_TABLE_def ATTR_HOST_def
  ATTR_ACTOR_def

record request =
  rq_service :: service_name
  rq_kind :: capability_kind
  rq_resource :: string
  rq_actor :: sub
  rq_key :: "string option"
  rq_table :: "string option"
  rq_host :: "string option"
  rq_payload :: "string option"
  rq_at :: revision

definition request_new :: "service_name \<Rightarrow> capability_kind \<Rightarrow> string \<Rightarrow> sub \<Rightarrow> request" where
  "request_new s k r a =
     \<lparr>rq_service = s, rq_kind = k, rq_resource = r, rq_actor = a, rq_key = None, rq_table = None,
      rq_host = None, rq_payload = None, rq_at = ZERO\<rparr>"

definition with_key :: "string \<Rightarrow> request \<Rightarrow> request" where
  "with_key k r = r\<lparr>rq_key := Some k\<rparr>"

definition with_table :: "string \<Rightarrow> request \<Rightarrow> request" where
  "with_table t r = r\<lparr>rq_table := Some t\<rparr>"

definition with_host :: "string \<Rightarrow> request \<Rightarrow> request" where
  "with_host h r = r\<lparr>rq_host := Some h\<rparr>"

definition request_with_payload :: "string \<Rightarrow> request \<Rightarrow> request" where
  "request_with_payload p r = r\<lparr>rq_payload := Some p\<rparr>"

definition request_at :: "revision \<Rightarrow> request \<Rightarrow> request" where
  "request_at v r = r\<lparr>rq_at := v\<rparr>"

definition add_attr :: "'c gate_api \<Rightarrow> string \<Rightarrow> string option \<Rightarrow> 'c \<Rightarrow> 'c" where
  "add_attr K name given c =
     (case given of None \<Rightarrow> c | Some v \<Rightarrow> ctx_with_attr K c name v)"

definition to_context :: "'c gate_api \<Rightarrow> request \<Rightarrow> 'c" where
  "to_context K r =
     (let c = ctx_with_attr K
                (ctx_with_attr K
                  (ctx_with_attr K (ctx_new K (kind_str (rq_kind r))) ATTR_SERVICE (sn_str (rq_service r)))
                  ATTR_RESOURCE (rq_resource r))
                ATTR_ACTOR (rq_actor r);
          c = add_attr K ATTR_KEY (rq_key r) c;
          c = add_attr K ATTR_TABLE (rq_table r) c;
          c = add_attr K ATTR_HOST (rq_host r) c
      in (case rq_payload r of None \<Rightarrow> c | Some p \<Rightarrow> ctx_with_summary K c p))"

section \<open>The capability check\<close>

definition deny_grants :: "'c gate_api \<Rightarrow> string \<Rightarrow> verdict" where
  "deny_grants K code = gate_deny K (''gate:deny:grants:'' @ code) [GRANT_CHECK_ID]"

fun covering_loop ::
  "string option \<Rightarrow> string option \<Rightarrow> string option \<Rightarrow> (capability_id \<times> string) option \<Rightarrow>
   capability list \<Rightarrow> (capability_id \<times> string) option + unit" where
  "covering_loop key table host refusal [] = Inl refusal"
| "covering_loop key table host refusal (c # cs) =
     (case admits (cap_constraints c) key table host of
        Inr _ \<Rightarrow> Inr ()
      | Inl reason \<Rightarrow>
          covering_loop key table host
            (if refusal = None then Some (cap_id c, reason) else refusal) cs)"

definition grant_check_evaluate ::
  "'c gate_api \<Rightarrow> (string \<times> capability list) list \<Rightarrow> 'c \<Rightarrow> verdict option" where
  "grant_check_evaluate K grants ctx =
     (case ctx_attr_str K ctx ATTR_SERVICE of
        None \<Rightarrow> Some (deny_grants K ''malformed'')
      | Some service \<Rightarrow>
     (case ctx_attr_str K ctx ATTR_RESOURCE of
        None \<Rightarrow> Some (deny_grants K ''malformed'')
      | Some resource \<Rightarrow>
     (case kind_parse (ctx_action K ctx) of
        Inl err \<Rightarrow> Some (deny_grants K ''unknown_kind'')
      | Inr k \<Rightarrow>
     (case map_of grants service of
        None \<Rightarrow> Some (deny_grants K ''unknown_service'')
      | Some caps \<Rightarrow>
          let covering = filter (\<lambda>c. covers c k resource) caps in
          if covering = [] then Some (deny_grants K ''no_grant'')
          else
            (case covering_loop (ctx_attr_str K ctx ATTR_KEY) (ctx_attr_str K ctx ATTR_TABLE)
                    (ctx_attr_str K ctx ATTR_HOST) None covering of
               Inr _ \<Rightarrow> None
             | Inl None \<Rightarrow> None
             | Inl (Some (i, reason)) \<Rightarrow>
                 Some (gate_deny K (''gate:deny:grants:constraint: '' @ i @ '': '' @ reason)
                   [GRANT_CHECK_ID, i]))))))"

text \<open>What \<^verbatim>\<open>serde\<close> writes of the declared types; a field it skips is absent.\<close>

definition opt_field :: "string \<Rightarrow> json option \<Rightarrow> (string \<times> json) list" where
  "opt_field name v = (case v of None \<Rightarrow> [] | Some j \<Rightarrow> [(name, j)])"

definition constraints_to_value :: "constraints \<Rightarrow> json" where
  "constraints_to_value c = JObj
     (opt_field ''host'' (map_option (JStr \<circ> rn_str) (ct_host c)) @
      opt_field ''key_prefix'' (map_option JStr (key_prefix c)) @
      opt_field ''table'' (map_option (JStr \<circ> rn_str) (ct_table c)))"

definition capability_to_value :: "capability \<Rightarrow> json" where
  "capability_to_value c = JObj
     [(''constraints'', constraints_to_value (cap_constraints c)),
      (''id'', JStr (cap_id c)),
      (''kind'', JStr (kind_str (cap_kind c))),
      (''resource'', JStr (rn_str (cap_resource c)))]"

definition grants_to_value :: "(string \<times> capability list) list \<Rightarrow> json" where
  "grants_to_value g = JObj (map (\<lambda>(s, caps). (s, JArr (map capability_to_value caps))) g)"

definition grant_check :: "'c gate_api \<Rightarrow> manifest \<Rightarrow> 'c check" where
  "grant_check K m =
     (let grants = grants_of m in
      \<lparr>ck_id = GRANT_CHECK_ID,
       ck_evaluate = grant_check_evaluate K grants,
       ck_fingerprint =
         GRANT_CHECK_ID @ '':'' @ sha256_text K (canonical_string K (grants_to_value grants))\<rparr>)"

definition build_gate :: "'c gate_api \<Rightarrow> manifest \<Rightarrow> error + 'c check list" where
  "build_gate K m =
     rbind (try_map (\<lambda>i. if i = ''secrets'' then Inr (secrets_check K)
                          else Inl (Validation ''not a gate check'')) (gp_checks (m_gate m)))
       (\<lambda>roster. Inr (grant_check K m # roster))"

definition nearest_capability :: "manifest \<Rightarrow> request \<Rightarrow> capability_id option" where
  "nearest_capability m r =
     (case granted m (rq_service r) of
        None \<Rightarrow> None
      | Some caps \<Rightarrow> map_option cap_id (find (\<lambda>c. covers c (rq_kind r) (rq_resource r)) caps))"

fun outcome_of_gate :: "gate_outcome \<Rightarrow> outcome" where
  "outcome_of_gate GateAllow = Allow"
| "outcome_of_gate GateDeny = Deny"
| "outcome_of_gate GateDegrade = Degrade"

definition outcome_of :: "verdict \<Rightarrow> outcome" where
  "outcome_of v = outcome_of_gate (vd_outcome v)"

definition is_ledgered :: "verdict \<Rightarrow> bool" where
  "is_ledgered v = (case vd_outcome v of GateAllow \<Rightarrow> False | GateDeny \<Rightarrow> True | GateDegrade \<Rightarrow> True)"

section \<open>The manifest hash\<close>

fun flow_name :: "native_flow \<Rightarrow> string" where
  "flow_name DeviceCode = ''device_code''"
| "flow_name AuthorizationCode = ''authorization_code''"
| "flow_name RefreshToken = ''refresh_token''"

definition json_strings :: "string list \<Rightarrow> json" where
  "json_strings ss = JArr (map JStr ss)"

definition names_to_value :: "resource_name list \<Rightarrow> json" where
  "names_to_value ns = JArr (map (JStr \<circ> rn_str) ns)"

definition client_to_value :: "native_client \<Rightarrow> json" where
  "client_to_value c = JObj
     [(''flows'', JArr (map (JStr \<circ> flow_name) (nc_flows c))),
      (''id'', JStr (nc_id c)),
      (''redirect_uris'', json_strings (nc_redirect_uris c)),
      (''scopes'', json_strings (nc_scopes c))]"

definition auth_to_value :: "auth \<Rightarrow> json" where
  "auth_to_value a = JObj
     (opt_field ''access_token_lifetime_secs'' (map_option (JNum \<circ> uint) (au_access_token_lifetime_secs a)) @
      (if au_logout_revokes_bearer a then [(''logout_revokes_bearer'', JBool True)] else []) @
      (if au_native_clients a = [] then []
       else [(''native_clients'', JArr (map client_to_value (au_native_clients a)))]) @
      opt_field ''native_refresh_lifetime_secs'' (map_option (JNum \<circ> uint) (au_native_refresh_lifetime_secs a)) @
      [(''operator_role'', JStr (au_operator_role a))])"

definition resources_to_value :: "resources \<Rightarrow> json" where
  "resources_to_value r = JObj
     [(''counters'', names_to_value (rs_counters r)),
      (''egress'', names_to_value (rs_egress r)),
      (''kv'', names_to_value (rs_kv r)),
      (''secrets'', names_to_value (rs_secrets r)),
      (''tables'', names_to_value (rs_tables r))]"

definition manifest_to_value :: "manifest \<Rightarrow> json" where
  "manifest_to_value m = JObj
     [(''app'', JObj [(''name'', JStr (rn_str (app_name (m_app m)))), (''org'', JStr (rn_str (app_org (m_app m))))]),
      (''auth'', auth_to_value (m_auth m)),
      (''capabilities'', JArr (map capability_to_value (m_capabilities m))),
      (''contract'', JObj [(''version'', JStr (co_version (m_contract m)))]),
      (''gate'', JObj [(''checks'', json_strings (gp_checks (m_gate m)))]),
      (''ledger'', JObj [(''max_record_bytes'', JNum (uint (lp_max_record_bytes (m_ledger m)))),
                         (''schema_version'', JStr (lp_schema_version (m_ledger m)))]),
      (''observability'', JObj [(''metrics_path'', JStr (ob_metrics_path (m_observability m))),
                                (''otel'', JBool (ob_otel (m_observability m)))]),
      (''resources'', resources_to_value (m_resources m)),
      (''schema_version'', json_option (m_schema_version m)),
      (''services'', JObj (map (\<lambda>(s, g). (sn_str s,
         JObj [(''capabilities'', json_strings (sv_capabilities g))])) (m_services m)))]"

definition canonical_model :: "'c gate_api \<Rightarrow> manifest \<Rightarrow> string" where
  "canonical_model K m = canonical_string K (manifest_to_value m)"

definition manifest_hash :: "'c gate_api \<Rightarrow> manifest \<Rightarrow> error + hash" where
  "manifest_hash K m =
     rbind (build_gate K m) (\<lambda>gate.
       hash_parse (sha256_text K (canonical_model K m @ [CHR 0x0A] @ gate_config_hash K gate)))"

definition manifest_parse :: "'c gate_api \<Rightarrow> string \<Rightarrow> error + manifest" where
  "manifest_parse K txt =
     rbind (map_err (\<lambda>_. Validation ''the manifest does not parse'') (toml_manifest K txt)) (\<lambda>m.
     rbind (validate m) (\<lambda>_. Inr m))"

definition parse_model :: "'c gate_api \<Rightarrow> string \<Rightarrow> error + manifest" where
  "parse_model K model =
     rbind (map_err (\<lambda>_. Validation ''the retained manifest model does not parse'') (json_manifest K model)) (\<lambda>m.
     rbind (validate m) (\<lambda>_. Inr m))"

end
