(* ===== verification/Gate_Facts.thy ===== *)
theory Gate_Facts
  imports Kernel_Gate
begin

text \<open>
  Deny by default, exactly: a request is admitted when the manifest grants its service a
  capability that covers it and whose constraints it meets, and every check of the roster
  abstains; otherwise it is denied.
\<close>

section \<open>The context of a request\<close>

lemma ctx_rules:
  assumes "context_laws K"
  shows "ctx_attr_str K (ctx_new K a) k = None"
    and "ctx_action K (ctx_new K a) = a"
    and "ctx_attr_str K (ctx_with_attr K c k v) k' = (if k' = k then Some v else ctx_attr_str K c k')"
    and "ctx_action K (ctx_with_attr K c k v) = ctx_action K c"
    and "ctx_attr_str K (ctx_with_summary K c s) k = ctx_attr_str K c k"
    and "ctx_action K (ctx_with_summary K c s) = ctx_action K c"
  using assms unfolding context_laws_def by blast+

lemma add_attr_rules:
  assumes "context_laws K"
  shows "ctx_attr_str K (add_attr K k v c) k' =
           (if k' = k \<and> v \<noteq> None then v else ctx_attr_str K c k')"
    and "ctx_action K (add_attr K k v c) = ctx_action K c"
  by (cases v; simp add: add_attr_def ctx_rules [OF assms])+

lemma to_context_attrs:
  assumes "context_laws K"
  shows "ctx_action K (to_context K r) = kind_str (rq_kind r)"
    and "ctx_attr_str K (to_context K r) ATTR_SERVICE = Some (sn_str (rq_service r))"
    and "ctx_attr_str K (to_context K r) ATTR_RESOURCE = Some (rq_resource r)"
    and "ctx_attr_str K (to_context K r) ATTR_ACTOR = Some (rq_actor r)"
    and "ctx_attr_str K (to_context K r) ATTR_KEY = rq_key r"
    and "ctx_attr_str K (to_context K r) ATTR_TABLE = rq_table r"
    and "ctx_attr_str K (to_context K r) ATTR_HOST = rq_host r"
  by (cases "rq_payload r"; cases "rq_key r"; cases "rq_table r"; cases "rq_host r";
      simp add: to_context_def Let_def ctx_rules [OF assms] add_attr_rules [OF assms] attr_defs)+

section \<open>The capability check\<close>

lemma covering_loop_Inr:
  "covering_loop key table host refusal cs = Inr () \<longleftrightarrow>
     (\<exists>c \<in> set cs. admits (cap_constraints c) key table host = Inr ())"
  by (induction cs arbitrary: refusal) (auto split: sum.splits)

lemma covering_loop_refusal:
  "covering_loop key table host refusal cs = Inl out \<Longrightarrow> refusal \<noteq> None \<or> cs \<noteq> [] \<Longrightarrow> out \<noteq> None"
  by (induction cs arbitrary: refusal) (auto split: sum.splits if_splits)

text \<open>The first covering grant gives the reason, as an author reading top to bottom expects.\<close>

lemma covering_loop_first:
  assumes "\<forall>c \<in> set cs. admits (cap_constraints c) key table host \<noteq> Inr ()"
  shows "covering_loop key table host (Some ref) cs = Inl (Some ref)"
  using assms by (induction cs) (auto split: sum.splits)

lemma map_of_grants: "map_of (grants_of m) (sn_str s) = granted m s"
proof -
  have "map_of (map (\<lambda>(service, grants). (sn_str service, resolve m grants)) xs) (sn_str s) =
      map_option (resolve m) (map_of xs s)" for xs
    by (induction xs) (auto simp: service_name.expand)
  then show ?thesis by (simp add: grants_of_def granted_def)
qed

definition grant_admits :: "manifest \<Rightarrow> request \<Rightarrow> bool" where
  "grant_admits m r \<longleftrightarrow>
     (\<exists>caps c. granted m (rq_service r) = Some caps \<and> c \<in> set caps \<and>
        covers c (rq_kind r) (rq_resource r) \<and>
        admits (cap_constraints c) (rq_key r) (rq_table r) (rq_host r) = Inr ())"

lemma grant_check_abstains_iff:
  assumes "context_laws K"
  shows "ck_evaluate (grant_check K m) (to_context K r) = None \<longleftrightarrow> grant_admits m r"
proof (cases "granted m (rq_service r)")
  case None
  then show ?thesis
    by (simp add: grant_check_def Let_def grant_check_evaluate_def to_context_attrs [OF assms]
        map_of_grants grant_admits_def)
next
  case (Some caps)
  let ?cov = "filter (\<lambda>c. covers c (rq_kind r) (rq_resource r)) caps"
  let ?loop = "covering_loop (rq_key r) (rq_table r) (rq_host r) None ?cov"
  have eval: "ck_evaluate (grant_check K m) (to_context K r) =
      (if ?cov = [] then Some (deny_grants K ''no_grant'')
       else (case ?loop of Inr _ \<Rightarrow> None | Inl None \<Rightarrow> None
             | Inl (Some (i, reason)) \<Rightarrow>
                 Some (gate_deny K (''gate:deny:grants:constraint: '' @ i @ '': '' @ reason)
                   [GRANT_CHECK_ID, i])))"
    by (simp add: grant_check_def Let_def grant_check_evaluate_def to_context_attrs [OF assms]
        map_of_grants Some)
  have admits: "grant_admits m r \<longleftrightarrow> ?loop = Inr ()"
    unfolding covering_loop_Inr by (auto simp: grant_admits_def Some)
  show ?thesis
  proof (cases "?cov = []")
    case True
    then have "\<not> grant_admits m r" unfolding grant_admits_def using Some by (auto simp: filter_empty_conv)
    then show ?thesis using True by (simp add: eval)
  next
    case False
    then have "?loop = Inl out \<Longrightarrow> out \<noteq> None" for out
      using covering_loop_refusal by blast
    then show ?thesis
      unfolding eval admits using False by (cases ?loop) auto
  qed
qed

lemma grant_check_denies:
  assumes "gate_laws K" "ck_evaluate (grant_check K m) ctx = Some v"
  shows "vd_outcome v = GateDeny"
proof -
  have "vd_outcome (gate_deny K why ids) = GateDeny" for why ids
    using assms(1) by (simp add: gate_laws_def)
  then show ?thesis
    using assms(2)
    by (auto simp: grant_check_def Let_def grant_check_evaluate_def deny_grants_def
        split: option.splits sum.splits prod.splits if_splits)
qed

section \<open>The gate\<close>

lemma build_gate_Inr:
  assumes "build_gate K m = Inr g"
  shows "g = grant_check K m # map (\<lambda>_. secrets_check K) (gp_checks (m_gate m))"
proof -
  from assms obtain roster where g: "g = grant_check K m # roster"
    and roster: "list_all2 (\<lambda>i c. (if i = ''secrets'' then Inr (secrets_check K)
        else Inl (Validation ''not a gate check'')) = Inr c) (gp_checks (m_gate m)) roster"
    by (auto simp: build_gate_def try_map_Inr_iff)
  from roster have "roster = map (\<lambda>_. secrets_check K) (gp_checks (m_gate m))"
    by (induction rule: list_all2_induct) (auto split: if_splits)
  with g show ?thesis by simp
qed

lemma build_gate_ok: "manifest_ok m \<Longrightarrow> \<exists>g. build_gate K m = Inr g"
proof -
  assume "manifest_ok m"
  then have "set (gp_checks (m_gate m)) \<subseteq> {''secrets''}" by (simp add: manifest_ok_def)
  then have "try_map (\<lambda>i. if i = ''secrets'' then Inr (secrets_check K)
      else Inl (Validation ''not a gate check'')) (gp_checks (m_gate m)) =
      Inr (map (\<lambda>_. secrets_check K) (gp_checks (m_gate m)))"
    by (intro try_map_ok) auto
  then show ?thesis by (simp add: build_gate_def)
qed

lemma gate_outcome_iff:
  assumes K: "gate_laws K" and g: "build_gate K m = Inr g"
  shows "vd_outcome (gate_evaluate K g (to_context K r)) =
    (if grant_admits m r \<and>
        (gp_checks (m_gate m) = [] \<or> ck_evaluate (secrets_check K) (to_context K r) = None)
     then GateAllow else GateDeny)"
proof -
  let ?ctx = "to_context K r"
  have C: "context_laws K" using K by (simp add: gate_laws_def)
  have secrets: "ck_evaluate (secrets_check K) ?ctx = Some v \<Longrightarrow> vd_outcome v = GateDeny" for v
    using K unfolding gate_laws_def by blast
  have checks: "set g = {grant_check K m} \<union> (if gp_checks (m_gate m) = [] then {} else {secrets_check K})"
    unfolding build_gate_Inr [OF g] by (cases "gp_checks (m_gate m)") auto
  have quiet: "(\<forall>k \<in> set g. ck_evaluate k ?ctx = None) \<longleftrightarrow>
      grant_admits m r \<and> (gp_checks (m_gate m) = [] \<or> ck_evaluate (secrets_check K) ?ctx = None)"
    unfolding checks by (auto simp: grant_check_abstains_iff [OF C])
  have denies: "\<forall>k \<in> set g. \<forall>v. ck_evaluate k ?ctx = Some v \<longrightarrow> vd_outcome v = GateDeny"
    unfolding checks using grant_check_denies [OF K] secrets by auto
  show ?thesis
  proof (cases "\<forall>k \<in> set g. ck_evaluate k ?ctx = None")
    case True
    then have "vd_outcome (gate_evaluate K g ?ctx) = GateAllow"
      using K unfolding gate_laws_def by blast
    then show ?thesis using True quiet by simp
  next
    case False
    then have "\<exists>k \<in> set g. ck_evaluate k ?ctx \<noteq> None" by blast
    with denies K have "vd_outcome (gate_evaluate K g ?ctx) = GateDeny"
      unfolding gate_laws_def by blast
    then show ?thesis using False quiet by (auto simp del: not_None_eq)
  qed
qed

text \<open>The capability named in a denial was granted and covers the request.\<close>

lemma nearest_capability_granted:
  assumes "nearest_capability m r = Some i"
  shows "\<exists>caps c. granted m (rq_service r) = Some caps \<and> c \<in> set caps \<and> cap_id c = i \<and>
           covers c (rq_kind r) (rq_resource r)"
  using assms by (auto simp: nearest_capability_def find_Some_iff split: option.splits) (metis nth_mem)

lemma nearest_capability_None_iff:
  "nearest_capability m r = None \<longleftrightarrow> \<not> manifest_covers m (rq_service r) (rq_kind r) (rq_resource r)"
  by (auto simp: nearest_capability_def manifest_covers_def find_None_iff list_ex_iff split: option.splits)

lemma is_ledgered_iff: "is_ledgered v \<longleftrightarrow> outcome_of v \<noteq> Allow"
  by (cases "vd_outcome v") (simp_all add: is_ledgered_def outcome_of_def)

text \<open>
  The JSON a manifest is hashed over keeps every declared field: two manifests with the same
  model are the same manifest.
\<close>

section \<open>The model keeps every field\<close>

named_theorems value_inj \<open>injectivity of the writers\<close>

lemma uint_inj [value_inj]: "uint a = uint (b :: u64) \<longleftrightarrow> a = b"
  by (simp add: word_uint_eq_iff)

lemma rn_str_inj [value_inj]: "rn_str a = rn_str b \<longleftrightarrow> a = b"
  by (cases a; cases b) simp

lemma sn_str_inj [value_inj]: "sn_str a = sn_str b \<longleftrightarrow> a = b"
  by (cases a; cases b) simp

lemma flow_name_inj [value_inj]: "flow_name a = flow_name b \<longleftrightarrow> a = b"
  by (cases a; cases b) simp_all

lemma json_option_eq [value_inj]: "json_option a = json_option b \<longleftrightarrow> a = b"
  using json_option_inj [of a b] by blast

lemma inj_JStr: "inj JStr"
  by (rule injI) simp

lemma inj_JStr_rn: "inj (JStr \<circ> rn_str)"
  by (rule injI) (simp add: rn_str_inj)

lemma inj_JStr_flow: "inj (JStr \<circ> flow_name)"
  by (rule injI) (simp add: flow_name_inj)

lemma inj_JNum_uint: "inj (JNum \<circ> (uint :: u64 \<Rightarrow> int))"
  by (rule injI) (simp add: uint_inj)

lemma json_strings_inj [value_inj]: "json_strings a = json_strings b \<longleftrightarrow> a = b"
  by (simp add: json_strings_def inj_map_eq_map [OF inj_JStr])

lemma names_to_value_inj [value_inj]: "names_to_value a = names_to_value b \<longleftrightarrow> a = b"
  by (simp add: names_to_value_def inj_map_eq_map [OF inj_JStr_rn])

lemma map_option_inj: "inj f \<Longrightarrow> map_option f a = map_option f b \<longleftrightarrow> a = b"
  by (cases a; cases b) (auto dest: injD)

lemmas map_option_writers [value_inj] =
  map_option_inj [OF inj_JStr] map_option_inj [OF inj_JStr_rn] map_option_inj [OF inj_JNum_uint]

text \<open>Looking a field up in an object with optional fields.\<close>

lemma opt_field_other: "k \<noteq> n \<Longrightarrow> map_of (opt_field n v @ r) k = map_of r k"
  by (cases v) (simp_all add: opt_field_def)

lemma opt_field_this: "map_of r n = None \<Longrightarrow> map_of (opt_field n v @ r) n = v"
  by (cases v) (simp_all add: opt_field_def)

definition constraints_fields :: "constraints \<Rightarrow> (string \<times> json) list" where
  "constraints_fields c =
     opt_field ''host'' (map_option (JStr \<circ> rn_str) (ct_host c)) @
     opt_field ''key_prefix'' (map_option JStr (key_prefix c)) @
     opt_field ''table'' (map_option (JStr \<circ> rn_str) (ct_table c)) @ []"

lemma constraints_fields_lookup:
  "map_of (constraints_fields c) ''host'' = map_option (JStr \<circ> rn_str) (ct_host c)"
  "map_of (constraints_fields c) ''key_prefix'' = map_option JStr (key_prefix c)"
  "map_of (constraints_fields c) ''table'' = map_option (JStr \<circ> rn_str) (ct_table c)"
  unfolding constraints_fields_def by (simp_all add: opt_field_this opt_field_other del: map_of_append append_Nil2)

lemma constraints_to_value_inj:
  assumes "constraints_to_value a = constraints_to_value b"
  shows "a = b"
proof -
  from assms have "constraints_fields a = constraints_fields b"
    by (simp add: constraints_to_value_def constraints_fields_def)
  then have "ct_host a = ct_host b" "key_prefix a = key_prefix b" "ct_table a = ct_table b"
    using constraints_fields_lookup [of a] constraints_fields_lookup [of b]
    by (simp_all add: value_inj del: option.map_comp)
  then show ?thesis by simp
qed

lemma capability_to_value_inj: "capability_to_value a = capability_to_value b \<Longrightarrow> a = b"
  by (simp add: capability_to_value_def kind_str_inj value_inj constraints_to_value_inj)

lemma client_to_value_inj: "client_to_value a = client_to_value b \<Longrightarrow> a = b"
  by (simp add: client_to_value_def value_inj inj_map_eq_map [OF inj_JStr_flow])

lemma inj_capability: "inj capability_to_value" and inj_client: "inj client_to_value"
  by (rule injI, erule capability_to_value_inj) (rule injI, erule client_to_value_inj)

definition auth_fields :: "auth \<Rightarrow> (string \<times> json) list" where
  "auth_fields a =
     opt_field ''access_token_lifetime_secs'' (map_option (JNum \<circ> uint) (au_access_token_lifetime_secs a)) @
     opt_field ''logout_revokes_bearer'' (if au_logout_revokes_bearer a then Some (JBool True) else None) @
     opt_field ''native_clients'' (if au_native_clients a = [] then None
       else Some (JArr (map client_to_value (au_native_clients a)))) @
     opt_field ''native_refresh_lifetime_secs'' (map_option (JNum \<circ> uint) (au_native_refresh_lifetime_secs a)) @
     opt_field ''operator_role'' (Some (JStr (au_operator_role a))) @ []"

lemma auth_fields_lookup:
  "map_of (auth_fields a) ''access_token_lifetime_secs'' =
     map_option (JNum \<circ> uint) (au_access_token_lifetime_secs a)"
  "map_of (auth_fields a) ''logout_revokes_bearer'' =
     (if au_logout_revokes_bearer a then Some (JBool True) else None)"
  "map_of (auth_fields a) ''native_clients'' =
     (if au_native_clients a = [] then None
      else Some (JArr (map client_to_value (au_native_clients a))))"
  "map_of (auth_fields a) ''native_refresh_lifetime_secs'' =
     map_option (JNum \<circ> uint) (au_native_refresh_lifetime_secs a)"
  "map_of (auth_fields a) ''operator_role'' = Some (JStr (au_operator_role a))"
  unfolding auth_fields_def by (simp_all add: opt_field_this opt_field_other del: map_of_append append_Nil2)

lemma auth_to_value_fields: "auth_to_value a = JObj (auth_fields a)"
  by (cases "au_logout_revokes_bearer a"; cases "au_native_clients a = []")
    (simp_all add: auth_to_value_def auth_fields_def opt_field_def)

lemma auth_to_value_inj:
  assumes "auth_to_value a = auth_to_value b"
  shows "a = b"
proof -
  from assms have *: "auth_fields a = auth_fields b"
    by (simp add: auth_to_value_fields)
  note look = arg_cong [OF *, of "\<lambda>fs. map_of fs k" for k]
  have "au_access_token_lifetime_secs a = au_access_token_lifetime_secs b"
    using look [of "''access_token_lifetime_secs''"] unfolding auth_fields_lookup
    by (simp only: value_inj)
  moreover have "au_native_refresh_lifetime_secs a = au_native_refresh_lifetime_secs b"
    using look [of "''native_refresh_lifetime_secs''"] unfolding auth_fields_lookup
    by (simp only: value_inj)
  moreover have "au_logout_revokes_bearer a = au_logout_revokes_bearer b"
    using look [of "''logout_revokes_bearer''"] unfolding auth_fields_lookup
    by (simp split: if_splits)
  moreover have "au_native_clients a = au_native_clients b"
    using look [of "''native_clients''"] unfolding auth_fields_lookup
    by (simp add: inj_map_eq_map [OF inj_client] split: if_splits)
  moreover have "au_operator_role a = au_operator_role b"
    using look [of "''operator_role''"] unfolding auth_fields_lookup by simp
  ultimately show ?thesis by simp
qed

lemma resources_to_value_inj: "resources_to_value a = resources_to_value b \<Longrightarrow> a = b"
  by (simp add: resources_to_value_def value_inj)

definition service_entry :: "service_name \<times> service \<Rightarrow> string \<times> json" where
  "service_entry p =
     (sn_str (fst p), JObj [(''capabilities'', json_strings (sv_capabilities (snd p)))])"

lemma inj_service_entry: "inj service_entry"
  by (rule injI) (auto simp: service_entry_def value_inj prod_eq_iff)

lemma service_entries:
  "map (\<lambda>(s, g). (sn_str s, JObj [(''capabilities'', json_strings (sv_capabilities g))])) xs =
     map service_entry xs"
  by (simp add: service_entry_def case_prod_unfold)

lemma manifest_to_value_inj:
  assumes "manifest_to_value a = manifest_to_value b"
  shows "a = b"
proof -
  note eq = assms [unfolded manifest_to_value_def service_entries, simplified]
  have "m_app a = m_app b" using eq by (simp add: value_inj)
  moreover have "m_auth a = m_auth b" using eq by (intro auth_to_value_inj) blast
  moreover have "m_capabilities a = m_capabilities b"
    using eq by (simp add: inj_map_eq_map [OF inj_capability])
  moreover have "m_contract a = m_contract b" using eq by simp
  moreover have "m_gate a = m_gate b" using eq by (simp add: value_inj)
  moreover have "m_ledger a = m_ledger b" using eq by (simp add: value_inj)
  moreover have "m_observability a = m_observability b" using eq by simp
  moreover have "m_resources a = m_resources b" using eq by (intro resources_to_value_inj) blast
  moreover have "m_schema_version a = m_schema_version b" using eq by (simp add: value_inj)
  moreover have "m_services a = m_services b"
    using eq by (simp add: inj_map_eq_map [OF inj_service_entry])
  ultimately show ?thesis by simp
qed

end
