(* ===== verification/Kernel_Queue.thy ===== *)
theory Kernel_Queue
  imports Ledger_Record
begin

text \<open>
  \<^verbatim>\<open>crates/rahi-kernel/src/observe.rs\<close> and the denial queue of \<^verbatim>\<open>lib.rs\<close>: the process-wide
  counters and observers, the queue shared by the kernel and its appender, and the appender task as
  a step relation. The lock makes each queue method one step; a step of the appender is one point
  between two of its awaits, so every interleaving of denials, drains and appends is a run. The
  ghost field \<open>q_emitted\<close> lists every decision the kernel answered with an id.
\<close>

section \<open>Observation\<close>

datatype cause = Dropped | Failed | Abandoned

definition CAUSE_ALL :: "cause list" where "CAUSE_ALL = [Dropped, Failed, Abandoned]"

definition METRIC_LEDGER_FAILURES :: string where "METRIC_LEDGER_FAILURES = ''kernel_ledger_failures''"
definition METRIC_DECISIONS :: string where "METRIC_DECISIONS = ''kernel_decisions''"
definition METRIC_DECISIONS_DROPPED :: string where
  "METRIC_DECISIONS_DROPPED = ''kernel_decisions_dropped''"
definition METRIC_DECISIONS_ABANDONED :: string where
  "METRIC_DECISIONS_ABANDONED = ''kernel_decisions_abandoned''"

fun loss_cause_str :: "cause \<Rightarrow> string" where
  "loss_cause_str Dropped = ''dropped''"
| "loss_cause_str Failed = ''failed''"
| "loss_cause_str Abandoned = ''abandoned''"

fun cause_metric :: "cause \<Rightarrow> string" where
  "cause_metric Dropped = METRIC_DECISIONS_DROPPED"
| "cause_metric Failed = METRIC_LEDGER_FAILURES"
| "cause_metric Abandoned = METRIC_DECISIONS_ABANDONED"

text \<open>
  The process globals. \<open>me_seen\<close> is what every decision observer was called with, \<open>me_reported\<close>
  what every failure observer was called with, and \<open>me_stderr\<close> the losses written to the standard
  error because no failure observer was registered.
\<close>

record metrics_state =
  me_decisions :: u64
  me_dropped :: u64
  me_abandoned :: u64
  me_failures :: u64
  me_decision_observers :: nat
  me_failure_observers :: nat
  me_seen :: "decision list"
  me_reported :: "(decision_id \<times> cause) list"
  me_stderr :: "(decision_id \<times> cause) list"

definition metrics_new :: metrics_state where
  "metrics_new =
     \<lparr>me_decisions = 0, me_dropped = 0, me_abandoned = 0, me_failures = 0,
      me_decision_observers = 0, me_failure_observers = 0, me_seen = [], me_reported = [],
      me_stderr = []\<rparr>"

definition on_decision :: "metrics_state \<Rightarrow> metrics_state" where
  "on_decision m = m\<lparr>me_decision_observers := Suc (me_decision_observers m)\<rparr>"

definition on_failure :: "metrics_state \<Rightarrow> metrics_state" where
  "on_failure m = m\<lparr>me_failure_observers := Suc (me_failure_observers m)\<rparr>"

definition metrics :: "metrics_state \<Rightarrow> (string \<times> u64) list" where
  "metrics m =
     [(METRIC_DECISIONS, me_decisions m), (METRIC_DECISIONS_DROPPED, me_dropped m),
      (METRIC_DECISIONS_ABANDONED, me_abandoned m), (METRIC_LEDGER_FAILURES, me_failures m)]"

definition record_decision :: "decision \<Rightarrow> metrics_state \<Rightarrow> metrics_state" where
  "record_decision d m =
     m\<lparr>me_seen := (if 0 < me_decision_observers m then me_seen m @ [d] else me_seen m),
       me_decisions := me_decisions m + 1\<rparr>"

definition report :: "decision_id \<Rightarrow> cause \<Rightarrow> metrics_state \<Rightarrow> metrics_state" where
  "report i c m =
     (if 0 < me_failure_observers m then m\<lparr>me_reported := me_reported m @ [(i, c)]\<rparr>
      else m\<lparr>me_stderr := me_stderr m @ [(i, c)]\<rparr>)"

definition record_loss :: "decision_id \<Rightarrow> cause \<Rightarrow> metrics_state \<Rightarrow> metrics_state" where
  "record_loss i c m =
     report i c
       (case c of
          Dropped \<Rightarrow> m\<lparr>me_dropped := me_dropped m + 1\<rparr>
        | Failed \<Rightarrow> m\<lparr>me_failures := me_failures m + 1\<rparr>
        | Abandoned \<Rightarrow> m\<lparr>me_abandoned := me_abandoned m + 1\<rparr>)"

section \<open>The queue\<close>

record pending =
  pe_waiting :: "decision list"
  pe_appending :: "decision_id option"
  pe_closed :: bool

definition queue_new :: pending where
  "queue_new = \<lparr>pe_waiting = [], pe_appending = None, pe_closed = False\<rparr>"

definition queue_push :: "nat \<Rightarrow> decision \<Rightarrow> pending \<Rightarrow> bool \<times> pending" where
  "queue_push capacity d p =
     (if capacity \<le> length (pe_waiting p) then (False, p)
      else (True, p\<lparr>pe_waiting := pe_waiting p @ [d]\<rparr>))"

definition queue_owed :: "pending \<Rightarrow> nat" where
  "queue_owed p = length (pe_waiting p) + (if pe_appending p = None then 0 else 1)"

text \<open>
  One turn of \<^verbatim>\<open>Queue::next\<close>: a decision, the end, or a wait for the next notification.
\<close>

datatype next_turn = Next decision | Ended | Waits

definition queue_next :: "pending \<Rightarrow> next_turn \<times> pending" where
  "queue_next p =
     (case pe_waiting p of
        d # ds \<Rightarrow> (Next d, p\<lparr>pe_waiting := ds, pe_appending := Some (d_id d)\<rparr>)
      | [] \<Rightarrow> (if pe_closed p then Ended else Waits, p))"

definition queue_settle :: "decision_id \<Rightarrow> pending \<Rightarrow> bool \<times> pending" where
  "queue_settle i p =
     (if pe_appending p = Some i then (True, p\<lparr>pe_appending := None\<rparr>) else (False, p))"

definition queue_abandon :: "pending \<Rightarrow> decision_id list \<times> pending" where
  "queue_abandon p =
     ((case pe_appending p of None \<Rightarrow> [] | Some i \<Rightarrow> [i]) @ map d_id (pe_waiting p),
      p\<lparr>pe_appending := None, pe_waiting := []\<rparr>)"

definition queue_close :: "pending \<Rightarrow> pending" where
  "queue_close p = p\<lparr>pe_closed := True\<rparr>"

section \<open>The appender\<close>

text \<open>Where the appender task stands: asking for work, writing, back with the answer, or gone.\<close>

datatype appender = Asking | Writing decision | Returned decision "error + hash" | Gone

record queue_state =
  q_capacity :: nat
  q_pending :: pending
  q_appender :: appender
  q_metrics :: metrics_state
  q_emitted :: "decision list"
  q_attempted :: "decision list"
  q_landed :: "decision_id list"
  q_settled :: "decision_id list"

definition record_losses :: "decision_id list \<Rightarrow> cause \<Rightarrow> metrics_state \<Rightarrow> metrics_state" where
  "record_losses is c m = fold (\<lambda>i. record_loss i c) is m"

definition enqueue :: "decision \<Rightarrow> queue_state \<Rightarrow> queue_state" where
  "enqueue d s =
     (case queue_push (q_capacity s) d (q_pending s) of
        (True, p) \<Rightarrow> s\<lparr>q_pending := p, q_emitted := q_emitted s @ [d]\<rparr>
      | (False, p) \<Rightarrow>
          s\<lparr>q_metrics := record_loss (d_id d) Dropped (q_metrics s),
            q_emitted := q_emitted s @ [d]\<rparr>)"

definition abandon_all :: "queue_state \<Rightarrow> queue_state" where
  "abandon_all s =
     (case queue_abandon (q_pending s) of
        (is, p) \<Rightarrow>
          s\<lparr>q_pending := p, q_metrics := record_losses is Abandoned (q_metrics s)\<rparr>)"

definition appender_drop :: "queue_state \<Rightarrow> queue_state" where
  "appender_drop s = (abandon_all s)\<lparr>q_appender := Gone\<rparr>"

text \<open>A refusal is observed, then queued.\<close>

definition queue_deny :: "decision \<Rightarrow> queue_state \<Rightarrow> queue_state" where
  "queue_deny d s = enqueue d (s\<lparr>q_metrics := record_decision d (q_metrics s)\<rparr>)"

text \<open>\<^verbatim>\<open>append_all\<close> between two awaits: taking work, the write returning, and settling it.\<close>

definition appender_take :: "queue_state \<Rightarrow> queue_state" where
  "appender_take s =
     (case queue_next (q_pending s) of
        (Next d, p) \<Rightarrow>
          s\<lparr>q_pending := p, q_appender := Writing d, q_attempted := q_attempted s @ [d]\<rparr>
      | (Ended, p) \<Rightarrow> appender_drop (s\<lparr>q_pending := p\<rparr>)
      | (Waits, p) \<Rightarrow> s)"

definition appender_return :: "decision \<Rightarrow> error + hash \<Rightarrow> queue_state \<Rightarrow> queue_state" where
  "appender_return d answer s =
     s\<lparr>q_appender := Returned d answer,
       q_landed := (if is_ok answer then q_landed s @ [d_id d] else q_landed s)\<rparr>"

definition appender_settle :: "decision \<Rightarrow> error + hash \<Rightarrow> queue_state \<Rightarrow> queue_state" where
  "appender_settle d answer s =
     (case queue_settle (d_id d) (q_pending s) of
        (settled, p) \<Rightarrow>
          (if settled \<and> \<not> is_ok answer
           then s\<lparr>q_pending := p, q_appender := Asking,
                  q_metrics := record_loss (d_id d) Failed (q_metrics s)\<rparr>
           else s\<lparr>q_pending := p, q_appender := Asking,
                  q_settled := (if settled then q_settled s @ [d_id d] else q_settled s)\<rparr>))"

text \<open>One turn of \<^verbatim>\<open>append_all\<close>, and as many as there is fuel for.\<close>

definition appender_turn :: "(decision \<Rightarrow> error + hash) \<Rightarrow> queue_state \<Rightarrow> queue_state" where
  "appender_turn write s =
     (case q_appender s of
        Asking \<Rightarrow> appender_take s
      | Writing d \<Rightarrow> appender_return d (write d) s
      | Returned d answer \<Rightarrow> appender_settle d answer s
      | Gone \<Rightarrow> s)"

fun append_all :: "(decision \<Rightarrow> error + hash) \<Rightarrow> nat \<Rightarrow> queue_state \<Rightarrow> queue_state" where
  "append_all write 0 s = s"
| "append_all write (Suc fuel) s = append_all write fuel (appender_turn write s)"

definition queue_start :: "nat \<Rightarrow> metrics_state \<Rightarrow> queue_state" where
  "queue_start capacity m =
     \<lparr>q_capacity = capacity, q_pending = queue_new, q_appender = Asking, q_metrics = m,
      q_emitted = [], q_attempted = [], q_landed = [], q_settled = []\<rparr>"

inductive appender_step :: "queue_state \<Rightarrow> queue_state \<Rightarrow> bool" where
  drain: "appender_step s (abandon_all s)"
| close: "appender_step s (s\<lparr>q_pending := queue_close (q_pending s)\<rparr>)"
| take: "q_appender s = Asking \<Longrightarrow> appender_step s (appender_take s)"
| written: "q_appender s = Writing d \<Longrightarrow> appender_step s (appender_return d answer s)"
| settle: "q_appender s = Returned d answer \<Longrightarrow> appender_step s (appender_settle d answer s)"
| stop: "q_appender s \<noteq> Gone \<Longrightarrow> appender_step s (appender_drop s)"

inductive_cases appender_stepE: "appender_step s t"

inductive queue_step :: "queue_state \<Rightarrow> queue_state \<Rightarrow> bool" where
  deny: "queue_step s (queue_deny d s)"
| behind: "appender_step s t \<Longrightarrow> queue_step s t"

inductive_cases queue_stepE: "queue_step s t"

definition queue_reaches :: "queue_state \<Rightarrow> queue_state \<Rightarrow> bool" where
  "queue_reaches = queue_step\<^sup>*\<^sup>*"

section \<open>Waiting for the appender\<close>

text \<open>
  \<^verbatim>\<open>Kernel::flush\<close> polls every two milliseconds. The trace gives the queue at each poll and the
  clock of that poll, in microseconds; the answer names the poll that ended the wait.
\<close>

definition FLUSH_POLL :: nat where "FLUSH_POLL = 2000"

fun flush_loop ::
  "(nat \<Rightarrow> queue_state) \<Rightarrow> (nat \<Rightarrow> nat) \<Rightarrow> nat \<Rightarrow> nat \<Rightarrow> nat \<Rightarrow> (nat \<times> (error + unit)) option" where
  "flush_loop tr now deadline i fuel =
     (let owed = queue_owed (q_pending (tr i)) in
      if owed = 0 then Some (i, Inr ())
      else if deadline \<le> now i then Some (i, Inl (Upstream (''the appender still owes '' @ show_nat owed)))
      else (case fuel of 0 \<Rightarrow> None | Suc f \<Rightarrow> flush_loop tr now deadline (Suc i) f))"

declare flush_loop.simps [simp del]

definition flush ::
  "(nat \<Rightarrow> queue_state) \<Rightarrow> (nat \<Rightarrow> nat) \<Rightarrow> nat \<Rightarrow> nat \<Rightarrow> (nat \<times> (error + unit)) option" where
  "flush tr now within fuel = flush_loop tr now (now 0 + within) 0 fuel"

record drained =
  dr_bound :: nat
  dr_abandoned :: "decision_id list"

definition is_complete :: "drained \<Rightarrow> bool" where
  "is_complete d = (dr_abandoned d = [])"

text \<open>What \<^verbatim>\<open>Kernel::drain\<close> answers and the queue it leaves; the queue may have moved since the last poll.\<close>

definition kernel_drain ::
  "(nat \<Rightarrow> queue_state) \<Rightarrow> (nat \<Rightarrow> nat) \<Rightarrow> nat \<Rightarrow> nat \<Rightarrow> (drained \<times> queue_state) option" where
  "kernel_drain tr now within fuel =
     (case flush tr now within fuel of
        None \<Rightarrow> None
      | Some (i, Inr _) \<Rightarrow> Some (\<lparr>dr_bound = within, dr_abandoned = []\<rparr>, tr i)
      | Some (i, Inl _) \<Rightarrow>
          Some (\<lparr>dr_bound = within, dr_abandoned = fst (queue_abandon (q_pending (tr (Suc i))))\<rparr>,
                abandon_all (tr (Suc i))))"

end
