(* ===== verification/Queue_Facts.thy ===== *)
theory Queue_Facts
  imports Kernel_Queue "HOL-Library.Sublist"
begin

text \<open>
  The invariant of the denial queue over every interleaving: each decision answered with an id is
  owed, settled, or counted lost exactly once; appends are attempted in the order of the denials;
  the counters count what was reported; and left to itself the appender settles everything owed.
\<close>

section \<open>Losses and counters\<close>

definition losses :: "metrics_state \<Rightarrow> (decision_id \<times> cause) multiset" where
  "losses m = mset (me_reported m) + mset (me_stderr m)"

definition lost_ids :: "metrics_state \<Rightarrow> decision_id multiset" where
  "lost_ids m = image_mset fst (losses m)"

definition loss_count :: "cause \<Rightarrow> metrics_state \<Rightarrow> nat" where
  "loss_count c m = size (filter_mset (\<lambda>p. snd p = c) (losses m))"

fun cause_counter :: "cause \<Rightarrow> metrics_state \<Rightarrow> u64" where
  "cause_counter Dropped m = me_dropped m"
| "cause_counter Failed m = me_failures m"
| "cause_counter Abandoned m = me_abandoned m"

lemma losses_record_loss [simp]: "losses (record_loss i c m) = add_mset (i, c) (losses m)"
  by (cases c) (simp_all add: losses_def record_loss_def report_def)

lemma lost_ids_record_loss [simp]: "lost_ids (record_loss i c m) = add_mset i (lost_ids m)"
  by (simp add: lost_ids_def)

lemma losses_record_losses [simp]:
  "losses (record_losses is c m) = mset (map (\<lambda>i. (i, c)) is) + losses m"
  unfolding record_losses_def by (induction "is" arbitrary: m) simp_all

lemma lost_ids_record_losses [simp]: "lost_ids (record_losses is c m) = mset is + lost_ids m"
proof -
  have "image_mset fst (mset (map (\<lambda>i. (i, c)) is)) = mset is"
    by (simp add: multiset.map_comp comp_def)
  then show ?thesis by (simp add: lost_ids_def)
qed

definition counters_agree :: "metrics_state \<Rightarrow> metrics_state \<Rightarrow> bool" where
  "counters_agree m0 m \<longleftrightarrow>
     (\<forall>c. cause_counter c m + of_nat (loss_count c m0) = cause_counter c m0 + of_nat (loss_count c m))"

lemma counter_record_loss:
  "cause_counter c (record_loss i c' m) = cause_counter c m + (if c = c' then 1 else 0)"
  by (cases c; cases c') (simp_all add: record_loss_def report_def)

lemma loss_count_record_loss:
  "loss_count c (record_loss i c' m) = loss_count c m + (if c = c' then 1 else 0)"
  by (simp add: loss_count_def)

lemma counters_agree_loss [simp]:
  "counters_agree m0 m \<Longrightarrow> counters_agree m0 (record_loss i c m)"
  by (auto simp: counters_agree_def counter_record_loss loss_count_record_loss)

lemma counters_agree_losses [simp]:
  "counters_agree m0 m \<Longrightarrow> counters_agree m0 (record_losses is c m)"
  unfolding record_losses_def by (induction "is" arbitrary: m) simp_all

section \<open>The invariant\<close>

definition owed_ids :: "pending \<Rightarrow> decision_id list" where
  "owed_ids p = fst (queue_abandon p)"

definition returned_ok :: "appender \<Rightarrow> decision_id multiset" where
  "returned_ok a = (case a of Returned d r \<Rightarrow> if is_ok r then {#d_id d#} else {#} | _ \<Rightarrow> {#})"

definition held :: "appender \<Rightarrow> decision option" where
  "held a = (case a of Writing d \<Rightarrow> Some d | Returned d _ \<Rightarrow> Some d | _ \<Rightarrow> None)"

definition queue_inv :: "nat \<Rightarrow> metrics_state \<Rightarrow> queue_state \<Rightarrow> bool" where
  "queue_inv capacity m0 s \<longleftrightarrow>
     q_capacity s = capacity \<and>
     length (pe_waiting (q_pending s)) \<le> capacity \<and>
     (\<forall>i. pe_appending (q_pending s) = Some i \<longrightarrow> map_option d_id (held (q_appender s)) = Some i) \<and>
     mset (map d_id (q_emitted s)) + lost_ids m0 =
       lost_ids (q_metrics s) + mset (q_settled s) + mset (owed_ids (q_pending s)) \<and>
     mset (q_settled s) + returned_ok (q_appender s) \<subseteq># mset (q_landed s) \<and>
     subseq (q_attempted s @ pe_waiting (q_pending s)) (q_emitted s) \<and>
     counters_agree m0 (q_metrics s) \<and>
     me_decisions (q_metrics s) = me_decisions m0 + of_nat (length (q_emitted s))"

lemma owed_ids_simps [simp]:
  "owed_ids (p\<lparr>pe_closed := b\<rparr>) = owed_ids p"
  "owed_ids (p\<lparr>pe_appending := None\<rparr>) = map d_id (pe_waiting p)"
  by (simp_all add: owed_ids_def queue_abandon_def)

lemma length_owed_ids: "length (owed_ids p) = queue_owed p"
  by (simp add: owed_ids_def queue_abandon_def queue_owed_def split: option.split)

lemma queue_inv_start: "queue_inv capacity m (queue_start capacity m)"
  by (simp add: queue_inv_def queue_start_def queue_new_def owed_ids_def queue_abandon_def
      returned_ok_def counters_agree_def)

lemma owed_ids_push: "owed_ids (p\<lparr>pe_waiting := pe_waiting p @ [d]\<rparr>) = owed_ids p @ [d_id d]"
  by (simp add: owed_ids_def queue_abandon_def)

lemma losses_record_decision [simp]: "losses (record_decision d m) = losses m"
  by (simp add: losses_def record_decision_def)

lemma counters_agree_decision [simp]:
  "counters_agree m0 (record_decision d m) = counters_agree m0 m"
proof -
  have "cause_counter c (record_decision d m) = cause_counter c m" for c
    by (cases c) (simp_all add: record_decision_def)
  then show ?thesis by (simp add: counters_agree_def loss_count_def)
qed

lemma me_decisions_rules [simp]:
  "me_decisions (record_loss i c m) = me_decisions m"
  "me_decisions (record_decision d m) = me_decisions m + 1"
  "me_decisions (record_losses is c m) = me_decisions m"
proof -
  show loss: "me_decisions (record_loss i c m) = me_decisions m" for i c m
    by (cases c) (simp_all add: record_loss_def report_def)
  show "me_decisions (record_losses is c m) = me_decisions m"
    unfolding record_losses_def by (induction "is" arbitrary: m) (simp_all add: loss)
qed (simp add: record_decision_def)

lemma inv_deny: "queue_inv n m0 s \<Longrightarrow> queue_inv n m0 (queue_deny d s)"
  by (auto simp: queue_inv_def queue_deny_def enqueue_def queue_push_def owed_ids_push lost_ids_def
      simp flip: append_assoc intro: list_emb_append2 subseq_append')

lemma inv_abandon: "queue_inv n m0 s \<Longrightarrow> queue_inv n m0 (abandon_all s)"
proof -
  assume *: "queue_inv n m0 s"
  have st: "abandon_all s = s\<lparr>q_pending := (q_pending s)\<lparr>pe_appending := None, pe_waiting := []\<rparr>,
      q_metrics := record_losses (owed_ids (q_pending s)) Abandoned (q_metrics s)\<rparr>"
    by (simp add: abandon_all_def owed_ids_def queue_abandon_def)
  have none: "owed_ids ((q_pending s)\<lparr>pe_appending := None, pe_waiting := []\<rparr>) = []"
    by (simp add: owed_ids_def queue_abandon_def)
  have "subseq (q_attempted s) (q_attempted s @ pe_waiting (q_pending s))"
    by (simp add: list_emb_append2 subseq_rev_drop_many)
  with * show ?thesis
    unfolding st queue_inv_def by (auto simp: none intro: subseq_order.trans)
qed

lemma inv_close: "queue_inv n m0 s \<Longrightarrow> queue_inv n m0 (s\<lparr>q_pending := queue_close (q_pending s)\<rparr>)"
  by (simp add: queue_inv_def queue_close_def)

lemma inv_drop: "queue_inv n m0 s \<Longrightarrow> queue_inv n m0 (appender_drop s)"
proof -
  assume "queue_inv n m0 s"
  then have "queue_inv n m0 (abandon_all s)" by (rule inv_abandon)
  moreover have "pe_appending (q_pending (abandon_all s)) = None"
    by (simp add: abandon_all_def queue_abandon_def)
  ultimately show ?thesis
    by (auto simp: appender_drop_def queue_inv_def returned_ok_def split: appender.splits if_splits
        dest: mset_subset_eq_insertD subset_mset.dual_order.trans)
qed

lemma inv_take:
  assumes "queue_inv n m0 s" "q_appender s = Asking"
  shows "queue_inv n m0 (appender_take s)"
proof (cases "pe_waiting (q_pending s)")
  case Nil
  then show ?thesis
    using assms inv_drop [OF assms(1)] by (auto simp: appender_take_def queue_next_def)
next
  case (Cons d ds)
  have "pe_appending (q_pending s) = None"
    using assms by (cases "pe_appending (q_pending s)") (auto simp: queue_inv_def held_def)
  with Cons assms show ?thesis
    by (auto simp: queue_inv_def appender_take_def queue_next_def owed_ids_def queue_abandon_def
        held_def returned_ok_def)
qed

lemma inv_return:
  assumes "queue_inv n m0 s" "q_appender s = Writing d"
  shows "queue_inv n m0 (appender_return d answer s)"
  using assms by (auto simp: queue_inv_def appender_return_def held_def returned_ok_def)

lemma inv_settle:
  assumes "queue_inv n m0 s" "q_appender s = Returned d answer"
  shows "queue_inv n m0 (appender_settle d answer s)"
proof (cases "pe_appending (q_pending s) = Some (d_id d)")
  case True
  then show ?thesis
    using assms
    by (cases "is_ok answer")
      (auto simp: queue_inv_def appender_settle_def queue_settle_def returned_ok_def owed_ids_def
        queue_abandon_def held_def)
next
  case False
  then have "pe_appending (q_pending s) = None"
    using assms by (cases "pe_appending (q_pending s)") (auto simp: queue_inv_def held_def)
  then show ?thesis
    using assms
    by (auto simp: queue_inv_def appender_settle_def queue_settle_def returned_ok_def held_def
        split: if_splits dest: mset_subset_eq_insertD subset_mset.dual_order.trans)
qed

lemma inv_appender_step: "appender_step s t \<Longrightarrow> queue_inv n m0 s \<Longrightarrow> queue_inv n m0 t"
  by (induction rule: appender_step.induct)
    (auto intro: inv_abandon inv_close inv_take inv_return inv_settle inv_drop)

lemma inv_step: "queue_step s t \<Longrightarrow> queue_inv n m0 s \<Longrightarrow> queue_inv n m0 t"
  by (induction rule: queue_step.induct) (auto intro: inv_deny inv_appender_step)

lemma inv_reaches:
  assumes "queue_reaches s t" "queue_inv n m0 s"
  shows "queue_inv n m0 t"
  using assms unfolding queue_reaches_def
  by (induction rule: rtranclp_induct) (auto intro: inv_step)

section \<open>What the invariant gives\<close>

lemma reached_inv: "queue_reaches (queue_start n m0) t \<Longrightarrow> queue_inv n m0 t"
  by (rule inv_reaches [OF _ queue_inv_start])

lemma owed_bound: "queue_inv n m0 s \<Longrightarrow> queue_owed (q_pending s) \<le> Suc n"
  by (auto simp: queue_inv_def queue_owed_def)

text \<open>Starting from clean counters, every id has exactly one account.\<close>

lemma one_account:
  assumes "queue_inv n m0 s" "lost_ids m0 = {#}" "distinct (map d_id (q_emitted s))" "d \<in> set (q_emitted s)"
  shows "count (lost_ids (q_metrics s)) (d_id d) + count (mset (q_settled s)) (d_id d) +
           count (mset (owed_ids (q_pending s))) (d_id d) = 1"
proof -
  have eq: "mset (map d_id (q_emitted s)) =
      lost_ids (q_metrics s) + mset (q_settled s) + mset (owed_ids (q_pending s))"
    using assms(1,2) by (simp add: queue_inv_def)
  have "d_id d \<in> set (map d_id (q_emitted s))" using assms(4) by simp
  then have "count (mset (map d_id (q_emitted s))) (d_id d) = 1"
    using assms(3) by (simp only: distinct_count_atmost_1 set_mset_mset if_True)
  then show ?thesis unfolding eq by simp
qed

lemma settled_landed: "queue_inv n m0 s \<Longrightarrow> set (q_settled s) \<subseteq> set (q_landed s)"
proof -
  assume "queue_inv n m0 s"
  then have "mset (q_settled s) \<subseteq># mset (q_landed s)"
    unfolding queue_inv_def by (meson mset_subset_eq_add_left subset_mset.order_trans)
  then show ?thesis by (metis set_mset_mono set_mset_mset)
qed

lemma queue_figures:
  assumes "queue_inv n m0 s"
  shows "queue_owed (q_pending s) \<le> Suc n \<and> subseq (q_attempted s) (q_emitted s) \<and>
    cause_counter c (q_metrics s) + of_nat (loss_count c m0) =
      cause_counter c m0 + of_nat (loss_count c (q_metrics s)) \<and>
    me_decisions (q_metrics s) = me_decisions m0 + of_nat (length (q_emitted s))"
proof -
  have "subseq (q_attempted s) (q_attempted s @ pe_waiting (q_pending s))"
    by (simp add: list_emb_append2 subseq_rev_drop_many)
  then have "subseq (q_attempted s) (q_emitted s)"
    using assms by (auto simp: queue_inv_def intro: subseq_order.trans)
  with owed_bound [OF assms] assms show ?thesis by (simp add: queue_inv_def counters_agree_def)
qed

text \<open>
  Progress of the appender: left alone it handles every decision owed, in order, in three turns
  each; a closed queue ends the task. Flushing and draining return within their bound, and a
  drain leaves nothing owed.
\<close>

lemma append_all_add: "append_all A (m + n) s = append_all A n (append_all A m s)"
  by (induction m arbitrary: s) simp_all

lemma turn_reaches: "queue_reaches s (appender_turn A s)"
  unfolding queue_reaches_def
  by (auto simp: appender_turn_def split: appender.split
      intro!: r_into_rtranclp behind intro: take written settle)

lemma append_all_reaches: "queue_reaches s (append_all A n s)"
proof (induction n arbitrary: s)
  case 0
  then show ?case by (simp add: queue_reaches_def)
next
  case (Suc n)
  then show ?case
    using turn_reaches [of s A] unfolding queue_reaches_def append_all.simps
    by (meson rtranclp_trans)
qed

section \<open>The appender handles what is owed\<close>

definition resting :: "queue_state \<Rightarrow> bool" where
  "resting s \<longleftrightarrow> q_appender s = Asking \<and> pe_appending (q_pending s) = None"

definition handled :: "(decision \<Rightarrow> error + hash) \<Rightarrow> decision list \<Rightarrow> queue_state \<Rightarrow> queue_state" where
  "handled A ds s =
     s\<lparr>q_pending := (q_pending s)\<lparr>pe_waiting := drop (length ds) (pe_waiting (q_pending s))\<rparr>,
       q_metrics := record_losses (map d_id (filter (\<lambda>d. \<not> is_ok (A d)) ds)) Failed (q_metrics s),
       q_attempted := q_attempted s @ ds,
       q_landed := q_landed s @ map d_id (filter (\<lambda>d. is_ok (A d)) ds),
       q_settled := q_settled s @ map d_id (filter (\<lambda>d. is_ok (A d)) ds)\<rparr>"

lemma three_turns:
  assumes "resting s" "pe_waiting (q_pending s) = d # ds"
  shows "append_all A 3 s = handled A [d] s"
  using assms
  by (simp add: numeral_3_eq_3 appender_turn_def appender_take_def queue_next_def resting_def
      appender_return_def appender_settle_def queue_settle_def handled_def record_losses_def)

lemma handled_append: "handled A es (handled A ds s) = handled A (ds @ es) s"
  by (simp add: handled_def record_losses_def add.commute)

lemma resting_handled: "resting s \<Longrightarrow> resting (handled A ds s)"
  by (simp add: resting_def handled_def)

lemma append_all_waiting:
  assumes "resting s" "pe_waiting (q_pending s) = ds @ es"
  shows "append_all A (3 * length ds) s = handled A ds s"
  using assms
proof (induction ds arbitrary: s)
  case Nil
  then show ?case by (simp add: handled_def record_losses_def)
next
  case (Cons d ds)
  have one: "append_all A 3 s = handled A [d] s"
    using Cons.prems by (intro three_turns) simp_all
  have rest: "append_all A (3 * length ds) (handled A [d] s) = handled A ds (handled A [d] s)"
  proof (rule Cons.IH)
    show "resting (handled A [d] s)" by (rule resting_handled [OF Cons.prems(1)])
    show "pe_waiting (q_pending (handled A [d] s)) = ds @ es"
      using Cons.prems(2) by (simp add: handled_def)
  qed
  have "append_all A (3 * length (d # ds)) s = append_all A (3 * length ds) (append_all A 3 s)"
    by (simp only: append_all_add [symmetric] length_Cons) (simp add: algebra_simps)
  also have "\<dots> = handled A (d # ds) s"
    unfolding one rest handled_append by simp
  finally show ?case .
qed

lemma append_all_rested:
  assumes "resting s"
  shows "append_all A (3 * length (pe_waiting (q_pending s))) s = handled A (pe_waiting (q_pending s)) s"
  using append_all_waiting [OF assms, of "pe_waiting (q_pending s)" "[]"] by simp

text \<open>Whatever it was doing, two turns bring the appender to rest.\<close>

lemma comes_to_rest:
  assumes inv: "queue_inv n m0 s" and alive: "q_appender s \<noteq> Gone"
  obtains k where "k \<le> 2" "resting (append_all A k s)"
    "pe_waiting (q_pending (append_all A k s)) = pe_waiting (q_pending s)"
    "k = 0 \<or> held (q_appender s) \<noteq> None"
proof (cases "q_appender s")
  case Asking
  with inv have "resting s"
    by (cases "pe_appending (q_pending s)") (auto simp: resting_def queue_inv_def held_def)
  then show ?thesis by (intro that [of 0]) simp_all
next
  case (Writing d)
  have app: "pe_appending (q_pending s) = None \<or> pe_appending (q_pending s) = Some (d_id d)"
    using inv Writing by (cases "pe_appending (q_pending s)") (auto simp: queue_inv_def held_def)
  show ?thesis
  proof (intro that [of 2])
    show "resting (append_all A 2 s)"
      using app Writing by (auto simp: numeral_2_eq_2 appender_turn_def appender_return_def
          appender_settle_def queue_settle_def resting_def)
    show "pe_waiting (q_pending (append_all A 2 s)) = pe_waiting (q_pending s)"
      using Writing by (auto simp: numeral_2_eq_2 appender_turn_def appender_return_def
          appender_settle_def queue_settle_def)
  qed (simp_all add: Writing held_def)
next
  case (Returned d r)
  have app: "pe_appending (q_pending s) = None \<or> pe_appending (q_pending s) = Some (d_id d)"
    using inv Returned by (cases "pe_appending (q_pending s)") (auto simp: queue_inv_def held_def)
  show ?thesis
  proof (intro that [of 1])
    show "resting (append_all A 1 s)"
      using app Returned by (auto simp: appender_turn_def appender_settle_def queue_settle_def resting_def)
    show "pe_waiting (q_pending (append_all A 1 s)) = pe_waiting (q_pending s)"
      using Returned by (auto simp: appender_turn_def appender_settle_def queue_settle_def)
  qed (simp_all add: Returned held_def)
next
  case Gone
  with alive show ?thesis by simp
qed

lemma appender_settles_all:
  assumes "queue_inv n m0 s" "q_appender s \<noteq> Gone"
  shows "\<exists>k \<le> 3 * length (pe_waiting (q_pending s)) + 2. queue_owed (q_pending (append_all A k s)) = 0"
proof -
  from assms obtain k where k: "k \<le> 2" "resting (append_all A k s)"
    "pe_waiting (q_pending (append_all A k s)) = pe_waiting (q_pending s)"
    by (rule comes_to_rest)
  let ?w = "pe_waiting (q_pending s)"
  have "append_all A (k + 3 * length ?w) s = handled A ?w (append_all A k s)"
    unfolding append_all_add using append_all_rested [OF k(2), of A] k(3) by simp
  moreover have "queue_owed (q_pending (handled A ?w (append_all A k s))) = 0"
    using k(2,3) by (simp add: queue_owed_def handled_def resting_def)
  ultimately show ?thesis using k(1) by (intro exI [of _ "k + 3 * length ?w"]) simp
qed

text \<open>Once the last kernel is dropped, the appender handles what is left and ends.\<close>

lemma closed_queue_ends:
  assumes "resting s" "pe_closed (q_pending s)"
  shows "q_appender (append_all A (3 * length (pe_waiting (q_pending s)) + 1) s) = Gone"
proof -
  let ?w = "pe_waiting (q_pending s)"
  have "append_all A (3 * length ?w + 1) s = appender_turn A (handled A ?w s)"
    unfolding append_all_add append_all_rested [OF assms(1)] by simp
  also have "q_appender \<dots> = Gone"
    using assms by (simp add: appender_turn_def appender_take_def queue_next_def handled_def
        resting_def appender_drop_def)
  finally show ?thesis .
qed

section \<open>Flush and drain\<close>

lemma flush_loop_spec:
  "flush_loop tr now deadline i fuel = Some (j, r) \<Longrightarrow>
     i \<le> j \<and> (r = Inr () \<longleftrightarrow> queue_owed (q_pending (tr j)) = 0) \<and>
     (r \<noteq> Inr () \<longrightarrow> deadline \<le> now j) \<and>
     (\<forall>k. i \<le> k \<and> k < j \<longrightarrow> queue_owed (q_pending (tr k)) \<noteq> 0 \<and> now k < deadline)"
proof (induction tr now deadline i fuel rule: flush_loop.induct)
  case (1 tr now deadline i fuel)
  show ?case
  proof (cases "queue_owed (q_pending (tr i)) = 0 \<or> deadline \<le> now i")
    case True
    with 1(2) show ?thesis by (auto simp: flush_loop.simps [of tr now deadline i] Let_def split: if_splits)
  next
    case False
    with 1(2) obtain f where f: "fuel = Suc f" "flush_loop tr now deadline (Suc i) f = Some (j, r)"
      by (cases fuel) (auto simp: flush_loop.simps [of tr now deadline i] Let_def)
    with 1(1) [OF refl _ _ f(1)] False have IH: "Suc i \<le> j \<and>
        (r = Inr () \<longleftrightarrow> queue_owed (q_pending (tr j)) = 0) \<and>
        (r \<noteq> Inr () \<longrightarrow> deadline \<le> now j) \<and>
        (\<forall>k. Suc i \<le> k \<and> k < j \<longrightarrow> queue_owed (q_pending (tr k)) \<noteq> 0 \<and> now k < deadline)"
      by simp
    moreover have "queue_owed (q_pending (tr k)) \<noteq> 0 \<and> now k < deadline" if "i \<le> k" "k < j" for k
      using IH False that by (cases "k = i") auto
    ultimately show ?thesis by auto
  qed
qed

lemma flush_loop_returns:
  assumes tick: "\<And>k. now k + FLUSH_POLL \<le> now (Suc k)"
    and "deadline \<le> now i + FLUSH_POLL * fuel"
  shows "\<exists>a. flush_loop tr now deadline i fuel = Some a"
  using assms(2)
proof (induction fuel arbitrary: i)
  case 0
  then show ?case by (auto simp: flush_loop.simps [of tr now deadline i] Let_def)
next
  case (Suc fuel)
  have "deadline \<le> now (Suc i) + FLUSH_POLL * fuel"
    using Suc.prems tick [of i] by simp
  then have "\<exists>a. flush_loop tr now deadline (Suc i) fuel = Some a" by (rule Suc.IH)
  then show ?case by (auto simp: flush_loop.simps [of tr now deadline i] Let_def)
qed

lemma flush_returns:
  assumes "\<And>k. now k + FLUSH_POLL \<le> now (Suc k)"
  shows "\<exists>a. flush tr now within (within div FLUSH_POLL + 1) = Some a"
  unfolding flush_def
proof (rule flush_loop_returns [of now, OF assms])
  have "within < FLUSH_POLL * (within div FLUSH_POLL + 1)"
    by (simp add: FLUSH_POLL_def)
  then show "now 0 + within \<le> now 0 + FLUSH_POLL * (within div FLUSH_POLL + 1)" by simp
qed

lemma owed_zero_iff: "queue_owed p = 0 \<longleftrightarrow> owed_ids p = []"
  using length_owed_ids [of p] by auto

lemma owed_abandon_all: "queue_owed (q_pending (abandon_all s)) = 0"
  by (simp add: abandon_all_def queue_abandon_def queue_owed_def)

lemma losses_abandon_all:
  "losses (q_metrics (abandon_all s)) =
     mset (map (\<lambda>i. (i, Abandoned)) (owed_ids (q_pending s))) + losses (q_metrics s)"
  by (simp add: abandon_all_def owed_ids_def case_prod_unfold)

lemma drain_spec:
  assumes "kernel_drain tr now within fuel = Some (d, s)"
  shows "queue_owed (q_pending s) = 0 \<and> dr_bound d = within \<and>
    (\<exists>i. is_complete d \<and> s = tr i \<or>
       s = abandon_all (tr i) \<and> dr_abandoned d = owed_ids (q_pending (tr i)))"
proof -
  obtain i r where flush: "flush tr now within fuel = Some (i, r)"
    using assms by (auto simp: kernel_drain_def split: option.splits)
  then have spec: "r = Inr () \<longleftrightarrow> queue_owed (q_pending (tr i)) = 0"
    unfolding flush_def by (blast dest: flush_loop_spec)
  show ?thesis
  proof (cases r)
    case (Inl e)
    with assms flush have "d = \<lparr>dr_bound = within, dr_abandoned = owed_ids (q_pending (tr (Suc i)))\<rparr>"
      "s = abandon_all (tr (Suc i))"
      by (auto simp: kernel_drain_def owed_ids_def)
    then show ?thesis by (auto simp: owed_abandon_all)
  next
    case (Inr u)
    with assms flush have "d = \<lparr>dr_bound = within, dr_abandoned = []\<rparr>" "s = tr i"
      by (auto simp: kernel_drain_def)
    with Inr spec show ?thesis by (auto simp: is_complete_def)
  qed
qed

lemma drain_returns:
  assumes "\<And>k. now k + FLUSH_POLL \<le> now (Suc k)"
  shows "\<exists>d s i. kernel_drain tr now within (within div FLUSH_POLL + 1) = Some (d, s) \<and>
    queue_owed (q_pending s) = 0 \<and> dr_bound d = within \<and>
    (is_complete d \<and> s = tr i \<or>
     dr_abandoned d = owed_ids (q_pending (tr i)) \<and>
     losses (q_metrics s) =
       mset (map (\<lambda>i. (i, Abandoned)) (dr_abandoned d)) + losses (q_metrics (tr i)))"
proof -
  obtain j r where "flush tr now within (within div FLUSH_POLL + 1) = Some (j, r)"
    using flush_returns [of now, OF assms] by (metis prod.collapse)
  then obtain d s where drain: "kernel_drain tr now within (within div FLUSH_POLL + 1) = Some (d, s)"
    by (cases r) (auto simp: kernel_drain_def)
  from drain_spec [OF drain] obtain i where
    "queue_owed (q_pending s) = 0" "dr_bound d = within"
    "is_complete d \<and> s = tr i \<or> s = abandon_all (tr i) \<and> dr_abandoned d = owed_ids (q_pending (tr i))"
    by blast
  with drain losses_abandon_all [of "tr i"] show ?thesis by metis
qed

end
