(* ===== verification/Kernel_Runtime.thy ===== *)
theory Kernel_Runtime
  imports Gate_Facts Queue_Facts Ledger_Epoch
begin

text \<open>
  \<^verbatim>\<open>Kernel\<close> of \<^verbatim>\<open>crates/rahi-kernel/src/lib.rs\<close> and the facades of \<^verbatim>\<open>facade.rs\<close>. The immutable
  half of \<^verbatim>\<open>Inner\<close> is \<open>kernel\<close>; its counter and its queue are \<open>kernel_state\<close>. The wall clock of the
  app is the argument \<open>wall\<close>, its reading when one is configured. A facade runs the operation it
  wraps on a store of any type; the operation itself is an argument.
\<close>

definition DEFAULT_QUEUE_CAPACITY :: nat where "DEFAULT_QUEUE_CAPACITY = 1024"
definition DEFAULT_NODE_ID :: u64 where "DEFAULT_NODE_ID = 1"
definition NONCE_LEN :: nat where "NONCE_LEN = 16"

record decision_binding =
  db_epoch :: hash
  db_epoch_number :: u64
  db_instance :: string

record kernel_options =
  ko_queue_capacity :: nat
  ko_node_id :: u64
  ko_binding :: "decision_binding option"

record 'c kernel =
  kn_manifest :: manifest
  kn_hash :: hash
  kn_gate :: "'c check list"
  kn_nonce :: string
  kn_node_id :: u64
  kn_binding :: "decision_binding option"

record kernel_state =
  ks_seq :: u64
  ks_queue :: queue_state

type_synonym payload = "(string \<times> json) list"

section \<open>Boot\<close>

definition nonce_of :: "hash \<Rightarrow> string" where
  "nonce_of h = drop (length (as_str h) - NONCE_LEN) (as_str h)"

definition boot_nonce :: "'b world \<Rightarrow> ledger \<Rightarrow> ('b cell, string) op" where
  "boot_nonce W L = obind (ledger_head W L) (\<lambda>h. ret (nonce_of h))"

definition kernel_boot ::
  "'b env \<Rightarrow> 'b world \<Rightarrow> ledger \<Rightarrow> 'c gate_api \<Rightarrow> manifest \<Rightarrow> kernel_options \<Rightarrow> metrics_state \<Rightarrow>
   ('b cell, 'c kernel \<times> kernel_state) op" where
  "kernel_boot E W L K m opts metrics0 =
     obind (lift (manifest_hash K m)) (\<lambda>h.
     obind (current_manifest E W L) (\<lambda>current.
     if current \<noteq> h then fail (Stale ''the manifest has not been adopted'')
     else
       obind (lift (build_gate K m)) (\<lambda>gate.
       obind (boot_nonce W L) (\<lambda>nonce.
       let capacity = (if ko_queue_capacity opts = 0 then DEFAULT_QUEUE_CAPACITY
                       else ko_queue_capacity opts);
           node = (if ko_node_id opts = 0 then DEFAULT_NODE_ID else ko_node_id opts)
       in ret (\<lparr>kn_manifest = m, kn_hash = h, kn_gate = gate, kn_nonce = nonce, kn_node_id = node,
                kn_binding = ko_binding opts\<rparr>,
               \<lparr>ks_seq = 0, ks_queue = queue_start capacity metrics0\<rparr>)))))"

section \<open>Decisions\<close>

definition pad_zeros :: "nat \<Rightarrow> string \<Rightarrow> string" where
  "pad_zeros n s = replicate (n - length s) (CHR ''0'') @ s"

definition decision_id_of :: "string \<Rightarrow> u64 \<Rightarrow> u64 \<Rightarrow> decision_id" where
  "decision_id_of nonce node n =
     ''kernel:'' @ nonce @ '':'' @ show_nat (unat node) @ '':'' @ pad_zeros 12 (show_nat (unat n))"

definition next_id :: "'c kernel \<Rightarrow> kernel_state \<Rightarrow> decision_id \<times> kernel_state" where
  "next_id kn s =
     (decision_id_of (kn_nonce kn) (kn_node_id kn) (ks_seq s), s\<lparr>ks_seq := ks_seq s + 1\<rparr>)"

text \<open>\<^verbatim>\<open>serde_json::Map::insert\<close>: a present key is overwritten.\<close>

definition stamp :: "decision_binding \<Rightarrow> payload \<Rightarrow> payload" where
  "stamp b p =
     AList.update ''instance'' (JStr (db_instance b))
       (AList.update ''epoch_number'' (JNum (uint (db_epoch_number b)))
         (AList.update ''epoch'' (JStr (as_str (db_epoch b))) p))"

definition stamp_if :: "decision_binding option \<Rightarrow> payload \<Rightarrow> payload" where
  "stamp_if b p = (case b of None \<Rightarrow> p | Some b \<Rightarrow> stamp b p)"

definition clock_if :: "u64 option \<Rightarrow> payload \<Rightarrow> payload" where
  "clock_if wall p = (case wall of None \<Rightarrow> p | Some t \<Rightarrow> AList.update ''wall_time'' (JNum (uint t)) p)"

definition text_if :: "string \<Rightarrow> string option \<Rightarrow> payload \<Rightarrow> payload" where
  "text_if name v p = (case v of None \<Rightarrow> p | Some t \<Rightarrow> AList.update name (JStr t) p)"

definition observe_and_queue :: "decision \<Rightarrow> kernel_state \<Rightarrow> kernel_state" where
  "observe_and_queue d s =
     s\<lparr>ks_queue := queue_deny d (ks_queue s)\<rparr>"

definition refuse_payload :: "'c kernel \<Rightarrow> u64 option \<Rightarrow> payload \<Rightarrow> payload" where
  "refuse_payload kn wall p =
     clock_if wall (stamp_if (kn_binding kn)
       (AList.update ''manifest'' (JStr (as_str (kn_hash kn))) p))"

definition refuse ::
  "'b env \<Rightarrow> 'c kernel \<Rightarrow> u64 option \<Rightarrow> string \<Rightarrow> sub \<Rightarrow> string \<Rightarrow> payload \<Rightarrow> kernel_state \<Rightarrow>
   decision_id \<times> kernel_state" where
  "refuse E kn wall k actor reason p s =
     (case next_id kn s of
        (i, s) \<Rightarrow>
          (i, observe_and_queue
                (with_payload E (JObj (refuse_payload kn wall p)) (decision_new i k actor Deny reason)) s))"

definition emit_payload :: "'c kernel \<Rightarrow> u64 option \<Rightarrow> request \<Rightarrow> verdict \<Rightarrow> payload" where
  "emit_payload kn wall r v =
     clock_if wall (stamp_if (kn_binding kn)
       (text_if ''host'' (rq_host r) (text_if ''table'' (rq_table r) (text_if ''key'' (rq_key r)
         [(''service'', JStr (sn_str (rq_service r))),
          (''resource'', JStr (rq_resource r)),
          (''manifest'', JStr (as_str (kn_hash kn))),
          (''checks'', JArr (map JStr (vd_check_ids v))),
          (''blocking'', JBool (vd_blocking v))]))))"

definition emit_decision ::
  "'b env \<Rightarrow> 'c kernel \<Rightarrow> u64 option \<Rightarrow> request \<Rightarrow> verdict \<Rightarrow> decision_id \<Rightarrow> decision" where
  "emit_decision E kn wall r v i =
     (let d = decision_at (rq_at r)
                (with_payload E (JObj (emit_payload kn wall r v))
                  (decision_new i (kind_str (rq_kind r)) (rq_actor r) (outcome_of v) (vd_reason v)))
      in (case nearest_capability (kn_manifest kn) r of
            None \<Rightarrow> d
          | Some c \<Rightarrow> with_capability c d))"

definition emit ::
  "'b env \<Rightarrow> 'c kernel \<Rightarrow> u64 option \<Rightarrow> request \<Rightarrow> verdict \<Rightarrow> kernel_state \<Rightarrow>
   decision_id \<times> kernel_state" where
  "emit E kn wall r v s =
     (case next_id kn s of (i, s) \<Rightarrow> (i, observe_and_queue (emit_decision E kn wall r v i) s))"

definition adjudicate :: "'c gate_api \<Rightarrow> 'c kernel \<Rightarrow> request \<Rightarrow> verdict" where
  "adjudicate K kn r = gate_evaluate K (kn_gate kn) (to_context K r)"

definition admit ::
  "'b env \<Rightarrow> 'c gate_api \<Rightarrow> 'c kernel \<Rightarrow> u64 option \<Rightarrow> request \<Rightarrow> kernel_state \<Rightarrow>
   (error + unit) \<times> kernel_state" where
  "admit E K kn wall r s =
     (let v = adjudicate K kn r in
      if vd_outcome v = GateAllow then (Inr (), s)
      else
        (case emit E kn wall r v s of
           (i, s) \<Rightarrow> (Inl (Denied (i @ '': '' @ vd_reason v)), s)))"

section \<open>Facades\<close>

text \<open>An operation of the wrapped value: its result and the store it leaves.\<close>

type_synonym ('s, 'r) store_op = "'s \<Rightarrow> (error + 'r) \<times> 's"

record facade =
  fa_service :: service_name
  fa_kind :: capability_kind
  fa_resource :: string

definition governed_new ::
  "'c kernel \<Rightarrow> string \<Rightarrow> capability_kind \<Rightarrow> string \<Rightarrow> error + facade" where
  "governed_new kn service k resource =
     rbind (service_name_parse service) (\<lambda>s.
     if map_of (m_services (kn_manifest kn)) s = None
     then Inl (Validation ''the manifest declares no such service'')
     else Inr \<lparr>fa_service = s, fa_kind = k, fa_resource = resource\<rparr>)"

definition facade_request :: "facade \<Rightarrow> sub \<Rightarrow> request" where
  "facade_request f actor = request_new (fa_service f) (fa_kind f) (fa_resource f) actor"

definition governed_call ::
  "'b env \<Rightarrow> 'c gate_api \<Rightarrow> 'c kernel \<Rightarrow> u64 option \<Rightarrow> facade \<Rightarrow> request \<Rightarrow> ('s, 'r) store_op \<Rightarrow>
   kernel_state \<Rightarrow> 's \<Rightarrow> (error + 'r) \<times> kernel_state \<times> 's" where
  "governed_call E K kn wall f r run s store =
     (if rq_service r \<noteq> fa_service f \<or> rq_kind r \<noteq> fa_kind f \<or> rq_resource r \<noteq> fa_resource f
      then (Inl (Validation ''the request is for another triple''), s, store)
      else
        (case admit E K kn wall r s of
           (Inl e, s) \<Rightarrow> (Inl e, s, store)
         | (Inr _, s) \<Rightarrow> (case run store of (a, store) \<Rightarrow> (a, s, store))))"

definition facade_expect :: "facade \<Rightarrow> capability_kind \<Rightarrow> error + unit" where
  "facade_expect f k = ensure (fa_kind f = k) (Validation ''the facade was declared for another kind'')"

definition governed_op ::
  "'b env \<Rightarrow> 'c gate_api \<Rightarrow> 'c kernel \<Rightarrow> u64 option \<Rightarrow> facade \<Rightarrow> capability_kind \<Rightarrow>
   (request \<Rightarrow> request) \<Rightarrow> sub \<Rightarrow> ('s, 'r) store_op \<Rightarrow>
   kernel_state \<Rightarrow> 's \<Rightarrow> (error + 'r) \<times> kernel_state \<times> 's" where
  "governed_op E K kn wall f k narrow actor run s store =
     (case facade_expect f k of
        Inl e \<Rightarrow> (Inl e, s, store)
      | Inr _ \<Rightarrow> governed_call E K kn wall f (narrow (facade_request f actor)) run s store)"

text \<open>The methods over the store: which kind each demands, and what its request names.\<close>

definition governed_query where
  "governed_query E K kn wall f = governed_op E K kn wall f DbRead (with_table (fa_resource f))"

definition governed_query_consistent where
  "governed_query_consistent E K kn wall f =
     governed_op E K kn wall f DbRead (with_table (fa_resource f))"

definition governed_execute where
  "governed_execute E K kn wall f = governed_op E K kn wall f DbWrite (with_table (fa_resource f))"

definition governed_txn where
  "governed_txn E K kn wall f = governed_op E K kn wall f DbTxn (with_table (fa_resource f))"

definition governed_migrate where
  "governed_migrate E K kn wall f = governed_op E K kn wall f DbMigrate (with_table (fa_resource f))"

definition governed_kv_get where
  "governed_kv_get E K kn wall f key = governed_op E K kn wall f KvGet (with_key key)"

definition governed_kv_put where
  "governed_kv_put E K kn wall f key = governed_op E K kn wall f KvPut (with_key key)"

definition governed_kv_del where
  "governed_kv_del E K kn wall f key = governed_op E K kn wall f KvDelete (with_key key)"

definition governed_counter_get where
  "governed_counter_get E K kn wall f key = governed_op E K kn wall f CounterGet (with_key key)"

definition governed_counter_add where
  "governed_counter_add E K kn wall f key = governed_op E K kn wall f CounterAdd (with_key key)"

definition governed_lease where
  "governed_lease E K kn wall f key = governed_op E K kn wall f LockAcquire (with_key key)"

text \<open>A write fenced by a lease is adjudicated as a transaction on its table.\<close>

definition governed_fenced_txn ::
  "'b env \<Rightarrow> 'c gate_api \<Rightarrow> 'c kernel \<Rightarrow> u64 option \<Rightarrow> facade \<Rightarrow> string \<Rightarrow> sub \<Rightarrow> string \<Rightarrow>
   ('s, 'r) store_op \<Rightarrow> kernel_state \<Rightarrow> 's \<Rightarrow> (error + 'r) \<times> kernel_state \<times> 's" where
  "governed_fenced_txn E K kn wall f lease_key actor table run s store =
     (case admit E K kn wall
             (with_key lease_key (with_table table (request_new (fa_service f) DbTxn table actor))) s of
        (Inl e, s) \<Rightarrow> (Inl e, s, store)
      | (Inr _, s) \<Rightarrow> (case run store of (a, store) \<Rightarrow> (a, s, store)))"

definition governed_publish ::
  "'b env \<Rightarrow> 'c gate_api \<Rightarrow> 'c kernel \<Rightarrow> u64 option \<Rightarrow> facade \<Rightarrow> string \<Rightarrow> string \<Rightarrow> sub \<Rightarrow>
   ('s, 'r) store_op \<Rightarrow> kernel_state \<Rightarrow> 's \<Rightarrow> (error + 'r) \<times> kernel_state \<times> 's" where
  "governed_publish E K kn wall f envelope_kind envelope_name actor run s store =
     (case facade_expect f NotifyPublish of
        Inl e \<Rightarrow> (Inl e, s, store)
      | Inr _ \<Rightarrow>
          if envelope_kind \<noteq> fa_resource f
          then (Inl (Validation ''the envelope is of another kind''), s, store)
          else governed_call E K kn wall f (with_key envelope_name (facade_request f actor)) run s store)"

definition governed_listen where
  "governed_listen E K kn wall f = governed_op E K kn wall f NotifyListen (\<lambda>r. r)"

definition governed_read ::
  "'b env \<Rightarrow> 'c gate_api \<Rightarrow> 'c kernel \<Rightarrow> u64 option \<Rightarrow> facade \<Rightarrow> (string \<Rightarrow> string option) \<Rightarrow> sub \<Rightarrow>
   kernel_state \<Rightarrow> (error + string) \<times> kernel_state" where
  "governed_read E K kn wall f secrets actor s =
     (case governed_op E K kn wall f SecretRead (\<lambda>r. r) actor
             (\<lambda>st. (or_error (NotFound ''the secret is not set'') (secrets (fa_resource f)), st)) s () of
        (a, s, _) \<Rightarrow> (a, s))"

definition governed_permit ::
  "'b env \<Rightarrow> 'c gate_api \<Rightarrow> 'c kernel \<Rightarrow> u64 option \<Rightarrow> facade \<Rightarrow> sub \<Rightarrow> string \<Rightarrow> kernel_state \<Rightarrow>
   (error + string) \<times> kernel_state" where
  "governed_permit E K kn wall f actor host s =
     (case facade_expect f HttpEgress of
        Inl e \<Rightarrow> (Inl e, s)
      | Inr _ \<Rightarrow>
          (case admit E K kn wall (with_host host (request_new (fa_service f) HttpEgress host actor)) s of
             (Inl e, s) \<Rightarrow> (Inl e, s)
           | (Inr _, s) \<Rightarrow> (Inr host, s)))"

section \<open>A running kernel\<close>

text \<open>
  What can happen to a booted kernel: a request is adjudicated, another layer's refusal is
  ledgered, or the queue moves behind them.
\<close>

inductive kernel_step ::
  "'b env \<Rightarrow> 'c gate_api \<Rightarrow> 'c kernel \<Rightarrow> kernel_state \<Rightarrow> kernel_state \<Rightarrow> bool"
  for E :: "'b env" and K :: "'c gate_api" and kn :: "'c kernel"
where
  admits: "kernel_step E K kn s (snd (admit E K kn wall r s))"
| refuses: "kernel_step E K kn s (snd (refuse E kn wall k actor reason p s))"
| behind: "appender_step (ks_queue s) q \<Longrightarrow> kernel_step E K kn s (s\<lparr>ks_queue := q\<rparr>)"

definition kernel_reaches ::
  "'b env \<Rightarrow> 'c gate_api \<Rightarrow> 'c kernel \<Rightarrow> kernel_state \<Rightarrow> kernel_state \<Rightarrow> bool" where
  "kernel_reaches E K kn = (kernel_step E K kn)\<^sup>*\<^sup>*"

end
