(* ===== verification/Runtime_Facts.thy ===== *)
theory Runtime_Facts
  imports Kernel_Runtime
begin

text \<open>
  Decision ids are distinct across nodes, boots and counters; a running kernel keeps the queue's
  invariant and mints a fresh id per refusal; admission and every facade are exact.
\<close>

section \<open>Decision ids\<close>

lemma show_nat_no_colon: "CHR '':'' \<notin> set (show_nat n)"
  using show_nat_digits [of "CHR '':''" n] by (auto simp: ascii_digit_def less_eq_char_def)

lemma digits_value_zeros: "digits_value (replicate k (CHR ''0'') @ s) = digits_value s"
  by (induction k) (simp_all add: digits_value_def)

lemma pad_zeros_inj: "pad_zeros k (show_nat a) = pad_zeros k (show_nat b) \<longleftrightarrow> a = b"
proof
  assume "pad_zeros k (show_nat a) = pad_zeros k (show_nat b)"
  then have "digits_value (pad_zeros k (show_nat a)) = digits_value (pad_zeros k (show_nat b))" by simp
  then show "a = b" by (simp add: pad_zeros_def digits_value_zeros digits_value_show)
qed simp

lemma split_at_first:
  assumes "xs @ c # ys = xs' @ (c :: char) # ys'" "c \<notin> set xs" "c \<notin> set xs'"
  shows "xs = xs' \<and> ys = ys'"
proof -
  have "split_once c (xs @ c # ys) = Some (xs, ys)" using assms(2) by (simp add: split_once_Some_iff)
  moreover have "split_once c (xs @ c # ys) = Some (xs', ys')"
    using assms(3) unfolding assms(1) by (simp add: split_once_Some_iff)
  ultimately show ?thesis by simp
qed

lemma decision_id_of_inj:
  assumes "decision_id_of n a i = decision_id_of n' b j" "CHR '':'' \<notin> set n" "CHR '':'' \<notin> set n'"
  shows "n = n' \<and> a = b \<and> i = j"
proof -
  from assms(1) have "n @ CHR '':'' # (show_nat (unat a) @ CHR '':'' # pad_zeros 12 (show_nat (unat i))) =
      n' @ CHR '':'' # (show_nat (unat b) @ CHR '':'' # pad_zeros 12 (show_nat (unat j)))"
    by (simp add: decision_id_of_def)
  then have n: "n = n'" and rest: "show_nat (unat a) @ CHR '':'' # pad_zeros 12 (show_nat (unat i)) =
      show_nat (unat b) @ CHR '':'' # pad_zeros 12 (show_nat (unat j))"
    using split_at_first [OF _ assms(2,3)] by blast+
  from split_at_first [OF rest show_nat_no_colon show_nat_no_colon]
  have "show_nat (unat a) = show_nat (unat b)" "pad_zeros 12 (show_nat (unat i)) = pad_zeros 12 (show_nat (unat j))"
    by blast+
  then have "unat a = unat b" "unat i = unat j" by (simp_all add: show_nat_inj pad_zeros_inj)
  with n show ?thesis by (simp add: word_unat_eq_iff)
qed

text \<open>The nonce is the end of a well-formed hash, which holds hex digits only.\<close>

lemma hash_text:
  assumes "hash_ok h"
  obtains ds where "as_str h = ''sha256:'' @ ds" "length ds = 64" "\<forall>c \<in> set ds. c \<noteq> CHR '':''"
proof -
  from assms obtain ds where pre: "strip_prefix HASH_PREFIX (as_str h) = Some ds"
    and ds: "length ds = HASH_HEX_LEN" "list_all ascii_hexdigit ds"
    by (auto simp: hash_ok_def digest_shape_def hash_parse_def split: if_splits)
  have "\<not> ascii_hexdigit (CHR '':'')"
    by (simp add: ascii_hexdigit_def ascii_digit_def less_eq_char_def)
  with ds(2) have "\<forall>c \<in> set ds. c \<noteq> CHR '':''" by (auto simp: list_all_iff)
  moreover have "as_str h = HASH_PREFIX @ ds" using pre by (simp only: strip_prefix_Some_iff)
  ultimately show ?thesis using that ds(1) by (simp add: HASH_PREFIX_def HASH_HEX_LEN_def)
qed

lemma nonce_no_colon:
  assumes "hash_ok h"
  shows "CHR '':'' \<notin> set (nonce_of h)"
proof -
  from assms obtain ds where ds: "as_str h = ''sha256:'' @ ds" "length ds = 64" "\<forall>c \<in> set ds. c \<noteq> CHR '':''"
    by (rule hash_text)
  have "drop (length (as_str h) - NONCE_LEN) (as_str h) = drop 48 ds"
    by (simp add: ds(1,2) NONCE_LEN_def)
  then have "set (nonce_of h) \<subseteq> set ds" unfolding nonce_of_def by (simp add: set_drop_subset)
  with ds(3) show ?thesis by auto
qed

lemma nonce_of_length: "NONCE_LEN \<le> length (as_str h) \<Longrightarrow> length (nonce_of h) = NONCE_LEN"
  by (simp add: nonce_of_def)

section \<open>The kernel's invariant\<close>

definition minted :: "'c kernel \<Rightarrow> nat \<Rightarrow> decision_id" where
  "minted kn i = decision_id_of (kn_nonce kn) (kn_node_id kn) (of_nat i)"

definition kernel_inv :: "'c kernel \<Rightarrow> nat \<Rightarrow> metrics_state \<Rightarrow> kernel_state \<Rightarrow> bool" where
  "kernel_inv kn n m0 s \<longleftrightarrow>
     queue_inv n m0 (ks_queue s) \<and>
     ks_seq s = of_nat (length (q_emitted (ks_queue s))) \<and>
     map d_id (q_emitted (ks_queue s)) = map (minted kn) [0..<length (q_emitted (ks_queue s))]"

lemma q_emitted_deny [simp]: "q_emitted (queue_deny d s) = q_emitted s @ [d]"
  by (auto simp: queue_deny_def enqueue_def queue_push_def)

lemma q_emitted_behind: "appender_step s t \<Longrightarrow> q_emitted t = q_emitted s"
  by (induction rule: appender_step.induct)
    (auto simp: abandon_all_def queue_close_def appender_take_def appender_drop_def
      appender_return_def appender_settle_def split: next_turn.splits prod.splits)

lemma with_payload_id [simp]: "d_id (with_payload E v d) = d_id d"
  by (simp add: with_payload_def)

lemma emit_decision_id [simp]: "d_id (emit_decision E kn wall r v i) = i"
  by (auto simp: emit_decision_def Let_def decision_at_def with_capability_def decision_new_def
      split: option.split)

text \<open>Both ways to a refusal mint the next id and hand one decision to the queue.\<close>

lemma kernel_inv_deny:
  assumes "kernel_inv kn n m0 s" "next_id kn s = (i, s')" "d_id d = i"
  shows "kernel_inv kn n m0 (observe_and_queue d s')"
proof -
  from assms(2) have s': "s' = s\<lparr>ks_seq := ks_seq s + 1\<rparr>" and i: "i = minted kn (length (q_emitted (ks_queue s)))"
    using assms(1) by (auto simp: next_id_def minted_def kernel_inv_def)
  show ?thesis
    using assms(1,3) by (simp add: kernel_inv_def observe_and_queue_def s' i inv_deny)
qed

lemma refuse_queues:
  "refuse E kn wall k actor reason p s = (i, t) \<Longrightarrow>
     \<exists>s' d. next_id kn s = (i, s') \<and> d_id d = i \<and> d_outcome d = Deny \<and> t = observe_and_queue d s'"
proof -
  assume *: "refuse E kn wall k actor reason p s = (i, t)"
  let ?d = "with_payload E (JObj (refuse_payload kn wall p)) (decision_new i k actor Deny reason)"
  from * obtain s' where "next_id kn s = (i, s')" "t = observe_and_queue ?d s'"
    by (auto simp: refuse_def split: prod.splits)
  moreover have "d_id ?d = i \<and> d_outcome ?d = Deny"
    by (simp add: with_payload_def decision_new_def)
  ultimately show ?thesis by blast
qed

lemma emit_queues:
  "emit E kn wall r v s = (i, t) \<Longrightarrow>
     \<exists>s'. next_id kn s = (i, s') \<and> t = observe_and_queue (emit_decision E kn wall r v i) s'"
  by (auto simp: emit_def split: prod.splits)

lemma kernel_inv_admit: "kernel_inv kn n m0 s \<Longrightarrow> kernel_inv kn n m0 (snd (admit E K kn wall r s))"
  by (auto simp: admit_def Let_def split: prod.splits dest!: emit_queues intro: kernel_inv_deny)

lemma kernel_inv_refuse: "kernel_inv kn n m0 s \<Longrightarrow> kernel_inv kn n m0 (snd (refuse E kn wall k a why p s))"
proof -
  assume *: "kernel_inv kn n m0 s"
  obtain i t where it: "refuse E kn wall k a why p s = (i, t)" by (cases "refuse E kn wall k a why p s")
  from refuse_queues [OF it] * show ?thesis by (auto simp: it intro: kernel_inv_deny)
qed

lemma kernel_inv_step: "kernel_step E K kn s t \<Longrightarrow> kernel_inv kn n m0 s \<Longrightarrow> kernel_inv kn n m0 t"
proof (induction rule: kernel_step.induct)
  case (behind s q)
  then show ?case
    using q_emitted_behind [OF behind(1)] inv_appender_step [OF behind(1)]
    by (simp add: kernel_inv_def)
qed (simp_all add: kernel_inv_admit kernel_inv_refuse)

lemma kernel_inv_reaches:
  assumes "kernel_reaches E K kn s t" "kernel_inv kn n m0 s"
  shows "kernel_inv kn n m0 t"
  using assms unfolding kernel_reaches_def
  by (induction rule: rtranclp_induct) (auto intro: kernel_inv_step)

definition kernel_start :: "nat \<Rightarrow> metrics_state \<Rightarrow> kernel_state" where
  "kernel_start capacity m = \<lparr>ks_seq = 0, ks_queue = queue_start capacity m\<rparr>"

lemma kernel_inv_start: "kernel_inv kn n m (kernel_start n m)"
  using queue_inv_start [of n m] by (simp add: kernel_inv_def kernel_start_def queue_start_def)

lemma minted_distinct:
  assumes "n \<le> 2 ^ 64" "CHR '':'' \<notin> set (kn_nonce kn)"
  shows "distinct (map (minted kn) [0..<n])"
proof -
  have "inj_on (minted kn) {0..<n}"
  proof (rule inj_onI)
    fix i j
    assume ij: "i \<in> {0..<n}" "j \<in> {0..<n}" and eq: "minted kn i = minted kn j"
    from decision_id_of_inj [OF eq [unfolded minted_def] assms(2) assms(2)]
    have "(of_nat i :: u64) = of_nat j" by blast
    then have "unat (of_nat i :: u64) = unat (of_nat j :: u64)" by simp
    moreover have "i < 2 ^ 64" "j < 2 ^ 64" using ij assms(1) by simp_all
    ultimately show "i = j" by (simp add: unat_of_nat)
  qed
  then show ?thesis by (simp add: distinct_map)
qed

lemma emitted_distinct:
  assumes "kernel_inv kn n m0 s" "length (q_emitted (ks_queue s)) \<le> 2 ^ 64" "CHR '':'' \<notin> set (kn_nonce kn)"
  shows "distinct (map d_id (q_emitted (ks_queue s)))"
proof -
  have "map d_id (q_emitted (ks_queue s)) = map (minted kn) [0..<length (q_emitted (ks_queue s))]"
    using assms(1) by (simp add: kernel_inv_def)
  then show ?thesis using minted_distinct [OF assms(2,3)] by simp
qed

lemma kernel_queue_inv: "kernel_reaches E K kn (kernel_start n m0) s \<Longrightarrow> queue_inv n m0 (ks_queue s)"
  using kernel_inv_reaches [OF _ kernel_inv_start, of E K kn n m0 s] by (simp add: kernel_inv_def)

lemma denial_accounts:
  assumes "kernel_reaches E K kn (kernel_start n m0) s" "lost_ids m0 = {#}"
    and "CHR '':'' \<notin> set (kn_nonce kn)" "length (q_emitted (ks_queue s)) \<le> 2 ^ 64"
    and "d \<in> set (q_emitted (ks_queue s))"
  shows "count (lost_ids (q_metrics (ks_queue s))) (d_id d) +
      count (mset (q_settled (ks_queue s))) (d_id d) +
      count (mset (owed_ids (q_pending (ks_queue s)))) (d_id d) = 1 \<and>
    set (q_settled (ks_queue s)) \<subseteq> set (q_landed (ks_queue s))"
proof -
  have inv: "kernel_inv kn n m0 s" by (rule kernel_inv_reaches [OF assms(1) kernel_inv_start])
  then have q: "queue_inv n m0 (ks_queue s)" by (simp add: kernel_inv_def)
  from one_account [OF q assms(2) emitted_distinct [OF inv assms(4,3)] assms(5)] settled_landed [OF q]
  show ?thesis by blast
qed

section \<open>Admission\<close>

lemma admit_cases:
  assumes K: "gate_laws K" and gate: "build_gate K (kn_manifest kn) = Inr (kn_gate kn)"
  shows "if grant_admits (kn_manifest kn) r \<and>
            (gp_checks (m_gate (kn_manifest kn)) = [] \<or> ck_evaluate (secrets_check K) (to_context K r) = None)
         then admit E K kn wall r s = (Inr (), s)
         else \<exists>i s' d why. next_id kn s = (i, s') \<and>
                admit E K kn wall r s = (Inl (Denied (i @ '': '' @ why)), observe_and_queue d s') \<and>
                d_id d = i \<and> d_outcome d = Deny \<and> d_reason d = why \<and> d_kind d = kind_str (rq_kind r) \<and>
                d_actor d = rq_actor r \<and> d_at d = rq_at r \<and>
                d_capability d = nearest_capability (kn_manifest kn) r"
proof -
  let ?v = "adjudicate K kn r"
  have out: "vd_outcome ?v = (if grant_admits (kn_manifest kn) r \<and>
      (gp_checks (m_gate (kn_manifest kn)) = [] \<or> ck_evaluate (secrets_check K) (to_context K r) = None)
      then GateAllow else GateDeny)"
    unfolding adjudicate_def by (rule gate_outcome_iff [OF K gate])
  show ?thesis
  proof (cases "vd_outcome ?v = GateAllow")
    case True
    then show ?thesis using out by (simp add: admit_def split: if_splits)
  next
    case False
    then have deny: "vd_outcome ?v = GateDeny" using out by (auto split: if_splits)
    obtain i s' where i: "next_id kn s = (i, s')" by (cases "next_id kn s")
    let ?d = "emit_decision E kn wall r ?v i"
    have "admit E K kn wall r s = (Inl (Denied (i @ '': '' @ vd_reason ?v)), observe_and_queue ?d s')"
      using False i by (simp add: admit_def emit_def Let_def)
    moreover have "d_id ?d = i \<and> d_outcome ?d = Deny \<and> d_reason ?d = vd_reason ?v \<and> d_kind ?d = kind_str (rq_kind r) \<and>
        d_actor ?d = rq_actor r \<and> d_at ?d = rq_at r \<and>
        d_capability ?d = nearest_capability (kn_manifest kn) r"
      using deny by (auto simp: emit_decision_def Let_def decision_at_def with_capability_def
          decision_new_def with_payload_def outcome_of_def split: option.split)
    ultimately have "\<exists>i s' d why. next_id kn s = (i, s') \<and>
        admit E K kn wall r s = (Inl (Denied (i @ '': '' @ why)), observe_and_queue d s') \<and>
        d_id d = i \<and> d_outcome d = Deny \<and> d_reason d = why \<and> d_kind d = kind_str (rq_kind r) \<and>
        d_actor d = rq_actor r \<and> d_at d = rq_at r \<and>
        d_capability d = nearest_capability (kn_manifest kn) r"
      using i by blast
    then show ?thesis using False unfolding out by presburger
  qed
qed

section \<open>What a refusal says cannot be forged\<close>

lemma refuse_payload_fields:
  "map_of (refuse_payload kn wall p) ''manifest'' = Some (JStr (as_str (kn_hash kn)))"
  "kn_binding kn = Some b \<Longrightarrow>
     map_of (refuse_payload kn wall p) ''epoch'' = Some (JStr (as_str (db_epoch b))) \<and>
     map_of (refuse_payload kn wall p) ''epoch_number'' = Some (JNum (uint (db_epoch_number b))) \<and>
     map_of (refuse_payload kn wall p) ''instance'' = Some (JStr (db_instance b))"
  "wall = Some t \<Longrightarrow> map_of (refuse_payload kn wall p) ''wall_time'' = Some (JNum (uint t))"
  "k \<notin> {''manifest'', ''epoch'', ''epoch_number'', ''instance'', ''wall_time''} \<Longrightarrow>
     map_of (refuse_payload kn wall p) k = map_of p k"
  by (auto simp: refuse_payload_def clock_if_def stamp_if_def stamp_def update_conv' split: option.split)

section \<open>The facades\<close>

text \<open>A request the manifest grants, its constraints met, and that the roster does not refuse.\<close>

definition request_granted :: "'c gate_api \<Rightarrow> manifest \<Rightarrow> request \<Rightarrow> bool" where
  "request_granted K m r \<longleftrightarrow>
     (\<exists>caps c. granted m (rq_service r) = Some caps \<and> c \<in> set caps \<and> covers c (rq_kind r) (rq_resource r) \<and>
        admits (cap_constraints c) (rq_key r) (rq_table r) (rq_host r) = Inr () \<and> capability_ok (m_resources m) c) \<and>
     (gp_checks (m_gate m) = [] \<or> ck_evaluate (secrets_check K) (to_context K r) = None)"

text \<open>The state after a denial: the next id was minted and one decision with it was queued.\<close>

definition denied_with :: "'c kernel \<Rightarrow> kernel_state \<Rightarrow> error \<Rightarrow> kernel_state \<Rightarrow> bool" where
  "denied_with kn s e s' \<longleftrightarrow>
     (\<exists>i t d why. next_id kn s = (i, t) \<and> e = Denied (i @ '': '' @ why) \<and> s' = observe_and_queue d t \<and>
        d_id d = i \<and> d_outcome d = Deny \<and> d_reason d = why)"

lemma admit_exact:
  assumes "gate_laws K" "build_gate K (kn_manifest kn) = Inr (kn_gate kn)" "manifest_ok (kn_manifest kn)"
  shows "if request_granted K (kn_manifest kn) r then admit E K kn wall r s = (Inr (), s)
    else \<exists>e s'. admit E K kn wall r s = (Inl e, s') \<and> denied_with kn s e s'"
proof -
  have "request_granted K (kn_manifest kn) r \<longleftrightarrow> grant_admits (kn_manifest kn) r \<and>
      (gp_checks (m_gate (kn_manifest kn)) = [] \<or> ck_evaluate (secrets_check K) (to_context K r) = None)"
    unfolding request_granted_def grant_admits_def by (auto dest: granted_declared [OF assms(3)])
  then show ?thesis
    using admit_cases [OF assms(1,2), of r E wall s] unfolding denied_with_def by (auto split: if_splits)
qed

lemma governed_call_exact:
  assumes "gate_laws K" "build_gate K (kn_manifest kn) = Inr (kn_gate kn)" "manifest_ok (kn_manifest kn)"
    and "rq_service r = fa_service f" "rq_kind r = fa_kind f" "rq_resource r = fa_resource f"
  shows "if request_granted K (kn_manifest kn) r
    then governed_call E K kn wall f r run s store = (fst (run store), s, snd (run store))
    else \<exists>e s'. governed_call E K kn wall f r run s store = (Inl e, s', store) \<and> denied_with kn s e s'"
  using admit_exact [OF assms(1-3), of r E wall s] assms(4-)
  by (auto simp: governed_call_def split: if_splits prod.splits)

lemma facade_request_fields [simp]:
  "rq_service (request_new n kind x a) = n" "rq_kind (request_new n kind x a) = kind" "rq_resource (request_new n kind x a) = x"
  "rq_service (facade_request f actor) = fa_service f" "rq_kind (facade_request f actor) = fa_kind f"
  "rq_resource (facade_request f actor) = fa_resource f"
  "rq_service (with_table t r) = rq_service r" "rq_kind (with_table t r) = rq_kind r" "rq_resource (with_table t r) = rq_resource r"
  "rq_service (with_key k r) = rq_service r" "rq_kind (with_key k r) = rq_kind r" "rq_resource (with_key k r) = rq_resource r"
  by (simp_all add: facade_request_def request_new_def with_table_def with_key_def)

lemma governed_op_exact:
  assumes "gate_laws K" "build_gate K (kn_manifest kn) = Inr (kn_gate kn)" "manifest_ok (kn_manifest kn)"
    and "rq_service (narrow (facade_request f actor)) = fa_service f" "rq_kind (narrow (facade_request f actor)) = fa_kind f"
      "rq_resource (narrow (facade_request f actor)) = fa_resource f"
  shows "if fa_kind f \<noteq> k then \<exists>why. governed_op E K kn wall f k narrow actor run s store = (Inl (Validation why), s, store)
    else if request_granted K (kn_manifest kn) (narrow (facade_request f actor))
    then governed_op E K kn wall f k narrow actor run s store = (fst (run store), s, snd (run store))
    else \<exists>e s'. governed_op E K kn wall f k narrow actor run s store = (Inl e, s', store) \<and> denied_with kn s e s'"
  using governed_call_exact [OF assms, of E wall run s store]
  by (auto simp: governed_op_def facade_expect_def ensure_def)

section \<open>Every method of every facade\<close>

text \<open>The public methods over a wrapped value, and what an answer of one of them runs through.\<close>

datatype facade_method =
    Query
  | Query_consistent
  | Run_execute
  | Run_txn
  | Run_migrate
  | Kv_get string
  | Kv_put string
  | Kv_del string
  | Counter_get string
  | Counter_add string
  | Take_lease string
  | Fenced_txn string string
  | Publish string string
  | Listen
  | Raw_call request

fun facade_call ::
  "'b env \<Rightarrow> 'c gate_api \<Rightarrow> 'c kernel \<Rightarrow> u64 option \<Rightarrow> facade \<Rightarrow> facade_method \<Rightarrow> sub \<Rightarrow> ('s, 'r) store_op \<Rightarrow>
   kernel_state \<Rightarrow> 's \<Rightarrow> (error + 'r) \<times> kernel_state \<times> 's" where
  "facade_call E K kn wall f Query = governed_query E K kn wall f"
| "facade_call E K kn wall f Query_consistent = governed_query_consistent E K kn wall f"
| "facade_call E K kn wall f Run_execute = governed_execute E K kn wall f"
| "facade_call E K kn wall f Run_txn = governed_txn E K kn wall f"
| "facade_call E K kn wall f Run_migrate = governed_migrate E K kn wall f"
| "facade_call E K kn wall f (Kv_get key) = governed_kv_get E K kn wall f key"
| "facade_call E K kn wall f (Kv_put key) = governed_kv_put E K kn wall f key"
| "facade_call E K kn wall f (Kv_del key) = governed_kv_del E K kn wall f key"
| "facade_call E K kn wall f (Counter_get key) = governed_counter_get E K kn wall f key"
| "facade_call E K kn wall f (Counter_add key) = governed_counter_add E K kn wall f key"
| "facade_call E K kn wall f (Take_lease key) = governed_lease E K kn wall f key"
| "facade_call E K kn wall f (Fenced_txn lease_key table) = (\<lambda>actor. governed_fenced_txn E K kn wall f lease_key actor table)"
| "facade_call E K kn wall f (Publish k name) = governed_publish E K kn wall f k name"
| "facade_call E K kn wall f Listen = governed_listen E K kn wall f"
| "facade_call E K kn wall f (Raw_call r) = (\<lambda>_. governed_call E K kn wall f r)"

text \<open>The kind a method is for; a fenced transaction looks at no kind, being on the lease's own facade.\<close>

fun facade_fits :: "facade \<Rightarrow> facade_method \<Rightarrow> bool" where
  "facade_fits f Query = (fa_kind f = DbRead)"
| "facade_fits f Query_consistent = (fa_kind f = DbRead)"
| "facade_fits f Run_execute = (fa_kind f = DbWrite)"
| "facade_fits f Run_txn = (fa_kind f = DbTxn)"
| "facade_fits f Run_migrate = (fa_kind f = DbMigrate)"
| "facade_fits f (Kv_get _) = (fa_kind f = KvGet)"
| "facade_fits f (Kv_put _) = (fa_kind f = KvPut)"
| "facade_fits f (Kv_del _) = (fa_kind f = KvDelete)"
| "facade_fits f (Counter_get _) = (fa_kind f = CounterGet)"
| "facade_fits f (Counter_add _) = (fa_kind f = CounterAdd)"
| "facade_fits f (Take_lease _) = (fa_kind f = LockAcquire)"
| "facade_fits f (Fenced_txn _ _) = True"
| "facade_fits f (Publish k _) = (fa_kind f = NotifyPublish \<and> k = fa_resource f)"
| "facade_fits f Listen = (fa_kind f = NotifyListen)"
| "facade_fits f (Raw_call r) = (rq_service r = fa_service f \<and> rq_kind r = fa_kind f \<and> rq_resource r = fa_resource f)"

text \<open>What is adjudicated: service, kind and resource, and the table or the key the constraints look at.\<close>

fun facade_asks :: "facade \<Rightarrow> sub \<Rightarrow> facade_method \<Rightarrow> request" where
  "facade_asks f actor Query = with_table (fa_resource f) (request_new (fa_service f) DbRead (fa_resource f) actor)"
| "facade_asks f actor Query_consistent = with_table (fa_resource f) (request_new (fa_service f) DbRead (fa_resource f) actor)"
| "facade_asks f actor Run_execute = with_table (fa_resource f) (request_new (fa_service f) DbWrite (fa_resource f) actor)"
| "facade_asks f actor Run_txn = with_table (fa_resource f) (request_new (fa_service f) DbTxn (fa_resource f) actor)"
| "facade_asks f actor Run_migrate = with_table (fa_resource f) (request_new (fa_service f) DbMigrate (fa_resource f) actor)"
| "facade_asks f actor (Kv_get key) = with_key key (request_new (fa_service f) KvGet (fa_resource f) actor)"
| "facade_asks f actor (Kv_put key) = with_key key (request_new (fa_service f) KvPut (fa_resource f) actor)"
| "facade_asks f actor (Kv_del key) = with_key key (request_new (fa_service f) KvDelete (fa_resource f) actor)"
| "facade_asks f actor (Counter_get key) = with_key key (request_new (fa_service f) CounterGet (fa_resource f) actor)"
| "facade_asks f actor (Counter_add key) = with_key key (request_new (fa_service f) CounterAdd (fa_resource f) actor)"
| "facade_asks f actor (Take_lease key) = with_key key (request_new (fa_service f) LockAcquire (fa_resource f) actor)"
| "facade_asks f actor (Fenced_txn lease_key table) =
     with_key lease_key (with_table table (request_new (fa_service f) DbTxn table actor))"
| "facade_asks f actor (Publish k name) = with_key name (request_new (fa_service f) NotifyPublish (fa_resource f) actor)"
| "facade_asks f actor Listen = request_new (fa_service f) NotifyListen (fa_resource f) actor"
| "facade_asks f actor (Raw_call r) = r"

lemma facade_request_kind: "fa_kind f = k \<Longrightarrow> facade_request f actor = request_new (fa_service f) k (fa_resource f) actor"
  by (simp add: facade_request_def)

lemmas governed_defs = governed_query_def governed_query_consistent_def governed_execute_def governed_txn_def
  governed_migrate_def governed_kv_get_def governed_kv_put_def governed_kv_del_def governed_counter_get_def
  governed_counter_add_def governed_lease_def governed_listen_def

lemma facade_call_exact:
  assumes laws: "gate_laws K" "build_gate K (kn_manifest kn) = Inr (kn_gate kn)" "manifest_ok (kn_manifest kn)"
  shows "if \<not> facade_fits f meth then \<exists>why. facade_call E K kn wall f meth actor run s store = (Inl (Validation why), s, store)
    else if request_granted K (kn_manifest kn) (facade_asks f actor meth)
    then facade_call E K kn wall f meth actor run s store = (fst (run store), s, snd (run store))
    else \<exists>e s'. facade_call E K kn wall f meth actor run s store = (Inl e, s', store) \<and> denied_with kn s e s'"
proof -
  note op = governed_op_exact [OF laws, where f = f and E = E and wall = wall and run = run and s = s and store = store and actor = actor]
  show ?thesis
  proof (cases meth)
    case (Fenced_txn lease_key table)
    with admit_exact [OF laws, of "facade_asks f actor meth" E wall s] show ?thesis
      by (auto simp: governed_fenced_txn_def split: if_splits prod.splits)
  next
    case (Publish k name)
    with governed_call_exact [OF laws, of "with_key name (facade_request f actor)" f E wall run s store] show ?thesis
      by (auto simp: governed_publish_def facade_expect_def ensure_def facade_request_kind)
  next
    case (Raw_call r)
    with governed_call_exact [OF laws, of r f E wall run s store] show ?thesis
      by (auto simp: governed_call_def)
  qed (use op [where narrow = "with_table (fa_resource f)"] op [where narrow = "\<lambda>r. r"] op [where narrow = "with_key x" for x] in
    \<open>simp_all add: governed_defs facade_request_kind split: if_splits\<close>)
qed

text \<open>The two facades that wrap no store: a secret by its name, and a host by the name asked for.\<close>

lemma governed_read_exact:
  assumes laws: "gate_laws K" "build_gate K (kn_manifest kn) = Inr (kn_gate kn)" "manifest_ok (kn_manifest kn)"
  shows "if fa_kind f \<noteq> SecretRead then \<exists>why. governed_read E K kn wall f secrets actor s = (Inl (Validation why), s)
    else if request_granted K (kn_manifest kn) (request_new (fa_service f) SecretRead (fa_resource f) actor)
    then governed_read E K kn wall f secrets actor s =
      (or_error (NotFound ''the secret is not set'') (secrets (fa_resource f)), s)
    else \<exists>e s'. governed_read E K kn wall f secrets actor s = (Inl e, s') \<and> denied_with kn s e s'"
  using governed_op_exact [OF laws, of "\<lambda>r. r" f actor SecretRead E wall
      "\<lambda>st. (or_error (NotFound ''the secret is not set'') (secrets (fa_resource f)), st)" s "()"]
  by (auto simp: governed_read_def facade_request_kind split: if_splits)

lemma governed_permit_exact:
  assumes laws: "gate_laws K" "build_gate K (kn_manifest kn) = Inr (kn_gate kn)" "manifest_ok (kn_manifest kn)"
  shows "if fa_kind f \<noteq> HttpEgress then \<exists>why. governed_permit E K kn wall f actor host s = (Inl (Validation why), s)
    else if request_granted K (kn_manifest kn) (with_host host (request_new (fa_service f) HttpEgress host actor))
    then governed_permit E K kn wall f actor host s = (Inr host, s)
    else \<exists>e s'. governed_permit E K kn wall f actor host s = (Inl e, s') \<and> denied_with kn s e s'"
  using admit_exact [OF laws, of "with_host host (request_new (fa_service f) HttpEgress host actor)" E wall s]
  by (auto simp: governed_permit_def facade_expect_def ensure_def split: if_splits prod.splits)

section \<open>Boot\<close>

lemma kernel_boot_Inr:
  assumes "kernel_boot E W L K m opts m0 c = (Inr (kn, s), c')"
  shows "manifest_hash K m = Inr (kn_hash kn) \<and> kn_manifest kn = m \<and> build_gate K m = Inr (kn_gate kn) \<and>
    (\<exists>c1. current_manifest E W L c = (Inr (kn_hash kn), c1)) \<and>
    (\<exists>h c1 c2. ledger_head W L c1 = (Inr h, c2) \<and> kn_nonce kn = nonce_of h) \<and>
    kn_node_id kn \<noteq> 0 \<and>
    s = kernel_start (q_capacity (ks_queue s)) m0 \<and> 0 < q_capacity (ks_queue s)"
proof -
  from assms obtain h where h: "manifest_hash K m = Inr h"
    by (cases "manifest_hash K m") (auto simp: kernel_boot_def obind_def on_result_def lift_def fail_def)
  note step = assms [unfolded kernel_boot_def obind_def on_result_def lift_def h, simplified]
  obtain r c1 where cur: "current_manifest E W L c = (r, c1)" by (cases "current_manifest E W L c")
  show ?thesis
    using step h cur
    by (auto simp: kernel_start_def boot_nonce_def obind_def on_result_def ret_def fail_def Let_def
        DEFAULT_NODE_ID_def DEFAULT_QUEUE_CAPACITY_def queue_start_def
        split: sum.splits if_splits prod.splits; blast)
qed

end
