(* ===== verification/Kernel_Scan.thy ===== *)
theory Kernel_Scan
  imports Kernel_Gate "HOL-Library.List_Lexorder" "HOL-Library.Product_Lexorder"
begin

text \<open>
  \<^verbatim>\<open>crates/rahi-kernel/src/verify.rs\<close>: the build step that reads a crate's sources for every
  governed call site and checks it against the manifest. Offsets are byte offsets; the files of a
  crate are given as the list of their paths and texts, the directory walk being the file system's.
\<close>

definition MARKER_LOOKBACK_LINES :: nat where "MARKER_LOOKBACK_LINES = 5"
definition MARKER :: string where "MARKER = ''#[governed(''"
definition CONSTRUCTOR :: string where "CONSTRUCTOR = ''Governed::new(''"

record usage =
  us_service :: string
  us_kind :: capability_kind
  us_resource :: string
  us_site :: string

section \<open>Reading text\<close>

fun find_sub :: "string \<Rightarrow> string \<Rightarrow> nat option" where
  "find_sub pat [] = (if pat = [] then Some 0 else None)"
| "find_sub pat (x # xs) =
     (if take (length pat) (x # xs) = pat then Some 0 else map_option Suc (find_sub pat xs))"

definition line_of :: "string \<Rightarrow> nat \<Rightarrow> nat" where
  "line_of txt offset = length (filter (\<lambda>b. of_char b = (10 :: nat)) (take offset txt)) + 1"

text \<open>One byte inside or outside a string literal: the string flags after it.\<close>

definition string_flags :: "char \<Rightarrow> bool \<Rightarrow> bool \<Rightarrow> bool \<times> bool" where
  "string_flags b in_str escaped =
     (if in_str then
        (if escaped then (True, False)
         else if b = CHR 0x5C then (True, True)
         else (b \<noteq> CHR 0x22, False))
      else (b = CHR 0x22, escaped))"

record span_scan =
  sc_depth :: nat
  sc_start :: "nat option"
  sc_in_str :: bool
  sc_escaped :: bool

definition balanced_step ::
  "char \<Rightarrow> char \<Rightarrow> nat \<Rightarrow> char \<Rightarrow> span_scan \<Rightarrow> span_scan + (nat \<times> nat) option" where
  "balanced_step open close i b st =
     (if sc_in_str st \<or> b = CHR 0x22 then
        (case string_flags b (sc_in_str st) (sc_escaped st) of
           (in_str, escaped) \<Rightarrow> Inl (st\<lparr>sc_in_str := in_str, sc_escaped := escaped\<rparr>))
      else if b = open then
        Inl (st\<lparr>sc_depth := Suc (sc_depth st),
                sc_start := (if sc_depth st = 0 then Some (Suc i) else sc_start st)\<rparr>)
      else if b = close then
        (if sc_depth st - 1 = 0 then Inr (map_option (\<lambda>s. (s, i)) (sc_start st))
         else Inl (st\<lparr>sc_depth := sc_depth st - 1\<rparr>))
      else Inl st)"

primrec balanced_loop ::
  "char \<Rightarrow> char \<Rightarrow> string \<Rightarrow> nat \<Rightarrow> span_scan \<Rightarrow> (nat \<times> nat) option" where
  "balanced_loop open close [] i st = None"
| "balanced_loop open close (b # bs) i st =
     (case balanced_step open close i b st of
        Inl st' \<Rightarrow> balanced_loop open close bs (Suc i) st'
      | Inr r \<Rightarrow> r)"

definition balanced :: "string \<Rightarrow> nat \<Rightarrow> char \<Rightarrow> char \<Rightarrow> (nat \<times> nat) option" where
  "balanced txt from open close =
     balanced_loop open close (drop from txt) from
       \<lparr>sc_depth = 0, sc_start = None, sc_in_str = False, sc_escaped = False\<rparr>"

record args_scan =
  as_out :: "string list"
  as_cur :: string
  as_depth :: nat
  as_in_str :: bool
  as_escaped :: bool

definition split_step :: "char \<Rightarrow> args_scan \<Rightarrow> args_scan" where
  "split_step b st =
     (if as_in_str st \<or> b = CHR 0x22 then
        (case string_flags b (as_in_str st) (as_escaped st) of
           (in_str, escaped) \<Rightarrow> st\<lparr>as_cur := b # as_cur st, as_in_str := in_str, as_escaped := escaped\<rparr>)
      else if b \<in> set ''([{'' then st\<lparr>as_cur := b # as_cur st, as_depth := Suc (as_depth st)\<rparr>
      else if b \<in> set '')]}'' then st\<lparr>as_cur := b # as_cur st, as_depth := as_depth st - 1\<rparr>
      else if b = CHR '','' \<and> as_depth st = 0
      then st\<lparr>as_out := as_out st @ [trim (rev (as_cur st))], as_cur := []\<rparr>
      else st\<lparr>as_cur := b # as_cur st\<rparr>)"

definition split_args :: "string \<Rightarrow> string list" where
  "split_args inner =
     (let st = fold split_step inner
                 \<lparr>as_out = [], as_cur = [], as_depth = 0, as_in_str = False, as_escaped = False\<rparr>;
          tail = trim (rev (as_cur st))
      in if tail = [] then as_out st else as_out st @ [tail])"

fun unescape :: "string \<Rightarrow> string" where
  "unescape (a # b # r) =
     (if a = CHR 0x5C \<and> b = CHR 0x5C then CHR 0x5C # unescape r else a # unescape (b # r))"
| "unescape s = s"

definition strip_suffix :: "string \<Rightarrow> string \<Rightarrow> string option" where
  "strip_suffix p s = (if ends_with p s then Some (take (length s - length p) s) else None)"

definition unquote :: "string \<Rightarrow> string option" where
  "unquote arg =
     (case strip_prefix [CHR 0x22] arg of
        None \<Rightarrow> None
      | Some r \<Rightarrow>
          (case strip_suffix [CHR 0x22] r of
             None \<Rightarrow> None
           | Some body \<Rightarrow> if CHR 0x22 \<in> set body then None else Some (unescape body)))"

fun kind_debug :: "capability_kind \<Rightarrow> string" where
  "kind_debug DbRead = ''DbRead''"
| "kind_debug DbWrite = ''DbWrite''"
| "kind_debug DbTxn = ''DbTxn''"
| "kind_debug DbMigrate = ''DbMigrate''"
| "kind_debug KvGet = ''KvGet''"
| "kind_debug KvPut = ''KvPut''"
| "kind_debug KvDelete = ''KvDelete''"
| "kind_debug CounterGet = ''CounterGet''"
| "kind_debug CounterAdd = ''CounterAdd''"
| "kind_debug LockAcquire = ''LockAcquire''"
| "kind_debug NotifyPublish = ''NotifyPublish''"
| "kind_debug NotifyListen = ''NotifyListen''"
| "kind_debug SecretRead = ''SecretRead''"
| "kind_debug HttpEgress = ''HttpEgress''"

text \<open>\<^verbatim>\<open>rsplit("::").next()\<close>: what follows the last double colon.\<close>

definition last_path_segment :: "string \<Rightarrow> string" where
  "last_path_segment s =
     (case find_sub ''::'' (rev s) of None \<Rightarrow> s | Some i \<Rightarrow> rev (take i (rev s)))"

definition kind_of :: "string \<Rightarrow> capability_kind option" where
  "kind_of arg =
     (case unquote arg of
        Some t \<Rightarrow> (case kind_parse t of Inl _ \<Rightarrow> None | Inr k \<Rightarrow> Some k)
      | None \<Rightarrow> find (\<lambda>k. kind_debug k = trim (last_path_segment arg)) KIND_ALL)"

section \<open>Call sites\<close>

definition site_text :: "string \<Rightarrow> nat \<Rightarrow> string" where
  "site_text origin line = origin @ '':'' @ show_nat line"

definition constructor_usage :: "string list \<Rightarrow> string \<Rightarrow> nat \<Rightarrow> usage option" where
  "constructor_usage args origin line =
     (if length args < 4 then None
      else
        (case (unquote (trim (args ! 1)), kind_of (trim (args ! 2)), unquote (trim (args ! 3))) of
           (Some s, Some k, Some r) \<Rightarrow>
             Some \<lparr>us_service = s, us_kind = k, us_resource = r, us_site = site_text origin line\<rparr>
         | _ \<Rightarrow> None))"

type_synonym marker_fields = "string option \<times> string option \<times> string option"

fun marker_fields_loop :: "string list \<Rightarrow> marker_fields \<Rightarrow> error + marker_fields" where
  "marker_fields_loop [] found = Inr found"
| "marker_fields_loop (field # rest) (s, k, r) =
     (case split_once (CHR ''='') field of
        None \<Rightarrow> marker_fields_loop rest (s, k, r)
      | Some (key, v) \<Rightarrow>
          (let text_of = unquote (trim v) in
           if trim key = ''service'' then marker_fields_loop rest (text_of, k, r)
           else if trim key = ''kind'' then marker_fields_loop rest (s, text_of, r)
           else if trim key = ''resource'' then marker_fields_loop rest (s, k, text_of)
           else Inl (Validation ''the marker has no such key'')))"

definition marker_usage :: "string \<Rightarrow> string \<Rightarrow> nat \<Rightarrow> error + usage" where
  "marker_usage inner origin line =
     rbind (marker_fields_loop (split_args inner) (None, None, None)) (\<lambda>found.
       case found of
         (Some s, Some k, Some r) \<Rightarrow>
           rbind (map_err (\<lambda>e. Validation (message e)) (kind_parse k)) (\<lambda>kind.
             Inr \<lparr>us_service = s, us_kind = kind, us_resource = r, us_site = site_text origin line\<rparr>)
       | _ \<Rightarrow> Inl (Validation ''the marker names all three of service, kind, and resource''))"

lemma balanced_loop_bounds:
  "balanced_loop op cl bs i st = Some (s, e) \<Longrightarrow> i \<le> e \<and> e < i + length bs"
proof (induction bs arbitrary: i st)
  case Nil
  then show ?case by simp
next
  case (Cons b bs)
  show ?case
  proof (cases "balanced_step op cl i b st")
    case (Inl st')
    with Cons.prems have "balanced_loop op cl bs (Suc i) st' = Some (s, e)" by simp
    then show ?thesis by (auto dest: Cons.IH)
  next
    case (Inr r)
    with Cons.prems have "e = i"
      by (auto simp: balanced_step_def Let_def split: if_splits prod.splits)
    then show ?thesis by simp
  qed
qed

lemma balanced_bounds: "balanced txt from op cl = Some (s, e) \<Longrightarrow> from \<le> e \<and> e < length txt"
  unfolding balanced_def by (drule balanced_loop_bounds) auto

text \<open>The two passes over a file: the markers, then the constructor calls.\<close>

function markers_loop ::
  "string \<Rightarrow> string \<Rightarrow> nat \<Rightarrow> usage list \<Rightarrow> nat list \<Rightarrow> error + usage list \<times> nat list" where
  "markers_loop txt origin pos us marks =
     (case find_sub MARKER (drop pos txt) of
        None \<Rightarrow> Inr (us, marks)
      | Some found \<Rightarrow>
          (let start = pos + found;
               line = line_of txt start
           in case balanced txt (start + length MARKER - 1) (CHR ''('') (CHR '')'') of
                None \<Rightarrow> Inl (Validation ''the marker is not closed'')
              | Some (inner_start, inner_end) \<Rightarrow>
                  (case marker_usage (take (inner_end - inner_start) (drop inner_start txt)) origin line of
                     Inl e \<Rightarrow> Inl e
                   | Inr u \<Rightarrow> markers_loop txt origin inner_end (us @ [u]) (marks @ [line]))))"
  by pat_completeness auto

termination
  by (relation "measure (\<lambda>(txt, origin, pos, us, marks). length txt - pos)")
    (auto dest!: balanced_bounds simp: MARKER_def)

function constructors_loop ::
  "string \<Rightarrow> string \<Rightarrow> nat list \<Rightarrow> nat \<Rightarrow> usage list \<Rightarrow> error + usage list" where
  "constructors_loop txt origin marks pos us =
     (case find_sub CONSTRUCTOR (drop pos txt) of
        None \<Rightarrow> Inr us
      | Some found \<Rightarrow>
          (let start = pos + found;
               line = line_of txt start
           in case balanced txt (start + length CONSTRUCTOR - 1) (CHR ''('') (CHR '')'') of
                None \<Rightarrow> Inl (Validation ''the call is not closed'')
              | Some (inner_start, inner_end) \<Rightarrow>
                  (case constructor_usage (split_args (take (inner_end - inner_start) (drop inner_start txt)))
                          origin line of
                     Some u \<Rightarrow> constructors_loop txt origin marks inner_end (us @ [u])
                   | None \<Rightarrow>
                       if list_ex (\<lambda>m. m \<le> line \<and> line - m \<le> MARKER_LOOKBACK_LINES) marks
                       then constructors_loop txt origin marks inner_end us
                       else Inl (Validation ''absence is never permission''))))"
  by pat_completeness auto

termination
  by (relation "measure (\<lambda>(txt, origin, marks, pos, us). length txt - pos)")
    (auto dest!: balanced_bounds simp: CONSTRUCTOR_def)

declare markers_loop.simps [simp del] constructors_loop.simps [simp del]

text \<open>The derived order of \<^verbatim>\<open>Usage\<close>, field by field.\<close>

fun kind_index :: "capability_kind \<Rightarrow> nat" where
  "kind_index k = length (takeWhile (\<lambda>c. c \<noteq> k) KIND_ALL)"

definition usage_key :: "usage \<Rightarrow> string \<times> nat \<times> string \<times> string" where
  "usage_key u = (us_service u, kind_index (us_kind u), us_resource u, us_site u)"

definition sort_dedup :: "usage list \<Rightarrow> usage list" where
  "sort_dedup us = remdups_adj (sort_key usage_key us)"

definition scan_source :: "string \<Rightarrow> string \<Rightarrow> error + usage list" where
  "scan_source txt origin =
     rbind (markers_loop txt origin 0 [] []) (\<lambda>(us, marks).
     rbind (constructors_loop txt origin marks 0 us) (\<lambda>us. Inr (sort_dedup us)))"

definition scan_crate :: "(string \<times> string) list option \<Rightarrow> error + usage list" where
  "scan_crate tree =
     (case tree of
        None \<Rightarrow> Inl (Io ''the crate has no src to walk'')
      | Some files \<Rightarrow>
          rbind (try_map (\<lambda>(path, txt). scan_source txt path) (sort_key fst files)) (\<lambda>found.
            Inr (sort_dedup (concat found))))"

definition usage_covered :: "manifest \<Rightarrow> usage \<Rightarrow> bool" where
  "usage_covered m u =
     (case service_name_parse (us_service u) of
        Inl _ \<Rightarrow> False
      | Inr s \<Rightarrow> manifest_covers m s (us_kind u) (us_resource u))"

definition verify_usage :: "manifest \<Rightarrow> usage list \<Rightarrow> error + unit" where
  "verify_usage m us =
     (let missing = filter (\<lambda>u. \<not> usage_covered m u) us
      in ensure (missing = []) (Validation (show_nat (length missing) @ '' call sites are outside the ceiling'')))"

definition verify_crate :: "manifest \<Rightarrow> (string \<times> string) list option \<Rightarrow> error + unit" where
  "verify_crate m tree = rbind (scan_crate tree) (verify_usage m)"

end
