(* ===== verification/Scan_Facts.thy ===== *)
theory Scan_Facts
  imports Kernel_Scan Gate_Facts
begin

text \<open>
  What the build step guarantees: every constructor call of a crate that passes is read, lies
  inside the arguments of one that was read, or is under a marker; and every triple read is
  granted by the manifest, so the runtime gate finds a covering grant for it.
\<close>

section \<open>Searching\<close>

definition occurs_at :: "string \<Rightarrow> string \<Rightarrow> nat \<Rightarrow> bool" where
  "occurs_at pat s i \<longleftrightarrow> take (length pat) (drop i s) = pat"

lemma find_sub_Some:
  "find_sub pat s = Some i \<Longrightarrow> occurs_at pat s i \<and> (\<forall>j < i. \<not> occurs_at pat s j)"
proof (induction s arbitrary: i)
  case Nil
  then show ?case by (auto simp: occurs_at_def split: if_splits)
next
  case (Cons x xs)
  show ?case
  proof (cases "take (length pat) (x # xs) = pat")
    case True
    with Cons.prems show ?thesis by (simp add: occurs_at_def)
  next
    case False
    with Cons.prems obtain k where k: "i = Suc k" "find_sub pat xs = Some k" by auto
    from Cons.IH [OF k(2)] False show ?thesis
      unfolding k occurs_at_def by (auto simp: less_Suc_eq_0_disj)
  qed
qed

lemma find_sub_None: "find_sub pat s = None \<Longrightarrow> pat \<noteq> [] \<Longrightarrow> \<not> occurs_at pat s i"
proof (induction s arbitrary: i)
  case Nil
  then show ?case by (simp add: occurs_at_def)
next
  case (Cons x xs)
  then have *: "take (length pat) (x # xs) \<noteq> pat" "find_sub pat xs = None"
    by (auto split: if_splits)
  show ?case
  proof (cases i)
    case 0
    with *(1) show ?thesis by (simp add: occurs_at_def)
  next
    case (Suc k)
    with Cons.IH [OF *(2) Cons.prems(2), of k] show ?thesis by (simp add: occurs_at_def)
  qed
qed

lemma occurs_at_drop: "occurs_at pat (drop n s) i \<longleftrightarrow> occurs_at pat s (n + i)"
  by (simp add: occurs_at_def add.commute)

section \<open>The calls that are read\<close>

definition constructor_span :: "string \<Rightarrow> nat \<Rightarrow> (nat \<times> nat) option" where
  "constructor_span src start = balanced src (start + length CONSTRUCTOR - 1) (CHR ''('') (CHR '')'')"

definition span_args :: "string \<Rightarrow> nat \<Rightarrow> nat \<Rightarrow> string list" where
  "span_args src s e = split_args (take (e - s) (drop s src))"

inductive call_read :: "string \<Rightarrow> nat \<Rightarrow> nat \<Rightarrow> nat \<Rightarrow> nat \<Rightarrow> bool" where
  here: "find_sub CONSTRUCTOR (drop pos src) = Some off \<Longrightarrow>
    constructor_span src (pos + off) = Some (s, e) \<Longrightarrow> call_read src pos (pos + off) s e"
| later: "find_sub CONSTRUCTOR (drop pos src) = Some off \<Longrightarrow>
    constructor_span src (pos + off) = Some (s', e') \<Longrightarrow> call_read src e' start s e \<Longrightarrow>
    call_read src pos start s e"

lemma call_read_place:
  "call_read src pos start s e \<Longrightarrow> occurs_at CONSTRUCTOR src start \<and> constructor_span src start = Some (s, e)"
  by (induction rule: call_read.induct) (auto dest: find_sub_Some simp: occurs_at_drop)

text \<open>One call of a pass that succeeds.\<close>

definition call_checked :: "string \<Rightarrow> string \<Rightarrow> nat list \<Rightarrow> usage list \<Rightarrow> nat \<Rightarrow> nat \<Rightarrow> nat \<Rightarrow> bool" where
  "call_checked src origin marks out start s e \<longleftrightarrow>
     (case constructor_usage (span_args src s e) origin (line_of src start) of
        Some u \<Rightarrow> u \<in> set out
      | None \<Rightarrow> \<exists>m \<in> set marks. m \<le> line_of src start \<and> line_of src start - m \<le> 5)"

lemma constructors_loop_cases:
  assumes "constructors_loop src origin marks pos us = Inr out"
  shows "find_sub CONSTRUCTOR (drop pos src) = None \<and> out = us \<or>
    (\<exists>off s e us'. find_sub CONSTRUCTOR (drop pos src) = Some off \<and>
       constructor_span src (pos + off) = Some (s, e) \<and>
       constructors_loop src origin marks e us' = Inr out \<and> set us \<subseteq> set us' \<and>
       call_checked src origin marks us' (pos + off) s e)"
proof (cases "find_sub CONSTRUCTOR (drop pos src)")
  case None
  with assms show ?thesis by (simp add: constructors_loop.simps [of src origin marks pos])
next
  case (Some off)
  note unfold = assms [unfolded constructors_loop.simps [of src origin marks pos] Some option.case Let_def]
  obtain s e where span: "constructor_span src (pos + off) = Some (s, e)"
    using unfold unfolding constructor_span_def
    by (cases "balanced src (pos + off + length CONSTRUCTOR - 1) (CHR ''('') (CHR '')'')") auto
  note unfold = unfold [folded constructor_span_def, unfolded span option.case prod.case, folded span_args_def]
  show ?thesis
  proof (cases "constructor_usage (span_args src s e) origin (line_of src (pos + off))")
    case None
    with unfold have "constructors_loop src origin marks e us = Inr out"
      "list_ex (\<lambda>m. m \<le> line_of src (pos + off) \<and> line_of src (pos + off) - m \<le> MARKER_LOOKBACK_LINES) marks"
      by (simp_all split: if_splits)
    with None Some span show ?thesis
      by (auto simp: call_checked_def list_ex_iff MARKER_LOOKBACK_LINES_def)
  next
    case (Some u)
    with unfold have "constructors_loop src origin marks e (us @ [u]) = Inr out" by simp
    moreover have "call_checked src origin marks (us @ [u]) (pos + off) s e"
      using Some by (simp add: call_checked_def)
    ultimately show ?thesis
      using \<open>find_sub CONSTRUCTOR (drop pos src) = Some off\<close> span by (metis Un_upper1 set_append)
  qed
qed

lemma call_checked_mono:
  "call_checked src origin marks us start s e \<Longrightarrow> set us \<subseteq> set out \<Longrightarrow>
     call_checked src origin marks out start s e"
  by (auto simp: call_checked_def split: option.splits)

lemma span_end: "constructor_span src start = Some (s, e) \<Longrightarrow> start < e \<and> e < length src"
  unfolding constructor_span_def by (drule balanced_bounds) (auto simp: CONSTRUCTOR_def)

lemma constructors_loop_keeps:
  "constructors_loop src origin marks pos us = Inr out \<Longrightarrow> set us \<subseteq> set out"
proof (induction "length src - pos" arbitrary: pos us rule: less_induct)
  case less
  from constructors_loop_cases [OF less.prems] show ?case
  proof (elim disjE exE conjE)
    fix off s e us'
    assume "constructor_span src (pos + off) = Some (s, e)"
      and rest: "constructors_loop src origin marks e us' = Inr out" "set us \<subseteq> set us'"
    then have "length src - e < length src - pos" using span_end by fastforce
    from less.hyps [OF this rest(1)] rest(2) show ?thesis by blast
  qed simp
qed

lemma constructors_loop_call:
  assumes "constructors_loop src origin marks pos us = Inr out"
    and "find_sub CONSTRUCTOR (drop pos src) = Some off" "constructor_span src (pos + off) = Some (s, e)"
  obtains us' where "constructors_loop src origin marks e us' = Inr out"
    "call_checked src origin marks us' (pos + off) s e"
  using constructors_loop_cases [OF assms(1)]
proof (elim disjE exE conjE)
  assume "find_sub CONSTRUCTOR (drop pos src) = None"
  with assms(2) show thesis by simp
next
  fix off1 s1 e1 us1
  assume a: "find_sub CONSTRUCTOR (drop pos src) = Some off1" "constructor_span src (pos + off1) = Some (s1, e1)"
    "constructors_loop src origin marks e1 us1 = Inr out" "call_checked src origin marks us1 (pos + off1) s1 e1"
  from a(1) assms(2) have off: "off1 = off" by simp
  from a(2) assms(3) have "s1 = s" "e1 = e" unfolding off by simp_all
  with a(3,4) show thesis unfolding off by (intro that [of us1]) simp_all
qed

lemma constructors_loop_checks:
  assumes "call_read src pos start s e" "constructors_loop src origin marks pos us = Inr out"
  shows "call_checked src origin marks out start s e"
  using assms
proof (induction arbitrary: us rule: call_read.induct)
  case (here pos src off s e)
  from constructors_loop_call [OF here(3,1,2)] obtain us' where
    loop: "constructors_loop src origin marks e us' = Inr out" and
    checked: "call_checked src origin marks us' (pos + off) s e" .
  from checked constructors_loop_keeps [OF loop] show ?case by (rule call_checked_mono)
next
  case (later pos src off s' e' start s e)
  from constructors_loop_call [OF later(5,1,2)] obtain us' where
    "constructors_loop src origin marks e' us' = Inr out" .
  then show ?case by (rule later.IH)
qed

text \<open>No call is missed: it is read, or lies between a call that is read and its closing parenthesis.\<close>

lemma every_call_read:
  assumes "constructors_loop src origin marks pos us = Inr out" "occurs_at CONSTRUCTOR src p" "pos \<le> p"
  shows "\<exists>start s e. call_read src pos start s e \<and> (p = start \<or> start < p \<and> p < e)"
  using assms
proof (induction "length src - pos" arbitrary: pos us rule: less_induct)
  case less
  have ne: "CONSTRUCTOR \<noteq> []" by (simp add: CONSTRUCTOR_def)
  have occ: "occurs_at CONSTRUCTOR (drop pos src) (p - pos)"
    using less.prems(2,3) by (simp add: occurs_at_drop)
  from constructors_loop_cases [OF less.prems(1)] show ?case
  proof (elim disjE exE conjE)
    assume "find_sub CONSTRUCTOR (drop pos src) = None"
    from find_sub_None [OF this ne] occ show ?thesis by blast
  next
    fix off s e us'
    assume find: "find_sub CONSTRUCTOR (drop pos src) = Some off"
      and span: "constructor_span src (pos + off) = Some (s, e)"
      and rest: "constructors_loop src origin marks e us' = Inr out"
    have "\<not> p - pos < off" using find_sub_Some [OF find] occ by blast
    then have ge: "pos + off \<le> p" using less.prems(3) by linarith
    show ?thesis
    proof (cases "p < e")
      case True
      with ge call_read.here [OF find span] show ?thesis by (metis le_neq_implies_less)
    next
      case False
      then have "e \<le> p" by simp
      have "length src - e < length src - pos" using span_end [OF span] by linarith
      from less.hyps [OF this rest less.prems(2) \<open>e \<le> p\<close>] obtain start s1 e1
        where "call_read src e start s1 e1" "p = start \<or> start < p \<and> p < e1" by blast
      with call_read.later [OF find span] show ?thesis by blast
    qed
  qed
qed

section \<open>The verdict on a crate\<close>

lemma set_sort_dedup [simp]: "set (sort_dedup us) = set us"
  by (simp add: sort_dedup_def)

lemma verify_usage_iff: "verify_usage m us = Inr () \<longleftrightarrow> (\<forall>u \<in> set us. usage_covered m u)"
  by (auto simp: verify_usage_def Let_def filter_empty_conv)

lemma usage_covered_iff:
  "usage_covered m u \<longleftrightarrow>
     (\<exists>s. sn_str s = us_service u \<and> sn_ok s \<and> manifest_covers m s (us_kind u) (us_resource u))"
  by (auto simp: usage_covered_def split: sum.splits)
    (metis Inl_Inr_False service_name_parse_Inr_iff sum.inject(2))+

lemma scan_source_Inr:
  assumes "scan_source src origin = Inr us"
  obtains us0 marks out where "markers_loop src origin 0 [] [] = Inr (us0, marks)"
    "constructors_loop src origin marks 0 us0 = Inr out" "set us = set out"
  using assms by (auto simp: scan_source_def)

lemma scan_crate_file:
  assumes "scan_crate (Some files) = Inr us" "(path, src) \<in> set files"
  obtains vs where "scan_source src path = Inr vs" "set vs \<subseteq> set us"
proof -
  from assms(1) obtain found where found: "list_all2 (\<lambda>f vs. (case f of (path, src) \<Rightarrow> scan_source src path) = Inr vs)
      (sort_key fst files) found" and us: "us = sort_dedup (concat found)"
    by (auto simp: scan_crate_def try_map_Inr_iff)
  have "(path, src) \<in> set (sort_key fst files)" using assms(2) by simp
  then obtain i where i: "i < length (sort_key fst files)" "sort_key fst files ! i = (path, src)"
    by (meson in_set_conv_nth)
  with found have "scan_source src path = Inr (found ! i)" "found ! i \<in> set found"
    by (auto simp: list_all2_conv_all_nth)
  moreover from this(2) have "set (found ! i) \<subseteq> set us" unfolding us by auto
  ultimately show ?thesis using that by blast
qed

lemma verified_crate:
  assumes ok: "verify_crate m (Some files) = Inr ()" and listed: "(path, src) \<in> set files"
    and call: "occurs_at CONSTRUCTOR src p"
  obtains start s e where "occurs_at CONSTRUCTOR src start" "constructor_span src start = Some (s, e)"
    "p = start \<or> start < p \<and> p < e"
    "case constructor_usage (span_args src s e) path (line_of src start) of
       Some u \<Rightarrow> usage_covered m u
     | None \<Rightarrow> \<exists>l \<le> line_of src start. line_of src start - l \<le> 5 \<and> (\<exists>us marks.
         markers_loop src path 0 [] [] = Inr (us, marks) \<and> l \<in> set marks)"
proof -
  from ok obtain us where us: "scan_crate (Some files) = Inr us" and cov: "\<forall>u \<in> set us. usage_covered m u"
    by (auto simp: verify_crate_def verify_usage_iff)
  from scan_crate_file [OF us listed] obtain vs where vs: "scan_source src path = Inr vs" "set vs \<subseteq> set us" .
  from scan_source_Inr [OF vs(1)] obtain us0 marks out where
    marks: "markers_loop src path 0 [] [] = Inr (us0, marks)" and
    loop: "constructors_loop src path marks 0 us0 = Inr out" and out: "set vs = set out" .
  from every_call_read [OF loop call] obtain start s e where
    read: "call_read src 0 start s e" and place: "p = start \<or> start < p \<and> p < e" by blast
  from constructors_loop_checks [OF read loop] have checked: "call_checked src path marks out start s e" .
  show ?thesis
  proof (rule that [OF _ _ place])
    show "occurs_at CONSTRUCTOR src start" "constructor_span src start = Some (s, e)"
      using call_read_place [OF read] by blast+
    show "case constructor_usage (span_args src s e) path (line_of src start) of
       Some u \<Rightarrow> usage_covered m u
     | None \<Rightarrow> \<exists>l \<le> line_of src start. line_of src start - l \<le> 5 \<and> (\<exists>us marks.
         markers_loop src path 0 [] [] = Inr (us, marks) \<and> l \<in> set marks)"
      using checked marks cov vs(2) out
      by (auto simp: call_checked_def split: option.splits)
  qed
qed

text \<open>The runtime finds a grant for every triple the build verified.\<close>

lemma covered_has_grant:
  assumes "usage_covered m u" "sn_str (rq_service r) = us_service u" "rq_kind r = us_kind u"
    "rq_resource r = us_resource u"
  obtains caps c where "granted m (rq_service r) = Some caps" "c \<in> set caps"
    "covers c (rq_kind r) (rq_resource r)" "nearest_capability m r \<noteq> None"
proof -
  from assms(1) obtain s where s: "sn_str s = us_service u" "manifest_covers m s (us_kind u) (us_resource u)"
    by (auto simp: usage_covered_iff)
  with assms have "rq_service r = s" by (cases s; cases "rq_service r") simp
  with s(2) assms have cov: "manifest_covers m (rq_service r) (rq_kind r) (rq_resource r)" by simp
  then have "nearest_capability m r \<noteq> None" by (simp add: nearest_capability_None_iff)
  with cov show ?thesis unfolding manifest_covers_iff using that by blast
qed

text \<open>A call nested in the arguments of another is not read, even with no literals and no marker.\<close>

definition nested_call :: string where
  "nested_call =
     ''Governed::new(k, '' @ [CHR 0x22] @ ''a'' @ [CHR 0x22] @ '', CapabilityKind::DbRead, '' @
     [CHR 0x22] @ ''t'' @ [CHR 0x22] @ '', Governed::new(k, s, kind, r, store))''"

lemma nested_call_unread:
  "scan_source nested_call ''f'' =
     Inr [\<lparr>us_service = ''a'', us_kind = DbRead, us_resource = ''t'', us_site = ''f:1''\<rparr>]"
  by code_simp

end
