(* ===== verification/Example_Kernel.thy ===== *)
theory Example_Kernel
  imports Runtime_Facts Scan_Facts Example_Cell Gate_Facts
begin

text \<open>
  A small gate that meets \<open>gate_laws\<close>, a manifest with one constrained grant and the secrets
  roster, and a kernel booted on the example chain: the concrete inputs of the kernel's properties.
\<close>

section \<open>The gate\<close>

type_synonym ex_context = "string \<times> (string \<times> string) list \<times> string option"

definition ex_verdict :: "gate_outcome \<Rightarrow> string \<Rightarrow> string list \<Rightarrow> verdict" where
  "ex_verdict out why ids =
     \<lparr>vd_outcome = out, vd_reason = why, vd_check_ids = ids, vd_blocking = False\<rparr>"

definition ex_secrets :: "ex_context check" where
  "ex_secrets =
     \<lparr>ck_id = ''secrets'',
      ck_evaluate = (\<lambda>(_, _, summary).
        case summary of
          Some s \<Rightarrow> if starts_with ''api_key'' s then Some (ex_verdict GateDeny ''secret'' [''secrets'']) else None
        | None \<Rightarrow> None),
      ck_fingerprint = ''secrets''\<rparr>"

definition ex_evaluate :: "ex_context check list \<Rightarrow> ex_context \<Rightarrow> verdict" where
  "ex_evaluate cs c =
     (case List.map_filter (\<lambda>k. ck_evaluate k c) cs of
        [] \<Rightarrow> ex_verdict GateAllow [] []
      | v # _ \<Rightarrow> v)"

definition ex_api :: "ex_context gate_api" where
  "ex_api =
     \<lparr>ctx_new = (\<lambda>a. (a, [], None)),
      ctx_with_attr = (\<lambda>(a, m, s) k v. (a, (k, v) # m, s)),
      ctx_with_summary = (\<lambda>(a, m, _) s. (a, m, Some s)),
      ctx_attr_str = (\<lambda>(_, m, _) k. map_of m k),
      ctx_action = fst,
      gate_deny = ex_verdict GateDeny,
      gate_evaluate = ex_evaluate,
      gate_config_hash = (\<lambda>cs. concat (map ck_fingerprint cs)),
      secrets_check = ex_secrets,
      toml_manifest = (\<lambda>_. Inl ''not read''),
      json_manifest = (\<lambda>_. Inl ''not read''),
      canonical_string = (\<lambda>_. ''{}''),
      sha256_text = (\<lambda>_. example_digest ''m'')\<rparr>"

lemma ex_context_laws: "context_laws ex_api"
  by (simp add: context_laws_def ex_api_def case_prod_unfold)

lemma ex_evaluate_none: "\<forall>k \<in> set cs. ck_evaluate k c = None \<Longrightarrow> vd_outcome (ex_evaluate cs c) = GateAllow"
proof -
  assume "\<forall>k \<in> set cs. ck_evaluate k c = None"
  then have "List.map_filter (\<lambda>k. ck_evaluate k c) cs = []"
    by (induction cs) (simp_all add: List.map_filter_def)
  then show ?thesis by (simp add: ex_evaluate_def ex_verdict_def)
qed

lemma ex_evaluate_deny:
  assumes "\<exists>k \<in> set cs. ck_evaluate k c \<noteq> None"
    and "\<forall>k \<in> set cs. \<forall>v. ck_evaluate k c = Some v \<longrightarrow> vd_outcome v = GateDeny"
  shows "vd_outcome (ex_evaluate cs c) = GateDeny"
proof -
  let ?vs = "List.map_filter (\<lambda>k. ck_evaluate k c) cs"
  have all: "\<forall>v \<in> set ?vs. vd_outcome v = GateDeny"
    using assms(2) by (auto simp: List.map_filter_def)
  have "?vs \<noteq> []" using assms(1) by (auto simp: List.map_filter_def filter_empty_conv)
  then show ?thesis using all by (cases ?vs) (simp_all add: ex_evaluate_def)
qed

lemma ex_gate_laws: "gate_laws ex_api"
proof -
  have out: "vd_outcome (ex_verdict x why ids) = x" for x why ids by (simp add: ex_verdict_def)
  have secrets: "ck_evaluate (secrets_check ex_api) c = Some v \<Longrightarrow> vd_outcome v = GateDeny" for c v
    by (auto simp: ex_api_def ex_secrets_def ex_verdict_def split: option.splits if_splits prod.splits)
  have parts: "gate_deny ex_api = ex_verdict GateDeny" "gate_evaluate ex_api = ex_evaluate"
    by (simp_all add: ex_api_def)
  show ?thesis
    unfolding gate_laws_def parts
    using ex_context_laws out secrets ex_evaluate_none ex_evaluate_deny by blast
qed

section \<open>The manifest\<close>

definition ex_cap :: capability where
  "ex_cap =
     \<lparr>cap_id = ''cache-put'', cap_kind = KvPut, cap_resource = ResourceName ''cache'',
      cap_constraints = \<lparr>key_prefix = Some ''demo:'', ct_table = None, ct_host = None\<rparr>\<rparr>"

definition ex_service :: service_name where "ex_service = ServiceName ''notes''"

definition ex_manifest :: manifest where
  "ex_manifest =
     \<lparr>m_schema_version = Some ''1.0.0'',
      m_app = \<lparr>app_name = ResourceName ''hello'', app_org = ResourceName ''org''\<rparr>,
      m_resources = \<lparr>rs_tables = [ResourceName ''notes''], rs_kv = [ResourceName ''cache''],
        rs_counters = [], rs_secrets = [], rs_egress = [ResourceName ''*.example.com'']\<rparr>,
      m_capabilities = [ex_cap],
      m_services = [(ex_service, \<lparr>sv_capabilities = [''cache-put'']\<rparr>)],
      m_gate = \<lparr>gp_checks = [''secrets'']\<rparr>,
      m_ledger = \<lparr>lp_schema_version = ''1.0.0'', lp_max_record_bytes = 65536\<rparr>,
      m_observability = \<lparr>ob_metrics_path = ''/metrics'', ob_otel = False\<rparr>,
      m_auth = \<lparr>au_operator_role = ''operator'', au_access_token_lifetime_secs = None,
        au_native_refresh_lifetime_secs = None, au_logout_revokes_bearer = False, au_native_clients = []\<rparr>,
      m_contract = \<lparr>co_version = ''1.0.0''\<rparr>\<rparr>"

lemma ex_manifest_ok: "manifest_ok ex_manifest"
proof -
  have "major_of ''1.0.0'' = Some 1" using schema_major by (simp add: MANIFEST_SCHEMA_VERSION_def)
  then show ?thesis
    unfolding manifest_ok_def resources_families
    by (simp add: ex_manifest_def ex_cap_def capability_ok_def policy_ok_def auth_ok_def version_major_def
        access_token_lifetime_secs_def native_refresh_lifetime_secs_def
        DEFAULT_ACCESS_TOKEN_LIFETIME_SECS_def DEFAULT_NATIVE_REFRESH_LIFETIME_SECS_def)
qed

lemma ex_granted: "granted ex_manifest ex_service = Some [ex_cap]"
  by code_simp

definition ex_put :: "string \<Rightarrow> request" where
  "ex_put key = with_key key (request_new ex_service KvPut ''cache'' ''ann'')"

lemma ex_put_fields [simp]:
  "rq_service (ex_put key) = ex_service" "rq_kind (ex_put key) = KvPut" "rq_resource (ex_put key) = ''cache''"
  "rq_key (ex_put key) = Some key" "rq_table (ex_put key) = None" "rq_host (ex_put key) = None"
  "rq_payload (ex_put key) = None"
  by (simp_all add: ex_put_def with_key_def request_new_def)

lemma ex_put_admitted: "grant_admits ex_manifest (ex_put key) \<longleftrightarrow> starts_with ''demo:'' key"
  by (auto simp: grant_admits_def ex_granted ex_cap_def covers_def admits_iff meets_def)

lemma ex_put_secrets: "ck_evaluate (secrets_check ex_api) (to_context ex_api (ex_put key)) = None"
proof -
  have "snd (snd (to_context ex_api (ex_put key))) = None"
    by (simp add: to_context_def Let_def add_attr_def ex_api_def)
  then show ?thesis by (simp add: ex_api_def ex_secrets_def case_prod_unfold)
qed

section \<open>The kernel\<close>

definition ex_gate :: "ex_context check list" where
  "ex_gate = [grant_check ex_api ex_manifest, ex_secrets]"

lemma ex_build_gate: "build_gate ex_api ex_manifest = Inr ex_gate"
  by (simp add: build_gate_def ex_gate_def ex_manifest_def ex_api_def)

definition ex_kernel :: "ex_context kernel" where
  "ex_kernel =
     \<lparr>kn_manifest = ex_manifest, kn_hash = ex_hash ''m'', kn_gate = ex_gate,
      kn_nonce = nonce_of (ex_hash ''a''), kn_node_id = 1, kn_binding = None\<rparr>"

lemma ex_kernel_simps [simp]:
  "kn_manifest ex_kernel = ex_manifest" "kn_gate ex_kernel = ex_gate"
  by (simp_all add: ex_kernel_def)

lemma ex_manifest_hash: "manifest_hash ex_api ex_manifest = Inr (ex_hash ''m'')"
proof -
  have "sha256_text ex_api t = example_digest ''m''" for t by (simp add: ex_api_def)
  then show ?thesis
    by (simp add: manifest_hash_def ex_build_gate ex_hash_def example_digest_shape)
qed

lemma ex_nonce: "CHR '':'' \<notin> set (kn_nonce ex_kernel)"
  by (simp add: ex_kernel_def nonce_no_colon)

definition ex_running :: kernel_state where
  "ex_running = kernel_start 1 metrics_new"

text \<open>A granted write through a facade, and a refused one.\<close>

definition ex_facade :: facade where
  "ex_facade = \<lparr>fa_service = ex_service, fa_kind = KvPut, fa_resource = ''cache''\<rparr>"

definition ex_write :: "nat \<Rightarrow> (error + unit) \<times> nat" where
  "ex_write n = (Inr (), Suc n)"

lemma ex_facade_request: "with_key key (facade_request ex_facade ''ann'') = ex_put key"
  by (simp add: facade_request_def ex_facade_def ex_put_def)

lemma ex_admit:
  "if starts_with ''demo:'' key then admit example_env ex_api ex_kernel None (ex_put key) s = (Inr (), s)
   else \<exists>i s' d why. next_id ex_kernel s = (i, s') \<and> d_id d = i \<and>
     admit example_env ex_api ex_kernel None (ex_put key) s =
       (Inl (Denied (i @ '': '' @ why)), observe_and_queue d s')"
proof -
  have gate: "build_gate ex_api (kn_manifest ex_kernel) = Inr (kn_gate ex_kernel)"
    by (simp add: ex_build_gate)
  from admit_cases [OF ex_gate_laws gate, of "ex_put key" example_env None s]
  show ?thesis unfolding ex_kernel_simps ex_put_admitted ex_put_secrets by (auto split: if_splits)
qed

lemma ex_put_runs:
  "governed_kv_put example_env ex_api ex_kernel None ex_facade ''demo:x'' ''ann'' ex_write ex_running 0 =
     (Inr (), ex_running, Suc 0)"
proof -
  have "starts_with ''demo:'' ''demo:x''" by (simp add: starts_with_def)
  with ex_admit [of "''demo:x''" ex_running]
  have "admit example_env ex_api ex_kernel None (ex_put ''demo:x'') ex_running = (Inr (), ex_running)"
    by simp
  then show ?thesis
    by (simp add: governed_kv_put_def governed_op_def facade_expect_def ensure_def governed_call_def
        ex_facade_request ex_write_def) (simp add: ex_facade_def)
qed

definition ex_denied :: kernel_state where
  "ex_denied = snd (admit example_env ex_api ex_kernel None (ex_put ''rl:x'') ex_running)"

lemma ex_denied_reaches: "kernel_reaches example_env ex_api ex_kernel (kernel_start 1 metrics_new) ex_denied"
  unfolding kernel_reaches_def ex_denied_def ex_running_def by (intro r_into_rtranclp admits)

lemma ex_denied_state:
  "\<exists>d. ex_denied = \<lparr>ks_seq = 1, ks_queue = queue_deny d (queue_start 1 metrics_new)\<rparr>"
proof -
  have "\<not> starts_with ''demo:'' ''rl:x''" by (simp add: starts_with_def)
  with ex_admit [of "''rl:x''" ex_running] obtain i s' d where
    "next_id ex_kernel ex_running = (i, s')" "ex_denied = observe_and_queue d s'"
    by (auto simp: ex_denied_def)
  then show ?thesis
    by (auto simp: next_id_def ex_running_def kernel_start_def observe_and_queue_def)
qed

lemma ex_denied_queue:
  "q_appender (ks_queue ex_denied) = Asking"
  "length (pe_waiting (q_pending (ks_queue ex_denied))) = 1"
  "pe_appending (q_pending (ks_queue ex_denied)) = None"
  "\<exists>d. q_emitted (ks_queue ex_denied) = [d]"
proof -
  obtain d where d: "ex_denied = \<lparr>ks_seq = 1, ks_queue = queue_deny d (queue_start 1 metrics_new)\<rparr>"
    using ex_denied_state by blast
  show "q_appender (ks_queue ex_denied) = Asking"
    "length (pe_waiting (q_pending (ks_queue ex_denied))) = 1"
    "pe_appending (q_pending (ks_queue ex_denied)) = None"
    "\<exists>d. q_emitted (ks_queue ex_denied) = [d]"
    by (simp_all add: d queue_deny_def enqueue_def queue_push_def queue_start_def queue_new_def)
qed

lemmas ex_denied_emitted = ex_denied_queue(4)

lemma ex_no_losses: "lost_ids metrics_new = {#}"
  by (simp add: lost_ids_def losses_def metrics_new_def)

section \<open>A verified crate and a boot\<close>

definition ex_call :: string where
  "ex_call =
     ''Governed::new(k, '' @ [CHR 0x22] @ ''notes'' @ [CHR 0x22] @ '', CapabilityKind::KvPut, '' @
     [CHR 0x22] @ ''cache'' @ [CHR 0x22] @ '', s)''"

lemma ex_call_verified: "verify_crate ex_manifest (Some [(''f'', ex_call)]) = Inr ()"
  by code_simp

definition ex_options :: kernel_options where
  "ex_options = \<lparr>ko_queue_capacity = 0, ko_node_id = 0, ko_binding = None\<rparr>"

lemma ex_manifest_at: "manifest_of_snapshot example_env ex_ledger
    \<lparr>cs_segments = [], cs_root = ex_hash ''m'', cs_records = [ex_genesis, ex_first]\<rparr> = Inr (ex_hash ''m'')"
proof -
  have "transition_of example_env ex_genesis = Inr None" "transition_of example_env ex_first = Inr None"
    by (simp_all add: transition_of_def ex_decisions transition_of_decision_def TRANSITION_KIND_def ex_kinds
        ex_decision_def decision_new_def)
  then show ?thesis by (simp add: manifest_of_snapshot_def)
qed

lemma ex_head: "\<exists>c'. ledger_head quiet ex_ledger (ex_cell\<lparr>c_clock := Suc 0\<rparr>) = (Inr (ex_hash ''a''), c')"
proof -
  have "chain_is example_env (l_genesis_parent ex_ledger) (c_db (ex_cell\<lparr>c_clock := Suc 0\<rparr>)) []
      [ex_genesis, ex_first]"
    using ex_chain by (simp add: chain_parts_def ex_cell_def)
  from head_quiet [OF this] show ?thesis by (auto simp: root_after_def)
qed

lemma ex_boot: "\<exists>c'. kernel_boot example_env quiet ex_ledger ex_api ex_manifest ex_options metrics_new ex_cell =
    (Inr (ex_kernel, kernel_start 1024 metrics_new), c')"
proof -
  have snap: "chain_snapshot example_env quiet ex_ledger ex_cell =
      (Inr \<lparr>cs_segments = [], cs_root = ex_hash ''m'', cs_records = [ex_genesis, ex_first]\<rparr>,
       ex_cell\<lparr>c_clock := Suc 0\<rparr>)"
    using ex_snapshot [of 0] by (simp add: ex_cell_def)
  have "manifest_of_snapshot example_env ex_ledger
      \<lparr>cs_segments = [], cs_root = ex_hash ''m'', cs_records = [ex_genesis, ex_first]\<rparr> = Inr (ex_hash ''m'')"
    by (rule ex_manifest_at)
  with snap have current: "current_manifest example_env quiet ex_ledger ex_cell =
      (Inr (ex_hash ''m''), ex_cell\<lparr>c_clock := Suc 0\<rparr>)"
    by (simp add: current_manifest_def obind_def on_result_def lift_def)
  obtain c' where head: "ledger_head quiet ex_ledger (ex_cell\<lparr>c_clock := Suc 0\<rparr>) = (Inr (ex_hash ''a''), c')"
    using ex_head by blast
  show ?thesis
    by (simp add: kernel_boot_def obind_def on_result_def lift_def ret_def ex_manifest_hash current
        ex_build_gate boot_nonce_def head Let_def ex_options_def ex_kernel_def kernel_start_def
        DEFAULT_QUEUE_CAPACITY_def DEFAULT_NODE_ID_def)
qed

end
