(* ===== verification/Kernel_Theorems.thy ===== *)
theory Kernel_Theorems
  imports Example_Kernel
begin

text \<open>
  The properties of the kernel: the gate and its manifest, the facades, the denial queue, the build
  step and the boot, each with an application to the gate, manifest and kernel of
  \<^verbatim>\<open>Example_Kernel\<close> where it has hypotheses.
\<close>

section \<open>Adjudication\<close>

text \<open>
  C11: deny by default, exactly. The gate a manifest describes allows a request when the manifest
  grants its service some capability that covers its kind and resource and whose constraints it
  meets, and, when the roster names the secrets check, that check abstains; in every other case it
  denies.
\<close>

theorem gate_denies_by_default:
  assumes "gate_laws K" "build_gate K m = Inr g"
  shows "vd_outcome (gate_evaluate K g (to_context K r)) =
    (if (\<exists>caps c. granted m (rq_service r) = Some caps \<and> c \<in> set caps \<and>
           covers c (rq_kind r) (rq_resource r) \<and>
           admits (cap_constraints c) (rq_key r) (rq_table r) (rq_host r) = Inr ()) \<and>
        (gp_checks (m_gate m) = [] \<or> ck_evaluate (secrets_check K) (to_context K r) = None)
     then GateAllow else GateDeny)"
  using gate_outcome_iff [OF assms] unfolding grant_admits_def .

theorem gate_denies_by_default_witness:
  "vd_outcome (gate_evaluate ex_api ex_gate (to_context ex_api (ex_put ''demo:x''))) = GateAllow \<and>
   vd_outcome (gate_evaluate ex_api ex_gate (to_context ex_api (ex_put ''rl:x''))) = GateDeny"
proof -
  note gate = gate_denies_by_default [OF ex_gate_laws ex_build_gate, folded grant_admits_def]
  have "starts_with ''demo:'' ''demo:x''" "\<not> starts_with ''demo:'' ''rl:x''"
    by (simp_all add: starts_with_def)
  then show ?thesis by (simp add: gate ex_put_admitted ex_put_secrets)
qed





section \<open>The denial queue\<close>



text \<open>
  C14: whatever the denials and drains did before, an appender that is left alone and has not been
  ended by its runtime owes nothing after at most three turns for each waiting decision and two more,
  whatever its appends answer.
\<close>

theorem appender_settles_everything:
  assumes "kernel_reaches E K kn (kernel_start n m0) s" "q_appender (ks_queue s) \<noteq> Gone"
  shows "\<exists>k \<le> 3 * length (pe_waiting (q_pending (ks_queue s))) + 2.
    queue_owed (q_pending (append_all write k (ks_queue s))) = 0"
  by (rule appender_settles_all [OF kernel_queue_inv [OF assms(1)] assms(2)])

theorem appender_settles_everything_witness:
  "queue_owed (q_pending (ks_queue ex_denied)) = 1 \<and>
   (\<exists>k \<le> 5. queue_owed (q_pending (append_all (\<lambda>_. Inl (Upstream [])) k (ks_queue ex_denied))) = 0)"
proof -
  have "q_appender (ks_queue ex_denied) \<noteq> Gone" by (simp add: ex_denied_queue)
  from appender_settles_everything [OF ex_denied_reaches this, of "\<lambda>_. Inl (Upstream [])"]
  show ?thesis by (simp add: ex_denied_queue queue_owed_def)
qed

text \<open>
  With a clock that moves at least two milliseconds per poll, a drain returns within its bound,
  and what it returns is complete or names exactly the decisions that were owed; each of those is
  counted and reported as abandoned, and nothing is owed any more.
\<close>

theorem drain_leaves_nothing_owed:
  assumes "\<And>k. now k + FLUSH_POLL \<le> now (Suc k)"
  shows "\<exists>d s i. kernel_drain tr now bound (bound div FLUSH_POLL + 1) = Some (d, s) \<and>
    queue_owed (q_pending s) = 0 \<and> dr_bound d = bound \<and>
    (is_complete d \<and> s = tr i \<or>
     dr_abandoned d = owed_ids (q_pending (tr i)) \<and>
     losses (q_metrics s) =
       mset (map (\<lambda>i. (i, Abandoned)) (dr_abandoned d)) + losses (q_metrics (tr i)))"
  by (rule drain_returns [where now = now, OF assms])

theorem drain_leaves_nothing_owed_witness:
  "\<exists>d s i. kernel_drain (\<lambda>_. ks_queue ex_denied) (\<lambda>k. FLUSH_POLL * k) 5000 3 = Some (d, s) \<and>
     queue_owed (q_pending s) = 0 \<and> dr_bound d = 5000 \<and>
     (is_complete d \<and> s = ks_queue ex_denied \<or>
      dr_abandoned d = owed_ids (q_pending (ks_queue ex_denied)) \<and>
      losses (q_metrics s) =
        mset (map (\<lambda>i. (i, Abandoned)) (dr_abandoned d)) + losses (q_metrics (ks_queue ex_denied)))"
proof -
  have tick: "FLUSH_POLL * k + FLUSH_POLL \<le> FLUSH_POLL * Suc k" for k by simp
  have fuel: "5000 div FLUSH_POLL + 1 = 3" by (simp add: FLUSH_POLL_def)
  show ?thesis
    using drain_leaves_nothing_owed [where now = "\<lambda>k. FLUSH_POLL * k" and bound = 5000
        and tr = "\<lambda>_. ks_queue ex_denied", OF tick]
    unfolding fuel by blast
qed

text \<open>
  The ids of two decisions are equal only when they were minted under the same nonce by the same
  node with the same counter, so replicas of one chain never collide, and one kernel only after
  \<open>2 ^ 64\<close> refusals.
\<close>

theorem decision_ids_never_collide:
  assumes "hash_ok h" "hash_ok h'"
  shows "decision_id_of (nonce_of h) a i = decision_id_of (nonce_of h') b j \<longleftrightarrow>
    nonce_of h = nonce_of h' \<and> a = b \<and> i = j"
proof
  assume "decision_id_of (nonce_of h) a i = decision_id_of (nonce_of h') b j"
  then show "nonce_of h = nonce_of h' \<and> a = b \<and> i = j"
    by (rule decision_id_of_inj [OF _ nonce_no_colon [OF assms(1)] nonce_no_colon [OF assms(2)]])
qed auto

theorem decision_ids_never_collide_witness:
  "decision_id_of (nonce_of (ex_hash ''a'')) 1 7 \<noteq> decision_id_of (nonce_of (ex_hash ''a'')) 2 7"
  using decision_ids_never_collide [OF ex_hash_ok [of "''a''"] ex_hash_ok [of "''a''"], of 1 7 2 7] by simp

text \<open>
  Over every run of a kernel, at most the queue's capacity and one more decisions are owed,
  the appends were attempted in the order of the denials, each loss counter moved by the number of
  losses reported for its cause, and the decision counter by the number of denials.
\<close>

theorem queue_counts_and_bounds:
  assumes "kernel_reaches E K kn (kernel_start n m0) s"
  shows "queue_owed (q_pending (ks_queue s)) \<le> Suc n \<and>
    subseq (q_attempted (ks_queue s)) (q_emitted (ks_queue s)) \<and>
    cause_counter c (q_metrics (ks_queue s)) + of_nat (loss_count c m0) =
      cause_counter c m0 + of_nat (loss_count c (q_metrics (ks_queue s))) \<and>
    me_decisions (q_metrics (ks_queue s)) = me_decisions m0 + of_nat (length (q_emitted (ks_queue s)))"
  by (rule queue_figures [OF kernel_queue_inv [OF assms]])

theorem queue_counts_and_bounds_witness:
  "me_decisions (q_metrics (ks_queue ex_denied)) = 1 \<and> queue_owed (q_pending (ks_queue ex_denied)) \<le> 2"
proof -
  obtain d where d: "q_emitted (ks_queue ex_denied) = [d]" using ex_denied_emitted by blast
  from queue_counts_and_bounds [OF ex_denied_reaches, of Dropped] d show ?thesis
    by (simp add: metrics_new_def numeral_2_eq_2)
qed

section \<open>The manifest\<close>


text \<open>
  A redirect URI is accepted exactly when it is plain HTTP to one of the literal loopback
  addresses, with nothing or a port after it, up to the end of the authority: no user part, no other
  host and no name that resolves elsewhere passes.
\<close>

theorem loopback_redirects_exact:
  "is_loopback_uri u \<longleftrightarrow>
     (\<exists>h p t. u = ''http://'' @ h @ p @ t \<and> h \<in> {''127.0.0.1'', ''[127.0.0.1]'', ''[::1]''} \<and>
        port_suffix p \<and> uri_tail t)"
  by (rule loopback_uri_parts)

text \<open>
  The model a manifest is hashed over keeps every declared field, so two manifests with the same
  model are the same ceiling, absent and defaulted fields included.
\<close>

theorem model_keeps_the_manifest: "manifest_to_value a = manifest_to_value b \<longleftrightarrow> a = b"
  using manifest_to_value_inj by blast

section \<open>Build and boot\<close>

text \<open>
  C16: when the build step accepts a crate, every occurrence of the constructor in every file was read:
  it is a call that is judged, or it lies between such a call and the parenthesis that closes its
  arguments. A judged call stands at an occurrence of the constructor, and its arguments are what its
  matching parentheses hold; with its literals it names a triple the manifest grants, and any other call
  has a marker on its line or on one of the five above.
\<close>

theorem build_step_reads_every_call:
  assumes "verify_crate m (Some files) = Inr ()" "(path, src) \<in> set files" "occurs_at CONSTRUCTOR src p"
  shows "\<exists>start s e. occurs_at CONSTRUCTOR src start \<and>
    balanced src (start + length CONSTRUCTOR - 1) (CHR ''('') (CHR '')'') = Some (s, e) \<and>
    (p = start \<or> start < p \<and> p < e) \<and>
    (case constructor_usage (split_args (take (e - s) (drop s src))) path (line_of src start) of
       Some u \<Rightarrow> usage_covered m u
     | None \<Rightarrow> \<exists>l \<le> line_of src start. line_of src start - l \<le> 5 \<and> (\<exists>us marks.
         markers_loop src path 0 [] [] = Inr (us, marks) \<and> l \<in> set marks))"
proof -
  from verified_crate [OF assms] obtain start s e where
    "occurs_at CONSTRUCTOR src start" "constructor_span src start = Some (s, e)" "p = start \<or> start < p \<and> p < e" and
    verdict: "case constructor_usage (span_args src s e) path (line_of src start) of
       Some u \<Rightarrow> usage_covered m u
     | None \<Rightarrow> \<exists>l \<le> line_of src start. line_of src start - l \<le> 5 \<and> (\<exists>us marks.
         markers_loop src path 0 [] [] = Inr (us, marks) \<and> l \<in> set marks)" .
  then show ?thesis
    unfolding constructor_span_def span_args_def by (intro exI [of _ start] exI [of _ s] exI [of _ e] conjI)
qed

text \<open>Two calls in one file, one after the other: the second is judged as the first is.\<close>

definition ex_calls :: string where
  "ex_calls = ex_call @ '' ; '' @ ex_call"

lemma ex_calls_verified: "verify_crate ex_manifest (Some [(''f'', ex_calls)]) = Inr ()"
  by code_simp

theorem build_step_reads_every_call_witness:
  "occurs_at CONSTRUCTOR ex_calls (length ex_call + 3) \<and>
   (\<exists>start s e. occurs_at CONSTRUCTOR ex_calls start \<and>
    balanced ex_calls (start + length CONSTRUCTOR - 1) (CHR ''('') (CHR '')'') = Some (s, e) \<and>
    (length ex_call + 3 = start \<or> start < length ex_call + 3 \<and> length ex_call + 3 < e) \<and>
    (case constructor_usage (split_args (take (e - s) (drop s ex_calls))) ''f'' (line_of ex_calls start) of
       Some u \<Rightarrow> usage_covered ex_manifest u
     | None \<Rightarrow> \<exists>l \<le> line_of ex_calls start. line_of ex_calls start - l \<le> 5 \<and> (\<exists>us marks.
         markers_loop ex_calls ''f'' 0 [] [] = Inr (us, marks) \<and> l \<in> set marks)))"
proof -
  have occurs: "occurs_at CONSTRUCTOR ex_calls (length ex_call + 3)"
    by (simp add: occurs_at_def ex_calls_def) (simp add: CONSTRUCTOR_def ex_call_def)
  have listed: "(''f'', ex_calls) \<in> set [(''f'', ex_calls)]" by simp
  show ?thesis by (rule conjI [OF occurs build_step_reads_every_call [OF ex_calls_verified listed occurs]])
qed

text \<open>
  C17: a kernel boots only on the chain that commits to its manifest: the chain's current manifest
  is the hash of the manifest booted, the gate is the one that manifest describes, the nonce is the
  end of the head, the node is named, and the queue starts empty with room for at least one decision.
\<close>

theorem boot_commits_to_the_chain:
  assumes "kernel_boot E W L K m opts m0 c = (Inr (kn, s), c')"
  shows "manifest_hash K m = Inr (kn_hash kn) \<and> kn_manifest kn = m \<and>
    build_gate K m = Inr (kn_gate kn) \<and>
    (\<exists>c1. current_manifest E W L c = (Inr (kn_hash kn), c1)) \<and>
    (\<exists>h c1 c2. ledger_head W L c1 = (Inr h, c2) \<and> kn_nonce kn = nonce_of h) \<and>
    kn_node_id kn \<noteq> 0 \<and>
    s = kernel_start (q_capacity (ks_queue s)) m0 \<and> 0 < q_capacity (ks_queue s)"
  by (rule kernel_boot_Inr [OF assms])

theorem boot_commits_to_the_chain_witness:
  "\<exists>kn s c'. kernel_boot example_env quiet ex_ledger ex_api ex_manifest ex_options metrics_new ex_cell =
       (Inr (kn, s), c') \<and>
     manifest_hash ex_api ex_manifest = Inr (kn_hash kn) \<and> q_capacity (ks_queue s) = 1024 \<and>
     s = kernel_start 1024 metrics_new"
proof -
  obtain c' where boot: "kernel_boot example_env quiet ex_ledger ex_api ex_manifest ex_options metrics_new
      ex_cell = (Inr (ex_kernel, kernel_start 1024 metrics_new), c')" using ex_boot by blast
  have cap: "q_capacity (ks_queue (kernel_start 1024 metrics_new)) = 1024"
    by (simp add: kernel_start_def queue_start_def)
  from boot_commits_to_the_chain [OF boot] boot cap show ?thesis by blast
qed

end
