(* ===== verification/Store_Tables.thy ===== *)
theory Store_Tables
  imports Operations
begin

text \<open>
  The tables \<^verbatim>\<open>crates/rahi-store\<close> keeps for coordination and the way it writes them. \<open>sdb\<close> holds the
  six relations of \<^verbatim>\<open>lock.rs\<close>, \<^verbatim>\<open>receipt.rs\<close> and \<^verbatim>\<open>outbox.rs\<close> and, beside them, the tables of the
  application, whose type is a parameter. A statement is its SQLite meaning: the tables after it and
  the rows it affected, or the error of the constraint that refuses it. \<open>run_txn\<close> applies a batch all or
  nothing, as one Raft entry. A parameter above the value ceiling is refused before it is sent,
  which is one of the \<open>NotSent\<close> fates of a request.
\<close>

section \<open>Integers of the database\<close>

type_synonym u32 = "32 word"

definition i64_max :: int where "i64_max = 2 ^ 63 - 1"

definition u64_to_sql :: "u64 \<Rightarrow> int" where
  "u64_to_sql v = min (uint v) i64_max"

definition i64_to_u64 :: "int \<Rightarrow> u64 option" where
  "i64_to_u64 i = (if 0 \<le> i then Some (word_of_int i) else None)"

definition i64_to_u32 :: "int \<Rightarrow> u32 option" where
  "i64_to_u32 i = (if 0 \<le> i \<and> i < 2 ^ 32 then Some (word_of_int i) else None)"

definition i64_succ :: "int \<Rightarrow> int" where
  "i64_succ i = min (i + 1) i64_max"

definition u64_saturating_add :: "u64 \<Rightarrow> u64 \<Rightarrow> u64" where
  "u64_saturating_add a b = (if uint a + uint b < 2 ^ 64 then a + b else - 1)"

lemma uint_i64_to_u64: "i64_to_u64 i = Some v \<Longrightarrow> i \<le> i64_max \<Longrightarrow> uint v = i"
  by (auto simp: i64_to_u64_def i64_max_def unsigned_of_int take_bit_int_eq_self split: if_splits)

lemma u64_to_sql_of_i64: "i64_to_u64 i = Some v \<Longrightarrow> i \<le> i64_max \<Longrightarrow> u64_to_sql v = i"
  using uint_i64_to_u64 by (simp add: u64_to_sql_def)

lemma uint_i64_to_u32: "i64_to_u32 i = Some v \<Longrightarrow> uint v = i"
  by (auto simp: i64_to_u32_def unsigned_of_int take_bit_int_eq_self split: if_splits)

lemma i64_to_u32_uint [simp]: "i64_to_u32 (uint v) = Some v"
  using uint_lt2p [of v] by (simp add: i64_to_u32_def)

lemma u64_to_sql_range [simp]: "0 \<le> u64_to_sql v" "u64_to_sql v \<le> i64_max"
  by (auto simp: u64_to_sql_def i64_max_def)

section \<open>The tables\<close>

record head_row =
  hr_key_digest :: string
  hr_tenant :: string
  hr_namespace :: string
  hr_key :: "string option"
  hr_key_kind :: string
  hr_revision :: int
  hr_accepted_revision :: "int option"
  hr_accepted_digest :: "string option"
  hr_retain_until :: "int option"
  hr_tombstone_until :: "int option"
  hr_tombstoned :: int
  hr_erased :: int
  hr_erased_at :: "int option"
  hr_created_at :: int

record receipt_row =
  rv_key_digest :: string
  rv_revision :: int
  rv_digest :: string
  rv_disposition :: string
  rv_outcome :: "string option"
  rv_seen_count :: "int option"
  rv_last_seen_at :: "int option"
  rv_created_at :: int

datatype work_state = Pending | Claimed | Failed | Dead | Done

record work_row =
  wr_key_digest :: string
  wr_revision :: int
  wr_processor :: string
  wr_processor_revision :: string
  wr_tenant :: string
  wr_namespace :: string
  wr_key :: string
  wr_state :: work_state
  wr_holder :: "string option"
  wr_fence :: int
  wr_attempt :: int
  wr_expires_at :: "int option"
  wr_next_attempt_at :: "int option"
  wr_created_at :: int

datatype attempt_outcome = Opened | Finished | Expired | Missed | Buried | Requeued

record attempt_row =
  ar_key_digest :: string
  ar_revision :: int
  ar_processor :: string
  ar_processor_revision :: string
  ar_attempt :: int
  ar_holder :: "string option"
  ar_outcome :: attempt_outcome
  ar_error_class :: "string option"
  ar_detail :: "string option"
  ar_started_at :: int
  ar_ended_at :: "int option"

record outbox_row =
  ob_id :: int
  ob_kind :: string
  ob_tenant :: "string option"
  ob_name :: string
  ob_revision :: int

record 'a sdb =
  lease_fence :: "(string \<times> int) list"
  rahi_receipt_head :: "head_row list"
  rahi_receipt :: "receipt_row list"
  rahi_processing :: "work_row list"
  rahi_processing_attempt :: "attempt_row list"
  outbox :: "outbox_row list"
  outbox_sequence :: int
  app_tables :: 'a

text \<open>The texts the state and outcome columns hold.\<close>

fun state_text :: "work_state \<Rightarrow> string" where
  "state_text Pending = ''pending''"
| "state_text Claimed = ''claimed''"
| "state_text Failed = ''failed''"
| "state_text Dead = ''dead''"
| "state_text Done = ''done''"

fun outcome_text :: "attempt_outcome \<Rightarrow> string" where
  "outcome_text Opened = ''open''"
| "outcome_text Finished = ''done''"
| "outcome_text Expired = ''expired''"
| "outcome_text Missed = ''failed''"
| "outcome_text Buried = ''dead''"
| "outcome_text Requeued = ''requeued''"

lemma state_text_inj [simp]: "state_text a = state_text b \<longleftrightarrow> a = b"
  by (cases a; cases b) simp_all

lemma outcome_text_inj [simp]: "outcome_text a = outcome_text b \<longleftrightarrow> a = b"
  by (cases a; cases b) simp_all

section \<open>Statements and batches\<close>

type_synonym 'a sql = "'a sdb \<Rightarrow> error + 'a sdb \<times> nat"

definition not_null_failed :: "string \<Rightarrow> error" where
  "not_null_failed column = Conflict (''NOT NULL constraint failed: '' @ column)"

definition unique_failed :: "string \<Rightarrow> error" where
  "unique_failed columns = Conflict (''UNIQUE constraint failed: '' @ columns)"

definition update_rows :: "('r \<Rightarrow> bool) \<Rightarrow> ('r \<Rightarrow> 'r) \<Rightarrow> 'r list \<Rightarrow> 'r list" where
  "update_rows p f rs = map (\<lambda>r. if p r then f r else r) rs"

definition matched :: "('r \<Rightarrow> bool) \<Rightarrow> 'r list \<Rightarrow> nat" where
  "matched p rs = length (filter p rs)"

fun run_txn :: "'a sql list \<Rightarrow> 'a sdb \<Rightarrow> error + 'a sdb \<times> nat list" where
  "run_txn [] d = Inr (d, [])"
| "run_txn (s # ss) d =
     rbind (s d) (\<lambda>(d', n). rbind (run_txn ss d') (\<lambda>(d'', ns). Inr (d'', n # ns)))"

text \<open>A statement over the tables of the application: it reads and writes those alone.\<close>

definition app_sql :: "('a \<Rightarrow> error + 'a) \<Rightarrow> 'a sql" where
  "app_sql f d = rbind (f (app_tables d)) (\<lambda>x. Inr (d\<lparr>app_tables := x\<rparr>, 1))"

lemma run_txn_Cons_iff:
  "run_txn (s # ss) d = Inr (e, ms) \<longleftrightarrow>
     (\<exists>d' n ns. s d = Inr (d', n) \<and> run_txn ss d' = Inr (e, ns) \<and> ms = n # ns)"
  by auto

lemma run_txn_fails: "s d = Inl e \<Longrightarrow> run_txn (s # ss) d = Inl e"
  by simp

lemma run_txn3:
  "run_txn [a, b, c, e] d = Inr (d', ns) \<longleftrightarrow>
     (\<exists>d1 n1 d2 n2 d3 n3 n4. a d = Inr (d1, n1) \<and> b d1 = Inr (d2, n2) \<and> c d2 = Inr (d3, n3) \<and>
        e d3 = Inr (d', n4) \<and> ns = [n1, n2, n3, n4])"
  by auto

lemma run_txn_append:
  "run_txn (ss @ ts) d =
     rbind (run_txn ss d) (\<lambda>(d', ns). rbind (run_txn ts d') (\<lambda>(d'', ms). Inr (d'', ns @ ms)))"
proof (induction ss arbitrary: d)
  case Nil
  then show ?case by (cases "run_txn ts d") auto
next
  case (Cons s ss)
  show ?case
  proof (cases "s d")
    case (Inl e)
    then show ?thesis by simp
  next
    case (Inr p)
    then show ?thesis
      by (cases p, cases "run_txn ss (fst p)")
        (auto simp: Cons.IH rbind_assoc case_prod_beta)
  qed
qed

lemma run_txn_append_iff:
  "run_txn (ss @ ts) d = Inr (e, ks) \<longleftrightarrow>
     (\<exists>d' ns ms. run_txn ss d = Inr (d', ns) \<and> run_txn ts d' = Inr (e, ms) \<and> ks = ns @ ms)"
  by (auto simp: run_txn_append)

lemma run_txn_length: "run_txn ss d = Inr (e, ns) \<Longrightarrow> length ns = length ss"
  by (induction ss arbitrary: d e ns) auto

lemma run_txn_invariant:
  assumes "\<And>s d d' n. s \<in> set ss \<Longrightarrow> s d = Inr (d', n) \<Longrightarrow> P d \<Longrightarrow> P d'"
    and "run_txn ss d = Inr (e, ns)" and "P d"
  shows "P e"
  using assms
proof (induction ss arbitrary: d ns)
  case Nil
  then show ?case by simp
next
  case (Cons s ss)
  then obtain d' n ms where "s d = Inr (d', n)" "run_txn ss d' = Inr (e, ms)"
    by auto
  with Cons show ?case by (metis list.set_intros)
qed

text \<open>A reflexive transitive relation that every statement of a batch keeps is kept by the batch.\<close>

locale batch_relation =
  fixes R :: "'a sdb \<Rightarrow> 'a sdb \<Rightarrow> bool"
  assumes R_refl: "R d d"
    and R_trans: "R d e \<Longrightarrow> R e f \<Longrightarrow> R d f"
begin

definition carries :: "'a sql \<Rightarrow> bool" where
  "carries s \<longleftrightarrow> (\<forall>d d' n. s d = Inr (d', n) \<longrightarrow> R d d')"

definition carries_all :: "'a sql list \<Rightarrow> bool" where
  "carries_all ss \<longleftrightarrow> (\<forall>d d' ns. run_txn ss d = Inr (d', ns) \<longrightarrow> R d d')"

lemma carriesI: "(\<And>d d' n. s d = Inr (d', n) \<Longrightarrow> R d d') \<Longrightarrow> carries s"
  by (simp add: carries_def)

lemma carries_allD: "carries_all ss \<Longrightarrow> run_txn ss d = Inr (d', ns) \<Longrightarrow> R d d'"
  by (auto simp: carries_all_def)

lemma carries_Nil: "carries_all []"
  by (auto simp: carries_all_def R_refl)

lemma carries_Cons: "carries s \<Longrightarrow> carries_all ss \<Longrightarrow> carries_all (s # ss)"
  unfolding carries_def carries_all_def run_txn_Cons_iff by (blast intro: R_trans)

lemma carries_append: "carries_all ss \<Longrightarrow> carries_all ts \<Longrightarrow> carries_all (ss @ ts)"
  unfolding carries_all_def run_txn_append_iff by (blast intro: R_trans)

lemma carries_concat: "\<forall>p \<in> set ps. carries_all p \<Longrightarrow> carries_all (concat ps)"
  by (induction ps) (auto intro: carries_Nil carries_append)

end

lemma update_rows_Nil [simp]: "update_rows p f [] = []"
  by (simp add: update_rows_def)

lemma update_rows_Cons [simp]:
  "update_rows p f (r # rs) = (if p r then f r else r) # update_rows p f rs"
  by (simp add: update_rows_def)

lemma set_update_rows: "set (update_rows p f rs) = (\<lambda>r. if p r then f r else r) ` set rs"
  by (simp add: update_rows_def)

lemma map_update_rows: "(\<And>r. p r \<Longrightarrow> g (f r) = g r) \<Longrightarrow> map g (update_rows p f rs) = map g rs"
  by (auto simp: update_rows_def)

lemma update_rows_none: "(\<And>r. r \<in> set rs \<Longrightarrow> \<not> p r) \<Longrightarrow> update_rows p f rs = rs"
  by (induction rs) (auto simp: update_rows_def)

lemma matched_zero_iff: "matched p rs = 0 \<longleftrightarrow> (\<forall>r \<in> set rs. \<not> p r)"
  by (auto simp: matched_def filter_empty_conv)

lemma matched_pos_iff: "0 < matched p rs \<longleftrightarrow> (\<exists>r \<in> set rs. p r)"
  by (auto simp: matched_def filter_empty_conv)

lemma matched_Nil [simp]: "matched p [] = 0"
  by (simp add: matched_def)

lemma matched_Cons [simp]: "matched p (r # rs) = (if p r then Suc (matched p rs) else matched p rs)"
  by (simp add: matched_def)

text \<open>A predicate that pins the primary key matches one row at most.\<close>

lemma matched_key:
  "distinct (map k rs) \<Longrightarrow> (\<And>r. p r \<Longrightarrow> k r = x) \<Longrightarrow> matched p rs \<le> 1"
proof (induction rs)
  case Nil
  then show ?case by simp
next
  case (Cons r rs)
  have "matched p rs = 0" if "p r"
  proof -
    have "k r = x" using Cons.prems(2) that .
    with Cons.prems have "\<forall>s \<in> set rs. \<not> p s" by (auto simp: image_iff)
    then show ?thesis by (simp add: matched_zero_iff)
  qed
  with Cons show ?case by auto
qed

end
