(* ===== verification/Store_Handle.thy ===== *)
theory Store_Handle
  imports Store_Tables
begin

text \<open>
  A handle on the replicated store, under interference. \<open>handle\<close> is the shared tables with what this
  process remembers of its own leases, and a clock that counts its requests; \<open>store_world\<close> says, for
  each request, what everybody else committed before it reached the leader, whether it was answered,
  whether its answer lost rows, and whether a lock was granted.
\<close>

record lease =
  le_key :: string
  le_token :: u64

record 'a handle =
  ho_db :: "'a sdb"
  ho_superseded :: "lease list"
  ho_released :: "string list"
  ho_clock :: nat

record 'a store_world =
  ow_others :: "nat \<Rightarrow> 'a sdb \<Rightarrow> 'a sdb"
  ow_fate :: "nat \<Rightarrow> fate"
  ow_keep :: "nat \<Rightarrow> nat option"
  ow_lock :: "nat \<Rightarrow> error option"
  ow_replica :: "nat \<Rightarrow> 'a sdb \<Rightarrow> 'a sdb"

text \<open>Nobody else writes, every call is answered whole, and the replica is the leader's state.\<close>

definition calm :: "'a store_world" where
  "calm = \<lparr>ow_others = (\<lambda>_ d. d), ow_fate = (\<lambda>_. Acked), ow_keep = (\<lambda>_. None),
     ow_lock = (\<lambda>_. None), ow_replica = (\<lambda>_ d. d)\<rparr>"

definition pass :: "'a store_world \<Rightarrow> 'a handle \<Rightarrow> 'a handle" where
  "pass W h = h\<lparr>ho_db := ow_others W (ho_clock h) (ho_db h), ho_clock := Suc (ho_clock h)\<rparr>"

definition read_consistent :: "'a store_world \<Rightarrow> ('a sdb \<Rightarrow> 'r list) \<Rightarrow> ('a handle, 'r list) op" where
  "read_consistent W q = (\<lambda>h.
     (case ow_fate W (ho_clock h) of
        Acked \<Rightarrow> Inr (answer (ow_keep W (ho_clock h)) (q (ho_db (pass W h))))
      | AckLost e \<Rightarrow> Inl e
      | NotSent e \<Rightarrow> Inl e,
      pass W h))"

text \<open>A read of the local replica, which may lag behind the leader.\<close>

definition read_local :: "'a store_world \<Rightarrow> ('a sdb \<Rightarrow> 'r list) \<Rightarrow> ('a handle, 'r list) op" where
  "read_local W q = (\<lambda>h.
     (case ow_fate W (ho_clock h) of
        Acked \<Rightarrow> Inr (answer (ow_keep W (ho_clock h))
                       (q (ow_replica W (ho_clock h) (ho_db (pass W h)))))
      | AckLost e \<Rightarrow> Inl e
      | NotSent e \<Rightarrow> Inl e,
      pass W h))"

record page =
  pg_size :: u32
  pg_after :: u64

definition page_new :: "u32 \<Rightarrow> page" where
  "page_new n = \<lparr>pg_size = n, pg_after = 0\<rparr>"

definition page_next :: "page \<Rightarrow> page" where
  "page_next p = p\<lparr>pg_after := u64_saturating_add (pg_after p) (ucast (pg_size p))\<rparr>"

definition page_rows :: "page \<Rightarrow> 'r list \<Rightarrow> 'r list" where
  "page_rows p rs = take (unat (pg_size p)) (drop (unat (pg_after p)) rs)"

definition query_paged ::
  "'a store_world \<Rightarrow> ('a sdb \<Rightarrow> 'r list) \<Rightarrow> page \<Rightarrow> ('a handle, 'r list) op" where
  "query_paged W q p =
     (if pg_size p = 0 then fail (Validation ''a page of zero rows never advances a sweep'')
      else if i64_max < uint (pg_after p) then fail (Validation ''page offset exceeds i64'')
      else read_local W (\<lambda>d. page_rows p (q d)))"

definition submit :: "'a store_world \<Rightarrow> 'a sql list \<Rightarrow> ('a handle, nat list) op" where
  "submit W stmts = (\<lambda>h.
     if stmts = [] then (Inl (Validation ''txn needs at least one statement''), h)
     else
       (case ow_fate W (ho_clock h) of
          NotSent e \<Rightarrow> (Inl e, pass W h)
        | Acked \<Rightarrow>
            (case run_txn stmts (ho_db (pass W h)) of
               Inl e \<Rightarrow> (Inl e, pass W h)
             | Inr (d, ns) \<Rightarrow> (Inr ns, (pass W h)\<lparr>ho_db := d\<rparr>))
        | AckLost e \<Rightarrow>
            (case run_txn stmts (ho_db (pass W h)) of
               Inl _ \<Rightarrow> (Inl e, pass W h)
             | Inr (d, ns) \<Rightarrow> (Inl e, (pass W h)\<lparr>ho_db := d\<rparr>))))"

lemma pass_simps [simp]:
  "ho_db (pass W h) = ow_others W (ho_clock h) (ho_db h)" "ho_clock (pass W h) = Suc (ho_clock h)"
  "ho_superseded (pass W h) = ho_superseded h" "ho_released (pass W h) = ho_released h"
  by (simp_all add: pass_def)

lemma read_consistent_Inr_iff:
  "read_consistent W q h = (Inr rows, t) \<longleftrightarrow>
     ow_fate W (ho_clock h) = Acked \<and> t = pass W h \<and>
     rows = answer (ow_keep W (ho_clock h)) (q (ho_db t))"
  by (auto simp: read_consistent_def split: fate.splits)

lemma submit_Inr_iff:
  "submit W stmts h = (Inr ns, t) \<longleftrightarrow>
     stmts \<noteq> [] \<and> ow_fate W (ho_clock h) = Acked \<and>
     (\<exists>d. run_txn stmts (ho_db (pass W h)) = Inr (d, ns) \<and> t = (pass W h)\<lparr>ho_db := d\<rparr>)"
  by (auto simp: submit_def split: fate.splits sum.splits prod.splits)

lemma submit_refused:
  "run_txn stmts (ho_db (pass W h)) = Inl e \<Longrightarrow> stmts \<noteq> [] \<Longrightarrow>
     submit W stmts h = (r, t) \<Longrightarrow> t = pass W h \<and> (\<exists>e. r = Inl e)"
  by (auto simp: submit_def split: fate.splits)

lemma calm_simps [simp]:
  "ow_others calm n d = d" "ow_fate calm n = Acked" "ow_keep calm n = None" "ow_lock calm n = None"
  "ow_replica calm n d = d"
  by (simp_all add: calm_def)

lemma calm_read:
  "read_consistent calm q h = (Inr (q (ho_db h)), h\<lparr>ho_clock := Suc (ho_clock h)\<rparr>)"
  by (simp add: read_consistent_def pass_def)

lemma calm_submit:
  "stmts \<noteq> [] \<Longrightarrow> run_txn stmts (ho_db h) = Inr (d, ns) \<Longrightarrow>
     submit calm stmts h = (Inr ns, h\<lparr>ho_db := d, ho_clock := Suc (ho_clock h)\<rparr>)"
  by (simp add: submit_def pass_def)

end
