(* ===== verification/Store_Lease.thy ===== *)
theory Store_Lease
  imports Store_Handle
begin

text \<open>
  Leases and the fencing predicate: \<^verbatim>\<open>crates/rahi-store/src/lock.rs\<close>. Here is the table that mints
  the tokens, the guard a fenced batch runs first, and the calls of a lease holder. A statement a
  caller hands to \<open>fenced_txn\<close> is what \<^verbatim>\<open>Statement::fenced\<close> makes of it under a token: \<open>fenced_text\<close> is its
  rewriting of the text, and the statements here take the token as an argument.
\<close>

definition FENCE_COLUMN :: string where "FENCE_COLUMN = ''lease_fence.token''"
definition LEASE_TTL_SECONDS :: nat where "LEASE_TTL_SECONDS = 10"

section \<open>The statements\<close>

definition fence_of :: "string \<Rightarrow> 'a sdb \<Rightarrow> int option" where
  "fence_of key d = map_of (lease_fence d) key"

definition bump_fence :: "string \<Rightarrow> 'a sql" where
  "bump_fence key d =
     Inr (d\<lparr>lease_fence :=
            (case fence_of key d of
               None \<Rightarrow> lease_fence d @ [(key, 1)]
             | Some _ \<Rightarrow> update_rows (\<lambda>r. fst r = key) (\<lambda>r. (fst r, snd r + 1)) (lease_fence d))\<rparr>, 1)"

definition select_token :: "string \<Rightarrow> 'a sdb \<Rightarrow> int list" where
  "select_token key d = map snd (filter (\<lambda>r. fst r = key) (lease_fence d))"

definition guard_lease :: "int \<Rightarrow> string \<Rightarrow> 'a sql" where
  "guard_lease token key d =
     (if \<exists>r \<in> set (lease_fence d). fst r = key \<and> \<not> snd r \<le> token
      then Inl (not_null_failed FENCE_COLUMN)
      else Inr (d, matched (\<lambda>r. fst r = key) (lease_fence d)))"

section \<open>The holder\<close>

definition fence_literal :: "u64 \<Rightarrow> error + int" where
  "fence_literal token =
     (if uint token \<le> i64_max then Inr (uint token)
      else Inl (Integrity ''fencing token exceeds i64''))"

definition guard_statement :: "lease \<Rightarrow> error + 'a sql" where
  "guard_statement l = rbind (fence_literal (le_token l)) (\<lambda>t. Inr (guard_lease t (le_key l)))"

fun contains_text :: "string \<Rightarrow> string \<Rightarrow> bool" where
  "contains_text p [] = (p = [])"
| "contains_text p (c # s) = (starts_with p (c # s) \<or> contains_text p s)"

definition superseded_error :: "lease \<Rightarrow> error \<Rightarrow> error" where
  "superseded_error l e =
     (if contains_text FENCE_COLUMN (message e)
      then Conflict (''lease '' @ le_key l @ '' token has been superseded: '' @ message e)
      else e)"

definition note_superseded :: "lease \<Rightarrow> error \<Rightarrow> ('a handle, unit) op" where
  "note_superseded l e = (\<lambda>h.
     (Inr (), if contains_text FENCE_COLUMN (message e)
              then h\<lparr>ho_superseded := l # ho_superseded h\<rparr> else h))"

definition drop_lock :: "string \<Rightarrow> ('a handle, unit) op" where
  "drop_lock key = (\<lambda>h. (Inr (), h\<lparr>ho_released := key # ho_released h\<rparr>))"

text \<open>\<^verbatim>\<open>Lease::hand_back\<close>: the lock of a lease known to be superseded is leaked, never released.\<close>

definition hand_back :: "lease \<Rightarrow> ('a handle, unit) op" where
  "hand_back l = (\<lambda>h. if l \<in> set (ho_superseded h) then (Inr (), h) else drop_lock (le_key l) h)"

definition acquire_lock :: "'a store_world \<Rightarrow> string \<Rightarrow> ('a handle, unit) op" where
  "acquire_lock W key = (\<lambda>h.
     (case ow_lock W (ho_clock h) of None \<Rightarrow> Inr () | Some e \<Rightarrow> Inl e, pass W h))"

text \<open>
  A token above \<^verbatim>\<open>i64\<close> is a real number in SQLite, which does not fit the row type.
\<close>

definition mint_token :: "'a store_world \<Rightarrow> string \<Rightarrow> ('a handle, u64) op" where
  "mint_token W key =
     obind (submit W [bump_fence key]) (\<lambda>_.
     obind (read_consistent W (select_token key)) (\<lambda>rows.
       case rows of
         [] \<Rightarrow> fail (Integrity ''lease minted no fencing token'')
       | raw # _ \<Rightarrow>
           if i64_max < raw then fail (Validation ''row does not fit the requested type'')
           else lift (or_error (Integrity ''lease minted a negative token'') (i64_to_u64 raw))))"

definition take_lease :: "'a store_world \<Rightarrow> string \<Rightarrow> ('a handle, lease) op" where
  "take_lease W key =
     obind (acquire_lock W key) (\<lambda>_.
     on_result (mint_token W key) (\<lambda>r.
       case r of
         Inl e \<Rightarrow> obind (drop_lock key) (\<lambda>_. fail e)
       | Inr t \<Rightarrow> ret \<lparr>le_key = key, le_token = t\<rparr>))"

text \<open>The guard first, the caller's statements behind it, the guard's own result taken off.\<close>

definition behind_guard :: "'a store_world \<Rightarrow> lease \<Rightarrow> 'a sql \<Rightarrow> 'a sql list \<Rightarrow> ('a handle, nat list) op" where
  "behind_guard W l guard stmts =
     on_result (submit W (guard # stmts)) (\<lambda>r.
       case r of
         Inl e \<Rightarrow> obind (note_superseded l e) (\<lambda>_. fail (superseded_error l e))
       | Inr [] \<Rightarrow> fail (Integrity ''ran the guard but got no result for it'')
       | Inr (n # ns) \<Rightarrow>
           if n \<noteq> 1 then fail (Conflict ''lease has no fencing row'') else ret ns)"

definition fenced_txn ::
  "'a store_world \<Rightarrow> lease \<Rightarrow> (u64 \<Rightarrow> error + 'a sql) list \<Rightarrow> ('a handle, nat list) op" where
  "fenced_txn W l stmts =
     (if stmts = [] then fail (Validation ''fenced_txn needs at least one statement'')
      else
        obind (lift (guard_statement l)) (\<lambda>guard.
        obind (lift (try_map (\<lambda>f. f (le_token l)) stmts)) (\<lambda>fenced.
          behind_guard W l guard fenced)))"

section \<open>The rewriting of a statement\<close>

text \<open>
  \<open>top_level_where\<close> walks the text once: a word ends at the first character that belongs to none, a quote,
  a bracket or a comment is skipped, and parentheses are counted. The text is ASCII; a position is an index.
\<close>

definition sql_word :: "char \<Rightarrow> bool" where
  "sql_word c \<longleftrightarrow> ascii_lower c \<or> ascii_upper c \<or> ascii_digit c \<or> c = CHR ''_''"

fun skip_quoted :: "char \<Rightarrow> string \<Rightarrow> string" where
  "skip_quoted q [] = []"
| "skip_quoted q [c] = []"
| "skip_quoted q (c # d # cs) =
     (if c \<noteq> q then skip_quoted q (d # cs) else if d = q then skip_quoted q cs else d # cs)"

fun skip_comment :: "string \<Rightarrow> string" where
  "skip_comment [] = []"
| "skip_comment [c] = []"
| "skip_comment (c # d # cs) = (if c = CHR ''*'' \<and> d = CHR ''/'' then cs else skip_comment (d # cs))"

definition skip_line :: "string \<Rightarrow> string" where
  "skip_line cs = drop 1 (dropWhile (\<lambda>c. c \<noteq> CHR 0x0A) cs)"

definition close_word :: "string \<Rightarrow> nat option \<Rightarrow> nat \<Rightarrow> u32 \<Rightarrow> nat option" where
  "close_word sql word stop depth =
     (case word of
        None \<Rightarrow> None
      | Some start \<Rightarrow>
          if depth = 0 \<and> eq_ignore_ascii_case (take (stop - start) (drop start sql)) ''where'' then Some start else None)"

text \<open>What is left behind a character that is in no word, and the depth there.\<close>

definition after_mark :: "char \<Rightarrow> string \<Rightarrow> u32 \<Rightarrow> string \<times> u32" where
  "after_mark c cs depth =
     (if c = CHR ''('' then (cs, if depth = - 1 then depth else depth + 1)
      else if c = CHR '')'' then (cs, if depth = 0 then 0 else depth - 1)
      else if c \<in> {CHR 0x27, CHR 0x22, CHR 0x60} then (skip_quoted c cs, depth)
      else if c = CHR ''['' then (skip_quoted (CHR '']'') cs, depth)
      else if c = CHR ''-'' \<and> starts_with ''-'' cs then (skip_line cs, depth)
      else if c = CHR ''/'' \<and> starts_with ''*'' cs then (skip_comment (tl cs), depth)
      else (cs, depth))"

lemma skip_quoted_length: "length (skip_quoted q cs) \<le> length cs"
  by (induction q cs rule: skip_quoted.induct) auto

lemma skip_comment_length: "length (skip_comment cs) \<le> length cs"
  by (induction cs rule: skip_comment.induct) auto

lemma skip_line_length: "length (skip_line cs) \<le> length cs"
  using length_dropWhile_le [of "\<lambda>c. c \<noteq> CHR 0x0A" cs] by (simp add: skip_line_def)

lemma after_mark_length: "length (fst (after_mark c cs depth)) \<le> length cs"
  using skip_quoted_length [of c cs] skip_quoted_length [of "CHR '']''" cs] skip_line_length [of cs]
    skip_comment_length [of "tl cs"]
  by (auto simp: after_mark_def intro: order_trans)

function where_from :: "string \<Rightarrow> u32 \<Rightarrow> nat option \<Rightarrow> string \<Rightarrow> nat option" where
  "where_from sql depth word [] = close_word sql word (length sql) depth"
| "where_from sql depth word (c # cs) =
     (let i = length sql - Suc (length cs)
      in if sql_word c then where_from sql depth (case word of None \<Rightarrow> Some i | Some w \<Rightarrow> Some w) cs
         else (case close_word sql word i depth of
                 Some found \<Rightarrow> Some found
               | None \<Rightarrow> where_from sql (snd (after_mark c cs depth)) None (fst (after_mark c cs depth))))"
  by pat_completeness auto

termination
  by (relation "measure (\<lambda>(sql, depth, word, cs). length cs)") (auto simp: le_imp_less_Suc after_mark_length)

definition top_level_where :: "string \<Rightarrow> nat option" where
  "top_level_where sql = where_from sql 0 None sql"

definition trim_end :: "(char \<Rightarrow> bool) \<Rightarrow> string \<Rightarrow> string" where
  "trim_end p s = rev (dropWhile p (rev s))"

text \<open>\<^verbatim>\<open>Statement::fenced\<close>, on the text of the statement; its parameters are left as they are.\<close>

definition fenced_text :: "string \<Rightarrow> u64 \<Rightarrow> error + string" where
  "fenced_text text token =
     rbind (fence_literal token) (\<lambda>n.
     let literal = show_nat (nat n); sql = trim_end ascii_space (trim_end (\<lambda>c. c = CHR '';'') (trim text))
     in case split_whitespace sql of
          [] \<Rightarrow> Inl (Validation ''fenced needs a statement'')
        | verb # _ \<Rightarrow>
            (let is_update = eq_ignore_ascii_case verb ''update''
             in if \<not> is_update \<and> \<not> eq_ignore_ascii_case verb ''delete''
                then Inl (Validation ''only UPDATE and DELETE can be fenced'')
                else
                  (case top_level_where sql of
                     Some at \<Rightarrow>
                       if is_update
                       then Inr (trim_end ascii_space (take at sql) @ '', fence = '' @ literal @ '' '' @ drop at sql @
                         '' AND fence <= '' @ literal)
                       else Inr (sql @ '' AND fence <= '' @ literal)
                   | None \<Rightarrow>
                       if is_update then Inr (sql @ '', fence = '' @ literal @ '' WHERE fence <= '' @ literal)
                       else Inr (sql @ '' WHERE fence <= '' @ literal))))"

text \<open>A subquery, a literal and a comment hide their \<^verbatim>\<open>WHERE\<close>, and only a statement that writes rows is fenced.\<close>

lemma fenced_text_examples:
  "fenced_text ''UPDATE t SET v = (SELECT v FROM u WHERE u.id = 1) WHERE t.id = 2'' 7 =
     Inr ''UPDATE t SET v = (SELECT v FROM u WHERE u.id = 1), fence = 7 WHERE t.id = 2 AND fence <= 7''"
  "fenced_text ''DELETE /* where */ FROM t;'' 3 = Inr ''DELETE /* where */ FROM t WHERE fence <= 3''"
  "fenced_text ''INSERT INTO t (v) VALUES (1)'' 1 = Inl (Validation ''only UPDATE and DELETE can be fenced'')"
  by code_simp+

text \<open>
  The condition is appended as it stands: in SQL the conjunction binds to the last alternative alone, so
  the rows of the others are written whatever their fence is, and behind a comment that ends the
  statement it is part of the comment.
\<close>

lemma fence_is_lost:
  "fenced_text ''DELETE FROM t WHERE a = 1 -- old rows'' 7 = Inr ''DELETE FROM t WHERE a = 1 -- old rows AND fence <= 7''"
  "fenced_text ''UPDATE t SET v = 1 WHERE a = 1 OR b = 1'' 7 =
     Inr ''UPDATE t SET v = 1, fence = 7 WHERE a = 1 OR b = 1 AND fence <= 7''"
  by code_simp+

section \<open>The table\<close>

definition fences_ok :: "'a sdb \<Rightarrow> bool" where
  "fences_ok d \<longleftrightarrow> distinct (map fst (lease_fence d)) \<and> (\<forall>r \<in> set (lease_fence d). 0 < snd r)"

definition newest :: "string \<Rightarrow> 'a sdb \<Rightarrow> int" where
  "newest key d = (case fence_of key d of None \<Rightarrow> 0 | Some t \<Rightarrow> t)"

lemma update_fences_map_of:
  "map_of (update_rows (\<lambda>r. fst r = key) (\<lambda>r. (fst r, f (snd r))) rs) k =
     (if k = key then map_option f (map_of rs k) else map_of rs k)"
  by (induction rs) auto

lemma bump_fences_map_of:
  "map_of (update_rows (\<lambda>r. fst r = key) (\<lambda>r. (fst r, snd r + 1)) rs) k =
     (if k = key then map_option (\<lambda>t. t + 1) (map_of rs k) else map_of rs k :: int option)"
  by (rule update_fences_map_of)

lemma fence_bump:
  "bump_fence key d = Inr (d', n) \<Longrightarrow>
     fence_of k d' = (if k = key then Some (newest k d + 1) else fence_of k d)"
  by (auto simp: bump_fence_def newest_def fence_of_def bump_fences_map_of map_add_def
      split: option.splits)

lemma newest_bump:
  "bump_fence key d = Inr (d', n) \<Longrightarrow>
     newest k d' = (if k = key then newest k d + 1 else newest k d)"
  by (simp add: newest_def fence_bump)

lemma fences_ok_bump:
  assumes "bump_fence key d = Inr (d', n)" "fences_ok d"
  shows "fences_ok d'"
proof (cases "fence_of key d")
  case None
  with assms have "lease_fence d' = lease_fence d @ [(key, 1)]"
    by (auto simp: bump_fence_def)
  moreover have "key \<notin> fst ` set (lease_fence d)"
    using None by (simp add: fence_of_def map_of_eq_None_iff)
  ultimately show ?thesis using assms(2) by (auto simp: fences_ok_def)
next
  case (Some t)
  with assms have "lease_fence d' =
      update_rows (\<lambda>r. fst r = key) (\<lambda>r. (fst r, snd r + 1)) (lease_fence d)"
    by (auto simp: bump_fence_def)
  with assms(2) show ?thesis
    by (fastforce simp: fences_ok_def map_update_rows set_update_rows)
qed

lemma newest_nonneg: "fences_ok d \<Longrightarrow> 0 \<le> newest key d"
  by (force simp: newest_def fence_of_def fences_ok_def dest!: map_of_SomeD split: option.splits)

lemma fence_rows:
  assumes "fences_ok d"
  shows "(\<exists>r \<in> set (lease_fence d). fst r = key \<and> P (snd r)) \<longleftrightarrow>
     (\<exists>t. fence_of key d = Some t \<and> P t)"
proof -
  have "fence_of key d = Some t \<longleftrightarrow> (key, t) \<in> set (lease_fence d)" for t
    using assms by (simp add: fences_ok_def fence_of_def)
  then show ?thesis by force
qed

lemma select_token_map_of:
  "distinct (map fst rs) \<Longrightarrow>
     map snd (filter (\<lambda>r. fst r = key) rs) = (case map_of rs key of None \<Rightarrow> [] | Some t \<Rightarrow> [t])"
proof (induction rs)
  case Nil
  then show ?case by simp
next
  case (Cons r rs)
  then have "key = fst r \<Longrightarrow> map_of rs key = None" by (simp add: map_of_eq_None_iff)
  with Cons show ?case by (cases "fst r = key") auto
qed

lemma select_token_fence:
  "fences_ok d \<Longrightarrow> select_token key d = (case fence_of key d of None \<Rightarrow> [] | Some t \<Rightarrow> [t])"
  by (simp add: select_token_def fence_of_def fences_ok_def select_token_map_of)

lemma matched_fence:
  "fences_ok d \<Longrightarrow> matched (\<lambda>r. fst r = key) (lease_fence d) = (if fence_of key d = None then 0 else 1)"
proof -
  assume ok: "fences_ok d"
  have "matched (\<lambda>r. fst r = key) (lease_fence d) = length (select_token key d)"
    by (simp add: matched_def select_token_def)
  then show ?thesis by (simp add: select_token_fence [OF ok] split: option.split)
qed

text \<open>The guard refuses a token another has overtaken, and passes every other over unchanged tables.\<close>

lemma guard_lease_ok:
  "fences_ok d \<Longrightarrow>
     guard_lease token key d =
       (if newest key d \<le> token \<or> fence_of key d = None
        then Inr (d, if fence_of key d = None then 0 else 1)
        else Inl (not_null_failed FENCE_COLUMN))"
  using fence_rows [of d key "\<lambda>t. \<not> t \<le> token"]
  by (auto simp: guard_lease_def matched_fence newest_def split: option.splits)

lemma guard_lease_state: "guard_lease token key d = Inr (d', n) \<Longrightarrow> d' = d"
  by (auto simp: guard_lease_def split: if_splits)

end
