(* ===== verification/Store_Receipt.thy ===== *)
theory Store_Receipt
  imports Store_Handle
begin

text \<open>
  Receipts: \<^verbatim>\<open>crates/rahi-store/src/receipt.rs\<close>. An inbound item has an identity, digested with a
  length-prefixed encoding; \<open>classify_receipt\<close> answers what a delivery is, and the \<open>stage_\<close> calls append
  the statements of that answer to the caller's batch. The digest of \<^verbatim>\<open>attest_ledger_core\<close> is the
  parameter \<open>sha\<close>.
\<close>

definition KEY_DOMAIN :: string where "KEY_DOMAIN = ''rahi.receipt.key/v1''"
definition SYNTHETIC_DOMAIN :: string where "SYNTHETIC_DOMAIN = ''rahi.receipt.synthetic/v1''"
definition MAX_NAMESPACE_BYTES :: nat where "MAX_NAMESPACE_BYTES = 256"
definition MAX_KEY_BYTES :: nat where "MAX_KEY_BYTES = 1024"
definition MAX_OUTCOME_BYTES :: nat where "MAX_OUTCOME_BYTES = 4096"

section \<open>Identities\<close>

definition sha256_hex_raw :: "(string \<Rightarrow> string) \<Rightarrow> string \<Rightarrow> string" where
  "sha256_hex_raw sha bytes =
     (case strip_prefix ''sha256:'' (sha bytes) of None \<Rightarrow> sha bytes | Some h \<Rightarrow> h)"

definition be_bytes :: "nat \<Rightarrow> string" where
  "be_bytes n = map (\<lambda>i. char_of (n div 256 ^ i mod 256)) [7, 6, 5, 4, 3, 2, 1, 0]"

definition domain_separated :: "string \<Rightarrow> string list \<Rightarrow> string" where
  "domain_separated domain parts = domain @ concat (map (\<lambda>p. be_bytes (length p) @ p) parts)"

record receipt_key =
  rk_tenant :: string
  rk_namespace :: string
  rk_key :: string

definition receipt_key_build :: "string \<Rightarrow> string \<Rightarrow> string \<Rightarrow> error + receipt_key" where
  "receipt_key_build tenant namespace key =
     (if tenant = '''' then Inl (Validation ''a receipt's tenant must not be empty'')
      else if namespace = '''' \<or> MAX_NAMESPACE_BYTES < length namespace
      then Inl (Validation ''a receipt's namespace is too long or empty'')
      else if MAX_KEY_BYTES < length key then Inl (Validation ''a receipt's key is too long'')
      else Inr \<lparr>rk_tenant = tenant, rk_namespace = namespace, rk_key = key\<rparr>)"

definition receipt_key_new :: "string \<Rightarrow> string \<Rightarrow> string \<Rightarrow> error + receipt_key" where
  "receipt_key_new tenant namespace key =
     (if key = '''' then Inl (Validation ''a receipt key must not be empty'')
      else receipt_key_build tenant namespace key)"

definition receipt_key_synthetic ::
  "(string \<Rightarrow> string) \<Rightarrow> string \<Rightarrow> string \<Rightarrow> string list \<Rightarrow> error + receipt_key" where
  "receipt_key_synthetic sha tenant namespace parts =
     (if parts = [] then Inl (Validation ''a synthetic key needs at least one stable part'')
      else receipt_key_build tenant namespace
             (''syn:'' @ sha256_hex_raw sha (domain_separated SYNTHETIC_DOMAIN parts)))"

definition is_synthetic :: "receipt_key \<Rightarrow> bool" where
  "is_synthetic k = starts_with ''syn:'' (rk_key k)"

definition key_kind :: "receipt_key \<Rightarrow> string" where
  "key_kind k = (if is_synthetic k then ''synthetic'' else ''explicit'')"

definition key_digest :: "(string \<Rightarrow> string) \<Rightarrow> receipt_key \<Rightarrow> string" where
  "key_digest sha k =
     sha256_hex_raw sha (domain_separated KEY_DOMAIN [rk_tenant k, rk_namespace k, rk_key k])"

definition content_digest_of :: "(string \<Rightarrow> string) \<Rightarrow> string \<Rightarrow> string" where
  "content_digest_of sha bytes = sha256_hex_raw sha bytes"

definition content_digest_from_hex :: "string \<Rightarrow> error + string" where
  "content_digest_from_hex hex =
     (if length hex \<noteq> 64 \<or> \<not> list_all (\<lambda>b. ascii_hexdigit b \<and> \<not> ascii_upper b) hex
      then Inl (Validation ''a content digest must be 64 lowercase hex characters'')
      else Inr hex)"

section \<open>Classification\<close>

record changed =
  ch_head_revision :: u32
  ch_head_digest :: string

datatype classification =
    FirstSeen
  | Redelivered u32 bool "string option"
  | Changed changed
  | CollisionRedelivered u32
  | Erased u64

definition select_head :: "string \<Rightarrow> 'a sdb \<Rightarrow> head_row list" where
  "select_head kd d = filter (\<lambda>h. hr_key_digest h = kd) (rahi_receipt_head d)"

definition select_revision_by_digest :: "string \<Rightarrow> string \<Rightarrow> 'a sdb \<Rightarrow> receipt_row list" where
  "select_revision_by_digest kd digest d =
     take 1 (filter (\<lambda>r. rv_key_digest r = kd \<and> rv_digest r = digest) (rahi_receipt d))"

definition to_revision :: "int \<Rightarrow> error + u32" where
  "to_revision raw = or_error (Integrity ''receipt holds an out-of-range revision'') (i64_to_u32 raw)"

definition classify_match :: "head_row \<Rightarrow> receipt_row \<Rightarrow> error + classification" where
  "classify_match h r =
     rbind (to_revision (rv_revision r)) (\<lambda>rev.
       if rv_disposition r = ''accepted''
       then Inr (Redelivered rev (hr_accepted_revision h = Some (rv_revision r)) (rv_outcome r))
       else if rv_disposition r = ''collision'' then Inr (CollisionRedelivered rev)
       else Inl (Integrity ''receipt holds an unknown disposition''))"

definition classify_erased :: "head_row \<Rightarrow> error + classification" where
  "classify_erased h =
     (case hr_erased_at h of
        None \<Rightarrow> Inl (Integrity ''receipt is erased but has no erased_at'')
      | Some raw \<Rightarrow>
          rbind (or_error (Integrity ''receipt holds a negative erased_at'') (i64_to_u64 raw))
            (\<lambda>secs. Inr (Erased secs)))"

definition classify_changed :: "head_row \<Rightarrow> error + classification" where
  "classify_changed h =
     rbind (to_revision (hr_revision h)) (\<lambda>rev.
       Inr (Changed \<lparr>ch_head_revision = rev,
         ch_head_digest = (case hr_accepted_digest h of None \<Rightarrow> '''' | Some g \<Rightarrow> g)\<rparr>))"

definition classify_receipt ::
  "(string \<Rightarrow> string) \<Rightarrow> 'a store_world \<Rightarrow> receipt_key \<Rightarrow> string \<Rightarrow> ('a handle, classification) op" where
  "classify_receipt sha W k digest =
     obind (read_consistent W (select_head (key_digest sha k))) (\<lambda>heads.
       case heads of
         [] \<Rightarrow> ret FirstSeen
       | h # _ \<Rightarrow>
           if hr_erased h \<noteq> 0 then lift (classify_erased h)
           else
             obind (read_consistent W (select_revision_by_digest (key_digest sha k) digest))
               (\<lambda>matches.
                 case matches of
                   r # _ \<Rightarrow> lift (classify_match h r)
                 | [] \<Rightarrow> lift (classify_changed h)))"

section \<open>The statements\<close>

definition seed_head ::
  "string \<Rightarrow> receipt_key \<Rightarrow> int option \<Rightarrow> int option \<Rightarrow> int \<Rightarrow> 'a sql" where
  "seed_head kd k retain tombstone now d =
     (if kd \<in> set (map hr_key_digest (rahi_receipt_head d)) then Inr (d, 0)
      else Inr (d\<lparr>rahi_receipt_head := rahi_receipt_head d @
        [\<lparr>hr_key_digest = kd, hr_tenant = rk_tenant k, hr_namespace = rk_namespace k,
          hr_key = Some (rk_key k), hr_key_kind = key_kind k, hr_revision = 0,
          hr_accepted_revision = None, hr_accepted_digest = None, hr_retain_until = retain,
          hr_tombstone_until = tombstone, hr_tombstoned = 0, hr_erased = 0, hr_erased_at = None,
          hr_created_at = now\<rparr>]\<rparr>, 1))"

definition seed_erased :: "string \<Rightarrow> int \<Rightarrow> 'a sql" where
  "seed_erased kd now d =
     (if kd \<in> set (map hr_key_digest (rahi_receipt_head d)) then Inr (d, 0)
      else Inr (d\<lparr>rahi_receipt_head := rahi_receipt_head d @
        [\<lparr>hr_key_digest = kd, hr_tenant = '''', hr_namespace = '''', hr_key = None,
          hr_key_kind = '''', hr_revision = 0, hr_accepted_revision = None,
          hr_accepted_digest = None, hr_retain_until = None, hr_tombstone_until = None,
          hr_tombstoned = 0, hr_erased = 1, hr_erased_at = Some now, hr_created_at = now\<rparr>]\<rparr>, 1))"

definition insert_revision ::
  "string \<Rightarrow> int \<Rightarrow> string \<Rightarrow> string \<Rightarrow> string option \<Rightarrow> int \<Rightarrow> 'a sql" where
  "insert_revision kd number digest disposition outcome now d =
     (if (kd, number) \<in> set (map (\<lambda>r. (rv_key_digest r, rv_revision r)) (rahi_receipt d))
      then Inl (unique_failed ''rahi_receipt.key_digest, rahi_receipt.revision'')
      else Inr (d\<lparr>rahi_receipt := rahi_receipt d @
        [\<lparr>rv_key_digest = kd, rv_revision = number, rv_digest = digest, rv_disposition = disposition,
          rv_outcome = outcome, rv_seen_count = Some 1, rv_last_seen_at = Some now,
          rv_created_at = now\<rparr>]\<rparr>, 1))"

definition head_open :: "int \<Rightarrow> head_row \<Rightarrow> bool" where
  "head_open expected h \<longleftrightarrow> hr_revision h = expected \<and> hr_erased h = 0"

text \<open>
  A head row the guard matches but whose revision is not the expected one, or which is erased, gets
  \<^verbatim>\<open>NULL\<close> in its \<^verbatim>\<open>NOT NULL\<close> revision, which aborts the batch. A guard that matches no row passes.
\<close>

definition guard_head :: "string \<Rightarrow> int \<Rightarrow> (head_row \<Rightarrow> head_row) \<Rightarrow> 'a sql" where
  "guard_head kd expected f d =
     (if \<exists>h \<in> set (rahi_receipt_head d). hr_key_digest h = kd \<and> \<not> head_open expected h
      then Inl (not_null_failed ''rahi_receipt_head.revision'')
      else Inr (d\<lparr>rahi_receipt_head :=
                   update_rows (\<lambda>h. hr_key_digest h = kd) f (rahi_receipt_head d)\<rparr>,
                matched (\<lambda>h. hr_key_digest h = kd) (rahi_receipt_head d)))"

definition guard_accept ::
  "int \<Rightarrow> int \<Rightarrow> string \<Rightarrow> string \<Rightarrow> string \<Rightarrow> int option \<Rightarrow> int option \<Rightarrow> 'a sql" where
  "guard_accept expected after digest kd key retain tombstone =
     guard_head kd expected
       (\<lambda>h. h\<lparr>hr_revision := after, hr_accepted_revision := Some after,
          hr_accepted_digest := Some digest, hr_tombstoned := 0, hr_key := Some key,
          hr_retain_until := retain, hr_tombstone_until := tombstone\<rparr>)"

definition guard_collision ::
  "int \<Rightarrow> int \<Rightarrow> string \<Rightarrow> string \<Rightarrow> int option \<Rightarrow> int option \<Rightarrow> 'a sql" where
  "guard_collision expected after kd key retain tombstone =
     guard_head kd expected
       (\<lambda>h. h\<lparr>hr_revision := after, hr_tombstoned := 0, hr_key := Some key,
          hr_retain_until := retain, hr_tombstone_until := tombstone\<rparr>)"

definition touch_seen :: "int \<Rightarrow> string \<Rightarrow> int \<Rightarrow> 'a sql" where
  "touch_seen now kd number d =
     (let p = (\<lambda>r. rv_key_digest r = kd \<and> rv_revision r = number)
      in Inr (d\<lparr>rahi_receipt := update_rows p
                (\<lambda>r. r\<lparr>rv_seen_count :=
                    Some ((case rv_seen_count r of None \<Rightarrow> 0 | Some n \<Rightarrow> n) + 1),
                  rv_last_seen_at := Some now\<rparr>) (rahi_receipt d)\<rparr>,
              matched p (rahi_receipt d)))"

section \<open>Staging\<close>

record receipt_meta =
  rm_retain_until :: "u64 option"
  rm_tombstone_until :: "u64 option"
  rm_outcome :: "string option"

definition meta_check :: "receipt_meta \<Rightarrow> error + unit" where
  "meta_check m =
     (case rm_outcome m of
        None \<Rightarrow> Inr ()
      | Some x \<Rightarrow>
          if MAX_OUTCOME_BYTES < length x then Inl (Validation ''a receipt outcome is too long'')
          else Inr ())"

definition stage_first ::
  "(string \<Rightarrow> string) \<Rightarrow> 'a sql list \<Rightarrow> receipt_key \<Rightarrow> string \<Rightarrow> receipt_meta \<Rightarrow> u64 \<Rightarrow>
     error + 'a sql list" where
  "stage_first sha txn k digest m now =
     rbind (meta_check m) (\<lambda>_.
       let kd = key_digest sha k; retain = map_option u64_to_sql (rm_retain_until m);
           tombstone = map_option u64_to_sql (rm_tombstone_until m)
       in Inr (txn @
            [seed_head kd k retain tombstone (u64_to_sql now),
             guard_accept 0 1 digest kd (rk_key k) retain tombstone,
             insert_revision kd 1 digest ''accepted'' (rm_outcome m) (u64_to_sql now)]))"

definition stage_revision ::
  "(string \<Rightarrow> string) \<Rightarrow> 'a sql list \<Rightarrow> receipt_key \<Rightarrow> string \<Rightarrow> changed \<Rightarrow> receipt_meta \<Rightarrow> u64 \<Rightarrow>
     error + 'a sql list" where
  "stage_revision sha txn k digest c m now =
     rbind (meta_check m) (\<lambda>_.
       let kd = key_digest sha k; expected = uint (ch_head_revision c);
           retain = map_option u64_to_sql (rm_retain_until m);
           tombstone = map_option u64_to_sql (rm_tombstone_until m)
       in Inr (txn @
            [guard_accept expected (i64_succ expected) digest kd (rk_key k) retain tombstone,
             insert_revision kd (i64_succ expected) digest ''accepted'' (rm_outcome m)
               (u64_to_sql now)]))"

definition stage_collision ::
  "(string \<Rightarrow> string) \<Rightarrow> 'a sql list \<Rightarrow> receipt_key \<Rightarrow> string \<Rightarrow> changed \<Rightarrow> receipt_meta \<Rightarrow> u64 \<Rightarrow>
     error + 'a sql list" where
  "stage_collision sha txn k digest c m now =
     rbind (meta_check m) (\<lambda>_.
       let kd = key_digest sha k; expected = uint (ch_head_revision c);
           retain = map_option u64_to_sql (rm_retain_until m);
           tombstone = map_option u64_to_sql (rm_tombstone_until m)
       in Inr (txn @
            [guard_collision expected (i64_succ expected) kd (rk_key k) retain tombstone,
             insert_revision kd (i64_succ expected) digest ''collision'' (rm_outcome m)
               (u64_to_sql now)]))"

definition stage_seen ::
  "(string \<Rightarrow> string) \<Rightarrow> 'a sql list \<Rightarrow> receipt_key \<Rightarrow> u32 \<Rightarrow> u64 \<Rightarrow> 'a sql list" where
  "stage_seen sha txn k revision now =
     txn @ [touch_seen (u64_to_sql now) (key_digest sha k) (uint revision)]"

section \<open>Erasure\<close>

datatype erase_scope =
    EraseIdentity receipt_key
  | EraseNamespace string string
  | EraseTenant string

text \<open>The identities a predicate of \<^verbatim>\<open>erase_by_predicate\<close> selects, read when its statement runs.\<close>

definition erase_selects :: "(string \<Rightarrow> string) \<Rightarrow> erase_scope \<Rightarrow> 'a sdb \<Rightarrow> string \<Rightarrow> bool" where
  "erase_selects sha scope d kd =
     (case scope of
        EraseIdentity k \<Rightarrow> kd = key_digest sha k
      | EraseNamespace tenant namespace \<Rightarrow>
          (\<exists>h \<in> set (rahi_receipt_head d).
             hr_key_digest h = kd \<and> hr_tenant h = tenant \<and> hr_namespace h = namespace)
      | EraseTenant tenant \<Rightarrow>
          (\<exists>h \<in> set (rahi_receipt_head d). hr_key_digest h = kd \<and> hr_tenant h = tenant))"

definition erase_receipts :: "('a sdb \<Rightarrow> string \<Rightarrow> bool) \<Rightarrow> 'a sql" where
  "erase_receipts p d =
     Inr (d\<lparr>rahi_receipt := filter (\<lambda>r. \<not> p d (rv_key_digest r)) (rahi_receipt d)\<rparr>,
          matched (\<lambda>r. p d (rv_key_digest r)) (rahi_receipt d))"

definition erase_attempts :: "('a sdb \<Rightarrow> string \<Rightarrow> bool) \<Rightarrow> 'a sql" where
  "erase_attempts p d =
     Inr (d\<lparr>rahi_processing_attempt :=
            filter (\<lambda>r. \<not> p d (ar_key_digest r)) (rahi_processing_attempt d)\<rparr>,
          matched (\<lambda>r. p d (ar_key_digest r)) (rahi_processing_attempt d))"

definition erase_work :: "('a sdb \<Rightarrow> string \<Rightarrow> bool) \<Rightarrow> 'a sql" where
  "erase_work p d =
     Inr (d\<lparr>rahi_processing := filter (\<lambda>r. \<not> p d (wr_key_digest r)) (rahi_processing d)\<rparr>,
          matched (\<lambda>r. p d (wr_key_digest r)) (rahi_processing d))"

definition erase_heads :: "int \<Rightarrow> ('a sdb \<Rightarrow> string \<Rightarrow> bool) \<Rightarrow> 'a sql" where
  "erase_heads now p d =
     Inr (d\<lparr>rahi_receipt_head := update_rows (\<lambda>h. p d (hr_key_digest h))
              (\<lambda>h. h\<lparr>hr_key := None, hr_tenant := '''', hr_namespace := '''', hr_key_kind := '''',
                 hr_accepted_revision := None, hr_accepted_digest := None,
                 hr_retain_until := None, hr_tombstone_until := None, hr_tombstoned := 0,
                 hr_erased := 1, hr_erased_at := Some now\<rparr>) (rahi_receipt_head d)\<rparr>,
          matched (\<lambda>h. p d (hr_key_digest h)) (rahi_receipt_head d))"

definition erase_by_predicate :: "'a sql list \<Rightarrow> ('a sdb \<Rightarrow> string \<Rightarrow> bool) \<Rightarrow> int \<Rightarrow> 'a sql list" where
  "erase_by_predicate txn p now =
     txn @ [erase_receipts p, erase_attempts p, erase_work p, erase_heads now p]"

definition stage_erasure ::
  "(string \<Rightarrow> string) \<Rightarrow> 'a sql list \<Rightarrow> erase_scope \<Rightarrow> u64 \<Rightarrow> 'a sql list" where
  "stage_erasure sha txn scope now =
     (case scope of
        EraseIdentity k \<Rightarrow>
          erase_by_predicate (txn @ [seed_erased (key_digest sha k) (u64_to_sql now)])
            (erase_selects sha scope) (u64_to_sql now)
      | _ \<Rightarrow> erase_by_predicate txn (erase_selects sha scope) (u64_to_sql now))"

end
