(* ===== verification/Store_Work.thy ===== *)
theory Store_Work
  imports Store_Lease Store_Receipt
begin

text \<open>
  Work claims: \<^verbatim>\<open>crates/rahi-store/src/work.rs\<close>, all but the sweep. A processing identity has one row
  and a history of attempts; reservations claim rows under the queue's lease, and what a holder
  stages afterwards is guarded by the fence its claim minted. A hold is a number of seconds, a retry
  window a number of nanoseconds.
\<close>

definition MAX_DETAIL_BYTES :: nat where "MAX_DETAIL_BYTES = 2048"

section \<open>Keys, claims and policies\<close>

record processing_key =
  pk_receipt :: receipt_key
  pk_revision :: u32
  pk_processor :: string
  pk_processor_revision :: string

definition processing_key_new ::
  "receipt_key \<Rightarrow> u32 \<Rightarrow> string \<Rightarrow> string \<Rightarrow> error + processing_key" where
  "processing_key_new receipt revision processor processor_revision =
     (if processor = '''' then Inl (Validation ''a processing key's processor must not be empty'')
      else if processor_revision = ''''
      then Inl (Validation ''a processing key's processor_revision must not be empty'')
      else Inr \<lparr>pk_receipt = receipt, pk_revision = revision, pk_processor = processor,
        pk_processor_revision = processor_revision\<rparr>)"

definition queue_key :: "string \<Rightarrow> string \<Rightarrow> string" where
  "queue_key namespace processor = ''rahi.work/'' @ namespace @ ''/'' @ processor"

definition queue_lease_key :: "processing_key \<Rightarrow> string" where
  "queue_lease_key k = queue_key (rk_namespace (pk_receipt k)) (pk_processor k)"

record claim =
  cl_key :: processing_key
  cl_token :: u64
  cl_attempt :: u32
  cl_expires_at :: u64

record retry_policy =
  rp_max_attempts :: u32
  rp_base :: nat
  rp_cap :: nat

definition DURATION_MAX :: nat where
  "DURATION_MAX = (2 ^ 64 - 1) * 1000000000 + 999999999"

definition work_fnv1a :: "string \<Rightarrow> u32 \<Rightarrow> u64" where
  "work_fnv1a txt salt = fnv_fold (map of_char txt @ le_bytes (unat salt)) 0xcbf29ce484222325"

definition retry_window :: "retry_policy \<Rightarrow> u32 \<Rightarrow> nat" where
  "retry_window p attempt =
     min (min (rp_base p * 2 ^ min (unat attempt - 1) 16) DURATION_MAX) (rp_cap p)"

definition retry_backoff :: "retry_policy \<Rightarrow> string \<Rightarrow> u32 \<Rightarrow> nat" where
  "retry_backoff p kd attempt =
     (let half = retry_window p attempt div 2;
          spread = max (min (half div 1000) (2 ^ 64 - 1)) 1
      in half + unat (work_fnv1a kd attempt) mod spread * 1000)"

definition duration_secs :: "nat \<Rightarrow> u64" where
  "duration_secs nanos = of_nat (nanos div 1000000000)"

record failure_detail =
  fd_class :: string
  fd_detail :: "string option"

definition detail_check :: "failure_detail \<Rightarrow> error + unit" where
  "detail_check f =
     (case fd_detail f of
        None \<Rightarrow> Inr ()
      | Some x \<Rightarrow>
          if MAX_DETAIL_BYTES < length x then Inl (Validation ''a failure detail is too long'')
          else Inr ())"

section \<open>Rows\<close>

type_synonym row_id = "string \<times> int \<times> string \<times> string"

definition wr_id :: "work_row \<Rightarrow> row_id" where
  "wr_id r = (wr_key_digest r, wr_revision r, wr_processor r, wr_processor_revision r)"

definition ar_id :: "attempt_row \<Rightarrow> row_id" where
  "ar_id r = (ar_key_digest r, ar_revision r, ar_processor r, ar_processor_revision r)"

definition work_id :: "(string \<Rightarrow> string) \<Rightarrow> processing_key \<Rightarrow> row_id" where
  "work_id sha k =
     (key_digest sha (pk_receipt k), uint (pk_revision k), pk_processor k, pk_processor_revision k)"

definition due :: "int option \<Rightarrow> int \<Rightarrow> bool" where
  "due t now = (case t of None \<Rightarrow> False | Some x \<Rightarrow> x \<le> now)"

definition ahead :: "int option \<Rightarrow> int \<Rightarrow> bool" where
  "ahead t now = (case t of None \<Rightarrow> False | Some x \<Rightarrow> now < x)"

definition eligible :: "int \<Rightarrow> work_row \<Rightarrow> bool" where
  "eligible now r \<longleftrightarrow>
     wr_state r = Pending \<or> (wr_state r = Claimed \<and> due (wr_expires_at r) now) \<or>
     (wr_state r = Failed \<and> due (wr_next_attempt_at r) now)"

record candidate =
  cd_id :: row_id
  cd_tenant :: string
  cd_namespace :: string
  cd_key :: string
  cd_attempt :: int

definition candidate_of :: "work_row \<Rightarrow> candidate" where
  "candidate_of r = \<lparr>cd_id = wr_id r, cd_tenant = wr_tenant r, cd_namespace = wr_namespace r,
     cd_key = wr_key r, cd_attempt = wr_attempt r\<rparr>"

definition select_eligible_by_identity :: "row_id \<Rightarrow> int \<Rightarrow> 'a sdb \<Rightarrow> candidate list" where
  "select_eligible_by_identity i now d =
     map candidate_of (filter (\<lambda>r. wr_id r = i \<and> eligible now r) (rahi_processing d))"

definition select_eligible_by_queue ::
  "string \<Rightarrow> string \<Rightarrow> int \<Rightarrow> u32 \<Rightarrow> 'a sdb \<Rightarrow> candidate list" where
  "select_eligible_by_queue namespace processor now limit d =
     take (unat limit) (map candidate_of (sort_key wr_created_at
       (filter (\<lambda>r. wr_namespace r = namespace \<and> wr_processor r = processor \<and> eligible now r)
         (rahi_processing d))))"

section \<open>The statements\<close>

definition update_work :: "(work_row \<Rightarrow> bool) \<Rightarrow> (work_row \<Rightarrow> work_row) \<Rightarrow> 'a sql" where
  "update_work p f d =
     Inr (d\<lparr>rahi_processing := update_rows p f (rahi_processing d)\<rparr>, matched p (rahi_processing d))"

definition attempt_key :: "attempt_row \<Rightarrow> row_id \<times> int \<times> attempt_outcome" where
  "attempt_key r = (ar_id r, ar_attempt r, ar_outcome r)"

definition attempts_taken :: error where
  "attempts_taken = unique_failed ''rahi_processing_attempt''"

definition put_attempts :: "attempt_row list \<Rightarrow> nat \<Rightarrow> 'a sql" where
  "put_attempts rows n d =
     (if distinct (map attempt_key rows) then Inr (d\<lparr>rahi_processing_attempt := rows\<rparr>, n)
      else Inl attempts_taken)"

definition update_attempts :: "(attempt_row \<Rightarrow> bool) \<Rightarrow> (attempt_row \<Rightarrow> attempt_row) \<Rightarrow> 'a sql" where
  "update_attempts p f d =
     put_attempts (update_rows p f (rahi_processing_attempt d))
       (matched p (rahi_processing_attempt d)) d"

definition insert_attempts :: "attempt_row list \<Rightarrow> 'a sql" where
  "insert_attempts rows d =
     put_attempts (rahi_processing_attempt d @ rows) (length rows) d"

definition attempt_of :: "attempt_outcome \<Rightarrow> int \<Rightarrow> int option \<Rightarrow> work_row \<Rightarrow> attempt_row" where
  "attempt_of outcome started ended r =
     \<lparr>ar_key_digest = wr_key_digest r, ar_revision = wr_revision r,
      ar_processor = wr_processor r, ar_processor_revision = wr_processor_revision r,
      ar_attempt = wr_attempt r, ar_holder = wr_holder r, ar_outcome = outcome,
      ar_error_class = None, ar_detail = None, ar_started_at = started, ar_ended_at = ended\<rparr>"

definition new_work_row :: "(string \<Rightarrow> string) \<Rightarrow> processing_key \<Rightarrow> int \<Rightarrow> work_row" where
  "new_work_row sha k now =
     \<lparr>wr_key_digest = key_digest sha (pk_receipt k), wr_revision = uint (pk_revision k),
      wr_processor = pk_processor k, wr_processor_revision = pk_processor_revision k,
      wr_tenant = rk_tenant (pk_receipt k), wr_namespace = rk_namespace (pk_receipt k),
      wr_key = rk_key (pk_receipt k), wr_state = Pending, wr_holder = None, wr_fence = 0,
      wr_attempt = 0, wr_expires_at = None, wr_next_attempt_at = None, wr_created_at = now\<rparr>"

definition insert_work :: "(string \<Rightarrow> string) \<Rightarrow> processing_key \<Rightarrow> int \<Rightarrow> 'a sql" where
  "insert_work sha k now d =
     (if work_id sha k \<in> set (map wr_id (rahi_processing d)) then Inr (d, 0)
      else Inr (d\<lparr>rahi_processing := rahi_processing d @ [new_work_row sha k now]\<rparr>, 1))"

definition claim_row ::
  "string \<Rightarrow> int \<Rightarrow> int \<Rightarrow> row_id \<Rightarrow> int \<Rightarrow> int \<Rightarrow> int \<Rightarrow> 'a sql" where
  "claim_row holder expires attempt i old token now =
     update_work
       (\<lambda>r. wr_id r = i \<and> wr_attempt r = old \<and> wr_fence r \<le> token \<and> eligible now r)
       (\<lambda>r. r\<lparr>wr_state := Claimed, wr_holder := Some holder, wr_expires_at := Some expires,
          wr_attempt := attempt, wr_fence := token\<rparr>)"

definition close_prior_expired :: "int \<Rightarrow> row_id \<Rightarrow> int \<Rightarrow> int \<Rightarrow> int \<Rightarrow> 'a sql" where
  "close_prior_expired now i old attempt token d =
     update_attempts
       (\<lambda>a. ar_id a = i \<and> ar_attempt a = old \<and> ar_outcome a = Opened \<and>
          (\<exists>r \<in> set (rahi_processing d).
             wr_id r = i \<and> wr_attempt r = attempt \<and> wr_fence r = token \<and> wr_state r = Claimed))
       (\<lambda>a. a\<lparr>ar_outcome := Expired, ar_ended_at := Some now\<rparr>) d"

definition open_attempt :: "int \<Rightarrow> row_id \<Rightarrow> int \<Rightarrow> int \<Rightarrow> 'a sql" where
  "open_attempt now i attempt token d =
     insert_attempts
       (map (attempt_of Opened now None)
         (filter (\<lambda>r. wr_id r = i \<and> wr_attempt r = attempt \<and> wr_fence r = token \<and>
            wr_state r = Claimed) (rahi_processing d))) d"

definition holds_row :: "int \<Rightarrow> int \<Rightarrow> work_row \<Rightarrow> bool" where
  "holds_row token now r \<longleftrightarrow>
     wr_fence r = token \<and> wr_state r = Claimed \<and> ahead (wr_expires_at r) now"

definition guard_claim :: "int \<Rightarrow> int \<Rightarrow> row_id \<Rightarrow> 'a sql" where
  "guard_claim token now i d =
     (if \<exists>r \<in> set (rahi_processing d). wr_id r = i \<and> \<not> holds_row token now r
      then Inl (not_null_failed ''rahi_processing.fence'')
      else Inr (d, matched (\<lambda>r. wr_id r = i) (rahi_processing d)))"

definition complete_row :: "row_id \<Rightarrow> 'a sql" where
  "complete_row i = update_work (\<lambda>r. wr_id r = i) (\<lambda>r. r\<lparr>wr_state := Done\<rparr>)"

definition close_attempt_done :: "int \<Rightarrow> row_id \<Rightarrow> int \<Rightarrow> 'a sql" where
  "close_attempt_done now i attempt =
     update_attempts (\<lambda>a. ar_id a = i \<and> ar_attempt a = attempt \<and> ar_outcome a = Opened)
       (\<lambda>a. a\<lparr>ar_outcome := Finished, ar_ended_at := Some now\<rparr>)"

definition fail_row :: "int \<Rightarrow> row_id \<Rightarrow> 'a sql" where
  "fail_row next_at i =
     update_work (\<lambda>r. wr_id r = i) (\<lambda>r. r\<lparr>wr_state := Failed, wr_next_attempt_at := Some next_at\<rparr>)"

definition dead_row :: "row_id \<Rightarrow> 'a sql" where
  "dead_row i =
     update_work (\<lambda>r. wr_id r = i) (\<lambda>r. r\<lparr>wr_state := Dead, wr_next_attempt_at := None\<rparr>)"

definition close_attempt_failed ::
  "attempt_outcome \<Rightarrow> failure_detail \<Rightarrow> int \<Rightarrow> row_id \<Rightarrow> int \<Rightarrow> 'a sql" where
  "close_attempt_failed outcome f now i attempt =
     update_attempts (\<lambda>a. ar_id a = i \<and> ar_attempt a = attempt \<and> ar_outcome a = Opened)
       (\<lambda>a. a\<lparr>ar_outcome := outcome, ar_error_class := Some (fd_class f),
          ar_detail := fd_detail f, ar_ended_at := Some now\<rparr>)"

text \<open>
  \<^verbatim>\<open>RENEW_ROW\<close> as \<^verbatim>\<open>Statement::fenced\<close> rewrites it under \<open>token\<close>; the rewriting of the SQL text
  is not modelled.
\<close>

definition renew_row :: "int \<Rightarrow> row_id \<Rightarrow> int \<Rightarrow> int \<Rightarrow> int \<Rightarrow> 'a sql" where
  "renew_row expires i held now token =
     update_work
       (\<lambda>r. wr_id r = i \<and> wr_fence r = held \<and> wr_state r = Claimed \<and> ahead (wr_expires_at r) now \<and>
          wr_fence r \<le> token)
       (\<lambda>r. r\<lparr>wr_expires_at := Some expires, wr_fence := token\<rparr>)"

definition requeue_row :: "row_id \<Rightarrow> 'a sql" where
  "requeue_row i =
     update_work (\<lambda>r. wr_id r = i \<and> wr_state r = Dead)
       (\<lambda>r. r\<lparr>wr_state := Pending, wr_next_attempt_at := None\<rparr>)"

definition requeue_attempt :: "int \<Rightarrow> row_id \<Rightarrow> 'a sql" where
  "requeue_attempt now i d =
     insert_attempts
       (map (attempt_of Requeued now (Some now))
         (filter (\<lambda>r. wr_id r = i \<and> wr_state r = Dead) (rahi_processing d))) d"

section \<open>What a holder stages\<close>

definition stage_work ::
  "(string \<Rightarrow> string) \<Rightarrow> 'a sql list \<Rightarrow> processing_key \<Rightarrow> u64 \<Rightarrow> 'a sql list" where
  "stage_work sha txn k now = txn @ [insert_work sha k (u64_to_sql now)]"

definition work_guard :: "(string \<Rightarrow> string) \<Rightarrow> 'a sql list \<Rightarrow> claim \<Rightarrow> u64 \<Rightarrow> 'a sql list" where
  "work_guard sha txn c now =
     txn @ [guard_claim (u64_to_sql (cl_token c)) (u64_to_sql now) (work_id sha (cl_key c))]"

definition work_complete :: "(string \<Rightarrow> string) \<Rightarrow> 'a sql list \<Rightarrow> claim \<Rightarrow> u64 \<Rightarrow> 'a sql list" where
  "work_complete sha txn c now =
     work_guard sha txn c now @
       [complete_row (work_id sha (cl_key c)),
        close_attempt_done (u64_to_sql now) (work_id sha (cl_key c)) (uint (cl_attempt c))]"

definition work_fail ::
  "(string \<Rightarrow> string) \<Rightarrow> 'a sql list \<Rightarrow> claim \<Rightarrow> failure_detail \<Rightarrow> retry_policy \<Rightarrow> u64 \<Rightarrow>
     error + 'a sql list" where
  "work_fail sha txn c f p now =
     rbind (detail_check f) (\<lambda>_.
       let i = work_id sha (cl_key c);
           buried = rp_max_attempts p \<le> cl_attempt c;
           wait = retry_backoff p (key_digest sha (pk_receipt (cl_key c))) (cl_attempt c)
       in Inr (work_guard sha txn c now @
            [if buried then dead_row i
             else fail_row (u64_to_sql (u64_saturating_add now (duration_secs wait))) i,
             close_attempt_failed (if buried then Buried else Missed) f (u64_to_sql now) i
               (uint (cl_attempt c))]))"

definition work_requeue ::
  "(string \<Rightarrow> string) \<Rightarrow> 'a sql list \<Rightarrow> processing_key \<Rightarrow> u64 \<Rightarrow> 'a sql list" where
  "work_requeue sha txn k now =
     txn @ [requeue_attempt (u64_to_sql now) (work_id sha k), requeue_row (work_id sha k)]"

end
