(* ===== verification/Store_Claims.thy ===== *)
theory Store_Claims
  imports Store_Work
begin

text \<open>
  The calls of \<^verbatim>\<open>crates/rahi-store/src/work.rs\<close> that talk to the store themselves: \<open>work_reserve\<close>,
  \<open>work_next\<close>, \<open>work_renew\<close>, the readers \<open>work_dead\<close> and \<open>work_counts\<close>, and the four phases of
  \<open>work_sweep\<close>, each one guarded batch over rows that were read before.
\<close>

section \<open>Reserving\<close>

definition guarded_txn :: "'a store_world \<Rightarrow> lease \<Rightarrow> 'a sql list \<Rightarrow> ('a handle, nat list) op" where
  "guarded_txn W l stmts =
     obind (lift (guard_statement l)) (\<lambda>guard. behind_guard W l guard stmts)"

text \<open>Every way out of a call that took a lease hands it back, by \<^verbatim>\<open>release\<close> or by its \<^verbatim>\<open>Drop\<close>.\<close>

definition with_lease ::
  "'a store_world \<Rightarrow> string \<Rightarrow> (lease \<Rightarrow> ('a handle, 'r) op) \<Rightarrow> ('a handle, 'r) op" where
  "with_lease W key f =
     obind (take_lease W key) (\<lambda>l.
     on_result (f l) (\<lambda>r. obind (hand_back l) (\<lambda>_. lift r)))"

definition candidate_key :: "candidate \<Rightarrow> error + processing_key" where
  "candidate_key c =
     rbind (receipt_key_new (cd_tenant c) (cd_namespace c) (cd_key c)) (\<lambda>receipt.
     case cd_id c of (kd, revision, processor, processor_revision) \<Rightarrow>
     rbind (or_error (Integrity ''processing row holds an out-of-range revision'')
              (i64_to_u32 revision)) (\<lambda>rv.
       processing_key_new receipt rv processor processor_revision))"

definition to_attempt :: "int \<Rightarrow> error + u32" where
  "to_attempt raw =
     or_error (Integrity ''processing row holds an out-of-range attempt'') (i64_to_u32 raw)"

definition hold_until :: "u64 \<Rightarrow> u64 \<Rightarrow> u64" where
  "hold_until now hold_for = u64_saturating_add now hold_for"

definition claim_batch :: "lease \<Rightarrow> candidate \<Rightarrow> string \<Rightarrow> u64 \<Rightarrow> u64 \<Rightarrow> 'a sql list" where
  "claim_batch l c holder hold_for now =
     (let token = u64_to_sql (le_token l); old = cd_attempt c; attempt = i64_succ old
      in [claim_row holder (u64_to_sql (hold_until now hold_for)) attempt (cd_id c) old token
            (u64_to_sql now),
          close_prior_expired (u64_to_sql now) (cd_id c) old attempt token,
          open_attempt (u64_to_sql now) (cd_id c) attempt token])"

definition claim_answer ::
  "lease \<Rightarrow> candidate \<Rightarrow> u64 \<Rightarrow> u64 \<Rightarrow> nat list \<Rightarrow> error + claim option" where
  "claim_answer l c hold_for now results =
     (let claimed = (case results of [] \<Rightarrow> 0 | n # _ \<Rightarrow> n);
          opened = (if length results \<le> 2 then 0 else results ! 2)
      in if claimed = 0 \<and> opened = 0 then Inr None
         else if claimed = 1 \<and> opened = 1
         then rbind (candidate_key c) (\<lambda>k.
              rbind (to_attempt (i64_succ (cd_attempt c))) (\<lambda>n.
                Inr (Some \<lparr>cl_key = k, cl_token = le_token l, cl_attempt = n,
                  cl_expires_at = hold_until now hold_for\<rparr>)))
         else Inl (Integrity ''claiming a processing row changed an unexpected number of rows''))"

definition claim_candidate ::
  "'a store_world \<Rightarrow> lease \<Rightarrow> candidate \<Rightarrow> string \<Rightarrow> u64 \<Rightarrow> u64 \<Rightarrow> ('a handle, claim option) op" where
  "claim_candidate W l c holder hold_for now =
     obind (guarded_txn W l (claim_batch l c holder hold_for now))
       (\<lambda>results. lift (claim_answer l c hold_for now results))"

definition work_reserve ::
  "(string \<Rightarrow> string) \<Rightarrow> 'a store_world \<Rightarrow> processing_key \<Rightarrow> string \<Rightarrow> u64 \<Rightarrow> u64 \<Rightarrow>
     ('a handle, claim option) op" where
  "work_reserve sha W k holder hold_for now =
     with_lease W (queue_lease_key k) (\<lambda>l.
       obind (read_consistent W (select_eligible_by_identity (work_id sha k) (u64_to_sql now)))
         (\<lambda>candidates.
           case candidates of
             [] \<Rightarrow> ret None
           | c # _ \<Rightarrow> claim_candidate W l c holder hold_for now))"

fun claim_loop ::
  "'a store_world \<Rightarrow> lease \<Rightarrow> string \<Rightarrow> u64 \<Rightarrow> u64 \<Rightarrow> candidate list \<Rightarrow> ('a handle, claim list) op" where
  "claim_loop W l holder hold_for now [] = ret []"
| "claim_loop W l holder hold_for now (c # cs) =
     obind (claim_candidate W l c holder hold_for now) (\<lambda>r.
     obind (claim_loop W l holder hold_for now cs) (\<lambda>claims.
       ret (case r of None \<Rightarrow> claims | Some cl \<Rightarrow> cl # claims)))"

definition work_next ::
  "'a store_world \<Rightarrow> string \<Rightarrow> string \<Rightarrow> string \<Rightarrow> u64 \<Rightarrow> u64 \<Rightarrow> u32 \<Rightarrow> ('a handle, claim list) op" where
  "work_next W namespace processor holder hold_for now limit =
     (if limit = 0 then ret []
      else
        with_lease W (queue_key namespace processor) (\<lambda>l.
          obind (read_consistent W
                   (select_eligible_by_queue namespace processor (u64_to_sql now) limit))
            (\<lambda>candidates. claim_loop W l holder hold_for now candidates)))"

definition work_renew ::
  "(string \<Rightarrow> string) \<Rightarrow> 'a store_world \<Rightarrow> claim \<Rightarrow> u64 \<Rightarrow> u64 \<Rightarrow> ('a handle, claim) op" where
  "work_renew sha W c hold_for now =
     with_lease W (queue_lease_key (cl_key c)) (\<lambda>l.
       obind (fenced_txn W l
                [\<lambda>token. rbind (fence_literal token) (\<lambda>t.
                   Inr (renew_row (u64_to_sql (hold_until now hold_for)) (work_id sha (cl_key c))
                     (u64_to_sql (cl_token c)) (u64_to_sql now) t))])
         (\<lambda>results.
           if (case results of [] \<Rightarrow> 0 | n # _ \<Rightarrow> n) \<noteq> 1
           then fail (Conflict ''claim is no longer held'')
           else ret (c\<lparr>cl_token := le_token l, cl_expires_at := hold_until now hold_for\<rparr>)))"

section \<open>Reading the queue\<close>

record attempt_record =
  at_attempt :: u32
  at_outcome :: string
  at_error_class :: "string option"
  at_detail :: "string option"

record dead_item =
  di_key :: processing_key
  di_attempt :: u32
  di_attempts :: "attempt_record list"

record dead_filter =
  df_namespace :: "string option"
  df_processor :: "string option"

definition wanted :: "string option \<Rightarrow> string \<Rightarrow> bool" where
  "wanted f x = (case f of None \<Rightarrow> True | Some y \<Rightarrow> x = y)"

definition select_dead :: "dead_filter \<Rightarrow> 'a sdb \<Rightarrow> candidate list" where
  "select_dead f d =
     map candidate_of (sort_key wr_created_at
       (filter (\<lambda>r. wr_state r = Dead \<and> wanted (df_namespace f) (wr_namespace r) \<and>
          wanted (df_processor f) (wr_processor r)) (rahi_processing d)))"

definition select_attempts :: "row_id \<Rightarrow> 'a sdb \<Rightarrow> attempt_row list" where
  "select_attempts i d =
     sort_key ar_attempt (sort_key ar_started_at (sort_key (\<lambda>a. outcome_text (ar_outcome a))
       (filter (\<lambda>a. ar_id a = i) (rahi_processing_attempt d))))"

definition attempt_record_of :: "attempt_row \<Rightarrow> error + attempt_record" where
  "attempt_record_of a =
     rbind (to_attempt (ar_attempt a)) (\<lambda>n.
       Inr \<lparr>at_attempt = n, at_outcome = outcome_text (ar_outcome a),
         at_error_class = ar_error_class a, at_detail = ar_detail a\<rparr>)"

fun dead_loop :: "'a store_world \<Rightarrow> candidate list \<Rightarrow> ('a handle, dead_item list) op" where
  "dead_loop W [] = ret []"
| "dead_loop W (c # cs) =
     obind (lift (candidate_key c)) (\<lambda>k.
     obind (read_local W (select_attempts (cd_id c))) (\<lambda>rows.
     obind (lift (to_attempt (cd_attempt c))) (\<lambda>n.
     obind (lift (try_map attempt_record_of rows)) (\<lambda>history.
     obind (dead_loop W cs) (\<lambda>items.
       ret (\<lparr>di_key = k, di_attempt = n, di_attempts = history\<rparr> # items))))))"

definition work_dead ::
  "'a store_world \<Rightarrow> dead_filter \<Rightarrow> page \<Rightarrow> ('a handle, dead_item list) op" where
  "work_dead W f p = obind (query_paged W (select_dead f) p) (dead_loop W)"

record queue_counts =
  qc_processor :: string
  qc_pending :: nat
  qc_claimed :: nat
  qc_failed :: nat
  qc_dead :: nat

definition counted :: "work_row \<Rightarrow> bool" where
  "counted r \<longleftrightarrow> wr_state r \<in> {Pending, Claimed, Failed, Dead}"

definition count_rows :: "'a sdb \<Rightarrow> (string \<times> string \<times> nat) list" where
  "count_rows d =
     (let rs = filter counted (rahi_processing d)
      in map (\<lambda>(p, s). (p, state_text s, matched (\<lambda>r. wr_processor r = p \<and> wr_state r = s) rs))
           (remdups (map (\<lambda>r. (wr_processor r, wr_state r)) rs)))"

definition no_counts :: "string \<Rightarrow> queue_counts" where
  "no_counts p = \<lparr>qc_processor = p, qc_pending = 0, qc_claimed = 0, qc_failed = 0, qc_dead = 0\<rparr>"

definition set_count :: "string \<Rightarrow> nat \<Rightarrow> queue_counts \<Rightarrow> queue_counts" where
  "set_count state n c =
     (if state = ''pending'' then c\<lparr>qc_pending := n\<rparr>
      else if state = ''claimed'' then c\<lparr>qc_claimed := n\<rparr>
      else if state = ''failed'' then c\<lparr>qc_failed := n\<rparr>
      else if state = ''dead'' then c\<lparr>qc_dead := n\<rparr>
      else c)"

fun insert_count :: "string \<times> string \<times> nat \<Rightarrow> queue_counts list \<Rightarrow> queue_counts list" where
  "insert_count (p, s, n) [] = [set_count s n (no_counts p)]"
| "insert_count (p, s, n) (c # cs) =
     (if p = qc_processor c then set_count s n c # cs
      else if p < qc_processor c then set_count s n (no_counts p) # c # cs
      else c # insert_count (p, s, n) cs)"

definition work_counts :: "'a store_world \<Rightarrow> ('a handle, queue_counts list) op" where
  "work_counts W = obind (read_local W count_rows) (\<lambda>rows. ret (fold insert_count rows []))"

text \<open>
  \<^verbatim>\<open>Work::sweep\<close>: expired claims are closed, spent failures promoted to the dead letter, receipts
  past retention compacted to tombstones, and tombstones past their own horizon deleted. Each phase
  reads a page from the local replica and submits one batch behind the sweep lease's guard; every
  statement checks again, inside the batch, the condition its row was read under.
\<close>

record sweep_report =
  sr_expired :: nat
  sr_dead :: nat
  sr_compacted :: nat
  sr_tombstones_deleted :: nat

definition no_sweep :: sweep_report where
  "no_sweep = \<lparr>sr_expired = 0, sr_dead = 0, sr_compacted = 0, sr_tombstones_deleted = 0\<rparr>"

section \<open>What each phase reads\<close>

definition select_expired :: "string \<Rightarrow> int \<Rightarrow> 'a sdb \<Rightarrow> (row_id \<times> int) list" where
  "select_expired namespace now d =
     map (\<lambda>r. (wr_id r, wr_attempt r)) (sort_key wr_created_at
       (filter (\<lambda>r. wr_namespace r = namespace \<and> wr_state r = Claimed \<and> due (wr_expires_at r) now)
         (rahi_processing d)))"

definition select_spent :: "string \<Rightarrow> int \<Rightarrow> 'a sdb \<Rightarrow> (row_id \<times> int) list" where
  "select_spent namespace max_attempts d =
     map (\<lambda>r. (wr_id r, wr_attempt r)) (sort_key wr_created_at
       (filter (\<lambda>r. wr_namespace r = namespace \<and> wr_state r = Failed \<and> max_attempts \<le> wr_attempt r)
         (rahi_processing d)))"

definition work_open :: "string \<Rightarrow> 'a sdb \<Rightarrow> bool" where
  "work_open kd d \<longleftrightarrow>
     (\<exists>r \<in> set (rahi_processing d). wr_key_digest r = kd \<and> wr_state r \<notin> {Done, Dead})"

definition compactable :: "int \<Rightarrow> 'a sdb \<Rightarrow> head_row \<Rightarrow> bool" where
  "compactable now d h \<longleftrightarrow>
     hr_tombstoned h = 0 \<and> hr_erased h = 0 \<and> due (hr_retain_until h) now \<and>
     \<not> work_open (hr_key_digest h) d"

definition deletable :: "int \<Rightarrow> head_row \<Rightarrow> bool" where
  "deletable now h \<longleftrightarrow> hr_tombstoned h = 1 \<and> hr_erased h = 0 \<and> due (hr_tombstone_until h) now"

definition select_compactable :: "string \<Rightarrow> int \<Rightarrow> 'a sdb \<Rightarrow> string list" where
  "select_compactable namespace now d =
     sort (map hr_key_digest
       (filter (\<lambda>h. hr_namespace h = namespace \<and> compactable now d h) (rahi_receipt_head d)))"

definition select_deletable :: "string \<Rightarrow> int \<Rightarrow> 'a sdb \<Rightarrow> string list" where
  "select_deletable namespace now d =
     sort (map hr_key_digest
       (filter (\<lambda>h. hr_namespace h = namespace \<and> deletable now h) (rahi_receipt_head d)))"

section \<open>The statements\<close>

definition bury_expired :: "row_id \<Rightarrow> int \<Rightarrow> int \<Rightarrow> int \<Rightarrow> 'a sql" where
  "bury_expired i attempt max_attempts now =
     update_work
       (\<lambda>r. wr_id r = i \<and> wr_attempt r = attempt \<and> max_attempts \<le> wr_attempt r \<and>
          wr_state r = Claimed \<and> due (wr_expires_at r) now)
       (\<lambda>r. r\<lparr>wr_state := Dead, wr_next_attempt_at := None\<rparr>)"

definition close_expired :: "int \<Rightarrow> row_id \<Rightarrow> int \<Rightarrow> 'a sql" where
  "close_expired now i attempt d =
     update_attempts
       (\<lambda>a. ar_id a = i \<and> ar_attempt a = attempt \<and> ar_outcome a = Opened \<and>
          (\<exists>r \<in> set (rahi_processing d). wr_id r = i \<and> wr_attempt r = attempt \<and>
             (wr_state r = Dead \<or> (wr_state r = Claimed \<and> due (wr_expires_at r) now))))
       (\<lambda>a. a\<lparr>ar_outcome := Expired, ar_ended_at := Some now\<rparr>) d"

definition bury_spent :: "row_id \<Rightarrow> int \<Rightarrow> 'a sql" where
  "bury_spent i max_attempts =
     update_work (\<lambda>r. wr_id r = i \<and> wr_state r = Failed \<and> max_attempts \<le> wr_attempt r)
       (\<lambda>r. r\<lparr>wr_state := Dead, wr_next_attempt_at := None\<rparr>)"

definition compact_head :: "string \<Rightarrow> int \<Rightarrow> 'a sql" where
  "compact_head kd now d =
     (let p = (\<lambda>h. hr_key_digest h = kd \<and> compactable now d h)
      in Inr (d\<lparr>rahi_receipt_head := update_rows p (\<lambda>h. h\<lparr>hr_key := None, hr_tombstoned := 1\<rparr>)
                 (rahi_receipt_head d)\<rparr>,
              matched p (rahi_receipt_head d)))"

definition is_tombstone :: "string \<Rightarrow> 'a sdb \<Rightarrow> bool" where
  "is_tombstone kd d \<longleftrightarrow>
     (\<exists>h \<in> set (rahi_receipt_head d). hr_key_digest h = kd \<and> hr_tombstoned h = 1 \<and> hr_erased h = 0)"

definition compact_attempts :: "string \<Rightarrow> 'a sql" where
  "compact_attempts kd = erase_attempts (\<lambda>d x. x = kd \<and> is_tombstone kd d)"

definition compact_work :: "string \<Rightarrow> 'a sql" where
  "compact_work kd = erase_work (\<lambda>d x. x = kd \<and> is_tombstone kd d)"

definition compact_receipts :: "string \<Rightarrow> 'a sql" where
  "compact_receipts kd d =
     (let p = (\<lambda>r. rv_key_digest r = kd \<and> is_tombstone kd d)
      in Inr (d\<lparr>rahi_receipt := update_rows p
                 (\<lambda>r. r\<lparr>rv_outcome := None, rv_seen_count := None, rv_last_seen_at := None\<rparr>)
                 (rahi_receipt d)\<rparr>,
              matched p (rahi_receipt d)))"

definition delete_revisions :: "string \<Rightarrow> int \<Rightarrow> 'a sql" where
  "delete_revisions kd now =
     erase_receipts (\<lambda>d x. x = kd \<and>
       (\<exists>h \<in> set (rahi_receipt_head d). hr_key_digest h = kd \<and> deletable now h))"

definition delete_head :: "string \<Rightarrow> int \<Rightarrow> 'a sql" where
  "delete_head kd now d =
     (let p = (\<lambda>h. hr_key_digest h = kd \<and> deletable now h)
      in Inr (d\<lparr>rahi_receipt_head := filter (\<lambda>h. \<not> p h) (rahi_receipt_head d)\<rparr>,
              matched p (rahi_receipt_head d)))"

section \<open>The phases\<close>

definition expired_pair :: "int \<Rightarrow> int \<Rightarrow> row_id \<times> int \<Rightarrow> 'a sql list" where
  "expired_pair max_attempts now c =
     (case c of (i, n) \<Rightarrow> [bury_expired i n max_attempts now, close_expired now i n])"

definition compact_four :: "int \<Rightarrow> string \<Rightarrow> 'a sql list" where
  "compact_four now kd =
     [compact_head kd now, compact_attempts kd, compact_work kd, compact_receipts kd]"

definition delete_pair :: "int \<Rightarrow> string \<Rightarrow> 'a sql list" where
  "delete_pair now kd = [delete_revisions kd now, delete_head kd now]"

text \<open>\<^verbatim>\<open>results.chunks(n)\<close>, and the sum of each chunk's element at \<open>k\<close>.\<close>

fun chunks :: "nat \<Rightarrow> 'r list \<Rightarrow> 'r list list" where
  "chunks n [] = []"
| "chunks n (x # xs) = (if n = 0 then [] else take n (x # xs) # chunks n (drop (n - 1) xs))"

definition sum_at :: "nat \<Rightarrow> nat list list \<Rightarrow> nat" where
  "sum_at k cs = sum_list (map (\<lambda>c. if k < length c then c ! k else 0) cs)"

definition sweep_phase ::
  "'a store_world \<Rightarrow> lease \<Rightarrow> u32 \<Rightarrow> ('a sdb \<Rightarrow> 'r list) \<Rightarrow> ('r \<Rightarrow> 'a sql list) \<Rightarrow>
     (nat list \<Rightarrow> sweep_report \<Rightarrow> sweep_report) \<Rightarrow> sweep_report \<Rightarrow> ('a handle, sweep_report) op" where
  "sweep_phase W l limit q stmts tally report =
     obind (query_paged W q (page_new (max limit 1))) (\<lambda>rows.
       if rows = [] then ret report
       else
         obind (guarded_txn W l (concat (map stmts rows))) (\<lambda>results.
           ret (tally results report)))"

definition tally_expired :: "nat list \<Rightarrow> sweep_report \<Rightarrow> sweep_report" where
  "tally_expired ns r =
     r\<lparr>sr_dead := sr_dead r + sum_at 0 (filter (\<lambda>c. length c = 2) (chunks 2 ns)),
       sr_expired := sr_expired r + sum_at 1 (filter (\<lambda>c. length c = 2) (chunks 2 ns))\<rparr>"

definition tally_spent :: "nat list \<Rightarrow> sweep_report \<Rightarrow> sweep_report" where
  "tally_spent ns r = r\<lparr>sr_dead := sr_dead r + sum_list ns\<rparr>"

definition tally_compacted :: "nat list \<Rightarrow> sweep_report \<Rightarrow> sweep_report" where
  "tally_compacted ns r = r\<lparr>sr_compacted := sr_compacted r + sum_at 0 (chunks 4 ns)\<rparr>"

definition tally_deleted :: "nat list \<Rightarrow> sweep_report \<Rightarrow> sweep_report" where
  "tally_deleted ns r = r\<lparr>sr_tombstones_deleted := sr_tombstones_deleted r + sum_at 1 (chunks 2 ns)\<rparr>"

definition sweep_chunks ::
  "'a store_world \<Rightarrow> lease \<Rightarrow> string \<Rightarrow> retry_policy \<Rightarrow> u64 \<Rightarrow> u32 \<Rightarrow> ('a handle, sweep_report) op" where
  "sweep_chunks W l namespace policy now limit =
     (let t = u64_to_sql now; m = uint (rp_max_attempts policy)
      in obind (sweep_phase W l limit (select_expired namespace t) (expired_pair m t)
                 tally_expired no_sweep) (\<lambda>r1.
         obind (sweep_phase W l limit (select_spent namespace m) (\<lambda>(i, _). [bury_spent i m])
                 tally_spent r1) (\<lambda>r2.
         obind (sweep_phase W l limit (select_compactable namespace t) (compact_four t)
                 tally_compacted r2) (\<lambda>r3.
           sweep_phase W l limit (select_deletable namespace t) (delete_pair t)
             tally_deleted r3))))"

definition work_sweep ::
  "'a store_world \<Rightarrow> string \<Rightarrow> retry_policy \<Rightarrow> u64 \<Rightarrow> u32 \<Rightarrow> ('a handle, sweep_report) op" where
  "work_sweep W namespace policy now limit =
     with_lease W (''rahi.work.sweep/'' @ namespace)
       (\<lambda>l. sweep_chunks W l namespace policy now limit)"

end
