(* ===== verification/Store_Outbox.thy ===== *)
theory Store_Outbox
  imports Store_Handle
begin

text \<open>
  The outbox and the watermark: \<^verbatim>\<open>crates/rahi-store/src/outbox.rs\<close> and \<^verbatim>\<open>watermark.rs\<close>. An envelope
  is staged as a row in the caller's batch and published later, in id order, at least once. The
  publisher of \<^verbatim>\<open>notify.rs\<close> is a parameter: what it answers for the n-th envelope it is given. A
  stamped table of the application is its \<^verbatim>\<open>revision\<close> column.
\<close>

section \<open>Staging and draining\<close>

record envelope =
  en_kind :: string
  en_tenant :: "string option"
  en_name :: string
  en_revision :: u64

definition insert_outbox :: "envelope \<Rightarrow> 'a sql" where
  "insert_outbox e d =
     Inr (d\<lparr>outbox_sequence := outbox_sequence d + 1,
            outbox := outbox d @
              [\<lparr>ob_id = outbox_sequence d + 1, ob_kind = en_kind e, ob_tenant = en_tenant e,
                ob_name = en_name e, ob_revision = u64_to_sql (en_revision e)\<rparr>]\<rparr>, 1)"

definition outbox_stage :: "'a sql list \<Rightarrow> envelope \<Rightarrow> 'a sql list" where
  "outbox_stage txn e = txn @ [insert_outbox e]"

definition delete_outbox :: "int list \<Rightarrow> 'a sql" where
  "delete_outbox ids d =
     Inr (d\<lparr>outbox := filter (\<lambda>r. ob_id r \<notin> set ids) (outbox d)\<rparr>,
          matched (\<lambda>r. ob_id r \<in> set ids) (outbox d))"

definition select_outbox :: "nat \<Rightarrow> 'a sdb \<Rightarrow> outbox_row list" where
  "select_outbox limit d = take limit (sort_key ob_id (outbox d))"

definition outbox_envelope :: "outbox_row \<Rightarrow> error + envelope" where
  "outbox_envelope r =
     rbind (or_error (Integrity ''outbox row holds a negative revision'') (i64_to_u64 (ob_revision r)))
       (\<lambda>v. Inr \<lparr>en_kind = ob_kind r, en_tenant = ob_tenant r, en_name = ob_name r, en_revision = v\<rparr>)"

text \<open>The publishing loop: the envelopes that went out, and the ids or the first error.\<close>

fun publish_loop ::
  "(nat \<Rightarrow> error option) \<Rightarrow> outbox_row list \<Rightarrow> envelope list \<Rightarrow> envelope list \<times> (error + unit)" where
  "publish_loop notify [] sent = (sent, Inr ())"
| "publish_loop notify (r # rs) sent =
     (case outbox_envelope r of
        Inl e \<Rightarrow> (sent, Inl e)
      | Inr v \<Rightarrow>
          (case notify (length sent) of
             Some e \<Rightarrow> (sent, Inl e)
           | None \<Rightarrow> publish_loop notify rs (sent @ [v])))"

definition outbox_drain ::
  "(nat \<Rightarrow> error option) \<Rightarrow> 'a store_world \<Rightarrow> nat \<Rightarrow> ('a handle, envelope list \<times> (error + nat)) op" where
  "outbox_drain notify W batch_size =
     (if batch_size = 0
      then ret ([], Inl (Validation ''outbox drain needs a batch size of at least one''))
      else if i64_max < int batch_size
      then ret ([], Inl (Validation ''outbox batch size exceeds i64''))
      else
        on_result (read_consistent W (select_outbox batch_size)) (\<lambda>rows.
          case rows of
            Inl e \<Rightarrow> ret ([], Inl e)
          | Inr [] \<Rightarrow> ret ([], Inr 0)
          | Inr (r # rs) \<Rightarrow>
              (case publish_loop notify (r # rs) [] of
                 (sent, Inl e) \<Rightarrow> ret (sent, Inl e)
               | (sent, Inr _) \<Rightarrow>
                   on_result (submit W [delete_outbox (map ob_id (r # rs))]) (\<lambda>deleted.
                     ret (sent, (case deleted of Inl e \<Rightarrow> Inl e | Inr _ \<Rightarrow> Inr (length (r # rs))))))))"

section \<open>The watermark\<close>

definition plain_start :: "char \<Rightarrow> bool" where
  "plain_start c = (ascii_lower c \<or> ascii_upper c \<or> c = CHR ''_'')"

definition plain_char :: "char \<Rightarrow> bool" where
  "plain_char c = (plain_start c \<or> ascii_digit c)"

definition plain_identifier :: "string \<Rightarrow> error + string" where
  "plain_identifier table =
     (case table of
        [] \<Rightarrow> Inl (Validation ''not a plain SQL identifier'')
      | c # cs \<Rightarrow>
          if \<not> plain_start c \<or> \<not> list_all plain_char cs \<or> 64 < length table
          then Inl (Validation ''not a plain SQL identifier'') else Inr table)"

definition max_revision :: "int list \<Rightarrow> int" where
  "max_revision rs = (case rs of [] \<Rightarrow> 0 | r # rest \<Rightarrow> fold max rest r)"

definition stamp_revisions :: "int list \<Rightarrow> int list" where
  "stamp_revisions rs = map (\<lambda>r. if r = 0 then max_revision rs + 1 else r) rs"

definition revisions_since :: "int list \<Rightarrow> u64 \<Rightarrow> error + u64 list" where
  "revisions_since rs after =
     (if i64_max < uint after then Inl (Validation ''revision exceeds i64'')
      else try_map (\<lambda>r. or_error (Integrity ''table holds a negative revision'') (i64_to_u64 r))
             (sort (remdups (filter (\<lambda>r. uint after < r) rs))))"

end
