(* ===== verification/Work_System.thy ===== *)
theory Work_System
  imports Store_Claims Store_Outbox
begin

text \<open>
  Every process of the cluster at once. A task is a call of \<^verbatim>\<open>work.rs\<close> between two of its requests:
  it has bumped a key's token and not read it, it holds a lease, or it works through the candidates
  it read. Claims, once returned, are held for ever: a zombie keeps its claim. \<open>cluster_step\<close> is one
  request of one of them, or one batch an application built from the staging calls and the sweep's
  phases. The lock of \<^verbatim>\<open>hiqlite\<close> is the premise of the bump: nobody else is between bump and read.
\<close>

datatype task =
    Bumped string
  | Holding lease
  | Claiming lease "candidate list"

record 'a cluster =
  cs_db :: "'a sdb"
  cs_tasks :: "task list"
  cs_claims :: "claim list"

text \<open>A Rust string is shorter than \<^verbatim>\<open>isize::MAX\<close>, so its length prefix never wraps.\<close>

definition short_key :: "receipt_key \<Rightarrow> bool" where
  "short_key k \<longleftrightarrow>
     length (rk_tenant k) < 2 ^ 63 \<and> length (rk_namespace k) < 2 ^ 63 \<and> length (rk_key k) < 2 ^ 63"

section \<open>Batches\<close>

inductive staged :: "(string \<Rightarrow> string) \<Rightarrow> claim list \<Rightarrow> 'a sql list \<Rightarrow> bool"
  for sha :: "string \<Rightarrow> string" and claims :: "claim list" where
  staged_app: "staged sha claims [app_sql f]"
| staged_outbox: "staged sha claims (outbox_stage [] e)"
| staged_drained: "staged sha claims [delete_outbox ids]"
| staged_first: "stage_first sha [] k g m now = Inr ss \<Longrightarrow> staged sha claims ss"
| staged_revision: "stage_revision sha [] k g c m now = Inr ss \<Longrightarrow> staged sha claims ss"
| staged_collision: "stage_collision sha [] k g c m now = Inr ss \<Longrightarrow> staged sha claims ss"
| staged_seen: "staged sha claims (stage_seen sha [] k n now)"
| staged_erasure: "staged sha claims (stage_erasure sha [] scope now)"
| staged_work: "short_key (pk_receipt pk) \<Longrightarrow> staged sha claims (stage_work sha [] pk now)"
| staged_guard: "cl \<in> set claims \<Longrightarrow> staged sha claims (work_guard sha [] cl now)"
| staged_complete: "cl \<in> set claims \<Longrightarrow> staged sha claims (work_complete sha [] cl now)"
| staged_fail:
    "cl \<in> set claims \<Longrightarrow> work_fail sha [] cl f p now = Inr ss \<Longrightarrow> staged sha claims ss"
| staged_requeue: "staged sha claims (work_requeue sha [] pk now)"
| staged_lease: "staged sha claims [guard_lease token key]"
| staged_expired: "staged sha claims (expired_pair m t c)"
| staged_spent: "staged sha claims [bury_spent i m]"
| staged_compact: "staged sha claims (compact_four t kd)"
| staged_delete: "staged sha claims (delete_pair t kd)"

section \<open>Steps\<close>

definition lease_of_task :: "task \<Rightarrow> lease option" where
  "lease_of_task t =
     (case t of Bumped _ \<Rightarrow> None | Holding l \<Rightarrow> Some l | Claiming l _ \<Rightarrow> Some l)"

definition claimed_by :: "lease \<Rightarrow> candidate \<Rightarrow> u64 \<Rightarrow> u64 \<Rightarrow> nat list \<Rightarrow> claim list" where
  "claimed_by l c hold_for now ns =
     (case claim_answer l c hold_for now ns of Inr (Some cl) \<Rightarrow> [cl] | _ \<Rightarrow> [])"

definition renewed_by :: "lease \<Rightarrow> claim \<Rightarrow> u64 \<Rightarrow> u64 \<Rightarrow> nat \<Rightarrow> claim list" where
  "renewed_by l c hold_for now n =
     (if n = 1 then [c\<lparr>cl_token := le_token l, cl_expires_at := hold_until now hold_for\<rparr>] else [])"

inductive cluster_step :: "(string \<Rightarrow> string) \<Rightarrow> 'a cluster \<Rightarrow> 'a cluster \<Rightarrow> bool"
  for sha :: "string \<Rightarrow> string" where
  step_bump:
    "Bumped key \<notin> set (cs_tasks C) \<Longrightarrow> bump_fence key (cs_db C) = Inr (d, n) \<Longrightarrow>
     cluster_step sha C (C\<lparr>cs_db := d, cs_tasks := Bumped key # cs_tasks C\<rparr>)"
| step_token:
    "cs_tasks C = ts @ Bumped key # us \<Longrightarrow> select_token key (cs_db C) = raw # rest \<Longrightarrow>
     raw \<le> i64_max \<Longrightarrow> i64_to_u64 raw = Some t \<Longrightarrow>
     cluster_step sha C
       (C\<lparr>cs_tasks := ts @ Holding \<lparr>le_key = key, le_token = t\<rparr> # us\<rparr>)"
| step_read_identity:
    "cs_tasks C = ts @ Holding l # us \<Longrightarrow> short_key (pk_receipt k) \<Longrightarrow>
     le_key l = queue_lease_key k \<Longrightarrow>
     cs = take 1 (answer keep (select_eligible_by_identity (work_id sha k) now (cs_db C))) \<Longrightarrow>
     cluster_step sha C (C\<lparr>cs_tasks := ts @ Claiming l cs # us\<rparr>)"
| step_read_queue:
    "cs_tasks C = ts @ Holding l # us \<Longrightarrow> le_key l = queue_key namespace processor \<Longrightarrow>
     cs = answer keep (select_eligible_by_queue namespace processor now limit (cs_db C)) \<Longrightarrow>
     cluster_step sha C (C\<lparr>cs_tasks := ts @ Claiming l cs # us\<rparr>)"
| step_claim:
    "cs_tasks C = ts @ Claiming l (c # cs) # us \<Longrightarrow> guard_statement l = Inr g \<Longrightarrow>
     run_txn (g # claim_batch l c holder hold_for now) (cs_db C) = Inr (d, n # ns) \<Longrightarrow>
     won = [] \<or> won = claimed_by l c hold_for now ns \<Longrightarrow>
     cluster_step sha C
       (C\<lparr>cs_db := d, cs_tasks := ts @ Claiming l cs # us, cs_claims := won @ cs_claims C\<rparr>)"
| step_renew:
    "cs_tasks C = ts @ Holding l # us \<Longrightarrow> cl \<in> set (cs_claims C) \<Longrightarrow>
     le_key l = queue_lease_key (cl_key cl) \<Longrightarrow> guard_statement l = Inr g \<Longrightarrow>
     fence_literal (le_token l) = Inr t \<Longrightarrow>
     run_txn [g, renew_row (u64_to_sql (hold_until now hold_for)) (work_id sha (cl_key cl))
        (u64_to_sql (cl_token cl)) (u64_to_sql now) t] (cs_db C) = Inr (d, [m, n]) \<Longrightarrow>
     won = [] \<or> won = renewed_by l cl hold_for now n \<Longrightarrow>
     cluster_step sha C
       (C\<lparr>cs_db := d, cs_tasks := ts @ us, cs_claims := won @ cs_claims C\<rparr>)"
| step_batch:
    "\<forall>p \<in> set ps. staged sha (cs_claims C) p \<Longrightarrow> run_txn (concat ps) (cs_db C) = Inr (d, ns) \<Longrightarrow>
     cluster_step sha C (C\<lparr>cs_db := d\<rparr>)"
| step_forget:
    "cs_tasks C = ts @ t # us \<Longrightarrow> cluster_step sha C (C\<lparr>cs_tasks := ts @ us\<rparr>)"

abbreviation cluster_steps :: "(string \<Rightarrow> string) \<Rightarrow> 'a cluster \<Rightarrow> 'a cluster \<Rightarrow> bool" where
  "cluster_steps sha \<equiv> (cluster_step sha)\<^sup>*\<^sup>*"

definition empty_sdb :: "'a \<Rightarrow> 'a sdb" where
  "empty_sdb x = \<lparr>lease_fence = [], rahi_receipt_head = [], rahi_receipt = [],
     rahi_processing = [], rahi_processing_attempt = [], outbox = [], outbox_sequence = 0,
     app_tables = x\<rparr>"

definition cluster_start :: "'a \<Rightarrow> 'a cluster" where
  "cluster_start x = \<lparr>cs_db = empty_sdb x, cs_tasks = [], cs_claims = []\<rparr>"

end
