(* ===== verification/Work_Invariant.thy ===== *)
theory Work_Invariant
  imports Work_System
begin

text \<open>
  What a batch of staged statements may do to the processing rows: it keeps their primary key, and
  every row afterwards is new, or comes from one before with the same key, fence and attempt, not
  newly claimed, and done if that was done. No batch of this kind touches the fencing tokens.
\<close>

section \<open>Statements that leave the rows alone\<close>

definition same_work :: "'a sdb \<Rightarrow> 'a sdb \<Rightarrow> bool" where
  "same_work d d' \<longleftrightarrow> rahi_processing d' = rahi_processing d \<and> lease_fence d' = lease_fence d"

lemmas head_sql_defs =
  seed_head_def seed_erased_def guard_accept_def guard_collision_def guard_head_def erase_heads_def
  compact_head_def delete_head_def

lemmas receipt_sql_defs =
  insert_revision_def touch_seen_def erase_receipts_def compact_receipts_def delete_revisions_def

lemmas attempt_sql_defs =
  update_attempts_def insert_attempts_def put_attempts_def close_prior_expired_def open_attempt_def
  close_attempt_done_def close_attempt_failed_def requeue_attempt_def close_expired_def
  erase_attempts_def compact_attempts_def

lemmas work_sql_defs =
  claim_row_def complete_row_def fail_row_def dead_row_def renew_row_def requeue_row_def
  bury_expired_def bury_spent_def

lemmas other_sql_defs =
  app_sql_def insert_outbox_def delete_outbox_def guard_lease_def guard_claim_def

lemma same_work_heads:
  "seed_head kd k ru tu now d = Inr (d', n) \<Longrightarrow> same_work d d'"
  "seed_erased kd now d = Inr (d', n) \<Longrightarrow> same_work d d'"
  "guard_accept x y g kd key ru tu d = Inr (d', n) \<Longrightarrow> same_work d d'"
  "guard_collision x y kd key ru tu d = Inr (d', n) \<Longrightarrow> same_work d d'"
  "erase_heads now p d = Inr (d', n) \<Longrightarrow> same_work d d'"
  "compact_head kd now d = Inr (d', n) \<Longrightarrow> same_work d d'"
  "delete_head kd now d = Inr (d', n) \<Longrightarrow> same_work d d'"
  by (auto simp: head_sql_defs same_work_def Let_def split: if_splits)

lemma same_work_receipts:
  "insert_revision kd x g disp out now d = Inr (d', n) \<Longrightarrow> same_work d d'"
  "touch_seen now kd x d = Inr (d', n) \<Longrightarrow> same_work d d'"
  "erase_receipts p d = Inr (d', n) \<Longrightarrow> same_work d d'"
  "compact_receipts kd d = Inr (d', n) \<Longrightarrow> same_work d d'"
  "delete_revisions kd now d = Inr (d', n) \<Longrightarrow> same_work d d'"
  by (auto simp: receipt_sql_defs same_work_def Let_def split: if_splits)

lemma same_work_attempts:
  "close_attempt_done now i x d = Inr (d', n) \<Longrightarrow> same_work d d'"
  "close_attempt_failed oc f now i x d = Inr (d', n) \<Longrightarrow> same_work d d'"
  "requeue_attempt now i d = Inr (d', n) \<Longrightarrow> same_work d d'"
  "close_expired now i x d = Inr (d', n) \<Longrightarrow> same_work d d'"
  "close_prior_expired now i x y z d = Inr (d', n) \<Longrightarrow> same_work d d'"
  "open_attempt now i x y d = Inr (d', n) \<Longrightarrow> same_work d d'"
  "erase_attempts p d = Inr (d', n) \<Longrightarrow> same_work d d'"
  "compact_attempts kd d = Inr (d', n) \<Longrightarrow> same_work d d'"
  by (auto simp: attempt_sql_defs same_work_def split: if_splits)

lemma same_work_others:
  "app_sql f d = Inr (d', n) \<Longrightarrow> same_work d d'"
  "insert_outbox e d = Inr (d', n) \<Longrightarrow> same_work d d'"
  "delete_outbox ids d = Inr (d', n) \<Longrightarrow> same_work d d'"
  "guard_lease t key d = Inr (d', n) \<Longrightarrow> same_work d d'"
  "guard_claim t now i d = Inr (d', n) \<Longrightarrow> same_work d d'"
  by (auto simp: other_sql_defs same_work_def split: if_splits)

section \<open>The relation\<close>

definition came :: "work_row \<Rightarrow> work_row \<Rightarrow> bool" where
  "came r r' \<longleftrightarrow>
     wr_id r' = wr_id r \<and> wr_tenant r' = wr_tenant r \<and> wr_namespace r' = wr_namespace r \<and>
     wr_key r' = wr_key r \<and> wr_fence r' = wr_fence r \<and> wr_attempt r' = wr_attempt r \<and>
     (wr_state r' = Claimed \<longrightarrow> wr_state r = Claimed) \<and> (wr_state r = Done \<longrightarrow> wr_state r' = Done)"

definition row_key :: "work_row \<Rightarrow> receipt_key" where
  "row_key r = \<lparr>rk_tenant = wr_tenant r, rk_namespace = wr_namespace r, rk_key = wr_key r\<rparr>"

definition genuine :: "(string \<Rightarrow> string) \<Rightarrow> work_row \<Rightarrow> bool" where
  "genuine sha r \<longleftrightarrow> short_key (row_key r) \<and> wr_key_digest r = key_digest sha (row_key r)"

definition recent :: "(string \<Rightarrow> string) \<Rightarrow> work_row \<Rightarrow> bool" where
  "recent sha r \<longleftrightarrow> genuine sha r \<and> wr_fence r = 0 \<and> wr_attempt r = 0 \<and> wr_state r \<noteq> Claimed"

definition moves :: "(string \<Rightarrow> string) \<Rightarrow> 'a sdb \<Rightarrow> 'a sdb \<Rightarrow> bool" where
  "moves sha d d' \<longleftrightarrow>
     (\<forall>r' \<in> set (rahi_processing d').
        recent sha r' \<or> (\<exists>r \<in> set (rahi_processing d). came r r'))"

definition ids_ok :: "'a sdb \<Rightarrow> bool" where
  "ids_ok d \<longleftrightarrow> distinct (map wr_id (rahi_processing d))"

definition work_rel :: "(string \<Rightarrow> string) \<Rightarrow> 'a sdb \<Rightarrow> 'a sdb \<Rightarrow> bool" where
  "work_rel sha d d' \<longleftrightarrow>
     lease_fence d' = lease_fence d \<and> moves sha d d' \<and> (ids_ok d \<longrightarrow> ids_ok d')"

lemma came_refl [simp]: "came r r"
  by (simp add: came_def)

lemma cameD:
  assumes "came r r'"
  shows "wr_id r' = wr_id r" "wr_fence r' = wr_fence r" "wr_attempt r' = wr_attempt r"
    "wr_namespace r' = wr_namespace r" "wr_state r' = Claimed \<Longrightarrow> wr_state r = Claimed"
    "wr_state r = Done \<Longrightarrow> wr_state r' = Done"
  using assms by (simp_all add: came_def)

lemma came_trans: "came r s \<Longrightarrow> came s t \<Longrightarrow> came r t"
  unfolding came_def by presburger

lemma came_genuine: "came r r' \<Longrightarrow> genuine sha r' = genuine sha r"
  by (auto simp: came_def genuine_def row_key_def wr_id_def)

lemma recent_came: "recent sha r \<Longrightarrow> came r r' \<Longrightarrow> recent sha r'"
  unfolding recent_def using came_genuine [of r r' sha] unfolding came_def by presburger

lemma moves_trans:
  assumes "moves sha d e" "moves sha e f"
  shows "moves sha d f"
  unfolding moves_def
proof
  fix r'
  assume "r' \<in> set (rahi_processing f)"
  with assms(2) consider "recent sha r'" | r where "r \<in> set (rahi_processing e)" "came r r'"
    unfolding moves_def by blast
  then show "recent sha r' \<or> (\<exists>r \<in> set (rahi_processing d). came r r')"
  proof cases
    case 1
    then show ?thesis by simp
  next
    case 2
    from assms(1) 2(1) consider "recent sha r" | q where "q \<in> set (rahi_processing d)" "came q r"
      unfolding moves_def by blast
    then show ?thesis using 2(2) by cases (blast intro: recent_came came_trans)+
  qed
qed

lemma moves_refl: "moves sha d d"
  by (auto simp: moves_def intro: came_refl)

interpretation work: batch_relation "work_rel sha"
proof unfold_locales
  show "work_rel sha d d" for d :: "'a sdb" by (simp add: work_rel_def moves_refl)
  show "work_rel sha d e \<Longrightarrow> work_rel sha e f \<Longrightarrow> work_rel sha d f" for d e f :: "'a sdb"
    unfolding work_rel_def using moves_trans by metis
qed

lemma same_work_rel: "same_work d d' \<Longrightarrow> work_rel sha d d'"
  by (auto simp: same_work_def work_rel_def moves_def ids_ok_def intro: came_refl)

lemma work_carries_same: "(\<And>d d' n. s d = Inr (d', n) \<Longrightarrow> same_work d d') \<Longrightarrow> work.carries sha s"
  by (intro work.carriesI same_work_rel) auto

lemma update_work_rel:
  assumes "\<And>r. r \<in> set (rahi_processing d) \<Longrightarrow> p r \<Longrightarrow> came r (f r)"
    and "update_work p f d = Inr (d', n)"
  shows "work_rel sha d d'"
proof -
  from assms(2) have d': "d' = d\<lparr>rahi_processing := update_rows p f (rahi_processing d)\<rparr>"
    by (simp add: update_work_def)
  have "map wr_id (update_rows p f (rahi_processing d)) = map wr_id (rahi_processing d)"
    using assms(1) by (auto simp: update_rows_def came_def)
  moreover have "moves sha d d'"
    using assms(1) by (auto simp: moves_def d' set_update_rows intro: came_refl)
  ultimately show ?thesis by (simp add: work_rel_def ids_ok_def d')
qed

lemma work_carries_update: "(\<And>r. p r \<Longrightarrow> came r (f r)) \<Longrightarrow> work.carries sha (update_work p f)"
  by (intro work.carriesI) (rule update_work_rel)

lemma work_carries_updates:
  "work.carries sha (complete_row i)" "work.carries sha (requeue_row i)"
  "work.carries sha (bury_expired i x m now)" "work.carries sha (bury_spent i m)"
  by (auto simp: work_sql_defs came_def wr_id_def intro!: work_carries_update)

lemma new_row_recent: "short_key (pk_receipt k) \<Longrightarrow> recent sha (new_work_row sha k now)"
  by (cases "pk_receipt k") (simp add: recent_def genuine_def row_key_def new_work_row_def)

lemma new_row_id [simp]: "wr_id (new_work_row sha k now) = work_id sha k"
  by (simp add: wr_id_def work_id_def new_work_row_def)

lemma work_carries_insert:
  assumes "short_key (pk_receipt k)"
  shows "work.carries sha (insert_work sha k now)"
proof (rule work.carriesI)
  fix d d' :: "'a sdb" and n
  assume "insert_work sha k now d = Inr (d', n)"
  then consider "d' = d" | "work_id sha k \<notin> wr_id ` set (rahi_processing d)"
      "d' = d\<lparr>rahi_processing := rahi_processing d @ [new_work_row sha k now]\<rparr>"
    by (auto simp: insert_work_def split: if_splits)
  then show "work_rel sha d d'"
  proof cases
    case 1
    then show ?thesis by (simp add: work.R_refl)
  next
    case 2
    then show ?thesis
      using new_row_recent [OF assms]
      by (auto simp: work_rel_def moves_def ids_ok_def intro: came_refl)
  qed
qed

lemma work_carries_erase: "work.carries sha (erase_work p)"
  by (rule work.carriesI)
    (auto simp: erase_work_def work_rel_def moves_def ids_ok_def distinct_map_filter intro: came_refl)

lemma work_carries_heads:
  "work.carries sha (seed_head kd k ru tu now)"
  "work.carries sha (seed_erased kd now)"
  "work.carries sha (guard_accept x y g kd key ru tu)"
  "work.carries sha (guard_collision x y kd key ru tu)"
  "work.carries sha (erase_heads now p)"
  "work.carries sha (compact_head kd now)"
  "work.carries sha (delete_head kd now)"
  by (rule work_carries_same, erule same_work_heads)+

lemma work_carries_receipts:
  "work.carries sha (insert_revision kd x g disp out now)"
  "work.carries sha (touch_seen now kd x)"
  "work.carries sha (erase_receipts p)"
  "work.carries sha (compact_receipts kd)"
  "work.carries sha (delete_revisions kd now)"
  by (rule work_carries_same, erule same_work_receipts)+

lemma work_carries_attempts:
  "work.carries sha (close_attempt_done now i x)"
  "work.carries sha (close_attempt_failed oc f now i x)"
  "work.carries sha (requeue_attempt now i)"
  "work.carries sha (close_expired now i x)"
  "work.carries sha (close_prior_expired now i x y z)"
  "work.carries sha (open_attempt now i x y)"
  "work.carries sha (erase_attempts p)"
  "work.carries sha (compact_attempts kd)"
  by (rule work_carries_same, erule same_work_attempts)+

lemma work_carries_others:
  "work.carries sha (app_sql f)"
  "work.carries sha (insert_outbox e)"
  "work.carries sha (delete_outbox ids)"
  "work.carries sha (guard_lease t key)"
  "work.carries sha (guard_claim t now i)"
  by (rule work_carries_same, erule same_work_others)+

lemmas work_carries =
  work_carries_heads work_carries_receipts work_carries_attempts work_carries_others
  work_carries_updates work_carries_erase

section \<open>A guard that passes\<close>

lemma guard_claim_passes:
  "guard_claim t now i d = Inr (d', n) \<longleftrightarrow>
     d' = d \<and> n = matched (\<lambda>r. wr_id r = i) (rahi_processing d) \<and>
     (\<forall>r \<in> set (rahi_processing d). wr_id r = i \<longrightarrow> holds_row t now r)"
  by (auto simp: guard_claim_def)

lemma bury_rel:
  assumes "\<And>r. r \<in> set (rahi_processing d) \<Longrightarrow> wr_id r = i \<Longrightarrow> wr_state r = Claimed"
    and "dead_row i d = Inr (d', n) \<or> fail_row t i d = Inr (d', n)"
  shows "work_rel sha d d'"
  using assms(2)
proof
  assume "dead_row i d = Inr (d', n)"
  then show ?thesis unfolding dead_row_def
    by (rule update_work_rel [rotated]) (use assms(1) in \<open>auto simp: came_def wr_id_def\<close>)
next
  assume "fail_row t i d = Inr (d', n)"
  then show ?thesis unfolding fail_row_def
    by (rule update_work_rel [rotated]) (use assms(1) in \<open>auto simp: came_def wr_id_def\<close>)
qed

lemma work_fail_rel:
  assumes "work_fail sha [] cl f p now = Inr ss"
  shows "work.carries_all sha ss"
  unfolding work.carries_all_def
proof (intro allI impI)
  fix d d' :: "'a sdb" and ns
  assume run: "run_txn ss d = Inr (d', ns)"
  let ?i = "work_id sha (cl_key cl)"
  obtain s oc where ss: "ss = [guard_claim (u64_to_sql (cl_token cl)) (u64_to_sql now) ?i, s,
        close_attempt_failed oc f (u64_to_sql now) ?i (uint (cl_attempt cl))]"
      and s: "s = dead_row ?i \<or> (\<exists>t. s = fail_row t ?i)"
    using assms by (auto simp: work_fail_def Let_def work_guard_def split: if_splits)
  from run [unfolded ss run_txn_Cons_iff] obtain n e where
      held: "\<forall>r \<in> set (rahi_processing d). wr_id r = ?i \<longrightarrow>
               holds_row (u64_to_sql (cl_token cl)) (u64_to_sql now) r"
      and moved: "s d = Inr (e, n)"
      and closed: "run_txn [close_attempt_failed oc f (u64_to_sql now) ?i (uint (cl_attempt cl))] e
                     = Inr (d', tl (tl ns))"
    by (auto simp: guard_claim_passes)
  have "\<exists>t. dead_row ?i d = Inr (e, n) \<or> fail_row t ?i d = Inr (e, n)" using moved s by auto
  then have "work_rel sha d e"
    using bury_rel [of d ?i e n] held by (auto simp: holds_row_def)
  moreover have "work_rel sha e d'"
    by (rule work.carries_allD [OF _ closed]) (intro work.carries_Cons work.carries_Nil work_carries)
  ultimately show "work_rel sha d d'" by (rule work.R_trans)
qed

section \<open>Every staged batch\<close>

lemma staged_work_rel: "staged sha claims p \<Longrightarrow> work.carries_all sha p"
proof (induction rule: staged.induct)
  case (staged_first k g m now ss)
  then show ?case
    by (auto simp: stage_first_def Let_def intro!: work.carries_Cons work.carries_Nil work_carries)
next
  case (staged_revision k g c m now ss)
  then show ?case
    by (auto simp: stage_revision_def Let_def intro!: work.carries_Cons work.carries_Nil work_carries)
next
  case (staged_collision k g c m now ss)
  then show ?case
    by (auto simp: stage_collision_def Let_def intro!: work.carries_Cons work.carries_Nil work_carries)
next
  case (staged_erasure scope now)
  show ?case
    by (cases scope)
      (auto simp: stage_erasure_def erase_by_predicate_def
        intro!: work.carries_Cons work.carries_Nil work_carries)
next
  case (staged_fail cl f p now ss)
  then show ?case by (auto dest: work_fail_rel)
next
  case (staged_expired m t c)
  show ?case
    by (cases c) (auto simp: expired_pair_def intro!: work.carries_Cons work.carries_Nil work_carries)
qed (auto simp: outbox_stage_def stage_seen_def stage_work_def work_guard_def work_complete_def
      work_requeue_def compact_four_def compact_work_def delete_pair_def
    intro!: work.carries_Cons work.carries_Nil work_carries work_carries_insert)

lemma batch_work_rel:
  "\<forall>p \<in> set ps. staged sha claims p \<Longrightarrow> run_txn (concat ps) d = Inr (d', ns) \<Longrightarrow> work_rel sha d d'"
  by (rule work.carries_allD [OF work.carries_concat]) (auto dest: staged_work_rel)

text \<open>
  What holds of every reachable cluster: no fence is above its key's newest token, a lease's token
  belongs to it alone and is on no row it has still to try, and a claim names the attempt of its row
  while the row carries its fence.
\<close>

section \<open>The invariant\<close>

definition digest_ok :: "(string \<Rightarrow> string) \<Rightarrow> bool" where
  "digest_ok sha \<longleftrightarrow>
     (\<forall>k k'. short_key k \<longrightarrow> short_key k' \<longrightarrow> key_digest sha k = key_digest sha k' \<longrightarrow> k = k')"

definition work_queue :: "work_row \<Rightarrow> string" where
  "work_queue r = queue_key (wr_namespace r) (wr_processor r)"

definition claim_id :: "(string \<Rightarrow> string) \<Rightarrow> claim \<Rightarrow> row_id" where
  "claim_id sha cl = work_id sha (cl_key cl)"

definition claim_queue :: "claim \<Rightarrow> string" where
  "claim_queue cl = queue_lease_key (cl_key cl)"

definition cd_receipt :: "candidate \<Rightarrow> receipt_key" where
  "cd_receipt c = \<lparr>rk_tenant = cd_tenant c, rk_namespace = cd_namespace c, rk_key = cd_key c\<rparr>"

definition cd_queue :: "candidate \<Rightarrow> string" where
  "cd_queue c = queue_key (cd_namespace c) (fst (snd (snd (cd_id c))))"

definition cd_genuine :: "(string \<Rightarrow> string) \<Rightarrow> candidate \<Rightarrow> bool" where
  "cd_genuine sha c \<longleftrightarrow>
     short_key (cd_receipt c) \<and> fst (cd_id c) = key_digest sha (cd_receipt c)"

definition row_ok :: "(string \<Rightarrow> string) \<Rightarrow> 'a sdb \<Rightarrow> work_row \<Rightarrow> bool" where
  "row_ok sha d r \<longleftrightarrow> genuine sha r \<and> 0 \<le> wr_fence r \<and> wr_fence r \<le> newest (work_queue r) d"

definition token_ok :: "string \<Rightarrow> u64 \<Rightarrow> 'a sdb \<Rightarrow> bool" where
  "token_ok key t d \<longleftrightarrow> 0 < uint t \<and> uint t \<le> i64_max \<and> uint t \<le> newest key d"

definition claim_ok :: "(string \<Rightarrow> string) \<Rightarrow> 'a sdb \<Rightarrow> claim \<Rightarrow> bool" where
  "claim_ok sha d cl \<longleftrightarrow>
     short_key (pk_receipt (cl_key cl)) \<and> token_ok (claim_queue cl) (cl_token cl) d \<and>
     (\<forall>r \<in> set (rahi_processing d).
        wr_id r = claim_id sha cl \<and> wr_fence r = uint (cl_token cl) \<longrightarrow>
        wr_attempt r = uint (cl_attempt cl))"

definition unused :: "'a sdb \<Rightarrow> claim list \<Rightarrow> string \<Rightarrow> int \<Rightarrow> bool" where
  "unused d claims key t \<longleftrightarrow>
     (\<forall>r \<in> set (rahi_processing d). work_queue r = key \<longrightarrow> wr_fence r \<noteq> t) \<and>
     (\<forall>cl \<in> set claims. claim_queue cl = key \<longrightarrow> uint (cl_token cl) \<noteq> t)"

definition untried :: "(string \<Rightarrow> string) \<Rightarrow> 'a sdb \<Rightarrow> claim list \<Rightarrow> lease \<Rightarrow> candidate \<Rightarrow> bool" where
  "untried sha d claims l c \<longleftrightarrow>
     cd_genuine sha c \<and> cd_queue c = le_key l \<and>
     (\<forall>r \<in> set (rahi_processing d). wr_id r = cd_id c \<longrightarrow> wr_fence r \<noteq> uint (le_token l)) \<and>
     (\<forall>cl \<in> set claims. claim_id sha cl = cd_id c \<longrightarrow> cl_token cl \<noteq> le_token l)"

definition tickets :: "task list \<Rightarrow> lease list" where
  "tickets ts = concat (map (\<lambda>t. case lease_of_task t of None \<Rightarrow> [] | Some l \<Rightarrow> [l]) ts)"

definition bumps :: "task list \<Rightarrow> string list" where
  "bumps ts = concat (map (\<lambda>t. case t of Bumped k \<Rightarrow> [k] | _ \<Rightarrow> []) ts)"

definition behind :: "'a sdb \<Rightarrow> lease list \<Rightarrow> string \<Rightarrow> bool" where
  "behind d ls key \<longleftrightarrow> (\<forall>l \<in> set ls. le_key l = key \<longrightarrow> uint (le_token l) < newest key d)"

fun task_ok :: "(string \<Rightarrow> string) \<Rightarrow> 'a sdb \<Rightarrow> claim list \<Rightarrow> lease list \<Rightarrow> task \<Rightarrow> bool" where
  "task_ok sha d claims ls (Bumped key) \<longleftrightarrow>
     0 < newest key d \<and> unused d claims key (newest key d) \<and> behind d ls key"
| "task_ok sha d claims ls (Holding l) \<longleftrightarrow>
     token_ok (le_key l) (le_token l) d \<and> unused d claims (le_key l) (uint (le_token l))"
| "task_ok sha d claims ls (Claiming l cs) \<longleftrightarrow>
     token_ok (le_key l) (le_token l) d \<and> distinct (map cd_id cs) \<and>
     (\<forall>c \<in> set cs. untried sha d claims l c)"

definition store_ok :: "(string \<Rightarrow> string) \<Rightarrow> 'a sdb \<Rightarrow> bool" where
  "store_ok sha d \<longleftrightarrow> fences_ok d \<and> ids_ok d \<and> (\<forall>r \<in> set (rahi_processing d). row_ok sha d r)"

definition cluster_ok :: "(string \<Rightarrow> string) \<Rightarrow> 'a cluster \<Rightarrow> bool" where
  "cluster_ok sha C \<longleftrightarrow>
     store_ok sha (cs_db C) \<and>
     (\<forall>cl \<in> set (cs_claims C). claim_ok sha (cs_db C) cl) \<and>
     distinct (tickets (cs_tasks C)) \<and> distinct (bumps (cs_tasks C)) \<and>
     (\<forall>t \<in> set (cs_tasks C). task_ok sha (cs_db C) (cs_claims C) (tickets (cs_tasks C)) t)"

lemma tickets_simps [simp]:
  "tickets [] = []" "tickets (Bumped k # ts) = tickets ts"
  "tickets (Holding l # ts) = l # tickets ts" "tickets (Claiming l cs # ts) = l # tickets ts"
  "tickets (ts @ us) = tickets ts @ tickets us"
  by (simp_all add: tickets_def lease_of_task_def)

lemma bumps_simps [simp]:
  "bumps [] = []" "bumps (Bumped k # ts) = k # bumps ts"
  "bumps (Holding l # ts) = bumps ts" "bumps (Claiming l cs # ts) = bumps ts"
  "bumps (ts @ us) = bumps ts @ bumps us"
  by (simp_all add: bumps_def)

lemma in_tickets_iff:
  "l \<in> set (tickets ts) \<longleftrightarrow> Holding l \<in> set ts \<or> (\<exists>cs. Claiming l cs \<in> set ts)"
  by (induction ts) (auto simp: tickets_def lease_of_task_def split: task.splits)

lemma in_bumps_iff: "k \<in> set (bumps ts) \<longleftrightarrow> Bumped k \<in> set ts"
  by (induction ts) (auto simp: bumps_def split: task.splits)

lemma digest_row_key:
  "digest_ok sha \<Longrightarrow> genuine sha r \<Longrightarrow> short_key k \<Longrightarrow> wr_key_digest r = key_digest sha k \<Longrightarrow>
     row_key r = k"
  by (auto simp: digest_ok_def genuine_def)

lemma row_queue_claim:
  assumes "digest_ok sha" "genuine sha r" "short_key (pk_receipt (cl_key cl))" "wr_id r = claim_id sha cl"
  shows "work_queue r = claim_queue cl"
proof -
  have "wr_key_digest r = key_digest sha (pk_receipt (cl_key cl))"
      and p: "wr_processor r = pk_processor (cl_key cl)"
    using assms(4) by (auto simp: wr_id_def claim_id_def work_id_def)
  then have "row_key r = pk_receipt (cl_key cl)" using digest_row_key assms(1-3) by blast
  then have "wr_namespace r = rk_namespace (pk_receipt (cl_key cl))"
    by (metis row_key_def receipt_key.select_convs(2))
  with p show ?thesis by (simp add: work_queue_def claim_queue_def queue_lease_key_def)
qed

lemma row_queue_candidate:
  assumes "digest_ok sha" "genuine sha r" "cd_genuine sha c" "wr_id r = cd_id c"
  shows "work_queue r = cd_queue c"
proof -
  have "wr_key_digest r = key_digest sha (cd_receipt c)" and p: "wr_processor r = fst (snd (snd (cd_id c)))"
    using assms(3) arg_cong [OF assms(4), of fst] arg_cong [OF assms(4), of "\<lambda>i. fst (snd (snd i))"]
    by (simp_all add: wr_id_def cd_genuine_def)
  then have "row_key r = cd_receipt c"
    using digest_row_key assms(1-3) by (auto simp: cd_genuine_def)
  then have "wr_namespace r = cd_namespace c"
    by (simp add: row_key_def cd_receipt_def)
  with p show ?thesis by (simp add: work_queue_def cd_queue_def)
qed

lemma candidates_same_queue:
  assumes "digest_ok sha" "cd_genuine sha c" "cd_genuine sha c'" "cd_id c = cd_id c'"
  shows "cd_queue c = cd_queue c'"
proof -
  have "cd_receipt c = cd_receipt c'"
    using assms unfolding digest_ok_def cd_genuine_def by metis
  then show ?thesis using assms(4) by (simp add: cd_queue_def cd_receipt_def)
qed

lemma cluster_start_ok: "cluster_ok sha (cluster_start x)"
  by (simp add: cluster_ok_def cluster_start_def empty_sdb_def store_ok_def fences_ok_def ids_ok_def)

section \<open>Batches of the applications\<close>

lemma newest_same: "lease_fence d' = lease_fence d \<Longrightarrow> newest key d' = newest key d"
  by (simp add: newest_def fence_of_def)

lemma rel_row:
  assumes "work_rel sha d d'" "r' \<in> set (rahi_processing d')" "wr_fence r' \<noteq> 0"
  obtains r where "r \<in> set (rahi_processing d)" "came r r'"
  using assms by (auto simp: work_rel_def moves_def recent_def)

lemma came_queue: "came r r' \<Longrightarrow> work_queue r' = work_queue r"
  by (simp add: came_def work_queue_def wr_id_def)

lemma store_ok_rel:
  assumes rel: "work_rel sha d d'" and ok: "store_ok sha d"
  shows "store_ok sha d'"
proof -
  have lf: "lease_fence d' = lease_fence d" using rel by (simp add: work_rel_def)
  have "row_ok sha d' r'" if r': "r' \<in> set (rahi_processing d')" for r'
  proof -
    from rel r' consider "recent sha r'" | r where "r \<in> set (rahi_processing d)" "came r r'"
      by (auto simp: work_rel_def moves_def)
    then show ?thesis
    proof cases
      case 1
      then show ?thesis
        using ok newest_nonneg [of d] newest_same [OF lf]
        by (simp add: row_ok_def recent_def store_ok_def)
    next
      case 2
      then have "row_ok sha d r" using ok by (simp add: store_ok_def)
      with 2 show ?thesis
        using newest_same [OF lf] came_genuine [OF 2(2)] came_queue [OF 2(2)] cameD(2) [OF 2(2)]
        by (simp add: row_ok_def)
    qed
  qed
  then show ?thesis using rel ok by (auto simp: store_ok_def work_rel_def fences_ok_def)
qed

lemma token_ok_rel: "lease_fence d' = lease_fence d \<Longrightarrow> token_ok key t d' = token_ok key t d"
  by (simp add: token_ok_def newest_def fence_of_def)

lemma claim_ok_rel:
  assumes rel: "work_rel sha d d'" and ok: "claim_ok sha d cl"
  shows "claim_ok sha d' cl"
proof -
  have lf: "lease_fence d' = lease_fence d" using rel by (simp add: work_rel_def)
  have "wr_attempt r' = uint (cl_attempt cl)"
    if r': "r' \<in> set (rahi_processing d')" "wr_id r' = claim_id sha cl" "wr_fence r' = uint (cl_token cl)"
    for r'
  proof -
    have "wr_fence r' \<noteq> 0" using r'(3) ok by (simp add: claim_ok_def token_ok_def)
    from rel_row [OF rel r'(1) this] obtain r where "r \<in> set (rahi_processing d)" "came r r'" .
    with cameD(1-3) [OF this(2)] r' ok show ?thesis by (simp add: claim_ok_def)
  qed
  then show ?thesis using ok by (auto simp: claim_ok_def token_ok_rel [OF lf])
qed

lemma unused_rel:
  assumes rel: "work_rel sha d d'" and u: "unused d claims key t" and "t \<noteq> 0"
  shows "unused d' claims key t"
proof -
  have "wr_fence r' \<noteq> t" if r': "r' \<in> set (rahi_processing d')" "work_queue r' = key" for r'
  proof
    assume t: "wr_fence r' = t"
    then have "wr_fence r' \<noteq> 0" using assms(3) by simp
    from rel_row [OF rel r'(1) this] obtain r where r: "r \<in> set (rahi_processing d)" "came r r'" .
    show False
      using u r(1) r'(2) t cameD(2) [OF r(2)] came_queue [OF r(2)] by (simp add: unused_def)
  qed
  then show ?thesis using u by (simp add: unused_def)
qed

lemma untried_rel:
  assumes rel: "work_rel sha d d'" and u: "untried sha d claims l c" and "0 < uint (le_token l)"
  shows "untried sha d' claims l c"
proof -
  have "wr_fence r' \<noteq> uint (le_token l)" if r': "r' \<in> set (rahi_processing d')" "wr_id r' = cd_id c"
    for r'
  proof
    assume t: "wr_fence r' = uint (le_token l)"
    then have "wr_fence r' \<noteq> 0" using assms(3) by simp
    from rel_row [OF rel r'(1) this] obtain r where r: "r \<in> set (rahi_processing d)" "came r r'" .
    show False
      using u r(1) r'(2) t cameD(1,2) [OF r(2)] by (simp add: untried_def)
  qed
  then show ?thesis using u by (simp add: untried_def)
qed

lemma task_ok_rel:
  assumes rel: "work_rel sha d d'" and ok: "task_ok sha d claims ls t"
  shows "task_ok sha d' claims ls t"
proof -
  have lf: "lease_fence d' = lease_fence d" using rel by (simp add: work_rel_def)
  show ?thesis
  proof (cases t)
    case (Bumped k)
    then show ?thesis
      using ok unused_rel [OF rel] by (auto simp: newest_same [OF lf] behind_def)
  next
    case (Holding l)
    then have "token_ok (le_key l) (le_token l) d" "unused d claims (le_key l) (uint (le_token l))"
      using ok by simp_all
    moreover from this(1) have "uint (le_token l) \<noteq> 0" by (simp add: token_ok_def)
    ultimately show ?thesis
      using Holding unused_rel [OF rel] by (simp add: token_ok_rel [OF lf])
  next
    case (Claiming l cs)
    then have t: "token_ok (le_key l) (le_token l) d" using ok by simp
    then have "0 < uint (le_token l)" by (simp add: token_ok_def)
    with Claiming ok t show ?thesis
      using untried_rel [OF rel] by (simp add: token_ok_rel [OF lf])
  qed
qed

lemma cluster_ok_rel:
  "work_rel sha (cs_db C) d \<Longrightarrow> cluster_ok sha C \<Longrightarrow> cluster_ok sha (C\<lparr>cs_db := d\<rparr>)"
  by (auto simp: cluster_ok_def intro: store_ok_rel claim_ok_rel task_ok_rel)

end
