(* ===== verification/Work_Reach.thy ===== *)
theory Work_Reach
  imports Work_Invariant
begin

text \<open>
  Every step of the cluster keeps its invariant. The two that write a fence, a claim and a renewal,
  are instances of one relation: the rows of a single identity get a token nobody else holds.
\<close>

section \<open>Writing a fence\<close>

definition refenced :: "'a sdb \<Rightarrow> 'a sdb \<Rightarrow> row_id \<Rightarrow> int \<Rightarrow> int \<Rightarrow> bool" where
  "refenced d d' i t n \<longleftrightarrow>
     lease_fence d' = lease_fence d \<and> map wr_id (rahi_processing d') = map wr_id (rahi_processing d) \<and>
     (\<forall>r' \<in> set (rahi_processing d').
        r' \<in> set (rahi_processing d) \<or>
        (\<exists>r \<in> set (rahi_processing d).
           wr_id r = i \<and> wr_state r \<noteq> Done \<and> wr_id r' = i \<and> row_key r' = row_key r \<and>
           wr_fence r' = t \<and> wr_attempt r' = n))"

lemma refencedE:
  assumes "refenced d d' i t n" "r' \<in> set (rahi_processing d')"
  obtains (old) "r' \<in> set (rahi_processing d)"
  | (new) r where "r \<in> set (rahi_processing d)" "wr_id r = i" "wr_state r \<noteq> Done" "wr_id r' = i"
      "row_key r' = row_key r" "wr_fence r' = t" "wr_attempt r' = n"
  using assms unfolding refenced_def by blast

lemma same_key_genuine:
  "row_key r' = row_key r \<Longrightarrow> wr_id r' = wr_id r \<Longrightarrow> genuine sha r' = genuine sha r"
  by (simp add: genuine_def wr_id_def)

lemma same_key_queue:
  "row_key r' = row_key r \<Longrightarrow> wr_id r' = wr_id r \<Longrightarrow> work_queue r' = work_queue r"
  by (simp add: work_queue_def row_key_def wr_id_def)

lemma refenced_store_ok:
  assumes re: "refenced d d' i t n" and ok: "store_ok sha d"
    and q: "\<And>r. r \<in> set (rahi_processing d) \<Longrightarrow> wr_id r = i \<Longrightarrow> work_queue r = key"
    and t: "0 < t" "t \<le> newest key d"
  shows "store_ok sha d'"
proof -
  have lf: "lease_fence d' = lease_fence d" using re by (simp add: refenced_def)
  have "row_ok sha d' r'" if "r' \<in> set (rahi_processing d')" for r'
    using re that
  proof (cases rule: refencedE)
    case old
    then show ?thesis using ok newest_same [OF lf] by (simp add: store_ok_def row_ok_def)
  next
    case (new r)
    then have "row_ok sha d r" using ok by (simp add: store_ok_def)
    with new q [OF new(1,2)] t show ?thesis
      using newest_same [OF lf] same_key_genuine [OF new(5)] same_key_queue [OF new(5)]
      by (simp add: row_ok_def)
  qed
  then show ?thesis using ok re by (simp add: store_ok_def fences_ok_def ids_ok_def refenced_def)
qed

lemma refenced_claim_ok:
  assumes re: "refenced d d' i t n" and ok: "claim_ok sha d cl"
    and other: "claim_id sha cl = i \<Longrightarrow> uint (cl_token cl) \<noteq> t"
  shows "claim_ok sha d' cl"
proof -
  have lf: "lease_fence d' = lease_fence d" using re by (simp add: refenced_def)
  have "wr_attempt r' = uint (cl_attempt cl)"
    if "r' \<in> set (rahi_processing d')" "wr_id r' = claim_id sha cl" "wr_fence r' = uint (cl_token cl)"
    for r'
    using re that(1)
  proof (cases rule: refencedE)
    case old
    then show ?thesis using ok that by (simp add: claim_ok_def)
  next
    case (new r)
    then show ?thesis using other that by simp
  qed
  then show ?thesis using ok by (simp add: claim_ok_def token_ok_rel [OF lf])
qed

definition clear_of :: "'a sdb \<Rightarrow> string \<Rightarrow> row_id \<Rightarrow> int \<Rightarrow> task \<Rightarrow> bool" where
  "clear_of d key i t tk \<longleftrightarrow>
     (case tk of
        Bumped k \<Rightarrow> k = key \<longrightarrow> t < newest k d
      | Holding l \<Rightarrow> le_key l = key \<longrightarrow> uint (le_token l) \<noteq> t
      | Claiming l cs \<Rightarrow> \<forall>c \<in> set cs. cd_id c = i \<longrightarrow> uint (le_token l) \<noteq> t)"

lemma refenced_task_ok:
  assumes re: "refenced d d' i t n"
    and q: "\<And>r. r \<in> set (rahi_processing d) \<Longrightarrow> wr_id r = i \<Longrightarrow> work_queue r = key"
    and won: "\<And>cl. cl \<in> set won \<Longrightarrow> claim_id sha cl = i \<and> claim_queue cl = key \<and> uint (cl_token cl) = t"
    and ok: "task_ok sha d claims ls tk" and clear: "clear_of d key i t tk"
  shows "task_ok sha d' (won @ claims) ls tk"
proof -
  have lf: "lease_fence d' = lease_fence d" using re by (simp add: refenced_def)
  have row: "wr_fence r' \<noteq> x"
    if "r' \<in> set (rahi_processing d')" "work_queue r' = k" "k = key \<Longrightarrow> x \<noteq> t" "unused d claims k x"
    for r' k x
    using re that(1)
  proof (cases rule: refencedE)
    case old
    then show ?thesis using that by (simp add: unused_def)
  next
    case (new r)
    then have "work_queue r' = key" using same_key_queue [OF new(5)] q [OF new(1,2)] by simp
    then show ?thesis using new that by auto
  qed
  have unused: "unused d' (won @ claims) k x" if "unused d claims k x" "k = key \<Longrightarrow> x \<noteq> t" for k x
    using row [OF _ _ that(2,1)] won that by (auto simp: unused_def)
  have untried: "untried sha d' (won @ claims) l c"
    if u: "untried sha d claims l c" and ne: "cd_id c = i \<Longrightarrow> uint (le_token l) \<noteq> t" for l c
  proof -
    have "wr_fence r' \<noteq> uint (le_token l)" if "r' \<in> set (rahi_processing d')" "wr_id r' = cd_id c" for r'
      using re that(1)
    proof (cases rule: refencedE)
      case old
      then show ?thesis using u that by (simp add: untried_def)
    next
      case (new r)
      then show ?thesis using ne that by auto
    qed
    moreover have "cl_token cl \<noteq> le_token l" if "cl \<in> set won" "claim_id sha cl = cd_id c" for cl
      using won [OF that(1)] that(2) ne by auto
    ultimately show ?thesis using u by (auto simp: untried_def)
  qed
  show ?thesis
  proof (cases tk)
    case (Bumped k)
    then show ?thesis
      using ok clear unused [of k "newest k d"] newest_same [OF lf]
      by (auto simp: clear_of_def behind_def)
  next
    case (Holding l)
    then show ?thesis
      using ok clear unused [of "le_key l" "uint (le_token l)"] token_ok_rel [OF lf]
      by (auto simp: clear_of_def)
  next
    case (Claiming l cs)
    then have "\<forall>c \<in> set cs. untried sha d claims l c \<and> (cd_id c = i \<longrightarrow> uint (le_token l) \<noteq> t)"
      using ok clear by (simp add: clear_of_def)
    then have "\<forall>c \<in> set cs. untried sha d' (won @ claims) l c" using untried by blast
    with Claiming ok show ?thesis using token_ok_rel [OF lf] by simp
  qed
qed

lemma refenced_cluster_ok:
  assumes ok: "cluster_ok sha C" and re: "refenced (cs_db C) d i (uint t) n"
    and q: "\<And>r. r \<in> set (rahi_processing (cs_db C)) \<Longrightarrow> wr_id r = i \<Longrightarrow> work_queue r = key"
    and t: "token_ok key t (cs_db C)"
    and free: "\<And>cl. cl \<in> set (cs_claims C) \<Longrightarrow> claim_id sha cl = i \<Longrightarrow> cl_token cl \<noteq> t"
    and won: "\<And>cl. cl \<in> set won \<Longrightarrow> claim_id sha cl = i \<and> claim_queue cl = key \<and> cl_token cl = t \<and>
                uint (cl_attempt cl) = n \<and> short_key (pk_receipt (cl_key cl))"
    and old: "\<And>r. r \<in> set (rahi_processing (cs_db C)) \<Longrightarrow> wr_id r = i \<Longrightarrow> wr_fence r \<noteq> uint t"
    and leases: "distinct (tickets ts)" "distinct (bumps ts)"
    and tasks: "\<And>tk. tk \<in> set ts \<Longrightarrow>
                  task_ok sha (cs_db C) (cs_claims C) (tickets ts) tk \<and>
                  clear_of (cs_db C) key i (uint t) tk"
  shows "cluster_ok sha (C\<lparr>cs_db := d, cs_tasks := ts, cs_claims := won @ cs_claims C\<rparr>)"
proof -
  have lf: "lease_fence d = lease_fence (cs_db C)" using re by (simp add: refenced_def)
  have claims: "claim_ok sha d cl" if "cl \<in> set (cs_claims C)" for cl
    using that free ok
    by (intro refenced_claim_ok [OF re]) (auto simp: cluster_ok_def word_uint_eq_iff)
  have "claim_ok sha d cl" if cl: "cl \<in> set won" for cl
  proof -
    have "wr_attempt r' = uint (cl_attempt cl)"
      if "r' \<in> set (rahi_processing d)" "wr_id r' = claim_id sha cl" "wr_fence r' = uint (cl_token cl)" for r'
      using re that(1)
    proof (cases rule: refencedE)
      case old
      then show ?thesis using assms(7) won [OF cl] that by auto
    next
      case (new r)
      then show ?thesis using won [OF cl] by simp
    qed
    then show ?thesis using won [OF cl] t by (simp add: claim_ok_def token_ok_rel [OF lf])
  qed
  moreover have "store_ok sha d"
    using ok t by (intro refenced_store_ok [OF re _ q]) (auto simp: cluster_ok_def token_ok_def)
  moreover have "task_ok sha d (won @ cs_claims C) (tickets ts) tk" if "tk \<in> set ts" for tk
    using tasks [OF that] won by (intro refenced_task_ok [OF re q]) auto
  ultimately show ?thesis using claims leases by (auto simp: cluster_ok_def)
qed

section \<open>The claim and the renewal write a fence\<close>

lemma guard_statement_Inr:
  "guard_statement l = Inr g \<longleftrightarrow>
     uint (le_token l) \<le> i64_max \<and> g = guard_lease (uint (le_token l)) (le_key l)"
  by (auto simp: guard_statement_def fence_literal_def split: if_splits)

definition claim_hits :: "candidate \<Rightarrow> int \<Rightarrow> int \<Rightarrow> work_row \<Rightarrow> bool" where
  "claim_hits c token now r \<longleftrightarrow>
     wr_id r = cd_id c \<and> wr_attempt r = cd_attempt c \<and> wr_fence r \<le> token \<and> eligible now r"

lemma update_work_refenced:
  assumes "update_work p f d = Inr (d', n)"
    and "\<And>r. p r \<Longrightarrow> wr_id r = i \<and> wr_state r \<noteq> Done \<and> wr_id (f r) = i \<and> row_key (f r) = row_key r \<and>
           wr_fence (f r) = t"
    and "\<And>r. r \<in> set (rahi_processing d) \<Longrightarrow> p r \<Longrightarrow> wr_attempt (f r) = m"
  shows "refenced d d' i t m"
proof -
  have d': "d' = d\<lparr>rahi_processing := update_rows p f (rahi_processing d)\<rparr>"
    using assms(1) by (simp add: update_work_def)
  have "map wr_id (update_rows p f (rahi_processing d)) = map wr_id (rahi_processing d)"
    using assms(2) by (intro map_update_rows) auto
  then show ?thesis
    using assms(2,3) by (auto simp: refenced_def d' set_update_rows)
qed

lemma same_work_refenced:
  "refenced d e i t m \<Longrightarrow> same_work e f \<Longrightarrow> refenced d f i t m"
  by (simp add: refenced_def same_work_def)

lemma claim_row_refenced:
  assumes "claim_row holder x (i64_succ (cd_attempt c)) (cd_id c) (cd_attempt c) t now d = Inr (d', n)"
  shows "refenced d d' (cd_id c) t (i64_succ (cd_attempt c))"
  using assms unfolding claim_row_def
  by (rule update_work_refenced) (auto simp: eligible_def wr_id_def row_key_def)

lemma claim_run:
  assumes "run_txn (g # claim_batch l c holder hold_for now) d = Inr (d', n # ns)"
    and "guard_statement l = Inr g" and "fences_ok d"
  shows "refenced d d' (cd_id c) (uint (le_token l)) (i64_succ (cd_attempt c))"
    and "newest (le_key l) d \<le> uint (le_token l) \<or> fence_of (le_key l) d = None"
    and "\<exists>x y. ns = [matched (claim_hits c (uint (le_token l)) (u64_to_sql now)) (rahi_processing d), x, y]"
proof -
  have tok: "u64_to_sql (le_token l) = uint (le_token l)"
    using assms(2) by (simp add: guard_statement_Inr u64_to_sql_def)
  from assms(1) [unfolded claim_batch_def Let_def run_txn3 tok] obtain e n1 d2 n2 d3 n3 n4 where
      g: "g d = Inr (e, n1)"
      and r: "claim_row holder (u64_to_sql (hold_until now hold_for)) (i64_succ (cd_attempt c)) (cd_id c)
             (cd_attempt c) (uint (le_token l)) (u64_to_sql now) e = Inr (d2, n2)"
      and p: "close_prior_expired (u64_to_sql now) (cd_id c) (cd_attempt c)
             (i64_succ (cd_attempt c)) (uint (le_token l)) d2 = Inr (d3, n3)"
      and q: "open_attempt (u64_to_sql now) (cd_id c) (i64_succ (cd_attempt c)) (uint (le_token l)) d3
             = Inr (d', n4)"
      and ns: "ns = [n2, n3, n4]"
    by auto
  have e: "e = d" using g assms(2) guard_lease_state by (auto simp: guard_statement_Inr)
  show "refenced d d' (cd_id c) (uint (le_token l)) (i64_succ (cd_attempt c))"
    using claim_row_refenced [OF r] same_work_attempts(5) [OF p] same_work_attempts(6) [OF q] e
    by (blast intro: same_work_refenced)
  show "newest (le_key l) d \<le> uint (le_token l) \<or> fence_of (le_key l) d = None"
    using g assms(2,3) by (auto simp: guard_statement_Inr guard_lease_ok split: if_splits)
  have "n2 = matched (claim_hits c (uint (le_token l)) (u64_to_sql now)) (rahi_processing d)"
    using r by (simp add: claim_row_def update_work_def e claim_hits_def [abs_def])
  then show "\<exists>x y. ns = [matched (claim_hits c (uint (le_token l)) (u64_to_sql now)) (rahi_processing d), x, y]"
    using ns by simp
qed

lemma renew_row_refenced:
  assumes "renew_row x i held now t d = Inr (d', n)"
    and "\<And>r. r \<in> set (rahi_processing d) \<Longrightarrow> wr_id r = i \<Longrightarrow> wr_fence r = held \<Longrightarrow> wr_attempt r = m"
  shows "refenced d d' i t m"
  using assms(1) unfolding renew_row_def
  by (rule update_work_refenced) (use assms(2) in \<open>auto simp: wr_id_def row_key_def\<close>)

text \<open>
  The invariant along every run of the cluster, and what follows of it for a claim: once lost it
  stays lost, and a row that is done stays done for as long as it is there.
\<close>

section \<open>Tasks\<close>

lemma task_ok_mono: "task_ok sha d claims ls t \<Longrightarrow> set ls' \<subseteq> set ls \<Longrightarrow> task_ok sha d claims ls' t"
  by (cases t) (auto simp: behind_def)

lemma claims_same_queue:
  assumes "digest_ok sha" "claim_ok sha d cl" "claim_ok sha d cl'" "claim_id sha cl = claim_id sha cl'"
  shows "claim_queue cl = claim_queue cl'"
proof -
  have "pk_receipt (cl_key cl) = pk_receipt (cl_key cl')"
    using assms unfolding digest_ok_def claim_ok_def claim_id_def work_id_def by blast
  then show ?thesis using assms(4) by (simp add: claim_queue_def queue_lease_key_def claim_id_def work_id_def)
qed

lemma candidate_claim_queue:
  assumes "digest_ok sha" "cd_genuine sha c" "claim_ok sha d cl" "cd_id c = claim_id sha cl"
  shows "cd_queue c = claim_queue cl"
proof -
  have "key_digest sha (cd_receipt c) = key_digest sha (pk_receipt (cl_key cl))"
    using assms(2,4) by (simp add: cd_genuine_def claim_id_def work_id_def)
  then have "cd_receipt c = pk_receipt (cl_key cl)"
    using assms(1-3) by (simp add: digest_ok_def cd_genuine_def claim_ok_def)
  then have "cd_namespace c = rk_namespace (pk_receipt (cl_key cl))"
    by (metis cd_receipt_def receipt_key.select_convs(2))
  then show ?thesis
    using assms(4) by (simp add: cd_queue_def claim_queue_def queue_lease_key_def claim_id_def work_id_def)
qed

lemma lease_neq: "(l :: lease) \<noteq> m \<Longrightarrow> le_key l = le_key m \<Longrightarrow> uint (le_token l) \<noteq> uint (le_token m)"
  by (cases l; cases m) (auto simp: word_uint_eq_iff)

text \<open>The token a lease writes on its own rows is clear of every other task.\<close>

lemma others_clear:
  assumes ok: "cluster_ok sha C" and dig: "digest_ok sha"
    and l: "l \<in> set (tickets (cs_tasks C))"
    and tk: "tk \<in> set (cs_tasks C)" "l \<notin> set (tickets [tk])"
    and i: "\<And>c. cd_genuine sha c \<Longrightarrow> cd_id c = i \<Longrightarrow> cd_queue c = le_key l"
  shows "clear_of (cs_db C) (le_key l) i (uint (le_token l)) tk"
proof -
  have t: "task_ok sha (cs_db C) (cs_claims C) (tickets (cs_tasks C)) tk"
    using ok tk(1) by (simp add: cluster_ok_def)
  show ?thesis
  proof (cases tk)
    case (Bumped k)
    then show ?thesis using t l by (auto simp: clear_of_def behind_def)
  next
    case (Holding m)
    then show ?thesis using tk(2) lease_neq [of m l] by (auto simp: clear_of_def)
  next
    case (Claiming m cs)
    have "uint (le_token m) \<noteq> uint (le_token l)" if "c \<in> set cs" "cd_id c = i" for c
    proof -
      have "untried sha (cs_db C) (cs_claims C) m c" using t Claiming that(1) by simp
      then have "cd_queue c = le_key m" "cd_genuine sha c" by (simp_all add: untried_def)
      then have "le_key m = le_key l" using i that(2) by simp
      then show ?thesis using tk(2) Claiming lease_neq [of m l] by auto
    qed
    then show ?thesis using Claiming by (auto simp: clear_of_def)
  qed
qed

section \<open>The steps\<close>

lemma bump_work: "bump_fence key d = Inr (d', n) \<Longrightarrow> rahi_processing d' = rahi_processing d"
  by (auto simp: bump_fence_def)

lemma bump_ok:
  assumes ok: "cluster_ok sha C" and new: "Bumped key \<notin> set (cs_tasks C)"
    and bump: "bump_fence key (cs_db C) = Inr (d, n)"
  shows "cluster_ok sha (C\<lparr>cs_db := d, cs_tasks := Bumped key # cs_tasks C\<rparr>)"
proof -
  note rows = bump_work [OF bump] and up = newest_bump [OF bump]
  have sok: "store_ok sha (cs_db C)" using ok by (simp add: cluster_ok_def)
  then have fok: "fences_ok (cs_db C)" by (simp add: store_ok_def)
  have mono: "newest k (cs_db C) \<le> newest k d" for k using up by simp
  have "store_ok sha d"
    using sok fences_ok_bump [OF bump fok] mono
    by (auto simp: store_ok_def ids_ok_def row_ok_def rows intro: order_trans)
  moreover have tokens: "token_ok k t (cs_db C) \<Longrightarrow> token_ok k t d" for k t
    using mono [of k] by (auto simp: token_ok_def)
  have "claim_ok sha d cl" if "cl \<in> set (cs_claims C)" for cl
    using ok that tokens by (auto simp: cluster_ok_def claim_ok_def rows)
  moreover have "task_ok sha d (cs_claims C) (tickets (cs_tasks C)) t" if t: "t \<in> set (cs_tasks C)" for t
  proof -
    have tok: "task_ok sha (cs_db C) (cs_claims C) (tickets (cs_tasks C)) t"
      using ok t by (simp add: cluster_ok_def)
    show ?thesis
    proof (cases t)
      case (Bumped k)
      then have "k \<noteq> key" using new t by auto
      with Bumped tok show ?thesis using up by (simp add: unused_def behind_def rows)
    next
      case (Holding l)
      then show ?thesis using tok tokens by (simp add: unused_def rows)
    next
      case (Claiming l cs)
      then show ?thesis using tok tokens by (simp add: untried_def rows)
    qed
  qed
  moreover have "task_ok sha d (cs_claims C) (tickets (cs_tasks C)) (Bumped key)"
  proof -
    have "0 < newest key d" using newest_nonneg [OF fok, of key] up [of key] by simp
    moreover have "wr_fence r \<noteq> newest key d"
      if "r \<in> set (rahi_processing (cs_db C))" "work_queue r = key" for r
      using sok that up [of key] by (force simp: store_ok_def row_ok_def)
    moreover have "uint (cl_token cl) \<noteq> newest key d" if "cl \<in> set (cs_claims C)" "claim_queue cl = key" for cl
      using ok that up [of key] by (force simp: cluster_ok_def claim_ok_def token_ok_def)
    moreover have "uint (le_token l) < newest key d"
      if "l \<in> set (tickets (cs_tasks C))" "le_key l = key" for l
    proof -
      from that(1) consider "Holding l \<in> set (cs_tasks C)" | cs where "Claiming l cs \<in> set (cs_tasks C)"
        by (auto simp: in_tickets_iff)
      then have "token_ok (le_key l) (le_token l) (cs_db C)"
        using ok by cases (fastforce simp: cluster_ok_def)+
      then show ?thesis using that(2) up [of key] by (simp add: token_ok_def)
    qed
    ultimately show ?thesis by (simp add: unused_def behind_def rows)
  qed
  ultimately show ?thesis
    using ok new by (simp add: cluster_ok_def in_bumps_iff)
qed

lemma token_ok_step:
  assumes ok: "cluster_ok sha C" and ts: "cs_tasks C = ts @ Bumped key # us"
    and sel: "select_token key (cs_db C) = raw # rest"
    and raw: "raw \<le> i64_max" "i64_to_u64 raw = Some t"
  shows "cluster_ok sha (C\<lparr>cs_tasks := ts @ Holding \<lparr>le_key = key, le_token = t\<rparr> # us\<rparr>)"
proof -
  let ?l = "\<lparr>le_key = key, le_token = t\<rparr>"
  have fok: "fences_ok (cs_db C)" using ok by (simp add: cluster_ok_def store_ok_def)
  have new: "newest key (cs_db C) = raw"
    using sel select_token_fence [OF fok, of key] by (auto simp: newest_def split: option.splits)
  have t: "uint t = raw" using uint_i64_to_u64 raw by blast
  have b: "task_ok sha (cs_db C) (cs_claims C) (tickets (cs_tasks C)) (Bumped key)"
    using ok ts by (simp add: cluster_ok_def)
  have tick: "set (tickets (cs_tasks C)) = set (tickets ts) \<union> set (tickets us)" using ts by simp
  have fresh: "?l \<notin> set (tickets ts) \<union> set (tickets us)"
    using b t by (force simp: behind_def tick new)
  have "task_ok sha (cs_db C) (cs_claims C) (tickets (ts @ Holding ?l # us)) tk"
    if tk: "tk \<in> set ts \<union> set us" for tk
  proof -
    have tok: "task_ok sha (cs_db C) (cs_claims C) (tickets (cs_tasks C)) tk"
      using ok ts tk by (auto simp: cluster_ok_def)
    have "k \<noteq> key" if "tk = Bumped k" for k
      using ok tk that ts by (auto simp: cluster_ok_def in_bumps_iff)
    then show ?thesis using tok tick by (cases tk) (auto simp: behind_def)
  qed
  moreover have "task_ok sha (cs_db C) (cs_claims C) ls (Holding ?l)" for ls
    using b raw by (simp add: token_ok_def new t)
  ultimately show ?thesis
    using ok ts fresh by (auto simp: cluster_ok_def)
qed


text \<open>Reading candidates: their rows are in the queue of the lease, and nobody wrote its token yet.\<close>

lemma candidate_of_simps [simp]:
  "cd_id (candidate_of r) = wr_id r" "cd_tenant (candidate_of r) = wr_tenant r"
  "cd_namespace (candidate_of r) = wr_namespace r" "cd_key (candidate_of r) = wr_key r"
  "cd_attempt (candidate_of r) = wr_attempt r" "cd_receipt (candidate_of r) = row_key r"
  "cd_queue (candidate_of r) = work_queue r"
  by (simp_all add: candidate_of_def cd_receipt_def row_key_def cd_queue_def work_queue_def wr_id_def)

lemma read_ok:
  assumes ok: "cluster_ok sha C" and dig: "digest_ok sha" and ts: "cs_tasks C = ts @ Holding l # us"
    and cs: "distinct (map cd_id cs)"
      "\<And>c. c \<in> set cs \<Longrightarrow> \<exists>r \<in> set (rahi_processing (cs_db C)). c = candidate_of r \<and> work_queue r = le_key l"
  shows "cluster_ok sha (C\<lparr>cs_tasks := ts @ Claiming l cs # us\<rparr>)"
proof -
  have h: "task_ok sha (cs_db C) (cs_claims C) (tickets (cs_tasks C)) (Holding l)"
    using ok ts by (simp add: cluster_ok_def)
  have "untried sha (cs_db C) (cs_claims C) l c" if c: "c \<in> set cs" for c
  proof -
    obtain r where r: "r \<in> set (rahi_processing (cs_db C))" "c = candidate_of r" "work_queue r = le_key l"
      using cs(2) [OF c] by blast
    have gen: "genuine sha r'" if "r' \<in> set (rahi_processing (cs_db C))" for r'
      using ok that by (simp add: cluster_ok_def store_ok_def row_ok_def)
    have cg: "cd_genuine sha c" using gen [OF r(1)] r(2) by (simp add: cd_genuine_def genuine_def wr_id_def)
    have "wr_fence r' \<noteq> uint (le_token l)"
      if "r' \<in> set (rahi_processing (cs_db C))" "wr_id r' = cd_id c" for r'
      using row_queue_candidate [OF dig gen [OF that(1)] cg that(2)] h that(1) r
      by (simp add: unused_def)
    moreover have "cl_token cl \<noteq> le_token l" if "cl \<in> set (cs_claims C)" "claim_id sha cl = cd_id c" for cl
    proof -
      have "claim_ok sha (cs_db C) cl" using ok that(1) by (simp add: cluster_ok_def)
      from candidate_claim_queue [OF dig cg this] that(2) have "claim_queue cl = le_key l"
        using r by simp
      then show ?thesis using h that(1) by (auto simp: unused_def)
    qed
    ultimately show ?thesis using cg r by (simp add: untried_def)
  qed
  then have "task_ok sha (cs_db C) (cs_claims C) ls (Claiming l cs)" for ls
    using h cs(1) by simp
  moreover have "tickets (ts @ Claiming l cs # us) = tickets (cs_tasks C)"
      "bumps (ts @ Claiming l cs # us) = bumps (cs_tasks C)"
    using ts by simp_all
  ultimately show ?thesis using ok ts by (auto simp: cluster_ok_def)
qed

lemma distinct_sort_ids: "distinct (map f xs) \<Longrightarrow> distinct (map f (sort_key g xs))"
  by (metis distinct_map distinct_sort set_sort)

lemma answer_map_take: "\<exists>n. answer k xs = take n xs"
  by (rule answer_eq_take)

lemma distinct_map_take: "distinct (map f xs) \<Longrightarrow> distinct (map f (take n xs))"
  by (metis distinct_take take_map)

lemma read_identity_ok:
  assumes ok: "cluster_ok sha C" and dig: "digest_ok sha" and ts: "cs_tasks C = ts @ Holding l # us"
    and k: "short_key (pk_receipt k)" "le_key l = queue_lease_key k"
    and cs: "cs = take 1 (answer keep (select_eligible_by_identity (work_id sha k) now (cs_db C)))"
  shows "cluster_ok sha (C\<lparr>cs_tasks := ts @ Claiming l cs # us\<rparr>)"
proof (rule read_ok [OF ok dig ts])
  have "length cs \<le> 1" using cs by simp
  then show "distinct (map cd_id cs)" by (cases cs) auto
next
  fix c
  assume "c \<in> set cs"
  then have "c \<in> set (select_eligible_by_identity (work_id sha k) now (cs_db C))"
    unfolding cs by (meson in_set_takeD set_answer subsetD)
  then obtain r where r: "r \<in> set (rahi_processing (cs_db C))" "c = candidate_of r" "wr_id r = work_id sha k"
    by (auto simp: select_eligible_by_identity_def)
  have g: "genuine sha r" using ok r(1) by (simp add: cluster_ok_def store_ok_def row_ok_def)
  have "wr_key_digest r = key_digest sha (pk_receipt k)" and p: "wr_processor r = pk_processor k"
    using r(3) by (simp_all add: wr_id_def work_id_def)
  then have "row_key r = pk_receipt k" using digest_row_key dig g k(1) by blast
  then have "wr_namespace r = rk_namespace (pk_receipt k)"
    by (metis row_key_def receipt_key.select_convs(2))
  then have "work_queue r = le_key l" using p k(2) by (simp add: work_queue_def queue_lease_key_def)
  with r show "\<exists>r \<in> set (rahi_processing (cs_db C)). c = candidate_of r \<and> work_queue r = le_key l" by blast
qed

lemma read_queue_ok:
  assumes ok: "cluster_ok sha C" and dig: "digest_ok sha" and ts: "cs_tasks C = ts @ Holding l # us"
    and k: "le_key l = queue_key namespace processor"
    and cs: "cs = answer keep (select_eligible_by_queue namespace processor now limit (cs_db C))"
  shows "cluster_ok sha (C\<lparr>cs_tasks := ts @ Claiming l cs # us\<rparr>)"
proof (rule read_ok [OF ok dig ts])
  let ?rs = "sort_key wr_created_at (filter (\<lambda>r. wr_namespace r = namespace \<and> wr_processor r = processor \<and>
      eligible now r) (rahi_processing (cs_db C)))"
  obtain j where "cs = take j (take (unat limit) (map candidate_of ?rs))"
    using cs answer_eq_take [of keep "take (unat limit) (map candidate_of ?rs)"]
    unfolding select_eligible_by_queue_def by blast
  then obtain n where n: "cs = take n (map candidate_of ?rs)" by (simp add: take_take)
  have "distinct (map wr_id ?rs)"
    using ok by (intro distinct_sort_ids distinct_map_filter)
      (simp add: cluster_ok_def store_ok_def ids_ok_def)
  then have "distinct (map cd_id (map candidate_of ?rs))" by (simp add: comp_def)
  then show "distinct (map cd_id cs)" unfolding n by (rule distinct_map_take)
  fix c
  assume "c \<in> set cs"
  then have "c \<in> set (map candidate_of ?rs)" unfolding n by (rule in_set_takeD)
  then show "\<exists>r \<in> set (rahi_processing (cs_db C)). c = candidate_of r \<and> work_queue r = le_key l"
    using k by (auto simp: work_queue_def)
qed

text \<open>What a claim the batch answers says.\<close>

lemma candidate_key_id:
  assumes "candidate_key c = Inr k" "cd_genuine sha c"
  shows "work_id sha k = cd_id c" "pk_receipt k = cd_receipt c" "queue_lease_key k = cd_queue c"
proof -
  obtain kd v p q where i: "cd_id c = (kd, v, p, q)" by (cases "cd_id c")
  have r: "receipt_key_new a b e = Inr x \<Longrightarrow> x = \<lparr>rk_tenant = a, rk_namespace = b, rk_key = e\<rparr>" for a b e x
    by (auto simp: receipt_key_new_def receipt_key_build_def split: if_splits)
  from assms(1) show 1: "pk_receipt k = cd_receipt c"
    by (auto simp: candidate_key_def processing_key_new_def i cd_receipt_def dest!: r split: if_splits)
  from assms show "work_id sha k = cd_id c"
    using 1 uint_i64_to_u32
    by (auto simp: candidate_key_def processing_key_new_def i work_id_def cd_genuine_def split: if_splits)
  from assms(1) have "pk_processor k = p"
    by (auto simp: candidate_key_def processing_key_new_def i split: if_splits)
  then show "queue_lease_key k = cd_queue c"
    by (simp add: queue_lease_key_def cd_queue_def i 1 cd_receipt_def)
qed

lemma claimed_by_claim:
  assumes "cl \<in> set (claimed_by l c hold_for now ns)" "cd_genuine sha c"
  shows "claim_id sha cl = cd_id c" "claim_queue cl = cd_queue c" "cl_token cl = le_token l"
    "uint (cl_attempt cl) = i64_succ (cd_attempt c)" "short_key (pk_receipt (cl_key cl))"
    "ns \<noteq> [] \<and> hd ns = 1"
proof -
  obtain k n where cl: "cl = \<lparr>cl_key = k, cl_token = le_token l, cl_attempt = n,
        cl_expires_at = hold_until now hold_for\<rparr>"
      and k: "candidate_key c = Inr k" and n: "to_attempt (i64_succ (cd_attempt c)) = Inr n"
      and one: "ns \<noteq> [] \<and> hd ns = 1"
    using assms(1)
    by (auto simp: claimed_by_def claim_answer_def Let_def dest!: sym [of "Inr (Some cl)"]
        split: sum.splits option.splits if_splits list.splits)
  note ck = candidate_key_id [OF k assms(2)]
  show "claim_id sha cl = cd_id c" "claim_queue cl = cd_queue c" "cl_token cl = le_token l"
    using ck by (simp_all add: cl claim_id_def claim_queue_def)
  show "uint (cl_attempt cl) = i64_succ (cd_attempt c)"
    using n uint_i64_to_u32 by (simp add: cl to_attempt_def)
  show "short_key (pk_receipt (cl_key cl))" using ck assms(2) by (simp add: cl cd_genuine_def)
  show "ns \<noteq> [] \<and> hd ns = 1" by (rule one)
qed

lemma tickets_split:
  assumes "distinct (tickets (ts @ x # us))" "l \<in> set (tickets [x])" "tk \<in> set ts \<union> set us"
  shows "l \<notin> set (tickets [tk])"
proof -
  have "tickets (ts @ x # us) = tickets ts @ tickets [x] @ tickets us"
    by (simp add: tickets_def)
  moreover have "set (tickets [tk]) \<subseteq> set (tickets ts) \<union> set (tickets us)"
    using assms(3) by (auto simp: tickets_def)
  ultimately show ?thesis using assms(1,2) by auto
qed

lemma claim_step_facts:
  assumes ok: "cluster_ok sha C" and dig: "digest_ok sha"
    and ts: "cs_tasks C = ts @ Claiming l (c # cs) # us"
  shows "untried sha (cs_db C) (cs_claims C) l c" "token_ok (le_key l) (le_token l) (cs_db C)"
    "\<And>r. r \<in> set (rahi_processing (cs_db C)) \<Longrightarrow> wr_id r = cd_id c \<Longrightarrow> work_queue r = le_key l"
proof -
  have t: "task_ok sha (cs_db C) (cs_claims C) (tickets (cs_tasks C)) (Claiming l (c # cs))"
    using ok ts by (simp add: cluster_ok_def)
  then show u: "untried sha (cs_db C) (cs_claims C) l c" by simp
  from t show "token_ok (le_key l) (le_token l) (cs_db C)" by simp
  show "work_queue r = le_key l" if "r \<in> set (rahi_processing (cs_db C))" "wr_id r = cd_id c" for r
    using row_queue_candidate [OF dig _ _ that(2)] ok that(1) u
    by (simp add: cluster_ok_def store_ok_def row_ok_def untried_def)
qed

lemma claim_ok_step:
  assumes ok: "cluster_ok sha C" and dig: "digest_ok sha"
    and ts: "cs_tasks C = ts @ Claiming l (c # cs) # us" and g: "guard_statement l = Inr g"
    and run: "run_txn (g # claim_batch l c holder hold_for now) (cs_db C) = Inr (d, n # ns)"
    and won: "won = [] \<or> won = claimed_by l c hold_for now ns"
  shows "cluster_ok sha (C\<lparr>cs_db := d, cs_tasks := ts @ Claiming l cs # us, cs_claims := won @ cs_claims C\<rparr>)"
proof -
  note f = claim_step_facts [OF ok dig ts]
  have fok: "fences_ok (cs_db C)" using ok by (simp add: cluster_ok_def store_ok_def)
  have tick: "tickets (ts @ Claiming l cs # us) = tickets (cs_tasks C)"
      "bumps (ts @ Claiming l cs # us) = bumps (cs_tasks C)"
    using ts by simp_all
  have own: "task_ok sha (cs_db C) (cs_claims C) (tickets (cs_tasks C)) (Claiming l (c # cs))"
    using ok ts by (simp add: cluster_ok_def)
  show ?thesis
  proof (rule refenced_cluster_ok [OF ok claim_run(1) [OF run g fok] f(3) f(2)])
    show "cl_token cl \<noteq> le_token l" if "cl \<in> set (cs_claims C)" "claim_id sha cl = cd_id c" for cl
      using f(1) that by (simp add: untried_def)
    show "wr_fence r \<noteq> uint (le_token l)"
      if "r \<in> set (rahi_processing (cs_db C))" "wr_id r = cd_id c" for r
      using f(1) that by (simp add: untried_def)
    show "claim_id sha cl = cd_id c \<and> claim_queue cl = le_key l \<and> cl_token cl = le_token l \<and>
        uint (cl_attempt cl) = i64_succ (cd_attempt c) \<and> short_key (pk_receipt (cl_key cl))"
      if "cl \<in> set won" for cl
    proof -
      have "cd_genuine sha c" "cd_queue c = le_key l" using f(1) by (simp_all add: untried_def)
      then show ?thesis using claimed_by_claim [of cl l c hold_for now ns sha] that won by auto
    qed
    show "distinct (tickets (ts @ Claiming l cs # us))" "distinct (bumps (ts @ Claiming l cs # us))"
      using ok tick by (simp_all add: cluster_ok_def)
    fix tk
    assume "tk \<in> set (ts @ Claiming l cs # us)"
    then consider "tk = Claiming l cs" | "tk \<in> set ts \<union> set us" by auto
    then show "task_ok sha (cs_db C) (cs_claims C) (tickets (ts @ Claiming l cs # us)) tk \<and>
        clear_of (cs_db C) (le_key l) (cd_id c) (uint (le_token l)) tk"
    proof cases
      case 1
      then have "\<forall>c' \<in> set cs. cd_id c' \<noteq> cd_id c" using own by (auto simp: image_iff)
      with 1 own show ?thesis by (simp add: clear_of_def)
    next
      case 2
      have "l \<notin> set (tickets [tk])"
        using ok ts by (intro tickets_split [where x = "Claiming l (c # cs)", OF _ _ 2])
          (simp_all add: cluster_ok_def)
      then have "clear_of (cs_db C) (le_key l) (cd_id c) (uint (le_token l)) tk"
        using 2 ts f(1)
        by (intro others_clear [OF ok dig]) (auto simp: untried_def dest: candidates_same_queue [OF dig])
      moreover have "task_ok sha (cs_db C) (cs_claims C) (tickets (cs_tasks C)) tk"
        using ok ts 2 by (auto simp: cluster_ok_def)
      ultimately show ?thesis using tick by simp
    qed
  qed
qed

lemma renewal_row:
  assumes run: "run_txn [g, renew_row x i held now t] d = Inr (d', [m, n])"
    and g: "guard_statement l = Inr g"
  shows "renew_row x i held now t d = Inr (d', n)"
proof -
  obtain e where "g d = Inr (e, m)" "renew_row x i held now t e = Inr (d', n)" using run by auto
  moreover from this(1) have "e = d" using g guard_lease_state by (auto simp: guard_statement_Inr)
  ultimately show ?thesis by simp
qed

lemma renew_ok_step:
  assumes ok: "cluster_ok sha C" and dig: "digest_ok sha"
    and ts: "cs_tasks C = ts @ Holding l # us" and cl: "cl \<in> set (cs_claims C)"
    and key: "le_key l = queue_lease_key (cl_key cl)" and g: "guard_statement l = Inr g"
    and t: "fence_literal (le_token l) = Inr t"
    and run: "run_txn [g, renew_row (u64_to_sql (hold_until now hold_for)) (work_id sha (cl_key cl))
                (u64_to_sql (cl_token cl)) (u64_to_sql now) t] (cs_db C) = Inr (d, [m, n])"
    and won: "won = [] \<or> won = renewed_by l cl hold_for now n"
  shows "cluster_ok sha (C\<lparr>cs_db := d, cs_tasks := ts @ us, cs_claims := won @ cs_claims C\<rparr>)"
proof -
  have cok: "claim_ok sha (cs_db C) cl" using ok cl by (simp add: cluster_ok_def)
  have q: "le_key l = claim_queue cl" using key by (simp add: claim_queue_def)
  have own: "task_ok sha (cs_db C) (cs_claims C) (tickets (cs_tasks C)) (Holding l)"
    using ok ts by (simp add: cluster_ok_def)
  have tt: "t = uint (le_token l)" using t by (simp add: fence_literal_def split: if_splits)
  have held: "u64_to_sql (cl_token cl) = uint (cl_token cl)"
    using cok by (simp add: claim_ok_def token_ok_def u64_to_sql_def)
  have rowq: "work_queue r = le_key l"
    if "r \<in> set (rahi_processing (cs_db C))" "wr_id r = claim_id sha cl" for r
    using row_queue_claim [OF dig _ _ that(2)] ok cok that(1) q
    by (simp add: cluster_ok_def store_ok_def row_ok_def claim_ok_def)
  have re: "refenced (cs_db C) d (claim_id sha cl) (uint (le_token l)) (uint (cl_attempt cl))"
    unfolding claim_id_def
    by (rule renew_row_refenced [OF renewal_row [OF run g, unfolded tt]])
      (use cok in \<open>simp add: claim_ok_def held claim_id_def\<close>)
  have tick: "tickets (cs_tasks C) = tickets ts @ l # tickets us" using ts by simp
  have dist: "distinct (tickets (cs_tasks C))" "distinct (bumps (cs_tasks C))"
    using ok by (simp_all add: cluster_ok_def)
  show ?thesis
  proof (rule refenced_cluster_ok [OF ok re rowq])
    show "token_ok (le_key l) (le_token l) (cs_db C)" using own by simp
    show "cl_token c \<noteq> le_token l" if "c \<in> set (cs_claims C)" "claim_id sha c = claim_id sha cl" for c
    proof -
      have "claim_ok sha (cs_db C) c" using ok that(1) by (simp add: cluster_ok_def)
      from claims_same_queue [OF dig this cok that(2)] show ?thesis
        using own that(1) q by (auto simp: unused_def)
    qed
    show "wr_fence r \<noteq> uint (le_token l)"
      if "r \<in> set (rahi_processing (cs_db C))" "wr_id r = claim_id sha cl" for r
      using own that(1) rowq [OF that] by (simp add: unused_def)
    show "claim_id sha c = claim_id sha cl \<and> claim_queue c = le_key l \<and> cl_token c = le_token l \<and>
        uint (cl_attempt c) = uint (cl_attempt cl) \<and> short_key (pk_receipt (cl_key c))"
      if "c \<in> set won" for c
      using that won cok q by (auto simp: renewed_by_def claim_id_def claim_queue_def claim_ok_def split: if_splits)
    show "distinct (tickets (ts @ us))" "distinct (bumps (ts @ us))" using dist ts by simp_all
    fix tk
    assume tk: "tk \<in> set (ts @ us)"
    have "l \<notin> set (tickets [tk])"
      using dist tk unfolding ts by (intro tickets_split [where x = "Holding l" and ts = ts and us = us]) auto
    then have "clear_of (cs_db C) (le_key l) (claim_id sha cl) (uint (le_token l)) tk"
      using tk ts by (intro others_clear [OF ok dig])
        (auto simp: tick q dest: candidate_claim_queue [OF dig _ cok])
    moreover have "task_ok sha (cs_db C) (cs_claims C) (tickets (cs_tasks C)) tk"
      using ok ts tk by (auto simp: cluster_ok_def)
    ultimately show "task_ok sha (cs_db C) (cs_claims C) (tickets (ts @ us)) tk \<and>
        clear_of (cs_db C) (le_key l) (claim_id sha cl) (uint (le_token l)) tk"
      by (auto simp: tick intro: task_ok_mono)
  qed
qed

lemma forget_ok:
  assumes "cluster_ok sha C" "cs_tasks C = ts @ t # us"
  shows "cluster_ok sha (C\<lparr>cs_tasks := ts @ us\<rparr>)"
proof -
  have "tickets (cs_tasks C) = tickets ts @ tickets [t] @ tickets us"
      "bumps (cs_tasks C) = bumps ts @ bumps [t] @ bumps us"
    using assms(2) by (simp_all add: tickets_def bumps_def)
  then show ?thesis using assms by (auto simp: cluster_ok_def intro: task_ok_mono)
qed

lemma cluster_step_ok:
  assumes "cluster_step sha C C'" "digest_ok sha" "cluster_ok sha C"
  shows "cluster_ok sha C'"
  using assms
proof (cases rule: cluster_step.cases)
  case step_bump
  then show ?thesis using assms(3) by (simp add: bump_ok)
next
  case step_token
  then show ?thesis using assms(3) by (simp add: token_ok_step)
next
  case step_read_identity
  then show ?thesis using assms(2,3) by (simp add: read_identity_ok)
next
  case step_read_queue
  then show ?thesis using assms(2,3) by (simp add: read_queue_ok)
next
  case step_claim
  then show ?thesis using assms(2,3) claim_ok_step by blast
next
  case step_renew
  then show ?thesis using assms(2,3) renew_ok_step by blast
next
  case step_batch
  then show ?thesis using assms(3) by (simp add: cluster_ok_rel batch_work_rel)
next
  case step_forget
  then show ?thesis using assms(3) by (simp add: forget_ok)
qed

lemma cluster_steps_ok:
  "cluster_steps sha C C' \<Longrightarrow> digest_ok sha \<Longrightarrow> cluster_ok sha C \<Longrightarrow> cluster_ok sha C'"
  by (induction rule: rtranclp_induct) (auto intro: cluster_step_ok)

end
