(* ===== verification/Work_Facts.thy ===== *)
theory Work_Facts
  imports Work_Reach
begin

text \<open>
  What the invariant gives a claim: once its row was reclaimed, completed, failed or buried, no later
  step gives it back, so its guard aborts every batch while the row is there; a done row is left
  alone by every step that does not delete it; and a token is above all handed out before it.
\<close>

lemma ids_unique:
  "ids_ok d \<Longrightarrow> r \<in> set (rahi_processing d) \<Longrightarrow> r' \<in> set (rahi_processing d) \<Longrightarrow>
     wr_id r = wr_id r' \<Longrightarrow> r = r'"
  by (simp add: ids_ok_def distinct_map inj_on_def)

section \<open>Lost claims\<close>

definition lost :: "(string \<Rightarrow> string) \<Rightarrow> 'a sdb \<Rightarrow> claim \<Rightarrow> bool" where
  "lost sha d cl \<longleftrightarrow>
     (\<forall>r \<in> set (rahi_processing d).
        wr_id r = claim_id sha cl \<longrightarrow> wr_fence r \<noteq> uint (cl_token cl) \<or> wr_state r \<noteq> Claimed)"

lemma lost_rel:
  assumes rel: "work_rel sha d d'" and ok: "claim_ok sha d cl" and l: "lost sha d cl"
  shows "lost sha d' cl"
  unfolding lost_def
proof (intro ballI impI)
  fix r'
  assume r': "r' \<in> set (rahi_processing d')" "wr_id r' = claim_id sha cl"
  show "wr_fence r' \<noteq> uint (cl_token cl) \<or> wr_state r' \<noteq> Claimed"
  proof (cases "wr_fence r' = 0")
    case True
    then show ?thesis using ok by (simp add: claim_ok_def token_ok_def)
  next
    case False
    from rel_row [OF rel r'(1) False] obtain r where r: "r \<in> set (rahi_processing d)" "came r r'" .
    then have "wr_fence r \<noteq> uint (cl_token cl) \<or> wr_state r \<noteq> Claimed"
      using l r'(2) cameD(1) [OF r(2)] by (simp add: lost_def)
    then show ?thesis using cameD(2,5) [OF r(2)] by auto
  qed
qed

lemma lost_refenced:
  assumes re: "refenced d d' i t n" and l: "lost sha d cl"
    and other: "claim_id sha cl = i \<Longrightarrow> uint (cl_token cl) \<noteq> t"
  shows "lost sha d' cl"
  unfolding lost_def
proof (intro ballI impI)
  fix r'
  assume r': "r' \<in> set (rahi_processing d')" "wr_id r' = claim_id sha cl"
  show "wr_fence r' \<noteq> uint (cl_token cl) \<or> wr_state r' \<noteq> Claimed"
    using re r'(1)
  proof (cases rule: refencedE)
    case old
    then show ?thesis using l r'(2) by (simp add: lost_def)
  next
    case (new r)
    then show ?thesis using other r'(2) by auto
  qed
qed

lemma claims_grow: "cluster_step sha C C' \<Longrightarrow> set (cs_claims C) \<subseteq> set (cs_claims C')"
  by (erule cluster_step.cases) auto

lemma claim_free:
  assumes "cluster_ok sha C" "digest_ok sha" "cs_tasks C = ts @ Claiming l (c # cs) # us"
    and "cl \<in> set (cs_claims C)" "claim_id sha cl = cd_id c"
  shows "uint (cl_token cl) \<noteq> uint (le_token l)"
  using claim_step_facts(1) [OF assms(1-3)] assms(4,5) by (auto simp: untried_def word_uint_eq_iff)

lemma renew_free:
  assumes ok: "cluster_ok sha C" and dig: "digest_ok sha" and ts: "cs_tasks C = ts @ Holding l # us"
    and cl: "cl \<in> set (cs_claims C)" "le_key l = queue_lease_key (cl_key cl)"
    and c: "c \<in> set (cs_claims C)" "claim_id sha c = claim_id sha cl"
  shows "uint (cl_token c) \<noteq> uint (le_token l)"
proof -
  have "claim_ok sha (cs_db C) c" "claim_ok sha (cs_db C) cl" using ok cl c by (simp_all add: cluster_ok_def)
  from claims_same_queue [OF dig this c(2)] have "claim_queue c = le_key l"
    using cl(2) by (simp add: claim_queue_def)
  moreover have "task_ok sha (cs_db C) (cs_claims C) (tickets (cs_tasks C)) (Holding l)"
    using ok ts by (simp add: cluster_ok_def)
  ultimately show ?thesis using c(1) by (simp add: unused_def)
qed

text \<open>What a claim and a renewal do to the rows, in one relation.\<close>

lemma claim_step_refenced:
  assumes "cluster_ok sha C" "guard_statement l = Inr g"
    and "run_txn (g # claim_batch l c holder hold_for now) (cs_db C) = Inr (d, n # ns)"
  shows "refenced (cs_db C) d (cd_id c) (uint (le_token l)) (i64_succ (cd_attempt c))"
  using claim_run(1) [OF assms(3,2)] assms(1) by (simp add: cluster_ok_def store_ok_def)

lemma renew_step_refenced:
  assumes ok: "cluster_ok sha C" and cl: "cl \<in> set (cs_claims C)" and g: "guard_statement l = Inr g"
    and t: "fence_literal (le_token l) = Inr t"
    and run: "run_txn [g, renew_row x (work_id sha (cl_key cl)) (u64_to_sql (cl_token cl)) now t]
                (cs_db C) = Inr (d, [m, n])"
  shows "refenced (cs_db C) d (claim_id sha cl) (uint (le_token l)) (uint (cl_attempt cl))"
proof -
  have cok: "claim_ok sha (cs_db C) cl" using ok cl by (simp add: cluster_ok_def)
  have tt: "t = uint (le_token l)" using t by (simp add: fence_literal_def split: if_splits)
  have "u64_to_sql (cl_token cl) = uint (cl_token cl)"
    using cok by (simp add: claim_ok_def token_ok_def u64_to_sql_def)
  then show ?thesis
    unfolding claim_id_def using cok
    by (intro renew_row_refenced [OF renewal_row [OF run g, unfolded tt]])
      (simp add: claim_ok_def claim_id_def)
qed

lemma lost_step:
  assumes step: "cluster_step sha C C'" and dig: "digest_ok sha" and ok: "cluster_ok sha C"
    and cl: "cl \<in> set (cs_claims C)" and l: "lost sha (cs_db C) cl"
  shows "lost sha (cs_db C') cl"
  using step
proof cases
  case (step_bump key d n)
  then show ?thesis using l bump_work [OF step_bump(3)] by (simp add: lost_def)
next
  case (step_claim ts l' c cs us g holder hold_for now d n ns won)
  have "lost sha d cl"
    using lost_refenced [OF claim_step_refenced [OF ok step_claim(3,4)] l]
      claim_free [OF ok dig step_claim(2) cl] by blast
  then show ?thesis using step_claim(1) by simp
next
  case (step_renew ts l' us c g t hold_for now d m n won)
  have "lost sha d cl"
    using lost_refenced [OF renew_step_refenced [OF ok step_renew(3,5,6,7)] l]
      renew_free [OF ok dig step_renew(2,3,4) cl] by blast
  then show ?thesis using step_renew(1) by simp
next
  case (step_batch ps d ns)
  have "claim_ok sha (cs_db C) cl" using ok cl by (simp add: cluster_ok_def)
  with lost_rel [OF batch_work_rel [OF step_batch(2,3)] _ l] step_batch(1) show ?thesis by simp
qed (use l in simp_all)

lemma lost_steps:
  assumes "cluster_steps sha C C'" "digest_ok sha" "cluster_ok sha C"
    and "cl \<in> set (cs_claims C)" "lost sha (cs_db C) cl"
  shows "lost sha (cs_db C') cl \<and> cl \<in> set (cs_claims C') \<and> cluster_ok sha C'"
  using assms(1)
proof (induction rule: rtranclp_induct)
  case base
  then show ?case using assms by simp
next
  case (step D E)
  then show ?case
    using lost_step [OF step(2) assms(2)] claims_grow [OF step(2)] cluster_step_ok [OF step(2) assms(2)]
    by blast
qed

section \<open>The guard against a lost claim\<close>

definition claim_gone :: error where
  "claim_gone = not_null_failed ''rahi_processing.fence''"

lemma lost_guard:
  assumes l: "lost sha d cl" and ok: "claim_ok sha d cl"
    and r: "r \<in> set (rahi_processing d)" "wr_id r = claim_id sha cl"
  shows "run_txn (work_guard sha [] cl now @ rest) d = Inl claim_gone"
proof -
  have "u64_to_sql (cl_token cl) = uint (cl_token cl)"
    using ok by (simp add: claim_ok_def token_ok_def u64_to_sql_def)
  then have "\<not> holds_row (u64_to_sql (cl_token cl)) (u64_to_sql now) r"
    using l r by (auto simp: lost_def holds_row_def)
  then have "guard_claim (u64_to_sql (cl_token cl)) (u64_to_sql now) (work_id sha (cl_key cl)) d
      = Inl claim_gone"
    using r by (auto simp: guard_claim_def claim_gone_def claim_id_def)
  then show ?thesis by (simp add: work_guard_def)
qed

lemma zombie_guard:
  assumes "cluster_steps sha C C'" "digest_ok sha" "cluster_ok sha C"
    and "cl \<in> set (cs_claims C)" "lost sha (cs_db C) cl"
    and "r \<in> set (rahi_processing (cs_db C'))" "wr_id r = claim_id sha cl"
  shows "run_txn (work_guard sha [] cl now @ rest) (cs_db C') = Inl claim_gone"
proof -
  have "lost sha (cs_db C') cl" "claim_ok sha (cs_db C') cl"
    using lost_steps [OF assms(1-5)] by (simp_all add: cluster_ok_def)
  then show ?thesis using lost_guard assms(6,7) by blast
qed

lemma complete_is_guarded:
  "work_complete sha [] cl now = work_guard sha [] cl now @
     [complete_row (work_id sha (cl_key cl)),
      close_attempt_done (u64_to_sql now) (work_id sha (cl_key cl)) (uint (cl_attempt cl))]"
  by (simp add: work_complete_def)

lemma fail_is_guarded:
  "work_fail sha [] cl f p now = Inr ss \<Longrightarrow> \<exists>rest. ss = work_guard sha [] cl now @ rest"
  by (auto simp: work_fail_def Let_def)

text \<open>A row no claim of the identity can hold any more: done, failed, buried or pending.\<close>

lemma released_lost:
  assumes "ids_ok d" "r \<in> set (rahi_processing d)" "wr_id r = claim_id sha cl"
    and "wr_state r \<noteq> Claimed \<or> wr_fence r \<noteq> uint (cl_token cl)"
  shows "lost sha d cl"
proof -
  have "r' = r" if "r' \<in> set (rahi_processing d)" "wr_id r' = claim_id sha cl" for r'
    using ids_unique [OF assms(1) that(1) assms(2)] that(2) assms(3) by simp
  then show ?thesis using assms(4) by (auto simp: lost_def)
qed

section \<open>A done row\<close>

lemma done_refenced:
  assumes re: "refenced d d' i t n" and ids: "ids_ok d"
    and r: "r \<in> set (rahi_processing d)" "wr_state r = Done"
    and r': "r' \<in> set (rahi_processing d')" "wr_id r' = wr_id r"
  shows "wr_state r' = Done"
  using re r'(1)
proof (cases rule: refencedE)
  case old
  then have "r' = r" using ids_unique [OF ids _ r(1)] r' by simp
  then show ?thesis using r by simp
next
  case (new q)
  then have "q = r" using ids_unique [OF ids _ r(1)] r' by simp
  then show ?thesis using new r by simp
qed

lemma done_rel:
  assumes rel: "work_rel sha d d'" and ids: "ids_ok d"
    and r: "r \<in> set (rahi_processing d)" "wr_state r = Done"
    and r': "r' \<in> set (rahi_processing d')" "wr_id r' = wr_id r"
  shows "wr_state r' = Done \<or> recent sha r'"
proof -
  consider "recent sha r'" | q where "q \<in> set (rahi_processing d)" "came q r'"
    using rel r'(1) by (auto simp: work_rel_def moves_def)
  then show ?thesis
  proof cases
    case 2
    then have "q = r" using ids_unique [OF ids _ r(1)] r' cameD(1) [OF 2(2)] by simp
    then show ?thesis using cameD(6) [OF 2(2)] r by simp
  qed simp
qed

lemma done_step:
  assumes step: "cluster_step sha C C'" and ok: "cluster_ok sha C"
    and r: "r \<in> set (rahi_processing (cs_db C))" "wr_state r = Done"
    and r': "r' \<in> set (rahi_processing (cs_db C'))" "wr_id r' = wr_id r"
  shows "wr_state r' = Done \<or> recent sha r'"
proof -
  have ids: "ids_ok (cs_db C)" using ok by (simp add: cluster_ok_def store_ok_def)
  have same: "wr_state r' = Done" if "r' \<in> set (rahi_processing (cs_db C))"
    using ids_unique [OF ids that r(1)] r' r(2) by simp
  show ?thesis
    using step
  proof cases
    case (step_bump key d n)
    then show ?thesis using same r' bump_work [OF step_bump(3)] by simp
  next
    case (step_claim ts l' c cs us g holder hold_for now d n ns won)
    then show ?thesis
      using done_refenced [OF claim_step_refenced [OF ok step_claim(3,4)] ids r] r' by simp
  next
    case (step_renew ts l' us c g t hold_for now d m n won)
    then show ?thesis
      using done_refenced [OF renew_step_refenced [OF ok step_renew(3,5,6,7)] ids r] r' by simp
  next
    case (step_batch ps d ns)
    then show ?thesis using done_rel [OF batch_work_rel [OF step_batch(2,3)] ids r] r' by simp
  qed (use same r' in simp_all)
qed

section \<open>Tokens\<close>

lemma reached_ok: "cluster_steps sha (cluster_start x) C \<Longrightarrow> digest_ok sha \<Longrightarrow> cluster_ok sha C"
  by (rule cluster_steps_ok) (auto intro: cluster_start_ok)

text \<open>A token read back from a bump is above every other of its key: of leases, rows and claims.\<close>

lemma token_above:
  assumes ok: "cluster_ok sha C" and ts: "Bumped key \<in> set (cs_tasks C)"
    and sel: "select_token key (cs_db C) = raw # rest"
  shows "\<And>l. l \<in> set (tickets (cs_tasks C)) \<Longrightarrow> le_key l = key \<Longrightarrow> uint (le_token l) < raw"
    and "\<And>r. r \<in> set (rahi_processing (cs_db C)) \<Longrightarrow> work_queue r = key \<Longrightarrow> wr_fence r < raw"
    and "\<And>cl. cl \<in> set (cs_claims C) \<Longrightarrow> claim_queue cl = key \<Longrightarrow> uint (cl_token cl) < raw"
proof -
  have fok: "fences_ok (cs_db C)" using ok by (simp add: cluster_ok_def store_ok_def)
  have new: "newest key (cs_db C) = raw"
    using sel select_token_fence [OF fok, of key] by (auto simp: newest_def split: option.splits)
  have b: "task_ok sha (cs_db C) (cs_claims C) (tickets (cs_tasks C)) (Bumped key)"
    using ok ts unfolding cluster_ok_def by blast
  show "uint (le_token l) < raw" if "l \<in> set (tickets (cs_tasks C))" "le_key l = key" for l
    using b that new by (simp add: behind_def)
  show "wr_fence r < raw" if "r \<in> set (rahi_processing (cs_db C))" "work_queue r = key" for r
  proof -
    have "wr_fence r \<le> raw" using ok that new by (auto simp: cluster_ok_def store_ok_def row_ok_def)
    then show ?thesis using b that new by (force simp: unused_def)
  qed
  show "uint (cl_token cl) < raw" if "cl \<in> set (cs_claims C)" "claim_queue cl = key" for cl
  proof -
    have "uint (cl_token cl) \<le> raw"
      using ok that new by (auto simp: cluster_ok_def claim_ok_def token_ok_def)
    then show ?thesis using b that new by (force simp: unused_def)
  qed
qed


text \<open>
  The guard is a condition on the row: once an erasure or a compaction has deleted it, the batch of
  whoever still holds a claim commits.
\<close>

lemma guard_of_gone_row:
  "work_id sha (cl_key cl) \<notin> wr_id ` set (rahi_processing d) \<Longrightarrow>
     is_ok (run_txn (work_guard sha [] cl now @ [app_sql (\<lambda>x. Inr (f x))]) d)"
  by (auto simp: work_guard_def guard_claim_def app_sql_def is_ok_def) (metis imageI)

end
