(* ===== verification/Receipt_Facts.thy ===== *)
theory Receipt_Facts
  imports Work_Invariant
begin

text \<open>
  The digests that name a receipt: the length-prefixed encoding is injective, so under a collision
  free hash two identities share a key digest only if they are the same, and so do two synthetic
  keys only if they were built from the same parts.
\<close>

section \<open>Eight bytes, most significant first\<close>

lemma digits_determine:
  fixes n m b :: nat
  assumes "\<And>i. i < k \<Longrightarrow> n div b ^ i mod b = m div b ^ i mod b" "n < b ^ k" "m < b ^ k"
  shows "n = m"
  using assms
proof (induction k arbitrary: n m)
  case 0
  then show ?case by simp
next
  case (Suc k)
  have b: "0 < b" using Suc.prems(2) by (cases b) auto
  have low: "n mod b = m mod b" using Suc.prems(1) [of 0] by simp
  have "n div b div b ^ i mod b = m div b div b ^ i mod b" if "i < k" for i
    using Suc.prems(1) [of "Suc i"] that by (simp add: div_mult2_eq)
  moreover have "n div b < b ^ k" "m div b < b ^ k"
    using Suc.prems(2,3) b by (simp_all add: less_mult_imp_div_less mult.commute)
  ultimately have "n div b = m div b" by (rule Suc.IH)
  with low show ?case by (metis div_mult_mod_eq)
qed

lemma be_bytes_length [simp]: "length (be_bytes n) = 8"
  by (simp add: be_bytes_def)

lemma be_bytes_inj:
  assumes "be_bytes n = be_bytes m" "n < 2 ^ 64" "m < 2 ^ 64"
  shows "n = m"
proof (rule digits_determine [where b = 256 and k = 8])
  have "map (of_char :: char \<Rightarrow> nat) (be_bytes n) = map of_char (be_bytes m)" using assms(1) by simp
  then have eq: "\<forall>i \<in> {0, 1, 2, 3, 4, 5, 6, 7}. n div 256 ^ i mod 256 = m div 256 ^ i mod 256"
    by (simp add: be_bytes_def)
  show "n div 256 ^ i mod 256 = m div 256 ^ i mod 256" if "i < 8" for i
  proof -
    have "i \<in> {0, 1, 2, 3, 4, 5, 6, 7}" using that by auto
    with eq show ?thesis by blast
  qed
  show "n < 256 ^ 8" "m < 256 ^ 8" using assms(2,3) by simp_all
qed

section \<open>The encoding\<close>

definition framed :: "string \<Rightarrow> string" where
  "framed p = be_bytes (length p) @ p"

lemma framed_prefix:
  assumes "framed p @ x = framed q @ y" "length p < 2 ^ 64" "length q < 2 ^ 64"
  shows "p = q \<and> x = y"
proof -
  have "be_bytes (length p) = be_bytes (length q)" and rest: "p @ x = q @ y"
    using assms(1) by (simp_all add: framed_def)
  then have "length p = length q" using be_bytes_inj assms(2,3) by blast
  with rest show ?thesis by simp
qed

lemma framed_not_Nil [simp]: "framed p \<noteq> []"
proof -
  have "8 \<le> length (framed p)" by (simp add: framed_def)
  then show ?thesis by auto
qed

lemma frames_inj:
  "concat (map framed ps) = concat (map framed qs) \<Longrightarrow>
     \<forall>p \<in> set ps \<union> set qs. length p < 2 ^ 64 \<Longrightarrow> ps = qs"
proof (induction ps arbitrary: qs)
  case Nil
  then show ?case by (cases qs) auto
next
  case (Cons p ps)
  show ?case
  proof (cases qs)
    case Nil
    with Cons.prems show ?thesis by simp
  next
    case (Cons q rs)
    with Cons.prems have "p = q \<and> concat (map framed ps) = concat (map framed rs)"
      by (intro framed_prefix) auto
    with Cons Cons.prems(2) Cons.IH [of rs] show ?thesis by auto
  qed
qed

lemma domain_separated_inj:
  "domain_separated label ps = domain_separated label qs \<Longrightarrow>
     \<forall>p \<in> set ps \<union> set qs. length p < 2 ^ 64 \<Longrightarrow> ps = qs"
  using frames_inj [of ps qs] by (simp add: domain_separated_def framed_def [abs_def])

section \<open>Digests\<close>

text \<open>What \<^verbatim>\<open>attest_ledger_core::sha256_hex\<close> promises: the prefix, and no collision.\<close>

definition sha_ok :: "(string \<Rightarrow> string) \<Rightarrow> bool" where
  "sha_ok sha \<longleftrightarrow> (\<forall>b. starts_with ''sha256:'' (sha b)) \<and> (\<forall>b b'. sha b = sha b' \<longrightarrow> b = b')"

lemma sha256_hex_raw_inj:
  assumes "sha_ok sha" "sha256_hex_raw sha b = sha256_hex_raw sha b'"
  shows "b = b'"
proof -
  obtain h h' where "sha b = ''sha256:'' @ h" "sha b' = ''sha256:'' @ h'"
    using assms(1) unfolding sha_ok_def starts_with_iff by metis
  then show ?thesis
    using assms by (simp add: sha256_hex_raw_def strip_prefix_def sha_ok_def)
qed

lemma key_digest_inj:
  assumes "sha_ok sha" "short_key k" "short_key k'" "key_digest sha k = key_digest sha k'"
  shows "k = k'"
proof -
  have "domain_separated KEY_DOMAIN [rk_tenant k, rk_namespace k, rk_key k] =
      domain_separated KEY_DOMAIN [rk_tenant k', rk_namespace k', rk_key k']"
    using sha256_hex_raw_inj [OF assms(1)] assms(4) by (simp add: key_digest_def)
  then have "[rk_tenant k, rk_namespace k, rk_key k] = [rk_tenant k', rk_namespace k', rk_key k']"
    by (rule domain_separated_inj) (use assms(2,3) in \<open>auto simp: short_key_def\<close>)
  then show ?thesis by (cases k; cases k') simp
qed

lemma sha_digest_ok: "sha_ok sha \<Longrightarrow> digest_ok sha"
  using key_digest_inj by (auto simp: digest_ok_def)

lemma synthetic_inj:
  assumes "sha_ok sha" "receipt_key_synthetic sha t ns ps = Inr k" "receipt_key_synthetic sha t' ns' qs = Inr k'"
    and "\<forall>p \<in> set ps \<union> set qs. length p < 2 ^ 64" and "rk_key k = rk_key k'"
  shows "ps = qs"
proof -
  have "sha256_hex_raw sha (domain_separated SYNTHETIC_DOMAIN ps) =
      sha256_hex_raw sha (domain_separated SYNTHETIC_DOMAIN qs)"
    using assms(2,3,5) by (auto simp: receipt_key_synthetic_def receipt_key_build_def split: if_splits)
  then show ?thesis
    using sha256_hex_raw_inj [OF assms(1)] domain_separated_inj assms(4) by blast
qed

lemma synthetic_marker:
  "receipt_key_synthetic sha t ns ps = Inr k \<Longrightarrow> is_synthetic k \<and> key_kind k = ''synthetic''"
  by (auto simp: receipt_key_synthetic_def receipt_key_build_def is_synthetic_def key_kind_def
      starts_with_iff split: if_splits)

text \<open>A hash for the examples: the identity under the prefix.\<close>

definition example_sha :: "string \<Rightarrow> string" where
  "example_sha b = ''sha256:'' @ b"

lemma example_sha_ok: "sha_ok example_sha"
  by (simp add: sha_ok_def example_sha_def starts_with_iff)

text \<open>An explicit key may carry the marker: it is then taken for a synthetic one.\<close>

lemma explicit_key_passes_for_synthetic:
  "\<exists>k. receipt_key_new ''t'' ''ns'' ''syn:x'' = Inr k \<and> key_kind k = ''synthetic''"
  by (simp add: receipt_key_new_def receipt_key_build_def MAX_NAMESPACE_BYTES_def MAX_KEY_BYTES_def
      key_kind_def is_synthetic_def starts_with_def)

text \<open>
  What the staging calls keep of the receipt tables: one head per identity, every revision under a
  head, and under a live head exactly the revisions one to its own, among them the accepted one it
  names; under an erased head none. Then the compare and swap of the guards, and erasure for good.
\<close>

section \<open>The invariant of the two tables\<close>

definition numbers :: "receipt_row list \<Rightarrow> string \<Rightarrow> int set" where
  "numbers rs kd = rv_revision ` {r \<in> set rs. rv_key_digest r = kd}"

definition accepted_ok :: "receipt_row list \<Rightarrow> head_row \<Rightarrow> bool" where
  "accepted_ok rs h \<longleftrightarrow>
     (case hr_accepted_revision h of
        None \<Rightarrow> hr_accepted_digest h = None
      | Some a \<Rightarrow> \<exists>r \<in> set rs. rv_key_digest r = hr_key_digest h \<and> rv_revision r = a \<and>
          rv_disposition r = ''accepted'' \<and> hr_accepted_digest h = Some (rv_digest r))"

definition head_ok :: "receipt_row list \<Rightarrow> head_row \<Rightarrow> bool" where
  "head_ok rs h \<longleftrightarrow>
     (if hr_erased h = 0
      then numbers rs (hr_key_digest h) = {1..hr_revision h} \<and> 0 \<le> hr_revision h \<and> accepted_ok rs h
      else numbers rs (hr_key_digest h) = {} \<and> hr_key h = None \<and>
        (\<exists>t. hr_erased_at h = Some t \<and> 0 \<le> t))"

definition row_key_of :: "receipt_row \<Rightarrow> string \<times> int" where
  "row_key_of r = (rv_key_digest r, rv_revision r)"

definition tables_ok :: "head_row list \<Rightarrow> receipt_row list \<Rightarrow> bool" where
  "tables_ok hs rs \<longleftrightarrow>
     distinct (map hr_key_digest hs) \<and> distinct (map row_key_of rs) \<and>
     rv_key_digest ` set rs \<subseteq> hr_key_digest ` set hs \<and> (\<forall>h \<in> set hs. head_ok rs h)"

definition receipts_ok :: "'a sdb \<Rightarrow> bool" where
  "receipts_ok d \<longleftrightarrow> tables_ok (rahi_receipt_head d) (rahi_receipt d)"

definition same_receipts :: "'a sdb \<Rightarrow> 'a sdb \<Rightarrow> bool" where
  "same_receipts d d' \<longleftrightarrow>
     rahi_receipt_head d' = rahi_receipt_head d \<and> rahi_receipt d' = rahi_receipt d"

lemma numbers_Nil_iff: "numbers rs kd = {} \<longleftrightarrow> (\<forall>r \<in> set rs. rv_key_digest r \<noteq> kd)"
  by (auto simp: numbers_def)

lemma numbers_append [simp]: "numbers (rs @ us) kd = numbers rs kd \<union> numbers us kd"
  by (auto simp: numbers_def)

lemma numbers_single [simp]:
  "numbers [r] kd = (if rv_key_digest r = kd then {rv_revision r} else {})"
  by (auto simp: numbers_def)

lemma head_unique:
  "distinct (map hr_key_digest hs) \<Longrightarrow> h \<in> set hs \<Longrightarrow> h' \<in> set hs \<Longrightarrow>
     hr_key_digest h = hr_key_digest h' \<Longrightarrow> h = h'"
  by (simp add: distinct_map inj_on_def)

lemma receipts_ok_same: "same_receipts d d' \<Longrightarrow> receipts_ok d' = receipts_ok d"
  by (simp add: same_receipts_def receipts_ok_def)

lemma accepted_cong:
  "hr_key_digest h' = hr_key_digest h \<Longrightarrow> hr_accepted_revision h' = hr_accepted_revision h \<Longrightarrow>
     hr_accepted_digest h' = hr_accepted_digest h \<Longrightarrow> accepted_ok rs h' = accepted_ok rs h"
  by (auto simp: accepted_ok_def split: option.splits)

text \<open>A change that keeps each head's own columns, and each revision's.\<close>

lemma numbers_cong:
  "map row_key_of rs' = map row_key_of rs \<Longrightarrow> numbers rs' kd = numbers rs kd"
proof -
  assume "map row_key_of rs' = map row_key_of rs"
  then have "row_key_of ` set rs' = row_key_of ` set rs" by (metis set_map)
  moreover have "numbers xs kd = snd ` {p \<in> row_key_of ` set xs. fst p = kd}" for xs
    by (force simp: numbers_def row_key_of_def)
  ultimately show ?thesis by simp
qed

lemma tables_ok_head:
  "tables_ok hs rs \<Longrightarrow> h \<in> set hs \<Longrightarrow> head_ok rs h"
  by (simp add: tables_ok_def)

section \<open>Seeds\<close>

lemma seed_ok:
  assumes ok: "tables_ok hs rs" and new: "hr_key_digest h \<notin> hr_key_digest ` set hs"
    and h: "hr_revision h = 0" "hr_accepted_revision h = None" "hr_accepted_digest h = None"
      "hr_erased h \<noteq> 0 \<longrightarrow> hr_key h = None \<and> (\<exists>t. hr_erased_at h = Some t \<and> 0 \<le> t)"
  shows "tables_ok (hs @ [h]) rs"
proof -
  have "numbers rs (hr_key_digest h) = {}"
    using ok new unfolding tables_ok_def numbers_Nil_iff by (metis imageI subsetD)
  then have "head_ok rs h" using h by (simp add: head_ok_def accepted_ok_def)
  then show ?thesis using ok new by (auto simp: tables_ok_def)
qed

lemma seed_head_ok:
  "seed_head kd k ru tu now d = Inr (d', n) \<Longrightarrow> receipts_ok d \<Longrightarrow>
     receipts_ok d' \<and> kd \<in> hr_key_digest ` set (rahi_receipt_head d')"
  by (auto simp: seed_head_def receipts_ok_def intro!: seed_ok split: if_splits)

lemma seed_erased_ok:
  "seed_erased kd now d = Inr (d', n) \<Longrightarrow> 0 \<le> now \<Longrightarrow> receipts_ok d \<Longrightarrow> receipts_ok d'"
  by (auto simp: seed_erased_def receipts_ok_def intro!: seed_ok split: if_splits)

section \<open>A guarded revision\<close>

definition adopts :: "(head_row \<Rightarrow> head_row) \<Rightarrow> int \<Rightarrow> receipt_row \<Rightarrow> bool" where
  "adopts f n row \<longleftrightarrow>
     (\<forall>h. hr_key_digest (f h) = hr_key_digest h \<and> hr_revision (f h) = n \<and> hr_erased (f h) = hr_erased h) \<and>
     ((rv_disposition row = ''accepted'' \<and>
         (\<forall>h. hr_accepted_revision (f h) = Some n \<and> hr_accepted_digest (f h) = Some (rv_digest row))) \<or>
      (\<forall>h. hr_accepted_revision (f h) = hr_accepted_revision h \<and>
           hr_accepted_digest (f h) = hr_accepted_digest h))"

lemma accepted_grows: "accepted_ok rs h \<Longrightarrow> accepted_ok (rs @ us) h"
  by (auto simp: accepted_ok_def split: option.splits)

lemma guarded_revision_ok:
  assumes ok: "tables_ok hs rs" and some: "kd \<in> hr_key_digest ` set hs"
    and open_head: "\<forall>h \<in> set hs. hr_key_digest h = kd \<longrightarrow> head_open e h"
    and new: "(kd, e + 1) \<notin> row_key_of ` set rs"
    and row: "rv_key_digest row = kd" "rv_revision row = e + 1" and f: "adopts f (e + 1) row"
  shows "tables_ok (update_rows (\<lambda>h. hr_key_digest h = kd) f hs) (rs @ [row])"
proof -
  let ?hs = "update_rows (\<lambda>h. hr_key_digest h = kd) f hs"
  have keys: "map hr_key_digest ?hs = map hr_key_digest hs"
    using f by (intro map_update_rows) (simp add: adopts_def)
  have "head_ok (rs @ [row]) h'" if h': "h' \<in> set ?hs" for h'
  proof -
    obtain h where h: "h \<in> set hs" "h' = (if hr_key_digest h = kd then f h else h)"
      using h' unfolding set_update_rows by blast
    have hok: "head_ok rs h" using ok h(1) by (simp add: tables_ok_def)
    show ?thesis
    proof (cases "hr_key_digest h = kd")
      case False
      then show ?thesis
        using h hok row(1) accepted_grows by (auto simp: head_ok_def numbers_Nil_iff)
    next
      case True
      then have o: "hr_revision h = e" "hr_erased h = 0" using open_head h(1) by (simp_all add: head_open_def)
      have fh: "h' = f h" using h(2) True by simp
      have "{1..e + 1} = insert (e + 1) {1..e}" if "0 \<le> e" using that by auto
      then have nums: "numbers (rs @ [row]) kd = {1..e + 1}" "0 \<le> e"
        using hok o True row by (auto simp: head_ok_def)
      have "accepted_ok (rs @ [row]) h'"
      proof (cases "rv_disposition row = ''accepted'' \<and>
          (\<forall>h. hr_accepted_revision (f h) = Some (e + 1) \<and> hr_accepted_digest (f h) = Some (rv_digest row))")
        case True
        then show ?thesis using f row \<open>hr_key_digest h = kd\<close> by (simp add: accepted_ok_def fh adopts_def)
      next
        case False
        then have "hr_accepted_revision (f h) = hr_accepted_revision h"
            "hr_accepted_digest (f h) = hr_accepted_digest h" "hr_key_digest (f h) = hr_key_digest h"
          using f by (auto simp: adopts_def)
        moreover have "accepted_ok (rs @ [row]) h" using hok o accepted_grows by (simp add: head_ok_def)
        ultimately show ?thesis using accepted_cong [of h' h] fh by simp
      qed
      then show ?thesis using f nums o True by (simp add: head_ok_def fh adopts_def)
    qed
  qed
  moreover have "hr_key_digest ` set ?hs = hr_key_digest ` set hs" using keys by (metis set_map)
  ultimately show ?thesis
    using ok some new row by (auto simp: tables_ok_def keys row_key_of_def)
qed

lemma adopts_accept:
  "adopts (\<lambda>h. h\<lparr>hr_revision := n, hr_accepted_revision := Some n, hr_accepted_digest := Some g,
     hr_tombstoned := 0, hr_key := Some key, hr_retain_until := ru, hr_tombstone_until := tu\<rparr>) n
   \<lparr>rv_key_digest = kd, rv_revision = n, rv_digest = g, rv_disposition = ''accepted'', rv_outcome = oc,
    rv_seen_count = Some 1, rv_last_seen_at = Some now, rv_created_at = now\<rparr>"
  by (simp add: adopts_def)

lemma adopts_collision:
  "adopts (\<lambda>h. h\<lparr>hr_revision := n, hr_tombstoned := 0, hr_key := Some key, hr_retain_until := ru,
     hr_tombstone_until := tu\<rparr>) n row"
  by (simp add: adopts_def)

text \<open>A guard and the insert behind it, run in a batch.\<close>

lemma guard_insert:
  assumes run: "run_txn [guard_head kd e f, insert_revision kd m g disp oc now] d = Inr (d', ns)"
  shows "\<forall>h \<in> set (rahi_receipt_head d). hr_key_digest h = kd \<longrightarrow> head_open e h"
    and "(kd, m) \<notin> row_key_of ` set (rahi_receipt d)"
    and "rahi_receipt_head d' = update_rows (\<lambda>h. hr_key_digest h = kd) f (rahi_receipt_head d)"
    and "rahi_receipt d' = rahi_receipt d @
      [\<lparr>rv_key_digest = kd, rv_revision = m, rv_digest = g, rv_disposition = disp, rv_outcome = oc,
        rv_seen_count = Some 1, rv_last_seen_at = Some now, rv_created_at = now\<rparr>]"
  using run
  by (auto simp: guard_head_def insert_revision_def row_key_of_def split: if_splits)

lemma guard_insert_ok:
  assumes run: "run_txn [guard_head kd e f, insert_revision kd (e + 1) g disp oc now] d = Inr (d', ns)"
    and ok: "receipts_ok d" and some: "kd \<in> hr_key_digest ` set (rahi_receipt_head d)"
    and f: "\<And>r. rv_disposition r = disp \<Longrightarrow> rv_digest r = g \<Longrightarrow> adopts f (e + 1) r"
  shows "receipts_ok d'"
  unfolding receipts_ok_def guard_insert(3,4) [OF run]
  by (rule guarded_revision_ok [OF _ some guard_insert(1,2) [OF run]])
    (use ok f in \<open>simp_all add: receipts_ok_def\<close>)

lemma u32_succ: "i64_succ (uint (v :: u32)) = uint v + 1"
  using uint_lt2p [of v] by (simp add: i64_succ_def i64_max_def)

lemma heads_kept:
  "map hr_key_digest hs' = map hr_key_digest hs \<Longrightarrow> hr_key_digest ` set hs' = hr_key_digest ` set hs"
  by (metis set_map)

lemma stage_first_ok:
  assumes "stage_first sha [] k g m now = Inr ss" "run_txn ss d = Inr (d', ns)" "receipts_ok d"
  shows "receipts_ok d'"
proof -
  let ?kd = "key_digest sha k" and ?ru = "map_option u64_to_sql (rm_retain_until m)"
    and ?tu = "map_option u64_to_sql (rm_tombstone_until m)"
  have ss: "ss = [seed_head ?kd k ?ru ?tu (u64_to_sql now)] @
      [guard_accept 0 1 g ?kd (rk_key k) ?ru ?tu,
       insert_revision ?kd 1 g ''accepted'' (rm_outcome m) (u64_to_sql now)]"
    using assms(1) by (auto simp: stage_first_def Let_def)
  from assms(2) [unfolded ss run_txn_append_iff] obtain e n1 n2 where
      s: "run_txn [seed_head ?kd k ?ru ?tu (u64_to_sql now)] d = Inr (e, n1)"
      and r: "run_txn [guard_accept 0 1 g ?kd (rk_key k) ?ru ?tu,
       insert_revision ?kd 1 g ''accepted'' (rm_outcome m) (u64_to_sql now)] e = Inr (d', n2)"
    by blast
  have e: "receipts_ok e \<and> ?kd \<in> hr_key_digest ` set (rahi_receipt_head e)"
    using s assms(3) by (auto dest: seed_head_ok)
  show ?thesis
    by (rule guard_insert_ok [where e = 0, OF _ conjunct1 [OF e] conjunct2 [OF e]])
      (use r in \<open>auto simp: guard_accept_def adopts_def\<close>)
qed

lemma stage_revision_ok:
  assumes "stage_revision sha [] k g c m now = Inr ss" "run_txn ss d = Inr (d', ns)" "receipts_ok d"
    and "key_digest sha k \<in> hr_key_digest ` set (rahi_receipt_head d)"
  shows "receipts_ok d'"
  by (rule guard_insert_ok [where e = "uint (ch_head_revision c)", OF _ assms(3,4)])
    (use assms(1,2) in \<open>auto simp: stage_revision_def Let_def guard_accept_def adopts_def u32_succ\<close>)

lemma stage_collision_ok:
  assumes "stage_collision sha [] k g c m now = Inr ss" "run_txn ss d = Inr (d', ns)" "receipts_ok d"
    and "key_digest sha k \<in> hr_key_digest ` set (rahi_receipt_head d)"
  shows "receipts_ok d'"
  by (rule guard_insert_ok [where e = "uint (ch_head_revision c)", OF _ assms(3,4)])
    (use assms(1,2) in \<open>auto simp: stage_collision_def Let_def guard_collision_def adopts_def u32_succ\<close>)

section \<open>Changes beside the revisions\<close>

text \<open>Counters, horizons and tombstone marks touch no column the invariant reads.\<close>

definition same_revision :: "receipt_row \<Rightarrow> receipt_row \<Rightarrow> bool" where
  "same_revision r r' \<longleftrightarrow>
     row_key_of r' = row_key_of r \<and> rv_digest r' = rv_digest r \<and> rv_disposition r' = rv_disposition r"

lemma accepted_ok_update:
  assumes "accepted_ok rs h" "\<And>r. p r \<Longrightarrow> same_revision r (f r)"
  shows "accepted_ok (update_rows p f rs) h"
proof (cases "hr_accepted_revision h")
  case None
  then show ?thesis using assms(1) by (simp add: accepted_ok_def)
next
  case (Some a)
  then obtain r where r: "r \<in> set rs" "rv_key_digest r = hr_key_digest h" "rv_revision r = a"
      "rv_disposition r = ''accepted''" "hr_accepted_digest h = Some (rv_digest r)"
    using assms(1) by (auto simp: accepted_ok_def)
  let ?r = "if p r then f r else r"
  have "?r \<in> set (update_rows p f rs)" using r(1) by (simp add: set_update_rows)
  moreover have "rv_key_digest ?r = hr_key_digest h \<and> rv_revision ?r = a \<and>
      rv_disposition ?r = ''accepted'' \<and> hr_accepted_digest h = Some (rv_digest ?r)"
    using r assms(2) [of r] by (simp add: same_revision_def row_key_of_def)
  ultimately show ?thesis unfolding accepted_ok_def Some option.case by blast
qed

lemma tables_ok_rows:
  assumes ok: "tables_ok hs rs" and f: "\<And>r. p r \<Longrightarrow> same_revision r (f r)"
  shows "tables_ok hs (update_rows p f rs)"
proof -
  have keys: "map row_key_of (update_rows p f rs) = map row_key_of rs"
    using f by (intro map_update_rows) (simp add: same_revision_def)
  have "map rv_key_digest (update_rows p f rs) = map rv_key_digest rs"
    using f by (intro map_update_rows) (simp add: same_revision_def row_key_of_def)
  then have "rv_key_digest ` set (update_rows p f rs) = rv_key_digest ` set rs"
    by (metis set_map)
  then show ?thesis
    using ok accepted_ok_update [OF _ f] numbers_cong [OF keys]
    by (auto simp: tables_ok_def keys head_ok_def)
qed

definition same_head :: "head_row \<Rightarrow> head_row \<Rightarrow> bool" where
  "same_head h h' \<longleftrightarrow>
     hr_key_digest h' = hr_key_digest h \<and> hr_revision h' = hr_revision h \<and>
     hr_accepted_revision h' = hr_accepted_revision h \<and> hr_accepted_digest h' = hr_accepted_digest h \<and>
     hr_erased h' = hr_erased h \<and> hr_erased_at h' = hr_erased_at h \<and>
     (hr_key h = None \<longrightarrow> hr_key h' = None)"

lemma same_head_ok: "same_head h h' \<Longrightarrow> head_ok rs h \<Longrightarrow> head_ok rs h'"
  using accepted_cong [of h' h rs] by (auto simp: same_head_def head_ok_def)

lemma tables_ok_heads:
  assumes ok: "tables_ok hs rs" and f: "\<And>h. p h \<Longrightarrow> same_head h (f h)"
  shows "tables_ok (update_rows p f hs) rs"
proof -
  have keys: "map hr_key_digest (update_rows p f hs) = map hr_key_digest hs"
    using f by (intro map_update_rows) (simp add: same_head_def)
  have "head_ok rs h'" if h': "h' \<in> set (update_rows p f hs)" for h'
  proof -
    obtain h where h: "h \<in> set hs" "h' = (if p h then f h else h)"
      using h' unfolding set_update_rows by blast
    then have "head_ok rs h" using ok by (simp add: tables_ok_def)
    then show ?thesis using h(2) same_head_ok [OF f] by auto
  qed
  then show ?thesis using ok heads_kept [OF keys] by (simp add: tables_ok_def keys)
qed

lemma touch_seen_ok: "touch_seen now kd x d = Inr (d', n) \<Longrightarrow> receipts_ok d \<Longrightarrow> receipts_ok d'"
  by (auto simp: touch_seen_def Let_def receipts_ok_def same_revision_def row_key_of_def
      intro!: tables_ok_rows)

lemma compact_head_ok: "compact_head kd now d = Inr (d', n) \<Longrightarrow> receipts_ok d \<Longrightarrow> receipts_ok d'"
  by (auto simp: compact_head_def Let_def receipts_ok_def same_head_def intro!: tables_ok_heads)

lemma compact_receipts_ok: "compact_receipts kd d = Inr (d', n) \<Longrightarrow> receipts_ok d \<Longrightarrow> receipts_ok d'"
  by (auto simp: compact_receipts_def Let_def receipts_ok_def same_revision_def row_key_of_def
      intro!: tables_ok_rows)

section \<open>Deletion and erasure\<close>

lemma numbers_filter:
  "numbers (filter (\<lambda>r. \<not> q (rv_key_digest r)) rs) kd = (if q kd then {} else numbers rs kd)"
  by (auto simp: numbers_def)

lemma accepted_ok_filter:
  "accepted_ok rs h \<Longrightarrow> \<not> q (hr_key_digest h) \<Longrightarrow>
     accepted_ok (filter (\<lambda>r. \<not> q (rv_key_digest r)) rs) h"
  by (fastforce simp: accepted_ok_def split: option.splits)

text \<open>The rows of the selected identities go, and their heads go or become erased.\<close>

lemma tables_ok_drop:
  assumes ok: "tables_ok hs rs"
  shows "tables_ok (filter (\<lambda>h. \<not> q (hr_key_digest h)) hs) (filter (\<lambda>r. \<not> q (rv_key_digest r)) rs)"
proof -
  let ?hs = "filter (\<lambda>h. \<not> q (hr_key_digest h)) hs" and ?rs = "filter (\<lambda>r. \<not> q (rv_key_digest r)) rs"
  have "rv_key_digest ` set ?rs \<subseteq> hr_key_digest ` set ?hs"
  proof
    fix kd
    assume "kd \<in> rv_key_digest ` set ?rs"
    then have kd: "kd \<in> rv_key_digest ` set rs" "\<not> q kd" by auto
    with ok obtain h where "h \<in> set hs" "hr_key_digest h = kd" by (auto simp: tables_ok_def)
    with kd show "kd \<in> hr_key_digest ` set ?hs" by auto
  qed
  moreover have "head_ok ?rs h" if "h \<in> set ?hs" for h
    using that ok accepted_ok_filter [of rs h q] by (auto simp: tables_ok_def head_ok_def numbers_filter)
  ultimately show ?thesis using ok by (simp add: tables_ok_def distinct_map_filter)
qed

lemma tables_ok_erase:
  assumes ok: "tables_ok hs rs" and f: "\<And>h. hr_key_digest (f h) = hr_key_digest h"
    "\<And>h. hr_erased (f h) \<noteq> 0 \<and> hr_key (f h) = None \<and> (\<exists>t. hr_erased_at (f h) = Some t \<and> 0 \<le> t)"
  shows "tables_ok (update_rows (\<lambda>h. q (hr_key_digest h)) f hs) (filter (\<lambda>r. \<not> q (rv_key_digest r)) rs)"
proof -
  let ?hs = "update_rows (\<lambda>h. q (hr_key_digest h)) f hs" and ?rs = "filter (\<lambda>r. \<not> q (rv_key_digest r)) rs"
  have keys: "map hr_key_digest ?hs = map hr_key_digest hs"
    using f(1) by (intro map_update_rows)
  have "head_ok ?rs h'" if h': "h' \<in> set ?hs" for h'
  proof -
    obtain h where h: "h \<in> set hs" "h' = (if q (hr_key_digest h) then f h else h)"
      using h' unfolding set_update_rows by blast
    have hok: "head_ok rs h" using ok h(1) by (simp add: tables_ok_def)
    show ?thesis
    proof (cases "q (hr_key_digest h)")
      case True
      then show ?thesis using h f(1,2) [of h] by (simp add: head_ok_def numbers_filter)
    next
      case False
      then show ?thesis
        using h hok accepted_ok_filter [of rs h q] by (auto simp: head_ok_def numbers_filter)
    qed
  qed
  moreover have "rv_key_digest ` set ?rs \<subseteq> hr_key_digest ` set ?hs"
    using ok heads_kept [OF keys] by (auto simp: tables_ok_def)
  ultimately show ?thesis using ok by (simp add: tables_ok_def keys distinct_map_filter)
qed

definition erased_head :: "int \<Rightarrow> head_row \<Rightarrow> head_row" where
  "erased_head now h =
     h\<lparr>hr_key := None, hr_tenant := '''', hr_namespace := '''', hr_key_kind := '''',
       hr_accepted_revision := None, hr_accepted_digest := None, hr_retain_until := None,
       hr_tombstone_until := None, hr_tombstoned := 0, hr_erased := 1, hr_erased_at := Some now\<rparr>"

lemma erasure_run:
  assumes "run_txn (erase_by_predicate [] p now) d = Inr (d', ns)"
    and p: "\<And>x e. rahi_receipt_head e = rahi_receipt_head d \<Longrightarrow> p e x = p d x"
  shows "rahi_receipt d' = filter (\<lambda>r. \<not> p d (rv_key_digest r)) (rahi_receipt d)"
    and "rahi_receipt_head d' =
      update_rows (\<lambda>h. p d (hr_key_digest h)) (erased_head now) (rahi_receipt_head d)"
    and "rahi_processing d' = filter (\<lambda>r. \<not> p d (wr_key_digest r)) (rahi_processing d)"
proof -
  obtain d1 d2 d3 n1 n2 n3 n4 where
      1: "erase_receipts p d = Inr (d1, n1)" and 2: "erase_attempts p d1 = Inr (d2, n2)"
      and 3: "erase_work p d2 = Inr (d3, n3)" and 4: "erase_heads now p d3 = Inr (d', n4)"
    using assms(1) unfolding erase_by_predicate_def append_Nil run_txn3 by blast
  have d1: "d1 = d\<lparr>rahi_receipt := filter (\<lambda>r. \<not> p d (rv_key_digest r)) (rahi_receipt d)\<rparr>"
    using 1 by (simp add: erase_receipts_def)
  have d2: "rahi_receipt_head d2 = rahi_receipt_head d" "rahi_receipt d2 = rahi_receipt d1"
      "rahi_processing d2 = rahi_processing d"
    using 2 by (auto simp: erase_attempts_def d1)
  have p2: "p d2 = p d" using d2(1) p by blast
  have d3: "rahi_receipt_head d3 = rahi_receipt_head d" "rahi_receipt d3 = rahi_receipt d1"
      "rahi_processing d3 = filter (\<lambda>r. \<not> p d (wr_key_digest r)) (rahi_processing d)"
    using 3 by (auto simp: erase_work_def d2 p2)
  have p3: "p d3 = p d" using d3(1) p by blast
  show "rahi_receipt d' = filter (\<lambda>r. \<not> p d (rv_key_digest r)) (rahi_receipt d)"
    using 4 by (auto simp: erase_heads_def d3 d1)
  show "rahi_receipt_head d' =
      update_rows (\<lambda>h. p d (hr_key_digest h)) (erased_head now) (rahi_receipt_head d)"
    using 4 by (auto simp: erase_heads_def d3 p3 erased_head_def [abs_def])
  show "rahi_processing d' = filter (\<lambda>r. \<not> p d (wr_key_digest r)) (rahi_processing d)"
    using 4 by (auto simp: erase_heads_def d3)
qed

lemma erase_selects_heads:
  "rahi_receipt_head e = rahi_receipt_head d \<Longrightarrow> erase_selects sha scope e x = erase_selects sha scope d x"
  by (simp add: erase_selects_def split: erase_scope.split)

lemma stage_erasure_shape:
  "\<exists>seed. stage_erasure sha [] scope now =
     seed @ erase_by_predicate [] (erase_selects sha scope) (u64_to_sql now) \<and>
     (seed = [] \<or> (\<exists>k. scope = EraseIdentity k \<and> seed = [seed_erased (key_digest sha k) (u64_to_sql now)]))"
  by (cases scope) (simp_all add: stage_erasure_def erase_by_predicate_def)

lemma stage_erasure_ok:
  assumes "run_txn (stage_erasure sha [] scope now) d = Inr (d', ns)" "receipts_ok d"
  shows "receipts_ok d'"
proof -
  obtain seed e n1 n2 where s: "run_txn seed d = Inr (e, n1)"
      "seed = [] \<or> (\<exists>kd. seed = [seed_erased kd (u64_to_sql now)])"
      and r: "run_txn (erase_by_predicate [] (erase_selects sha scope) (u64_to_sql now)) e = Inr (d', n2)"
    using assms(1) stage_erasure_shape [of sha scope now] by (metis run_txn_append_iff)
  have sel: "\<And>x e'. rahi_receipt_head e' = rahi_receipt_head e \<Longrightarrow>
      erase_selects sha scope e' x = erase_selects sha scope e x"
    by (rule erase_selects_heads)
  have "receipts_ok e" using s assms(2) by (auto dest: seed_erased_ok [OF _ u64_to_sql_range(1)])
  then have "tables_ok (update_rows (\<lambda>h. erase_selects sha scope e (hr_key_digest h))
        (erased_head (u64_to_sql now)) (rahi_receipt_head e))
      (filter (\<lambda>r. \<not> erase_selects sha scope e (rv_key_digest r)) (rahi_receipt e))"
    unfolding receipts_ok_def by (rule tables_ok_erase) (simp_all add: erased_head_def)
  then show ?thesis
    unfolding receipts_ok_def using erasure_run(1,2) [OF r sel] by simp
qed

lemma delete_pair_run:
  assumes "run_txn (delete_pair now kd) d = Inr (d', ns)"
  shows "rahi_receipt_head d' =
      filter (\<lambda>h. \<not> (hr_key_digest h = kd \<and> deletable now h)) (rahi_receipt_head d)"
    and "rahi_receipt d' = filter (\<lambda>r. \<not> (rv_key_digest r = kd \<and>
      (\<exists>h \<in> set (rahi_receipt_head d). hr_key_digest h = kd \<and> deletable now h))) (rahi_receipt d)"
proof -
  obtain d1 n1 n2 where 1: "delete_revisions kd now d = Inr (d1, n1)"
      and 2: "delete_head kd now d1 = Inr (d', n2)"
    using assms by (auto simp: delete_pair_def)
  have d1: "d1 = d\<lparr>rahi_receipt := filter (\<lambda>r. \<not> (rv_key_digest r = kd \<and>
      (\<exists>h \<in> set (rahi_receipt_head d). hr_key_digest h = kd \<and> deletable now h))) (rahi_receipt d)\<rparr>"
    using 1 by (simp add: delete_revisions_def erase_receipts_def)
  have d': "d' = d1\<lparr>rahi_receipt_head :=
      filter (\<lambda>h. \<not> (hr_key_digest h = kd \<and> deletable now h)) (rahi_receipt_head d1)\<rparr>"
    using 2 by (simp add: delete_head_def Let_def)
  show "rahi_receipt_head d' =
      filter (\<lambda>h. \<not> (hr_key_digest h = kd \<and> deletable now h)) (rahi_receipt_head d)"
    by (simp add: d' d1)
  show "rahi_receipt d' = filter (\<lambda>r. \<not> (rv_key_digest r = kd \<and>
      (\<exists>h \<in> set (rahi_receipt_head d). hr_key_digest h = kd \<and> deletable now h))) (rahi_receipt d)"
    by (simp add: d' d1)
qed

lemma delete_pair_ok:
  assumes run: "run_txn (delete_pair now kd) d = Inr (d', ns)" and ok: "receipts_ok d"
  shows "receipts_ok d'"
proof (cases "\<exists>h \<in> set (rahi_receipt_head d). hr_key_digest h = kd \<and> deletable now h")
  case False
  then have "same_receipts d d'"
    unfolding same_receipts_def delete_pair_run [OF run] by (auto simp: filter_id_conv)
  then show ?thesis using ok receipts_ok_same by blast
next
  case True
  then obtain h where h: "h \<in> set (rahi_receipt_head d)" "hr_key_digest h = kd" "deletable now h" by blast
  have "h' = h" if "h' \<in> set (rahi_receipt_head d)" "hr_key_digest h' = kd" for h'
    using ok h that head_unique unfolding receipts_ok_def tables_ok_def by blast
  then have "rahi_receipt_head d' = filter (\<lambda>h. \<not> hr_key_digest h = kd) (rahi_receipt_head d)"
    unfolding delete_pair_run [OF run] using h(3) by (intro filter_cong) auto
  moreover have "rahi_receipt d' = filter (\<lambda>r. \<not> rv_key_digest r = kd) (rahi_receipt d)"
    unfolding delete_pair_run [OF run] using True by simp
  ultimately show ?thesis
    using ok tables_ok_drop [of "rahi_receipt_head d" "rahi_receipt d" "\<lambda>x. x = kd"]
    by (simp add: receipts_ok_def)
qed

end
