(* ===== verification/Receipt_Swap.thy ===== *)
theory Receipt_Swap
  imports Receipt_Facts Work_Facts
begin

text \<open>
  The intake batches keep the receipt tables well formed, and so do the phases of the sweep; a
  staging call commits exactly against the head it was classified on; an erased identity stays
  erased; and a delivery classified after it was staged is what it was staged as.
\<close>

section \<open>Pieces that do not touch the receipts\<close>

lemma same_receipts_refl: "same_receipts d d"
  by (simp add: same_receipts_def)

interpretation receipts: batch_relation same_receipts
  by unfold_locales (simp_all add: same_receipts_def)

lemma receipts_carry_work:
  "receipts.carries (insert_work sha k now)" "receipts.carries (complete_row i)"
  "receipts.carries (fail_row t i)" "receipts.carries (dead_row i)" "receipts.carries (requeue_row i)"
  "receipts.carries (bury_expired i x m now)" "receipts.carries (bury_spent i m)"
  "receipts.carries (claim_row ho ex x i old t now)" "receipts.carries (renew_row ex i held now t)"
  by (auto intro!: receipts.carriesI simp: same_receipts_def insert_work_def work_sql_defs update_work_def
      split: if_splits)

lemma receipts_carry_attempts:
  "receipts.carries (close_attempt_done now i x)" "receipts.carries (close_attempt_failed oc f now i x)"
  "receipts.carries (requeue_attempt now i)" "receipts.carries (close_expired now i x)"
  "receipts.carries (close_prior_expired now i x y z)" "receipts.carries (open_attempt now i x y)"
  by (auto intro!: receipts.carriesI simp: attempt_sql_defs same_receipts_def split: if_splits)

lemma receipts_carry_others:
  "receipts.carries (app_sql f)" "receipts.carries (insert_outbox e)" "receipts.carries (delete_outbox ids)"
  "receipts.carries (guard_lease t key)" "receipts.carries (guard_claim t now i)"
  by (auto intro!: receipts.carriesI simp: other_sql_defs same_receipts_def split: if_splits)

lemmas receipts_carry = receipts_carry_work receipts_carry_attempts receipts_carry_others

section \<open>Intake batches\<close>

text \<open>
  A piece of an intake batch over the heads \<open>H\<close>: revisions and collisions are staged on a head that
  is there. What was classified \<open>Changed\<close> has one, unless a sweep deletes it before the batch.
\<close>

inductive backed :: "(string \<Rightarrow> string) \<Rightarrow> string set \<Rightarrow> 'a sql list \<Rightarrow> bool"
  for sha :: "string \<Rightarrow> string" and H :: "string set" where
  backed_first: "stage_first sha [] k g m now = Inr ss \<Longrightarrow> backed sha H ss"
| backed_revision:
    "key_digest sha k \<in> H \<Longrightarrow> stage_revision sha [] k g c m now = Inr ss \<Longrightarrow> backed sha H ss"
| backed_collision:
    "key_digest sha k \<in> H \<Longrightarrow> stage_collision sha [] k g c m now = Inr ss \<Longrightarrow> backed sha H ss"
| backed_seen: "backed sha H (stage_seen sha [] k n now)"
| backed_erasure: "backed sha H (stage_erasure sha [] scope now)"
| backed_compact: "backed sha H (compact_four t kd)"
| backed_other: "receipts.carries_all p \<Longrightarrow> backed sha H p"

definition keys_le :: "'a sdb \<Rightarrow> 'a sdb \<Rightarrow> bool" where
  "keys_le d d' \<longleftrightarrow>
     hr_key_digest ` set (rahi_receipt_head d) \<subseteq> hr_key_digest ` set (rahi_receipt_head d')"

interpretation keys: batch_relation keys_le
  by unfold_locales (auto simp: keys_le_def)

lemma keys_same: "same_receipts d d' \<Longrightarrow> keys_le d d'"
  by (simp add: same_receipts_def keys_le_def)

lemma guard_head_keys:
  assumes "guard_head kd e f d = Inr (d', n)" "\<And>h. hr_key_digest (f h) = hr_key_digest h"
  shows "keys_le d d'"
proof -
  have d': "rahi_receipt_head d' = update_rows (\<lambda>h. hr_key_digest h = kd) f (rahi_receipt_head d)"
    using assms(1) by (auto simp: guard_head_def split: if_splits)
  have "map hr_key_digest (update_rows (\<lambda>h. hr_key_digest h = kd) f (rahi_receipt_head d)) =
      map hr_key_digest (rahi_receipt_head d)"
    using assms(2) by (intro map_update_rows)
  from heads_kept [OF this] show ?thesis by (simp add: keys_le_def d')
qed

lemma update_heads_keys:
  assumes "\<And>h. hr_key_digest (f h) = hr_key_digest h"
    "rahi_receipt_head d' = update_rows p f (rahi_receipt_head d)"
  shows "keys_le d d'"
  using heads_kept [OF map_update_rows [of p hr_key_digest f "rahi_receipt_head d"]] assms
  by (simp add: keys_le_def)

lemma keys_carry:
  "keys.carries (seed_head kd k ru tu now)" "keys.carries (seed_erased kd now)"
  "keys.carries (guard_accept e n g kd key ru tu)" "keys.carries (guard_collision e n kd key ru tu)"
  "keys.carries (insert_revision kd n g disp oc now)" "keys.carries (touch_seen now kd n)"
  "keys.carries (erase_receipts p)" "keys.carries (erase_attempts p)" "keys.carries (erase_work p)"
  "keys.carries (erase_heads now p)" "keys.carries (compact_head kd now)"
  "keys.carries (compact_receipts kd)"
proof -
  show "keys.carries (seed_head kd k ru tu now)" "keys.carries (seed_erased kd now)"
    by (auto intro!: keys.carriesI simp: keys_le_def seed_head_def seed_erased_def split: if_splits)
  show "keys.carries (guard_accept e n g kd key ru tu)" "keys.carries (guard_collision e n kd key ru tu)"
    by (auto intro!: keys.carriesI simp: guard_accept_def guard_collision_def elim!: guard_head_keys)
  show "keys.carries (insert_revision kd n g disp oc now)" "keys.carries (touch_seen now kd n)"
      "keys.carries (erase_receipts p)" "keys.carries (erase_attempts p)" "keys.carries (erase_work p)"
      "keys.carries (compact_receipts kd)"
    by (auto intro!: keys.carriesI simp: keys_le_def receipt_sql_defs erase_attempts_def erase_work_def Let_def
        split: if_splits)
  show "keys.carries (erase_heads now p)" "keys.carries (compact_head kd now)"
    by (auto intro!: keys.carriesI simp: erase_heads_def compact_head_def Let_def
        intro: update_heads_keys [rotated])
qed

lemma backed_keys: "backed sha H p \<Longrightarrow> keys.carries_all p"
proof (induction rule: backed.induct)
  case (backed_first k g m now ss)
  then show ?case
    by (auto simp: stage_first_def Let_def intro!: keys.carries_Cons keys.carries_Nil keys_carry)
next
  case (backed_revision k g c m now ss)
  then show ?case
    by (auto simp: stage_revision_def Let_def intro!: keys.carries_Cons keys.carries_Nil keys_carry)
next
  case (backed_collision k g c m now ss)
  then show ?case
    by (auto simp: stage_collision_def Let_def intro!: keys.carries_Cons keys.carries_Nil keys_carry)
next
  case (backed_erasure scope now)
  show ?case
    by (cases scope)
      (auto simp: stage_erasure_def erase_by_predicate_def
        intro!: keys.carries_Cons keys.carries_Nil keys_carry)
next
  case (backed_other p)
  then show ?case by (auto simp: receipts.carries_all_def keys.carries_all_def intro: keys_same)
qed (auto simp: stage_seen_def compact_four_def compact_attempts_def compact_work_def
    intro!: keys.carries_Cons keys.carries_Nil keys_carry)

lemma compact_four_ok:
  assumes "run_txn (compact_four t kd) d = Inr (d', ns)" "receipts_ok d"
  shows "receipts_ok d'"
proof -
  obtain d1 d2 d3 n1 n2 n3 n4 where
      1: "compact_head kd t d = Inr (d1, n1)" and 2: "compact_attempts kd d1 = Inr (d2, n2)"
      and 3: "compact_work kd d2 = Inr (d3, n3)" and 4: "compact_receipts kd d3 = Inr (d', n4)"
    using assms(1) unfolding compact_four_def run_txn3 by blast
  have "same_receipts d1 d3"
    using 2 3 by (auto simp: same_receipts_def compact_attempts_def erase_attempts_def compact_work_def
        erase_work_def)
  then have "receipts_ok d3"
    using compact_head_ok [OF 1 assms(2)] receipts_ok_same by blast
  with compact_receipts_ok [OF 4] show ?thesis by blast
qed

lemma backed_ok:
  assumes "backed sha H p" "run_txn p d = Inr (d', ns)" "receipts_ok d"
    "H \<subseteq> hr_key_digest ` set (rahi_receipt_head d)"
  shows "receipts_ok d'"
  using assms
proof cases
  case (backed_first k g m now)
  then show ?thesis using stage_first_ok assms by blast
next
  case (backed_revision k g c m now)
  then have "key_digest sha k \<in> hr_key_digest ` set (rahi_receipt_head d)" using assms(4) by blast
  from stage_revision_ok [OF backed_revision(2) assms(2,3) this] show ?thesis .
next
  case (backed_collision k g c m now)
  then have "key_digest sha k \<in> hr_key_digest ` set (rahi_receipt_head d)" using assms(4) by blast
  from stage_collision_ok [OF backed_collision(2) assms(2,3) this] show ?thesis .
next
  case (backed_seen k n now)
  then show ?thesis using assms(2,3) by (auto simp: stage_seen_def dest: touch_seen_ok)
next
  case (backed_erasure scope now)
  then show ?thesis using stage_erasure_ok assms by blast
next
  case (backed_compact t kd)
  then show ?thesis using compact_four_ok assms by blast
next
  case backed_other
  then show ?thesis using receipts.carries_allD assms(2,3) receipts_ok_same by blast
qed

lemma intake_ok:
  assumes "\<forall>p \<in> set ps. backed sha H p" "run_txn (concat ps) d = Inr (d', ns)" "receipts_ok d"
    "H \<subseteq> hr_key_digest ` set (rahi_receipt_head d)"
  shows "receipts_ok d'"
  using assms
proof (induction ps arbitrary: d ns)
  case Nil
  then show ?case by simp
next
  case (Cons p ps)
  then obtain e n1 n2 where e: "run_txn p d = Inr (e, n1)" "run_txn (concat ps) e = Inr (d', n2)"
    by (auto simp: run_txn_append_iff)
  have "keys_le d e" using keys.carries_allD [OF backed_keys e(1)] Cons.prems(1) by auto
  moreover have "receipts_ok e" using backed_ok e(1) Cons.prems by (metis list.set_intros(1))
  ultimately show ?case using Cons e(2) by (auto simp: keys_le_def)
qed

lemma deletes_ok:
  "run_txn (concat (map (delete_pair t) kds)) d = Inr (d', ns) \<Longrightarrow> receipts_ok d \<Longrightarrow> receipts_ok d'"
proof (induction kds arbitrary: d ns)
  case Nil
  then show ?case by simp
next
  case (Cons kd kds)
  then obtain e n1 n2 where "run_txn (delete_pair t kd) d = Inr (e, n1)"
      "run_txn (concat (map (delete_pair t) kds)) e = Inr (d', n2)"
    by (auto simp: run_txn_append_iff simp del: run_txn.simps)
  with Cons show ?case using delete_pair_ok by blast
qed

text \<open>
  Staging is a compare and swap: a revision or a collision commits exactly when the head is still
  the one that was classified, a first delivery exactly when there is none. What is classified
  without interference can be staged, and is then recognised when it is delivered again. An erased
  identity stays erased and empty whatever the cluster commits.
\<close>

section \<open>The swap\<close>

definition head_moved :: error where
  "head_moved = not_null_failed ''rahi_receipt_head.revision''"

lemma run_txn_passes:
  "s d = Inr (e, n) \<Longrightarrow> is_ok (run_txn (s # ss) d) = is_ok (run_txn ss e)"
  "s d = Inr (e, n) \<Longrightarrow> run_txn ss e = Inl x \<Longrightarrow> run_txn (s # ss) d = Inl x"
  by (cases "run_txn ss e"; auto simp: is_ok_def)+

lemma select_head_single:
  "distinct (map hr_key_digest (rahi_receipt_head d)) \<Longrightarrow> h \<in> set (rahi_receipt_head d) \<Longrightarrow>
     select_head (hr_key_digest h) d = [h]"
proof -
  have "distinct (map hr_key_digest hs) \<Longrightarrow> h \<in> set hs \<Longrightarrow>
      filter (\<lambda>x. hr_key_digest x = hr_key_digest h) hs = [h]" for hs :: "head_row list"
  proof (induction hs)
    case Nil
    then show ?case by simp
  next
    case (Cons x xs)
    show ?case
    proof (cases "x = h")
      case True
      then have "\<forall>y \<in> set xs. hr_key_digest y \<noteq> hr_key_digest h" using True Cons.prems(1) by (auto simp: rev_image_eqI)
      then show ?thesis using True by (simp add: filter_empty_conv)
    next
      case False
      then have "hr_key_digest x \<noteq> hr_key_digest h" using Cons.prems by force
      then show ?thesis using Cons False by simp
    qed
  qed
  then show "distinct (map hr_key_digest (rahi_receipt_head d)) \<Longrightarrow> h \<in> set (rahi_receipt_head d) \<Longrightarrow>
      select_head (hr_key_digest h) d = [h]"
    by (simp add: select_head_def)
qed

lemma select_head_Nil_iff: "select_head kd d = [] \<longleftrightarrow> kd \<notin> hr_key_digest ` set (rahi_receipt_head d)"
  by (auto simp: select_head_def filter_empty_conv)

lemma receipts_ok_select:
  "receipts_ok d \<Longrightarrow> h \<in> set (rahi_receipt_head d) \<Longrightarrow> hr_key_digest h = kd \<Longrightarrow> select_head kd d = [h]"
  using select_head_single by (auto simp: receipts_ok_def tables_ok_def)

lemma next_number_free:
  assumes "receipts_ok d" "h \<in> set (rahi_receipt_head d)" "head_open e h"
  shows "(hr_key_digest h, e + 1) \<notin> row_key_of ` set (rahi_receipt d)"
proof
  assume "(hr_key_digest h, e + 1) \<in> row_key_of ` set (rahi_receipt d)"
  then have "e + 1 \<in> numbers (rahi_receipt d) (hr_key_digest h)"
    by (auto simp: numbers_def row_key_of_def)
  moreover have "head_ok (rahi_receipt d) h"
    using assms(1,2) by (simp add: receipts_ok_def tables_ok_def)
  ultimately show False using assms(3) by (simp add: head_ok_def head_open_def)
qed

lemma swap_exact:
  assumes ok: "receipts_ok d" and h: "select_head kd d = [h]"
  shows "is_ok (run_txn [guard_head kd e f, insert_revision kd (e + 1) g disp oc now] d) \<longleftrightarrow> head_open e h"
    and "\<not> head_open e h \<Longrightarrow>
      run_txn [guard_head kd e f, insert_revision kd (e + 1) g disp oc now] d = Inl head_moved"
proof -
  have mem: "h \<in> set (rahi_receipt_head d)" "hr_key_digest h = kd"
    using h by (auto simp: select_head_def filter_eq_Cons_iff)
  have uniq: "x = h" if "x \<in> set (rahi_receipt_head d)" "hr_key_digest x = kd" for x
    using receipts_ok_select [OF ok that] h by simp
  show "\<not> head_open e h \<Longrightarrow>
      run_txn [guard_head kd e f, insert_revision kd (e + 1) g disp oc now] d = Inl head_moved"
    using mem by (auto simp: guard_head_def head_moved_def)
  show "is_ok (run_txn [guard_head kd e f, insert_revision kd (e + 1) g disp oc now] d) \<longleftrightarrow> head_open e h"
  proof
    assume "head_open e h"
    then show "is_ok (run_txn [guard_head kd e f, insert_revision kd (e + 1) g disp oc now] d)"
      using uniq next_number_free [OF ok mem(1)] mem(2)
      by (auto simp: guard_head_def insert_revision_def row_key_of_def is_ok_def)
  next
    assume "is_ok (run_txn [guard_head kd e f, insert_revision kd (e + 1) g disp oc now] d)"
    then show "head_open e h" using mem by (auto simp: guard_head_def is_ok_def split: if_splits)
  qed
qed

lemma stage_revision_exact:
  assumes "receipts_ok d" "select_head (key_digest sha k) d = [h]" "stage_revision sha [] k g c m now = Inr ss"
  shows "is_ok (run_txn ss d) \<longleftrightarrow> head_open (uint (ch_head_revision c)) h"
    and "\<not> head_open (uint (ch_head_revision c)) h \<Longrightarrow> run_txn ss d = Inl head_moved"
  using swap_exact [OF assms(1,2), of "uint (ch_head_revision c)"] assms(3)
  by (auto simp: stage_revision_def Let_def guard_accept_def u32_succ)

lemma stage_collision_exact:
  assumes "receipts_ok d" "select_head (key_digest sha k) d = [h]" "stage_collision sha [] k g c m now = Inr ss"
  shows "is_ok (run_txn ss d) \<longleftrightarrow> head_open (uint (ch_head_revision c)) h"
    and "\<not> head_open (uint (ch_head_revision c)) h \<Longrightarrow> run_txn ss d = Inl head_moved"
  using swap_exact [OF assms(1,2), of "uint (ch_head_revision c)"] assms(3)
  by (auto simp: stage_collision_def Let_def guard_collision_def u32_succ)

lemma stage_first_known:
  assumes "receipts_ok d" "select_head (key_digest sha k) d = [h]" "stage_first sha [] k g m now = Inr ss"
  shows "is_ok (run_txn ss d) \<longleftrightarrow> head_open 0 h"
    and "\<not> head_open 0 h \<Longrightarrow> run_txn ss d = Inl head_moved"
proof -
  let ?kd = "key_digest sha k" and ?ru = "map_option u64_to_sql (rm_retain_until m)"
    and ?tu = "map_option u64_to_sql (rm_tombstone_until m)"
  have "?kd \<in> set (map hr_key_digest (rahi_receipt_head d))"
    using assms(2) select_head_Nil_iff [of ?kd d] by auto
  then have "seed_head ?kd k ?ru ?tu (u64_to_sql now) d = Inr (d, 0)" by (simp add: seed_head_def)
  note passes = run_txn_passes [where s = "seed_head ?kd k ?ru ?tu (u64_to_sql now)" and d = d, OF this]
  have ss: "ss = [seed_head ?kd k ?ru ?tu (u64_to_sql now), guard_accept 0 1 g ?kd (rk_key k) ?ru ?tu,
      insert_revision ?kd (0 + 1) g ''accepted'' (rm_outcome m) (u64_to_sql now)]"
    using assms(3) by (auto simp: stage_first_def Let_def)
  show "is_ok (run_txn ss d) \<longleftrightarrow> head_open 0 h" "\<not> head_open 0 h \<Longrightarrow> run_txn ss d = Inl head_moved"
    unfolding ss guard_accept_def passes(1)
    by (rule swap_exact [OF assms(1,2)]) (rule passes(2), erule swap_exact(2) [OF assms(1,2)])
qed

lemma stage_first_new:
  assumes ok: "receipts_ok d" and new: "select_head (key_digest sha k) d = []"
    and ss: "stage_first sha [] k g m now = Inr ss"
  shows "is_ok (run_txn ss d)"
proof -
  let ?kd = "key_digest sha k"
  define e where "e = d\<lparr>rahi_receipt_head := rahi_receipt_head d @
        [\<lparr>hr_key_digest = ?kd, hr_tenant = rk_tenant k, hr_namespace = rk_namespace k,
          hr_key = Some (rk_key k), hr_key_kind = key_kind k, hr_revision = 0,
          hr_accepted_revision = None, hr_accepted_digest = None,
          hr_retain_until = map_option u64_to_sql (rm_retain_until m),
          hr_tombstone_until = map_option u64_to_sql (rm_tombstone_until m), hr_tombstoned = 0,
          hr_erased = 0, hr_erased_at = None, hr_created_at = u64_to_sql now\<rparr>]\<rparr>"
  have out: "?kd \<notin> hr_key_digest ` set (rahi_receipt_head d)" using new select_head_Nil_iff by blast
  then have seed: "seed_head ?kd k (map_option u64_to_sql (rm_retain_until m))
      (map_option u64_to_sql (rm_tombstone_until m)) (u64_to_sql now) d = Inr (e, 1)"
    by (simp add: seed_head_def e_def)
  note passes = run_txn_passes(1) [where s = "seed_head ?kd k (map_option u64_to_sql (rm_retain_until m))
      (map_option u64_to_sql (rm_tombstone_until m)) (u64_to_sql now)" and d = d, OF seed]
  have "receipts_ok e" using seed_head_ok [OF seed ok] by blast
  moreover obtain h where "select_head ?kd e = [h]" "head_open 0 h"
    using new by (simp add: select_head_def e_def head_open_def)
  ultimately have "is_ok (run_txn [guard_head ?kd 0 f, insert_revision ?kd (0 + 1) g disp oc t] e)"
    for f disp oc t using swap_exact(1) by blast
  moreover have "ss = [seed_head ?kd k (map_option u64_to_sql (rm_retain_until m))
       (map_option u64_to_sql (rm_tombstone_until m)) (u64_to_sql now),
      guard_accept 0 1 g ?kd (rk_key k) (map_option u64_to_sql (rm_retain_until m))
       (map_option u64_to_sql (rm_tombstone_until m)),
      insert_revision ?kd (0 + 1) g ''accepted'' (rm_outcome m) (u64_to_sql now)]"
    using ss by (auto simp: stage_first_def Let_def)
  ultimately show ?thesis by (simp only: passes guard_accept_def)
qed

text \<open>
  The guard is a condition on the head: staged against a head that a sweep has deleted meanwhile, a
  revision or a collision is inserted without one.
\<close>

lemma orphan_swap:
  assumes "select_head kd d = []" "receipts_ok d"
  shows "\<exists>d' ns. run_txn [guard_head kd x f, insert_revision kd n g disp oc t] d = Inr (d', ns) \<and> \<not> receipts_ok d'"
proof -
  have out: "kd \<notin> hr_key_digest ` set (rahi_receipt_head d)" using assms(1) select_head_Nil_iff by blast
  then have rows: "(kd, n) \<notin> row_key_of ` set (rahi_receipt d)"
    using assms(2) by (force simp: receipts_ok_def tables_ok_def row_key_of_def)
  have none: "\<forall>h \<in> set (rahi_receipt_head d). hr_key_digest h \<noteq> kd" using out by (auto simp: image_iff)
  obtain d' ns where run: "run_txn [guard_head kd x f, insert_revision kd n g disp oc t] d = Inr (d', ns)"
  proof -
    have "\<exists>e n. guard_head kd x f d = Inr (e, n) \<and> rahi_receipt e = rahi_receipt d"
      using none by (auto simp: guard_head_def)
    moreover have "\<exists>q. insert_revision kd n g disp oc t e = Inr q" if "rahi_receipt e = rahi_receipt d" for e
      using rows that by (auto simp: insert_revision_def row_key_of_def)
    ultimately show thesis using that by fastforce
  qed
  note guard_insert(3,4) [OF run]
  moreover have "hr_key_digest ` set (update_rows (\<lambda>h. hr_key_digest h = kd) f (rahi_receipt_head d)) =
      hr_key_digest ` set (rahi_receipt_head d)" for f
    using none by (subst update_rows_none) auto
  ultimately have "kd \<in> rv_key_digest ` set (rahi_receipt d')"
      "kd \<notin> hr_key_digest ` set (rahi_receipt_head d')" using out by simp_all
  then have "\<not> receipts_ok d'" unfolding receipts_ok_def tables_ok_def by blast
  with run show ?thesis by blast
qed

lemma orphan_revision:
  assumes "select_head (key_digest sha k) d = []" "receipts_ok d" "stage_revision sha [] k g c m now = Inr ss"
  shows "\<exists>d' ns. run_txn ss d = Inr (d', ns) \<and> \<not> receipts_ok d'"
proof -
  let ?n = "uint (ch_head_revision c) + 1"
  have "ss = [guard_accept (uint (ch_head_revision c)) ?n g (key_digest sha k) (rk_key k)
        (map_option u64_to_sql (rm_retain_until m)) (map_option u64_to_sql (rm_tombstone_until m)),
       insert_revision (key_digest sha k) ?n g ''accepted'' (rm_outcome m) (u64_to_sql now)]"
    using assms(3) by (auto simp: stage_revision_def Let_def u32_succ)
  then show ?thesis unfolding guard_accept_def using orphan_swap [OF assms(1,2)] by simp
qed

lemma orphan_collision:
  assumes "select_head (key_digest sha k) d = []" "receipts_ok d" "stage_collision sha [] k g c m now = Inr ss"
  shows "\<exists>d' ns. run_txn ss d = Inr (d', ns) \<and> \<not> receipts_ok d'"
  using assms(3) orphan_swap [OF assms(1,2)]
  by (auto simp: stage_collision_def Let_def guard_collision_def u32_succ simp del: run_txn.simps)

text \<open>What stands of a head decides, when none does the batch commits.\<close>

lemma stage_first_decides:
  assumes ok: "receipts_ok d" and ss: "stage_first sha [] k g m now = Inr ss"
  shows "if \<forall>h \<in> set (select_head (key_digest sha k) d). head_open 0 h then is_ok (run_txn ss d)
    else run_txn ss d = Inl head_moved"
proof (cases "select_head (key_digest sha k) d")
  case Nil
  then show ?thesis using stage_first_new [OF ok _ ss] by simp
next
  case (Cons h hs)
  then have "select_head (key_digest sha k) d = [h]"
    using receipts_ok_select [OF ok, of h] by (auto simp: select_head_def filter_eq_Cons_iff)
  then show ?thesis using stage_first_known [OF ok _ ss] by simp
qed

lemma stage_swap_decides:
  assumes ok: "receipts_ok d" and ss: "stage_revision sha [] k g c m now = Inr ss \<or> stage_collision sha [] k g c m now = Inr ss"
  shows "if \<forall>h \<in> set (select_head (key_digest sha k) d). head_open (uint (ch_head_revision c)) h
      then \<exists>d' ns. run_txn ss d = Inr (d', ns) \<and> (select_head (key_digest sha k) d = [] \<longrightarrow> \<not> receipts_ok d')
      else run_txn ss d = Inl head_moved"
proof (cases "select_head (key_digest sha k) d")
  case Nil
  then show ?thesis using ss orphan_revision [OF Nil ok] orphan_collision [OF Nil ok] by auto
next
  case (Cons h hs)
  then have one: "select_head (key_digest sha k) d = [h]"
    using receipts_ok_select [OF ok, of h] by (auto simp: select_head_def filter_eq_Cons_iff)
  have "is_ok (run_txn ss d) \<longleftrightarrow> head_open (uint (ch_head_revision c)) h"
    "\<not> head_open (uint (ch_head_revision c)) h \<Longrightarrow> run_txn ss d = Inl head_moved"
    using ss stage_revision_exact [OF ok one] stage_collision_exact [OF ok one] by blast+
  with one show ?thesis by (auto simp: is_ok_def split: sum.split_asm)
qed

section \<open>Erased for good\<close>

definition wiped :: "string \<Rightarrow> 'a sdb \<Rightarrow> bool" where
  "wiped kd d \<longleftrightarrow>
     kd \<in> hr_key_digest ` set (rahi_receipt_head d) \<and>
     (\<forall>h \<in> set (rahi_receipt_head d). hr_key_digest h = kd \<longrightarrow> hr_erased h \<noteq> 0) \<and>
     kd \<notin> rv_key_digest ` set (rahi_receipt d)"

definition wipe_rel :: "string \<Rightarrow> 'a sdb \<Rightarrow> 'a sdb \<Rightarrow> bool" where
  "wipe_rel kd d d' \<longleftrightarrow> (wiped kd d \<longrightarrow> wiped kd d')"

interpretation wipe: batch_relation "wipe_rel kd"
  by unfold_locales (auto simp: wipe_rel_def)

lemma same_receipts_wipe: "same_receipts d d' \<Longrightarrow> wipe_rel kd d d'"
  by (simp add: same_receipts_def wipe_rel_def wiped_def)

lemma wiped_heads:
  assumes f: "\<And>h. p h \<Longrightarrow> hr_key_digest (f h) = hr_key_digest h"
      "\<And>h. p h \<Longrightarrow> hr_erased h \<noteq> 0 \<Longrightarrow> hr_erased (f h) \<noteq> 0"
    and hs: "rahi_receipt_head d' = update_rows p f (rahi_receipt_head d)"
    and rs: "rv_key_digest ` set (rahi_receipt d') \<subseteq> rv_key_digest ` set (rahi_receipt d)"
  shows "wipe_rel kd d d'"
  unfolding wipe_rel_def
proof
  assume w: "wiped kd d"
  have "map hr_key_digest (rahi_receipt_head d') = map hr_key_digest (rahi_receipt_head d)"
    unfolding hs by (rule map_update_rows) (rule f(1))
  moreover have "hr_erased h' \<noteq> 0" if h': "h' \<in> set (rahi_receipt_head d')" "hr_key_digest h' = kd" for h'
  proof -
    obtain h where h: "h \<in> set (rahi_receipt_head d)" "h' = (if p h then f h else h)"
      using h'(1) unfolding hs set_update_rows by blast
    then have "hr_key_digest h = kd" using h'(2) f(1) by (cases "p h") auto
    then show ?thesis using w h f(2) by (cases "p h") (auto simp: wiped_def)
  qed
  ultimately show "wiped kd d'" using w rs heads_kept unfolding wiped_def by blast
qed

lemma wiped_rows:
  assumes "rahi_receipt_head d' = rahi_receipt_head d"
    and "rv_key_digest ` set (rahi_receipt d') \<subseteq> rv_key_digest ` set (rahi_receipt d)"
  shows "wipe_rel kd d d'"
  using assms unfolding wipe_rel_def wiped_def by auto

lemma digests_kept:
  "(\<And>r. rv_key_digest (f r) = rv_key_digest r) \<Longrightarrow>
     rv_key_digest ` set (update_rows p f rs) = rv_key_digest ` set rs"
  using map_update_rows [of p rv_key_digest f rs] by (metis set_map)

lemma wipe_carry:
  "wipe.carries kd (touch_seen now x n)" "wipe.carries kd (erase_receipts p)"
  "wipe.carries kd (compact_receipts x)" "wipe.carries kd (delete_revisions x now)"
  "wipe.carries kd (compact_head x now)" "wipe.carries kd (erase_heads now p)"
  "wipe.carries kd (delete_head x now)" "wipe.carries kd (seed_erased x now)"
  "wipe.carries kd (seed_head x k ru tu now)"
proof -
  show "wipe.carries kd (touch_seen now x n)" "wipe.carries kd (erase_receipts p)"
    "wipe.carries kd (compact_receipts x)" "wipe.carries kd (delete_revisions x now)"
    by (rule wipe.carriesI, rule wiped_rows; auto simp: receipt_sql_defs Let_def digests_kept)+
  show "wipe.carries kd (compact_head x now)"
  proof (rule wipe.carriesI)
    fix d d' n
    assume "compact_head x now d = Inr (d', n)"
    then show "wipe_rel kd d d'"
      by (intro wiped_heads [where p = "\<lambda>h. hr_key_digest h = x \<and> compactable now d h"
            and f = "\<lambda>h. h\<lparr>hr_key := None, hr_tombstoned := 1\<rparr>"])
        (auto simp: compact_head_def Let_def)
  qed
  show "wipe.carries kd (erase_heads now p)"
  proof (rule wipe.carriesI)
    fix d d' n
    assume "erase_heads now p d = Inr (d', n)"
    then show "wipe_rel kd d d'"
      by (intro wiped_heads [where p = "\<lambda>h. p d (hr_key_digest h)" and f = "\<lambda>h.
            h\<lparr>hr_key := None, hr_tenant := [], hr_namespace := [], hr_key_kind := [],
               hr_accepted_revision := None, hr_accepted_digest := None,
               hr_retain_until := None, hr_tombstone_until := None, hr_tombstoned := 0,
               hr_erased := 1, hr_erased_at := Some now\<rparr>"])
        (auto simp: erase_heads_def)
  qed
  show "wipe.carries kd (delete_head x now)" "wipe.carries kd (seed_erased x now)"
    "wipe.carries kd (seed_head x k ru tu now)"
    by (rule wipe.carriesI;
        auto simp: wipe_rel_def wiped_def delete_head_def seed_erased_def seed_head_def deletable_def Let_def
          image_iff split: if_splits)+
qed

lemma wipe_carry_others:
  "receipts.carries_all ss \<Longrightarrow> wipe.carries_all kd ss"
  by (auto simp: wipe.carries_all_def receipts.carries_all_def intro: same_receipts_wipe)

text \<open>On an erased head the guard of every staging call refuses; on any other identity it does not touch this one.\<close>

lemma guard_wiped:
  "wiped kd d \<Longrightarrow> guard_head kd e f d = Inl head_moved"
  by (auto simp: wiped_def guard_head_def head_open_def head_moved_def)

lemma guard_insert_wipe:
  assumes "\<And>h. hr_key_digest (f h) = hr_key_digest h \<and> hr_erased (f h) = hr_erased h"
  shows "wipe.carries_all kd [guard_head x e f, insert_revision x m g disp oc now]"
  unfolding wipe.carries_all_def
proof (intro allI impI)
  fix d d' :: "'a sdb" and ns
  assume run: "run_txn [guard_head x e f, insert_revision x m g disp oc now] d = Inr (d', ns)"
  show "wipe_rel kd d d'"
  proof (cases "x = kd \<and> wiped kd d")
    case True
    then show ?thesis using run guard_wiped [of kd d e f] by simp
  next
    case False
    define d1 where "d1 = d\<lparr>rahi_receipt_head := rahi_receipt_head d'\<rparr>"
    have "wipe_rel kd d d1"
      by (rule wiped_heads [where p = "\<lambda>h. hr_key_digest h = x" and f = f])
        (use assms guard_insert(3) [OF run] in \<open>simp_all add: d1_def\<close>)
    then show ?thesis
      using False guard_insert(4) [OF run] by (auto simp: wipe_rel_def wiped_def d1_def)
  qed
qed

lemma stage_first_wipe:
  assumes "stage_first sha [] k g m now = Inr ss"
  shows "wipe.carries_all kd ss"
proof -
  obtain x ru tu where "ss = seed_head x k ru tu (u64_to_sql now) #
      [guard_accept 0 1 g x (rk_key k) ru tu,
       insert_revision x 1 g ''accepted'' (rm_outcome m) (u64_to_sql now)]"
    using assms by (auto simp: stage_first_def Let_def)
  then show ?thesis
    unfolding guard_accept_def by (auto intro!: wipe.carries_Cons [OF wipe_carry(9)] guard_insert_wipe)
qed

lemma stage_swap_wipe:
  "stage_revision sha [] k g c m now = Inr ss \<Longrightarrow> wipe.carries_all kd ss"
  "stage_collision sha [] k g c m now = Inr ss \<Longrightarrow> wipe.carries_all kd ss"
  unfolding stage_revision_def stage_collision_def Let_def guard_accept_def guard_collision_def
  by (auto intro!: guard_insert_wipe)

lemma receipts_carry_attempt_erasure: "receipts.carries (erase_attempts p)" "receipts.carries (erase_work p)"
  by (auto intro!: receipts.carriesI simp: same_receipts_def erase_attempts_def erase_work_def)

lemma wipe_same: "receipts.carries s \<Longrightarrow> wipe.carries kd s"
  unfolding receipts.carries_def wipe.carries_def by (blast intro: same_receipts_wipe)

lemmas wipe_carries = wipe_carry receipts_carry [THEN wipe_same] receipts_carry_attempt_erasure [THEN wipe_same]

lemma staged_wipe: "staged sha claims p \<Longrightarrow> wipe.carries_all kd p"
proof (induction rule: staged.induct)
  case (staged_first k g m now ss)
  then show ?case by (rule stage_first_wipe)
next
  case (staged_revision k g c m now ss)
  then show ?case by (rule stage_swap_wipe)
next
  case (staged_collision k g c m now ss)
  then show ?case by (rule stage_swap_wipe)
next
  case (staged_erasure scope now)
  show ?case
    by (cases scope)
      (auto simp: stage_erasure_def erase_by_predicate_def
        intro!: wipe.carries_Cons wipe.carries_Nil wipe_carries)
next
  case (staged_fail cl f p now ss)
  then show ?case
    by (auto simp: work_fail_def Let_def work_guard_def intro!: wipe.carries_Cons wipe.carries_Nil wipe_carries)
next
  case (staged_expired m t c)
  show ?case
    by (cases c) (auto simp: expired_pair_def intro!: wipe.carries_Cons wipe.carries_Nil wipe_carries)
qed (auto simp: outbox_stage_def stage_seen_def stage_work_def work_guard_def work_complete_def
    work_requeue_def compact_four_def compact_attempts_def compact_work_def delete_pair_def
    intro!: wipe.carries_Cons wipe.carries_Nil wipe_carries)

lemma wiped_step:
  assumes "cluster_step sha C C'" "wiped kd (cs_db C)"
  shows "wiped kd (cs_db C')"
  using assms(1)
proof cases
  case (step_bump key d n)
  then have "same_receipts (cs_db C) d" by (auto simp: bump_fence_def same_receipts_def)
  then show ?thesis using step_bump assms(2) same_receipts_wipe by (auto simp: wipe_rel_def)
next
  case (step_claim ts l c cs us g holder hold_for now d n ns won)
  have "receipts.carries_all (g # claim_batch l c holder hold_for now)"
    using step_claim(3) by (auto simp: guard_statement_def claim_batch_def Let_def
        split: if_splits intro!: receipts.carries_Cons receipts.carries_Nil receipts_carry)
  then have "wipe_rel kd (cs_db C) d"
    using step_claim(4) wipe_carry_others wipe.carries_allD by blast
  then show ?thesis using step_claim assms(2) by (simp add: wipe_rel_def)
next
  case (step_renew ts l us cl g t now hold_for d m n won)
  let ?u = "renew_row (u64_to_sql (hold_until now hold_for)) (work_id sha (cl_key cl))
        (u64_to_sql (cl_token cl)) (u64_to_sql now) t"
  have "receipts.carries_all [g, ?u]"
    using step_renew by (auto simp: guard_statement_def
        split: if_splits intro!: receipts.carries_Cons receipts.carries_Nil receipts_carry)
  then have "wipe_rel kd (cs_db C) d"
    using step_renew wipe_carry_others wipe.carries_allD by blast
  then show ?thesis using step_renew assms(2) by (simp add: wipe_rel_def)
next
  case (step_batch ps d ns)
  have "wipe.carries_all kd (concat ps)"
    using step_batch(2) staged_wipe by (intro wipe.carries_concat) blast
  then have "wipe_rel kd (cs_db C) d" using step_batch(3) wipe.carries_allD by blast
  then show ?thesis using step_batch assms(2) by (simp add: wipe_rel_def)
qed (use assms(2) in auto)

lemma wiped_steps: "cluster_steps sha C C' \<Longrightarrow> wiped kd (cs_db C) \<Longrightarrow> wiped kd (cs_db C')"
  by (induction rule: rtranclp_induct) (auto intro: wiped_step)

text \<open>No staging call commits on an erased identity.\<close>

lemma stage_refused:
  assumes w: "wiped (key_digest sha k) d"
    and ss: "stage_first sha [] k g m now = Inr ss \<or> stage_revision sha [] k g c m now = Inr ss \<or>
      stage_collision sha [] k g c m now = Inr ss"
  shows "run_txn ss d = Inl head_moved"
proof -
  have "key_digest sha k \<in> set (map hr_key_digest (rahi_receipt_head d))"
    using w by (simp add: wiped_def)
  then have "seed_head (key_digest sha k) k ru tu t d = Inr (d, 0)" for ru tu t
    by (simp add: seed_head_def)
  then show ?thesis
    using ss guard_wiped [OF w]
    by (auto simp: stage_first_def stage_revision_def stage_collision_def Let_def
        guard_accept_def guard_collision_def)
qed

lemma erase_identity_wipes:
  assumes "run_txn (stage_erasure sha [] (EraseIdentity k) now) d = Inr (d', ns)" "receipts_ok d"
  shows "wiped (key_digest sha k) d'"
proof -
  have ok: "receipts_ok d'" using stage_erasure_ok assms by blast
  let ?kd = "key_digest sha k"
  obtain e where e: "seed_erased ?kd (u64_to_sql now) d = Inr e" "run_txn
      [erase_receipts (erase_selects sha (EraseIdentity k)), erase_attempts (erase_selects sha (EraseIdentity k)),
       erase_work (erase_selects sha (EraseIdentity k)),
       erase_heads (u64_to_sql now) (erase_selects sha (EraseIdentity k))] (fst e) = Inr (d', tl ns)"
    using assms(1) by (auto simp: stage_erasure_def erase_by_predicate_def)
  let ?f = "\<lambda>h. h\<lparr>hr_key := None, hr_tenant := '''', hr_namespace := '''', hr_key_kind := '''',
                 hr_accepted_revision := None, hr_accepted_digest := None,
                 hr_retain_until := None, hr_tombstone_until := None, hr_tombstoned := 0,
                 hr_erased := 1, hr_erased_at := Some (u64_to_sql now)\<rparr>"
  have some: "?kd \<in> hr_key_digest ` set (rahi_receipt_head (fst e))"
    using e(1) by (auto simp: seed_erased_def split: if_splits)
  have hs: "rahi_receipt_head d' = update_rows (\<lambda>h. hr_key_digest h = ?kd) ?f (rahi_receipt_head (fst e))"
    and rs: "rahi_receipt d' = filter (\<lambda>r. rv_key_digest r \<noteq> ?kd) (rahi_receipt (fst e))"
    using e(2) by (auto simp: erase_heads_def erase_work_def erase_attempts_def erase_receipts_def
        erase_selects_def)
  have "map hr_key_digest (rahi_receipt_head d') = map hr_key_digest (rahi_receipt_head (fst e))"
    unfolding hs by (rule map_update_rows) simp
  then have "?kd \<in> hr_key_digest ` set (rahi_receipt_head d')" using some heads_kept by blast
  moreover have "hr_erased h \<noteq> 0" if "h \<in> set (rahi_receipt_head d')" "hr_key_digest h = ?kd" for h
    using that unfolding hs set_update_rows by (auto split: if_splits)
  moreover have "?kd \<notin> rv_key_digest ` set (rahi_receipt d')" by (auto simp: rs)
  ultimately show ?thesis unfolding wiped_def by blast
qed

section \<open>Classified, staged, delivered again\<close>

definition classified :: "(string \<Rightarrow> string) \<Rightarrow> 'a sdb \<Rightarrow> receipt_key \<Rightarrow> string \<Rightarrow> error + classification" where
  "classified sha d k g =
     (case select_head (key_digest sha k) d of
        [] \<Rightarrow> Inr FirstSeen
      | h # _ \<Rightarrow>
          if hr_erased h \<noteq> 0 then classify_erased h
          else (case select_revision_by_digest (key_digest sha k) g d of
                  r # _ \<Rightarrow> classify_match h r
                | [] \<Rightarrow> classify_changed h))"

lemma calm_classify:
  "\<exists>n. classify_receipt sha calm k g t = (classified sha (ho_db t) k g, t\<lparr>ho_clock := n\<rparr>)"
  by (auto simp: classify_receipt_def classified_def obind_def on_result_def calm_read ret_def lift_def
      split: list.splits)

lemma first_seen_iff: "classified sha d k g = Inr FirstSeen \<longleftrightarrow> select_head (key_digest sha k) d = []"
  by (auto simp: classified_def classify_erased_def classify_match_def classify_changed_def
      split: list.splits option.splits if_splits)

lemma first_seen_stages:
  "receipts_ok d \<Longrightarrow> classified sha d k g = Inr FirstSeen \<Longrightarrow> stage_first sha [] k g m now = Inr ss \<Longrightarrow>
     is_ok (run_txn ss d)"
  by (rule stage_first_new) (simp_all add: first_seen_iff)

lemma classified_changed:
  assumes "receipts_ok d" "classified sha d k g = Inr (Changed c)"
  obtains h where "select_head (key_digest sha k) d = [h]" "head_open (uint (ch_head_revision c)) h"
    "select_revision_by_digest (key_digest sha k) g d = []"
proof -
  obtain h hs where hs: "select_head (key_digest sha k) d = h # hs"
    using assms(2) by (auto simp: classified_def split: list.splits)
  then have "h \<in> set (rahi_receipt_head d)" "hr_key_digest h = key_digest sha k"
    by (auto simp: select_head_def filter_eq_Cons_iff)
  with assms(1) have one: "select_head (key_digest sha k) d = [h]" by (rule receipts_ok_select)
  have "hr_erased h = 0" "select_revision_by_digest (key_digest sha k) g d = []"
      "classify_changed h = Inr (Changed c)"
    using assms(2) hs
    by (auto simp: classified_def classify_erased_def classify_match_def classify_changed_def
        split: list.splits option.splits if_splits)
  then show thesis
    by (intro that [OF one])
      (auto simp: head_open_def classify_changed_def to_revision_def or_error_def uint_i64_to_u32
        split: option.splits)
qed

lemma changed_stages:
  assumes "receipts_ok d" "classified sha d k g = Inr (Changed c)"
  shows "stage_revision sha [] k g c m now = Inr ss \<Longrightarrow> is_ok (run_txn ss d)"
    and "stage_collision sha [] k g c m now = Inr ss \<Longrightarrow> is_ok (run_txn ss d)"
  using classified_changed [OF assms] stage_revision_exact(1) [OF assms(1)]
    stage_collision_exact(1) [OF assms(1)] by metis+

lemma recorded_after:
  assumes run: "run_txn [guard_head kd e f, insert_revision kd x g disp oc now] d = Inr (d', ns)"
    and h: "select_head kd d = [h]" and f: "\<And>h. hr_key_digest (f h) = hr_key_digest h"
    and new: "select_revision_by_digest kd g d = []"
  shows "select_head kd d' = [f h]"
    and "select_revision_by_digest kd g d' =
      [\<lparr>rv_key_digest = kd, rv_revision = x, rv_digest = g, rv_disposition = disp, rv_outcome = oc,
        rv_seen_count = Some 1, rv_last_seen_at = Some now, rv_created_at = now\<rparr>]"
proof -
  have "filter (\<lambda>h. hr_key_digest h = kd) (update_rows (\<lambda>h. hr_key_digest h = kd) f hs) =
      map f (filter (\<lambda>h. hr_key_digest h = kd) hs)" for hs
    using f by (induction hs) auto
  then show "select_head kd d' = [f h]"
    using h guard_insert(3) [OF run] by (simp add: select_head_def)
  show "select_revision_by_digest kd g d' =
      [\<lparr>rv_key_digest = kd, rv_revision = x, rv_digest = g, rv_disposition = disp, rv_outcome = oc,
        rv_seen_count = Some 1, rv_last_seen_at = Some now, rv_created_at = now\<rparr>]"
    using new guard_insert(4) [OF run] by (simp add: select_revision_by_digest_def)
qed

lemma accepted_again:
  assumes "select_head (key_digest sha k) d = [h]" "hr_erased h = 0" "hr_accepted_revision h = Some x"
    and "select_revision_by_digest (key_digest sha k) g d = [r]" "rv_revision r = x"
      "rv_disposition r = ''accepted''" "i64_to_u32 x = Some n"
  shows "classified sha d k g = Inr (Redelivered n True (rv_outcome r))"
  using assms by (simp add: classified_def classify_match_def to_revision_def or_error_def)

lemma collided_again:
  assumes "select_head (key_digest sha k) d = [h]" "hr_erased h = 0"
    and "select_revision_by_digest (key_digest sha k) g d = [r]"
      "rv_disposition r = ''collision''" "i64_to_u32 (rv_revision r) = Some n"
  shows "classified sha d k g = Inr (CollisionRedelivered n)"
  using assms by (simp add: classified_def classify_match_def to_revision_def or_error_def)

lemma first_delivered_again:
  assumes ok: "receipts_ok d" and new: "classified sha d k g = Inr FirstSeen"
    and ss: "stage_first sha [] k g m now = Inr ss" and run: "run_txn ss d = Inr (d', ns)"
  shows "classified sha d' k g = Inr (Redelivered 1 True (rm_outcome m))"
proof -
  let ?kd = "key_digest sha k" and ?ru = "map_option u64_to_sql (rm_retain_until m)"
    and ?tu = "map_option u64_to_sql (rm_tombstone_until m)"
  have no: "select_head ?kd d = []" using new by (simp add: first_seen_iff)
  then have out: "?kd \<notin> hr_key_digest ` set (rahi_receipt_head d)" using select_head_Nil_iff by blast
  have "ss = [seed_head ?kd k ?ru ?tu (u64_to_sql now)] @
      [guard_accept 0 1 g ?kd (rk_key k) ?ru ?tu,
       insert_revision ?kd 1 g ''accepted'' (rm_outcome m) (u64_to_sql now)]"
    using ss by (auto simp: stage_first_def Let_def)
  from run [unfolded this run_txn_append_iff] obtain e n1 n2 where
      s: "run_txn [seed_head ?kd k ?ru ?tu (u64_to_sql now)] d = Inr (e, n1)"
      and r: "run_txn [guard_accept 0 1 g ?kd (rk_key k) ?ru ?tu,
       insert_revision ?kd 1 g ''accepted'' (rm_outcome m) (u64_to_sql now)] e = Inr (d', n2)"
    by blast
  have "rv_key_digest ` set (rahi_receipt d) \<subseteq> hr_key_digest ` set (rahi_receipt_head d)"
    using ok by (simp add: receipts_ok_def tables_ok_def)
  then have rows: "?kd \<notin> rv_key_digest ` set (rahi_receipt d)" using out by blast
  obtain h where h: "select_head ?kd e = [h]" "hr_erased h = 0" "rahi_receipt e = rahi_receipt d"
    using s no out by (auto simp: seed_head_def select_head_def)
  have none: "select_revision_by_digest ?kd g e = []"
    using rows h(3) by (auto simp: select_revision_by_digest_def filter_empty_conv image_iff)
  note after = recorded_after [OF r [unfolded guard_accept_def] h(1) _ none, simplified]
  show ?thesis
    using accepted_again [OF after(1) _ _ after(2)] h(2) by (simp add: i64_to_u32_def)
qed

lemma revision_delivered_again:
  assumes ok: "receipts_ok d" and new: "classified sha d k g = Inr (Changed c)"
    and ss: "stage_revision sha [] k g c m now = Inr ss" and run: "run_txn ss d = Inr (d', ns)"
    and fits: "uint (ch_head_revision c) + 1 < 2 ^ 32"
  shows "classified sha d' k g = Inr (Redelivered (ch_head_revision c + 1) True (rm_outcome m))"
proof -
  let ?kd = "key_digest sha k" and ?e = "uint (ch_head_revision c)"
  obtain h where h: "select_head ?kd d = [h]" "head_open ?e h" "select_revision_by_digest ?kd g d = []"
    by (rule classified_changed [OF ok new])
  have n: "i64_to_u32 (?e + 1) = Some (ch_head_revision c + 1)"
    using fits by (simp add: i64_to_u32_def)
  have "run_txn [guard_accept ?e (?e + 1) g ?kd (rk_key k) (map_option u64_to_sql (rm_retain_until m))
         (map_option u64_to_sql (rm_tombstone_until m)),
       insert_revision ?kd (?e + 1) g ''accepted'' (rm_outcome m) (u64_to_sql now)] d = Inr (d', ns)"
    using ss run by (auto simp: stage_revision_def Let_def u32_succ simp del: run_txn.simps)
  note after = recorded_after [OF this [unfolded guard_accept_def] h(1) _ h(3), simplified]
  show ?thesis
    using accepted_again [OF after(1) _ _ after(2)] h(2) n by (simp add: head_open_def)
qed

lemma collision_delivered_again:
  assumes ok: "receipts_ok d" and new: "classified sha d k g = Inr (Changed c)"
    and ss: "stage_collision sha [] k g c m now = Inr ss" and run: "run_txn ss d = Inr (d', ns)"
    and fits: "uint (ch_head_revision c) + 1 < 2 ^ 32"
  shows "classified sha d' k g = Inr (CollisionRedelivered (ch_head_revision c + 1))"
proof -
  let ?kd = "key_digest sha k" and ?e = "uint (ch_head_revision c)"
  obtain h where h: "select_head ?kd d = [h]" "head_open ?e h" "select_revision_by_digest ?kd g d = []"
    by (rule classified_changed [OF ok new])
  have n: "i64_to_u32 (?e + 1) = Some (ch_head_revision c + 1)"
    using fits by (simp add: i64_to_u32_def)
  have "run_txn [guard_collision ?e (?e + 1) ?kd (rk_key k) (map_option u64_to_sql (rm_retain_until m))
         (map_option u64_to_sql (rm_tombstone_until m)),
       insert_revision ?kd (?e + 1) g ''collision'' (rm_outcome m) (u64_to_sql now)] d = Inr (d', ns)"
    using ss run by (auto simp: stage_collision_def Let_def u32_succ simp del: run_txn.simps)
  note after = recorded_after [OF this [unfolded guard_collision_def] h(1) _ h(3), simplified]
  show ?thesis
    using collided_again [OF after(1) _ after(2)] h(2) n by (simp add: head_open_def)
qed

text \<open>A wiped identity is answered \<open>Erased\<close>, never as new.\<close>

lemma wiped_classified:
  assumes "receipts_ok d" "wiped (key_digest sha k) d"
  shows "\<exists>t. classified sha d k g = Inr (Erased t)"
proof -
  obtain h where h: "h \<in> set (rahi_receipt_head d)" "hr_key_digest h = key_digest sha k" "hr_erased h \<noteq> 0"
    using assms(2) by (auto simp: wiped_def)
  moreover have "head_ok (rahi_receipt d) h" using assms(1) h(1) by (simp add: receipts_ok_def tables_ok_def)
  ultimately obtain t where "hr_erased_at h = Some t" "0 \<le> t" by (auto simp: head_ok_def)
  then show ?thesis
    using receipts_ok_select [OF assms(1) h(1,2)] h(3)
    by (simp add: classified_def classify_erased_def i64_to_u64_def or_error_def)
qed

end
