(* ===== verification/Work_History.thy ===== *)
theory Work_History
  imports Work_Facts Receipt_Swap
begin

text \<open>
  The attempt table is the history of every row: a row at attempt \<open>n\<close> has exactly one record of each
  of the attempts one to \<open>n\<close>, beside what requeueing noted, and at most the last of them is open,
  which it is only while the row is claimed. Attempts outlive no row.
\<close>

section \<open>The invariant\<close>

definition tries :: "attempt_row list \<Rightarrow> row_id \<Rightarrow> int list" where
  "tries hist i = map ar_attempt (filter (\<lambda>a. ar_id a = i \<and> ar_outcome a \<noteq> Requeued) hist)"

definition open_tries :: "attempt_row list \<Rightarrow> row_id \<Rightarrow> int set" where
  "open_tries hist i = ar_attempt ` {a \<in> set hist. ar_id a = i \<and> ar_outcome a = Opened}"

definition kept :: "attempt_row list \<Rightarrow> work_row \<Rightarrow> bool" where
  "kept hist r \<longleftrightarrow>
     0 \<le> wr_attempt r \<and> distinct (tries hist (wr_id r)) \<and> set (tries hist (wr_id r)) = {1..wr_attempt r} \<and>
     open_tries hist (wr_id r) \<subseteq> (if wr_state r = Claimed then {wr_attempt r} else {})"

definition tidy :: "work_row list \<Rightarrow> attempt_row list \<Rightarrow> bool" where
  "tidy rs hist \<longleftrightarrow> (\<forall>r \<in> set rs. kept hist r) \<and> ar_id ` set hist \<subseteq> wr_id ` set rs"

definition history_ok :: "'a sdb \<Rightarrow> bool" where
  "history_ok d \<longleftrightarrow> tidy (rahi_processing d) (rahi_processing_attempt d)"

lemma tries_append [simp]: "tries (xs @ ys) i = tries xs i @ tries ys i"
  by (simp add: tries_def)

lemma open_tries_append [simp]: "open_tries (xs @ ys) i = open_tries xs i \<union> open_tries ys i"
  by (auto simp: open_tries_def)

section \<open>Closing\<close>

definition closes :: "(attempt_row \<Rightarrow> bool) \<Rightarrow> (attempt_row \<Rightarrow> attempt_row) \<Rightarrow> bool" where
  "closes q g \<longleftrightarrow>
     (\<forall>a. q a \<longrightarrow> ar_outcome a = Opened \<and> ar_id (g a) = ar_id a \<and> ar_attempt (g a) = ar_attempt a \<and>
        ar_outcome (g a) \<noteq> Opened \<and> ar_outcome (g a) \<noteq> Requeued)"

lemma closes_tries: "closes q g \<Longrightarrow> tries (update_rows q g hist) i = tries hist i"
  by (induction hist) (auto simp: tries_def closes_def)

lemma closes_open:
  "closes q g \<Longrightarrow> open_tries (update_rows q g hist) i =
     ar_attempt ` {a \<in> set hist. ar_id a = i \<and> ar_outcome a = Opened \<and> \<not> q a}"
  by (force simp: open_tries_def set_update_rows closes_def split: if_splits)

lemma closes_ids: "closes q g \<Longrightarrow> ar_id ` set (update_rows q g hist) = ar_id ` set hist"
  using map_update_rows [of q ar_id g hist] by (metis closes_def set_map)

lemma settle:
  assumes t: "tidy rs hist" and q: "closes q g"
    and f: "\<And>r. wr_id (f r) = wr_id r \<and> wr_attempt (f r) = wr_attempt r"
    and s: "\<And>r a. r \<in> set rs \<Longrightarrow> p r \<Longrightarrow> wr_state r = Claimed \<Longrightarrow> wr_state (f r) \<noteq> Claimed \<Longrightarrow>
      ar_id a = wr_id r \<Longrightarrow> ar_attempt a = wr_attempt r \<Longrightarrow> ar_outcome a = Opened \<Longrightarrow> q a"
  shows "tidy (update_rows p f rs) (update_rows q g hist)"
proof -
  have "kept (update_rows q g hist) r'" if r': "r' \<in> set (update_rows p f rs)" for r'
  proof -
    obtain r where r: "r \<in> set rs" "r' = (if p r then f r else r)"
      using r' unfolding set_update_rows by blast
    have k: "kept hist r" using t r(1) by (simp add: tidy_def)
    have same: "wr_id r' = wr_id r" "wr_attempt r' = wr_attempt r" using r(2) f by auto
    have "open_tries (update_rows q g hist) (wr_id r) \<subseteq> (if wr_state r' = Claimed then {wr_attempt r} else {})"
    proof
      fix n
      assume "n \<in> open_tries (update_rows q g hist) (wr_id r)"
      then obtain a where a: "a \<in> set hist" "ar_id a = wr_id r" "ar_outcome a = Opened" "\<not> q a" "n = ar_attempt a"
        unfolding closes_open [OF q] by blast
      then have "n \<in> open_tries hist (wr_id r)" by (auto simp: open_tries_def)
      then have c: "wr_state r = Claimed" "n = wr_attempt r"
        using k by (auto simp: kept_def split: if_splits)
      have "wr_state r' = Claimed"
        using s [OF r(1) _ c(1)] a c r(2) by (cases "p r") auto
      then show "n \<in> (if wr_state r' = Claimed then {wr_attempt r} else {})" using c by simp
    qed
    then show ?thesis using k unfolding kept_def same closes_tries [OF q] by blast
  qed
  moreover have "wr_id ` set (update_rows p f rs) = wr_id ` set rs"
    using map_update_rows [of p wr_id f rs] f by (metis set_map)
  ultimately show ?thesis using t closes_ids [OF q] by (simp add: tidy_def)
qed

lemma tidy_close: "tidy rs hist \<Longrightarrow> closes q g \<Longrightarrow> tidy rs (update_rows q g hist)"
  using settle [of rs hist q g "\<lambda>r. r" "\<lambda>_. False"] by (simp add: update_rows_none)

lemma tidy_move:
  assumes "tidy rs hist" "\<And>r. wr_id (f r) = wr_id r \<and> wr_attempt (f r) = wr_attempt r"
    and "\<And>r. r \<in> set rs \<Longrightarrow> p r \<Longrightarrow> wr_state r = Claimed \<Longrightarrow> wr_state (f r) = Claimed"
  shows "tidy (update_rows p f rs) hist"
  using settle [OF assms(1), of "\<lambda>_. False" id f p] assms(2,3)
  by (auto simp: closes_def update_rows_none)

section \<open>Growing and erasing\<close>

lemma tidy_requeued:
  assumes "tidy rs hist" "\<And>a. a \<in> set new \<Longrightarrow> ar_outcome a = Requeued \<and> ar_id a \<in> wr_id ` set rs"
  shows "tidy rs (hist @ new)"
proof -
  have "tries new i = [] \<and> open_tries new i = {}" for i
    using assms(2) by (auto simp: tries_def open_tries_def filter_empty_conv)
  then show ?thesis using assms by (auto simp: tidy_def kept_def)
qed

lemma tidy_new_row:
  assumes "tidy rs hist" "wr_id r \<notin> wr_id ` set rs" "wr_attempt r = 0"
  shows "tidy (rs @ [r]) hist"
proof -
  have "wr_id r \<notin> ar_id ` set hist" using assms(1,2) by (auto simp: tidy_def)
  then have "tries hist (wr_id r) = []" "open_tries hist (wr_id r) = {}"
    by (auto simp: tries_def open_tries_def filter_empty_conv image_iff)
  then show ?thesis using assms(1,3) by (auto simp: tidy_def kept_def)
qed

lemma tidy_erase:
  assumes "tidy rs hist"
  shows "tidy (filter (\<lambda>r. \<not> q (wr_key_digest r)) rs) (filter (\<lambda>a. \<not> q (ar_key_digest a)) hist)"
proof -
  have "kept (filter (\<lambda>a. \<not> q (ar_key_digest a)) hist) r" if r: "r \<in> set rs" "\<not> q (wr_key_digest r)" for r
  proof -
    have same: "ar_key_digest a = wr_key_digest r" if "ar_id a = wr_id r" for a
      using that by (simp add: ar_id_def wr_id_def)
    then have "tries (filter (\<lambda>a. \<not> q (ar_key_digest a)) hist) (wr_id r) = tries hist (wr_id r)"
      using r(2) by (auto simp: tries_def intro!: arg_cong [where f = "map ar_attempt"] filter_cong)
    moreover have "open_tries (filter (\<lambda>a. \<not> q (ar_key_digest a)) hist) (wr_id r) = open_tries hist (wr_id r)"
      using r(2) same by (auto simp: open_tries_def)
    moreover have "kept hist r" using assms r(1) by (simp add: tidy_def)
    ultimately show ?thesis by (simp add: kept_def)
  qed
  moreover have "ar_id a \<in> wr_id ` {r \<in> set rs. \<not> q (wr_key_digest r)}"
    if a: "a \<in> set hist" "\<not> q (ar_key_digest a)" for a
  proof -
    obtain r where "r \<in> set rs" "ar_id a = wr_id r" using assms a(1) by (auto simp: tidy_def)
    moreover from this(2) have "wr_key_digest r = ar_key_digest a" by (simp add: ar_id_def wr_id_def)
    ultimately show ?thesis using a(2) by auto
  qed
  ultimately show ?thesis by (auto simp: tidy_def)
qed

section \<open>A claim\<close>

text \<open>One row goes to its next attempt: the attempt before is closed, the next one opened.\<close>

lemma tidy_claim:
  assumes t: "tidy rs hist" and ids: "distinct (map wr_id rs)" and r: "r \<in> set rs"
    and q: "closes q g" and qr: "\<And>a. ar_id a = wr_id r \<Longrightarrow> ar_outcome a = Opened \<Longrightarrow>
      ar_attempt a = wr_attempt r \<Longrightarrow> q a"
    and f: "wr_id (f r) = wr_id r" "wr_attempt (f r) = wr_attempt r + 1" "wr_state (f r) = Claimed"
    and new: "ar_id new = wr_id r" "ar_attempt new = wr_attempt r + 1" "ar_outcome new = Opened"
  shows "tidy (update_rows (\<lambda>x. x = r) f rs) (update_rows q g hist @ [new])"
proof -
  let ?h = "update_rows q g hist @ [new]"
  have "kept ?h x'" if x': "x' \<in> set (update_rows (\<lambda>x. x = r) f rs)" for x'
  proof -
    obtain x where x: "x \<in> set rs" "x' = (if x = r then f x else x)"
      using x' unfolding set_update_rows by blast
    have k: "kept hist x" using t x(1) by (simp add: tidy_def)
    show ?thesis
    proof (cases "x = r")
      case True
      have tr: "tries ?h (wr_id r) = tries hist (wr_id r) @ [wr_attempt r + 1]"
        using new by (simp add: closes_tries [OF q]) (simp add: tries_def)
      have "open_tries (update_rows q g hist) (wr_id r) = {}"
      proof -
        have "q a" if "a \<in> set hist" "ar_id a = wr_id r" "ar_outcome a = Opened" for a
        proof -
          have "ar_attempt a \<in> open_tries hist (wr_id r)" using that by (auto simp: open_tries_def)
          then have "ar_attempt a = wr_attempt r" using k True by (auto simp: kept_def split: if_splits)
          then show ?thesis using qr that by simp
        qed
        then show ?thesis unfolding closes_open [OF q] by blast
      qed
      moreover have "open_tries [new] (wr_id r) = {wr_attempt r + 1}" using new by (auto simp: open_tries_def)
      moreover have "insert (wr_attempt r + 1) {1..wr_attempt r} = {1..wr_attempt r + 1}"
        using k True by (auto simp: kept_def)
      ultimately show ?thesis using k True x(2) f tr by (auto simp: kept_def)
    next
      case False
      then have ne: "wr_id x \<noteq> wr_id r" using ids x(1) r by (auto simp: distinct_map inj_on_def)
      then have "tries ?h (wr_id x) = tries hist (wr_id x)"
        using new by (simp add: closes_tries [OF q]) (simp add: tries_def)
      moreover have "open_tries ?h (wr_id x) \<subseteq> open_tries hist (wr_id x)"
        using ne new by (auto simp: closes_open [OF q]) (auto simp: open_tries_def)
      ultimately show ?thesis using k x(2) False by (auto simp: kept_def)
    qed
  qed
  moreover have "wr_id ` set (update_rows (\<lambda>x. x = r) f rs) = wr_id ` set rs"
    using map_update_rows [of "\<lambda>x. x = r" wr_id f rs] f(1) by (metis set_map)
  ultimately show ?thesis using t new(1) r closes_ids [OF q, of hist] by (auto simp: tidy_def)
qed

section \<open>The statements\<close>

definition same_history :: "'a sdb \<Rightarrow> 'a sdb \<Rightarrow> bool" where
  "same_history d d' \<longleftrightarrow>
     rahi_processing d' = rahi_processing d \<and> rahi_processing_attempt d' = rahi_processing_attempt d"

interpretation still: batch_relation same_history
  by unfold_locales (simp_all add: same_history_def)

lemma still_heads:
  "still.carries (seed_head kd k ru tu now)" "still.carries (seed_erased kd now)"
  "still.carries (guard_accept x y g kd key ru tu)" "still.carries (guard_collision x y kd key ru tu)"
  "still.carries (erase_heads now p)" "still.carries (compact_head kd now)" "still.carries (delete_head kd now)"
  by (auto intro!: still.carriesI simp: head_sql_defs same_history_def Let_def split: if_splits)

lemma still_receipts:
  "still.carries (insert_revision kd x g disp out now)" "still.carries (touch_seen now kd x)"
  "still.carries (erase_receipts p)" "still.carries (compact_receipts kd)"
  "still.carries (delete_revisions kd now)"
  by (auto intro!: still.carriesI simp: receipt_sql_defs same_history_def Let_def split: if_splits)

lemma still_others:
  "still.carries (app_sql f)" "still.carries (insert_outbox e)" "still.carries (delete_outbox ids)"
  "still.carries (guard_lease t key)" "still.carries (guard_claim t now i)"
  by (auto intro!: still.carriesI simp: other_sql_defs same_history_def split: if_splits)

lemmas still_carry = still_heads still_receipts still_others

lemma history_still: "same_history d d' \<Longrightarrow> history_ok d' = history_ok d"
  by (simp add: same_history_def history_ok_def)

lemma history_settled:
  assumes h: "history_ok d"
    and rows: "rahi_processing d' = update_rows p f (rahi_processing d)"
    and hist: "rahi_processing_attempt d' = update_rows q g (rahi_processing_attempt d)"
    and q: "closes q g" and f: "\<And>r. wr_id (f r) = wr_id r \<and> wr_attempt (f r) = wr_attempt r"
    and s: "\<And>r a. r \<in> set (rahi_processing d) \<Longrightarrow> p r \<Longrightarrow> wr_state r = Claimed \<Longrightarrow> wr_state (f r) \<noteq> Claimed \<Longrightarrow>
      ar_id a = wr_id r \<Longrightarrow> ar_attempt a = wr_attempt r \<Longrightarrow> ar_outcome a = Opened \<Longrightarrow> q a"
  shows "history_ok d'"
  unfolding history_ok_def rows hist
  by (rule settle [OF h [unfolded history_ok_def] q f]) (rule s)

lemma update_attempts_Inr:
  "update_attempts q g d = Inr (d', n) \<Longrightarrow>
     rahi_processing_attempt d' = update_rows q g (rahi_processing_attempt d) \<and>
     rahi_processing d' = rahi_processing d \<and> rahi_receipt_head d' = rahi_receipt_head d"
  by (auto simp: update_attempts_def put_attempts_def split: if_splits)

lemma insert_attempts_Inr:
  "insert_attempts new d = Inr (d', n) \<Longrightarrow>
     rahi_processing_attempt d' = rahi_processing_attempt d @ new \<and>
     rahi_processing d' = rahi_processing d \<and> rahi_receipt_head d' = rahi_receipt_head d"
  by (auto simp: insert_attempts_def put_attempts_def split: if_splits)

lemma update_work_Inr:
  "update_work p f d = Inr (d', n) \<Longrightarrow>
     rahi_processing d' = update_rows p f (rahi_processing d) \<and>
     rahi_processing_attempt d' = rahi_processing_attempt d"
  by (auto simp: update_work_def)

text \<open>What a holder stages: its guard shows that every row of the identity is at the claim's attempt.\<close>

lemma guarded_attempt:
  assumes "claim_ok sha d cl" "guard_claim (u64_to_sql (cl_token cl)) now (work_id sha (cl_key cl)) d = Inr (e, n)"
  shows "e = d" and "\<And>r. r \<in> set (rahi_processing d) \<Longrightarrow> wr_id r = work_id sha (cl_key cl) \<Longrightarrow>
    wr_attempt r = uint (cl_attempt cl)"
proof -
  have "u64_to_sql (cl_token cl) = uint (cl_token cl)"
    using assms(1) by (simp add: claim_ok_def token_ok_def u64_to_sql_def)
  then show "e = d" and "\<And>r. r \<in> set (rahi_processing d) \<Longrightarrow> wr_id r = work_id sha (cl_key cl) \<Longrightarrow>
      wr_attempt r = uint (cl_attempt cl)"
    using assms by (auto simp: guard_claim_passes holds_row_def claim_ok_def claim_id_def)
qed

lemma complete_history:
  assumes h: "history_ok d" and ok: "claim_ok sha d cl"
    and run: "run_txn (work_complete sha [] cl now) d = Inr (d', ns)"
  shows "history_ok d'"
proof -
  let ?i = "work_id sha (cl_key cl)"
  obtain e n1 d1 n2 n3 where g: "guard_claim (u64_to_sql (cl_token cl)) (u64_to_sql now) ?i d = Inr (e, n1)"
      and c: "complete_row ?i e = Inr (d1, n2)"
      and a: "close_attempt_done (u64_to_sql now) ?i (uint (cl_attempt cl)) d1 = Inr (d', n3)"
    using run by (auto simp: work_complete_def work_guard_def)
  note g = guarded_attempt [OF ok g]
  show ?thesis
    by (rule history_settled [OF h, where p = "\<lambda>r. wr_id r = ?i" and f = "\<lambda>r. r\<lparr>wr_state := Done\<rparr>"
          and q = "\<lambda>a. ar_id a = ?i \<and> ar_attempt a = uint (cl_attempt cl) \<and> ar_outcome a = Opened"
          and g = "\<lambda>a. a\<lparr>ar_outcome := Finished, ar_ended_at := Some (u64_to_sql now)\<rparr>"])
      (use g c a in \<open>auto simp: complete_row_def close_attempt_done_def closes_def wr_id_def ar_id_def
         dest!: update_attempts_Inr update_work_Inr\<close>)
qed

lemma fail_history:
  assumes h: "history_ok d" and ok: "claim_ok sha d cl"
    and ss: "work_fail sha [] cl fd p now = Inr ss" and run: "run_txn ss d = Inr (d', ns)"
  shows "history_ok d'"
proof -
  let ?i = "work_id sha (cl_key cl)"
  obtain s oc where ss: "ss = [guard_claim (u64_to_sql (cl_token cl)) (u64_to_sql now) ?i, s,
        close_attempt_failed oc fd (u64_to_sql now) ?i (uint (cl_attempt cl))]"
      and s: "s = dead_row ?i \<or> (\<exists>t. s = fail_row t ?i)" and oc: "oc = Buried \<or> oc = Missed"
    using ss by (auto simp: work_fail_def Let_def work_guard_def split: if_splits)
  obtain e n1 d1 n2 n3 where g: "guard_claim (u64_to_sql (cl_token cl)) (u64_to_sql now) ?i d = Inr (e, n1)"
      and c: "s e = Inr (d1, n2)"
      and a: "close_attempt_failed oc fd (u64_to_sql now) ?i (uint (cl_attempt cl)) d1 = Inr (d', n3)"
    using run by (auto simp: ss)
  note g = guarded_attempt [OF ok g]
  obtain f where f: "\<And>r. wr_id (f r) = wr_id r \<and> wr_attempt (f r) = wr_attempt r"
      and u: "update_work (\<lambda>r. wr_id r = ?i) f d = Inr (d1, n2)"
    using s c g(1) that [of "\<lambda>r. r\<lparr>wr_state := Dead, wr_next_attempt_at := None\<rparr>"]
      that [of "\<lambda>r. r\<lparr>wr_state := Failed, wr_next_attempt_at := Some t\<rparr>" for t]
    by (auto simp: dead_row_def fail_row_def wr_id_def)
  show ?thesis
    by (rule history_settled [OF h, where p = "\<lambda>r. wr_id r = ?i" and f = f
          and q = "\<lambda>a. ar_id a = ?i \<and> ar_attempt a = uint (cl_attempt cl) \<and> ar_outcome a = Opened"
          and g = "\<lambda>a. a\<lparr>ar_outcome := oc, ar_error_class := Some (fd_class fd),
             ar_detail := fd_detail fd, ar_ended_at := Some (u64_to_sql now)\<rparr>"])
      (use g f u a oc in \<open>auto simp: close_attempt_failed_def closes_def ar_id_def
         dest!: update_attempts_Inr update_work_Inr\<close>)
qed

lemma expired_history:
  assumes h: "history_ok d" and run: "run_txn (expired_pair m t (i, n)) d = Inr (d', ns)"
  shows "history_ok d'"
proof -
  obtain d1 n1 n2 where b: "bury_expired i n m t d = Inr (d1, n1)" and c: "close_expired t i n d1 = Inr (d', n2)"
    using run by (auto simp: expired_pair_def)
  let ?q = "\<lambda>a. ar_id a = i \<and> ar_attempt a = n \<and> ar_outcome a = Opened \<and>
          (\<exists>r \<in> set (rahi_processing d1). wr_id r = i \<and> wr_attempt r = n \<and>
             (wr_state r = Dead \<or> (wr_state r = Claimed \<and> due (wr_expires_at r) t)))"
  have rows: "rahi_processing d1 = update_rows (\<lambda>r. wr_id r = i \<and> wr_attempt r = n \<and> m \<le> wr_attempt r \<and>
          wr_state r = Claimed \<and> due (wr_expires_at r) t)
       (\<lambda>r. r\<lparr>wr_state := Dead, wr_next_attempt_at := None\<rparr>) (rahi_processing d)"
    using b unfolding bury_expired_def by (auto dest: update_work_Inr)
  have hit: "?q a" if "r \<in> set (rahi_processing d)" "wr_id r = i" "wr_attempt r = n" "m \<le> wr_attempt r"
      "wr_state r = Claimed" "due (wr_expires_at r) t" "ar_id a = i" "ar_attempt a = n" "ar_outcome a = Opened"
    for r a
  proof -
    have "r\<lparr>wr_state := Dead, wr_next_attempt_at := None\<rparr> \<in> set (rahi_processing d1)"
      using that unfolding rows set_update_rows by force
    moreover have "wr_id (r\<lparr>wr_state := Dead, wr_next_attempt_at := None\<rparr>) = wr_id r" by (simp add: wr_id_def)
    ultimately show ?thesis using that by (intro conjI bexI) simp_all
  qed
  have hist: "rahi_processing_attempt d' = update_rows ?q (\<lambda>a. a\<lparr>ar_outcome := Expired, ar_ended_at := Some t\<rparr>)
       (rahi_processing_attempt d)" and same: "rahi_processing d' = rahi_processing d1"
    using b c unfolding bury_expired_def close_expired_def
    by (simp_all add: update_attempts_Inr update_work_Inr)
  have q: "closes ?q (\<lambda>a. a\<lparr>ar_outcome := Expired, ar_ended_at := Some t\<rparr>)"
    by (simp add: closes_def ar_id_def)
  show ?thesis
    by (rule history_settled [OF h rows [folded same] hist q])
      (simp add: wr_id_def, intro hit [THEN conjunct2, THEN conjunct2, THEN conjunct2] conjI, auto)
qed

lemma requeue_history:
  assumes h: "history_ok d" and run: "run_txn (work_requeue sha [] pk now) d = Inr (d', ns)"
  shows "history_ok d'"
proof -
  let ?i = "work_id sha pk"
  obtain e n m where a: "requeue_attempt (u64_to_sql now) ?i d = Inr (e, n)"
      and w: "requeue_row ?i e = Inr (d', m)"
    using run by (auto simp: work_requeue_def)
  have hist: "rahi_processing_attempt e = rahi_processing_attempt d @
        map (attempt_of Requeued (u64_to_sql now) (Some (u64_to_sql now)))
          (filter (\<lambda>r. wr_id r = ?i \<and> wr_state r = Dead) (rahi_processing d))"
      and rows: "rahi_processing e = rahi_processing d"
    using a unfolding requeue_attempt_def by (simp_all add: insert_attempts_Inr)
  have "tidy (rahi_processing e) (rahi_processing_attempt e)"
    unfolding hist rows
    by (rule tidy_requeued) (use h in \<open>auto simp: history_ok_def attempt_of_def ar_id_def wr_id_def\<close>)
  moreover have "rahi_processing d' = update_rows (\<lambda>r. wr_id r = ?i \<and> wr_state r = Dead)
       (\<lambda>r. r\<lparr>wr_state := Pending, wr_next_attempt_at := None\<rparr>) (rahi_processing e)"
      "rahi_processing_attempt d' = rahi_processing_attempt e"
    using w unfolding requeue_row_def by (simp_all add: update_work_Inr)
  ultimately show ?thesis
    unfolding history_ok_def by (auto intro!: tidy_move simp: wr_id_def)
qed

lemma insert_work_history: "insert_work sha k now d = Inr (d', n) \<Longrightarrow> history_ok d \<Longrightarrow> history_ok d'"
  by (auto simp: insert_work_def history_ok_def intro!: tidy_new_row split: if_splits)
    (simp add: new_work_row_def)

lemma spent_history: "bury_spent i m d = Inr (d', n) \<Longrightarrow> history_ok d \<Longrightarrow> history_ok d'"
  unfolding bury_spent_def history_ok_def
  by (drule update_work_Inr) (auto intro!: tidy_move simp: wr_id_def)

text \<open>Attempts and rows of the identities a predicate on the heads selects go together.\<close>

lemma erase_both_history:
  assumes "erase_attempts p d = Inr (d1, n)" "erase_work p d1 = Inr (d2, m)" "history_ok d"
    and heads: "\<And>e. rahi_receipt_head e = rahi_receipt_head d \<Longrightarrow> p e = p d"
  shows "history_ok d2"
proof -
  have "p d1 = p d" using assms(1) by (intro heads) (auto simp: erase_attempts_def)
  then show ?thesis
    using assms(1-3) tidy_erase [of "rahi_processing d" "rahi_processing_attempt d" "p d"]
    by (auto simp: erase_attempts_def erase_work_def history_ok_def)
qed

lemma erasure_history:
  assumes h: "history_ok d" and run: "run_txn (stage_erasure sha [] scope now) d = Inr (d', ns)"
  shows "history_ok d'"
proof -
  let ?p = "erase_selects sha scope"
  have heads: "erase_selects sha scope e = erase_selects sha scope d"
    if "rahi_receipt_head e = rahi_receipt_head d" for d e :: "'b sdb"
    using that by (auto simp: erase_selects_def split: erase_scope.splits)
  obtain d0 m where d0: "same_history d d0"
      "run_txn [erase_receipts ?p, erase_attempts ?p, erase_work ?p, erase_heads (u64_to_sql now) ?p] d0
         = Inr (d', m)"
  proof (cases scope)
    case (EraseIdentity k)
    then have "run_txn ([seed_erased (key_digest sha k) (u64_to_sql now)] @
        [erase_receipts ?p, erase_attempts ?p, erase_work ?p, erase_heads (u64_to_sql now) ?p]) d = Inr (d', ns)"
      using run by (simp add: stage_erasure_def erase_by_predicate_def del: run_txn.simps)
    from this [unfolded run_txn_append_iff] show thesis
      using that still.carries_allD [OF still.carries_Cons [OF still_heads(2) still.carries_Nil]] by blast
  qed (use run that [of d] in \<open>simp_all add: stage_erasure_def erase_by_predicate_def same_history_def del: run_txn.simps\<close>)
  from d0(2) [unfolded run_txn3] obtain d1 d2 d3 n1 n2 n3 n4 where
      1: "erase_receipts ?p d0 = Inr (d1, n1)" and 2: "erase_attempts ?p d1 = Inr (d2, n2)"
      and 3: "erase_work ?p d2 = Inr (d3, n3)" and 4: "erase_heads (u64_to_sql now) ?p d3 = Inr (d', n4)"
    by blast
  have "history_ok d1"
    using h d0(1) 1 by (auto simp: history_ok_def same_history_def erase_receipts_def)
  then have "history_ok d3" using erase_both_history [OF 2 3] heads by blast
  then show ?thesis using 4 by (auto simp: history_ok_def erase_heads_def)
qed

lemma compact_history:
  assumes h: "history_ok d" and run: "run_txn (compact_four t kd) d = Inr (d', ns)"
  shows "history_ok d'"
proof -
  obtain d1 d2 d3 n1 n2 n3 n4 where
      1: "compact_head kd t d = Inr (d1, n1)" and 2: "compact_attempts kd d1 = Inr (d2, n2)"
      and 3: "compact_work kd d2 = Inr (d3, n3)" and 4: "compact_receipts kd d3 = Inr (d', n4)"
    using run unfolding compact_four_def run_txn3 by blast
  have "history_ok d1" using h 1 by (auto simp: history_ok_def compact_head_def Let_def)
  then have "history_ok d3"
    using erase_both_history [OF 2 [unfolded compact_attempts_def] 3 [unfolded compact_work_def]]
    by (auto simp: is_tombstone_def)
  then show ?thesis using 4 by (auto simp: history_ok_def compact_receipts_def Let_def)
qed

section \<open>Every step\<close>

lemma staged_history:
  assumes "staged sha claims p" "run_txn p d = Inr (d', ns)" "history_ok d"
    "\<forall>cl \<in> set claims. claim_ok sha d cl"
  shows "history_ok d'"
proof -
  have quiet: "still.carries_all p \<Longrightarrow> history_ok d'"
    using still.carries_allD [OF _ assms(2)] history_still assms(3) by blast
  show ?thesis
    using assms(1)
  proof cases
    case (staged_first k g m now)
    then show ?thesis
      by (intro quiet) (auto simp: stage_first_def Let_def intro!: still.carries_Cons still.carries_Nil still_carry)
  next
    case (staged_revision k g c m now)
    then show ?thesis
      by (intro quiet) (auto simp: stage_revision_def Let_def intro!: still.carries_Cons still.carries_Nil still_carry)
  next
    case (staged_collision k g c m now)
    then show ?thesis
      by (intro quiet) (auto simp: stage_collision_def Let_def intro!: still.carries_Cons still.carries_Nil still_carry)
  next
    case (staged_erasure scope now)
    then show ?thesis using erasure_history assms by blast
  next
    case (staged_work pk now)
    then show ?thesis using assms by (auto simp: stage_work_def dest: insert_work_history)
  next
    case (staged_complete cl now)
    then show ?thesis using complete_history assms by blast
  next
    case (staged_fail cl f p now)
    then show ?thesis using fail_history assms by blast
  next
    case (staged_requeue pk now)
    then show ?thesis using requeue_history assms by blast
  next
    case (staged_expired m t c)
    then show ?thesis using expired_history assms by (cases c) blast
  next
    case (staged_spent i m)
    then show ?thesis using assms by (auto dest: spent_history)
  next
    case (staged_compact t kd)
    then show ?thesis using compact_history assms by blast
  qed (intro quiet, auto simp: outbox_stage_def stage_seen_def work_guard_def delete_pair_def
      intro!: still.carries_Cons still.carries_Nil still_carry)+
qed

lemma batch_history:
  assumes "\<forall>p \<in> set ps. staged sha claims p" "run_txn (concat ps) d = Inr (d', ns)" "history_ok d"
    "\<forall>cl \<in> set claims. claim_ok sha d cl"
  shows "history_ok d'"
  using assms
proof (induction ps arbitrary: d ns)
  case Nil
  then show ?case by simp
next
  case (Cons p ps)
  then obtain e n1 n2 where e: "run_txn p d = Inr (e, n1)" "run_txn (concat ps) e = Inr (d', n2)"
    by (auto simp: run_txn_append_iff)
  have p: "staged sha claims p" using Cons.prems(1) by simp
  have "work_rel sha d e" using work.carries_allD [OF staged_work_rel [OF p] e(1)] .
  then have "\<forall>cl \<in> set claims. claim_ok sha e cl" using Cons.prems(4) claim_ok_rel by blast
  moreover have "history_ok e" using staged_history [OF p e(1)] Cons.prems(3,4) by blast
  ultimately show ?case using Cons.IH e(2) Cons.prems(1) by simp
qed

lemma renew_history:
  assumes h: "history_ok d" and run: "renew_row x i held now t d = Inr (d', n)"
  shows "history_ok d'"
proof -
  have "rahi_processing d' = update_rows (\<lambda>r. wr_id r = i \<and> wr_fence r = held \<and> wr_state r = Claimed \<and>
         ahead (wr_expires_at r) now \<and> wr_fence r \<le> t)
       (\<lambda>r. r\<lparr>wr_expires_at := Some x, wr_fence := t\<rparr>) (rahi_processing d)"
    "rahi_processing_attempt d' = rahi_processing_attempt d"
    using run unfolding renew_row_def by (simp_all add: update_work_Inr)
  then show ?thesis using h unfolding history_ok_def by (auto intro!: tidy_move simp: wr_id_def)
qed

definition unsaturated :: "'a sdb \<Rightarrow> bool" where
  "unsaturated d \<longleftrightarrow> (\<forall>r \<in> set (rahi_processing d). wr_attempt r < i64_max)"

lemma update_rows_at:
  "(\<And>x. x \<in> set rs \<Longrightarrow> p x \<longleftrightarrow> x = r) \<Longrightarrow> update_rows p f rs = update_rows (\<lambda>x. x = r) f rs"
  by (induction rs) auto

lemma filter_unique:
  "distinct rs \<Longrightarrow> r \<in> set rs \<Longrightarrow> (\<And>x. x \<in> set rs \<Longrightarrow> p x \<longleftrightarrow> x = r) \<Longrightarrow> filter p rs = [r]"
proof (induction rs)
  case Nil
  then show ?case by simp
next
  case (Cons y ys)
  then show ?case by (cases "y = r") (auto simp: filter_empty_conv)
qed

lemma claim_history:
  assumes h: "history_ok d" and ids: "ids_ok d" and sat: "unsaturated d"
    and free: "\<forall>r \<in> set (rahi_processing d). wr_id r = i \<longrightarrow> wr_fence r \<noteq> t"
    and w: "claim_row ho x (i64_succ old) i old t now d = Inr (d1, n1)"
    and c: "close_prior_expired now i old (i64_succ old) t d1 = Inr (d2, n2)"
    and a: "open_attempt now i (i64_succ old) t d2 = Inr (d3, n3)"
  shows "history_ok d3"
proof -
  let ?p = "\<lambda>r. wr_id r = i \<and> wr_attempt r = old \<and> wr_fence r \<le> t \<and> eligible now r"
  let ?f = "\<lambda>r. r\<lparr>wr_state := Claimed, wr_holder := Some ho, wr_expires_at := Some x,
          wr_attempt := i64_succ old, wr_fence := t\<rparr>"
  let ?mine = "\<lambda>r. wr_id r = i \<and> wr_attempt r = i64_succ old \<and> wr_fence r = t \<and> wr_state r = Claimed"
  let ?q = "\<lambda>a. ar_id a = i \<and> ar_attempt a = old \<and> ar_outcome a = Opened \<and>
          (\<exists>r \<in> set (rahi_processing d1). ?mine r)"
  let ?g = "\<lambda>a. a\<lparr>ar_outcome := Expired, ar_ended_at := Some now\<rparr>"
  have rows: "rahi_processing d1 = update_rows ?p ?f (rahi_processing d)"
      and h1: "rahi_processing_attempt d1 = rahi_processing_attempt d"
    using w unfolding claim_row_def by (simp_all add: update_work_Inr)
  have h2: "rahi_processing_attempt d2 = update_rows ?q ?g (rahi_processing_attempt d1)"
      and r2: "rahi_processing d2 = rahi_processing d1"
    using c unfolding close_prior_expired_def by (simp_all add: update_attempts_Inr)
  have h3: "rahi_processing_attempt d3 = rahi_processing_attempt d2 @
        map (attempt_of Opened now None) (filter ?mine (rahi_processing d1))"
      and r3: "rahi_processing d3 = rahi_processing d1"
    using a r2 unfolding open_attempt_def by (simp_all add: insert_attempts_Inr)
  have q: "closes ?q ?g" by (simp add: closes_def ar_id_def)
  show ?thesis
  proof (cases "\<exists>r \<in> set (rahi_processing d). ?p r")
    case False
    then have same: "rahi_processing d1 = rahi_processing d" unfolding rows by (auto intro: update_rows_none)
    then have none: "\<not> ?mine r" if "r \<in> set (rahi_processing d1)" for r using that free by auto
    have "filter ?mine (rahi_processing d1) = []" unfolding filter_empty_conv using none by blast
    moreover have "update_rows ?q ?g (rahi_processing_attempt d1) = rahi_processing_attempt d1"
      using none by (intro update_rows_none) blast
    ultimately show ?thesis using h same by (simp add: history_ok_def h1 h2 h3 r3)
  next
    case True
    then obtain r where r: "r \<in> set (rahi_processing d)" "?p r" by blast
    have uniq: "y = r" if "y \<in> set (rahi_processing d)" "wr_id y = i" for y
      using ids_unique [OF ids that(1) r(1)] r(2) that(2) by simp
    have succ: "i64_succ old = old + 1"
      using sat r by (auto simp: unsaturated_def i64_succ_def)
    have rows': "rahi_processing d1 = update_rows (\<lambda>x. x = r) ?f (rahi_processing d)"
      unfolding rows by (rule update_rows_at) (use uniq r(2) in blast)
    have fr: "?f r \<in> set (rahi_processing d1)" using r(1) unfolding rows' set_update_rows by force
    have mine: "?mine y \<longleftrightarrow> y = ?f r" if "y \<in> set (rahi_processing d1)" for y
      using that free r(2) uniq unfolding rows' set_update_rows by (auto simp: wr_id_def)
    have "distinct (rahi_processing d1)"
    proof -
      have "map wr_id (rahi_processing d1) = map wr_id (rahi_processing d)"
        unfolding rows' by (rule map_update_rows) (simp add: wr_id_def)
      then have "distinct (map wr_id (rahi_processing d1))" using ids by (simp add: ids_ok_def)
      then show ?thesis by (simp add: distinct_map)
    qed
    then have one: "filter ?mine (rahi_processing d1) = [?f r]"
      by (rule filter_unique [OF _ fr mine])
    have hit: "?q a" if "ar_id a = wr_id r" "ar_outcome a = Opened" "ar_attempt a = wr_attempt r" for a
      using that r(2) fr mine [OF fr] by (intro conjI bexI [OF _ fr]) auto
    have "tidy (rahi_processing d1) (update_rows ?q ?g (rahi_processing_attempt d) @
        [attempt_of Opened now None (?f r)])"
      unfolding rows'
      by (rule tidy_claim [OF _ _ r(1) q [unfolded rows'] hit [unfolded rows']])
        (use h ids r(2) succ in \<open>auto simp: history_ok_def ids_ok_def wr_id_def ar_id_def attempt_of_def\<close>)
    then show ?thesis by (simp add: history_ok_def r3 h3 h2 h1 one)
  qed
qed


lemma bump_history: "bump_fence key d = Inr (d', n) \<Longrightarrow> history_ok d' = history_ok d"
  by (auto simp: bump_fence_def history_ok_def)

lemma history_step:
  assumes step: "cluster_step sha C C'" and dig: "digest_ok sha" and ok: "cluster_ok sha C"
    and h: "history_ok (cs_db C)" and sat: "unsaturated (cs_db C)"
  shows "history_ok (cs_db C')"
  using step
proof cases
  case (step_bump key d n)
  then show ?thesis using bump_history h by auto
next
  case (step_claim ts l c cs us g holder hold_for now d n ns won)
  have tok: "u64_to_sql (le_token l) = uint (le_token l)"
    using step_claim(3) by (simp add: guard_statement_Inr u64_to_sql_def)
  from step_claim(4) [unfolded claim_batch_def Let_def run_txn3 tok] obtain e n1 d2 n2 d3 n3 n4 where
      g: "g (cs_db C) = Inr (e, n1)"
      and r: "claim_row holder (u64_to_sql (hold_until now hold_for)) (i64_succ (cd_attempt c)) (cd_id c)
             (cd_attempt c) (uint (le_token l)) (u64_to_sql now) e = Inr (d2, n2)"
      and p: "close_prior_expired (u64_to_sql now) (cd_id c) (cd_attempt c)
             (i64_succ (cd_attempt c)) (uint (le_token l)) d2 = Inr (d3, n3)"
      and q: "open_attempt (u64_to_sql now) (cd_id c) (i64_succ (cd_attempt c)) (uint (le_token l)) d3
             = Inr (d, n4)"
    by auto
  have e: "e = cs_db C" using g step_claim(3) guard_lease_state by (auto simp: guard_statement_Inr)
  have "untried sha (cs_db C) (cs_claims C) l c"
    using ok step_claim(2) by (auto simp: cluster_ok_def)
  moreover have "ids_ok (cs_db C)" using ok by (simp add: cluster_ok_def store_ok_def)
  ultimately have "history_ok d"
    using claim_history [OF h _ sat _ r [unfolded e] p q] by (simp add: untried_def)
  then show ?thesis using step_claim(1) by simp
next
  case (step_renew ts l us cl g t now hold_for d m n won)
  then obtain e n1 where e: "g (cs_db C) = Inr (e, n1)"
      "renew_row (u64_to_sql (hold_until now hold_for)) (work_id sha (cl_key cl))
        (u64_to_sql (cl_token cl)) (u64_to_sql now) t e = Inr (d, n)"
    by auto
  have "e = cs_db C" using e(1) step_renew(5) guard_lease_state by (auto simp: guard_statement_Inr)
  then have "history_ok d" using e(2) renew_history [OF h] by blast
  then show ?thesis using step_renew(1) by simp
next
  case (step_batch ps d ns)
  have "\<forall>cl \<in> set (cs_claims C). claim_ok sha (cs_db C) cl" using ok by (simp add: cluster_ok_def)
  then show ?thesis using batch_history [OF step_batch(2,3) h] step_batch(1) by simp
qed (use h in simp_all)

text \<open>Steps below the ceiling of the attempt column, where \<^verbatim>\<open>saturating_add\<close> would stand still.\<close>

definition calm_step :: "(string \<Rightarrow> string) \<Rightarrow> 'a cluster \<Rightarrow> 'a cluster \<Rightarrow> bool" where
  "calm_step sha C C' \<longleftrightarrow> unsaturated (cs_db C) \<and> cluster_step sha C C'"

lemma calm_steps_are_steps: "(calm_step sha)\<^sup>*\<^sup>* C C' \<Longrightarrow> cluster_steps sha C C'"
  by (induction rule: rtranclp_induct)
    (auto simp: calm_step_def intro: rtranclp.rtrancl_into_rtrancl)

lemma history_steps:
  assumes "(calm_step sha)\<^sup>*\<^sup>* C C'" "digest_ok sha" "cluster_ok sha C" "history_ok (cs_db C)"
  shows "history_ok (cs_db C')"
  using assms(1)
proof (induction rule: rtranclp_induct)
  case base
  then show ?case by (rule assms(4))
next
  case (step D E)
  have "cluster_ok sha D"
    using cluster_steps_ok [OF calm_steps_are_steps [OF step.hyps(1)]] assms(2,3) by blast
  then show ?case using step history_step assms(2) by (auto simp: calm_step_def)
qed

lemma start_history: "history_ok (cs_db (cluster_start x))"
  by (simp add: cluster_start_def empty_sdb_def history_ok_def tidy_def)

end
