(* ===== verification/Store_Behaviour.thy ===== *)
theory Store_Behaviour
  imports Store_Claims Store_Outbox "HOL-Library.Sublist"
begin

text \<open>
  What single calls of the store promise: a fenced batch of an overtaken lease commits nothing and
  its lock is never handed back, the wait before a retry stays in its window, a drain deletes only
  what it published, and a stamp is above everything a consumer has seen.
\<close>

section \<open>Overtaken leases\<close>

lemma contains_suffix: "starts_with p s \<Longrightarrow> contains_text p (a @ s)"
proof (induction a)
  case Nil
  then show ?case by (cases s) (auto simp: starts_with_iff)
qed simp

lemma superseded_message:
  "superseded_error l (not_null_failed FENCE_COLUMN) =
     Conflict (''lease '' @ le_key l @ '' token has been superseded: '' @
       ''NOT NULL constraint failed: '' @ FENCE_COLUMN)"
  "contains_text FENCE_COLUMN (message (not_null_failed FENCE_COLUMN))"
proof -
  show "contains_text FENCE_COLUMN (message (not_null_failed FENCE_COLUMN))"
    using contains_suffix [of FENCE_COLUMN FENCE_COLUMN "''NOT NULL constraint failed: ''"]
    by (simp add: not_null_failed_def starts_with_iff)
  then show "superseded_error l (not_null_failed FENCE_COLUMN) =
     Conflict (''lease '' @ le_key l @ '' token has been superseded: '' @
       ''NOT NULL constraint failed: '' @ FENCE_COLUMN)"
    by (simp add: superseded_error_def not_null_failed_def)
qed

lemma overtaken_guard:
  assumes "fences_ok d" "uint (le_token l) < newest (le_key l) d" "guard_statement l = Inr g"
  shows "run_txn (g # stmts) d = Inl (not_null_failed FENCE_COLUMN)"
proof -
  have "g = guard_lease (uint (le_token l)) (le_key l)"
    using assms(3) by (auto simp: guard_statement_def fence_literal_def split: if_splits)
  moreover obtain t where "fence_of (le_key l) d = Some t"
    using assms(2) uint_ge_0 [of "le_token l"] by (auto simp: newest_def split: option.splits)
  ultimately show ?thesis using assms(1,2) by (simp add: guard_lease_ok)
qed

lemma overtaken_batch:
  assumes ok: "fences_ok (ho_db (pass W h))" and over: "uint (le_token l) < newest (le_key l) (ho_db (pass W h))"
    and g: "guard_statement l = Inr g" and run: "behind_guard W l g stmts h = (r, h')"
  shows "ho_db h' = ho_db (pass W h)" and "\<exists>e. r = Inl e"
    and "ow_fate W (ho_clock h) = Acked \<Longrightarrow> l \<in> set (ho_superseded h') \<and> (\<exists>m. r = Inl (Conflict m))"
  using run overtaken_guard [OF ok over g, of stmts] superseded_message
  by (auto simp: behind_guard_def on_result_def submit_def obind_def note_superseded_def fail_def
      split: fate.splits if_splits)

lemma overtaken_lease:
  fixes h :: "'a handle"
  assumes "fences_ok (ho_db (pass W h))" "uint (le_token l) < newest (le_key l) (ho_db (pass W h))"
    and "fenced_txn W l fs h = (r, h') \<or> guarded_txn W l ss h = (r, h')"
  shows "ho_db h' \<in> {ho_db h, ho_db (pass W h)} \<and> (\<exists>e. r = Inl e)"
proof (cases "guard_statement l :: error + 'a sql")
  case (Inl e)
  then show ?thesis
    using assms(3) Inl by (auto simp: fenced_txn_def guarded_txn_def obind_def on_result_def lift_def fail_def
        split: if_splits)
next
  case (Inr g)
  have b: "behind_guard W l g stmts h = (r, h') \<Longrightarrow> ho_db h' = ho_db (pass W h) \<and> (\<exists>e. r = Inl e)" for stmts
    using overtaken_batch [OF assms(1,2) Inr] by blast
  show ?thesis
    using assms(3)
  proof
    assume "guarded_txn W l ss h = (r, h')"
    then have "behind_guard W l g ss h = (r, h')"
      using Inr by (simp add: guarded_txn_def obind_def on_result_def lift_def)
    with b show ?thesis by blast
  next
    assume f: "fenced_txn W l fs h = (r, h')"
    show ?thesis
    proof (cases "fs = []")
      case True
      then show ?thesis using f by (auto simp: fenced_txn_def fail_def)
    next
      case False
      show ?thesis
      proof (cases "try_map (\<lambda>f. f (le_token l)) fs")
        case (Inl e)
        then show ?thesis
          using f False Inr by (auto simp: fenced_txn_def obind_def on_result_def lift_def fail_def)
      next
        case (Inr fenced)
        then have "behind_guard W l g fenced h = (r, h')"
          using f False \<open>guard_statement l = Inr g\<close>
          by (simp add: fenced_txn_def obind_def on_result_def lift_def)
        with b show ?thesis by blast
      qed
    qed
  qed
qed

text \<open>A lock known to be another's is never handed back.\<close>

lemma leaked_lock: "l \<in> set (ho_superseded h) \<Longrightarrow> hand_back l h = (Inr (), h)"
  by (simp add: hand_back_def)

section \<open>The wait before a retry\<close>

lemma retry_backoff_bounds:
  "retry_window p n div 2 \<le> retry_backoff p kd n"
  "retry_backoff p kd n \<le> retry_window p n"
  "retry_window p n \<le> rp_cap p"
proof -
  define half where "half = retry_window p n div 2"
  define spread where "spread = max (min (half div 1000) (2 ^ 64 - 1)) 1"
  define x where "x = unat (work_fnv1a kd n) mod spread"
  have b: "retry_backoff p kd n = half + x * 1000"
    by (simp add: retry_backoff_def half_def spread_def x_def Let_def)
  have "0 < spread" by (simp add: spread_def)
  then have "x < spread" by (simp add: x_def)
  then have "x \<le> half div 1000"
    unfolding spread_def by (cases "half div 1000 = 0") auto
  then have "x * 1000 \<le> half" by (simp add: less_eq_div_iff_mult_less_eq)
  then show "retry_backoff p kd n \<le> retry_window p n" by (simp add: b half_def)
  show "retry_window p n div 2 \<le> retry_backoff p kd n" by (simp add: b half_def)
  show "retry_window p n \<le> rp_cap p" by (simp add: retry_window_def)
qed

lemma retry_window_grows: "unat a \<le> unat b \<Longrightarrow> retry_window p a \<le> retry_window p b"
proof -
  assume "unat a \<le> unat b"
  then have "min (unat a - 1) 16 \<le> min (unat b - 1) 16" by auto
  then have "(2 :: nat) ^ min (unat a - 1) 16 \<le> 2 ^ min (unat b - 1) 16" by (rule power_increasing) simp
  then have "rp_base p * 2 ^ min (unat a - 1) 16 \<le> rp_base p * 2 ^ min (unat b - 1) 16" by simp
  then show ?thesis unfolding retry_window_def by linarith
qed

section \<open>The outbox\<close>

lemma publish_prefix:
  assumes "publish_loop notify rs sent = (out, r)"
  shows "\<exists>done. prefix done rs \<and> map outbox_envelope done = map Inr (drop (length sent) out) \<and>
     take (length sent) out = sent \<and> ((\<exists>u. r = Inr u) \<longrightarrow> done = rs)"
  using assms
proof (induction notify rs sent rule: publish_loop.induct)
  case (1 notify sent)
  then show ?case by (auto intro: exI [of _ "[]"])
next
  case (2 notify x rs sent)
  show ?case
  proof (cases "outbox_envelope x")
    case (Inl e)
    then show ?thesis using 2 by (auto intro!: exI [of _ "[]"])
  next
    case (Inr v)
    show ?thesis
    proof (cases "notify (length sent)")
      case None
      then obtain dn where dn: "prefix dn rs" "map outbox_envelope dn = map Inr (drop (length (sent @ [v])) out)"
          "take (length (sent @ [v])) out = sent @ [v]" "(\<exists>u. r = Inr u) \<longrightarrow> dn = rs"
        using 2 Inr by auto
      have "length sent < length out" using arg_cong [OF dn(3), of length] by simp
      then have "drop (length sent) out = v # drop (Suc (length sent)) out"
        using dn(3) by (metis Cons_nth_drop_Suc length_append_singleton nth_append_length nth_take lessI)
      moreover have "take (length sent) out = sent"
        using arg_cong [OF dn(3), of "take (length sent)"] by simp
      ultimately show ?thesis using dn Inr by (intro exI [of _ "x # dn"]) auto
    next
      case (Some e)
      then show ?thesis using 2 Inr by (auto intro!: exI [of _ "[]"])
    qed
  qed
qed

definition read_rows :: "'a store_world \<Rightarrow> nat \<Rightarrow> 'a handle \<Rightarrow> outbox_row list" where
  "read_rows W n h = answer (ow_keep W (ho_clock h)) (select_outbox n (ho_db (pass W h)))"

lemma answer_prefix: "prefix (answer k rows) rows"
  by (cases k) (auto simp: answer_def take_is_prefix)

lemma read_rows_sorted: "sorted (map ob_id (read_rows W n h))"
proof -
  have "sorted (map ob_id (select_outbox n d))" for d :: "'b sdb"
    unfolding select_outbox_def take_map [symmetric] by (intro sorted_wrt_take) simp
  moreover have "prefix (map ob_id (read_rows W n h)) (map ob_id (select_outbox n (ho_db (pass W h))))"
    unfolding read_rows_def by (intro map_mono_prefix answer_prefix)
  ultimately show ?thesis by (metis prefixE sorted_append)
qed

lemma drain_cases:
  assumes run: "outbox_drain notify W n h = (Inr (sent, r), h')"
  shows "(ho_db h' \<in> {ho_db h, ho_db (pass W h), ho_db (pass W (pass W h))} \<or>
      (ho_db h' = (ho_db (pass W (pass W h)))
         \<lparr>outbox := filter (\<lambda>x. ob_id x \<notin> ob_id ` set (read_rows W n h)) (outbox (ho_db (pass W (pass W h))))\<rparr> \<and>
       map outbox_envelope (read_rows W n h) = map Inr sent)) \<and>
    (\<exists>dn. prefix dn (read_rows W n h) \<and> map outbox_envelope dn = map Inr sent) \<and>
    (\<forall>k. r = Inr k \<longrightarrow> k = length sent)"
proof (cases "n = 0 \<or> i64_max < int n")
  case True
  then obtain e where "outbox_drain notify W n h = (Inr ([], Inl e), h)"
    by (cases "n = 0") (simp_all add: outbox_drain_def ret_def)
  then show ?thesis using run by auto
next
  case False
  show ?thesis
  proof (cases "fst (read_consistent W (select_outbox n) h)")
    case (Inl e)
    then show ?thesis using run False
      by (cases "read_consistent W (select_outbox n) h")
        (auto simp: outbox_drain_def ret_def on_result_def read_consistent_def split: fate.splits)
  next
    case (Inr rows)
    then have rd: "read_consistent W (select_outbox n) h = (Inr rows, pass W h)" "rows = read_rows W n h"
      by (auto simp: read_consistent_def read_rows_def split: fate.splits)
    show ?thesis
    proof (cases rows)
      case Nil
      then show ?thesis using run False rd by (auto simp: outbox_drain_def ret_def on_result_def)
    next
      case (Cons x xs)
      obtain out p where pub: "publish_loop notify rows [] = (out, p)" by (cases "publish_loop notify rows []")
      from publish_prefix [OF pub] obtain dn where dn: "prefix dn rows"
          "map outbox_envelope dn = map Inr out" "(\<exists>u. p = Inr u) \<longrightarrow> dn = rows" by auto
      have eq: "outbox_drain notify W n h =
          (case p of Inl e \<Rightarrow> ret (out, Inl e)
           | Inr _ \<Rightarrow> on_result (submit W [delete_outbox (map ob_id rows)]) (\<lambda>deleted.
               ret (out, (case deleted of Inl e \<Rightarrow> Inl e | Inr _ \<Rightarrow> Inr (length rows))))) (pass W h)"
        using False rd(1) pub unfolding Cons
        by (simp add: outbox_drain_def on_result_def split: sum.split del: publish_loop.simps)
      show ?thesis
      proof (cases p)
        case (Inl e)
        then show ?thesis using run dn rd(2) by (auto simp: eq ret_def)
      next
        case (Inr u)
        then have all: "map outbox_envelope rows = map Inr out" using dn by auto
        have "length rows = length out" using arg_cong [OF all, of length] by simp
        obtain q t where q: "submit W [delete_outbox (map ob_id rows)] (pass W h) = (q, t)"
          by (cases "submit W [delete_outbox (map ob_id rows)] (pass W h)")
        have "ho_db t = ho_db (pass W (pass W h)) \<or> ho_db t = (ho_db (pass W (pass W h)))
         \<lparr>outbox := filter (\<lambda>x. ob_id x \<notin> ob_id ` set rows) (outbox (ho_db (pass W (pass W h))))\<rparr>"
          using q by (auto simp: submit_def delete_outbox_def split: fate.splits)
        moreover have "sent = out" "h' = t" "r = (case q of Inl e \<Rightarrow> Inl e | Inr _ \<Rightarrow> Inr (length rows))"
          using run Inr q by (auto simp: eq ret_def on_result_def)
        ultimately show ?thesis
          using all \<open>length rows = length out\<close> rd(2) by (auto split: sum.splits)
      qed
    qed
  qed
qed

text \<open>
  Under ids that are never given to another row, a row leaves the table in a drain only when its
  envelope was published in it, in the order of the ids.
\<close>

lemma drain_at_least_once:
  assumes run: "outbox_drain notify W n h = (Inr (sent, r), h')"
    and ids: "\<And>x y. x \<in> set (outbox (ho_db (pass W h))) \<Longrightarrow>
      y \<in> set (outbox (ho_db (pass W (pass W h)))) \<Longrightarrow> ob_id x = ob_id y \<Longrightarrow> x = y"
    and x: "x \<in> set (outbox (ho_db (pass W (pass W h))))" "x \<notin> set (outbox (ho_db h'))"
      "ho_db h' \<notin> {ho_db h, ho_db (pass W h)}"
  shows "\<exists>v \<in> set sent. outbox_envelope x = Inr v"
proof -
  have "ho_db h' \<noteq> ho_db (pass W (pass W h))" using x(1,2) by auto
  with drain_cases [OF run] x(3) have del: "ho_db h' = (ho_db (pass W (pass W h)))
         \<lparr>outbox := filter (\<lambda>x. ob_id x \<notin> ob_id ` set (read_rows W n h)) (outbox (ho_db (pass W (pass W h))))\<rparr>"
      and all: "map outbox_envelope (read_rows W n h) = map Inr sent" by auto
  obtain y where y: "y \<in> set (read_rows W n h)" "ob_id y = ob_id x" using x(1,2) del by auto
  have "set (answer k rows) \<subseteq> set rows" for k and rows :: "outbox_row list"
    using set_mono_prefix [OF answer_prefix] .
  moreover have "set (select_outbox n d) \<subseteq> set (outbox d)" for d :: "'a sdb"
    using set_take_subset [of n "sort_key ob_id (outbox d)"] by (simp add: select_outbox_def)
  ultimately have "y \<in> set (outbox (ho_db (pass W h)))" using y(1) unfolding read_rows_def by blast
  then have "x \<in> set (read_rows W n h)" using ids x(1) y by metis
  then have "outbox_envelope x \<in> set (map Inr sent)" unfolding all [symmetric] by simp
  then show ?thesis by auto
qed

section \<open>The watermark\<close>

lemma fold_max_ge: "a \<le> fold max xs a \<and> (\<forall>x \<in> set xs. x \<le> fold max xs a)" for a :: int
proof (induction xs arbitrary: a)
  case Nil
  then show ?case by simp
next
  case (Cons y ys)
  from Cons [of "max y a"] have "max y a \<le> fold max ys (max y a)"
      "\<forall>x \<in> set ys. x \<le> fold max ys (max y a)" by blast+
  then show ?case by simp
qed

lemma max_revision_ge: "r \<in> set rs \<Longrightarrow> r \<le> max_revision rs"
  using fold_max_ge [of "hd rs" "tl rs"] by (cases rs) (auto simp: max_revision_def)

lemma stamp_is_above:
  assumes "0 \<in> set rs" "r \<in> set rs"
  shows "r < max_revision rs + 1" "0 < max_revision rs + 1"
  using max_revision_ge [OF assms(1)] max_revision_ge [OF assms(2)] by linarith+

lemma stamp_exact:
  "set (stamp_revisions rs) = (set rs - {0}) \<union> (if 0 \<in> set rs then {max_revision rs + 1} else {})"
  by (auto simp: stamp_revisions_def)

text \<open>What a consumer that has seen everything below \<open>after\<close> reads next.\<close>

lemma since_exact:
  assumes "uint after \<le> i64_max" "\<forall>r \<in> set rs. r \<le> i64_max"
  shows "\<exists>vs. revisions_since rs after = Inr vs \<and> sorted_wrt (<) vs \<and>
    uint ` set vs = {r \<in> set rs. uint after < r}"
proof -
  let ?xs = "sort (remdups (filter (\<lambda>r. uint after < r) rs))"
  have pos: "\<forall>x \<in> set ?xs. 0 \<le> x \<and> x \<le> i64_max \<and> uint after < x"
  proof
    fix x
    assume "x \<in> set ?xs"
    then have x: "x \<in> set rs" "uint after < x" by simp_all
    then have "x \<le> i64_max" using assms(2) by blast
    with x(2) show "0 \<le> x \<and> x \<le> i64_max \<and> uint after < x" using uint_ge_0 [of after] by linarith
  qed
  have t: "try_map (\<lambda>r. or_error e (i64_to_u64 r)) xs = Inr (map word_of_int xs)"
    if "\<forall>x \<in> set xs. 0 \<le> x" for xs and e :: error
    using that by (induction xs) (auto simp: i64_to_u64_def or_error_def)
  have nn: "\<forall>x \<in> set ?xs. 0 \<le> x" using pos by blast
  have r: "revisions_since rs after = Inr (map word_of_int ?xs)"
    unfolding revisions_since_def t [OF nn] using assms(1) by (simp only: not_less [symmetric] if_False)
  have u: "uint (word_of_int x :: u64) = x" if "x \<in> set ?xs" for x
    using bspec [OF pos that] by (simp add: unsigned_of_int i64_max_def take_bit_int_eq_self)
  have "sorted_wrt (<) ?xs" by (simp add: strict_sorted_iff)
  then have "sorted_wrt (<) (map (word_of_int :: int \<Rightarrow> u64) ?xs)"
    unfolding sorted_wrt_map
  proof (rule sorted_wrt_mono_rel [rotated])
    fix x y
    assume xy: "x \<in> set ?xs" "y \<in> set ?xs" "x < y"
    show "(word_of_int x :: u64) < word_of_int y"
      unfolding word_less_def using u [OF xy(1)] u [OF xy(2)] xy(3) by (simp only:)
  qed
  moreover have "uint ` set (map (word_of_int :: int \<Rightarrow> u64) ?xs) = set ?xs"
    using u by (force simp: image_image)
  ultimately show ?thesis using r by auto
qed

end
