(* ===== verification/Work_Reserve.thy ===== *)
theory Work_Reserve
  imports Work_History Store_Behaviour
begin

text \<open>
  A reservation that nobody disturbs claims the row exactly when it is due: under a token above all
  before, at the next attempt, and the claim it returns passes its guard until it expires.
\<close>

section \<open>Keys of the history\<close>

lemma distinct_split:
  "distinct (map f (filter p xs)) \<Longrightarrow> distinct (map f (filter (\<lambda>x. \<not> p x) xs)) \<Longrightarrow>
     (\<And>x y. p x \<Longrightarrow> \<not> p y \<Longrightarrow> f x \<noteq> f y) \<Longrightarrow> distinct (map f xs)"
proof (induction xs)
  case Nil
  then show ?case by simp
next
  case (Cons a xs)
  have "f a \<notin> f ` set xs"
  proof
    assume "f a \<in> f ` set xs"
    then obtain x where x: "x \<in> set xs" "f x = f a" by auto
    then have "p x = p a" using Cons.prems(3) by metis
    then show False using x Cons.prems(1,2) by (cases "p a") (auto simp: image_iff)
  qed
  moreover have "distinct (map f xs)"
    using Cons by (auto split: if_splits)
  ultimately show ?case by simp
qed

lemma distinct_by_tries:
  "(\<And>i. distinct (tries hist i)) \<Longrightarrow>
     distinct (map attempt_key (filter (\<lambda>a. ar_outcome a \<noteq> Requeued) hist))"
proof (induction hist)
  case Nil
  then show ?case by simp
next
  case (Cons a hist)
  have "distinct (tries hist i)" for i using Cons.prems [of i] by (simp add: tries_def split: if_splits)
  then have ih: "distinct (map attempt_key (filter (\<lambda>a. ar_outcome a \<noteq> Requeued) hist))" by (rule Cons.IH)
  show ?case
  proof (cases "ar_outcome a = Requeued")
    case True
    then show ?thesis using ih by simp
  next
    case False
    have "ar_attempt a \<notin> set (tries hist (ar_id a))"
      using Cons.prems [of "ar_id a"] False by (simp add: tries_def)
    then have "attempt_key a \<notin> attempt_key ` set (filter (\<lambda>a. ar_outcome a \<noteq> Requeued) hist)"
      by (auto simp: tries_def attempt_key_def image_iff)
    then show ?thesis using ih False by simp
  qed
qed

lemma distinct_requeued:
  "distinct (map attempt_key hist) \<Longrightarrow> distinct (map attempt_key (filter p hist))"
  by (simp add: distinct_map_filter)

lemma closes_requeued:
  "closes q g \<Longrightarrow> filter (\<lambda>a. ar_outcome a = Requeued) (update_rows q g hist) =
     filter (\<lambda>a. ar_outcome a = Requeued) hist"
  by (induction hist) (auto simp: closes_def)

lemma tidy_tries: "tidy rs hist \<Longrightarrow> distinct (tries hist i)"
proof (cases "i \<in> wr_id ` set rs")
  case True
  assume "tidy rs hist"
  then show ?thesis using True by (auto simp: tidy_def kept_def)
next
  case False
  assume "tidy rs hist"
  then have "i \<notin> ar_id ` set hist" using False by (auto simp: tidy_def)
  then have "tries hist i = []" by (auto simp: tries_def filter_empty_conv)
  then show ?thesis by simp
qed

lemma tidy_keys:
  assumes "tidy rs' (update_rows q g hist @ new)" "closes q g" "distinct (map attempt_key hist)"
    and "\<forall>a \<in> set new. ar_outcome a \<noteq> Requeued"
  shows "distinct (map attempt_key (update_rows q g hist @ new))"
proof (rule distinct_split [where p = "\<lambda>a. ar_outcome a = Requeued"])
  have "filter (\<lambda>a. ar_outcome a = Requeued) new = []" using assms(4) by (simp add: filter_empty_conv)
  then show "distinct (map attempt_key (filter (\<lambda>a. ar_outcome a = Requeued) (update_rows q g hist @ new)))"
    using distinct_requeued [OF assms(3)] by (simp add: closes_requeued [OF assms(2)])
  show "distinct (map attempt_key (filter (\<lambda>a. ar_outcome a \<noteq> Requeued) (update_rows q g hist @ new)))"
    by (rule distinct_by_tries) (rule tidy_tries [OF assms(1)])
qed (simp add: attempt_key_def)

section \<open>The lease\<close>

lemma calm_take_lease:
  assumes "fences_ok (ho_db h)" "newest key (ho_db h) < i64_max"
  shows "\<exists>d n. bump_fence key (ho_db h) = Inr (d, 1) \<and> fences_ok d \<and> newest key d = newest key (ho_db h) + 1 \<and>
    take_lease calm key h =
      (Inr \<lparr>le_key = key, le_token = word_of_int (newest key d)\<rparr>, h\<lparr>ho_db := d, ho_clock := n\<rparr>)"
proof -
  obtain d where d: "bump_fence key (ho_db h) = Inr (d, 1)" by (simp add: bump_fence_def)
  have nd: "newest key d = newest key (ho_db h) + 1" using newest_bump [OF d] by simp
  have ok: "fences_ok d" using fences_ok_bump [OF d assms(1)] .
  have "fence_of key d = Some (newest key d)" using fence_bump [OF d, of key] nd by simp
  then have sel: "select_token key d = [newest key d]" by (simp add: select_token_fence [OF ok])
  have "0 \<le> newest key d" by (rule newest_nonneg [OF ok])
  then have "take_lease calm key h =
      (Inr \<lparr>le_key = key, le_token = word_of_int (newest key d)\<rparr>,
       h\<lparr>ho_db := d, ho_clock := Suc (Suc (Suc (ho_clock h)))\<rparr>)"
    using d sel nd assms(2)
    by (simp add: take_lease_def acquire_lock_def obind_def on_result_def mint_token_def calm_submit calm_read
        ret_def lift_def i64_to_u64_def or_error_def pass_def)
  with d nd ok show ?thesis by blast
qed

section \<open>The claim\<close>

definition due_row :: "(string \<Rightarrow> string) \<Rightarrow> processing_key \<Rightarrow> u64 \<Rightarrow> 'a sdb \<Rightarrow> work_row \<Rightarrow> bool" where
  "due_row sha k now d r \<longleftrightarrow>
     r \<in> set (rahi_processing d) \<and> wr_id r = work_id sha k \<and> eligible (u64_to_sql now) r"

lemma select_identity:
  "ids_ok d \<Longrightarrow> due_row sha k now d r \<Longrightarrow>
     select_eligible_by_identity (work_id sha k) (u64_to_sql now) d = [candidate_of r]"
proof -
  assume ids: "ids_ok d" and r: "due_row sha k now d r"
  have "distinct (rahi_processing d)" using ids by (simp add: ids_ok_def distinct_map)
  moreover have "wr_id x = work_id sha k \<and> eligible (u64_to_sql now) x \<longleftrightarrow> x = r"
    if "x \<in> set (rahi_processing d)" for x
    using ids_unique [OF ids that, of r] r by (auto simp: due_row_def)
  ultimately have "filter (\<lambda>x. wr_id x = work_id sha k \<and> eligible (u64_to_sql now) x) (rahi_processing d) = [r]"
    using r by (intro filter_unique) (simp_all add: due_row_def)
  then show "select_eligible_by_identity (work_id sha k) (u64_to_sql now) d = [candidate_of r]"
    by (simp add: select_eligible_by_identity_def)
qed

lemma select_identity_none:
  "(\<nexists>r. due_row sha k now d r) \<Longrightarrow>
     select_eligible_by_identity (work_id sha k) (u64_to_sql now) d = []"
  by (auto simp: select_eligible_by_identity_def due_row_def filter_empty_conv)

definition claimed_row :: "string \<Rightarrow> int \<Rightarrow> int \<Rightarrow> work_row \<Rightarrow> work_row" where
  "claimed_row holder expires token r =
     r\<lparr>wr_state := Claimed, wr_holder := Some holder, wr_expires_at := Some expires,
       wr_attempt := wr_attempt r + 1, wr_fence := token\<rparr>"

lemma claim_batch_runs:
  assumes h: "history_ok d" and keys: "distinct (map attempt_key (rahi_processing_attempt d))"
    and ids: "ids_ok d" and r: "r \<in> set (rahi_processing d)" "eligible (u64_to_sql now) r"
    and t: "u64_to_sql (le_token l) = t" "wr_fence r < t" and sat: "wr_attempt r < i64_max"
  shows "\<exists>e n. run_txn (claim_batch l (candidate_of r) holder hold_for now) d = Inr (e, [1, n, 1]) \<and>
    rahi_processing e = update_rows (\<lambda>x. x = r)
      (claimed_row holder (u64_to_sql (hold_until now hold_for)) t) (rahi_processing d)"
proof -
  let ?f = "claimed_row holder (u64_to_sql (hold_until now hold_for)) t"
  let ?i = "wr_id r" and ?now = "u64_to_sql now" and ?old = "wr_attempt r"
  have succ: "i64_succ ?old = ?old + 1" using sat by (simp add: i64_succ_def)
  define d1 where "d1 = d\<lparr>rahi_processing := update_rows (\<lambda>x. x = r) ?f (rahi_processing d)\<rparr>"
  have uniq: "x = r" if "x \<in> set (rahi_processing d)" "wr_id x = ?i" for x
    using ids_unique [OF ids that(1) r(1)] that(2) by simp
  have hit: "wr_id x = ?i \<and> wr_attempt x = ?old \<and> wr_fence x \<le> t \<and> eligible ?now x \<longleftrightarrow> x = r"
    if "x \<in> set (rahi_processing d)" for x
    using uniq [OF that] r t(2) by auto
  have dist: "distinct (rahi_processing d)" using ids by (simp add: ids_ok_def distinct_map)
  have row: "claim_row holder (u64_to_sql (hold_until now hold_for)) (?old + 1) ?i ?old t ?now d = Inr (d1, 1)"
  proof -
    have "update_rows (\<lambda>x. wr_id x = ?i \<and> wr_attempt x = ?old \<and> wr_fence x \<le> t \<and> eligible ?now x)
        (\<lambda>r. r\<lparr>wr_state := Claimed, wr_holder := Some holder,
           wr_expires_at := Some (u64_to_sql (hold_until now hold_for)), wr_attempt := ?old + 1, wr_fence := t\<rparr>)
        (rahi_processing d) = update_rows (\<lambda>x. x = r) ?f (rahi_processing d)"
      unfolding update_rows_def by (rule map_cong) (simp_all add: hit claimed_row_def)
    moreover have "matched (\<lambda>x. wr_id x = ?i \<and> wr_attempt x = ?old \<and> wr_fence x \<le> t \<and> eligible ?now x)
        (rahi_processing d) = 1"
      unfolding matched_def using filter_unique [OF dist r(1) hit] by simp
    ultimately show ?thesis by (simp add: claim_row_def update_work_def d1_def)
  qed
  let ?mine = "\<lambda>x. wr_id x = ?i \<and> wr_attempt x = ?old + 1 \<and> wr_fence x = t \<and> wr_state x = Claimed"
  have fr: "?f r \<in> set (rahi_processing d1)" using r(1) by (force simp: d1_def set_update_rows)
  have mine: "?mine x \<longleftrightarrow> x = ?f r" if "x \<in> set (rahi_processing d1)" for x
    using that uniq t(2) by (auto simp: d1_def set_update_rows claimed_row_def wr_id_def)
  have "distinct (map wr_id (rahi_processing d1))"
    using ids map_update_rows [of "\<lambda>x. x = r" wr_id ?f "rahi_processing d"]
    by (simp add: d1_def ids_ok_def claimed_row_def wr_id_def)
  then have one: "filter ?mine (rahi_processing d1) = [?f r]"
    by (intro filter_unique [OF _ fr mine]) (simp add: distinct_map)
  let ?q = "\<lambda>a. ar_id a = ?i \<and> ar_attempt a = ?old \<and> ar_outcome a = Opened \<and>
          (\<exists>x \<in> set (rahi_processing d1). ?mine x)"
  let ?g = "\<lambda>a. a\<lparr>ar_outcome := Expired, ar_ended_at := Some ?now\<rparr>"
  let ?new = "attempt_of Opened ?now None (?f r)"
  have q: "closes ?q ?g" by (simp add: closes_def ar_id_def)
  have some: "\<exists>x \<in> set (rahi_processing d1). ?mine x" using fr mine [OF fr] by blast
  have hit: "?q a" if "ar_id a = ?i" "ar_outcome a = Opened" "ar_attempt a = ?old" for a
    using that some by blast
  have "tidy (update_rows (\<lambda>x. x = r) ?f (rahi_processing d))
      (update_rows ?q ?g (rahi_processing_attempt d) @ [?new])"
    by (rule tidy_claim [OF _ _ r(1) q hit])
      (use h ids in \<open>auto simp: history_ok_def ids_ok_def claimed_row_def wr_id_def ar_id_def attempt_of_def\<close>)
  note keys2 = tidy_keys [OF this q keys]
  then have "distinct (map attempt_key (update_rows ?q ?g (rahi_processing_attempt d) @ [?new]))"
    by (simp add: attempt_of_def)
  then have dist: "distinct (map attempt_key (update_rows ?q ?g (rahi_processing_attempt d) @ [?new]))"
    by (simp add: attempt_of_def)
  define d2 where "d2 = d1\<lparr>rahi_processing_attempt := update_rows ?q ?g (rahi_processing_attempt d)\<rparr>"
  have close: "close_prior_expired ?now ?i ?old (?old + 1) t d1 =
        Inr (d2, matched ?q (rahi_processing_attempt d))"
    using dist by (simp add: close_prior_expired_def update_attempts_def put_attempts_def d2_def d1_def)
  have "rahi_processing d2 = rahi_processing d1" by (simp add: d2_def)
  then have opens: "open_attempt ?now ?i (?old + 1) t d2 =
        Inr (d2\<lparr>rahi_processing_attempt := update_rows ?q ?g (rahi_processing_attempt d) @ [?new]\<rparr>, 1)"
    using one dist by (simp add: open_attempt_def insert_attempts_def put_attempts_def) (simp add: d2_def)
  show ?thesis
    using row close opens
    by (simp add: claim_batch_def candidate_of_def Let_def t(1) succ) (simp add: d2_def d1_def)
qed


text \<open>The claim a reservation answers, and what it leaves in the table.\<close>

lemma reserve_claims:
  assumes s: "store_ok sha (ho_db h)" and hist: "history_ok (ho_db h)"
    and keys: "distinct (map attempt_key (rahi_processing_attempt (ho_db h)))"
    and r: "due_row sha k now (ho_db h) r" and key: "candidate_key (candidate_of r) = Inr k"
    and fits: "newest (queue_lease_key k) (ho_db h) < i64_max" "0 \<le> wr_attempt r" "wr_attempt r + 1 < 2 ^ 32"
  shows "\<exists>h' t. t = newest (queue_lease_key k) (ho_db h) + 1 \<and>
    work_reserve sha calm k holder hold_for now h =
      (Inr (Some \<lparr>cl_key = k, cl_token = word_of_int t, cl_attempt = word_of_int (wr_attempt r + 1),
         cl_expires_at = hold_until now hold_for\<rparr>), h') \<and>
    claimed_row holder (u64_to_sql (hold_until now hold_for)) t r \<in> set (rahi_processing (ho_db h')) \<and>
    newest (queue_lease_key k) (ho_db h') = t"
proof -
  let ?q = "queue_lease_key k"
  obtain d n where b: "bump_fence ?q (ho_db h) = Inr (d, 1)" and fok: "fences_ok d"
      and nd: "newest ?q d = newest ?q (ho_db h) + 1"
      and lease: "take_lease calm ?q h =
        (Inr \<lparr>le_key = ?q, le_token = word_of_int (newest ?q d)\<rparr>, h\<lparr>ho_db := d, ho_clock := n\<rparr>)"
    using calm_take_lease [of h ?q] s fits(1) by (auto simp: store_ok_def)
  let ?t = "newest ?q d" and ?l = "\<lparr>le_key = ?q, le_token = word_of_int (newest ?q d)\<rparr> :: lease"
  have same: "rahi_processing d = rahi_processing (ho_db h)"
      "rahi_processing_attempt d = rahi_processing_attempt (ho_db h)"
    using b by (auto simp: bump_fence_def)
  have t: "0 < ?t" "?t \<le> i64_max" using nd fits(1) newest_nonneg [of "ho_db h" ?q] s by (auto simp: store_ok_def)
  then have ut: "uint (le_token ?l) = ?t"
    by (simp add: unsigned_of_int i64_max_def take_bit_int_eq_self)
  have ids: "ids_ok d" using s same by (simp add: store_ok_def ids_ok_def)
  have rd: "due_row sha k now d r" "r \<in> set (rahi_processing (ho_db h))" "eligible (u64_to_sql now) r"
    using r same by (simp_all add: due_row_def)
  have "work_queue r = ?q"
    using key rd(2) by (auto simp: candidate_key_def candidate_of_def work_queue_def queue_lease_key_def
        receipt_key_new_def receipt_key_build_def processing_key_new_def wr_id_def split: if_splits)
  then have "wr_fence r < ?t" using s rd(2) nd by (auto simp: store_ok_def row_ok_def)
  then obtain e m where e: "run_txn (claim_batch ?l (candidate_of r) holder hold_for now) d = Inr (e, [1, m, 1])"
      "rahi_processing e = update_rows (\<lambda>x. x = r)
        (claimed_row holder (u64_to_sql (hold_until now hold_for)) ?t) (rahi_processing d)"
    using claim_batch_runs [of d r now ?l ?t holder hold_for] hist keys ids rd fits(3) same t ut
    by (auto simp: history_ok_def u64_to_sql_def i64_max_def)
  have g: "guard_statement ?l = Inr (guard_lease ?t ?q)"
    using t ut by (simp add: guard_statement_def fence_literal_def)
  have "fence_of ?q d = Some ?t" using fence_bump [OF b, of ?q] nd by simp
  then have gr: "guard_lease ?t ?q d = Inr (d, 1)" using guard_lease_ok [OF fok] by simp
  have sub: "submit calm (guard_lease ?t ?q # claim_batch ?l (candidate_of r) holder hold_for now)
      (h\<lparr>ho_db := d, ho_clock := n'\<rparr>) = (Inr [1, 1, m, 1], h\<lparr>ho_db := e, ho_clock := Suc n'\<rparr>)" for n'
    using e(1) gr by (simp add: submit_def pass_def)
  have lf: "lease_fence e = lease_fence d"
    using e(1) by (auto simp: claim_batch_def Let_def claim_row_def update_work_def close_prior_expired_def
        open_attempt_def update_attempts_def insert_attempts_def put_attempts_def split: if_splits)
  have ans: "claim_answer ?l (candidate_of r) hold_for now [1, m, 1] =
      Inr (Some \<lparr>cl_key = k, cl_token = word_of_int ?t, cl_attempt = word_of_int (wr_attempt r + 1),
         cl_expires_at = hold_until now hold_for\<rparr>)"
    using key fits(2,3)
    by (simp add: claim_answer_def Let_def to_attempt_def or_error_def i64_to_u32_def candidate_of_def i64_succ_def i64_max_def)
  have run: "\<exists>h'. work_reserve sha calm k holder hold_for now h =
      (claim_answer ?l (candidate_of r) hold_for now [1, m, 1], h') \<and> ho_db h' = e"
    using select_identity [OF ids rd(1)] sub
    by (simp add: work_reserve_def with_lease_def obind_def on_result_def lease calm_read claim_candidate_def
        guarded_txn_def g lift_def behind_guard_def ret_def hand_back_def drop_lock_def ans split: if_splits)
  have "newest ?q e = ?t" using newest_same [OF lf] by simp
  moreover have "claimed_row holder (u64_to_sql (hold_until now hold_for)) ?t r \<in> set (rahi_processing e)"
    using rd(2) same e(2) by (force simp: set_update_rows)
  ultimately show ?thesis using run nd ans by auto
qed

lemma reserve_finds_nothing:
  assumes "fences_ok (ho_db h)" "newest (queue_lease_key k) (ho_db h) < i64_max"
    and "\<nexists>r. due_row sha k now (ho_db h) r"
  shows "fst (work_reserve sha calm k holder hold_for now h) = Inr None"
proof -
  obtain d n where b: "bump_fence (queue_lease_key k) (ho_db h) = Inr (d, 1)"
      and lease: "take_lease calm (queue_lease_key k) h =
        (Inr \<lparr>le_key = queue_lease_key k, le_token = word_of_int (newest (queue_lease_key k) d)\<rparr>,
         h\<lparr>ho_db := d, ho_clock := n\<rparr>)"
    using calm_take_lease [OF assms(1,2)] by blast
  have "rahi_processing d = rahi_processing (ho_db h)" using b by (auto simp: bump_fence_def)
  then have "select_eligible_by_identity (work_id sha k) (u64_to_sql now) d = []"
    using assms(3) select_identity_none by (metis due_row_def)
  then show ?thesis
    by (simp add: work_reserve_def with_lease_def obind_def on_result_def lease calm_read ret_def lift_def
        hand_back_def drop_lock_def)
qed

end
