(* ===== verification/Example_Store.thy ===== *)
theory Example_Store
  imports Work_Reserve
begin

text \<open>
  A small cluster for the examples: one processing identity is staged, claimed and completed, step
  by step, over the hash of \<^verbatim>\<open>Receipt_Facts\<close>.
\<close>

definition ex_receipt :: receipt_key where
  "ex_receipt = \<lparr>rk_tenant = ''t'', rk_namespace = ''ns'', rk_key = ''a''\<rparr>"

definition ex_pk :: processing_key where
  "ex_pk = \<lparr>pk_receipt = ex_receipt, pk_revision = 1, pk_processor = ''p'', pk_processor_revision = ''1''\<rparr>"

definition ex_queue :: string where "ex_queue = queue_lease_key ex_pk"
definition ex_lease :: lease where "ex_lease = \<lparr>le_key = ex_queue, le_token = 1\<rparr>"
definition ex_row :: work_row where "ex_row = new_work_row example_sha ex_pk 5"

definition ex_staged :: "unit sdb" where
  "ex_staged = (empty_sdb ())\<lparr>rahi_processing := [ex_row]\<rparr>"

definition ex_bumped :: "unit sdb" where
  "ex_bumped = ex_staged\<lparr>lease_fence := [(ex_queue, 1)]\<rparr>"

definition ex_claim :: claim where
  "ex_claim = \<lparr>cl_key = ex_pk, cl_token = 1, cl_attempt = 1, cl_expires_at = 70\<rparr>"

definition ex_claimed :: "unit sdb" where
  "ex_claimed = ex_bumped
     \<lparr>rahi_processing := [claimed_row ''h'' 70 1 ex_row],
      rahi_processing_attempt := [attempt_of Opened 10 None (claimed_row ''h'' 70 1 ex_row)]\<rparr>"

definition ex_done :: "unit sdb" where
  "ex_done = ex_claimed
     \<lparr>rahi_processing := [(claimed_row ''h'' 70 1 ex_row)\<lparr>wr_state := Done\<rparr>],
      rahi_processing_attempt :=
        [(attempt_of Opened 10 None (claimed_row ''h'' 70 1 ex_row))
           \<lparr>ar_outcome := Finished, ar_ended_at := Some 20\<rparr>]\<rparr>"

lemma ex_short: "short_key ex_receipt"
  by (simp add: short_key_def ex_receipt_def)

lemma ex_pk_simps [simp]:
  "pk_receipt ex_pk = ex_receipt" "pk_revision ex_pk = 1" "pk_processor ex_pk = ''p''"
  "pk_processor_revision ex_pk = ''1''"
  by (simp_all add: ex_pk_def)

lemma ex_lease_simps [simp]: "le_key ex_lease = ex_queue" "le_token ex_lease = 1"
  by (simp_all add: ex_lease_def)

lemma ex_sha: "digest_ok example_sha"
  by (rule sha_digest_ok) (rule example_sha_ok)

lemma ex_row_simps [simp]:
  "wr_id ex_row = work_id example_sha ex_pk" "wr_attempt ex_row = 0" "wr_fence ex_row = 0"
  "wr_state ex_row = Pending" "wr_tenant ex_row = ''t''" "wr_namespace ex_row = ''ns''"
  "wr_key ex_row = ''a''"
  by (simp_all add: ex_row_def) (simp_all add: new_work_row_def ex_pk_def ex_receipt_def)

lemma ex_claimed_simps [simp]:
  "wr_id (claimed_row h x t r) = wr_id r" "wr_state (claimed_row h x t r) = Claimed"
  "wr_fence (claimed_row h x t r) = t" "wr_attempt (claimed_row h x t r) = wr_attempt r + 1"
  "wr_expires_at (claimed_row h x t r) = Some x"
  by (simp_all add: claimed_row_def wr_id_def)

definition ex_tasks :: "unit sdb \<Rightarrow> task list \<Rightarrow> claim list \<Rightarrow> unit cluster" where
  "ex_tasks d ts cls = \<lparr>cs_db = d, cs_tasks = ts, cs_claims = cls\<rparr>"

lemma ex_step1: "cluster_step example_sha (cluster_start ()) (ex_tasks ex_staged [] [])"
proof -
  have "cluster_step example_sha (cluster_start ()) ((cluster_start ())\<lparr>cs_db := ex_staged\<rparr>)"
  proof (rule step_batch)
    show "\<forall>p \<in> set [stage_work example_sha [] ex_pk 5]. staged example_sha (cs_claims (cluster_start ())) p"
      by (auto intro!: staged_work simp: ex_pk_def ex_short)
    show "run_txn (concat [stage_work example_sha [] ex_pk 5]) (cs_db (cluster_start ())) = Inr (ex_staged, [1])"
      by (simp add: stage_work_def insert_work_def cluster_start_def empty_sdb_def ex_staged_def ex_row_def
          u64_to_sql_def i64_max_def)
  qed
  then show ?thesis by (simp add: ex_tasks_def cluster_start_def)
qed

lemma ex_step2: "cluster_step example_sha (ex_tasks ex_staged [] []) (ex_tasks ex_bumped [Bumped ex_queue] [])"
proof -
  have "cluster_step example_sha (ex_tasks ex_staged [] [])
      ((ex_tasks ex_staged [] [])\<lparr>cs_db := ex_bumped, cs_tasks := Bumped ex_queue # cs_tasks (ex_tasks ex_staged [] [])\<rparr>)"
    by (rule step_bump [where n = 1])
      (simp_all add: ex_tasks_def bump_fence_def ex_staged_def ex_bumped_def empty_sdb_def fence_of_def)
  then show ?thesis by (simp add: ex_tasks_def)
qed

lemma ex_step3: "cluster_step example_sha (ex_tasks ex_bumped [Bumped ex_queue] []) (ex_tasks ex_bumped [Holding ex_lease] [])"
proof -
  have "cluster_step example_sha (ex_tasks ex_bumped [Bumped ex_queue] [])
      ((ex_tasks ex_bumped [Bumped ex_queue] [])\<lparr>cs_tasks := [] @ Holding \<lparr>le_key = ex_queue, le_token = 1\<rparr> # []\<rparr>)"
    by (rule step_token [where raw = 1 and rest = "[]"])
      (simp_all add: ex_tasks_def select_token_def ex_bumped_def i64_max_def i64_to_u64_def)
  then show ?thesis by (simp add: ex_tasks_def ex_lease_def)
qed

lemma ex_step4: "cluster_step example_sha (ex_tasks ex_bumped [Holding ex_lease] [])
    (ex_tasks ex_bumped [Claiming ex_lease [candidate_of ex_row]] [])"
proof -
  have "cluster_step example_sha (ex_tasks ex_bumped [Holding ex_lease] [])
      ((ex_tasks ex_bumped [Holding ex_lease] [])\<lparr>cs_tasks := [] @ Claiming ex_lease [candidate_of ex_row] # []\<rparr>)"
    by (rule step_read_identity [where k = ex_pk and keep = None and now = 10])
      (simp_all add: ex_tasks_def ex_queue_def ex_short answer_def
        select_eligible_by_identity_def ex_bumped_def ex_staged_def empty_sdb_def eligible_def)
  then show ?thesis by (simp add: ex_tasks_def)
qed

lemma ex_claim_run:
  "run_txn (guard_lease 1 ex_queue # claim_batch ex_lease (candidate_of ex_row) ''h'' 60 10) ex_bumped =
     Inr (ex_claimed, [1, 1, 0, 1])"
proof -
  have hold: "u64_to_sql (hold_until 10 60) = 70" "u64_to_sql 10 = 10" "u64_to_sql 1 = 1"
    by (simp_all add: hold_until_def u64_saturating_add_def u64_to_sql_def i64_max_def)
  have row: "ex_row\<lparr>wr_state := Claimed, wr_holder := Some ''h'', wr_expires_at := Some 70, wr_attempt := 1,
       wr_fence := 1\<rparr> = claimed_row ''h'' 70 1 ex_row"
    by (simp add: claimed_row_def)
  show ?thesis
    by (simp add: claim_batch_def Let_def hold candidate_of_def i64_succ_def i64_max_def guard_lease_def
        claim_row_def update_work_def close_prior_expired_def update_attempts_def put_attempts_def
        open_attempt_def insert_attempts_def ex_bumped_def ex_claimed_def ex_staged_def empty_sdb_def
        eligible_def row)
qed

lemma ex_answer: "claim_answer ex_lease (candidate_of ex_row) 60 10 [1, 0, 1] = Inr (Some ex_claim)"
  by (simp add: claim_answer_def Let_def candidate_of_def candidate_key_def receipt_key_new_def
      receipt_key_build_def processing_key_new_def MAX_NAMESPACE_BYTES_def MAX_KEY_BYTES_def
      ex_claim_def to_attempt_def or_error_def i64_succ_def i64_max_def
      i64_to_u32_def hold_until_def u64_saturating_add_def work_id_def)
    (simp add: ex_pk_def ex_receipt_def)

lemma ex_step5: "cluster_step example_sha (ex_tasks ex_bumped [Claiming ex_lease [candidate_of ex_row]] [])
    (ex_tasks ex_claimed [Claiming ex_lease []] [ex_claim])"
proof -
  have "cluster_step example_sha (ex_tasks ex_bumped [Claiming ex_lease [candidate_of ex_row]] [])
      ((ex_tasks ex_bumped [Claiming ex_lease [candidate_of ex_row]] [])
        \<lparr>cs_db := ex_claimed, cs_tasks := [] @ Claiming ex_lease [] # [],
         cs_claims := [ex_claim] @ cs_claims (ex_tasks ex_bumped [Claiming ex_lease [candidate_of ex_row]] [])\<rparr>)"
  proof (rule step_claim)
    show "cs_tasks (ex_tasks ex_bumped [Claiming ex_lease [candidate_of ex_row]] []) =
        [] @ Claiming ex_lease (candidate_of ex_row # []) # []"
      by (simp add: ex_tasks_def)
    show "guard_statement ex_lease = Inr (guard_lease 1 ex_queue)"
      by (simp add: guard_statement_def fence_literal_def i64_max_def)
    show "run_txn (guard_lease 1 ex_queue # claim_batch ex_lease (candidate_of ex_row) ''h'' 60 10)
        (cs_db (ex_tasks ex_bumped [Claiming ex_lease [candidate_of ex_row]] [])) = Inr (ex_claimed, 1 # [1, 0, 1])"
      using ex_claim_run by (simp add: ex_tasks_def del: run_txn.simps)
    show "[ex_claim] = [] \<or> [ex_claim] = claimed_by ex_lease (candidate_of ex_row) 60 10 [1, 0, 1]"
      using ex_answer by (simp add: claimed_by_def)
  qed
  then show ?thesis by (simp add: ex_tasks_def)
qed

lemma ex_complete_run: "run_txn (work_complete example_sha [] ex_claim 20) ex_claimed = Inr (ex_done, [1, 1, 1])"
proof -
  have t: "u64_to_sql 20 = 20" "u64_to_sql (cl_token ex_claim) = 1" "uint (cl_attempt ex_claim) = 1"
      "cl_key ex_claim = ex_pk"
    by (simp_all add: u64_to_sql_def i64_max_def ex_claim_def)
  have a: "ar_id (attempt_of Opened 10 None (claimed_row ''h'' 70 1 ex_row)) = work_id example_sha ex_pk"
      "ar_attempt (attempt_of Opened 10 None (claimed_row ''h'' 70 1 ex_row)) = 1"
      "ar_outcome (attempt_of Opened 10 None (claimed_row ''h'' 70 1 ex_row)) = Opened"
    using ex_row_simps(1) ex_claimed_simps(1) [of "''h''" 70 1 ex_row]
    by (simp_all add: attempt_of_def ar_id_def wr_id_def)
  show ?thesis
    by (simp add: work_complete_def work_guard_def t guard_claim_def holds_row_def ahead_def ex_claimed_def
        complete_row_def update_work_def close_attempt_done_def update_attempts_def put_attempts_def
        ex_done_def a)
qed

lemma ex_step6: "cluster_step example_sha (ex_tasks ex_claimed [Claiming ex_lease []] [ex_claim])
    (ex_tasks ex_done [Claiming ex_lease []] [ex_claim])"
proof -
  have "cluster_step example_sha (ex_tasks ex_claimed [Claiming ex_lease []] [ex_claim])
      ((ex_tasks ex_claimed [Claiming ex_lease []] [ex_claim])\<lparr>cs_db := ex_done\<rparr>)"
    by (rule step_batch [where ps = "[work_complete example_sha [] ex_claim 20]" and ns = "[1, 1, 1]"])
      (auto simp: ex_tasks_def ex_complete_run intro!: staged_complete)
  then show ?thesis by (simp add: ex_tasks_def)
qed

lemma ex_to_claimed: "cluster_steps example_sha (cluster_start ()) (ex_tasks ex_claimed [Claiming ex_lease []] [ex_claim])"
  using ex_step1 ex_step2 ex_step3 ex_step4 ex_step5
  by (meson rtranclp.rtrancl_into_rtrancl rtranclp.rtrancl_refl)

lemma ex_to_done: "cluster_steps example_sha (cluster_start ()) (ex_tasks ex_done [Claiming ex_lease []] [ex_claim])"
  by (rule rtranclp.rtrancl_into_rtrancl [OF ex_to_claimed ex_step6])

lemma ex_calm_to_done:
  "(calm_step example_sha)\<^sup>*\<^sup>* (cluster_start ()) (ex_tasks ex_done [Claiming ex_lease []] [ex_claim])"
proof -
  have "unsaturated (cs_db (cluster_start ()))" "unsaturated ex_staged" "unsaturated ex_bumped" "unsaturated ex_claimed"
    by (simp_all add: unsaturated_def cluster_start_def empty_sdb_def ex_staged_def ex_bumped_def ex_claimed_def
        i64_max_def)
  then have "calm_step example_sha (cluster_start ()) (ex_tasks ex_staged [] [])"
    "calm_step example_sha (ex_tasks ex_staged [] []) (ex_tasks ex_bumped [Bumped ex_queue] [])"
    "calm_step example_sha (ex_tasks ex_bumped [Bumped ex_queue] []) (ex_tasks ex_bumped [Holding ex_lease] [])"
    "calm_step example_sha (ex_tasks ex_bumped [Holding ex_lease] [])
      (ex_tasks ex_bumped [Claiming ex_lease [candidate_of ex_row]] [])"
    "calm_step example_sha (ex_tasks ex_bumped [Claiming ex_lease [candidate_of ex_row]] [])
      (ex_tasks ex_claimed [Claiming ex_lease []] [ex_claim])"
    "calm_step example_sha (ex_tasks ex_claimed [Claiming ex_lease []] [ex_claim])
      (ex_tasks ex_done [Claiming ex_lease []] [ex_claim])"
    using ex_step1 ex_step2 ex_step3 ex_step4 ex_step5 ex_step6 by (simp_all add: calm_step_def) (simp_all add: ex_tasks_def)
  then show ?thesis by (meson rtranclp.rtrancl_into_rtrancl rtranclp.rtrancl_refl)
qed


section \<open>Facts of the end state\<close>

definition ex_done_row :: work_row where
  "ex_done_row = (claimed_row ''h'' 70 1 ex_row)\<lparr>wr_state := Done\<rparr>"

lemma ex_done_row_simps [simp]:
  "wr_id ex_done_row = work_id example_sha ex_pk" "wr_state ex_done_row = Done" "wr_attempt ex_done_row = 1"
proof -
  have "wr_id ex_done_row = wr_id (claimed_row ''h'' 70 1 ex_row)" by (simp add: ex_done_row_def wr_id_def)
  then show "wr_id ex_done_row = work_id example_sha ex_pk" by simp
qed (simp_all add: ex_done_row_def)

lemma ex_done_rows: "rahi_processing ex_done = [ex_done_row]"
  by (simp add: ex_done_def ex_done_row_def)

lemma ex_claim_id [simp]: "claim_id example_sha ex_claim = work_id example_sha ex_pk"
  by (simp add: claim_id_def ex_claim_def)

lemma ex_lost: "lost example_sha ex_done ex_claim"
  by (simp add: lost_def ex_done_rows)

lemma ex_staged_reached: "cluster_steps example_sha (cluster_start ()) (ex_tasks ex_staged [] [])"
  using ex_step1 by (rule r_into_rtranclp)

lemma ex_staged_ok: "store_ok example_sha ex_staged" "history_ok ex_staged"
  using reached_ok [OF ex_staged_reached ex_sha]
  by (simp add: cluster_ok_def ex_tasks_def)
    (simp add: history_ok_def tidy_def kept_def tries_def open_tries_def ex_staged_def empty_sdb_def)

lemma ex_due: "due_row example_sha ex_pk 10 ex_staged r \<longleftrightarrow> r = ex_row"
  by (auto simp: due_row_def ex_staged_def empty_sdb_def eligible_def)

lemma ex_candidate_key: "candidate_key (candidate_of ex_row) = Inr ex_pk"
  by (simp add: candidate_of_def candidate_key_def receipt_key_new_def receipt_key_build_def
      processing_key_new_def MAX_NAMESPACE_BYTES_def MAX_KEY_BYTES_def or_error_def i64_to_u32_def work_id_def)
    (simp add: ex_pk_def ex_receipt_def)

definition ex_meta :: receipt_meta where
  "ex_meta = \<lparr>rm_retain_until = None, rm_tombstone_until = None, rm_outcome = Some ''ok''\<rparr>"

lemma ex_meta_ok: "meta_check ex_meta = Inr ()"
  by (simp add: meta_check_def ex_meta_def MAX_OUTCOME_BYTES_def)

lemma ex_empty_receipts: "receipts_ok (empty_sdb x)"
  by (simp add: receipts_ok_def tables_ok_def empty_sdb_def)

lemma ex_empty_head: "select_head kd (empty_sdb x) = []"
  by (simp add: select_head_def empty_sdb_def)

lemma ex_first: "\<exists>ss. stage_first example_sha [] ex_receipt g ex_meta 5 = Inr ss"
  by (simp add: stage_first_def ex_meta_ok Let_def)

end
