(* ===== verification/Store_Theorems.thy ===== *)
theory Store_Theorems
  imports Example_Store
begin

text \<open>
  The properties of the store's coordination tables: leases, work claims, receipts, outbox and
  watermark, each with an application to a concrete cluster where it has hypotheses.
\<close>

section \<open>Work claims\<close>

text \<open>
  C18: a zombie commits nothing. Once a claim is lost, because its row was completed, failed, buried,
  requeued or claimed again, then after any further steps of the whole cluster every batch that
  completes or fails under it is refused whole while the row exists, and no later renewal, claim or
  sweep makes it valid again.
\<close>

theorem zombie_commits_nothing:
  assumes "digest_ok sha" "cluster_steps sha (cluster_start x) C"
    and "cl \<in> set (cs_claims C)" "lost sha (cs_db C) cl" "cluster_steps sha C C'"
    and "r \<in> set (rahi_processing (cs_db C'))" "wr_id r = claim_id sha cl"
  shows "run_txn (work_complete sha [] cl now @ rest) (cs_db C') = Inl claim_gone \<and>
    (\<forall>f p ss. work_fail sha [] cl f p now = Inr ss \<longrightarrow>
       run_txn (ss @ rest) (cs_db C') = Inl claim_gone)"
proof -
  have g: "run_txn (work_guard sha [] cl now @ more) (cs_db C') = Inl claim_gone" for more
    using zombie_guard [OF assms(5,1) reached_ok [OF assms(2,1)] assms(3,4,6,7)] .
  show ?thesis
    using g unfolding complete_is_guarded append_assoc by (auto dest!: fail_is_guarded)
qed

theorem zombie_commits_nothing_witness:
  "run_txn (work_complete example_sha [] ex_claim 30 @ [delete_outbox [1]]) ex_done = Inl claim_gone"
proof -
  let ?C = "ex_tasks ex_done [Claiming ex_lease []] [ex_claim]"
  have "ex_claim \<in> set (cs_claims ?C)" "lost example_sha (cs_db ?C) ex_claim"
      "ex_done_row \<in> set (rahi_processing (cs_db ?C))" "cs_db ?C = ex_done"
    by (simp_all add: ex_tasks_def ex_lost ex_done_rows)
  then show ?thesis
    using zombie_commits_nothing [OF ex_sha ex_to_done _ _ rtranclp.rtrancl_refl,
        of ex_claim ex_done_row 30 "[delete_outbox [1]]"] by simp
qed

text \<open>
  C19: the attempt table is the exact history of every row. Over every run of the cluster in which the
  attempt column stays below its ceiling, a row at attempt n has one record of each of the attempts 1
  to n, none twice; an open record is the current attempt of a claimed row; and attempts outlive no
  row.
\<close>

theorem attempt_history_is_exact:
  assumes "digest_ok sha" "(calm_step sha)\<^sup>*\<^sup>* (cluster_start x) C"
  shows "(\<forall>r \<in> set (rahi_processing (cs_db C)).
      distinct (tries (rahi_processing_attempt (cs_db C)) (wr_id r)) \<and>
      set (tries (rahi_processing_attempt (cs_db C)) (wr_id r)) = {1..wr_attempt r} \<and>
      open_tries (rahi_processing_attempt (cs_db C)) (wr_id r) \<subseteq>
        (if wr_state r = Claimed then {wr_attempt r} else {})) \<and>
    ar_id ` set (rahi_processing_attempt (cs_db C)) \<subseteq> wr_id ` set (rahi_processing (cs_db C))"
proof -
  have "history_ok (cs_db C)"
    by (rule history_steps [OF assms(2,1) cluster_start_ok start_history])
  then show ?thesis unfolding history_ok_def tidy_def kept_def by blast
qed

theorem attempt_history_is_exact_witness:
  "set (tries (rahi_processing_attempt ex_done) (work_id example_sha ex_pk)) = {1} \<and>
   open_tries (rahi_processing_attempt ex_done) (work_id example_sha ex_pk) = {}"
  using attempt_history_is_exact [OF ex_sha ex_calm_to_done]
  by (simp add: ex_tasks_def ex_done_rows)

text \<open>
  A reservation that is not disturbed claims exactly a due row. With a due row it answers a claim
  under a token one above the newest of its queue, at the next attempt, and the row is then claimed
  under both until the hold ends; without one it answers nothing.
\<close>

theorem reserve_is_exact:
  assumes "store_ok sha (ho_db h)" "history_ok (ho_db h)"
    and "distinct (map attempt_key (rahi_processing_attempt (ho_db h)))"
    and "newest (queue_lease_key k) (ho_db h) < i64_max"
    and "\<forall>r. due_row sha k now (ho_db h) r \<longrightarrow>
      candidate_key (candidate_of r) = Inr k \<and> 0 \<le> wr_attempt r \<and> wr_attempt r + 1 < 2 ^ 32"
  shows "if \<exists>r. due_row sha k now (ho_db h) r
    then \<exists>r h'. due_row sha k now (ho_db h) r \<and>
      work_reserve sha calm k holder hold_for now h =
        (Inr (Some \<lparr>cl_key = k, cl_token = word_of_int (newest (queue_lease_key k) (ho_db h) + 1),
           cl_attempt = word_of_int (wr_attempt r + 1), cl_expires_at = hold_until now hold_for\<rparr>), h') \<and>
      claimed_row holder (u64_to_sql (hold_until now hold_for))
        (newest (queue_lease_key k) (ho_db h) + 1) r \<in> set (rahi_processing (ho_db h'))
    else fst (work_reserve sha calm k holder hold_for now h) = Inr None"
proof (cases "\<exists>r. due_row sha k now (ho_db h) r")
  case True
  then obtain r where r: "due_row sha k now (ho_db h) r" by blast
  then have k: "candidate_key (candidate_of r) = Inr k" "0 \<le> wr_attempt r" "wr_attempt r + 1 < 2 ^ 32"
    using assms(5) by simp_all
  show ?thesis
    using reserve_claims [OF assms(1,2,3) r k(1) assms(4) k(2,3), of holder hold_for] r by auto
next
  case False
  then show ?thesis using reserve_finds_nothing [OF _ assms(4)] assms(1) by (simp add: store_ok_def)
qed

theorem reserve_is_exact_witness:
  "\<exists>h'. work_reserve example_sha calm ex_pk ''h'' 60 10
      \<lparr>ho_db = ex_staged, ho_superseded = [], ho_released = [], ho_clock = 0\<rparr> =
     (Inr (Some ex_claim), h')"
proof -
  let ?h = "\<lparr>ho_db = ex_staged, ho_superseded = [], ho_released = [], ho_clock = 0\<rparr> :: unit handle"
  have new: "newest (queue_lease_key ex_pk) ex_staged = 0"
    by (simp add: newest_def fence_of_def ex_staged_def empty_sdb_def)
  have fits: "newest (queue_lease_key ex_pk) (ho_db ?h) < i64_max" by (simp add: new i64_max_def)
  have keys: "distinct (map attempt_key (rahi_processing_attempt (ho_db ?h)))"
    by (simp add: ex_staged_def empty_sdb_def)
  have rows: "\<forall>r. due_row example_sha ex_pk 10 (ho_db ?h) r \<longrightarrow>
      candidate_key (candidate_of r) = Inr ex_pk \<and> 0 \<le> wr_attempt r \<and> wr_attempt r + 1 < 2 ^ 32"
    by (simp add: ex_due ex_candidate_key)
  have "hold_until 10 60 = 70" by (simp add: hold_until_def u64_saturating_add_def)
  then show ?thesis
    using reserve_is_exact [OF _ _ keys fits rows, of "''h''" 60] ex_staged_ok
    by (auto simp: ex_due new ex_claim_def)
qed

section \<open>Receipts\<close>

text \<open>
  C20: staging is a compare and swap on the head that stands. Over well-formed tables a revision or a
  collision commits exactly when every head of its identity is neither erased nor at another revision
  than the one that was classified, and a first delivery exactly when every head is open at zero;
  otherwise the whole batch is aborted at the guard. There is at most one head, and when there is none
  any more, since it was swept after the classification, nothing guards: a revision or a collision
  commits then too, and leaves a revision without a head.
\<close>

theorem staging_is_a_swap:
  assumes "receipts_ok d"
  shows "(stage_first sha [] k g m now = Inr ss \<longrightarrow>
      (if \<forall>h \<in> set (select_head (key_digest sha k) d). head_open 0 h then is_ok (run_txn ss d)
       else run_txn ss d = Inl head_moved)) \<and>
    (\<forall>c. stage_revision sha [] k g c m now = Inr ss \<or> stage_collision sha [] k g c m now = Inr ss \<longrightarrow>
      (if \<forall>h \<in> set (select_head (key_digest sha k) d). head_open (uint (ch_head_revision c)) h
       then \<exists>d' ns. run_txn ss d = Inr (d', ns) \<and> (select_head (key_digest sha k) d = [] \<longrightarrow> \<not> receipts_ok d')
       else run_txn ss d = Inl head_moved)) \<and>
    length (select_head (key_digest sha k) d) \<le> 1"
proof -
  have "length (select_head (key_digest sha k) d) \<le> 1"
  proof (cases "select_head (key_digest sha k) d")
    case (Cons h hs)
    then have "select_head (key_digest sha k) d = [h]"
      using receipts_ok_select [OF assms, of h] by (auto simp: select_head_def filter_eq_Cons_iff)
    then show ?thesis by simp
  qed simp
  with stage_first_decides [OF assms] stage_swap_decides [OF assms] show ?thesis by blast
qed

theorem staging_is_a_swap_witness:
  "is_ok (rbind (stage_first example_sha [] ex_receipt ''d1'' ex_meta 5) (\<lambda>ss. run_txn ss (empty_sdb ())))"
proof -
  obtain ss :: "unit sql list" where ss: "stage_first example_sha [] ex_receipt ''d1'' ex_meta 5 = Inr ss"
    using ex_first by blast
  show ?thesis
    using staging_is_a_swap [OF ex_empty_receipts [of "()"], of example_sha ex_receipt "''d1''" ex_meta 5 ss]
    by (simp add: ex_empty_head ss del: run_txn.simps)
qed

text \<open>
  What is classified can be staged, and what was staged is recognised. Without interference a
  first or changed delivery stages under its own classification, and the same delivery is afterwards
  answered as redelivered at exactly the revision it was given, a collision as that collision.
\<close>

theorem staged_is_recognised:
  assumes "receipts_ok d" "run_txn ss d = Inr (d', ns)"
  shows "(classified sha d k g = Inr FirstSeen \<and> stage_first sha [] k g m now = Inr ss \<longrightarrow>
      classified sha d' k g = Inr (Redelivered 1 True (rm_outcome m))) \<and>
    (\<forall>c. classified sha d k g = Inr (Changed c) \<and> uint (ch_head_revision c) + 1 < 2 ^ 32 \<longrightarrow>
      (stage_revision sha [] k g c m now = Inr ss \<longrightarrow>
        classified sha d' k g = Inr (Redelivered (ch_head_revision c + 1) True (rm_outcome m))) \<and>
      (stage_collision sha [] k g c m now = Inr ss \<longrightarrow>
        classified sha d' k g = Inr (CollisionRedelivered (ch_head_revision c + 1))))"
  using first_delivered_again [OF assms(1) _ _ assms(2)] revision_delivered_again [OF assms(1) _ _ assms(2)]
    collision_delivered_again [OF assms(1) _ _ assms(2)] by blast

theorem staged_is_recognised_witness:
  "\<exists>d' ns. rbind (stage_first example_sha [] ex_receipt ''d1'' ex_meta 5) (\<lambda>ss. run_txn ss (empty_sdb ())) =
     Inr (d', ns) \<and>
   classified example_sha d' ex_receipt ''d1'' = Inr (Redelivered 1 True (Some ''ok''))"
proof -
  obtain ss :: "unit sql list" where ss: "stage_first example_sha [] ex_receipt ''d1'' ex_meta 5 = Inr ss"
    using ex_first by blast
  have new: "classified example_sha (empty_sdb ()) ex_receipt ''d1'' = Inr FirstSeen"
    by (simp add: first_seen_iff ex_empty_head)
  from first_seen_stages [OF ex_empty_receipts new ss] obtain d' ns where
    run: "run_txn ss (empty_sdb ()) = Inr (d', ns)" by (auto simp: is_ok_def split: sum.splits)
  have "classified example_sha d' ex_receipt ''d1'' = Inr (Redelivered 1 True (rm_outcome ex_meta))"
    using staged_is_recognised [OF ex_empty_receipts run, of example_sha ex_receipt "''d1''" ex_meta 5] new ss
    by blast
  moreover have "rm_outcome ex_meta = Some ''ok''" by (simp add: ex_meta_def)
  ultimately show ?thesis using run ss by auto
qed

text \<open>
  C21: an erased identity is gone for good. Once an erasure of an identity has committed, then after
  any further steps of the whole cluster no revision of it is stored, its head is erased, and every
  staging call on it is refused whole.
\<close>

theorem erased_for_good:
  assumes "receipts_ok d" "run_txn (stage_erasure sha [] (EraseIdentity k) now) d = Inr (cs_db C, ns)"
    and "cluster_steps sha C C'"
  shows "(\<forall>r \<in> set (rahi_receipt (cs_db C')). rv_key_digest r \<noteq> key_digest sha k) \<and>
    (\<exists>h \<in> set (rahi_receipt_head (cs_db C')). hr_key_digest h = key_digest sha k \<and> hr_erased h \<noteq> 0) \<and>
    (\<forall>g m c now ss. stage_first sha [] k g m now = Inr ss \<or> stage_revision sha [] k g c m now = Inr ss \<or>
       stage_collision sha [] k g c m now = Inr ss \<longrightarrow> run_txn ss (cs_db C') = Inl head_moved)"
proof -
  have w: "wiped (key_digest sha k) (cs_db C')"
    by (rule wiped_steps [OF assms(3) erase_identity_wipes [OF assms(2,1)]])
  then have "\<forall>g m c now ss. stage_first sha [] k g m now = Inr ss \<or> stage_revision sha [] k g c m now = Inr ss \<or>
       stage_collision sha [] k g c m now = Inr ss \<longrightarrow> run_txn ss (cs_db C') = Inl head_moved"
    using stage_refused by blast
  with w show ?thesis by (auto simp: wiped_def image_iff)
qed

theorem erased_for_good_witness:
  "\<exists>d. run_txn (stage_erasure example_sha [] (EraseIdentity ex_receipt) 9) (empty_sdb ()) = Inr (d, [1, 0, 0, 0, 1]) \<and>
     (\<exists>h \<in> set (rahi_receipt_head d). hr_key_digest h = key_digest example_sha ex_receipt \<and> hr_erased h \<noteq> 0)"
proof -
  obtain d where run: "run_txn (stage_erasure example_sha [] (EraseIdentity ex_receipt) 9) (empty_sdb ()) =
      Inr (d, [1, 0, 0, 0, 1])"
    by (simp add: stage_erasure_def erase_by_predicate_def seed_erased_def empty_sdb_def erase_receipts_def
        erase_attempts_def erase_work_def erase_heads_def erase_selects_def)
  then show ?thesis
    using erased_for_good [OF ex_empty_receipts, of example_sha ex_receipt 9 "()" "ex_tasks d [] []"
        "[1, 0, 0, 0, 1]" "ex_tasks d [] []"]
    by (auto simp: ex_tasks_def simp del: run_txn.simps)
qed

text \<open>
  The receipt tables stay well formed. Every batch built of intake calls and of the phases of the
  sweep leaves one head per identity, each live head with exactly the revisions one to its own among
  which is the accepted one it names, each erased head with none, and no revision without a head.
\<close>

theorem receipts_stay_dense:
  assumes "\<forall>p \<in> set ps. backed sha H p" "run_txn (concat ps) d = Inr (d', ns)" "receipts_ok d"
    and "H \<subseteq> hr_key_digest ` set (rahi_receipt_head d)"
  shows "receipts_ok d' \<and>
    (\<forall>h \<in> set (rahi_receipt_head d'). hr_erased h = 0 \<longrightarrow>
       numbers (rahi_receipt d') (hr_key_digest h) = {1..hr_revision h})"
proof -
  have "receipts_ok d'" by (rule intake_ok [OF assms])
  then show ?thesis by (auto simp: receipts_ok_def tables_ok_def head_ok_def)
qed

theorem receipts_stay_dense_witness:
  "\<exists>d' ns. rbind (stage_first example_sha [] ex_receipt ''d1'' ex_meta 5)
       (\<lambda>ss. run_txn (concat [ss, stage_seen example_sha [] ex_receipt 1 6]) (empty_sdb ())) = Inr (d', ns) \<and>
     receipts_ok d'"
proof -
  obtain ss :: "unit sql list" where ss: "stage_first example_sha [] ex_receipt ''d1'' ex_meta 5 = Inr ss"
    using ex_first by blast
  have new: "classified example_sha (empty_sdb ()) ex_receipt ''d1'' = Inr FirstSeen"
    by (simp add: first_seen_iff ex_empty_head)
  from first_seen_stages [OF ex_empty_receipts new ss] obtain d ns where
    run: "run_txn ss (empty_sdb ()) = Inr (d, ns)" by (auto simp: is_ok_def split: sum.splits)
  obtain d' n where seen: "touch_seen (u64_to_sql 6) (key_digest example_sha ex_receipt) 1 d = Inr (d', n)"
    by (simp add: touch_seen_def Let_def)
  let ?ps = "[ss, stage_seen example_sha [] ex_receipt 1 6]"
  have all: "run_txn (concat ?ps) (empty_sdb ()) = Inr (d', ns @ [n])"
    using run seen by (simp add: run_txn_append stage_seen_def)
  have "\<forall>p \<in> set ?ps. backed example_sha {} p"
    using ss by (auto intro: backed_first backed_seen)
  then have "receipts_ok d'"
    using receipts_stay_dense [OF _ all ex_empty_receipts] by blast
  then show ?thesis using all by (simp add: ss del: run_txn.simps)
qed

section \<open>Leases, outbox and watermark\<close>

text \<open>
  C22: a superseded lease commits nothing. When a newer token of its key has been minted before its
  batch arrives, a fenced batch and a guarded one leave the tables exactly as the others left them and
  answer an error, whatever happens to the answer.
\<close>

theorem superseded_lease_commits_nothing:
  assumes "fences_ok (ho_db (pass W h))" "uint (le_token l) < newest (le_key l) (ho_db (pass W h))"
    and "fenced_txn W l fs h = (r, h') \<or> guarded_txn W l ss h = (r, h')"
  shows "ho_db h' \<in> {ho_db h, ho_db (pass W h)} \<and> (\<exists>e. r = Inl e)"
  by (rule overtaken_lease [OF assms])

definition ex_overtaken :: "unit handle" where
  "ex_overtaken = \<lparr>ho_db = (empty_sdb ())\<lparr>lease_fence := [(''k'', 2)]\<rparr>, ho_superseded = [],
     ho_released = [], ho_clock = 0\<rparr>"

theorem superseded_lease_commits_nothing_witness:
  "ho_db (snd (guarded_txn calm \<lparr>le_key = ''k'', le_token = 1\<rparr> [bump_fence ''k''] ex_overtaken)) =
     ho_db ex_overtaken"
proof -
  obtain r h' where run: "guarded_txn calm \<lparr>le_key = ''k'', le_token = 1\<rparr> [bump_fence ''k''] ex_overtaken = (r, h')"
    by (cases "guarded_txn calm \<lparr>le_key = ''k'', le_token = 1\<rparr> [bump_fence ''k''] ex_overtaken")
  have "fences_ok (ho_db (pass calm ex_overtaken))"
      "uint (le_token \<lparr>le_key = ''k'', le_token = 1\<rparr>) <
         newest (le_key \<lparr>le_key = ''k'', le_token = 1\<rparr>) (ho_db (pass calm ex_overtaken))"
    by (simp_all add: ex_overtaken_def fences_ok_def newest_def fence_of_def)
  from superseded_lease_commits_nothing [OF this disjI2 [OF run]] run show ?thesis by simp
qed

text \<open>
  The outbox delivers at least once and in order. A drain publishes a prefix of the rows it read,
  in the order of their ids, and a row leaves the table only in a drain that published its envelope,
  whatever was answered or committed meanwhile, as long as no id is given to a second row.
\<close>

theorem outbox_delivers_at_least_once:
  assumes "outbox_drain notify W n h = (Inr (sent, r), h')"
    and "\<forall>x \<in> set (outbox (ho_db (pass W h))). \<forall>y \<in> set (outbox (ho_db (pass W (pass W h)))).
      ob_id x = ob_id y \<longrightarrow> x = y"
  shows "(\<exists>rows. prefix rows (read_rows W n h) \<and> sorted (map ob_id rows) \<and>
      map outbox_envelope rows = map Inr sent) \<and>
    (\<forall>x \<in> set (outbox (ho_db (pass W (pass W h)))).
      x \<notin> set (outbox (ho_db h')) \<and> ho_db h' \<notin> {ho_db h, ho_db (pass W h)} \<longrightarrow>
      (\<exists>v \<in> set sent. outbox_envelope x = Inr v))"
proof -
  obtain rows where rows: "prefix rows (read_rows W n h)" "map outbox_envelope rows = map Inr sent"
    using drain_cases [OF assms(1)] by blast
  have "prefix (map ob_id rows) (map ob_id (read_rows W n h))" using rows(1) by (rule map_mono_prefix)
  then have "sorted (map ob_id rows)" using read_rows_sorted [of W n h] by (metis prefixE sorted_append)
  then show ?thesis using rows drain_at_least_once [OF assms(1)] assms(2) by blast
qed

definition ex_mail :: "unit handle" where
  "ex_mail = \<lparr>ho_db = (empty_sdb ())
       \<lparr>outbox := [\<lparr>ob_id = 1, ob_kind = ''k'', ob_tenant = None, ob_name = ''n'', ob_revision = 3\<rparr>]\<rparr>,
     ho_superseded = [], ho_released = [], ho_clock = 0\<rparr>"

theorem outbox_delivers_at_least_once_witness:
  "fst (outbox_drain (\<lambda>_. None) calm 10 ex_mail) =
     Inr ([\<lparr>en_kind = ''k'', en_tenant = None, en_name = ''n'', en_revision = 3\<rparr>], Inr 1) \<and>
   (\<exists>rows. prefix rows (read_rows calm 10 ex_mail) \<and> sorted (map ob_id rows))"
proof -
  let ?v = "\<lparr>en_kind = ''k'', en_tenant = None, en_name = ''n'', en_revision = 3\<rparr>"
  obtain h' where run: "outbox_drain (\<lambda>_. None) calm 10 ex_mail = (Inr ([?v], Inr 1), h')"
    by (simp add: outbox_drain_def on_result_def calm_read select_outbox_def ex_mail_def ret_def
        outbox_envelope_def or_error_def i64_to_u64_def submit_def delete_outbox_def i64_max_def pass_def)
  have "\<forall>x \<in> set (outbox (ho_db (pass calm ex_mail))).
      \<forall>y \<in> set (outbox (ho_db (pass calm (pass calm ex_mail)))). ob_id x = ob_id y \<longrightarrow> x = y"
    by (simp add: ex_mail_def)
  from outbox_delivers_at_least_once [OF run this] run show ?thesis by auto
qed

text \<open>
  A consumer of a watermark misses nothing. A stamp leaves every stamped row alone and gives the
  new rows one revision above every other and above zero; and what a consumer reads above the highest
  revision it has seen is exactly, in order and without repetition, what was stamped since.
\<close>

theorem watermark_misses_nothing:
  assumes "uint after \<le> i64_max" "\<forall>r \<in> set (stamp_revisions rs). r \<le> i64_max"
  shows "set (stamp_revisions rs) =
      (set rs - {0}) \<union> (if 0 \<in> set rs then {max_revision rs + 1} else {}) \<and>
    (0 \<in> set rs \<longrightarrow> 0 < max_revision rs + 1 \<and> (\<forall>r \<in> set rs. r < max_revision rs + 1)) \<and>
    (\<exists>vs. revisions_since (stamp_revisions rs) after = Inr vs \<and> sorted_wrt (<) vs \<and>
      uint ` set vs = {r \<in> set (stamp_revisions rs). uint after < r})"
  using stamp_exact [of rs] stamp_is_above [of rs] since_exact [OF assms] by blast

theorem watermark_misses_nothing_witness:
  "stamp_revisions [3, 0, 1, 0] = [3, 4, 1, 4] \<and>
   (\<exists>vs. revisions_since (stamp_revisions [3, 0, 1, 0]) 3 = Inr vs \<and> uint ` set vs = {4})"
proof -
  have s: "stamp_revisions [3, 0, 1, 0] = [3, 4, 1, 4]" by (simp add: stamp_revisions_def max_revision_def)
  have b: "uint (3 :: u64) \<le> i64_max" "\<forall>r \<in> set (stamp_revisions [3, 0, 1, 0]). r \<le> i64_max"
    by (simp_all add: s i64_max_def)
  have "{r \<in> set (stamp_revisions [3, 0, 1, 0]). uint (3 :: u64) < r} = {4}" by (auto simp: s)
  then show ?thesis using watermark_misses_nothing [OF b] s by metis
qed

end
