(* ===== verification/Store_Migrations.thy ===== *)
theory Store_Migrations
  imports Store_Handle
begin

text \<open>
  \<^verbatim>\<open>crates/rahi-store/src/{migrate,migration_set}.rs\<close>: named migration sets, the validation of a
  cell's sets, the cross-set plan, and the runs that apply it. A set's name is its text; a
  \<^verbatim>\<open>BTreeMap\<close> is a map, and where its order matters the keys are listed sorted. \<open>sha\<close> is the SHA-256
  of \<^verbatim>\<open>attest-ledger-core\<close> and \<open>ddl\<close> what one statement of a migration does to the tables of its host:
  a migration that edits the version tables themselves is outside the model.
\<close>

definition BASELINE_VERSION :: u32 where "BASELINE_VERSION = 0"
definition APP_SET :: string where "APP_SET = ''app''"
definition CHASSIS_PREFIX :: string where "CHASSIS_PREFIX = ''rahi.''"
definition MAX_NAME_BYTES :: nat where "MAX_NAME_BYTES = 64"

section \<open>Names\<close>

fun segment_ok :: "string \<Rightarrow> bool" where
  "segment_ok [] = False"
| "segment_ok (b # bs) =
     (ascii_lower b \<and> list_all (\<lambda>c. ascii_lower c \<or> ascii_digit c \<or> c = CHR ''-'') bs)"

definition set_name_reference :: "string \<Rightarrow> error + string" where
  "set_name_reference name =
     (if name = [] \<or> MAX_NAME_BYTES < length name then Inl (Validation ''a set name must be 1 to 64 bytes'')
      else if list_all segment_ok (split_on CHR ''.'' name) then Inr name
      else Inl (Validation ''the set name does not match''))"

definition is_app :: "string \<Rightarrow> bool" where
  "is_app name = (name = APP_SET)"

definition is_chassis :: "string \<Rightarrow> bool" where
  "is_chassis name = starts_with CHASSIS_PREFIX name"

definition set_name_new :: "string \<Rightarrow> error + string" where
  "set_name_new name =
     rbind (set_name_reference name) (\<lambda>n.
       if is_app n then Inl (Validation ''the set name is the host cell's own'')
       else if is_chassis n then Inl (Validation ''the set name uses a reserved prefix'')
       else Inr n)"

definition set_rank :: "string \<Rightarrow> nat" where
  "set_rank name = (if is_chassis name then 0 else if is_app name then 2 else 1)"

section \<open>Migrations and sets\<close>

record set_requirement =
  rq_set :: string
  rq_min :: u32

record migration =
  mg_version :: u32
  mg_name :: string
  mg_sql :: string
  mg_additive :: bool
  mg_requires :: "set_requirement list"

record migration_set =
  ms_name :: string
  ms_migrations :: "migration list"
  ms_requires :: "set_requirement list"

record recorded_migration =
  rd_version :: u32
  rd_name :: string
  rd_checksum :: "string option"
  rd_additive :: "bool option"

type_synonym set_histories = "string \<Rightarrow> recorded_migration list option"

definition requirement_new :: "string \<Rightarrow> u32 \<Rightarrow> error + set_requirement" where
  "requirement_new s v = rbind (set_name_reference s) (\<lambda>n. Inr \<lparr>rq_set = n, rq_min = v\<rparr>)"

definition migration_new :: "u32 \<Rightarrow> string \<Rightarrow> string \<Rightarrow> migration" where
  "migration_new v name sql =
     \<lparr>mg_version = v, mg_name = name, mg_sql = sql, mg_additive = False, mg_requires = []\<rparr>"

definition migration_requires :: "string \<Rightarrow> u32 \<Rightarrow> migration \<Rightarrow> error + migration" where
  "migration_requires s v m =
     rbind (requirement_new s v) (\<lambda>r. Inr (m\<lparr>mg_requires := mg_requires m @ [r]\<rparr>))"

definition migration_additive :: "migration \<Rightarrow> migration" where
  "migration_additive m = m\<lparr>mg_additive := True\<rparr>"

definition migration_checksum :: "(string \<Rightarrow> string) \<Rightarrow> migration \<Rightarrow> string" where
  "migration_checksum sha m = sha (mg_sql m)"

definition statements :: "migration \<Rightarrow> string list" where
  "statements m = filter (\<lambda>s. s \<noteq> []) (map trim (split_on CHR '';'' (mg_sql m)))"

definition is_additive :: "recorded_migration \<Rightarrow> bool" where
  "is_additive r = (rd_additive r = Some True)"

definition migration_set_new :: "string \<Rightarrow> migration list \<Rightarrow> error + migration_set" where
  "migration_set_new name ms =
     rbind (set_name_new name) (\<lambda>n. Inr \<lparr>ms_name = n, ms_migrations = ms, ms_requires = []\<rparr>)"

definition migration_set_chassis :: "string \<Rightarrow> migration list \<Rightarrow> migration_set" where
  "migration_set_chassis suffix ms =
     \<lparr>ms_name = CHASSIS_PREFIX @ suffix, ms_migrations = ms, ms_requires = []\<rparr>"

definition migration_set_requires :: "string \<Rightarrow> u32 \<Rightarrow> migration_set \<Rightarrow> error + migration_set" where
  "migration_set_requires s v ms =
     rbind (requirement_new s v) (\<lambda>r. Inr (ms\<lparr>ms_requires := ms_requires ms @ [r]\<rparr>))"

definition max_version :: "u32 list \<Rightarrow> u32" where
  "max_version vs = (if vs = [] then BASELINE_VERSION else Max (set vs))"

definition last_version :: "migration_set \<Rightarrow> u32" where
  "last_version s = max_version (map mg_version (ms_migrations s))"

definition requirements_of :: "migration_set \<Rightarrow> migration \<Rightarrow> set_requirement list" where
  "requirements_of s m =
     ms_requires s
     @ concat (map mg_requires (filter (\<lambda>x. mg_version x \<le> mg_version m) (ms_migrations s)))"

definition all_sets :: "migration list \<Rightarrow> migration_set list \<Rightarrow> migration_set list" where
  "all_sets app sets = \<lparr>ms_name = APP_SET, ms_migrations = app, ms_requires = []\<rparr> # sets"

section \<open>Validation\<close>

fun validate_from :: "u32 \<Rightarrow> migration list \<Rightarrow> error + unit" where
  "validate_from l [] = Inr ()"
| "validate_from l (m # ms) =
     (if mg_version m = BASELINE_VERSION then Inl (Validation ''migration uses version 0'')
      else if mg_version m \<le> l then Inl (Validation ''versions must be strictly ascending'')
      else validate_from (mg_version m) ms)"

definition validate_list :: "migration list \<Rightarrow> error + unit" where
  "validate_list ms = validate_from BASELINE_VERSION ms"

fun check_checksums :: "(string \<Rightarrow> string) \<Rightarrow> recorded_migration list \<Rightarrow> migration list \<Rightarrow> error + unit" where
  "check_checksums sha [] ms = Inr ()"
| "check_checksums sha (row # rows) ms =
     (case rd_checksum row of
        None \<Rightarrow> check_checksums sha rows ms
      | Some recorded \<Rightarrow>
          (case find (\<lambda>m. mg_version m = rd_version row) ms of
             None \<Rightarrow> check_checksums sha rows ms
           | Some m \<Rightarrow>
               if migration_checksum sha m \<noteq> recorded
               then Inl (Integrity ''the SQL of an applied version changed'')
               else check_checksums sha rows ms))"

fun validate_each :: "string list \<Rightarrow> migration_set list \<Rightarrow> error + unit" where
  "validate_each seen [] = Inr ()"
| "validate_each seen (s # ss) =
     (if ms_name s \<in> set seen then Inl (Validation (''declared twice: '' @ ms_name s))
      else rbind (map_err (\<lambda>e. Validation (''set '' @ ms_name s @ '': '' @ message e))
                    (validate_list (ms_migrations s)))
             (\<lambda>_. validate_each (ms_name s # seen) ss))"

definition by_name :: "migration_set list \<Rightarrow> string \<Rightarrow> migration_set option" where
  "by_name sets = map_of (rev (map (\<lambda>s. (ms_name s, s)) sets))"

definition declared_requirements :: "migration_set \<Rightarrow> set_requirement list" where
  "declared_requirements s = ms_requires s @ concat (map mg_requires (ms_migrations s))"

definition check_requirement :: "migration_set list \<Rightarrow> migration_set \<Rightarrow> set_requirement \<Rightarrow> error + unit" where
  "check_requirement sets s r =
     (case map_option last_version (by_name sets (rq_set r)) of
        None \<Rightarrow> Inl (Validation ''requires a set this cell does not carry'')
      | Some l \<Rightarrow>
          if rq_set r = ms_name s then Inl (Validation ''requires itself, which is a cycle'')
          else if l < rq_min r then Inl (Validation ''requires a version this binary does not have'')
          else Inr ())"

definition set_edges :: "migration_set list \<Rightarrow> (string \<times> string) list" where
  "set_edges sets =
     concat (map (\<lambda>s. map (\<lambda>r. (ms_name s, rq_set r)) (declared_requirements s)) sets)"

text \<open>\<^verbatim>\<open>edges.get(node)\<close> and \<^verbatim>\<open>edges.keys()\<close>, in the order of the map and the set.\<close>

definition targets :: "(string \<times> string) list \<Rightarrow> string \<Rightarrow> string list" where
  "targets es n = sort (remdups (map snd (filter (\<lambda>e. fst e = n) es)))"

definition sources :: "(string \<times> string) list \<Rightarrow> string list" where
  "sources es = sort (remdups (map fst es))"

lemma set_targets [simp]: "set (targets es n) = {y. (n, y) \<in> set es}"
  by (force simp: targets_def)

lemma set_sources [simp]: "set (sources es) = fst ` set es"
  by (simp add: sources_def)

definition unvisited :: "(string \<times> string) list \<Rightarrow> string list \<Rightarrow> nat" where
  "unvisited es path = card (fst ` set es - set path)"

lemma unvisited_less:
  assumes "n \<notin> set path" and "n \<in> fst ` set es"
  shows "unvisited es (path @ [n]) < unvisited es path"
  unfolding unvisited_def using assms by (intro psubset_card_mono) auto

lemma targets_Nil_iff: "targets es n = [] \<longleftrightarrow> n \<notin> fst ` set es"
proof -
  have "targets es n = [] \<longleftrightarrow> set (targets es n) = {}"
    by (simp only: set_empty)
  then show ?thesis by force
qed

function (sequential) visit ::
    "(string \<times> string) list \<Rightarrow> string \<Rightarrow> string list \<Rightarrow> string list \<Rightarrow> string list + string list"
  and visit_each ::
    "(string \<times> string) list \<Rightarrow> string list \<Rightarrow> string list \<Rightarrow> string list \<Rightarrow> string list + string list"
where
  "visit es node path visited =
     (if node \<in> set path then Inl (dropWhile (\<lambda>n. n \<noteq> node) path @ [node])
      else if node \<in> set visited then Inr visited
      else (case visit_each es (targets es node) (path @ [node]) visited of
              Inl cycle \<Rightarrow> Inl cycle
            | Inr d \<Rightarrow> Inr (node # d)))"
| "visit_each es [] path visited = Inr visited"
| "visit_each es (n # ns) path visited =
     (case visit es n path visited of
        Inl cycle \<Rightarrow> Inl cycle
      | Inr d \<Rightarrow> visit_each es ns path d)"
  by pat_completeness auto
termination
proof (relation "measures
    [\<lambda>x. case x of Inl (es, n, p, d) \<Rightarrow> unvisited es p | Inr (es, ns, p, d) \<Rightarrow> unvisited es p,
     \<lambda>x. case x of Inl _ \<Rightarrow> 1 | Inr (es, ns, p, d) \<Rightarrow> 2 * length ns]", goal_cases)
  case (2 es node path visited)
  show ?case
  proof (cases "node \<in> fst ` set es")
    case True
    with 2 show ?thesis by (simp add: unvisited_less)
  next
    case False
    then have "unvisited es (path @ [node]) = unvisited es path"
      unfolding unvisited_def by (intro arg_cong [where f = card]) auto
    moreover have "targets es node = []"
      using False by (simp add: targets_Nil_iff)
    ultimately show ?thesis by simp
  qed
qed simp_all

declare visit.simps [simp del]

fun search_from :: "(string \<times> string) list \<Rightarrow> string list \<Rightarrow> string list \<Rightarrow> string list option" where
  "search_from es [] visited = None"
| "search_from es (n # ns) visited =
     (case visit es n [] visited of
        Inl cycle \<Rightarrow> Some cycle
      | Inr d \<Rightarrow> search_from es ns d)"

definition find_cycle :: "(string \<times> string) list \<Rightarrow> string list option" where
  "find_cycle es = search_from es (sources es) []"

definition validate_sets :: "migration_set list \<Rightarrow> error + unit" where
  "validate_sets sets =
     rbind (validate_each [] sets) (\<lambda>_.
     rbind (try_each (\<lambda>s. try_each (check_requirement sets s) (declared_requirements s)) sets) (\<lambda>_.
     case find_cycle (set_edges sets) of
       Some cycle \<Rightarrow> Inl (Validation ''the requirements between migration sets form a cycle'')
     | None \<Rightarrow> Inr ()))"

definition check_set_checksums ::
  "(string \<Rightarrow> string) \<Rightarrow> set_histories \<Rightarrow> migration_set list \<Rightarrow> error + unit" where
  "check_set_checksums sha hs sets =
     try_each (\<lambda>s. case hs (ms_name s) of
         None \<Rightarrow> Inr ()
       | Some history \<Rightarrow>
           map_err (\<lambda>e. Integrity (''set '' @ ms_name s @ '': '' @ message e))
             (check_checksums sha history (ms_migrations s))) sets"

section \<open>The plan\<close>

definition history_of :: "set_histories \<Rightarrow> string \<Rightarrow> u32 list" where
  "history_of hs n = (case hs n of None \<Rightarrow> [] | Some rows \<Rightarrow> map rd_version rows)"

definition pending_of :: "set_histories \<Rightarrow> migration_set \<Rightarrow> migration list" where
  "pending_of hs s =
     filter (\<lambda>m. mg_version m \<notin> set (history_of hs (ms_name s))) (ms_migrations s)"

type_synonym planner = "(string \<Rightarrow> u32 option) \<times> (string \<Rightarrow> migration list option)"

fun prepare :: "set_histories \<Rightarrow> migration_set list \<Rightarrow> planner \<Rightarrow> error + planner" where
  "prepare hs [] st = Inr st"
| "prepare hs (s # ss) (reached, pending) =
     (let l = max_version (history_of hs (ms_name s)) in
      if \<exists>m \<in> set (pending_of hs s). mg_version m < l
      then Inl (Conflict ''below the recorded version and was never applied'')
      else prepare hs ss (reached(ms_name s \<mapsto> l), pending(ms_name s \<mapsto> pending_of hs s)))"

definition met :: "(string \<Rightarrow> u32 option) \<Rightarrow> set_requirement \<Rightarrow> bool" where
  "met reached r = (case reached (rq_set r) of None \<Rightarrow> False | Some v \<Rightarrow> rq_min r \<le> v)"

definition ready ::
  "migration_set list \<Rightarrow> planner \<Rightarrow> string \<Rightarrow> bool" where
  "ready sets st name =
     (case (by_name sets name, snd st name) of
        (Some s, Some (m # q)) \<Rightarrow> list_all (met (fst st)) (requirements_of s m)
      | _ \<Rightarrow> False)"

definition plan_order :: "migration_set list \<Rightarrow> string list" where
  "plan_order sets = sort_key set_rank (sort (remdups (map ms_name sets)))"

definition queued :: "string list \<Rightarrow> (string \<Rightarrow> migration list option) \<Rightarrow> nat" where
  "queued order pending = sum_list (map (\<lambda>n. case pending n of None \<Rightarrow> 0 | Some q \<Rightarrow> length q) order)"

lemma queued_pop:
  assumes "n \<in> set order" and "pending n = Some (m # q)"
  shows "queued order (pending(n \<mapsto> q)) < queued order pending"
proof -
  have le: "queued xs (pending(n \<mapsto> q)) \<le> queued xs pending" for xs
    unfolding queued_def using assms(2) by (intro sum_list_mono) auto
  have "n \<in> set xs \<Longrightarrow> queued xs (pending(n \<mapsto> q)) < queued xs pending" for xs
  proof (induction xs)
    case (Cons x xs)
    show ?case
    proof (cases "x = n")
      case True
      then show ?thesis using le [of xs] assms(2) by (simp add: queued_def)
    next
      case False
      then show ?thesis using Cons by (simp add: queued_def)
    qed
  qed simp
  then show ?thesis using assms(1) .
qed

function plan_loop ::
  "migration_set list \<Rightarrow> string list \<Rightarrow> planner \<Rightarrow> (string \<times> migration) list \<times> planner" where
  "plan_loop sets order st =
     (case find (ready sets st) order of
        None \<Rightarrow> ([], st)
      | Some name \<Rightarrow>
          (case snd st name of
             Some (m # q) \<Rightarrow>
               (case plan_loop sets order ((fst st)(name \<mapsto> mg_version m), (snd st)(name \<mapsto> q)) of
                  (planned, st') \<Rightarrow> ((name, m) # planned, st'))
           | _ \<Rightarrow> ([], st)))"
  by pat_completeness auto
termination
  by (relation "measure (\<lambda>(sets, order, st). queued order (snd st))")
    (auto simp: find_Some_iff intro!: queued_pop)

declare plan_loop.simps [simp del]

definition plan :: "migration_set list \<Rightarrow> set_histories \<Rightarrow> error + (string \<times> migration) list" where
  "plan sets hs =
     rbind (validate_sets sets) (\<lambda>_.
     rbind (prepare hs sets (Map.empty, Map.empty)) (\<lambda>st.
     case plan_loop sets (plan_order sets) st of
       (planned, rest) \<Rightarrow>
         if list_all (\<lambda>n. snd rest n = None \<or> snd rest n = Some []) (map ms_name sets) then Inr planned
         else Inl (Validation ''no order of the pending migrations satisfies their requirements'')))"

end
