(* ===== verification/Migration_Plan.thy ===== *)
theory Migration_Plan
  imports Store_Migrations
begin

text \<open>
  The search for a cycle among the requirements of the sets: it ends, it answers \<open>None\<close> exactly when
  the requirements are acyclic, and a path it answers is a cycle of them.
\<close>

definition settled :: "(string \<times> string) set \<Rightarrow> string set \<Rightarrow> bool" where
  "settled E D \<longleftrightarrow> E `` D \<subseteq> D \<and> (\<forall>x \<in> D. (x, x) \<notin> E\<^sup>+)"

definition edge_walk :: "(string \<times> string) set \<Rightarrow> string list \<Rightarrow> bool" where
  "edge_walk E p \<longleftrightarrow> successively (\<lambda>a b. (a, b) \<in> E) p"

definition closes :: "(string \<times> string) set \<Rightarrow> string list \<Rightarrow> bool" where
  "closes E c \<longleftrightarrow> edge_walk E c \<and> 2 \<le> length c \<and> hd c = last c"

lemma settled_empty [simp]: "settled E {}"
  by (simp add: settled_def)

lemma settled_trancl: "settled E D \<Longrightarrow> x \<in> D \<Longrightarrow> (x, y) \<in> E\<^sup>+ \<Longrightarrow> y \<in> D"
  unfolding settled_def by (erule trancl_induct) auto

lemma settled_insert:
  assumes "settled E D" and "E `` {n} \<subseteq> D"
  shows "settled E (insert n D)"
proof -
  have "(n, n) \<notin> E\<^sup>+"
  proof
    assume loop: "(n, n) \<in> E\<^sup>+"
    then obtain y where y: "(n, y) \<in> E" and "(y, n) \<in> E\<^sup>*"
      by (meson tranclD)
    then have "(y, y) \<in> E\<^sup>+"
      using loop by (meson rtrancl_into_trancl1)
    with y assms show False
      by (auto simp: settled_def)
  qed
  with assms show ?thesis
    by (auto simp: settled_def)
qed

lemma edge_walk_suffix: "edge_walk E (p @ q) \<Longrightarrow> edge_walk E q"
  by (simp add: edge_walk_def successively_append_iff)

lemma edge_walk_snoc: "p \<noteq> [] \<Longrightarrow> edge_walk E p \<Longrightarrow> (last p, n) \<in> E \<Longrightarrow> edge_walk E (p @ [n])"
  by (simp add: edge_walk_def successively_append_iff)

lemma edge_walk_trancl: "edge_walk E (x # p) \<Longrightarrow> p \<noteq> [] \<Longrightarrow> (x, last p) \<in> E\<^sup>+"
proof (induction p arbitrary: x)
  case (Cons y p)
  then show ?case
    by (cases "p = []") (auto simp: edge_walk_def intro: trancl_into_trancl2)
qed simp

lemma closes_cycle: "closes E c \<Longrightarrow> (hd c, hd c) \<in> E\<^sup>+"
  using edge_walk_trancl [of E "hd c" "tl c"]
  by (cases c) (auto simp: closes_def Suc_le_eq split: if_splits)

lemma closing_suffix:
  assumes "n \<in> set p" and "edge_walk E (p @ [n])"
  shows "closes E (dropWhile (\<lambda>m. m \<noteq> n) p @ [n])"
proof -
  obtain q where q: "dropWhile (\<lambda>m. m \<noteq> n) p = n # q"
    using assms(1) by (metis (mono_tags, lifting) dropWhile_eq_Nil_conv hd_dropWhile list.collapse)
  have "edge_walk E (dropWhile (\<lambda>m. m \<noteq> n) p @ [n])"
    using assms(2) edge_walk_suffix [of E "takeWhile (\<lambda>m. m \<noteq> n) p"] by (metis append.assoc takeWhile_dropWhile_id)
  with q show ?thesis by (simp add: closes_def)
qed

lemma visit_settles:
  "visit es n path v = Inr d \<Longrightarrow> settled (set es) (set v) \<Longrightarrow>
     settled (set es) (set d) \<and> insert n (set v) \<subseteq> set d"
  "visit_each es ns path v = Inr d \<Longrightarrow> settled (set es) (set v) \<Longrightarrow>
     settled (set es) (set d) \<and> set ns \<union> set v \<subseteq> set d"
proof (induction es n path v and es ns path v arbitrary: d and d rule: visit_visit_each.induct)
  case (1 es node path visited)
  show ?case
  proof (cases "node \<in> set visited")
    case True
    with 1 show ?thesis by (auto simp: visit.simps [of es node] split: if_splits)
  next
    case False
    with 1(2) obtain w where w: "node \<notin> set path" "d = node # w"
      "visit_each es (targets es node) (path @ [node]) visited = Inr w"
      by (auto simp: visit.simps [of es node] split: if_splits sum.splits)
    with 1(1) False 1(3) have "settled (set es) (set w)" "set (targets es node) \<union> set visited \<subseteq> set w"
      by metis+
    with w settled_insert [of "set es" "set w" node] show ?thesis by auto
  qed
next
  case (3 es n ns path visited)
  then obtain w where w: "visit es n path visited = Inr w" "visit_each es ns path w = Inr d"
    by (auto split: sum.splits)
  have one: "settled (set es) (set w)" "insert n (set visited) \<subseteq> set w"
    using 3(1) [OF w(1) 3(4)] by simp_all
  have "settled (set es) (set d)" "set ns \<union> set w \<subseteq> set d"
    using 3(2) [OF w(1) w(2) one(1)] by simp_all
  with one show ?case by auto
qed simp

lemma visit_closes:
  "visit es n path v = Inl c \<Longrightarrow> edge_walk (set es) (path @ [n]) \<Longrightarrow> closes (set es) c"
  "visit_each es ns path v = Inl c \<Longrightarrow> path \<noteq> [] \<Longrightarrow> edge_walk (set es) path \<Longrightarrow>
     \<forall>n \<in> set ns. (last path, n) \<in> set es \<Longrightarrow> closes (set es) c"
proof (induction es n path v and es ns path v arbitrary: c and c rule: visit_visit_each.induct)
  case (1 es node path visited)
  then show ?case
    by (auto simp: visit.simps [of es node] closing_suffix split: if_splits sum.splits)
next
  case (3 es n ns path visited)
  then show ?case by (auto simp: edge_walk_snoc split: sum.splits)
qed simp

lemma search_settles:
  "search_from es ns v = None \<Longrightarrow> settled (set es) (set v) \<Longrightarrow>
     \<exists>D. settled (set es) D \<and> set ns \<union> set v \<subseteq> D"
proof (induction ns arbitrary: v)
  case Nil
  then show ?case by auto
next
  case (Cons n ns)
  then obtain d where d: "visit es n [] v = Inr d" "search_from es ns d = None"
    by (auto split: sum.splits)
  then have "settled (set es) (set d)" "insert n (set v) \<subseteq> set d"
    using visit_settles(1) [OF d(1)] Cons.prems(2) by auto
  with Cons.IH [OF d(2)] show ?case by auto
qed

lemma search_closes: "search_from es ns v = Some c \<Longrightarrow> closes (set es) c"
  by (induction ns arbitrary: v)
    (auto simp: edge_walk_def dest: visit_closes(1) split: sum.splits)

theorem cycle_found_is_a_cycle: "find_cycle es = Some c \<Longrightarrow> closes (set es) c"
  by (auto simp: find_cycle_def dest: search_closes)

theorem no_cycle_found_iff: "find_cycle es = None \<longleftrightarrow> acyclic (set es)"
proof
  assume "find_cycle es = None"
  then obtain D where D: "settled (set es) D" "fst ` set es \<subseteq> D"
    using search_settles [of es "sources es" "[]"] by (auto simp: find_cycle_def)
  show "acyclic (set es)"
    unfolding acyclic_def
  proof (intro allI notI)
    fix x assume x: "(x, x) \<in> (set es)\<^sup>+"
    then have "x \<in> D"
      using D(2) by (metis Domain.DomainI Domain_fst subsetD trancl_domain)
    with D(1) x show False by (simp add: settled_def)
  qed
next
  assume "acyclic (set es)"
  then show "find_cycle es = None"
    using cycle_found_is_a_cycle [of es] closes_cycle
    by (cases "find_cycle es") (auto simp: acyclic_def)
qed

text \<open>
  What the plan promises: it exists whenever the sets are valid and no history has a gap (the loop is
  never stuck), it runs every pending migration of every set in that set's order with its
  requirements met before it, and planning again after a prefix of it was recorded gives the rest.
\<close>

section \<open>Valid sets\<close>

definition valid_sets :: "migration_set list \<Rightarrow> bool" where
  "valid_sets sets \<longleftrightarrow>
     distinct (map ms_name sets) \<and>
     (\<forall>s \<in> set sets. sorted_wrt (<) (map mg_version (ms_migrations s)) \<and>
        (\<forall>m \<in> set (ms_migrations s). 0 < mg_version m)) \<and>
     (\<forall>s \<in> set sets. \<forall>r \<in> set (declared_requirements s).
        \<exists>t \<in> set sets. ms_name t = rq_set r \<and> ms_name t \<noteq> ms_name s \<and> rq_min r \<le> last_version t) \<and>
     acyclic (set (set_edges sets))"

lemma validate_from_iff:
  "validate_from l ms = Inr u \<longleftrightarrow>
     sorted_wrt (<) (map mg_version ms) \<and> (\<forall>m \<in> set ms. l < mg_version m \<and> 0 < mg_version m)"
proof (induction l ms rule: validate_from.induct)
  case (2 l m ms)
  then show ?case
    by (auto simp: BASELINE_VERSION_def word_neq_0_conv not_le)
qed simp

lemma validate_list_iff:
  "validate_list ms = Inr u \<longleftrightarrow>
     sorted_wrt (<) (map mg_version ms) \<and> (\<forall>m \<in> set ms. 0 < mg_version m)"
  by (auto simp: validate_list_def validate_from_iff BASELINE_VERSION_def)

lemma validate_each_iff:
  "validate_each seen ss = Inr u \<longleftrightarrow>
     distinct (map ms_name ss) \<and> set (map ms_name ss) \<inter> set seen = {} \<and>
     (\<forall>s \<in> set ss. validate_list (ms_migrations s) = Inr ())"
  by (induction ss arbitrary: seen) (auto simp: map_err_def split: sum.splits)

lemma by_name_distinct:
  "distinct (map ms_name sets) \<Longrightarrow> by_name sets n = Some s \<longleftrightarrow> s \<in> set sets \<and> ms_name s = n"
  unfolding by_name_def
  by (subst map_of_eq_Some_iff) (auto simp: rev_map [symmetric] comp_def distinct_map)

lemma by_name_None: "by_name sets n = None \<longleftrightarrow> n \<notin> ms_name ` set sets"
  by (auto simp: by_name_def map_of_eq_None_iff image_image)

lemma check_requirement_iff:
  assumes d: "distinct (map ms_name sets)"
  shows "check_requirement sets s r = Inr u \<longleftrightarrow>
     (\<exists>t \<in> set sets. ms_name t = rq_set r \<and> ms_name t \<noteq> ms_name s \<and> rq_min r \<le> last_version t)"
proof (cases "by_name sets (rq_set r)")
  case None
  then have "\<forall>t \<in> set sets. ms_name t \<noteq> rq_set r" by (metis by_name_None imageI)
  with None show ?thesis by (auto simp: check_requirement_def)
next
  case (Some t)
  then have t: "t \<in> set sets" "ms_name t = rq_set r"
    using by_name_distinct [OF d] by auto
  have uniq: "t' = t" if "t' \<in> set sets" "ms_name t' = rq_set r" for t'
    using that t d by (auto simp: distinct_map inj_on_def)
  have "(\<exists>t \<in> set sets. ms_name t = rq_set r \<and> ms_name t \<noteq> ms_name s \<and> rq_min r \<le> last_version t)
      \<longleftrightarrow> rq_set r \<noteq> ms_name s \<and> rq_min r \<le> last_version t"
    using t uniq by metis
  with Some show ?thesis
    by (simp add: check_requirement_def linorder_not_le [symmetric])
qed

lemma validate_sets_iff: "validate_sets sets = Inr u \<longleftrightarrow> valid_sets sets"
proof -
  have "validate_sets sets = Inr u \<longleftrightarrow> validate_each [] sets = Inr () \<and>
      (\<forall>s \<in> set sets. \<forall>r \<in> set (declared_requirements s). check_requirement sets s r = Inr ()) \<and>
      find_cycle (set_edges sets) = None"
    by (auto simp: validate_sets_def try_each_Inr_iff split: option.splits)
  then show ?thesis
    by (auto simp: valid_sets_def validate_each_iff validate_list_iff check_requirement_iff
        no_cycle_found_iff [symmetric])
qed

section \<open>Preparing the planner\<close>

definition gap_free :: "set_histories \<Rightarrow> migration_set \<Rightarrow> bool" where
  "gap_free hs s \<longleftrightarrow>
     (\<forall>m \<in> set (pending_of hs s). max_version (history_of hs (ms_name s)) \<le> mg_version m)"

text \<open>What is reached and what is pending of every set, when the loop of the plan starts.\<close>

definition planner_of :: "migration_set list \<Rightarrow> set_histories \<Rightarrow> planner" where
  "planner_of sets hs =
     (\<lambda>n. map_option (\<lambda>s. max_version (history_of hs n)) (by_name sets n),
      \<lambda>n. map_option (pending_of hs) (by_name sets n))"

lemma by_name_Cons:
  "by_name (s # ss) n = (case by_name ss n of None \<Rightarrow> if n = ms_name s then Some s else None | Some t \<Rightarrow> Some t)"
  by (simp add: by_name_def map_add_def split: option.split)

lemma by_name_name: "by_name sets n = Some s \<Longrightarrow> ms_name s = n"
  by (induction sets) (auto simp: by_name_Cons by_name_def [of "[]"] split: option.splits if_splits)

lemma prepare_iff:
  "prepare hs ss (reached, pending) = Inr st \<longleftrightarrow>
     (\<forall>s \<in> set ss. gap_free hs s) \<and>
     st = (reached ++ fst (planner_of ss hs), pending ++ snd (planner_of ss hs))"
proof (induction ss arbitrary: reached pending)
  case Nil
  then show ?case by (auto simp: planner_of_def by_name_def)
next
  case (Cons s ss)
  let ?l = "max_version (history_of hs (ms_name s))"
  have r: "(reached(ms_name s \<mapsto> ?l)) ++ fst (planner_of ss hs) = reached ++ fst (planner_of (s # ss) hs)"
    by (auto simp: planner_of_def by_name_Cons map_add_def fun_eq_iff split: option.split)
  have p: "(pending(ms_name s \<mapsto> pending_of hs s)) ++ snd (planner_of ss hs)
      = pending ++ snd (planner_of (s # ss) hs)"
    by (auto simp: planner_of_def by_name_Cons map_add_def fun_eq_iff split: option.split)
  have g: "(\<exists>m \<in> set (pending_of hs s). mg_version m < ?l) \<longleftrightarrow> \<not> gap_free hs s"
    unfolding gap_free_def by (meson linorder_not_le)
  show ?case
  proof (cases "gap_free hs s")
    case True
    then have "prepare hs (s # ss) (reached, pending) =
        prepare hs ss (reached(ms_name s \<mapsto> ?l), pending(ms_name s \<mapsto> pending_of hs s))"
      unfolding prepare.simps Let_def g by simp
    moreover have "prepare hs ss (reached(ms_name s \<mapsto> ?l), pending(ms_name s \<mapsto> pending_of hs s)) = Inr st
        \<longleftrightarrow> (\<forall>s \<in> set ss. gap_free hs s) \<and>
          st = (reached ++ fst (planner_of (s # ss) hs), pending ++ snd (planner_of (s # ss) hs))"
      unfolding r [symmetric] p [symmetric] by (rule Cons.IH)
    ultimately show ?thesis
      using True by (simp del: prepare.simps)
  next
    case False
    then show ?thesis unfolding prepare.simps Let_def g by simp
  qed
qed

lemma prepare_empty_iff:
  "prepare hs sets (Map.empty, Map.empty) = Inr st \<longleftrightarrow>
     (\<forall>s \<in> set sets. gap_free hs s) \<and> st = planner_of sets hs"
  by (simp add: prepare_iff)

lemma max_version_Cons: "max_version (v # vs) = max v (max_version vs)"
  by (auto simp: max_version_def BASELINE_VERSION_def)

lemma max_version_append: "max_version (vs @ ws) = max (max_version vs) (max_version ws)"
  by (induction vs) (auto simp: max_version_Cons max.assoc, simp add: max_version_def BASELINE_VERSION_def)

lemma max_version_ge: "v \<in> set vs \<Longrightarrow> v \<le> max_version vs"
  by (auto simp: max_version_def)

lemma max_version_in: "max_version vs \<noteq> 0 \<Longrightarrow> max_version vs \<in> set vs"
  by (auto simp: max_version_def BASELINE_VERSION_def)

lemma max_version_le: "(\<And>v. v \<in> set vs \<Longrightarrow> v \<le> b) \<Longrightarrow> max_version vs \<le> b"
  by (auto simp: max_version_def BASELINE_VERSION_def)

section \<open>One turn of the loop\<close>

text \<open>What every turn keeps: the queue of a set ascends above what is reached, and what is left
  together with what is reached covers the set.\<close>

definition planner_ok :: "migration_set list \<Rightarrow> planner \<Rightarrow> bool" where
  "planner_ok sets st \<longleftrightarrow>
     (\<forall>n. by_name sets n = None \<longrightarrow> fst st n = None \<and> snd st n = None) \<and>
     (\<forall>n s. by_name sets n = Some s \<longrightarrow>
        (\<exists>v q. fst st n = Some v \<and> snd st n = Some q \<and> set q \<subseteq> set (ms_migrations s) \<and>
           sorted_wrt (<) (map mg_version q) \<and> (\<forall>m \<in> set q. v < mg_version m) \<and>
           last_version s \<le> max_version (v # map mg_version q)))"

definition turn :: "planner \<Rightarrow> string \<Rightarrow> migration \<Rightarrow> migration list \<Rightarrow> planner" where
  "turn st n m q = ((fst st)(n \<mapsto> mg_version m), (snd st)(n \<mapsto> q))"

lemma turn_ok:
  assumes "planner_ok sets st" and "snd st n = Some (m # q)"
  shows "planner_ok sets (turn st n m q)"
proof -
  obtain s v where s: "by_name sets n = Some s" and v: "fst st n = Some v"
    "set (m # q) \<subseteq> set (ms_migrations s)" "sorted_wrt (<) (map mg_version (m # q))"
    "\<forall>x \<in> set (m # q). v < mg_version x" "last_version s \<le> max_version (v # map mg_version (m # q))"
    using assms unfolding planner_ok_def by (cases "by_name sets n") fastforce+
  have "last_version s \<le> max_version (mg_version m # map mg_version q)"
    using v(4,5) by (auto simp: max_version_Cons max_def split: if_splits)
  with assms(1) s v show ?thesis
    unfolding planner_ok_def turn_def by auto
qed

lemma planner_of_ok:
  assumes "valid_sets sets" and "\<forall>s \<in> set sets. gap_free hs s"
  shows "planner_ok sets (planner_of sets hs)"
  unfolding planner_ok_def
proof (intro conjI allI impI)
  fix n s assume s: "by_name sets n = Some s"
  then have in_sets: "s \<in> set sets" "ms_name s = n"
    using by_name_distinct assms(1) unfolding valid_sets_def by blast+
  let ?v = "max_version (history_of hs n)" and ?q = "pending_of hs s"
  have "\<forall>m \<in> set ?q. ?v < mg_version m"
  proof
    fix m assume m: "m \<in> set ?q"
    then have "?v \<le> mg_version m" using assms(2) in_sets by (auto simp: gap_free_def)
    moreover have "0 < mg_version m" "mg_version m \<notin> set (history_of hs n)"
      using m in_sets assms(1) by (auto simp: pending_of_def valid_sets_def)
    ultimately show "?v < mg_version m"
      using max_version_in [of "history_of hs n"] by (metis order_le_less word_neq_0_conv)
  qed
  moreover have "sorted_wrt (<) (map mg_version ?q)"
    using in_sets assms(1) by (auto simp: pending_of_def valid_sets_def sorted_wrt_map sorted_wrt_filter)
  moreover have "last_version s \<le> max_version (?v # map mg_version ?q)"
    unfolding last_version_def
  proof (rule max_version_le)
    fix w assume "w \<in> set (map mg_version (ms_migrations s))"
    then have "w \<in> set (history_of hs n) \<or> w \<in> set (map mg_version ?q)"
      using in_sets by (auto simp: pending_of_def)
    then show "w \<le> max_version (?v # map mg_version ?q)"
      by (auto simp: max_version_Cons le_max_iff_disj intro: max_version_ge)
  qed
  ultimately show "\<exists>v q. fst (planner_of sets hs) n = Some v \<and> snd (planner_of sets hs) n = Some q \<and>
      set q \<subseteq> set (ms_migrations s) \<and> sorted_wrt (<) (map mg_version q) \<and>
      (\<forall>m \<in> set q. v < mg_version m) \<and> last_version s \<le> max_version (v # map mg_version q)"
    using s by (auto simp: planner_of_def pending_of_def)
qed (auto simp: planner_of_def)

section \<open>The loop is never stuck\<close>

lemma in_plan_order: "n \<in> set (plan_order sets) \<longleftrightarrow> (\<exists>s. by_name sets n = Some s)"
  using by_name_None [of sets n] by (auto simp: plan_order_def)

lemma requirements_of_declared: "set (requirements_of s m) \<subseteq> set (declared_requirements s)"
  by (auto simp: requirements_of_def declared_requirements_def)

lemma drained_meets:
  assumes "planner_ok sets st" and "by_name sets (rq_set r) = Some t" and "snd st (rq_set r) = Some []"
    and "rq_min r \<le> last_version t"
  shows "met (fst st) r"
proof -
  from assms(1,2) obtain v q where v: "fst st (rq_set r) = Some v" "snd st (rq_set r) = Some q"
    "last_version t \<le> max_version (v # map mg_version q)"
    unfolding planner_ok_def by blast
  with assms(3,4) show ?thesis
    by (auto simp: met_def max_version_def)
qed

lemma some_set_is_ready:
  assumes v: "valid_sets sets" and ok: "planner_ok sets st"
    and n: "snd st n = Some q" "q \<noteq> []"
  shows "\<exists>n \<in> set (plan_order sets). ready sets st n"
proof -
  let ?Q = "{n. \<exists>q. snd st n = Some q \<and> q \<noteq> []}"
  have "wf ((set (set_edges sets))\<inverse>)"
    using v by (intro finite_acyclic_wf_converse) (auto simp: valid_sets_def)
  moreover have "n \<in> ?Q" using n by blast
  ultimately obtain k where k: "k \<in> ?Q" and least: "\<And>y. (k, y) \<in> set (set_edges sets) \<Longrightarrow> y \<notin> ?Q"
    by (metis (no_types, lifting) converseI wfE_min)
  from k obtain m p where p: "snd st k = Some (m # p)"
    by (auto simp: neq_Nil_conv)
  with ok obtain s where s: "by_name sets k = Some s"
    unfolding planner_ok_def by (cases "by_name sets k") auto
  have named: "s \<in> set sets" "ms_name s = k"
    using s v by_name_distinct unfolding valid_sets_def by blast+
  have "met (fst st) r" if r: "r \<in> set (requirements_of s m)" for r
  proof -
    have decl: "r \<in> set (declared_requirements s)"
      using r requirements_of_declared by blast
    then obtain t where t: "t \<in> set sets" "ms_name t = rq_set r" "rq_min r \<le> last_version t"
      using v named unfolding valid_sets_def by blast
    then have bt: "by_name sets (rq_set r) = Some t"
      using v by_name_distinct unfolding valid_sets_def by blast
    moreover have "(k, rq_set r) \<in> set (set_edges sets)"
      using decl named by (force simp: set_edges_def)
    then have "rq_set r \<notin> ?Q" by (rule least)
    with ok bt have "snd st (rq_set r) = Some []"
      unfolding planner_ok_def by fastforce
    ultimately show ?thesis using ok t(3) drained_meets by blast
  qed
  then have "ready sets st k"
    using s p by (simp add: ready_def list_all_iff)
  moreover have "k \<in> set (plan_order sets)"
    using s by (simp add: in_plan_order)
  ultimately show ?thesis ..
qed

lemma ready_pending: "ready sets st n \<Longrightarrow> \<exists>m q. snd st n = Some (m # q)"
  by (auto simp: ready_def split: option.splits list.splits)

text \<open>The loop as its turns: none ready, or the first ready set of the order.\<close>

lemma plan_loop_cases:
  obtains (stop) "find (ready sets st) order = None" "plan_loop sets order st = ([], st)"
  | (turns) n m q ps st' where "find (ready sets st) order = Some n" "snd st n = Some (m # q)"
      "plan_loop sets order (turn st n m q) = (ps, st')" "plan_loop sets order st = ((n, m) # ps, st')"
proof (cases "find (ready sets st) order")
  case None
  then show ?thesis using stop by (simp add: plan_loop.simps [of sets order st])
next
  case (Some n)
  then have "ready sets st n"
    by (auto simp: find_Some_iff)
  then obtain m q where mq: "snd st n = Some (m # q)"
    by (auto dest: ready_pending)
  obtain ps st' where rest: "plan_loop sets order (turn st n m q) = (ps, st')"
    by (cases "plan_loop sets order (turn st n m q)")
  with Some mq have "plan_loop sets order st = ((n, m) # ps, st')"
    by (simp add: plan_loop.simps [of sets order st] turn_def)
  with Some mq rest show ?thesis using turns by blast
qed

lemma plan_loop_drains:
  "valid_sets sets \<Longrightarrow> planner_ok sets st \<Longrightarrow> plan_loop sets (plan_order sets) st = (ps, st') \<Longrightarrow>
     snd st' n = None \<or> snd st' n = Some []"
proof (induction sets "plan_order sets" st arbitrary: ps rule: plan_loop.induct)
  case (1 sets st)
  show ?case
  proof (cases rule: plan_loop_cases [of sets st "plan_order sets"])
    case stop
    then have "st' = st" "\<forall>n \<in> set (plan_order sets). \<not> ready sets st n"
      using 1(4) by (auto simp: find_None_iff)
    with some_set_is_ready [OF 1(2,3)] show ?thesis
      by (cases "snd st n") auto
  next
    case (turns k m q ps' st'')
    with 1(4) have "st'' = st'" by simp
    moreover have "planner_ok sets (turn st k m q)"
      using turn_ok [OF 1(3) turns(2)] .
    ultimately show ?thesis
      using 1(1) [OF turns(1) turns(2), of m q, OF refl 1(2)] turns(3) by (simp add: turn_def)
  qed
qed

text \<open>A plan exists exactly for valid sets over histories without a gap.\<close>

lemma plan_Inr_iff:
  "plan sets hs = Inr ps \<longleftrightarrow>
     valid_sets sets \<and> (\<forall>s \<in> set sets. gap_free hs s) \<and>
     ps = fst (plan_loop sets (plan_order sets) (planner_of sets hs))"
proof (cases "valid_sets sets \<and> (\<forall>s \<in> set sets. gap_free hs s)")
  case True
  then have "validate_sets sets = Inr ()"
    "prepare hs sets (Map.empty, Map.empty) = Inr (planner_of sets hs)"
    by (simp_all add: validate_sets_iff prepare_empty_iff)
  moreover obtain qs rest where l: "plan_loop sets (plan_order sets) (planner_of sets hs) = (qs, rest)"
    by (cases "plan_loop sets (plan_order sets) (planner_of sets hs)")
  moreover have "list_all (\<lambda>n. snd rest n = None \<or> snd rest n = Some []) (map ms_name sets)"
    using True planner_of_ok plan_loop_drains [OF _ _ l] by (auto simp: list_all_iff)
  ultimately show ?thesis
    using True by (auto simp: plan_def)
next
  case False
  then show ?thesis by (auto simp: plan_def validate_sets_iff prepare_empty_iff)
qed

section \<open>The plan is lawful, whole and resumable\<close>

fun lawful :: "migration_set list \<Rightarrow> (string \<Rightarrow> u32 option) \<Rightarrow> (string \<times> migration) list \<Rightarrow> bool" where
  "lawful sets reached [] \<longleftrightarrow> True"
| "lawful sets reached ((n, m) # ps) \<longleftrightarrow>
     (\<exists>s. by_name sets n = Some s \<and> (\<forall>r \<in> set (requirements_of s m). met reached r)) \<and>
     lawful sets (reached(n \<mapsto> mg_version m)) ps"

definition steps_of :: "string \<Rightarrow> (string \<times> migration) list \<Rightarrow> migration list" where
  "steps_of n ps = map snd (filter (\<lambda>p. fst p = n) ps)"

lemma steps_of_simps [simp]:
  "steps_of n [] = []" "steps_of n (p # ps) = (if fst p = n then snd p # steps_of n ps else steps_of n ps)"
  by (simp_all add: steps_of_def)

lemma plan_loop_lawful:
  "plan_loop sets order st = (ps, st') \<Longrightarrow> lawful sets (fst st) ps"
proof (induction sets order st arbitrary: ps rule: plan_loop.induct)
  case (1 sets order st)
  show ?case
  proof (cases rule: plan_loop_cases [of sets st order])
    case stop
    with 1(2) show ?thesis by simp
  next
    case (turns n m q ps' st'')
    then have "ready sets st n" by (auto simp: find_Some_iff)
    with turns(2) have "\<exists>s. by_name sets n = Some s \<and> (\<forall>r \<in> set (requirements_of s m). met (fst st) r)"
      by (auto simp: ready_def list_all_iff split: option.splits)
    moreover have "plan_loop sets order (turn st n m q) = (ps', st')"
      using turns 1(2) by simp
    then have "lawful sets (fst (turn st n m q)) ps'"
      unfolding turn_def by (rule 1(1) [OF turns(1) turns(2) refl])
    then have "lawful sets ((fst st)(n \<mapsto> mg_version m)) ps'"
      unfolding turn_def fst_conv .
    ultimately have "lawful sets (fst st) ((n, m) # ps')"
      unfolding lawful.simps by blast
    with turns 1(2) show ?thesis by simp
  qed
qed

lemma plan_loop_steps:
  "plan_loop sets order st = (ps, st') \<Longrightarrow> snd st n = Some q \<Longrightarrow>
     \<exists>r. snd st' n = Some r \<and> q = steps_of n ps @ r"
proof (induction sets order st arbitrary: ps q rule: plan_loop.induct)
  case (1 sets order st)
  show ?case
  proof (cases rule: plan_loop_cases [of sets st order])
    case stop
    with 1 show ?thesis by simp
  next
    case (turns k m p ps' st'')
    then have eqs: "ps = (k, m) # ps'" "st'' = st'" using 1(2) by simp_all
    have "\<exists>r. snd st' n = Some r \<and> (if n = k then p else q) = steps_of n ps' @ r"
      using 1(1) [OF turns(1) turns(2), of m p, OF refl] turns eqs 1(3)
      by (auto simp: turn_def split: if_splits)
    with turns(2) eqs 1(3) show ?thesis by (auto split: if_splits)
  qed
qed

lemma plan_lawful: "plan sets hs = Inr ps \<Longrightarrow> lawful sets (fst (planner_of sets hs)) ps"
  by (auto simp: plan_Inr_iff intro: plan_loop_lawful [OF prod.collapse [symmetric]])

lemma plan_whole:
  assumes "plan sets hs = Inr ps" and s: "s \<in> set sets"
  shows "steps_of (ms_name s) ps = pending_of hs s"
proof -
  from assms obtain st' where l: "plan_loop sets (plan_order sets) (planner_of sets hs) = (ps, st')"
    by (cases "plan_loop sets (plan_order sets) (planner_of sets hs)") (auto simp: plan_Inr_iff)
  have v: "valid_sets sets" "\<forall>s \<in> set sets. gap_free hs s"
    using assms(1) by (auto simp: plan_Inr_iff)
  then have b: "by_name sets (ms_name s) = Some s"
    using s by_name_distinct [of sets "ms_name s" s] by (auto simp: valid_sets_def)
  then have "snd (planner_of sets hs) (ms_name s) = Some (pending_of hs s)"
    by (simp add: planner_of_def)
  from plan_loop_steps [OF l this] obtain r where
    "snd st' (ms_name s) = Some r" "pending_of hs s = steps_of (ms_name s) ps @ r" by blast
  with plan_loop_drains [OF v(1) planner_of_ok [OF v] l, of "ms_name s"] show ?thesis by simp
qed

lemma plan_names: "plan sets hs = Inr ps \<Longrightarrow> (n, m) \<in> set ps \<Longrightarrow> \<exists>s. by_name sets n = Some s"
proof -
  have "lawful sets reached ps \<Longrightarrow> (n, m) \<in> set ps \<Longrightarrow> \<exists>s. by_name sets n = Some s" for reached
    by (induction ps arbitrary: reached) auto
  then show "plan sets hs = Inr ps \<Longrightarrow> (n, m) \<in> set ps \<Longrightarrow> \<exists>s. by_name sets n = Some s"
    using plan_lawful by blast
qed

definition recorded_as :: "(string \<Rightarrow> string) \<Rightarrow> migration \<Rightarrow> recorded_migration" where
  "recorded_as sha m =
     \<lparr>rd_version = mg_version m, rd_name = mg_name m, rd_checksum = Some (migration_checksum sha m),
      rd_additive = Some (mg_additive m)\<rparr>"

definition record_step :: "(string \<Rightarrow> string) \<Rightarrow> string \<times> migration \<Rightarrow> set_histories \<Rightarrow> set_histories" where
  "record_step sha p hs =
     hs(fst p \<mapsto> (case hs (fst p) of None \<Rightarrow> [] | Some rows \<Rightarrow> rows) @ [recorded_as sha (snd p)])"

lemma history_record_step:
  "history_of (record_step sha (n, m) hs) k =
     (if k = n then history_of hs n @ [mg_version m] else history_of hs k)"
  by (auto simp: record_step_def history_of_def recorded_as_def split: option.split)

lemma planner_of_record_step:
  assumes ok: "planner_ok sets (planner_of sets hs)" and q: "snd (planner_of sets hs) n = Some (m # q)"
  shows "planner_of sets (record_step sha (n, m) hs) = turn (planner_of sets hs) n m q"
proof -
  from q obtain s where s: "by_name sets n = Some s" "pending_of hs s = m # q"
    by (auto simp: planner_of_def)
  with ok have v: "max_version (history_of hs n) < mg_version m" "\<forall>x \<in> set q. mg_version m < mg_version x"
    by (fastforce simp: planner_ok_def planner_of_def)+
  have "pending_of (record_step sha (n, m) hs) s = filter (\<lambda>x. mg_version x \<noteq> mg_version m) (pending_of hs s)"
    using by_name_name [OF s(1)] by (auto simp: pending_of_def history_record_step intro: filter_cong)
  also have "\<dots> = q"
    using s(2) v(2) by (auto simp: filter_id_conv)
  finally have head: "pending_of (record_step sha (n, m) hs) s = q" .
  have other: "pending_of (record_step sha (n, m) hs) t = pending_of hs t" if "ms_name t \<noteq> n" for t
    using that by (simp add: pending_of_def history_record_step)
  have "fst (planner_of sets (record_step sha (n, m) hs)) k = fst (turn (planner_of sets hs) n m q) k" for k
    using s v(1) by (auto simp: planner_of_def turn_def history_record_step max_version_append
        max_version_Cons max_def max_version_def [of "[]"] BASELINE_VERSION_def)
  moreover have "snd (planner_of sets (record_step sha (n, m) hs)) k = snd (turn (planner_of sets hs) n m q) k" for k
    using s head other by (cases "by_name sets k") (auto simp: planner_of_def turn_def dest: by_name_name)
  ultimately show ?thesis by (simp add: prod_eq_iff fun_eq_iff)
qed

lemma plan_after_step:
  assumes "plan sets hs = Inr (p # ps)"
  shows "plan sets (record_step sha p hs) = Inr ps"
proof -
  obtain n m where p: "p = (n, m)" by (cases p)
  from assms have v: "valid_sets sets" "\<forall>s \<in> set sets. gap_free hs s"
    and l: "plan_loop sets (plan_order sets) (planner_of sets hs) = (p # ps, snd (plan_loop sets (plan_order sets) (planner_of sets hs)))"
    by (auto simp: plan_Inr_iff prod_eq_iff)
  have ok: "planner_ok sets (planner_of sets hs)"
    using v by (rule planner_of_ok)
  from l obtain q where q: "snd (planner_of sets hs) n = Some (m # q)"
    and rest: "ps = fst (plan_loop sets (plan_order sets) (turn (planner_of sets hs) n m q))"
    by (cases rule: plan_loop_cases [of sets "planner_of sets hs" "plan_order sets"]) (auto simp: p)
  have eq: "planner_of sets (record_step sha p hs) = turn (planner_of sets hs) n m q"
    unfolding p by (rule planner_of_record_step [OF ok q])
  have "gap_free (record_step sha p hs) s" if s: "s \<in> set sets" for s
  proof -
    have b: "by_name sets (ms_name s) = Some s"
      using s v by_name_distinct [of sets "ms_name s" s] by (auto simp: valid_sets_def)
    have "planner_ok sets (planner_of sets (record_step sha p hs))"
      unfolding eq by (rule turn_ok [OF ok q])
    with b show ?thesis
      by (fastforce simp: planner_ok_def planner_of_def gap_free_def)
  qed
  with v rest show ?thesis by (simp add: plan_Inr_iff eq)
qed

lemma plan_resumes:
  "plan sets hs = Inr (done_steps @ ps) \<Longrightarrow> plan sets (fold (record_step sha) done_steps hs) = Inr ps"
  by (induction done_steps arbitrary: hs) (auto dest: plan_after_step)

lemma lawful_requirement:
  "lawful sets reached (before @ (n, m) # after) \<Longrightarrow>
     \<exists>s. by_name sets n = Some s \<and>
       (\<forall>r \<in> set (requirements_of s m). \<exists>v. rq_min r \<le> v \<and>
          (reached (rq_set r) = Some v \<or> v \<in> mg_version ` set (steps_of (rq_set r) before)))"
proof (induction before arbitrary: reached)
  case Nil
  then show ?case by (fastforce simp: met_def split: option.splits)
next
  case (Cons p before)
  obtain k x where p: "p = (k, x)" by (cases p)
  from Cons.prems have "lawful sets (reached(k \<mapsto> mg_version x)) (before @ (n, m) # after)"
    by (simp add: p)
  from Cons.IH [OF this] show ?case
    by (auto simp: p split: if_splits)
qed

lemma plan_meets_requirements:
  assumes "plan sets hs = Inr (before @ (n, m) # after)"
  shows "\<exists>s. by_name sets n = Some s \<and>
     (\<forall>r \<in> set (requirements_of s m). rq_min r = 0 \<or>
        (\<exists>v \<in> set (history_of hs (rq_set r)) \<union> mg_version ` set (steps_of (rq_set r) before). rq_min r \<le> v))"
proof -
  from lawful_requirement [OF plan_lawful [OF assms]] obtain s where s: "by_name sets n = Some s"
    and met: "\<And>r. r \<in> set (requirements_of s m) \<Longrightarrow> \<exists>v. rq_min r \<le> v \<and>
      (fst (planner_of sets hs) (rq_set r) = Some v \<or> v \<in> mg_version ` set (steps_of (rq_set r) before))"
    by blast
  have "rq_min r = 0 \<or> (\<exists>v \<in> set (history_of hs (rq_set r)) \<union>
      mg_version ` set (steps_of (rq_set r) before). rq_min r \<le> v)"
    if r: "r \<in> set (requirements_of s m)" for r
  proof -
    from met [OF r] obtain v where v: "rq_min r \<le> v"
      "fst (planner_of sets hs) (rq_set r) = Some v \<or> v \<in> mg_version ` set (steps_of (rq_set r) before)"
      by blast
    then show ?thesis
      using max_version_in [of "history_of hs (rq_set r)"]
      by (cases "v = 0") (auto simp: planner_of_def)
  qed
  with s show ?thesis by blast
qed

end
