(* ===== verification/Store_Migrate.thy ===== *)
theory Store_Migrate
  imports Migration_Plan
begin

text \<open>
  The tables \<^verbatim>\<open>schema_version\<close> and \<^verbatim>\<open>schema_set_version\<close>, and the operations of
  \<^verbatim>\<open>migrate.rs\<close> and \<^verbatim>\<open>migration_set.rs\<close> that read and write them through the store's handle.
  \<open>sc_host\<close> is everything the statements of the migrations act on.
\<close>

record version_row =
  vr_version :: int
  vr_name :: string
  vr_checksum :: "string option"
  vr_additive :: "int option"

record set_version_row =
  sr_set :: string
  sr_version :: int
  sr_name :: string
  sr_checksum :: string
  sr_additive :: int

text \<open>\<open>sc_columns\<close> are the columns of \<^verbatim>\<open>schema_version\<close>; a table that was never created is \<open>None\<close>.\<close>

record 'b schema =
  sc_columns :: "string list"
  sc_versions :: "version_row list option"
  sc_sets :: "set_version_row list option"
  sc_host :: 'b

type_synonym 'b migrator = "'b schema handle"

definition BASE_COLUMNS :: "string list" where
  "BASE_COLUMNS = [''version'', ''name'', ''checksum'', ''additive'']"

definition ADDED_COLUMNS :: "string list" where
  "ADDED_COLUMNS = [''checksum'', ''additive'']"

section \<open>Statements\<close>

definition create_version_table :: "'b schema \<Rightarrow> error + 'b schema" where
  "create_version_table c =
     Inr (case sc_versions c of
            None \<Rightarrow> c\<lparr>sc_versions := Some [], sc_columns := BASE_COLUMNS\<rparr>
          | Some _ \<Rightarrow> c)"

definition create_set_table :: "'b schema \<Rightarrow> error + 'b schema" where
  "create_set_table c =
     Inr (case sc_sets c of None \<Rightarrow> c\<lparr>sc_sets := Some []\<rparr> | Some _ \<Rightarrow> c)"

definition baseline_row :: version_row where
  "baseline_row = \<lparr>vr_version = 0, vr_name = ''baseline'', vr_checksum = None, vr_additive = None\<rparr>"

definition insert_baseline :: "'b schema \<Rightarrow> error + 'b schema" where
  "insert_baseline c =
     (case sc_versions c of
        None \<Rightarrow> Inl (Validation ''no such table: schema_version'')
      | Some rows \<Rightarrow>
          if \<exists>r \<in> set rows. vr_version r = 0 then Inr c
          else Inr (c\<lparr>sc_versions := Some (rows @ [baseline_row])\<rparr>))"

definition has_columns :: "'b schema \<Rightarrow> bool" where
  "has_columns c = list_all (\<lambda>n. n \<in> set (sc_columns c)) ADDED_COLUMNS"

definition add_column :: "string \<Rightarrow> 'b schema \<Rightarrow> error + 'b schema" where
  "add_column n c =
     (if sc_versions c = None then Inl (Validation ''no such table: schema_version'')
      else if n \<in> set (sc_columns c) then Inl (Validation ''duplicate column name'')
      else Inr (c\<lparr>sc_columns := sc_columns c @ [n]\<rparr>))"

definition backfill :: "string \<Rightarrow> bool \<Rightarrow> u32 \<Rightarrow> 'b schema \<Rightarrow> error + 'b schema" where
  "backfill digest additive v c =
     (case sc_versions c of
        None \<Rightarrow> Inl (Validation ''no such table: schema_version'')
      | Some rows \<Rightarrow>
          if \<not> has_columns c then Inl (Validation ''no such column'')
          else Inr (c\<lparr>sc_versions := Some (update_rows (\<lambda>r. vr_version r = uint v)
                 (\<lambda>r. r\<lparr>vr_checksum := Some digest, vr_additive := Some (of_bool additive)\<rparr>) rows)\<rparr>))"

definition record_statement :: "(string \<Rightarrow> string) \<Rightarrow> migration \<Rightarrow> 'b schema \<Rightarrow> error + 'b schema" where
  "record_statement sha m c =
     (case sc_versions c of
        None \<Rightarrow> Inl (Validation ''no such table: schema_version'')
      | Some rows \<Rightarrow>
          if \<not> has_columns c then Inl (Validation ''no such column'')
          else if \<exists>r \<in> set rows. vr_version r = uint (mg_version m)
          then Inl (unique_failed ''schema_version.version'')
          else Inr (c\<lparr>sc_versions := Some (rows @
                 [\<lparr>vr_version = uint (mg_version m), vr_name = mg_name m,
                   vr_checksum = Some (migration_checksum sha m),
                   vr_additive = Some (of_bool (mg_additive m))\<rparr>])\<rparr>))"

definition record_set_statement ::
  "(string \<Rightarrow> string) \<Rightarrow> string \<Rightarrow> migration \<Rightarrow> 'b schema \<Rightarrow> error + 'b schema" where
  "record_set_statement sha s m c =
     (case sc_sets c of
        None \<Rightarrow> Inl (Validation ''no such table: schema_set_version'')
      | Some rows \<Rightarrow>
          if \<exists>r \<in> set rows. sr_set r = s \<and> sr_version r = uint (mg_version m)
          then Inl (unique_failed ''schema_set_version.set_name, schema_set_version.version'')
          else Inr (c\<lparr>sc_sets := Some (rows @
                 [\<lparr>sr_set = s, sr_version = uint (mg_version m), sr_name = mg_name m,
                   sr_checksum = migration_checksum sha m, sr_additive = of_bool (mg_additive m)\<rparr>])\<rparr>))"

definition host_statement :: "(string \<Rightarrow> 'b \<Rightarrow> error + 'b) \<Rightarrow> string \<Rightarrow> 'b schema \<Rightarrow> error + 'b schema" where
  "host_statement ddl sql c = rbind (ddl sql (sc_host c)) (\<lambda>x. Inr (c\<lparr>sc_host := x\<rparr>))"

section \<open>Reading\<close>

text \<open>A query that names a column its table does not have is refused by the store.\<close>

definition read_if :: "'a store_world \<Rightarrow> ('a sdb \<Rightarrow> bool) \<Rightarrow> ('a sdb \<Rightarrow> 'r list) \<Rightarrow> ('a handle, 'r list) op" where
  "read_if W ok q = (\<lambda>h.
     if ok (ho_db (pass W h)) then read_consistent W q h
     else (Inl (Validation ''no such column''), pass W h))"

definition recorded_row :: "version_row \<Rightarrow> error + recorded_migration" where
  "recorded_row r =
     (case i64_to_u32 (vr_version r) of
        None \<Rightarrow> Inl (Integrity ''schema_version holds a negative version'')
      | Some v \<Rightarrow>
          Inr \<lparr>rd_version = v, rd_name = vr_name r,
               rd_checksum = (case vr_checksum r of
                 None \<Rightarrow> None | Some t \<Rightarrow> if t \<noteq> [] then Some t else None),
               rd_additive = map_option (\<lambda>flag. flag \<noteq> 0) (vr_additive r)\<rparr>)"

definition version_tables :: "'b schema \<Rightarrow> unit list" where
  "version_tables c = (case sc_versions c of None \<Rightarrow> [] | Some _ \<Rightarrow> [()])"

definition set_tables :: "'b schema \<Rightarrow> unit list" where
  "set_tables c = (case sc_sets c of None \<Rightarrow> [] | Some _ \<Rightarrow> [()])"

definition version_rows :: "'b schema \<Rightarrow> version_row list" where
  "version_rows c = (case sc_versions c of None \<Rightarrow> [] | Some rows \<Rightarrow> sort_key vr_version rows)"

definition set_version_rows :: "'b schema \<Rightarrow> set_version_row list" where
  "set_version_rows c =
     (case sc_sets c of None \<Rightarrow> [] | Some rows \<Rightarrow> sort_key sr_set (sort_key sr_version rows))"

definition recorded_migrations :: "'b schema store_world \<Rightarrow> ('b migrator, recorded_migration list) op" where
  "recorded_migrations W =
     obind (read_consistent W (version_tables \<circ> app_tables)) (\<lambda>tables.
     if tables = [] then ret []
     else
       obind (read_if W (has_columns \<circ> app_tables) (version_rows \<circ> app_tables)) (\<lambda>rows.
       lift (try_map recorded_row rows)))"

fun collect_histories :: "set_version_row list \<Rightarrow> set_histories \<Rightarrow> error + set_histories" where
  "collect_histories [] hs = Inr hs"
| "collect_histories (r # rs) hs =
     rbind (map_err (\<lambda>e. Integrity (''schema_set_version holds a bad set name'')) (set_name_reference (sr_set r))) (\<lambda>n.
     rbind (or_error (Integrity ''schema_set_version holds a negative version'') (i64_to_u32 (sr_version r))) (\<lambda>v.
     collect_histories rs (hs(n \<mapsto> (case hs n of None \<Rightarrow> [] | Some rows \<Rightarrow> rows) @
       [\<lparr>rd_version = v, rd_name = sr_name r, rd_checksum = Some (sr_checksum r),
         rd_additive = Some (sr_additive r \<noteq> 0)\<rparr>]))))"

definition recorded_set_migrations :: "'b schema store_world \<Rightarrow> ('b migrator, set_histories) op" where
  "recorded_set_migrations W =
     obind (recorded_migrations W) (\<lambda>app.
     obind (read_consistent W (set_tables \<circ> app_tables)) (\<lambda>tables.
     if tables = [] then ret [APP_SET \<mapsto> app]
     else
       obind (read_consistent W (set_version_rows \<circ> app_tables)) (\<lambda>rows.
       lift (collect_histories rows [APP_SET \<mapsto> app]))))"

section \<open>The baseline and the repair\<close>

fun add_each_column :: "'b schema store_world \<Rightarrow> string list \<Rightarrow> string list \<Rightarrow> ('b migrator, unit) op" where
  "add_each_column W columns [] = ret ()"
| "add_each_column W columns (n # ns) =
     (if n \<in> set columns then add_each_column W columns ns
      else obind (submit W [app_sql (add_column n)]) (\<lambda>_. add_each_column W columns ns))"

definition add_migration_columns :: "'b schema store_world \<Rightarrow> ('b migrator, unit) op" where
  "add_migration_columns W =
     obind (read_consistent W (sc_columns \<circ> app_tables)) (\<lambda>columns.
     if columns = [] then fail (Integrity ''schema_version reports no columns'')
     else add_each_column W columns ADDED_COLUMNS)"

definition migration_baseline :: "'b schema store_world \<Rightarrow> ('b migrator, unit) op" where
  "migration_baseline W =
     obind (submit W [app_sql create_version_table, app_sql insert_baseline, app_sql create_set_table])
       (\<lambda>_. add_migration_columns W)"

definition missing_checksums :: "recorded_migration list \<Rightarrow> migration list \<Rightarrow> migration list" where
  "missing_checksums history ms =
     List.map_filter (\<lambda>row. find (\<lambda>m. mg_version m = rd_version row) ms)
       (filter (\<lambda>row. rd_checksum row = None) history)"

definition record_missing_checksums ::
  "'b schema store_world \<Rightarrow> (string \<Rightarrow> string) \<Rightarrow> recorded_migration list \<Rightarrow> migration list \<Rightarrow>
   ('b migrator, unit) op" where
  "record_missing_checksums W sha history ms =
     (if missing_checksums history ms = [] then ret ()
      else obind (submit W (map (\<lambda>m. app_sql (backfill (migration_checksum sha m) (mg_additive m) (mg_version m)))
                    (missing_checksums history ms))) (\<lambda>_. ret ()))"

section \<open>The runs\<close>

record migration_report =
  mr_previous :: u32
  mr_current :: u32
  mr_applied :: "u32 list"

definition rolled_back :: "('s, 'a) op \<Rightarrow> ('s, 'a) op" where
  "rolled_back m = on_result m (\<lambda>r. case r of
     Inl e \<Rightarrow> fail (Validation (''failed and was rolled back: '' @ message e)) | Inr x \<Rightarrow> ret x)"

fun migrate_each ::
  "'b schema store_world \<Rightarrow> (string \<Rightarrow> string) \<Rightarrow> (string \<Rightarrow> 'b \<Rightarrow> error + 'b) \<Rightarrow> u32 list \<Rightarrow> u32 \<Rightarrow>
   migration list \<Rightarrow> u32 list \<times> u32 \<Rightarrow> ('b migrator, u32 list \<times> u32) op" where
  "migrate_each W sha ddl recorded previous [] acc = ret acc"
| "migrate_each W sha ddl recorded previous (m # ms) (applied, current) =
     (if mg_version m \<in> set recorded then migrate_each W sha ddl recorded previous ms (applied, current)
      else if mg_version m < previous then fail (Conflict ''below the recorded schema version and was never applied'')
      else if statements m = [] then fail (Validation ''migration has no statements'')
      else obind (rolled_back (submit W (map (app_sql \<circ> host_statement ddl) (statements m)
                    @ [app_sql (record_statement sha m)])))
             (\<lambda>_. migrate_each W sha ddl recorded previous ms (applied @ [mg_version m], mg_version m)))"

definition migrate ::
  "'b schema store_world \<Rightarrow> (string \<Rightarrow> string) \<Rightarrow> (string \<Rightarrow> 'b \<Rightarrow> error + 'b) \<Rightarrow> migration list \<Rightarrow>
   ('b migrator, migration_report) op" where
  "migrate W sha ddl ms =
     obind (lift (validate_list ms)) (\<lambda>_.
     obind (migration_baseline W) (\<lambda>_.
     obind (recorded_migrations W) (\<lambda>history.
     obind (lift (check_checksums sha history ms)) (\<lambda>_.
     obind (record_missing_checksums W sha history ms) (\<lambda>_.
     let recorded = map rd_version history;
         previous = (if recorded = [] then BASELINE_VERSION else last recorded)
     in obind (migrate_each W sha ddl recorded previous ms ([], previous)) (\<lambda>(applied, current).
        ret \<lparr>mr_previous = previous, mr_current = current, mr_applied = applied\<rparr>))))))"

record set_report =
  se_applied :: "(string \<times> u32) list"
  se_current :: "string \<Rightarrow> u32 option"

definition step_statements ::
  "(string \<Rightarrow> string) \<Rightarrow> (string \<Rightarrow> 'b \<Rightarrow> error + 'b) \<Rightarrow> string \<times> migration \<Rightarrow> 'b schema sql list" where
  "step_statements sha ddl p =
     map (app_sql \<circ> host_statement ddl) (statements (snd p))
     @ [if is_app (fst p) then app_sql (record_statement sha (snd p))
        else app_sql (record_set_statement sha (fst p) (snd p))]"

fun apply_steps ::
  "'b schema store_world \<Rightarrow> (string \<Rightarrow> string) \<Rightarrow> (string \<Rightarrow> 'b \<Rightarrow> error + 'b) \<Rightarrow>
   (string \<times> migration) list \<Rightarrow> set_report \<Rightarrow> ('b migrator, set_report) op" where
  "apply_steps W sha ddl [] rep = ret rep"
| "apply_steps W sha ddl (p # ps) rep =
     (if statements (snd p) = [] then fail (Validation ''migration has no statements'')
      else obind (rolled_back (submit W (step_statements sha ddl p)))
             (\<lambda>_. apply_steps W sha ddl ps
                (rep\<lparr>se_applied := se_applied rep @ [(fst p, mg_version (snd p))],
                     se_current := (se_current rep)(fst p \<mapsto> mg_version (snd p))\<rparr>)))"

definition migrate_sets ::
  "'b schema store_world \<Rightarrow> (string \<Rightarrow> string) \<Rightarrow> (string \<Rightarrow> 'b \<Rightarrow> error + 'b) \<Rightarrow> migration list \<Rightarrow>
   migration_set list \<Rightarrow> ('b migrator, set_report) op" where
  "migrate_sets W sha ddl app sets =
     obind (lift (validate_sets (all_sets app sets))) (\<lambda>_.
     obind (migration_baseline W) (\<lambda>_.
     obind (recorded_set_migrations W) (\<lambda>hs.
     obind (lift (check_set_checksums sha hs (all_sets app sets))) (\<lambda>_.
     obind (case hs APP_SET of None \<Rightarrow> ret () | Some history \<Rightarrow> record_missing_checksums W sha history app) (\<lambda>_.
     obind (lift (plan (all_sets app sets) hs)) (\<lambda>steps.
     apply_steps W sha ddl steps
       \<lparr>se_applied = [], se_current = (\<lambda>n. map_option (max_version \<circ> map rd_version) (hs n))\<rparr>))))))"

end
