(* ===== verification/Migration_Resume.thy ===== *)
theory Migration_Resume
  imports Store_Migrate
begin

text \<open>
  What a run of the migrations does to the store, whatever the other processes of the cluster
  migrate meanwhile and whatever becomes of its own requests: the statements of a migration take
  effect exactly once, in the transaction that records its version.
\<close>

section \<open>Statements of the host\<close>

fun run_host :: "(string \<Rightarrow> 'b \<Rightarrow> error + 'b) \<Rightarrow> string list \<Rightarrow> 'b \<Rightarrow> error + 'b" where
  "run_host ddl [] x = Inr x"
| "run_host ddl (s # ss) x = rbind (ddl s x) (run_host ddl ss)"

lemma run_host_append: "run_host ddl (ss @ ts) x = rbind (run_host ddl ss x) (run_host ddl ts)"
proof (induction ss arbitrary: x)
  case (Cons s ss)
  then show ?case by (cases "ddl s x") simp_all
qed simp

definition log_sql :: "(string \<times> migration) list \<Rightarrow> string list" where
  "log_sql log = concat (map (statements \<circ> snd) log)"

definition app_versions :: "'b schema \<Rightarrow> int list" where
  "app_versions c = filter (\<lambda>v. v \<noteq> 0)
     (case sc_versions c of None \<Rightarrow> [] | Some rows \<Rightarrow> map vr_version rows)"

definition set_versions :: "'b schema \<Rightarrow> (string \<times> int) list" where
  "set_versions c =
     (case sc_sets c of None \<Rightarrow> [] | Some rows \<Rightarrow> map (\<lambda>r. (sr_set r, sr_version r)) rows)"

definition log_app :: "(string \<times> migration) list \<Rightarrow> int list" where
  "log_app log = filter (\<lambda>v. v \<noteq> 0)
     (map (\<lambda>p. uint (mg_version (snd p))) (filter (\<lambda>p. is_app (fst p)) log))"

definition log_sets :: "(string \<times> migration) list \<Rightarrow> (string \<times> int) list" where
  "log_sets log = map (\<lambda>p. (fst p, uint (mg_version (snd p)))) (filter (\<lambda>p. \<not> is_app (fst p)) log)"

lemma log_append:
  "log_sql (l @ l') = log_sql l @ log_sql l'" "log_app (l @ l') = log_app l @ log_app l'"
  "log_sets (l @ l') = log_sets l @ log_sets l'"
  by (simp_all add: log_sql_def log_app_def log_sets_def)

lemma log_Nil [simp]: "log_sql [] = []" "log_app [] = []" "log_sets [] = []"
  by (simp_all add: log_sql_def log_app_def log_sets_def)

definition unique_versions :: "'b schema \<Rightarrow> bool" where
  "unique_versions c \<longleftrightarrow> distinct (app_versions c) \<and> distinct (set_versions c)"

text \<open>\<open>e\<close> is \<open>c\<close> after the migrations of \<open>log\<close> ran whole, in that order, each with its record.\<close>

definition migrated_by ::
  "(string \<Rightarrow> 'b \<Rightarrow> error + 'b) \<Rightarrow> (string \<times> migration) list \<Rightarrow> 'b schema \<Rightarrow> 'b schema \<Rightarrow> bool" where
  "migrated_by ddl log c e \<longleftrightarrow>
     run_host ddl (log_sql log) (sc_host c) = Inr (sc_host e) \<and>
     app_versions e = app_versions c @ log_app log \<and>
     set_versions e = set_versions c @ log_sets log \<and>
     (unique_versions c \<longrightarrow> unique_versions e)"

definition migrates :: "(string \<Rightarrow> 'b \<Rightarrow> error + 'b) \<Rightarrow> 'b schema sdb \<Rightarrow> 'b schema sdb \<Rightarrow> bool" where
  "migrates ddl d e \<longleftrightarrow> (\<exists>log. migrated_by ddl log (app_tables d) (app_tables e))"

lemma migrated_by_refl: "migrated_by ddl [] c c"
  by (simp add: migrated_by_def)

lemma migrated_by_trans:
  "migrated_by ddl l c e \<Longrightarrow> migrated_by ddl l' e f \<Longrightarrow> migrated_by ddl (l @ l') c f"
  by (auto simp: migrated_by_def log_append run_host_append)

interpretation schemas: batch_relation "migrates ddl" for ddl
  by unfold_locales (auto simp: migrates_def intro: migrated_by_refl dest: migrated_by_trans)

interpretation migrators: guarantee "\<lambda>h t. migrates ddl (ho_db h) (ho_db t)" for ddl
  by unfold_locales (auto intro: schemas.R_refl schemas.R_trans)

section \<open>Every batch\<close>

lemma app_sql_Inr:
  "app_sql f d = Inr (d', n) \<longleftrightarrow> (\<exists>x. f (app_tables d) = Inr x \<and> d' = d\<lparr>app_tables := x\<rparr> \<and> n = 1)"
  by (auto simp: app_sql_def)

lemma quiet_carries:
  assumes "\<And>c e. f c = Inr e \<Longrightarrow> migrated_by ddl [] c e"
  shows "schemas.carries ddl (app_sql f)"
  using assms by (intro schemas.carriesI) (fastforce simp: app_sql_Inr migrates_def)

lemma quiet_statements:
  "create_version_table c = Inr e \<Longrightarrow> migrated_by ddl [] c e"
  "create_set_table c = Inr e \<Longrightarrow> migrated_by ddl [] c e"
  "insert_baseline c = Inr e \<Longrightarrow> migrated_by ddl [] c e"
  "add_column n c = Inr e \<Longrightarrow> migrated_by ddl [] c e"
  "backfill s a v c = Inr e \<Longrightarrow> migrated_by ddl [] c e"
proof -
  show "create_version_table c = Inr e \<Longrightarrow> migrated_by ddl [] c e"
    by (auto simp: create_version_table_def migrated_by_def app_versions_def set_versions_def
        unique_versions_def split: option.splits)
  show "create_set_table c = Inr e \<Longrightarrow> migrated_by ddl [] c e"
    by (auto simp: create_set_table_def migrated_by_def app_versions_def set_versions_def
        unique_versions_def split: option.splits)
  show "insert_baseline c = Inr e \<Longrightarrow> migrated_by ddl [] c e"
    by (auto simp: insert_baseline_def baseline_row_def migrated_by_def app_versions_def
        set_versions_def unique_versions_def split: option.splits if_splits)
  show "add_column n c = Inr e \<Longrightarrow> migrated_by ddl [] c e"
    by (auto simp: add_column_def migrated_by_def app_versions_def set_versions_def
        unique_versions_def split: if_splits)
  have keep: "map vr_version (update_rows p (\<lambda>r. r\<lparr>vr_checksum := x, vr_additive := y\<rparr>) rows)
      = map vr_version rows" for p x y rows
    by (simp add: update_rows_def)
  show "backfill s a v c = Inr e \<Longrightarrow> migrated_by ddl [] c e"
    by (auto simp: backfill_def migrated_by_def app_versions_def set_versions_def
        unique_versions_def keep split: option.splits if_splits)
qed

lemma host_batch:
  "run_txn (map (app_sql \<circ> host_statement ddl) ss) d = Inr (e, ns) \<longleftrightarrow>
     (\<exists>x. run_host ddl ss (sc_host (app_tables d)) = Inr x \<and>
        e = d\<lparr>app_tables := (app_tables d)\<lparr>sc_host := x\<rparr>\<rparr> \<and> ns = replicate (length ss) 1)"
proof (induction ss arbitrary: d ns)
  case Nil
  then show ?case by auto
next
  case (Cons s ss)
  then show ?case
    by (auto simp: app_sql_Inr host_statement_def Cons.IH)
qed

lemma record_moves:
  assumes "run_host ddl (statements m) (sc_host c) = Inr x"
  shows "is_app s \<Longrightarrow> record_statement sha m (c\<lparr>sc_host := x\<rparr>) = Inr e \<Longrightarrow> migrated_by ddl [(s, m)] c e"
    and "\<not> is_app s \<Longrightarrow> record_set_statement sha s m (c\<lparr>sc_host := x\<rparr>) = Inr e \<Longrightarrow> migrated_by ddl [(s, m)] c e"
  using assms
  by (auto simp: migrated_by_def log_sql_def log_app_def log_sets_def record_statement_def
      record_set_statement_def app_versions_def set_versions_def unique_versions_def
      split: option.splits if_splits) blast+

lemma step_batch:
  assumes "run_txn (step_statements sha ddl p) d = Inr (e, ns)"
  shows "migrated_by ddl [p] (app_tables d) (app_tables e)"
proof -
  obtain s m where p: "p = (s, m)" by (cases p)
  from assms obtain x where x: "run_host ddl (statements m) (sc_host (app_tables d)) = Inr x"
    and rec: "(if is_app s then record_statement sha m else record_set_statement sha s m)
      ((app_tables d)\<lparr>sc_host := x\<rparr>) = Inr (app_tables e)"
    by (auto simp: step_statements_def p run_txn_append_iff host_batch app_sql_Inr split: if_splits)
  with x show ?thesis
    by (auto simp: p intro: record_moves split: if_splits)
qed

lemma step_carries: "schemas.carries_all ddl (step_statements sha ddl p)"
  by (auto simp: schemas.carries_all_def migrates_def dest: step_batch)

lemma record_batch_carries:
  "schemas.carries_all ddl (map (app_sql \<circ> host_statement ddl) (statements m) @ [app_sql (record_statement sha m)])"
  using step_carries [of ddl sha "(APP_SET, m)"] by (simp add: step_statements_def is_app_def)

lemma quiet_batches:
  "schemas.carries_all ddl [app_sql create_version_table, app_sql insert_baseline, app_sql create_set_table]"
  "schemas.carries_all ddl [app_sql (add_column n)]"
  "schemas.carries_all ddl (map (\<lambda>m. app_sql (backfill (f m) (g m) (v m))) ms)"
  by (auto intro!: schemas.carries_Cons schemas.carries_Nil quiet_carries dest: quiet_statements)
    (induction ms; auto intro!: schemas.carries_Cons schemas.carries_Nil quiet_carries dest: quiet_statements)

section \<open>Every operation\<close>

text \<open>Whoever else writes between two requests migrates the same host as well, or leaves it alone.\<close>

definition migrators_only :: "(string \<Rightarrow> 'b \<Rightarrow> error + 'b) \<Rightarrow> 'b schema store_world \<Rightarrow> bool" where
  "migrators_only ddl W \<longleftrightarrow> (\<forall>n d. migrates ddl d (ow_others W n d))"

locale migrator_world =
  fixes ddl :: "string \<Rightarrow> 'b \<Rightarrow> error + 'b" and W :: "'b schema store_world"
  assumes W: "migrators_only ddl W"
begin

lemma pass_migrates: "migrates ddl (ho_db h) (ho_db (pass W h))"
  using W by (simp add: migrators_only_def)

lemma keeps_read: "migrators.keeps ddl (read_consistent W q)"
  by (rule migrators.keepsI) (auto simp: read_consistent_def pass_migrates simp del: pass_simps)

lemma keeps_read_if: "migrators.keeps ddl (read_if W ok q)"
  using keeps_read [of q]
  by (auto simp: migrators.keeps_def read_if_def pass_migrates simp del: pass_simps split: if_splits)

lemma keeps_submit:
  assumes "schemas.carries_all ddl ss"
  shows "migrators.keeps ddl (submit W ss)"
proof (rule migrators.keepsI)
  fix h t :: "'b schema handle" and r
  assume r: "submit W ss h = (r, t)"
  have "migrates ddl (ho_db (pass W h)) d" if "run_txn ss (ho_db (pass W h)) = Inr (d, ns)" for d ns
    using schemas.carries_allD [OF assms that] .
  then show "migrates ddl (ho_db h) (ho_db t)"
    using r pass_migrates [of h] schemas.R_refl [of ddl "ho_db h"]
    by (auto simp: submit_def simp del: pass_simps intro: schemas.R_trans
        split: if_splits fate.splits sum.splits)
qed

lemmas keeps_ops = migrators.keeps_bind migrators.keeps_pure keeps_read keeps_read_if

lemma keeps_columns: "migrators.keeps ddl (add_each_column W cs ns)"
proof (induction ns)
  case Nil
  show ?case by (simp only: add_each_column.simps migrators.keeps_pure)
next
  case (Cons n ns)
  then show ?case
    by (simp only: add_each_column.simps split: if_split) (auto intro!: keeps_ops keeps_submit quiet_batches)
qed

lemma keeps_baseline: "migrators.keeps ddl (migration_baseline W)"
  unfolding migration_baseline_def add_migration_columns_def
  by (auto intro!: keeps_ops keeps_submit quiet_batches keeps_columns)

lemma keeps_recorded: "migrators.keeps ddl (recorded_migrations W)"
  unfolding recorded_migrations_def by (auto intro!: keeps_ops)

lemma keeps_recorded_sets: "migrators.keeps ddl (recorded_set_migrations W)"
  unfolding recorded_set_migrations_def by (auto intro!: keeps_ops keeps_recorded)

lemma keeps_backfill: "migrators.keeps ddl (record_missing_checksums W sha history ms)"
  unfolding record_missing_checksums_def by (auto intro!: keeps_ops keeps_submit quiet_batches)

lemma keeps_rolled_back: "migrators.keeps ddl m \<Longrightarrow> migrators.keeps ddl (rolled_back m)"
  unfolding rolled_back_def
  by (rule migrators.keeps_on_result) (auto intro: migrators.keeps_pure split: sum.split)

lemma keeps_each: "migrators.keeps ddl (migrate_each W sha ddl recorded previous ms acc)"
proof (induction ms arbitrary: acc)
  case (Cons m ms)
  show ?case
    by (cases acc) (auto intro!: keeps_ops keeps_rolled_back keeps_submit record_batch_carries Cons.IH)
qed (simp only: migrate_each.simps migrators.keeps_pure)

lemma keeps_steps: "migrators.keeps ddl (apply_steps W sha ddl ps rep)"
proof (induction ps arbitrary: rep)
  case (Cons p ps)
  show ?case
    by (auto intro!: keeps_ops keeps_rolled_back keeps_submit step_carries Cons.IH)
qed (simp only: apply_steps.simps migrators.keeps_pure)

lemma keeps_migrate: "migrators.keeps ddl (migrate W sha ddl ms)"
  unfolding migrate_def Let_def
  by (auto intro!: keeps_ops keeps_baseline keeps_recorded keeps_backfill keeps_each split: prod.split)

lemma keeps_migrate_sets: "migrators.keeps ddl (migrate_sets W sha ddl app sets)"
  unfolding migrate_sets_def
  by (auto intro!: keeps_ops keeps_baseline keeps_recorded_sets keeps_backfill keeps_steps split: option.split)

end

lemma migrator_world_iff: "migrators_only ddl W \<Longrightarrow> migrator_world ddl W"
  by (rule migrator_world.intro)

interpretation quiet_world: migrator_world ddl calm for ddl
  by unfold_locales (simp add: migrators_only_def schemas.R_refl)

text \<open>
  An undisturbed run of \<^verbatim>\<open>migrate_sets\<close>: what it applies is a prefix of the plan, all of it unless a
  statement fails, and the next run's plan is the rest of this one.
\<close>

section \<open>What the version tables say\<close>

abbreviation schema_of :: "'b schema handle \<Rightarrow> 'b schema" where
  "schema_of h \<equiv> app_tables (ho_db h)"

definition recorded_of :: "'b schema \<Rightarrow> error + recorded_migration list" where
  "recorded_of c =
     (if sc_versions c = None then Inr []
      else if has_columns c then try_map recorded_row (version_rows c)
      else Inl (Validation ''no such column''))"

definition histories_of :: "'b schema \<Rightarrow> error + set_histories" where
  "histories_of c =
     rbind (recorded_of c)
       (\<lambda>app. if sc_sets c = None then Inr [APP_SET \<mapsto> app]
              else collect_histories (set_version_rows c) [APP_SET \<mapsto> app])"

definition versions_in :: "'b schema \<Rightarrow> string \<Rightarrow> int set" where
  "versions_in c n =
     (if n = APP_SET then vr_version ` set (version_rows c) else {}) \<union>
     sr_version ` {r \<in> set (set_version_rows c). sr_set r = n}"

lemma recorded_row_version: "recorded_row r = Inr x \<Longrightarrow> uint (rd_version x) = vr_version r"
  by (auto simp: recorded_row_def dest: uint_i64_to_u32 split: option.splits)

lemma try_map_versions:
  "try_map recorded_row rows = Inr xs \<Longrightarrow> map (uint \<circ> rd_version) xs = map vr_version rows"
  by (induction rows arbitrary: xs) (auto simp: recorded_row_version)

lemma set_name_reference_Inr: "set_name_reference n = Inr m \<Longrightarrow> m = n"
  by (auto simp: set_name_reference_def split: if_splits)

lemma history_push:
  "history_of (hs(k \<mapsto> (case hs k of None \<Rightarrow> [] | Some rows \<Rightarrow> rows) @ [x])) n =
     history_of hs n @ (if n = k then [rd_version x] else [])"
  by (auto simp: history_of_def split: option.split)

lemma collect_versions:
  "collect_histories rows hs = Inr hs' \<Longrightarrow>
     uint ` set (history_of hs' n) = uint ` set (history_of hs n) \<union> sr_version ` {r \<in> set rows. sr_set r = n}"
proof (induction rows arbitrary: hs)
  case (Cons r rows)
  from Cons.prems obtain v where v: "i64_to_u32 (sr_version r) = Some v"
    and rest: "collect_histories rows (hs(sr_set r \<mapsto> (case hs (sr_set r) of None \<Rightarrow> [] | Some rows \<Rightarrow> rows) @
       [\<lparr>rd_version = v, rd_name = sr_name r, rd_checksum = Some (sr_checksum r),
         rd_additive = Some (sr_additive r \<noteq> 0)\<rparr>])) = Inr hs'"
    by (auto dest!: set_name_reference_Inr)
  have "uint v = sr_version r"
    using v by (rule uint_i64_to_u32)
  then show ?case
    unfolding Cons.IH [OF rest] history_push by auto
qed simp

lemma histories_versions:
  assumes "histories_of c = Inr hs"
  shows "uint ` set (history_of hs n) = versions_in c n"
proof -
  from assms obtain app where
    app: "recorded_of c = Inr app"
    and hs: "(if sc_sets c = None then Inr [APP_SET \<mapsto> app]
        else collect_histories (set_version_rows c) [APP_SET \<mapsto> app]) = Inr hs"
    unfolding histories_of_def rbind_Inr_iff by blast
  have "map (uint \<circ> rd_version) app = map vr_version (version_rows c)"
    using app by (auto simp: recorded_of_def version_rows_def intro!: try_map_versions split: if_splits)
  then have a: "uint ` rd_version ` set app = vr_version ` set (version_rows c)"
    by (metis image_comp list.set_map)
  show ?thesis
  proof (cases "sc_sets c = None")
    case True
    with a hs show ?thesis
      by (auto simp: versions_in_def set_version_rows_def history_of_def)
  next
    case False
    with hs have "collect_histories (set_version_rows c) [APP_SET \<mapsto> app] = Inr hs" by simp
    then have "uint ` set (history_of hs n) =
        uint ` set (history_of [APP_SET \<mapsto> app] n) \<union> sr_version ` {r \<in> set (set_version_rows c). sr_set r = n}"
      by (rule collect_versions)
    with a show ?thesis
      by (simp add: versions_in_def history_of_def)
  qed
qed

text \<open>A history read back from the tables.\<close>

definition reads_as :: "'b schema \<Rightarrow> set_histories \<Rightarrow> bool" where
  "reads_as c hs \<longleftrightarrow> (\<forall>n. uint ` set (history_of hs n) = versions_in c n)"

lemma reads_as_histories: "histories_of c = Inr hs \<Longrightarrow> reads_as c hs"
  by (simp add: reads_as_def histories_versions)

lemma reads_as_unique: "reads_as c hs \<Longrightarrow> reads_as c hs' \<Longrightarrow> set (history_of hs n) = set (history_of hs' n)"
  by (metis inj_image_eq_iff injI reads_as_def word_uint_eqI)

lemma max_version_cong: "set vs = set ws \<Longrightarrow> max_version vs = max_version ws"
  by (simp add: max_version_def) (metis set_empty)

lemma plan_cong:
  assumes "\<And>n. set (history_of hs n) = set (history_of hs' n)"
  shows "plan sets hs = plan sets hs'"
proof -
  have "pending_of hs = pending_of hs'"
    using assms by (auto simp: pending_of_def fun_eq_iff)
  moreover have "max_version (history_of hs n) = max_version (history_of hs' n)" for n
    using assms by (rule max_version_cong)
  ultimately have "prepare hs ss st = prepare hs' ss st" for ss st
    by (induction ss arbitrary: st) (auto simp: Let_def)
  then show ?thesis by (simp add: plan_def)
qed

lemma plan_reads: "reads_as c hs \<Longrightarrow> reads_as c hs' \<Longrightarrow> plan sets hs = plan sets hs'"
  by (meson plan_cong reads_as_unique)

section \<open>Calm requests\<close>

lemma calm_submit_cases:
  assumes "submit calm ss h = (r, t)" and "ss \<noteq> []"
  obtains (ran) d ns where "run_txn ss (ho_db h) = Inr (d, ns)" "r = Inr ns" "ho_db t = d"
    | (refused) e where "run_txn ss (ho_db h) = Inl e" "r = Inl e" "ho_db t = ho_db h"
  using assms by (auto simp: submit_def split: sum.splits)

lemma versions_in_app:
  "sc_versions c = Some rows \<Longrightarrow>
     versions_in (c\<lparr>sc_versions := Some (rows @ [r])\<rparr>) n =
       versions_in c n \<union> (if n = APP_SET then {vr_version r} else {})"
  by (cases "sc_sets c") (simp_all add: versions_in_def version_rows_def set_version_rows_def)

lemma filter_insert: "{r. (r = x \<or> r \<in> A) \<and> P r} = (if P x then insert x {r \<in> A. P r} else {r \<in> A. P r})"
  by auto

lemma versions_in_set:
  "sc_sets c = Some rows \<Longrightarrow>
     versions_in (c\<lparr>sc_sets := Some (rows @ [r])\<rparr>) n =
       versions_in c n \<union> (if n = sr_set r then {sr_version r} else {})"
  by (cases "sc_versions c")
    (simp_all add: versions_in_def version_rows_def set_version_rows_def filter_insert)

lemma versions_in_host: "versions_in (c\<lparr>sc_host := x\<rparr>) n = versions_in c n"
  by (simp add: versions_in_def version_rows_def set_version_rows_def)

lemma record_statement_rows:
  "record_statement sha m c = Inr e \<Longrightarrow>
     \<exists>rows r. sc_versions c = Some rows \<and> e = c\<lparr>sc_versions := Some (rows @ [r])\<rparr> \<and>
       vr_version r = uint (mg_version m)"
  by (auto simp: record_statement_def split: option.splits if_splits)

lemma record_set_statement_rows:
  "record_set_statement sha s m c = Inr e \<Longrightarrow>
     \<exists>rows r. sc_sets c = Some rows \<and> e = c\<lparr>sc_sets := Some (rows @ [r])\<rparr> \<and>
       sr_version r = uint (mg_version m) \<and> sr_set r = s"
  by (auto simp: record_set_statement_def split: option.splits if_splits)

lemma step_versions:
  assumes "run_txn (step_statements sha ddl p) d = Inr (e, ns)"
  shows "versions_in (app_tables e) n = versions_in (app_tables d) n \<union>
    (if n = fst p then {uint (mg_version (snd p))} else {})"
proof -
  obtain s m where p: "p = (s, m)" by (cases p)
  from assms obtain x where
    rec: "(if is_app s then record_statement sha m else record_set_statement sha s m)
      ((app_tables d)\<lparr>sc_host := x\<rparr>) = Inr (app_tables e)"
    by (auto simp: step_statements_def p run_txn_append_iff host_batch app_sql_Inr split: if_splits)
  show ?thesis
  proof (cases "is_app s")
    case True
    with rec have "record_statement sha m ((app_tables d)\<lparr>sc_host := x\<rparr>) = Inr (app_tables e)"
      by simp
    from record_statement_rows [OF this] obtain rows r where "sc_versions ((app_tables d)\<lparr>sc_host := x\<rparr>) = Some rows"
      "app_tables e = (app_tables d)\<lparr>sc_host := x\<rparr>\<lparr>sc_versions := Some (rows @ [r])\<rparr>"
      "vr_version r = uint (mg_version m)"
      by blast
    then show ?thesis
      using True by (simp only: versions_in_app versions_in_host p fst_conv snd_conv is_app_def)
  next
    case False
    with rec have "record_set_statement sha s m ((app_tables d)\<lparr>sc_host := x\<rparr>) = Inr (app_tables e)"
      by simp
    from record_set_statement_rows [OF this] obtain rows r where "sc_sets ((app_tables d)\<lparr>sc_host := x\<rparr>) = Some rows"
      "app_tables e = (app_tables d)\<lparr>sc_host := x\<rparr>\<lparr>sc_sets := Some (rows @ [r])\<rparr>"
      "sr_version r = uint (mg_version m)" "sr_set r = s"
      by blast
    then show ?thesis
      by (simp only: versions_in_set versions_in_host p fst_conv snd_conv)
  qed
qed

lemma reads_record_step:
  assumes "reads_as c hs" and "\<And>n. versions_in e n = versions_in c n \<union>
    (if n = fst p then {uint (mg_version (snd p))} else {})"
  shows "reads_as e (record_step sha p hs)"
  using assms by (cases p) (auto simp: reads_as_def history_record_step)

section \<open>Applying a plan\<close>

lemma rolled_back_Inr: "rolled_back m h = (Inr x, t) \<longleftrightarrow> m h = (Inr x, t)"
  by (auto simp: rolled_back_def on_result_def split: prod.splits sum.splits)

lemma rolled_back_Inl: "rolled_back m h = (Inl e, t) \<longleftrightarrow> (\<exists>e'. m h = (Inl e', t) \<and> e = Validation (''failed and was rolled back: '' @ message e'))"
  by (auto simp: rolled_back_def on_result_def split: prod.splits sum.splits)

lemma step_statements_ne [simp]: "step_statements sha ddl p \<noteq> []"
  by (simp add: step_statements_def)

lemma calm_apply:
  assumes "apply_steps calm sha ddl ps rep h = (r, t)" and "plan sets hs = Inr ps" and "reads_as (schema_of h) hs"
  shows "\<exists>k hs'. k \<le> length ps \<and> migrated_by ddl (take k ps) (schema_of h) (schema_of t) \<and>
    reads_as (schema_of t) hs' \<and> plan sets hs' = Inr (drop k ps) \<and>
    (case r of Inl e \<Rightarrow> k < length ps
     | Inr rep' \<Rightarrow> k = length ps \<and>
         se_applied rep' = se_applied rep @ map (\<lambda>p. (fst p, mg_version (snd p))) ps)"
  using assms
proof (induction ps arbitrary: rep h hs)
  case Nil
  then show ?case by (auto intro: migrated_by_refl)
next
  case (Cons p ps)
  let ?stop = "\<exists>e. r = Inl e \<and> ho_db t = ho_db h"
  have stopped: ?case if ?stop
    using that Cons.prems by (intro exI [of _ 0] exI [of _ hs]) (auto intro: migrated_by_refl)
  show ?case
  proof (cases "statements (snd p) = []")
    case True
    with Cons.prems(1) show ?thesis by (intro stopped) auto
  next
    case False
    let ?rep = "rep\<lparr>se_applied := se_applied rep @ [(fst p, mg_version (snd p))],
      se_current := (se_current rep)(fst p \<mapsto> mg_version (snd p))\<rparr>"
    obtain r1 u where u: "submit calm (step_statements sha ddl p) h = (r1, u)"
      by (cases "submit calm (step_statements sha ddl p) h")
    from u step_statements_ne show ?thesis
    proof (cases rule: calm_submit_cases)
      case (refused e)
      with u have "rolled_back (submit calm (step_statements sha ddl p)) h =
          (Inl (Validation (''failed and was rolled back: '' @ message e)), u)"
        by (simp add: rolled_back_Inl)
      with False Cons.prems(1) refused(3) show ?thesis by (intro stopped) auto
    next
      case (ran d ns)
      with u have "rolled_back (submit calm (step_statements sha ddl p)) h = (Inr ns, u)"
        by (simp add: rolled_back_Inr)
      with False Cons.prems(1) have rest: "apply_steps calm sha ddl ps ?rep u = (r, t)"
        by simp
      have one: "migrated_by ddl [p] (schema_of h) (schema_of u)"
        using step_batch [OF ran(1)] ran(3) by simp
      have "reads_as (schema_of u) (record_step sha p hs)"
        using reads_record_step [OF Cons.prems(3)] step_versions [OF ran(1)] ran(3) by blast
      from Cons.IH [OF rest plan_after_step [OF Cons.prems(2)] this] obtain k hs' where k: "k \<le> length ps"
        "migrated_by ddl (take k ps) (schema_of u) (schema_of t)" "reads_as (schema_of t) hs'"
        "plan sets hs' = Inr (drop k ps)"
        "case r of Inl e \<Rightarrow> k < length ps | Inr rep' \<Rightarrow> k = length ps \<and>
           se_applied rep' = se_applied ?rep @ map (\<lambda>p. (fst p, mg_version (snd p))) ps"
        by blast
      with migrated_by_trans [OF one k(2)] show ?thesis
        by (intro exI [of _ "Suc k"] exI [of _ hs']) (auto split: sum.splits)
    qed
  qed
qed

section \<open>A whole run\<close>

definition columns_ok :: "'b schema \<Rightarrow> bool" where
  "columns_ok c \<longleftrightarrow> (sc_versions c \<noteq> None \<longrightarrow> sc_columns c \<noteq> [])"

text \<open>What the baseline leaves: both tables, the row of version 0, and the added columns.\<close>

definition baselined :: "'b schema \<Rightarrow> 'b schema" where
  "baselined c =
     (let rows = (case sc_versions c of None \<Rightarrow> [] | Some rows \<Rightarrow> rows);
          cols = (if sc_versions c = None then BASE_COLUMNS else sc_columns c)
      in c\<lparr>sc_versions := Some (if \<exists>r \<in> set rows. vr_version r = 0 then rows else rows @ [baseline_row]),
           sc_columns := cols @ filter (\<lambda>n. n \<notin> set cols) ADDED_COLUMNS,
           sc_sets := Some (case sc_sets c of None \<Rightarrow> [] | Some rows \<Rightarrow> rows)\<rparr>)"

lemma calm_submit1:
  "f (schema_of h) = Inr c \<Longrightarrow>
     submit calm [app_sql f] h = (Inr [1], h\<lparr>ho_db := (ho_db h)\<lparr>app_tables := c\<rparr>, ho_clock := Suc (ho_clock h)\<rparr>)"
  by (subst calm_submit) (auto simp: app_sql_def)

lemma calm_columns:
  assumes "sc_versions (schema_of h) \<noteq> None" and "distinct ns" and "cols = sc_columns (schema_of h)"
  shows "\<exists>t. add_each_column calm cols ns h = (Inr (), t) \<and>
    schema_of t = (schema_of h)\<lparr>sc_columns := cols @ filter (\<lambda>n. n \<notin> set cols) ns\<rparr>"
proof -
  have "sc_versions (schema_of h) \<noteq> None \<Longrightarrow> distinct ns \<Longrightarrow> set cols \<subseteq> set (sc_columns (schema_of h)) \<Longrightarrow>
      \<forall>n \<in> set ns. n \<in> set (sc_columns (schema_of h)) \<longrightarrow> n \<in> set cols \<Longrightarrow>
      \<exists>t. add_each_column calm cols ns h = (Inr (), t) \<and>
        schema_of t = (schema_of h)\<lparr>sc_columns := sc_columns (schema_of h) @ filter (\<lambda>n. n \<notin> set cols) ns\<rparr>"
  proof (induction ns arbitrary: h)
    case Nil
    then show ?case by simp
  next
    case (Cons n ns)
    show ?case
    proof (cases "n \<in> set cols")
      case True
      with Cons show ?thesis by auto
    next
      case False
      let ?u = "h\<lparr>ho_db := (ho_db h)\<lparr>app_tables := (schema_of h)\<lparr>sc_columns := sc_columns (schema_of h) @ [n]\<rparr>\<rparr>,
        ho_clock := Suc (ho_clock h)\<rparr>"
      have "add_column n (schema_of h) = Inr ((schema_of h)\<lparr>sc_columns := sc_columns (schema_of h) @ [n]\<rparr>)"
        using False Cons.prems by (auto simp: add_column_def)
      then have sub: "submit calm [app_sql (add_column n)] h = (Inr [1], ?u)"
        by (rule calm_submit1)
      have "\<exists>t. add_each_column calm cols ns ?u = (Inr (), t) \<and>
        schema_of t = (schema_of ?u)\<lparr>sc_columns := sc_columns (schema_of ?u) @ filter (\<lambda>n. n \<notin> set cols) ns\<rparr>"
        by (rule Cons.IH) (use Cons.prems in auto)
      with sub False show ?thesis by auto
    qed
  qed
  from this [OF assms(1,2)] show ?thesis using assms(3) by simp
qed

lemma calm_baseline:
  assumes "columns_ok (schema_of h)"
  shows "\<exists>t. migration_baseline calm h = (Inr (), t) \<and> schema_of t = baselined (schema_of h)"
proof -
  define c where "c = schema_of h"
  define rows where "rows = (case sc_versions c of None \<Rightarrow> [] | Some rows \<Rightarrow> rows)"
  define cols where "cols = (if sc_versions c = None then BASE_COLUMNS else sc_columns c)"
  define e where "e = c\<lparr>sc_versions := Some (if \<exists>r \<in> set rows. vr_version r = 0 then rows else rows @ [baseline_row]),
     sc_columns := cols, sc_sets := Some (case sc_sets c of None \<Rightarrow> [] | Some rows \<Rightarrow> rows)\<rparr>"
  define u where "u = h\<lparr>ho_db := (ho_db h)\<lparr>app_tables := e\<rparr>, ho_clock := Suc (ho_clock h)\<rparr>"
  define v where "v = u\<lparr>ho_clock := Suc (ho_clock u)\<rparr>"
  let ?ss = "[app_sql create_version_table, app_sql insert_baseline, app_sql create_set_table]"
  have "\<exists>ns. run_txn ?ss (ho_db h) = Inr ((ho_db h)\<lparr>app_tables := e\<rparr>, ns)"
    by (cases "sc_versions c"; cases "sc_sets c")
      (simp_all add: app_sql_def create_version_table_def create_set_table_def insert_baseline_def
        c_def e_def rows_def cols_def)
  then obtain ns where "submit calm ?ss h = (Inr ns, u)"
    unfolding u_def by (metis calm_submit list.distinct(1))
  then have base: "migration_baseline calm h = add_migration_columns calm u"
    unfolding migration_baseline_def by (rule obind_Inr)
  have u: "sc_columns (schema_of u) = cols" and v: "schema_of v = e"
    by (simp_all add: u_def v_def e_def)
  have "cols \<noteq> []"
    using assms by (auto simp: columns_ok_def BASE_COLUMNS_def cols_def c_def)
  moreover have "read_consistent calm (sc_columns \<circ> app_tables) u = (Inr cols, v)"
    by (simp add: calm_read u v_def)
  ultimately have cols: "add_migration_columns calm u = add_each_column calm cols ADDED_COLUMNS v"
    unfolding add_migration_columns_def by simp
  have vt: "sc_versions (schema_of v) \<noteq> None" and ad: "distinct ADDED_COLUMNS" and vc: "cols = sc_columns (schema_of v)"
    by (simp_all add: v e_def ADDED_COLUMNS_def)
  obtain t where "add_each_column calm cols ADDED_COLUMNS v = (Inr (), t)"
    "schema_of t = e\<lparr>sc_columns := cols @ filter (\<lambda>n. n \<notin> set cols) ADDED_COLUMNS\<rparr>"
    using calm_columns [OF vt ad vc] unfolding v by blast
  then show ?thesis
    unfolding base cols by (simp add: baselined_def e_def Let_def rows_def cols_def c_def)
qed

lemma baselined_quiet:
  "migrated_by ddl [] c (baselined c)" "versions_in (baselined c) n = versions_in c n \<union> (if n = APP_SET then {0} else {})"
proof -
  show "migrated_by ddl [] c (baselined c)"
    by (cases "sc_versions c"; cases "sc_sets c")
      (auto simp: migrated_by_def baselined_def Let_def app_versions_def set_versions_def
        unique_versions_def baseline_row_def)
  show "versions_in (baselined c) n = versions_in c n \<union> (if n = APP_SET then {0} else {})"
    by (cases "sc_versions c"; cases "sc_sets c")
      (auto simp: versions_in_def baselined_def Let_def version_rows_def set_version_rows_def
        baseline_row_def image_iff)
qed

lemma baselined_columns: "has_columns (baselined c)" "sc_versions (baselined c) \<noteq> None"
  by (auto simp: has_columns_def baselined_def Let_def ADDED_COLUMNS_def)

lemma calm_histories:
  "\<exists>t. recorded_set_migrations calm h = (histories_of (schema_of h), t) \<and> ho_db t = ho_db h"
proof -
  have "\<exists>t. recorded_migrations calm h = (recorded_of (schema_of h), t) \<and> ho_db t = ho_db h"
    by (cases "sc_versions (schema_of h)")
      (auto simp: recorded_migrations_def obind_def on_result_def calm_read read_if_def
        version_tables_def recorded_of_def)
  then obtain t where t: "recorded_migrations calm h = (recorded_of (schema_of h), t)" "ho_db t = ho_db h"
    by blast
  show ?thesis
  proof (cases "recorded_of (schema_of h)")
    case (Inl e)
    with t show ?thesis by (auto simp: recorded_set_migrations_def histories_of_def)
  next
    case (Inr app)
    with t show ?thesis
      by (cases "sc_sets (schema_of h)")
        (auto simp: recorded_set_migrations_def histories_of_def calm_read set_tables_def)
  qed
qed

lemma backfill_versions:
  "map vr_version (update_rows p (\<lambda>r. r\<lparr>vr_checksum := x, vr_additive := y\<rparr>) rows) = map vr_version rows"
  by (simp add: update_rows_def)

lemma backfill_run:
  assumes "has_columns (app_tables d)" and "sc_versions (app_tables d) \<noteq> None"
  shows "\<exists>e ns. run_txn (map (\<lambda>m. app_sql (backfill (f m) (g m) (v m))) ms) d = Inr (e, ns) \<and>
    migrated_by ddl [] (app_tables d) (app_tables e) \<and>
    versions_in (app_tables e) = versions_in (app_tables d) \<and> has_columns (app_tables e) \<and>
    sc_versions (app_tables e) \<noteq> None"
  using assms
proof (induction ms arbitrary: d)
  case Nil
  then show ?case by (auto intro: migrated_by_refl)
next
  case (Cons m ms)
  from Cons.prems obtain rows where rows: "sc_versions (app_tables d) = Some rows" by blast
  let ?c = "(app_tables d)\<lparr>sc_versions := Some (update_rows (\<lambda>r. vr_version r = uint (v m))
     (\<lambda>r. r\<lparr>vr_checksum := Some (f m), vr_additive := Some (of_bool (g m))\<rparr>) rows)\<rparr>"
  have b: "backfill (f m) (g m) (v m) (app_tables d) = Inr ?c"
    using Cons.prems rows by (simp add: backfill_def)
  have "vr_version ` set (update_rows p (\<lambda>r. r\<lparr>vr_checksum := x, vr_additive := y\<rparr>) rows) = vr_version ` set rows" for p x y
    using arg_cong [OF backfill_versions [where p = p and x = x and y = y and rows = rows], of set] by simp
  then have same: "versions_in ?c = versions_in (app_tables d)"
    using rows by (simp add: fun_eq_iff versions_in_def version_rows_def set_version_rows_def)
  have "\<exists>e ns. run_txn (map (\<lambda>m. app_sql (backfill (f m) (g m) (v m))) ms) (d\<lparr>app_tables := ?c\<rparr>) = Inr (e, ns) \<and>
    migrated_by ddl [] (app_tables (d\<lparr>app_tables := ?c\<rparr>)) (app_tables e) \<and>
    versions_in (app_tables e) = versions_in (app_tables (d\<lparr>app_tables := ?c\<rparr>)) \<and> has_columns (app_tables e) \<and>
    sc_versions (app_tables e) \<noteq> None"
    by (rule Cons.IH) (use Cons.prems in \<open>simp_all add: has_columns_def\<close>)
  then obtain e ns where e: "run_txn (map (\<lambda>m. app_sql (backfill (f m) (g m) (v m))) ms) (d\<lparr>app_tables := ?c\<rparr>) = Inr (e, ns)"
    "migrated_by ddl [] ?c (app_tables e)" "versions_in (app_tables e) = versions_in ?c" "has_columns (app_tables e)"
    "sc_versions (app_tables e) \<noteq> None"
    by auto
  moreover have "migrated_by ddl [] (app_tables d) (app_tables e)"
    using migrated_by_trans [OF quiet_statements(5) [OF b] e(2)] by simp
  moreover have "app_sql (backfill (f m) (g m) (v m)) d = Inr (d\<lparr>app_tables := ?c\<rparr>, 1)"
    unfolding app_sql_def b by simp
  then have "run_txn (map (\<lambda>m. app_sql (backfill (f m) (g m) (v m))) (m # ms)) d = Inr (e, 1 # ns)"
    unfolding list.map run_txn.simps using e(1) by simp
  ultimately show ?case
    using same by metis
qed

lemma calm_backfill:
  assumes "has_columns (schema_of h)" and "sc_versions (schema_of h) \<noteq> None"
  shows "\<exists>t. record_missing_checksums calm sha history ms h = (Inr (), t) \<and>
    migrated_by ddl [] (schema_of h) (schema_of t) \<and> versions_in (schema_of t) = versions_in (schema_of h)"
proof (cases "missing_checksums history ms = []")
  case True
  then show ?thesis by (auto simp: record_missing_checksums_def intro: migrated_by_refl)
next
  case False
  let ?ss = "map (\<lambda>m. app_sql (backfill (migration_checksum sha m) (mg_additive m) (mg_version m)))
    (missing_checksums history ms) :: 'a schema sql list"
  obtain e ns where e: "run_txn ?ss (ho_db h) = Inr (e, ns)" "migrated_by ddl [] (schema_of h) (app_tables e)"
    "versions_in (app_tables e) = versions_in (schema_of h)"
    using backfill_run [OF assms] by blast
  then have "submit calm ?ss h = (Inr ns, h\<lparr>ho_db := e, ho_clock := Suc (ho_clock h)\<rparr>)"
    using False by (intro calm_submit) auto
  with e False show ?thesis
    by (auto simp: record_missing_checksums_def)
qed

section \<open>The run and the next one\<close>

theorem calm_migrate_sets:
  assumes run: "migrate_sets calm sha ddl app sets h = (r, t)" and cols: "columns_ok (schema_of h)"
    and hs: "histories_of (baselined (schema_of h)) = Inr hs"
    and sums: "check_set_checksums sha hs (all_sets app sets) = Inr ()"
    and steps: "plan (all_sets app sets) hs = Inr steps"
  shows "\<exists>k \<le> length steps. migrated_by ddl (take k steps) (schema_of h) (schema_of t) \<and>
    (\<forall>hs'. histories_of (schema_of t) = Inr hs' \<longrightarrow> plan (all_sets app sets) hs' = Inr (drop k steps)) \<and>
    (case r of Inl e \<Rightarrow> k < length steps
     | Inr rep \<Rightarrow> k = length steps \<and> se_applied rep = map (\<lambda>p. (fst p, mg_version (snd p))) steps)"
proof -
  have "validate_sets (all_sets app sets) = Inr ()"
    using steps by (simp add: plan_Inr_iff validate_sets_iff)
  moreover obtain u where u: "migration_baseline calm h = (Inr (), u)" "schema_of u = baselined (schema_of h)"
    using calm_baseline [OF cols] by blast
  moreover obtain v where v: "recorded_set_migrations calm u = (Inr hs, v)" "ho_db v = ho_db u"
    using calm_histories [of u] hs u(2) by auto
  moreover obtain w where w: "(case hs APP_SET of None \<Rightarrow> ret ()
      | Some history \<Rightarrow> record_missing_checksums calm sha history app) v = (Inr (), w)"
    "migrated_by ddl [] (schema_of v) (schema_of w)" "versions_in (schema_of w) = versions_in (schema_of v)"
  proof (cases "hs APP_SET")
    case None
    then show ?thesis using that [of v] by (simp add: migrated_by_refl)
  next
    case (Some history)
    have "has_columns (schema_of v)" "sc_versions (schema_of v) \<noteq> None"
      using u(2) v(2) baselined_columns [of "schema_of h"] by simp_all
    from calm_backfill [OF this] Some that show ?thesis by (metis option.simps(5))
  qed
  ultimately have rest: "apply_steps calm sha ddl steps
      \<lparr>se_applied = [], se_current = (\<lambda>n. map_option (max_version \<circ> map rd_version) (hs n))\<rparr> w = (r, t)"
    using run sums steps by (simp add: migrate_sets_def)
  have "reads_as (schema_of v) hs"
    using reads_as_histories [OF hs] u(2) v(2) by simp
  then have "reads_as (schema_of w) hs"
    using w(3) by (simp add: reads_as_def)
  from calm_apply [OF rest steps this] obtain k hs' where k: "k \<le> length steps"
    "migrated_by ddl (take k steps) (schema_of w) (schema_of t)" "reads_as (schema_of t) hs'"
    "plan (all_sets app sets) hs' = Inr (drop k steps)"
    "case r of Inl e \<Rightarrow> k < length steps
     | Inr rep \<Rightarrow> k = length steps \<and> se_applied rep = map (\<lambda>p. (fst p, mg_version (snd p))) steps"
    unfolding set_report.select_convs append_Nil by blast
  have "migrated_by ddl [] (schema_of h) (schema_of w)"
    using migrated_by_trans [OF baselined_quiet(1) w(2) [unfolded v(2) u(2)]] by simp
  from migrated_by_trans [OF this k(2)] have "migrated_by ddl (take k steps) (schema_of h) (schema_of t)"
    by simp
  moreover have "plan (all_sets app sets) hs2 = Inr (drop k steps)" if "histories_of (schema_of t) = Inr hs2" for hs2
    using plan_reads [OF reads_as_histories [OF that] k(3)] k(4) by simp
  ultimately show ?thesis using k(1,5) by blast
qed

section \<open>A lost answer\<close>

text \<open>
  A batch whose answer was lost may have committed: the run then reports the migration as rolled back
  while its version is recorded.
\<close>

lemma lost_answer_reported_rolled_back:
  assumes "ow_fate W (ho_clock h) = AckLost e" and "statements (snd p) \<noteq> []"
    and "run_txn (step_statements sha ddl p) (ho_db (pass W h)) = Inr (d, ns)"
  shows "\<exists>t. apply_steps W sha ddl (p # ps) rep h = (Inl (Validation (''failed and was rolled back: '' @ message e)), t) \<and>
    uint (mg_version (snd p)) \<in> versions_in (schema_of t) (fst p)"
proof -
  have "submit W (step_statements sha ddl p) h = (Inl e, (pass W h)\<lparr>ho_db := d\<rparr>)"
    using assms by (simp add: submit_def)
  then have "rolled_back (submit W (step_statements sha ddl p)) h =
      (Inl (Validation (''failed and was rolled back: '' @ message e)), (pass W h)\<lparr>ho_db := d\<rparr>)"
    by (simp add: rolled_back_Inl)
  with assms(2) show ?thesis
    using step_versions [OF assms(3), of "fst p"] by auto
qed

end
