(* ===== verification/Migration_Theorems.thy ===== *)
theory Migration_Theorems
  imports Migration_Resume
begin

text \<open>
  A cell with one migration of its own, and a library of two whose second needs the cell's: what the
  witnesses of the properties about migrations evaluate. The host is the list of the statements
  that ran on it, and the digest of a text is the text.
\<close>

definition ex_app :: "migration list" where
  "ex_app = [migration_new 1 ''a'' ''A1; A2;'']"

definition ex_needs_app :: migration where
  "ex_needs_app = (migration_new 2 ''m'' ''L2'')\<lparr>mg_requires := [\<lparr>rq_set = APP_SET, rq_min = 1\<rparr>]\<rparr>"

definition ex_lib :: migration_set where
  "ex_lib = \<lparr>ms_name = ''lib'', ms_migrations = [migration_new 1 ''l'' ''L1'', ex_needs_app], ms_requires = []\<rparr>"

definition ex_sets :: "migration_set list" where
  "ex_sets = all_sets ex_app [ex_lib]"

definition ex_ddl :: "string \<Rightarrow> string list \<Rightarrow> error + string list" where
  "ex_ddl sql host = Inr (host @ [sql])"

definition ex_sha :: "string \<Rightarrow> string" where
  "ex_sha s = s"

definition ex_db :: "string list schema" where
  "ex_db = \<lparr>sc_columns = [], sc_versions = None, sc_sets = None, sc_host = []\<rparr>"

definition ex_start :: "string list migrator" where
  "ex_start = \<lparr>ho_db = \<lparr>lease_fence = [], rahi_receipt_head = [], rahi_receipt = [], rahi_processing = [],
     rahi_processing_attempt = [], outbox = [], outbox_sequence = 0, app_tables = ex_db\<rparr>,
     ho_superseded = [], ho_released = [], ho_clock = 0\<rparr>"

definition ex_steps :: "(string \<times> migration) list" where
  "ex_steps = [(''lib'', migration_new 1 ''l'' ''L1''), (APP_SET, migration_new 1 ''a'' ''A1; A2;''),
     (''lib'', ex_needs_app)]"

lemma ex_plan: "plan ex_sets Map.empty = Inr ex_steps"
  by code_simp

lemma ex_plan_baseline:
  "\<exists>hs. histories_of (baselined ex_db) = Inr hs \<and> plan ex_sets hs = Inr ex_steps \<and>
     check_set_checksums ex_sha hs ex_sets = Inr ()"
proof -
  have "case histories_of (baselined ex_db) of Inl e \<Rightarrow> False
    | Inr hs \<Rightarrow> plan ex_sets hs = Inr ex_steps \<and> check_set_checksums ex_sha hs ex_sets = Inr ()"
    by code_simp
  then show ?thesis by (auto split: sum.splits)
qed

lemma ex_run:
  "\<exists>rep t. migrate_sets calm ex_sha ex_ddl ex_app [ex_lib] ex_start = (Inr rep, t) \<and>
     sc_host (app_tables (ho_db t)) = [''L1'', ''A1'', ''A2'', ''L2'']"
proof -
  have "case migrate_sets calm ex_sha ex_ddl ex_app [ex_lib] ex_start of (r, t) \<Rightarrow>
    (case r of Inl e \<Rightarrow> False | Inr rep \<Rightarrow> sc_host (app_tables (ho_db t)) = [''L1'', ''A1'', ''A2'', ''L2''])"
    by code_simp
  then show ?thesis by (auto split: prod.splits sum.split_asm)
qed

text \<open>
  The properties of the migrations of a cell and of the libraries it links, with their witnesses.
\<close>

text \<open>
  The validation of the migration sets of a cell is exact. It accepts when the names are distinct,
  every list of versions ascends from above the baseline, every requirement names another set the
  cell carries at a version that set has, and the requirements between sets form no cycle; and it
  accepts nothing else. The search for a cycle ends on every graph.
\<close>

theorem set_validation_is_exact:
  "validate_sets sets = Inr () \<longleftrightarrow>
     distinct (map ms_name sets) \<and>
     (\<forall>s \<in> set sets. sorted_wrt (<) (map mg_version (ms_migrations s)) \<and>
        (\<forall>m \<in> set (ms_migrations s). 0 < mg_version m)) \<and>
     (\<forall>s \<in> set sets. \<forall>r \<in> set (declared_requirements s).
        \<exists>t \<in> set sets. ms_name t = rq_set r \<and> ms_name t \<noteq> ms_name s \<and> rq_min r \<le> last_version t) \<and>
     acyclic {(ms_name s, rq_set r) | s r. s \<in> set sets \<and> r \<in> set (declared_requirements s)}"
proof -
  have "set (set_edges sets) = {(ms_name s, rq_set r) | s r. s \<in> set sets \<and> r \<in> set (declared_requirements s)}"
    by (auto simp: set_edges_def)
  then show ?thesis by (simp add: validate_sets_iff valid_sets_def)
qed

theorem set_validation_is_exact_witness:
  "validate_sets ex_sets = Inr () \<and> distinct (map ms_name ex_sets)"
proof -
  have "validate_sets ex_sets = Inr ()" by code_simp
  with set_validation_is_exact [of ex_sets] show ?thesis by blast
qed

text \<open>
  C23: A plan exists exactly for valid sets over histories without a gap: the loop that orders the
  migrations is never stuck, whatever the requirements, so the refusal it ends with cannot happen.
\<close>

theorem plan_exists_exactly:
  "(\<exists>ps. plan sets hs = Inr ps) \<longleftrightarrow>
     validate_sets sets = Inr () \<and>
     (\<forall>s \<in> set sets. \<forall>m \<in> set (ms_migrations s).
        mg_version m \<in> set (history_of hs (ms_name s)) \<or>
        max_version (history_of hs (ms_name s)) \<le> mg_version m)"
  unfolding plan_Inr_iff validate_sets_iff gap_free_def pending_of_def by auto

theorem plan_exists_exactly_witness:
  "\<exists>ps. plan ex_sets Map.empty = Inr ps"
proof -
  have "validate_sets ex_sets = Inr ()" by code_simp
  then show ?thesis
    unfolding plan_exists_exactly by (simp add: history_of_def max_version_def BASELINE_VERSION_def)
qed

text \<open>
  C24: A plan is whole, lawful and resumable. Of every set it holds exactly the migrations the history
  lacks, in the order of the set; before each step, every requirement the migration carries is met
  by a recorded version or by a step planned before it; and planning again after any prefix of the
  plan was recorded gives exactly the steps that are left.
\<close>

theorem plan_is_whole_lawful_and_resumable:
  assumes "plan sets hs = Inr (before @ (n, m) # after)"
  shows "(\<forall>s \<in> set sets. steps_of (ms_name s) (before @ (n, m) # after) = pending_of hs s) \<and>
    (\<exists>s. by_name sets n = Some s \<and>
      (\<forall>r \<in> set (requirements_of s m). rq_min r = 0 \<or>
        (\<exists>v \<in> set (history_of hs (rq_set r)) \<union> mg_version ` set (steps_of (rq_set r) before). rq_min r \<le> v))) \<and>
    plan sets (fold (record_step sha) before hs) = Inr ((n, m) # after)"
  using plan_whole [OF assms] plan_meets_requirements [OF assms] plan_resumes [OF assms] by blast

theorem plan_is_whole_lawful_and_resumable_witness:
  "plan ex_sets (fold (record_step ex_sha) (take 2 ex_steps) Map.empty) = Inr [(''lib'', ex_needs_app)]"
proof -
  have "plan ex_sets Map.empty = Inr (take 2 ex_steps @ (''lib'', ex_needs_app) # [])"
    using ex_plan by (simp add: ex_steps_def numeral_2_eq_2)
  from plan_is_whole_lawful_and_resumable [OF this, of ex_sha] show ?thesis by blast
qed

text \<open>
  C25: Whatever other processes of the cluster migrate between its requests, and whatever becomes of
  its own requests, a run of \<^verbatim>\<open>migrate_sets\<close> leaves a store that differs from the one it found by some
  migrations having run, whole and in sequence, each once and each with its version recorded; no
  version is ever recorded twice.
\<close>

theorem migrations_run_whole_and_once:
  assumes "migrators_only ddl W" and "migrate_sets W sha ddl app sets h = (r, t)"
  shows "\<exists>log. run_host ddl (log_sql log) (sc_host (app_tables (ho_db h))) = Inr (sc_host (app_tables (ho_db t))) \<and>
    app_versions (app_tables (ho_db t)) = app_versions (app_tables (ho_db h)) @ log_app log \<and>
    set_versions (app_tables (ho_db t)) = set_versions (app_tables (ho_db h)) @ log_sets log \<and>
    (unique_versions (app_tables (ho_db h)) \<longrightarrow> unique_versions (app_tables (ho_db t)))"
  using migrators.keepsD [OF migrator_world.keeps_migrate_sets [OF migrator_world_iff [OF assms(1)]] assms(2)]
  by (simp add: migrates_def migrated_by_def)

theorem migrations_run_whole_and_once_witness:
  "\<exists>(t :: string list migrator) log. run_host ex_ddl (log_sql log) [] = Inr (sc_host (app_tables (ho_db t))) \<and>
     sc_host (app_tables (ho_db t)) = [''L1'', ''A1'', ''A2'', ''L2''] \<and> unique_versions (app_tables (ho_db t))"
proof -
  obtain rep t where t: "migrate_sets calm ex_sha ex_ddl ex_app [ex_lib] ex_start = (Inr rep, t)"
    "sc_host (app_tables (ho_db t)) = [''L1'', ''A1'', ''A2'', ''L2'']"
    using ex_run by blast
  have "migrators_only ex_ddl calm"
    by (simp add: migrators_only_def schemas.R_refl)
  have at_start: "sc_host (app_tables (ho_db ex_start)) = []" "unique_versions (app_tables (ho_db ex_start))"
    by (simp_all add: ex_start_def ex_db_def unique_versions_def app_versions_def set_versions_def)
  from migrations_run_whole_and_once [OF \<open>migrators_only ex_ddl calm\<close> t(1)] obtain log where
    "run_host ex_ddl (log_sql log) [] = Inr (sc_host (app_tables (ho_db t)))"
    "unique_versions (app_tables (ho_db t))"
    using at_start by auto
  with t(2) show ?thesis by blast
qed

text \<open>
  C26: An undisturbed run of \<^verbatim>\<open>migrate_sets\<close> applies a prefix of its plan, all of it exactly when it
  answers \<^verbatim>\<open>Ok\<close>, and reports what it applied; whatever it then reads back, the next run's plan is the
  steps that are left, so a run stopped by a failing statement is resumed and a second run after a
  whole one applies nothing.
\<close>

theorem migrate_sets_applies_and_resumes:
  assumes "migrate_sets calm sha ddl app sets h = (r, t)" and "columns_ok (app_tables (ho_db h))"
    and "histories_of (baselined (app_tables (ho_db h))) = Inr hs"
    and "check_set_checksums sha hs (all_sets app sets) = Inr ()"
    and "plan (all_sets app sets) hs = Inr steps"
  shows "\<exists>k \<le> length steps. migrated_by ddl (take k steps) (app_tables (ho_db h)) (app_tables (ho_db t)) \<and>
    (\<forall>hs'. histories_of (app_tables (ho_db t)) = Inr hs' \<longrightarrow> plan (all_sets app sets) hs' = Inr (drop k steps)) \<and>
    (case r of Inl e \<Rightarrow> k < length steps
     | Inr rep \<Rightarrow> k = length steps \<and> se_applied rep = map (\<lambda>p. (fst p, mg_version (snd p))) steps)"
  by (rule calm_migrate_sets [OF assms])

theorem migrate_sets_applies_and_resumes_witness:
  "\<exists>rep t. migrate_sets calm ex_sha ex_ddl ex_app [ex_lib] ex_start = (Inr rep, t) \<and>
     se_applied rep = [(''lib'', 1), (''app'', 1), (''lib'', 2)]"
proof -
  obtain rep t where t: "migrate_sets calm ex_sha ex_ddl ex_app [ex_lib] ex_start = (Inr rep, t)"
    using ex_run by blast
  obtain hs where "histories_of (baselined ex_db) = Inr hs" "plan ex_sets hs = Inr ex_steps"
    "check_set_checksums ex_sha hs ex_sets = Inr ()"
    using ex_plan_baseline by blast
  moreover have "columns_ok ex_db" by (simp add: columns_ok_def ex_db_def)
  ultimately have "se_applied rep = map (\<lambda>p. (fst p, mg_version (snd p))) ex_steps"
    using migrate_sets_applies_and_resumes [OF t, of hs ex_steps]
    by (auto simp: ex_start_def ex_sets_def)
  with t show ?thesis
    by (simp add: ex_steps_def APP_SET_def migration_new_def ex_needs_app_def)
qed

end
