(* ===== verification/Idp_Data.thy ===== *)
theory Idp_Data
  imports Store_Handle
begin

text \<open>
  \<^verbatim>\<open>crates/rahi-idp\<close>, the pure parts: claims and the principal they describe (\<^verbatim>\<open>principal.rs\<close>), scopes
  (\<^verbatim>\<open>scope.rs\<close>), the sealed envelope and its cookie (\<^verbatim>\<open>envelope.rs\<close>), JSON web tokens (\<^verbatim>\<open>session.rs\<close>) and
  the lifetime a bearer token is admitted for (\<^verbatim>\<open>bearer.rs\<close>). Base64, JSON, HMAC and RSA are third-party:
  the record \<open>idp_api\<close> holds them.
\<close>

section \<open>Text\<close>

definition rsplit_once :: "char \<Rightarrow> string \<Rightarrow> (string \<times> string) option" where
  "rsplit_once c s = map_option (\<lambda>(a, b). (rev b, rev a)) (split_once c (rev s))"

fun find_map :: "('a \<Rightarrow> 'b option) \<Rightarrow> 'a list \<Rightarrow> 'b option" where
  "find_map f [] = None"
| "find_map f (x # xs) = (case f x of None \<Rightarrow> find_map f xs | Some y \<Rightarrow> Some y)"

text \<open>\<^verbatim>\<open>HeaderValue::to_str\<close>: visible ASCII and the tab.\<close>

definition to_str :: "string \<Rightarrow> string option" where
  "to_str v = (if list_all (\<lambda>c. of_char c = (9 :: nat) \<or> 32 \<le> (of_char c :: nat) \<and> of_char c < (127 :: nat)) v
     then Some v else None)"

section \<open>Claims and the principal\<close>

record idp_claims =
  ic_sub :: "string option"
  ic_email :: "string option"
  ic_email_verified :: "bool option"
  ic_preferred_username :: "string option"
  ic_roles :: "string list"

definition subject :: "idp_claims \<Rightarrow> error + string" where
  "subject c =
     (case map_option trim (ic_sub c) of
        Some s \<Rightarrow> if s \<noteq> [] then Inr s else Inl (Unauthorized ''the IdP answer carries no subject'')
      | None \<Rightarrow> Inl (Unauthorized ''the IdP answer carries no subject''))"

definition is_email_verified :: "idp_claims \<Rightarrow> bool" where
  "is_email_verified c = (ic_email_verified c = Some True)"

definition role_set :: "idp_claims \<Rightarrow> string set" where
  "role_set c = set (filter (\<lambda>r. r \<noteq> []) (map trim (ic_roles c)))"

definition principal_of :: "string \<Rightarrow> idp_claims \<Rightarrow> u64 \<Rightarrow> principal" where
  "principal_of s c issued_at =
     \<lparr>p_sub = s,
      p_email = (case map_option trim (ic_email c) of None \<Rightarrow> None | Some e \<Rightarrow> if e \<noteq> [] then Some e else None),
      p_email_verified = is_email_verified c, p_roles = role_set c, p_issued_at = issued_at\<rparr>"

definition pinned :: "string \<Rightarrow> idp_claims \<Rightarrow> error + unit" where
  "pinned expected c =
     rbind (subject c) (\<lambda>answered.
       if answered = expected then Inr () else Inl (Unauthorized ''the IdP answered for another subject''))"

lemma pinned_Inr_iff: "pinned s c = Inr u \<longleftrightarrow> subject c = Inr s"
  by (auto simp: pinned_def)

definition scope_parse :: "string \<Rightarrow> string set" where
  "scope_parse claim = set (split_whitespace claim)"

section \<open>Cookies and the sealed envelope\<close>

datatype scheme = Secure | Plain

definition is_secure :: "scheme \<Rightarrow> bool" where
  "is_secure s = (s = Secure)"

record cookie =
  ck_scheme :: scheme
  ck_secure_name :: string
  ck_plain_name :: string

definition session_cookie :: "scheme \<Rightarrow> cookie" where
  "session_cookie s = \<lparr>ck_scheme = s, ck_secure_name = ''__Host-session'', ck_plain_name = ''session''\<rparr>"

definition login_cookie :: "scheme \<Rightarrow> cookie" where
  "login_cookie s = \<lparr>ck_scheme = s, ck_secure_name = ''__Host-login'', ck_plain_name = ''login''\<rparr>"

definition cookie_name :: "cookie \<Rightarrow> string" where
  "cookie_name c = (if is_secure (ck_scheme c) then ck_secure_name c else ck_plain_name c)"

definition cookie_set_for :: "cookie \<Rightarrow> string \<Rightarrow> u64 option \<Rightarrow> string" where
  "cookie_set_for c v max_age =
     cookie_name c @ ''='' @ v @ ''; Path=/; HttpOnly; SameSite=Lax''
     @ (case max_age of None \<Rightarrow> '''' | Some n \<Rightarrow> ''; Max-Age='' @ show_nat (unat n))
     @ (if is_secure (ck_scheme c) then ''; Secure'' else '''')"

definition cookie_set :: "cookie \<Rightarrow> string \<Rightarrow> string" where
  "cookie_set c v = cookie_set_for c v None"

definition cookie_clear :: "cookie \<Rightarrow> string" where
  "cookie_clear c =
     cookie_name c @ ''=; Path=/; HttpOnly; SameSite=Lax; Max-Age=0''
     @ (if is_secure (ck_scheme c) then ''; Secure'' else '''')"

definition cookie_value :: "string \<Rightarrow> string \<Rightarrow> string option" where
  "cookie_value header name =
     find_map (\<lambda>pair. case split_once CHR ''='' pair of
         None \<Rightarrow> None
       | Some (k, v) \<Rightarrow> if trim k = name then Some (trim v) else None)
       (split_on CHR '';'' header)"

record session_envelope =
  en_sid :: string
  en_sub :: string
  en_refresh_token :: string
  en_issued :: u64

definition envelope_rotated :: "session_envelope \<Rightarrow> string \<Rightarrow> u64 \<Rightarrow> session_envelope" where
  "envelope_rotated e token issued = e\<lparr>en_refresh_token := token, en_issued := issued\<rparr>"

record login_state =
  ls_state :: string
  ls_nonce :: string
  ls_verifier :: string
  ls_issued :: u64

section \<open>Third-party functions\<close>

datatype audience = One string | Many "string list"

definition audience_contains :: "audience \<Rightarrow> string \<Rightarrow> bool" where
  "audience_contains a wanted = (case a of One x \<Rightarrow> x = wanted | Many xs \<Rightarrow> wanted \<in> set xs)"

record jwt_header =
  jh_alg :: string
  jh_kid :: "string option"

record access_claims =
  ac_iss :: string
  ac_aud :: audience
  ac_exp :: u64
  ac_nbf :: "u64 option"
  ac_iat :: "u64 option"
  ac_jti :: "string option"
  ac_azp :: "string option"
  ac_scope :: "string option"
  ac_claims :: idp_claims

record id_token_payload =
  it_iss :: string
  it_aud :: audience
  it_exp :: u64
  it_nonce :: "string option"
  it_claims :: idp_claims

text \<open>A key of the set, reduced to the two components a signature is checked with.\<close>

record jwk =
  jk_n :: "string option"
  jk_e :: "string option"

record idp_api =
  ia_encode :: "string \<Rightarrow> string"
  ia_decode :: "string \<Rightarrow> string option"
  ia_sign :: "string \<Rightarrow> string \<Rightarrow> string"
  ia_rsa :: "string \<Rightarrow> string \<Rightarrow> string \<Rightarrow> string \<Rightarrow> bool"
  ia_sha256 :: "string \<Rightarrow> string"
  ia_header :: "string \<Rightarrow> jwt_header option"
  ia_access :: "string \<Rightarrow> access_claims option"
  ia_id_token :: "string \<Rightarrow> id_token_payload option"
  ia_write_envelope :: "session_envelope \<Rightarrow> string"
  ia_read_envelope :: "string \<Rightarrow> session_envelope option"
  ia_write_login :: "login_state \<Rightarrow> string"
  ia_read_login :: "string \<Rightarrow> login_state option"

definition login_challenge :: "idp_api \<Rightarrow> login_state \<Rightarrow> string" where
  "login_challenge A l = ia_encode A (ia_sha256 A (ls_verifier l))"

definition MIN_KEY_BYTES :: nat where "MIN_KEY_BYTES = 32"

definition session_key_from_bytes :: "string \<Rightarrow> error + string" where
  "session_key_from_bytes bytes =
     (if length bytes < MIN_KEY_BYTES then Inl (Config ''the session key is too short'') else Inr bytes)"

definition ascii_whitespace :: "char \<Rightarrow> bool" where
  "ascii_whitespace c = (of_char c \<in> {9, 10, 12, 13, 32 :: nat})"

definition session_key_load :: "string \<Rightarrow> error + string" where
  "session_key_load bytes =
     (if length bytes = MIN_KEY_BYTES then session_key_from_bytes bytes
      else session_key_from_bytes (rev (dropWhile ascii_whitespace (rev bytes))))"

definition seal_text :: "idp_api \<Rightarrow> string \<Rightarrow> string \<Rightarrow> string" where
  "seal_text A key json =
     (let payload = ia_encode A json
      in payload @ CHR ''.'' # ia_encode A (ia_sign A key payload))"

definition open_text :: "idp_api \<Rightarrow> string \<Rightarrow> (string \<Rightarrow> 'v option) \<Rightarrow> string \<Rightarrow> error + 'v" where
  "open_text A key parse raw =
     rbind (or_error (Unauthorized ''the session cookie carries no signature'') (rsplit_once CHR ''.'' raw)) (\<lambda>(payload, mac).
     rbind (or_error (Unauthorized ''the signature is not base64'') (ia_decode A mac)) (\<lambda>tag.
     if ia_sign A key payload \<noteq> tag then Inl (Unauthorized ''the signature does not verify'')
     else
       rbind (or_error (Unauthorized ''the payload is not base64'') (ia_decode A payload)) (\<lambda>json.
       or_error (Unauthorized ''the payload is not the shape this cell seals'') (parse json))))"

definition seal_envelope :: "idp_api \<Rightarrow> string \<Rightarrow> session_envelope \<Rightarrow> string" where
  "seal_envelope A key e = seal_text A key (ia_write_envelope A e)"

definition open_envelope :: "idp_api \<Rightarrow> string \<Rightarrow> string \<Rightarrow> error + session_envelope" where
  "open_envelope A key raw = open_text A key (ia_read_envelope A) raw"

definition seal_login :: "idp_api \<Rightarrow> string \<Rightarrow> login_state \<Rightarrow> string" where
  "seal_login A key l = seal_text A key (ia_write_login A l)"

definition open_login :: "idp_api \<Rightarrow> string \<Rightarrow> string \<Rightarrow> error + login_state" where
  "open_login A key raw = open_text A key (ia_read_login A) raw"

section \<open>Tokens\<close>

definition ALG_RS256 :: string where "ALG_RS256 = ''RS256''"

definition split_jwt :: "string \<Rightarrow> error + string \<times> string \<times> string \<times> string" where
  "split_jwt token =
     rbind (or_error (Unauthorized ''not a three-part JWT'') (rsplit_once CHR ''.'' token)) (\<lambda>(signing_input, signature).
     rbind (or_error (Unauthorized ''not a three-part JWT'') (rsplit_once CHR ''.'' signing_input)) (\<lambda>(header, payload).
     Inr (signing_input, signature, header, payload)))"

definition decode_segment :: "idp_api \<Rightarrow> (string \<Rightarrow> 'v option) \<Rightarrow> string \<Rightarrow> error + 'v" where
  "decode_segment A parse segment =
     rbind (or_error (Unauthorized ''segment is not base64url'') (ia_decode A segment)) (\<lambda>bytes.
     or_error (Unauthorized ''segment does not parse'') (parse bytes))"

definition key_component :: "idp_api \<Rightarrow> string option \<Rightarrow> error + string" where
  "key_component A c =
     rbind (or_error (Unauthorized ''the signing key publishes no component'') c) (\<lambda>raw.
     or_error (Unauthorized ''the component is not base64url'') (ia_decode A raw))"

definition verify_rs256 :: "idp_api \<Rightarrow> jwk \<Rightarrow> string \<Rightarrow> string \<Rightarrow> error + unit" where
  "verify_rs256 A k signing_input signature =
     rbind (key_component A (jk_n k)) (\<lambda>n.
     rbind (key_component A (jk_e k)) (\<lambda>e.
     rbind (or_error (Unauthorized ''the signature is not base64url'') (ia_decode A signature)) (\<lambda>sig.
     ensure (ia_rsa A n e signing_input sig) (Unauthorized ''the signature does not verify under the key''))))"

text \<open>The header of a token: the algorithm and the key it names.\<close>

definition token_kid :: "idp_api \<Rightarrow> string \<Rightarrow> error + string" where
  "token_kid A header =
     rbind (decode_segment A (ia_header A) header) (\<lambda>h.
     if jh_alg h \<noteq> ALG_RS256 then Inl (Unauthorized ''this chassis accepts RS256 only'')
     else or_error (Unauthorized ''the header names no key id'') (jh_kid h))"

definition LEEWAY_SECONDS :: u64 where "LEEWAY_SECONDS = 60"
definition L_MAX_SECONDS :: u64 where "L_MAX_SECONDS = 86400"

definition checked_add :: "u64 \<Rightarrow> u64 \<Rightarrow> u64 option" where
  "checked_add a b = (if uint a + uint b < 2 ^ 64 then Some (a + b) else None)"

definition checked_sub :: "u64 \<Rightarrow> u64 \<Rightarrow> u64 option" where
  "checked_sub a b = (if b \<le> a then Some (a - b) else None)"

definition saturating_sub :: "u64 \<Rightarrow> u64 \<Rightarrow> u64" where
  "saturating_sub a b = (if b \<le> a then a - b else 0)"

definition admit_lifetime :: "u64 \<Rightarrow> access_claims \<Rightarrow> u64 \<Rightarrow> error + u64" where
  "admit_lifetime lifetime c now =
     rbind (or_error (Unauthorized ''the token carries no iat'') (ac_iat c)) (\<lambda>iat.
     rbind (or_error (Unauthorized ''the token expires before it was issued'') (checked_sub (ac_exp c) iat)) (\<lambda>span.
     if L_MAX_SECONDS < span then Inl (Unauthorized ''the lifetime exceeds the maximum'')
     else if lifetime < span then Inl (Unauthorized ''the lifetime exceeds the ceiling of this cell'')
     else
       rbind (or_error (Unauthorized ''the clock is beyond the range'') (checked_add now LEEWAY_SECONDS)) (\<lambda>horizon.
       if horizon < iat then Inl (Unauthorized ''the token was issued in the future'')
       else
         rbind (or_error (Unauthorized ''the expiry is beyond the range'') (checked_add (ac_exp c) LEEWAY_SECONDS)) (\<lambda>valid_until.
         if valid_until \<le> now then Inl (Unauthorized ''the token has expired'')
         else if (case ac_nbf c of None \<Rightarrow> False | Some nbf \<Rightarrow> horizon < nbf)
         then Inl (Unauthorized ''the token is not valid yet'')
         else Inr iat))))"

end
