(* ===== verification/Idp_State.thy ===== *)
theory Idp_State
  imports Idp_Data
begin

text \<open>
  What a process of the identity crate keeps and reaches: the durable revocation tables of
  \<^verbatim>\<open>crates/rahi-store/src/store.rs\<close> through the store's handle, the assertions and counters of the
  cache group (\<^verbatim>\<open>cache.rs\<close>), the two key sets of \<^verbatim>\<open>jwks.rs\<close>, and the decisions it refused with.
  \<open>idp_world\<close> says what each call meets: the clock, what others and the expiry did to the cache, what
  the IdP answers.
\<close>

record session =
  se_principal :: principal
  se_expires :: u64

record token_response =
  tr_access_token :: string
  tr_id_token :: "string option"
  tr_refresh_token :: "string option"
  tr_expires_in :: "u64 option"

record jwks_sets =
  js_current :: "string \<Rightarrow> jwk option"
  js_previous :: "string \<Rightarrow> jwk option"
  js_refreshed_at :: u64

record revocations =
  rv_jti :: "(string \<times> int) list"
  rv_sub :: "(string \<times> int) list"
  rv_floor :: "int option"
  rv_transitions :: "(string \<times> int \<times> string) list"

type_synonym session_cache = "string \<Rightarrow> (session \<times> u32 option) option"

record idp =
  id_store :: "revocations handle"
  id_sets :: jwks_sets
  id_cache :: session_cache
  id_counters :: "string \<Rightarrow> int option"
  id_denials :: "(string \<times> string) list"
  id_tick :: nat

record idp_world =
  iw_store :: "revocations store_world"
  iw_now :: "nat \<Rightarrow> u64"
  iw_cache :: "nat \<Rightarrow> session_cache \<Rightarrow> session_cache"
  iw_counters :: "nat \<Rightarrow> (string \<Rightarrow> int option) \<Rightarrow> string \<Rightarrow> int option"
  iw_fault :: "nat \<Rightarrow> error option"
  iw_fetch :: "nat \<Rightarrow> error + (string \<Rightarrow> jwk option)"
  iw_token :: "nat \<Rightarrow> (string \<times> string) list \<Rightarrow> error + token_response"
  iw_userinfo :: "nat \<Rightarrow> string \<Rightarrow> error + idp_claims"
  iw_revoke :: "nat \<Rightarrow> string \<Rightarrow> error + unit"
  iw_end_sessions :: "nat \<Rightarrow> string \<Rightarrow> error + unit"
  iw_entropy :: "nat \<Rightarrow> error + string"
  iw_refuse :: "nat \<Rightarrow> string"

section \<open>Calls\<close>

definition tick :: "idp \<Rightarrow> idp" where
  "tick s = s\<lparr>id_tick := Suc (id_tick s)\<rparr>"

definition now :: "idp_world \<Rightarrow> (idp, u64) op" where
  "now W = (\<lambda>s. (Inr (iw_now W (id_tick s)), tick s))"

text \<open>A call that answers from outside and leaves the state alone.\<close>

definition ask :: "(nat \<Rightarrow> error + 'v) \<Rightarrow> (idp, 'v) op" where
  "ask f = (\<lambda>s. (f (id_tick s), tick s))"

definition on_store :: "(revocations handle, 'v) op \<Rightarrow> (idp, 'v) op" where
  "on_store m = (\<lambda>s. case m (id_store s) of (r, t) \<Rightarrow> (r, s\<lparr>id_store := t\<rparr>))"

text \<open>The cache, behind what others and the expiry did to it.\<close>

definition met_cache :: "idp_world \<Rightarrow> idp \<Rightarrow> idp" where
  "met_cache W s = (tick s)\<lparr>id_cache := iw_cache W (id_tick s) (id_cache s)\<rparr>"

definition kv_put :: "idp_world \<Rightarrow> string \<Rightarrow> session \<Rightarrow> u32 option \<Rightarrow> (idp, unit) op" where
  "kv_put W k v ttl = (\<lambda>s.
     case iw_fault W (id_tick s) of
       Some e \<Rightarrow> (Inl e, met_cache W s)
     | None \<Rightarrow> (Inr (), (met_cache W s)\<lparr>id_cache := (id_cache (met_cache W s))(k \<mapsto> (v, ttl))\<rparr>))"

definition kv_get :: "idp_world \<Rightarrow> string \<Rightarrow> (idp, session option) op" where
  "kv_get W k = (\<lambda>s.
     case iw_fault W (id_tick s) of
       Some e \<Rightarrow> (Inl e, met_cache W s)
     | None \<Rightarrow> (Inr (map_option fst (id_cache (met_cache W s) k)), met_cache W s))"

definition kv_del :: "idp_world \<Rightarrow> string \<Rightarrow> (idp, unit) op" where
  "kv_del W k = (\<lambda>s.
     case iw_fault W (id_tick s) of
       Some e \<Rightarrow> (Inl e, met_cache W s)
     | None \<Rightarrow> (Inr (), (met_cache W s)\<lparr>id_cache := (id_cache (met_cache W s))(k := None)\<rparr>))"

definition counter_add :: "idp_world \<Rightarrow> string \<Rightarrow> int \<Rightarrow> (idp, int) op" where
  "counter_add W k step = (\<lambda>s.
     let before = iw_counters W (id_tick s) (id_counters s);
         n = (case before k of None \<Rightarrow> 0 | Some v \<Rightarrow> v) + step
     in case iw_fault W (id_tick s) of
          Some e \<Rightarrow> (Inl e, (tick s)\<lparr>id_counters := before\<rparr>)
        | None \<Rightarrow> (Inr n, (tick s)\<lparr>id_counters := before(k \<mapsto> n)\<rparr>))"

text \<open>\<^verbatim>\<open>Kernel::refuse\<close>: the refusal is queued for the ledger and its id comes back.\<close>

definition kernel_refuse :: "idp_world \<Rightarrow> string \<Rightarrow> string \<Rightarrow> (idp, string) op" where
  "kernel_refuse W kind who = (\<lambda>s.
     (Inr (iw_refuse W (id_tick s)), (tick s)\<lparr>id_denials := id_denials s @ [(kind, who)]\<rparr>))"

section \<open>The revocation tables\<close>

definition sql_seconds :: "u64 \<Rightarrow> error + int" where
  "sql_seconds v =
     (if uint v \<le> i64_max then Inr (uint v) else Inl (Validation ''does not fit a revocation table''))"

definition revoked_seconds :: "int \<Rightarrow> u64" where
  "revoked_seconds v = (case i64_to_u64 v of None \<Rightarrow> 0 | Some u \<Rightarrow> u)"

definition insert_jti :: "string \<Rightarrow> int \<Rightarrow> revocations \<Rightarrow> error + revocations" where
  "insert_jti jti v r =
     Inr (if map_of (rv_jti r) jti \<noteq> None then r else r\<lparr>rv_jti := rv_jti r @ [(jti, v)]\<rparr>)"

definition raise_sub :: "string \<Rightarrow> int \<Rightarrow> revocations \<Rightarrow> error + revocations" where
  "raise_sub sub v r =
     Inr (case map_of (rv_sub r) sub of
            None \<Rightarrow> r\<lparr>rv_sub := rv_sub r @ [(sub, v)]\<rparr>
          | Some old \<Rightarrow> r\<lparr>rv_sub := AList.update sub (max old v) (rv_sub r)\<rparr>)"

definition raise_floor :: "int \<Rightarrow> revocations \<Rightarrow> error + revocations" where
  "raise_floor v r =
     Inr (r\<lparr>rv_floor := Some (case rv_floor r of None \<Rightarrow> v | Some old \<Rightarrow> max old v)\<rparr>)"

definition upsert_transition :: "string \<Rightarrow> int \<Rightarrow> revocations \<Rightarrow> error + revocations" where
  "upsert_transition t v r =
     Inr (case map_of (rv_transitions r) t of
            None \<Rightarrow> r\<lparr>rv_transitions := rv_transitions r @ [(t, v, ''floored'')]\<rparr>
          | Some (old, _) \<Rightarrow> r\<lparr>rv_transitions := AList.update t (old, ''floored'') (rv_transitions r)\<rparr>)"

definition execute_one :: "revocations store_world \<Rightarrow> (revocations \<Rightarrow> error + revocations) \<Rightarrow> (revocations handle, unit) op" where
  "execute_one W f = obind (submit W [app_sql f]) (\<lambda>_. ret ())"

definition record_jti_revocation :: "revocations store_world \<Rightarrow> string \<Rightarrow> u64 \<Rightarrow> (revocations handle, unit) op" where
  "record_jti_revocation W jti v = obind (lift (sql_seconds v)) (\<lambda>i. execute_one W (insert_jti jti i))"

definition record_subject_revocation :: "revocations store_world \<Rightarrow> string \<Rightarrow> u64 \<Rightarrow> (revocations handle, unit) op" where
  "record_subject_revocation W sub v = obind (lift (sql_seconds v)) (\<lambda>i. execute_one W (raise_sub sub i))"

definition raise_revocation_floor :: "revocations store_world \<Rightarrow> u64 \<Rightarrow> (revocations handle, unit) op" where
  "raise_revocation_floor W v = obind (lift (sql_seconds v)) (\<lambda>i. execute_one W (raise_floor i))"

definition record_transition_floor :: "revocations store_world \<Rightarrow> string \<Rightarrow> u64 \<Rightarrow> (revocations handle, unit) op" where
  "record_transition_floor W t v =
     obind (lift (sql_seconds v)) (\<lambda>i.
     obind (submit W [app_sql (upsert_transition t i), app_sql (raise_floor i)]) (\<lambda>_. ret ()))"

definition first_row :: "'r list \<Rightarrow> 'r option" where
  "first_row rows = (case rows of [] \<Rightarrow> None | r # _ \<Rightarrow> Some r)"

definition jti_revoked_at :: "revocations store_world \<Rightarrow> string \<Rightarrow> (revocations handle, u64 option) op" where
  "jti_revoked_at W jti =
     obind (read_consistent W (\<lambda>d. map snd (filter (\<lambda>p. fst p = jti) (rv_jti (app_tables d))))) (\<lambda>rows.
     ret (map_option revoked_seconds (first_row rows)))"

definition subject_revoked_at :: "revocations store_world \<Rightarrow> string \<Rightarrow> (revocations handle, u64 option) op" where
  "subject_revoked_at W sub =
     obind (read_consistent W (\<lambda>d. map snd (filter (\<lambda>p. fst p = sub) (rv_sub (app_tables d))))) (\<lambda>rows.
     ret (map_option revoked_seconds (first_row rows)))"

definition floor_rows :: "revocations \<Rightarrow> int list" where
  "floor_rows r = (case rv_floor r of None \<Rightarrow> [] | Some v \<Rightarrow> [v])"

definition revocation_floor :: "revocations store_world \<Rightarrow> (revocations handle, u64 option) op" where
  "revocation_floor W =
     obind (read_consistent W (floor_rows \<circ> app_tables)) (\<lambda>rows.
     ret (case first_row rows of None \<Rightarrow> None | Some v \<Rightarrow> i64_to_u64 v))"

definition is_jti_revoked :: "revocations store_world \<Rightarrow> string \<Rightarrow> (revocations handle, bool) op" where
  "is_jti_revoked W jti = obind (jti_revoked_at W jti) (\<lambda>r. ret (r \<noteq> None))"

definition is_subject_denied :: "revocations store_world \<Rightarrow> string \<Rightarrow> u64 option \<Rightarrow> (revocations handle, bool) op" where
  "is_subject_denied W sub issued_at =
     obind (subject_revoked_at W sub) (\<lambda>r.
     ret (case r of None \<Rightarrow> False
          | Some before \<Rightarrow> (case issued_at of None \<Rightarrow> True | Some iat \<Rightarrow> iat \<le> before)))"

section \<open>The key sets\<close>

definition u64_add :: "u64 \<Rightarrow> u64 \<Rightarrow> u64" where
  "u64_add a b = u64_saturating_add a b"

definition sets_get :: "jwks_sets \<Rightarrow> string \<Rightarrow> u64 \<Rightarrow> u64 \<Rightarrow> jwk option" where
  "sets_get js kid at interval =
     (case js_current js kid of
        Some k \<Rightarrow> Some k
      | None \<Rightarrow> if at < u64_add (js_refreshed_at js) interval then js_previous js kid else None)"

definition jwks_rotate :: "idp_world \<Rightarrow> u64 \<Rightarrow> (idp, unit) op" where
  "jwks_rotate W at =
     obind (ask (iw_fetch W)) (\<lambda>fetched s.
       (Inr (), s\<lparr>id_sets := \<lparr>js_current = fetched, js_previous = js_current (id_sets s), js_refreshed_at = at\<rparr>\<rparr>))"

definition jwks_lookup :: "string \<Rightarrow> u64 \<Rightarrow> u64 \<Rightarrow> (idp, jwk option) op" where
  "jwks_lookup kid at interval = (\<lambda>s. (Inr (sets_get (id_sets s) kid at interval), s))"

definition jwks_key :: "idp_world \<Rightarrow> u64 \<Rightarrow> string \<Rightarrow> (idp, jwk) op" where
  "jwks_key W interval kid =
     obind (now W) (\<lambda>at.
     obind (\<lambda>s. if interval \<le> saturating_sub at (js_refreshed_at (id_sets s)) then jwks_rotate W at s else ret () s) (\<lambda>_.
     obind (jwks_lookup kid at interval) (\<lambda>found.
     case found of
       Some k \<Rightarrow> ret k
     | None \<Rightarrow>
         obind (jwks_rotate W at) (\<lambda>_.
         obind (jwks_lookup kid at interval) (\<lambda>again.
         lift (or_error (Unauthorized ''no signing key with that id is published'') again))))))"

end
