(* ===== verification/Idp_Session.thy ===== *)
theory Idp_Session
  imports Idp_State
begin

text \<open>
  Browser sessions: the assertions of \<^verbatim>\<open>session.rs\<close>, the renewal of \<^verbatim>\<open>refresh.rs\<close>, the login and logout of
  \<^verbatim>\<open>login.rs\<close>, and the layer and role gate of \<^verbatim>\<open>extractor.rs\<close>. A request and a response are what those
  layers read and write of them; the handler behind a layer is a function from the one to the other.
\<close>

section \<open>Requests and answers\<close>

record bearer =
  be_client_id :: string
  be_principal :: principal
  be_scopes :: "string set"
  be_jti :: "string option"
  be_service :: bool

record http_request =
  rq_method :: string
  rq_path :: string
  rq_headers :: "(string \<times> string) list"
  rq_principal :: "principal option"
  rq_bearer :: "bearer option"

record response =
  rs_status :: nat
  rs_headers :: "(string \<times> string) list"
  rs_error :: "error option"

definition header_str :: "http_request \<Rightarrow> string \<Rightarrow> string option" where
  "header_str r name = (case map_of (rq_headers r) name of None \<Rightarrow> None | Some v \<Rightarrow> to_str v)"

fun status_of :: "error \<Rightarrow> nat" where
  "status_of (Validation _) = 400"
| "status_of (Unauthorized _) = 401"
| "status_of (Denied _) = 403"
| "status_of (NotFound _) = 404"
| "status_of (Conflict _) = 409"
| "status_of (Stale _) = 503"
| "status_of (Integrity _) = 500"
| "status_of (Io _) = 500"
| "status_of (Config _) = 500"
| "status_of (Upstream _) = 502"

definition answer_error :: "error \<Rightarrow> response" where
  "answer_error e =
     \<lparr>rs_status = status_of e, rs_headers = [(''content-type'', ''application/json'')], rs_error = Some e\<rparr>"

definition with_cookies :: "response \<Rightarrow> string list \<Rightarrow> response" where
  "with_cookies r cs = r\<lparr>rs_headers := rs_headers r @ map (\<lambda>c. (''set-cookie'', c)) (filter (\<lambda>c. to_str c \<noteq> None) cs)\<rparr>"

text \<open>The decision id a denial's message starts with.\<close>

definition denial_decision_id :: "error \<Rightarrow> string option" where
  "denial_decision_id e =
     (case e of
        Denied m \<Rightarrow>
          (case find (\<lambda>n. take 2 (drop n m) = '': '') [0..<length m] of
             None \<Rightarrow> None
           | Some n \<Rightarrow>
               let i = take n m
               in if i \<noteq> [] \<and> CHR '':'' \<in> set i \<and> \<not> list_ex ascii_space i then Some i else None)
      | _ \<Rightarrow> None)"

section \<open>The context\<close>

record sessions =
  sx_api :: idp_api
  sx_issuer :: string
  sx_origin :: string
  sx_client_id :: string
  sx_client_secret :: string
  sx_redirect_uri :: string
  sx_loopback :: string
  sx_scheme :: scheme
  sx_key :: string
  sx_access_ttl :: u64
  sx_login_ttl :: u64
  sx_interval :: u64
  sx_authorize_url :: "string option"
  sx_revocation_endpoint :: "string option"
  sx_end_session :: string

definition ISSUER_PATH :: string where "ISSUER_PATH = ''/auth/v1/''"
definition SESSION_PREFIX :: string where "SESSION_PREFIX = ''/session''"
definition CALLBACK_PATH :: string where "CALLBACK_PATH = ''/callback''"

definition strip_suffix :: "string \<Rightarrow> string \<Rightarrow> string option" where
  "strip_suffix p s = (if ends_with p s then Some (take (length s - length p) s) else None)"

text \<open>The two refusals of \<^verbatim>\<open>Sessions::new\<close>; what it answers is the origin.\<close>

definition sessions_new :: "string \<Rightarrow> string \<Rightarrow> error + string" where
  "sessions_new issuer redirect_uri =
     rbind (or_error (Config ''the issuer does not end in the issuer path'') (strip_suffix ISSUER_PATH issuer)) (\<lambda>origin.
     if redirect_uri \<noteq> origin @ SESSION_PREFIX @ CALLBACK_PATH
     then Inl (Config ''the registered redirect URI is not the callback route'')
     else Inr origin)"

definition back_channel :: "sessions \<Rightarrow> string \<Rightarrow> string" where
  "back_channel S endpoint =
     (case strip_prefix (sx_origin S) endpoint of None \<Rightarrow> endpoint | Some path \<Rightarrow> sx_loopback S @ path)"

section \<open>Assertions\<close>

definition is_expired :: "session \<Rightarrow> u64 \<Rightarrow> bool" where
  "is_expired se at = (se_expires se \<le> at)"

definition cache_key :: "string \<Rightarrow> string" where
  "cache_key sid = ''session:'' @ sid"

definition expiry :: "idp_world \<Rightarrow> sessions \<Rightarrow> u64 option \<Rightarrow> (idp, u64) op" where
  "expiry W S expires_in =
     obind (now W) (\<lambda>at.
     ret (u64_add at (min (case expires_in of None \<Rightarrow> sx_access_ttl S | Some n \<Rightarrow> n) (sx_access_ttl S))))"

definition u64_to_u32 :: "u64 \<Rightarrow> u32" where
  "u64_to_u32 v = (if uint v < 2 ^ 32 then ucast v else - 1)"

definition store_assertion :: "idp_world \<Rightarrow> string \<Rightarrow> session \<Rightarrow> (idp, unit) op" where
  "store_assertion W sid se =
     obind (now W) (\<lambda>at.
     kv_put W (cache_key sid) se (Some (u64_to_u32 (saturating_sub (se_expires se) at))))"

definition load_assertion :: "idp_world \<Rightarrow> string \<Rightarrow> (idp, session option) op" where
  "load_assertion W sid =
     obind (kv_get W (cache_key sid)) (\<lambda>cached.
     case cached of
       None \<Rightarrow> ret None
     | Some se \<Rightarrow> obind (now W) (\<lambda>at. ret (if is_expired se at then None else Some se)))"

definition drop_assertion :: "idp_world \<Rightarrow> string \<Rightarrow> (idp, unit) op" where
  "drop_assertion W sid = kv_del W (cache_key sid)"

definition mint :: "idp_world \<Rightarrow> sessions \<Rightarrow> string \<Rightarrow> string \<Rightarrow> idp_claims \<Rightarrow> u64 option \<Rightarrow> (idp, session) op" where
  "mint W S sid sub c expires_in =
     obind (now W) (\<lambda>at.
     obind (expiry W S expires_in) (\<lambda>e.
     let se = \<lparr>se_principal = principal_of sub c at, se_expires = e\<rparr>
     in obind (store_assertion W sid se) (\<lambda>_. ret se)))"

section \<open>The identity provider\<close>

definition idp_token :: "idp_world \<Rightarrow> sessions \<Rightarrow> (string \<times> string) list \<Rightarrow> (idp, token_response) op" where
  "idp_token W S form =
     ask (\<lambda>n. iw_token W n (form @ [(''client_id'', sx_client_id S), (''client_secret'', sx_client_secret S)]))"

definition userinfo :: "idp_world \<Rightarrow> string \<Rightarrow> (idp, idp_claims) op" where
  "userinfo W access_token = ask (\<lambda>n. iw_userinfo W n access_token)"

definition idp_revoke :: "idp_world \<Rightarrow> sessions \<Rightarrow> string \<Rightarrow> (idp, unit) op" where
  "idp_revoke W S refresh_token =
     (case sx_revocation_endpoint S of
        None \<Rightarrow> fail (Upstream ''no revocation endpoint is published'')
      | Some _ \<Rightarrow> ask (\<lambda>n. iw_revoke W n refresh_token))"

definition verify_id_token :: "idp_world \<Rightarrow> sessions \<Rightarrow> string \<Rightarrow> string \<Rightarrow> (idp, idp_claims) op" where
  "verify_id_token W S token nonce =
     obind (lift (split_jwt token)) (\<lambda>(signing_input, signature, header, payload).
     obind (lift (token_kid (sx_api S) header)) (\<lambda>kid.
     obind (jwks_key W (sx_interval S) kid) (\<lambda>k.
     obind (lift (verify_rs256 (sx_api S) k signing_input signature)) (\<lambda>_.
     obind (lift (decode_segment (sx_api S) (ia_id_token (sx_api S)) payload)) (\<lambda>c.
     if it_iss c \<noteq> sx_issuer S then fail (Unauthorized ''issued by another issuer'')
     else if \<not> audience_contains (it_aud c) (sx_client_id S) then fail (Unauthorized ''not for this client'')
     else
       obind (now W) (\<lambda>at.
       if it_exp c \<le> at then fail (Unauthorized ''the id token has expired'')
       else if it_nonce c = Some nonce then ret (it_claims c)
       else fail (Unauthorized ''the nonce is not the one this login sent'')))))))"

section \<open>Renewal\<close>

definition renew :: "idp_world \<Rightarrow> sessions \<Rightarrow> session_envelope \<Rightarrow> (idp, session \<times> session_envelope) op" where
  "renew W S e =
     obind (idp_token W S [(''grant_type'', ''refresh_token''), (''refresh_token'', en_refresh_token e)]) (\<lambda>granted.
     obind (userinfo W (tr_access_token granted)) (\<lambda>c.
     obind (lift (pinned (en_sub e) c)) (\<lambda>_.
     obind (mint W S (en_sid e) (en_sub e) c (tr_expires_in granted)) (\<lambda>se.
     let rotated = (case tr_refresh_token granted of None \<Rightarrow> en_refresh_token e | Some t \<Rightarrow> t)
     in obind (now W) (\<lambda>at. ret (se, envelope_rotated e rotated at))))))"

definition ends_the_session :: "error \<Rightarrow> bool" where
  "ends_the_session e = (case e of Unauthorized _ \<Rightarrow> True | _ \<Rightarrow> False)"

section \<open>Login and logout\<close>

definition login_fresh :: "idp_world \<Rightarrow> u64 \<Rightarrow> (idp, login_state) op" where
  "login_fresh W issued =
     obind (ask (iw_entropy W)) (\<lambda>state.
     obind (ask (iw_entropy W)) (\<lambda>nonce.
     obind (ask (iw_entropy W)) (\<lambda>verifier.
     ret \<lparr>ls_state = state, ls_nonce = nonce, ls_verifier = verifier, ls_issued = issued\<rparr>)))"

definition redirect :: "string \<Rightarrow> string list \<Rightarrow> error + response" where
  "redirect location cookies =
     (case to_str location of
        None \<Rightarrow> Inl (Upstream ''the redirect target is not a header value'')
      | Some l \<Rightarrow> Inr (with_cookies \<lparr>rs_status = 303, rs_headers = [(''location'', l)], rs_error = None\<rparr> cookies))"

text \<open>\<open>append_query\<close> writes the query pairs of a URL; \<open>None\<close> is an endpoint that is not a URL.\<close>

definition authorize ::
  "idp_world \<Rightarrow> sessions \<Rightarrow> (string \<Rightarrow> (string \<times> string) list \<Rightarrow> string) \<Rightarrow> (idp, response) op" where
  "authorize W S append_query =
     obind (now W) (\<lambda>at.
     obind (login_fresh W at) (\<lambda>login.
     obind (lift (or_error (Upstream ''the authorization endpoint is not a URL'') (sx_authorize_url S))) (\<lambda>url.
     lift (redirect
       (append_query url
          [(''response_type'', ''code''), (''client_id'', sx_client_id S), (''redirect_uri'', sx_redirect_uri S),
           (''scope'', ''openid profile email groups''), (''state'', ls_state login), (''nonce'', ls_nonce login),
           (''code_challenge'', login_challenge (sx_api S) login), (''code_challenge_method'', ''S256'')])
       [cookie_set_for (login_cookie (sx_scheme S)) (seal_login (sx_api S) (sx_key S) login) (Some (sx_login_ttl S))]))))"

record callback =
  cb_code :: "string option"
  cb_state :: "string option"
  cb_error :: "string option"

definition constant_time_eq :: "string \<Rightarrow> string \<Rightarrow> bool" where
  "constant_time_eq l r = (length l = length r \<and> l \<noteq> [] \<and> list_all2 (=) l r)"

lemma constant_time_eq_iff: "constant_time_eq l r \<longleftrightarrow> l = r \<and> l \<noteq> []"
  by (auto simp: constant_time_eq_def list.rel_eq)

text \<open>What a finished login hands to the browser: the envelope, and where it goes.\<close>

definition establish :: "idp_world \<Rightarrow> sessions \<Rightarrow> callback \<Rightarrow> string option \<Rightarrow> (idp, session_envelope) op" where
  "establish W S q cookies =
     (if cb_error q \<noteq> None then fail (Unauthorized ''rauthy refused the authorization'')
      else
        obind (lift (or_error (Unauthorized ''this callback carries no login cookie'')
          (case cookies of None \<Rightarrow> None | Some header \<Rightarrow> cookie_value header (cookie_name (login_cookie (sx_scheme S)))))) (\<lambda>sealed.
        obind (lift (open_login (sx_api S) (sx_key S) sealed)) (\<lambda>login.
        obind (now W) (\<lambda>at.
        if sx_login_ttl S < saturating_sub at (ls_issued login) then fail (Unauthorized ''this login started too long ago'')
        else if \<not> constant_time_eq (case cb_state q of None \<Rightarrow> [] | Some t \<Rightarrow> t) (ls_state login)
        then fail (Unauthorized ''the state is not the one this login sent'')
        else
          obind (lift (or_error (Unauthorized ''the callback carries no code'') (cb_code q))) (\<lambda>code.
          obind (idp_token W S [(''grant_type'', ''authorization_code''), (''code'', code),
            (''redirect_uri'', sx_redirect_uri S), (''code_verifier'', ls_verifier login)]) (\<lambda>granted.
          obind (lift (or_error (Unauthorized ''no id token'') (tr_id_token granted))) (\<lambda>id_token.
          obind (verify_id_token W S id_token (ls_nonce login)) (\<lambda>asserted.
          obind (lift (subject asserted)) (\<lambda>sub.
          obind (userinfo W (tr_access_token granted)) (\<lambda>c.
          obind (lift (pinned sub c)) (\<lambda>_.
          obind (ask (iw_entropy W)) (\<lambda>sid.
          obind (mint W S sid sub c (tr_expires_in granted)) (\<lambda>_.
          obind (lift (or_error (Unauthorized ''no refresh token'') (tr_refresh_token granted))) (\<lambda>refresh.
          obind (now W) (\<lambda>issued.
          ret \<lparr>en_sid = sid, en_sub = sub, en_refresh_token = refresh, en_issued = issued\<rparr>)))))))))))))))"

definition callback_answer :: "idp_world \<Rightarrow> sessions \<Rightarrow> callback \<Rightarrow> http_request \<Rightarrow> (idp, response) op" where
  "callback_answer W S q req =
     on_result (establish W S q (header_str req ''cookie'')) (\<lambda>r.
       case rbind r (\<lambda>e. redirect (sx_origin S)
         [cookie_set (session_cookie (sx_scheme S)) (seal_envelope (sx_api S) (sx_key S) e),
          cookie_clear (login_cookie (sx_scheme S))]) of
         Inr resp \<Rightarrow> ret resp
       | Inl err \<Rightarrow> ret (with_cookies (answer_error err) [cookie_clear (login_cookie (sx_scheme S))]))"

definition session_text :: "sessions \<Rightarrow> http_request \<Rightarrow> string option" where
  "session_text S req =
     (case header_str req ''cookie'' of
        None \<Rightarrow> None
      | Some header \<Rightarrow> cookie_value header (cookie_name (session_cookie (sx_scheme S))))"

definition cleared :: "sessions \<Rightarrow> string list" where
  "cleared S = [cookie_clear (session_cookie (sx_scheme S)), cookie_clear (login_cookie (sx_scheme S))]"

definition logout :: "idp_world \<Rightarrow> sessions \<Rightarrow> http_request \<Rightarrow> (idp, response) op" where
  "logout W S req =
     (let finish = (case redirect (sx_end_session S) (cleared S) of Inr resp \<Rightarrow> ret resp | Inl e \<Rightarrow> ret (answer_error e))
      in case session_text S req of
           None \<Rightarrow> finish
         | Some sealed \<Rightarrow>
             (case open_envelope (sx_api S) (sx_key S) sealed of
                Inl _ \<Rightarrow> finish
              | Inr e \<Rightarrow>
                  on_result (idp_revoke W S (en_refresh_token e)) (\<lambda>_.
                  on_result (drop_assertion W (en_sid e)) (\<lambda>_. finish))))"

section \<open>The session layer\<close>

definition both_credentials :: "http_request \<Rightarrow> scheme \<Rightarrow> bool" where
  "both_credentials req sch \<longleftrightarrow>
     map_of (rq_headers req) ''authorization'' \<noteq> None \<and>
     (case header_str req ''cookie'' of
        None \<Rightarrow> False | Some header \<Rightarrow> cookie_value header (cookie_name (session_cookie sch)) \<noteq> None)"

definition ambiguous_credentials :: error where
  "ambiguous_credentials = Validation ''both a session cookie and an Authorization header''"

definition refuse_session :: "sessions \<Rightarrow> error \<Rightarrow> response" where
  "refuse_session S e = with_cookies (answer_error e) (cleared S)"

definition renewed :: "idp_world \<Rightarrow> sessions \<Rightarrow> session_envelope \<Rightarrow> http_request \<Rightarrow> (http_request \<Rightarrow> response) \<Rightarrow> (idp, response) op" where
  "renewed W S e req inner =
     on_result (renew W S e) (\<lambda>r.
       case r of
         Inl err \<Rightarrow>
           if ends_the_session err then on_result (drop_assertion W (en_sid e)) (\<lambda>_. ret (refuse_session S err))
           else ret (answer_error err)
       | Inr (se, e') \<Rightarrow>
           ret (with_cookies (inner (req\<lparr>rq_principal := Some (se_principal se)\<rparr>))
             [cookie_set (session_cookie (sx_scheme S)) (seal_envelope (sx_api S) (sx_key S) e')]))"

definition resolve_session :: "idp_world \<Rightarrow> sessions \<Rightarrow> http_request \<Rightarrow> (http_request \<Rightarrow> response) \<Rightarrow> (idp, response) op" where
  "resolve_session W S req inner =
     (if both_credentials req (sx_scheme S) then ret (answer_error ambiguous_credentials)
      else
        (case session_text S req of
           None \<Rightarrow> ret (inner req)
         | Some sealed \<Rightarrow>
             (case open_envelope (sx_api S) (sx_key S) sealed of
                Inl err \<Rightarrow> ret (refuse_session S err)
              | Inr e \<Rightarrow>
                  on_result (load_assertion W (en_sid e)) (\<lambda>r.
                    case r of
                      Inr (Some se) \<Rightarrow> ret (inner (req\<lparr>rq_principal := Some (se_principal se)\<rparr>))
                    | Inr None \<Rightarrow> renewed W S e req inner
                    | Inl err \<Rightarrow> ret (answer_error err)))))"

definition enforce_role :: "idp_world \<Rightarrow> string \<Rightarrow> http_request \<Rightarrow> (http_request \<Rightarrow> response) \<Rightarrow> (idp, response) op" where
  "enforce_role W role req inner =
     (case rq_principal req of
        None \<Rightarrow> ret (answer_error (Unauthorized ''this request carries no session''))
      | Some p \<Rightarrow>
          if has_role p role then ret (inner req)
          else obind (kernel_refuse W ''session.role'' (p_sub p)) (\<lambda>i.
            ret (answer_error (Denied (i @ '': the principal does not hold the role'')))))"

end
