(* ===== verification/Idp_Bearer.thy ===== *)
theory Idp_Bearer
  imports Idp_Session
begin

text \<open>
  The resource server of \<^verbatim>\<open>bearer.rs\<close>: the validation of an access token, the rate limit, the routes that
  accept one and the gate in front of them; the scope gate of \<^verbatim>\<open>scope.rs\<close>; and the revocations of
  \<^verbatim>\<open>revoke.rs\<close>.
\<close>

record resource_server =
  re_api :: idp_api
  re_origin :: string
  re_authorization_server :: string
  re_scheme :: scheme
  re_lag :: u64
  re_lifetime :: u64
  re_rate_limit :: u32
  re_interval :: u64
  re_ends_grants :: bool

definition metadata_url :: "resource_server \<Rightarrow> string" where
  "metadata_url R = re_origin R @ ''/.well-known/oauth-protected-resource''"

definition challenge_text :: "resource_server \<Rightarrow> string" where
  "challenge_text R =
     ''Bearer realm='' @ CHR 0x22 # re_origin R @ CHR 0x22 # '', resource_metadata='' @ CHR 0x22 # metadata_url R @ [CHR 0x22]"

definition challenge_with :: "resource_server \<Rightarrow> string \<Rightarrow> string" where
  "challenge_with R code = challenge_text R @ '', error='' @ CHR 0x22 # code @ [CHR 0x22]"

definition denylist_ttl :: "u64 \<Rightarrow> u64" where
  "denylist_ttl lifetime = u64_saturating_add lifetime (2 * LEEWAY_SECONDS)"

definition with_lifetime :: "u64 \<Rightarrow> resource_server \<Rightarrow> resource_server" where
  "with_lifetime lifetime R = R\<lparr>re_lifetime := min lifetime L_MAX_SECONDS, re_lag := denylist_ttl lifetime\<rparr>"

section \<open>Validation\<close>

definition deny :: "idp_world \<Rightarrow> string \<Rightarrow> (idp, unit) op" where
  "deny W jti = obind (now W) (\<lambda>at. on_store (record_jti_revocation (iw_store W) jti at))"

definition deny_subject :: "idp_world \<Rightarrow> string \<Rightarrow> u64 \<Rightarrow> (idp, unit) op" where
  "deny_subject W sub at = on_store (record_subject_revocation (iw_store W) sub at)"

text \<open>The claims of a token whose signature verifies and whose issuer is this cell's.\<close>

definition signed_claims :: "idp_world \<Rightarrow> resource_server \<Rightarrow> string \<Rightarrow> (idp, access_claims) op" where
  "signed_claims W R token =
     obind (lift (split_jwt token)) (\<lambda>(signing_input, signature, header, payload).
     obind (lift (token_kid (re_api R) header)) (\<lambda>kid.
     obind (jwks_key W (re_interval R) kid) (\<lambda>k.
     obind (lift (verify_rs256 (re_api R) k signing_input signature)) (\<lambda>_.
     obind (lift (decode_segment (re_api R) (ia_access (re_api R)) payload)) (\<lambda>c.
     if ac_iss c \<noteq> re_authorization_server R then fail (Unauthorized ''issued by another issuer'') else ret c)))))"

definition client_of :: "access_claims \<Rightarrow> error + string" where
  "client_of c =
     (case map_option trim (ac_azp c) of
        Some a \<Rightarrow> if a \<noteq> [] then Inr a else Inl (Unauthorized ''the token names no authorised party'')
      | None \<Rightarrow> Inl (Unauthorized ''the token names no authorised party''))"

definition check_floor :: "idp_world \<Rightarrow> u64 \<Rightarrow> (idp, unit) op" where
  "check_floor W iat =
     obind (on_store (revocation_floor (iw_store W))) (\<lambda>f.
     case f of
       Some before \<Rightarrow> if iat \<le> before then fail (Unauthorized ''issued at or before the revocation floor'') else ret ()
     | None \<Rightarrow> ret ())"

definition check_jti :: "idp_world \<Rightarrow> string option \<Rightarrow> (idp, unit) op" where
  "check_jti W jti =
     (case jti of
        None \<Rightarrow> ret ()
      | Some j \<Rightarrow>
          obind (on_store (is_jti_revoked (iw_store W) j)) (\<lambda>denied.
          if denied then fail (Unauthorized ''this token has been revoked'') else ret ()))"

definition check_subject :: "idp_world \<Rightarrow> string \<Rightarrow> u64 option \<Rightarrow> (idp, unit) op" where
  "check_subject W sub iat =
     obind (on_store (is_subject_denied (iw_store W) sub iat)) (\<lambda>denied.
     if denied then fail (Unauthorized ''every token issued to this subject has been revoked'') else ret ())"

definition bearer_of :: "access_claims \<Rightarrow> string \<Rightarrow> string \<Rightarrow> u64 \<Rightarrow> bearer" where
  "bearer_of c sub client at =
     \<lparr>be_client_id = client, be_principal = principal_of sub (ac_claims c) at,
      be_scopes = (case ac_scope c of None \<Rightarrow> {} | Some t \<Rightarrow> scope_parse t),
      be_jti = ac_jti c, be_service = (client = sub)\<rparr>"

definition validate_token :: "idp_world \<Rightarrow> resource_server \<Rightarrow> string \<Rightarrow> (idp, bearer) op" where
  "validate_token W R token =
     obind (signed_claims W R token) (\<lambda>c.
     obind (now W) (\<lambda>at.
     obind (lift (admit_lifetime (re_lifetime R) c at)) (\<lambda>iat.
     obind (check_floor W iat) (\<lambda>_.
     if \<not> audience_contains (ac_aud c) (re_origin R) then fail (Unauthorized ''not for this resource'')
     else
       obind (lift (subject (ac_claims c))) (\<lambda>sub.
       obind (lift (client_of c)) (\<lambda>client.
       obind (check_jti W (ac_jti c)) (\<lambda>_.
       obind (check_subject W sub (ac_iat c)) (\<lambda>_.
       ret (bearer_of c sub client at)))))))))"

section \<open>The rate limit\<close>

datatype admission = Admitted | Spent u64

definition RATE_LIMIT_WINDOW_SECONDS :: u64 where "RATE_LIMIT_WINDOW_SECONDS = 60"

definition bearer_identity :: "bearer \<Rightarrow> string" where
  "bearer_identity b = be_client_id b @ '':'' @ p_sub (be_principal b)"

definition window_key :: "bearer \<Rightarrow> u64 \<Rightarrow> string" where
  "window_key b w = ''rl:bearer:'' @ bearer_identity b @ '':'' @ show_nat (unat w)"

definition count_request :: "idp_world \<Rightarrow> resource_server \<Rightarrow> bearer \<Rightarrow> (idp, admission) op" where
  "count_request W R b =
     obind (now W) (\<lambda>at.
     obind (counter_add W (window_key b (at div RATE_LIMIT_WINDOW_SECONDS)) 1) (\<lambda>n.
     ret (if uint (re_rate_limit R) < n
          then Spent (RATE_LIMIT_WINDOW_SECONDS - at mod RATE_LIMIT_WINDOW_SECONDS) else Admitted)))"

section \<open>The routes\<close>

record bearer_route =
  br_prefix :: string
  br_service_callable :: bool

definition declare_route :: "bearer_route list \<Rightarrow> string \<Rightarrow> bool \<Rightarrow> bearer_route list" where
  "declare_route es prefix svc =
     filter (\<lambda>e. br_prefix e \<noteq> prefix) es @ [\<lparr>br_prefix = prefix, br_service_callable = svc\<rparr>]"

text \<open>\<^verbatim>\<open>max_by_key\<close> answers the last of the largest.\<close>

fun max_by_key :: "('a \<Rightarrow> nat) \<Rightarrow> 'a list \<Rightarrow> 'a option" where
  "max_by_key f [] = None"
| "max_by_key f (x # xs) =
     (case max_by_key f xs of
        None \<Rightarrow> Some x
      | Some l \<Rightarrow> if f l < f x then Some x else Some l)"

definition route_covering :: "bearer_route list \<Rightarrow> string \<Rightarrow> bearer_route option" where
  "route_covering es path = max_by_key (\<lambda>e. length (br_prefix e)) (filter (\<lambda>e. starts_with (br_prefix e) path) es)"

section \<open>The gate\<close>

datatype presented = Absent | Bearer_token string | Other_scheme

definition presented_of :: "http_request \<Rightarrow> presented" where
  "presented_of req =
     (case header_str req ''authorization'' of
        None \<Rightarrow> Absent
      | Some v \<Rightarrow>
          (case split_once CHR '' '' v of
             Some (sch, token) \<Rightarrow>
               if eq_ignore_ascii_case sch ''bearer''
               then (if trim token = [] then Other_scheme else Bearer_token (trim token))
               else Other_scheme
           | None \<Rightarrow> Other_scheme))"

definition is_proxy_path :: "string \<Rightarrow> bool" where
  "is_proxy_path path = (path = ''/auth'' \<or> starts_with ''/auth/'' path)"

definition insert_header :: "string \<Rightarrow> string \<Rightarrow> response \<Rightarrow> response" where
  "insert_header n v r = r\<lparr>rs_headers := filter (\<lambda>h. fst h \<noteq> n) (rs_headers r) @ [(n, v)]\<rparr>"

definition challenged :: "resource_server \<Rightarrow> response \<Rightarrow> response" where
  "challenged R r =
     (if rs_status r \<noteq> 401 \<or> map_of (rs_headers r) ''www-authenticate'' \<noteq> None then r
      else if to_str (challenge_text R) \<noteq> None then insert_header ''www-authenticate'' (challenge_text R) r else r)"

definition challenge :: "resource_server \<Rightarrow> error \<Rightarrow> string \<Rightarrow> response" where
  "challenge R e code =
     (if to_str (challenge_with R code) \<noteq> None
      then insert_header ''www-authenticate'' (challenge_with R code) (answer_error e) else answer_error e)"

definition spent_answer :: "u64 \<Rightarrow> response" where
  "spent_answer retry_after =
     insert_header ''retry-after'' (show_nat (unat retry_after))
       ((answer_error (Denied ''the request rate exceeds the ceiling''))\<lparr>rs_status := 429\<rparr>)"

definition unavailable :: response where
  "unavailable = (answer_error (Stale ''the rate limiter cannot reach its counters''))\<lparr>rs_status := 503\<rparr>"

definition strip_cookies :: "response \<Rightarrow> response" where
  "strip_cookies r = r\<lparr>rs_headers := filter (\<lambda>h. fst h \<noteq> ''set-cookie'') (rs_headers r)\<rparr>"

text \<open>A request with a credential the resource server validated: the refusals left, and the handler.\<close>

definition admit_bearer ::
  "idp_world \<Rightarrow> resource_server \<Rightarrow> bearer_route \<Rightarrow> bearer \<Rightarrow> http_request \<Rightarrow> (http_request \<Rightarrow> response) \<Rightarrow> (idp, response) op" where
  "admit_bearer W R route b req inner =
     (if be_service b \<and> \<not> br_service_callable route
      then obind (kernel_refuse W ''resource.service'' (p_sub (be_principal b))) (\<lambda>i.
        ret (answer_error (Denied (i @ '': not declared service-callable''))))
      else
        on_result (count_request W R b) (\<lambda>r. ret
          (case r of
             Inr Admitted \<Rightarrow>
               strip_cookies (inner (req\<lparr>rq_principal := Some (be_principal b), rq_bearer := Some b\<rparr>))
           | Inr (Spent n) \<Rightarrow> spent_answer n
           | Inl _ \<Rightarrow> unavailable)))"

definition authenticate ::
  "idp_world \<Rightarrow> resource_server \<Rightarrow> bearer_route list \<Rightarrow> http_request \<Rightarrow> (http_request \<Rightarrow> response) \<Rightarrow> (idp, response) op" where
  "authenticate W R routes req inner =
     (if is_proxy_path (rq_path req) then ret (inner req)
      else if both_credentials req (re_scheme R) then ret (answer_error ambiguous_credentials)
      else
        (case (presented_of req, route_covering routes (rq_path req)) of
           (Absent, None) \<Rightarrow> ret (inner req)
         | (Absent, Some _) \<Rightarrow> ret (challenged R (inner req))
         | (Bearer_token _, None) \<Rightarrow> ret (answer_error (Validation ''this route does not accept a bearer credential''))
         | (Other_scheme, None) \<Rightarrow> ret (answer_error (Validation ''this route does not accept a bearer credential''))
         | (Other_scheme, Some _) \<Rightarrow>
             ret (challenge R (Unauthorized ''no Bearer credential'') ''invalid_request'')
         | (Bearer_token token, Some route) \<Rightarrow>
             on_result (validate_token W R token) (\<lambda>r.
               case r of
                 Inr b \<Rightarrow> admit_bearer W R route b req inner
               | Inl (Unauthorized m) \<Rightarrow> ret (challenge R (Unauthorized m) ''invalid_token'')
               | Inl e \<Rightarrow> ret (answer_error e))))"

section \<open>The scope gate\<close>

definition enforce_scope :: "idp_world \<Rightarrow> string \<Rightarrow> http_request \<Rightarrow> (http_request \<Rightarrow> response) \<Rightarrow> (idp, response) op" where
  "enforce_scope W scope req inner =
     (case rq_principal req of
        None \<Rightarrow> ret (answer_error (Unauthorized ''this request carries no credential''))
      | Some p \<Rightarrow>
          if scope \<in> (case rq_bearer req of None \<Rightarrow> {} | Some b \<Rightarrow> be_scopes b) then ret (inner req)
          else
            obind (kernel_refuse W ''resource.scope'' (p_sub p)) (\<lambda>i.
            let r = answer_error (Denied (i @ '': the credential does not carry the scope''));
                v = ''Bearer error='' @ CHR 0x22 # ''insufficient_scope'' @ CHR 0x22 # '', scope='' @ CHR 0x22 # scope @ [CHR 0x22]
            in ret (if to_str v \<noteq> None then insert_header ''www-authenticate'' v r else r)))"

section \<open>Revocation\<close>

record revoked =
  vk_jti :: "string option"
  vk_sub :: "string option"
  vk_remembered_for :: u64
  vk_grant_ended :: bool

definition revoke_token :: "idp_world \<Rightarrow> resource_server \<Rightarrow> string \<Rightarrow> (idp, revoked) op" where
  "revoke_token W R jti =
     obind (deny W jti) (\<lambda>_. ret
       \<lparr>vk_jti = Some jti, vk_sub = None, vk_remembered_for = re_lag R, vk_grant_ended = False\<rparr>)"

definition revoke_subject :: "idp_world \<Rightarrow> resource_server \<Rightarrow> string \<Rightarrow> (idp, revoked) op" where
  "revoke_subject W R sub =
     obind (now W) (\<lambda>at.
     obind (deny_subject W sub at) (\<lambda>_.
     obind (if re_ends_grants R then ask (\<lambda>n. iw_end_sessions W n sub) else ret ()) (\<lambda>_. ret
       \<lparr>vk_jti = None, vk_sub = Some sub, vk_remembered_for = re_lag R, vk_grant_ended = re_ends_grants R\<rparr>)))"

definition revoke_own :: "idp_world \<Rightarrow> resource_server \<Rightarrow> http_request \<Rightarrow> (idp, revoked) op" where
  "revoke_own W R req =
     (case rq_bearer req of
        None \<Rightarrow> fail (Unauthorized ''this request presented no bearer credential'')
      | Some b \<Rightarrow>
          (case be_jti b of
             None \<Rightarrow> fail (Validation ''the token carries no jti'')
           | Some jti \<Rightarrow> revoke_token W R jti))"

definition named :: "string option \<Rightarrow> string option" where
  "named v = (case map_option trim v of None \<Rightarrow> None | Some t \<Rightarrow> if t \<noteq> [] then Some t else None)"

definition revoke_named :: "idp_world \<Rightarrow> resource_server \<Rightarrow> string option \<Rightarrow> string option \<Rightarrow> (idp, revoked) op" where
  "revoke_named W R jti sub =
     (case (named jti, named sub) of
        (None, None) \<Rightarrow> fail (Validation ''name a jti or a sub'')
      | (Some _, Some _) \<Rightarrow> fail (Validation ''name a jti or a sub, not both'')
      | (Some j, None) \<Rightarrow> revoke_token W R j
      | (None, Some s) \<Rightarrow> revoke_subject W R s)"

end
