(* ===== verification/Idp_Facts.thy ===== *)
theory Idp_Facts
  imports Idp_Bearer
begin

text \<open>
  What the pure parts of the identity crate promise: the window a token is admitted in, what a
  sealed cookie opens to, which route a path is covered by, and what the bearer gate lets through.
\<close>

section \<open>The window of a token\<close>

lemma checked_add_Some: "checked_add a b = Some c \<longleftrightarrow> uint a + uint b < 2 ^ 64 \<and> c = a + b"
  by (auto simp: checked_add_def)

lemma uint_add_small: "uint a + uint b < 2 ^ 64 \<Longrightarrow> uint (a + b :: u64) = uint a + uint b"
  by (simp add: uint_word_ariths)

lemma uint_leeway: "uint LEEWAY_SECONDS = 60" "uint L_MAX_SECONDS = 86400"
  by (simp_all add: LEEWAY_SECONDS_def L_MAX_SECONDS_def)

lemma uint_sub_small: "b \<le> a \<Longrightarrow> uint (a - b :: u64) = uint a - uint b"
proof -
  have uint_bounded: "uint (x :: u64) < 2 ^ 64" for x
    using uint_lt2p [of x] by simp
  assume "b \<le> a"
  then have "0 \<le> uint a - uint b" "uint a - uint b < 2 ^ 64"
    using uint_bounded [of a] uint_ge_0 [of b] by (simp_all only: word_le_def)
  then show ?thesis by (simp add: uint_word_ariths mod_pos_pos_trivial)
qed

lemma admit_lifetime_iff:
  "admit_lifetime L c at = Inr iat \<longleftrightarrow>
     ac_iat c = Some iat \<and> uint iat \<le> uint (ac_exp c) \<and>
     uint (ac_exp c) - uint iat \<le> min (uint L) 86400 \<and>
     uint at + 60 < 2 ^ 64 \<and> uint iat \<le> uint at + 60 \<and>
     uint (ac_exp c) + 60 < 2 ^ 64 \<and> uint at < uint (ac_exp c) + 60 \<and>
     (\<forall>nbf. ac_nbf c = Some nbf \<longrightarrow> uint nbf \<le> uint at + 60)"
proof (cases "ac_iat c")
  case None
  then show ?thesis by (simp add: admit_lifetime_def or_error_def)
next
  case (Some i)
  show ?thesis
  proof (cases "i \<le> ac_exp c")
    case False
    with Some show ?thesis
      by (auto simp: admit_lifetime_def or_error_def checked_sub_def word_le_def)
  next
    case True
    note span = uint_sub_small [OF True]
    show ?thesis
    proof (cases "uint at + 60 < 2 ^ 64 \<and> uint (ac_exp c) + 60 < 2 ^ 64")
      case False
      with Some True show ?thesis
        by (auto simp: admit_lifetime_def or_error_def checked_sub_def checked_add_def uint_leeway)
    next
      case range: True
      then have "uint (at + LEEWAY_SECONDS) = uint at + 60" "uint (ac_exp c + LEEWAY_SECONDS) = uint (ac_exp c) + 60"
        by (simp_all add: uint_add_small uint_leeway)
      with Some True range span show ?thesis
        by (auto simp: admit_lifetime_def or_error_def checked_sub_def checked_add_def uint_leeway
            word_le_def word_less_def split: option.splits)
    qed
  qed
qed

lemma admitted_window:
  assumes "admit_lifetime L c at = Inr iat"
  shows "uint iat - 60 \<le> uint at \<and> uint at < uint iat + min (uint L) 86400 + 60"
  using assms by (auto simp: admit_lifetime_iff)

section \<open>The seal\<close>

text \<open>What the crate relies on of base64 and of its JSON: both are read back, and base64 has no dot.\<close>

definition codec_ok :: "idp_api \<Rightarrow> bool" where
  "codec_ok A \<longleftrightarrow>
     (\<forall>x. ia_decode A (ia_encode A x) = Some x) \<and>
     (\<forall>x. CHR ''.'' \<notin> set (ia_encode A x)) \<and>
     (\<forall>e. ia_read_envelope A (ia_write_envelope A e) = Some e) \<and>
     (\<forall>l. ia_read_login A (ia_write_login A l) = Some l)"

lemma rsplit_once_Some_iff: "rsplit_once c s = Some (a, b) \<longleftrightarrow> s = a @ c # b \<and> c \<notin> set b"
proof -
  have "rsplit_once c s = Some (a, b) \<longleftrightarrow> split_once c (rev s) = Some (rev b, rev a)"
    by (force simp: rsplit_once_def)
  also have "\<dots> \<longleftrightarrow> rev s = rev b @ c # rev a \<and> c \<notin> set b"
    by (simp add: split_once_Some_iff)
  also have "rev s = rev b @ c # rev a \<longleftrightarrow> s = a @ c # b"
    by (metis append.assoc append_Cons append_Nil rev.simps(2) rev_append rev_rev_ident)
  finally show ?thesis .
qed

lemma rsplit_once_snoc: "c \<notin> set b \<Longrightarrow> rsplit_once c (a @ c # b) = Some (a, b)"
  by (simp add: rsplit_once_Some_iff)

lemma open_seal_text:
  assumes "codec_ok A"
  shows "open_text A key parse (seal_text A key json) =
    or_error (Unauthorized ''the payload is not the shape this cell seals'') (parse json)"
  using assms by (simp add: codec_ok_def seal_text_def open_text_def Let_def rsplit_once_snoc or_error_def)

lemma open_seal:
  "codec_ok A \<Longrightarrow> open_envelope A key (seal_envelope A key e) = Inr e"
  "codec_ok A \<Longrightarrow> open_login A key (seal_login A key l) = Inr l"
  by (simp_all add: open_envelope_def seal_envelope_def open_login_def seal_login_def open_seal_text,
      simp_all add: codec_ok_def or_error_def)

lemma open_text_signed:
  assumes "open_text A key parse raw = Inr v"
  shows "\<exists>payload mac json. raw = payload @ CHR ''.'' # mac \<and> CHR ''.'' \<notin> set mac \<and>
    ia_decode A mac = Some (ia_sign A key payload) \<and> ia_decode A payload = Some json \<and> parse json = Some v"
proof -
  from assms obtain payload mac tag json where "rsplit_once CHR ''.'' raw = Some (payload, mac)"
    "ia_decode A mac = Some tag" "ia_sign A key payload = tag" "ia_decode A payload = Some json" "parse json = Some v"
    by (auto simp: open_text_def split: if_splits)
  then show ?thesis by (auto simp: rsplit_once_Some_iff)
qed

section \<open>The routes\<close>

lemma max_by_key_None_iff: "max_by_key f xs = None \<longleftrightarrow> xs = []"
  by (cases xs) (auto split: option.splits)

lemma max_by_key_Some: "max_by_key f xs = Some x \<Longrightarrow> x \<in> set xs \<and> (\<forall>y \<in> set xs. f y \<le> f x)"
proof (induction xs arbitrary: x)
  case (Cons y ys)
  show ?case
  proof (cases "max_by_key f ys")
    case None
    with Cons.prems show ?thesis by (auto simp: max_by_key_None_iff)
  next
    case (Some l)
    with Cons show ?thesis by (fastforce split: if_splits)
  qed
qed simp

lemma covers_Some:
  assumes "route_covering es path = Some e"
  shows "e \<in> set es \<and> starts_with (br_prefix e) path \<and>
    (\<forall>x \<in> set es. starts_with (br_prefix x) path \<longrightarrow> length (br_prefix x) \<le> length (br_prefix e))"
  using max_by_key_Some [OF assms [unfolded route_covering_def]] by auto

lemma covers_None_iff: "route_covering es path = None \<longleftrightarrow> (\<forall>x \<in> set es. \<not> starts_with (br_prefix x) path)"
  by (auto simp: route_covering_def max_by_key_None_iff filter_empty_conv)

section \<open>The bearer gate\<close>

lemma strip_cookies_none: "''set-cookie'' \<notin> fst ` set (rs_headers (strip_cookies r))"
  by (auto simp: strip_cookies_def)

definition is_refusal :: "response \<Rightarrow> bool" where
  "is_refusal r \<longleftrightarrow> rs_error r \<noteq> None \<and> 400 \<le> rs_status r"

lemma is_refusal_answers [simp]:
  "is_refusal (answer_error e)" "is_refusal (challenge R e code)" "is_refusal (spent_answer n)" "is_refusal unavailable"
  by (cases e; simp_all add: is_refusal_def answer_error_def challenge_def spent_answer_def unavailable_def insert_header_def)+

text \<open>What the gate does with a request: pass it on without a credential, refuse it, or pass it on
  with the bearer it validated and no cookie on the way back.\<close>

lemma admit_bearer_cases:
  assumes "admit_bearer W R route b req inner s = (Inr resp, t)"
  shows "(is_refusal resp \<and> (\<forall>h. admit_bearer W R route b req h s = (Inr resp, t))) \<or>
    ((be_service b \<longrightarrow> br_service_callable route) \<and> count_request W R b s = (Inr Admitted, t) \<and>
     resp = strip_cookies (inner (req\<lparr>rq_principal := Some (be_principal b), rq_bearer := Some b\<rparr>)))"
  using assms
  by (auto simp: admit_bearer_def obind_def on_result_def kernel_refuse_def split: if_splits prod.splits sum.splits admission.splits)

lemma presented_Absent_iff: "presented_of req = Absent \<longleftrightarrow> header_str req ''authorization'' = None"
  by (auto simp: presented_of_def split: option.splits prod.splits if_splits)

text \<open>The refusals of the gate that need no validation: nothing is read, and the state is untouched.\<close>

lemma authenticate_refuses:
  assumes "\<not> is_proxy_path (rq_path req)"
  shows "both_credentials req (re_scheme R) \<Longrightarrow>
      authenticate W R routes req inner s = (Inr (answer_error ambiguous_credentials), s)"
    and "\<not> both_credentials req (re_scheme R) \<Longrightarrow> header_str req ''authorization'' \<noteq> None \<Longrightarrow>
      route_covering routes (rq_path req) = None \<Longrightarrow>
      authenticate W R routes req inner s =
        (Inr (answer_error (Validation ''this route does not accept a bearer credential'')), s)"
    and "\<not> both_credentials req (re_scheme R) \<Longrightarrow> presented_of req = Other_scheme \<Longrightarrow>
      route_covering routes (rq_path req) = Some route \<Longrightarrow>
      authenticate W R routes req inner s =
        (Inr (challenge R (Unauthorized ''no Bearer credential'') ''invalid_request''), s)"
  using assms presented_Absent_iff [of req]
  by (auto simp: authenticate_def split: presented.split)

lemma authenticate_cases:
  assumes "authenticate W R routes req inner s = (Inr resp, t)"
  shows "(resp = inner req \<and> t = s \<and> (is_proxy_path (rq_path req) \<or>
        \<not> both_credentials req (re_scheme R) \<and> presented_of req = Absent \<and> route_covering routes (rq_path req) = None)) \<or>
    (resp = challenged R (inner req) \<and> t = s \<and> \<not> both_credentials req (re_scheme R) \<and> presented_of req = Absent \<and>
      route_covering routes (rq_path req) \<noteq> None) \<or>
    (is_refusal resp \<and> (\<forall>h. authenticate W R routes req h s = (Inr resp, t))) \<or>
    (\<exists>token route b u. \<not> both_credentials req (re_scheme R) \<and> presented_of req = Bearer_token token \<and>
      route_covering routes (rq_path req) = Some route \<and> validate_token W R token s = (Inr b, u) \<and>
      (be_service b \<longrightarrow> br_service_callable route) \<and> count_request W R b u = (Inr Admitted, t) \<and>
      resp = strip_cookies (inner (req\<lparr>rq_principal := Some (be_principal b), rq_bearer := Some b\<rparr>)))"
proof (cases "is_proxy_path (rq_path req) \<or> both_credentials req (re_scheme R)")
  case True
  with assms show ?thesis by (auto simp: authenticate_def split: if_splits)
next
  case False
  show ?thesis
  proof (cases "presented_of req")
    case Absent
    with False assms show ?thesis by (auto simp: authenticate_def split: option.splits)
  next
    case Other_scheme
    with False assms show ?thesis by (auto simp: authenticate_def split: option.splits)
  next
    case (Bearer_token token)
    show ?thesis
    proof (cases "route_covering routes (rq_path req)")
      case None
      with Bearer_token False assms show ?thesis by (auto simp: authenticate_def)
    next
      case (Some route)
      obtain r u where r: "validate_token W R token s = (r, u)" by (cases "validate_token W R token s")
      show ?thesis
      proof (cases r)
        case (Inl e)
        with Some Bearer_token False assms r show ?thesis
          by (cases e) (auto simp: authenticate_def on_result_def)
      next
        case (Inr b)
        have eq: "authenticate W R routes req h s = admit_bearer W R route b req h u" for h
          using Some Bearer_token False r Inr by (simp add: authenticate_def on_result_def)
        with assms have "admit_bearer W R route b req inner u = (Inr resp, t)" by simp
        from admit_bearer_cases [OF this] Some Bearer_token False r Inr eq show ?thesis by metis
      qed
    qed
  qed
qed

text \<open>
  What the operations of the identity crate promise: revocations only accumulate and are honoured by
  every later validation, a session never changes hands, and the key sets answer from the last two
  fetches alone.
\<close>

section \<open>Revocations accumulate\<close>

text \<open>The instants are those \<open>sql_seconds\<close> lets through.\<close>

definition instants_fit :: "revocations \<Rightarrow> bool" where
  "instants_fit r \<longleftrightarrow>
     (\<forall>u v. map_of (rv_sub r) u = Some v \<longrightarrow> 0 \<le> v \<and> v \<le> i64_max) \<and>
     (\<forall>v. rv_floor r = Some v \<longrightarrow> 0 \<le> v \<and> v \<le> i64_max)"

definition revocations_le :: "revocations \<Rightarrow> revocations \<Rightarrow> bool" where
  "revocations_le r r' \<longleftrightarrow>
     (\<forall>j v. map_of (rv_jti r) j = Some v \<longrightarrow> map_of (rv_jti r') j = Some v) \<and>
     (\<forall>u v. map_of (rv_sub r) u = Some v \<longrightarrow> (\<exists>v' \<ge> v. map_of (rv_sub r') u = Some v')) \<and>
     (\<forall>v. rv_floor r = Some v \<longrightarrow> (\<exists>v' \<ge> v. rv_floor r' = Some v')) \<and>
     (instants_fit r \<longrightarrow> instants_fit r')"

definition rev_le :: "revocations sdb \<Rightarrow> revocations sdb \<Rightarrow> bool" where
  "rev_le d e \<longleftrightarrow> revocations_le (app_tables d) (app_tables e)"

abbreviation revs :: "idp \<Rightarrow> revocations" where
  "revs s \<equiv> app_tables (ho_db (id_store s))"

lemma revocations_le_refl: "revocations_le r r"
  by (auto simp: revocations_le_def)

lemma revocations_leD:
  assumes "revocations_le r r'"
  shows "map_of (rv_jti r) j = Some i \<Longrightarrow> map_of (rv_jti r') j = Some i"
    "map_of (rv_sub r) u = Some v \<Longrightarrow> \<exists>v' \<ge> v. map_of (rv_sub r') u = Some v'"
    "rv_floor r = Some f \<Longrightarrow> \<exists>f' \<ge> f. rv_floor r' = Some f'"
    "instants_fit r \<Longrightarrow> instants_fit r'"
  using assms unfolding revocations_le_def by blast+

lemma revocations_le_trans: "revocations_le r s \<Longrightarrow> revocations_le s t \<Longrightarrow> revocations_le r t"
  unfolding revocations_le_def by (meson order_trans)

interpretation revocation_rows: batch_relation rev_le
  by unfold_locales (auto simp: rev_le_def intro: revocations_le_refl revocations_le_trans)

interpretation handles: guarantee "\<lambda>h t. rev_le (ho_db h) (ho_db t)"
  by unfold_locales (auto intro: revocation_rows.R_refl revocation_rows.R_trans)

lemma sql_seconds_fit: "sql_seconds at = Inr i \<Longrightarrow> i = uint at \<and> 0 \<le> i \<and> i \<le> i64_max"
  by (auto simp: sql_seconds_def split: if_splits)

lemma revocation_statements:
  "insert_jti j i r = Inr r' \<Longrightarrow> revocations_le r r'"
  "sql_seconds at = Inr i \<Longrightarrow> raise_sub u i r = Inr r' \<Longrightarrow> revocations_le r r'"
  "sql_seconds at = Inr i \<Longrightarrow> raise_floor i r = Inr r' \<Longrightarrow> revocations_le r r'"
  "upsert_transition t i r = Inr r' \<Longrightarrow> revocations_le r r'"
proof -
  show "insert_jti j i r = Inr r' \<Longrightarrow> revocations_le r r'"
    by (auto simp: insert_jti_def revocations_le_def instants_fit_def map_add_def split: if_splits option.splits)
  show "raise_sub u i r = Inr r' \<Longrightarrow> revocations_le r r'" if "sql_seconds at = Inr i"
    using sql_seconds_fit [OF that]
    by (auto simp: raise_sub_def revocations_le_def instants_fit_def map_add_def update_conv' le_max_iff_disj
        split: option.splits if_splits)
  show "raise_floor i r = Inr r' \<Longrightarrow> revocations_le r r'" if "sql_seconds at = Inr i"
    using sql_seconds_fit [OF that]
    by (auto simp: raise_floor_def revocations_le_def instants_fit_def le_max_iff_disj split: option.splits)
  show "upsert_transition t i r = Inr r' \<Longrightarrow> revocations_le r r'"
    by (auto simp: upsert_transition_def revocations_le_def instants_fit_def split: option.splits prod.splits)
qed

lemma revocation_carries:
  assumes "\<And>r r'. f r = Inr r' \<Longrightarrow> revocations_le r r'"
  shows "revocation_rows.carries (app_sql f)"
proof (rule revocation_rows.carriesI)
  fix d e n
  assume "app_sql f d = Inr (e, n)"
  then show "rev_le d e"
    using assms [of "app_tables d" "app_tables e"] by (auto simp: app_sql_def rev_le_def split: sum.splits)
qed

lemma revocations_carry:
  "revocation_rows.carries (app_sql (insert_jti j i))" "revocation_rows.carries (app_sql (upsert_transition t i))"
  "sql_seconds at = Inr i \<Longrightarrow> revocation_rows.carries (app_sql (raise_sub u i))"
  "sql_seconds at = Inr i \<Longrightarrow> revocation_rows.carries (app_sql (raise_floor i))"
  by (auto intro!: revocation_carries elim: revocation_statements)

text \<open>Whoever else writes to the tables only revokes.\<close>

definition only_revokes :: "revocations store_world \<Rightarrow> bool" where
  "only_revokes V \<longleftrightarrow> (\<forall>n d. rev_le d (ow_others V n d))"

section \<open>Keys come from the identity provider\<close>

definition published :: "idp_world \<Rightarrow> string \<Rightarrow> jwk \<Rightarrow> bool" where
  "published W kid k \<longleftrightarrow> (\<exists>n ks. iw_fetch W n = Inr ks \<and> ks kid = Some k)"

definition keys_published :: "idp_world \<Rightarrow> idp \<Rightarrow> bool" where
  "keys_published W s \<longleftrightarrow>
     (\<forall>kid k. js_current (id_sets s) kid = Some k \<or> js_previous (id_sets s) kid = Some k \<longrightarrow> published W kid k)"

lemma jwks_rotate_eq:
  "jwks_rotate W at s =
     (case iw_fetch W (id_tick s) of
        Inl e \<Rightarrow> (Inl e, tick s)
      | Inr ks \<Rightarrow> (Inr (), (tick s)\<lparr>id_sets :=
          \<lparr>js_current = ks, js_previous = js_current (id_sets s), js_refreshed_at = at\<rparr>\<rparr>))"
  by (simp add: jwks_rotate_def ask_def obind_def on_result_def tick_def split: sum.split)

text \<open>What every operation keeps: revocations stay, and the key sets hold published keys.\<close>

definition moves :: "idp_world \<Rightarrow> idp \<Rightarrow> idp \<Rightarrow> bool" where
  "moves W s t \<longleftrightarrow> rev_le (ho_db (id_store s)) (ho_db (id_store t)) \<and> (keys_published W s \<longrightarrow> keys_published W t)"

interpretation moving: guarantee "moves W" for W
  by unfold_locales (auto simp: moves_def intro: revocation_rows.R_refl revocation_rows.R_trans)

section \<open>Every operation moves\<close>

locale revoking_world =
  fixes W :: idp_world
  assumes others: "only_revokes (iw_store W)"
begin

lemma pass_revokes: "rev_le (ho_db h) (ho_db (pass (iw_store W) h))"
  using others by (simp add: only_revokes_def)

lemma keeps_read: "handles.keeps (read_consistent (iw_store W) q)"
  by (rule handles.keepsI) (auto simp: read_consistent_def pass_revokes simp del: pass_simps)

lemma keeps_submit:
  assumes "revocation_rows.carries_all ss"
  shows "handles.keeps (submit (iw_store W) ss)"
proof (rule handles.keepsI)
  fix h t :: "revocations handle" and r
  assume r: "submit (iw_store W) ss h = (r, t)"
  have "rev_le (ho_db (pass (iw_store W) h)) d" if "run_txn ss (ho_db (pass (iw_store W) h)) = Inr (d, ns)" for d ns
    using revocation_rows.carries_allD [OF assms that] .
  then show "rev_le (ho_db h) (ho_db t)"
    using r pass_revokes [of h] revocation_rows.R_refl [of "ho_db h"]
    by (auto simp: submit_def simp del: pass_simps intro: revocation_rows.R_trans
        split: if_splits fate.splits sum.splits)
qed

lemma keeps_seconds:
  "(\<And>i. sql_seconds at = Inr i \<Longrightarrow> handles.keeps (f i)) \<Longrightarrow> handles.keeps (obind (lift (sql_seconds at)) f)"
  by (cases "sql_seconds at") (auto simp: handles.keeps_def obind_def on_result_def intro: revocation_rows.R_refl)

lemma keeps_handles:
  "handles.keeps (record_jti_revocation (iw_store W) j v)"
  "handles.keeps (record_subject_revocation (iw_store W) u v)"
  "handles.keeps (raise_revocation_floor (iw_store W) v)"
  "handles.keeps (record_transition_floor (iw_store W) i v)"
  "handles.keeps (is_jti_revoked (iw_store W) j)"
  "handles.keeps (is_subject_denied (iw_store W) u iat)"
  "handles.keeps (revocation_floor (iw_store W))"
  unfolding record_jti_revocation_def record_subject_revocation_def raise_revocation_floor_def
    record_transition_floor_def is_jti_revoked_def is_subject_denied_def revocation_floor_def
    jti_revoked_at_def subject_revoked_at_def execute_one_def
  by (auto intro!: keeps_seconds handles.keeps_bind handles.keeps_pure keeps_read keeps_submit
      revocation_rows.carries_Cons revocation_rows.carries_Nil intro: revocations_carry)

lemma keeps_on_store: "handles.keeps m \<Longrightarrow> moving.keeps W (on_store m)"
  unfolding handles.keeps_def moving.keeps_def on_store_def moves_def keys_published_def
  by (auto split: prod.splits)

lemma keeps_quiet:
  assumes "\<And>s r t. m s = (r, t) \<Longrightarrow> id_store t = id_store s \<and> id_sets t = id_sets s"
  shows "moving.keeps W m"
  by (rule moving.keepsI) (auto simp: moves_def keys_published_def dest!: assms intro: revocation_rows.R_refl)

lemma keeps_calls:
  "moving.keeps W (now W)" "moving.keeps W (ask f)" "moving.keeps W (kv_put W k v ttl)"
  "moving.keeps W (kv_get W k)" "moving.keeps W (kv_del W k)" "moving.keeps W (counter_add W k n)"
  "moving.keeps W (kernel_refuse W kind who)" "moving.keeps W (jwks_lookup kid at interval)"
  by (rule keeps_quiet; auto simp: now_def ask_def kv_put_def kv_get_def kv_del_def counter_add_def
      kernel_refuse_def jwks_lookup_def tick_def met_cache_def Let_def split: option.splits)+

lemma keeps_rotate: "moving.keeps W (jwks_rotate W at)"
  by (rule moving.keepsI)
    (auto simp: jwks_rotate_eq tick_def moves_def keys_published_def published_def
      intro: revocation_rows.R_refl split: sum.splits)

lemma keeps_key: "moving.keeps W (jwks_key W interval kid)"
proof -
  have "moving.keeps W (\<lambda>s. if c s then jwks_rotate W at s else ret () s)" for c at
    using keeps_rotate [of at] moving.keeps_pure(1) [of W "()"] unfolding moving.keeps_def by auto
  then show ?thesis
    unfolding jwks_key_def
    by (auto intro!: moving.keeps_bind moving.keeps_pure keeps_calls keeps_rotate split: option.split)
qed

lemma keeps_signed: "moving.keeps W (signed_claims W R token)"
  unfolding signed_claims_def
  by (auto intro!: moving.keeps_bind moving.keeps_pure keeps_key split: prod.split)

lemma keeps_checks:
  "moving.keeps W (check_floor W iat)" "moving.keeps W (check_jti W j)" "moving.keeps W (check_subject W u i)"
  unfolding check_floor_def check_jti_def check_subject_def
  by (auto intro!: moving.keeps_bind moving.keeps_pure keeps_on_store keeps_handles split: option.split)

lemma keeps_validate: "moving.keeps W (validate_token W R token)"
  unfolding validate_token_def
  by (auto intro!: moving.keeps_bind moving.keeps_pure keeps_signed keeps_calls keeps_checks)

lemma keeps_authenticate: "moving.keeps W (authenticate W R routes req inner)"
  unfolding authenticate_def admit_bearer_def count_request_def
  by (auto intro!: moving.keeps_bind moving.keeps_on_result moving.keeps_pure keeps_validate keeps_calls
      split: option.split presented.split sum.split error.split)

lemma keeps_revocations:
  "moving.keeps W (revoke_token W R j)" "moving.keeps W (revoke_subject W R u)"
  unfolding revoke_token_def revoke_subject_def deny_def deny_subject_def
  by (auto intro!: moving.keeps_bind moving.keeps_pure keeps_calls keeps_on_store keeps_handles)

lemma keeps_revoke_routes: "moving.keeps W (revoke_own W R req)" "moving.keeps W (revoke_named W R jj ss)"
  unfolding revoke_own_def revoke_named_def
  by (auto intro!: moving.keeps_pure keeps_revocations split: option.split)

lemma keeps_session_calls:
  "moving.keeps W (load_assertion W sid)" "moving.keeps W (drop_assertion W sid)"
  "moving.keeps W (mint W S sid sub c n)" "moving.keeps W (idp_token W S form)"
  "moving.keeps W (userinfo W token)" "moving.keeps W (idp_revoke W S refresh)" "moving.keeps W (login_fresh W at)"
  unfolding load_assertion_def drop_assertion_def mint_def expiry_def store_assertion_def idp_token_def
    userinfo_def idp_revoke_def login_fresh_def Let_def
  by (auto intro!: moving.keeps_bind moving.keeps_pure keeps_calls split: option.split)

lemma keeps_id_token: "moving.keeps W (verify_id_token W S token nonce)"
  unfolding verify_id_token_def
  by (auto intro!: moving.keeps_bind moving.keeps_pure keeps_key keeps_calls split: prod.split)

lemma keeps_renew: "moving.keeps W (renew W S e)"
  unfolding renew_def Let_def
  by (auto intro!: moving.keeps_bind moving.keeps_pure keeps_session_calls keeps_calls)

lemma keeps_establish: "moving.keeps W (establish W S q cookies)"
  unfolding establish_def
  by (auto intro!: moving.keeps_bind moving.keeps_pure keeps_session_calls keeps_calls keeps_id_token)

lemma keeps_layers:
  "moving.keeps W (callback_answer W S q req)" "moving.keeps W (authorize W S append_query)"
  "moving.keeps W (logout W S req)" "moving.keeps W (resolve_session W S req inner)"
  "moving.keeps W (enforce_role W role req inner)" "moving.keeps W (enforce_scope W scope req inner)"
  unfolding callback_answer_def authorize_def logout_def resolve_session_def renewed_def enforce_role_def enforce_scope_def Let_def
  by (auto intro!: moving.keeps_bind moving.keeps_on_result moving.keeps_pure keeps_session_calls keeps_calls
      keeps_establish keeps_renew split: option.split sum.split prod.split)

end

interpretation calm_idp: revoking_world "W\<lparr>iw_store := calm\<rparr>" for W
  by unfold_locales (simp add: only_revokes_def revocation_rows.R_refl)

section \<open>Runs of the process\<close>

inductive idp_step :: "idp_world \<Rightarrow> idp \<Rightarrow> idp \<Rightarrow> bool" where
  authenticate: "authenticate W R routes req inner s = (r, t) \<Longrightarrow> idp_step W s t"
| resolve_session: "resolve_session W S req inner s = (r, t) \<Longrightarrow> idp_step W s t"
| authorize: "authorize W S append_query s = (r, t) \<Longrightarrow> idp_step W s t"
| callback: "callback_answer W S q req s = (r, t) \<Longrightarrow> idp_step W s t"
| logout: "logout W S req s = (r, t) \<Longrightarrow> idp_step W s t"
| role: "enforce_role W role req inner s = (r, t) \<Longrightarrow> idp_step W s t"
| scope: "enforce_scope W scope req inner s = (r, t) \<Longrightarrow> idp_step W s t"
| revoke_own: "revoke_own W R req s = (v, t) \<Longrightarrow> idp_step W s t"
| revoke_named: "revoke_named W R jti sub s = (v, t) \<Longrightarrow> idp_step W s t"
| transition: "on_store (record_transition_floor (iw_store W) i at) s = (u, t) \<Longrightarrow> idp_step W s t"

inductive idp_runs :: "idp_world \<Rightarrow> idp \<Rightarrow> idp \<Rightarrow> bool" for W where
  refl: "idp_runs W s s"
| step: "idp_runs W s t \<Longrightarrow> idp_step W t u \<Longrightarrow> idp_runs W s u"

context revoking_world
begin

lemma step_moves: "idp_step W s t \<Longrightarrow> moves W s t"
  by (cases rule: idp_step.cases, assumption)
    (blast intro: moving.keepsD keeps_authenticate keeps_layers keeps_revoke_routes keeps_on_store keeps_handles)+

lemma runs_move: "idp_runs W s t \<Longrightarrow> moves W s t"
  by (induction rule: idp_runs.induct) (blast intro: moving.R_refl moving.R_trans step_moves)+

end

end
