(* ===== verification/Idp_Admission.thy ===== *)
theory Idp_Admission
  imports Idp_Facts
begin

text \<open>
  What the validation of \<^verbatim>\<open>bearer.rs\<close> lets through: tokens signed by a key the identity provider published,
  for this cell, inside their window, and not revoked by any revocation recorded before.
\<close>

section \<open>Genuine tokens\<close>

text \<open>The token is three parts, the header names the key, and the signature is over the first two.\<close>

definition signed_by :: "idp_api \<Rightarrow> jwk \<Rightarrow> string \<Rightarrow> string \<Rightarrow> access_claims \<Rightarrow> bool" where
  "signed_by A k kid token c \<longleftrightarrow>
     (\<exists>header payload signature n e tag.
        token = header @ CHR ''.'' # payload @ CHR ''.'' # signature \<and>
        CHR ''.'' \<notin> set payload \<and> CHR ''.'' \<notin> set signature \<and>
        token_kid A header = Inr kid \<and> key_component A (jk_n k) = Inr n \<and> key_component A (jk_e k) = Inr e \<and>
        ia_decode A signature = Some tag \<and> ia_rsa A n e (header @ CHR ''.'' # payload) tag \<and>
        decode_segment A (ia_access A) payload = Inr c)"

definition in_window :: "u64 \<Rightarrow> access_claims \<Rightarrow> u64 \<Rightarrow> bool" where
  "in_window lifetime c at \<longleftrightarrow>
     (\<exists>iat. ac_iat c = Some iat \<and> uint iat \<le> uint at + 60 \<and>
        uint at < uint (ac_exp c) + 60 \<and> uint (ac_exp c) \<le> uint iat + min (uint lifetime) 86400 \<and>
        (\<forall>nbf. ac_nbf c = Some nbf \<longrightarrow> uint nbf \<le> uint at + 60))"

lemma admitted_in_window: "admit_lifetime L c at = Inr iat \<Longrightarrow> in_window L c at \<and> ac_iat c = Some iat"
  by (auto simp: admit_lifetime_iff in_window_def)

lemma split_jwt_Inr_iff:
  "split_jwt token = Inr (i, sg, h, p) \<longleftrightarrow>
     token = h @ CHR ''.'' # p @ CHR ''.'' # sg \<and> CHR ''.'' \<notin> set p \<and> CHR ''.'' \<notin> set sg \<and> i = h @ CHR ''.'' # p"
  by (auto simp: split_jwt_def rsplit_once_Some_iff)

lemma sets_get_Some:
  "sets_get js kid at interval = Some k \<Longrightarrow> js_current js kid = Some k \<or> js_previous js kid = Some k"
  by (auto simp: sets_get_def split: option.splits if_splits)

lemma lookup_published:
  "jwks_lookup kid at interval s = (Inr (Some k), t) \<Longrightarrow> keys_published W s \<Longrightarrow> published W kid k"
  using sets_get_Some by (fastforce simp: jwks_lookup_def keys_published_def)

lemma token_kid_verified:
  assumes "split_jwt token = Inr (i, sg, h, p)" "token_kid A h = Inr kid" "verify_rs256 A k i sg = Inr u"
    "decode_segment A (ia_access A) p = Inr c"
  shows "signed_by A k kid token c"
proof -
  from assms(3) obtain n e tag where "key_component A (jk_n k) = Inr n" "key_component A (jk_e k) = Inr e"
    "ia_decode A sg = Some tag" "ia_rsa A n e i tag"
    by (auto simp: verify_rs256_def)
  with assms show ?thesis by (auto simp: signed_by_def split_jwt_Inr_iff)
qed

section \<open>Reads of the revocations\<close>

definition whole_reads :: "revocations store_world \<Rightarrow> bool" where
  "whole_reads V \<longleftrightarrow> (\<forall>n. ow_keep V n = None)"

lemma first_row_map_of: "first_row (map snd (filter (\<lambda>p. fst p = j) xs)) = map_of xs j"
  by (induction xs) (auto simp: first_row_def)

lemma first_row_floor: "first_row (floor_rows r) = rv_floor r"
  by (simp add: first_row_def floor_rows_def split: option.split)

abbreviation met_tables :: "revocations store_world \<Rightarrow> idp \<Rightarrow> revocations" where
  "met_tables V s \<equiv> app_tables (ho_db (pass V (id_store s)))"

lemma on_store_Inr_iff: "on_store m s = (Inr x, t) \<longleftrightarrow> (\<exists>h. m (id_store s) = (Inr x, h) \<and> t = s\<lparr>id_store := h\<rparr>)"
  by (auto simp: on_store_def split: prod.splits)

lemma revocation_answers:
  assumes "whole_reads V"
  shows "on_store (is_jti_revoked V j) s = (Inr d, t) \<Longrightarrow> d = (map_of (rv_jti (met_tables V s)) j \<noteq> None)"
    "on_store (is_subject_denied V u iat) s = (Inr d, t) \<Longrightarrow>
       d = (case map_of (rv_sub (met_tables V s)) u of None \<Rightarrow> False
            | Some v \<Rightarrow> (case iat of None \<Rightarrow> True | Some i \<Rightarrow> i \<le> revoked_seconds v))"
    "on_store (revocation_floor V) s = (Inr f, t) \<Longrightarrow>
       f = (case rv_floor (met_tables V s) of None \<Rightarrow> None | Some v \<Rightarrow> i64_to_u64 v)"
  using assms
  by (auto simp: on_store_Inr_iff is_jti_revoked_def jti_revoked_at_def is_subject_denied_def subject_revoked_at_def
      revocation_floor_def read_consistent_Inr_iff obind_Inr_iff whole_reads_def first_row_map_of first_row_floor
      simp del: pass_simps split: option.splits)

lemma uint_seconds: "0 \<le> v \<Longrightarrow> v \<le> i64_max \<Longrightarrow> uint (word_of_int v :: u64) = v"
  by (simp add: i64_max_def uint_word_of_int)

context revoking_world
begin

lemma met_le: "revocations_le (revs s) (met_tables (iw_store W) s)"
  using pass_revokes [of "id_store s"] by (simp add: rev_le_def)

lemma check_jti_passes:
  assumes "whole_reads (iw_store W)" "check_jti W (Some j) s = (Inr u, t)"
  shows "map_of (rv_jti (revs s)) j = None"
proof -
  from assms obtain v where "on_store (is_jti_revoked (iw_store W) j) s = (Inr False, v)"
    by (auto simp: check_jti_def obind_Inr_iff split: if_splits)
  from revocation_answers(1) [OF assms(1) this] have none: "map_of (rv_jti (met_tables (iw_store W) s)) j = None"
    by (cases "map_of (rv_jti (met_tables (iw_store W) s)) j") auto
  show ?thesis
  proof (cases "map_of (rv_jti (revs s)) j")
    case (Some v)
    with met_le [of s] none show ?thesis unfolding revocations_le_def by fastforce
  qed
qed

lemma check_subject_passes:
  assumes "whole_reads (iw_store W)" "instants_fit (revs s)" "check_subject W sub iat s = (Inr u, t)"
    "map_of (rv_sub (revs s)) sub = Some v"
  shows "\<exists>i. iat = Some i \<and> v < uint i"
proof -
  let ?M = "met_tables (iw_store W) s"
  obtain v' where v': "map_of (rv_sub ?M) sub = Some v'" "v \<le> v'" and fit: "instants_fit ?M"
    using met_le [of s] assms(2,4) unfolding revocations_le_def by blast
  have "uint (revoked_seconds v') = v'"
    using fit v'(1) by (auto simp: instants_fit_def revoked_seconds_def i64_to_u64_def uint_seconds)
  moreover from assms(3) obtain w where "on_store (is_subject_denied (iw_store W) sub iat) s = (Inr False, w)"
    by (auto simp: check_subject_def obind_Inr_iff split: if_splits)
  from revocation_answers(2) [OF assms(1) this] v' obtain i where "iat = Some i" "\<not> i \<le> revoked_seconds v'"
    by (auto split: option.splits)
  ultimately show ?thesis using v'(2) by (auto simp: word_le_def)
qed

lemma check_floor_passes:
  assumes "whole_reads (iw_store W)" "instants_fit (revs s)" "check_floor W iat s = (Inr u, t)"
    "rv_floor (revs s) = Some v"
  shows "v < uint iat"
proof -
  let ?M = "met_tables (iw_store W) s"
  obtain v' where v': "rv_floor ?M = Some v'" "v \<le> v'" and fit: "instants_fit ?M"
    using met_le [of s] assms(2,4) unfolding revocations_le_def by blast
  from assms(3) obtain f w where f: "on_store (revocation_floor (iw_store W)) s = (Inr f, w)"
    "\<forall>before. f = Some before \<longrightarrow> \<not> iat \<le> before"
    by (auto simp: check_floor_def obind_Inr_iff split: option.splits if_splits)
  have "f = Some (word_of_int v')"
    using revocation_answers(3) [OF assms(1) f(1)] fit v' by (auto simp: instants_fit_def i64_to_u64_def)
  with f(2) fit v' show ?thesis by (auto simp: instants_fit_def uint_seconds word_le_def)
qed

section \<open>What validation lets through\<close>

lemma keys_of_published:
  assumes "keys_published W s" "jwks_key W interval kid s = (Inr k, t)"
  shows "published W kid k"
proof -
  define at where "at = iw_now W (id_tick s)"
  obtain u where u: "(if interval \<le> saturating_sub at (js_refreshed_at (id_sets (tick s))) then jwks_rotate W at (tick s) else ret () (tick s)) = (Inr (), u)"
    and rest: "jwks_lookup kid at interval u = (Inr (Some k), u) \<or>
      (\<exists>w. jwks_rotate W at u = (Inr (), w) \<and> jwks_lookup kid at interval w = (Inr (Some k), w))"
    using assms(2) unfolding at_def
    by (auto simp: jwks_key_def obind_Inr_iff now_def or_error_def jwks_lookup_def split: option.splits)
  have "keys_published W (tick s)"
    using assms(1) by (simp add: keys_published_def tick_def)
  then have pub: "keys_published W u"
    using u moving.keepsD [OF keeps_rotate] by (auto simp: moves_def split: if_splits)
  from rest show ?thesis
  proof
    assume "jwks_lookup kid at interval u = (Inr (Some k), u)"
    from lookup_published [OF this pub] show ?thesis .
  next
    assume "\<exists>w. jwks_rotate W at u = (Inr (), w) \<and> jwks_lookup kid at interval w = (Inr (Some k), w)"
    then obtain w where w: "jwks_rotate W at u = (Inr (), w)" "jwks_lookup kid at interval w = (Inr (Some k), w)"
      by blast
    have "keys_published W w" using moving.keepsD [OF keeps_rotate w(1)] pub by (simp add: moves_def)
    from lookup_published [OF w(2) this] show ?thesis .
  qed
qed

lemma signed_claims_genuine:
  assumes "keys_published W s" "signed_claims W R token s = (Inr c, t)"
  shows "ac_iss c = re_authorization_server R \<and> (\<exists>k kid. published W kid k \<and> signed_by (re_api R) k kid token c)"
proof -
  from assms(2) obtain i sg h p kid k v u where parts: "split_jwt token = Inr (i, sg, h, p)"
    "token_kid (re_api R) h = Inr kid" "jwks_key W (re_interval R) kid s = (Inr k, v)"
    "verify_rs256 (re_api R) k i sg = Inr u" "decode_segment (re_api R) (ia_access (re_api R)) p = Inr c"
    "ac_iss c = re_authorization_server R"
    by (auto simp: signed_claims_def obind_Inr_iff split: if_splits)
  with keys_of_published [OF assms(1)] token_kid_verified show ?thesis by blast
qed

lemma check_subject_iat:
  assumes "admit_lifetime L c at = Inr iat"
  shows "ac_iat c = Some iat"
  using assms by (simp add: admit_lifetime_iff)

lemma validate_Inr:
  assumes "validate_token W R token s = (Inr b, t)"
  obtains c n sub client s1 s2 s3 s4 iat where
    "signed_claims W R token s = (Inr c, s1)" "admit_lifetime (re_lifetime R) c (iw_now W n) = Inr iat"
    "check_floor W iat s1 = (Inr (), s2) \<or> check_floor W iat (tick s1) = (Inr (), s2)"
    "audience_contains (ac_aud c) (re_origin R)" "subject (ac_claims c) = Inr sub" "client_of c = Inr client"
    "check_jti W (ac_jti c) s2 = (Inr (), s3)" "check_subject W sub (Some iat) s3 = (Inr (), s4)"
    "b = bearer_of c sub client (iw_now W n)" "check_floor W iat (tick s1) = (Inr (), s2)"
proof -
  from assms obtain c s1 iat s2 sub client s3 s4 where
    "signed_claims W R token s = (Inr c, s1)" "admit_lifetime (re_lifetime R) c (iw_now W (id_tick s1)) = Inr iat"
    "check_floor W iat (tick s1) = (Inr (), s2)"
    "audience_contains (ac_aud c) (re_origin R)" "subject (ac_claims c) = Inr sub" "client_of c = Inr client"
    "check_jti W (ac_jti c) s2 = (Inr (), s3)" "check_subject W sub (ac_iat c) s3 = (Inr (), s4)"
    "b = bearer_of c sub client (iw_now W (id_tick s1))"
    by (auto simp: validate_token_def obind_Inr_iff now_def split: if_splits)
  with check_subject_iat show ?thesis by (metis that)
qed

lemma validated_is_genuine:
  assumes "keys_published W s" "validate_token W R token s = (Inr b, t)"
  shows "\<exists>k kid c n. published W kid k \<and> signed_by (re_api R) k kid token c \<and>
    ac_iss c = re_authorization_server R \<and> audience_contains (ac_aud c) (re_origin R) \<and>
    in_window (re_lifetime R) c (iw_now W n) \<and> be_jti b = ac_jti c \<and>
    subject (ac_claims c) = Inr (p_sub (be_principal b)) \<and> client_of c = Inr (be_client_id b) \<and>
    be_principal b = principal_of (p_sub (be_principal b)) (ac_claims c) (iw_now W n)"
proof -
  from assms(2) obtain c n sub client iat s1 where parts: "signed_claims W R token s = (Inr c, s1)"
    "admit_lifetime (re_lifetime R) c (iw_now W n) = Inr iat" "audience_contains (ac_aud c) (re_origin R)"
    "subject (ac_claims c) = Inr sub" "client_of c = Inr client" "b = bearer_of c sub client (iw_now W n)"
    by (rule validate_Inr)
  have sub: "p_sub (be_principal b) = sub" "be_principal b = principal_of sub (ac_claims c) (iw_now W n)"
    "be_jti b = ac_jti c" "be_client_id b = client"
    by (simp_all add: parts(6) bearer_of_def principal_of_def)
  from signed_claims_genuine [OF assms(1) parts(1)] obtain k kid where "published W kid k"
    "signed_by (re_api R) k kid token c" "ac_iss c = re_authorization_server R" by blast
  with parts sub admitted_in_window [OF parts(2)] show ?thesis by metis
qed

text \<open>Nothing the tables denied when the token came in is let through.\<close>

lemma validated_not_revoked:
  assumes "whole_reads (iw_store W)" "instants_fit (revs s)" "keys_published W s" "validate_token W R token s = (Inr b, t)"
  shows "\<exists>k kid c iat. signed_by (re_api R) k kid token c \<and> ac_iat c = Some iat \<and>
    (\<forall>j. be_jti b = Some j \<longrightarrow> map_of (rv_jti (revs s)) j = None) \<and>
    (\<forall>v. map_of (rv_sub (revs s)) (p_sub (be_principal b)) = Some v \<longrightarrow> v < uint iat) \<and>
    (\<forall>v. rv_floor (revs s) = Some v \<longrightarrow> v < uint iat)"
proof -
  from assms(4) obtain c n sub client iat s1 s2 s3 s4 where parts: "signed_claims W R token s = (Inr c, s1)"
    "admit_lifetime (re_lifetime R) c (iw_now W n) = Inr iat" "check_floor W iat (tick s1) = (Inr (), s2)"
    "check_jti W (ac_jti c) s2 = (Inr (), s3)" "check_subject W sub (Some iat) s3 = (Inr (), s4)"
    "b = bearer_of c sub client (iw_now W n)"
    by (rule validate_Inr)
  have le1: "revocations_le (revs s) (revs (tick s1))"
    using moving.keepsD [OF keeps_signed parts(1)] by (simp add: moves_def rev_le_def tick_def)
  have le2: "revocations_le (revs s) (revs s2)"
    using le1 moving.keepsD [OF keeps_checks(1) parts(3)] by (auto simp: moves_def rev_le_def intro: revocations_le_trans)
  have le3: "revocations_le (revs s) (revs s3)"
    using le2 moving.keepsD [OF keeps_checks(2) parts(4)] by (auto simp: moves_def rev_le_def intro: revocations_le_trans)
  have jti: "map_of (rv_jti (revs s)) j = None" if "be_jti b = Some j" for j
  proof -
    from that parts(4,6) have "check_jti W (Some j) s2 = (Inr (), s3)" by (simp add: bearer_of_def)
    from check_jti_passes [OF assms(1) this] le2 show ?thesis
      by (cases "map_of (rv_jti (revs s)) j") (auto simp: revocations_le_def)
  qed
  have sub: "v < uint iat" if v: "map_of (rv_sub (revs s)) (p_sub (be_principal b)) = Some v" for v
  proof -
    from v le3 parts(6) obtain v' where v': "v \<le> v'" "map_of (rv_sub (revs s3)) sub = Some v'"
      using revocations_leD(2) [of "revs s" "revs s3" sub v] by (auto simp: bearer_of_def principal_of_def)
    have "instants_fit (revs s3)" using le3 assms(2) by (simp add: revocations_le_def)
    from check_subject_passes [OF assms(1) this parts(5) v'(2)] v'(1) show ?thesis by simp
  qed
  have floor: "v < uint iat" if v: "rv_floor (revs s) = Some v" for v
  proof -
    from v le1 obtain v' where v': "v \<le> v'" "rv_floor (revs (tick s1)) = Some v'"
      by (auto simp: revocations_le_def)
    have "instants_fit (revs (tick s1))" using le1 assms(2) by (simp add: revocations_le_def)
    from check_floor_passes [OF assms(1) this parts(3) v'(2)] v'(1) show ?thesis by simp
  qed
  from signed_claims_genuine [OF assms(3) parts(1)] check_subject_iat [OF parts(2)] jti sub floor show ?thesis by blast
qed

section \<open>A revocation is recorded\<close>

lemma submit_one:
  assumes "execute_one (iw_store W) f h = (Inr u, t)"
  shows "Inr (app_tables (ho_db t)) = f (app_tables (ho_db (pass (iw_store W) h)))"
  using assms by (auto simp: execute_one_def obind_Inr_iff submit_Inr_iff run_txn_Cons_iff app_sql_def
      simp del: pass_simps split: sum.splits)

lemma revoked_jti_recorded:
  assumes "revoke_token W R j s = (Inr v, t)"
  shows "map_of (rv_jti (revs t)) j \<noteq> None"
proof -
  from assms obtain i h where "execute_one (iw_store W) (insert_jti j i) h = (Inr (), id_store t)"
    by (auto simp: revoke_token_def deny_def now_def record_jti_revocation_def obind_Inr_iff on_store_Inr_iff)
  from submit_one [OF this] show ?thesis by (auto simp: insert_jti_def map_add_def split: if_splits option.splits)
qed

lemma revoked_subject_recorded:
  assumes "revoke_subject W R u s = (Inr v, t)"
  shows "\<exists>i \<ge> uint (iw_now W (id_tick s)). map_of (rv_sub (revs t)) u = Some i"
proof -
  from assms obtain i h h' where x: "execute_one (iw_store W) (raise_sub u i) h = (Inr (), h')"
    "sql_seconds (iw_now W (id_tick s)) = Inr i" "id_store t = h'"
    by (auto simp: revoke_subject_def deny_subject_def now_def record_subject_revocation_def obind_Inr_iff
        on_store_Inr_iff ask_def tick_def split: if_splits)
  from submit_one [OF x(1)] sql_seconds_fit [OF x(2)] x(3) show ?thesis
    by (auto simp: raise_sub_def map_add_def update_conv' le_max_iff_disj split: option.splits)
qed

end

end
