(* ===== verification/Idp_Ownership.thy ===== *)
theory Idp_Ownership
  imports Idp_Facts
begin

text \<open>
  A session stays with the subject it was minted for. The cache holds what this process minted, less what
  expired; a session id is drawn once; a cookie that opens was sealed for a login of this process.
\<close>

section \<open>What an operation adds to the cache\<close>

text \<open>Nothing but assertions for \<open>sid\<close>, each of them for \<open>sub\<close>.\<close>

definition mints :: "string \<Rightarrow> string \<Rightarrow> idp \<Rightarrow> idp \<Rightarrow> bool" where
  "mints sid sub s t \<longleftrightarrow> id_tick s \<le> id_tick t \<and>
     (\<forall>k v. id_cache t k = Some v \<longrightarrow>
        id_cache s k = Some v \<or> k = cache_key sid \<and> p_sub (se_principal (fst v)) = sub)"

definition shrinks :: "idp \<Rightarrow> idp \<Rightarrow> bool" where
  "shrinks s t \<longleftrightarrow> id_tick s \<le> id_tick t \<and> (\<forall>k v. id_cache t k = Some v \<longrightarrow> id_cache s k = Some v)"

lemma shrinks_mints: "shrinks s t \<Longrightarrow> mints sid sub s t"
  by (simp add: shrinks_def mints_def)

interpretation shrinking: guarantee shrinks
  by unfold_locales (auto simp: shrinks_def)

interpretation minting: guarantee "mints sid sub" for sid sub
  by unfold_locales (fastforce simp: mints_def)+

lemma minting_of_shrinking: "shrinking.keeps m \<Longrightarrow> minting.keeps sid sub m"
  unfolding shrinking.keeps_def minting.keeps_def using shrinks_mints by blast

lemma cache_key_inject [simp]: "cache_key a = cache_key b \<longleftrightarrow> a = b"
  by (simp add: cache_key_def)

definition cache_expires :: "idp_world \<Rightarrow> bool" where
  "cache_expires W \<longleftrightarrow> (\<forall>n c k v. iw_cache W n c k = Some v \<longrightarrow> c k = Some v)"

text \<open>What a login does: nothing to the cache, or one assertion under an id drawn on the way.\<close>

definition logs_in :: "idp_world \<Rightarrow> (idp, session_envelope) op \<Rightarrow> bool" where
  "logs_in W m \<longleftrightarrow> (\<forall>s r t. m s = (r, t) \<longrightarrow>
     (shrinks s t \<and> (\<exists>err. r = Inl err)) \<or>
     (\<exists>u sid sub. shrinks s u \<and> iw_entropy W (id_tick u) = Inr sid \<and> mints sid sub (tick u) t \<and>
        (\<forall>e. r = Inr e \<longrightarrow> en_sid e = sid \<and> en_sub e = sub)))"

lemma logs_in_bind:
  assumes "shrinking.keeps m" "\<And>x. logs_in W (f x)"
  shows "logs_in W (obind m f)"
  unfolding logs_in_def
proof (intro allI impI)
  fix s r t
  assume run: "obind m f s = (r, t)"
  obtain q u where q: "m s = (q, u)" by (cases "m s")
  have u: "shrinks s u" using shrinking.keepsD [OF assms(1) q] .
  let ?Q = "\<lambda>s. (shrinks s t \<and> (\<exists>err. r = Inl err)) \<or>
     (\<exists>u sid sub. shrinks s u \<and> iw_entropy W (id_tick u) = Inr sid \<and> mints sid sub (tick u) t \<and>
        (\<forall>e. r = Inr e \<longrightarrow> en_sid e = sid \<and> en_sub e = sub))"
  show "?Q s"
  proof (cases q)
    case (Inl e)
    with q run have "r = Inl e" "t = u" by simp_all
    with u show ?thesis by blast
  next
    case (Inr x)
    with q run have "f x u = (r, t)" by simp
    then have "?Q u" by (rule assms(2) [of x, unfolded logs_in_def, rule_format])
    then show ?thesis using u shrinking.R_trans by blast
  qed
qed

lemma logs_in_fail: "logs_in W (fail e)" "logs_in W (lift (Inl e))"
  by (auto simp: logs_in_def shrinks_def)

locale expiring_cache =
  fixes W :: idp_world
  assumes expires: "cache_expires W"
begin

lemma shrinking_calls:
  "shrinking.keeps (now W)" "shrinking.keeps (ask f)" "shrinking.keeps (kv_get W k)"
  "shrinking.keeps (kv_del W k)" "shrinking.keeps (jwks_lookup kid at interval)" "shrinking.keeps (jwks_rotate W at)"
  using expires
  by (auto intro!: shrinking.keepsI simp: now_def ask_def kv_get_def kv_del_def jwks_lookup_def jwks_rotate_def
      met_cache_def tick_def shrinks_def cache_expires_def obind_def on_result_def
      split: option.splits sum.splits if_splits)

lemma minting_put:
  "p_sub (se_principal se) = sub \<Longrightarrow> minting.keeps sid sub (kv_put W (cache_key sid) se ttl)"
  using expires
  by (auto intro!: minting.keepsI simp: kv_put_def met_cache_def tick_def mints_def cache_expires_def
      split: option.splits if_splits)

lemma minting_mint: "minting.keeps sid sub (mint W S sid sub c n)"
  unfolding mint_def expiry_def store_assertion_def Let_def
  by (auto intro!: minting.keeps_bind minting.keeps_pure minting_of_shrinking [OF shrinking_calls(1)] minting_put
      simp: principal_of_def)

lemma shrinking_key: "shrinking.keeps (jwks_key W interval kid)"
proof -
  have "shrinking.keeps (\<lambda>s. if c s then jwks_rotate W at s else ret () s)" for c at
    using shrinking_calls(6) [of at] shrinking.keeps_pure(1) [of "()"] unfolding shrinking.keeps_def by auto
  then show ?thesis
    unfolding jwks_key_def
    by (auto intro!: shrinking.keeps_bind shrinking.keeps_pure shrinking_calls split: option.split)
qed

lemma shrinking_session:
  "shrinking.keeps (idp_token W S form)" "shrinking.keeps (userinfo W token)"
  "shrinking.keeps (load_assertion W sid)" "shrinking.keeps (drop_assertion W sid)"
  "shrinking.keeps (idp_revoke W S refresh)" "shrinking.keeps (verify_id_token W S token nonce)"
  unfolding idp_token_def userinfo_def load_assertion_def drop_assertion_def idp_revoke_def verify_id_token_def
  by (auto intro!: shrinking.keeps_bind shrinking.keeps_pure shrinking_calls shrinking_key split: option.split prod.split)

lemma minting_renew: "minting.keeps (en_sid e) (en_sub e) (renew W S e)"
  unfolding renew_def Let_def
  by (auto intro!: minting.keeps_bind minting.keeps_pure minting_of_shrinking [OF shrinking_session(1)]
      minting_of_shrinking [OF shrinking_session(2)] minting_of_shrinking [OF shrinking_calls(1)] minting_mint)

lemma logs_in_mint:
  "logs_in W (obind (ask (iw_entropy W)) (\<lambda>sid. obind (mint W S sid sub c n) (\<lambda>_. obind (lift r) (\<lambda>refresh.
     obind (now W) (\<lambda>issued. ret \<lparr>en_sid = sid, en_sub = sub, en_refresh_token = refresh, en_issued = issued\<rparr>)))))"
  unfolding logs_in_def
proof (intro allI impI)
  fix s q t
  assume run: "obind (ask (iw_entropy W)) (\<lambda>sid. obind (mint W S sid sub c n) (\<lambda>_. obind (lift r) (\<lambda>refresh.
     obind (now W) (\<lambda>issued. ret \<lparr>en_sid = sid, en_sub = sub, en_refresh_token = refresh, en_issued = issued\<rparr>)))) s = (q, t)"
  let ?tail = "\<lambda>sid. obind (mint W S sid sub c n) (\<lambda>_. obind (lift r) (\<lambda>refresh. obind (now W) (\<lambda>issued.
    ret \<lparr>en_sid = sid, en_sub = sub, en_refresh_token = refresh, en_issued = issued\<rparr>)))"
  show "(shrinks s t \<and> (\<exists>err. q = Inl err)) \<or>
     (\<exists>u sid sub. shrinks s u \<and> iw_entropy W (id_tick u) = Inr sid \<and> mints sid sub (tick u) t \<and>
        (\<forall>e. q = Inr e \<longrightarrow> en_sid e = sid \<and> en_sub e = sub))"
  proof (cases "iw_entropy W (id_tick s)")
    case (Inl e)
    with run show ?thesis by (auto simp: ask_def obind_def on_result_def tick_def shrinks_def)
  next
    case (Inr sid)
    with run have tail: "?tail sid (tick s) = (q, t)" by (simp add: ask_def obind_Inr)
    have "minting.keeps sid sub (?tail sid)"
      by (auto intro!: minting.keeps_bind minting.keeps_pure minting_mint minting_of_shrinking [OF shrinking_calls(1)])
    from minting.keepsD [OF this tail] have "mints sid sub (tick s) t" .
    moreover have "q = Inr e \<Longrightarrow> en_sid e = sid \<and> en_sub e = sub" for e
      using tail by (auto simp: obind_Inr_iff)
    ultimately show ?thesis using Inr shrinking.R_refl by blast
  qed
qed

lemma establish_logs_in: "logs_in W (establish W S q cookies)"
  unfolding establish_def
  by (auto intro!: logs_in_bind logs_in_fail logs_in_mint shrinking.keeps_pure shrinking_calls shrinking_session)

lemma shrinking_drop_then: "shrinking.keeps (on_result (drop_assertion W sid) (\<lambda>_. ret r))"
  by (intro shrinking.keeps_on_result shrinking.keeps_pure shrinking_session)

lemma minting_renewed: "minting.keeps (en_sid e) (en_sub e) (renewed W S e req inner)"
  unfolding renewed_def
  by (auto intro!: minting.keeps_on_result minting.keeps_pure minting_renew minting_of_shrinking [OF shrinking_session(4)]
      split: sum.split prod.split)

lemma resolve_mints:
  assumes "resolve_session W S req inner s = (r, t)"
  shows "shrinks s t \<or>
    (\<exists>sealed e. session_text S req = Some sealed \<and> open_envelope (sx_api S) (sx_key S) sealed = Inr e \<and>
       mints (en_sid e) (en_sub e) s t)"
proof (cases "session_text S req")
  case None
  with assms show ?thesis by (auto simp: resolve_session_def shrinking.R_refl split: if_splits)
next
  case (Some sealed)
  show ?thesis
  proof (cases "open_envelope (sx_api S) (sx_key S) sealed")
    case (Inl err)
    with assms Some show ?thesis by (auto simp: resolve_session_def shrinking.R_refl split: if_splits)
  next
    case (Inr e)
    have "minting.keeps (en_sid e) (en_sub e) (resolve_session W S req inner)"
      by (auto simp: resolve_session_def Some Inr intro!: minting.keeps_on_result minting.keeps_pure minting_renewed
          minting_of_shrinking [OF shrinking_session(3)] split: sum.split option.split)
    from minting.keepsD [OF this assms] Some Inr show ?thesis by blast
  qed
qed

lemma logout_shrinks: "shrinking.keeps (logout W S req)"
  unfolding logout_def Let_def
  by (auto intro!: shrinking.keeps_on_result shrinking.keeps_pure shrinking_session split: option.split sum.split)

end

section \<open>The sessions of a process\<close>

text \<open>The cookie of a request opens only to a session the process established.\<close>

definition honest :: "sessions \<Rightarrow> (string \<times> string) list \<Rightarrow> http_request \<Rightarrow> bool" where
  "honest S log req \<longleftrightarrow>
     (\<forall>sealed e. session_text S req = Some sealed \<longrightarrow> open_envelope (sx_api S) (sx_key S) sealed = Inr e \<longrightarrow>
        (en_sid e, en_sub e) \<in> set log)"

definition logged :: "error + session_envelope \<Rightarrow> (string \<times> string) list" where
  "logged r = (case r of Inr e \<Rightarrow> [(en_sid e, en_sub e)] | Inl _ \<Rightarrow> [])"

inductive sessions_run :: "idp_world \<Rightarrow> sessions \<Rightarrow> idp \<Rightarrow> (string \<times> string) list \<Rightarrow> bool" for W S where
  start: "id_cache s = Map.empty \<Longrightarrow> sessions_run W S s []"
| login: "sessions_run W S s log \<Longrightarrow> establish W S q cookies s = (r, t) \<Longrightarrow> sessions_run W S t (log @ logged r)"
| http_request: "sessions_run W S s log \<Longrightarrow> honest S log req \<Longrightarrow> resolve_session W S req inner s = (r, t) \<Longrightarrow>
    sessions_run W S t log"
| logout: "sessions_run W S s log \<Longrightarrow> logout W S req s = (r, t) \<Longrightarrow> sessions_run W S t log"
| other: "sessions_run W S s log \<Longrightarrow> shrinks s t \<Longrightarrow> sessions_run W S t log"

definition drawn :: "idp_world \<Rightarrow> idp \<Rightarrow> string \<Rightarrow> bool" where
  "drawn W s sid \<longleftrightarrow> (\<exists>n < id_tick s. iw_entropy W n = Inr sid)"

text \<open>Two draws of 256 bits differ.\<close>

definition fresh_entropy :: "idp_world \<Rightarrow> bool" where
  "fresh_entropy W \<longleftrightarrow> (\<forall>m n x. iw_entropy W m = Inr x \<longrightarrow> iw_entropy W n = Inr x \<longrightarrow> m = n)"

definition owned :: "idp_world \<Rightarrow> idp \<Rightarrow> (string \<times> string) list \<Rightarrow> bool" where
  "owned W s log \<longleftrightarrow>
     (\<forall>sid sub v. (sid, sub) \<in> set log \<longrightarrow> id_cache s (cache_key sid) = Some v \<longrightarrow> p_sub (se_principal (fst v)) = sub) \<and>
     (\<forall>sid sub. (sid, sub) \<in> set log \<longrightarrow> drawn W s sid) \<and>
     (\<forall>sid v. id_cache s (cache_key sid) = Some v \<longrightarrow> drawn W s sid) \<and>
     (\<forall>sid a b. (sid, a) \<in> set log \<longrightarrow> (sid, b) \<in> set log \<longrightarrow> a = b)"

lemma ownedI:
  assumes "\<And>sid sub v. (sid, sub) \<in> set log \<Longrightarrow> id_cache s (cache_key sid) = Some v \<Longrightarrow> p_sub (se_principal (fst v)) = sub"
    and "\<And>sid sub. (sid, sub) \<in> set log \<Longrightarrow> drawn W s sid"
    and "\<And>sid v. id_cache s (cache_key sid) = Some v \<Longrightarrow> drawn W s sid"
    and "\<And>sid a b. (sid, a) \<in> set log \<Longrightarrow> (sid, b) \<in> set log \<Longrightarrow> a = b"
  shows "owned W s log"
  using assms unfolding owned_def by blast

lemma ownedD:
  assumes "owned W s log"
  shows "(sid, sub) \<in> set log \<Longrightarrow> id_cache s (cache_key sid) = Some v \<Longrightarrow> p_sub (se_principal (fst v)) = sub"
    "(sid, sub) \<in> set log \<Longrightarrow> drawn W s sid"
    "id_cache s (cache_key sid) = Some v \<Longrightarrow> drawn W s sid"
    "(sid, a) \<in> set log \<Longrightarrow> (sid, b) \<in> set log \<Longrightarrow> a = b"
  using assms unfolding owned_def by blast+

lemma drawn_later: "drawn W s sid \<Longrightarrow> id_tick s \<le> id_tick t \<Longrightarrow> drawn W t sid"
  unfolding drawn_def using less_le_trans by blast

lemma minted_entry:
  "mints sid sub s t \<Longrightarrow> id_cache t (cache_key x) = Some v \<Longrightarrow>
     id_cache s (cache_key x) = Some v \<or> x = sid \<and> p_sub (se_principal (fst v)) = sub"
  unfolding mints_def by fastforce

lemma owned_mints:
  assumes own: "owned W s log" and t: "mints sid sub s t" and log: "(sid, sub) \<in> set log"
  shows "owned W t log"
proof (rule ownedI)
  have tick: "id_tick s \<le> id_tick t" using t by (simp add: mints_def)
  show "drawn W t x" if "(x, y) \<in> set log" for x y
    using drawn_later [OF ownedD(2) [OF own that] tick] .
  show "drawn W t x" if "id_cache t (cache_key x) = Some v" for x v
    using minted_entry [OF t that] drawn_later [OF ownedD(3) [OF own] tick] drawn_later [OF ownedD(2) [OF own log] tick]
    by blast
  show "p_sub (se_principal (fst v)) = y" if "(x, y) \<in> set log" "id_cache t (cache_key x) = Some v" for x y v
    using minted_entry [OF t that(2)] ownedD(1) [OF own that(1)] ownedD(4) [OF own that(1)] log by blast
  show "a = b" if "(x, a) \<in> set log" "(x, b) \<in> set log" for x a b
    using ownedD(4) [OF own that] .
qed

lemma owned_shrinks:
  assumes own: "owned W s log" and t: "shrinks s t"
  shows "owned W t log"
proof (rule ownedI)
  have tick: "id_tick s \<le> id_tick t" and entry: "\<And>k v. id_cache t k = Some v \<Longrightarrow> id_cache s k = Some v"
    using t unfolding shrinks_def by blast+
  show "drawn W t x" if "(x, y) \<in> set log" for x y
    using drawn_later [OF ownedD(2) [OF own that] tick] .
  show "drawn W t x" if "id_cache t (cache_key x) = Some v" for x v
    using drawn_later [OF ownedD(3) [OF own entry [OF that]] tick] .
  show "p_sub (se_principal (fst v)) = y" if "(x, y) \<in> set log" "id_cache t (cache_key x) = Some v" for x y v
    using ownedD(1) [OF own that(1) entry [OF that(2)]] .
  show "a = b" if "(x, a) \<in> set log" "(x, b) \<in> set log" for x a b
    using ownedD(4) [OF own that] .
qed

lemma owned_login:
  assumes own: "owned W s log" and fresh: "fresh_entropy W" and u: "shrinks s u"
    and sid: "iw_entropy W (id_tick u) = Inr sid" and t: "mints sid sub (tick u) t"
  shows "owned W t log \<and> owned W t (log @ [(sid, sub)])"
proof -
  have own_u: "owned W u log" by (rule owned_shrinks [OF own u])
  have new: "\<not> drawn W u sid" using fresh sid unfolding fresh_entropy_def drawn_def by blast
  have later: "id_tick u < id_tick t" using t by (simp add: mints_def tick_def)
  then have sid_t: "drawn W t sid" using sid unfolding drawn_def by blast
  have keep: "drawn W u x \<Longrightarrow> drawn W t x" for x
    using drawn_later [of W u x t] later by simp
  have cache: "id_cache u (cache_key x) = Some v \<or> x = sid \<and> p_sub (se_principal (fst v)) = sub"
    if "id_cache t (cache_key x) = Some v" for x v
    using minted_entry [OF t that] by (simp add: tick_def)
  have out: "x \<noteq> sid" if "(x, a) \<in> set log" for x a using ownedD(2) [OF own_u that] new by blast
  have none: "x \<noteq> sid" if "id_cache u (cache_key x) = Some v" for x v using ownedD(3) [OF own_u that] new by blast
  have entries: "drawn W t x" if "id_cache t (cache_key x) = Some v" for x v
    using cache [OF that] keep [OF ownedD(3) [OF own_u]] sid_t by blast
  have old: "p_sub (se_principal (fst v)) = y" if "(x, y) \<in> set log" "id_cache t (cache_key x) = Some v" for x y v
    using cache [OF that(2)] out [OF that(1)] ownedD(1) [OF own_u that(1)] by blast
  have "owned W t log"
    by (rule ownedI) (blast intro: old keep [OF ownedD(2) [OF own_u]] entries ownedD(4) [OF own_u])+
  moreover have "owned W t (log @ [(sid, sub)])"
  proof (rule ownedI)
    show "p_sub (se_principal (fst v)) = y"
      if "(x, y) \<in> set (log @ [(sid, sub)])" "id_cache t (cache_key x) = Some v" for x y v
      using that(1) old [OF _ that(2)] cache [OF that(2)] none [of x v] by (cases "(x, y) \<in> set log") auto
    show "drawn W t x" if "(x, y) \<in> set (log @ [(sid, sub)])" for x y
      using that keep [OF ownedD(2) [OF own_u]] sid_t by auto
    show "a = b" if "(x, a) \<in> set (log @ [(sid, sub)])" "(x, b) \<in> set (log @ [(sid, sub)])" for x a b
      using that out ownedD(4) [OF own_u] by auto
  qed (rule entries)
  ultimately show ?thesis ..
qed

text \<open>A request is handed on with the subject its session was minted for, or is refused.\<close>

definition handed_on :: "string \<Rightarrow> http_request \<Rightarrow> (http_request \<Rightarrow> response) \<Rightarrow> response \<Rightarrow> bool" where
  "handed_on sub req inner resp \<longleftrightarrow>
     (\<exists>p cs. p_sub p = sub \<and> resp = with_cookies (inner (req\<lparr>rq_principal := Some p\<rparr>)) cs)"

lemma with_no_cookies: "with_cookies r [] = r"
  by (simp add: with_cookies_def)

lemma handed_on_plain: "handed_on (p_sub p) req inner (inner (req\<lparr>rq_principal := Some p\<rparr>))"
  unfolding handed_on_def by (metis with_no_cookies)

lemma refused_session [simp]: "is_refusal (with_cookies (answer_error e) cs)" "is_refusal (refuse_session S e)"
  using is_refusal_answers(1) [of e] by (simp_all add: refuse_session_def with_cookies_def is_refusal_def)

context expiring_cache
begin

lemma sessions_owned:
  assumes "fresh_entropy W" "sessions_run W S s log"
  shows "owned W s log"
  using assms(2)
proof (induction rule: sessions_run.induct)
  case (start s)
  then show ?case by (simp add: owned_def)
next
  case (login s log q cookies r t)
  from establish_logs_in login.hyps(2) consider "shrinks s t" "logged r = []"
    | u sid sub where "shrinks s u" "iw_entropy W (id_tick u) = Inr sid" "mints sid sub (tick u) t"
      "logged r = [(sid, sub)] \<or> logged r = []"
    unfolding logs_in_def logged_def by (cases r) fastforce+
  then show ?case
  proof cases
    case 1
    with owned_shrinks [OF login.IH] show ?thesis by simp
  next
    case 2
    from owned_login [OF login.IH assms(1) 2(1-3)] 2(4) show ?thesis by auto
  qed
next
  case (http_request s log req inner r t)
  from resolve_mints [OF http_request.hyps(3)] http_request.hyps(2) owned_shrinks [OF http_request.IH] owned_mints [OF http_request.IH]
  show ?case unfolding honest_def by blast
next
  case (logout s log req r t)
  show ?case by (rule owned_shrinks [OF logout.IH shrinking.keepsD [OF logout_shrinks logout.hyps(2)]])
next
  case (other s log t)
  show ?case by (rule owned_shrinks [OF other.IH other.hyps(2)])
qed

lemma renew_keeps_subject:
  assumes "renew W S e s = (Inr (se, e'), t)"
  shows "p_sub (se_principal se) = en_sub e \<and> en_sid e' = en_sid e \<and> en_sub e' = en_sub e"
proof -
  from assms obtain c n u v token at where "mint W S (en_sid e) (en_sub e) c n u = (Inr se, v)"
    "e' = envelope_rotated e token at"
    by (auto simp: renew_def obind_Inr_iff)
  then show ?thesis
    by (auto simp: mint_def obind_Inr_iff principal_of_def envelope_rotated_def Let_def)
qed

lemma loaded_entry:
  assumes "load_assertion W sid s = (Inr (Some se), t)"
  shows "\<exists>ttl. id_cache (met_cache W s) (cache_key sid) = Some (se, ttl)"
  using assms by (auto simp: load_assertion_def obind_Inr_iff kv_get_def split: option.splits if_splits)

lemma met_cache_shrinks: "shrinks s (met_cache W s)"
  using expires unfolding shrinks_def met_cache_def tick_def cache_expires_def by (simp del: split_paired_All)

lemma renewed_answers:
  assumes "renewed W S e req inner s = (Inr resp, t)"
  shows "is_refusal resp \<or> handed_on (en_sub e) req inner resp"
proof -
  obtain r u where r: "renew W S e s = (r, u)" by (cases "renew W S e s")
  show ?thesis
  proof (cases r)
    case (Inl err)
    with assms r show ?thesis
      by (auto simp: renewed_def on_result_def split: if_splits prod.splits)
  next
    case (Inr q)
    obtain se e' where q: "q = (se, e')" by (cases q)
    with assms r Inr have "resp = with_cookies (inner (req\<lparr>rq_principal := Some (se_principal se)\<rparr>))
        [cookie_set (session_cookie (sx_scheme S)) (seal_envelope (sx_api S) (sx_key S) e')]"
      by (simp add: renewed_def on_result_eq)
    moreover have "p_sub (se_principal se) = en_sub e" using renew_keeps_subject r Inr q by blast
    ultimately show ?thesis unfolding handed_on_def by blast
  qed
qed

lemma resolve_answers:
  assumes own: "owned W s log" and log: "(en_sid e, en_sub e) \<in> set log"
    and cookie: "session_text S req = Some sealed" "open_envelope (sx_api S) (sx_key S) sealed = Inr e"
    and run: "resolve_session W S req inner s = (Inr resp, t)"
  shows "is_refusal resp \<or> handed_on (en_sub e) req inner resp"
proof (cases "both_credentials req (sx_scheme S)")
  case True
  with run show ?thesis by (auto simp: resolve_session_def)
next
  case False
  obtain r u where r: "load_assertion W (en_sid e) s = (r, u)" by (cases "load_assertion W (en_sid e) s")
  note resolved = run [unfolded resolve_session_def on_result_def]
  show ?thesis
  proof (cases r)
    case (Inl err)
    with resolved False cookie r show ?thesis by auto
  next
    case (Inr found)
    show ?thesis
    proof (cases found)
      case None
      with resolved False cookie r Inr have "renewed W S e req inner u = (Inr resp, t)" by simp
      then show ?thesis by (rule renewed_answers)
    next
      case (Some se)
      with r Inr have "load_assertion W (en_sid e) s = (Inr (Some se), u)" by simp
      from loaded_entry [OF this] obtain ttl where "id_cache (met_cache W s) (cache_key (en_sid e)) = Some (se, ttl)" ..
      from ownedD(1) [OF owned_shrinks [OF own met_cache_shrinks] log this] have "p_sub (se_principal se) = en_sub e"
        by simp
      with resolved False cookie r Inr Some handed_on_plain [of "se_principal se" req inner] show ?thesis by auto
    qed
  qed
qed

end

end
