(* ===== verification/Example_Idp.thy ===== *)
theory Example_Idp
  imports Example_Env Idp_Admission Idp_Ownership
begin

text \<open>
  A concrete cell behind a concrete identity provider, for the witnesses:  a signature
  that repeats the key, one published key, one token, one login.
\<close>

section \<open>A codec\<close>

definition unhex :: "string \<Rightarrow> string option" where
  "unhex s = (case hex_decode s of Inl _ \<Rightarrow> None | Inr x \<Rightarrow> Some x)"

lemma unhex_hex [simp]: "unhex (hex_encode s) = Some s"
  by (simp add: unhex_def hex_roundtrip)

lemma hex_free: "\<not> ascii_hexdigit c \<Longrightarrow> c \<notin> set (hex_encode s)"
  using hex_encode_good by blast

lemma no_hexdigits: "\<not> ascii_hexdigit CHR '' ''" "\<not> ascii_hexdigit CHR ''.''"
  by code_simp+

lemmas hex_plain [simp] = no_hexdigits [THEN hex_free]

definition write_fields :: "string \<Rightarrow> string \<Rightarrow> string \<Rightarrow> u64 \<Rightarrow> string" where
  "write_fields a b c n =
     hex_encode a @ CHR '' '' # hex_encode b @ CHR '' '' # hex_encode c @ CHR '' '' # replicate (unat n) CHR ''x''"

definition read_fields :: "string \<Rightarrow> (string \<times> string \<times> string \<times> u64) option" where
  "read_fields s =
     (case split_once CHR '' '' s of None \<Rightarrow> None | Some (a, s1) \<Rightarrow>
      case split_once CHR '' '' s1 of None \<Rightarrow> None | Some (b, s2) \<Rightarrow>
      case split_once CHR '' '' s2 of None \<Rightarrow> None | Some (c, s3) \<Rightarrow>
        (case (unhex a, unhex b, unhex c) of
           (Some x, Some y, Some z) \<Rightarrow> Some (x, y, z, of_nat (length s3))
         | _ \<Rightarrow> None))"

lemma read_write_fields: "read_fields (write_fields a b c n) = Some (a, b, c, n)"
proof -
  have sp: "split_once CHR '' '' (hex_encode x @ CHR '' '' # rest) = Some (hex_encode x, rest)" for x rest
    by (simp add: split_once_Some_iff)
  show ?thesis by (simp add: read_fields_def write_fields_def sp)
qed

section \<open>The provider, the token and the login\<close>

definition ex_claims :: idp_claims where
  "ex_claims = \<lparr>ic_sub = Some ''ann'', ic_email = Some ''ann@a'', ic_email_verified = Some True,
     ic_preferred_username = None, ic_roles = [''admin'', '' '']\<rparr>"

definition ex_access :: access_claims where
  "ex_access = \<lparr>ac_iss = ''https://a/auth/v1'', ac_aud = One ''https://a'', ac_exp = 400, ac_nbf = None,
     ac_iat = Some 110, ac_jti = Some ''t1'', ac_azp = Some ''cli'', ac_scope = Some ''read write'',
     ac_claims = ex_claims\<rparr>"

definition ex_id_token :: id_token_payload where
  "ex_id_token = \<lparr>it_iss = ''https://a/auth/v1'', it_aud = Many [''cell''], it_exp = 500, it_nonce = Some ''n'',
     it_claims = ex_claims\<rparr>"

definition ex_api :: idp_api where
  "ex_api = \<lparr>ia_encode = hex_encode, ia_decode = unhex, ia_sign = (\<lambda>k m. k @ m),
     ia_rsa = (\<lambda>n e m tag. tag = n), ia_sha256 = (\<lambda>x. x),
     ia_header = (\<lambda>x. if x = ''h'' then Some \<lparr>jh_alg = ''RS256'', jh_kid = Some ''k1''\<rparr> else None),
     ia_access = (\<lambda>x. if x = ''p'' then Some ex_access else None),
     ia_id_token = (\<lambda>x. if x = ''i'' then Some ex_id_token else None),
     ia_write_envelope = (\<lambda>e. write_fields (en_sid e) (en_sub e) (en_refresh_token e) (en_issued e)),
     ia_read_envelope = (\<lambda>s. map_option (\<lambda>(a, b, c, n).
        \<lparr>en_sid = a, en_sub = b, en_refresh_token = c, en_issued = n\<rparr>) (read_fields s)),
     ia_write_login = (\<lambda>l. write_fields (ls_state l) (ls_nonce l) (ls_verifier l) (ls_issued l)),
     ia_read_login = (\<lambda>s. map_option (\<lambda>(a, b, c, n).
        \<lparr>ls_state = a, ls_nonce = b, ls_verifier = c, ls_issued = n\<rparr>) (read_fields s))\<rparr>"

lemma ex_codec: "codec_ok ex_api"
  by (simp add: codec_ok_def ex_api_def read_write_fields)

definition ex_keys :: "string \<Rightarrow> jwk option" where
  "ex_keys k = (if k = ''k1'' then Some \<lparr>jk_n = Some (hex_encode ''s''), jk_e = Some (hex_encode ''e'')\<rparr> else None)"

definition ex_token :: string where
  "ex_token = hex_encode ''h'' @ CHR ''.'' # hex_encode ''p'' @ CHR ''.'' # hex_encode ''s''"

definition ex_tokens :: token_response where
  "ex_tokens = \<lparr>tr_access_token = ''at'', tr_id_token = Some (hex_encode ''h'' @ CHR ''.'' # hex_encode ''i'' @ CHR ''.'' # hex_encode ''s''),
     tr_refresh_token = Some ''rt'', tr_expires_in = Some 100\<rparr>"

definition ex_idp_world :: idp_world where
  "ex_idp_world = \<lparr>iw_store = calm, iw_now = (\<lambda>n. 100 + of_nat n), iw_cache = (\<lambda>_ c. c), iw_counters = (\<lambda>_ c. c),
     iw_fault = (\<lambda>_. None), iw_fetch = (\<lambda>_. Inr ex_keys), iw_token = (\<lambda>_ _. Inr ex_tokens),
     iw_userinfo = (\<lambda>_ _. Inr ex_claims), iw_revoke = (\<lambda>_ _. Inr ()), iw_end_sessions = (\<lambda>_ _. Inr ()),
     iw_entropy = (\<lambda>n. Inr (replicate n CHR ''e'')), iw_refuse = (\<lambda>_. ''dec-1'')\<rparr>"

definition ex_server :: resource_server where
  "ex_server = \<lparr>re_api = ex_api, re_origin = ''https://a'', re_authorization_server = ''https://a/auth/v1'',
     re_scheme = Secure, re_lag = 420, re_lifetime = 300, re_rate_limit = 5, re_interval = 3600, re_ends_grants = False\<rparr>"

definition ex_revocation_tables :: "revocations sdb" where
  "ex_revocation_tables = \<lparr>lease_fence = [], rahi_receipt_head = [], rahi_receipt = [], rahi_processing = [],
     rahi_processing_attempt = [], outbox = [], outbox_sequence = 0,
     app_tables = \<lparr>rv_jti = [], rv_sub = [], rv_floor = None, rv_transitions = []\<rparr>\<rparr>"

definition ex_idp :: idp where
  "ex_idp = \<lparr>id_store = \<lparr>ho_db = ex_revocation_tables, ho_superseded = [], ho_released = [], ho_clock = 0\<rparr>,
     id_sets = \<lparr>js_current = ex_keys, js_previous = Map.empty, js_refreshed_at = 100\<rparr>,
     id_cache = Map.empty, id_counters = Map.empty, id_denials = [], id_tick = 0\<rparr>"

lemma ex_server_api: "re_api ex_server = ex_api"
  by (simp add: ex_server_def)

lemma ex_published: "keys_published ex_idp_world ex_idp"
  by (auto simp: keys_published_def published_def ex_idp_world_def ex_idp_def)

lemma ex_revocations_fit: "instants_fit (revs ex_idp)"
  by (simp add: instants_fit_def ex_idp_def ex_revocation_tables_def)

lemma ex_only_revokes: "only_revokes (iw_store ex_idp_world)"
  by (simp add: only_revokes_def ex_idp_world_def calm_def revocation_rows.R_refl)

lemma ex_whole_reads: "whole_reads (iw_store ex_idp_world)"
  by (simp add: whole_reads_def ex_idp_world_def calm_def)

lemma ex_fresh_entropy: "fresh_entropy ex_idp_world"
  by (auto simp: fresh_entropy_def ex_idp_world_def dest: arg_cong [where f = length])

lemma ex_cache_expires: "cache_expires ex_idp_world"
  by (simp add: cache_expires_def ex_idp_world_def)

lemma ex_split: "split_jwt ex_token =
    Inr (hex_encode ''h'' @ CHR ''.'' # hex_encode ''p'', hex_encode ''s'', hex_encode ''h'', hex_encode ''p'')"
  by (simp add: split_jwt_Inr_iff ex_token_def del: hex_encode.simps)

section \<open>A login and a request\<close>

definition ex_sessions :: sessions where
  "ex_sessions = \<lparr>sx_api = ex_api, sx_issuer = ''https://a/auth/v1'', sx_origin = ''https://a'', sx_client_id = ''cell'',
     sx_client_secret = ''secret'', sx_redirect_uri = ''https://a/session/callback'', sx_loopback = ''http://127.0.0.1'',
     sx_scheme = Secure, sx_key = ''k'', sx_access_ttl = 600, sx_login_ttl = 300, sx_interval = 3600,
     sx_authorize_url = Some ''https://a/auth/v1/authorize'', sx_revocation_endpoint = None,
     sx_end_session = ''https://a/auth/v1/logout''\<rparr>"

definition ex_login :: login_state where
  "ex_login = \<lparr>ls_state = ''s'', ls_nonce = ''n'', ls_verifier = ''v'', ls_issued = 0\<rparr>"

definition ex_callback :: callback where
  "ex_callback = \<lparr>cb_code = Some ''co'', cb_state = Some ''s'', cb_error = None\<rparr>"

definition ex_login_header :: string where
  "ex_login_header = ''__Host-login='' @ seal_login ex_api ''k'' ex_login"

definition ex_ended_login :: "(error + session_envelope) \<times> idp" where
  "ex_ended_login = establish ex_idp_world ex_sessions ex_callback (Some ex_login_header) ex_idp"

definition ex_envelope :: session_envelope where
  "ex_envelope = \<lparr>en_sid = ''eeeee'', en_sub = ''ann'', en_refresh_token = ''rt'', en_issued = 0\<rparr>"

lemma ex_establishes: "logged (fst ex_ended_login) = [(''eeeee'', ''ann'')]"
  by code_simp

definition ex_request :: http_request where
  "ex_request = \<lparr>rq_method = ''GET'', rq_path = ''/home'',
     rq_headers = [(''cookie'', ''a=b; __Host-session='' @ seal_envelope ex_api ''k'' ex_envelope)],
     rq_principal = None, rq_bearer = None\<rparr>"

lemma ex_session_text: "session_text ex_sessions ex_request = Some (seal_envelope ex_api ''k'' ex_envelope)"
  by code_simp

definition ex_inner :: "http_request \<Rightarrow> response" where
  "ex_inner r = \<lparr>rs_status = (case rq_principal r of None \<Rightarrow> 204 | Some _ \<Rightarrow> 200), rs_headers = [], rs_error = None\<rparr>"

lemma ex_resolved:
  "case resolve_session ex_idp_world ex_sessions ex_request ex_inner (snd ex_ended_login) of
     (Inr resp, _) \<Rightarrow> rs_status resp = 200 | _ \<Rightarrow> False"
  by code_simp

lemma ex_envelope_opens: "open_envelope (sx_api ex_sessions) (sx_key ex_sessions) (seal_envelope ex_api ''k'' ex_envelope) = Inr ex_envelope"
  using open_seal(1) [OF ex_codec] by (simp add: ex_sessions_def)

lemma ex_session_run: "sessions_run ex_idp_world ex_sessions (snd ex_ended_login) [(''eeeee'', ''ann'')]"
proof -
  have "sessions_run ex_idp_world ex_sessions ex_idp []"
    by (rule sessions_run.start) (simp add: ex_idp_def)
  from sessions_run.login [OF this, of ex_callback "Some ex_login_header" "fst ex_ended_login" "snd ex_ended_login"]
  show ?thesis by (simp add: ex_establishes flip: ex_ended_login_def)
qed

lemma ex_honest: "honest ex_sessions [(''eeeee'', ''ann'')] ex_request"
  unfolding honest_def ex_session_text using ex_envelope_opens by (auto simp: ex_envelope_def)

section \<open>A revocation\<close>

lemma ex_admitted:
  "case validate_token ex_idp_world ex_server ex_token ex_idp of
     (Inr b, t) \<Rightarrow> be_jti b = Some ''t1'' \<and> p_sub (be_principal b) = ''ann'' | _ \<Rightarrow> False"
  by code_simp

lemma ex_revoked:
  "case revoke_named ex_idp_world ex_server None (Some ''ann'') ex_idp of
     (Inr v, t) \<Rightarrow> (case validate_token ex_idp_world ex_server ex_token t of
         (Inr b, u) \<Rightarrow> p_sub (be_principal b) = ''ann'' | _ \<Rightarrow> False)
   | _ \<Rightarrow> False"
  by code_simp

end
