(* ===== verification/Idp_Theorems.thy ===== *)
theory Idp_Theorems
  imports Example_Idp
begin

text \<open>
  The properties of the identity crate, with their witnesses, and two lemmas that show where the code
  does less than its documentation says.
\<close>

section \<open>The properties\<close>

text \<open>
  C27: Only genuine tokens are admitted. When the resource server accepts a token, the token is three
  parts whose signature verifies under a key the identity provider published for the key id its
  header names, under RS256; its issuer is the authorization server of this cell, its audience holds
  this cell, the clock stands inside its window, and the bearer handed on is the subject, the
  authorised party and the token id of those very claims.
\<close>

theorem only_genuine_tokens_are_admitted:
  assumes "only_revokes (iw_store W)" "keys_published W s" "validate_token W R token s = (Inr b, t)"
  shows "\<exists>k kid c n. published W kid k \<and> signed_by (re_api R) k kid token c \<and>
    ac_iss c = re_authorization_server R \<and> audience_contains (ac_aud c) (re_origin R) \<and>
    in_window (re_lifetime R) c (iw_now W n) \<and> be_jti b = ac_jti c \<and>
    subject (ac_claims c) = Inr (p_sub (be_principal b)) \<and> client_of c = Inr (be_client_id b) \<and>
    be_principal b = principal_of (p_sub (be_principal b)) (ac_claims c) (iw_now W n)"
  by (rule revoking_world.validated_is_genuine [OF revoking_world.intro [OF assms(1)] assms(2,3)])

theorem only_genuine_tokens_are_admitted_witness:
  "\<exists>(b :: bearer) k kid c. be_jti b = Some ''t1'' \<and> published ex_idp_world kid k \<and> signed_by ex_api k kid ex_token c"
proof -
  obtain b t where "validate_token ex_idp_world ex_server ex_token ex_idp = (Inr b, t)" "be_jti b = Some ''t1''"
    using ex_admitted by (auto split: prod.splits sum.split_asm)
  with only_genuine_tokens_are_admitted [OF ex_only_revokes ex_published this(1)] show ?thesis
    unfolding ex_server_api by blast
qed

text \<open>
  C28: A revocation is final. Once the route that revokes a token id or a subject has answered, then over
  every further run of requests, logins, logouts and revocations of the process, and whoever else
  revokes, no validation admits a token with that id, nor a token of that subject that was issued
  at or before the instant of the revocation.
\<close>

theorem revocations_are_final:
  assumes "only_revokes (iw_store W)" "whole_reads (iw_store W)" "instants_fit (revs s)" "keys_published W s"
    and "revoke_named W R jti sub s = (Inr v, t)" "idp_runs W t u" "validate_token W R' token u = (Inr b, w)"
  shows "(\<forall>j. named jti = Some j \<longrightarrow> be_jti b \<noteq> Some j) \<and>
    (\<forall>x. named sub = Some x \<longrightarrow> p_sub (be_principal b) = x \<longrightarrow>
      (\<exists>k kid c iat. signed_by (re_api R') k kid token c \<and> ac_iat c = Some iat \<and> iw_now W (id_tick s) < iat))"
proof -
  have world: "revoking_world W" by (rule revoking_world.intro [OF assms(1)])
  have "moves W s t" using moving.keepsD [OF revoking_world.keeps_revoke_routes(2) [OF world] assms(5)] .
  moreover have tu: "moves W t u" by (rule revoking_world.runs_move [OF world assms(6)])
  ultimately have u: "instants_fit (revs u)" "keys_published W u" and later: "revocations_le (revs t) (revs u)"
    using assms(3,4) by (auto simp: moves_def rev_le_def dest: revocations_leD(4))
  from revoking_world.validated_not_revoked [OF world assms(2) u assms(7)] obtain k kid c iat where
    token: "signed_by (re_api R') k kid token c" "ac_iat c = Some iat"
    and jtis: "\<forall>j. be_jti b = Some j \<longrightarrow> map_of (rv_jti (revs u)) j = None"
    and subs: "\<forall>x. map_of (rv_sub (revs u)) (p_sub (be_principal b)) = Some x \<longrightarrow> x < uint iat"
    by blast
  have "be_jti b \<noteq> Some j" if "named jti = Some j" for j
  proof -
    from that assms(5) have "revoke_token W R j s = (Inr v, t)"
      by (auto simp: revoke_named_def split: option.splits)
    from revoking_world.revoked_jti_recorded [OF world this] revocations_leD(1) [OF later] jtis show ?thesis
      by force
  qed
  moreover have "iw_now W (id_tick s) < iat" if "named sub = Some (p_sub (be_principal b))"
  proof -
    from that assms(5) have "revoke_subject W R (p_sub (be_principal b)) s = (Inr v, t)"
      by (auto simp: revoke_named_def split: option.splits)
    from revoking_world.revoked_subject_recorded [OF world this] revocations_leD(2) [OF later] subs
    have "uint (iw_now W (id_tick s)) < uint iat" by force
    then show ?thesis by (simp add: word_less_def)
  qed
  ultimately show ?thesis using token by blast
qed

theorem revocations_are_final_witness:
  "\<exists>v t b w. revoke_named ex_idp_world ex_server None (Some ''ann'') ex_idp = (Inr v, t) \<and>
     validate_token ex_idp_world ex_server ex_token t = (Inr b, w) \<and> p_sub (be_principal b) = ''ann'' \<and>
     (\<exists>k kid c iat. signed_by ex_api k kid ex_token c \<and> ac_iat c = Some iat \<and> 100 < iat)"
proof -
  obtain v t b w where run: "revoke_named ex_idp_world ex_server None (Some ''ann'') ex_idp = (Inr v, t)"
    "validate_token ex_idp_world ex_server ex_token t = (Inr b, w)" "p_sub (be_principal b) = ''ann''"
    using ex_revoked by (auto split: prod.splits sum.split_asm)
  have "named (Some ''ann'') = Some ''ann''" by code_simp
  moreover have "iw_now ex_idp_world (id_tick ex_idp) = 100" by (simp add: ex_idp_world_def ex_idp_def)
  ultimately have "\<exists>k kid c iat. signed_by ex_api k kid ex_token c \<and> ac_iat c = Some iat \<and> 100 < iat"
    using revocations_are_final [OF ex_only_revokes ex_whole_reads ex_revocations_fit ex_published run(1)
        idp_runs.refl run(2)] run(3) unfolding ex_server_api by metis
  with run show ?thesis by blast
qed

text \<open>
  C29: A session never changes hands. Over every run of logins, requests, logouts and expiries of a
  process, each session id belongs to one subject, and a request whose cookie opens to the session is
  either refused or handed on as that subject, from the cached assertion and from a renewal alike.
\<close>

theorem session_never_changes_hands:
  assumes "cache_expires W" "fresh_entropy W" "sessions_run W S s log" "honest S log req"
    and "session_text S req = Some sealed" "open_envelope (sx_api S) (sx_key S) sealed = Inr e"
    and "resolve_session W S req inner s = (Inr resp, t)"
  shows "\<exists>sub. (en_sid e, sub) \<in> set log \<and> (\<forall>other. (en_sid e, other) \<in> set log \<longrightarrow> other = sub) \<and>
    (is_refusal resp \<or> handed_on sub req inner resp)"
proof -
  have world: "expiring_cache W" by (rule expiring_cache.intro [OF assms(1)])
  have own: "owned W s log" by (rule expiring_cache.sessions_owned [OF world assms(2,3)])
  have log: "(en_sid e, en_sub e) \<in> set log" using assms(4-6) unfolding honest_def by blast
  have "other = en_sub e" if "(en_sid e, other) \<in> set log" for other
    using ownedD(4) [OF own that log] .
  with log expiring_cache.resolve_answers [OF world own log assms(5-7)] show ?thesis
    by (intro exI [of _ "en_sub e"] conjI allI impI)
qed

theorem session_never_changes_hands_witness:
  "\<exists>resp t. resolve_session ex_idp_world ex_sessions ex_request ex_inner (snd ex_ended_login) = (Inr resp, t) \<and>
     handed_on ''ann'' ex_request ex_inner resp"
proof -
  obtain resp t where run: "resolve_session ex_idp_world ex_sessions ex_request ex_inner (snd ex_ended_login) = (Inr resp, t)"
    "rs_status resp = 200"
    using ex_resolved by (auto split: prod.splits sum.split_asm)
  from session_never_changes_hands [OF ex_cache_expires ex_fresh_entropy ex_session_run ex_honest
      ex_session_text ex_envelope_opens run(1)] obtain sub where "sub = ''ann''"
    "is_refusal resp \<or> handed_on sub ex_request ex_inner resp"
    by auto
  moreover have "\<not> is_refusal resp" using run(2) by (simp add: is_refusal_def)
  ultimately show ?thesis using run(1) by blast
qed

text \<open>
  The window of a token, to the second. A token is admitted exactly when it names its issue, its span
  is at most the ceiling of the cell and one day, it was issued at most a minute ahead of the clock
  and expired less than a minute ago, and none of the sums leaves the range of the clock; so a token
  is admitted for at most the span and two minutes.
\<close>

theorem admission_window_is_exact:
  "admit_lifetime L c at = Inr iat \<longleftrightarrow>
     ac_iat c = Some iat \<and> uint iat \<le> uint (ac_exp c) \<and>
     uint (ac_exp c) - uint iat \<le> min (uint L) 86400 \<and>
     uint at + 60 < 2 ^ 64 \<and> uint (ac_exp c) + 60 < 2 ^ 64 \<and>
     uint iat - 60 \<le> uint at \<and> uint at < uint (ac_exp c) + 60 \<and>
     (case ac_nbf c of None \<Rightarrow> True | Some nbf \<Rightarrow> uint nbf \<le> uint at + 60)"
  by (auto simp: admit_lifetime_iff split: option.splits)

text \<open>
  C30: A sealed cookie opens to what was sealed, and nothing else opens: an envelope and a login state come
  back from their cookies, and whatever text opens under a key carries that key's signature of the
  payload it opens to.
\<close>

theorem sealed_cookies_come_back:
  assumes "codec_ok A"
  shows "open_envelope A key (seal_envelope A key e) = Inr e \<and> open_login A key (seal_login A key l) = Inr l \<and>
    (\<forall>raw x. open_envelope A key raw = Inr x \<longrightarrow>
       (\<exists>payload mac json. raw = payload @ CHR ''.'' # mac \<and> ia_decode A mac = Some (ia_sign A key payload) \<and>
          ia_decode A payload = Some json \<and> ia_read_envelope A json = Some x))"
proof (intro conjI allI impI)
  fix raw x
  assume "open_envelope A key raw = Inr x"
  from open_text_signed [OF this [unfolded open_envelope_def]]
  show "\<exists>payload mac json. raw = payload @ CHR ''.'' # mac \<and> ia_decode A mac = Some (ia_sign A key payload) \<and>
      ia_decode A payload = Some json \<and> ia_read_envelope A json = Some x"
    by metis
qed (rule open_seal [OF assms])+

theorem sealed_cookies_come_back_witness:
  "open_envelope ex_api ''k'' (seal_envelope ex_api ''k'' ex_envelope) = Inr ex_envelope"
  using sealed_cookies_come_back [OF ex_codec] by blast



section \<open>Where the code does less than it says\<close>

text \<open>
  A key that was rotated away is to verify for one interval. A token that names a key id nobody
  published, whose signature nobody has checked yet, makes the set rotate again, and the key is gone.
\<close>

lemma unknown_kid_evicts_the_previous_key:
  assumes "\<And>n. iw_fetch W n = Inr K" "js_current (id_sets s) = K" "K bogus = None" "K kid = None"
    and "js_previous (id_sets s) bogus = None" "jwks_key W interval bogus s = (r, t)"
  shows "(\<exists>e. r = Inl e) \<and> (\<exists>e u. jwks_key W interval' kid t = (Inl e, u))"
proof -
  have rotate: "jwks_rotate W at x = (Inr (), (tick x)\<lparr>id_sets := \<lparr>js_current = K, js_previous = js_current (id_sets x),
      js_refreshed_at = at\<rparr>\<rparr>)" for at x
    by (simp add: jwks_rotate_eq assms(1))
  have gone: "\<exists>e u. jwks_key W i k x = (Inl e, u) \<and> js_current (id_sets u) = K \<and> js_previous (id_sets u) = K"
    if "js_current (id_sets x) = K" "K k = None" "js_previous (id_sets x) k = None" for i k x
    using that
    by (cases "i \<le> saturating_sub (iw_now W (id_tick x)) (js_refreshed_at (id_sets x))")
      (auto simp: jwks_key_def now_def obind_def on_result_def jwks_lookup_def sets_get_def rotate tick_def or_error_def
        split: if_splits)
  from gone [OF assms(2,3,5), of interval] assms(6) obtain e where "r = Inl e" "js_current (id_sets t) = K"
    "js_previous (id_sets t) = K" by auto
  with gone [of t kid interval'] assms(4) show ?thesis by auto
qed

text \<open>Two callers whose ids and subjects join to the same text share one window of the rate limit.\<close>

lemma callers_share_a_window:
  assumes "be_client_id b = ''a:b''" "p_sub (be_principal b) = ''c''" "be_client_id d = ''a''" "p_sub (be_principal d) = ''b:c''"
  shows "window_key b w = window_key d w"
  using assms by (simp add: window_key_def bearer_identity_def)

end
