(* ===== verification/Edge_Stream.thy ===== *)
theory Edge_Stream
  imports Idp_Bearer
begin

text \<open>
  \<^verbatim>\<open>crates/rahi-edge/src/stream.rs\<close>: one bounded channel per stream, its producers and its response body,
  and the hub that counts the open streams of each identity and drains them at a shutdown. An operation
  that takes one lock after another is cut at each of them: attaching a stream has three sections,
  closing one three (the state, the count, the wake-up of the drain), a poll up to four, and the drain is
  a machine with one section per look at the hub or at a stream. What a task does between two sections
  is its stage, so that \<open>hub_step\<close> interleaves the sections as the tasks of a process do. A wake-up that
  follows a section at once is part of it, and the notifications of the producers are left out. What a
  close owes the hub is kept apart from the task that owes it, which allows more interleavings than the
  code has, and the list of live streams is read as of one instant.
\<close>

section \<open>Data\<close>

record sse_event =
  ev_event :: string
  ev_data :: string
  ev_id :: "u64 option"

datatype stream_outcome = Complete | Client_gone | Overflowed | Shut_down

datatype closed_reason = Overflow | Cancelled

record stream_options =
  so_max_streams :: nat
  so_capacity :: nat
  so_keep_alive :: u64

text \<open>What the response body writes.\<close>

datatype body_item = Item sse_event | Terminal string

record attachment =
  at_identity :: string
  at_route :: string

text \<open>
  How far the receiving end has come: a receiver, the body of a response that carries its marker through
  the layers, in the middle of \<open>attach\<close>, in the hands of the server, in the middle of a poll or a drop.
\<close>

datatype stage =
    Receiving
  | Marked
  | Counted string string
  | Listed string string
  | Serving
  | Looked
  | Parking
  | Stopping string stream_outcome
  | Closing "string option" stream_outcome
  | Leaving
  | Dropping
  | Gone

text \<open>
  A stream: what both ends share, the channel, and what was accepted and written so far. \<open>ss_full\<close> counts
  the emits that met a full channel and have not signalled it yet.
\<close>

record sse_stream =
  ss_overflow :: bool
  ss_shutdown :: bool
  ss_closed :: bool
  ss_waker :: bool
  ss_woken :: bool
  ss_attachment :: "attachment option"
  ss_events :: nat
  ss_queue :: "sse_event list"
  ss_capacity :: nat
  ss_senders :: nat
  ss_full :: nat
  ss_rx_open :: bool
  ss_stage :: stage
  ss_ended :: bool
  ss_accepted :: "sse_event list"
  ss_written :: "body_item list"

definition EVENT_OVERFLOW :: string where "EVENT_OVERFLOW = ''overflow''"
definition EVENT_SHUTDOWN :: string where "EVENT_SHUTDOWN = ''shutdown''"

section \<open>One stream\<close>

definition channel_with :: "nat \<Rightarrow> sse_stream" where
  "channel_with capacity =
     \<lparr>ss_overflow = False, ss_shutdown = False, ss_closed = False, ss_waker = False, ss_woken = True,
      ss_attachment = None, ss_events = 0, ss_queue = [], ss_capacity = max capacity 1, ss_senders = 1,
      ss_full = 0, ss_rx_open = True, ss_stage = Receiving, ss_ended = False, ss_accepted = [], ss_written = []\<rparr>"

definition shared_cancelled :: "sse_stream \<Rightarrow> bool" where
  "shared_cancelled s \<longleftrightarrow> ss_overflow s \<or> ss_shutdown s \<or> ss_closed s"

definition producer_cancelled :: "sse_stream \<Rightarrow> bool" where
  "producer_cancelled s \<longleftrightarrow> shared_cancelled s \<or> \<not> ss_rx_open s"

text \<open>\<open>Shared::signal\<close>: set a flag, and wake the body when it left its waker.\<close>

definition signal_stream :: "(sse_stream \<Rightarrow> sse_stream) \<Rightarrow> sse_stream \<Rightarrow> sse_stream" where
  "signal_stream f s =
     (let t = f s in if ss_waker t then t\<lparr>ss_waker := False, ss_woken := True\<rparr> else t)"

definition tell_shutdown :: "sse_stream \<Rightarrow> sse_stream" where
  "tell_shutdown = signal_stream (\<lambda>t. t\<lparr>ss_shutdown := True\<rparr>)"

text \<open>
  \<open>Producer::emit\<close> looks whether the stream is cancelled, tries the channel, and signals when it was full:
  three sections, which other tasks may come between.
\<close>

definition try_send :: "sse_event \<Rightarrow> sse_stream \<Rightarrow> (closed_reason + unit) \<times> sse_stream" where
  "try_send e s =
     (if \<not> ss_rx_open s then (Inl Cancelled, s)
      else if length (ss_queue s) < ss_capacity s
      then (Inr (), s\<lparr>ss_queue := ss_queue s @ [e], ss_accepted := ss_accepted s @ [e], ss_woken := True\<rparr>)
      else (Inl Overflow, s\<lparr>ss_full := Suc (ss_full s)\<rparr>))"

definition signal_overflow :: "sse_stream \<Rightarrow> sse_stream" where
  "signal_overflow s = signal_stream (\<lambda>t. t\<lparr>ss_overflow := True\<rparr>) (s\<lparr>ss_full := ss_full s - 1\<rparr>)"

definition emit_event :: "sse_event \<Rightarrow> sse_stream \<Rightarrow> (closed_reason + unit) \<times> sse_stream" where
  "emit_event e s =
     (if shared_cancelled s then (Inl Cancelled, s)
      else (case try_send e s of
              (Inl Overflow, t) \<Rightarrow> (Inl Overflow, signal_overflow t)
            | r \<Rightarrow> r))"

text \<open>The state section of \<open>Shared::close\<close>, once: the attachment taken is what the hub is told.\<close>

definition close_stream :: "sse_stream \<Rightarrow> attachment option \<times> sse_stream" where
  "close_stream s =
     (if ss_closed s then (None, s)
      else (ss_attachment s, s\<lparr>ss_closed := True, ss_attachment := None\<rparr>))"

definition terminal_of :: "sse_stream \<Rightarrow> (string \<times> stream_outcome) option" where
  "terminal_of s =
     (if ss_shutdown s then Some (EVENT_SHUTDOWN, Shut_down)
      else if ss_overflow s then Some (EVENT_OVERFLOW, Overflowed) else None)"

text \<open>
  \<open>poll_next\<close>, section by section: the look at the flags, then either the end of the channel and the close,
  or the next event, the end when the queue is empty and every producer is gone, or the wait.
\<close>

definition poll_look :: "sse_stream \<Rightarrow> sse_stream" where
  "poll_look s =
     (if ss_ended s then s
      else (case terminal_of s of
              Some (name, oc) \<Rightarrow> s\<lparr>ss_ended := True, ss_stage := Stopping name oc\<rparr>
            | None \<Rightarrow> s\<lparr>ss_stage := Looked, ss_woken := False\<rparr>))"

definition poll_recv :: "sse_stream \<Rightarrow> sse_stream" where
  "poll_recv s =
     (case ss_queue s of
        e # q \<Rightarrow>
          s\<lparr>ss_queue := q, ss_events := Suc (ss_events s), ss_written := ss_written s @ [Item e], ss_woken := True,
            ss_stage := Serving\<rparr>
      | [] \<Rightarrow>
          if ss_senders s = 0 then s\<lparr>ss_ended := True, ss_stage := Closing None Complete\<rparr>
          else s\<lparr>ss_stage := Parking\<rparr>)"

definition park :: "sse_stream \<Rightarrow> sse_stream" where
  "park s = s\<lparr>ss_waker := True, ss_stage := Serving\<rparr>"

section \<open>The hub\<close>

text \<open>
  A drain, \<open>StreamHub::drain\<close>: which section comes next, the streams it still holds, whether it was
  notified, and how many streams were open when its deadline came.
\<close>

datatype drain_pc =
    Reading
  | Telling "nat list"
  | Registering
  | Looking bool
  | Waiting bool
  | Expired
  | Remaining nat
  | Cutting nat "nat list"
  | Drained
  | Timed_out nat

text \<open>A close that took the attachment of a stream, up to the section that gives the place back.\<close>

record release_task =
  rt_stream :: nat
  rt_attachment :: attachment
  rt_outcome :: stream_outcome

record hub =
  hb_options :: stream_options
  hb_open :: "(string \<times> nat) list"
  hb_listed :: "nat list"
  hb_streams :: "sse_stream list"
  hb_releasing :: "release_task list"
  hb_notifying :: "(release_task \<times> nat) list"
  hb_closed :: "(release_task \<times> nat) list"
  hb_drains :: "drain_pc list"

definition hub_new :: "stream_options \<Rightarrow> hub" where
  "hub_new opts =
     \<lparr>hb_options = opts, hb_open = [], hb_listed = [], hb_streams = [], hb_releasing = [], hb_notifying = [],
      hb_closed = [], hb_drains = []\<rparr>"

definition open_of :: "hub \<Rightarrow> string \<Rightarrow> nat" where
  "open_of H i = (case map_of (hb_open H) i of None \<Rightarrow> 0 | Some n \<Rightarrow> n)"

definition open_total :: "hub \<Rightarrow> nat" where
  "open_total H = sum_list (map snd (hb_open H))"

definition hub_admits :: "hub \<Rightarrow> string \<Rightarrow> bool" where
  "hub_admits H i \<longleftrightarrow> open_of H i < so_max_streams (hb_options H)"

definition put_stream :: "nat \<Rightarrow> sse_stream \<Rightarrow> hub \<Rightarrow> hub" where
  "put_stream k s H = H\<lparr>hb_streams := (hb_streams H)[k := s]\<rparr>"

text \<open>The two sections of \<open>StreamHub::release\<close>, after which the close is recorded.\<close>

definition release :: "string \<Rightarrow> hub \<Rightarrow> hub" where
  "release i H =
     (case map_of (hb_open H) i of
        None \<Rightarrow> H
      | Some n \<Rightarrow> H\<lparr>hb_open := if n - 1 = 0 then AList.delete i (hb_open H) else AList.update i (n - 1) (hb_open H)\<rparr>)"

definition release_section :: "release_task \<Rightarrow> hub \<Rightarrow> hub" where
  "release_section t H =
     (release (at_identity (rt_attachment t)) H)
       \<lparr>hb_releasing := remove1 t (hb_releasing H),
        hb_notifying := hb_notifying H @ [(t, ss_events (hb_streams H ! rt_stream t))]\<rparr>"

fun wake_drain :: "drain_pc \<Rightarrow> drain_pc" where
  "wake_drain (Looking _) = Looking True"
| "wake_drain (Waiting _) = Waiting True"
| "wake_drain pc = pc"

definition notify_section :: "release_task \<times> nat \<Rightarrow> hub \<Rightarrow> hub" where
  "notify_section r H =
     H\<lparr>hb_notifying := remove1 r (hb_notifying H), hb_closed := hb_closed H @ [r],
       hb_drains := map wake_drain (hb_drains H)\<rparr>"

text \<open>A stream closes with an outcome: the first to close it takes the attachment to the hub.\<close>

definition hub_close :: "nat \<Rightarrow> stream_outcome \<Rightarrow> hub \<Rightarrow> hub" where
  "hub_close k oc H =
     (case close_stream (hb_streams H ! k) of
        (None, s) \<Rightarrow> put_stream k s H
      | (Some a, s) \<Rightarrow>
          (put_stream k s H)\<lparr>hb_releasing := hb_releasing H @ [\<lparr>rt_stream = k, rt_attachment = a, rt_outcome = oc\<rparr>]\<rparr>)"

text \<open>A shared state lives while a producer, the receiving end or a drain holds it.\<close>

fun drain_holds :: "drain_pc \<Rightarrow> nat list" where
  "drain_holds (Telling ks) = ks"
| "drain_holds (Cutting _ ks) = ks"
| "drain_holds _ = []"

definition alive :: "hub \<Rightarrow> nat \<Rightarrow> bool" where
  "alive H k \<longleftrightarrow>
     0 < ss_senders (hb_streams H ! k) \<or> ss_stage (hb_streams H ! k) \<noteq> Gone \<or>
     list_ex (\<lambda>pc. k \<in> set (drain_holds pc)) (hb_drains H)"

definition live :: "hub \<Rightarrow> nat list" where
  "live H = filter (alive H) (hb_listed H)"

text \<open>The three sections of \<open>attach\<close>, and all of them when no other task comes between.\<close>

definition attach_count :: "nat \<Rightarrow> string \<Rightarrow> string \<Rightarrow> hub \<Rightarrow> hub" where
  "attach_count k i route H =
     put_stream k ((hb_streams H ! k)\<lparr>ss_stage := Counted i route\<rparr>)
       (H\<lparr>hb_open := AList.update i (Suc (open_of H i)) (hb_open H)\<rparr>)"

definition attach_list :: "nat \<Rightarrow> string \<Rightarrow> string \<Rightarrow> hub \<Rightarrow> hub" where
  "attach_list k i route H =
     put_stream k ((hb_streams H ! k)\<lparr>ss_stage := Listed i route\<rparr>) (H\<lparr>hb_listed := live H @ [k]\<rparr>)"

definition attach_set :: "nat \<Rightarrow> string \<Rightarrow> string \<Rightarrow> hub \<Rightarrow> hub" where
  "attach_set k i route H =
     put_stream k ((hb_streams H ! k)
       \<lparr>ss_attachment := Some \<lparr>at_identity = i, at_route = route\<rparr>, ss_stage := Serving\<rparr>) H"

definition attach :: "nat \<Rightarrow> string \<Rightarrow> string \<Rightarrow> hub \<Rightarrow> hub" where
  "attach k i route H = attach_set k i route (attach_list k i route (attach_count k i route H))"

text \<open>
  The next section of the task that holds the receiving end, in a poll or a drop it has begun. The
  terminal event is written when its close is done.
\<close>

definition body_section :: "nat \<Rightarrow> hub \<Rightarrow> hub" where
  "body_section k H =
     (let s = hb_streams H ! k
      in case ss_stage s of
           Counted i route \<Rightarrow> attach_list k i route H
         | Listed i route \<Rightarrow> attach_set k i route H
         | Serving \<Rightarrow> put_stream k (poll_look s) H
         | Looked \<Rightarrow> put_stream k (poll_recv s) H
         | Parking \<Rightarrow> put_stream k (park s) H
         | Stopping name oc \<Rightarrow> put_stream k (s\<lparr>ss_rx_open := False, ss_stage := Closing (Some name) oc\<rparr>) H
         | Closing name oc \<Rightarrow>
             hub_close k oc
               (put_stream k (s\<lparr>ss_written := ss_written s @ (case name of None \<Rightarrow> [] | Some x \<Rightarrow> [Terminal x]),
                  ss_stage := Serving\<rparr>) H)
         | Leaving \<Rightarrow> hub_close k Client_gone (put_stream k (s\<lparr>ss_stage := Dropping\<rparr>) H)
         | Dropping \<Rightarrow> put_stream k (s\<lparr>ss_rx_open := False, ss_stage := Gone\<rparr>) H
         | _ \<Rightarrow> H)"

section \<open>The drain\<close>

text \<open>
  One section of the drain: tell every live stream, answer when none is open, register for the
  notification and look again, wait. When the deadline comes first (the flag) it counts the streams that
  remain and closes each.
\<close>

fun drain_section :: "bool \<Rightarrow> hub \<Rightarrow> drain_pc \<Rightarrow> hub \<times> drain_pc" where
  "drain_section late H Reading = (H\<lparr>hb_listed := live H\<rparr>, Telling (live H))"
| "drain_section late H (Telling (k # ks)) = (put_stream k (tell_shutdown (hb_streams H ! k)) H, Telling ks)"
| "drain_section late H (Telling []) = (H, if open_total H = 0 then Drained else Registering)"
| "drain_section late H Registering = (H, Looking False)"
| "drain_section late H (Looking w) = (H, if open_total H = 0 then Drained else Waiting w)"
| "drain_section late H (Waiting w) = (H, if late then Expired else if w then Reading else Waiting w)"
| "drain_section late H Expired = (H, Remaining (open_total H))"
| "drain_section late H (Remaining n) = (H\<lparr>hb_listed := live H\<rparr>, Cutting n (live H))"
| "drain_section late H (Cutting n (k # ks)) = (hub_close k Shut_down H, Cutting n ks)"
| "drain_section late H (Cutting n []) = (H, Timed_out n)"
| "drain_section late H Drained = (H, Drained)"
| "drain_section late H (Timed_out n) = (H, Timed_out n)"

definition drain_step :: "bool \<Rightarrow> nat \<Rightarrow> hub \<Rightarrow> hub" where
  "drain_step late d H =
     (case drain_section late H (hb_drains H ! d) of (G, pc) \<Rightarrow> G\<lparr>hb_drains := (hb_drains G)[d := pc]\<rparr>)"

section \<open>The gate and a declared route\<close>

definition DECISION_STREAM_LIMIT :: string where "DECISION_STREAM_LIMIT = ''edge.stream.limit''"
definition DECISION_STREAM_UNDECLARED :: string where "DECISION_STREAM_UNDECLARED = ''edge.stream.undeclared''"

definition actor_of :: "http_request \<Rightarrow> string" where
  "actor_of req = (case rq_principal req of None \<Rightarrow> ''anonymous'' | Some p \<Rightarrow> p_sub p)"

definition stream_identity ::
  "(http_request \<Rightarrow> string option) option \<Rightarrow> (http_request \<Rightarrow> string) \<Rightarrow> http_request \<Rightarrow> string" where
  "stream_identity resolver client req =
     (case (case resolver of None \<Rightarrow> None | Some r \<Rightarrow> r req) of
        Some i \<Rightarrow> i
      | None \<Rightarrow> (case rq_principal req of Some p \<Rightarrow> p_sub p | None \<Rightarrow> client req))"

text \<open>What a response carries in its extensions: the mark of a declared route, and the stream of its body.\<close>

record stream_response =
  sr_response :: response
  sr_declared :: bool
  sr_marker :: "nat option"

definition enforce_stream :: "idp_world \<Rightarrow> http_request \<Rightarrow> stream_response \<Rightarrow> (idp, response) op" where
  "enforce_stream W req r =
     (if sr_declared r \<or> sr_marker r = None then ret (sr_response r)
      else
        obind (kernel_refuse W DECISION_STREAM_UNDECLARED (actor_of req)) (\<lambda>i.
        ret ((answer_error (Denied (i @ '': a streaming response from a route not declared streaming'')))\<lparr>rs_status := 500\<rparr>)))"

text \<open>
  A declared route before and after its handler: \<open>Inl\<close> is the refusal over the budget, \<open>Inr\<close> the
  identity its stream will count against. A handler that misses the first byte answers \<open>None\<close>.
\<close>

definition declared_admit ::
  "idp_world \<Rightarrow> hub \<Rightarrow> (http_request \<Rightarrow> string) \<Rightarrow> http_request \<Rightarrow> (idp, stream_response + string) op" where
  "declared_admit W H identity_of req =
     (if \<not> hub_admits H (identity_of req)
      then
        obind (kernel_refuse W DECISION_STREAM_LIMIT (actor_of req)) (\<lambda>i.
        ret (Inl \<lparr>sr_response = insert_header ''retry-after'' (show_nat (unat (max (so_keep_alive (hb_options H)) 1)))
            ((answer_error (Denied (i @ '': the ceiling of open streams'')))\<lparr>rs_status := 429\<rparr>),
          sr_declared = True, sr_marker = None\<rparr>))
      else ret (Inr (identity_of req)))"

definition first_byte_timeout :: stream_response where
  "first_byte_timeout =
     \<lparr>sr_response = \<lparr>rs_status = 504, rs_headers = [(''content-type'', ''application/json'')],
        rs_error = Some (Stale ''stream_first_byte_timeout'')\<rparr>, sr_declared = False, sr_marker = None\<rparr>"

text \<open>
  What is left of a declared route once its handler answered, or did not in time: the stream of the
  answer is attached, here in one go.
\<close>

definition declared_finish :: "string \<Rightarrow> string \<Rightarrow> stream_response option \<Rightarrow> hub \<Rightarrow> stream_response \<times> hub" where
  "declared_finish i route answered H =
     (let r = (case answered of Some r \<Rightarrow> r | None \<Rightarrow> first_byte_timeout)
      in (r\<lparr>sr_declared := True, sr_marker := None\<rparr>,
          case sr_marker r of None \<Rightarrow> H | Some k \<Rightarrow> attach k i route H))"

section \<open>The steps of a process\<close>

text \<open>
  A receiver becomes the body of a marked response, or is dropped; the response passes the layers, where
  a declared route takes the marker and attaches it once, and then the server polls it or drops it.
  A producer that is in the middle of an emit is not dropped.
\<close>

definition restage :: "nat \<Rightarrow> stage \<Rightarrow> hub \<Rightarrow> hub" where
  "restage k st H = put_stream k ((hb_streams H ! k)\<lparr>ss_stage := st\<rparr>) H"

inductive hub_step :: "hub \<Rightarrow> hub \<Rightarrow> bool" where
  channel: "hub_step H (H\<lparr>hb_streams := hb_streams H @ [channel_with capacity]\<rparr>)"
| clone_producer: "k < length (hb_streams H) \<Longrightarrow> s = hb_streams H ! k \<Longrightarrow> 0 < ss_senders s \<Longrightarrow>
    hub_step H (put_stream k (s\<lparr>ss_senders := Suc (ss_senders s)\<rparr>) H)"
| drop_producer: "k < length (hb_streams H) \<Longrightarrow> s = hb_streams H ! k \<Longrightarrow> 0 < ss_senders s \<Longrightarrow>
    ss_full s = 0 \<or> 1 < ss_senders s \<Longrightarrow>
    hub_step H (put_stream k (s\<lparr>ss_senders := ss_senders s - 1, ss_woken := True\<rparr>) H)"
| send: "k < length (hb_streams H) \<Longrightarrow> 0 < ss_senders (hb_streams H ! k) \<Longrightarrow>
    hub_step H (put_stream k (snd (try_send e (hb_streams H ! k))) H)"
| overflow: "k < length (hb_streams H) \<Longrightarrow> 0 < ss_full (hb_streams H ! k) \<Longrightarrow>
    hub_step H (put_stream k (signal_overflow (hb_streams H ! k)) H)"
| respond: "k < length (hb_streams H) \<Longrightarrow> ss_stage (hb_streams H ! k) = Receiving \<Longrightarrow> hub_step H (restage k Marked H)"
| drop_receiver: "k < length (hb_streams H) \<Longrightarrow> s = hb_streams H ! k \<Longrightarrow> ss_stage s = Receiving \<Longrightarrow>
    hub_step H (put_stream k (s\<lparr>ss_rx_open := False, ss_stage := Gone\<rparr>) H)"
| attach: "k < length (hb_streams H) \<Longrightarrow> ss_stage (hb_streams H ! k) = Marked \<Longrightarrow> hub_step H (attach_count k i route H)"
| serve: "k < length (hb_streams H) \<Longrightarrow> ss_stage (hb_streams H ! k) = Marked \<Longrightarrow> hub_step H (restage k Serving H)"
| body: "k < length (hb_streams H) \<Longrightarrow> hub_step H (body_section k H)"
| gone: "k < length (hb_streams H) \<Longrightarrow> ss_stage (hb_streams H ! k) \<in> {Marked, Serving} \<Longrightarrow>
    hub_step H (restage k Leaving H)"
| release: "t \<in> set (hb_releasing H) \<Longrightarrow> hub_step H (release_section t H)"
| notify: "r \<in> set (hb_notifying H) \<Longrightarrow> hub_step H (notify_section r H)"
| drain: "hub_step H (H\<lparr>hb_drains := hb_drains H @ [Reading]\<rparr>)"
| drain_step: "d < length (hb_drains H) \<Longrightarrow> hub_step H (drain_step late d H)"

inductive hub_runs :: "stream_options \<Rightarrow> hub \<Rightarrow> bool" for opts where
  start: "hub_runs opts (hub_new opts)"
| step: "hub_runs opts H \<Longrightarrow> hub_step H G \<Longrightarrow> hub_runs opts G"

section \<open>Lists of places\<close>

lemma filter_update:
  "k < length xs \<Longrightarrow>
     length (filter P (xs[k := y])) + (if P (xs ! k) then 1 else 0) = length (filter P xs) + (if P y then 1 else 0)"
proof (induction xs arbitrary: k)
  case (Cons x xs)
  then show ?case by (cases k) auto
qed simp

lemma filter_remove:
  "x \<in> set xs \<Longrightarrow> length (filter P (remove1 x xs)) + (if P x then 1 else 0) = length (filter P xs)"
  by (induction xs) auto

lemma total_update:
  "distinct (map fst xs) \<Longrightarrow>
     sum_list (map snd (AList.update i n xs)) + (case map_of xs i of None \<Rightarrow> 0 | Some m \<Rightarrow> m) = sum_list (map snd xs) + (n :: nat)"
proof (induction xs)
  case (Cons x xs)
  then show ?case by (cases x) (auto split: option.splits)
qed simp

lemma total_delete:
  "distinct (map fst xs) \<Longrightarrow>
     sum_list (map snd (AList.delete i xs)) + (case map_of xs i of None \<Rightarrow> 0 | Some m \<Rightarrow> (m :: nat)) = sum_list (map snd xs)"
proof (induction xs)
  case (Cons x xs)
  obtain a b where x: "x = (a, b)" by (cases x)
  show ?case
  proof (cases "a = i")
    case True
    with Cons.prems x have "i \<notin> fst ` set xs" by auto
    then have "AList.delete i xs = xs" "map_of xs i = None" by (simp_all add: AList.delete_idem map_of_eq_None_iff)
    with True x show ?thesis by simp
  next
    case False
    with Cons x show ?thesis by (auto split: option.splits)
  qed
qed simp

section \<open>One stream keeps its events\<close>

text \<open>
  The body is a prefix of what was accepted, in order, with the rest in the queue, and behind it at most
  one terminal event, whose flag is set and after which nothing more is accepted.
\<close>

definition told :: "sse_stream \<Rightarrow> string \<Rightarrow> bool" where
  "told s x \<longleftrightarrow> x = EVENT_SHUTDOWN \<and> ss_shutdown s \<or> x = EVENT_OVERFLOW \<and> ss_overflow s"

definition running_out :: "sse_stream \<Rightarrow> bool" where
  "running_out s \<longleftrightarrow>
     (case ss_stage s of
        Stopping x _ \<Rightarrow> ss_ended s \<and> told s x
      | Closing (Some x) _ \<Rightarrow> ss_ended s \<and> \<not> ss_rx_open s \<and> told s x
      | Closing None _ \<Rightarrow> ss_ended s \<and> ss_queue s = [] \<and> ss_senders s = 0
      | Looked \<Rightarrow> \<not> ss_ended s
      | Parking \<Rightarrow> \<not> ss_ended s
      | st \<Rightarrow> ss_ended s \<longrightarrow> ss_queue s = [] \<and> ss_senders s = 0)"

definition finished :: "sse_stream \<Rightarrow> bool" where
  "finished s \<longleftrightarrow> ss_ended s \<and> \<not> ss_rx_open s \<and> ss_stage s \<in> {Serving, Leaving, Dropping, Gone}"

definition stream_ok :: "sse_stream \<Rightarrow> bool" where
  "stream_ok s \<longleftrightarrow>
     length (ss_queue s) \<le> ss_capacity s \<and> 0 < ss_capacity s \<and>
     (\<exists>es ts. ss_written s = map Item es @ ts \<and> ss_accepted s = es @ ss_queue s \<and> ss_events s = length es \<and>
        (ts = [] \<and> running_out s \<or> (\<exists>x. ts = [Terminal x] \<and> told s x \<and> finished s)))"

text \<open>What the places of a stream depend on.\<close>

definition place :: "sse_stream \<Rightarrow> attachment option \<times> bool \<times> stage \<times> bool" where
  "place s = (ss_attachment s, ss_closed s, ss_stage s, ss_ended s)"

lemma stream_ok_closed [simp]:
  "stream_ok (s\<lparr>ss_closed := c, ss_attachment := a\<rparr>) = stream_ok s"
proof -
  have "told (s\<lparr>ss_closed := c, ss_attachment := a\<rparr>) = told s" by (simp add: told_def fun_eq_iff)
  moreover from this have "running_out (s\<lparr>ss_closed := c, ss_attachment := a\<rparr>) = running_out s"
    by (simp add: running_out_def split: stage.split option.split)
  ultimately show ?thesis by (simp add: stream_ok_def finished_def)
qed

lemma stream_ok_stage:
  assumes "stream_ok s" "running_out s \<Longrightarrow> running_out (s\<lparr>ss_stage := st\<rparr>)" "finished s \<Longrightarrow> finished (s\<lparr>ss_stage := st\<rparr>)"
  shows "stream_ok (s\<lparr>ss_stage := st\<rparr>)"
proof -
  have "told (s\<lparr>ss_stage := st\<rparr>) = told s" by (simp add: told_def fun_eq_iff)
  with assms show ?thesis by (auto simp: stream_ok_def)
qed

lemma channel_ok: "stream_ok (channel_with c)"
  by (simp add: stream_ok_def channel_with_def running_out_def)

lemma signal_flags:
  "place (tell_shutdown s) = place s" "place (signal_overflow s) = place s" "ss_shutdown (tell_shutdown s)"
  by (simp_all add: tell_shutdown_def signal_overflow_def signal_stream_def Let_def place_def)

lemma send_place: "place (snd (try_send e s)) = place s"
  by (simp add: try_send_def place_def)

lemma signal_ok:
  assumes "stream_ok s"
  shows "stream_ok (tell_shutdown s)" "stream_ok (signal_overflow s)"
  using assms
  by (auto simp: stream_ok_def tell_shutdown_def signal_overflow_def signal_stream_def Let_def running_out_def finished_def
      told_def split: stage.splits option.splits)

lemma send_ok: "stream_ok s \<Longrightarrow> 0 < ss_senders s \<Longrightarrow> stream_ok (snd (try_send e s))"
  by (auto simp: stream_ok_def try_send_def running_out_def finished_def told_def split: stage.splits option.splits)

lemma look_ok: "stream_ok s \<Longrightarrow> ss_stage s = Serving \<Longrightarrow> stream_ok (poll_look s)"
  by (auto simp: stream_ok_def poll_look_def terminal_of_def running_out_def finished_def told_def split: if_splits)

lemma recv_ok:
  assumes ok: "stream_ok s" and st: "ss_stage s = Looked"
  shows "stream_ok (poll_recv s)"
proof (cases "ss_queue s")
  case Nil
  with assms show ?thesis by (auto simp: stream_ok_def poll_recv_def running_out_def finished_def)
next
  case (Cons e q)
  from ok st obtain es where es: "ss_written s = map Item es" "ss_accepted s = es @ ss_queue s" "\<not> ss_ended s"
    "ss_events s = length es" "length (ss_queue s) \<le> ss_capacity s" "0 < ss_capacity s"
    by (auto simp: stream_ok_def running_out_def finished_def)
  then show ?thesis
    unfolding stream_ok_def using Cons by (auto simp: poll_recv_def running_out_def intro!: exI [of _ "es @ [e]"])
qed

section \<open>The places of the hub\<close>

definition held :: "string \<Rightarrow> sse_stream \<Rightarrow> bool" where
  "held i s \<longleftrightarrow> (\<exists>a. ss_attachment s = Some a \<and> at_identity a = i)"

definition is_attached :: "sse_stream \<Rightarrow> bool" where
  "is_attached s \<longleftrightarrow> ss_attachment s \<noteq> None"

text \<open>A stream between the count and the attachment of \<open>attach\<close>.\<close>

definition attaching :: "string \<Rightarrow> sse_stream \<Rightarrow> bool" where
  "attaching i s \<longleftrightarrow> (\<exists>r. ss_stage s = Counted i r \<or> ss_stage s = Listed i r)"

definition is_attaching :: "sse_stream \<Rightarrow> bool" where
  "is_attaching s \<longleftrightarrow> (\<exists>i. attaching i s)"

definition released_of :: "string \<Rightarrow> release_task \<Rightarrow> bool" where
  "released_of i t \<longleftrightarrow> at_identity (rt_attachment t) = i"

definition counts_ok :: "hub \<Rightarrow> bool" where
  "counts_ok H \<longleftrightarrow> distinct (map fst (hb_open H)) \<and>
     (\<forall>i. open_of H i = length (filter (held i) (hb_streams H)) + length (filter (attaching i) (hb_streams H)) +
        length (filter (released_of i) (hb_releasing H))) \<and>
     open_total H = length (filter is_attached (hb_streams H)) + length (filter is_attaching (hb_streams H)) +
        length (hb_releasing H)"

definition early :: "sse_stream \<Rightarrow> bool" where
  "early s \<longleftrightarrow> ss_stage s \<in> {Receiving, Marked} \<or> is_attaching s"

text \<open>
  A stream that is not attached yet has no attachment; one that ended or lost its body is closed. Only
  the deadline of a drain closes a stream that is being attached.
\<close>

definition place_ok :: "bool \<Rightarrow> sse_stream \<Rightarrow> bool" where
  "place_ok late s \<longleftrightarrow>
     (early s \<longrightarrow> ss_attachment s = None \<and> \<not> ss_ended s \<and> (ss_closed s \<longrightarrow> late)) \<and>
     (ss_closed s \<and> ss_attachment s \<noteq> None \<longrightarrow> late) \<and>
     (ss_stage s = Serving \<and> ss_ended s \<longrightarrow> ss_closed s) \<and>
     (ss_stage s = Dropping \<longrightarrow> ss_closed s) \<and>
     (ss_stage s = Gone \<longrightarrow> ss_closed s \<or> ss_attachment s = None)"

fun past_deadline :: "drain_pc \<Rightarrow> bool" where
  "past_deadline (Remaining _) = True"
| "past_deadline (Cutting _ _) = True"
| "past_deadline (Timed_out _) = True"
| "past_deadline _ = False"

definition was_cut :: "hub \<Rightarrow> bool" where
  "was_cut H \<longleftrightarrow> (\<exists>pc \<in> set (hb_drains H). past_deadline pc)"

text \<open>The streams whose close took an attachment, in the order of their progress.\<close>

definition closes :: "hub \<Rightarrow> nat list" where
  "closes H = map rt_stream (hb_releasing H @ map fst (hb_notifying H) @ map fst (hb_closed H))"

definition drains_ok :: "hub \<Rightarrow> bool" where
  "drains_ok H \<longleftrightarrow>
     (\<forall>pc \<in> set (hb_drains H). set (drain_holds pc) \<subseteq> {..<length (hb_streams H)} \<and>
        (pc = Waiting False \<longrightarrow> 0 < open_total H \<or> hb_notifying H \<noteq> []))"

definition streams_ok :: "hub \<Rightarrow> bool" where
  "streams_ok H \<longleftrightarrow>
     (\<forall>k < length (hb_streams H). stream_ok (hb_streams H ! k) \<and> place_ok (was_cut H) (hb_streams H ! k))"

definition closes_ok :: "hub \<Rightarrow> bool" where
  "closes_ok H \<longleftrightarrow>
     distinct (closes H) \<and> (\<forall>k \<in> set (closes H). k < length (hb_streams H) \<and> ss_closed (hb_streams H ! k))"

definition hub_ok :: "hub \<Rightarrow> bool" where
  "hub_ok H \<longleftrightarrow>
     streams_ok H \<and> set (hb_listed H) \<subseteq> {..<length (hb_streams H)} \<and> counts_ok H \<and> drains_ok H \<and> closes_ok H"

section \<open>Every section keeps the hub\<close>

lemma hub_okD:
  assumes "hub_ok H" "k < length (hb_streams H)"
  shows "stream_ok (hb_streams H ! k)" "place_ok (was_cut H) (hb_streams H ! k)"
  using assms by (simp_all add: hub_ok_def streams_ok_def)

lemma put_stream_simps [simp]:
  "hb_streams (put_stream k s H) = (hb_streams H)[k := s]" "hb_listed (put_stream k s H) = hb_listed H"
  "hb_open (put_stream k s H) = hb_open H" "hb_closed (put_stream k s H) = hb_closed H"
  "hb_releasing (put_stream k s H) = hb_releasing H" "hb_notifying (put_stream k s H) = hb_notifying H"
  "hb_drains (put_stream k s H) = hb_drains H"
  "hb_options (put_stream k s H) = hb_options H" "put_stream k t (put_stream k s H) = put_stream k t H"
  by (simp_all add: put_stream_def)

lemma put_stream_frame [simp]:
  "was_cut (put_stream k s H) = was_cut H" "closes (put_stream k s H) = closes H"
  "drains_ok (put_stream k s H) = drains_ok H" "open_of (put_stream k s H) = open_of H"
  "open_total (put_stream k s H) = open_total H"
  by (simp_all add: was_cut_def closes_def drains_ok_def open_total_def open_of_def fun_eq_iff)

lemma streams_ok_put:
  "streams_ok H \<Longrightarrow> stream_ok s \<Longrightarrow> place_ok (was_cut H) s \<Longrightarrow> streams_ok (put_stream k s H)"
  by (cases "k < length (hb_streams H)") (auto simp: streams_ok_def nth_list_update)

lemma closes_ok_put:
  "closes_ok H \<Longrightarrow> (ss_closed (hb_streams H ! k) \<longrightarrow> ss_closed s) \<Longrightarrow> closes_ok (put_stream k s H)"
  by (cases "k < length (hb_streams H)") (auto simp: closes_ok_def nth_list_update)

text \<open>The parts of the hub that a section leaves alone.\<close>

lemma streams_ok_frame: "hb_streams G = hb_streams H \<Longrightarrow> (was_cut H \<Longrightarrow> was_cut G) \<Longrightarrow> streams_ok H \<Longrightarrow> streams_ok G"
  by (auto simp: streams_ok_def place_ok_def)

lemma counts_ok_frame:
  "hb_streams G = hb_streams H \<Longrightarrow> hb_open G = hb_open H \<Longrightarrow> hb_releasing G = hb_releasing H \<Longrightarrow> counts_ok G = counts_ok H"
  by (simp add: counts_ok_def open_of_def open_total_def)

lemma closes_ok_frame: "hb_streams G = hb_streams H \<Longrightarrow> closes G = closes H \<Longrightarrow> closes_ok G = closes_ok H"
  by (simp add: closes_ok_def)

lemma hub_ok_frame:
  assumes "hub_ok H" "hb_streams G = hb_streams H" "hb_open G = hb_open H" "hb_releasing G = hb_releasing H"
    and "closes G = closes H" "was_cut H \<Longrightarrow> was_cut G" "set (hb_listed G) \<subseteq> {..<length (hb_streams H)}" "drains_ok G"
  shows "hub_ok G"
  using assms counts_ok_frame [OF assms(2-4)] closes_ok_frame [OF assms(2,5)] streams_ok_frame [OF assms(2,6)]
  by (simp add: hub_ok_def)

lemma same_places:
  assumes k: "k < length ss" and att: "ss_attachment s = ss_attachment (ss ! k)"
    and stage: "\<And>i. attaching i s \<longleftrightarrow> attaching i (ss ! k)"
  shows "length (filter (held i) (ss[k := s])) = length (filter (held i) ss)"
    "length (filter (attaching i) (ss[k := s])) = length (filter (attaching i) ss)"
    "length (filter is_attached (ss[k := s])) = length (filter is_attached ss)"
    "length (filter is_attaching (ss[k := s])) = length (filter is_attaching ss)"
  using filter_update [OF k, of "held i" s] filter_update [OF k, of "attaching i" s]
    filter_update [OF k, of is_attached s] filter_update [OF k, of is_attaching s] att stage
  by (simp_all add: held_def is_attached_def is_attaching_def split: if_splits)

lemma hub_ok_replace:
  assumes ok: "hub_ok H" and k: "k < length (hb_streams H)" and s: "stream_ok s" "place_ok (was_cut H) s"
    and att: "ss_attachment s = ss_attachment (hb_streams H ! k)"
    and stage: "\<And>i. attaching i s \<longleftrightarrow> attaching i (hb_streams H ! k)"
    and closed: "ss_closed (hb_streams H ! k) \<Longrightarrow> ss_closed s"
  shows "hub_ok (put_stream k s H)"
proof -
  have "counts_ok (put_stream k s H)"
    using ok same_places [OF k att stage] by (simp add: hub_ok_def counts_ok_def)
  with ok s closed show ?thesis
    by (simp add: hub_ok_def streams_ok_put closes_ok_put)
qed

lemma attaching_place: "place s = place t \<Longrightarrow> attaching i s = attaching i t"
  by (simp add: place_def attaching_def)

lemma place_ok_place: "place s = place t \<Longrightarrow> place_ok c s = place_ok c t"
  by (auto simp: place_def place_ok_def early_def is_attaching_def attaching_def)

lemma hub_ok_put:
  assumes "hub_ok H" "k < length (hb_streams H)" "stream_ok s" "place s = place (hb_streams H ! k)"
  shows "hub_ok (put_stream k s H)"
  using hub_okD(2) [OF assms(1,2)] assms place_ok_place [OF assms(4)] attaching_place [OF assms(4)]
  by (intro hub_ok_replace) (simp_all add: place_def)

text \<open>The first to close a stream takes its attachment: its place is the release's from then on.\<close>

lemma hub_ok_close:
  assumes ok: "hub_ok H" and k: "k < length (hb_streams H)" and s: "stream_ok s"
    and att: "ss_attachment s = ss_attachment (hb_streams H ! k)" "ss_closed s = ss_closed (hb_streams H ! k)"
    and stage: "\<And>i. attaching i s \<longleftrightarrow> attaching i (hb_streams H ! k)"
    and place: "place_ok (was_cut H) (s\<lparr>ss_closed := True, ss_attachment := if ss_closed s then ss_attachment s else None\<rparr>)"
  shows "hub_ok (hub_close k oc (put_stream k s H))"
proof (cases "\<not> ss_closed s \<and> ss_attachment s \<noteq> None")
  case False
  let ?s = "s\<lparr>ss_closed := True, ss_attachment := if ss_closed s then ss_attachment s else None\<rparr>"
  have eq: "hub_close k oc (put_stream k s H) = put_stream k ?s H"
    using False k by (cases s) (auto simp: hub_close_def close_stream_def split: option.split)
  show ?thesis
    unfolding eq by (rule hub_ok_replace [OF ok k _ place]) (use False s att stage in \<open>auto simp: attaching_def\<close>)
next
  case True
  then obtain a where a: "ss_attachment s = Some a" by blast
  let ?s = "s\<lparr>ss_closed := True, ss_attachment := None\<rparr>"
  let ?t = "\<lparr>rt_stream = k, rt_attachment = a, rt_outcome = oc\<rparr>"
  have eq: "hub_close k oc (put_stream k s H) = (put_stream k ?s H)\<lparr>hb_releasing := hb_releasing H @ [?t]\<rparr>"
    using True a k by (simp add: hub_close_def close_stream_def)
  have ss: "stream_ok ?s" "place_ok (was_cut H) ?s" using s place True by simp_all
  have places: "attaching i ?s \<longleftrightarrow> attaching i (hb_streams H ! k)" "held i (hb_streams H ! k) \<longleftrightarrow> released_of i ?t"
    "\<not> held i ?s" for i
    using stage a unfolding attaching_def held_def att(1) [symmetric] by (auto simp: released_of_def)
  have "counts_ok ((put_stream k ?s H)\<lparr>hb_releasing := hb_releasing H @ [?t]\<rparr>)"
  proof -
    have "length (filter (held i) (hb_streams H)) =
        length (filter (held i) ((hb_streams H)[k := ?s])) + (if released_of i ?t then 1 else 0)"
      "length (filter (attaching i) ((hb_streams H)[k := ?s])) = length (filter (attaching i) (hb_streams H))" for i
      using filter_update [OF k, of "held i" ?s] filter_update [OF k, of "attaching i" ?s] places
      by (simp_all split: if_splits)
    moreover have "length (filter is_attached (hb_streams H)) = Suc (length (filter is_attached ((hb_streams H)[k := ?s])))"
      "length (filter is_attaching ((hb_streams H)[k := ?s])) = length (filter is_attaching (hb_streams H))"
      using filter_update [OF k, of is_attached ?s] filter_update [OF k, of is_attaching ?s] places(1) a att
      by (simp_all add: is_attached_def is_attaching_def split: if_splits)
    ultimately show ?thesis
      using ok by (simp add: hub_ok_def counts_ok_def open_of_def open_total_def)
  qed
  moreover have "k \<notin> set (closes H)" using ok True att by (auto simp: hub_ok_def closes_ok_def)
  then have "closes_ok ((put_stream k ?s H)\<lparr>hb_releasing := hb_releasing H @ [?t]\<rparr>)"
    using ok k by (auto simp: hub_ok_def closes_ok_def closes_def nth_list_update)
  moreover have "streams_ok ((put_stream k ?s H)\<lparr>hb_releasing := hb_releasing H @ [?t]\<rparr>)"
    by (rule streams_ok_frame [of _ "put_stream k ?s H"]) (use ok ss in \<open>auto simp: hub_ok_def was_cut_def intro: streams_ok_put\<close>)
  ultimately show ?thesis
    unfolding eq using ok by (simp add: hub_ok_def drains_ok_def open_total_def)
qed

lemma open_update:
  assumes "distinct (map fst (hb_open H))"
  shows "open_of (H\<lparr>hb_open := AList.update i (Suc (open_of H i)) (hb_open H)\<rparr>) j = open_of H j + (if j = i then 1 else 0)"
    "open_total (H\<lparr>hb_open := AList.update i (Suc (open_of H i)) (hb_open H)\<rparr>) = Suc (open_total H)"
  using total_update [OF assms, of i "Suc (open_of H i)"]
  by (auto simp: open_of_def open_total_def AList.update_conv' split: option.splits)

lemma hub_ok_count:
  assumes ok: "hub_ok H" and k: "k < length (hb_streams H)" and st: "ss_stage (hb_streams H ! k) = Marked"
  shows "hub_ok (attach_count k i route H)"
proof -
  let ?s = "(hb_streams H ! k)\<lparr>ss_stage := Counted i route\<rparr>"
  let ?O = "H\<lparr>hb_open := AList.update i (Suc (open_of H i)) (hb_open H)\<rparr>"
  have dist: "distinct (map fst (hb_open H))" using ok by (simp add: hub_ok_def counts_ok_def)
  have fresh: "\<not> attaching j (hb_streams H ! k)" "attaching j ?s \<longleftrightarrow> j = i" for j using st by (auto simp: attaching_def)
  have "length (filter (attaching j) ((hb_streams H)[k := ?s])) = length (filter (attaching j) (hb_streams H)) + (if j = i then 1 else 0)"
    "length (filter (held j) ((hb_streams H)[k := ?s])) = length (filter (held j) (hb_streams H))" for j
    using filter_update [OF k, of "attaching j" ?s] filter_update [OF k, of "held j" ?s] fresh
    by (simp_all add: held_def split: if_splits)
  moreover have "length (filter is_attaching ((hb_streams H)[k := ?s])) = Suc (length (filter is_attaching (hb_streams H)))"
    "length (filter is_attached ((hb_streams H)[k := ?s])) = length (filter is_attached (hb_streams H))"
    using filter_update [OF k, of is_attaching ?s] filter_update [OF k, of is_attached ?s] fresh
    by (simp_all add: is_attached_def is_attaching_def split: if_splits)
  ultimately have "counts_ok (attach_count k i route H)"
    using ok open_update [OF dist] dist
    by (simp add: hub_ok_def counts_ok_def attach_count_def AList.distinct_update)
  moreover have "stream_ok ?s" "place_ok (was_cut H) ?s"
    using hub_okD [OF ok k] st
    by (auto simp: stream_ok_def running_out_def finished_def place_ok_def told_def early_def is_attaching_def attaching_def)
  moreover have cut: "was_cut ?O = was_cut H" and closes: "closes ?O = closes H" by (simp_all add: was_cut_def closes_def)
  moreover have "drains_ok ?O" using ok open_update(2) [OF dist, of i] by (auto simp: hub_ok_def drains_ok_def)
  moreover have "closes_ok ?O" "streams_ok ?O"
    using ok closes_ok_frame [OF _ closes] streams_ok_frame [of ?O H] cut by (simp_all add: hub_ok_def)
  ultimately show ?thesis
    using ok by (simp add: hub_ok_def attach_count_def streams_ok_put closes_ok_put [of _ k])
qed

lemma hub_ok_list:
  assumes ok: "hub_ok H" and k: "k < length (hb_streams H)" and st: "ss_stage (hb_streams H ! k) = Counted i route"
  shows "hub_ok (attach_list k i route H)"
proof -
  have "hub_ok (H\<lparr>hb_listed := live H @ [k]\<rparr>)"
    by (rule hub_ok_frame [OF ok])
      (use ok k in \<open>auto simp: hub_ok_def live_def closes_def was_cut_def drains_ok_def open_total_def\<close>)
  then show ?thesis
    unfolding attach_list_def using hub_okD [OF ok k] k st
    by (intro hub_ok_replace)
      (auto simp: stream_ok_def running_out_def finished_def place_ok_def told_def early_def is_attaching_def attaching_def was_cut_def)
qed

lemma hub_ok_set:
  assumes ok: "hub_ok H" and k: "k < length (hb_streams H)" and st: "ss_stage (hb_streams H ! k) = Listed i route"
  shows "hub_ok (attach_set k i route H)"
proof -
  let ?s = "(hb_streams H ! k)\<lparr>ss_attachment := Some \<lparr>at_identity = i, at_route = route\<rparr>, ss_stage := Serving\<rparr>"
  have was: "attaching j (hb_streams H ! k) \<longleftrightarrow> j = i" "\<not> attaching j ?s" "held j ?s \<longleftrightarrow> j = i" for j
    using st by (auto simp: attaching_def held_def)
  have none: "ss_attachment (hb_streams H ! k) = None" "\<not> ss_ended (hb_streams H ! k)"
    using hub_okD(2) [OF ok k] was(1) by (auto simp: place_ok_def early_def is_attaching_def)
  then have free: "\<not> held j (hb_streams H ! k)" for j by (simp add: held_def)
  have "length (filter (held j) ((hb_streams H)[k := ?s])) = length (filter (held j) (hb_streams H)) + (if j = i then 1 else 0)"
    "length (filter (attaching j) (hb_streams H)) = length (filter (attaching j) ((hb_streams H)[k := ?s])) + (if j = i then 1 else 0)" for j
    using filter_update [OF k, of "held j" ?s] filter_update [OF k, of "attaching j" ?s] was free
    by (simp_all split: if_splits)
  moreover have "length (filter is_attached ((hb_streams H)[k := ?s])) = Suc (length (filter is_attached (hb_streams H)))"
    "length (filter is_attaching (hb_streams H)) = Suc (length (filter is_attaching ((hb_streams H)[k := ?s])))"
    using filter_update [OF k, of is_attached ?s] filter_update [OF k, of is_attaching ?s] was none
    by (simp_all add: is_attached_def is_attaching_def split: if_splits)
  ultimately have "counts_ok (attach_set k i route H)"
    using ok by (simp add: hub_ok_def counts_ok_def attach_set_def)
  moreover have "stream_ok ?s" "place_ok (was_cut H) ?s"
    using hub_okD [OF ok k] st none
    by (auto simp: stream_ok_def running_out_def finished_def place_ok_def told_def early_def is_attaching_def attaching_def)
  ultimately show ?thesis
    using ok by (simp add: hub_ok_def attach_set_def streams_ok_put closes_ok_put)
qed

lemma hub_ok_release:
  assumes ok: "hub_ok H" and t: "t \<in> set (hb_releasing H)"
  shows "hub_ok (release_section t H)"
proof -
  let ?i = "at_identity (rt_attachment t)"
  let ?G = "release_section t H"
  have counts: "counts_ok H" using ok by (simp add: hub_ok_def)
  then have dist: "distinct (map fst (hb_open H))" by (simp add: counts_ok_def)
  have rel: "length (filter (released_of j) (hb_releasing H)) =
      length (filter (released_of j) (remove1 t (hb_releasing H))) + (if j = ?i then 1 else 0)" for j
    using filter_remove [OF t, of "released_of j"] by (auto simp: released_of_def split: if_splits)
  have len: "length (hb_releasing H) = Suc (length (remove1 t (hb_releasing H)))"
    using t by (simp add: length_remove1) (metis Suc_pred length_pos_if_in_set)
  have "0 < open_of H ?i" using counts rel [of ?i] by (simp add: counts_ok_def)
  then obtain n where n: "map_of (hb_open H) ?i = Some n" "0 < n"
    by (auto simp: open_of_def split: option.splits)
  let ?open = "if n - 1 = 0 then AList.delete ?i (hb_open H) else AList.update ?i (n - 1) (hb_open H)"
  have G: "hb_open ?G = ?open" "hb_streams ?G = hb_streams H" "hb_listed ?G = hb_listed H"
    "hb_releasing ?G = remove1 t (hb_releasing H)" "hb_drains ?G = hb_drains H" "hb_closed ?G = hb_closed H"
    "hb_notifying ?G = hb_notifying H @ [(t, ss_events (hb_streams H ! rt_stream t))]"
    using n by (simp_all add: release_section_def release_def)
  have "distinct (map fst ?open)"
    using dist by (simp add: AList.distinct_update AList.distinct_delete)
  moreover have "open_of ?G j = length (filter (held j) (hb_streams H)) + length (filter (attaching j) (hb_streams H)) +
      length (filter (released_of j) (remove1 t (hb_releasing H)))" for j
  proof -
    have "open_of H j = open_of ?G j + (if j = ?i then 1 else 0)"
      using n G(1) by (auto simp: open_of_def AList.update_conv' AList.delete_conv')
    with counts rel [of j] show ?thesis by (simp add: counts_ok_def)
  qed
  moreover have "open_total H = Suc (open_total ?G)"
    using total_update [OF dist, of ?i "n - 1"] total_delete [OF dist, of ?i] n G(1) by (auto simp: open_total_def)
  ultimately have "counts_ok ?G"
    using counts len unfolding counts_ok_def G by simp
  moreover have "streams_ok ?G"
    using ok streams_ok_frame [of ?G H] G by (simp add: hub_ok_def was_cut_def)
  moreover have "closes_ok ?G"
  proof -
    have "mset (closes ?G) = mset (closes H)"
      using t by (simp add: closes_def G image_mset_Diff)
    then have "set (closes ?G) = set (closes H)" "distinct (closes ?G) = distinct (closes H)"
      by (metis set_mset_mset, metis mset_eq_imp_distinct_iff)
    with ok G(2) show ?thesis by (simp add: hub_ok_def closes_ok_def)
  qed
  moreover have "drains_ok ?G" using ok by (auto simp: hub_ok_def drains_ok_def G)
  ultimately show ?thesis using ok G(2,3) by (simp add: hub_ok_def)
qed

lemma wake_drain_simps [simp]:
  "drain_holds (wake_drain pc) = drain_holds pc" "past_deadline (wake_drain pc) = past_deadline pc"
  "wake_drain pc \<noteq> Waiting False"
  by (cases pc; simp)+

lemma hub_ok_notify:
  assumes ok: "hub_ok H" and r: "r \<in> set (hb_notifying H)"
  shows "hub_ok (notify_section r H)"
proof -
  let ?G = "notify_section r H"
  have "mset (closes ?G) = mset (closes H)"
    using r by (simp add: closes_def notify_section_def image_mset_Diff)
  then have "set (closes ?G) = set (closes H)" "distinct (closes ?G) = distinct (closes H)"
    by (metis set_mset_mset, metis mset_eq_imp_distinct_iff)
  then have "closes_ok ?G" using ok by (simp add: hub_ok_def closes_ok_def notify_section_def)
  moreover have "drains_ok ?G" using ok by (auto simp: hub_ok_def drains_ok_def notify_section_def)
  moreover have "streams_ok ?G" "counts_ok ?G"
    using ok streams_ok_frame [of ?G H] counts_ok_frame [of ?G H]
    by (auto simp: hub_ok_def was_cut_def notify_section_def)
  ultimately show ?thesis using ok by (simp add: hub_ok_def notify_section_def)
qed

text \<open>The sections of the task that holds the receiving end.\<close>

lemma hub_ok_stage:
  assumes ok: "hub_ok H" and k: "k < length (hb_streams H)" and s: "stream_ok s" "place_ok (was_cut H) s"
    and same: "ss_attachment s = ss_attachment (hb_streams H ! k)" "ss_closed s = ss_closed (hb_streams H ! k)"
    and late: "\<not> is_attaching s" "\<not> is_attaching (hb_streams H ! k)"
  shows "hub_ok (put_stream k s H)"
  using ok k s same late by (intro hub_ok_replace) (auto simp: is_attaching_def)

lemmas stage_defs = is_attaching_def attaching_def early_def place_ok_def

lemma hub_ok_polls:
  assumes ok: "hub_ok H" and k: "k < length (hb_streams H)"
  shows "ss_stage (hb_streams H ! k) = Serving \<Longrightarrow> hub_ok (put_stream k (poll_look (hb_streams H ! k)) H)"
    and "ss_stage (hb_streams H ! k) = Looked \<Longrightarrow> hub_ok (put_stream k (poll_recv (hb_streams H ! k)) H)"
    and "ss_stage (hb_streams H ! k) = Parking \<Longrightarrow> hub_ok (put_stream k (park (hb_streams H ! k)) H)"
proof -
  note s = hub_okD [OF ok k]
  show "hub_ok (put_stream k (poll_look (hb_streams H ! k)) H)" if st: "ss_stage (hb_streams H ! k) = Serving"
    by (rule hub_ok_stage [OF ok k look_ok [OF s(1) st]])
      (use s(2) st in \<open>auto simp: poll_look_def stage_defs split: option.split\<close>)
  show "hub_ok (put_stream k (poll_recv (hb_streams H ! k)) H)" if st: "ss_stage (hb_streams H ! k) = Looked"
    by (rule hub_ok_stage [OF ok k recv_ok [OF s(1) st]])
      (use s st in \<open>auto simp: poll_recv_def stage_defs stream_ok_def running_out_def finished_def split: list.split\<close>)
  show "hub_ok (put_stream k (park (hb_streams H ! k)) H)" if st: "ss_stage (hb_streams H ! k) = Parking"
    by (rule hub_ok_stage [OF ok k])
      (use s st in \<open>auto simp: park_def stage_defs stream_ok_def running_out_def finished_def\<close>)
qed

lemma hub_ok_body:
  assumes ok: "hub_ok H" and k: "k < length (hb_streams H)"
  shows "hub_ok (body_section k H)"
proof -
  note s = hub_okD [OF ok k]
  let ?s = "hb_streams H ! k"
  show ?thesis
  proof (cases "ss_stage ?s")
    case (Counted i r)
    with hub_ok_list [OF ok k] show ?thesis by (simp add: body_section_def)
  next
    case (Listed i r)
    with hub_ok_set [OF ok k] show ?thesis by (simp add: body_section_def)
  next
    case Serving
    with hub_ok_polls(1) [OF ok k] show ?thesis by (simp add: body_section_def)
  next
    case Looked
    with hub_ok_polls(2) [OF ok k] show ?thesis by (simp add: body_section_def)
  next
    case Parking
    with hub_ok_polls(3) [OF ok k] show ?thesis by (simp add: body_section_def)
  next
    case (Stopping x oc)
    then have "hub_ok (put_stream k (?s\<lparr>ss_rx_open := False, ss_stage := Closing (Some x) oc\<rparr>) H)"
      using s by (intro hub_ok_stage [OF ok k])
        (auto simp: stage_defs stream_ok_def running_out_def finished_def told_def)
    with Stopping show ?thesis by (simp add: body_section_def)
  next
    case (Closing x oc)
    let ?t = "?s\<lparr>ss_written := ss_written ?s @ (case x of None \<Rightarrow> [] | Some x \<Rightarrow> [Terminal x]), ss_stage := Serving\<rparr>"
    have "stream_ok ?t" using s(1) Closing
      by (auto simp: stream_ok_def running_out_def finished_def told_def split: option.splits)
    then have "hub_ok (hub_close k oc (put_stream k ?t H))"
      by (rule hub_ok_close [OF ok k]) (use s(2) Closing in \<open>auto simp: stage_defs\<close>)
    with Closing show ?thesis by (simp add: body_section_def Let_def)
  next
    case Leaving
    let ?t = "?s\<lparr>ss_stage := Dropping\<rparr>"
    have "stream_ok ?t" using s(1) Leaving
      by (auto simp: stream_ok_def running_out_def finished_def told_def)
    then have "hub_ok (hub_close k Client_gone (put_stream k ?t H))"
      by (rule hub_ok_close [OF ok k]) (use s(2) Leaving in \<open>auto simp: stage_defs\<close>)
    with Leaving show ?thesis by (simp add: body_section_def)
  next
    case Dropping
    then have "hub_ok (put_stream k (?s\<lparr>ss_rx_open := False, ss_stage := Gone\<rparr>) H)"
      using s by (intro hub_ok_stage [OF ok k])
        (auto simp: stage_defs stream_ok_def running_out_def finished_def told_def)
    with Dropping show ?thesis by (simp add: body_section_def)
  qed (use ok in \<open>simp_all add: body_section_def\<close>)
qed

lemma hub_ok_restage:
  assumes ok: "hub_ok H" and k: "k < length (hb_streams H)"
    and st: "ss_stage (hb_streams H ! k) = Receiving \<and> st = Marked \<or>
      ss_stage (hb_streams H ! k) = Marked \<and> st = Serving \<or>
      ss_stage (hb_streams H ! k) \<in> {Marked, Serving} \<and> st = Leaving"
  shows "hub_ok (restage k st H)"
proof -
  let ?s = "(hb_streams H ! k)\<lparr>ss_stage := st\<rparr>"
  have "stream_ok ?s"
    by (rule stream_ok_stage [OF hub_okD(1) [OF ok k]]) (use st in \<open>auto simp: running_out_def finished_def\<close>)
  moreover have late: "\<not> is_attaching ?s" "\<not> is_attaching (hb_streams H ! k)"
    using st by (auto simp: is_attaching_def attaching_def)
  moreover from this have "place_ok (was_cut H) ?s"
    using hub_okD(2) [OF ok k] st unfolding place_ok_def early_def by (elim disjE) simp_all
  ultimately show ?thesis unfolding restage_def by (intro hub_ok_stage [OF ok k]) simp_all
qed

lemma hub_ok_channel:
  assumes ok: "hub_ok H"
  shows "hub_ok (H\<lparr>hb_streams := hb_streams H @ [channel_with c]\<rparr>)"
proof -
  let ?G = "H\<lparr>hb_streams := hb_streams H @ [channel_with c]\<rparr>"
  have "streams_ok ?G"
    using ok channel_ok [of c]
    by (auto simp: hub_ok_def streams_ok_def was_cut_def nth_append less_Suc_eq stage_defs channel_with_def)
  moreover have "counts_ok ?G"
    using ok by (simp add: hub_ok_def counts_ok_def open_of_def open_total_def channel_with_def held_def is_attached_def
      is_attaching_def attaching_def)
  moreover have "closes_ok ?G"
  proof -
    have "closes ?G = closes H" by (simp add: closes_def)
    with ok show ?thesis by (auto simp: hub_ok_def closes_ok_def nth_append)
  qed
  moreover have "drains_ok ?G"
    using ok by (fastforce simp: hub_ok_def drains_ok_def open_total_def)
  moreover have "set (hb_listed ?G) \<subseteq> {..<length (hb_streams ?G)}"
    using ok by (auto simp: hub_ok_def)
  ultimately show ?thesis by (simp add: hub_ok_def)
qed

lemma hub_ok_new: "hub_ok (hub_new opts)"
  by (simp add: hub_ok_def hub_new_def streams_ok_def counts_ok_def open_of_def open_total_def closes_ok_def closes_def drains_ok_def)

section \<open>Every section of the drain keeps the hub\<close>

lemma hub_ok_drains:
  assumes ok: "hub_ok H" and pc: "set (drain_holds pc) \<subseteq> {..<length (hb_streams H)}"
    and asleep: "pc = Waiting False \<Longrightarrow> 0 < open_total H \<or> hb_notifying H \<noteq> []"
    and late: "past_deadline (hb_drains H ! d) \<Longrightarrow> past_deadline pc"
  shows "hub_ok (H\<lparr>hb_drains := (hb_drains H)[d := pc]\<rparr>)"
proof (rule hub_ok_frame [OF ok])
  show "drains_ok (H\<lparr>hb_drains := (hb_drains H)[d := pc]\<rparr>)"
    using ok pc asleep by (auto simp: hub_ok_def drains_ok_def open_total_def dest!: subsetD [OF set_update_subset_insert])
  show "was_cut (H\<lparr>hb_drains := (hb_drains H)[d := pc]\<rparr>)" if "was_cut H"
  proof -
    from that obtain e where e: "e < length (hb_drains H)" "past_deadline (hb_drains H ! e)"
      by (auto simp: was_cut_def in_set_conv_nth)
    then have "past_deadline ((hb_drains H)[d := pc] ! e)" using late by (cases "d = e") simp_all
    moreover have "(hb_drains H)[d := pc] ! e \<in> set ((hb_drains H)[d := pc])" using e(1) by simp
    ultimately show ?thesis unfolding was_cut_def by auto
  qed
qed (use ok in \<open>simp_all add: hub_ok_def closes_def\<close>)

lemma hub_ok_live: "hub_ok H \<Longrightarrow> hub_ok (H\<lparr>hb_listed := live H\<rparr>)"
  by (frule hub_ok_frame [of H "H\<lparr>hb_listed := live H\<rparr>"])
    (auto simp: hub_ok_def closes_def was_cut_def live_def drains_ok_def open_total_def)

lemma live_range: "hub_ok H \<Longrightarrow> set (live H) \<subseteq> {..<length (hb_streams H)}"
  by (auto simp: hub_ok_def live_def)

lemma hub_ok_cut:
  assumes ok: "hub_ok H" and k: "k < length (hb_streams H)" and cut: "was_cut H"
  shows "hub_ok (hub_close k Shut_down H)"
proof -
  have "hub_ok (hub_close k Shut_down (put_stream k (hb_streams H ! k) H))"
    by (rule hub_ok_close [OF ok k hub_okD(1) [OF ok k]])
      (use hub_okD(2) [OF ok k] cut in \<open>auto simp: stage_defs\<close>)
  then show ?thesis by (simp add: put_stream_def)
qed

lemma drain_section_frame:
  "drain_section late H pc = (G, pc') \<Longrightarrow> hb_drains G = hb_drains H \<and> length (hb_streams G) = length (hb_streams H)"
  by (cases "(late, H, pc)" rule: drain_section.cases)
    (auto simp: hub_close_def split: option.splits prod.splits)

lemma drain_section_late: "drain_section late H pc = (G, pc') \<Longrightarrow> past_deadline pc \<Longrightarrow> past_deadline pc'"
  by (cases "(late, H, pc)" rule: drain_section.cases) auto

lemma drain_section_holds:
  "drain_section late H pc = (G, pc') \<Longrightarrow> hub_ok H \<Longrightarrow> set (drain_holds pc) \<subseteq> {..<length (hb_streams H)} \<Longrightarrow>
     set (drain_holds pc') \<subseteq> {..<length (hb_streams H)}"
  by (cases "(late, H, pc)" rule: drain_section.cases) (auto dest: subsetD [OF live_range] split: if_splits)

lemma drain_section_asleep:
  "drain_section late H pc = (G, Waiting False) \<Longrightarrow>
     (pc = Waiting False \<Longrightarrow> 0 < open_total H \<or> hb_notifying H \<noteq> []) \<Longrightarrow> 0 < open_total G \<or> hb_notifying G \<noteq> []"
  by (cases "(late, H, pc)" rule: drain_section.cases) (auto split: if_splits)

lemma hub_ok_section:
  assumes ok: "hub_ok H" and d: "d < length (hb_drains H)" and G: "drain_section late H (hb_drains H ! d) = (G, pc')"
  shows "hub_ok G"
proof -
  let ?pc = "hb_drains H ! d"
  have holds: "set (drain_holds ?pc) \<subseteq> {..<length (hb_streams H)}"
    using ok d by (auto simp: hub_ok_def drains_ok_def)
  have cut: "was_cut H" if "past_deadline ?pc" using that d by (auto simp: was_cut_def)
  show ?thesis
  proof (cases "(late, H, ?pc)" rule: drain_section.cases)
    case (2 l' H' k ks)
    with G holds have k: "k < length (hb_streams H)" and "G = put_stream k (tell_shutdown (hb_streams H ! k)) H" by auto
    with hub_ok_put [OF ok k signal_ok(1) [OF hub_okD(1) [OF ok k]] signal_flags(1)] show ?thesis by simp
  next
    case (9 l' H' n k ks)
    with G holds have k: "k < length (hb_streams H)" and "G = hub_close k Shut_down H" by auto
    moreover have "was_cut H" using 9 by (intro cut) auto
    ultimately show ?thesis using hub_ok_cut [OF ok k] by simp
  qed (use G ok hub_ok_live [OF ok] in \<open>simp_all split: if_splits\<close>)
qed

lemma hub_ok_drain_step:
  assumes ok: "hub_ok H" and d: "d < length (hb_drains H)"
  shows "hub_ok (drain_step late d H)"
proof -
  obtain G pc where G: "drain_section late H (hb_drains H ! d) = (G, pc)" by fastforce
  note frame = drain_section_frame [OF G]
  have asleep: "hb_drains H ! d = Waiting False \<Longrightarrow> 0 < open_total H \<or> hb_notifying H \<noteq> []"
    and holds: "set (drain_holds (hb_drains H ! d)) \<subseteq> {..<length (hb_streams H)}"
    using ok nth_mem [OF d] by (auto simp: hub_ok_def drains_ok_def)
  have "hub_ok (G\<lparr>hb_drains := (hb_drains G)[d := pc]\<rparr>)"
  proof (rule hub_ok_drains [OF hub_ok_section [OF ok d G]])
    show "set (drain_holds pc) \<subseteq> {..<length (hb_streams G)}"
      using drain_section_holds [OF G ok holds] frame by simp
    show "0 < open_total G \<or> hb_notifying G \<noteq> []" if "pc = Waiting False"
      using drain_section_asleep [of late H "hb_drains H ! d" G] G asleep that by simp
    show "past_deadline (hb_drains G ! d) \<Longrightarrow> past_deadline pc"
      using drain_section_late [OF G] frame by simp
  qed
  with G show ?thesis by (simp add: drain_step_def)
qed

lemma hub_ok_drain: "hub_ok H \<Longrightarrow> hub_ok (H\<lparr>hb_drains := hb_drains H @ [Reading]\<rparr>)"
  by (frule hub_ok_frame [of H "H\<lparr>hb_drains := hb_drains H @ [Reading]\<rparr>"])
    (auto simp: hub_ok_def closes_def was_cut_def drains_ok_def open_total_def)

lemma hub_ok_step: "hub_step H G \<Longrightarrow> hub_ok H \<Longrightarrow> hub_ok G"
proof (induction rule: hub_step.induct)
  case (clone_producer k H s)
  then show ?case
    by (intro hub_ok_put)
      (use hub_okD(1) [OF clone_producer.prems clone_producer.hyps(1)] in
        \<open>auto simp: stream_ok_def running_out_def finished_def told_def place_def split: stage.splits option.splits\<close>)
next
  case (send k H e)
  then show ?case by (intro hub_ok_put) (simp_all add: send_ok hub_okD send_place)
next
  case (overflow k H)
  then show ?case by (intro hub_ok_put) (simp_all add: signal_ok hub_okD signal_flags)
next
  case (drop_producer k H s)
  then show ?case
    by (intro hub_ok_put)
      (use hub_okD(1) [OF drop_producer.prems drop_producer.hyps(1)] in
        \<open>auto simp: stream_ok_def running_out_def finished_def told_def place_def split: stage.splits option.splits\<close>)
next
  case (drop_receiver k H s)
  then show ?case
    using hub_okD [OF drop_receiver.prems drop_receiver.hyps(1)]
    by (intro hub_ok_stage) (auto simp: stage_defs stream_ok_def running_out_def finished_def told_def)
qed (auto intro: hub_ok_channel hub_ok_put send_ok signal_ok hub_okD hub_ok_restage hub_ok_count hub_ok_body hub_ok_release
  hub_ok_notify hub_ok_drain hub_ok_drain_step)

lemma hub_ok_runs: "hub_runs opts H \<Longrightarrow> hub_ok H"
  by (induction rule: hub_runs.induct) (auto intro: hub_ok_new hub_ok_step)

section \<open>What the invariant says of a stream and of a drain\<close>

lemma attached_open:
  assumes ok: "hub_ok H" and "\<not> was_cut H" and s: "s \<in> set (hb_streams H)" "ss_attachment s \<noteq> None"
  shows "\<not> ss_closed s \<and> ss_stage s \<notin> {Dropping, Gone} \<and> (ss_stage s = Serving \<longrightarrow> \<not> ss_ended s)"
proof -
  from s obtain k where "k < length (hb_streams H)" "s = hb_streams H ! k" by (auto simp: in_set_conv_nth)
  with hub_okD(2) [OF ok] have "place_ok (was_cut H) s" by simp
  with assms show ?thesis by (auto simp: place_ok_def)
qed

lemma written_in_order:
  assumes ok: "hub_ok H" and s: "s \<in> set (hb_streams H)"
  shows "length (ss_queue s) \<le> ss_capacity s \<and>
      (\<exists>es ts. ss_written s = map Item es @ ts \<and> ss_accepted s = es @ ss_queue s \<and> ss_events s = length es \<and>
        (ts = [] \<and> (ss_ended s \<and> ss_stage s = Serving \<longrightarrow> ss_accepted s = es \<and> ss_senders s = 0) \<or>
         (\<exists>x. ts = [Terminal x] \<and> ss_ended s \<and> told s x)))"
proof -
  from s obtain k where "k < length (hb_streams H)" "s = hb_streams H ! k" by (auto simp: in_set_conv_nth)
  with hub_okD(1) [OF ok] have "stream_ok s" by simp
  then obtain es ts where *: "length (ss_queue s) \<le> ss_capacity s" "ss_written s = map Item es @ ts"
    "ss_accepted s = es @ ss_queue s" "ss_events s = length es"
    "ts = [] \<and> running_out s \<or> (\<exists>x. ts = [Terminal x] \<and> told s x \<and> finished s)"
    by (auto simp: stream_ok_def)
  then show ?thesis by (fastforce simp: running_out_def finished_def)
qed

lemma no_sleep_through:
  "hub_ok H \<Longrightarrow> Waiting False \<in> set (hb_drains H) \<Longrightarrow> 0 < open_total H \<or> hb_notifying H \<noteq> []"
  by (auto simp: hub_ok_def drains_ok_def)

section \<open>Where the hub does less than it says\<close>

lemma runs_body: "hub_runs opts H \<Longrightarrow> k < length (hb_streams H) \<Longrightarrow> hub_runs opts (body_section k H)"
  by (rule hub_runs.step [OF _ hub_step.body])

lemma runs_drain: "hub_runs opts H \<Longrightarrow> d < length (hb_drains H) \<Longrightarrow> hub_runs opts ((drain_step late d ^^ n) H)"
proof (induction n arbitrary: H)
  case (Suc n)
  have "length (hb_drains (drain_step late d H)) = length (hb_drains H)"
    using drain_section_frame [of late H "hb_drains H ! d"] by (auto simp: drain_step_def split: prod.split)
  with Suc.IH [OF hub_runs.step [OF Suc.prems(1) hub_step.drain_step [OF Suc.prems(2)]]] Suc.prems(2)
  show ?case by (simp add: funpow_swap1)
qed simp

text \<open>The budget is looked at before the handler runs and counted after it: two requests at once pass it.\<close>

definition tight_options :: stream_options where
  "tight_options = \<lparr>so_max_streams = 1, so_capacity = 2, so_keep_alive = 15\<rparr>"

definition two_admitted :: hub where
  "two_admitted = (hub_new tight_options)\<lparr>hb_streams := [(channel_with 2)\<lparr>ss_stage := Marked\<rparr>, (channel_with 2)\<lparr>ss_stage := Marked\<rparr>]\<rparr>"

lemma two_admitted_run: "hub_runs tight_options two_admitted"
proof -
  let ?c = "\<lambda>H. H\<lparr>hb_streams := hb_streams H @ [channel_with 2]\<rparr>"
  have "hub_runs tight_options (?c (?c (hub_new tight_options)))"
    by (intro hub_runs.step [OF hub_runs.step [OF hub_runs.start hub_step.channel] hub_step.channel])
  from hub_runs.step [OF this hub_step.respond [of 0]]
  have "hub_runs tight_options (restage 0 Marked (?c (?c (hub_new tight_options))))"
    by (simp add: hub_new_def channel_with_def)
  from hub_runs.step [OF this hub_step.respond [of 1]]
  have "hub_runs tight_options (restage 1 Marked (restage 0 Marked (?c (?c (hub_new tight_options)))))"
    by (simp add: hub_new_def channel_with_def restage_def)
  then show ?thesis by (simp add: restage_def two_admitted_def hub_new_def put_stream_def)
qed

definition two_attached :: hub where
  "two_attached = Edge_Stream.attach 1 ''ann'' ''/b'' (Edge_Stream.attach 0 ''ann'' ''/a'' two_admitted)"

lemma runs_attach:
  assumes run: "hub_runs opts H" and k: "k < length (hb_streams H)" "ss_stage (hb_streams H ! k) = Marked"
  shows "hub_runs opts (attach k i route H)"
proof -
  have 1: "hub_runs opts (attach_count k i route H)" by (rule hub_runs.step [OF run hub_step.attach [OF k]])
  then have "hub_runs opts (body_section k (attach_count k i route H))"
    by (rule runs_body) (simp add: attach_count_def k)
  then have 2: "hub_runs opts (attach_list k i route (attach_count k i route H))"
    by (simp add: body_section_def attach_count_def k)
  then have "hub_runs opts (body_section k (attach_list k i route (attach_count k i route H)))"
    by (rule runs_body) (simp add: attach_count_def attach_list_def k)
  then show ?thesis by (simp add: attach_def body_section_def attach_list_def [of k i route] attach_count_def k)
qed

lemma two_attached_run: "hub_runs tight_options two_attached"
  unfolding two_attached_def
  by (intro runs_attach two_admitted_run)
    (simp_all add: two_admitted_def attach_def attach_count_def attach_list_def attach_set_def)

lemma budget_overrun:
  "hub_runs tight_options two_attached \<and> hub_admits two_admitted ''ann'' \<and> open_of two_attached ''ann'' = 2"
proof -
  have "hub_admits two_admitted ''ann'' \<and> open_of two_attached ''ann'' = 2" by code_simp
  with two_attached_run show ?thesis by blast
qed

text \<open>
  The deadline of a drain that comes while a stream is being attached closes the stream before it has an
  attachment, so that nobody gives its place back: with every task done the stream is still counted.
\<close>

definition half_attached :: hub where
  "half_attached = attach_list 0 ''ann'' ''/a'' (attach_count 0 ''ann'' ''/a'' (restage 0 Marked
     ((hub_new tight_options)\<lparr>hb_streams := [channel_with 2]\<rparr>)))"

definition cut_short :: hub where
  "cut_short = (drain_step True 0 ^^ 10) (half_attached\<lparr>hb_drains := [Reading]\<rparr>)"

definition leaked :: hub where
  "leaked = (let H = body_section 0 (body_section 0 (restage 0 Leaving (body_section 0 cut_short)))
     in put_stream 0 ((hb_streams H ! 0)\<lparr>ss_senders := ss_senders (hb_streams H ! 0) - 1, ss_woken := True\<rparr>) H)"

lemma leaked_run: "hub_runs tight_options leaked"
proof -
  let ?c = "(hub_new tight_options)\<lparr>hb_streams := [channel_with 2]\<rparr>"
  have "hub_runs tight_options ?c"
    using hub_runs.step [OF hub_runs.start hub_step.channel, of tight_options 2] by (simp add: hub_new_def)
  from hub_runs.step [OF this hub_step.respond [of 0]]
  have 1: "hub_runs tight_options (restage 0 Marked ?c)" by (simp add: channel_with_def)
  from hub_runs.step [OF 1 hub_step.attach [of 0]]
  have 2: "hub_runs tight_options (attach_count 0 ''ann'' ''/a'' (restage 0 Marked ?c))" by (simp add: restage_def)
  from runs_body [OF 2, of 0] have 3: "hub_runs tight_options half_attached"
    by (simp add: half_attached_def body_section_def attach_count_def restage_def)
  have "half_attached\<lparr>hb_drains := [Reading]\<rparr> = half_attached\<lparr>hb_drains := hb_drains half_attached @ [Reading]\<rparr>"
    by code_simp
  with hub_runs.step [OF 3 hub_step.drain] have "hub_runs tight_options (half_attached\<lparr>hb_drains := [Reading]\<rparr>)" by simp
  from runs_drain [OF this, where d = 0 and late = True and n = 10]
  have 4: "hub_runs tight_options cut_short" by (simp add: cut_short_def)
  have "length (hb_streams cut_short) = 1" by code_simp
  with runs_body [OF 4, of 0] have 5: "hub_runs tight_options (body_section 0 cut_short)" by simp
  have "length (hb_streams (body_section 0 cut_short)) = 1 \<and> ss_stage (hb_streams (body_section 0 cut_short) ! 0) = Serving"
    by code_simp
  with hub_runs.step [OF 5 hub_step.gone [of 0]] have 6: "hub_runs tight_options (restage 0 Leaving (body_section 0 cut_short))" by simp
  have "length (hb_streams (restage 0 Leaving (body_section 0 cut_short))) = 1" by code_simp
  with runs_body [OF 6, of 0] have 7: "hub_runs tight_options (body_section 0 (restage 0 Leaving (body_section 0 cut_short)))" by simp
  have "length (hb_streams (body_section 0 (restage 0 Leaving (body_section 0 cut_short)))) = 1" by code_simp
  with runs_body [OF 7, of 0]
  have 8: "hub_runs tight_options (body_section 0 (body_section 0 (restage 0 Leaving (body_section 0 cut_short))))" by simp
  let ?H = "body_section 0 (body_section 0 (restage 0 Leaving (body_section 0 cut_short)))"
  have "length (hb_streams ?H) = 1 \<and> ss_senders (hb_streams ?H ! 0) = 1 \<and> ss_full (hb_streams ?H ! 0) = 0" by code_simp
  with hub_runs.step [OF 8 hub_step.drop_producer [of 0 ?H "hb_streams ?H ! 0"]] show ?thesis by (simp add: leaked_def Let_def)
qed

lemma deadline_mid_attach_leaks:
  "hub_runs tight_options leaked \<and> hb_drains leaked = [Timed_out 1] \<and> hb_releasing leaked = [] \<and>
   map ss_stage (hb_streams leaked) = [Gone] \<and> map ss_senders (hb_streams leaked) = [0] \<and> map ss_closed (hb_streams leaked) = [True] \<and>
   open_of leaked ''ann'' = 1 \<and> open_total leaked = 1 \<and> \<not> hub_admits leaked ''ann''"
proof -
  have "hb_drains leaked = [Timed_out 1] \<and> hb_releasing leaked = [] \<and>
     map ss_stage (hb_streams leaked) = [Gone] \<and> map ss_senders (hb_streams leaked) = [0] \<and> map ss_closed (hb_streams leaked) = [True] \<and>
     open_of leaked ''ann'' = 1 \<and> open_total leaked = 1 \<and> \<not> hub_admits leaked ''ann''"
    by code_simp
  with leaked_run show ?thesis by blast
qed

text \<open>
  A shutdown that comes between the look at the flags and the parking of the waker is not heard: the
  body waits with the flag set, its waker stored and nobody left to wake it.
\<close>

lemma shutdown_unheard:
  assumes "ss_queue s = []" "0 < ss_senders s" "terminal_of s = None" "\<not> ss_waker s" "\<not> ss_ended s"
  shows "let parked = park (poll_recv (tell_shutdown (poll_look s)))
    in ss_stage parked = Serving \<and> ss_shutdown parked \<and> ss_waker parked \<and> \<not> ss_woken parked"
  using assms by (simp add: Let_def tell_shutdown_def signal_stream_def poll_recv_def poll_look_def park_def)

end
