(* ===== verification/Edge_Router.thy ===== *)
theory Edge_Router
  imports Edge_Stream Idp_Ownership
begin

text \<open>
  The rest of \<^verbatim>\<open>crates/rahi-edge\<close> that decides: who a client is (\<^verbatim>\<open>client_identity.rs\<close>), the rate limit, the
  CSRF pair and the header floor (\<^verbatim>\<open>middleware\<close>), the operator gate (\<^verbatim>\<open>operator.rs\<close>), the exposure table
  (\<^verbatim>\<open>exposure.rs\<close>), the probes (\<^verbatim>\<open>probes.rs\<close>), and the order \<^verbatim>\<open>router.rs\<close> puts the layers on. A layer maps
  a handler to a handler; axum's choice of the route of a path is not part of it.
\<close>

type_synonym handler = "http_request \<Rightarrow> (idp, response) op"

text \<open>A handler under the stream gate: its response still carries its extensions.\<close>

type_synonym inner_handler = "http_request \<Rightarrow> (idp, stream_response) op"

definition plain_response :: "response \<Rightarrow> stream_response" where
  "plain_response r = \<lparr>sr_response = r, sr_declared = False, sr_marker = None\<rparr>"

definition refusal :: "nat \<Rightarrow> string \<Rightarrow> response" where
  "refusal code kind =
     \<lparr>rs_status = code, rs_headers = [(''content-type'', ''application/json'')], rs_error = Some (Denied kind)\<rparr>"

lemma refusal_is_refusal: "400 \<le> code \<Longrightarrow> is_refusal (refusal code kind)"
  by (simp add: is_refusal_def refusal_def)

section \<open>The client's identity\<close>

text \<open>The standard library's parsers of an address and of an address with a port.\<close>

record 'ip ip_parsers =
  ip_plain :: "string \<Rightarrow> 'ip option"
  ip_socket :: "string \<Rightarrow> 'ip option"
  ip_text :: "'ip \<Rightarrow> string"

definition address :: "'ip ip_parsers \<Rightarrow> string \<Rightarrow> 'ip option" where
  "address P entry =
     (let e = trim entry in
      case ip_plain P e of
        Some ip \<Rightarrow> Some ip
      | None \<Rightarrow>
          (case ip_socket P e of
             Some ip \<Rightarrow> Some ip
           | None \<Rightarrow>
               (case strip_prefix ''['' e of
                  None \<Rightarrow> None
                | Some rest \<Rightarrow> (case strip_suffix '']'' rest of None \<Rightarrow> None | Some inner \<Rightarrow> ip_plain P inner))))"

definition forwarded_entries :: "(string \<times> string) list \<Rightarrow> string list" where
  "forwarded_entries headers =
     filter (\<lambda>e. e \<noteq> [])
       (map trim
         (concat (map (\<lambda>h. case to_str (snd h) of None \<Rightarrow> [] | Some v \<Rightarrow> split_on CHR '','' v)
           (filter (\<lambda>h. fst h = ''x-forwarded-for'') headers))))"

definition forwarded :: "'ip ip_parsers \<Rightarrow> (string \<times> string) list \<Rightarrow> nat \<Rightarrow> 'ip option" where
  "forwarded P headers hops =
     (if hops = 0 then None
      else
        (let entries = forwarded_entries headers in
         if length entries < hops then None else address P (entries ! (length entries - hops))))"

definition identify :: "'ip ip_parsers \<Rightarrow> (string \<times> string) list \<Rightarrow> 'ip option \<Rightarrow> nat \<Rightarrow> string" where
  "identify P headers peer hops =
     (case (case forwarded P headers hops of None \<Rightarrow> peer | Some ip \<Rightarrow> Some ip) of
        None \<Rightarrow> ''unknown''
      | Some ip \<Rightarrow> ip_text P ip)"

section \<open>The rate limit\<close>

record rate_limits =
  rl_default :: u32
  rl_groups :: "(string \<times> u32) list"

definition DEFAULT_LIMIT :: u32 where "DEFAULT_LIMIT = 300"
definition WINDOW_SECONDS :: u64 where "WINDOW_SECONDS = 60"

definition rate_limits_new :: rate_limits where
  "rate_limits_new = \<lparr>rl_default = DEFAULT_LIMIT, rl_groups = []\<rparr>"

definition rate_group :: "rate_limits \<Rightarrow> string \<Rightarrow> u32 \<Rightarrow> rate_limits" where
  "rate_group L prefix limit = L\<lparr>rl_groups := filter (\<lambda>g. fst g \<noteq> prefix) (rl_groups L) @ [(prefix, limit)]\<rparr>"

definition limit_for :: "rate_limits \<Rightarrow> string \<Rightarrow> string \<times> u32" where
  "limit_for L path =
     (case max_by_key (\<lambda>g. length (fst g)) (filter (\<lambda>g. starts_with (fst g) path) (rl_groups L)) of
        None \<Rightarrow> (''default'', rl_default L)
      | Some g \<Rightarrow> g)"

definition rate_key :: "string \<Rightarrow> string \<Rightarrow> u64 \<Rightarrow> string" where
  "rate_key grp identity w = ''rl:'' @ grp @ '':'' @ identity @ '':'' @ show_nat (unat w)"

definition rate_spent :: "u64 \<Rightarrow> response" where
  "rate_spent at = insert_header ''retry-after'' (show_nat (unat (WINDOW_SECONDS - at mod WINDOW_SECONDS)))
     (refusal 429 ''rate_limited'')"

text \<open>Count the request: \<open>None\<close> admits it.\<close>

definition rate_decide ::
  "idp_world \<Rightarrow> rate_limits \<Rightarrow> (http_request \<Rightarrow> string) \<Rightarrow> http_request \<Rightarrow> (idp, response option) op" where
  "rate_decide W L resolver req =
     obind (now W) (\<lambda>at.
     on_result (counter_add W (rate_key (fst (limit_for L (rq_path req))) (resolver req) (at div WINDOW_SECONDS)) 1)
       (\<lambda>r. ret (case r of
          Inl _ \<Rightarrow> Some (refusal 503 ''rate_limit_unavailable'')
        | Inr n \<Rightarrow> if uint (snd (limit_for L (rq_path req))) < n then Some (rate_spent at) else None)))"

definition enforce_rate ::
  "idp_world \<Rightarrow> rate_limits \<Rightarrow> (http_request \<Rightarrow> string) \<Rightarrow> inner_handler \<Rightarrow> inner_handler" where
  "enforce_rate W L resolver inner req =
     obind (rate_decide W L resolver req) (\<lambda>d.
     case d of Some r \<Rightarrow> ret (plain_response r) | None \<Rightarrow> inner req)"

section \<open>The CSRF pair\<close>

definition csrf_cookie_name :: "scheme \<Rightarrow> string" where
  "csrf_cookie_name s = (if is_secure s then ''__Host-csrf'' else ''csrf'')"

definition csrf_set_cookie :: "scheme \<Rightarrow> string \<Rightarrow> string" where
  "csrf_set_cookie s token =
     csrf_cookie_name s @ ''='' @ token @ ''; Path=/; SameSite=Lax'' @ (if is_secure s then ''; Secure'' else [])"

definition is_safe :: "string \<Rightarrow> bool" where
  "is_safe m \<longleftrightarrow> m \<in> {''GET'', ''HEAD'', ''OPTIONS'', ''TRACE''}"

definition csrf_exempt :: "string \<Rightarrow> bool" where
  "csrf_exempt path \<longleftrightarrow> path = ''/auth'' \<or> starts_with ''/auth/'' path"

definition csrf_exempts :: "(http_request \<Rightarrow> bool) option \<Rightarrow> http_request \<Rightarrow> bool" where
  "csrf_exempts extra req \<longleftrightarrow> csrf_exempt (rq_path req) \<or> (case extra of None \<Rightarrow> False | Some f \<Rightarrow> f req)"

definition byte :: "char \<Rightarrow> 8 word" where
  "byte c = of_nat (of_char c)"

definition tokens_match :: "string \<Rightarrow> string \<Rightarrow> bool" where
  "tokens_match l r \<longleftrightarrow> \<not> (length l \<noteq> length r \<or> l = []) \<and>
     foldl (\<lambda>d p. or d (xor (byte (fst p)) (byte (snd p)))) 0 (zip l r) = 0"

definition csrf_cookie :: "scheme \<Rightarrow> http_request \<Rightarrow> string option" where
  "csrf_cookie s req =
     (case header_str req ''cookie'' of None \<Rightarrow> None | Some h \<Rightarrow> cookie_value h (csrf_cookie_name s))"

definition csrf_submitted :: "http_request \<Rightarrow> string" where
  "csrf_submitted req = (case header_str req ''x-csrf-token'' of None \<Rightarrow> [] | Some v \<Rightarrow> v)"

definition enforce_csrf :: "idp_world \<Rightarrow> scheme \<Rightarrow> (http_request \<Rightarrow> bool) option \<Rightarrow> handler \<Rightarrow> handler" where
  "enforce_csrf W s extra inner req =
     (if csrf_exempts extra req then inner req
      else if \<not> is_safe (rq_method req)
      then
        (if (case csrf_cookie s req of None \<Rightarrow> False | Some c \<Rightarrow> tokens_match c (csrf_submitted req))
         then inner req else ret (refusal 403 ''csrf''))
      else if csrf_cookie s req \<noteq> None then inner req
      else
        on_result (ask (iw_entropy W)) (\<lambda>r.
          case r of
            Inl e \<Rightarrow> ret (answer_error e)
          | Inr token \<Rightarrow>
              obind (inner req) (\<lambda>resp. ret
                (if to_str (csrf_set_cookie s token) \<noteq> None
                 then resp\<lparr>rs_headers := rs_headers resp @ [(''set-cookie'', csrf_set_cookie s token)]\<rparr>
                 else answer_error (Io ''the CSRF cookie is not a header value'')))))"

section \<open>The header floor and the operator gate\<close>

definition remove_header :: "string \<Rightarrow> response \<Rightarrow> response" where
  "remove_header n r = r\<lparr>rs_headers := filter (\<lambda>h. fst h \<noteq> n) (rs_headers r)\<rparr>"

definition FLOOR :: "(string \<times> string) list" where
  "FLOOR =
     [(''content-security-policy'', ''default-src '' @ CHR 0x27 # ''self'' @ CHR 0x27 # ''; frame-ancestors '' @ CHR 0x27 # ''none'' @ [CHR 0x27]),
      (''x-content-type-options'', ''nosniff''),
      (''referrer-policy'', ''strict-origin-when-cross-origin''),
      (''permissions-policy'', ''camera=(), microphone=(), geolocation=()'')]"

definition HSTS :: "string \<times> string" where
  "HSTS = (''strict-transport-security'', ''max-age=31536000; includeSubDomains'')"

definition security_headers :: "bool \<Rightarrow> response \<Rightarrow> response" where
  "security_headers https r =
     (let f = fold (\<lambda>h. insert_header (fst h) (snd h)) FLOOR r
      in if https then insert_header (fst HSTS) (snd HSTS) f else remove_header (fst HSTS) f)"

definition apply_headers :: "bool \<Rightarrow> handler \<Rightarrow> handler" where
  "apply_headers https inner req = obind (inner req) (\<lambda>r. ret (security_headers https r))"

definition enforce_operator :: "idp_world \<Rightarrow> string \<Rightarrow> handler \<Rightarrow> handler" where
  "enforce_operator W role inner req =
     (case rq_principal req of
        None \<Rightarrow> ret (answer_error (Unauthorized ''this request carries no session''))
      | Some p \<Rightarrow>
          if has_role p role then inner req
          else
            obind (kernel_refuse W ''edge.operator'' (p_sub p)) (\<lambda>i.
            ret (answer_error (Denied (i @ '': the principal does not hold the operator role'')))))"

section \<open>The exposure table\<close>

datatype route_class = Public | Authenticated | Operator | Probe | Proxy

record route =
  ro_path :: string
  ro_class :: "route_class option"

definition expose_route :: "string \<Rightarrow> route_class \<Rightarrow> route" where
  "expose_route path c = \<lparr>ro_path = path, ro_class = Some c\<rparr>"

definition record_route :: "route \<Rightarrow> route list \<Rightarrow> route list" where
  "record_route r table = (if r \<in> set table then table else table @ [r])"

definition unclassified :: "route list \<Rightarrow> string list" where
  "unclassified table = map ro_path (filter (\<lambda>r. ro_class r = None) table)"

definition class_of :: "route list \<Rightarrow> string \<Rightarrow> route_class option" where
  "class_of table path = (case find (\<lambda>r. ro_path r = path) table of None \<Rightarrow> None | Some r \<Rightarrow> ro_class r)"

definition check_exposure :: "route list \<Rightarrow> error + unit" where
  "check_exposure table =
     (if unclassified table = [] then Inr () else Inl (Config ''routes are mounted with no exposure class''))"

definition PROBE_PATHS :: "string list" where
  "PROBE_PATHS = [''/healthz'', ''/readyz'', ''/startupz'', ''/metrics'']"

definition is_probe :: "string \<Rightarrow> bool" where
  "is_probe path \<longleftrightarrow> path \<in> set PROBE_PATHS"

definition default_class :: "string \<Rightarrow> route_class" where
  "default_class prefix = (if is_probe prefix then Probe else if csrf_exempt prefix then Proxy else Authenticated)"

section \<open>The router\<close>

text \<open>What an app mounts: its handler, and what its response carries for the stream gate.\<close>

record mount =
  mo_prefix :: string
  mo_class :: "route_class option"
  mo_inner :: inner_handler

record edge_builder =
  eb_scheme :: scheme
  eb_https :: bool
  eb_operator_role :: string
  eb_mounts :: "mount list"
  eb_declared :: "route list"
  eb_static :: "handler option"
  eb_limits :: rate_limits
  eb_resolver :: "http_request \<Rightarrow> string"
  eb_exempt :: "(http_request \<Rightarrow> bool) option"
  eb_binding :: "handler option"
  eb_probe :: "string \<Rightarrow> handler"

definition exposed_path :: "string \<Rightarrow> string" where
  "exposed_path prefix = (if prefix = [] then ''/'' else prefix)"

definition mount_class :: "mount \<Rightarrow> route_class" where
  "mount_class m = (case mo_class m of Some c \<Rightarrow> c | None \<Rightarrow> default_class (mo_prefix m))"

definition edge_rows :: "edge_builder \<Rightarrow> route list" where
  "edge_rows E =
     map (\<lambda>p. expose_route p Probe) PROBE_PATHS
     @ (case eb_binding E of None \<Rightarrow> [] | Some _ \<Rightarrow> [expose_route ''/binding'' Probe])
     @ map (\<lambda>m. expose_route (exposed_path (mo_prefix m)) (mount_class m)) (eb_mounts E)
     @ (case eb_static E of None \<Rightarrow> [] | Some _ \<Rightarrow> [expose_route ''/*'' Public])
     @ eb_declared E"

definition exposure :: "edge_builder \<Rightarrow> route list" where
  "exposure E = fold record_route (edge_rows E) []"

definition is_operator_mount :: "mount \<Rightarrow> bool" where
  "is_operator_mount m \<longleftrightarrow> mo_class m = Some Operator"

definition stream_gate :: "idp_world \<Rightarrow> inner_handler \<Rightarrow> handler" where
  "stream_gate W inner req = obind (inner req) (enforce_stream W req)"

definition limited :: "idp_world \<Rightarrow> edge_builder \<Rightarrow> inner_handler \<Rightarrow> handler" where
  "limited W E inner = stream_gate W (enforce_rate W (eb_limits E) (eb_resolver E) inner)"

definition guarded :: "idp_world \<Rightarrow> edge_builder \<Rightarrow> handler \<Rightarrow> handler" where
  "guarded W E h = apply_headers (eb_https E) (enforce_csrf W (eb_scheme E) (eb_exempt E) h)"

definition without_extensions :: "inner_handler \<Rightarrow> handler" where
  "without_extensions inner req = obind (inner req) (\<lambda>r. ret (sr_response r))"

definition mount_handler :: "idp_world \<Rightarrow> edge_builder \<Rightarrow> mount \<Rightarrow> handler" where
  "mount_handler W E m =
     (if is_operator_mount m
      then guarded W E (enforce_operator W (eb_operator_role E) (without_extensions (mo_inner m)))
      else guarded W E (limited W E (mo_inner m)))"

definition static_handler :: "idp_world \<Rightarrow> edge_builder \<Rightarrow> handler \<Rightarrow> handler" where
  "static_handler W E h = guarded W E (limited W E (\<lambda>req. obind (h req) (\<lambda>r. ret (plain_response r))))"

text \<open>Every route of the assembled router, by its path, with the layers it went through.\<close>

definition assemble :: "idp_world \<Rightarrow> edge_builder \<Rightarrow> (string \<times> handler) list" where
  "assemble W E =
     map (\<lambda>p. (p, apply_headers (eb_https E) (eb_probe E p))) PROBE_PATHS
     @ (case eb_binding E of None \<Rightarrow> [] | Some h \<Rightarrow> [(''/binding'', apply_headers (eb_https E) h)])
     @ map (\<lambda>m. (exposed_path (mo_prefix m), mount_handler W E m)) (filter (\<lambda>m. \<not> is_operator_mount m) (eb_mounts E))
     @ (case eb_static E of None \<Rightarrow> [] | Some h \<Rightarrow> [(''/*'', static_handler W E h)])
     @ map (\<lambda>m. (exposed_path (mo_prefix m), mount_handler W E m)) (filter is_operator_mount (eb_mounts E))"

definition try_build :: "idp_world \<Rightarrow> edge_builder \<Rightarrow> error + (string \<times> handler) list" where
  "try_build W E = rbind (check_exposure (exposure E)) (\<lambda>_. Inr (assemble W E))"

section \<open>Readiness\<close>

text \<open>What the components of a probe answered: the store, the ledger, and the extra check if one is registered.\<close>

definition probe_json :: "nat \<Rightarrow> string \<Rightarrow> response" where
  "probe_json code st = \<lparr>rs_status = code, rs_headers = [(''content-type'', ''application/json'')],
     rs_error = (if code = 200 then None else Some (Stale st))\<rparr>"

definition store_and_ledger :: "(error \<Rightarrow> bool) \<Rightarrow> error + unit \<Rightarrow> error + unit \<Rightarrow> response option" where
  "store_and_ledger recovering store ledger =
     (case store of
        Inl e \<Rightarrow> Some (probe_json 503 (if recovering e then ''recovering'' else ''not_ready: store''))
      | Inr _ \<Rightarrow> (case ledger of Inl _ \<Rightarrow> Some (probe_json 503 ''not_ready: ledger'') | Inr _ \<Rightarrow> None))"

definition startupz :: "(error \<Rightarrow> bool) \<Rightarrow> error + unit \<Rightarrow> error + unit \<Rightarrow> response" where
  "startupz recovering store ledger =
     (case store_and_ledger recovering store ledger of Some r \<Rightarrow> r | None \<Rightarrow> probe_json 200 ''started'')"

definition readyz :: "bool \<Rightarrow> (error \<Rightarrow> bool) \<Rightarrow> error + unit \<Rightarrow> error + unit \<Rightarrow> (error + unit) option \<Rightarrow> response" where
  "readyz stopping recovering store ledger extra =
     (if stopping then probe_json 503 ''stopping''
      else
        (case store_and_ledger recovering store ledger of
           Some r \<Rightarrow> r
         | None \<Rightarrow>
             (case extra of
                Some (Inl _) \<Rightarrow> probe_json 503 ''not_ready''
              | _ \<Rightarrow> probe_json 200 ''ready'')))"

end
