(* ===== verification/Edge_Theorems.thy ===== *)
theory Edge_Theorems
  imports Edge_Router Example_Idp
begin

text \<open>
  What the layers of the edge promise, the properties of the edge with their witnesses, and the lemmas
  that show where it does less than its documentation says.
\<close>

section \<open>The forwarded header\<close>

lemma split_on_append: "split_on c (a @ c # b) = split_on c a @ split_on c b"
proof (induction a)
  case (Cons x a)
  obtain w ws where "split_on c a = w # ws" by (cases "split_on c a") auto
  with Cons show ?case by simp
qed simp

definition entries_of :: "string \<Rightarrow> string list" where
  "entries_of v = filter (\<lambda>e. e \<noteq> []) (map trim (split_on CHR '','' v))"

lemma forwarded_entries_append: "forwarded_entries (hs @ gs) = forwarded_entries hs @ forwarded_entries gs"
  by (simp add: forwarded_entries_def)

lemma forwarded_entries_line:
  "forwarded_entries [(''x-forwarded-for'', v)] = (if to_str v = None then [] else entries_of v)"
  by (auto simp: forwarded_entries_def entries_of_def to_str_def)

text \<open>The entry \<open>n\<close> places from the right is in the part of the list that reaches that far.\<close>

lemma nth_from_right: "0 < n \<Longrightarrow> n \<le> length ys \<Longrightarrow> (xs @ ys) ! (length (xs @ ys) - n) = ys ! (length ys - n)"
  using nth_append_length_plus [of xs ys "length ys - n"] by simp

lemma nth_past_right:
  "length ys < n \<Longrightarrow> n \<le> length (xs @ ys) \<Longrightarrow> (xs @ ys) ! (length (xs @ ys) - n) = xs ! (length xs - (n - length ys))"
  using nth_append [of xs ys "length xs + length ys - n"] by (simp add: less_diff_conv2)

lemma forwarded_own:
  "0 < n \<Longrightarrow> n \<le> length (forwarded_entries own) \<Longrightarrow> forwarded P (hs @ own) n = forwarded P own n"
  using nth_from_right [of n "forwarded_entries own" "forwarded_entries hs"]
  by (simp add: forwarded_def Let_def forwarded_entries_append)

lemma forwarded_past:
  assumes "length (forwarded_entries own) < n"
  shows "forwarded P (hs @ own) n = forwarded P hs (n - length (forwarded_entries own))"
  using assms nth_past_right [of "forwarded_entries own" n "forwarded_entries hs"]
  by (auto simp: forwarded_def Let_def forwarded_entries_append)

text \<open>What the proxies of the operator append to the value they received.\<close>

definition appended :: "string \<Rightarrow> string list \<Rightarrow> string" where
  "appended v gs = v @ concat (map (\<lambda>g. '','' @ g) gs)"

lemma entries_appended:
  assumes "\<And>g. g \<in> set gs \<Longrightarrow> CHR '','' \<notin> set g \<and> trim g \<noteq> []"
  shows "entries_of (appended v gs) = entries_of v @ map trim gs"
  using assms
proof (induction gs arbitrary: v)
  case Nil
  then show ?case by (simp add: appended_def)
next
  case (Cons g gs)
  have "appended v (g # gs) = appended (v @ CHR '','' # g) gs" by (simp add: appended_def)
  moreover have "entries_of (v @ CHR '','' # g) = entries_of v @ [trim g]"
    using Cons.prems [of g] by (simp add: entries_of_def split_on_append split_on_plain)
  ultimately show ?case using Cons by simp
qed

lemma to_str_Some_iff:
  "to_str v = Some w \<longleftrightarrow> w = v \<and> (\<forall>c \<in> set v. of_char c = (9 :: nat) \<or> 32 \<le> (of_char c :: nat) \<and> of_char c < (127 :: nat))"
  by (auto simp: to_str_def list_all_iff)

lemma to_str_appended:
  assumes "\<And>g. g \<in> set gs \<Longrightarrow> to_str g = Some g"
  shows "to_str (appended v gs) = None \<longleftrightarrow> to_str v = None"
proof -
  have *: "to_str x = None \<longleftrightarrow> \<not> (\<forall>c \<in> set x. of_char c = (9 :: nat) \<or> 32 \<le> (of_char c :: nat) \<and> of_char c < (127 :: nat))" for x
    using to_str_Some_iff [of x x] by (cases "to_str x") (auto simp: to_str_def split: if_splits)
  show ?thesis using assms unfolding * to_str_Some_iff appended_def by auto
qed

section \<open>Tokens\<close>

lemma byte_inject: "byte a = byte b \<longleftrightarrow> a = b"
proof
  assume "byte a = byte b"
  then have "unat (byte a) = unat (byte b)" by simp
  then have "(of_char a :: nat) = of_char b"
    using nat_of_char_less_256 [of a] nat_of_char_less_256 [of b] by (simp add: byte_def unat_of_nat)
  then show "a = b" by simp
qed simp

lemma or_zero_iff: "or d x = (0 :: 8 word) \<longleftrightarrow> d = 0 \<and> x = 0"
  by (auto simp: bit_eq_iff bit_or_iff)

lemma xor_zero_iff: "xor x y = (0 :: 8 word) \<longleftrightarrow> x = y"
  by (auto simp: bit_eq_iff bit_xor_iff)

lemma diff_zero_iff:
  "foldl (\<lambda>d p. or d (xor (byte (fst p)) (byte (snd p)))) d ps = 0 \<longleftrightarrow> d = 0 \<and> (\<forall>p \<in> set ps. fst p = snd p)"
  by (induction ps arbitrary: d) (auto simp: or_zero_iff xor_zero_iff byte_inject)

lemma zip_same: "length l = length r \<Longrightarrow> (\<forall>p \<in> set (zip l r). fst p = snd p) \<longleftrightarrow> l = r"
  by (induction l r rule: list_induct2) auto

lemma tokens_match_iff: "tokens_match l r \<longleftrightarrow> l = r \<and> l \<noteq> []"
  by (cases "length l = length r") (auto simp: tokens_match_def diff_zero_iff zip_same)

section \<open>The layers of a mount\<close>

definition has_floor :: "bool \<Rightarrow> response \<Rightarrow> bool" where
  "has_floor https r \<longleftrightarrow>
     (\<forall>h \<in> set FLOOR. filter (\<lambda>x. fst x = fst h) (rs_headers r) = [h]) \<and>
     filter (\<lambda>x. fst x = fst HSTS) (rs_headers r) = (if https then [HSTS] else [])"

lemma filter_insert_header:
  "filter (\<lambda>x. fst x = m) (rs_headers (insert_header n v r)) =
     (if m = n then [(n, v)] else filter (\<lambda>x. fst x = m) (rs_headers r))"
  by (auto simp: insert_header_def filter_empty_conv intro: filter_cong)

lemma filter_remove_header:
  "filter (\<lambda>x. fst x = m) (rs_headers (remove_header n r)) =
     (if m = n then [] else filter (\<lambda>x. fst x = m) (rs_headers r))"
  by (auto simp: remove_header_def filter_empty_conv intro: filter_cong)

lemma security_floor: "has_floor https (security_headers https r)"
  by (simp add: has_floor_def security_headers_def Let_def FLOOR_def HSTS_def filter_insert_header filter_remove_header)

lemma security_refusal: "is_refusal (security_headers https r) = is_refusal r"
  by (simp add: security_headers_def Let_def FLOOR_def is_refusal_def insert_header_def remove_header_def)

text \<open>The pair an unsafe request has to carry, unless it is exempt.\<close>

definition csrf_passes :: "scheme \<Rightarrow> (http_request \<Rightarrow> bool) option \<Rightarrow> http_request \<Rightarrow> bool" where
  "csrf_passes s extra req \<longleftrightarrow>
     csrf_exempts extra req \<or> is_safe (rq_method req) \<or>
     (\<exists>c. c \<noteq> [] \<and> csrf_cookie s req = Some c \<and> csrf_submitted req = c)"

text \<open>
  What a layer does with the handler under it, for one request and one state: it turns the request away
  without asking, whatever the handler is, with a refusal or an error; or it asks at one state, and its
  answer depends on the handler only through what it answers there.
\<close>

definition turns_away :: "((http_request \<Rightarrow> (idp, 'a) op) \<Rightarrow> handler) \<Rightarrow> http_request \<Rightarrow> idp \<Rightarrow> bool" where
  "turns_away L req s \<longleftrightarrow>
     (\<forall>h g. L h req s = L g req s) \<and> (\<forall>h resp t. L h req s = (Inr resp, t) \<longrightarrow> is_refusal resp)"

definition asks_at :: "((http_request \<Rightarrow> (idp, 'a) op) \<Rightarrow> handler) \<Rightarrow> http_request \<Rightarrow> idp \<Rightarrow> idp \<Rightarrow> bool" where
  "asks_at L req s u \<longleftrightarrow> (\<forall>h g. h req u = g req u \<longrightarrow> L h req s = L g req s)"

text \<open>The state the CSRF pair hands down: it draws a token when a safe request carries none.\<close>

definition csrf_state :: "idp_world \<Rightarrow> scheme \<Rightarrow> (http_request \<Rightarrow> bool) option \<Rightarrow> http_request \<Rightarrow> idp \<Rightarrow> idp" where
  "csrf_state W s extra req st =
     (if csrf_exempts extra req \<or> \<not> is_safe (rq_method req) \<or> csrf_cookie s req \<noteq> None then st
      else snd (ask (iw_entropy W) st))"

lemma obind_same: "f s = g s \<Longrightarrow> obind f k s = obind g k s"
  by (simp add: obind_def on_result_def)

lemma csrf_order:
  "turns_away (enforce_csrf W s extra) req st \<or>
   csrf_passes s extra req \<and> asks_at (enforce_csrf W s extra) req st (csrf_state W s extra req st) \<and>
   (\<forall>h resp t. enforce_csrf W s extra h req st = (Inr resp, t) \<longrightarrow>
      (\<exists>r v. h req (csrf_state W s extra req st) = (Inr r, v) \<and> (is_refusal r \<longrightarrow> is_refusal resp)))"
proof (cases "csrf_exempts extra req \<or> csrf_cookie s req \<noteq> None \<and> is_safe (rq_method req)")
  case True
  then show ?thesis by (auto simp: enforce_csrf_def csrf_passes_def csrf_state_def asks_at_def)
next
  case notexempt: False
  show ?thesis
  proof (cases "is_safe (rq_method req)")
    case False
    with notexempt show ?thesis
      by (auto simp: enforce_csrf_def csrf_passes_def csrf_state_def asks_at_def turns_away_def tokens_match_iff
          refusal_is_refusal split: option.splits)
  next
    case True
    obtain q u where q: "ask (iw_entropy W) st = (q, u)" by (cases "ask (iw_entropy W) st")
    show ?thesis
    proof (cases q)
      case (Inl e)
      with q True notexempt show ?thesis by (auto simp: enforce_csrf_def on_result_def turns_away_def)
    next
      case (Inr token)
      let ?c = "csrf_set_cookie s token"
      have eq: "enforce_csrf W s extra h req st = obind (h req) (\<lambda>r. ret
          (if to_str ?c \<noteq> None then r\<lparr>rs_headers := rs_headers r @ [(''set-cookie'', ?c)]\<rparr>
           else answer_error (Io ''the CSRF cookie is not a header value''))) u" for h
        using q True notexempt Inr by (auto simp: enforce_csrf_def on_result_def)
      have state: "csrf_state W s extra req st = u" using q True notexempt by (auto simp: csrf_state_def)
      have "asks_at (enforce_csrf W s extra) req st u" unfolding asks_at_def eq by (intro allI impI obind_same)
      moreover have "\<exists>r v. h req u = (Inr r, v) \<and> (is_refusal r \<longrightarrow> is_refusal resp)"
        if "enforce_csrf W s extra h req st = (Inr resp, t)" for h resp t
        using that unfolding eq by (auto simp: obind_Inr_iff is_refusal_def answer_error_def)
      ultimately show ?thesis using True by (auto simp: csrf_passes_def state)
    qed
  qed
qed

lemma rate_cases:
  assumes "rate_decide W L resolver req s = (Inr d, t)"
  shows "(\<exists>r. d = Some r \<and> is_refusal r) \<or>
    d = None \<and> (\<exists>n u. counter_add W (rate_key (fst (limit_for L (rq_path req))) (resolver req) (iw_now W (id_tick s) div WINDOW_SECONDS)) 1 u
        = (Inr n, t) \<and> n \<le> uint (snd (limit_for L (rq_path req))))"
proof -
  have sp: "is_refusal (rate_spent x)" for x
    by (simp add: rate_spent_def is_refusal_def insert_header_def refusal_def)
  show ?thesis
    using assms sp refusal_is_refusal [of 503]
    by (auto simp: rate_decide_def now_def obind_def on_result_def split: prod.splits sum.splits if_splits)
qed

lemma limited_order:
  "turns_away (limited W E) req s \<or>
   (\<exists>u. rate_decide W (eb_limits E) (eb_resolver E) req s = (Inr None, u) \<and> asks_at (limited W E) req s u)"
proof -
  obtain d u where d: "rate_decide W (eb_limits E) (eb_resolver E) req s = (d, u)"
    by (cases "rate_decide W (eb_limits E) (eb_resolver E) req s")
  have eq: "limited W E h req s =
      (case d of Inl e \<Rightarrow> (Inl e, u)
       | Inr (Some r) \<Rightarrow> obind (ret (plain_response r)) (enforce_stream W req) u
       | Inr None \<Rightarrow> obind (h req) (enforce_stream W req) u)" for h
    using d by (simp add: limited_def stream_gate_def enforce_rate_def obind_def on_result_def fail_def split: sum.split option.split)
  show ?thesis
  proof (cases "d = Inr None")
    case True
    with d eq show ?thesis by (auto simp: asks_at_def intro: obind_same)
  next
    case False
    have "is_refusal resp" if "limited W E h req s = (Inr resp, t)" for h resp t
      using that rate_cases [of W "eb_limits E" "eb_resolver E" req s _ u] d False unfolding eq
      by (auto simp: obind_def on_result_def enforce_stream_def plain_response_def split: sum.split_asm option.split_asm)
    then show ?thesis using False by (auto simp: turns_away_def eq split: sum.split option.split)
  qed
qed

lemma operator_order:
  "turns_away (\<lambda>h. enforce_operator W role (without_extensions h)) req s \<or>
   (\<exists>p. rq_principal req = Some p \<and> has_role p role) \<and> asks_at (\<lambda>h. enforce_operator W role (without_extensions h)) req s s"
proof (cases "\<exists>p. rq_principal req = Some p \<and> has_role p role")
  case True
  then show ?thesis by (auto simp: asks_at_def enforce_operator_def without_extensions_def intro: obind_same)
next
  case False
  then show ?thesis
    by (auto simp: turns_away_def enforce_operator_def obind_Inr_iff split: option.split)
qed

text \<open>
  A request is let in to the handler of a mount at the state \<open>u\<close>: it passed the CSRF pair, then the operator
  gate or the rate limit, and \<open>u\<close> is the state those guards left, the only one the handler is asked at.
\<close>

definition lets_in :: "idp_world \<Rightarrow> edge_builder \<Rightarrow> mount \<Rightarrow> http_request \<Rightarrow> idp \<Rightarrow> idp \<Rightarrow> bool" where
  "lets_in W E m req s u \<longleftrightarrow>
     csrf_passes (eb_scheme E) (eb_exempt E) req \<and>
     (if is_operator_mount m
      then (\<exists>p. rq_principal req = Some p \<and> has_role p (eb_operator_role E)) \<and>
        u = csrf_state W (eb_scheme E) (eb_exempt E) req s
      else rate_decide W (eb_limits E) (eb_resolver E) req (csrf_state W (eb_scheme E) (eb_exempt E) req s) = (Inr None, u)) \<and>
     asks_at (\<lambda>h. mount_handler W E (m\<lparr>mo_inner := h\<rparr>)) req s u"

lemma mount_floor: "mount_handler W E m req s = (Inr resp, t) \<Longrightarrow> has_floor (eb_https E) resp"
  by (auto simp: mount_handler_def guarded_def apply_headers_def obind_Inr_iff security_floor split: if_split_asm)

lemma mount_order:
  "turns_away (\<lambda>h. mount_handler W E (m\<lparr>mo_inner := h\<rparr>)) req s \<or> (\<exists>u. lets_in W E m req s u)"
proof -
  define K where "K h = (if is_operator_mount m
      then enforce_operator W (eb_operator_role E) (without_extensions h) else limited W E h)" for h
  let ?C = "enforce_csrf W (eb_scheme E) (eb_exempt E)"
  let ?v = "csrf_state W (eb_scheme E) (eb_exempt E) req s"
  have eq: "mount_handler W E (m\<lparr>mo_inner := h\<rparr>) req s = obind (?C (K h) req) (\<lambda>r. ret (security_headers (eb_https E) r)) s" for h
    by (simp add: mount_handler_def K_def guarded_def apply_headers_def is_operator_mount_def)
  have away: "turns_away (\<lambda>h. mount_handler W E (m\<lparr>mo_inner := h\<rparr>)) req s" if "turns_away (\<lambda>h. ?C (K h)) req s"
  proof -
    have "?C (K h) req s = ?C (K g) req s" for h g using that unfolding turns_away_def by blast
    then have "mount_handler W E (m\<lparr>mo_inner := h\<rparr>) req s = mount_handler W E (m\<lparr>mo_inner := g\<rparr>) req s" for h g
      unfolding eq by (rule obind_same)
    moreover have "is_refusal resp" if "mount_handler W E (m\<lparr>mo_inner := h\<rparr>) req s = (Inr resp, t)" for h resp t
    proof -
      from that obtain r u where "?C (K h) req s = (Inr r, u)" "resp = security_headers (eb_https E) r"
        unfolding eq by (auto simp: obind_Inr_iff)
      with \<open>turns_away (\<lambda>h. ?C (K h)) req s\<close> show ?thesis unfolding turns_away_def by (metis security_refusal)
    qed
    ultimately show ?thesis unfolding turns_away_def by blast
  qed
  consider "turns_away ?C req s"
    | "csrf_passes (eb_scheme E) (eb_exempt E) req" "asks_at ?C req s ?v"
      "\<And>h resp t. ?C h req s = (Inr resp, t) \<Longrightarrow> \<exists>r v. h req ?v = (Inr r, v) \<and> (is_refusal r \<longrightarrow> is_refusal resp)"
    using csrf_order [of W "eb_scheme E" "eb_exempt E" req s] by blast
  then show ?thesis
  proof cases
    case 1
    then have "turns_away (\<lambda>h. ?C (K h)) req s" unfolding turns_away_def by blast
    with away show ?thesis by blast
  next
    case pass: 2
    show ?thesis
    proof (cases "turns_away K req ?v")
      case True
      then have "turns_away (\<lambda>h. ?C (K h)) req s"
        using pass(2,3) unfolding turns_away_def asks_at_def by metis
      with away show ?thesis by blast
    next
      case False
      have K: "K = (if is_operator_mount m
          then (\<lambda>h. enforce_operator W (eb_operator_role E) (without_extensions h)) else limited W E)"
        by (simp add: K_def fun_eq_iff)
      obtain u where u: "asks_at K req ?v u"
        "if is_operator_mount m then (\<exists>p. rq_principal req = Some p \<and> has_role p (eb_operator_role E)) \<and> u = ?v
         else rate_decide W (eb_limits E) (eb_resolver E) req ?v = (Inr None, u)"
        using False limited_order [of W E req ?v] operator_order [of W "eb_operator_role E" req ?v]
        unfolding K by (cases "is_operator_mount m") auto
      have "mount_handler W E (m\<lparr>mo_inner := h\<rparr>) req s = mount_handler W E (m\<lparr>mo_inner := g\<rparr>) req s" if "h req u = g req u" for h g
      proof -
        have "K h req ?v = K g req ?v" using u(1) that unfolding asks_at_def by blast
        then have "?C (K h) req s = ?C (K g) req s" using pass(2) unfolding asks_at_def by blast
        then show ?thesis unfolding eq by (rule obind_same)
      qed
      then have "lets_in W E m req s u" using pass(1) u(2) unfolding lets_in_def asks_at_def by blast
      then show ?thesis by blast
    qed
  qed
qed

section \<open>The exposure table\<close>

lemma record_all: "set (fold record_route rs table) = set rs \<union> set table"
  by (induction rs arbitrary: table) (auto simp: record_route_def)

lemma exposure_set: "set (exposure E) = set (edge_rows E)"
  by (simp add: exposure_def record_all)

lemma try_build_Inr_iff:
  "try_build W E = Inr hs \<longleftrightarrow> hs = assemble W E \<and> (\<forall>r \<in> set (eb_declared E). ro_class r \<noteq> None)"
proof -
  have "unclassified (exposure E) = [] \<longleftrightarrow> (\<forall>r \<in> set (eb_declared E). ro_class r \<noteq> None)"
    by (auto simp: unclassified_def filter_empty_conv exposure_set edge_rows_def expose_route_def split: option.splits)
  then show ?thesis by (auto simp: try_build_def check_exposure_def)
qed

lemma mount_assembled: "m \<in> set (eb_mounts E) \<Longrightarrow> (exposed_path (mo_prefix m), mount_handler W E m) \<in> set (assemble W E)"
  by (auto simp: assemble_def)

lemma mount_exposed: "m \<in> set (eb_mounts E) \<Longrightarrow> expose_route (exposed_path (mo_prefix m)) (mount_class m) \<in> set (exposure E)"
  by (auto simp: exposure_set edge_rows_def)

section \<open>The ceiling\<close>

definition window_count :: "idp \<Rightarrow> string \<Rightarrow> int" where
  "window_count s k = (case id_counters s k of None \<Rightarrow> 0 | Some v \<Rightarrow> v)"

text \<open>Counters are not lost while the window runs, by others or by the handler.\<close>

definition counters_grow :: "idp \<Rightarrow> idp \<Rightarrow> bool" where
  "counters_grow s t \<longleftrightarrow> (\<forall>k. window_count s k \<le> window_count t k)"

definition counters_persist :: "idp_world \<Rightarrow> bool" where
  "counters_persist W \<longleftrightarrow>
     (\<forall>n c k. (case c k of None \<Rightarrow> 0 | Some v \<Rightarrow> v) \<le> (case iw_counters W n c k of None \<Rightarrow> 0 | Some v \<Rightarrow> v))"

interpretation counting: guarantee counters_grow
  by unfold_locales (auto simp: counters_grow_def intro: order_trans)

text \<open>The key and the ceiling a request is counted under, and the admissions of a run of requests.\<close>

definition rate_slot :: "idp_world \<Rightarrow> rate_limits \<Rightarrow> (http_request \<Rightarrow> string) \<Rightarrow> http_request \<Rightarrow> idp \<Rightarrow> string \<times> int" where
  "rate_slot W L resolver req s =
     (rate_key (fst (limit_for L (rq_path req))) (resolver req) (iw_now W (id_tick s) div WINDOW_SECONDS),
      uint (snd (limit_for L (rq_path req))))"

fun admissions ::
  "idp_world \<Rightarrow> rate_limits \<Rightarrow> (http_request \<Rightarrow> string) \<Rightarrow> inner_handler \<Rightarrow> http_request list \<Rightarrow> idp \<Rightarrow> (string \<times> int) list" where
  "admissions W L resolver inner [] s = []"
| "admissions W L resolver inner (req # reqs) s =
     (case rate_decide W L resolver req s of
        (Inr None, u) \<Rightarrow> rate_slot W L resolver req s # admissions W L resolver inner reqs (snd (inner req u))
      | (_, u) \<Rightarrow> admissions W L resolver inner reqs u)"

lemma counter_add_Inr:
  assumes "counters_persist W" "counter_add W k 1 s = (Inr n, t)"
  shows "window_count s k + 1 \<le> n \<and> window_count t k = n \<and> counters_grow s t"
proof -
  let ?c = "iw_counters W (id_tick s) (id_counters s)"
  from assms(2) have eq: "n = (case ?c k of None \<Rightarrow> 0 | Some v \<Rightarrow> v) + 1" "t = (Idp_State.tick s)\<lparr>id_counters := ?c(k \<mapsto> n)\<rparr>"
    by (auto simp: counter_add_def Let_def split: option.splits)
  have le: "window_count s j \<le> (case ?c j of None \<Rightarrow> 0 | Some v \<Rightarrow> v)" for j
    using assms(1) unfolding counters_persist_def window_count_def by blast
  have "window_count s j \<le> window_count t j" for j
    using le [of j] eq by (cases "j = k") (simp_all add: window_count_def)
  with le [of k] eq show ?thesis by (simp add: counters_grow_def window_count_def)
qed

lemma counter_add_grows:
  assumes "counters_persist W"
  shows "counting.keeps (counter_add W k 1)"
proof (rule counting.keepsI)
  fix s r t
  assume run: "counter_add W k 1 s = (r, t)"
  show "counters_grow s t"
  proof (cases r)
    case (Inr n)
    with run counter_add_Inr [OF assms] show ?thesis by blast
  next
    case (Inl e)
    then have "id_counters t = iw_counters W (id_tick s) (id_counters s)"
      using run by (auto simp: counter_add_def Let_def Idp_State.tick_def split: option.splits)
    then show ?thesis using assms by (simp add: counters_grow_def window_count_def counters_persist_def)
  qed
qed

lemma decide_grows:
  assumes "counters_persist W"
  shows "counting.keeps (rate_decide W L resolver req)"
proof -
  have "counting.keeps (now W)"
    by (rule counting.keepsI) (auto simp: now_def Idp_State.tick_def counters_grow_def window_count_def)
  then show ?thesis
    unfolding rate_decide_def
    by (auto intro!: counting.keeps_bind counting.keeps_on_result counting.keeps_pure counter_add_grows [OF assms])
qed

lemma decide_admits:
  assumes "counters_persist W" "rate_decide W L resolver req s = (Inr None, t)"
  shows "window_count s (fst (rate_slot W L resolver req s)) + 1 \<le> window_count t (fst (rate_slot W L resolver req s)) \<and>
    window_count t (fst (rate_slot W L resolver req s)) \<le> snd (rate_slot W L resolver req s)"
proof -
  from assms(2) obtain n where n: "counter_add W (fst (rate_slot W L resolver req s)) 1 (Idp_State.tick s) = (Inr n, t)"
    "n \<le> snd (rate_slot W L resolver req s)"
    by (auto simp: rate_decide_def rate_slot_def now_def obind_def on_result_def split: prod.splits sum.splits if_splits)
  have "window_count (Idp_State.tick s) k = window_count s k" for k by (simp add: window_count_def Idp_State.tick_def)
  with counter_add_Inr [OF assms(1) n(1)] n(2) show ?thesis by simp
qed

lemma admissions_bounded:
  assumes persist: "counters_persist W" and inner: "\<And>req. counting.keeps (inner req)"
    and ceiling: "\<And>x. x \<in> set (admissions W L resolver inner reqs s) \<Longrightarrow> fst x = k \<Longrightarrow> snd x \<le> n"
  shows "int (length (filter (\<lambda>x. fst x = k) (admissions W L resolver inner reqs s))) \<le> max 0 (n - window_count s k)"
  using ceiling
proof (induction reqs arbitrary: s)
  case (Cons req reqs)
  let ?A = "\<lambda>s. admissions W L resolver inner reqs s"
  obtain d u where d: "rate_decide W L resolver req s = (d, u)" by (cases "rate_decide W L resolver req s")
  have su: "counters_grow s u" using counting.keepsD [OF decide_grows [OF persist] d] .
  show ?case
  proof (cases "d = Inr None")
    case False
    with d have eq: "admissions W L resolver inner (req # reqs) s = ?A u" by (auto split: sum.splits option.splits)
    have "int (length (filter (\<lambda>x. fst x = k) (?A u))) \<le> max 0 (n - window_count u k)"
      by (rule Cons.IH) (rule Cons.prems [unfolded eq])
    moreover have "window_count s k \<le> window_count u k" using su by (simp add: counters_grow_def)
    ultimately show ?thesis unfolding eq by linarith
  next
    case True
    let ?slot = "rate_slot W L resolver req s"
    let ?v = "snd (inner req u)"
    have eq: "admissions W L resolver inner (req # reqs) s = ?slot # ?A ?v" using d True by simp
    have uv: "counters_grow u ?v" using counting.keepsD [OF inner, of req u] by (cases "inner req u") auto
    have rest: "int (length (filter (\<lambda>x. fst x = k) (?A ?v))) \<le> max 0 (n - window_count ?v k)"
      by (rule Cons.IH) (use Cons.prems [unfolded eq] in auto)
    have grow: "window_count s k \<le> window_count u k" "window_count u k \<le> window_count ?v k"
      using su uv by (simp_all add: counters_grow_def)
    show ?thesis
    proof (cases "fst ?slot = k")
      case False
      with eq rest grow show ?thesis by simp
    next
      case slot: True
      have "window_count s k + 1 \<le> window_count u k" "window_count u k \<le> n"
        using decide_admits [OF persist d [unfolded True]] slot Cons.prems [unfolded eq, of ?slot] by auto
      with eq rest grow slot show ?thesis by simp
    qed
  qed
qed simp

section \<open>The properties\<close>

text \<open>
  C32: The streams of a process account for themselves. Over every interleaving of the sections of
  producers, polls, vanished clients, attaching routes, closes and drains, the hub counts for an identity
  exactly its attached streams, those that are being attached and those whose close has yet to give the
  place back, and for all identities together exactly these; a stream gives its place back at most once;
  and unless the deadline of a drain has come, an attached stream is open, its body neither gone nor at
  its end. Every stream writes the events it accepted in their order, holds the rest in a queue within its
  capacity until its body is dropped, ends with at most one terminal event, of a flag that is set, and when it ends without one
  everything it accepted was written and no producer is left. And no drain sleeps through the last close:
  while one waits unnotified, a stream is counted or a notification is under way.
\<close>

theorem streams_account_for_themselves:
  assumes "hub_runs opts H"
  shows "(\<forall>i. open_of H i = length (filter (held i) (hb_streams H)) + length (filter (attaching i) (hb_streams H)) +
        length (filter (released_of i) (hb_releasing H))) \<and>
    open_total H = length (filter is_attached (hb_streams H)) + length (filter is_attaching (hb_streams H)) +
        length (hb_releasing H) \<and>
    distinct (closes H) \<and>
    (\<not> was_cut H \<longrightarrow> (\<forall>s \<in> set (hb_streams H). ss_attachment s \<noteq> None \<longrightarrow>
      \<not> ss_closed s \<and> ss_stage s \<notin> {Dropping, Gone} \<and> (ss_stage s = Serving \<longrightarrow> \<not> ss_ended s))) \<and>
    (\<forall>s \<in> set (hb_streams H). length (ss_queue s) \<le> ss_capacity s \<and>
      (\<exists>es ts. ss_written s = map Item es @ ts \<and> ss_accepted s = es @ ss_queue s \<and> ss_events s = length es \<and>
        (ts = [] \<and> (ss_ended s \<and> ss_stage s = Serving \<longrightarrow> ss_accepted s = es \<and> ss_senders s = 0) \<or>
         (\<exists>x. ts = [Terminal x] \<and> ss_ended s \<and> told s x)))) \<and>
    (Waiting False \<in> set (hb_drains H) \<longrightarrow> 0 < open_total H \<or> hb_notifying H \<noteq> [])"
proof -
  have ok: "hub_ok H" using assms by (rule hub_ok_runs)
  then have "counts_ok H" "closes_ok H" by (simp_all add: hub_ok_def)
  with attached_open [OF ok] written_in_order [OF ok] no_sleep_through [OF ok] show ?thesis
    unfolding counts_ok_def closes_ok_def by blast
qed

theorem streams_account_for_themselves_witness:
  "open_of two_attached ''ann'' = length (filter (held ''ann'') (hb_streams two_attached)) +
     length (filter (attaching ''ann'') (hb_streams two_attached)) + length (filter (released_of ''ann'') (hb_releasing two_attached))"
  using streams_account_for_themselves [OF two_attached_run] by blast

text \<open>
  C33: Every mount is guarded. A router is built only when every declared route has a class; then each mount
  of the app is routed and listed in the exposure table with its class, and whatever it answers carries
  exactly the header floor. Each request is either turned away, with an answer or an error that does not
  depend on the handler at all and is a refusal when it is an answer; or the guards come first: the
  request passed the CSRF pair, then, for an operator mount, its principal holds the operator role or, for
  any other mount, this very request was counted and admitted by the rate limit, and the handler is asked
  at the state these guards left and nowhere else.
\<close>

theorem every_mount_is_guarded:
  assumes "try_build W E = Inr routes" "m \<in> set (eb_mounts E)"
  shows "(\<forall>r \<in> set (eb_declared E). ro_class r \<noteq> None) \<and>
    (exposed_path (mo_prefix m), mount_handler W E m) \<in> set routes \<and>
    expose_route (exposed_path (mo_prefix m)) (mount_class m) \<in> set (exposure E) \<and>
    (\<forall>req s resp t. mount_handler W E m req s = (Inr resp, t) \<longrightarrow> has_floor (eb_https E) resp) \<and>
    (\<forall>req s. turns_away (\<lambda>h. mount_handler W E (m\<lparr>mo_inner := h\<rparr>)) req s \<or> (\<exists>u. lets_in W E m req s u))"
  using assms mount_floor [of W E m] mount_order [of W E m] mount_assembled [of m E W] mount_exposed [of m E]
  unfolding try_build_Inr_iff by blast

definition ex_mount :: mount where
  "ex_mount = \<lparr>mo_prefix = ''/ops'', mo_class = Some Operator,
     mo_inner = (\<lambda>req. ret (plain_response (ex_inner req)))\<rparr>"

definition ex_edge :: edge_builder where
  "ex_edge = \<lparr>eb_scheme = Secure, eb_https = True, eb_operator_role = ''operator'', eb_mounts = [ex_mount],
     eb_declared = [expose_route ''/ops/status'' Operator], eb_static = None,
     eb_limits = rate_group rate_limits_new ''/ops'' 2, eb_resolver = (\<lambda>_. ''10.0.0.1''), eb_exempt = None,
     eb_binding = None, eb_probe = (\<lambda>_ _. ret (probe_json 200 ''ready''))\<rparr>"

lemma ex_mount_answers:
  "case mount_handler ex_idp_world ex_edge ex_mount ex_request ex_idp of (Inr resp, t) \<Rightarrow> rs_status resp = 401 | _ \<Rightarrow> False"
  by code_simp

theorem every_mount_is_guarded_witness:
  "\<exists>resp t. mount_handler ex_idp_world ex_edge ex_mount ex_request ex_idp = (Inr resp, t) \<and> has_floor True resp"
proof -
  obtain resp t where run: "mount_handler ex_idp_world ex_edge ex_mount ex_request ex_idp = (Inr resp, t)"
    using ex_mount_answers by (auto split: prod.splits sum.split_asm)
  have "try_build ex_idp_world ex_edge = Inr (assemble ex_idp_world ex_edge)" "ex_mount \<in> set (eb_mounts ex_edge)"
    by (simp_all add: try_build_Inr_iff ex_edge_def expose_route_def)
  from every_mount_is_guarded [OF this] run have "has_floor (eb_https ex_edge) resp" by blast
  with run show ?thesis by (auto simp: ex_edge_def)
qed

text \<open>
  C34: The ceiling of the rate limit holds. While counters are not lost, however many requests arrive and
  whatever others count meanwhile, the requests admitted under one client, group and window are never
  more than the ceiling of the group.
\<close>

theorem rate_ceiling_holds:
  assumes "counters_persist W" "\<And>req s r t. inner req s = (r, t) \<Longrightarrow> counters_grow s t"
    and "\<And>x. x \<in> set (admissions W L resolver inner reqs s) \<Longrightarrow> fst x = k \<Longrightarrow> snd x \<le> n" "0 \<le> n" "0 \<le> window_count s k"
  shows "int (length (filter (\<lambda>x. fst x = k) (admissions W L resolver inner reqs s))) \<le> n"
proof -
  have "counting.keeps (inner req)" for req by (rule counting.keepsI) (rule assms(2))
  then have "int (length (filter (\<lambda>x. fst x = k) (admissions W L resolver inner reqs s))) \<le> max 0 (n - window_count s k)"
    by (rule admissions_bounded [OF assms(1)]) (rule assms(3))
  with assms(4,5) show ?thesis by linarith
qed

lemma ex_admissions:
  "admissions ex_idp_world (eb_limits ex_edge) (eb_resolver ex_edge) (mo_inner ex_mount)
     [ex_request, ex_request\<lparr>rq_path := ''/ops/a''\<rparr>, ex_request\<lparr>rq_path := ''/ops/b''\<rparr>, ex_request\<lparr>rq_path := ''/ops/c''\<rparr>] ex_idp =
   [(''rl:default:10.0.0.1:1'', 300), (''rl:/ops:10.0.0.1:1'', 2), (''rl:/ops:10.0.0.1:1'', 2)]"
  by code_simp

theorem rate_ceiling_holds_witness:
  "int (length (filter (\<lambda>x. fst x = ''rl:/ops:10.0.0.1:1'')
     (admissions ex_idp_world (eb_limits ex_edge) (eb_resolver ex_edge) (mo_inner ex_mount)
       [ex_request, ex_request\<lparr>rq_path := ''/ops/a''\<rparr>, ex_request\<lparr>rq_path := ''/ops/b''\<rparr>, ex_request\<lparr>rq_path := ''/ops/c''\<rparr>] ex_idp))) \<le> 2"
proof (rule rate_ceiling_holds)
  show "counters_persist ex_idp_world" by (simp add: counters_persist_def ex_idp_world_def)
  show "counters_grow s t" if "mo_inner ex_mount req s = (r, t)" for req s r t
    using that by (simp add: ex_mount_def counting.R_refl)
  show "0 \<le> window_count ex_idp ''rl:/ops:10.0.0.1:1''" by (simp add: window_count_def ex_idp_def)
  show "snd x \<le> 2"
    if "x \<in> set (admissions ex_idp_world (eb_limits ex_edge) (eb_resolver ex_edge) (mo_inner ex_mount)
         [ex_request, ex_request\<lparr>rq_path := ''/ops/a''\<rparr>, ex_request\<lparr>rq_path := ''/ops/b''\<rparr>, ex_request\<lparr>rq_path := ''/ops/c''\<rparr>] ex_idp)"
      and "fst x = ''rl:/ops:10.0.0.1:1''" for x
    using that unfolding ex_admissions by auto
qed simp

text \<open>
  C35: Whose entries count. A client sends any header lines and any value of a last line of its own; the
  proxies of the operator append their entries to that line and write lines after it. When the distance
  stays within the lines the proxies wrote themselves, the client changes nothing. When it reaches into
  the entries appended to the client's line, the entry of the proxy at that distance counts, provided the
  client's value is visible ASCII: however many entries it forges, none shifts it. When the client's value
  holds any other byte, the line is dropped with the entries of the proxies in it, and what counts is read
  from the lines the client sent before it.
\<close>

theorem forwarded_counts_from_the_right:
  assumes "0 < hops" "hops \<le> length gs + length (forwarded_entries own)"
    and "\<And>g. g \<in> set gs \<Longrightarrow> CHR '','' \<notin> set g \<and> trim g \<noteq> [] \<and> to_str g = Some g"
  shows "forwarded P (client_lines @ [(''x-forwarded-for'', appended forged gs)] @ own) hops =
    (if hops \<le> length (forwarded_entries own) then forwarded P own hops
     else if to_str forged \<noteq> None
     then address P (map trim gs ! (length gs - (hops - length (forwarded_entries own))))
     else forwarded P client_lines (hops - length (forwarded_entries own)))"
proof (cases "hops \<le> length (forwarded_entries own)")
  case True
  with forwarded_own [of hops own P "client_lines @ [(''x-forwarded-for'', appended forged gs)]"] assms(1) show ?thesis by simp
next
  case False
  let ?n = "hops - length (forwarded_entries own)"
  let ?line = "[(''x-forwarded-for'', appended forged gs)]"
  have rest: "forwarded P (client_lines @ ?line @ own) hops = forwarded P (client_lines @ ?line) ?n"
    using forwarded_past [of own hops P "client_lines @ ?line"] False by simp
  have readable: "to_str (appended forged gs) = None \<longleftrightarrow> to_str forged = None"
    by (rule to_str_appended) (use assms(3) in blast)
  show ?thesis
  proof (cases "to_str forged = None")
    case True
    then have "forwarded P (client_lines @ ?line) ?n = forwarded P client_lines ?n"
      by (simp add: forwarded_def forwarded_entries_append forwarded_entries_line readable)
    with rest True False show ?thesis by simp
  next
    case readable_value: False
    then have line: "forwarded_entries ?line = entries_of forged @ map trim gs"
      using entries_appended [of gs forged] assms(3) by (auto simp: forwarded_entries_line readable)
    have n: "0 < ?n" "?n \<le> length (map trim gs)" using False assms(2) by simp_all
    then have "forwarded P (client_lines @ ?line) ?n = forwarded P ?line ?n"
      by (intro forwarded_own) (simp_all add: line)
    also have "\<dots> = address P (map trim gs ! (length gs - ?n))"
      using n nth_from_right [of ?n "map trim gs" "entries_of forged"] by (simp add: forwarded_def Let_def line)
    finally show ?thesis using rest readable_value False by simp
  qed
qed

definition ex_parsers :: "string ip_parsers" where
  "ex_parsers = \<lparr>ip_plain = (\<lambda>e. if list_all (\<lambda>c. ascii_digit c \<or> c = CHR ''.'') e then Some e else None),
     ip_socket = (\<lambda>_. None), ip_text = (\<lambda>x. x)\<rparr>"

definition ex_appended :: "string list" where
  "ex_appended = ['' 5.6.7.8'', '' 10.0.0.2'']"

lemma ex_appended_ok: "g \<in> set ex_appended \<Longrightarrow> CHR '','' \<notin> set g \<and> trim g \<noteq> [] \<and> to_str g = Some g"
proof -
  have "\<forall>g \<in> set ex_appended. CHR '','' \<notin> set g \<and> trim g \<noteq> [] \<and> to_str g = Some g" by code_simp
  then show "g \<in> set ex_appended \<Longrightarrow> ?thesis" by blast
qed

theorem forwarded_counts_from_the_right_witness:
  "forwarded ex_parsers ([(''x-forwarded-for'', ''1.1.1.1'')] @ [(''x-forwarded-for'', appended ''9.9.9.9'' ex_appended)] @
       [(''x-forwarded-for'', ''10.0.0.3'')]) 3 = Some ''5.6.7.8''"
proof -
  have "length (forwarded_entries [(''x-forwarded-for'', ''10.0.0.3'')]) = 1" "to_str ''9.9.9.9'' \<noteq> None"
    "length ex_appended = 2" "address ex_parsers (map trim ex_appended ! 0) = Some ''5.6.7.8''" by code_simp+
  then show ?thesis
    using forwarded_counts_from_the_right [of 3 ex_appended "[(''x-forwarded-for'', ''10.0.0.3'')]" ex_parsers
        "[(''x-forwarded-for'', ''1.1.1.1'')]" "''9.9.9.9''"] ex_appended_ok by simp
qed

text \<open>
  C36: The CSRF pair is exact. An unsafe request that nothing exempts reaches its handler exactly when it
  carries the cookie and a header of the very same, non-empty value; otherwise it is refused with the
  state untouched, and the comparison that never stops early decides nothing but equality.
\<close>

theorem csrf_pair_is_exact:
  assumes "\<not> csrf_exempts extra req" "\<not> is_safe (rq_method req)"
  shows "enforce_csrf W s extra inner req st =
    (if csrf_submitted req \<noteq> [] \<and> csrf_cookie s req = Some (csrf_submitted req)
     then inner req st else (Inr (refusal 403 ''csrf''), st))"
  using assms by (auto simp: enforce_csrf_def tokens_match_iff split: option.splits)

definition ex_post :: http_request where
  "ex_post = \<lparr>rq_method = ''POST'', rq_path = ''/api/x'',
     rq_headers = [(''cookie'', ''__Host-csrf=abc''), (''x-csrf-token'', ''abc'')], rq_principal = None, rq_bearer = None\<rparr>"

theorem csrf_pair_is_exact_witness:
  "enforce_csrf ex_idp_world Secure None (\<lambda>r. ret (ex_inner r)) ex_post ex_idp = ret (ex_inner ex_post) ex_idp"
proof -
  have "\<not> csrf_exempts None ex_post" "\<not> is_safe (rq_method ex_post)" by code_simp+
  moreover have "csrf_submitted ex_post \<noteq> [] \<and> csrf_cookie Secure ex_post = Some (csrf_submitted ex_post)" by code_simp
  ultimately show ?thesis
    using csrf_pair_is_exact [of None ex_post ex_idp_world Secure "\<lambda>r. ret (ex_inner r)" ex_idp] by simp
qed

section \<open>Where the edge does less than it says\<close>

text \<open>
  One byte outside the visible ASCII in the last line makes the edge drop it with what the proxy appended:
  a request that came from 5.6.7.8 is counted under the address its client wrote in a line before.
\<close>

lemma forged_line_counts:
  "forwarded ex_parsers [(''x-forwarded-for'', ''6.6.6.6''), (''x-forwarded-for'', appended [CHR 0xFF] ['' 5.6.7.8''])] 1 = Some ''6.6.6.6''"
  by code_simp

text \<open>The stream gate is not over the operator mounts: a stream from an undeclared route passes there.\<close>

lemma operator_streams_are_not_gated:
  assumes "is_operator_mount m" "mo_inner m req u = (Inr r, v)"
    and "rq_principal req = Some p" "has_role p (eb_operator_role E)" "csrf_cookie (eb_scheme E) req \<noteq> None"
    and "is_safe (rq_method req)"
  shows "mount_handler W E m req u = (Inr (security_headers (eb_https E) (sr_response r)), v)"
  using assms
  by (auto simp: mount_handler_def guarded_def apply_headers_def enforce_csrf_def enforce_operator_def
      without_extensions_def obind_def on_result_def)

text \<open>A mount listed as authenticated is answered by the router without any session.\<close>

lemma authenticated_mount_answers_anyone:
  assumes "mo_class m = Some Authenticated" "rq_principal req = None"
    and "csrf_cookie (eb_scheme E) req \<noteq> None" "is_safe (rq_method req)"
    and "rate_decide W (eb_limits E) (eb_resolver E) req s = (Inr None, u)" "mo_inner m req u = (Inr r, v)"
    and "sr_marker r = None"
  shows "mount_handler W E m req s = (Inr (security_headers (eb_https E) (sr_response r)), v)"
  using assms
  by (auto simp: mount_handler_def is_operator_mount_def guarded_def apply_headers_def enforce_csrf_def limited_def
      stream_gate_def enforce_rate_def enforce_stream_def obind_def on_result_def)

end
