(* ===== verification/Ops_Volume.thy ===== *)
theory Ops_Volume
  imports Operations
begin

text \<open>
  The data volume as the operations crate uses it (\<^verbatim>\<open>crates/rahi-ops\<close>): paths below the data
  directory, each with its node and the identity \<^verbatim>\<open>stat\<close> gives it. Every call of the file system is one
  step of a process, before which others may have changed the volume, and which works, fails without
  an effect, or is the last one of a process that dies with its effect done. The data directory itself is
  there from the start. A symbolic link is a leaf that leads nowhere; an open file is still at its path;
  modes and syncing have no effect of their own.
\<close>

section \<open>Paths and nodes\<close>

type_synonym vpath = "string list"

record file_id =
  st_dev :: nat
  st_ino :: nat

datatype file_kind = Directory | Regular string | Symlink

record inode =
  nd_id :: file_id
  nd_kind :: file_kind

type_synonym tree = "(vpath \<times> inode) list"

definition beneath :: "vpath \<Rightarrow> vpath \<Rightarrow> vpath option" where
  "beneath d p = (if take (length d) p = d then Some (drop (length d) p) else None)"

lemma beneath_Some_iff: "beneath d p = Some r \<longleftrightarrow> p = d @ r"
  by (metis append_eq_conv_conj append_take_drop_id beneath_def option.distinct(1) option.inject)

lemma beneath_None_iff: "beneath d p = None \<longleftrightarrow> (\<forall>r. p \<noteq> d @ r)"
  by (metis beneath_Some_iff not_Some_eq)

lemma beneath_append [simp]: "beneath d (d @ r) = Some r"
  by (simp add: beneath_Some_iff)

lemma beneath_refl [simp]: "beneath d d = Some []"
  by (simp add: beneath_Some_iff)

definition is_dir_at :: "tree \<Rightarrow> vpath \<Rightarrow> bool" where
  "is_dir_at T p \<longleftrightarrow> (case map_of T p of Some n \<Rightarrow> nd_kind n = Directory | None \<Rightarrow> False)"

definition names_in :: "tree \<Rightarrow> vpath \<Rightarrow> string list" where
  "names_in T d = sort (map last (filter (\<lambda>p. p \<noteq> [] \<and> butlast p = d) (map fst T)))"

definition id_at :: "tree \<Rightarrow> vpath \<Rightarrow> file_id option" where
  "id_at T p = map_option nd_id (map_of T p)"

definition dev_at :: "tree \<Rightarrow> vpath \<Rightarrow> nat option" where
  "dev_at T p = map_option st_dev (id_at T p)"

text \<open>A rename takes everything beneath the path along.\<close>

definition moved :: "vpath \<Rightarrow> vpath \<Rightarrow> tree \<Rightarrow> tree" where
  "moved f t T = map (\<lambda>(p, n). (case beneath f p of None \<Rightarrow> p | Some r \<Rightarrow> t @ r, n)) T"

definition cut :: "vpath \<Rightarrow> tree \<Rightarrow> tree" where
  "cut d T = filter (\<lambda>e. beneath d (fst e) = None) T"

section \<open>Calls\<close>

datatype fault = Works | Fails | Dies

record volume =
  vo_tree :: tree
  vo_calls :: nat

record ops_world =
  ow_fault :: "nat \<Rightarrow> fault"
  ow_others :: "nat \<Rightarrow> tree \<Rightarrow> tree"
  ow_ino :: "tree \<Rightarrow> nat"
  ow_pid :: string
  ow_random :: "nat \<Rightarrow> error + string"
  ow_clock :: "nat \<Rightarrow> u64"

definition sys :: "'w ops_world_scheme \<Rightarrow> (tree \<Rightarrow> (error + 'a) \<times> tree) \<Rightarrow> (volume, 'a) op" where
  "sys W f s =
     (let T = ow_others W (vo_calls s) (vo_tree s) in
      case ow_fault W (vo_calls s) of
        Works \<Rightarrow> (fst (f T), \<lparr>vo_tree = snd (f T), vo_calls = Suc (vo_calls s)\<rparr>)
      | Fails \<Rightarrow> (Inl (Io ''call''), \<lparr>vo_tree = T, vo_calls = Suc (vo_calls s)\<rparr>)
      | Dies \<Rightarrow> (Inl (Io ''call''), \<lparr>vo_tree = snd (f T), vo_calls = Suc (vo_calls s)\<rparr>))"

text \<open>An answer of the machine that reads or writes no file.\<close>

definition ask_machine :: "(nat \<Rightarrow> error + 'a) \<Rightarrow> (volume, 'a) op" where
  "ask_machine f s = (f (vo_calls s), s\<lparr>vo_calls := Suc (vo_calls s)\<rparr>)"

definition random_id :: "'w ops_world_scheme \<Rightarrow> (volume, string) op" where
  "random_id W = ask_machine (ow_random W)"

definition unix_now :: "'w ops_world_scheme \<Rightarrow> (volume, u64) op" where
  "unix_now W = ask_machine (\<lambda>k. Inr (ow_clock W k))"

text \<open>A fault point, and a call that only makes others durable.\<close>

definition hit :: "'w ops_world_scheme \<Rightarrow> (volume, unit) op" where
  "hit W = sys W (\<lambda>T. (Inr (), T))"

definition sync_file :: "'w ops_world_scheme \<Rightarrow> vpath \<Rightarrow> (volume, unit) op" where
  "sync_file W p = sys W (\<lambda>T. (Inr (), T))"

definition fsync_dir :: "'w ops_world_scheme \<Rightarrow> vpath \<Rightarrow> (volume, unit) op" where
  "fsync_dir W p = sys W (\<lambda>T. (if map_of T p = None then Inl (Io ''sync'') else Inr (), T))"

definition set_mode :: "'w ops_world_scheme \<Rightarrow> vpath \<Rightarrow> (volume, unit) op" where
  "set_mode W p = sys W (\<lambda>T. (if map_of T p = None then Inl (Io ''mode'') else Inr (), T))"

definition inspect :: "'w ops_world_scheme \<Rightarrow> vpath \<Rightarrow> (volume, inode option) op" where
  "inspect W p = sys W (\<lambda>T. (Inr (map_of T p), T))"

definition file_id_at :: "'w ops_world_scheme \<Rightarrow> vpath \<Rightarrow> (volume, file_id option) op" where
  "file_id_at W p = sys W (\<lambda>T. (Inr (id_at T p), T))"

text \<open>\<^verbatim>\<open>exists\<close>, \<^verbatim>\<open>is_dir\<close>, \<^verbatim>\<open>is_file\<close> and \<^verbatim>\<open>is_symlink\<close> answer no when they cannot tell.\<close>

definition look :: "'w ops_world_scheme \<Rightarrow> (tree \<Rightarrow> bool) \<Rightarrow> (volume, bool) op" where
  "look W f = on_result (sys W (\<lambda>T. (Inr (f T), T))) (\<lambda>r. ret (r = Inr True))"

definition exists_at :: "'w ops_world_scheme \<Rightarrow> vpath \<Rightarrow> (volume, bool) op" where
  "exists_at W p = look W (\<lambda>T. map_of T p \<noteq> None)"

definition dir_at :: "'w ops_world_scheme \<Rightarrow> vpath \<Rightarrow> (volume, bool) op" where
  "dir_at W p = look W (\<lambda>T. is_dir_at T p)"

definition symlink_at :: "'w ops_world_scheme \<Rightarrow> vpath \<Rightarrow> (volume, bool) op" where
  "symlink_at W p = look W (\<lambda>T. map_option nd_kind (map_of T p) = Some Symlink)"

definition read_file :: "'w ops_world_scheme \<Rightarrow> vpath \<Rightarrow> (volume, string option) op" where
  "read_file W p = sys W (\<lambda>T.
     (case map_of T p of
        None \<Rightarrow> Inr None
      | Some n \<Rightarrow> (case nd_kind n of Regular c \<Rightarrow> Inr (Some c) | _ \<Rightarrow> Inl (Io ''read'')), T))"

definition list_dir :: "'w ops_world_scheme \<Rightarrow> vpath \<Rightarrow> (volume, string list) op" where
  "list_dir W d = sys W (\<lambda>T. (Inr (if is_dir_at T d then names_in T d else []), T))"

section \<open>Changes\<close>

definition new_node :: "'w ops_world_scheme \<Rightarrow> tree \<Rightarrow> vpath \<Rightarrow> file_kind \<Rightarrow> inode" where
  "new_node W T p k =
     \<lparr>nd_id = \<lparr>st_dev = (case dev_at T (butlast p) of None \<Rightarrow> 0 | Some d \<Rightarrow> d), st_ino = ow_ino W T\<rparr>, nd_kind = k\<rparr>"

definition can_hold :: "tree \<Rightarrow> vpath \<Rightarrow> bool" where
  "can_hold T p \<longleftrightarrow> p \<noteq> [] \<and> is_dir_at T (butlast p)"

definition create_dir :: "'w ops_world_scheme \<Rightarrow> vpath \<Rightarrow> (volume, unit) op" where
  "create_dir W p = sys W (\<lambda>T.
     if map_of T p = None \<and> can_hold T p then (Inr (), (p, new_node W T p Directory) # T)
     else (Inl (Io ''mkdir''), T))"

definition ensure_dir :: "'w ops_world_scheme \<Rightarrow> vpath \<Rightarrow> (volume, unit) op" where
  "ensure_dir W p = sys W (\<lambda>T.
     if is_dir_at T p then (Inr (), T)
     else if map_of T p = None \<and> can_hold T p then (Inr (), (p, new_node W T p Directory) # T)
     else (Inl (Io ''mkdir''), T))"

fun each_op :: "('a \<Rightarrow> ('s, unit) op) \<Rightarrow> 'a list \<Rightarrow> ('s, unit) op" where
  "each_op f [] = ret ()"
| "each_op f (x # xs) = obind (f x) (\<lambda>_. each_op f xs)"

definition ancestors :: "vpath \<Rightarrow> vpath list" where
  "ancestors p = map (\<lambda>i. take i p) [1..<Suc (length p)]"

definition create_dir_all :: "'w ops_world_scheme \<Rightarrow> vpath \<Rightarrow> (volume, unit) op" where
  "create_dir_all W p = each_op (ensure_dir W) (ancestors p)"

text \<open>\<^verbatim>\<open>File::create\<close> truncates a file that is there; \<^verbatim>\<open>create_new\<close> refuses it.\<close>

definition create_file :: "'w ops_world_scheme \<Rightarrow> vpath \<Rightarrow> (volume, unit) op" where
  "create_file W p = sys W (\<lambda>T.
     case map_of T p of
       None \<Rightarrow> if can_hold T p then (Inr (), (p, new_node W T p (Regular [])) # T) else (Inl (Io ''create''), T)
     | Some n \<Rightarrow>
         (case nd_kind n of
            Regular _ \<Rightarrow> (Inr (), AList.update p (n\<lparr>nd_kind := Regular []\<rparr>) T)
          | _ \<Rightarrow> (Inl (Io ''create''), T)))"

definition create_new :: "'w ops_world_scheme \<Rightarrow> vpath \<Rightarrow> (volume, unit) op" where
  "create_new W p = sys W (\<lambda>T.
     if map_of T p = None \<and> can_hold T p then (Inr (), (p, new_node W T p (Regular [])) # T)
     else (Inl (Io ''create''), T))"

definition write_all :: "'w ops_world_scheme \<Rightarrow> vpath \<Rightarrow> string \<Rightarrow> (volume, unit) op" where
  "write_all W p c = sys W (\<lambda>T.
     case map_of T p of
       Some n \<Rightarrow>
         (case nd_kind n of
            Regular _ \<Rightarrow> (Inr (), AList.update p (n\<lparr>nd_kind := Regular c\<rparr>) T)
          | _ \<Rightarrow> (Inl (Io ''write''), T))
     | None \<Rightarrow> (Inl (Io ''write''), T))"

text \<open>\<open>rename_noreplace\<close>: a destination that exists is never replaced.\<close>

definition rename_noreplace :: "'w ops_world_scheme \<Rightarrow> vpath \<Rightarrow> vpath \<Rightarrow> (volume, unit) op" where
  "rename_noreplace W f t = sys W (\<lambda>T.
     if map_of T f = None then (Inl (Io ''rename''), T)
     else if map_of T t \<noteq> None then (Inl (Conflict ''the destination exists''), T)
     else if \<not> can_hold T t \<or> beneath f t \<noteq> None \<or> dev_at T f \<noteq> dev_at T (butlast t) then (Inl (Io ''rename''), T)
     else (Inr (), moved f t T))"

text \<open>The rename that replaces, of a file.\<close>

definition rename_over :: "'w ops_world_scheme \<Rightarrow> vpath \<Rightarrow> vpath \<Rightarrow> (volume, unit) op" where
  "rename_over W f t = sys W (\<lambda>T.
     if map_of T f = None \<or> is_dir_at T f \<or> is_dir_at T t \<or> \<not> can_hold T t \<or> dev_at T f \<noteq> dev_at T (butlast t)
     then (Inl (Io ''rename''), T)
     else if f = t then (Inr (), T)
     else (Inr (), moved f t (AList.delete t T)))"

definition hard_link :: "'w ops_world_scheme \<Rightarrow> vpath \<Rightarrow> vpath \<Rightarrow> (volume, bool) op" where
  "hard_link W f t = sys W (\<lambda>T.
     case map_of T f of
       None \<Rightarrow> (Inl (Io ''link''), T)
     | Some n \<Rightarrow>
         if map_of T t \<noteq> None then (Inr False, T)
         else if can_hold T t \<and> nd_kind n \<noteq> Directory then (Inr True, (t, n) # T)
         else (Inl (Io ''link''), T))"

definition remove_file :: "'w ops_world_scheme \<Rightarrow> vpath \<Rightarrow> (volume, unit) op" where
  "remove_file W p = sys W (\<lambda>T.
     if map_of T p \<noteq> None \<and> \<not> is_dir_at T p then (Inr (), AList.delete p T) else (Inl (Io ''unlink''), T))"

datatype rmdir_answer = Removed | Not_found | Not_empty

definition remove_dir :: "'w ops_world_scheme \<Rightarrow> vpath \<Rightarrow> (volume, rmdir_answer) op" where
  "remove_dir W p = sys W (\<lambda>T.
     if map_of T p = None then (Inr Not_found, T)
     else if \<not> is_dir_at T p then (Inl (Io ''rmdir''), T)
     else if names_in T p \<noteq> [] then (Inr Not_empty, T)
     else (Inr Removed, AList.delete p T))"

definition remove_dir_all :: "'w ops_world_scheme \<Rightarrow> vpath \<Rightarrow> (volume, unit) op" where
  "remove_dir_all W p = sys W (\<lambda>T. if map_of T p = None then (Inl (Io ''rmdir''), T) else (Inr (), cut p T))"

section \<open>Whole files\<close>

text \<open>\<open>write_replacing\<close>: a reader sees the whole new file or the whole old one.\<close>

definition temp_of :: "'w ops_world_scheme \<Rightarrow> vpath \<Rightarrow> vpath" where
  "temp_of W p = butlast p @ [''.'' @ last p @ ''.'' @ ow_pid W @ ''.tmp'']"

definition write_replacing :: "'w ops_world_scheme \<Rightarrow> vpath \<Rightarrow> string \<Rightarrow> (volume, unit) op" where
  "write_replacing W p c =
     obind (create_file W (temp_of W p)) (\<lambda>_.
     obind (write_all W (temp_of W p) c) (\<lambda>_.
     obind (sync_file W (temp_of W p)) (\<lambda>_.
     obind (rename_over W (temp_of W p) p) (\<lambda>_.
     fsync_dir W (butlast p)))))"

text \<open>\<open>publish_whole\<close>: link a whole file to a path that must be free; the answer says whether it was.\<close>

definition publish_whole :: "'w ops_world_scheme \<Rightarrow> vpath \<Rightarrow> string \<Rightarrow> string \<Rightarrow> (volume, bool) op" where
  "publish_whole W p name c =
     (let temp = butlast p @ [name] in
      obind (create_new W temp) (\<lambda>_.
      obind (write_all W temp c) (\<lambda>_.
      obind (sync_file W temp) (\<lambda>_.
      on_result (hard_link W temp p) (\<lambda>r.
      case r of
        Inl e \<Rightarrow> on_result (remove_file W temp) (\<lambda>_. fail e)
      | Inr linked \<Rightarrow>
          obind (fsync_dir W (butlast p)) (\<lambda>_.
          obind (remove_file W temp) (\<lambda>_.
          obind (fsync_dir W (butlast p)) (\<lambda>_.
          ret linked))))))))"

section \<open>What calls do\<close>

definition content :: "tree \<Rightarrow> vpath \<Rightarrow> string option" where
  "content T p = (case map_of T p of Some n \<Rightarrow> (case nd_kind n of Regular c \<Rightarrow> Some c | _ \<Rightarrow> None) | None \<Rightarrow> None)"

text \<open>Where a path leads after a rename: not beneath either end, at the new end, and beneath it.\<close>

lemma map_of_moved_other:
  "beneath t q = None \<Longrightarrow> beneath f q = None \<Longrightarrow> map_of (moved f t T) q = map_of T q"
  by (induction T) (auto simp: moved_def beneath_Some_iff beneath_None_iff split: option.splits)

lemma map_of_moved_gone:
  "beneath t q = None \<Longrightarrow> beneath f q \<noteq> None \<Longrightarrow> map_of (moved f t T) q = None"
  by (induction T) (auto simp: moved_def beneath_Some_iff beneath_None_iff split: option.splits)

lemma moved_Cons:
  "moved f t ((p, n) # T) = (case beneath f p of None \<Rightarrow> p | Some r \<Rightarrow> t @ r, n) # moved f t T"
  by (simp add: moved_def)

lemma map_of_moved_at:
  "\<forall>e \<in> set T. beneath t (fst e) = None \<Longrightarrow> map_of (moved f t T) (t @ r) = map_of T (f @ r)"
proof (induction T)
  case (Cons e T)
  obtain p n where e: "e = (p, n)" by (cases e)
  show ?case
  proof (cases "beneath f p")
    case None
    then have "p \<noteq> f @ r" by (auto simp: beneath_None_iff)
    with None Cons e show ?thesis by (auto simp: moved_Cons)
  next
    case (Some x)
    with Cons e show ?thesis by (auto simp: moved_Cons beneath_Some_iff)
  qed
qed (simp add: moved_def)

lemma map_of_moved_end:
  assumes "map_of T t = None"
  shows "map_of (moved f t T) t = map_of T f"
  using assms
proof (induction T)
  case (Cons e T)
  obtain p n where e: "e = (p, n)" by (cases e)
  show ?case
  proof (cases "beneath f p")
    case None
    then have "p \<noteq> f" by auto
    with None Cons e show ?thesis by (auto simp: moved_Cons split: if_splits)
  next
    case (Some x)
    with Cons e show ?thesis by (auto simp: moved_Cons beneath_Some_iff split: if_splits)
  qed
qed (simp add: moved_def)

lemma snd_moved [simp]: "map snd (moved f t T) = map snd T"
  by (simp add: moved_def case_prod_beta comp_def)

text \<open>The three ways a call ends.\<close>

lemma sys_cases:
  assumes "sys W f s = (r, u)"
  obtains (worked) "r = fst (f (ow_others W (vo_calls s) (vo_tree s)))" "vo_tree u = snd (f (ow_others W (vo_calls s) (vo_tree s)))"
      "vo_calls u = Suc (vo_calls s)"
    | (failed) e where "r = Inl e" "vo_tree u = ow_others W (vo_calls s) (vo_tree s)" "vo_calls u = Suc (vo_calls s)"
    | (died) e where "r = Inl e" "vo_tree u = snd (f (ow_others W (vo_calls s) (vo_tree s)))" "vo_calls u = Suc (vo_calls s)"
  using assms by (auto simp: sys_def Let_def split: fault.splits)

lemma sys_works:
  "ow_fault W (vo_calls s) = Works \<Longrightarrow>
    sys W f s = (fst (f (ow_others W (vo_calls s) (vo_tree s))),
      \<lparr>vo_tree = snd (f (ow_others W (vo_calls s) (vo_tree s))), vo_calls = Suc (vo_calls s)\<rparr>)"
  by (simp add: sys_def Let_def)

lemma sys_Inr:
  "sys W f s = (Inr x, u) \<Longrightarrow>
    fst (f (ow_others W (vo_calls s) (vo_tree s))) = Inr x \<and> vo_tree u = snd (f (ow_others W (vo_calls s) (vo_tree s))) \<and>
    vo_calls u = Suc (vo_calls s)"
  by (auto simp: sys_def Let_def split: fault.splits)

end
