(* ===== verification/Ops_Fence.thy ===== *)
theory Ops_Fence
  imports Ops_Volume "HOL-Library.Product_Lexorder"
begin

text \<open>
  The persisted record of the cache transition (the head of \<^verbatim>\<open>crates/rahi-ops/src/upgrade.rs\<close>) and the gate
  every entry point passes (\<^verbatim>\<open>cell_lock.rs\<close>): the refused environment, the two locks, the two fences, and
  what each entry point accepts. What locks, the environment, the archive and the node of the store answer
  is given by the world of a process; JSON is a parameter.
\<close>

section \<open>The transition record\<close>

datatype phase =
    Begin | Guarded | Verifying | Verified | Relocating | Relocated | Flooring | Floored | RauthyDone | Done | Aborted

fun phase_index :: "phase \<Rightarrow> nat" where
  "phase_index Begin = 0"
| "phase_index Guarded = 1"
| "phase_index Verifying = 2"
| "phase_index Verified = 3"
| "phase_index Relocating = 4"
| "phase_index Relocated = 5"
| "phase_index Flooring = 6"
| "phase_index Floored = 7"
| "phase_index RauthyDone = 8"
| "phase_index Done = 9"
| "phase_index Aborted = 10"

fun phase_name :: "phase \<Rightarrow> string" where
  "phase_name Begin = ''begin''"
| "phase_name Guarded = ''guarded''"
| "phase_name Verifying = ''verifying''"
| "phase_name Verified = ''verified''"
| "phase_name Relocating = ''relocating''"
| "phase_name Relocated = ''relocated''"
| "phase_name Flooring = ''flooring''"
| "phase_name Floored = ''floored''"
| "phase_name RauthyDone = ''rauthy-done''"
| "phase_name Done = ''done''"
| "phase_name Aborted = ''aborted''"

definition serves :: "phase \<Rightarrow> bool" where
  "serves p \<longleftrightarrow> p \<in> {Floored, RauthyDone, Done}"

record planned_move =
  pm_source :: vpath
  pm_destination :: vpath
  pm_identity :: file_id

record evidence_move =
  em_seq :: nat
  em_step :: string
  em_source :: vpath
  em_destination :: vpath
  em_identity :: file_id
  em_done :: bool

record wal_meta =
  wm_log :: string
  wm_bytes :: string

record transition =
  tr_version :: nat
  tr_id :: string
  tr_phase :: phase
  tr_instant :: "u64 option"
  tr_marker :: "file_id option"
  tr_digest :: "string option"
  tr_target :: "vpath option"
  tr_plan :: "planned_move list"
  tr_seq :: nat
  tr_evidence :: "evidence_move list"
  tr_wal_meta :: "wal_meta list"

definition RECORD_VERSION :: nat where "RECORD_VERSION = 1"

definition transition_begin :: "string \<Rightarrow> transition" where
  "transition_begin i =
     \<lparr>tr_version = RECORD_VERSION, tr_id = i, tr_phase = Begin, tr_instant = None, tr_marker = None, tr_digest = None,
      tr_target = None, tr_plan = [], tr_seq = 0, tr_evidence = [], tr_wal_meta = []\<rparr>"

record upgrade_world = ops_world +
  uw_encode :: "transition \<Rightarrow> string"
  uw_decode :: "string \<Rightarrow> transition option"
  uw_env :: "string \<Rightarrow> bool"
  uw_try_lock :: "nat \<Rightarrow> vpath \<Rightarrow> bool \<Rightarrow> error + bool"
  uw_lock_held :: "nat \<Rightarrow> vpath \<Rightarrow> error + bool"
  uw_sqlite_holder :: "nat \<Rightarrow> vpath \<Rightarrow> error + int option"
  uw_archive :: "nat \<Rightarrow> error + string"
  uw_open_store :: "nat \<Rightarrow> tree \<Rightarrow> (error + unit) \<times> tree"
  uw_raise_floor :: "string \<Rightarrow> u64 \<Rightarrow> nat \<Rightarrow> tree \<Rightarrow> (error + unit) \<times> tree"
  uw_shutdown :: "nat \<Rightarrow> tree \<Rightarrow> (error + unit) \<times> tree"
  uw_version :: string
  uw_fence_text :: string

definition STATE_PATH :: vpath where "STATE_PATH = [''upgrade-cache.json'']"
definition WORK :: vpath where "WORK = [''upgrade-cache'']"
definition LEGACY :: vpath where "LEGACY = [''hiqlite'']"
definition STATE_MACHINE :: vpath where "STATE_MACHINE = [''hiqlite'', ''state_machine'']"
definition LEGACY_MARKER :: vpath where "LEGACY_MARKER = [''hiqlite'', ''state_machine'', ''lock'']"
definition APP_STORE :: vpath where "APP_STORE = [''app-store'']"
definition RAUTHY :: vpath where "RAUTHY = [''rauthy'']"
definition LEGACY_ENV :: vpath where "LEGACY_ENV = [''rauthy'', ''rauthy.env'']"
definition ENV_DIR :: vpath where "ENV_DIR = [''rauthy-env'']"
definition ENV_PATH :: vpath where "ENV_PATH = [''rauthy-env'', ''rauthy.env'']"

definition read_transition :: "upgrade_world \<Rightarrow> (volume, transition option) op" where
  "read_transition W =
     obind (read_file W STATE_PATH) (\<lambda>c.
     case c of
       None \<Rightarrow> ret None
     | Some bytes \<Rightarrow>
         (case uw_decode W bytes of
            None \<Rightarrow> fail (Integrity ''not a transition record this build reads'')
          | Some r \<Rightarrow>
              if tr_version r \<noteq> RECORD_VERSION then fail (Integrity ''record version'') else ret (Some r)))"

definition write_transition :: "upgrade_world \<Rightarrow> transition \<Rightarrow> (volume, unit) op" where
  "write_transition W r = write_replacing W STATE_PATH (uw_encode W r)"

text \<open>The completions \<^verbatim>\<open>supervise\<close> and \<^verbatim>\<open>serve\<close> write.\<close>

definition complete_transition :: "upgrade_world \<Rightarrow> phase list \<Rightarrow> phase \<Rightarrow> (volume, bool) op" where
  "complete_transition W from to =
     obind (read_transition W) (\<lambda>r.
     case r of
       None \<Rightarrow> ret False
     | Some x \<Rightarrow>
         if tr_phase x \<notin> set from then ret False
         else obind (write_transition W (x\<lparr>tr_phase := to\<rparr>)) (\<lambda>_. ret True))"

section \<open>Entry points\<close>

datatype entry = UpgradeCache | Abort | Supervise | Serve | FirstBoot | StoreVerb bool | Restore

definition layout_exclusive :: "entry \<Rightarrow> bool" where
  "layout_exclusive e \<longleftrightarrow> e \<in> {UpgradeCache, Abort, Restore}"

fun accepts_phase :: "entry \<Rightarrow> phase option \<Rightarrow> bool" where
  "accepts_phase UpgradeCache _ = True"
| "accepts_phase Abort _ = True"
| "accepts_phase FirstBoot _ = True"
| "accepts_phase Supervise p = (case p of None \<Rightarrow> True | Some x \<Rightarrow> serves x)"
| "accepts_phase Serve p = (case p of None \<Rightarrow> True | Some x \<Rightarrow> serves x)"
| "accepts_phase (StoreVerb _) p = (case p of None \<Rightarrow> True | Some x \<Rightarrow> serves x)"
| "accepts_phase Restore p = (case p of None \<Rightarrow> True | Some x \<Rightarrow> x = Done)"

definition creates_fences :: "entry \<Rightarrow> bool" where
  "creates_fences e \<longleftrightarrow> e \<notin> {UpgradeCache, Abort}"

definition needs_fence :: "entry \<Rightarrow> bool" where
  "needs_fence e \<longleftrightarrow> e \<notin> {UpgradeCache, Abort, FirstBoot}"

definition REFUSED_ENV :: "string list" where
  "REFUSED_ENV = [''HQL_CACHE_LEGACY_MOVE_ASIDE'', ''HQL_DANGER_RAFT_STATE_RESET'', ''HQL_BACKUP_RESTORE'']"

definition CELL_LOCK :: vpath where "CELL_LOCK = [''cell.lock'']"
definition TRANSITION_LOCK :: vpath where "TRANSITION_LOCK = [''transition.lock'']"

text \<open>The file is opened, and made when it is absent, before it is locked.\<close>

definition try_lock :: "upgrade_world \<Rightarrow> vpath \<Rightarrow> bool \<Rightarrow> (volume, bool) op" where
  "try_lock W p exclusive =
     obind (sys W (\<lambda>T.
       case map_of T p of
         None \<Rightarrow> if can_hold T p then (Inr (), (p, new_node W T p (Regular [])) # T) else (Inl (Io ''open''), T)
       | Some n \<Rightarrow> (if nd_kind n = Directory then Inl (Io ''open'') else Inr (), T))) (\<lambda>_.
     ask_machine (\<lambda>k. uw_try_lock W k p exclusive))"

section \<open>The fences\<close>

datatype legacy = Legacy_absent | Legacy_fence string "vpath list" | Legacy_other string

datatype supervisor_fence = Sup_absent | Sup_fence | Sup_file | Sup_other

definition FENCE_PREFIX :: string where "FENCE_PREFIX = ''rahi-fence ''"
definition GUARD_PREFIX :: string where "GUARD_PREFIX = ''rahi-upgrade-cache ''"
definition FENCE_TEMP_PREFIX :: string where "FENCE_TEMP_PREFIX = ''.rahi-fence-''"
definition SUPERVISOR_FENCE_FILE :: string where "SUPERVISOR_FENCE_FILE = ''FENCE''"

definition is_fence_content :: "string \<Rightarrow> bool" where
  "is_fence_content c \<longleftrightarrow> starts_with FENCE_PREFIX c \<or> starts_with GUARD_PREFIX c"

definition fence_content :: "upgrade_world \<Rightarrow> string" where
  "fence_content W = FENCE_PREFIX @ uw_version W"

definition inspect_legacy :: "upgrade_world \<Rightarrow> (volume, legacy) op" where
  "inspect_legacy W =
     obind (inspect W LEGACY) (\<lambda>meta.
     case meta of
       None \<Rightarrow> ret Legacy_absent
     | Some n \<Rightarrow>
         if nd_kind n \<noteq> Directory then ret (Legacy_other ''not a directory'')
         else
           obind (list_dir W (STATE_MACHINE @ [''db''])) (\<lambda>db.
           if db \<noteq> [] then ret (Legacy_other ''a store is at the legacy path'')
           else
             obind (read_file W LEGACY_MARKER) (\<lambda>c.
             case c of
               None \<Rightarrow> ret (Legacy_other ''the marker is absent'')
             | Some bytes \<Rightarrow>
                 if \<not> is_fence_content (trim bytes) then ret (Legacy_other ''not a fence'')
                 else
                   obind (list_dir W LEGACY) (\<lambda>ls.
                   obind (list_dir W STATE_MACHINE) (\<lambda>ms.
                   ret (Legacy_fence (trim bytes)
                     (map (\<lambda>x. [x]) (filter (\<lambda>x. x \<noteq> ''state_machine'') ls)
                      @ map (\<lambda>x. [''state_machine'', x]) (filter (\<lambda>x. x \<noteq> ''lock'') ms))))))))"

definition inspect_supervisor_fence :: "upgrade_world \<Rightarrow> (volume, supervisor_fence) op" where
  "inspect_supervisor_fence W =
     obind (inspect W LEGACY_ENV) (\<lambda>meta.
     case meta of
       None \<Rightarrow> ret Sup_absent
     | Some n \<Rightarrow>
         (case nd_kind n of
            Directory \<Rightarrow>
              obind (look W (\<lambda>T. content T (LEGACY_ENV @ [SUPERVISOR_FENCE_FILE]) \<noteq> None)) (\<lambda>there.
              ret (if there then Sup_fence else Sup_other))
          | Regular _ \<Rightarrow> ret Sup_file
          | Symlink \<Rightarrow> ret Sup_other))"

text \<open>A temporary that is being built is held by the lock of its own directory.\<close>

definition lock_temp :: "upgrade_world \<Rightarrow> vpath \<Rightarrow> (volume, file_id option) op" where
  "lock_temp W p =
     obind (file_id_at W p) (\<lambda>i.
     case i of
       None \<Rightarrow> ret None
     | Some x \<Rightarrow> obind (ask_machine (\<lambda>k. uw_try_lock W k p True)) (\<lambda>got. ret (if got then Some x else None)))"

definition is_at :: "upgrade_world \<Rightarrow> file_id \<Rightarrow> vpath \<Rightarrow> (volume, bool) op" where
  "is_at W held p = obind (file_id_at W p) (\<lambda>i. ret (i = Some held))"

fun fence_temp_tries :: "nat \<Rightarrow> upgrade_world \<Rightarrow> vpath \<Rightarrow> (volume, vpath) op" where
  "fence_temp_tries 0 W d = fail (Io ''no fence temporary outlived a concurrent sweep'')"
| "fence_temp_tries (Suc n) W d =
     obind (random_id W) (\<lambda>i.
     let p = d @ [FENCE_TEMP_PREFIX @ i] in
     obind (create_dir W p) (\<lambda>_.
     obind (lock_temp W p) (\<lambda>l.
     case l of
       None \<Rightarrow> fence_temp_tries n W d
     | Some held \<Rightarrow> obind (is_at W held p) (\<lambda>there. if there then ret p else fence_temp_tries n W d))))"

definition FENCE_TEMP_ATTEMPTS :: nat where "FENCE_TEMP_ATTEMPTS = 8"

definition fence_temp :: "upgrade_world \<Rightarrow> vpath \<Rightarrow> (volume, vpath) op" where
  "fence_temp = fence_temp_tries FENCE_TEMP_ATTEMPTS"

definition sweep_fence_temps :: "upgrade_world \<Rightarrow> vpath \<Rightarrow> (volume, unit) op" where
  "sweep_fence_temps W d =
     obind (list_dir W d) (\<lambda>names.
     each_op (\<lambda>x.
       if \<not> starts_with FENCE_TEMP_PREFIX x then ret ()
       else
         obind (lock_temp W (d @ [x])) (\<lambda>l.
         case l of
           None \<Rightarrow> ret ()
         | Some held \<Rightarrow>
             obind (is_at W held (d @ [x])) (\<lambda>there. if there then remove_dir_all W (d @ [x]) else ret ()))) names)"

definition build_supervisor_fence :: "upgrade_world \<Rightarrow> (volume, vpath) op" where
  "build_supervisor_fence W =
     obind (create_dir_all W RAUTHY) (\<lambda>_.
     obind (set_mode W RAUTHY) (\<lambda>_.
     obind (fence_temp W RAUTHY) (\<lambda>temp.
     obind (create_new W (temp @ [SUPERVISOR_FENCE_FILE])) (\<lambda>_.
     obind (write_all W (temp @ [SUPERVISOR_FENCE_FILE]) (uw_fence_text W)) (\<lambda>_.
     obind (sync_file W (temp @ [SUPERVISOR_FENCE_FILE])) (\<lambda>_.
     obind (fsync_dir W temp) (\<lambda>_.
     obind (fsync_dir W RAUTHY) (\<lambda>_.
     ret temp))))))))"

definition place_supervisor_fence :: "upgrade_world \<Rightarrow> vpath \<Rightarrow> (volume, unit) op" where
  "place_supervisor_fence W built =
     obind (rename_noreplace W built LEGACY_ENV) (\<lambda>_. fsync_dir W RAUTHY)"

definition create_legacy_fence :: "upgrade_world \<Rightarrow> (volume, unit) op" where
  "create_legacy_fence W =
     obind (fence_temp W []) (\<lambda>temp.
     obind (create_dir W (temp @ [''state_machine''])) (\<lambda>_.
     obind (set_mode W temp) (\<lambda>_.
     obind (set_mode W (temp @ [''state_machine''])) (\<lambda>_.
     obind (hit W) (\<lambda>_.
     obind (random_id W) (\<lambda>i.
     obind (publish_whole W (temp @ [''state_machine'', ''lock'']) (FENCE_TEMP_PREFIX @ i) (fence_content W)) (\<lambda>_.
     obind (fsync_dir W temp) (\<lambda>_.
     obind (hit W) (\<lambda>_.
     obind
       (on_result (rename_noreplace W temp LEGACY) (\<lambda>r.
        case r of
          Inr _ \<Rightarrow> ret ()
        | Inl (Conflict _) \<Rightarrow>
            obind (remove_dir_all W temp) (\<lambda>_.
            on_result (read_file W LEGACY_MARKER) (\<lambda>c.
            if is_fence_content (case c of Inr (Some x) \<Rightarrow> trim x | _ \<Rightarrow> []) then ret ()
            else fail (Conflict ''what appeared is not a fence'')))
        | Inl e \<Rightarrow> fail e)) (\<lambda>_.
     obind (fsync_dir W []) (\<lambda>_.
     hit W)))))))))))"

definition create_fences :: "upgrade_world \<Rightarrow> bool \<Rightarrow> (volume, unit) op" where
  "create_fences W sweep =
     obind (if sweep then obind (sweep_fence_temps W []) (\<lambda>_. obind (sweep_fence_temps W RAUTHY) (\<lambda>_. hit W)) else ret ()) (\<lambda>_.
     obind (inspect_supervisor_fence W) (\<lambda>f.
     obind
       (if f = Sup_absent then
          obind (build_supervisor_fence W) (\<lambda>built.
          obind (hit W) (\<lambda>_.
          obind
            (on_result (place_supervisor_fence W built) (\<lambda>r.
             case r of
               Inr _ \<Rightarrow> ret ()
             | Inl (Conflict _) \<Rightarrow> remove_dir_all W built
             | Inl e \<Rightarrow> fail e)) (\<lambda>_.
          hit W)))
        else ret ()) (\<lambda>_.
     create_legacy_fence W)))"

text \<open>A directory that is exactly an abandoned fence is removed; each removal refuses a full directory.\<close>

fun remove_empty :: "upgrade_world \<Rightarrow> vpath list \<Rightarrow> (volume, bool) op" where
  "remove_empty W [] = ret True"
| "remove_empty W (d # ds) =
     obind (remove_dir W d) (\<lambda>a. if a = Removed then remove_empty W ds else ret False)"

definition remove_abandoned_fence :: "upgrade_world \<Rightarrow> (volume, bool) op" where
  "remove_abandoned_fence W =
     obind (dir_at W LEGACY) (\<lambda>there.
     if \<not> there then ret False
     else
       obind (list_dir W LEGACY) (\<lambda>entries.
       obind
         (if entries = [] then ret [LEGACY]
          else if entries = [''state_machine''] then
            obind (dir_at W STATE_MACHINE) (\<lambda>sm.
            if \<not> sm then ret []
            else obind (list_dir W STATE_MACHINE) (\<lambda>inner. ret (if inner = [] then [STATE_MACHINE, LEGACY] else [])))
          else ret []) (\<lambda>dirs.
       if dirs = [] then ret False
       else
         obind (remove_empty W dirs) (\<lambda>all.
         if all then obind (fsync_dir W []) (\<lambda>_. ret True) else ret False))))"

section \<open>The gate\<close>

record boot_gate =
  gt_entry :: entry
  gt_owns_cell :: bool
  gt_record :: "transition option"
  gt_legacy :: legacy
  gt_supervisor_fence :: supervisor_fence
  gt_fenced :: bool

definition gate_locks :: "upgrade_world \<Rightarrow> entry \<Rightarrow> (volume, bool) op" where
  "gate_locks W e =
     obind (try_lock W CELL_LOCK True) (\<lambda>cell.
     if \<not> cell \<and> e \<noteq> StoreVerb True then fail (Conflict ''the cell lock is held'')
     else
       obind (try_lock W TRANSITION_LOCK (layout_exclusive e)) (\<lambda>layout.
       if layout then ret cell else fail (Conflict ''the transition lock is held'')))"

definition is_other :: "legacy \<Rightarrow> bool" where
  "is_other l \<longleftrightarrow> (case l of Legacy_other _ \<Rightarrow> True | _ \<Rightarrow> False)"

definition gate_fences ::
  "upgrade_world \<Rightarrow> entry \<Rightarrow> bool \<Rightarrow> transition option \<Rightarrow> (volume, legacy \<times> supervisor_fence \<times> bool) op" where
  "gate_fences W e owns r =
     obind (inspect_legacy W) (\<lambda>l0.
     obind (inspect_supervisor_fence W) (\<lambda>f0.
     obind
       (if creates_fences e \<and> r = None \<and> is_other l0 then
          obind (remove_abandoned_fence W) (\<lambda>removed. if removed then inspect_legacy W else ret l0)
        else ret l0) (\<lambda>l1.
     if creates_fences e \<and> r = None \<and> l1 = Legacy_absent then
       obind (create_fences W owns) (\<lambda>_.
       obind (inspect_legacy W) (\<lambda>l2.
       obind (inspect_supervisor_fence W) (\<lambda>f2.
       ret (l2, f2, True))))
     else ret (l1, f0, False))))"

definition enter_gate :: "upgrade_world \<Rightarrow> entry \<Rightarrow> (volume, boot_gate) op" where
  "enter_gate W e =
     (if \<exists>x \<in> set REFUSED_ENV. uw_env W x then fail (Config ''a refused variable is set'')
      else
        obind (create_dir_all W []) (\<lambda>_.
        obind (gate_locks W e) (\<lambda>owns.
        obind (read_transition W) (\<lambda>r.
        obind (gate_fences W e owns r) (\<lambda>(l, f, fenced).
        if \<not> accepts_phase e (map_option tr_phase r) then fail (Conflict ''the transition is not at a phase this entry accepts'')
        else if needs_fence e \<and> is_other l then fail (Conflict ''not the fence this version requires'')
        else if needs_fence e \<and> l = Legacy_absent then fail (Conflict ''the fence was removed'')
        else ret \<lparr>gt_entry = e, gt_owns_cell = owns, gt_record = r, gt_legacy = l, gt_supervisor_fence = f, gt_fenced = fenced\<rparr>)))))"

end
