(* ===== verification/Ops_Upgrade.thy ===== *)
theory Ops_Upgrade
  imports Ops_Fence
begin

text \<open>
  The verb \<^verbatim>\<open>rahi upgrade-cache\<close> and its \<^verbatim>\<open>--abort\<close> (\<^verbatim>\<open>crates/rahi-ops/src/upgrade.rs\<close>): a machine of
  phases, each recorded before it acts and after, that guards the old layout, verifies an archive, moves
  the store to its new place entry by entry, and raises the floor; interrupted anywhere, it goes on from
  its record. Paths are below the data directory; the holds of the test harness are left out.
\<close>

section \<open>Moves to evidence\<close>

definition six_digits :: "nat \<Rightarrow> string" where
  "six_digits n = replicate (6 - length (show_nat n)) CHR ''0'' @ show_nat n"

definition aside_dir :: "string \<Rightarrow> vpath" where
  "aside_dir i = WORK @ [''aside'', i]"

definition evidence_dir :: "string \<Rightarrow> vpath" where
  "evidence_dir i = WORK @ [''evidence'', i]"

definition guard_content :: "string \<Rightarrow> string" where
  "guard_content i = GUARD_PREFIX @ i"

definition advance :: "upgrade_world \<Rightarrow> transition \<Rightarrow> phase \<Rightarrow> (volume, transition) op" where
  "advance W r to =
     obind (write_transition W (r\<lparr>tr_phase := to\<rparr>)) (\<lambda>_.
     obind (hit W) (\<lambda>_.
     ret (r\<lparr>tr_phase := to\<rparr>)))"

definition finish_move :: "upgrade_world \<Rightarrow> evidence_move \<Rightarrow> (volume, evidence_move) op" where
  "finish_move W m =
     obind (file_id_at W (em_destination m)) (\<lambda>at_dest.
     if at_dest = Some (em_identity m) then ret (m\<lparr>em_done := True\<rparr>)
     else if at_dest \<noteq> None then fail (Conflict ''an identity the evidence intent does not name'')
     else
       obind (file_id_at W (em_source m)) (\<lambda>at_source.
       if at_source \<noteq> Some (em_identity m) then fail (Conflict ''at neither its source nor its evidence name'')
       else if em_destination m = [] then fail (Io ''an evidence name has no parent'')
       else
         obind (create_dir_all W (butlast (em_destination m))) (\<lambda>_.
         obind (rename_noreplace W (em_source m) (em_destination m)) (\<lambda>_.
         obind (fsync_dir W (butlast (em_source m))) (\<lambda>_.
         obind (fsync_dir W (butlast (em_destination m))) (\<lambda>_.
         ret (m\<lparr>em_done := True\<rparr>)))))))"

fun finish_moves :: "upgrade_world \<Rightarrow> evidence_move list \<Rightarrow> (volume, evidence_move list) op" where
  "finish_moves W [] = ret []"
| "finish_moves W (m # ms) =
     obind (if em_done m then ret m else finish_move W m) (\<lambda>m'.
     obind (finish_moves W ms) (\<lambda>ms'.
     ret (m' # ms')))"

definition finish_evidence :: "upgrade_world \<Rightarrow> transition \<Rightarrow> (volume, transition) op" where
  "finish_evidence W r = obind (finish_moves W (tr_evidence r)) (\<lambda>ms. ret (r\<lparr>tr_evidence := ms\<rparr>))"

definition to_evidence ::
  "upgrade_world \<Rightarrow> transition \<Rightarrow> string \<Rightarrow> vpath \<Rightarrow> vpath \<Rightarrow> (volume, transition) op" where
  "to_evidence W r step source relative =
     obind (file_id_at W source) (\<lambda>i.
     case i of
       None \<Rightarrow> fail (Io ''vanished before its move to evidence'')
     | Some identity \<Rightarrow>
         (let n = Suc (tr_seq r);
              m = \<lparr>em_seq = n, em_step = step, em_source = source,
                   em_destination = evidence_dir (tr_id r) @ [six_digits n @ ''-'' @ step] @ relative,
                   em_identity = identity, em_done = False\<rparr>;
              r1 = r\<lparr>tr_seq := n, tr_evidence := tr_evidence r @ [m]\<rparr>
          in
          obind (write_transition W r1) (\<lambda>_.
          obind (hit W) (\<lambda>_.
          obind (finish_evidence W r1) (\<lambda>r2.
          obind (write_transition W r2) (\<lambda>_.
          obind (hit W) (\<lambda>_.
          ret r2)))))))"

fun all_to_evidence ::
  "upgrade_world \<Rightarrow> string \<Rightarrow> vpath list \<Rightarrow> transition \<Rightarrow> (volume, transition) op" where
  "all_to_evidence W step [] r = ret r"
| "all_to_evidence W step (p # ps) r =
     obind (to_evidence W r step p (case beneath LEGACY p of Some x \<Rightarrow> x | None \<Rightarrow> p)) (all_to_evidence W step ps)"

definition recover_evidence :: "upgrade_world \<Rightarrow> transition \<Rightarrow> (volume, bool \<times> transition) op" where
  "recover_evidence W r =
     (if \<exists>m \<in> set (tr_evidence r). \<not> em_done m then
        obind (finish_evidence W r) (\<lambda>r'. obind (write_transition W r') (\<lambda>_. ret (True, r')))
      else ret (False, r))"

section \<open>The log metadata\<close>

definition WAL_LOGS :: "string list" where "WAL_LOGS = [''logs'', ''logs_cache'']"

definition wal_meta_whole :: "string \<Rightarrow> bool" where
  "wal_meta_whole c \<longleftrightarrow> 14 \<le> length c \<and> starts_with ''HQLMETA'' c \<and> c ! 7 = CHR 0x01"

definition hex_digit :: "nat \<Rightarrow> char" where
  "hex_digit n = (if n < 10 then char_of (48 + n) else char_of (87 + n))"

definition hex_of :: "string \<Rightarrow> string" where
  "hex_of c = concat (map (\<lambda>b. [hex_digit (of_char b div 16), hex_digit (of_char b mod 16)]) c)"

definition hex_value :: "char \<Rightarrow> nat option" where
  "hex_value c =
     (if ascii_digit c then Some (of_char c - 48)
      else if CHR ''a'' \<le> c \<and> c \<le> CHR ''f'' then Some (of_char c - 87)
      else if CHR ''A'' \<le> c \<and> c \<le> CHR ''F'' then Some (of_char c - 55) else None)"

text \<open>\<^verbatim>\<open>u8::from_str_radix\<close> of two characters: it takes a leading plus sign.\<close>

definition hex_pair :: "char \<Rightarrow> char \<Rightarrow> char option" where
  "hex_pair a b =
     (case hex_value b of
        None \<Rightarrow> None
      | Some y \<Rightarrow>
          if a = CHR ''+'' then Some (char_of y)
          else (case hex_value a of None \<Rightarrow> None | Some x \<Rightarrow> Some (char_of (x * 16 + y))))"

fun unhex_bytes :: "string \<Rightarrow> string option" where
  "unhex_bytes [] = Some []"
| "unhex_bytes [_] = None"
| "unhex_bytes (a # b # r) =
     (case hex_pair a b of
        None \<Rightarrow> None
      | Some c \<Rightarrow> (case unhex_bytes r of None \<Rightarrow> None | Some cs \<Rightarrow> Some (c # cs)))"

fun capture_wal_meta_of :: "upgrade_world \<Rightarrow> string list \<Rightarrow> (volume, wal_meta list) op" where
  "capture_wal_meta_of W [] = ret []"
| "capture_wal_meta_of W (l # ls) =
     obind (read_file W (LEGACY @ [l, ''meta.hql''])) (\<lambda>c.
     case c of
       None \<Rightarrow> capture_wal_meta_of W ls
     | Some bytes \<Rightarrow>
         if \<not> wal_meta_whole bytes then fail (Conflict ''not a whole WAL metadata file'')
         else
           obind (capture_wal_meta_of W ls) (\<lambda>ms.
           ret (\<lparr>wm_log = l, wm_bytes = hex_of bytes\<rparr> # ms)))"

definition capture_wal_meta :: "upgrade_world \<Rightarrow> (volume, wal_meta list) op" where
  "capture_wal_meta W = capture_wal_meta_of W WAL_LOGS"

fun restore_wal_meta_of :: "upgrade_world \<Rightarrow> vpath \<Rightarrow> wal_meta list \<Rightarrow> (volume, bool) op" where
  "restore_wal_meta_of W store [] = ret False"
| "restore_wal_meta_of W store (m # ms) =
     obind (dir_at W (store @ [wm_log m])) (\<lambda>there.
     if \<not> there then restore_wal_meta_of W store ms
     else
       (case unhex_bytes (wm_bytes m) of
          None \<Rightarrow> fail (Integrity ''the metadata is not hex'')
        | Some want \<Rightarrow>
            obind (read_file W (store @ [wm_log m, ''meta.hql''])) (\<lambda>c.
            if (case c of Some bytes \<Rightarrow> wal_meta_whole bytes | None \<Rightarrow> False) then restore_wal_meta_of W store ms
            else if (case c of Some bytes \<Rightarrow> \<not> starts_with bytes want | None \<Rightarrow> False)
            then fail (Conflict ''a cut-short WAL metadata file that is not a prefix'')
            else
              obind (write_replacing W (store @ [wm_log m, ''meta.hql'']) want) (\<lambda>_.
              obind (restore_wal_meta_of W store ms) (\<lambda>_. ret True)))))"

definition restore_wal_meta :: "upgrade_world \<Rightarrow> vpath \<Rightarrow> wal_meta list \<Rightarrow> string list \<Rightarrow> (volume, bool) op" where
  "restore_wal_meta W store recorded logs =
     restore_wal_meta_of W store (filter (\<lambda>m. wm_log m \<in> set logs) recorded)"

section \<open>T1: the guard\<close>

definition verify_archive :: "upgrade_world \<Rightarrow> (volume, string) op" where
  "verify_archive W = ask_machine (uw_archive W)"

definition read_marker :: "upgrade_world \<Rightarrow> vpath \<Rightarrow> (volume, string option) op" where
  "read_marker W p = obind (read_file W p) (\<lambda>c. ret (map_option trim c))"

definition lock_held :: "upgrade_world \<Rightarrow> vpath \<Rightarrow> (volume, bool) op" where
  "lock_held W p =
     obind (inspect W p) (\<lambda>n. if n = None then ret False else ask_machine (\<lambda>k. uw_lock_held W k p))"

definition sqlite_lock_holder :: "upgrade_world \<Rightarrow> vpath \<Rightarrow> (volume, int option) op" where
  "sqlite_lock_holder W p =
     obind (inspect W p) (\<lambda>n. if n = None then ret None else ask_machine (\<lambda>k. uw_sqlite_holder W k p))"

text \<open>Which state a foreign marker means; it only words the refusal.\<close>

fun pre043_state :: "upgrade_world \<Rightarrow> string list \<Rightarrow> (volume, bool) op" where
  "pre043_state W [] = ret False"
| "pre043_state W (l # ls) =
     obind (lock_held W (LEGACY @ [l, ''lock.hql''])) (\<lambda>held. if held then ret True else pre043_state W ls)"

definition refuse_marker :: "upgrade_world \<Rightarrow> string \<Rightarrow> (volume, 'a) op" where
  "refuse_marker W why = obind (pre043_state W WAL_LOGS) (\<lambda>_. fail (Conflict why))"

definition guard_temp :: "transition \<Rightarrow> vpath" where
  "guard_temp r = STATE_MACHINE @ [''.rahi-guard-'' @ tr_id r]"

definition place_guard :: "upgrade_world \<Rightarrow> transition \<Rightarrow> (volume, transition) op" where
  "place_guard W r =
     obind (create_dir_all W STATE_MACHINE) (\<lambda>_.
     obind (create_file W (guard_temp r)) (\<lambda>_.
     obind (write_all W (guard_temp r) (guard_content (tr_id r))) (\<lambda>_.
     obind (hit W) (\<lambda>_.
     obind (sync_file W (guard_temp r)) (\<lambda>_.
     obind (hit W) (\<lambda>_.
     obind (hard_link W (guard_temp r) LEGACY_MARKER) (\<lambda>linked.
     if \<not> linked then refuse_marker W ''a marker appeared while the guard was being placed''
     else
       obind (file_id_at W LEGACY_MARKER) (\<lambda>i.
       obind (write_transition W (r\<lparr>tr_marker := i\<rparr>)) (\<lambda>_.
       obind (hit W) (\<lambda>_.
       obind (fsync_dir W STATE_MACHINE) (\<lambda>_.
       obind (hit W) (\<lambda>_.
       ret (r\<lparr>tr_marker := i\<rparr>)))))))))))))"

fun check_quiescent :: "upgrade_world \<Rightarrow> string list \<Rightarrow> (volume, unit) op" where
  "check_quiescent W [] = ret ()"
| "check_quiescent W (l # ls) =
     obind (lock_held W (LEGACY @ [l, ''lock.hql''])) (\<lambda>held.
     if held then fail (Conflict ''a pre-043 node is live on this volume'') else check_quiescent W ls)"

definition check_database :: "upgrade_world \<Rightarrow> (volume, unit) op" where
  "check_database W =
     obind (list_dir W (STATE_MACHINE @ [''db''])) (\<lambda>names.
     let open_files = filter (\<lambda>x. ends_with ''-wal'' x \<or> ends_with ''-shm'' x) names in
     if open_files = [] then ret ()
     else
       obind (sqlite_lock_holder W (STATE_MACHINE @ [''db'', ''hiqlite.db''])) (\<lambda>held.
       if list_ex (ends_with ''-shm'') open_files \<or> held \<noteq> None
       then fail (Conflict ''a pre-043 node has its database open, or stopped uncleanly'')
       else ret ()))"

definition install_supervisor_fence :: "upgrade_world \<Rightarrow> transition \<Rightarrow> (volume, transition) op" where
  "install_supervisor_fence W r =
     obind (inspect_supervisor_fence W) (\<lambda>f.
     if f = Sup_fence then ret r
     else if f = Sup_other then fail (Conflict ''neither the rendered environment nor the fence'')
     else
       obind
         (if f = Sup_file then
            obind (exists_at W ENV_PATH) (\<lambda>there.
            if there then ret ()
            else
              obind (read_file W LEGACY_ENV) (\<lambda>c.
              case c of
                None \<Rightarrow> fail (Io ''the rendered environment cannot be read'')
              | Some bytes \<Rightarrow>
                  obind (create_dir_all W ENV_DIR) (\<lambda>_.
                  obind (set_mode W ENV_DIR) (\<lambda>_.
                  obind (write_replacing W ENV_PATH bytes) (\<lambda>_.
                  obind (set_mode W ENV_PATH) (\<lambda>_.
                  hit W))))))
          else ret ()) (\<lambda>_.
       obind (list_dir W RAUTHY) (\<lambda>names.
       obind (each_op (\<lambda>x. if starts_with ''.rahi-fence-'' x then remove_dir_all W (RAUTHY @ [x]) else ret ()) names) (\<lambda>_.
       obind (build_supervisor_fence W) (\<lambda>built.
       obind (hit W) (\<lambda>_.
       obind (if f = Sup_file then to_evidence W r ''t1e'' LEGACY_ENV [''rauthy.env''] else ret r) (\<lambda>r'.
       obind (place_supervisor_fence W built) (\<lambda>_.
       obind (hit W) (\<lambda>_.
       ret r')))))))))"

definition t1 :: "upgrade_world \<Rightarrow> transition \<Rightarrow> (volume, transition) op" where
  "t1 W r =
     obind (hit W) (\<lambda>_.
     obind (if tr_wal_meta r = [] then obind (capture_wal_meta W) (\<lambda>ms. ret (r\<lparr>tr_wal_meta := ms\<rparr>)) else ret r) (\<lambda>r1.
     obind (read_marker W LEGACY_MARKER) (\<lambda>c.
     obind
       (case c of
          Some x \<Rightarrow> if x = guard_content (tr_id r) then ret r1 else refuse_marker W ''the existing marker is left as it is''
        | None \<Rightarrow> place_guard W r1) (\<lambda>r2.
     obind (exists_at W (guard_temp r)) (\<lambda>there.
     obind
       (if there then obind (remove_file W (guard_temp r)) (\<lambda>_. fsync_dir W STATE_MACHINE) else ret ()) (\<lambda>_.
     obind (check_quiescent W WAL_LOGS) (\<lambda>_.
     obind (check_database W) (\<lambda>_.
     obind (file_id_at W LEGACY_MARKER) (\<lambda>now_id.
     obind (read_marker W LEGACY_MARKER) (\<lambda>now_content.
     if now_content \<noteq> Some (guard_content (tr_id r)) \<or> now_id = None
       \<or> (case tr_marker r2 of None \<Rightarrow> False | Some x \<Rightarrow> Some x \<noteq> now_id)
     then fail (Conflict ''no longer the guard of this transition'')
     else
       obind (install_supervisor_fence W (r2\<lparr>tr_marker := now_id\<rparr>)) (\<lambda>r3.
       obind (unix_now W) (\<lambda>at.
       advance W (r3\<lparr>tr_instant := Some at\<rparr>) Guarded))))))))))))"

section \<open>T2: the relocation\<close>

definition move_rank :: "vpath \<Rightarrow> nat" where
  "move_rank p =
     (if p = [] then 1 else if last p = ''logs'' then 0 else if last p = ''state_machine_cache'' then 2
      else if last p = ''logs_cache'' then 3 else 1)"

definition destination_of :: "string \<Rightarrow> bool \<Rightarrow> string \<Rightarrow> vpath" where
  "destination_of i under_state_machine name =
     (if name = ''logs_cache'' \<or> name = ''state_machine_cache'' then aside_dir i @ [name]
      else if under_state_machine then APP_STORE @ [''state_machine'', name] else APP_STORE @ [name])"

definition move_entries :: "string \<Rightarrow> string list \<Rightarrow> string list \<Rightarrow> (vpath \<times> vpath) list" where
  "move_entries i inner outer =
     sort_key (\<lambda>e. (move_rank (fst e), fst e))
       (map (\<lambda>x. (STATE_MACHINE @ [x], destination_of i True x))
          (filter (\<lambda>x. x \<noteq> ''lock'' \<and> \<not> starts_with ''.rahi-guard-'' x) inner)
        @ map (\<lambda>x. (LEGACY @ [x], destination_of i False x)) (filter (\<lambda>x. x \<noteq> ''state_machine'') outer))"

fun plan_moves :: "upgrade_world \<Rightarrow> nat option \<Rightarrow> (vpath \<times> vpath) list \<Rightarrow> (volume, planned_move list) op" where
  "plan_moves W dev [] = ret []"
| "plan_moves W dev (e # es) =
     obind (symlink_at W (fst e)) (\<lambda>link.
     if link then fail (Conflict ''a symbolic link; T2 changes nothing'')
     else
       obind (file_id_at W (fst e)) (\<lambda>i.
       case i of
         None \<Rightarrow> fail (Io ''vanished while planning'')
       | Some x \<Rightarrow>
           if Some (st_dev x) \<noteq> dev then fail (Conflict ''on another device; T2 changes nothing'')
           else
             obind (plan_moves W dev es) (\<lambda>ps.
             ret (\<lparr>pm_source = fst e, pm_destination = snd e, pm_identity = x\<rparr> # ps))))"

fun refuse_links :: "upgrade_world \<Rightarrow> vpath list \<Rightarrow> (volume, unit) op" where
  "refuse_links W [] = ret ()"
| "refuse_links W (p # ps) =
     obind (symlink_at W p) (\<lambda>link. if link then fail (Conflict ''a symbolic link; T2 changes nothing'') else refuse_links W ps)"

definition device_at :: "upgrade_world \<Rightarrow> vpath \<Rightarrow> (volume, nat option) op" where
  "device_at W p = obind (file_id_at W p) (\<lambda>i. ret (map_option st_dev i))"

definition plan_t2 :: "upgrade_world \<Rightarrow> transition \<Rightarrow> (volume, transition) op" where
  "plan_t2 W r =
     obind (exists_at W APP_STORE) (\<lambda>there.
     obind (if there then list_dir W APP_STORE else ret []) (\<lambda>names.
     if names \<noteq> [] then fail (Conflict ''the app store is not empty; T2 changes nothing'')
     else
       obind (exists_at W (aside_dir (tr_id r))) (\<lambda>target.
       if target then fail (Conflict ''the aside directory exists; T2 changes nothing'')
       else
         obind (refuse_links W [LEGACY, STATE_MACHINE, [], WORK]) (\<lambda>_.
         obind (create_dir_all W WORK) (\<lambda>_.
         obind (device_at W LEGACY) (\<lambda>dev.
         obind (device_at W WORK) (\<lambda>dw.
         obind (if dw = dev then device_at W [] else ret dw) (\<lambda>dd.
         if dw \<noteq> dev \<or> dd \<noteq> dev then fail (Conflict ''not on one device; T2 changes nothing'')
         else
           obind (list_dir W STATE_MACHINE) (\<lambda>inner.
           obind (list_dir W LEGACY) (\<lambda>outer.
           obind (plan_moves W dev (move_entries (tr_id r) inner outer)) (\<lambda>plan.
           advance W (r\<lparr>tr_target := Some (aside_dir (tr_id r)), tr_plan := plan\<rparr>) Relocating)))))))))))"

definition fsync_ends :: "upgrade_world \<Rightarrow> vpath \<Rightarrow> vpath \<Rightarrow> (volume, unit) op" where
  "fsync_ends W f t = obind (fsync_dir W (butlast f)) (\<lambda>_. fsync_dir W (butlast t))"

text \<open>One planned entry, by its identity; what stands at its source once it is moved is debris.\<close>

definition move_planned :: "upgrade_world \<Rightarrow> planned_move \<Rightarrow> (volume, vpath list) op" where
  "move_planned W p =
     obind (file_id_at W (pm_source p)) (\<lambda>at_source.
     obind (file_id_at W (pm_destination p)) (\<lambda>at_dest.
     if at_dest = Some (pm_identity p) then ret (if at_source \<noteq> None then [pm_source p] else [])
     else if at_dest \<noteq> None then fail (Conflict ''an identity the plan does not name; T2 changes nothing'')
     else if at_source \<noteq> Some (pm_identity p) then fail (Conflict ''at neither its source nor its destination; T2 changes nothing'')
     else
       obind (rename_noreplace W (pm_source p) (pm_destination p)) (\<lambda>_.
       obind (fsync_ends W (pm_source p) (pm_destination p)) (\<lambda>_.
       obind (hit W) (\<lambda>_.
       ret [])))))"

fun move_plan :: "upgrade_world \<Rightarrow> planned_move list \<Rightarrow> (volume, vpath list) op" where
  "move_plan W [] = ret []"
| "move_plan W (p # ps) = obind (move_planned W p) (\<lambda>d. obind (move_plan W ps) (\<lambda>ds. ret (d @ ds)))"

definition left_behind :: "string list \<Rightarrow> string list \<Rightarrow> vpath list" where
  "left_behind outer inner =
     map (\<lambda>x. LEGACY @ [x]) (filter (\<lambda>x. x \<noteq> ''state_machine'') outer)
     @ map (\<lambda>x. STATE_MACHINE @ [x]) (filter (\<lambda>x. x \<noteq> ''lock'') inner)"

fun present_to_evidence :: "upgrade_world \<Rightarrow> string \<Rightarrow> vpath list \<Rightarrow> transition \<Rightarrow> (volume, transition) op" where
  "present_to_evidence W step [] r = ret r"
| "present_to_evidence W step (p # ps) r =
     obind (file_id_at W p) (\<lambda>i.
     if i = None then present_to_evidence W step ps r
     else
       obind (to_evidence W r step p (case beneath LEGACY p of Some x \<Rightarrow> x | None \<Rightarrow> p)) (present_to_evidence W step ps))"

definition t2 :: "upgrade_world \<Rightarrow> transition \<Rightarrow> (volume, transition) op" where
  "t2 W r =
     (case tr_target r of
        None \<Rightarrow> fail (Integrity ''the relocation intent names no target'')
      | Some target \<Rightarrow>
          obind (each_op (create_dir_all W) [APP_STORE, APP_STORE @ [''state_machine''], target]) (\<lambda>_.
          obind (set_mode W APP_STORE) (\<lambda>_.
          obind (move_plan W (tr_plan r)) (\<lambda>debris.
          obind (list_dir W LEGACY) (\<lambda>outer.
          obind (list_dir W STATE_MACHINE) (\<lambda>inner.
          obind (present_to_evidence W ''t2'' (remdups_adj (sort (debris @ left_behind outer inner))) r) (\<lambda>r'.
          advance W r' Relocated)))))))"

section \<open>T3: the floor\<close>

definition on_store :: "upgrade_world \<Rightarrow> (nat \<Rightarrow> tree \<Rightarrow> (error + unit) \<times> tree) \<Rightarrow> (volume, unit) op" where
  "on_store W f s = sys W (f (vo_calls s)) s"

definition APP_MARKER :: vpath where "APP_MARKER = APP_STORE @ [''state_machine'', ''lock'']"

definition t3 :: "upgrade_world \<Rightarrow> transition \<Rightarrow> (volume, transition) op" where
  "t3 W r =
     obind (read_marker W APP_MARKER) (\<lambda>c.
     obind
       (case c of
          None \<Rightarrow> ret r
        | Some x \<Rightarrow>
            if x \<noteq> [] then fail (Conflict ''a marker that is foreign to this store'')
            else to_evidence W r ''t3'' APP_MARKER [''state_machine'', ''lock'']) (\<lambda>r'.
     obind (restore_wal_meta W APP_STORE (tr_wal_meta r') [''logs'']) (\<lambda>restored.
     obind (if restored then hit W else ret ()) (\<lambda>_.
     case tr_instant r' of
       None \<Rightarrow> fail (Integrity ''the transition record names no instant'')
     | Some at \<Rightarrow>
         obind (on_store W (uw_open_store W)) (\<lambda>_.
         on_result (on_store W (uw_raise_floor W (tr_id r') at)) (\<lambda>raised.
         on_result (on_store W (uw_shutdown W)) (\<lambda>stopped.
         obind (lift raised) (\<lambda>_.
         obind (lift stopped) (\<lambda>_.
         obind (hit W) (\<lambda>_.
         ret r'))))))))))"

section \<open>The verb\<close>

datatype upgrade_outcome = Raised string u64 | Already phase | Nothing string | Was_aborted string

text \<open>What a phase does; \<open>Inl\<close> of the answer ends the run.\<close>

definition upgrade_phase :: "upgrade_world \<Rightarrow> transition \<Rightarrow> (volume, upgrade_outcome + transition) op" where
  "upgrade_phase W r =
     (let go = (\<lambda>m. obind m (\<lambda>r'. ret (Inr r'))) in
      case tr_phase r of
        Begin \<Rightarrow> go (t1 W r)
      | Guarded \<Rightarrow> go (advance W r Verifying)
      | Verifying \<Rightarrow> obind (verify_archive W) (\<lambda>d. go (advance W (r\<lparr>tr_digest := Some d\<rparr>) Verified))
      | Verified \<Rightarrow> go (plan_t2 W r)
      | Relocating \<Rightarrow> go (t2 W r)
      | Relocated \<Rightarrow> go (advance W r Flooring)
      | Flooring \<Rightarrow> obind (t3 W r) (\<lambda>r'. go (advance W r' Floored))
      | Aborted \<Rightarrow> fail (Conflict ''the transition was aborted while this run held it'')
      | _ \<Rightarrow> ret (Inl (Raised (tr_id r) (case tr_instant r of None \<Rightarrow> 0 | Some at \<Rightarrow> at))))"

text \<open>The loop: every phase but the last moves on, so eight rounds are enough.\<close>

fun upgrade_loop :: "nat \<Rightarrow> upgrade_world \<Rightarrow> transition \<Rightarrow> (volume, upgrade_outcome) op" where
  "upgrade_loop 0 W r = fail (Io ''out of rounds'')"
| "upgrade_loop (Suc n) W r =
     obind (upgrade_phase W r) (\<lambda>x. case x of Inl oc \<Rightarrow> ret oc | Inr r' \<Rightarrow> upgrade_loop n W r')"

definition upgrade_resume :: "upgrade_world \<Rightarrow> transition \<Rightarrow> (volume, upgrade_outcome) op" where
  "upgrade_resume W r =
     (if tr_phase r \<in> {Floored, RauthyDone, Done} then ret (Already (tr_phase r))
      else
        obind (if tr_phase r \<in> {Begin, Guarded, Verifying} then obind (verify_archive W) (\<lambda>_. ret ()) else ret ()) (\<lambda>_.
        obind (recover_evidence W r) (\<lambda>(recovered, r').
        obind (if recovered then hit W else ret ()) (\<lambda>_.
        upgrade_loop 8 W r'))))"

definition upgrade_start :: "upgrade_world \<Rightarrow> legacy \<Rightarrow> (volume, upgrade_outcome) op" where
  "upgrade_start W l =
     (case l of
        Legacy_absent \<Rightarrow> ret (Nothing ''no legacy store'')
      | Legacy_fence _ _ \<Rightarrow> ret (Nothing ''already the fence'')
      | Legacy_other _ \<Rightarrow>
          obind (verify_archive W) (\<lambda>_.
          obind (random_id W) (\<lambda>i.
          obind (write_transition W (transition_begin i)) (\<lambda>_.
          obind (hit W) (\<lambda>_.
          upgrade_resume W (transition_begin i))))))"

definition upgrade_run :: "upgrade_world \<Rightarrow> (volume, upgrade_outcome) op" where
  "upgrade_run W =
     obind (enter_gate W UpgradeCache) (\<lambda>g.
     case gt_record g of
       Some r \<Rightarrow> if tr_phase r \<noteq> Aborted then upgrade_resume W r else upgrade_start W (gt_legacy g)
     | None \<Rightarrow> upgrade_start W (gt_legacy g))"

section \<open>The way back\<close>

fun displaced :: "upgrade_world \<Rightarrow> planned_move list \<Rightarrow> (volume, vpath list) op" where
  "displaced W [] = ret []"
| "displaced W (p # ps) =
     obind (file_id_at W (pm_source p)) (\<lambda>i.
     obind (displaced W ps) (\<lambda>ds.
     ret (if i \<noteq> None \<and> i \<noteq> Some (pm_identity p) then pm_source p # ds else ds)))"

definition return_planned :: "upgrade_world \<Rightarrow> planned_move \<Rightarrow> (volume, unit) op" where
  "return_planned W p =
     obind (file_id_at W (pm_source p)) (\<lambda>at_source.
     if at_source = Some (pm_identity p) then ret ()
     else
       obind (file_id_at W (pm_destination p)) (\<lambda>at_dest.
       if at_dest \<noteq> Some (pm_identity p) then fail (Conflict ''at neither its source nor its destination; abort changes nothing more'')
       else
         obind (rename_noreplace W (pm_destination p) (pm_source p)) (\<lambda>_.
         obind (fsync_ends W (pm_source p) (pm_destination p)) (\<lambda>_.
         hit W))))"

definition return_environment :: "upgrade_world \<Rightarrow> transition \<Rightarrow> (volume, transition) op" where
  "return_environment W r =
     (case filter (\<lambda>m. em_step m = ''t1e'' \<and> em_done m) (tr_evidence r) of
        [] \<Rightarrow> ret r
      | original # _ \<Rightarrow>
          obind (inspect_supervisor_fence W) (\<lambda>f.
          obind (if f = Sup_fence then to_evidence W r ''abort'' LEGACY_ENV [''rauthy.env''] else ret r) (\<lambda>r'.
          obind (file_id_at W LEGACY_ENV) (\<lambda>i.
          if i = None then
            obind (rename_noreplace W (em_destination original) LEGACY_ENV) (\<lambda>_.
            obind (fsync_dir W RAUTHY) (\<lambda>_.
            ret r'))
          else ret r'))))"

definition remove_guard :: "upgrade_world \<Rightarrow> transition \<Rightarrow> (volume, unit) op" where
  "remove_guard W r =
     obind (read_marker W LEGACY_MARKER) (\<lambda>c.
     if c \<noteq> Some (guard_content (tr_id r)) then ret ()
     else
       obind
         (case tr_marker r of
            None \<Rightarrow> ret True
          | Some linked \<Rightarrow> on_result (file_id_at W LEGACY_MARKER) (\<lambda>i. ret (i = Inr (Some linked)))) (\<lambda>same.
       if same then obind (remove_file W LEGACY_MARKER) (\<lambda>_. fsync_dir W STATE_MACHINE) else ret ()))"

definition remove_if_empty :: "upgrade_world \<Rightarrow> vpath \<Rightarrow> (volume, unit) op" where
  "remove_if_empty W d =
     obind (dir_at W d) (\<lambda>there.
     if \<not> there then ret ()
     else
       obind (list_dir W d) (\<lambda>names.
       if names \<noteq> [] then ret ()
       else obind (remove_dir W d) (\<lambda>a. if a = Removed then ret () else fail (Io ''cannot be removed''))))"

definition abort_debris :: "upgrade_world \<Rightarrow> transition \<Rightarrow> (volume, vpath list) op" where
  "abort_debris W r =
     obind (displaced W (tr_plan r)) (\<lambda>ds.
     if phase_index (tr_phase r) < phase_index Relocating then ret ds
     else
       obind (list_dir W LEGACY) (\<lambda>outer.
       obind (list_dir W STATE_MACHINE) (\<lambda>inner.
       ret (ds @ filter (\<lambda>p. p \<notin> pm_source ` set (tr_plan r)) (left_behind outer inner)))))"

definition abort_transition :: "upgrade_world \<Rightarrow> transition \<Rightarrow> (volume, upgrade_outcome) op" where
  "abort_transition W r0 =
     obind (recover_evidence W r0) (\<lambda>(_, r1).
     obind (abort_debris W r1) (\<lambda>debris.
     obind (all_to_evidence W ''abort'' (remdups_adj (sort debris)) r1) (\<lambda>r2.
     obind (each_op (return_planned W) (rev (tr_plan r2))) (\<lambda>_.
     obind (restore_wal_meta W LEGACY (tr_wal_meta r2) WAL_LOGS) (\<lambda>restored.
     obind (if restored then hit W else ret ()) (\<lambda>_.
     obind (return_environment W r2) (\<lambda>r3.
     obind (remove_guard W r3) (\<lambda>_.
     obind (each_op (remove_if_empty W) [APP_STORE @ [''state_machine''], APP_STORE]) (\<lambda>_.
     obind (advance W r3 Aborted) (\<lambda>_.
     ret (Was_aborted (tr_id r3))))))))))))"

definition upgrade_abort :: "upgrade_world \<Rightarrow> (volume, upgrade_outcome) op" where
  "upgrade_abort W =
     obind (enter_gate W Abort) (\<lambda>g.
     case gt_record g of
       None \<Rightarrow> ret (Nothing ''no transition to abort'')
     | Some r \<Rightarrow>
         if tr_phase r = Aborted then ret (Already Aborted)
         else if tr_phase r \<in> {Flooring, Floored, RauthyDone, Done}
         then fail (Conflict ''the app store has been opened by the new hiqlite'')
         else abort_transition W r)"

end
