(* ===== verification/Ops_Facts.thy ===== *)
theory Ops_Facts
  imports Ops_Upgrade
begin

text \<open>
  What the operations on the volume promise: the relocation loses no file, whatever fails and whatever
  is done beside it; interrupted any number of times it can go on to its end or back to its beginning; the
  gate lets an entry point through only behind a fence; and the rounds of the verb are enough.
\<close>

section \<open>No file is lost\<close>

definition STORE_ROOTS :: "string set" where
  "STORE_ROOTS = {''hiqlite'', ''app-store'', ''upgrade-cache''}"

definition in_store :: "vpath \<Rightarrow> bool" where
  "in_store p \<longleftrightarrow> p \<noteq> [] \<and> hd p \<in> STORE_ROOTS"

text \<open>The files of the store, old, new or aside, each with its identity and its bytes.\<close>

definition stored :: "tree \<Rightarrow> inode set" where
  "stored T = {n. \<exists>p c. (p, n) \<in> set T \<and> in_store p \<and> nd_kind n = Regular c}"

definition others_keep :: "'w ops_world_scheme \<Rightarrow> bool" where
  "others_keep W \<longleftrightarrow> (\<forall>k T. stored T \<subseteq> stored (ow_others W k T))"

interpretation storing: guarantee "\<lambda>s t. stored (vo_tree s) \<subseteq> stored (vo_tree t)"
  by unfold_locales auto

named_theorems storing

lemma storing_sys:
  "others_keep W \<Longrightarrow> (\<And>T. stored T \<subseteq> stored (snd (f T))) \<Longrightarrow> storing.keeps (sys W f)"
proof (rule storing.keepsI)
  fix s r t assume W: "others_keep W" "\<And>T. stored T \<subseteq> stored (snd (f T))" and run: "sys W f s = (r, t)"
  let ?T = "ow_others W (vo_calls s) (vo_tree s)"
  have "stored (vo_tree s) \<subseteq> stored ?T" using W(1) by (simp add: others_keep_def)
  moreover have "stored ?T \<subseteq> stored (snd (f ?T))" by (rule W(2))
  ultimately have both: "stored (vo_tree s) \<subseteq> stored ?T" "stored (vo_tree s) \<subseteq> stored (snd (f ?T))" by blast+
  from run show "stored (vo_tree s) \<subseteq> stored (vo_tree t)"
    by (rule sys_cases) (simp_all add: both)
qed

lemma stored_Cons: "stored T \<subseteq> stored (e # T)"
  by (auto simp: stored_def)

lemma stored_moved: "in_store t \<Longrightarrow> stored T \<subseteq> stored (moved f t T)"
proof
  fix n assume t: "in_store t" and "n \<in> stored T"
  then obtain p c where p: "(p, n) \<in> set T" "in_store p" "nd_kind n = Regular c" by (auto simp: stored_def)
  let ?q = "case beneath f p of None \<Rightarrow> p | Some r \<Rightarrow> t @ r"
  from p(1) have "(?q, n) \<in> set (moved f t T)" by (force simp: moved_def image_iff)
  moreover have "in_store ?q" using t p(2) by (auto simp: in_store_def split: option.split)
  ultimately show "n \<in> stored (moved f t T)" using p(3) by (auto simp: stored_def)
qed

lemma stored_moved_outside: "\<not> in_store f \<Longrightarrow> f \<noteq> [] \<Longrightarrow> stored T \<subseteq> stored (moved f t T)"
proof
  fix n assume f: "\<not> in_store f" "f \<noteq> []" and "n \<in> stored T"
  then obtain p c where p: "(p, n) \<in> set T" "in_store p" "nd_kind n = Regular c" by (auto simp: stored_def)
  with f have "beneath f p = None" by (auto simp: beneath_None_iff in_store_def)
  with p(1) have "(p, n) \<in> set (moved f t T)" by (force simp: moved_def image_iff)
  with p show "n \<in> stored (moved f t T)" by (auto simp: stored_def)
qed

lemma set_update_other: "q \<noteq> p \<Longrightarrow> (q, n) \<in> set (AList.update p x T) \<longleftrightarrow> (q, n) \<in> set T"
proof (induction T)
  case (Cons e T)
  then show ?case by (cases e) auto
qed simp

lemma stored_update: "\<not> in_store p \<Longrightarrow> stored (AList.update p x T) = stored T"
  unfolding stored_def by (metis (mono_tags, lifting) set_update_other)

lemma stored_delete: "\<not> in_store p \<Longrightarrow> stored T \<subseteq> stored (AList.delete p T)"
  by (auto simp: stored_def AList.delete_eq)

lemma storing_pure [storing]: "storing.keeps (ret x)" "storing.keeps (fail e)" "storing.keeps (lift r)"
  by (rule storing.keeps_pure)+

lemma storing_ask [storing]: "storing.keeps (ask_machine f)"
  by (auto simp: ask_machine_def intro!: storing.keepsI)

lemma storing_reads [storing]:
  assumes "others_keep W"
  shows "storing.keeps (hit W)" "storing.keeps (sync_file W p)" "storing.keeps (fsync_dir W p)" "storing.keeps (set_mode W p)"
    "storing.keeps (inspect W p)" "storing.keeps (file_id_at W p)" "storing.keeps (read_file W p)" "storing.keeps (list_dir W p)"
  unfolding hit_def sync_file_def fsync_dir_def set_mode_def inspect_def file_id_at_def read_file_def list_dir_def
  by (rule storing_sys [OF assms]; simp)+

lemma storing_look [storing]: "others_keep W \<Longrightarrow> storing.keeps (look W f)"
  unfolding look_def by (intro storing.keeps_on_result storing_sys storing_pure) simp_all

lemma storing_exists [storing]:
  "others_keep W \<Longrightarrow> storing.keeps (exists_at W p)" "others_keep W \<Longrightarrow> storing.keeps (dir_at W p)"
  "others_keep W \<Longrightarrow> storing.keeps (symlink_at W p)"
  by (simp_all add: exists_at_def dir_at_def symlink_at_def storing_look)

lemma storing_each [storing]: "(\<And>x. x \<in> set xs \<Longrightarrow> storing.keeps (f x)) \<Longrightarrow> storing.keeps (each_op f xs)"
  by (induction xs) (auto intro: storing storing.keeps_bind)

lemma storing_dirs [storing]:
  assumes "others_keep W"
  shows "storing.keeps (create_dir W p)" "storing.keeps (create_dir_all W p)"
proof -
  have "storing.keeps (ensure_dir W q)" for q
    unfolding ensure_dir_def by (rule storing_sys [OF assms]) (auto dest: subsetD [OF stored_Cons])
  then show "storing.keeps (create_dir_all W p)" unfolding create_dir_all_def by (rule storing_each)
  show "storing.keeps (create_dir W p)"
    unfolding create_dir_def by (rule storing_sys [OF assms]) (auto dest: subsetD [OF stored_Cons])
qed

lemma storing_rename [storing]: "others_keep W \<Longrightarrow> in_store t \<Longrightarrow> storing.keeps (rename_noreplace W f t)"
  unfolding rename_noreplace_def by (rule storing_sys) (auto dest: subsetD [OF stored_moved])

lemma storing_write:
  assumes "others_keep W" "\<not> in_store p" "\<not> in_store (temp_of W p)"
  shows "storing.keeps (write_replacing W p c)"
proof -
  have ne: "temp_of W p \<noteq> []" by (simp add: temp_of_def)
  have "storing.keeps (create_file W (temp_of W p))"
    unfolding create_file_def
    by (rule storing_sys [OF assms(1)])
      (auto simp: stored_update assms(3) dest: subsetD [OF stored_Cons] split: option.split file_kind.split)
  moreover have "storing.keeps (write_all W (temp_of W p) c)"
    unfolding write_all_def
    by (rule storing_sys [OF assms(1)]) (auto simp: stored_update assms(3) split: option.split file_kind.split)
  moreover have "storing.keeps (rename_over W (temp_of W p) p)"
    unfolding rename_over_def
    by (rule storing_sys [OF assms(1)])
      (auto dest: subsetD [OF stored_delete [OF assms(2)]] subsetD [OF stored_moved_outside [OF assms(3) ne]])
  ultimately show ?thesis
    unfolding write_replacing_def by (intro storing.keeps_bind storing_reads assms(1))
qed

lemma storing_record [storing]:
  assumes "others_keep W"
  shows "storing.keeps (write_transition W r)" "storing.keeps (advance W r to)"
proof -
  show written: "storing.keeps (write_transition W r)" for r
    unfolding write_transition_def
    by (rule storing_write [OF assms]) (simp_all add: in_store_def STORE_ROOTS_def STATE_PATH_def temp_of_def)
  show "storing.keeps (advance W r to)"
    unfolding advance_def by (intro storing.keeps_bind written storing assms)
qed

lemma storing_finish_move [storing]:
  "others_keep W \<Longrightarrow> in_store (em_destination m) \<Longrightarrow> storing.keeps (finish_move W m)"
  unfolding finish_move_def by (auto intro!: storing.keeps_bind storing)

lemma storing_finish_moves [storing]:
  "others_keep W \<Longrightarrow> (\<And>m. m \<in> set ms \<Longrightarrow> in_store (em_destination m)) \<Longrightarrow> storing.keeps (finish_moves W ms)"
  by (induction ms) (auto intro!: storing.keeps_bind storing)

text \<open>Every evidence name of a record is one: it is beneath the working directory.\<close>

definition evidence_named :: "transition \<Rightarrow> bool" where
  "evidence_named r \<longleftrightarrow> (\<forall>m \<in> set (tr_evidence r). in_store (em_destination m))"

definition plan_named :: "transition \<Rightarrow> bool" where
  "plan_named r \<longleftrightarrow> (\<forall>p \<in> set (tr_plan r). in_store (pm_destination p)) \<and> (\<forall>t. tr_target r = Some t \<longrightarrow> in_store t)"

text \<open>What holds of every answer of an operation.\<close>

definition answers :: "('a \<Rightarrow> bool) \<Rightarrow> ('s, 'a) op \<Rightarrow> bool" where
  "answers P m \<longleftrightarrow> (\<forall>s x t. m s = (Inr x, t) \<longrightarrow> P x)"

lemma answers_ret: "P x \<Longrightarrow> answers P (ret x)"
  by (simp add: answers_def)

lemma answers_fail: "answers P (fail e)"
  by (simp add: answers_def)

lemma answers_bind: "answers Q m \<Longrightarrow> (\<And>x. Q x \<Longrightarrow> answers P (f x)) \<Longrightarrow> answers P (obind m f)"
  unfolding answers_def obind_Inr_iff by blast

lemma answers_bind': "(\<And>x. answers P (f x)) \<Longrightarrow> answers P (obind m f)"
  unfolding answers_def obind_Inr_iff by blast

lemma answers_if: "answers P m \<Longrightarrow> answers P n \<Longrightarrow> answers P (if b then m else n)"
  by simp

lemma storing_bind: "storing.keeps m \<Longrightarrow> answers Q m \<Longrightarrow> (\<And>x. Q x \<Longrightarrow> storing.keeps (f x)) \<Longrightarrow> storing.keeps (obind m f)"
proof (rule storing.keepsI)
  fix s r t assume m: "storing.keeps m" "answers Q m" "\<And>x. Q x \<Longrightarrow> storing.keeps (f x)" and run: "obind m f s = (r, t)"
  obtain x u where mu: "m s = (x, u)" by fastforce
  have su: "stored (vo_tree s) \<subseteq> stored (vo_tree u)" using storing.keepsD [OF m(1) mu] .
  show "stored (vo_tree s) \<subseteq> stored (vo_tree t)"
  proof (cases x)
    case (Inl e)
    with mu run su show ?thesis by simp
  next
    case (Inr y)
    with mu m(2) have "Q y" by (auto simp: answers_def)
    from storing.keepsD [OF m(3) [OF this]] run mu Inr su show ?thesis by fastforce
  qed
qed

text \<open>Every name a record holds for evidence or for a move is beneath the new places.\<close>

definition transition_named :: "transition \<Rightarrow> bool" where
  "transition_named r \<longleftrightarrow> (\<forall>m \<in> set (tr_evidence r). in_store (em_destination m)) \<and>
    (\<forall>p \<in> set (tr_plan r). in_store (pm_destination p)) \<and> (\<forall>t. tr_target r = Some t \<longrightarrow> in_store t)"

lemma in_store_names: "in_store (evidence_dir i @ x)" "in_store (aside_dir i)" "in_store (destination_of i b n)"
  by (simp_all add: in_store_def STORE_ROOTS_def evidence_dir_def aside_dir_def WORK_def destination_of_def APP_STORE_def)

lemma answers_advance: "answers (\<lambda>r'. r' = r\<lparr>tr_phase := to\<rparr>) (advance W r to)"
  unfolding advance_def by (intro answers_bind' answers_ret) simp

lemma answers_advance_named: "transition_named r \<Longrightarrow> answers transition_named (advance W r to)"
  unfolding advance_def by (intro answers_bind' answers_ret) (simp add: transition_named_def)

lemma answers_finish_move: "answers (\<lambda>m'. em_destination m' = em_destination m) (finish_move W m)"
  unfolding finish_move_def by (auto intro!: answers_bind' answers_ret answers_fail)

lemma answers_finish_moves:
  "answers (\<lambda>ms'. map em_destination ms' = map em_destination ms) (finish_moves W ms)"
proof (induction ms)
  case (Cons m ms)
  have "answers (\<lambda>m'. em_destination m' = em_destination m) (if em_done m then ret m else finish_move W m)"
    using answers_finish_move by (auto intro: answers_ret)
  then show ?case
    unfolding finish_moves.simps
    by (rule answers_bind) (rule answers_bind [OF Cons], rule answers_ret, simp)
qed (simp add: answers_def)

lemma answers_finish_evidence:
  "transition_named r \<Longrightarrow> answers (\<lambda>r'. transition_named r' \<and> tr_plan r' = tr_plan r) (finish_evidence W r)"
  unfolding finish_evidence_def
proof (rule answers_bind [OF answers_finish_moves], rule answers_ret)
  fix ms :: "evidence_move list" assume r: "transition_named r" and ms: "map em_destination ms = map em_destination (tr_evidence r)"
  have "em_destination ` set ms = em_destination ` set (tr_evidence r)"
    using ms by (metis list.set_map)
  with r show "transition_named (r\<lparr>tr_evidence := ms\<rparr>) \<and> tr_plan (r\<lparr>tr_evidence := ms\<rparr>) = tr_plan r"
    by (auto simp: transition_named_def) (metis imageE imageI)
qed

lemma to_evidence_named:
  "transition_named r \<Longrightarrow> transition_named (r\<lparr>tr_seq := n, tr_evidence := tr_evidence r @
    [\<lparr>em_seq = n, em_step = st, em_source = p, em_destination = evidence_dir (tr_id r) @ x, em_identity = i, em_done = False\<rparr>]\<rparr>)"
  by (auto simp: transition_named_def in_store_names)

lemma answers_to_evidence:
  assumes "transition_named r"
  shows "answers (\<lambda>r'. transition_named r' \<and> tr_plan r' = tr_plan r) (to_evidence W r st p rel)"
proof -
  have "answers (\<lambda>r'. transition_named r' \<and> tr_plan r' = tr_plan r)
      (obind (finish_evidence W r1) (\<lambda>r2. obind (write_transition W r2) (\<lambda>_. obind (hit W) (\<lambda>_. ret r2))))"
    if "transition_named r1" "tr_plan r1 = tr_plan r" for r1
    by (rule answers_bind [OF answers_finish_evidence [OF that(1)]]) (use that(2) in \<open>auto intro!: answers_bind' answers_ret\<close>)
  note rest = this [OF to_evidence_named [OF assms]]
  show ?thesis
    unfolding to_evidence_def Let_def
  proof (rule answers_bind')
    fix i :: "file_id option"
    show "answers (\<lambda>r'. transition_named r' \<and> tr_plan r' = tr_plan r)
      (case i of None \<Rightarrow> fail (Io ''vanished before its move to evidence'')
       | Some identity \<Rightarrow>
           obind (write_transition W (r\<lparr>tr_seq := Suc (tr_seq r), tr_evidence := tr_evidence r @
               [\<lparr>em_seq = Suc (tr_seq r), em_step = st, em_source = p,
                 em_destination = evidence_dir (tr_id r) @ [six_digits (Suc (tr_seq r)) @ ''-'' @ st] @ rel,
                 em_identity = identity, em_done = False\<rparr>]\<rparr>)) (\<lambda>_.
           obind (hit W) (\<lambda>_.
           obind (finish_evidence W (r\<lparr>tr_seq := Suc (tr_seq r), tr_evidence := tr_evidence r @
               [\<lparr>em_seq = Suc (tr_seq r), em_step = st, em_source = p,
                 em_destination = evidence_dir (tr_id r) @ [six_digits (Suc (tr_seq r)) @ ''-'' @ st] @ rel,
                 em_identity = identity, em_done = False\<rparr>]\<rparr>)) (\<lambda>r2.
           obind (write_transition W r2) (\<lambda>_.
           obind (hit W) (\<lambda>_.
           ret r2))))))"
      by (cases i) (simp_all only: option.case, rule answers_fail, intro rest answers_bind', simp)
  qed
qed

lemma storing_finish_evidence:
  "others_keep W \<Longrightarrow> transition_named r \<Longrightarrow> storing.keeps (finish_evidence W r)"
  unfolding finish_evidence_def
  by (intro storing.keeps_bind storing_pure storing_finish_moves) (auto simp: transition_named_def)

lemma storing_to_evidence:
  assumes "others_keep W" "transition_named r"
  shows "storing.keeps (to_evidence W r st p rel)"
  unfolding to_evidence_def Let_def
  by (rule storing.keeps_bind) (auto split: option.split
    intro!: storing.keeps_bind storing_pure storing_reads storing_record storing_finish_evidence to_evidence_named assms)

lemma storing_present:
  "others_keep W \<Longrightarrow> transition_named r \<Longrightarrow> storing.keeps (present_to_evidence W st ps r)"
proof (induction ps arbitrary: r)
  case (Cons p ps)
  have "storing.keeps (obind (to_evidence W r st p x) (present_to_evidence W st ps))" for x
    by (rule storing_bind [OF storing_to_evidence [OF Cons.prems] answers_to_evidence [OF Cons.prems(2)]])
      (use Cons in blast)
  then show ?case
    using Cons by (auto intro!: storing.keeps_bind storing_reads)
qed (simp add: storing_pure)

lemma answers_present:
  "transition_named r \<Longrightarrow> answers transition_named (present_to_evidence W st ps r)"
proof (induction ps arbitrary: r)
  case (Cons p ps)
  have "answers transition_named (obind (to_evidence W r st p x) (present_to_evidence W st ps))" for x
    by (rule answers_bind [OF answers_to_evidence [OF Cons.prems]]) (use Cons.IH in blast)
  then show ?case
    using Cons by (auto intro!: answers_bind')
qed (simp add: answers_def)

lemma storing_move_plan:
  "others_keep W \<Longrightarrow> (\<And>p. p \<in> set ps \<Longrightarrow> in_store (pm_destination p)) \<Longrightarrow> storing.keeps (move_plan W ps)"
proof (induction ps)
  case (Cons p ps)
  have "storing.keeps (move_planned W p)"
    unfolding move_planned_def fsync_ends_def
    using Cons.prems by (auto intro!: storing.keeps_bind storing_pure storing_reads storing_rename)
  with Cons show ?case by (auto intro!: storing.keeps_bind storing_pure)
qed (simp add: storing_pure)

lemma storing_t2:
  assumes "others_keep W" "transition_named r"
  shows "storing.keeps (t2 W r)"
proof (cases "tr_target r")
  case None
  then show ?thesis by (simp add: t2_def storing_pure)
next
  case (Some target)
  have plan: "in_store (pm_destination p)" if "p \<in> set (tr_plan r)" for p using assms(2) that by (simp add: transition_named_def)
  show ?thesis
    unfolding t2_def Some option.case
    by (intro storing.keeps_bind storing_reads storing_each storing_dirs storing_move_plan
        storing_bind [OF storing_present [OF assms] answers_present [OF assms(2)]] storing_record plan assms(1))
qed

lemma answers_t2:
  assumes "transition_named r"
  shows "answers transition_named (t2 W r)"
proof (cases "tr_target r")
  case (Some target)
  have last: "answers transition_named (obind (present_to_evidence W st ps r) (\<lambda>r'. advance W r' Relocated))" for st ps
    by (rule answers_bind [OF answers_present [OF assms] answers_advance_named])
  show ?thesis
    unfolding t2_def Some option.case by (intro last answers_bind')
qed (simp add: t2_def answers_fail)

lemma answers_plan_moves:
  "answers (\<lambda>ps. pm_destination ` set ps \<subseteq> snd ` set es) (plan_moves W dev es)"
proof (induction es)
  case (Cons e es)
  have "answers (\<lambda>ps. pm_destination ` set ps \<subseteq> snd ` set (e # es))
      (obind (plan_moves W dev es) (\<lambda>ps. ret (\<lparr>pm_source = fst e, pm_destination = snd e, pm_identity = x\<rparr> # ps)))" for x
    by (rule answers_bind [OF Cons], rule answers_ret) auto
  then show ?case by (auto split: option.split intro!: answers_bind' answers_fail)
qed (simp add: answers_def)

lemma move_entries_in_store: "snd ` set (move_entries i inner outer) \<subseteq> Collect in_store"
  by (auto simp: move_entries_def in_store_names)

lemma storing_plan_moves: "others_keep W \<Longrightarrow> storing.keeps (plan_moves W dev es)"
  by (induction es) (auto split: option.split intro!: storing.keeps_bind storing_pure storing_exists storing_reads)

lemma storing_links: "others_keep W \<Longrightarrow> storing.keeps (refuse_links W ps)"
  by (induction ps) (auto intro!: storing.keeps_bind storing_pure storing_exists)

lemma storing_plan_t2: "others_keep W \<Longrightarrow> storing.keeps (plan_t2 W r)"
  unfolding plan_t2_def device_at_def
  by (auto simp del: refuse_links.simps
    intro!: storing.keeps_bind storing_pure storing_exists storing_reads storing_links storing_dirs storing_plan_moves storing_record)

lemma answers_plan_t2:
  assumes "transition_named r"
  shows "answers transition_named (plan_t2 W r)"
proof -
  have last: "answers transition_named (obind (plan_moves W dev (move_entries (tr_id r) inner outer))
      (\<lambda>plan. advance W (r\<lparr>tr_target := Some (aside_dir (tr_id r)), tr_plan := plan\<rparr>) Relocating))" for dev inner outer
  proof (rule answers_bind [OF answers_plan_moves])
    fix plan :: "planned_move list" assume "pm_destination ` set plan \<subseteq> snd ` set (move_entries (tr_id r) inner outer)"
    then have "\<forall>p \<in> set plan. in_store (pm_destination p)"
      using move_entries_in_store [of "tr_id r" inner outer] by blast
    then show "answers transition_named (advance W (r\<lparr>tr_target := Some (aside_dir (tr_id r)), tr_plan := plan\<rparr>) Relocating)"
      using assms by (intro answers_advance_named) (simp add: transition_named_def in_store_names)
  qed
  show ?thesis
    unfolding plan_t2_def by (intro last answers_bind' answers_if answers_fail)
qed

text \<open>From the guard to the floor, no phase loses a file and every phase leaves the names where they belong.\<close>

definition relocates :: "phase \<Rightarrow> bool" where
  "relocates p \<longleftrightarrow> p \<in> {Guarded, Verifying, Verified, Relocating, Relocated}"

lemma storing_phase:
  assumes "others_keep W" "transition_named r" "relocates (tr_phase r)"
  shows "storing.keeps (upgrade_phase W r)"
  using assms(3) unfolding upgrade_phase_def relocates_def Let_def
  by (auto intro!: storing.keeps_bind storing_pure storing_record storing_t2 storing_plan_t2 assms(1,2)
      simp: verify_archive_def storing_ask)

lemma storing_recover:
  "others_keep W \<Longrightarrow> transition_named r \<Longrightarrow> storing.keeps (recover_evidence W r)"
  unfolding recover_evidence_def by (auto intro!: storing.keeps_bind storing_pure storing_record storing_finish_evidence)

text \<open>
  A transition that is interrupted goes on from a record: what a phase answered, or, after a crash, what
  it left written. Here any record whose names belong may be the next.
\<close>

inductive relocation_steps :: "volume \<Rightarrow> volume \<Rightarrow> bool" where
  start: "relocation_steps s s"
| phase: "relocation_steps s t \<Longrightarrow> others_keep W \<Longrightarrow> transition_named r \<Longrightarrow> relocates (tr_phase r) \<Longrightarrow>
    upgrade_phase W r t = (x, u) \<Longrightarrow> relocation_steps s u"
| recover: "relocation_steps s t \<Longrightarrow> others_keep W \<Longrightarrow> transition_named r \<Longrightarrow> recover_evidence W r t = (y, u) \<Longrightarrow>
    relocation_steps s u"

lemma relocation_keeps: "relocation_steps s t \<Longrightarrow> stored (vo_tree s) \<subseteq> stored (vo_tree t)"
proof (induction rule: relocation_steps.induct)
  case (phase s t W r x u)
  from storing.keepsD [OF storing_phase [OF phase(2-4)] phase(5)] phase(6) show ?case by blast
next
  case (recover s t W r y u)
  from storing.keepsD [OF storing_recover [OF recover(2,3)] recover(4)] recover(5) show ?case by blast
qed simp

section \<open>On to the end, or back to the beginning\<close>

text \<open>
  The places of a plan: every entry stands at its source or at its destination, under its identity, with
  both parents there and on its device; and no place of the plan lies beneath another.
\<close>

definition places :: "planned_move list \<Rightarrow> vpath list" where
  "places plan = map pm_source plan @ map pm_destination plan"

definition apart :: "vpath list \<Rightarrow> bool" where
  "apart ps \<longleftrightarrow> [] \<notin> set ps \<and> distinct ps \<and> (\<forall>a \<in> set ps. \<forall>b \<in> set ps. a \<noteq> b \<longrightarrow> beneath a b = None)"

definition placed :: "tree \<Rightarrow> planned_move \<Rightarrow> bool" where
  "placed T p \<longleftrightarrow>
    id_at T (pm_source p) = Some (pm_identity p) \<and> id_at T (pm_destination p) = None \<or>
    id_at T (pm_source p) = None \<and> id_at T (pm_destination p) = Some (pm_identity p)"

definition roomy :: "tree \<Rightarrow> planned_move \<Rightarrow> bool" where
  "roomy T p \<longleftrightarrow> (\<forall>q \<in> {pm_source p, pm_destination p}.
    is_dir_at T (butlast q) \<and> dev_at T (butlast q) = Some (st_dev (pm_identity p)))"

definition fits :: "planned_move list \<Rightarrow> tree \<Rightarrow> bool" where
  "fits plan T \<longleftrightarrow> apart (places plan) \<and> (\<forall>p \<in> set plan. placed T p \<and> roomy T p)"

definition alone :: "'w ops_world_scheme \<Rightarrow> bool" where
  "alone W \<longleftrightarrow> (\<forall>k T. ow_others W k T = T)"

definition quiet :: "'w ops_world_scheme \<Rightarrow> bool" where
  "quiet W \<longleftrightarrow> alone W \<and> (\<forall>k. ow_fault W k = Works)"

lemma id_at_None: "id_at T q = None \<longleftrightarrow> map_of T q = None"
  by (simp add: id_at_def)

lemma butlast_apart:
  assumes "apart ps" "a \<in> set ps" "b \<in> set ps"
  shows "beneath a (butlast b) = None"
proof (rule ccontr)
  assume "beneath a (butlast b) \<noteq> None"
  then obtain r where r: "butlast b = a @ r" by (auto simp: beneath_Some_iff)
  have "b \<noteq> []" using assms by (auto simp: apart_def)
  then have b: "b = a @ (r @ [last b])" using r by (metis append_assoc append_butlast_last_id)
  then have "a \<noteq> b" by (metis append_is_Nil_conv not_Cons_self2 self_append_conv)
  with assms have "beneath a b = None" unfolding apart_def by blast
  with b show False by (metis beneath_append option.distinct(1))
qed

text \<open>A move between the two places of an entry keeps the plan in its places.\<close>

lemma placesI: "p \<in> set plan \<Longrightarrow> pm_source p \<in> set (places plan) \<and> pm_destination p \<in> set (places plan)"
  by (auto simp: places_def)

lemma apart_ends:
  assumes "apart (places plan)" "p \<in> set plan"
  shows "pm_source p \<noteq> pm_destination p"
proof -
  from assms(1) have "set (map pm_source plan) \<inter> set (map pm_destination plan) = {}"
    by (simp add: apart_def places_def)
  with assms(2) show ?thesis by auto
qed

lemma apart_other:
  assumes "apart (places plan)" "p \<in> set plan" "q \<in> set plan" "p \<noteq> q"
  shows "pm_source p \<noteq> pm_source q \<and> pm_source p \<noteq> pm_destination q \<and> pm_destination p \<noteq> pm_destination q"
proof -
  from assms(1) have "distinct (map pm_source plan)" "distinct (map pm_destination plan)"
    "set (map pm_source plan) \<inter> set (map pm_destination plan) = {}" by (simp_all add: apart_def places_def)
  with assms(2-4) show ?thesis by (auto simp: distinct_map inj_on_def)
qed

lemma fits_moved:
  assumes fits: "fits plan T" and p: "p \<in> set plan"
    and ends: "f = pm_source p \<and> t = pm_destination p \<or> f = pm_destination p \<and> t = pm_source p"
    and there: "map_of T f \<noteq> None" "map_of T t = None"
  shows "fits plan (moved f t T) \<and> id_at (moved f t T) t = Some (pm_identity p) \<and>
    (\<forall>q \<in> set plan. q \<noteq> p \<longrightarrow> id_at (moved f t T) (pm_source q) = id_at T (pm_source q) \<and>
      id_at (moved f t T) (pm_destination q) = id_at T (pm_destination q))"
proof -
  have ap: "apart (places plan)" using fits by (simp add: fits_def)
  have ft: "f \<in> set (places plan)" "t \<in> set (places plan)" "f \<noteq> t"
    using ends placesI [OF p] apart_ends [OF ap p] by auto
  have same: "map_of (moved f t T) q = map_of T q" if "beneath f q = None" "beneath t q = None" for q
    using that by (rule map_of_moved_other [rotated])
  have other: "map_of (moved f t T) q = map_of T q" if "q \<in> set (places plan)" "q \<noteq> f" "q \<noteq> t" for q
    using same ap ft that by (auto simp: apart_def)
  have parent: "map_of (moved f t T) (butlast q) = map_of T (butlast q)" if "q \<in> set (places plan)" for q
    using same butlast_apart [OF ap] ft that by blast
  have tf: "beneath t f = None" using ap ft by (auto simp: apart_def)
  have at_t: "map_of (moved f t T) t = map_of T f" by (rule map_of_moved_end [OF there(2)])
  have at_f: "map_of (moved f t T) f = None" by (rule map_of_moved_gone [OF tf]) simp
  have id: "id_at T f = Some (pm_identity p)"
    using fits p ends there by (auto simp: fits_def placed_def id_at_def)
  have rest: "id_at (moved f t T) (pm_source q) = id_at T (pm_source q) \<and>
      id_at (moved f t T) (pm_destination q) = id_at T (pm_destination q)" if "q \<in> set plan" "q \<noteq> p" for q
    using other placesI [OF that(1)] apart_other [OF ap that(1) p that(2)] apart_other [OF ap p that(1)] that(2) ends
    unfolding id_at_def by metis
  have "placed (moved f t T) q" if "q \<in> set plan" for q
  proof (cases "q = p")
    case True
    then show ?thesis using at_t at_f id ends by (auto simp: placed_def id_at_def)
  next
    case False
    with rest [OF that] fits that show ?thesis by (simp add: placed_def fits_def)
  qed
  moreover have "roomy (moved f t T) q" if "q \<in> set plan" for q
    using fits that parent placesI [OF that] by (auto simp: fits_def roomy_def is_dir_at_def dev_at_def id_at_def)
  ultimately show ?thesis using ap at_t id rest by (auto simp: fits_def id_at_def)
qed

interpretation fitting: guarantee "\<lambda>s t. fits plan (vo_tree s) \<longrightarrow> fits plan (vo_tree t)" for plan
  by unfold_locales auto

lemma fitting_sys:
  assumes "alone W" "\<And>T. fits plan T \<Longrightarrow> fits plan (snd (f T))"
  shows "fitting.keeps plan (sys W f)"
proof (rule fitting.keepsI)
  fix s r t assume "sys W f s = (r, t)"
  then show "fits plan (vo_tree s) \<longrightarrow> fits plan (vo_tree t)"
    using assms by (cases rule: sys_cases) (simp_all add: alone_def)
qed

lemma fitting_reads:
  assumes "alone W"
  shows "fitting.keeps plan (hit W)" "fitting.keeps plan (fsync_dir W q)" "fitting.keeps plan (file_id_at W q)"
  unfolding hit_def fsync_dir_def file_id_at_def by (rule fitting_sys [OF assms]; simp)+

lemma fitting_rename:
  assumes "alone W" "p \<in> set plan"
  shows "fitting.keeps plan (rename_noreplace W (pm_source p) (pm_destination p))"
    "fitting.keeps plan (rename_noreplace W (pm_destination p) (pm_source p))"
  unfolding rename_noreplace_def using fits_moved [OF _ assms(2)] by (auto intro!: fitting_sys [OF assms(1)])

lemma fitting_move_plan: "alone W \<Longrightarrow> set ps \<subseteq> set plan \<Longrightarrow> fitting.keeps plan (move_plan W ps)"
proof (induction ps)
  case (Cons p ps)
  then have "fitting.keeps plan (move_planned W p)"
    unfolding move_planned_def fsync_ends_def
    by (auto intro!: fitting.keeps_bind fitting.keeps_pure fitting_reads fitting_rename)
  with Cons show ?case by (auto intro!: fitting.keeps_bind fitting.keeps_pure)
qed (simp add: fitting.keeps_pure)

lemma fitting_return: "alone W \<Longrightarrow> set ps \<subseteq> set plan \<Longrightarrow> fitting.keeps plan (each_op (return_planned W) ps)"
proof (induction ps)
  case (Cons p ps)
  then have "fitting.keeps plan (return_planned W p)"
    unfolding return_planned_def fsync_ends_def
    by (auto intro!: fitting.keeps_bind fitting.keeps_pure fitting_reads fitting_rename)
  with Cons show ?case by (auto intro!: fitting.keeps_bind fitting.keeps_pure)
qed (simp add: fitting.keeps_pure)

text \<open>Any number of attempts to go on or to go back, each interrupted wherever a call failed.\<close>

inductive attempts :: "planned_move list \<Rightarrow> volume \<Rightarrow> volume \<Rightarrow> bool" for plan where
  start: "attempts plan s s"
| onward: "attempts plan s t \<Longrightarrow> alone (W :: upgrade_world) \<Longrightarrow> move_plan W plan t = (x, u) \<Longrightarrow> attempts plan s u"
| homeward: "attempts plan s t \<Longrightarrow> alone (W :: upgrade_world) \<Longrightarrow> each_op (return_planned W) (rev plan) t = (y, u) \<Longrightarrow> attempts plan s u"

lemma attempts_fit: "attempts plan s t \<Longrightarrow> fits plan (vo_tree s) \<Longrightarrow> fits plan (vo_tree t)"
proof (induction rule: attempts.induct)
  case (onward s t W x u)
  then show ?case using fitting.keepsD [OF fitting_move_plan [OF onward(2) subset_refl] onward(3)] by blast
next
  case (homeward s t W y u)
  then show ?case using fitting.keepsD [OF fitting_return [OF homeward(2), of "rev plan" plan] homeward(3)] by simp
qed

definition later :: "volume \<Rightarrow> tree \<Rightarrow> volume" where
  "later s T = \<lparr>vo_tree = T, vo_calls = Suc (vo_calls s)\<rparr>"

lemma vo_tree_later [simp]: "vo_tree (later s T) = T"
  by (simp add: later_def)

lemma quiet_sys: "quiet W \<Longrightarrow> sys W f s = (fst (f (vo_tree s)), later s (snd (f (vo_tree s))))"
  by (simp add: quiet_def alone_def sys_works later_def)

lemma quiet_reads:
  assumes "quiet W"
  shows "hit W s = (Inr (), later s (vo_tree s))" "map_of (vo_tree s) p \<noteq> None \<Longrightarrow> fsync_dir W p s = (Inr (), later s (vo_tree s))"
    "file_id_at W p s = (Inr (id_at (vo_tree s) p), later s (vo_tree s))"
  by (simp_all add: hit_def fsync_dir_def file_id_at_def quiet_sys [OF assms])

text \<open>The parents of both ends of an entry are there, so they sync.\<close>

lemma quiet_ends:
  assumes "quiet W" "fits plan (vo_tree s)" "p \<in> set plan"
  shows "fsync_dir W (butlast (pm_source p)) s = (Inr (), later s (vo_tree s))"
    "fsync_dir W (butlast (pm_destination p)) s = (Inr (), later s (vo_tree s))"
proof -
  have "map_of (vo_tree s) (butlast q) \<noteq> None" if "q \<in> {pm_source p, pm_destination p}" for q
    using assms(2,3) that by (auto simp: fits_def roomy_def is_dir_at_def split: option.splits)
  then show "fsync_dir W (butlast (pm_source p)) s = (Inr (), later s (vo_tree s))"
    "fsync_dir W (butlast (pm_destination p)) s = (Inr (), later s (vo_tree s))"
    using quiet_reads(2) [OF assms(1)] by auto
qed

lemma quiet_rename:
  assumes "quiet W" "fits plan (vo_tree s)" "p \<in> set plan"
    and ends: "f = pm_source p \<and> t = pm_destination p \<or> f = pm_destination p \<and> t = pm_source p"
    and there: "id_at (vo_tree s) f = Some (pm_identity p)" "id_at (vo_tree s) t = None"
  shows "rename_noreplace W f t s = (Inr (), later s (moved f t (vo_tree s)))"
proof -
  have ap: "apart (places plan)" using assms(2) by (simp add: fits_def)
  note pl = placesI [OF assms(3)]
  have "t \<noteq> []" "beneath f t = None"
    using ap pl apart_ends [OF ap assms(3)] ends by (auto simp: apart_def)
  moreover have "is_dir_at (vo_tree s) (butlast t)" "dev_at (vo_tree s) (butlast t) = Some (st_dev (pm_identity p))"
    using assms(2,3) ends by (auto simp: fits_def roomy_def)
  moreover have "map_of (vo_tree s) f \<noteq> None" "map_of (vo_tree s) t = None" "dev_at (vo_tree s) f = Some (st_dev (pm_identity p))"
    using there by (auto simp: id_at_def dev_at_def)
  ultimately show ?thesis
    by (simp add: rename_noreplace_def quiet_sys [OF assms(1)] can_hold_def)
qed

definition arrived :: "tree \<Rightarrow> planned_move \<Rightarrow> bool" where
  "arrived T p \<longleftrightarrow> id_at T (pm_destination p) = Some (pm_identity p) \<and> id_at T (pm_source p) = None"

definition returned :: "tree \<Rightarrow> planned_move \<Rightarrow> bool" where
  "returned T p \<longleftrightarrow> id_at T (pm_source p) = Some (pm_identity p) \<and> id_at T (pm_destination p) = None"

lemma placed_cases: "placed T p \<longleftrightarrow> returned T p \<or> arrived T p"
  by (auto simp: placed_def returned_def arrived_def)

lemma move_planned_quiet:
  assumes "quiet W" "fits plan (vo_tree s)" "p \<in> set plan"
  shows "\<exists>u. move_planned W p s = (Inr [], u) \<and> fits plan (vo_tree u) \<and> arrived (vo_tree u) p \<and>
    (\<forall>q \<in> set plan. arrived (vo_tree s) q \<longrightarrow> arrived (vo_tree u) q)"
proof (cases "arrived (vo_tree s) p")
  case True
  then show ?thesis
    using assms by (simp add: move_planned_def quiet_reads(3) arrived_def)
next
  case False
  with assms have r: "returned (vo_tree s) p" by (auto simp: fits_def placed_cases)
  let ?T = "moved (pm_source p) (pm_destination p) (vo_tree s)"
  have m: "fits plan ?T" "id_at ?T (pm_destination p) = Some (pm_identity p)"
    "\<forall>q \<in> set plan. q \<noteq> p \<longrightarrow> id_at ?T (pm_source q) = id_at (vo_tree s) (pm_source q) \<and>
      id_at ?T (pm_destination q) = id_at (vo_tree s) (pm_destination q)"
    using fits_moved [OF assms(2,3), of "pm_source p" "pm_destination p"] r by (auto simp: returned_def id_at_def)
  then have a: "arrived ?T p" using assms(3) by (auto simp: fits_def placed_def arrived_def)
  have run: "rename_noreplace W (pm_source p) (pm_destination p) (later (later s (vo_tree s)) (vo_tree s)) =
      (Inr (), later (later (later s (vo_tree s)) (vo_tree s)) ?T)"
    using quiet_rename [OF assms(1) _ assms(3), of "later (later s (vo_tree s)) (vo_tree s)"] assms(2) r
    by (auto simp: returned_def)
  show ?thesis
    using r m a False
    by (auto simp: move_planned_def fsync_ends_def quiet_reads(1,3) [OF assms(1)] quiet_ends [OF assms(1) _ assms(3)] run
        returned_def arrived_def)
qed

lemma return_planned_quiet:
  assumes "quiet W" "fits plan (vo_tree s)" "p \<in> set plan"
  shows "\<exists>u. return_planned W p s = (Inr (), u) \<and> fits plan (vo_tree u) \<and> returned (vo_tree u) p \<and>
    (\<forall>q \<in> set plan. returned (vo_tree s) q \<longrightarrow> returned (vo_tree u) q)"
proof (cases "returned (vo_tree s) p")
  case True
  then show ?thesis
    using assms by (simp add: return_planned_def quiet_reads(3) returned_def)
next
  case False
  with assms have r: "arrived (vo_tree s) p" by (auto simp: fits_def placed_cases)
  let ?T = "moved (pm_destination p) (pm_source p) (vo_tree s)"
  have m: "fits plan ?T" "id_at ?T (pm_source p) = Some (pm_identity p)"
    "\<forall>q \<in> set plan. q \<noteq> p \<longrightarrow> id_at ?T (pm_source q) = id_at (vo_tree s) (pm_source q) \<and>
      id_at ?T (pm_destination q) = id_at (vo_tree s) (pm_destination q)"
    using fits_moved [OF assms(2,3), of "pm_destination p" "pm_source p"] r by (auto simp: arrived_def id_at_def)
  then have a: "returned ?T p" using assms(3) by (auto simp: fits_def placed_def returned_def)
  have run: "rename_noreplace W (pm_destination p) (pm_source p) (later (later s (vo_tree s)) (vo_tree s)) =
      (Inr (), later (later (later s (vo_tree s)) (vo_tree s)) ?T)"
    using quiet_rename [OF assms(1) _ assms(3), of "later (later s (vo_tree s)) (vo_tree s)"] assms(2) r
    by (auto simp: arrived_def)
  show ?thesis
    using r m a False
    by (auto simp: return_planned_def fsync_ends_def quiet_reads(1,3) [OF assms(1)] quiet_ends [OF assms(1) _ assms(3)] run
        returned_def arrived_def)
qed

lemma move_plan_quiet:
  assumes "quiet W" "set ps \<subseteq> set plan" "fits plan (vo_tree s)"
  shows "\<exists>u. move_plan W ps s = (Inr [], u) \<and> fits plan (vo_tree u) \<and> (\<forall>p \<in> set ps. arrived (vo_tree u) p) \<and>
    (\<forall>q \<in> set plan. arrived (vo_tree s) q \<longrightarrow> arrived (vo_tree u) q)"
  using assms(2,3)
proof (induction ps arbitrary: s)
  case (Cons p ps)
  then obtain t where t: "move_planned W p s = (Inr [], t)" "fits plan (vo_tree t)" "arrived (vo_tree t) p"
    "\<forall>q \<in> set plan. arrived (vo_tree s) q \<longrightarrow> arrived (vo_tree t) q"
    using move_planned_quiet [OF assms(1), of plan s p] by auto
  with Cons obtain u where "move_plan W ps t = (Inr [], u)" "fits plan (vo_tree u)" "\<forall>p \<in> set ps. arrived (vo_tree u) p"
    "\<forall>q \<in> set plan. arrived (vo_tree t) q \<longrightarrow> arrived (vo_tree u) q" by (metis set_subset_Cons order.trans)
  with t Cons.prems(1) show ?case by auto
qed auto

lemma return_quiet:
  assumes "quiet W" "set ps \<subseteq> set plan" "fits plan (vo_tree s)"
  shows "\<exists>u. each_op (return_planned W) ps s = (Inr (), u) \<and> fits plan (vo_tree u) \<and> (\<forall>p \<in> set ps. returned (vo_tree u) p) \<and>
    (\<forall>q \<in> set plan. returned (vo_tree s) q \<longrightarrow> returned (vo_tree u) q)"
  using assms(2,3)
proof (induction ps arbitrary: s)
  case (Cons p ps)
  then obtain t where t: "return_planned W p s = (Inr (), t)" "fits plan (vo_tree t)" "returned (vo_tree t) p"
    "\<forall>q \<in> set plan. returned (vo_tree s) q \<longrightarrow> returned (vo_tree t) q"
    using return_planned_quiet [OF assms(1), of plan s p] by auto
  with Cons obtain u where "each_op (return_planned W) ps t = (Inr (), u)" "fits plan (vo_tree u)"
    "\<forall>p \<in> set ps. returned (vo_tree u) p"
    "\<forall>q \<in> set plan. returned (vo_tree t) q \<longrightarrow> returned (vo_tree u) q" by (metis set_subset_Cons order.trans)
  with t Cons.prems(1) show ?case by auto
qed auto

section \<open>The rounds of the verb\<close>

lemma phase_advances:
  "answers (\<lambda>x. case x of Inl _ \<Rightarrow> phase_index (tr_phase r) \<ge> 7 | Inr r' \<Rightarrow> phase_index (tr_phase r') = Suc (phase_index (tr_phase r)) \<and> phase_index (tr_phase r) < 7)
    (upgrade_phase W r)"
proof -
  have adv: "answers (\<lambda>r'. tr_phase r' = to) (advance W r' to)" for r' to
    unfolding advance_def by (intro answers_bind' answers_ret) simp
  have t1: "answers (\<lambda>r'. tr_phase r' = Guarded) (t1 W r)"
    unfolding t1_def by (intro answers_bind' answers_if answers_fail adv)
  have plan: "answers (\<lambda>r'. tr_phase r' = Relocating) (plan_t2 W r)"
    unfolding plan_t2_def by (intro answers_bind' answers_if answers_fail adv)
  have t2: "answers (\<lambda>r'. tr_phase r' = Relocated) (t2 W r)"
  proof (cases "tr_target r")
    case (Some target)
    show ?thesis unfolding t2_def Some option.case by (intro answers_bind' adv)
  qed (simp add: t2_def answers_fail)
  show ?thesis
    unfolding upgrade_phase_def Let_def
    by (cases "tr_phase r")
      (auto simp: answers_fail intro!: answers_ret answers_bind' answers_bind [OF adv] answers_bind [OF t1] answers_bind [OF t2] answers_bind [OF plan])
qed

definition rounds_left :: "transition \<Rightarrow> nat" where
  "rounds_left r = max 1 (8 - phase_index (tr_phase r))"

lemma rounds_enough: "rounds_left r \<le> n \<Longrightarrow> upgrade_loop n W r = upgrade_loop (rounds_left r) W r"
proof (induction n arbitrary: r)
  case (Suc n)
  show ?case
  proof (cases "rounds_left r \<le> n")
    case True
    obtain m where m: "rounds_left r = Suc m" by (cases "rounds_left r") (auto simp: rounds_left_def)
    show ?thesis
    proof
      fix s
      obtain x t where xt: "upgrade_phase W r s = (x, t)" by fastforce
      have "upgrade_loop n W r' t = upgrade_loop m W r' t" if x: "x = Inr (Inr r')" for r'
      proof -
        have "phase_index (tr_phase r') = Suc (phase_index (tr_phase r)) \<and> phase_index (tr_phase r) < 7"
          using phase_advances [of r W] xt x unfolding answers_def by fastforce
        with m have "rounds_left r' = m" by (auto simp: rounds_left_def)
        with Suc.IH [of r'] True m show ?thesis by simp
      qed
      then show "upgrade_loop (Suc n) W r s = upgrade_loop (rounds_left r) W r s"
        unfolding m upgrade_loop.simps obind_def on_result_def xt by (auto split: sum.splits)
    qed
  next
    case False
    with Suc.prems show ?thesis by (simp add: le_Suc_eq)
  qed
qed (simp add: rounds_left_def)

section \<open>The gate\<close>

definition fenced :: "tree \<Rightarrow> bool" where
  "fenced T \<longleftrightarrow> is_dir_at T LEGACY \<and> \<not> (is_dir_at T (STATE_MACHINE @ [''db'']) \<and> names_in T (STATE_MACHINE @ [''db'']) \<noteq> []) \<and>
    (\<exists>c. content T LEGACY_MARKER = Some c \<and> is_fence_content (trim c))"

definition still :: "(volume, 'a) op \<Rightarrow> bool" where
  "still m \<longleftrightarrow> (\<forall>s r t. m s = (r, t) \<longrightarrow> vo_tree t = vo_tree s)"

lemma obind_InrE:
  assumes "obind m f s = (Inr y, t)"
  obtains x u where "m s = (Inr x, u)" "f x u = (Inr y, t)"
  using assms by (auto simp: obind_Inr_iff)

lemma still_bind: "still m \<Longrightarrow> (\<And>x. still (f x)) \<Longrightarrow> still (obind m f)"
  unfolding still_def obind_def on_result_def fail_def by (fastforce split: prod.splits sum.splits)

lemma still_pure: "still (ret x)" "still (fail e)"
  by (simp_all add: still_def)

lemma still_reads:
  assumes "alone W"
  shows "still (inspect W p)" "still (read_file W p)" "still (list_dir W p)" "still (look W f)"
  using assms
  by (auto simp: still_def inspect_def read_file_def list_dir_def look_def on_result_def alone_def split: prod.splits elim!: sys_cases)

lemma still_supervisor: "alone W \<Longrightarrow> still (inspect_supervisor_fence W)"
  unfolding inspect_supervisor_fence_def
  by (auto intro!: still_bind still_reads still_pure split: option.split file_kind.split)

lemma still_legacy: "alone W \<Longrightarrow> still (inspect_legacy W)"
  unfolding inspect_legacy_def by (auto intro!: still_bind still_reads still_pure split: option.split)

lemma alone_sys_Inr: "alone W \<Longrightarrow> sys W f s = (Inr x, u) \<Longrightarrow> fst (f (vo_tree s)) = Inr x \<and> vo_tree u = snd (f (vo_tree s))"
  using sys_Inr [of W f s x u] by (simp add: alone_def)

lemma inspect_legacy_fenced:
  assumes "alone W" "inspect_legacy W s = (Inr (Legacy_fence m d), t)"
  shows "fenced (vo_tree t)"
proof -
  obtain n s1 s2 c s3 where n: "inspect W LEGACY s = (Inr (Some n), s1)" "nd_kind n = Directory"
    and db: "list_dir W (STATE_MACHINE @ [''db'']) s1 = (Inr [], s2)"
    and c: "read_file W LEGACY_MARKER s2 = (Inr (Some c), s3)" "is_fence_content (trim c)"
    using assms(2) unfolding inspect_legacy_def by (auto elim!: obind_InrE split: option.split_asm if_split_asm)
  have t: "vo_tree t = vo_tree s" using still_legacy [OF assms(1)] assms(2) unfolding still_def by blast
  have trees: "vo_tree s1 = vo_tree s" "vo_tree s2 = vo_tree s"
    using still_reads [OF assms(1)] n(1) db unfolding still_def by metis+
  have "is_dir_at (vo_tree s) LEGACY"
    using alone_sys_Inr [OF assms(1) n(1) [unfolded inspect_def]] n(2) by (simp add: is_dir_at_def)
  moreover have "\<not> (is_dir_at (vo_tree s) (STATE_MACHINE @ [''db'']) \<and> names_in (vo_tree s) (STATE_MACHINE @ [''db'']) \<noteq> [])"
    using alone_sys_Inr [OF assms(1) db [unfolded list_dir_def]] trees by (auto split: if_splits)
  moreover have "content (vo_tree s) LEGACY_MARKER = Some c"
    using alone_sys_Inr [OF assms(1) c(1) [unfolded read_file_def]] trees
    by (auto simp: content_def split: option.splits file_kind.splits)
  ultimately show ?thesis using t c(2) by (auto simp: fenced_def)
qed

lemma gate_fences_fenced:
  assumes "alone W" "gate_fences W e owns r s = (Inr (Legacy_fence m d, f, b), t)"
  shows "fenced (vo_tree t)"
proof -
  obtain l0 s1 f0 s2 l1 s3 where
    l0: "inspect_legacy W s = (Inr l0, s1)" and f0: "inspect_supervisor_fence W s1 = (Inr f0, s2)"
    and l1: "(if creates_fences e \<and> r = None \<and> is_other l0 then
          obind (remove_abandoned_fence W) (\<lambda>removed. if removed then inspect_legacy W else ret l0)
        else ret l0) s2 = (Inr l1, s3)"
    and fin: "(if creates_fences e \<and> r = None \<and> l1 = Legacy_absent then
       obind (create_fences W owns) (\<lambda>_.
       obind (inspect_legacy W) (\<lambda>l2.
       obind (inspect_supervisor_fence W) (\<lambda>f2.
       ret (l2, f2, True))))
     else ret (l1, f0, False)) s3 = (Inr (Legacy_fence m d, f, b), t)"
    using assms(2) unfolding gate_fences_def obind_Inr_iff by blast
  show ?thesis
  proof (cases "creates_fences e \<and> r = None \<and> l1 = Legacy_absent")
    case True
    then obtain s4 s5 f2 where "inspect_legacy W s4 = (Inr (Legacy_fence m d), s5)" "inspect_supervisor_fence W s5 = (Inr f2, t)"
      using fin by (auto simp: obind_Inr_iff)
    then show ?thesis
      using inspect_legacy_fenced [OF assms(1)] still_supervisor [OF assms(1)] unfolding still_def by metis
  next
    case False
    with fin have l: "l1 = Legacy_fence m d" "t = s3" by auto
    show ?thesis
    proof (cases "l1 = l0 \<and> s3 = s2")
      case True
      with l l0 f0 show ?thesis
        using inspect_legacy_fenced [OF assms(1)] still_supervisor [OF assms(1)] unfolding still_def by metis
    next
      case False
      then obtain s4 where "inspect_legacy W s4 = (Inr (Legacy_fence m d), t) \<or> is_other l0 \<and> l1 = l0"
        using l1 l by (auto simp: obind_Inr_iff split: if_splits)
      then show ?thesis
        using inspect_legacy_fenced [OF assms(1)] l by (auto simp: is_other_def)
    qed
  qed
qed

end
