(* ===== verification/Ops_Stop.thy ===== *)
theory Ops_Stop
  imports Ops_Volume
begin

text \<open>
  \<^verbatim>\<open>crates/rahi-ops/src/stop.rs\<close>: the bounds of a stop, what a process observed of its own stop, the record
  it keeps on the volume, and how the next boot classifies what it finds. A duration is its number of
  nanoseconds; JSON is a parameter.
\<close>

section \<open>The bounds of a stop\<close>

type_synonym duration = nat

definition DURATION_MAX :: duration where
  "DURATION_MAX = (2 ^ 64 - 1) * 1000000000 + 999999999"

definition from_secs :: "nat \<Rightarrow> duration" where
  "from_secs n = n * 1000000000"

definition saturating_add :: "duration \<Rightarrow> duration \<Rightarrow> duration" where
  "saturating_add a b = min DURATION_MAX (a + b)"

definition checked_add :: "duration \<Rightarrow> duration \<Rightarrow> duration option" where
  "checked_add a b = (if a + b \<le> DURATION_MAX then Some (a + b) else None)"

definition READINESS_WINDOW :: duration where "READINESS_WINDOW = from_secs 2"
definition STREAM_DRAIN :: duration where "STREAM_DRAIN = from_secs 10"
definition CONNECTION_DRAIN :: duration where "CONNECTION_DRAIN = from_secs 10"
definition DENIAL_DRAIN :: duration where "DENIAL_DRAIN = from_secs 5"
definition STORE_SHUTDOWN :: duration where "STORE_SHUTDOWN = from_secs 15"
definition RAUTHY_STOP :: duration where "RAUTHY_STOP = from_secs 10"
definition SERVICE_JOIN :: duration where "SERVICE_JOIN = from_secs 10"
definition SERVE_GRACE :: duration where "SERVE_GRACE = from_secs 40"
definition CONTAINER_GRACE :: duration where "CONTAINER_GRACE = from_secs 50"

definition first_phase :: "duration \<Rightarrow> duration" where
  "first_phase stream_drain = max stream_drain READINESS_WINDOW"

definition check_service_overlap :: "duration \<Rightarrow> duration \<Rightarrow> duration \<Rightarrow> error + unit" where
  "check_service_overlap service_join first connection_drain =
     (if saturating_add first connection_drain < service_join
      then Inl (Config ''the service join bound outlasts the phases it runs beside'')
      else Inr ())"

fun add_phases :: "duration \<Rightarrow> duration list \<Rightarrow> duration option" where
  "add_phases acc [] = Some acc"
| "add_phases acc (p # ps) = (case checked_add acc p of None \<Rightarrow> None | Some t \<Rightarrow> add_phases t ps)"

definition check_composition :: "duration list \<Rightarrow> duration \<Rightarrow> duration \<Rightarrow> duration \<Rightarrow> error + unit" where
  "check_composition phases serve_grace rauthy_stop container_grace =
     rbind (or_error (Config ''the stop phases overflow'') (add_phases 0 phases)) (\<lambda>serve_sum.
     if serve_grace < serve_sum then Inl (Config ''the serve grace is below S + C + D + H'')
     else
       rbind (or_error (Config ''the graces overflow'') (checked_add serve_grace rauthy_stop)) (\<lambda>container_sum.
       if container_grace < container_sum then Inl (Config ''the container grace is below SERVE_GRACE + R'')
       else Inr ()))"

section \<open>What was observed\<close>

datatype stop_reason =
    StoreTimeout
  | StoreError string
  | StreamDrainOverrun nat
  | ConnectionDrainOverrun
  | DenialsAbandoned nat
  | ServeGraceOverrun
  | RauthyNonzero int
  | RauthyKilled
  | StorageTerminal
  | ServeError string
  | ServiceExited string
  | ServiceError string string
  | ServicePanicked string string
  | ServiceJoinTimeout string

definition show_int :: "int \<Rightarrow> string" where
  "show_int i = (if i < 0 then ''-'' @ show_nat (nat (- i)) else show_nat (nat i))"

fun reason_name :: "stop_reason \<Rightarrow> string" where
  "reason_name StoreTimeout = ''store_timeout''"
| "reason_name (StoreError _) = ''store_error''"
| "reason_name (StreamDrainOverrun _) = ''stream_drain_overrun''"
| "reason_name ConnectionDrainOverrun = ''connection_drain_overrun''"
| "reason_name (DenialsAbandoned n) = ''denials_abandoned{'' @ show_nat n @ ''}''"
| "reason_name ServeGraceOverrun = ''serve_grace_overrun''"
| "reason_name (RauthyNonzero c) = ''rauthy_nonzero{'' @ show_int c @ ''}''"
| "reason_name RauthyKilled = ''rauthy_killed''"
| "reason_name StorageTerminal = ''storage_terminal''"
| "reason_name (ServeError _) = ''serve_error''"
| "reason_name (ServiceExited s) = ''service_unexpected_exit{'' @ s @ ''}''"
| "reason_name (ServiceError s _) = ''service_error{'' @ s @ ''}''"
| "reason_name (ServicePanicked s _) = ''service_panic{'' @ s @ ''}''"
| "reason_name (ServiceJoinTimeout s) = ''service_join_timeout{'' @ s @ ''}''"

record phase_time =
  pt_phase :: string
  pt_millis :: nat
  pt_bound_millis :: nat

definition millis :: "duration \<Rightarrow> nat" where
  "millis d = min (2 ^ 64 - 1) (d div 1000000)"

definition phase_time_new :: "string \<Rightarrow> duration \<Rightarrow> duration \<Rightarrow> phase_time" where
  "phase_time_new phase took bound = \<lparr>pt_phase = phase, pt_millis = millis took, pt_bound_millis = millis bound\<rparr>"

record observed =
  ob_phases :: "phase_time list"
  ob_reasons :: "stop_reason list"

definition observed_empty :: observed where
  "observed_empty = \<lparr>ob_phases = [], ob_reasons = []\<rparr>"

definition confirmed :: "observed \<Rightarrow> bool" where
  "confirmed b \<longleftrightarrow> ob_reasons b = []"

definition observe_phase :: "string \<Rightarrow> duration \<Rightarrow> duration \<Rightarrow> observed \<Rightarrow> observed" where
  "observe_phase phase took bound b = b\<lparr>ob_phases := ob_phases b @ [phase_time_new phase took bound]\<rparr>"

definition observe_reason :: "stop_reason \<Rightarrow> observed \<Rightarrow> observed" where
  "observe_reason r b = b\<lparr>ob_reasons := ob_reasons b @ [r]\<rparr>"

definition absorb :: "observed \<Rightarrow> observed \<Rightarrow> observed" where
  "absorb b c = b\<lparr>ob_phases := ob_phases b @ ob_phases c, ob_reasons := ob_reasons b @ ob_reasons c\<rparr>"

definition observed_exit_code :: "observed \<Rightarrow> int" where
  "observed_exit_code b = (if confirmed b then 0 else EXIT_INFRA)"

fun join_names :: "string list \<Rightarrow> string" where
  "join_names [] = []"
| "join_names [x] = x"
| "join_names (x # xs) = x @ '', '' @ join_names xs"

definition render_observed :: "observed \<Rightarrow> string" where
  "render_observed b =
     (if confirmed b then ''confirmed'' else ''unconfirmed: '' @ join_names (map reason_name (ob_reasons b)))"

section \<open>The records\<close>

datatype stop_outcome = Confirmed | Unconfirmed "stop_reason list"

record stop_record =
  sp_boot :: u64
  sp_entry :: string
  sp_started_at :: u64
  sp_received_at :: "u64 option"
  sp_outcome :: "stop_outcome option"
  sp_phases :: "phase_time list"
  sp_exited_at :: "u64 option"
  sp_exit_code :: "int option"

record kill_witness =
  kw_boot :: u64
  kw_by :: string
  kw_at :: u64

record stop_codec =
  sc_record :: "stop_record \<Rightarrow> string"
  sc_parse_record :: "string \<Rightarrow> stop_record option"
  sc_witness :: "kill_witness \<Rightarrow> string"
  sc_parse_witness :: "string \<Rightarrow> kill_witness option"

definition stop_codec_ok :: "stop_codec \<Rightarrow> bool" where
  "stop_codec_ok J \<longleftrightarrow> (\<forall>r. sc_parse_record J (sc_record J r) = Some r) \<and> (\<forall>w. sc_parse_witness J (sc_witness J w) = Some w)"

section \<open>Classification\<close>

datatype previous_stop = Recorded stop_outcome | StoppedWithoutSignal | IncompleteAfterSigterm | NoRecord

fun previous_label :: "previous_stop \<Rightarrow> string" where
  "previous_label (Recorded Confirmed) = ''confirmed''"
| "previous_label (Recorded (Unconfirmed _)) = ''unconfirmed''"
| "previous_label StoppedWithoutSignal = ''stopped_without_signal''"
| "previous_label IncompleteAfterSigterm = ''incomplete_after_sigterm''"
| "previous_label NoRecord = ''no_record''"

datatype stop_cause = Cause_recorded | Witnessed_kill | Cause_unknown

fun cause_label :: "stop_cause \<Rightarrow> string" where
  "cause_label Cause_recorded = ''recorded''"
| "cause_label Witnessed_kill = ''witnessed_kill''"
| "cause_label Cause_unknown = ''unknown''"

record classified_stop =
  cl_boot :: "u64 option"
  cl_previous :: previous_stop
  cl_cause :: stop_cause

definition render_classified :: "classified_stop \<Rightarrow> string" where
  "render_classified c =
     ''previous stop: boot '' @ (case cl_boot c of None \<Rightarrow> ''none'' | Some b \<Rightarrow> show_nat (unat b)) @ '', ''
     @ previous_label (cl_previous c)
     @ (case cl_previous c of Recorded (Unconfirmed rs) \<Rightarrow> '' ('' @ join_names (map reason_name rs) @ '')'' | _ \<Rightarrow> [])
     @ '', cause '' @ cause_label (cl_cause c)"

definition classify_stop :: "u64 option \<Rightarrow> stop_record option \<Rightarrow> kill_witness option \<Rightarrow> classified_stop" where
  "classify_stop last_boot r w =
     (case last_boot of
        None \<Rightarrow> \<lparr>cl_boot = None, cl_previous = NoRecord, cl_cause = Cause_unknown\<rparr>
      | Some boot \<Rightarrow>
          (let unrecorded = (if (case w of None \<Rightarrow> False | Some x \<Rightarrow> kw_boot x = boot) then Witnessed_kill else Cause_unknown) in
           case r of
             None \<Rightarrow> \<lparr>cl_boot = Some boot, cl_previous = NoRecord, cl_cause = unrecorded\<rparr>
           | Some x \<Rightarrow>
               if sp_boot x \<noteq> boot then \<lparr>cl_boot = Some boot, cl_previous = NoRecord, cl_cause = unrecorded\<rparr>
               else
                 (case sp_outcome x of
                    Some oc \<Rightarrow> \<lparr>cl_boot = Some boot, cl_previous = Recorded oc, cl_cause = Cause_recorded\<rparr>
                  | None \<Rightarrow>
                      \<lparr>cl_boot = Some boot,
                       cl_previous = (if sp_received_at x \<noteq> None then IncompleteAfterSigterm else StoppedWithoutSignal),
                       cl_cause = unrecorded\<rparr>)))"

section \<open>The recorder\<close>

definition STOP_FILE :: string where "STOP_FILE = ''stop.json''"
definition BOOT_SEQ_FILE :: string where "BOOT_SEQ_FILE = ''boot.seq''"
definition WITNESS_FILE :: string where "WITNESS_FILE = ''stop-witness.json''"

text \<open>A file that cannot be read or does not parse is read as no file at all.\<close>

definition read_as :: "'w ops_world_scheme \<Rightarrow> (string \<Rightarrow> 'a option) \<Rightarrow> vpath \<Rightarrow> (volume, 'a option) op" where
  "read_as W parse p =
     on_result (read_file W p) (\<lambda>r. ret (case r of Inr (Some c) \<Rightarrow> parse c | _ \<Rightarrow> None))"

definition parse_boot :: "string \<Rightarrow> u64 option" where
  "parse_boot c = map_option of_nat (parse_unsigned (2 ^ 64 - 1) (trim c))"

definition read_record :: "'w ops_world_scheme \<Rightarrow> stop_codec \<Rightarrow> (volume, stop_record option) op" where
  "read_record W J = read_as W (sc_parse_record J) [STOP_FILE]"

definition read_witness :: "'w ops_world_scheme \<Rightarrow> stop_codec \<Rightarrow> (volume, kill_witness option) op" where
  "read_witness W J = read_as W (sc_parse_witness J) [WITNESS_FILE]"

definition read_boot_seq :: "'w ops_world_scheme \<Rightarrow> (volume, u64 option) op" where
  "read_boot_seq W = read_as W parse_boot [BOOT_SEQ_FILE]"

definition write_witness :: "'w ops_world_scheme \<Rightarrow> stop_codec \<Rightarrow> u64 \<Rightarrow> string \<Rightarrow> (volume, unit) op" where
  "write_witness W J boot by_whom =
     obind (unix_now W) (\<lambda>at.
     write_replacing W [WITNESS_FILE] (sc_witness J \<lparr>kw_boot = boot, kw_by = by_whom, kw_at = at\<rparr>))"

record recorder =
  re_record :: stop_record
  re_previous :: classified_stop

definition recorder_flush :: "'w ops_world_scheme \<Rightarrow> stop_codec \<Rightarrow> recorder \<Rightarrow> (volume, unit) op" where
  "recorder_flush W J r = write_replacing W [STOP_FILE] (sc_record J (re_record r))"

definition boot_after :: "u64 option \<Rightarrow> u64" where
  "boot_after latest = (case latest of None \<Rightarrow> 1 | Some b \<Rightarrow> if b = - 1 then - 1 else b + 1)"

definition boot_text :: "u64 \<Rightarrow> string" where
  "boot_text b = show_nat (unat b) @ [CHR 0x0A]"

definition recorder_begin :: "'w ops_world_scheme \<Rightarrow> stop_codec \<Rightarrow> string \<Rightarrow> (volume, recorder) op" where
  "recorder_begin W J entry =
     obind (read_boot_seq W) (\<lambda>latest.
     obind (read_record W J) (\<lambda>r.
     obind (read_witness W J) (\<lambda>w.
     obind (write_replacing W [BOOT_SEQ_FILE] (boot_text (boot_after latest))) (\<lambda>_.
     obind (unix_now W) (\<lambda>at.
     let rec =
       \<lparr>re_record =
          \<lparr>sp_boot = boot_after latest, sp_entry = entry, sp_started_at = at, sp_received_at = None, sp_outcome = None,
           sp_phases = [], sp_exited_at = None, sp_exit_code = None\<rparr>,
        re_previous = classify_stop latest r w\<rparr>
     in obind (recorder_flush W J rec) (\<lambda>_. ret rec))))))"

text \<open>A SIGTERM that cannot be recorded is reported and the stop goes on.\<close>

definition recorder_received :: "'w ops_world_scheme \<Rightarrow> stop_codec \<Rightarrow> recorder \<Rightarrow> (volume, recorder) op" where
  "recorder_received W J r =
     obind (if sp_received_at (re_record r) = None then obind (unix_now W) (\<lambda>at. ret (Some at))
            else ret (sp_received_at (re_record r))) (\<lambda>at.
     let r' = r\<lparr>re_record := (re_record r)\<lparr>sp_received_at := at\<rparr>\<rparr>
     in on_result (recorder_flush W J r') (\<lambda>_. ret r'))"

definition stop_outcome_of :: "observed \<Rightarrow> stop_outcome" where
  "stop_outcome_of b = (if confirmed b then Confirmed else Unconfirmed (ob_reasons b))"

definition recorder_finish :: "'w ops_world_scheme \<Rightarrow> stop_codec \<Rightarrow> observed \<Rightarrow> int \<Rightarrow> recorder \<Rightarrow> (volume, unit) op" where
  "recorder_finish W J b code r =
     obind (unix_now W) (\<lambda>at.
     recorder_flush W J
       (r\<lparr>re_record := (re_record r)\<lparr>sp_phases := ob_phases b, sp_outcome := Some (stop_outcome_of b),
          sp_exited_at := Some at, sp_exit_code := Some code\<rparr>\<rparr>))"

section \<open>Every life of a cell\<close>

text \<open>
  A cell boots, stops and dies any number of times on one volume. \<open>sy_running\<close> is the recorder of the
  process that runs, \<open>sy_boots\<close> the numbers of the processes that ran, the latest first, \<open>sy_signalled\<close> the boots
  that received a SIGTERM, and \<open>sy_finished\<close> the boots that came to record an outcome, and which.
\<close>

definition own_paths :: "'w ops_world_scheme \<Rightarrow> vpath set" where
  "own_paths W = {[STOP_FILE], [BOOT_SEQ_FILE], temp_of W [STOP_FILE], temp_of W [BOOT_SEQ_FILE]}"

text \<open>Other processes leave the two files of the recorder alone, and the three reads of a boot answer.\<close>

definition leaves_own :: "'w ops_world_scheme \<Rightarrow> bool" where
  "leaves_own W \<longleftrightarrow> (\<forall>k T p. p \<in> own_paths W \<longrightarrow> map_of (ow_others W k T) p = map_of T p)"

definition reads_answer :: "'w ops_world_scheme \<Rightarrow> volume \<Rightarrow> bool" where
  "reads_answer W s \<longleftrightarrow> (\<forall>i < 3. ow_fault W (vo_calls s + i) = Works)"

record stop_system =
  sy_volume :: volume
  sy_running :: "recorder option"
  sy_boots :: "u64 list"
  sy_signalled :: "u64 set"
  sy_finished :: "(u64 \<times> stop_outcome) set"

inductive stop_step :: "stop_codec \<Rightarrow> stop_system \<Rightarrow> stop_system \<Rightarrow> bool" for J where
  boot: "leaves_own (W :: ops_world) \<Longrightarrow> reads_answer W (sy_volume S) \<Longrightarrow> recorder_begin W J entry (sy_volume S) = (res, t) \<Longrightarrow>
    stop_step J S (S\<lparr>sy_volume := t, sy_running := (case res of Inl _ \<Rightarrow> None | Inr r \<Rightarrow> Some r),
      sy_boots := (case res of Inl _ \<Rightarrow> sy_boots S | Inr r \<Rightarrow> sp_boot (re_record r) # sy_boots S)\<rparr>)"
| sigterm: "leaves_own (W :: ops_world) \<Longrightarrow> sy_running S = Some r \<Longrightarrow> recorder_received W J r (sy_volume S) = (Inr r', t) \<Longrightarrow>
    stop_step J S (S\<lparr>sy_volume := t, sy_running := Some r', sy_signalled := insert (sp_boot (re_record r)) (sy_signalled S)\<rparr>)"
| finish: "leaves_own (W :: ops_world) \<Longrightarrow> sy_running S = Some r \<Longrightarrow> recorder_finish W J b code r (sy_volume S) = (res, t) \<Longrightarrow>
    stop_step J S (S\<lparr>sy_volume := t, sy_running := None,
      sy_finished := insert (sp_boot (re_record r), stop_outcome_of b) (sy_finished S)\<rparr>)"
| kill: "stop_step J S (S\<lparr>sy_running := None\<rparr>)"
| witness: "leaves_own (W :: ops_world) \<Longrightarrow> write_witness W J n by_whom (sy_volume S) = (res, t) \<Longrightarrow> stop_step J S (S\<lparr>sy_volume := t\<rparr>)"

inductive stop_runs :: "stop_codec \<Rightarrow> stop_system \<Rightarrow> bool" for J where
  fresh: "map_of (vo_tree v) [STOP_FILE] = None \<Longrightarrow>
    stop_runs J \<lparr>sy_volume = v, sy_running = None, sy_boots = [], sy_signalled = {}, sy_finished = {}\<rparr>"
| step: "stop_runs J S \<Longrightarrow> stop_step J S T \<Longrightarrow> stop_runs J T"

section \<open>What a write leaves\<close>

definition lone :: "vpath \<Rightarrow> bool" where
  "lone p \<longleftrightarrow> length p = 1"

lemma lone_beneath: "lone p \<Longrightarrow> lone q \<Longrightarrow> p \<noteq> q \<Longrightarrow> beneath p q = None"
  by (auto simp: lone_def beneath_None_iff length_Suc_conv)

lemma lone_temp: "lone p \<Longrightarrow> lone (temp_of W p) \<and> temp_of W p \<noteq> p"
  by (auto simp: lone_def temp_of_def length_Suc_conv)

text \<open>What holds of the files before a call and after it, whatever becomes of the call.\<close>

lemma sys_content:
  assumes "sys W f s = (r, u)" "\<And>T. map_of (ow_others W (vo_calls s) T) p = map_of T p"
    and "\<And>T. content (snd (f T)) p = content T p"
  shows "content (vo_tree u) p = content (vo_tree s) p"
  using assms(1) by (cases rule: sys_cases) (simp_all add: assms(3), simp_all add: content_def assms(2))

lemma create_file_content:
  assumes "create_file W f s = (r, u)" "\<And>T. map_of (ow_others W (vo_calls s) T) q = map_of T q" "f \<noteq> q"
  shows "content (vo_tree u) q = content (vo_tree s) q"
  using assms(1) unfolding create_file_def
  by (rule sys_content) (use assms in \<open>auto simp: content_def update_conv split: option.splits file_kind.splits\<close>)

lemma write_all_content:
  assumes "write_all W f c s = (r, u)" "\<And>T. map_of (ow_others W (vo_calls s) T) q = map_of T q" "f \<noteq> q"
  shows "content (vo_tree u) q = content (vo_tree s) q"
  using assms(1) unfolding write_all_def
  by (rule sys_content) (use assms in \<open>auto simp: content_def update_conv split: option.splits file_kind.splits\<close>)

lemma write_all_written:
  "write_all W f c s = (Inr x, u) \<Longrightarrow> content (vo_tree u) f = Some c"
  unfolding write_all_def
  by (drule sys_Inr) (auto simp: content_def update_conv split: option.splits file_kind.splits)

lemma fsync_content:
  assumes "fsync_dir W d s = (r, u)" "\<And>T. map_of (ow_others W (vo_calls s) T) q = map_of T q"
  shows "content (vo_tree u) q = content (vo_tree s) q"
  using assms(1) unfolding fsync_dir_def by (rule sys_content) (use assms in auto)

lemma sync_file_content:
  assumes "sync_file W d s = (r, u)" "\<And>T. map_of (ow_others W (vo_calls s) T) q = map_of T q"
  shows "content (vo_tree u) q = content (vo_tree s) q"
  using assms(1) unfolding sync_file_def by (rule sys_content) (use assms in auto)

lemma rename_over_content:
  assumes "rename_over W f t s = (r, u)" "\<And>T. map_of (ow_others W (vo_calls s) T) q = map_of T q"
    and "beneath t q = None" "beneath f q = None"
  shows "content (vo_tree u) q = content (vo_tree s) q"
proof -
  have "t \<noteq> q" using assms(3) by auto
  with assms show ?thesis
    unfolding rename_over_def
    by (intro sys_content [OF assms(1) [unfolded rename_over_def]])
      (auto simp: content_def map_of_moved_other delete_conv)
qed

lemma rename_over_end:
  assumes "rename_over W f t s = (r, u)" "f \<noteq> t"
    and "\<And>T p. p \<in> {f, t} \<Longrightarrow> map_of (ow_others W (vo_calls s) T) p = map_of T p"
  shows "content (vo_tree u) t = content (vo_tree s) t \<or> content (vo_tree u) t = content (vo_tree s) f"
    and "r = Inr x \<Longrightarrow> content (vo_tree u) t = content (vo_tree s) f"
proof -
  have moved_end: "map_of (moved f t (AList.delete t T)) t = map_of T f" for T
    using assms(2) by (simp add: map_of_moved_end delete_conv)
  show "content (vo_tree u) t = content (vo_tree s) t \<or> content (vo_tree u) t = content (vo_tree s) f"
    using assms(1) unfolding rename_over_def
    by (cases rule: sys_cases) (auto simp: content_def assms(2,3) moved_end split: if_splits)
  show "content (vo_tree u) t = content (vo_tree s) f" if "r = Inr x"
    using assms(1) unfolding rename_over_def that
    by (auto dest!: sys_Inr simp: content_def assms(2,3) moved_end split: if_splits)
qed

text \<open>One file is written whole or not at all, and the others are left as they are.\<close>

lemma write_replacing_other:
  assumes "write_replacing W p c s = (r, u)" "lone p" "lone q" "q \<noteq> p" "q \<noteq> temp_of W p"
    and "\<And>k T. map_of (ow_others W k T) q = map_of T q"
  shows "content (vo_tree u) q = content (vo_tree s) q"
proof -
  have "beneath p q = None" "beneath (temp_of W p) q = None"
    using lone_beneath lone_temp [OF assms(2), of W] assms(2-5) by auto
  then show ?thesis
    using assms unfolding write_replacing_def
    by (cases r) (auto simp: obind_Inr_iff obind_Inl_iff
      dest!: create_file_content [where q = q] write_all_content [where q = q] fsync_content [where q = q] sync_file_content [where q = q]
        rename_over_content [where q = q])
qed

lemma write_replacing_self:
  assumes run: "write_replacing W p c s = (r, u)" and "lone p"
    and others: "\<And>k T x. x \<in> {p, temp_of W p} \<Longrightarrow> map_of (ow_others W k T) x = map_of T x"
  shows "(content (vo_tree u) p = content (vo_tree s) p \<or> content (vo_tree u) p = Some c) \<and>
    (r = Inr () \<longrightarrow> content (vo_tree u) p = Some c)"
proof -
  let ?t = "temp_of W p"
  note lt = lone_temp [OF assms(2), of W]
  have create: "content (vo_tree v) p = content (vo_tree s) p" if "create_file W ?t s = (a, v)" for a v
    using create_file_content [OF that, of p] lt others by auto
  have written: "content (vo_tree w) p = content (vo_tree v) p \<and> (a = Inr () \<longrightarrow> content (vo_tree w) ?t = Some c)"
    if "write_all W ?t c v = (a, w)" for a v w
    using write_all_content [OF that, of p] write_all_written [of W ?t c v "()" w] that lt others by auto
  have synced: "content (vo_tree w) p = content (vo_tree v) p \<and> content (vo_tree w) ?t = content (vo_tree v) ?t"
    if "fsync_dir W d v = (a, w) \<or> sync_file W d v = (a, w)" for a d v w
    using that
  proof
    assume that: "fsync_dir W d v = (a, w)"
    then show ?thesis using fsync_content [OF that, of p] fsync_content [OF that, of ?t] others by auto
  next
    assume that: "sync_file W d v = (a, w)"
    then show ?thesis using sync_file_content [OF that, of p] sync_file_content [OF that, of ?t] others by auto
  qed
  have renamed: "(content (vo_tree w) p = content (vo_tree v) p \<or> content (vo_tree w) p = content (vo_tree v) ?t) \<and>
      (a = Inr () \<longrightarrow> content (vo_tree w) p = content (vo_tree v) ?t)"
    if "rename_over W ?t p v = (a, w)" for a v w
    using rename_over_end [OF that] lt others by auto
  show ?thesis
    using run unfolding write_replacing_def
    by (cases r) (auto simp: obind_Inr_iff obind_Inl_iff dest!: create written synced [OF disjI1] synced [OF disjI2] renamed)
qed

section \<open>What a boot finds\<close>

definition seq_of :: "volume \<Rightarrow> u64 option" where
  "seq_of s = Option.bind (content (vo_tree s) [BOOT_SEQ_FILE]) parse_boot"

definition record_of :: "stop_codec \<Rightarrow> volume \<Rightarrow> stop_record option" where
  "record_of J s = Option.bind (content (vo_tree s) [STOP_FILE]) (sc_parse_record J)"

lemma trim_newline:
  assumes "\<forall>c \<in> set ds. \<not> ascii_space c" "ds \<noteq> []" "ascii_space c"
  shows "trim (ds @ [c]) = ds"
proof -
  have "dropWhile ascii_space (ds @ [c]) = ds @ [c]" using assms(1,2) by (cases ds) auto
  moreover have "dropWhile ascii_space (rev ds) = rev ds" using assms(1,2) by (cases ds rule: rev_cases) auto
  ultimately show ?thesis using assms(3) by (simp add: trim_def)
qed

lemma parse_boot_text: "parse_boot (boot_text b) = Some b"
proof -
  have "\<not> ascii_space c" if "ascii_digit c" for c
    using that by (auto simp: ascii_digit_def ascii_space_def less_eq_char_def)
  then have digits: "\<forall>c \<in> set (show_nat (unat b)). \<not> ascii_space c"
    using show_nat_digits by blast
  have "show_nat (unat b) \<noteq> []" by (simp add: show_nat.simps [of "unat b"])
  then have "trim (boot_text b) = show_nat (unat b)"
    unfolding boot_text_def by (intro trim_newline digits) (simp_all add: ascii_space_def)
  moreover have "unat b \<le> 2 ^ 64 - 1" using unsigned_less [of b, where 'a = nat] by simp
  ultimately show ?thesis by (simp add: parse_boot_def parse_unsigned_show)
qed

lemma own_lone: "lone [STOP_FILE]" "lone [BOOT_SEQ_FILE]" "lone [WITNESS_FILE]"
  by (simp_all add: lone_def)

lemma own_distinct:
  "[STOP_FILE] \<noteq> [BOOT_SEQ_FILE] \<and> [STOP_FILE] \<noteq> [WITNESS_FILE] \<and> [BOOT_SEQ_FILE] \<noteq> [WITNESS_FILE] \<and>
   temp_of W [x] \<noteq> [STOP_FILE] \<and> temp_of W [x] \<noteq> [BOOT_SEQ_FILE]"
  by (simp add: STOP_FILE_def BOOT_SEQ_FILE_def WITNESS_FILE_def temp_of_def)

lemma leaves_ownD:
  "leaves_own W \<Longrightarrow> p \<in> {[STOP_FILE], [BOOT_SEQ_FILE], temp_of W [STOP_FILE], temp_of W [BOOT_SEQ_FILE]} \<Longrightarrow>
    map_of (ow_others W k T) p = map_of T p"
  unfolding leaves_own_def own_paths_def by blast

lemma read_as_kept:
  assumes "read_as W parse p s = (r, u)" "leaves_own W"
  shows "seq_of u = seq_of s \<and> record_of J u = record_of J s"
proof -
  obtain x v where read: "read_file W p s = (x, v)" "u = v"
    using assms(1) by (auto simp: read_as_def on_result_def split: prod.splits)
  have "content (vo_tree v) q = content (vo_tree s) q" if "q \<in> {[STOP_FILE], [BOOT_SEQ_FILE]}" for q
    using read(1) unfolding read_file_def
    by (rule sys_content) (use leaves_ownD [OF assms(2)] that in auto)
  with read(2) show ?thesis by (simp add: seq_of_def record_of_def)
qed

lemma read_as_works:
  assumes "read_as W parse p s = (r, u)" "ow_fault W (vo_calls s) = Works"
    and "map_of (ow_others W (vo_calls s) (vo_tree s)) p = map_of (vo_tree s) p"
  shows "r = Inr (Option.bind (content (vo_tree s) p) parse)" "vo_calls u = Suc (vo_calls s)"
  using assms(1)
  by (auto simp: read_as_def read_file_def on_result_def sys_works [OF assms(2)] assms(3) content_def
      split: option.splits file_kind.splits)

lemma read_as_calls: "read_as W parse p s = (r, u) \<Longrightarrow> vo_calls u = Suc (vo_calls s) \<and> (\<exists>x. r = Inr x)"
  by (auto simp: read_as_def read_file_def on_result_def sys_def Let_def split: prod.splits fault.splits)

lemma write_seq:
  assumes "write_replacing W [BOOT_SEQ_FILE] (boot_text b) s = (r, u)" "leaves_own W"
  shows "record_of J u = record_of J s \<and> (seq_of u = seq_of s \<or> seq_of u = Some b) \<and> (r = Inr () \<longrightarrow> seq_of u = Some b)"
proof -
  have "content (vo_tree u) [STOP_FILE] = content (vo_tree s) [STOP_FILE]"
    using write_replacing_other [OF assms(1) own_lone(2,1)] own_distinct [of W BOOT_SEQ_FILE] leaves_ownD [OF assms(2)] by auto
  moreover have "(content (vo_tree u) [BOOT_SEQ_FILE] = content (vo_tree s) [BOOT_SEQ_FILE] \<or>
      content (vo_tree u) [BOOT_SEQ_FILE] = Some (boot_text b)) \<and>
      (r = Inr () \<longrightarrow> content (vo_tree u) [BOOT_SEQ_FILE] = Some (boot_text b))"
    by (rule write_replacing_self [OF assms(1) own_lone(2)]) (use leaves_ownD [OF assms(2)] in auto)
  ultimately show ?thesis
    by (auto simp: record_of_def seq_of_def parse_boot_text)
qed

lemma flush_record:
  assumes "recorder_flush W J r s = (x, u)" "leaves_own W" "stop_codec_ok J"
  shows "seq_of u = seq_of s \<and> (record_of J u = record_of J s \<or> record_of J u = Some (re_record r)) \<and>
    (x = Inr () \<longrightarrow> record_of J u = Some (re_record r))"
proof -
  note run = assms(1) [unfolded recorder_flush_def]
  have "content (vo_tree u) [BOOT_SEQ_FILE] = content (vo_tree s) [BOOT_SEQ_FILE]"
    using write_replacing_other [OF run own_lone(1,2)] own_distinct [of W STOP_FILE] leaves_ownD [OF assms(2)] by auto
  moreover have "(content (vo_tree u) [STOP_FILE] = content (vo_tree s) [STOP_FILE] \<or>
      content (vo_tree u) [STOP_FILE] = Some (sc_record J (re_record r))) \<and>
      (x = Inr () \<longrightarrow> content (vo_tree u) [STOP_FILE] = Some (sc_record J (re_record r)))"
    by (rule write_replacing_self [OF run own_lone(1)]) (use leaves_ownD [OF assms(2)] in auto)
  ultimately show ?thesis
    using assms(3) by (auto simp: record_of_def seq_of_def stop_codec_ok_def)
qed

lemma ask_kept: "unix_now W s = (r, u) \<Longrightarrow> seq_of u = seq_of s \<and> record_of J u = record_of J s \<and> (\<exists>x. r = Inr x)"
  by (auto simp: unix_now_def ask_machine_def seq_of_def record_of_def)

lemma witness_kept:
  assumes "write_witness W J n by_whom s = (r, u)" "leaves_own W"
  shows "seq_of u = seq_of s \<and> record_of J u = record_of J s"
proof -
  obtain at v where now: "unix_now W s = (Inr at, v)" by (metis ask_kept surj_pair)
  obtain c where w: "write_replacing W [WITNESS_FILE] c v = (r, u)"
    using assms(1) now by (auto simp: write_witness_def)
  have "content (vo_tree u) q = content (vo_tree v) q" if "q \<in> {[STOP_FILE], [BOOT_SEQ_FILE]}" for q
    using write_replacing_other [OF w own_lone(3), of q] that own_lone own_distinct [of W WITNESS_FILE]
      leaves_ownD [OF assms(2)] by auto
  with ask_kept [OF now, of J] show ?thesis by (simp add: seq_of_def record_of_def)
qed

text \<open>Whatever becomes of a boot, the two files hold what they held or what it wrote.\<close>

definition boot_record :: "u64 \<Rightarrow> string \<Rightarrow> u64 \<Rightarrow> stop_record" where
  "boot_record b entry at =
     \<lparr>sp_boot = b, sp_entry = entry, sp_started_at = at, sp_received_at = None, sp_outcome = None, sp_phases = [],
      sp_exited_at = None, sp_exit_code = None\<rparr>"

lemma begin_leaves:
  assumes run: "recorder_begin W J entry s = (res, u)" and "leaves_own W" "reads_answer W s" "stop_codec_ok J"
  shows "(seq_of u = seq_of s \<or> seq_of u = Some (boot_after (seq_of s))) \<and>
    (record_of J u = record_of J s \<or> (\<exists>at. record_of J u = Some (boot_record (boot_after (seq_of s)) entry at))) \<and>
    (\<forall>r. res = Inr r \<longrightarrow>
      (\<exists>w at. re_previous r = classify_stop (seq_of s) (record_of J s) w \<and>
        re_record r = boot_record (boot_after (seq_of s)) entry at) \<and>
      seq_of u = Some (boot_after (seq_of s)) \<and> record_of J u = Some (re_record r))"
proof -
  obtain x1 s1 where r1: "read_boot_seq W s = (x1, s1)" by fastforce
  have f1: "x1 = Inr (seq_of s)" "vo_calls s1 = Suc (vo_calls s)"
    using read_as_works [OF r1 [unfolded read_boot_seq_def]] assms(3) leaves_ownD [OF assms(2)]
    by (auto simp: reads_answer_def seq_of_def dest: spec [of _ 0])
  note k1 = read_as_kept [OF r1 [unfolded read_boot_seq_def] assms(2)]
  obtain x2 s2 where r2: "read_record W J s1 = (x2, s2)" by fastforce
  have f2: "x2 = Inr (record_of J s)" 
    using read_as_works [OF r2 [unfolded read_record_def]] assms(3) leaves_ownD [OF assms(2)] k1 f1(2)
    by (auto simp: reads_answer_def record_of_def dest: spec [of _ 1])
  note k2 = read_as_kept [OF r2 [unfolded read_record_def] assms(2)]
  obtain x3 s3 where r3: "read_witness W J s2 = (x3, s3)" by fastforce
  obtain w where f3: "x3 = Inr w" using read_as_calls [OF r3 [unfolded read_witness_def]] by blast
  note k3 = read_as_kept [OF r3 [unfolded read_witness_def] assms(2)]
  have before: "seq_of s3 = seq_of s" "record_of J s3 = record_of J s" using k1 k2 k3 by metis+
  obtain x4 s4 where r4: "write_replacing W [BOOT_SEQ_FILE] (boot_text (boot_after (seq_of s))) s3 = (x4, s4)" by fastforce
  note f4 = write_seq [OF r4 assms(2), where J = J]
  show ?thesis
  proof (cases x4)
    case (Inl e)
    then have "u = s4 \<and> res = Inl e"
      using run r1 r2 r3 r4 f1 f2 f3 by (simp add: recorder_begin_def)
    with f4 before show ?thesis by auto
  next
    case (Inr y)
    obtain at s5 where r5: "unix_now W s4 = (Inr at, s5)" by (metis ask_kept surj_pair)
    note k5 = ask_kept [OF r5, where J = J]
    let ?rec = "\<lparr>re_record = boot_record (boot_after (seq_of s)) entry at, re_previous = classify_stop (seq_of s) (record_of J s) w\<rparr>"
    obtain x6 s6 where r6: "recorder_flush W J ?rec s5 = (x6, s6)" by fastforce
    note f6 = flush_record [OF r6 assms(2,4)]
    have "u = s6 \<and> res = (case x6 of Inl e \<Rightarrow> Inl e | Inr _ \<Rightarrow> Inr ?rec)"
      using run r1 r2 r3 r4 r5 r6 f1 f2 f3 Inr
      by (cases x6) (simp_all add: recorder_begin_def boot_record_def Let_def)
    with f6 f4 k5 before Inr show ?thesis
      by (cases x6) auto
  qed
qed

lemma received_leaves:
  assumes "recorder_received W J r s = (Inr r', u)" "leaves_own W" "stop_codec_ok J"
  shows "seq_of u = seq_of s \<and> (record_of J u = record_of J s \<or> record_of J u = Some (re_record r')) \<and>
    (\<exists>at. r' = r\<lparr>re_record := (re_record r)\<lparr>sp_received_at := at\<rparr>\<rparr>)"
proof -
  obtain at v where at: "(if sp_received_at (re_record r) = None then obind (unix_now W) (\<lambda>at. ret (Some at))
      else ret (sp_received_at (re_record r))) s = (Inr at, v)"
    and flush: "on_result (recorder_flush W J (r\<lparr>re_record := (re_record r)\<lparr>sp_received_at := at\<rparr>\<rparr>))
      (\<lambda>_. ret (r\<lparr>re_record := (re_record r)\<lparr>sp_received_at := at\<rparr>\<rparr>)) v = (Inr r', u)"
    using assms(1) unfolding recorder_received_def Let_def obind_Inr_iff by blast
  have v: "seq_of v = seq_of s \<and> record_of J v = record_of J s"
  proof (cases "sp_received_at (re_record r)")
    case None
    with at obtain x where "unix_now W s = (Inr x, v)" by (auto simp: obind_Inr_iff)
    then show ?thesis using ask_kept by blast
  next
    case (Some x)
    with at show ?thesis by simp
  qed
  from flush obtain x w where "recorder_flush W J (r\<lparr>re_record := (re_record r)\<lparr>sp_received_at := at\<rparr>\<rparr>) v = (x, w)"
    "ret (r\<lparr>re_record := (re_record r)\<lparr>sp_received_at := at\<rparr>\<rparr>) w = (Inr r', u)"
    unfolding on_result_iff by blast
  then have run: "recorder_flush W J r' v = (x, u)" and "r' = r\<lparr>re_record := (re_record r)\<lparr>sp_received_at := at\<rparr>\<rparr>"
    by simp_all
  with flush_record [OF run assms(2,3)] v show ?thesis by (intro conjI exI [of _ at]) simp_all
qed

lemma finish_leaves:
  assumes "recorder_finish W J b code r s = (x, u)" "leaves_own W" "stop_codec_ok J"
  shows "seq_of u = seq_of s \<and>
    (record_of J u = record_of J s \<and> x \<noteq> Inr () \<or>
     (\<exists>f. record_of J u = Some f \<and> sp_boot f = sp_boot (re_record r) \<and> sp_outcome f = Some (stop_outcome_of b) \<and>
       sp_received_at f = sp_received_at (re_record r)))"
proof -
  obtain at v where now: "unix_now W s = (Inr at, v)" by (metis ask_kept surj_pair)
  then obtain f where "recorder_flush W J f v = (x, u)"
    and "sp_boot (re_record f) = sp_boot (re_record r)" "sp_outcome (re_record f) = Some (stop_outcome_of b)"
      "sp_received_at (re_record f) = sp_received_at (re_record r)"
    using assms(1) by (auto simp: recorder_finish_def)
  then show ?thesis
    using flush_record [OF _ assms(2,3), of f v x u] ask_kept [OF now, of J] by auto
qed

section \<open>What is told is true\<close>

definition told :: "stop_system \<Rightarrow> stop_record \<Rightarrow> bool" where
  "told S r \<longleftrightarrow> (\<forall>oc. sp_outcome r = Some oc \<longrightarrow> (sp_boot r, oc) \<in> sy_finished S) \<and>
    (sp_received_at r \<noteq> None \<longrightarrow> sp_boot r \<in> sy_signalled S)"

definition honest :: "stop_system \<Rightarrow> classified_stop \<Rightarrow> bool" where
  "honest S c \<longleftrightarrow> (\<forall>b. cl_boot c = Some b \<longrightarrow>
    (\<forall>oc. cl_previous c = Recorded oc \<longrightarrow> (b, oc) \<in> sy_finished S) \<and>
    (cl_previous c = IncompleteAfterSigterm \<longrightarrow> b \<in> sy_signalled S))"

definition stop_inv :: "stop_codec \<Rightarrow> stop_system \<Rightarrow> bool" where
  "stop_inv J S \<longleftrightarrow>
    (\<forall>r. record_of J (sy_volume S) = Some r \<longrightarrow> told S r) \<and>
    (\<forall>r. sy_running S = Some r \<longrightarrow> told S (re_record r) \<and> honest S (re_previous r) \<and>
      sp_boot (re_record r) = boot_after (cl_boot (re_previous r)) \<and>
      seq_of (sy_volume S) = Some (sp_boot (re_record r)) \<and> (\<exists>bs. sy_boots S = sp_boot (re_record r) # bs)) \<and>
    (\<forall>b bs. sy_boots S = b # bs \<longrightarrow> (\<exists>n. seq_of (sy_volume S) = Some n \<and> b \<le> n)) \<and>
    (- 1 \<notin> set (sy_boots S) \<longrightarrow> sorted_wrt (>) (sy_boots S))"

lemma told_simps [simp]:
  "told (S\<lparr>sy_volume := v\<rparr>) = told S" "told (S\<lparr>sy_running := x\<rparr>) = told S" "told (S\<lparr>sy_boots := bs\<rparr>) = told S"
  "honest (S\<lparr>sy_volume := v\<rparr>) = honest S" "honest (S\<lparr>sy_running := x\<rparr>) = honest S"
  "honest (S\<lparr>sy_boots := bs\<rparr>) = honest S"
  by (simp_all add: fun_eq_iff told_def honest_def)

lemma cl_boot_classify [simp]: "cl_boot (classify_stop l r w) = l"
  by (simp add: classify_stop_def Let_def split: option.splits)

lemma classify_honest:
  "\<forall>x. r = Some x \<longrightarrow> told S x \<Longrightarrow> honest S (classify_stop l r w)"
  by (auto simp: honest_def classify_stop_def told_def Let_def split: option.splits if_splits)

lemma boot_after_ge: "boot_after (Some b) \<ge> b \<and> (boot_after (Some b) \<noteq> - 1 \<longrightarrow> boot_after (Some b) > b)"
  using word_less_succ [of b] by (auto simp: boot_after_def)

lemma told_mono:
  "told S r \<Longrightarrow> sy_finished S \<subseteq> sy_finished T \<Longrightarrow> sy_signalled S \<subseteq> sy_signalled T \<Longrightarrow> told T r"
  unfolding told_def by blast

lemma honest_mono:
  "honest S c \<Longrightarrow> sy_finished S \<subseteq> sy_finished T \<Longrightarrow> sy_signalled S \<subseteq> sy_signalled T \<Longrightarrow> honest T c"
  unfolding honest_def by blast

lemma stop_inv_boot:
  assumes inv: "stop_inv J S" and "stop_codec_ok J" "leaves_own W" "reads_answer W (sy_volume S)"
    and run: "recorder_begin W J entry (sy_volume S) = (res, t)"
  shows "stop_inv J (S\<lparr>sy_volume := t, sy_running := (case res of Inl _ \<Rightarrow> None | Inr r \<Rightarrow> Some r),
      sy_boots := (case res of Inl _ \<Rightarrow> sy_boots S | Inr r \<Rightarrow> sp_boot (re_record r) # sy_boots S)\<rparr>)" (is "stop_inv J ?T")
proof -
  note b = begin_leaves [OF run assms(3,4,2)]
  let ?n = "seq_of (sy_volume S)"
  have fresh: "told S (boot_record n entry at)" for n at by (simp add: told_def boot_record_def)
  have rec: "told S r" if "record_of J t = Some r" for r
    using that b inv fresh by (auto simp: stop_inv_def)
  have seq: "\<exists>m. seq_of t = Some m \<and> c \<le> m" if "sy_boots S = c # cs" for c cs
  proof -
    from inv that obtain n where n: "?n = Some n" "c \<le> n" by (auto simp: stop_inv_def)
    with b boot_after_ge [of n] show ?thesis by (metis order.trans)
  qed
  show ?thesis
  proof (cases res)
    case (Inl e)
    with inv rec seq show ?thesis by (auto simp: stop_inv_def)
  next
    case (Inr r)
    with b obtain w at where r: "re_previous r = classify_stop ?n (record_of J (sy_volume S)) w"
      "re_record r = boot_record (boot_after ?n) entry at" "seq_of t = Some (boot_after ?n)" by blast
    have "honest S (re_previous r)" unfolding r(1) by (rule classify_honest) (use inv in \<open>auto simp: stop_inv_def\<close>)
    moreover have boot: "sp_boot (re_record r) = boot_after ?n" by (simp add: r(2) boot_record_def)
    moreover have "sorted_wrt (>) (boot_after ?n # sy_boots S)"
      if max: "- 1 \<noteq> boot_after ?n" "- 1 \<notin> set (sy_boots S)"
    proof (cases "sy_boots S")
      case (Cons c cs)
      from inv Cons obtain n where n: "?n = Some n" "c \<le> n" by (auto simp: stop_inv_def)
      then have "c < boot_after ?n" using boot_after_ge [of n] max(1) by (metis order.strict_trans1)
      then show ?thesis using inv max(2) Cons by (auto simp: stop_inv_def)
    qed simp
    ultimately show ?thesis
      using Inr inv rec fresh r(1,3) unfolding stop_inv_def by (auto simp: r(2))
  qed
qed

lemma stop_inv_step:
  assumes "stop_step J S T" "stop_inv J S" "stop_codec_ok J"
  shows "stop_inv J T"
  using assms(1,2)
proof cases
  case (boot W entry res t)
  with assms(2,3) show ?thesis using stop_inv_boot by blast
next
  case (sigterm W r r' t)
  note l = received_leaves [OF sigterm(4,2) assms(3)]
  have up: "sy_finished S \<subseteq> sy_finished T" "sy_signalled S \<subseteq> sy_signalled T" using sigterm(1) by auto
  have "told T (re_record r')"
    using assms(2) sigterm l by (auto simp: stop_inv_def told_def)
  then show ?thesis
    using assms(2) sigterm l told_mono [OF _ up] honest_mono [OF _ up] unfolding stop_inv_def by auto
next
  case (finish W r b code res t)
  note l = finish_leaves [OF finish(4,2) assms(3)]
  have up: "sy_finished S \<subseteq> sy_finished T" "sy_signalled S \<subseteq> sy_signalled T" using finish(1) by auto
  have "told T f" if "record_of J t = Some f" for f
  proof (cases "record_of J t = record_of J (sy_volume S)")
    case True
    with that assms(2) told_mono [OF _ up] show ?thesis by (simp add: stop_inv_def)
  next
    case False
    with l that assms(2) finish show ?thesis by (auto simp: stop_inv_def told_def)
  qed
  then show ?thesis using assms(2) finish l unfolding stop_inv_def by auto
next
  case kill
  with assms(2) show ?thesis by (auto simp: stop_inv_def told_def)
next
  case (witness W n by_whom res t)
  with witness_kept [OF witness(3,2)] assms(2) show ?thesis
    by (auto simp: stop_inv_def told_def honest_def)
qed

lemma stop_inv_runs:
  assumes "stop_runs J S" "stop_codec_ok J"
  shows "stop_inv J S"
  using assms(1)
proof induction
  case (fresh v)
  then show ?case by (simp add: stop_inv_def record_of_def content_def)
next
  case (step S T)
  then show ?case using stop_inv_step assms(2) by blast
qed

text \<open>An outcome that was written is what the next boot tells.\<close>

lemma finish_then_boot:
  assumes "recorder_finish W J b code r s = (Inr (), t)" "seq_of s = Some (sp_boot (re_record r))"
    and "recorder_begin V J entry t = (Inr r', u)" "leaves_own W" "leaves_own V" "reads_answer V t" "stop_codec_ok J"
  shows "re_previous r' = \<lparr>cl_boot = Some (sp_boot (re_record r)), cl_previous = Recorded (stop_outcome_of b), cl_cause = Cause_recorded\<rparr>"
proof -
  from finish_leaves [OF assms(1,4,7)] obtain f where f: "record_of J t = Some f" "sp_boot f = sp_boot (re_record r)"
    "sp_outcome f = Some (stop_outcome_of b)" "seq_of t = Some (sp_boot (re_record r))" using assms(2) by auto
  from begin_leaves [OF assms(3,5,6,7)] obtain w where "re_previous r' = classify_stop (seq_of t) (record_of J t) w" by blast
  with f show ?thesis by (simp add: classify_stop_def Let_def)
qed

section \<open>The bounds compose\<close>

lemma add_phases_iff:
  "acc \<le> DURATION_MAX \<Longrightarrow> add_phases acc ps = (if acc + sum_list ps \<le> DURATION_MAX then Some (acc + sum_list ps) else None)"
proof (induction ps arbitrary: acc)
  case (Cons p ps)
  show ?case
  proof (cases "acc + p \<le> DURATION_MAX")
    case True
    with Cons.IH [OF True] show ?thesis by (simp add: checked_add_def add.assoc)
  next
    case False
    then have "\<not> acc + (p + sum_list ps) \<le> DURATION_MAX" by linarith
    with False show ?thesis by (simp add: checked_add_def)
  qed
qed simp

lemma check_composition_iff:
  "check_composition phases g r c = Inr () \<longleftrightarrow>
    sum_list phases \<le> DURATION_MAX \<and> g + r \<le> DURATION_MAX \<and> sum_list phases \<le> g \<and> g + r \<le> c"
proof -
  have "add_phases 0 phases = (if sum_list phases \<le> DURATION_MAX then Some (sum_list phases) else None)"
    using add_phases_iff [of 0 phases] by simp
  then show ?thesis
    by (cases "sum_list phases \<le> DURATION_MAX"; cases "g < sum_list phases"; cases "g + r \<le> DURATION_MAX")
      (simp_all add: check_composition_def or_error_def checked_add_def not_less not_le)
qed

lemma defaults_compose:
  "check_composition [first_phase STREAM_DRAIN, CONNECTION_DRAIN, DENIAL_DRAIN, STORE_SHUTDOWN] SERVE_GRACE RAUTHY_STOP
     CONTAINER_GRACE = Inr () \<and>
   check_service_overlap SERVICE_JOIN (first_phase STREAM_DRAIN) CONNECTION_DRAIN = Inr ()"
  unfolding check_composition_iff
  by (simp add: check_service_overlap_def saturating_add_def first_phase_def from_secs_def DURATION_MAX_def
      STREAM_DRAIN_def READINESS_WINDOW_def CONNECTION_DRAIN_def DENIAL_DRAIN_def STORE_SHUTDOWN_def
      SERVE_GRACE_def RAUTHY_STOP_def CONTAINER_GRACE_def SERVICE_JOIN_def)

text \<open>
  A boot sequence that cannot be read is read as none, and the count starts again: two boots of one
  volume then have one number, and what was recorded of the first is told of the second.
\<close>

lemma unreadable_count_restarts:
  assumes "ow_fault W (vo_calls s) = Fails" "recorder_begin W J entry s = (Inr r, t)"
  shows "sp_boot (re_record r) = 1 \<and> cl_boot (re_previous r) = None"
proof -
  have "read_boot_seq W s = (Inr None, \<lparr>vo_tree = ow_others W (vo_calls s) (vo_tree s), vo_calls = Suc (vo_calls s)\<rparr>)"
    by (simp add: read_boot_seq_def read_as_def on_result_def read_file_def sys_def assms(1))
  with assms(2) show ?thesis
    by (auto simp: recorder_begin_def obind_Inr_iff Let_def boot_after_def dest!: read_as_calls)
qed

end
