(* ===== verification/Ops_Theorems.thy ===== *)
theory Ops_Theorems
  imports Ops_Facts Ops_Stop "HOL-Library.Countable"
begin

text \<open>
  A machine, a volume of the old layout and a cell that stops and boots on it, and the properties of the
  operations: what a boot tells of the last stop, what the gate lets in, and that the relocation of the
  store loses nothing and can always go on or go back.
\<close>

section \<open>A machine and an old volume\<close>

definition ex_machine :: ops_world where
  "ex_machine =
     \<lparr>ow_fault = (\<lambda>_. Works), ow_others = (\<lambda>_ T. T), ow_ino = (\<lambda>T. 100 + length T), ow_pid = ''7'',
      ow_random = (\<lambda>_. Inr ''a''), ow_clock = (\<lambda>_. 5)\<rparr>"

definition ex_node :: "nat \<Rightarrow> file_kind \<Rightarrow> inode" where
  "ex_node i k = \<lparr>nd_id = \<lparr>st_dev = 1, st_ino = i\<rparr>, nd_kind = k\<rparr>"

definition ex_old_tree :: tree where
  "ex_old_tree =
     [([], ex_node 2 Directory),
      ([''hiqlite''], ex_node 3 Directory),
      ([''hiqlite'', ''logs''], ex_node 4 Directory),
      ([''hiqlite'', ''logs_cache''], ex_node 6 Directory),
      ([''hiqlite'', ''state_machine''], ex_node 7 Directory),
      ([''hiqlite'', ''state_machine'', ''db''], ex_node 8 Directory),
      ([''hiqlite'', ''state_machine'', ''db'', ''hiqlite.db''], ex_node 9 (Regular ''rows'')),
      ([''app-store''], ex_node 10 Directory),
      ([''app-store'', ''state_machine''], ex_node 11 Directory),
      ([''upgrade-cache''], ex_node 12 Directory),
      ([''upgrade-cache'', ''aside''], ex_node 13 Directory),
      ([''upgrade-cache'', ''aside'', ''a''], ex_node 14 Directory)]"

definition ex_upgrade_world :: upgrade_world where
  "ex_upgrade_world =
     \<lparr>ow_fault = (\<lambda>_. Works), ow_others = (\<lambda>_ T. T), ow_ino = (\<lambda>T. 100 + length T), ow_pid = ''7'',
      ow_random = (\<lambda>_. Inr ''a''), ow_clock = (\<lambda>_. 5), uw_encode = (\<lambda>r. phase_name (tr_phase r)), uw_decode = (\<lambda>_. None),
      uw_env = (\<lambda>_. False), uw_try_lock = (\<lambda>_ _ _. Inr True), uw_lock_held = (\<lambda>_ _. Inr False),
      uw_sqlite_holder = (\<lambda>_ _. Inr None), uw_archive = (\<lambda>_. Inr ''digest''), uw_open_store = (\<lambda>_ T. (Inr (), T)),
      uw_raise_floor = (\<lambda>_ _ _ T. (Inr (), T)), uw_shutdown = (\<lambda>_ T. (Inr (), T)), uw_version = ''0.1'',
      uw_fence_text = ''fence''\<rparr>"

definition ex_plan :: "planned_move list" where
  "ex_plan =
     [\<lparr>pm_source = [''hiqlite'', ''logs''], pm_destination = [''app-store'', ''logs''],
       pm_identity = \<lparr>st_dev = 1, st_ino = 4\<rparr>\<rparr>,
      \<lparr>pm_source = [''hiqlite'', ''state_machine'', ''db''], pm_destination = [''app-store'', ''state_machine'', ''db''],
       pm_identity = \<lparr>st_dev = 1, st_ino = 8\<rparr>\<rparr>,
      \<lparr>pm_source = [''hiqlite'', ''logs_cache''], pm_destination = [''upgrade-cache'', ''aside'', ''a'', ''logs_cache''],
       pm_identity = \<lparr>st_dev = 1, st_ino = 6\<rparr>\<rparr>]"

definition ex_relocating :: transition where
  "ex_relocating =
     (transition_begin ''a'')\<lparr>tr_phase := Relocating, tr_target := Some [''upgrade-cache'', ''aside'', ''a''], tr_plan := ex_plan\<rparr>"

definition ex_old_volume :: volume where
  "ex_old_volume = \<lparr>vo_tree = ex_old_tree, vo_calls = 0\<rparr>"

lemma ex_quiet: "quiet ex_upgrade_world" "quiet ex_machine" "others_keep ex_upgrade_world"
  by (simp_all add: quiet_def alone_def others_keep_def ex_upgrade_world_def ex_machine_def)

lemma ex_fits: "fits ex_plan (vo_tree ex_old_volume)"
  by code_simp

text \<open>A stop codec out of the enumerations of the library.\<close>

instance stop_reason :: countable by countable_datatype
instance stop_outcome :: countable by countable_datatype

definition record_tuple where
  "record_tuple r =
     (sp_boot r, sp_entry r, sp_started_at r, sp_received_at r, sp_outcome r,
      map (\<lambda>p. (pt_phase p, pt_millis p, pt_bound_millis p)) (sp_phases r), sp_exited_at r, sp_exit_code r)"

definition tuple_record :: "_ \<Rightarrow> stop_record" where
  "tuple_record = (\<lambda>(b, e, s, rc, oc, ps, x, c).
     \<lparr>sp_boot = b, sp_entry = e, sp_started_at = s, sp_received_at = rc, sp_outcome = oc,
      sp_phases = map (\<lambda>(a, m, n). \<lparr>pt_phase = a, pt_millis = m, pt_bound_millis = n\<rparr>) ps, sp_exited_at = x, sp_exit_code = c\<rparr>)"

definition ex_codec :: stop_codec where
  "ex_codec =
     \<lparr>sc_record = (\<lambda>r. show_nat (to_nat (record_tuple r))),
      sc_parse_record = (\<lambda>s. Some (tuple_record (from_nat (digits_value s)))),
      sc_witness = (\<lambda>w. show_nat (to_nat (kw_boot w, kw_by w, kw_at w))),
      sc_parse_witness = (\<lambda>s. case from_nat (digits_value s) of (b, y, a) \<Rightarrow> Some \<lparr>kw_boot = b, kw_by = y, kw_at = a\<rparr>)\<rparr>"

lemma ex_codec_ok: "stop_codec_ok ex_codec"
proof -
  have "map (\<lambda>p. \<lparr>pt_phase = pt_phase p, pt_millis = pt_millis p, pt_bound_millis = pt_bound_millis p\<rparr>) ps = ps" for ps
    by (simp add: map_idI)
  then show ?thesis
    by (simp add: stop_codec_ok_def ex_codec_def digits_value_show tuple_record_def record_tuple_def comp_def)
qed

definition ex_empty :: volume where
  "ex_empty = \<lparr>vo_tree = [([], ex_node 2 Directory)], vo_calls = 0\<rparr>"

definition ex_boot :: "(error + recorder) \<times> volume" where
  "ex_boot = recorder_begin ex_machine ex_codec ''serve'' ex_empty"

lemma ex_pid: "ow_pid ex_machine = ''7''"
  by (simp add: ex_machine_def)

lemma ex_boots: "\<exists>r t. ex_boot = (Inr r, t)"
  by (simp add: ex_boot_def recorder_begin_def recorder_flush_def read_boot_seq_def read_record_def read_witness_def read_as_def
      read_file_def unix_now_def ask_machine_def write_replacing_def create_file_def write_all_def sync_file_def fsync_dir_def rename_over_def
      quiet_sys [OF ex_quiet(2)] later_def obind_def on_result_def Let_def ex_empty_def ex_node_def can_hold_def is_dir_at_def
      dev_at_def id_at_def new_node_def temp_of_def moved_def beneath_def STOP_FILE_def BOOT_SEQ_FILE_def WITNESS_FILE_def
      ex_pid)

section \<open>The properties\<close>

text \<open>
  C37: The stop a boot tells of is the stop that was. However often a cell boots, is stopped, crashes or is
  witnessed on one volume, and wherever a call fails or the process dies: the number of a boot follows the
  number it tells of, the numbers grow strictly until they saturate, an outcome it tells was recorded by
  that very boot and an incomplete stop was signalled; and an outcome that was written is what the next
  boot tells. Other processes leave the two files alone, and the three reads of a boot answer.\<close>

theorem previous_stop_is_honest:
  assumes "stop_codec_ok J" "stop_runs J S" "sy_running S = Some r"
  shows "sp_boot (re_record r) = boot_after (cl_boot (re_previous r)) \<and>
    (- 1 \<notin> set (sy_boots S) \<longrightarrow> sorted_wrt (>) (sy_boots S)) \<and>
    (\<forall>b. cl_boot (re_previous r) = Some b \<longrightarrow>
      (\<forall>oc. cl_previous (re_previous r) = Recorded oc \<longrightarrow> (b, oc) \<in> sy_finished S) \<and>
      (cl_previous (re_previous r) = IncompleteAfterSigterm \<longrightarrow> b \<in> sy_signalled S)) \<and>
    (\<forall>(W :: ops_world) V ob code t entry r' u.
      leaves_own W \<longrightarrow> recorder_finish W J ob code r (sy_volume S) = (Inr (), t) \<longrightarrow>
      leaves_own (V :: ops_world) \<longrightarrow> reads_answer V t \<longrightarrow> recorder_begin V J entry t = (Inr r', u) \<longrightarrow>
      re_previous r' =
        \<lparr>cl_boot = Some (sp_boot (re_record r)), cl_previous = Recorded (stop_outcome_of ob), cl_cause = Cause_recorded\<rparr>)"
proof -
  have "stop_inv J S" using assms(1,2) by (rule stop_inv_runs [rotated])
  then have "honest S (re_previous r)" "sp_boot (re_record r) = boot_after (cl_boot (re_previous r))"
    "seq_of (sy_volume S) = Some (sp_boot (re_record r))" "- 1 \<notin> set (sy_boots S) \<longrightarrow> sorted_wrt (>) (sy_boots S)"
    using assms(3) by (auto simp: stop_inv_def)
  then show ?thesis
    using finish_then_boot [OF _ _ _ _ _ _ assms(1)] unfolding honest_def by blast
qed

theorem previous_stop_is_honest_witness:
  "\<exists>S r. stop_runs ex_codec S \<and> sy_running S = Some r \<and> sy_boots S = [1] \<and>
    sp_boot (re_record r) = boot_after (cl_boot (re_previous r))"
proof -
  obtain r t where boot: "recorder_begin ex_machine ex_codec ''serve'' ex_empty = (Inr r, t)"
    using ex_boots by (auto simp: ex_boot_def)
  let ?S = "\<lparr>sy_volume = ex_empty, sy_running = None, sy_boots = [], sy_signalled = {}, sy_finished = {}\<rparr>"
  have quiet: "leaves_own ex_machine" "reads_answer ex_machine ex_empty"
    by (simp_all add: leaves_own_def reads_answer_def ex_machine_def)
  have fresh: "stop_runs ex_codec ?S"
    by (rule stop_runs.fresh) (simp add: ex_empty_def STOP_FILE_def)
  from stop_runs.step [OF fresh stop_step.boot [of ex_machine]] boot quiet
  have runs: "stop_runs ex_codec (?S\<lparr>sy_volume := t, sy_running := Some r, sy_boots := [sp_boot (re_record r)]\<rparr>)"
    by fastforce
  have "seq_of ex_empty = None" by (simp add: seq_of_def content_def ex_empty_def BOOT_SEQ_FILE_def)
  with begin_leaves [OF boot quiet ex_codec_ok] have "sp_boot (re_record r) = 1"
    by (auto simp: boot_record_def boot_after_def)
  with previous_stop_is_honest [OF ex_codec_ok runs, of r] runs show ?thesis
    by (intro exI conjI) auto
qed

text \<open>
  C38: The gate lets in behind a fence. When no one else changes the volume, an entry is let in only when no
  refused variable is set, only holding the cell lock (a verb on the store of a running cell excepted), only at a
  phase of the transition it accepts, and, unless it is the transition itself or a first boot, only behind
  the fence that keeps a binary of the old layout out: the legacy directory stands, holds no database,
  and its marker is a fence of this version.\<close>

theorem gate_lets_in_behind_a_fence:
  assumes "alone W" "enter_gate W e s = (Inr g, t)"
  shows "(\<forall>x \<in> set REFUSED_ENV. \<not> uw_env W x) \<and> (gt_owns_cell g \<or> e = StoreVerb True) \<and>
    accepts_phase e (map_option tr_phase (gt_record g)) \<and> (needs_fence e \<longrightarrow> fenced (vo_tree t))"
proof -
  have env: "\<not> (\<exists>x \<in> set REFUSED_ENV. uw_env W x)"
  proof
    assume "\<exists>x \<in> set REFUSED_ENV. uw_env W x"
    then have "enter_gate W e = fail (Config ''a refused variable is set'')" unfolding enter_gate_def by (rule if_P)
    with assms(2) show False by simp
  qed
  obtain owns r l f b s1 s2 s3 where
    locks: "gate_locks W e s1 = (Inr owns, s2)" and fences: "gate_fences W e owns r s3 = (Inr (l, f, b), t)"
    and fin: "accepts_phase e (map_option tr_phase r)" "needs_fence e \<Longrightarrow> \<not> is_other l \<and> l \<noteq> Legacy_absent"
      "gt_owns_cell g = owns" "gt_record g = r"
    using assms(2) env unfolding enter_gate_def by (auto elim!: obind_InrE split: if_split_asm prod.split_asm)
  have "owns \<or> e = StoreVerb True"
    using locks unfolding gate_locks_def by (auto elim!: obind_InrE split: if_split_asm)
  moreover have "fenced (vo_tree t)" if n: "needs_fence e"
  proof -
    from fin(2) [OF n] obtain m d where "l = Legacy_fence m d" by (cases l) (auto simp: is_other_def)
    with gate_fences_fenced [OF assms(1)] fences show ?thesis by blast
  qed
  ultimately show ?thesis using env fin by blast
qed

theorem gate_lets_in_behind_a_fence_witness:
  "\<exists>g t. enter_gate ex_upgrade_world Serve ex_empty = (Inr g, t) \<and> gt_owns_cell g \<and> fenced (vo_tree t)"
proof -
  have alone: "alone ex_upgrade_world" by (simp add: alone_def ex_upgrade_world_def)
  have "case fst (enter_gate ex_upgrade_world Serve ex_empty) of Inr g \<Rightarrow> gt_owns_cell g | Inl _ \<Rightarrow> False"
    by code_simp
  then obtain g t where run: "enter_gate ex_upgrade_world Serve ex_empty = (Inr g, t)" "gt_owns_cell g"
    by (cases "enter_gate ex_upgrade_world Serve ex_empty") (auto split: sum.split_asm)
  with gate_lets_in_behind_a_fence [OF alone run(1)] show ?thesis
    by (auto simp: needs_fence_def)
qed

text \<open>
  C39: The relocation loses nothing. From the record of the guard to the record that the store is
  relocated, whatever phase goes on or evidence is recovered, in any order, any number of times, by any
  processes, wherever calls fail or a process dies, and whatever other processes do that keep what is
  stored: every file that was stored under an identity still is, with its content.\<close>

theorem relocation_loses_nothing:
  assumes "relocation_steps s t"
  shows "stored (vo_tree s) \<subseteq> stored (vo_tree t)"
  using assms by (rule relocation_keeps)

theorem relocation_loses_nothing_witness:
  "stored (vo_tree ex_old_volume) \<subseteq> stored (vo_tree (snd (upgrade_phase ex_upgrade_world ex_relocating ex_old_volume)))"
proof (rule relocation_loses_nothing)
  have "transition_named ex_relocating"
    by (simp add: transition_named_def ex_relocating_def ex_plan_def transition_begin_def in_store_def STORE_ROOTS_def APP_STORE_def WORK_def)
  moreover have "relocates (tr_phase ex_relocating)" by (simp add: relocates_def ex_relocating_def)
  ultimately show "relocation_steps ex_old_volume (snd (upgrade_phase ex_upgrade_world ex_relocating ex_old_volume))"
    using relocation_steps.phase [OF relocation_steps.start ex_quiet(3)] by (metis prod.collapse)
qed

text \<open>
  C40: The relocation can go on and go back. Let every entry of the plan stand at its source or its
  destination. However many attempts to go on or to go back failed or died at whatever call: once the
  calls work, going on moves every entry to its destination with nothing displaced, and going back
  returns every entry to its source.\<close>

theorem relocation_goes_on_or_back:
  assumes "fits plan (vo_tree s)" "attempts plan s t" "quiet (W :: upgrade_world)"
  shows "(\<exists>u. move_plan W plan t = (Inr [], u) \<and> (\<forall>p \<in> set plan. arrived (vo_tree u) p)) \<and>
    (\<exists>u. each_op (return_planned W) (rev plan) t = (Inr (), u) \<and> (\<forall>p \<in> set plan. returned (vo_tree u) p))"
proof -
  have fits: "fits plan (vo_tree t)" using assms(1,2) by (rule attempts_fit [rotated])
  from move_plan_quiet [OF assms(3) _ fits, of plan] return_quiet [OF assms(3) _ fits, of "rev plan"]
  show ?thesis by (simp only: set_rev) blast
qed

text \<open>Here the process dies in the move of the second entry, with its effect done.\<close>

definition ex_dying :: upgrade_world where
  "ex_dying = ex_upgrade_world\<lparr>ow_fault := \<lambda>k. if k = 9 then Dies else Works\<rparr>"

theorem relocation_goes_on_or_back_witness:
  "\<exists>u. each_op (return_planned ex_upgrade_world) (rev ex_plan) (snd (move_plan ex_dying ex_plan ex_old_volume)) = (Inr (), u) \<and>
    (\<forall>p \<in> set ex_plan. returned (vo_tree u) p)"
proof -
  have "alone ex_dying" by (simp add: alone_def ex_dying_def ex_upgrade_world_def)
  then have "attempts ex_plan ex_old_volume (snd (move_plan ex_dying ex_plan ex_old_volume))"
    by (metis attempts.onward attempts.start prod.collapse)
  from relocation_goes_on_or_back [OF ex_fits this ex_quiet(1)] show ?thesis by blast
qed

end
