(* ===== verification/Spec2Isabelle.thy ===== *)
theory Spec2Isabelle
  imports Ledger_Theorems Kernel_Theorems Store_Theorems Migration_Theorems Idp_Theorems Edge_Theorems Ops_Theorems
begin

text \<open>
  A verification library for rahi, a chassis for governed applications: every permission of an
  application is declared in one manifest, every refusal becomes a record in a signed, hash-chained
  ledger, and the ledger lives in a replicated database with sealed segments in an archive.

  \<^bold>\<open>The program and its parts.\<close> \<^verbatim>\<open>src/crates/rahi-types\<close> holds the error type and the revision.
  \<^verbatim>\<open>src/crates/rahi-ledger\<close> is the decision chain: \<^verbatim>\<open>record.rs\<close> and \<^verbatim>\<open>signer.rs\<close> build and sign a record,
  \<^verbatim>\<open>append.rs\<close> appends by compare-and-swap on the unique parent of a record, \<^verbatim>\<open>seal.rs\<close> moves the
  oldest run into the archive of \<^verbatim>\<open>archive.rs\<close>, \<^verbatim>\<open>identity.rs\<close> keeps one row per decision id for the
  life of the chain, \<^verbatim>\<open>chain.rs\<close> and \<^verbatim>\<open>verify.rs\<close> read and verify it, and \<^verbatim>\<open>transition.rs\<close> and
  \<^verbatim>\<open>epoch.rs\<close> record manifest changes and deployments in it. \<^verbatim>\<open>src/crates/rahi-kernel\<close> is the
  governance seam: \<^verbatim>\<open>capability.rs\<close> and \<^verbatim>\<open>manifest.rs\<close> declare the ceiling, \<^verbatim>\<open>adjudicate.rs\<close> decides a
  request against it, \<^verbatim>\<open>facade.rs\<close> is the only door to the store, \<^verbatim>\<open>lib.rs\<close> queues each refusal for the
  ledger, \<^verbatim>\<open>observe.rs\<close> counts them, and \<^verbatim>\<open>verify.rs\<close> checks a crate's sources against the manifest
  when it is built. \<^verbatim>\<open>src/crates/rahi-store\<close> is the replicated store both stand on; modelled of it
  are the tables that coordinate the processes of a cluster: leases with fencing tokens (\<^verbatim>\<open>lock.rs\<close>),
  receipts of inbound items (\<^verbatim>\<open>receipt.rs\<close>), work claims with their retries and sweep (\<^verbatim>\<open>work.rs\<close>),
  the outbox and the revision watermark (\<^verbatim>\<open>outbox.rs\<close>, \<^verbatim>\<open>watermark.rs\<close>), and the migrations of an
  application and of the libraries it links (\<^verbatim>\<open>migration_set.rs\<close>, \<^verbatim>\<open>migrate.rs\<close>).
  \<^verbatim>\<open>src/crates/rahi-idp\<close> authenticates: browsers by a sealed cookie and an assertion in the cache
  (\<^verbatim>\<open>envelope.rs\<close>, \<^verbatim>\<open>session.rs\<close>, \<^verbatim>\<open>login.rs\<close>, \<^verbatim>\<open>refresh.rs\<close>, \<^verbatim>\<open>extractor.rs\<close>), programs by an access token
  (\<^verbatim>\<open>bearer.rs\<close>, \<^verbatim>\<open>jwks.rs\<close>, \<^verbatim>\<open>scope.rs\<close>) that the store can revoke (\<^verbatim>\<open>revoke.rs\<close>); a refusal of either
  goes through the kernel into the ledger. \<^verbatim>\<open>src/crates/rahi-edge\<close> is the HTTP edge all of them are
  served through: the layers in front of an application's handlers (\<^verbatim>\<open>middleware\<close>, \<^verbatim>\<open>operator.rs\<close>,
  \<^verbatim>\<open>client_identity.rs\<close>), the router that puts them on and the table of what it exposes (\<^verbatim>\<open>router.rs\<close>,
  \<^verbatim>\<open>exposure.rs\<close>, \<^verbatim>\<open>probes.rs\<close>), and event streams with their budget and shutdown (\<^verbatim>\<open>stream.rs\<close>).
  \<^verbatim>\<open>src/crates/rahi-ops\<close> runs a cell on its data volume: the gate every entry point passes (\<^verbatim>\<open>cell_lock.rs\<close>),
  the record of how each process stopped (\<^verbatim>\<open>stop.rs\<close>) and the verb that carries a store of the old layout
  to the new one or back (\<^verbatim>\<open>upgrade.rs\<close>). The kernel boots on the ledger: its manifest hash must be the chain's current
  manifest, and the chain's head seeds its decision ids.

  \<^bold>\<open>Shared theories.\<close> \<^verbatim>\<open>Prelude\<close>: results as sums (\<open>Inl\<close> is \<^verbatim>\<open>Err\<close>), \<^verbatim>\<open>str\<close> methods on byte
  strings, loops over sets that refuse a repetition. \<^verbatim>\<open>Rahi_Types\<close>: the error variants and exit
  codes; messages are abbreviated to tags that name the refusing branch.

  \<^bold>\<open>The ledger.\<close> \<^verbatim>\<open>Ledger_Data\<close> and \<^verbatim>\<open>Ledger_Record\<close>: the data types and the record \<open>env\<close> of the
  third-party functions (JSON, canonical text, SHA-256, the chain verifier, ed25519, SQLite's text),
  with the laws the crate relies on (\<open>env_ok\<close>, \<open>codecs_ok\<close>, \<open>transition_codec\<close>, \<open>transition_hashes\<close>).
  \<^verbatim>\<open>Hash_List\<close>: ordering of hash-linked lists, as the locale \<open>parent_order\<close> that \<^verbatim>\<open>Ledger_Verify\<close>
  interprets on the chain and on the segments. \<^verbatim>\<open>Ledger_Archive\<close>: the write-once archive and the locale
  \<open>write_once\<close>. \<^verbatim>\<open>Ledger_Db\<close>: the five tables, the statements sent to them and the transaction.
  \<^verbatim>\<open>Ledger_Cell\<close>: the state of one handle and the \<open>world\<close>: for each store call, what others committed
  before it, whether it was answered, and how much of the answer came back; the locale
  \<open>guarantee\<close> carries a relation through every operation. \<^verbatim>\<open>Ledger_Chain\<close>, \<^verbatim>\<open>Ledger_Identity\<close>,
  \<^verbatim>\<open>Ledger_Append\<close>, \<^verbatim>\<open>Ledger_Seal\<close> and \<^verbatim>\<open>Ledger_Epoch\<close> hold the operations of \<^verbatim>\<open>chain.rs\<close>,
  \<^verbatim>\<open>identity.rs\<close>, \<^verbatim>\<open>append.rs\<close>, \<^verbatim>\<open>seal.rs\<close> with the open of \<^verbatim>\<open>chain.rs\<close>, and \<^verbatim>\<open>transition.rs\<close> with
  \<^verbatim>\<open>epoch.rs\<close>. \<^verbatim>\<open>Chain_Facts\<close>, \<^verbatim>\<open>Identity_Facts\<close>, \<^verbatim>\<open>Append_Facts\<close> and \<^verbatim>\<open>Lookup_Facts\<close> show what each promises under interference. \<^verbatim>\<open>Chain_History\<close> is the abstract
  ledger, one list of records from the genesis to the head; it and
  \<^verbatim>\<open>Seal_Runs\<close> show that the operations refine it. \<^verbatim>\<open>Ledger_Lifetime\<close> is the step relation of every
  transaction the crate commits, with the invariant that one id names one decision for ever.

  \<^bold>\<open>The kernel.\<close> \<^verbatim>\<open>Kernel_Capability\<close> is \<^verbatim>\<open>capability.rs\<close>; \<^verbatim>\<open>Kernel_Manifest\<close> is the data,
  validation and grants of \<^verbatim>\<open>manifest.rs\<close>; \<^verbatim>\<open>Kernel_Gate\<close> is \<^verbatim>\<open>adjudicate.rs\<close> and the manifest's hash,
  over the record \<open>gate_api\<close> of the third-party gate, TOML, JSON and SHA-256, with \<open>gate_laws\<close>.
  \<^verbatim>\<open>Manifest_Facts\<close> has the rule book \<open>manifest_ok\<close> that validation decides; \<^verbatim>\<open>Gate_Facts\<close> shows deny
  by default, and that the hashed model keeps every field. \<^verbatim>\<open>Kernel_Queue\<close> is
  \<^verbatim>\<open>observe.rs\<close> and the denial queue, the appender task as the step relation \<open>appender_step\<close>;
  \<^verbatim>\<open>Queue_Facts\<close> has its invariant and its liveness. \<^verbatim>\<open>Kernel_Runtime\<close> is the
  kernel of \<^verbatim>\<open>lib.rs\<close> and the facades of \<^verbatim>\<open>facade.rs\<close>, with \<open>kernel_step\<close>; \<^verbatim>\<open>Runtime_Facts\<close> has its
  invariant, admission, facades and boot. \<^verbatim>\<open>Kernel_Scan\<close> is \<^verbatim>\<open>verify.rs\<close> and \<^verbatim>\<open>Scan_Facts\<close> what a
  verified crate guarantees.

  \<^bold>\<open>The store.\<close> \<^verbatim>\<open>Operations\<close>: the shape of every asynchronous call, shared with the ledger.
  \<^verbatim>\<open>Store_Tables\<close>: the tables as records, a statement as its SQLite meaning, \<open>run_txn\<close> as one Raft entry,
  and the locale \<open>batch_relation\<close> that carries a relation through a batch. \<^verbatim>\<open>Store_Handle\<close>: one
  process's handle and the \<open>store_world\<close>: what others commit before each request, whether it is
  answered and how much of the answer returns. \<^verbatim>\<open>Store_Lease\<close>, \<^verbatim>\<open>Store_Receipt\<close>, \<^verbatim>\<open>Store_Work\<close>,
  \<^verbatim>\<open>Store_Claims\<close> and \<^verbatim>\<open>Store_Outbox\<close> hold the operations, the first also the rewriting of a fenced
  statement's text. \<^verbatim>\<open>Work_System\<close> is the step
  relation of a whole cluster, one request of one process or one staged batch at a time;
  \<^verbatim>\<open>Work_Invariant\<close> and \<^verbatim>\<open>Work_Reach\<close> show its invariant, \<^verbatim>\<open>Work_Facts\<close>
  what it gives a claim, \<^verbatim>\<open>Work_History\<close> that the attempt table is an exact history, \<^verbatim>\<open>Work_Reserve\<close>
  what an undisturbed reservation does. \<^verbatim>\<open>Receipt_Facts\<close> shows that digests identify, given an injective hash; it and \<^verbatim>\<open>Receipt_Swap\<close> the invariant of the
  receipt tables, the compare and swap of staging and the permanence of an erasure;
  \<^verbatim>\<open>Store_Behaviour\<close> what single calls promise. \<^verbatim>\<open>Store_Migrations\<close> holds the sets, their validation
  and the plan; \<^verbatim>\<open>Migration_Plan\<close> shows the search for a cycle exact, and that the plan
  is lawful and never stuck. \<^verbatim>\<open>Store_Migrate\<close> is the runner over its two version tables, whose other
  tables are a parameter; \<^verbatim>\<open>Migration_Resume\<close> shows what every run leaves under interference, as the
  locale \<open>migrator_world\<close>, and what an undisturbed one does.

  \<^bold>\<open>The identity crate.\<close> \<^verbatim>\<open>Idp_Data\<close>: claims, cookies, envelopes and tokens over the record \<open>idp_api\<close> of
  base64, JSON, HMAC, SHA-256 and RSA. \<^verbatim>\<open>Idp_State\<close>: one process, with its handle of the revocation tables,
  its key sets, its part of the cache and its counters, and the \<open>idp_world\<close> that says what the clock,
  the cache, the random source and the identity provider answer to each call. \<^verbatim>\<open>Idp_Session\<close> and
  \<^verbatim>\<open>Idp_Bearer\<close> hold the operations, with a request and a response reduced to what the layers read and
  write; \<open>authorize\<close> takes the writing of a query as a parameter. \<^verbatim>\<open>Idp_Facts\<close> shows what the pure
  parts do, and that revocations accumulate and keys are published ones over every step of the
  process (\<open>idp_step\<close>, \<open>idp_runs\<close>), under the locale \<open>revoking_world\<close>; \<^verbatim>\<open>Idp_Admission\<close> what validation lets
  through; \<^verbatim>\<open>Idp_Ownership\<close> that sessions keep their subject (\<open>sessions_run\<close>), under the locale
  \<open>expiring_cache\<close>. Their hypotheses: whoever else writes the tables only revokes, a read through the
  leader answers whole or fails, the cache only loses entries, two random draws differ, and a cookie
  that opens was sealed here.

  \<^bold>\<open>The edge.\<close> \<^verbatim>\<open>Edge_Stream\<close> holds a stream as one record (its channel, the state its producer and its
  body share, the stage of the task that holds its receiving end, and as ghost fields what it accepted and
  wrote) and the hub as the streams of a process, its counts, the closes that owe it a place and its drains.
  \<open>hub_step\<close> is one section between two locks, of an emit, an attach, a poll, a close or a drain, \<open>hub_runs\<close>
  the interleavings of these sections, and \<open>hub_ok\<close> the invariant. \<^verbatim>\<open>Edge_Router\<close> holds every layer as
  a function from the handler behind it to a handler, over the state of \<^verbatim>\<open>Idp_State\<close> with its counters, clock and
  kernel; \<open>mount_handler\<close> composes them in the order \<open>assemble\<close> puts them on. The framework's path
  matching and the parsers of addresses are parameters. \<^verbatim>\<open>Edge_Theorems\<close> shows for each layer whether it
  turns a request away or at which state it asks the handler (\<open>turns_away\<close>, \<open>asks_at\<close>), and that admitted requests stay under their ceiling whatever the others count, given a
  counter that is not lost.

  \<^bold>\<open>The operations.\<close> \<^verbatim>\<open>Ops_Volume\<close> is the data volume as an association list of paths with their nodes
  and identities; a call of the file system is one step, before which others may change the volume
  (\<open>ow_others\<close>), and which works, fails without an effect, or is the last of a process that dies
  (\<open>ow_fault\<close>), so that every run that is cut anywhere is a run of the model. \<^verbatim>\<open>Ops_Stop\<close> holds
  \<^verbatim>\<open>stop.rs\<close> and \<open>stop_step\<close>, the lives of a cell on one volume, with its invariant \<open>stop_inv\<close>. \<^verbatim>\<open>Ops_Fence\<close>
  holds the transition record, the fences and the gate; \<^verbatim>\<open>Ops_Upgrade\<close> the phases, the verb and its abort.
  The world of a process says what locks, the environment, the archive and the node of the store answer
  (\<open>upgrade_world\<close>). \<^verbatim>\<open>Ops_Facts\<close> shows, as interpretations of the locale \<open>guarantee\<close>, that
  no phase from the guard to the floor loses a stored file and that a plan stays in its places, then that it can always be
  finished or undone, and what the gate lets in. Their hypotheses: other processes leave the
  two files of the stop record alone, or keep what is stored, or do nothing while the verb holds the locks.

  \<^bold>\<open>Examples and properties.\<close> \<^verbatim>\<open>Example_Env\<close>, \<^verbatim>\<open>Example_Cell\<close>, \<^verbatim>\<open>Example_Kernel\<close>,
  \<^verbatim>\<open>Example_Store\<close>, the head of \<^verbatim>\<open>Migration_Theorems\<close> and \<^verbatim>\<open>Example_Idp\<close> build concrete third-party functions that meet
  the laws, and a store, ledger, manifest, kernel, cluster and identity provider over them. The
  properties C1 to C10 are in \<^verbatim>\<open>Ledger_Theorems\<close>, C11 to C17 in \<^verbatim>\<open>Kernel_Theorems\<close>, C18 to C22 in
  \<^verbatim>\<open>Store_Theorems\<close>, C23 to C26 in \<^verbatim>\<open>Migration_Theorems\<close>, C27 to C31 in \<^verbatim>\<open>Idp_Theorems\<close>, C32 to C36 in
  \<^verbatim>\<open>Edge_Theorems\<close> and C37 to C40 in \<^verbatim>\<open>Ops_Theorems\<close>, whose head builds a volume and a machine, each with
  an application to those examples where it has hypotheses.

  \<^bold>\<open>Bounds.\<close> An append makes at most twelve attempts, hence at most 109 store calls, and its loop
  recurses on the attempts left; its waits stay below two seconds in all. A flush polls every two
  milliseconds, so fuel of its bound over that, and one, is enough. The scans of the build step
  recurse on the text left behind the call they read. The loop of the upgrade has eight rounds, because every
  round before the last raises the phase (\<open>rounds_enough\<close>). A revision, a counter and a lifetime are 64-bit
  words; times are in microseconds.

  \<^bold>\<open>Not modelled.\<close> Signing, hashing, JSON, TOML, SQL and the gate are third-party: parameters with
  named laws. The S3 client of the archive, the upgrade of old tables, the file walk of the build step
  and the test seams are input and output or test support. A panic of the process is not modelled; a
  call that is cut off is an answer that is lost. Opening and running a node of the database, blobs
  and backups are input and output. Of the identity crate, the calls that install the provider,
  register clients and forward requests to it are left out. Of the edge, spans and metrics,
  static files and served documents are left out, and a request and a response are reduced to what the
  layers read and write. Of the operations, supervision of child processes, restore, preflight, keys and archives
  and the calls of the identity provider are left out, and so are the holds of the test harness in the verb; a call that worked is
  taken as durable. The command line parses arguments and wires the crates.
\<close>

end
